(* ===== verification/Prelude.thy ===== *)
theory Prelude
  imports Main "HOL-Library.Word"
begin

text \<open>
  What the components share: results and panics, the machine integers of the Rust standard
  library and their checked and saturating operations, and byte strings in either order. The
  ordered map the program iterates in key order (\<open>BTreeMap\<close>, \<open>OrdMap\<close>) is in \<open>OrdMap\<close>, the
  interfaces several components provide and rely on are in \<open>Interfaces\<close>.

  The integers are kept at their width. The operators \<open>+\<close>, \<open>-\<close> and \<open>*\<close> on \<open>'a word\<close>
  wrap around, as Rust's do in the release profile of this workspace, which does not set
  \<open>overflow-checks\<close>; \<open>checked_*\<close> and \<open>saturating_*\<close> are written out below.
\<close>

section \<open>Types\<close>

type_synonym u8 = "8 word"
type_synonym u16 = "16 word"
type_synonym u32 = "32 word"
type_synonym u64 = "64 word"
type_synonym u128 = "128 word"
type_synonym u256 = "256 word"

named_theorems unat_arith_simps \<open>how \<open>unat\<close> reads the machine integer operations\<close>
named_theorems result_simps \<open>when an operation that may fail succeeds\<close>

section \<open>Results\<close>

text \<open>
  An operation returns \<open>Inr\<close> its value or \<open>Inl\<close> an error. \<open>Panic\<close> stands for every
  \<open>panic!\<close>, \<open>unwrap\<close>, \<open>expect\<close> or \<open>unreachable!\<close>; \<open>Diverges\<close> for a loop that does not end; \<open>Bail\<close> for an \<open>anyhow\<close> error, named
  by a tag; the others are the variants of \<open>fixpoint::Error\<close>.
\<close>

datatype error =
    Panic
  | Diverges
  | Overflow
  | Underflow
  | DivisionByZero
  | NonIntegral
  | SliceLength nat
  | Bail string

type_synonym 'a result = "error + 'a"

fun and_then :: "'e + 'a \<Rightarrow> ('a \<Rightarrow> 'e + 'b) \<Rightarrow> 'e + 'b" where
  "and_then (Inl e) f = Inl e"
| "and_then (Inr a) f = f a"

lemma and_then_cong [fundef_cong]:
  "m = m' \<Longrightarrow> (\<And>a. m' = Inr a \<Longrightarrow> f a = g a) \<Longrightarrow> and_then m f = and_then m' g"
  by (cases m') auto

lemma and_then_Inr_iff [result_simps]:
  "and_then m f = Inr b \<longleftrightarrow> (\<exists>a. m = Inr a \<and> f a = Inr b)"
  by (cases m) auto

lemma and_then_InrE:
  assumes "and_then m f = Inr b"
  obtains a where "m = Inr a" "f a = Inr b"
  using assms by (cases m) auto

lemma and_then_prod_Inr_iff:
  "and_then m (\<lambda>(a, b). f a b) = Inr c \<longleftrightarrow> (\<exists>a b. m = Inr (a, b) \<and> f a b = Inr c)"
  by (cases m) auto

lemma and_then_Inl_iff:
  "and_then m f = Inl e \<longleftrightarrow> m = Inl e \<or> (\<exists>a. m = Inr a \<and> f a = Inl e)"
  by (cases m) auto

lemma and_then_assoc: "and_then (and_then m f) g = and_then m (\<lambda>x. and_then (f x) g)"
  by (cases m) auto

lemma and_then_Inr_right [simp]: "and_then m Inr = m"
  by (cases m) auto

definition ok_or :: "'a option \<Rightarrow> 'e \<Rightarrow> 'e + 'a" where
  "ok_or x e = (case x of None \<Rightarrow> Inl e | Some a \<Rightarrow> Inr a)"

lemma ok_or_simps [simp]: "ok_or None e = Inl e" "ok_or (Some a) e = Inr a"
  by (simp_all add: ok_or_def)

lemma ok_or_Inr_iff [result_simps]: "ok_or x e = Inr a \<longleftrightarrow> x = Some a"
  by (cases x) auto

definition ensure :: "bool \<Rightarrow> string \<Rightarrow> unit result" where
  "ensure b msg = (if b then Inr () else Inl (Bail msg))"

lemma ensure_Inr_iff [result_simps]: "ensure b msg = Inr u \<longleftrightarrow> b"
  by (simp add: ensure_def)

lemma ensure_simps [simp]: "ensure True msg = Inr ()" "ensure False msg = Inl (Bail msg)"
  by (simp_all add: ensure_def)

text \<open>\<open>Result::expect\<close>, \<open>Option::expect\<close> and \<open>Result::unwrap_or_default\<close>.\<close>

definition expect :: "'e + 'a \<Rightarrow> 'a result" where
  "expect r = (case r of Inl e \<Rightarrow> Inl Panic | Inr a \<Rightarrow> Inr a)"

lemma expect_simps [simp]: "expect (Inl e) = Inl Panic" "expect (Inr a) = Inr a"
  by (simp_all add: expect_def)

lemma expect_Inr_iff [result_simps]: "expect r = Inr a \<longleftrightarrow> r = Inr a"
  by (cases r) auto

definition expect_some :: "'a option \<Rightarrow> 'a result" where
  "expect_some x = ok_or x Panic"

lemma expect_some_Inr_iff [result_simps]: "expect_some x = Inr a \<longleftrightarrow> x = Some a"
  by (simp add: expect_some_def result_simps)

lemma expect_some_simps [simp]: "expect_some None = Inl Panic" "expect_some (Some a) = Inr a"
  by (simp_all add: expect_some_def)

definition unwrap_or :: "'e + 'a \<Rightarrow> 'a \<Rightarrow> 'a" where
  "unwrap_or r d = (case r of Inl e \<Rightarrow> d | Inr a \<Rightarrow> a)"

lemma unwrap_or_simps [simp]: "unwrap_or (Inl e) d = d" "unwrap_or (Inr a) d = a"
  by (simp_all add: unwrap_or_def)

definition get_or :: "'a option \<Rightarrow> 'a \<Rightarrow> 'a" where
  "get_or x d = (case x of None \<Rightarrow> d | Some a \<Rightarrow> a)"

lemma get_or_simps [simp]: "get_or None d = d" "get_or (Some a) d = a"
  by (simp_all add: get_or_def)

text \<open>A fallible loop over a list: it stops at the first error.\<close>

fun try_fold :: "('x \<Rightarrow> 's \<Rightarrow> 'e + 's) \<Rightarrow> 'x list \<Rightarrow> 's \<Rightarrow> 'e + 's" where
  "try_fold f [] s = Inr s"
| "try_fold f (x # xs) s = and_then (f x s) (try_fold f xs)"

lemma try_fold_append:
  "try_fold f (xs @ ys) s = and_then (try_fold f xs s) (try_fold f ys)"
proof (induction xs arbitrary: s)
  case Nil
  then show ?case by simp
next
  case (Cons x xs)
  then show ?case by (cases "f x s") auto
qed

lemma try_fold_invariant:
  assumes "try_fold f xs s = Inr t" and "I s"
    and "\<And>x s t. x \<in> set xs \<Longrightarrow> I s \<Longrightarrow> f x s = Inr t \<Longrightarrow> I t"
  shows "I t"
  using assms
proof (induction xs arbitrary: s)
  case Nil
  then show ?case by simp
next
  case (Cons x xs)
  from Cons.prems(1) obtain u where u: "f x s = Inr u" "try_fold f xs u = Inr t"
    by (auto simp: result_simps)
  have "I u" using Cons.prems(2,3) u(1) by auto
  then show ?case using Cons.IH u(2) Cons.prems(3) by auto
qed

section \<open>Machine integers\<close>

definition checked_add :: "'a::len word \<Rightarrow> 'a word \<Rightarrow> 'a word option" where
  "checked_add a b = (if unat a + unat b < 2 ^ LENGTH('a) then Some (a + b) else None)"

definition checked_sub :: "'a::len word \<Rightarrow> 'a word \<Rightarrow> 'a word option" where
  "checked_sub a b = (if b \<le> a then Some (a - b) else None)"

definition checked_mul :: "'a::len word \<Rightarrow> 'a word \<Rightarrow> 'a word option" where
  "checked_mul a b = (if unat a * unat b < 2 ^ LENGTH('a) then Some (a * b) else None)"

definition saturating_add :: "'a::len word \<Rightarrow> 'a word \<Rightarrow> 'a word" where
  "saturating_add a b = (if unat a + unat b < 2 ^ LENGTH('a) then a + b else - 1)"

definition saturating_sub :: "'a::len word \<Rightarrow> 'a word \<Rightarrow> 'a word" where
  "saturating_sub a b = (if b \<le> a then a - b else 0)"

lemma unat_add_no_overflow [unat_arith_simps]:
  "unat a + unat b < 2 ^ LENGTH('a) \<Longrightarrow> unat (a + b) = unat a + unat b"
  for a b :: "'a::len word"
  by (simp add: unat_word_ariths)

lemma unat_mul_no_overflow [unat_arith_simps]:
  "unat a * unat b < 2 ^ LENGTH('a) \<Longrightarrow> unat (a * b) = unat a * unat b"
  for a b :: "'a::len word"
  by (simp add: unat_word_ariths)

lemma unat_sub_no_underflow [unat_arith_simps]:
  "b \<le> a \<Longrightarrow> unat (a - b) = unat a - unat b" for a b :: "'a::len word"
  by (simp add: unat_sub)

lemma checked_add_Some_iff [result_simps]:
  "checked_add a b = Some c \<longleftrightarrow> unat a + unat b = unat c"
  for a b c :: "'a::len word"
proof
  assume "checked_add a b = Some c"
  then show "unat a + unat b = unat c"
    by (auto simp: checked_add_def unat_arith_simps split: if_splits)
next
  assume c: "unat a + unat b = unat c"
  then have "unat a + unat b < 2 ^ LENGTH('a)" by simp
  moreover from this have "a + b = c"
    using c by (metis unat_add_no_overflow word_unat_eq_iff)
  ultimately show "checked_add a b = Some c" by (simp add: checked_add_def)
qed

lemma checked_sub_Some_iff [result_simps]:
  "checked_sub a b = Some c \<longleftrightarrow> unat a = unat b + unat c"
  for a b c :: "'a::len word"
proof
  assume "checked_sub a b = Some c"
  then show "unat a = unat b + unat c"
    by (auto simp: checked_sub_def unat_sub word_le_nat_alt split: if_splits)
next
  assume c: "unat a = unat b + unat c"
  then have le: "b \<le> a" by (simp add: word_le_nat_alt)
  have "unat (a - b) = unat c" using c le by (simp add: unat_sub)
  then show "checked_sub a b = Some c"
    using le by (simp add: checked_sub_def word_unat_eq_iff)
qed

lemma checked_mul_Some_iff [result_simps]:
  "checked_mul a b = Some c \<longleftrightarrow> unat a * unat b = unat c"
  for a b c :: "'a::len word"
proof
  assume "checked_mul a b = Some c"
  then show "unat a * unat b = unat c"
    by (auto simp: checked_mul_def unat_arith_simps split: if_splits)
next
  assume c: "unat a * unat b = unat c"
  then have lt: "unat a * unat b < 2 ^ LENGTH('a)" by simp
  from lt have "a * b = c"
    using c by (metis unat_mul_no_overflow word_unat_eq_iff)
  with lt show "checked_mul a b = Some c" by (simp add: checked_mul_def)
qed

lemma checked_sub_None_iff: "checked_sub a b = None \<longleftrightarrow> unat a < unat b"
  by (auto simp: checked_sub_def word_le_nat_alt)

lemma unat_saturating_add [unat_arith_simps]:
  "unat (saturating_add a b) = min (unat a + unat b) (2 ^ LENGTH('a) - 1)"
  for a b :: "'a::len word"
proof -
  have "unat (- 1 :: 'a word) = 2 ^ LENGTH('a) - 1"
    by (simp add: unat_eq_nat_uint uint_word_ariths nat_diff_distrib nat_power_eq zmod_minus1)
  then show ?thesis by (auto simp: saturating_add_def unat_arith_simps min_def)
qed

lemma unat_saturating_sub [unat_arith_simps]:
  "unat (saturating_sub a b) = unat a - unat b"
  by (auto simp: saturating_sub_def unat_sub word_le_nat_alt)

text \<open>The same facts over the integers, for signed reasoning.\<close>

lemma checked_add_uint_iff: "checked_add a b = Some c \<longleftrightarrow> uint a + uint b = uint c"
  unfolding checked_add_Some_iff uint_nat by (simp only: of_nat_add [symmetric] of_nat_eq_iff)

lemma uint_sub_no_underflow: "b \<le> a \<Longrightarrow> uint (a - b) = uint a - uint b" for a b :: "'a::len word"
  unfolding uint_nat word_le_nat_alt
  by (simp only: unat_sub_no_underflow word_le_nat_alt of_nat_diff)

text \<open>Casts: \<open>as\<close> and \<open>from\<close> between widths, and words given by a small number.\<close>

lemma unat_ucast_up [unat_arith_simps]:
  "LENGTH('a) \<le> LENGTH('b) \<Longrightarrow> unat (ucast (a :: 'a::len word) :: 'b::len word) = unat a"
proof -
  assume "LENGTH('a) \<le> LENGTH('b)"
  then have "unat a < 2 ^ LENGTH('b)"
    by (rule order.strict_trans2 [OF unsigned_less power_increasing]) simp_all
  then show ?thesis by (simp add: unsigned_ucast_eq take_bit_nat_eq_self_iff)
qed

lemma unat_ucast_mod:
  "unat (ucast a :: 'b::len word) = unat a mod 2 ^ LENGTH('b)" for a :: "'a::len word"
  by (simp only: unsigned_ucast_eq unsigned_take_bit_eq take_bit_eq_mod)

lemma unat_drop_bit: "unat (drop_bit n a) = unat a div 2 ^ n" for a :: "'a::len word"
proof -
  have "take_bit LENGTH('a) (unat a) = unat a"
    by (simp add: take_bit_nat_eq_self_iff)
  then have "unat (drop_bit n a) = drop_bit n (unat a)"
    by (simp only: unsigned_drop_bit_eq)
  then show ?thesis by (simp only: drop_bit_eq_div)
qed

lemma unat_push_bit: "unat (push_bit n a) = unat a * 2 ^ n mod 2 ^ LENGTH('a)" for a :: "'a::len word"
proof -
  have "unat (push_bit n a) = take_bit LENGTH('a) (push_bit n (unat a))"
    by (simp only: unsigned_push_bit_eq)
  then show ?thesis by (simp only: push_bit_eq_mult take_bit_eq_mod)
qed

lemma unat_of_nat_small [unat_arith_simps]:
  "n < 2 ^ LENGTH('a) \<Longrightarrow> unat (of_nat n :: 'a::len word) = n"
  by (simp add: unat_of_nat)

end
