(* ===== verification/Amounts.thy ===== *)
theory Amounts
  imports Prelude "HOL-Library.List_Lexorder"
begin

text \<open>
  \<open>penumbra_sdk_num::Amount\<close> (\<open>crates/core/num/src/amount.rs\<close>), a newtype of \<open>u128\<close>, its
  byte and protobuf encodings, and \<open>Percentage\<close>
  (\<open>crates/core/num/src/percentage/mod.rs\<close>). The operators of \<open>Amount\<close> are those of
  \<open>u128\<close> and wrap around in release builds; the checked ones return \<open>None\<close>.
\<close>

type_synonym amount = u128

section \<open>Byte strings of machine integers\<close>

text \<open>\<open>to_le_bytes\<close>, \<open>to_be_bytes\<close> and their inverses of the Rust integers, over the number
  of bytes \<open>k\<close>.\<close>

primrec le_bytes :: "nat \<Rightarrow> nat \<Rightarrow> u8 list" where
  "le_bytes 0 n = []"
| "le_bytes (Suc k) n = of_nat (n mod 256) # le_bytes k (n div 256)"

fun le_nat :: "u8 list \<Rightarrow> nat" where
  "le_nat [] = 0"
| "le_nat (b # bs) = unat b + 256 * le_nat bs"

definition be_bytes :: "nat \<Rightarrow> nat \<Rightarrow> u8 list" where
  "be_bytes k n = rev (le_bytes k n)"

definition be_nat :: "u8 list \<Rightarrow> nat" where
  "be_nat bs = le_nat (rev bs)"

lemma length_le_bytes [simp]: "length (le_bytes k n) = k"
  by (induction k arbitrary: n) auto

lemma length_be_bytes [simp]: "length (be_bytes k n) = k"
  by (simp add: be_bytes_def)

lemma unat_u8_mod: "unat (of_nat (n mod 256) :: u8) = n mod 256"
  by (simp add: unat_arith_simps)

lemma le_nat_le_bytes: "le_nat (le_bytes k n) = n mod 256 ^ k"
proof (induction k arbitrary: n)
  case 0
  then show ?case by simp
next
  case (Suc k)
  have "n mod (256 * 256 ^ k) = n mod 256 + 256 * (n div 256 mod 256 ^ k)"
    by (simp add: mod_mult2_eq add.commute)
  with Suc show ?case by (simp add: unat_u8_mod)
qed

lemma be_nat_be_bytes: "be_nat (be_bytes k n) = n mod 256 ^ k"
  by (simp add: be_nat_def be_bytes_def le_nat_le_bytes)

lemma le_nat_less: "le_nat bs < 256 ^ length bs"
proof (induction bs)
  case Nil
  then show ?case by simp
next
  case (Cons b bs)
  have "unat b < 256" using unsigned_less [of b, where ?'a = nat] by simp
  with Cons show ?case by simp
qed

lemma le_bytes_le_nat: "le_bytes (length bs) (le_nat bs) = bs"
proof (induction bs)
  case Nil
  then show ?case by simp
next
  case (Cons b bs)
  have "unat b < 256" using unsigned_less [of b, where ?'a = nat] by simp
  then show ?case using Cons by simp
qed

lemma be_bytes_be_nat: "be_bytes (length bs) (be_nat bs) = bs"
  by (metis be_bytes_def be_nat_def le_bytes_le_nat length_rev rev_rev_ident)

text \<open>The big-endian encoding preserves the order: the lexicographic order of the byte
  strings is the numeric order.\<close>

lemma be_nat_Cons: "be_nat (b # bs) = unat b * 256 ^ length bs + be_nat bs"
proof -
  have "le_nat (xs @ [b]) = le_nat xs + 256 ^ length xs * unat b" for xs
    by (induction xs) (auto simp: algebra_simps)
  from this [of "rev bs"] show ?thesis by (simp add: be_nat_def)
qed

lemma be_nat_less: "be_nat bs < 256 ^ length bs"
  using le_nat_less [of "rev bs"] by (simp add: be_nat_def)

lemma be_nat_mono: "length bs = length cs \<Longrightarrow> bs < cs \<longleftrightarrow> be_nat bs < be_nat cs"
proof (induction bs cs rule: list_induct2)
  case Nil
  then show ?case by simp
next
  case (Cons b bs c cs)
  have bounds: "be_nat bs < 256 ^ length cs" "be_nat cs < 256 ^ length cs"
    using be_nat_less [of bs] be_nat_less [of cs] Cons.hyps by simp_all
  consider "unat b < unat c" | "b = c" | "unat c < unat b"
    using word_unat_eq_iff by (metis linorder_neqE_nat)
  then show ?case
  proof cases
    case 1
    then have "(unat b + 1) * 256 ^ length cs \<le> unat c * 256 ^ length cs"
      by (intro mult_right_mono) simp_all
    with 1 bounds Cons.hyps show ?thesis by (simp add: be_nat_Cons word_less_nat_alt)
  next
    case 2
    with Cons show ?thesis by (simp add: be_nat_Cons)
  next
    case 3
    then have "(unat c + 1) * 256 ^ length cs \<le> unat b * 256 ^ length cs"
      by (intro mult_right_mono) simp_all
    with 3 bounds Cons.hyps show ?thesis by (auto simp: be_nat_Cons word_less_nat_alt)
  qed
qed

section \<open>Amount\<close>

definition amount_zero :: amount where
  "amount_zero = 0"

definition amount_to_le_bytes :: "amount \<Rightarrow> u8 list" where
  "amount_to_le_bytes a = le_bytes 16 (unat a)"

definition amount_to_be_bytes :: "amount \<Rightarrow> u8 list" where
  "amount_to_be_bytes a = be_bytes 16 (unat a)"

definition amount_from_le_bytes :: "u8 list \<Rightarrow> amount" where
  "amount_from_le_bytes bs = of_nat (le_nat bs)"

definition amount_from_be_bytes :: "u8 list \<Rightarrow> amount" where
  "amount_from_be_bytes bs = of_nat (be_nat bs)"

definition amount_checked_sub :: "amount \<Rightarrow> amount \<Rightarrow> amount option" where
  "amount_checked_sub a b = checked_sub a b"

definition amount_checked_add :: "amount \<Rightarrow> amount \<Rightarrow> amount option" where
  "amount_checked_add a b = checked_add a b"

definition amount_checked_mul :: "amount \<Rightarrow> amount \<Rightarrow> amount option" where
  "amount_checked_mul a b = checked_mul a b"

definition amount_saturating_add :: "amount \<Rightarrow> amount \<Rightarrow> amount" where
  "amount_saturating_add a b = saturating_add a b"

definition amount_saturating_sub :: "amount \<Rightarrow> amount \<Rightarrow> amount" where
  "amount_saturating_sub a b = saturating_sub a b"

text \<open>Division and remainder panic on a zero divisor, in every profile.\<close>

definition amount_div :: "amount \<Rightarrow> amount \<Rightarrow> amount result" where
  "amount_div a b = (if b = 0 then Inl Panic else Inr (a div b))"

definition amount_rem :: "amount \<Rightarrow> amount \<Rightarrow> amount result" where
  "amount_rem a b = (if b = 0 then Inl Panic else Inr (a mod b))"

text \<open>\<open>Sum for Amount\<close>: a wrapping fold from zero.\<close>

definition amount_sum :: "amount list \<Rightarrow> amount" where
  "amount_sum xs = foldl (\<lambda>acc x. acc + x) amount_zero xs"

lemmas amount_ops [simp] =
  amount_checked_sub_def amount_checked_add_def amount_checked_mul_def
  amount_saturating_add_def amount_saturating_sub_def amount_zero_def

text \<open>The protobuf message: two \<open>u64\<close> halves.\<close>

record pb_amount =
  pb_lo :: u64
  pb_hi :: u64

definition amount_to_proto :: "amount \<Rightarrow> pb_amount" where
  "amount_to_proto a = \<lparr>pb_lo = ucast a, pb_hi = ucast (drop_bit 64 a)\<rparr>"

definition amount_from_proto :: "pb_amount \<Rightarrow> amount result" where
  "amount_from_proto p =
     (let lo = ucast (pb_lo p) :: u128;
          hi = ucast (pb_hi p) :: u128;
          shifted = push_bit 64 hi
      in Inr (shifted + lo))"

lemma u128_split: "push_bit 64 (ucast (ucast (drop_bit 64 a) :: u64)) + ucast (ucast a :: u64) = a"
  for a :: u128
proof -
  have a: "unat a < 2 ^ 128" using unsigned_less [of a, where ?'a = nat] by simp
  have lt: "unat a div 2 ^ 64 < 2 ^ 64" using a by (simp add: div_less_iff_less_mult)
  have hi': "unat (ucast (ucast (drop_bit 64 a) :: u64) :: u128) = unat a div 2 ^ 64"
    using lt by (simp add: unat_ucast_mod unat_drop_bit)
  have lo': "unat (ucast (ucast a :: u64) :: u128) = unat a mod 2 ^ 64"
    by (simp add: unat_ucast_mod)
  have "unat a div 2 ^ 64 * 2 ^ 64 \<le> unat a" by simp
  then have sh: "unat (push_bit 64 (ucast (ucast (drop_bit 64 a) :: u64)) :: u128) = unat a div 2 ^ 64 * 2 ^ 64"
    using a by (simp add: unat_push_bit hi')
  show ?thesis
    unfolding word_unat_eq_iff unat_word_ariths sh lo' using a by simp
qed

section \<open>Percentage\<close>

datatype percentage = Percentage (percent: u64)

definition percentage_zero :: percentage where
  "percentage_zero = Percentage 0"

definition to_percent :: "percentage \<Rightarrow> u64" where
  "to_percent p = percent p"

definition from_percent :: "u64 \<Rightarrow> percentage" where
  "from_percent p = Percentage (min p 100)"

definition percentage_complement :: "percentage \<Rightarrow> percentage" where
  "percentage_complement p = Percentage (100 - percent p)"

lemma from_percent_le: "unat (percent (from_percent p)) \<le> 100"
  by (simp add: from_percent_def min_def word_le_nat_alt)

lemma percentage_complement_complement:
  "unat (percent p) \<le> 100 \<Longrightarrow>
     unat (percent (percentage_complement p)) = 100 - unat (percent p)
     \<and> percentage_complement (percentage_complement p) = p"
  by (cases p) (auto simp: percentage_complement_def unat_sub word_le_nat_alt)

end
