(* ===== verification/Fixpoint.thy ===== *)
theory Fixpoint
  imports Amounts
begin

text \<open>
  \<open>U128x128\<close> (\<open>crates/core/num/src/fixpoint.rs\<close> with \<open>fixpoint/ops.rs\<close>, \<open>fixpoint/div.rs\<close>
  and \<open>fixpoint/from.rs\<close>): fixed-point numbers with 128 integral and 128 fractional bits.
  The number held is \<open>raw x / 2 ^ 128\<close>. \<open>ethnum::U256\<close> is the 256-bit machine integer
  \<open>256 word\<close> and \<open>ibig::UBig\<close> is \<open>nat\<close>. The lemmas state every operation on \<open>unat (raw x)\<close>,
  that is on the exact scaled number, with the exact condition of each error.
\<close>

datatype fixpoint = U128x128 (raw: u256)

text \<open>The derived \<open>PartialOrd\<close> and \<open>Ord\<close>.\<close>

instantiation fixpoint :: linorder
begin

definition less_eq_fixpoint :: "fixpoint \<Rightarrow> fixpoint \<Rightarrow> bool" where
  "less_eq_fixpoint x y \<longleftrightarrow> raw x \<le> raw y"

definition less_fixpoint :: "fixpoint \<Rightarrow> fixpoint \<Rightarrow> bool" where
  "less_fixpoint x y \<longleftrightarrow> raw x < raw y"

instance
  by standard (auto simp: less_eq_fixpoint_def less_fixpoint_def fixpoint.expand)

end

lemma fixpoint_le_iff: "x \<le> y \<longleftrightarrow> unat (raw x) \<le> unat (raw y)" for x y :: fixpoint
  by (simp add: less_eq_fixpoint_def word_le_nat_alt)

lemma fixpoint_less_iff: "x < y \<longleftrightarrow> unat (raw x) < unat (raw y)" for x y :: fixpoint
  by (simp add: less_fixpoint_def word_less_nat_alt)

lemma fixpoint_eq_iff: "x = y \<longleftrightarrow> unat (raw x) = unat (raw y)" for x y :: fixpoint
  by (cases x; cases y) (simp add: word_unat_eq_iff)

lemma raw_less: "unat (raw x) < 2 ^ 256"
  using unsigned_less [of "raw x", where ?'a = nat] by simp

lemma u128_less: "unat (a :: u128) < 2 ^ 128"
  using unsigned_less [of a, where ?'a = nat] by simp

section \<open>Words of a U256\<close>

definition from_words :: "u128 \<Rightarrow> u128 \<Rightarrow> u256" where
  "from_words hi lo = of_nat (unat hi * 2 ^ 128 + unat lo)"

definition hi_word :: "u256 \<Rightarrow> u128" where
  "hi_word w = ucast (drop_bit 128 w)"

definition lo_word :: "u256 \<Rightarrow> u128" where
  "lo_word w = ucast w"

lemma words_less: "unat (hi :: u128) * 2 ^ 128 + unat (lo :: u128) < 2 ^ 256"
proof -
  have "unat hi * 2 ^ 128 \<le> (2 ^ 128 - 1) * 2 ^ 128"
    using u128_less [of hi] by (intro mult_right_mono) simp_all
  with u128_less [of lo] show ?thesis by simp
qed

lemma unat_from_words [simp]: "unat (from_words hi lo) = unat hi * 2 ^ 128 + unat lo"
  unfolding from_words_def using words_less [of hi lo] by (subst unat_of_nat_small) simp_all

lemma unat_hi_word [simp]: "unat (hi_word w) = unat w div 2 ^ 128"
proof -
  have "unat w < 2 ^ 256" using unsigned_less [of w, where ?'a = nat] by simp
  then have "unat w div 2 ^ 128 < 2 ^ 128" by (simp add: div_less_iff_less_mult)
  then show ?thesis by (simp add: hi_word_def unat_ucast_mod unat_drop_bit)
qed

lemma unat_lo_word [simp]: "unat (lo_word w) = unat w mod 2 ^ 128"
  by (simp add: lo_word_def unat_ucast_mod)

section \<open>Conversions\<close>

definition fp_from_u128 :: "u128 \<Rightarrow> fixpoint" where
  "fp_from_u128 v = U128x128 (from_words v 0)"

definition fp_from_u64 :: "u64 \<Rightarrow> fixpoint" where
  "fp_from_u64 v = U128x128 (from_words (ucast v) 0)"

definition fp_from_u32 :: "u32 \<Rightarrow> fixpoint" where
  "fp_from_u32 v = U128x128 (from_words (ucast v) 0)"

definition fp_from_amount :: "amount \<Rightarrow> fixpoint" where
  "fp_from_amount a = fp_from_u128 a"

definition fp_default :: fixpoint where
  "fp_default = fp_from_u64 0"

definition is_integral :: "fixpoint \<Rightarrow> bool" where
  "is_integral x \<longleftrightarrow> lo_word (raw x) = 0"

definition fp_try_into_u128 :: "fixpoint \<Rightarrow> u128 result" where
  "fp_try_into_u128 x = (if is_integral x then Inr (hi_word (raw x)) else Inl NonIntegral)"

definition fp_try_into_u64 :: "fixpoint \<Rightarrow> u64 result" where
  "fp_try_into_u64 x = and_then (fp_try_into_u128 x)
     (\<lambda>v. if unat v < 2 ^ 64 then Inr (ucast v) else Inl Overflow)"

definition fp_try_into_amount :: "fixpoint \<Rightarrow> amount result" where
  "fp_try_into_amount x = fp_try_into_u128 x"

lemma raw_from_amount [simp]: "unat (raw (fp_from_amount a)) = unat a * 2 ^ 128"
  by (simp add: fp_from_amount_def fp_from_u128_def)

lemma raw_from_u64 [simp]: "unat (raw (fp_from_u64 v)) = unat v * 2 ^ 128"
  by (simp add: fp_from_u64_def unat_ucast_up)

lemma raw_from_u32 [simp]: "unat (raw (fp_from_u32 v)) = unat v * 2 ^ 128"
  by (simp add: fp_from_u32_def unat_ucast_up)

lemma raw_default [simp]: "unat (raw fp_default) = 0"
  by (simp add: fp_default_def)

lemma is_integral_iff: "is_integral x \<longleftrightarrow> 2 ^ 128 dvd unat (raw x)"
  by (simp add: is_integral_def word_unat_eq_iff dvd_eq_mod_eq_0)

lemma scaled_iff: "0 < k \<Longrightarrow> (k dvd n \<and> n div k = m) \<longleftrightarrow> n = m * k" for k m n :: nat
  by auto

lemma fp_try_into_amount_iff [result_simps]:
  "fp_try_into_amount x = Inr a \<longleftrightarrow> unat (raw x) = unat a * 2 ^ 128"
proof -
  have "fp_try_into_amount x = Inr a \<longleftrightarrow> 2 ^ 128 dvd unat (raw x) \<and> hi_word (raw x) = a"
    by (simp add: fp_try_into_amount_def fp_try_into_u128_def is_integral_iff)
  also have "\<dots> \<longleftrightarrow> 2 ^ 128 dvd unat (raw x) \<and> unat (raw x) div 2 ^ 128 = unat a"
    by (simp only: word_unat_eq_iff unat_hi_word)
  also have "\<dots> \<longleftrightarrow> unat (raw x) = unat a * 2 ^ 128"
    by (rule scaled_iff) simp
  finally show ?thesis .
qed

section \<open>Byte encoding\<close>

definition fp_to_bytes :: "fixpoint \<Rightarrow> u8 list" where
  "fp_to_bytes x = be_bytes 16 (unat (hi_word (raw x))) @ be_bytes 16 (unat (lo_word (raw x)))"

definition fp_from_bytes :: "u8 list \<Rightarrow> fixpoint" where
  "fp_from_bytes bs =
     U128x128 (from_words (of_nat (be_nat (take 16 bs))) (of_nat (be_nat (take 16 (drop 16 bs)))))"

definition fp_try_from_slice :: "u8 list \<Rightarrow> fixpoint result" where
  "fp_try_from_slice bs =
     (if length bs = 32 then Inr (fp_from_bytes bs) else Inl (SliceLength (length bs)))"

lemma be_nat_append: "be_nat (xs @ ys) = be_nat xs * 256 ^ length ys + be_nat ys"
proof (induction xs)
  case Nil
  then show ?case by (simp add: be_nat_def)
next
  case (Cons x xs)
  then show ?case by (simp add: be_nat_Cons power_add algebra_simps)
qed

lemma be_nat_to_bytes: "be_nat (fp_to_bytes x) = unat (raw x)"
proof -
  have "unat (raw x) div 2 ^ 128 < 2 ^ 128"
    using raw_less [of x] by (simp add: div_less_iff_less_mult)
  then have "be_nat (fp_to_bytes x) = unat (raw x) div 2 ^ 128 * 2 ^ 128 + unat (raw x) mod 2 ^ 128"
    by (simp add: fp_to_bytes_def be_nat_append be_nat_be_bytes)
  then show ?thesis by (simp only: div_mult_mod_eq)
qed

lemma length_fp_to_bytes [simp]: "length (fp_to_bytes x) = 32"
  by (simp add: fp_to_bytes_def)

text \<open>The documented property of the encoding: it preserves the order.\<close>

lemma fp_to_bytes_less_iff: "fp_to_bytes x < fp_to_bytes y \<longleftrightarrow> x < y"
  by (simp add: be_nat_mono be_nat_to_bytes fixpoint_less_iff)

lemma fp_from_bytes_to_bytes: "fp_from_bytes (fp_to_bytes x) = x"
proof -
  have "unat (raw x) div 2 ^ 128 < 2 ^ 128"
    using raw_less [of x] by (simp add: div_less_iff_less_mult)
  then show ?thesis
    by (simp add: fixpoint_eq_iff fp_from_bytes_def fp_to_bytes_def be_nat_be_bytes
        unat_of_nat_small)
qed

lemma fp_to_bytes_from_bytes: "length bs = 32 \<Longrightarrow> fp_to_bytes (fp_from_bytes bs) = bs"
proof -
  assume len: "length bs = 32"
  have "be_nat (take 16 bs) < 2 ^ 128" "be_nat (take 16 (drop 16 bs)) < 2 ^ 128"
    using be_nat_less [of "take 16 bs"] be_nat_less [of "take 16 (drop 16 bs)"] len by simp_all
  moreover have "take 16 (drop 16 bs) = drop 16 bs" using len by simp
  ultimately have raw: "unat (raw (fp_from_bytes bs)) = be_nat (take 16 bs) * 256 ^ 16 + be_nat (drop 16 bs)"
    by (simp add: fp_from_bytes_def unat_of_nat_small)
  then have "be_nat (fp_to_bytes (fp_from_bytes bs)) = be_nat (take 16 bs @ drop 16 bs)"
    using len by (simp only: be_nat_to_bytes be_nat_append length_drop) simp
  then show ?thesis
    by (metis append_take_drop_id be_bytes_be_nat len length_fp_to_bytes)
qed

section \<open>Arithmetic\<close>

definition fp_round_down :: "fixpoint \<Rightarrow> fixpoint" where
  "fp_round_down x = U128x128 (from_words (hi_word (raw x)) 0)"

definition fp_round_up :: "fixpoint \<Rightarrow> fixpoint result" where
  "fp_round_up x =
     (let integral = hi_word (raw x); fractional = lo_word (raw x)
      in if fractional = 0 then Inr x
         else and_then (ok_or (checked_add integral 1) Overflow)
           (\<lambda>integral. Inr (U128x128 (from_words integral 0))))"

definition checked_shl :: "u256 \<Rightarrow> nat \<Rightarrow> u256 option" where
  "checked_shl w n = (if n < 256 then Some (push_bit n w) else None)"

definition fp_checked_mul :: "fixpoint \<Rightarrow> fixpoint \<Rightarrow> fixpoint result" where
  "fp_checked_mul x y =
     (let x0 = ucast (lo_word (raw x)) :: u256; x1 = ucast (hi_word (raw x)) :: u256;
          y0 = ucast (lo_word (raw y)) :: u256; y1 = ucast (hi_word (raw y)) :: u256;
          x0y0 = x0 * y0; x0y1 = x0 * y1; x1y0 = x1 * y0; x1y1 = x1 * y1
      in if hi_word x1y1 \<noteq> 0 then Inl Overflow
         else ok_or (map_option U128x128
           (Option.bind (Option.bind (Option.bind (checked_shl x1y1 128)
              (\<lambda>acc. checked_add acc x0y1))
              (\<lambda>acc. checked_add acc x1y0))
              (\<lambda>acc. checked_add acc (drop_bit 128 x0y0)))) Overflow)"

text \<open>\<open>ubig_to_u256\<close>: the little-endian bytes of an \<open>UBig\<close> are at most 32 exactly when it is
  below \<open>2 ^ 256\<close>.\<close>

definition ubig_to_u256 :: "nat \<Rightarrow> u256 option" where
  "ubig_to_u256 n = (if n < 256 ^ 32 then Some (of_nat n) else None)"

definition stub_div_rem_u384_by_u256 :: "u256 \<Rightarrow> u256 \<Rightarrow> (u256 \<times> u256) result" where
  "stub_div_rem_u384_by_u256 x y =
     (if y = 0 then Inl DivisionByZero
      else let x_big = unat x; y_big = unat y;
               x_big_128 = x_big * 2 ^ 128;
               q_big = x_big_128 div y_big;
               rem_big = x_big_128 - y_big * q_big
           in case ubig_to_u256 q_big of
                None \<Rightarrow> Inl Overflow
              | Some q \<Rightarrow> and_then (expect_some (ubig_to_u256 rem_big)) (\<lambda>r. Inr (q, r)))"

definition fp_checked_div :: "fixpoint \<Rightarrow> fixpoint \<Rightarrow> fixpoint result" where
  "fp_checked_div x y =
     and_then (stub_div_rem_u384_by_u256 (raw x) (raw y)) (\<lambda>(quo, _). Inr (U128x128 quo))"

definition fp_checked_add :: "fixpoint \<Rightarrow> fixpoint \<Rightarrow> fixpoint result" where
  "fp_checked_add x y = ok_or (map_option U128x128 (checked_add (raw x) (raw y))) Overflow"

definition fp_checked_sub :: "fixpoint \<Rightarrow> fixpoint \<Rightarrow> fixpoint result" where
  "fp_checked_sub x y = ok_or (map_option U128x128 (checked_sub (raw x) (raw y))) Underflow"

definition fp_saturating_sub :: "fixpoint \<Rightarrow> fixpoint \<Rightarrow> fixpoint" where
  "fp_saturating_sub x y = U128x128 (saturating_sub (raw x) (raw y))"

definition fp_ratio :: "fixpoint \<Rightarrow> fixpoint \<Rightarrow> fixpoint result" where
  "fp_ratio n d = fp_checked_div n d"

text \<open>The operators of \<open>fixpoint/ops.rs\<close> with a fallible operand: \<open>Result op T\<close> and
  \<open>T op Result\<close>.\<close>

definition fp_add_rv :: "fixpoint result \<Rightarrow> fixpoint \<Rightarrow> fixpoint result" where
  "fp_add_rv x y = and_then x (\<lambda>lhs. fp_checked_add lhs y)"

definition fp_add_vr :: "fixpoint \<Rightarrow> fixpoint result \<Rightarrow> fixpoint result" where
  "fp_add_vr x y = and_then y (\<lambda>rhs. fp_checked_add x rhs)"

definition fp_sub_rv :: "fixpoint result \<Rightarrow> fixpoint \<Rightarrow> fixpoint result" where
  "fp_sub_rv x y = and_then x (\<lambda>lhs. fp_checked_sub lhs y)"

definition fp_sub_vr :: "fixpoint \<Rightarrow> fixpoint result \<Rightarrow> fixpoint result" where
  "fp_sub_vr x y = and_then y (\<lambda>rhs. fp_checked_sub x rhs)"

definition fp_mul_rv :: "fixpoint result \<Rightarrow> fixpoint \<Rightarrow> fixpoint result" where
  "fp_mul_rv x y = and_then x (\<lambda>lhs. fp_checked_mul lhs y)"

definition fp_mul_vr :: "fixpoint \<Rightarrow> fixpoint result \<Rightarrow> fixpoint result" where
  "fp_mul_vr x y = and_then y (\<lambda>rhs. fp_checked_mul x rhs)"

definition fp_div_rv :: "fixpoint result \<Rightarrow> fixpoint \<Rightarrow> fixpoint result" where
  "fp_div_rv x y = and_then x (\<lambda>lhs. fp_checked_div lhs y)"

definition fp_div_vr :: "fixpoint \<Rightarrow> fixpoint result \<Rightarrow> fixpoint result" where
  "fp_div_vr x y = and_then y (\<lambda>rhs. fp_checked_div x rhs)"

definition apply_to_amount :: "fixpoint \<Rightarrow> amount \<Rightarrow> amount result" where
  "apply_to_amount x a =
     and_then (fp_checked_mul (fp_from_amount a) x)
       (\<lambda>m. expect (fp_try_into_amount (fp_round_down m)))"

definition fp_from_percentage :: "percentage \<Rightarrow> fixpoint result" where
  "fp_from_percentage p = expect (fp_ratio (fp_from_u64 (to_percent p)) (fp_from_u64 100))"

lemma raw_round_down [simp]: "unat (raw (fp_round_down x)) = unat (raw x) div 2 ^ 128 * 2 ^ 128"
  by (simp add: fp_round_down_def)

lemma round_up_nat: "0 < k \<Longrightarrow> (n + (k - 1)) div k = (if n mod k = 0 then n div k else n div k + 1)" for n k :: nat
  proof -
  assume k: "0 < k"
  have "n + (k - 1) = n div k * k + (n mod k + (k - 1))"
    using div_mult_mod_eq [of n k] by linarith
  then have "(n + (k - 1)) div k = (n div k * k + (n mod k + (k - 1))) div k"
    by (rule arg_cong)
  also have "\<dots> = n div k + (n mod k + (k - 1)) div k"
    using k by (intro div_mult_self3) simp
  also have "(n mod k + (k - 1)) div k = (if n mod k = 0 then 0 else 1)"
  proof (cases "n mod k = 0")
    case False
    then have "n mod k + (k - 1) = k + (n mod k - 1)" using k by simp
    moreover have "(k + m) div k = 1" if "m < k" for m
      using that k div_add_self1 [of k m] by simp
    moreover have "n mod k - 1 < k" using mod_less_divisor [OF k, of n] by simp
    ultimately have "(n mod k + (k - 1)) div k = 1" by metis
    with False show ?thesis by simp
  qed (use k in simp)
  finally show ?thesis by simp
qed

lemma fp_checked_add_iff [result_simps]:
  "fp_checked_add x y = Inr z \<longleftrightarrow> unat (raw x) + unat (raw y) = unat (raw z)"
  by (cases z) (auto simp: fp_checked_add_def result_simps)

lemma fp_checked_sub_iff [result_simps]:
  "fp_checked_sub x y = Inr z \<longleftrightarrow> unat (raw x) = unat (raw y) + unat (raw z)"
  by (cases z) (auto simp: fp_checked_sub_def result_simps)

lemma raw_saturating_sub [simp]: "unat (raw (fp_saturating_sub x y)) = unat (raw x) - unat (raw y)"
  by (simp add: fp_saturating_sub_def unat_arith_simps)

lemma split_mul_div:
  fixes b :: nat
  assumes "0 < b"
  shows "((x1 * b + x0) * (y1 * b + y0)) div b = x1 * y1 * b + x0 * y1 + x1 * y0 + x0 * y0 div b"
proof -
  have "(x1 * b + x0) * (y1 * b + y0) = (x1 * y1 * b + x0 * y1 + x1 * y0) * b + x0 * y0"
    by (simp add: algebra_simps)
  then show ?thesis using assms by simp
qed

lemma unat_mul_u256: "unat (ucast (a :: u128) * ucast (b :: u128) :: u256) = unat a * unat b"
proof -
  have "unat a * unat b < 2 ^ 128 * 2 ^ 128"
    by (intro mult_strict_mono) (use u128_less in auto)
  then have "unat a * unat b < 2 ^ LENGTH(256)" by simp
  then show ?thesis by (simp add: unat_mul_no_overflow unat_ucast_up)
qed

lemma unat_surj_le: "n \<le> unat (c :: 'a::len word) \<Longrightarrow> \<exists>w :: 'a word. unat w = n"
  by (metis le_less_trans unat_of_nat_small unsigned_less)

lemma bind_checked_add_iff:
  "Option.bind (checked_add a b) (\<lambda>u. Option.bind (checked_add u c) (\<lambda>v. checked_add v d)) = Some e
   \<longleftrightarrow> unat a + unat b + unat c + unat d = unat e" for a :: "'a::len word"
proof
  assume sum: "unat a + unat b + unat c + unat d = unat e"
  obtain u v :: "'a word" where "unat u = unat a + unat b" "unat v = unat a + unat b + unat c"
    using unat_surj_le [of "unat a + unat b" e] unat_surj_le [of "unat a + unat b + unat c" e] sum
    by auto
  then have "checked_add a b = Some u" "checked_add u c = Some v" "checked_add v d = Some e"
    using sum by (simp_all add: result_simps)
  then show "Option.bind (checked_add a b)
     (\<lambda>u. Option.bind (checked_add u c) (\<lambda>v. checked_add v d)) = Some e" by simp
qed (auto simp: Option.bind_eq_Some_conv result_simps)

lemma fp_checked_mul_iff [result_simps]:
  "fp_checked_mul x y = Inr z \<longleftrightarrow> unat (raw x) * unat (raw y) div 2 ^ 128 = unat (raw z)"
proof -
  define b :: nat where "b = 2 ^ 128"
  define x1 x0 y1 y0 where "x1 = unat (raw x) div b" and "x0 = unat (raw x) mod b"
    and "y1 = unat (raw y) div b" and "y0 = unat (raw y) mod b"
  have b: "0 < b" "b * b = 2 ^ 256" by (simp_all add: b_def)
  have eq: "unat (raw x) * unat (raw y) div b = x1 * y1 * b + x0 * y1 + x1 * y0 + x0 * y0 div b"
    using split_mul_div [OF b(1), of x1 x0 y1 y0] by (simp add: x1_def x0_def y1_def y0_def)
  let ?w11 = "ucast (hi_word (raw x)) * ucast (hi_word (raw y)) :: u256"
  have w11: "unat ?w11 = x1 * y1" 
    by (simp add: unat_mul_u256 x1_def y1_def b_def)
  show ?thesis
  proof (cases "x1 * y1 < b")
    case True
    then have "hi_word ?w11 = 0"
      by (simp only: word_unat_eq_iff unat_hi_word w11) (simp add: b_def)
    moreover have "x1 * y1 * b < b * b" using True b(1) by simp
    then have "unat (push_bit 128 ?w11) = x1 * y1 * b"
      using b(2) by (simp only: unat_push_bit w11) (simp add: b_def)
    ultimately show ?thesis
      using eq
      by (cases z) (simp add: fp_checked_mul_def Let_def checked_shl_def ok_or_Inr_iff
          bind_checked_add_iff unat_mul_u256 unat_drop_bit x1_def y1_def x0_def y0_def b_def)
  next
    case False
    then have "hi_word ?w11 \<noteq> 0"
      using b by (simp only: word_unat_eq_iff unat_hi_word w11) (simp add: b_def)
    moreover have "b * b \<le> x1 * y1 * b" using False by simp
    then have "2 ^ 256 \<le> unat (raw x) * unat (raw y) div b" using eq b(2) by linarith
    ultimately show ?thesis
      using raw_less [of z] by (auto simp: fp_checked_mul_def Let_def b_def)
  qed
qed

lemma ubig_to_u256_iff [result_simps]: "ubig_to_u256 n = Some w \<longleftrightarrow> unat w = n"
proof -
  have p: "(256 :: nat) ^ 32 = 2 ^ LENGTH(256)" by simp
  show ?thesis
  proof
    assume "ubig_to_u256 n = Some w"
    then show "unat w = n"
      unfolding ubig_to_u256_def p by (auto simp only: unat_of_nat_small split: if_splits)
  next
    assume "unat w = n"
    then have "of_nat n = w" and "n < 2 ^ LENGTH(256)"
      using unsigned_less [of w, where ?'a = nat] by (auto simp only: of_nat_unat ucast_id)
    then show "ubig_to_u256 n = Some w" unfolding ubig_to_u256_def p by (simp only: if_True)
  qed
qed

lemma stub_div_rem_iff [result_simps]:
  "stub_div_rem_u384_by_u256 x y = Inr (q, r) \<longleftrightarrow>
     0 < unat y \<and> unat q = unat x * 2 ^ 128 div unat y \<and> unat r = unat x * 2 ^ 128 mod unat y"
proof -
  define n where "n = unat x * 2 ^ 128"
  have rem: "n - unat y * (n div unat y) = n mod unat y"
    by (rule minus_mult_div_eq_mod)
  have pos: "0 < unat y \<longleftrightarrow> y \<noteq> 0" by (simp add: unat_gt_0)
  show ?thesis
    unfolding stub_div_rem_u384_by_u256_def Let_def n_def [symmetric] rem pos
    by (cases "ubig_to_u256 (n div unat y)")
      (auto simp: and_then_Inr_iff expect_some_Inr_iff ubig_to_u256_iff
        dest: sym [of None] simp flip: ubig_to_u256_iff)
qed

lemma stub_div_rem_total: "stub_div_rem_u384_by_u256 x y \<noteq> Inl Panic"
proof -
  have "unat x * 2 ^ 128 mod unat y < 256 ^ 32" if "y \<noteq> 0"
  proof -
    have "unat x * 2 ^ 128 mod unat y < unat y" using that by (simp add: unat_gt_0)
    moreover have "unat y < 256 ^ 32" using unsigned_less [of y, where ?'a = nat] by simp
    ultimately show ?thesis by linarith
  qed
  then show ?thesis
    unfolding stub_div_rem_u384_by_u256_def Let_def minus_mult_div_eq_mod
    by (auto simp: ubig_to_u256_def split: option.splits)
qed

lemma fp_checked_div_iff [result_simps]:
  "fp_checked_div x y = Inr z \<longleftrightarrow>
     0 < unat (raw y) \<and> unat (raw z) = unat (raw x) * 2 ^ 128 div unat (raw y)"
proof -
  have "\<exists>r. unat (r :: u256) = unat (raw x) * 2 ^ 128 mod unat (raw y)" if "0 < unat (raw y)"
    using that by (intro unat_surj_le [of _ "raw y"]) simp
  then show ?thesis
    by (cases z) (auto simp: fp_checked_div_def and_then_Inr_iff stub_div_rem_iff)
qed

lemma fp_round_up_iff [result_simps]:
  "fp_round_up x = Inr z \<longleftrightarrow> unat (raw z) = (unat (raw x) + (2 ^ 128 - 1)) div 2 ^ 128 * 2 ^ 128"
proof -
  define b :: nat where "b = 2 ^ 128"
  have b: "0 < b" by (simp add: b_def)
  have lo: "lo_word (raw x) = 0 \<longleftrightarrow> unat (raw x) mod b = 0"
    by (simp add: word_unat_eq_iff b_def)
  show ?thesis
  proof (cases "unat (raw x) mod b = 0")
    case True
    then have "unat (raw x) div b * b = unat (raw x)" using div_mult_mod_eq [of "unat (raw x)" b] by simp
    then show ?thesis
      using True lo round_up_nat [OF b, of "unat (raw x)"]
      by (auto simp: fp_round_up_def fixpoint_eq_iff b_def)
  next
    case False
    have eq: "fp_round_up x = Inr z \<longleftrightarrow>
        (\<exists>i. unat (hi_word (raw x)) + 1 = unat (i :: u128) \<and> unat (raw z) = unat i * b)"
      using False lo by (auto simp: fp_round_up_def and_then_Inr_iff ok_or_Inr_iff
          checked_add_Some_iff fixpoint_eq_iff b_def)
    have "(\<exists>i. unat (raw x) div b + 1 = unat (i :: u128) \<and> unat (raw z) = unat i * b)
        \<longleftrightarrow> unat (raw z) = (unat (raw x) div b + 1) * b" (is "?L \<longleftrightarrow> ?R")
    proof
      assume r: ?R
      then have "unat (raw x) div b + 1 < b"
      proof -
        have "unat (raw z) < b * b" using raw_less [of z] by (simp add: b_def)
        then have "(unat (raw x) div b + 1) * b < b * b" using r by (simp only:)
        then show ?thesis by (simp only: mult_less_cancel2)
      qed
      then have "unat (of_nat (unat (raw x) div b + 1) :: u128) = unat (raw x) div b + 1"
        by (intro unat_of_nat_small) (simp add: b_def)
      with r show ?L by metis
    next
      assume ?L
      then show ?R by metis
    qed
    with eq show ?thesis
      using False round_up_nat [OF b, of "unat (raw x)"] by (simp add: b_def)
  qed
qed

lemma fp_mul_ops_eq [result_simps]:
  "fp_mul_rv m y = Inr z \<longleftrightarrow> (\<exists>x. m = Inr x \<and> fp_checked_mul x y = Inr z)"
  "fp_mul_vr x n = Inr z \<longleftrightarrow> (\<exists>y. n = Inr y \<and> fp_checked_mul x y = Inr z)"
  by (auto simp: fp_mul_rv_def fp_mul_vr_def result_simps)

lemma round_down_into_amount: "\<exists>a. fp_try_into_amount (fp_round_down x) = Inr a \<and> unat a = unat (raw x) div 2 ^ 128"
  by (rule exI [of _ "hi_word (raw x)"]) (simp add: fp_try_into_amount_iff)

lemma apply_to_amount_iff [result_simps]:
  "apply_to_amount x a = Inr b \<longleftrightarrow>
     unat a * unat (raw x) < 2 ^ 256 \<and> unat b = unat a * unat (raw x) div 2 ^ 128"
proof -
  define k :: nat where "k = 2 ^ 128"
  define n where "n = unat a * unat (raw x)"
  have mul: "fp_checked_mul (fp_from_amount a) x = Inr m \<longleftrightarrow> n = unat (raw m)" for m
    by (simp add: fp_checked_mul_iff n_def)
  have conv: "expect (fp_try_into_amount (fp_round_down m)) = Inr b \<longleftrightarrow> unat b = unat (raw m) div k" for m
    by (auto simp: expect_Inr_iff fp_try_into_amount_iff k_def)
  show ?thesis
  proof (cases "n < 2 ^ 256")
    case True
    then have "n = unat (raw (U128x128 (of_nat n)))" by (simp add: unat_of_nat_small)
    then show ?thesis
      using True unfolding apply_to_amount_def and_then_Inr_iff mul conv n_def [symmetric] k_def [symmetric]
      by metis
  next
    case False
    then have "n \<noteq> unat (raw m)" for m using raw_less [of m] by linarith
    then show ?thesis
      using False unfolding apply_to_amount_def and_then_Inr_iff mul n_def [symmetric] by blast
  qed
qed

section \<open>Properties\<close>

text \<open>multiplication of fixed-point numbers is exact multiplication rounded down to the
  fraction, and reports an overflow exactly when that product does not fit.\<close>

theorem fixpoint_mul_exact:
  "case fp_checked_mul x y of
     Inr z \<Rightarrow> unat (raw z) = unat (raw x) * unat (raw y) div 2 ^ 128
   | Inl e \<Rightarrow> e = Overflow \<and> 2 ^ 256 \<le> unat (raw x) * unat (raw y) div 2 ^ 128"
proof (cases "fp_checked_mul x y")
  case (Inr z)
  then show ?thesis using fp_checked_mul_iff [of x y z] by simp
next
  case (Inl e)
  have "e = Overflow"
    using Inl by (auto simp: fp_checked_mul_def Let_def ok_or_def split: if_splits option.splits)
  moreover have "2 ^ 256 \<le> unat (raw x) * unat (raw y) div 2 ^ 128"
  proof (rule ccontr)
    let ?n = "unat (raw x) * unat (raw y) div 2 ^ 128"
    assume "\<not> 2 ^ 256 \<le> ?n"
    then have "unat (raw (U128x128 (of_nat ?n))) = ?n" by (simp only: fixpoint.sel) (simp add: unat_of_nat_small)
    then have "fp_checked_mul x y = Inr (U128x128 (of_nat ?n))" by (simp only: fp_checked_mul_iff)
    with Inl show False by simp
  qed
  ultimately show ?thesis using Inl by simp
qed

text \<open>division of fixed-point numbers is exact division rounded down; it reports division by
  zero or overflow, and never reaches the \<open>expect\<close> of the long division.\<close>

theorem fixpoint_div_exact:
  "case fp_checked_div x y of
     Inr z \<Rightarrow> 0 < unat (raw y) \<and> unat (raw z) = unat (raw x) * 2 ^ 128 div unat (raw y)
   | Inl e \<Rightarrow> (e = DivisionByZero \<and> raw y = 0)
       \<or> (e = Overflow \<and> 0 < unat (raw y) \<and> 2 ^ 256 \<le> unat (raw x) * 2 ^ 128 div unat (raw y))"
proof (cases "fp_checked_div x y")
  case (Inr z)
  then show ?thesis using fp_checked_div_iff [of x y z] by simp
next
  case (Inl e)
  show ?thesis
  proof (cases "raw y = 0")
    case True
    with Inl show ?thesis by (simp add: fp_checked_div_def stub_div_rem_u384_by_u256_def)
  next
    case False
    then have pos: "0 < unat (raw y)" by (simp add: unat_gt_0)
    have "e = Overflow"
      using Inl False stub_div_rem_total [of "raw x" "raw y"]
      by (auto simp: fp_checked_div_def stub_div_rem_u384_by_u256_def Let_def and_then_Inl_iff expect_some_def ok_or_def
          split: if_splits option.splits)
    moreover have "2 ^ 256 \<le> unat (raw x) * 2 ^ 128 div unat (raw y)"
    proof (rule ccontr)
      let ?n = "unat (raw x) * 2 ^ 128 div unat (raw y)"
      assume "\<not> 2 ^ 256 \<le> ?n"
      then have "unat (raw (U128x128 (of_nat ?n))) = ?n" by (simp only: fixpoint.sel) (simp add: unat_of_nat_small)
      then have "fp_checked_div x y = Inr (U128x128 (of_nat ?n))" using pos by (simp only: fp_checked_div_iff)
      with Inl show False by simp
    qed
    ultimately show ?thesis using Inl pos by simp
  qed
qed

text \<open>the byte encoding of fixed-point numbers can be decoded, and its lexicographic order is
  the numeric order, so that keys built from it iterate in price order.\<close>

theorem fixpoint_bytes_ordered:
  "(fp_to_bytes x < fp_to_bytes y \<longleftrightarrow> x < y) \<and> fp_from_bytes (fp_to_bytes x) = x
    \<and> fp_try_from_slice (fp_to_bytes x) = Inr x"
  using fp_to_bytes_less_iff [of x y] fp_from_bytes_to_bytes [of x] by (simp add: fp_try_from_slice_def)

end
