(* ===== verification/Interfaces.thy ===== *)
theory Interfaces
  imports Prelude
begin

text \<open>
  The interfaces between components, as locales. \<open>ordered_map\<close> is what the code relies on
  of \<open>BTreeMap\<close> and \<open>im::OrdMap\<close>: iteration in key order over the entries. \<open>kv_store\<close> is
  one key family of the chain state (\<open>StateRead\<close>, \<open>StateWrite\<close>): a put is read back and
  changes no other key. \<open>ledger\<close> is the contract of a value circuit breaker: a balance per
  asset that credits raise and debits lower, where a debit that the balance does not cover
  fails. Each locale is interpreted on the model's own definitions, in the theory of the
  component that provides it; the lemmas below are proved once for all of them.
\<close>

section \<open>Ordered maps\<close>

locale ordered_map =
  fixes empty :: "'m"
    and lookup :: "'m \<Rightarrow> 'k::linorder \<Rightarrow> 'v option"
    and insert :: "'k \<Rightarrow> 'v \<Rightarrow> 'm \<Rightarrow> 'm"
    and remove :: "'k \<Rightarrow> 'm \<Rightarrow> 'm"
    and entries :: "'m \<Rightarrow> ('k \<times> 'v) list"
    and invar :: "'m \<Rightarrow> bool"
  assumes lookup_empty: "lookup empty k = None"
    and invar_empty: "invar empty"
    and lookup_insert: "invar m \<Longrightarrow> lookup (insert k v m) k' = (if k' = k then Some v else lookup m k')"
    and lookup_remove: "invar m \<Longrightarrow> lookup (remove k m) k' = (if k' = k then None else lookup m k')"
    and invar_insert: "invar m \<Longrightarrow> invar (insert k v m)"
    and invar_remove: "invar m \<Longrightarrow> invar (remove k m)"
    and lookup_entries: "invar m \<Longrightarrow> lookup m k = map_of (entries m) k"
    and sorted_entries: "invar m \<Longrightarrow> sorted_wrt (<) (map fst (entries m))"
begin

lemma distinct_entries: "invar m \<Longrightarrow> distinct (map fst (entries m))"
  using sorted_entries [of m] by (simp add: strict_sorted_iff)

lemma in_entries_iff: "invar m \<Longrightarrow> (k, v) \<in> set (entries m) \<longleftrightarrow> lookup m k = Some v"
  by (simp add: lookup_entries distinct_entries)

text \<open>A map is determined by its lookups: two maps that agree have the same entries in the
  same order.\<close>

lemma entries_eqI:
  assumes "invar m" "invar n" "\<And>k. lookup m k = lookup n k"
  shows "entries m = entries n"
proof -
  have sub: "set (entries m) = set (entries n)"
    using assms by (auto simp: in_entries_iff)
  have "sorted (map fst (entries m))" "sorted (map fst (entries n))"
    using sorted_entries [OF assms(1)] sorted_entries [OF assms(2)]
    by (simp_all add: strict_sorted_iff)
  then show ?thesis
    using sub assms(1,2) by (intro map_sorted_distinct_set_unique [where f = fst])
      (auto simp: distinct_entries intro: distinct_entries [unfolded distinct_map, THEN conjunct2])
qed

lemma length_entries: "invar m \<Longrightarrow> length (entries m) = card (dom (lookup m))"
  using distinct_entries [of m] lookup_entries [of m]
  by (metis (no_types, lifting) ext distinct_card dom_map_of_conv_image_fst length_map list.set_map)

end

section \<open>Key-value stores\<close>

locale kv_store =
  fixes get :: "'s \<Rightarrow> 'k \<Rightarrow> 'v option"
    and put :: "'k \<Rightarrow> 'v \<Rightarrow> 's \<Rightarrow> 's"
  assumes get_put: "get (put k v s) k' = (if k' = k then Some v else get s k')"
begin

definition all_stored :: "('k \<Rightarrow> 'v \<Rightarrow> bool) \<Rightarrow> 's \<Rightarrow> bool" where
  "all_stored P s \<longleftrightarrow> (\<forall>k v. get s k = Some v \<longrightarrow> P k v)"

lemma all_storedI: "(\<And>k v. get s k = Some v \<Longrightarrow> P k v) \<Longrightarrow> all_stored P s"
  by (simp add: all_stored_def)

lemma all_storedD: "all_stored P s \<Longrightarrow> get s k = Some v \<Longrightarrow> P k v"
  by (simp add: all_stored_def)

lemma all_stored_put: "all_stored P s \<Longrightarrow> P k v \<Longrightarrow> all_stored P (put k v s)"
  by (auto simp: all_stored_def get_put)

lemma get_put_same: "get (put k v s) k = Some v"
  by (simp add: get_put)

lemma get_put_other: "k' \<noteq> k \<Longrightarrow> get (put k v s) k' = get s k'"
  by (simp add: get_put)

text \<open>What is stored under a key after a sequence of puts is the last value put there.\<close>

lemma get_fold_put:
  "get (fold (\<lambda>(k, v). put k v) kvs s) k = (case map_of (rev kvs) k of None \<Rightarrow> get s k | Some v \<Rightarrow> Some v)"
proof (induction kvs arbitrary: s)
  case Nil
  then show ?case by simp
next
  case (Cons kv kvs)
  then show ?case
    by (cases kv) (auto simp: get_put map_add_def split: option.splits)
qed

end

section \<open>Ledgers\<close>

datatype 'k posting = Credit 'k u128 | Debit 'k u128

fun post :: "('k \<Rightarrow> u128 \<Rightarrow> 's \<Rightarrow> 's result) \<Rightarrow> ('k \<Rightarrow> u128 \<Rightarrow> 's \<Rightarrow> 's result)
    \<Rightarrow> 'k posting \<Rightarrow> 's \<Rightarrow> 's result" where
  "post credit debit (Credit k v) s = credit k v s"
| "post credit debit (Debit k v) s = debit k v s"

fun credited :: "'k posting list \<Rightarrow> 'k \<Rightarrow> nat" where
  "credited [] k = 0"
| "credited (Credit k' v # ps) k = (if k' = k then unat v else 0) + credited ps k"
| "credited (Debit k' v # ps) k = credited ps k"

fun debited :: "'k posting list \<Rightarrow> 'k \<Rightarrow> nat" where
  "debited [] k = 0"
| "debited (Debit k' v # ps) k = (if k' = k then unat v else 0) + debited ps k"
| "debited (Credit k' v # ps) k = debited ps k"

locale ledger =
  fixes bal :: "'s \<Rightarrow> 'k \<Rightarrow> nat"
    and credit :: "'k \<Rightarrow> u128 \<Rightarrow> 's \<Rightarrow> 's result"
    and debit :: "'k \<Rightarrow> u128 \<Rightarrow> 's \<Rightarrow> 's result"
  assumes bal_credit: "credit k v s = Inr t \<Longrightarrow> bal t k' = bal s k' + (if k' = k then unat v else 0)"
    and bal_debit: "debit k v s = Inr t \<Longrightarrow> bal s k' = bal t k' + (if k' = k then unat v else 0)"
    and credit_ok: "(\<exists>t. credit k v s = Inr t) \<longleftrightarrow> bal s k + unat v < 2 ^ 128"
    and debit_ok: "(\<exists>t. debit k v s = Inr t) \<longleftrightarrow> unat v \<le> bal s k"
begin

text \<open>Conservation: over any sequence of postings that succeeds, what is left in the ledger
  is what was there, plus the credits, less the debits.\<close>

lemma conservation:
  "try_fold (post credit debit) ps s = Inr t \<Longrightarrow> bal t k + debited ps k = bal s k + credited ps k"
proof (induction ps arbitrary: s)
  case Nil
  then show ?case by simp
next
  case (Cons p ps)
  then obtain u where u: "post credit debit p s = Inr u" "try_fold (post credit debit) ps u = Inr t"
    by (auto simp: result_simps)
  from u(2) have IH: "bal t k + debited ps k = bal u k + credited ps k" by (rule Cons.IH)
  show ?case
  proof (cases p)
    case (Credit k' v)
    with u(1) bal_credit [of k' v s u k] IH show ?thesis by auto
  next
    case (Debit k' v)
    with u(1) bal_debit [of k' v s u k] IH show ?thesis by auto
  qed
qed

text \<open>Solvency: no sequence of postings takes out more than was put in.\<close>

lemma solvency:
  "try_fold (post credit debit) ps s = Inr t \<Longrightarrow> debited ps k \<le> bal s k + credited ps k"
  using conservation [of ps s t k] by linarith

lemma credit_then_debit:
  "credit k v s = Inr t \<Longrightarrow> \<exists>u. debit k v t = Inr u \<and> bal u = bal s"
proof -
  assume c: "credit k v s = Inr t"
  then have "unat v \<le> bal t k" by (simp add: bal_credit)
  then obtain u where u: "debit k v t = Inr u" using debit_ok by blast
  have "bal u k' = bal s k'" for k'
    using bal_credit [OF c, of k'] bal_debit [OF u, of k'] by (auto split: if_splits)
  with u show ?thesis by blast
qed

end

end
