(* ===== verification/OrdMap.thy ===== *)
theory OrdMap
  imports Interfaces
begin

text \<open>
  \<open>BTreeMap\<close> and \<open>im::OrdMap\<close> of the Rust standard library and the \<open>im\<close> crate, modelled
  by the list of their entries in increasing key order, which is the order in which the code
  iterates over them. The interpretation at the end shows that this is an ordered map.
\<close>

type_synonym ('k, 'v) btree = "('k \<times> 'v) list"

definition bt_wf :: "('k::linorder, 'v) btree \<Rightarrow> bool" where
  "bt_wf m \<longleftrightarrow> sorted_wrt (<) (map fst m)"

definition bt_get :: "('k::linorder, 'v) btree \<Rightarrow> 'k \<Rightarrow> 'v option" where
  "bt_get m k = map_of m k"

fun bt_insert :: "'k::linorder \<Rightarrow> 'v \<Rightarrow> ('k, 'v) btree \<Rightarrow> ('k, 'v) btree" where
  "bt_insert k v [] = [(k, v)]"
| "bt_insert k v ((k', v') # m) =
     (if k < k' then (k, v) # (k', v') # m
      else if k = k' then (k, v) # m
      else (k', v') # bt_insert k v m)"

fun bt_remove :: "'k::linorder \<Rightarrow> ('k, 'v) btree \<Rightarrow> ('k, 'v) btree" where
  "bt_remove k [] = []"
| "bt_remove k ((k', v') # m) = (if k = k' then m else (k', v') # bt_remove k m)"

lemma set_bt_insert: "fst ` set (bt_insert k v m) = insert k (fst ` set m)"
  by (induction k v m rule: bt_insert.induct) auto

lemma set_bt_remove: "fst ` set (bt_remove k m) \<subseteq> fst ` set m"
  by (induction k m rule: bt_remove.induct) auto

lemma bt_wf_Nil: "bt_wf []"
  by (simp add: bt_wf_def)

lemma bt_wf_Cons: "bt_wf ((k, v) # m) \<longleftrightarrow> (\<forall>k' \<in> fst ` set m. k < k') \<and> bt_wf m"
  by (simp add: bt_wf_def)

lemma bt_wf_insert: "bt_wf m \<Longrightarrow> bt_wf (bt_insert k v m)"
proof (induction k v m rule: bt_insert.induct)
  case (2 k v k' v' m)
  consider "k < k'" | "k = k'" | "k' < k" by (rule linorder_cases)
  then show ?case
  proof cases
    case 1
    with "2.prems" show ?thesis by (auto simp: bt_wf_Cons intro: less_trans)
  next
    case 2
    with "2.prems" show ?thesis by (auto simp: bt_wf_Cons)
  next
    case 3
    with "2.prems" "2.IH" have "bt_wf (bt_insert k v m)" by (simp add: bt_wf_Cons)
    moreover from "2.prems" 3 have "\<forall>x \<in> fst ` set (bt_insert k v m). k' < x"
      by (simp add: set_bt_insert bt_wf_Cons)
    ultimately show ?thesis
      using 3 by (auto simp: bt_wf_Cons)
  qed
qed (simp add: bt_wf_def)

lemma bt_wf_remove: "bt_wf m \<Longrightarrow> bt_wf (bt_remove k m)"
proof (induction k m rule: bt_remove.induct)
  case (2 k k' v' m)
  then have "\<forall>x \<in> fst ` set (bt_remove k m). k' < x"
    using set_bt_remove [of k m] unfolding bt_wf_Cons by blast
  with 2 show ?case by (simp add: bt_wf_Cons)
qed (simp add: bt_wf_Nil)

lemma bt_get_insert: "bt_wf m \<Longrightarrow> bt_get (bt_insert k v m) k' = (if k' = k then Some v else bt_get m k')"
  by (induction k v m rule: bt_insert.induct) (auto simp: bt_get_def bt_wf_Cons)

lemma bt_get_remove: "bt_wf m \<Longrightarrow> bt_get (bt_remove k m) k' = (if k' = k then None else bt_get m k')"
proof (induction k m rule: bt_remove.induct)
  case (2 k k'' v' m)
  then show ?case
    by (auto simp: bt_get_def bt_wf_Cons map_of_eq_None_iff) (metis eq_fst_iff image_eqI less_irrefl)
qed (simp add: bt_get_def)

interpretation btree: ordered_map "[]" bt_get bt_insert bt_remove "\<lambda>m. m" bt_wf
  by unfold_locales
    (simp_all add: bt_get_insert bt_get_remove bt_wf_insert bt_wf_remove bt_wf_Nil,
     simp_all add: bt_get_def bt_wf_def)

lemmas btree_simps [simp] =
  bt_get_insert bt_get_remove bt_wf_insert bt_wf_remove bt_wf_Nil

end
