(* ===== verification/Balance.thy ===== *)
theory Balance
  imports Fixpoint OrdMap
begin

text \<open>
  Asset identifiers, \<open>Value\<close> (\<open>crates/core/asset/src/value.rs\<close>), \<open>Imbalance\<close>
  (\<open>balance/imbalance.rs\<close>) and \<open>Balance\<close> (\<open>balance.rs\<close>, \<open>balance/iter.rs\<close>): a vector of
  values, each required or provided, kept under a lazily applied sign. The abstract
  specification is the function \<open>net\<close> from assets to integers; the lemmas show that the
  representation implements the group operations on it.
\<close>

section \<open>Asset identifiers\<close>

text \<open>
  \<open>asset::Id\<close> is a newtype of the field element \<open>decaf377::Fq\<close> whose derived order is the
  order of \<open>Fq\<close>. An identifier is represented here by the rank of its field element in that
  order; the code uses nothing of it but equality and the order.
\<close>

datatype asset_id = AssetId (asset_rank: nat)

instantiation asset_id :: linorder
begin

definition less_eq_asset_id :: "asset_id \<Rightarrow> asset_id \<Rightarrow> bool" where
  "less_eq_asset_id x y \<longleftrightarrow> asset_rank x \<le> asset_rank y"

definition less_asset_id :: "asset_id \<Rightarrow> asset_id \<Rightarrow> bool" where
  "less_asset_id x y \<longleftrightarrow> asset_rank x < asset_rank y"

instance
  by standard (auto simp: less_eq_asset_id_def less_asset_id_def asset_id.expand)

end

record asset_value =
  v_amount :: amount
  v_asset :: asset_id

section \<open>Imbalance\<close>

datatype 'a imbalance = Required 'a | Provided 'a

datatype sign = SRequired | SProvided

fun imb_neg :: "'a imbalance \<Rightarrow> 'a imbalance" where
  "imb_neg (Required t) = Provided t"
| "imb_neg (Provided t) = Required t"

fun imb_into_inner :: "'a imbalance \<Rightarrow> sign \<times> 'a" where
  "imb_into_inner (Required t) = (SRequired, t)"
| "imb_into_inner (Provided t) = (SProvided, t)"

fun imb_map :: "('a \<Rightarrow> 'b) \<Rightarrow> 'a imbalance \<Rightarrow> 'b imbalance" where
  "imb_map f (Required t) = Required (f t)"
| "imb_map f (Provided t) = Provided (f t)"

fun imb_required :: "'a imbalance \<Rightarrow> 'a option" where
  "imb_required (Required t) = Some t"
| "imb_required (Provided t) = None"

fun imb_provided :: "'a imbalance \<Rightarrow> 'a option" where
  "imb_provided (Required t) = None"
| "imb_provided (Provided t) = Some t"

fun sign_imbalance :: "sign \<Rightarrow> 'a \<Rightarrow> 'a imbalance" where
  "sign_imbalance SRequired t = Required t"
| "sign_imbalance SProvided t = Provided t"

text \<open>
  Addition of two imbalances of nonzero amounts: \<open>None\<close> when they cancel, a panic when two
  of the same sign overflow. The last arm of the code negates twice to reuse the first two.
\<close>

definition imb_add_required :: "u128 \<Rightarrow> u128 imbalance \<Rightarrow> u128 imbalance option result" where
  "imb_add_required r other =
     (case other of
        Required s \<Rightarrow>
          (case checked_add r s of
             Some t \<Rightarrow> if t = 0 then Inl Panic else Inr (Some (Required t))
           | None \<Rightarrow> Inl Panic)
      | Provided p \<Rightarrow>
          (if p < r then (if r - p = 0 then Inl Panic else Inr (Some (Required (r - p))))
           else if p = r then Inr None
           else (if p - r = 0 then Inl Panic else Inr (Some (Provided (p - r))))))"

fun imb_add :: "u128 imbalance \<Rightarrow> u128 imbalance \<Rightarrow> u128 imbalance option result" where
  "imb_add (Required r) y = imb_add_required r y"
| "imb_add (Provided p) y =
     and_then (imb_add_required p (imb_neg y)) (\<lambda>s. Inr (map_option imb_neg s))"

definition imb_sub :: "u128 imbalance \<Rightarrow> u128 imbalance \<Rightarrow> u128 imbalance option result" where
  "imb_sub x y = imb_add x (imb_neg y)"

fun imb_int :: "u128 imbalance \<Rightarrow> int" where
  "imb_int (Required t) = - uint t"
| "imb_int (Provided t) = uint t"

fun imb_amount :: "'a imbalance \<Rightarrow> 'a" where
  "imb_amount (Required t) = t"
| "imb_amount (Provided t) = t"

lemma imb_neg_neg [simp]: "imb_neg (imb_neg x) = x"
  by (cases x) auto

lemma imb_int_neg [simp]: "imb_int (imb_neg x) = - imb_int x"
  by (cases x) auto

lemma imb_amount_neg [simp]: "imb_amount (imb_neg x) = imb_amount x"
  by (cases x) auto

lemma imb_int_inject: "imb_amount x \<noteq> 0 \<Longrightarrow> imb_int x = imb_int y \<Longrightarrow> x = y"
proof (cases x; cases y)
  fix a b :: u128
  assume "imb_amount x \<noteq> 0" "imb_int x = imb_int y" "x = Required a" "y = Provided b"
  then have "uint a \<noteq> 0" "- uint a = uint b" by (auto simp: word_uint_eq_iff)
  with uint_ge_0 [of a] uint_ge_0 [of b] show ?thesis by linarith
next
  fix a b :: u128
  assume "imb_amount x \<noteq> 0" "imb_int x = imb_int y" "x = Provided a" "y = Required b"
  then have "uint a \<noteq> 0" "uint a = - uint b" by (auto simp: word_uint_eq_iff)
  with uint_ge_0 [of a] uint_ge_0 [of b] show ?thesis by linarith
qed (auto simp: word_uint_eq_iff)

definition opt_imb_int :: "u128 imbalance option \<Rightarrow> int" where
  "opt_imb_int x = (case x of None \<Rightarrow> 0 | Some i \<Rightarrow> imb_int i)"

lemma opt_imb_int_simps [simp]: "opt_imb_int None = 0" "opt_imb_int (Some i) = imb_int i"
  by (simp_all add: opt_imb_int_def)

lemma imb_add_required_ok:
  assumes "imb_add_required r y = Inr s" "r \<noteq> 0"
  shows "opt_imb_int s = imb_int (Required r) + imb_int y"
    and "\<forall>i. s = Some i \<longrightarrow> imb_amount i \<noteq> 0"
  using assms
  by (auto simp: imb_add_required_def uint_sub_no_underflow checked_add_uint_iff
      split: imbalance.splits option.splits if_splits)

text \<open>Addition is integer addition, and it panics exactly when the sum does not fit.\<close>

lemma imb_add_ok:
  assumes "imb_add x y = Inr s" "imb_amount x \<noteq> 0"
  shows "opt_imb_int s = imb_int x + imb_int y" "\<forall>i. s = Some i \<longrightarrow> imb_amount i \<noteq> 0"
proof -
  show "opt_imb_int s = imb_int x + imb_int y"
  proof (cases x)
    case (Required r)
    with assms imb_add_required_ok [of r y s] show ?thesis by simp
  next
    case (Provided p)
    with assms obtain u where u: "imb_add_required p (imb_neg y) = Inr u" "s = map_option imb_neg u"
      by (auto simp: result_simps)
    with imb_add_required_ok [of p "imb_neg y" u] assms Provided show ?thesis
      by (cases u) auto
  qed
  show "\<forall>i. s = Some i \<longrightarrow> imb_amount i \<noteq> 0"
  proof (cases x)
    case (Required r)
    with assms imb_add_required_ok [of r y s] show ?thesis by simp
  next
    case (Provided p)
    with assms obtain u where u: "imb_add_required p (imb_neg y) = Inr u" "s = map_option imb_neg u"
      by (auto simp: result_simps)
    with imb_add_required_ok [of p "imb_neg y" u] assms Provided show ?thesis
      by (cases u) auto
  qed
qed

lemma imb_add_required_total:
  assumes "r \<noteq> 0" "\<bar>imb_int (Required r) + imb_int y\<bar> < 2 ^ 128"
  shows "\<exists>s. imb_add_required r y = Inr s"
proof (cases y)
  case (Required s)
  with assms(2) have "uint r + uint s < 2 ^ 128"
    using uint_ge_0 [of r] uint_ge_0 [of s] by simp
  then have lt: "unat r + unat s < 2 ^ 128"
    unfolding uint_nat by (metis of_nat_add of_nat_less_iff of_nat_numeral of_nat_power)
  then have "checked_add r s = Some (r + s)" by (simp add: checked_add_def)
  moreover have "unat (r + s) = unat r + unat s" using lt by (simp add: unat_add_no_overflow)
  then have "r + s \<noteq> 0" using assms(1) by (metis add_eq_0_iff_both_eq_0 unat_0_iff)
  ultimately show ?thesis using Required by (simp add: imb_add_required_def)
next
  case (Provided p)
  then show ?thesis by (auto simp: imb_add_required_def)
qed

lemma imb_add_total:
  assumes "imb_amount x \<noteq> 0" "\<bar>imb_int x + imb_int y\<bar> < 2 ^ 128"
  shows "\<exists>s. imb_add x y = Inr s"
proof (cases x)
  case (Required r)
  with assms imb_add_required_total [of r y] show ?thesis by simp
next
  case (Provided p)
  with assms have "\<bar>imb_int (Required p) + imb_int (imb_neg y)\<bar> < 2 ^ 128" by simp
  with Provided assms imb_add_required_total [of p "imb_neg y"] show ?thesis by auto
qed

section \<open>Balance\<close>

record balance =
  negated :: bool
  bal_map :: "(asset_id, u128 imbalance) btree"

definition balance_zero :: balance where
  "balance_zero = \<lparr>negated = False, bal_map = []\<rparr>"

definition is_zero :: "balance \<Rightarrow> bool" where
  "is_zero b \<longleftrightarrow> bal_map b = []"

definition dimension :: "balance \<Rightarrow> nat" where
  "dimension b = length (bal_map b)"

definition balance_iter :: "balance \<Rightarrow> asset_value imbalance list" where
  "balance_iter b =
     map (\<lambda>(id, imb).
       let value_imbalance = imb_map (\<lambda>amt. \<lparr>v_amount = amt, v_asset = id\<rparr>) imb
       in if negated b then imb_neg value_imbalance else value_imbalance) (bal_map b)"

definition balance_required :: "balance \<Rightarrow> asset_value list" where
  "balance_required b = List.map_filter imb_required (balance_iter b)"

definition balance_provided :: "balance \<Rightarrow> asset_value list" where
  "balance_provided b = List.map_filter imb_provided (balance_iter b)"

definition balance_eq :: "balance \<Rightarrow> balance \<Rightarrow> bool" where
  "balance_eq a b \<longleftrightarrow>
     dimension a = dimension b \<and> list_all (\<lambda>(i, j). i = j) (zip (balance_iter a) (balance_iter b))"

definition balance_neg :: "balance \<Rightarrow> balance" where
  "balance_neg b = b\<lparr>negated := \<not> negated b\<rparr>"

definition balance_add_step :: "asset_value imbalance \<Rightarrow> balance \<Rightarrow> balance result" where
  "balance_add_step x self =
     (let (sgn, v) = imb_into_inner x; id = v_asset v; amt = v_amount v in
      if amt = 0 then Inl Panic
      else let imb = sign_imbalance sgn amt in
        case bt_get (bal_map self) id of
          None \<Rightarrow>
            Inr (self\<lparr>bal_map := bt_insert id (if negated self then imb_neg imb else imb) (bal_map self)\<rparr>)
        | Some entry \<Rightarrow>
            let existing = (if negated self then imb_neg entry else entry) in
            and_then (imb_add existing imb)
              (\<lambda>new. case new of
                 Some n \<Rightarrow>
                   Inr (self\<lparr>bal_map := bt_insert id (if negated self then imb_neg n else n) (bal_map self)\<rparr>)
               | None \<Rightarrow> Inr (self\<lparr>bal_map := bt_remove id (bal_map self)\<rparr>)))"

definition balance_add :: "balance \<Rightarrow> balance \<Rightarrow> balance result" where
  "balance_add self other =
     (let (self, other) = (if dimension other > dimension self then (other, self) else (self, other))
      in try_fold balance_add_step (balance_iter other) self)"

definition balance_from_value :: "asset_value \<Rightarrow> balance" where
  "balance_from_value v =
     \<lparr>negated = False,
      bal_map = (if v_amount v \<noteq> 0 then bt_insert (v_asset v) (Provided (v_amount v)) [] else [])\<rparr>"

definition balance_add_value :: "balance \<Rightarrow> asset_value \<Rightarrow> balance result" where
  "balance_add_value self v = balance_add self (balance_from_value v)"

definition balance_sub :: "balance \<Rightarrow> balance \<Rightarrow> balance result" where
  "balance_sub self other = balance_add self (balance_neg other)"

definition balance_sub_value :: "balance \<Rightarrow> asset_value \<Rightarrow> balance result" where
  "balance_sub_value self v = balance_sub self (balance_from_value v)"

subsection \<open>The abstract balance\<close>

definition balance_wf :: "balance \<Rightarrow> bool" where
  "balance_wf b \<longleftrightarrow> bt_wf (bal_map b) \<and> (\<forall>k i. bt_get (bal_map b) k = Some i \<longrightarrow> imb_amount i \<noteq> 0)"

definition net :: "balance \<Rightarrow> asset_id \<Rightarrow> int" where
  "net b k = (if negated b then - opt_imb_int (bt_get (bal_map b) k)
               else opt_imb_int (bt_get (bal_map b) k))"

definition imb_id :: "asset_value imbalance \<Rightarrow> asset_id" where
  "imb_id x = v_asset (imb_amount x)"

definition imb_val :: "asset_value imbalance \<Rightarrow> int" where
  "imb_val x = imb_int (imb_map v_amount x)"

definition signed_imb :: "bool \<Rightarrow> u128 imbalance \<Rightarrow> u128 imbalance" where
  "signed_imb n i = (if n then imb_neg i else i)"

lemma signed_imb_simps [simp]:
  "signed_imb n (signed_imb n i) = i" "imb_amount (signed_imb n i) = imb_amount i"
  "imb_int (signed_imb n i) = (if n then - imb_int i else imb_int i)"
  by (simp_all add: signed_imb_def)

lemma net_eq: "net b k = (case bt_get (bal_map b) k of None \<Rightarrow> 0 | Some i \<Rightarrow> imb_int (signed_imb (negated b) i))"
  by (auto simp: net_def split: option.splits)

lemma balance_add_step_eq:
  "balance_add_step x s =
     (if v_amount (imb_amount x) = 0 then Inl Panic
      else case bt_get (bal_map s) (imb_id x) of
          None \<Rightarrow> Inr (s\<lparr>bal_map := bt_insert (imb_id x) (signed_imb (negated s) (imb_map v_amount x)) (bal_map s)\<rparr>)
        | Some e \<Rightarrow> and_then (imb_add (signed_imb (negated s) e) (imb_map v_amount x))
            (\<lambda>new. case new of
                 Some n \<Rightarrow> Inr (s\<lparr>bal_map := bt_insert (imb_id x) (signed_imb (negated s) n) (bal_map s)\<rparr>)
               | None \<Rightarrow> Inr (s\<lparr>bal_map := bt_remove (imb_id x) (bal_map s)\<rparr>)))"
  by (cases x) (auto simp: balance_add_step_def imb_id_def signed_imb_def Let_def split: option.splits)

lemma imb_amount_map [simp]: "imb_amount (imb_map f x) = f (imb_amount x)"
  by (cases x) auto

lemma balance_add_step_ok:
  assumes "balance_add_step x s = Inr t" "balance_wf s"
  shows "balance_wf t" "net t k = net s k + (if k = imb_id x then imb_val x else 0)"
proof -
  from assms have nz: "v_amount (imb_amount x) \<noteq> 0"
    by (auto simp: balance_add_step_eq split: if_splits)
  have "balance_wf t \<and> net t k = net s k + (if k = imb_id x then imb_val x else 0)"
  proof (cases "bt_get (bal_map s) (imb_id x)")
    case None
    with assms nz show ?thesis
      by (auto simp: balance_add_step_eq balance_wf_def net_eq imb_val_def split: option.splits if_splits)
  next
    case (Some e)
    with assms have e: "imb_amount (signed_imb (negated s) e) \<noteq> 0"
      by (simp add: balance_wf_def)
    from Some assms nz obtain new where new: "imb_add (signed_imb (negated s) e) (imb_map v_amount x) = Inr new"
      and t: "t = (case new of Some n \<Rightarrow> s\<lparr>bal_map := bt_insert (imb_id x) (signed_imb (negated s) n) (bal_map s)\<rparr>
               | None \<Rightarrow> s\<lparr>bal_map := bt_remove (imb_id x) (bal_map s)\<rparr>)"
      by (auto simp: balance_add_step_eq result_simps split: option.splits)
    note new_ok = imb_add_ok [OF new e]
    show ?thesis
      using new_ok t Some assms(2)
      by (cases new) (auto simp: balance_wf_def net_eq imb_val_def split: option.splits if_splits)
  qed
  then show "balance_wf t" "net t k = net s k + (if k = imb_id x then imb_val x else 0)" by auto
qed

lemma balance_add_step_total:
  assumes "balance_wf s" "v_amount (imb_amount x) \<noteq> 0" "\<bar>net s (imb_id x) + imb_val x\<bar> < 2 ^ 128"
  shows "\<exists>t. balance_add_step x s = Inr t"
proof (cases "bt_get (bal_map s) (imb_id x)")
  case None
  with assms show ?thesis by (simp add: balance_add_step_eq)
next
  case (Some e)
  with assms have "imb_amount (signed_imb (negated s) e) \<noteq> 0" by (simp add: balance_wf_def)
  moreover from Some assms(3) have "\<bar>imb_int (signed_imb (negated s) e) + imb_int (imb_map v_amount x)\<bar> < 2 ^ 128"
    by (simp only: net_eq option.case imb_val_def)
  ultimately obtain new where "imb_add (signed_imb (negated s) e) (imb_map v_amount x) = Inr new"
    using imb_add_total by blast
  with Some assms(2) show ?thesis by (cases new) (simp_all add: balance_add_step_eq)
qed


subsection \<open>The operations implement the group operations on \<open>net\<close>\<close>

lemma imb_int_eq_0: "imb_int i = 0 \<longleftrightarrow> imb_amount i = 0"
  by (cases i) (auto simp: word_uint_eq_iff)

lemma balance_iter_eq:
  "balance_iter b = map (\<lambda>(k, i). imb_map (\<lambda>a. \<lparr>v_amount = a, v_asset = k\<rparr>) (signed_imb (negated b) i)) (bal_map b)"
proof -
  have "imb_neg (imb_map f i) = imb_map f (imb_neg i)" for f :: "u128 \<Rightarrow> asset_value" and i
    by (cases i) auto
  then show ?thesis by (auto simp: balance_iter_def signed_imb_def Let_def)
qed

lemma imb_map_value [simp]:
  "imb_id (imb_map (\<lambda>a. \<lparr>v_amount = a, v_asset = k\<rparr>) i) = k"
  "imb_val (imb_map (\<lambda>a. \<lparr>v_amount = a, v_asset = k\<rparr>) i) = imb_int i"
  by (cases i; simp add: imb_id_def imb_val_def)+

lemma map_imb_id_iter [simp]: "map imb_id (balance_iter b) = map fst (bal_map b)"
  by (auto simp: balance_iter_eq)

lemma sum_iter: 
  assumes "balance_wf b"
  shows "(\<Sum>x \<leftarrow> balance_iter b. if k = imb_id x then imb_val x else 0) = net b k"
proof -
  have "bt_wf m \<Longrightarrow> (\<Sum>(k', i) \<leftarrow> m. if k = k' then imb_int (signed_imb n i) else 0) =
      (case bt_get m k of None \<Rightarrow> 0 | Some i \<Rightarrow> imb_int (signed_imb n i))" for m n
  proof (induction m)
    case (Cons x m)
    obtain k' i where x: "x = (k', i)" by fastforce
    have "bt_wf m" and lt: "\<forall>k'' \<in> fst ` set m. k' < k''" using Cons.prems x by (auto simp: bt_wf_Cons)
    note IH = Cons.IH [OF this(1)]
    show ?case
    proof (cases "k = k'")
      case True
      with lt have "bt_get m k = None" by (auto simp: bt_get_def map_of_eq_None_iff)
      with IH True x show ?thesis by (simp add: bt_get_def)
    next
      case False
      with IH x show ?thesis by (simp add: bt_get_def)
    qed
  qed (simp add: bt_get_def)
  from this [of "bal_map b" "negated b"] assms show ?thesis
    by (simp add: balance_iter_eq balance_wf_def net_eq comp_def split_def cong: if_cong)
qed

lemma fold_add_step_ok:
  assumes "try_fold balance_add_step xs s = Inr t" "balance_wf s"
  shows "balance_wf t \<and> net t k = net s k + (\<Sum>x \<leftarrow> xs. if k = imb_id x then imb_val x else 0)"
  using assms
proof (induction xs arbitrary: s)
  case (Cons x xs)
  then obtain u where u: "balance_add_step x s = Inr u" "try_fold balance_add_step xs u = Inr t"
    by (auto simp: result_simps)
  with Cons.IH [OF u(2)] balance_add_step_ok [OF u(1) Cons.prems(2)] show ?case by simp
qed simp

lemma fold_add_step_total:
  assumes "balance_wf s" "distinct (map imb_id xs)" "\<forall>x \<in> set xs. v_amount (imb_amount x) \<noteq> 0"
    and "\<forall>x \<in> set xs. \<bar>net s (imb_id x) + imb_val x\<bar> < 2 ^ 128"
  shows "\<exists>t. try_fold balance_add_step xs s = Inr t"
  using assms
proof (induction xs arbitrary: s)
  case (Cons x xs)
  then obtain u where u: "balance_add_step x s = Inr u"
    using balance_add_step_total [of s x] by auto
  note ok = balance_add_step_ok [OF u Cons.prems(1)]
  have "\<forall>y \<in> set xs. net u (imb_id y) = net s (imb_id y)"
    using Cons.prems(2) ok(2) by (auto simp: rev_image_eqI)
  then have "\<exists>t. try_fold balance_add_step xs u = Inr t"
    using Cons.prems ok(1) by (intro Cons.IH) auto
  with u show ?case by auto
qed simp

lemma in_iter:
  assumes "balance_wf b" "x \<in> set (balance_iter b)"
  shows "imb_val x = net b (imb_id x)" "v_amount (imb_amount x) \<noteq> 0"
proof -
  from assms(2) obtain k i where ki: "(k, i) \<in> set (bal_map b)"
    and x: "x = imb_map (\<lambda>a. \<lparr>v_amount = a, v_asset = k\<rparr>) (signed_imb (negated b) i)"
    by (auto simp: balance_iter_eq)
  then have "bt_get (bal_map b) k = Some i"
    using assms(1) by (simp add: balance_wf_def btree.in_entries_iff)
  with assms(1) x show "imb_val x = net b (imb_id x)" "v_amount (imb_amount x) \<noteq> 0"
    by (auto simp: net_eq balance_wf_def simp del: signed_imb_simps(3))
qed

lemma balance_add_net:
  assumes "balance_add a b = Inr c" "balance_wf a" "balance_wf b"
  shows "balance_wf c" "net c k = net a k + net b k"
proof -
  have "balance_wf c \<and> net c k = net a k + net b k"
  proof (cases "dimension b > dimension a")
    case True
    with assms(1) have "try_fold balance_add_step (balance_iter a) b = Inr c"
      by (simp add: balance_add_def)
    from fold_add_step_ok [OF this assms(3), of k] show ?thesis using sum_iter [OF assms(2)] by simp
  next
    case False
    with assms(1) have "try_fold balance_add_step (balance_iter b) a = Inr c"
      by (simp add: balance_add_def)
    from fold_add_step_ok [OF this assms(2), of k] show ?thesis using sum_iter [OF assms(3)] by simp
  qed
  then show "balance_wf c" "net c k = net a k + net b k" by auto
qed

lemma balance_add_total:
  assumes "balance_wf a" "balance_wf b" "\<And>k. \<bar>net a k + net b k\<bar> < 2 ^ 128"
  shows "\<exists>c. balance_add a b = Inr c"
proof -
  have "\<exists>c. try_fold balance_add_step (balance_iter y) x = Inr c"
    if "balance_wf x" "balance_wf y" "\<And>k. \<bar>net x k + net y k\<bar> < 2 ^ 128" for x y
  proof (rule fold_add_step_total)
    show "distinct (map imb_id (balance_iter y))"
      using that(2) by (simp add: balance_wf_def btree.distinct_entries)
    show "\<forall>i \<in> set (balance_iter y). \<bar>net x (imb_id i) + imb_val i\<bar> < 2 ^ 128"
      using that(3) in_iter(1) [OF that(2)] by auto
  qed (use that in_iter(2) in auto)
  from this [OF assms(1,2)] this [OF assms(2,1)] assms(3) show ?thesis
    by (simp add: balance_add_def add.commute)
qed

lemma balance_neg_net: "net (balance_neg b) k = - net b k" "balance_wf (balance_neg b) = balance_wf b"
  by (simp_all add: balance_neg_def net_def balance_wf_def)

lemma balance_sub_net:
  assumes "balance_sub a b = Inr c" "balance_wf a" "balance_wf b"
  shows "balance_wf c" "net c k = net a k - net b k"
  using balance_add_net [of a "balance_neg b" c] assms
  by (simp_all add: balance_sub_def balance_neg_net)

lemma balance_from_value_net:
  "net (balance_from_value v) k = (if k = v_asset v then uint (v_amount v) else 0)"
  "balance_wf (balance_from_value v)"
  by (auto simp: balance_from_value_def net_def balance_wf_def bt_get_def bt_wf_def opt_imb_int_def)

lemma balance_zero_net: "net balance_zero k = 0" "balance_wf balance_zero"
  by (simp_all add: balance_zero_def net_def balance_wf_def bt_get_def bt_wf_def)

lemma is_zero_iff: "balance_wf b \<Longrightarrow> is_zero b \<longleftrightarrow> (\<forall>k. net b k = 0)"
proof
  assume wf: "balance_wf b" and z: "\<forall>k. net b k = 0"
  show "is_zero b"
  proof (cases "bal_map b")
    case (Cons x m)
    obtain k i where "x = (k, i)" by fastforce
    with Cons have i: "bt_get (bal_map b) k = Some i" by (simp add: bt_get_def)
    with wf have "imb_amount i \<noteq> 0" by (simp add: balance_wf_def)
    then have "imb_int i \<noteq> 0" by (simp add: imb_int_eq_0)
    with i z show ?thesis by (auto simp: net_def dest: spec [of _ k] split: if_splits)
  qed (simp add: is_zero_def)
qed (simp add: is_zero_def net_def bt_get_def)

text \<open>\<open>PartialEq\<close> is equality of the abstract balances, whichever way each is negated.\<close>

lemma balance_eq_iff:
  assumes "balance_wf a" "balance_wf b"
  shows "balance_eq a b \<longleftrightarrow> (\<forall>k. net a k = net b k)"
proof
  assume eq: "balance_eq a b"
  then have "length (balance_iter a) = length (balance_iter b)"
    by (simp add: balance_eq_def dimension_def balance_iter_eq)
  with eq have "balance_iter a = balance_iter b"
    by (intro nth_equalityI) (auto simp: balance_eq_def list_all_length)
  then show "\<forall>k. net a k = net b k"
    using sum_iter [OF assms(1)] sum_iter [OF assms(2)] by metis
next
  assume net: "\<forall>k. net a k = net b k"
  define f where "f n m = map (\<lambda>(k, i). (k, signed_imb n i)) m" for n and m :: "(asset_id, u128 imbalance) btree"
  have get_f: "bt_get (f n m) k = map_option (signed_imb n) (bt_get m k)" for n m k
    by (simp add: f_def bt_get_def map_of_map)
  have wf_f: "bt_wf m \<Longrightarrow> bt_wf (f n m)" for n m
    by (simp add: f_def bt_wf_def comp_def split_def)
  have "bt_get (f (negated a) (bal_map a)) k = bt_get (f (negated b) (bal_map b)) k" for k
  proof -
    have nz: "imb_amount i \<noteq> 0" if "bt_get (bal_map a) k = Some i \<or> bt_get (bal_map b) k = Some i" for i
      using that assms by (auto simp: balance_wf_def)
    have "net a k = net b k" using net by blast
    then show ?thesis
      unfolding get_f net_eq using nz
      by (cases "bt_get (bal_map a) k"; cases "bt_get (bal_map b) k")
        (auto simp del: signed_imb_simps(3) simp: imb_int_eq_0 eq_commute [of 0]
          intro!: imb_int_inject)
  qed
  then have "f (negated a) (bal_map a) = f (negated b) (bal_map b)"
    using assms by (intro btree.entries_eqI) (auto simp: wf_f balance_wf_def)
  moreover have "balance_iter c = map (\<lambda>(k, i). imb_map (\<lambda>v. \<lparr>v_amount = v, v_asset = k\<rparr>) i) (f (negated c) (bal_map c))"
    for c by (auto simp: balance_iter_eq f_def)
  ultimately have "balance_iter a = balance_iter b" "dimension a = dimension b"
    unfolding dimension_def by (metis, metis f_def length_map)
  then show "balance_eq a b" by (auto simp: balance_eq_def list_all_iff in_set_zip)
qed

section \<open>Protobuf encoding of values and balances\<close>

text \<open>
  The encoding drops the lazy sign and writes one signed value per asset. The wire encoding
  of a field element is \<open>decaf377\<close>'s and is left out: an asset identifier stands for itself.
\<close>

record pb_value =
  pbv_amount :: "pb_amount option"
  pbv_asset :: "asset_id option"

record pb_signed_value =
  pbs_value :: "pb_value option"
  pbs_negated :: bool

definition value_to_proto :: "asset_value \<Rightarrow> pb_value" where
  "value_to_proto v = \<lparr>pbv_amount = Some (amount_to_proto (v_amount v)), pbv_asset = Some (v_asset v)\<rparr>"

definition value_from_proto :: "pb_value \<Rightarrow> asset_value result" where
  "value_from_proto p =
     and_then (ok_or (pbv_amount p) (Bail ''missing amount field'')) (\<lambda>pa.
     and_then (amount_from_proto pa) (\<lambda>amt.
     and_then (ok_or (pbv_asset p) (Bail ''missing balance commitment'')) (\<lambda>k.
     Inr \<lparr>v_amount = amt, v_asset = k\<rparr>)))"

definition balance_from_signed_value :: "bool \<Rightarrow> asset_value \<Rightarrow> balance option" where
  "balance_from_signed_value neg v =
     (if v_amount v = 0 then None
      else Some \<lparr>negated = False,
        bal_map = [(v_asset v, if neg then Required (v_amount v) else Provided (v_amount v))]\<rparr>)"

definition balance_to_proto :: "balance \<Rightarrow> pb_signed_value list" where
  "balance_to_proto b =
     map (\<lambda>(k, imb).
       let (sgn, magnitude) = imb_into_inner (if negated b then imb_neg imb else imb)
       in \<lparr>pbs_value = Some \<lparr>pbv_amount = Some (amount_to_proto magnitude), pbv_asset = Some k\<rparr>,
           pbs_negated = (sgn = SRequired)\<rparr>) (bal_map b)"

definition balance_from_proto_step :: "pb_signed_value \<Rightarrow> balance \<Rightarrow> balance result" where
  "balance_from_proto_step v out =
     and_then (ok_or (pbs_value v) (Bail ''missing value'')) (\<lambda>pv.
     and_then (value_from_proto pv) (\<lambda>val.
       case balance_from_signed_value (pbs_negated v) val of
         None \<Rightarrow> Inr out
       | Some b \<Rightarrow> balance_add out b))"

definition balance_from_proto :: "pb_signed_value list \<Rightarrow> balance result" where
  "balance_from_proto vs = try_fold balance_from_proto_step vs balance_zero"

lemma amount_proto_roundtrip [simp]: "amount_from_proto (amount_to_proto a) = Inr a"
  by (simp add: amount_from_proto_def amount_to_proto_def u128_split)

lemma value_proto_roundtrip: "value_from_proto (value_to_proto v) = Inr v"
  by (simp add: value_from_proto_def value_to_proto_def)

definition msg_of :: "asset_value imbalance \<Rightarrow> pb_signed_value" where
  "msg_of x = \<lparr>pbs_value = Some (value_to_proto (imb_amount x)),
     pbs_negated = (fst (imb_into_inner x) = SRequired)\<rparr>"

lemma balance_to_proto_eq: "balance_to_proto b = map msg_of (balance_iter b)"
proof -
  have "msg_of (imb_map (\<lambda>v. \<lparr>v_amount = v, v_asset = k\<rparr>) i) =
      (let (sgn, m) = imb_into_inner i in
        \<lparr>pbs_value = Some \<lparr>pbv_amount = Some (amount_to_proto m), pbv_asset = Some k\<rparr>,
         pbs_negated = (sgn = SRequired)\<rparr>)" for k i
    by (cases i) (simp_all add: msg_of_def value_to_proto_def)
  then show ?thesis by (auto simp: balance_to_proto_def balance_iter_eq signed_imb_def)
qed

lemma from_proto_step_msg:
  assumes "v_amount (imb_amount x) \<noteq> 0" "balance_wf s" "net s (imb_id x) = 0"
  shows "\<exists>t. balance_from_proto_step (msg_of x) s = Inr t \<and> balance_wf t
    \<and> (\<forall>k. net t k = net s k + (if k = imb_id x then imb_val x else 0))"
proof -
  obtain b where b: "balance_from_signed_value (pbs_negated (msg_of x)) (imb_amount x) = Some b"
    and nb: "\<And>k. net b k = (if k = imb_id x then imb_val x else 0)" and wb: "balance_wf b"
    using assms(1) by (cases x) (auto simp: balance_from_signed_value_def msg_of_def net_def
        bt_get_def imb_id_def imb_val_def balance_wf_def bt_wf_def)
  have small: "\<bar>imb_int i\<bar> < 2 ^ 128" for i :: "u128 imbalance"
    using uint_bounded [of "imb_amount i"] by (cases i) auto
  have "\<bar>net s k + net b k\<bar> < 2 ^ 128" for k
    using small assms(3) nb by (auto simp: imb_val_def net_eq split: option.splits simp del: signed_imb_simps(3))
  then obtain t where t: "balance_add s b = Inr t"
    using balance_add_total [OF assms(2) wb] by blast
  have "balance_from_proto_step (msg_of x) s = balance_add s b"
    using b by (simp add: balance_from_proto_step_def value_proto_roundtrip) (simp add: msg_of_def value_proto_roundtrip)
  with t balance_add_net [OF t assms(2) wb] nb show ?thesis by auto
qed

lemma from_proto_fold:
  assumes "\<forall>x \<in> set xs. v_amount (imb_amount x) \<noteq> 0 \<and> net s (imb_id x) = 0"
    and "balance_wf s" "distinct (map imb_id xs)"
  shows "\<exists>t. try_fold balance_from_proto_step (map msg_of xs) s = Inr t \<and> balance_wf t
    \<and> (\<forall>k. net t k = net s k + (\<Sum>x \<leftarrow> xs. if k = imb_id x then imb_val x else 0))"
  using assms
proof (induction xs arbitrary: s)
  case (Cons x xs)
  then obtain u where u: "balance_from_proto_step (msg_of x) s = Inr u" "balance_wf u"
    "\<And>k. net u k = net s k + (if k = imb_id x then imb_val x else 0)"
    using from_proto_step_msg [of x s] by auto
  have "\<forall>y \<in> set xs. v_amount (imb_amount y) \<noteq> 0 \<and> net u (imb_id y) = 0"
    using Cons.prems(1,3) u(3) by (auto simp: rev_image_eqI)
  then obtain t where "try_fold balance_from_proto_step (map msg_of xs) u = Inr t" "balance_wf t"
    "\<forall>k. net t k = net u k + (\<Sum>x \<leftarrow> xs. if k = imb_id x then imb_val x else 0)"
    using Cons.IH [of u] Cons.prems(3) u(2) by auto
  with u show ?case by auto
qed simp

lemma balance_proto_roundtrip:
  assumes "balance_wf b"
  shows "\<exists>c. balance_from_proto (balance_to_proto b) = Inr c \<and> balance_wf c \<and> balance_eq c b"
proof -
  have "\<exists>t. try_fold balance_from_proto_step (map msg_of (balance_iter b)) balance_zero = Inr t
    \<and> balance_wf t
    \<and> (\<forall>k. net t k = net balance_zero k + (\<Sum>x \<leftarrow> balance_iter b. if k = imb_id x then imb_val x else 0))"
  proof (rule from_proto_fold)
    show "distinct (map imb_id (balance_iter b))"
      using assms by (simp add: balance_wf_def btree.distinct_entries)
  qed (use in_iter [OF assms] in \<open>auto simp: balance_zero_net\<close>)
  then show ?thesis
    using assms by (auto simp: balance_from_proto_def balance_to_proto_eq sum_iter balance_zero_net balance_eq_iff)
qed

section \<open>Properties\<close>

lemma net_bound: "balance_wf b \<Longrightarrow> \<bar>net b k\<bar> < 2 ^ 128"
proof -
  have small: "\<bar>imb_int i\<bar> < 2 ^ 128" for i :: "u128 imbalance"
    using uint_bounded [of "imb_amount i"] by (cases i) auto
  show ?thesis
    using small by (auto simp: net_eq split: option.splits simp del: signed_imb_simps(3))
qed

text \<open>C28: adding two balances adds what they mean: the sum succeeds exactly when no asset's net
  amount leaves the range of the representation, each asset's net amount is the sum of the two,
  and the result is zero exactly when the two cancel in every asset.\<close>

theorem balance_add_exact:
  assumes "balance_wf a" "balance_wf b"
  shows "((\<exists>c. balance_add a b = Inr c) \<longleftrightarrow> (\<forall>k. \<bar>net a k + net b k\<bar> < 2 ^ 128))
    \<and> (\<forall>c. balance_add a b = Inr c \<longrightarrow> balance_wf c \<and> (\<forall>k. net c k = net a k + net b k)
          \<and> (is_zero c \<longleftrightarrow> (\<forall>k. net a k + net b k = 0)))"
proof -
  have sum: "balance_wf c \<and> (\<forall>k. net c k = net a k + net b k)" if "balance_add a b = Inr c" for c
    using balance_add_net [OF that assms] by blast
  moreover have "\<forall>k. \<bar>net a k + net b k\<bar> < 2 ^ 128" if "balance_add a b = Inr c" for c
    using sum [OF that] net_bound by metis
  moreover have "\<exists>c. balance_add a b = Inr c" if "\<forall>k. \<bar>net a k + net b k\<bar> < 2 ^ 128"
    using balance_add_total [OF assms] that by blast
  ultimately show ?thesis using is_zero_iff by metis
qed

theorem balance_add_exact_witness:
  "\<exists>c. balance_add (balance_from_value \<lparr>v_amount = 5, v_asset = AssetId 1\<rparr>)
       (balance_neg (balance_from_value \<lparr>v_amount = 5, v_asset = AssetId 1\<rparr>)) = Inr c \<and> is_zero c"
proof -
  let ?a = "balance_from_value \<lparr>v_amount = 5, v_asset = AssetId 1\<rparr>"
  have wf: "balance_wf ?a" "balance_wf (balance_neg ?a)"
    by (simp_all add: balance_from_value_net balance_neg_net)
  have zero: "net ?a k + net (balance_neg ?a) k = 0" for k by (simp add: balance_neg_net)
  note add = balance_add_exact [OF wf]
  then obtain c where "balance_add ?a (balance_neg ?a) = Inr c" unfolding zero by auto
  with add zero show ?thesis by blast
qed

text \<open>a balance survives its protobuf encoding: decoding what was encoded gives an equal
  balance, whatever its lazy sign.\<close>

theorem balance_proto_exact:
  assumes "balance_wf b"
  shows "\<exists>c. balance_from_proto (balance_to_proto b) = Inr c \<and> balance_wf c \<and> balance_eq c b"
  by (rule balance_proto_roundtrip [OF assms])

theorem balance_proto_exact_witness:
  "\<exists>c. balance_from_proto (balance_to_proto (balance_neg (balance_from_value \<lparr>v_amount = 5, v_asset = AssetId 1\<rparr>))) = Inr c
     \<and> balance_eq c (balance_neg (balance_from_value \<lparr>v_amount = 5, v_asset = AssetId 1\<rparr>))"
proof -
  have "balance_wf (balance_neg (balance_from_value \<lparr>v_amount = 5, v_asset = AssetId 1\<rparr>))"
    by (simp add: balance_neg_net balance_from_value_net)
  from balance_proto_exact [OF this] show ?thesis by blast
qed

end
