(* ===== verification/TradingFunction.thy ===== *)
theory TradingFunction
  imports Balance
begin

text \<open>
  Trading pairs (\<open>crates/core/component/dex/src/trading_pair.rs\<close>), the reserves of a
  position (\<open>lp/reserves.rs\<close>) and its trading function (\<open>lp/trading_function.rs\<close>): a
  constant-sum function with a fee, executed in fixed-point arithmetic. The lemmas give the
  exact amounts each fill moves, show that neither branch wraps around, and bound the price.
\<close>

section \<open>Trading pairs\<close>

datatype directed_pair = DirectedPair (dp_start: asset_id) (dp_end: asset_id)

datatype trading_pair = TradingPair (asset_1: asset_id) (asset_2: asset_id)

text \<open>The derived orders are lexicographic in the order of the fields.\<close>

instantiation trading_pair :: linorder
begin

definition less_eq_trading_pair :: "trading_pair \<Rightarrow> trading_pair \<Rightarrow> bool" where
  "less_eq_trading_pair x y \<longleftrightarrow>
     asset_1 x < asset_1 y \<or> (asset_1 x = asset_1 y \<and> asset_2 x \<le> asset_2 y)"

definition less_trading_pair :: "trading_pair \<Rightarrow> trading_pair \<Rightarrow> bool" where
  "less_trading_pair x y \<longleftrightarrow>
     asset_1 x < asset_1 y \<or> (asset_1 x = asset_1 y \<and> asset_2 x < asset_2 y)"

instance
  by standard (auto simp: less_eq_trading_pair_def less_trading_pair_def trading_pair.expand)

end

definition trading_pair_new :: "asset_id \<Rightarrow> asset_id \<Rightarrow> trading_pair" where
  "trading_pair_new a b = (if a < b then TradingPair a b else TradingPair b a)"

definition to_canonical :: "directed_pair \<Rightarrow> trading_pair" where
  "to_canonical p = trading_pair_new (dp_start p) (dp_end p)"

definition directed_flip :: "directed_pair \<Rightarrow> directed_pair" where
  "directed_flip p = DirectedPair (dp_end p) (dp_start p)"

lemma trading_pair_new_commute: "trading_pair_new a b = trading_pair_new b a"
  by (auto simp: trading_pair_new_def)

lemma to_canonical_flip [simp]: "to_canonical (directed_flip p) = to_canonical p"
  by (simp add: to_canonical_def directed_flip_def trading_pair_new_commute)

lemma trading_pair_new_ordered: "asset_1 (trading_pair_new a b) \<le> asset_2 (trading_pair_new a b)"
  by (auto simp: trading_pair_new_def)

lemma trading_pair_new_assets: "{asset_1 (trading_pair_new a b), asset_2 (trading_pair_new a b)} = {a, b}"
  by (auto simp: trading_pair_new_def)

section \<open>Reserves\<close>

definition MAX_RESERVE_AMOUNT :: u128 where
  "MAX_RESERVE_AMOUNT = 2 ^ 80 - 1"

definition MAX_FEE_BPS :: u32 where
  "MAX_FEE_BPS = 5000"

record reserves =
  r1 :: amount
  r2 :: amount

definition reserves_check_bounds :: "reserves \<Rightarrow> unit result" where
  "reserves_check_bounds r =
     (if r1 r > MAX_RESERVE_AMOUNT \<or> r2 r > MAX_RESERVE_AMOUNT then Inl (Bail ''out-of-bounds'')
      else if r1 r = 0 \<and> r2 r = 0 then Inl (Bail ''no initial reserves'')
      else Inr ())"

definition reserves_balance :: "reserves \<Rightarrow> trading_pair \<Rightarrow> balance result" where
  "reserves_balance r pair =
     balance_add_value (balance_from_value \<lparr>v_amount = r1 r, v_asset = asset_1 pair\<rparr>)
       \<lparr>v_amount = r2 r, v_asset = asset_2 pair\<rparr>"

definition reserves_flip :: "reserves \<Rightarrow> reserves" where
  "reserves_flip r = \<lparr>r1 = r2 r, r2 = r1 r\<rparr>"

definition reserves_zero :: reserves where
  "reserves_zero = \<lparr>r1 = 0, r2 = 0\<rparr>"

lemma reserves_flip_simps [simp]:
  "r1 (reserves_flip r) = r2 r" "r2 (reserves_flip r) = r1 r" "reserves_flip (reserves_flip r) = r"
  by (simp_all add: reserves_flip_def)

section \<open>The bare trading function\<close>

record bare_trading_function =
  fee :: u32
  bp :: amount
  bq :: amount

definition bare_flip :: "bare_trading_function \<Rightarrow> bare_trading_function" where
  "bare_flip f = \<lparr>fee = fee f, bp = bq f, bq = bp f\<rparr>"

definition gamma :: "bare_trading_function \<Rightarrow> fixpoint result" where
  "gamma f = expect (fp_checked_div (fp_from_u32 (10000 - fee f)) (fp_from_u64 10000))"

definition effective_price_inv :: "bare_trading_function \<Rightarrow> fixpoint result" where
  "effective_price_inv f =
     (let p = fp_from_amount (bp f); q = fp_from_amount (bq f)
      in and_then (expect (fp_checked_div p q)) (\<lambda>price_ratio.
         and_then (gamma f) (\<lambda>g. expect (fp_checked_mul price_ratio g))))"

definition effective_price :: "bare_trading_function \<Rightarrow> fixpoint result" where
  "effective_price f =
     (let p = fp_from_amount (bp f); q = fp_from_amount (bq f)
      in and_then (expect (fp_checked_div q p)) (\<lambda>price_ratio.
         and_then (gamma f) (\<lambda>g. expect (fp_checked_div price_ratio g))))"

definition effective_price_key_bytes :: "bare_trading_function \<Rightarrow> u8 list result" where
  "effective_price_key_bytes f = and_then (effective_price f) (\<lambda>p. Inr (fp_to_bytes p))"

definition convert_to_lambda_2 :: "bare_trading_function \<Rightarrow> fixpoint \<Rightarrow> fixpoint result" where
  "convert_to_lambda_2 f delta_1 = and_then (effective_price_inv f) (\<lambda>p. fp_checked_mul p delta_1)"

definition convert_to_delta_1 :: "bare_trading_function \<Rightarrow> fixpoint \<Rightarrow> fixpoint result" where
  "convert_to_delta_1 f lambda_2 = and_then (effective_price f) (\<lambda>p. fp_checked_mul p lambda_2)"

text \<open>Round up and convert, each step with its \<open>expect\<close>.\<close>

definition round_up_exact :: "fixpoint \<Rightarrow> amount result" where
  "round_up_exact x = and_then (expect (fp_round_up x)) (\<lambda>y. expect (fp_try_into_amount y))"

definition bare_fill_output ::
  "bare_trading_function \<Rightarrow> reserves \<Rightarrow> amount \<Rightarrow> (reserves \<times> amount) option result" where
  "bare_fill_output f rs lambda_2 =
     (if lambda_2 > r2 rs then Inr None
      else and_then (convert_to_delta_1 f (fp_from_amount lambda_2)) (\<lambda>fillable_delta_1.
        and_then (round_up_exact fillable_delta_1) (\<lambda>exact.
        Inr (Some (\<lparr>r1 = r1 rs + exact, r2 = r2 rs - lambda_2\<rparr>, exact)))))"

definition bare_fill ::
  "bare_trading_function \<Rightarrow> amount \<Rightarrow> reserves \<Rightarrow> (amount \<times> reserves \<times> amount) result" where
  "bare_fill f delta_1 rs =
     and_then (convert_to_lambda_2 f (fp_from_amount delta_1)) (\<lambda>tentative_lambda_2.
       if tentative_lambda_2 \<le> fp_from_amount (r2 rs) then
         and_then (expect (fp_try_into_amount (fp_round_down tentative_lambda_2))) (\<lambda>lambda_2.
           Inr (0, \<lparr>r1 = r1 rs + delta_1, r2 = r2 rs - lambda_2\<rparr>, lambda_2))
       else
         and_then (convert_to_delta_1 f (fp_from_amount (r2 rs))) (\<lambda>fillable_delta_1.
         and_then (round_up_exact fillable_delta_1) (\<lambda>exact.
           Inr (delta_1 - exact, \<lparr>r1 = r1 rs + exact, r2 = 0\<rparr>, r2 rs))))"

section \<open>The trading function of a pair\<close>

record trading_function =
  tf_component :: bare_trading_function
  tf_pair :: trading_pair

definition trading_function_new ::
  "trading_pair \<Rightarrow> u32 \<Rightarrow> amount \<Rightarrow> amount \<Rightarrow> trading_function" where
  "trading_function_new pair f p q = \<lparr>tf_component = \<lparr>fee = f, bp = p, bq = q\<rparr>, tf_pair = pair\<rparr>"

definition matches_input :: "trading_function \<Rightarrow> asset_id \<Rightarrow> bool" where
  "matches_input t k \<longleftrightarrow> k = asset_1 (tf_pair t) \<or> k = asset_2 (tf_pair t)"

definition tf_fill ::
  "trading_function \<Rightarrow> asset_value \<Rightarrow> reserves \<Rightarrow> (asset_value \<times> reserves \<times> asset_value) result" where
  "tf_fill t input rs =
     (if v_asset input = asset_1 (tf_pair t) then
        and_then (bare_fill (tf_component t) (v_amount input) rs) (\<lambda>(unfilled, new_reserves, out).
          Inr (\<lparr>v_amount = unfilled, v_asset = asset_1 (tf_pair t)\<rparr>, new_reserves,
               \<lparr>v_amount = out, v_asset = asset_2 (tf_pair t)\<rparr>))
      else if v_asset input = asset_2 (tf_pair t) then
        and_then (bare_fill (bare_flip (tf_component t)) (v_amount input) (reserves_flip rs))
          (\<lambda>(unfilled, new_reserves, out).
          Inr (\<lparr>v_amount = unfilled, v_asset = asset_2 (tf_pair t)\<rparr>, reserves_flip new_reserves,
               \<lparr>v_amount = out, v_asset = asset_1 (tf_pair t)\<rparr>))
      else Inl (Bail ''input asset id did not match either end of trading pair''))"

definition tf_fill_output ::
  "trading_function \<Rightarrow> reserves \<Rightarrow> asset_value \<Rightarrow> (reserves \<times> asset_value) option result" where
  "tf_fill_output t rs out =
     (if v_asset out = asset_2 (tf_pair t) then
        and_then (bare_fill_output (tf_component t) rs (v_amount out)) (\<lambda>x.
          Inr (map_option (\<lambda>(new_reserves, input).
            (new_reserves, \<lparr>v_amount = input, v_asset = asset_1 (tf_pair t)\<rparr>)) x))
      else if v_asset out = asset_1 (tf_pair t) then
        and_then (bare_fill_output (bare_flip (tf_component t)) (reserves_flip rs) (v_amount out)) (\<lambda>x.
          Inr (map_option (\<lambda>(new_reserves, input).
            (reserves_flip new_reserves, \<lparr>v_amount = input, v_asset = asset_2 (tf_pair t)\<rparr>)) x))
      else Inl (Bail ''output asset id did not match either end of trading pair''))"

definition orient_end :: "trading_function \<Rightarrow> asset_id \<Rightarrow> bare_trading_function option" where
  "orient_end t e =
     (if e = asset_2 (tf_pair t) then Some (tf_component t)
      else if e = asset_1 (tf_pair t) then Some (bare_flip (tf_component t))
      else None)"

definition orient_start :: "trading_function \<Rightarrow> asset_id \<Rightarrow> bare_trading_function option" where
  "orient_start t s =
     (if s = asset_1 (tf_pair t) then Some (tf_component t)
      else if s = asset_2 (tf_pair t) then Some (bare_flip (tf_component t))
      else None)"

section \<open>The price, as a number\<close>

abbreviation two128 :: nat where "two128 \<equiv> 2 ^ 128"

lemma scaled_ratio: "(x * two128) * two128 div (y * two128) = x * two128 div y" for x y :: nat
  by (simp only: div_mult_mult2 mult.commute [of _ two128] mult.assoc) simp

lemma gamma_iff:
  "gamma f = Inr g \<longleftrightarrow> unat (raw g) = unat (10000 - fee f) * two128 div 10000"
proof -
  have "gamma f = Inr g \<longleftrightarrow> unat (raw g) = (unat (10000 - fee f) * two128) * two128 div (10000 * two128)"
    by (simp only: gamma_def expect_Inr_iff fp_checked_div_iff raw_from_u32 raw_from_u64) simp
  also have "\<dots> \<longleftrightarrow> unat (raw g) = unat (10000 - fee f) * two128 div 10000"
    by (simp only: scaled_ratio)
  finally show ?thesis .
qed

lemma effective_price_inv_iff:
  "effective_price_inv f = Inr z \<longleftrightarrow> 0 < unat (bq f) \<and>
     (\<exists>a g. unat (raw a) = unat (bp f) * two128 div unat (bq f) \<and> gamma f = Inr g
       \<and> unat (raw z) = unat (raw a) * unat (raw g) div two128)"
  unfolding effective_price_inv_def Let_def and_then_Inr_iff expect_Inr_iff fp_checked_div_iff
    raw_from_amount fp_checked_mul_iff scaled_ratio by auto

lemma effective_price_iff:
  "effective_price f = Inr z \<longleftrightarrow> 0 < unat (bp f) \<and>
     (\<exists>a g. unat (raw a) = unat (bq f) * two128 div unat (bp f) \<and> gamma f = Inr g
       \<and> 0 < unat (raw g) \<and> unat (raw z) = unat (raw a) * two128 div unat (raw g))"
  unfolding effective_price_def Let_def and_then_Inr_iff expect_Inr_iff fp_checked_div_iff
    raw_from_amount fp_checked_mul_iff scaled_ratio by auto

lemma price_product_nat:
  fixes p q g b :: nat
  assumes "0 < p" "0 < q" "0 < g" "0 < b"
  shows "((q * b div p) * b div g) * ((p * b div q) * g div b) \<le> b * b"
proof -
  define A B where "A = p * b div q" and "B = q * b div p"
  define x y where "x = B * b div g" and "y = A * g div b"
  have "x * g \<le> B * b" "y * b \<le> A * g" by (simp_all add: x_def y_def)
  then have "(x * g) * (y * b) \<le> (B * b) * (A * g)" by (rule mult_le_mono)
  then have "(x * y) * (g * b) \<le> (A * B) * (g * b)" by (simp add: ac_simps)
  then have xy: "x * y \<le> A * B" using assms by simp
  have "A * q \<le> p * b" "B * p \<le> q * b" by (simp_all add: A_def B_def)
  then have "(A * q) * (B * p) \<le> (p * b) * (q * b)" by (rule mult_le_mono)
  then have "(A * B) * (p * q) \<le> (b * b) * (p * q)" by (simp add: ac_simps)
  then have "A * B \<le> b * b" using assms by simp
  with xy show ?thesis by (simp add: x_def y_def A_def B_def)
qed

text \<open>The two effective prices multiply to at most one.\<close>

lemma price_product:
  assumes "effective_price f = Inr x" "effective_price_inv f = Inr y"
  shows "unat (raw x) * unat (raw y) \<le> two128 * two128"
proof -
  from assms(1) obtain a g where x: "0 < unat (bp f)" "gamma f = Inr g" "0 < unat (raw g)"
    "unat (raw x) = (unat (bq f) * two128 div unat (bp f)) * two128 div unat (raw g)"
    unfolding effective_price_iff by metis
  from assms(2) x(2) have y: "0 < unat (bq f)"
    "unat (raw y) = (unat (bp f) * two128 div unat (bq f)) * unat (raw g) div two128"
    unfolding effective_price_inv_iff by auto
  show ?thesis unfolding x(4) y(2) by (rule price_product_nat) (use x y in simp_all)
qed

section \<open>What a fill does\<close>

lemma convert_to_lambda_2_iff:
  "convert_to_lambda_2 f (fp_from_amount d) = Inr z \<longleftrightarrow>
     (\<exists>y. effective_price_inv f = Inr y \<and> unat (raw z) = unat (raw y) * unat d)"
proof -
  have "x * (unat d * two128) div two128 = x * unat d" for x
    by (simp only: mult.assoc [symmetric]) simp
  then show ?thesis
    unfolding convert_to_lambda_2_def and_then_Inr_iff fp_checked_mul_iff raw_from_amount
    by (auto simp only:)
qed

lemma convert_to_delta_1_iff:
  "convert_to_delta_1 f (fp_from_amount d) = Inr z \<longleftrightarrow>
     (\<exists>x. effective_price f = Inr x \<and> unat (raw z) = unat (raw x) * unat d)"
proof -
  have "x * (unat d * two128) div two128 = x * unat d" for x
    by (simp only: mult.assoc [symmetric]) simp
  then show ?thesis
    unfolding convert_to_delta_1_def and_then_Inr_iff fp_checked_mul_iff raw_from_amount
    by (auto simp only:)
qed

lemma round_up_exact_iff:
  "round_up_exact x = Inr a \<longleftrightarrow> unat a = (unat (raw x) + (two128 - 1)) div two128"
proof -
  have "round_up_exact x = Inr a \<longleftrightarrow>
    (\<exists>y. unat (raw y) = (unat (raw x) + (two128 - 1)) div two128 * two128 \<and> unat (raw y) = unat a * two128)"
    unfolding round_up_exact_def and_then_Inr_iff expect_Inr_iff fp_round_up_iff fp_try_into_amount_iff ..
  also have "\<dots> \<longleftrightarrow> unat a = (unat (raw x) + (two128 - 1)) div two128"
  proof
    assume a: "unat a = (unat (raw x) + (two128 - 1)) div two128"
    then show "\<exists>y. unat (raw y) = (unat (raw x) + (two128 - 1)) div two128 * two128 \<and> unat (raw y) = unat a * two128"
      by (intro exI [of _ "fp_from_amount a"]) (simp only: raw_from_amount simp_thms)
  qed auto
  finally show ?thesis .
qed

lemma ceil_le: "n \<le> b * d \<Longrightarrow> 0 < b \<Longrightarrow> (n + (b - 1)) div b \<le> d" for n b d :: nat
proof -
  assume "n \<le> b * d" "0 < b"
  then have "n + (b - 1) < b * (d + 1)" by simp
  then have "(n + (b - 1)) div b < d + 1" by (simp only: less_mult_imp_div_less mult.commute [of b])
  then show ?thesis by simp
qed

text \<open>
  In the branch that exhausts the reserves, the input that pays for them is at most the input
  offered: the argument of the comment in the code, for the rounded prices it computes with.
\<close>

lemma fillable_le:
  assumes "effective_price f = Inr x" "effective_price_inv f = Inr y"
    and "unat r * two128 < unat (raw y) * unat d"
  shows "unat (raw x) * unat r \<le> two128 * unat d"
proof -
  let ?x = "unat (raw x)" and ?y = "unat (raw y)"
  have "?x * (unat r * two128) \<le> ?x * (?y * unat d)" 
    by (rule mult_le_mono2) (rule less_imp_le [OF assms(3)])
  also have "\<dots> = (?x * ?y) * unat d" by (simp only: mult.assoc)
  also have "\<dots> \<le> (two128 * two128) * unat d"
    using price_product [OF assms(1,2)] by (rule mult_le_mono1)
  finally have "(?x * unat r) * two128 \<le> (two128 * unat d) * two128"
    by (simp only: ac_simps)
  then show ?thesis by (simp only: mult_le_cancel2) simp
qed

lemma bare_fill_cases:
  assumes "bare_fill f d rs = Inr (u, rs', out)"
  obtains y where "effective_price_inv f = Inr y"
      "unat (raw y) * unat d \<le> unat (r2 rs) * two128" "u = 0"
      "unat out = unat (raw y) * unat d div two128" "rs' = \<lparr>r1 = r1 rs + d, r2 = r2 rs - out\<rparr>"
  | x y e where "effective_price_inv f = Inr y" "effective_price f = Inr x"
      "unat (r2 rs) * two128 < unat (raw y) * unat d" "out = r2 rs"
      "unat e = (unat (raw x) * unat (r2 rs) + (two128 - 1)) div two128" "unat e \<le> unat d"
      "u = d - e" "rs' = \<lparr>r1 = r1 rs + e, r2 = 0\<rparr>"
proof -
  from assms obtain t y where y: "effective_price_inv f = Inr y" and t: "unat (raw t) = unat (raw y) * unat d"
    and rest: "(if t \<le> fp_from_amount (r2 rs) then
         and_then (expect (fp_try_into_amount (fp_round_down t))) (\<lambda>lambda_2.
           Inr (0, \<lparr>r1 = r1 rs + d, r2 = r2 rs - lambda_2\<rparr>, lambda_2))
       else
         and_then (convert_to_delta_1 f (fp_from_amount (r2 rs))) (\<lambda>fillable_delta_1.
         and_then (round_up_exact fillable_delta_1) (\<lambda>exact.
           Inr (d - exact, \<lparr>r1 = r1 rs + exact, r2 = 0\<rparr>, r2 rs)))) = Inr (u, rs', out)"
    unfolding bare_fill_def and_then_Inr_iff convert_to_lambda_2_iff by blast
  have le: "t \<le> fp_from_amount (r2 rs) \<longleftrightarrow> unat (raw y) * unat d \<le> unat (r2 rs) * two128"
    unfolding fixpoint_le_iff raw_from_amount t ..
  show ?thesis
  proof (cases "t \<le> fp_from_amount (r2 rs)")
    case True
    with rest have "expect (fp_try_into_amount (fp_round_down t)) = Inr out" and o: "u = 0" "rs' = \<lparr>r1 = r1 rs + d, r2 = r2 rs - out\<rparr>"
      by (auto simp: and_then_Inr_iff)
    then have "unat out * two128 = unat (raw t) div two128 * two128"
      unfolding expect_Inr_iff fp_try_into_amount_iff raw_round_down by (simp only:)
    then have "unat out = unat (raw y) * unat d div two128" unfolding t by simp
    with that(1) [OF y] True le o show ?thesis by blast
  next
    case False
    with rest obtain z e x where x: "effective_price f = Inr x" "unat (raw z) = unat (raw x) * unat (r2 rs)"
      and e: "unat e = (unat (raw z) + (two128 - 1)) div two128"
      and o: "u = d - e" "rs' = \<lparr>r1 = r1 rs + e, r2 = 0\<rparr>" "out = r2 rs"
      by (auto simp only: and_then_Inr_iff convert_to_delta_1_iff round_up_exact_iff if_False
          sum.inject prod.inject)
    have lt: "unat (r2 rs) * two128 < unat (raw y) * unat d" using False le by linarith
    have "unat e \<le> unat d"
      unfolding e x(2) by (rule ceil_le [OF fillable_le [OF x(1) y lt]]) simp
    with that(2) [OF y x(1) lt o(3)] e x(2) o show ?thesis by simp
  qed
qed


section \<open>Correctness of the fill\<close>

lemma checked_sub_mono: "unat e \<le> unat d \<Longrightarrow> unat (d - e) = unat d - unat e" for d e :: "'a::len word"
  by (simp add: unat_sub_no_underflow word_le_nat_alt)

text \<open>Value is conserved, in both assets and both branches.\<close>

lemma bare_fill_conserves_lemma:
  assumes "bare_fill f d rs = Inr (u, rs', out)" "unat (r1 rs) + unat d < two128"
  shows "unat u + unat (r1 rs') = unat d + unat (r1 rs)"
    and "unat out + unat (r2 rs') = unat (r2 rs)"
    and "unat u \<le> unat d"
proof -
  have "unat u + unat (r1 rs') = unat d + unat (r1 rs) \<and> unat out + unat (r2 rs') = unat (r2 rs) \<and> unat u \<le> unat d"
  proof (rule bare_fill_cases [OF assms(1)])
    fix y
    assume y: "unat (raw y) * unat d \<le> unat (r2 rs) * two128" "u = 0"
      "unat out = unat (raw y) * unat d div two128" "rs' = \<lparr>r1 = r1 rs + d, r2 = r2 rs - out\<rparr>"
    have "unat out \<le> unat (r2 rs)" unfolding y(3)
      using div_le_mono [OF y(1), of two128] by simp
    then have "unat (r2 rs - out) = unat (r2 rs) - unat out" by (rule checked_sub_mono)
    moreover have "unat (r1 rs + d) = unat (r1 rs) + unat d"
      using assms(2) by (intro unat_add_no_overflow) simp
    ultimately show ?thesis using y(2,4) \<open>unat out \<le> unat (r2 rs)\<close> by simp
  next
    fix x y e
    assume e: "out = r2 rs" "unat e \<le> unat d" "u = d - e" "rs' = \<lparr>r1 = r1 rs + e, r2 = 0\<rparr>"
    have "unat (r1 rs + e) = unat (r1 rs) + unat e"
      using assms(2) e(2) by (intro unat_add_no_overflow) simp
    with e checked_sub_mono [OF e(2)] show ?thesis by simp
  qed
  then show "unat u + unat (r1 rs') = unat d + unat (r1 rs)"
    "unat out + unat (r2 rs') = unat (r2 rs)" "unat u \<le> unat d" by auto
qed

lemma price_inv_bound:
  assumes "effective_price_inv f = Inr y" "unat (fee f) \<le> 10000"
  shows "unat (raw y) * (unat (bq f) * 10000) \<le> unat (bp f) * (10000 - unat (fee f)) * two128"
proof -
  obtain a g where a: "unat (raw a) = unat (bp f) * two128 div unat (bq f)" "gamma f = Inr g"
    "unat (raw y) = unat (raw a) * unat (raw g) div two128"
    using assms(1) unfolding effective_price_inv_iff by auto
  have fee: "unat (10000 - fee f) = 10000 - unat (fee f)"
    using assms(2) by (subst checked_sub_mono) simp_all
  have 1: "unat (raw a) * unat (bq f) \<le> unat (bp f) * two128" unfolding a(1) by simp
  have 2: "unat (raw g) * 10000 \<le> (10000 - unat (fee f)) * two128"
    using a(2) unfolding gamma_iff fee by (simp only: div_times_less_eq_dividend)
  have 3: "unat (raw y) * two128 \<le> unat (raw a) * unat (raw g)" unfolding a(3) by simp
  have "(unat (raw y) * (unat (bq f) * 10000)) * two128 = (unat (raw y) * two128) * (unat (bq f) * 10000)"
    by (simp only: ac_simps)
  also have "\<dots> \<le> (unat (raw a) * unat (raw g)) * (unat (bq f) * 10000)"
    using 3 by (rule mult_le_mono1)
  also have "\<dots> = (unat (raw a) * unat (bq f)) * (unat (raw g) * 10000)" by (simp only: ac_simps)
  also have "\<dots> \<le> (unat (bp f) * two128) * ((10000 - unat (fee f)) * two128)"
    using 1 2 by (rule mult_le_mono)
  also have "\<dots> = (unat (bp f) * (10000 - unat (fee f)) * two128) * two128" by (simp only: ac_simps)
  finally show ?thesis by (simp only: mult_le_cancel2) simp
qed

text \<open>The output is never more than the fee-adjusted rate gives for the input.\<close>

lemma bare_fill_rate:
  assumes "bare_fill f d rs = Inr (u, rs', out)" "unat (fee f) \<le> 10000"
  shows "unat out * (unat (bq f) * 10000) \<le> unat d * (unat (bp f) * (10000 - unat (fee f)))"
proof -
  obtain y where y: "effective_price_inv f = Inr y" "unat out * two128 \<le> unat (raw y) * unat d"
    by (rule bare_fill_cases [OF assms(1)]) (metis div_times_less_eq_dividend less_imp_le)+
  have "(unat out * (unat (bq f) * 10000)) * two128 = (unat out * two128) * (unat (bq f) * 10000)"
    by (simp only: ac_simps)
  also have "\<dots> \<le> (unat (raw y) * unat d) * (unat (bq f) * 10000)" using y(2) by (rule mult_le_mono1)
  also have "\<dots> = (unat (raw y) * (unat (bq f) * 10000)) * unat d" by (simp only: ac_simps)
  also have "\<dots> \<le> (unat (bp f) * (10000 - unat (fee f)) * two128) * unat d"
    using price_inv_bound [OF y(1) assms(2)] by (rule mult_le_mono1)
  also have "\<dots> = (unat d * (unat (bp f) * (10000 - unat (fee f)))) * two128" by (simp only: ac_simps)
  finally show ?thesis by (simp only: mult_le_cancel2) simp
qed


section \<open>Totality\<close>

lemma fp_ex: "n < 2 ^ 256 \<Longrightarrow> \<exists>z. unat (raw z) = n"
  by (rule exI [of _ "U128x128 (of_nat n)"]) (simp add: unat_of_nat_small)

lemma fp_checked_mul_Inl: "fp_checked_mul x y = Inl e \<Longrightarrow> e = Overflow"
  by (auto simp: fp_checked_mul_def Let_def ok_or_def split: if_splits option.splits)

lemma fp_checked_mul_total: "unat (raw x) * unat (raw y) div two128 < 2 ^ 256 \<Longrightarrow> \<exists>z. fp_checked_mul x y = Inr z"
  unfolding fp_checked_mul_iff by (metis fp_ex)

definition tradable :: "bare_trading_function \<Rightarrow> bool" where
  "tradable f \<longleftrightarrow> 0 < unat (bp f) \<and> unat (bp f) < 2 ^ 80 \<and> 0 < unat (bq f) \<and> unat (bq f) < 2 ^ 80
     \<and> unat (fee f) \<le> 5000"

lemma tradable_flip: "tradable (bare_flip f) = tradable f"
  by (auto simp: tradable_def bare_flip_def)

lemma gamma_total:
  assumes "unat (fee f) \<le> 5000"
  obtains g where "gamma f = Inr g" "2 ^ 127 \<le> unat (raw g)" "unat (raw g) \<le> two128"
proof -
  have fee: "unat (10000 - fee f) = 10000 - unat (fee f)"
    using assms by (subst checked_sub_mono) simp_all
  define n where "n = unat (10000 - fee f) * two128 div 10000"
  have "5000 * two128 div 10000 \<le> n" unfolding n_def fee
    using assms by (intro div_le_mono mult_le_mono) simp_all
  moreover have "n \<le> 10000 * two128 div 10000" unfolding n_def fee
    by (intro div_le_mono mult_le_mono) simp_all
  ultimately have n: "2 ^ 127 \<le> n" "n \<le> two128" by simp_all
  then obtain g where "unat (raw g) = n" using fp_ex [of n] by auto
  with n that [of g] show ?thesis unfolding gamma_iff n_def by simp
qed

lemma effective_prices_total:
  assumes "tradable f"
  obtains x y where "effective_price f = Inr x" "effective_price_inv f = Inr y" "unat (raw x) < 2 ^ 209"
    "unat (raw y) < 2 ^ 208"
proof -
  obtain g where g: "gamma f = Inr g" "2 ^ 127 \<le> unat (raw g)" "unat (raw g) \<le> two128"
    using assms by (auto simp: tradable_def intro: gamma_total)
  have ratio: "u * two128 div v < 2 ^ 208" if "u < 2 ^ 80" "0 < v" for u v :: nat
  proof -
    have "u * two128 div v \<le> u * two128" by (rule div_le_dividend)
    also have "\<dots> < 2 ^ 80 * two128" using that(1) by simp
    finally show ?thesis by simp
  qed
  obtain a where a: "unat (raw a) = unat (bq f) * two128 div unat (bp f)" "unat (raw a) < 2 ^ 208"
    using fp_ex [of "unat (bq f) * two128 div unat (bp f)"] ratio [of "unat (bq f)" "unat (bp f)"] assms
    by (auto simp: tradable_def)
  obtain c where c: "unat (raw c) = unat (bp f) * two128 div unat (bq f)" "unat (raw c) < 2 ^ 208"
    using fp_ex [of "unat (bp f) * two128 div unat (bq f)"] ratio [of "unat (bp f)" "unat (bq f)"] assms
    by (auto simp: tradable_def)
  have "unat (raw a) * two128 div unat (raw g) \<le> unat (raw a) * two128 div 2 ^ 127"
    using g(2) by (intro div_le_mono2) simp_all
  also have "\<dots> < 2 ^ 209" using a(2) by simp
  finally obtain x where x: "unat (raw x) = unat (raw a) * two128 div unat (raw g)" "unat (raw x) < 2 ^ 209"
    using fp_ex [of "unat (raw a) * two128 div unat (raw g)"] by auto
  have "unat (raw c) * unat (raw g) div two128 \<le> unat (raw c) * two128 div two128"
    using g(3) by (intro div_le_mono mult_le_mono) simp_all
  then have "unat (raw c) * unat (raw g) div two128 < 2 ^ 208" using c(2) by simp
  then obtain y where y: "unat (raw y) = unat (raw c) * unat (raw g) div two128" "unat (raw y) < 2 ^ 208"
    using fp_ex [of "unat (raw c) * unat (raw g) div two128"] by auto
  have "effective_price f = Inr x"
    unfolding effective_price_iff using a(1) x(1) g(1,2) assms by (auto simp: tradable_def)
  moreover have "effective_price_inv f = Inr y"
    unfolding effective_price_inv_iff using c(1) y(1) g(1) assms by (auto simp: tradable_def)
  ultimately show ?thesis using that x(2) y(2) by blast
qed

text \<open>
  A fill against a tradable function never panics: it fails only with the overflow that the
  code reports, and exactly when the tentative output does not fit.
\<close>

lemma bare_fill_total:
  assumes "tradable f" "effective_price_inv f = Inr y"
  shows "if unat (raw y) * unat d < 2 ^ 256 then \<exists>res. bare_fill f d rs = Inr res
         else bare_fill f d rs = Inl Overflow"
proof -
  obtain x where x: "effective_price f = Inr x" using effective_prices_total [OF assms(1)] by metis
  have conv: "convert_to_lambda_2 f (fp_from_amount d) = fp_checked_mul y (fp_from_amount d)"
    by (simp add: convert_to_lambda_2_def assms(2))
  show ?thesis
  proof (cases "unat (raw y) * unat d < 2 ^ 256")
    case True
    then obtain t where t: "unat (raw t) = unat (raw y) * unat d" using fp_ex by blast
    then have ct: "convert_to_lambda_2 f (fp_from_amount d) = Inr t"
      unfolding convert_to_lambda_2_iff using assms(2) by blast
    show ?thesis
    proof (cases "t \<le> fp_from_amount (r2 rs)")
      case True
      obtain a where "fp_try_into_amount (fp_round_down t) = Inr a" using round_down_into_amount by blast
      then show ?thesis using True ct \<open>unat (raw y) * unat d < 2 ^ 256\<close> by (simp add: bare_fill_def)
    next
      case False
      then have lt: "unat (r2 rs) * two128 < unat (raw y) * unat d"
        unfolding fixpoint_le_iff raw_from_amount t by simp
      note le = fillable_le [OF x assms(2) lt]
      have "two128 * unat d < 2 ^ 256" using u128_less [of d] by simp
      with le have "unat (raw x) * unat (r2 rs) < 2 ^ 256" by (rule order.strict_trans1)
      then obtain z where z: "unat (raw z) = unat (raw x) * unat (r2 rs)" using fp_ex by blast
      then have cz: "convert_to_delta_1 f (fp_from_amount (r2 rs)) = Inr z"
        unfolding convert_to_delta_1_iff using x by blast
      have "(unat (raw z) + (two128 - 1)) div two128 \<le> unat d"
        unfolding z by (rule ceil_le [OF le]) simp
      then obtain e :: amount where "unat e = (unat (raw z) + (two128 - 1)) div two128"
        using unat_surj_le by blast
      then have "round_up_exact z = Inr e" unfolding round_up_exact_iff .
      then show ?thesis using False ct cz \<open>unat (raw y) * unat d < 2 ^ 256\<close> by (simp add: bare_fill_def)
    qed
  next
    case False
    have "fp_checked_mul y (fp_from_amount d) \<noteq> Inr z" for z
      using False raw_less [of z] convert_to_lambda_2_iff [of f d z] assms(2) unfolding conv by auto
    then have "fp_checked_mul y (fp_from_amount d) = Inl Overflow"
      using fp_checked_mul_Inl by (metis sumE)
    with False conv show ?thesis by (simp add: bare_fill_def)
  qed
qed

section \<open>Properties\<close>

definition reserve_of :: "trading_function \<Rightarrow> reserves \<Rightarrow> asset_id \<Rightarrow> nat" where
  "reserve_of t rs k =
     (if k = asset_1 (tf_pair t) then unat (r1 rs) else if k = asset_2 (tf_pair t) then unat (r2 rs) else 0)"

text \<open>executing a trade against a position conserves value: in each asset of the pair, what
  the trader keeps unfilled plus what the reserves now hold of the input is what was there
  before, and output plus remaining reserves is the old reserves; the trader never ends with
  more unfilled input than was offered. This holds in both directions of the pair.\<close>

theorem fill_conserves_value:
  assumes "tf_fill t v rs = Inr (unfilled, rs', out)" "asset_1 (tf_pair t) \<noteq> asset_2 (tf_pair t)"
    and "reserve_of t rs (v_asset v) + unat (v_amount v) < 2 ^ 128"
  shows "v_asset unfilled = v_asset v \<and> v_asset out \<noteq> v_asset v \<and> {v_asset v, v_asset out} = {asset_1 (tf_pair t), asset_2 (tf_pair t)}
    \<and> unat (v_amount unfilled) + reserve_of t rs' (v_asset v) = unat (v_amount v) + reserve_of t rs (v_asset v)
    \<and> unat (v_amount out) + reserve_of t rs' (v_asset out) = reserve_of t rs (v_asset out)
    \<and> unat (v_amount unfilled) \<le> unat (v_amount v)"
proof (cases "v_asset v = asset_1 (tf_pair t)")
  case True
  with assms(1) obtain u o' where f: "bare_fill (tf_component t) (v_amount v) rs = Inr (u, rs', o')"
    and r: "unfilled = \<lparr>v_amount = u, v_asset = asset_1 (tf_pair t)\<rparr>" "out = \<lparr>v_amount = o', v_asset = asset_2 (tf_pair t)\<rparr>"
    by (auto simp: tf_fill_def and_then_prod_Inr_iff and_then_Inr_iff split: prod.splits)
  have "unat (r1 rs) + unat (v_amount v) < two128" using assms(3) True by (simp add: reserve_of_def)
  from bare_fill_conserves_lemma [OF f this] True assms(2) r show ?thesis by (auto simp: reserve_of_def)
next
  case False
  with assms(1) obtain u rs2 o' where two: "v_asset v = asset_2 (tf_pair t)"
    and f: "bare_fill (bare_flip (tf_component t)) (v_amount v) (reserves_flip rs) = Inr (u, rs2, o')"
    and r: "unfilled = \<lparr>v_amount = u, v_asset = asset_2 (tf_pair t)\<rparr>" "out = \<lparr>v_amount = o', v_asset = asset_1 (tf_pair t)\<rparr>"
      "rs' = reserves_flip rs2"
    by (auto simp: tf_fill_def and_then_Inr_iff split: prod.splits if_splits)
  have "unat (r1 (reserves_flip rs)) + unat (v_amount v) < two128" using assms(2,3) two by (simp add: reserve_of_def)
  from bare_fill_conserves_lemma [OF f this] two assms(2) r show ?thesis by (auto simp: reserve_of_def)
qed

definition demo_tf :: trading_function where
  "demo_tf = trading_function_new (TradingPair (AssetId 1) (AssetId 2)) 30 1 1"

lemma demo_tf_fill:
  "\<exists>res. tf_fill demo_tf \<lparr>v_amount = 100, v_asset = AssetId 1\<rparr> \<lparr>r1 = 0, r2 = 50\<rparr> = Inr res"
proof -
  have tr: "tradable (tf_component demo_tf)" by (simp add: tradable_def demo_tf_def trading_function_new_def)
  obtain x y where p: "effective_price_inv (tf_component demo_tf) = Inr y" "unat (raw y) < 2 ^ 208"
    by (rule effective_prices_total [OF tr])
  then have "unat (raw y) * unat (100 :: amount) < 2 ^ 256" by simp
  then obtain res where "bare_fill (tf_component demo_tf) 100 \<lparr>r1 = 0, r2 = 50\<rparr> = Inr res"
    using bare_fill_total [OF tr p(1), of 100 "\<lparr>r1 = 0, r2 = 50\<rparr>"] by auto
  then show ?thesis by (cases res) (simp add: tf_fill_def demo_tf_def trading_function_new_def)
qed

theorem fill_conserves_value_witness:
  "\<exists>unfilled rs' out. tf_fill demo_tf \<lparr>v_amount = 100, v_asset = AssetId 1\<rparr> \<lparr>r1 = 0, r2 = 50\<rparr> = Inr (unfilled, rs', out)
     \<and> unat (v_amount unfilled) + unat (r1 rs') = 100 \<and> unat (v_amount out) + unat (r2 rs') = 50"
proof -
  obtain unfilled rs' out
    where f: "tf_fill demo_tf \<lparr>v_amount = 100, v_asset = AssetId 1\<rparr> \<lparr>r1 = 0, r2 = 50\<rparr> = Inr (unfilled, rs', out)"
    using demo_tf_fill by (metis prod_cases3)
  have d: "asset_1 (tf_pair demo_tf) = AssetId 1" "asset_2 (tf_pair demo_tf) = AssetId 2"
    by (simp_all add: demo_tf_def trading_function_new_def)
  from fill_conserves_value [OF f] have "v_asset out = AssetId 2"
    "unat (v_amount unfilled) + unat (r1 rs') = 100" "unat (v_amount out) + reserve_of demo_tf rs' (v_asset out) = reserve_of demo_tf \<lparr>r1 = 0, r2 = 50\<rparr> (v_asset out)"
    by (auto simp: d reserve_of_def doubleton_eq_iff)
  with f show ?thesis by (auto simp: d reserve_of_def)
qed

text \<open>trading a position back and forth never gains: exchanging an input for the output of a
  fill and trading that output back through the same trading function returns at most the
  input, whatever the reserves on each leg.\<close>

theorem no_round_trip_gain:
  assumes "bare_fill f d rs = Inr (u, rs1, out)" "bare_fill (bare_flip f) out rs2 = Inr (u', rs3, ret)"
    and "unat (fee f) \<le> 5000" "0 < unat (bp f)" "0 < unat (bq f)"
  shows "unat ret \<le> unat d"
proof -
  let ?p = "unat (bp f)" and ?q = "unat (bq f)" and ?g = "10000 - unat (fee f)"
  have g: "?g \<le> 10000" "0 < ?g" using assms(3) by simp_all
  have 1: "unat out * (?q * 10000) \<le> unat d * (?p * ?g)"
    using bare_fill_rate [OF assms(1)] assms(3) by simp
  have 2: "unat ret * (?p * 10000) \<le> unat out * (?q * ?g)"
    using bare_fill_rate [OF assms(2)] assms(3) by (simp add: bare_flip_def)
  have "unat ret * (?p * 10000) \<le> unat out * (?q * 10000)"
    using 2 g(1) by (meson le_trans mult_le_mono2)
  also have "\<dots> \<le> unat d * (?p * ?g)" by (rule 1)
  also have "\<dots> \<le> unat d * (?p * 10000)" using g(1) by (intro mult_le_mono2)
  finally show ?thesis using assms(4) by simp
qed

theorem no_round_trip_gain_witness:
  "\<exists>u rs1 out u' rs3 ret. bare_fill (tf_component demo_tf) 100 \<lparr>r1 = 0, r2 = 50\<rparr> = Inr (u, rs1, out)
     \<and> bare_fill (bare_flip (tf_component demo_tf)) out \<lparr>r1 = 0, r2 = 70\<rparr> = Inr (u', rs3, ret)
     \<and> unat ret \<le> 100"
proof -
  let ?f = "tf_component demo_tf"
  have f: "tradable ?f" "tradable (bare_flip ?f)"
    by (simp_all add: tradable_flip) (simp_all add: tradable_def demo_tf_def trading_function_new_def)
  obtain x y where y: "effective_price_inv ?f = Inr y" "unat (raw y) < 2 ^ 208"
    by (rule effective_prices_total [OF f(1)])
  then have "unat (raw y) * unat (100 :: amount) < 2 ^ 256" by simp
  then obtain u rs1 out where 1: "bare_fill ?f 100 \<lparr>r1 = 0, r2 = 50\<rparr> = Inr (u, rs1, out)"
    using bare_fill_total [OF f(1) y(1), of 100 "\<lparr>r1 = 0, r2 = 50\<rparr>"] by (metis prod_cases3)
  then have out: "unat out \<le> 50"
    using bare_fill_conserves_lemma(2) [OF 1] by simp
  obtain x' z where z: "effective_price_inv (bare_flip ?f) = Inr z" "unat (raw z) < 2 ^ 208"
    by (rule effective_prices_total [OF f(2)])
  have "unat (raw z) * unat out \<le> 2 ^ 208 * 50" using z(2) out by (intro mult_le_mono) simp_all
  then have "unat (raw z) * unat out < 2 ^ 256" by simp
  then obtain u' rs3 ret where 2: "bare_fill (bare_flip ?f) out \<lparr>r1 = 0, r2 = 70\<rparr> = Inr (u', rs3, ret)"
    using bare_fill_total [OF f(2) z(1), of out "\<lparr>r1 = 0, r2 = 70\<rparr>"] by (metis prod_cases3)
  have "unat ret \<le> unat (100 :: amount)"
    by (rule no_round_trip_gain [OF 1 2]) (use f(1) in \<open>simp_all add: tradable_def\<close>)
  with 1 2 show ?thesis by (intro exI conjI) simp_all
qed

text \<open>against any trading function within the stateless bounds, executing a trade panics on no
  input: it succeeds, or reports the overflow of the tentative output and nothing else.\<close>

theorem fill_never_panics:
  assumes "tradable f"
  shows "\<exists>y. effective_price_inv f = Inr y \<and>
    (if unat (raw y) * unat d < 2 ^ 256 then \<exists>res. bare_fill f d rs = Inr res else bare_fill f d rs = Inl Overflow)"
proof -
  obtain x y where y: "effective_price_inv f = Inr y" by (rule effective_prices_total [OF assms])
  then show ?thesis using bare_fill_total [OF assms y] by blast
qed

theorem fill_never_panics_witness: "\<exists>res. bare_fill (tf_component demo_tf) 100 \<lparr>r1 = 7, r2 = 50\<rparr> = Inr res
    \<or> bare_fill (tf_component demo_tf) 100 \<lparr>r1 = 7, r2 = 50\<rparr> = Inl Overflow"
proof -
  have "tradable (tf_component demo_tf)" by (simp add: tradable_def demo_tf_def trading_function_new_def)
  from fill_never_panics [OF this, of 100 "\<lparr>r1 = 7, r2 = 50\<rparr>"] show ?thesis by (auto split: if_splits)
qed

end
