(* ===== verification/Position.thy ===== *)
theory Position
  imports TradingFunction
begin

text \<open>
  Liquidity positions (\<open>crates/core/component/dex/src/lp/position.rs\<close>), their flows, the
  stateless check, the position identifier's preimage, the text and protobuf forms, and the
  value balances of the position actions (\<open>lp/action.rs\<close>, \<open>lp/plan.rs\<close>).

  The identifier is a BLAKE2b hash and the asset identifier of a position NFT comes from the
  denomination registry; both are arguments (\<open>hash\<close>, \<open>nft\<close>) of the definitions that use
  them. The bech32 form of an identifier and position metadata encryption are not modelled.
\<close>

section \<open>Decimal text of integers\<close>

text \<open>\<open>u64\<close>'s \<open>Display\<close> and \<open>FromStr\<close>: an optional plus sign, then at least one digit,
  failing on overflow.\<close>

definition digit_char :: "nat \<Rightarrow> char" where
  "digit_char d = char_of (48 + d)"

definition char_digit :: "char \<Rightarrow> nat option" where
  "char_digit c = (if 48 \<le> (of_char c :: nat) \<and> (of_char c :: nat) \<le> 57 then Some (of_char c - 48) else None)"

fun show_nat :: "nat \<Rightarrow> string" where
  "show_nat n = (if n < 10 then [digit_char n] else show_nat (n div 10) @ [digit_char (n mod 10)])"

declare show_nat.simps [simp del]

fun parse_digits :: "string \<Rightarrow> nat \<Rightarrow> nat option" where
  "parse_digits [] acc = Some acc"
| "parse_digits (c # cs) acc =
     (case char_digit c of
        None \<Rightarrow> None
      | Some d \<Rightarrow> if 10 * acc + d < 2 ^ 64 then parse_digits cs (10 * acc + d) else None)"

definition show_u64 :: "u64 \<Rightarrow> string" where
  "show_u64 w = show_nat (unat w)"

definition parse_u64 :: "string \<Rightarrow> u64 option" where
  "parse_u64 s =
     (let ds = (case s of c # cs \<Rightarrow> if c = CHR ''+'' then cs else s | [] \<Rightarrow> [])
      in if ds = [] then None else map_option of_nat (parse_digits ds 0))"

lemma char_digit_digit_char [simp]: "d < 10 \<Longrightarrow> char_digit (digit_char d) = Some d"
  by (simp add: char_digit_def digit_char_def)

lemma parse_digits_append:
  "parse_digits (xs @ ys) acc = Option.bind (parse_digits xs acc) (parse_digits ys)"
  by (induction xs arbitrary: acc) (auto split: option.splits)

lemma parse_digits_show_nat: "n < 2 ^ 64 \<Longrightarrow> parse_digits (show_nat n) 0 = Some n"
proof (induction n rule: show_nat.induct)
  case (1 n)
  show ?case
  proof (cases "n < 10")
    case True
    with 1 show ?thesis by (subst show_nat.simps) simp
  next
    case False
    then have IH: "parse_digits (show_nat (n div 10)) 0 = Some (n div 10)"
      using 1 by (intro "1.IH") simp_all
    have "10 * (n div 10) + n mod 10 = n" by simp
    then show ?thesis
      using False IH "1.prems" by (subst show_nat.simps) (simp add: parse_digits_append)
  qed
qed

lemma show_nat_ne: "show_nat n \<noteq> []"
  by (subst show_nat.simps) simp

lemma hd_show_nat: "\<exists>d < 10. hd (show_nat n) = digit_char d"
proof (induction n rule: show_nat.induct)
  case (1 n)
  show ?case
  proof (cases "n < 10")
    case True
    then show ?thesis by (subst show_nat.simps) auto
  next
    case False
    with 1 show_nat_ne [of "n div 10"] show ?thesis by (subst show_nat.simps) simp
  qed
qed

lemma digit_char_neq_plus: "d < 10 \<Longrightarrow> digit_char d \<noteq> CHR ''+''"
proof
  assume "d < 10" "digit_char d = CHR ''+''"
  then have "char_digit (CHR ''+'') = Some d" by (metis char_digit_digit_char)
  then show False by (simp add: char_digit_def)
qed

lemma parse_show_u64: "parse_u64 (show_u64 w) = Some w"
proof -
  obtain c cs where s: "show_nat (unat w) = c # cs" using show_nat_ne by (cases "show_nat (unat w)") auto
  with hd_show_nat [of "unat w"] digit_char_neq_plus have "c \<noteq> CHR ''+''" by auto
  moreover have "parse_digits (c # cs) 0 = Some (unat w)"
    using parse_digits_show_nat [of "unat w"] unsigned_less [of w, where ?'a = nat] s by simp
  ultimately show ?thesis by (simp add: parse_u64_def show_u64_def s del: parse_digits.simps)
qed

section \<open>Positions\<close>

text \<open>An identifier is 32 bytes, ordered lexicographically.\<close>

type_synonym position_id = "u8 list"

datatype position_state = Opened | Closed | Withdrawn (seq_no: u64)

record position =
  p_state :: position_state
  p_reserves :: reserves
  p_phi :: trading_function
  p_nonce :: "u8 list"
  close_on_fill :: bool

definition position_new_with_nonce ::
  "u8 list \<Rightarrow> directed_pair \<Rightarrow> u32 \<Rightarrow> amount \<Rightarrow> amount \<Rightarrow> reserves \<Rightarrow> position" where
  "position_new_with_nonce nonce pair f p q rs =
     (let canonical_tp = to_canonical pair;
          (p', q', rs') = (if dp_start pair \<noteq> asset_1 canonical_tp
                           then (q, p, \<lparr>r1 = r2 rs, r2 = r1 rs\<rparr>) else (p, q, rs))
      in \<lparr>p_state = Opened, p_reserves = rs', p_phi = trading_function_new canonical_tp f p' q',
          p_nonce = nonce, close_on_fill = False\<rparr>)"

text \<open>An asset identifier is the canonical integer of a field element below the modulus of
  \<open>Fq\<close>, written in 32 little-endian bytes.\<close>

definition asset_to_bytes :: "asset_id \<Rightarrow> u8 list" where
  "asset_to_bytes k = le_bytes 32 (asset_rank k)"

definition position_preimage :: "position \<Rightarrow> u8 list" where
  "position_preimage p =
     p_nonce p @ asset_to_bytes (asset_1 (tf_pair (p_phi p))) @ asset_to_bytes (asset_2 (tf_pair (p_phi p)))
       @ le_bytes 4 (unat (fee (tf_component (p_phi p))))
       @ amount_to_le_bytes (bp (tf_component (p_phi p)))
       @ amount_to_le_bytes (bq (tf_component (p_phi p)))"

definition position_id_of :: "(u8 list \<Rightarrow> u8 list) \<Rightarrow> position \<Rightarrow> position_id" where
  "position_id_of hash p = take 32 (hash (position_preimage p))"

definition position_check_stateless :: "position \<Rightarrow> unit result" where
  "position_check_stateless p =
     (let rs = p_reserves p; f = tf_component (p_phi p); pair = tf_pair (p_phi p)
      in if r1 rs > MAX_RESERVE_AMOUNT \<or> r2 rs > MAX_RESERVE_AMOUNT then Inl (Bail ''reserves out-of-bounds'')
         else if r1 rs = 0 \<and> r2 rs = 0 then Inl (Bail ''initial reserves must provision some amount'')
         else if bp f = 0 \<or> bq f = 0 then Inl (Bail ''trading function coefficients must be nonzero'')
         else if bp f > MAX_RESERVE_AMOUNT \<or> bq f > MAX_RESERVE_AMOUNT then
           Inl (Bail ''trading function coefficients are too large'')
         else if asset_1 pair = asset_2 pair then Inl (Bail ''cyclical pairs are not allowed'')
         else if fee f > MAX_FEE_BPS then Inl (Bail ''fee cannot be greater than 50%'')
         else Inr ())"

definition reserves_for :: "position \<Rightarrow> asset_id \<Rightarrow> amount option" where
  "reserves_for p k =
     (if k = asset_1 (tf_pair (p_phi p)) then Some (r1 (p_reserves p))
      else if k = asset_2 (tf_pair (p_phi p)) then Some (r2 (p_reserves p))
      else None)"

definition reserves_1 :: "position \<Rightarrow> asset_value" where
  "reserves_1 p = \<lparr>v_amount = r1 (p_reserves p), v_asset = asset_1 (tf_pair (p_phi p))\<rparr>"

definition reserves_2 :: "position \<Rightarrow> asset_value" where
  "reserves_2 p = \<lparr>v_amount = r2 (p_reserves p), v_asset = asset_2 (tf_pair (p_phi p))\<rparr>"

section \<open>The text form of a state\<close>

definition show_state :: "position_state \<Rightarrow> string" where
  "show_state s = (case s of Opened \<Rightarrow> ''opened'' | Closed \<Rightarrow> ''closed''
     | Withdrawn n \<Rightarrow> ''withdrawn_'' @ show_u64 n)"

text \<open>\<open>splitn(2, '_')\<close>: the part before the first underscore, and the rest if there is one.\<close>

definition split_underscore :: "string \<Rightarrow> string \<times> string option" where
  "split_underscore s =
     (takeWhile (\<lambda>c. c \<noteq> CHR ''_'') s,
      case dropWhile (\<lambda>c. c \<noteq> CHR ''_'') s of [] \<Rightarrow> None | _ # cs \<Rightarrow> Some cs)"

definition parse_state :: "string \<Rightarrow> position_state result" where
  "parse_state s =
     (if s = ''opened'' then Inr Opened
      else if s = ''closed'' then Inr Closed
      else (let (hd_part, rest) = split_underscore s in
        if hd_part = ''withdrawn'' then
          and_then (ok_or rest (Bail ''missing sequence number'')) (\<lambda>t.
          and_then (ok_or (parse_u64 t) (Bail ''invalid sequence number'')) (\<lambda>n. Inr (Withdrawn n)))
        else Inl (Bail ''unknown position state'')))"

lemma parse_show_state: "parse_state (show_state s) = Inr s"
  by (cases s) (simp_all add: parse_state_def show_state_def split_underscore_def parse_show_u64)

section \<open>Flows\<close>

record flows =
  fl_pair :: directed_pair
  delta_1 :: amount
  delta_2 :: amount
  lambda_1 :: amount
  lambda_2 :: amount
  fee_1 :: amount
  fee_2 :: amount

definition from_phi_and_reserves :: "trading_function \<Rightarrow> reserves \<Rightarrow> reserves \<Rightarrow> flows" where
  "from_phi_and_reserves phi current prev =
     (let (d1, d2, l1, l2) =
            (if r1 current > r1 prev
             then (r1 current - r1 prev, 0, 0, r2 prev - r2 current)
             else (0, r2 current - r2 prev, r1 prev - r1 current, 0));
          fee_bps = ucast (fee (tf_component phi)) :: u128
      in \<lparr>fl_pair = DirectedPair (asset_1 (tf_pair phi)) (asset_2 (tf_pair phi)),
          delta_1 = d1, delta_2 = d2, lambda_1 = l1, lambda_2 = l2,
          fee_1 = (d1 * fee_bps) div 10000, fee_2 = (d2 * fee_bps) div 10000\<rparr>)"

definition position_flows :: "position \<Rightarrow> position \<Rightarrow> flows" where
  "position_flows p prev = from_phi_and_reserves (p_phi p) (p_reserves p) (p_reserves prev)"

definition flows_redirect :: "flows \<Rightarrow> directed_pair \<Rightarrow> flows option" where
  "flows_redirect fl pair =
     (if fl_pair fl = pair then Some fl
      else (let flip = directed_flip pair in
        if fl_pair fl = flip then
          Some \<lparr>fl_pair = flip, delta_1 = delta_2 fl, delta_2 = delta_1 fl, lambda_1 = lambda_2 fl,
            lambda_2 = lambda_1 fl, fee_1 = fee_2 fl, fee_2 = fee_1 fl\<rparr>
        else None))"

section \<open>The balances of the position actions\<close>

text \<open>\<open>nft i s\<close> is \<open>LpNft::new(i, s).asset_id()\<close>.\<close>

definition nft_value :: "(position_id \<Rightarrow> position_state \<Rightarrow> asset_id) \<Rightarrow> position_id \<Rightarrow> position_state \<Rightarrow> asset_value" where
  "nft_value nft i s = \<lparr>v_amount = 1, v_asset = nft i s\<rparr>"

definition position_open_balance ::
  "(u8 list \<Rightarrow> u8 list) \<Rightarrow> (position_id \<Rightarrow> position_state \<Rightarrow> asset_id) \<Rightarrow> position \<Rightarrow> balance result" where
  "position_open_balance hash nft p =
     and_then (reserves_balance (p_reserves p) (tf_pair (p_phi p))) (\<lambda>rs.
       balance_sub (balance_from_value (nft_value nft (position_id_of hash p) Opened)) rs)"

definition position_close_balance ::
  "(position_id \<Rightarrow> position_state \<Rightarrow> asset_id) \<Rightarrow> position_id \<Rightarrow> balance result" where
  "position_close_balance nft i =
     balance_sub_value (balance_from_value (nft_value nft i Closed)) (nft_value nft i Opened)"

record position_withdraw_plan =
  pw_reserves :: reserves
  pw_position_id :: position_id
  pw_pair :: trading_pair
  pw_sequence :: u64
  pw_rewards :: "asset_value list"

definition position_withdraw_balance ::
  "(position_id \<Rightarrow> position_state \<Rightarrow> asset_id) \<Rightarrow> position_withdraw_plan \<Rightarrow> balance result" where
  "position_withdraw_balance nft w =
     and_then (reserves_balance (pw_reserves w) (pw_pair w)) (\<lambda>b.
     and_then (balance_sub_value b
       (if pw_sequence w = 0 then nft_value nft (pw_position_id w) Closed
        else nft_value nft (pw_position_id w) (Withdrawn (pw_sequence w - 1)))) (\<lambda>b.
     balance_add_value b (nft_value nft (pw_position_id w) (Withdrawn (pw_sequence w)))))"

text \<open>The balance that \<open>reserves_commitment\<close> commits to.\<close>

definition withdraw_committed_balance :: "position_withdraw_plan \<Rightarrow> balance result" where
  "withdraw_committed_balance w =
     and_then (reserves_balance (pw_reserves w) (pw_pair w))
       (try_fold (\<lambda>reward b. balance_add_value b reward) (pw_rewards w))"

section \<open>Protobuf encodings\<close>

record pb_reserves =
  pbr_r1 :: "pb_amount option"
  pbr_r2 :: "pb_amount option"

definition reserves_to_proto :: "reserves \<Rightarrow> pb_reserves" where
  "reserves_to_proto r = \<lparr>pbr_r1 = Some (amount_to_proto (r1 r)), pbr_r2 = Some (amount_to_proto (r2 r))\<rparr>"

definition reserves_from_proto :: "pb_reserves \<Rightarrow> reserves result" where
  "reserves_from_proto v =
     and_then (and_then (ok_or (pbr_r1 v) (Bail ''missing r1'')) amount_from_proto) (\<lambda>a.
     and_then (and_then (ok_or (pbr_r2 v) (Bail ''missing r2'')) amount_from_proto) (\<lambda>b.
     Inr \<lparr>r1 = a, r2 = b\<rparr>))"

record pb_bare_trading_function =
  pbf_fee :: u32
  pbf_p :: "pb_amount option"
  pbf_q :: "pb_amount option"

definition bare_to_proto :: "bare_trading_function \<Rightarrow> pb_bare_trading_function" where
  "bare_to_proto f = \<lparr>pbf_fee = fee f, pbf_p = Some (amount_to_proto (bp f)), pbf_q = Some (amount_to_proto (bq f))\<rparr>"

definition bare_from_proto :: "pb_bare_trading_function \<Rightarrow> bare_trading_function result" where
  "bare_from_proto v =
     and_then (and_then (ok_or (pbf_p v) (Bail ''missing p'')) amount_from_proto) (\<lambda>p.
     and_then (and_then (ok_or (pbf_q v) (Bail ''missing q'')) amount_from_proto) (\<lambda>q.
     Inr \<lparr>fee = pbf_fee v, bp = p, bq = q\<rparr>))"

record pb_trading_pair =
  pbp_asset_1 :: "asset_id option"
  pbp_asset_2 :: "asset_id option"

definition pair_to_proto :: "trading_pair \<Rightarrow> pb_trading_pair" where
  "pair_to_proto t = \<lparr>pbp_asset_1 = Some (asset_1 t), pbp_asset_2 = Some (asset_2 t)\<rparr>"

definition pair_from_proto :: "pb_trading_pair \<Rightarrow> trading_pair result" where
  "pair_from_proto v =
     and_then (ok_or (pbp_asset_1 v) (Bail ''missing trading pair asset1'')) (\<lambda>a.
     and_then (ok_or (pbp_asset_2 v) (Bail ''missing trading pair asset2'')) (\<lambda>b.
     Inr (trading_pair_new a b)))"

record pb_trading_function =
  pbt_component :: "pb_bare_trading_function option"
  pbt_pair :: "pb_trading_pair option"

definition tf_to_proto :: "trading_function \<Rightarrow> pb_trading_function" where
  "tf_to_proto t = \<lparr>pbt_component = Some (bare_to_proto (tf_component t)), pbt_pair = Some (pair_to_proto (tf_pair t))\<rparr>"

definition tf_from_proto :: "pb_trading_function \<Rightarrow> trading_function result" where
  "tf_from_proto v =
     and_then (and_then (ok_or (pbt_component v) (Bail ''missing BareTradingFunction'')) bare_from_proto) (\<lambda>f.
     and_then (and_then (ok_or (pbt_pair v) (Bail ''missing TradingPair'')) pair_from_proto) (\<lambda>t.
     Inr \<lparr>tf_component = f, tf_pair = t\<rparr>))"

text \<open>The state is an enumeration number (1 opened, 2 closed, 3 withdrawn, 4 the deprecated
  claimed, 0 unspecified) and a sequence number.\<close>

record pb_position_state =
  pbst_state :: int
  pbst_sequence :: u64

definition state_to_proto :: "position_state \<Rightarrow> pb_position_state" where
  "state_to_proto s =
     \<lparr>pbst_state = (case s of Opened \<Rightarrow> 1 | Closed \<Rightarrow> 2 | Withdrawn _ \<Rightarrow> 3),
      pbst_sequence = (case s of Withdrawn n \<Rightarrow> n | _ \<Rightarrow> 0)\<rparr>"

definition state_from_proto :: "pb_position_state \<Rightarrow> position_state result" where
  "state_from_proto v =
     (if pbst_state v = 1 then Inr Opened
      else if pbst_state v = 2 then Inr Closed
      else if pbst_state v = 3 then Inr (Withdrawn (pbst_sequence v))
      else if pbst_state v = 0 \<or> pbst_state v = 4 then Inl (Bail ''unknown position state'')
      else Inl (Bail ''invalid position state enum value''))"

record pb_position =
  pbpo_state :: "pb_position_state option"
  pbpo_reserves :: "pb_reserves option"
  pbpo_phi :: "pb_trading_function option"
  pbpo_nonce :: "u8 list"
  pbpo_close_on_fill :: bool

definition position_to_proto :: "position \<Rightarrow> pb_position" where
  "position_to_proto p =
     \<lparr>pbpo_state = Some (state_to_proto (p_state p)), pbpo_reserves = Some (reserves_to_proto (p_reserves p)),
      pbpo_phi = Some (tf_to_proto (p_phi p)), pbpo_nonce = p_nonce p, pbpo_close_on_fill = close_on_fill p\<rparr>"

definition position_from_proto :: "pb_position \<Rightarrow> position result" where
  "position_from_proto v =
     and_then (and_then (ok_or (pbpo_state v) (Bail ''missing state in Position message'')) state_from_proto) (\<lambda>s.
     and_then (and_then (ok_or (pbpo_reserves v) (Bail ''missing reserves in Position message'')) reserves_from_proto) (\<lambda>rs.
     and_then (and_then (ok_or (pbpo_phi v) (Bail ''missing trading function'')) tf_from_proto) (\<lambda>phi.
     and_then (ensure (length (pbpo_nonce v) = 32) ''expected 32-byte nonce'') (\<lambda>_.
     Inr \<lparr>p_state = s, p_reserves = rs, p_phi = phi, p_nonce = pbpo_nonce v,
          close_on_fill = pbpo_close_on_fill v\<rparr>))))"

text \<open>A pair as \<open>TradingPair::new\<close> builds it.\<close>

definition pair_canonical :: "trading_pair \<Rightarrow> bool" where
  "pair_canonical t \<longleftrightarrow> asset_1 t \<le> asset_2 t"

lemma pair_proto_roundtrip: "pair_canonical t \<Longrightarrow> pair_from_proto (pair_to_proto t) = Inr t"
  by (cases t) (auto simp: pair_from_proto_def pair_to_proto_def trading_pair_new_def pair_canonical_def)

lemma reserves_proto_roundtrip: "reserves_from_proto (reserves_to_proto r) = Inr r"
  by (simp add: reserves_from_proto_def reserves_to_proto_def)

lemma bare_proto_roundtrip: "bare_from_proto (bare_to_proto f) = Inr f"
  by (simp add: bare_from_proto_def bare_to_proto_def)

lemma tf_proto_roundtrip: "pair_canonical (tf_pair t) \<Longrightarrow> tf_from_proto (tf_to_proto t) = Inr t"
  by (simp add: tf_from_proto_def tf_to_proto_def pair_proto_roundtrip bare_proto_roundtrip)

lemma state_proto_roundtrip: "state_from_proto (state_to_proto s) = Inr s"
  by (cases s) (simp_all add: state_from_proto_def state_to_proto_def)

lemma position_roundtrip:
  "length (p_nonce p) = 32 \<Longrightarrow> pair_canonical (tf_pair (p_phi p)) \<Longrightarrow>
     position_from_proto (position_to_proto p) = Inr p"
  by (simp add: position_from_proto_def position_to_proto_def state_proto_roundtrip
      reserves_proto_roundtrip tf_proto_roundtrip)

lemma pair_from_proto_canonical: "pair_from_proto v = Inr t \<Longrightarrow> pair_canonical t"
  by (auto simp: pair_from_proto_def result_simps pair_canonical_def trading_pair_new_ordered)

section \<open>What the definitions guarantee\<close>

text \<open>Two positions with the same preimage have the same nonce and trading function, so the
  identifier separates them as far as the hash does.\<close>

lemma le_bytes_inject: "m < 256 ^ k \<Longrightarrow> n < 256 ^ k \<Longrightarrow> le_bytes k m = le_bytes k n \<longleftrightarrow> m = n"
  by (metis le_nat_le_bytes mod_less)

definition asset_in_field :: "asset_id \<Rightarrow> bool" where
  "asset_in_field k \<longleftrightarrow> asset_rank k < 2 ^ 253"

lemma asset_to_bytes_inject:
  assumes "asset_in_field a" "asset_in_field b"
  shows "asset_to_bytes a = asset_to_bytes b \<longleftrightarrow> a = b"
proof -
  have "(2::nat) ^ 253 < 256 ^ 32" by simp
  then have "asset_rank a < 256 ^ 32" "asset_rank b < 256 ^ 32"
    using assms unfolding asset_in_field_def by linarith+
  then show ?thesis unfolding asset_to_bytes_def le_bytes_inject
    by (cases a; cases b) (simp add: le_bytes_inject)
qed

lemma amount_le_bytes_inject: "amount_to_le_bytes a = amount_to_le_bytes b \<longleftrightarrow> a = b"
proof -
  have "unat x < 256 ^ 16" for x :: amount using u128_less [of x] by simp
  then show ?thesis unfolding amount_to_le_bytes_def by (simp add: le_bytes_inject word_unat_eq_iff)
qed

lemma fee_bytes_inject: "le_bytes 4 (unat (a :: u32)) = le_bytes 4 (unat b) \<longleftrightarrow> a = b"
proof -
  have "unat x < 256 ^ 4" for x :: u32 using unsigned_less [of x, where ?'a = nat] by simp
  then show ?thesis by (simp add: le_bytes_inject word_unat_eq_iff)
qed

lemma preimage_inject:
  assumes "length (p_nonce p) = 32" "length (p_nonce p') = 32"
    and "\<And>x. x \<in> {p, p'} \<Longrightarrow> asset_in_field (asset_1 (tf_pair (p_phi x))) \<and> asset_in_field (asset_2 (tf_pair (p_phi x)))"
    and "position_preimage p = position_preimage p'"
  shows "p_nonce p = p_nonce p' \<and> p_phi p = p_phi p'"
proof -
  have len: "length (asset_to_bytes k) = 32" "length (amount_to_le_bytes a) = 16" for k a
    by (simp_all add: asset_to_bytes_def amount_to_le_bytes_def)
  from assms(4) have "p_nonce p = p_nonce p'"
    and "asset_to_bytes (asset_1 (tf_pair (p_phi p))) = asset_to_bytes (asset_1 (tf_pair (p_phi p')))"
    and "asset_to_bytes (asset_2 (tf_pair (p_phi p))) = asset_to_bytes (asset_2 (tf_pair (p_phi p')))"
    and "fee (tf_component (p_phi p)) = fee (tf_component (p_phi p'))"
    and "bp (tf_component (p_phi p)) = bp (tf_component (p_phi p'))"
    and "bq (tf_component (p_phi p)) = bq (tf_component (p_phi p'))"
    using assms(1,2)
    by (auto simp: position_preimage_def len append_eq_append_conv amount_le_bytes_inject fee_bytes_inject)
  moreover from this have "tf_pair (p_phi p) = tf_pair (p_phi p')"
    using assms(3) by (simp add: asset_to_bytes_inject trading_pair.expand)
  ultimately show ?thesis by simp
qed

lemma check_stateless_iff:
  "position_check_stateless p = Inr u \<longleftrightarrow>
     unat (r1 (p_reserves p)) < 2 ^ 80 \<and> unat (r2 (p_reserves p)) < 2 ^ 80
     \<and> (r1 (p_reserves p) \<noteq> 0 \<or> r2 (p_reserves p) \<noteq> 0)
     \<and> tradable (tf_component (p_phi p)) \<and> asset_1 (tf_pair (p_phi p)) \<noteq> asset_2 (tf_pair (p_phi p))"
proof -
  have max: "x > MAX_RESERVE_AMOUNT \<longleftrightarrow> \<not> unat x < 2 ^ 80" for x :: amount
    unfolding MAX_RESERVE_AMOUNT_def word_less_nat_alt by (simp, linarith)
  have bps: "f > MAX_FEE_BPS \<longleftrightarrow> \<not> unat f \<le> 5000" for f :: u32
    by (simp add: MAX_FEE_BPS_def word_less_nat_alt not_le)
  have nz: "x = 0 \<longleftrightarrow> \<not> 0 < unat x" for x :: amount by (simp add: unat_eq_0)
  show ?thesis
    unfolding position_check_stateless_def Let_def tradable_def max bps
    by (auto simp: nz)
qed

text \<open>The constructor gives the start asset the first reserves and coefficient, in either
  direction.\<close>

lemma new_with_nonce_start:
  assumes "dp_start pair \<noteq> dp_end pair"
  shows "reserves_for (position_new_with_nonce n pair f p q rs) (dp_start pair) = Some (r1 rs)"
    and "reserves_for (position_new_with_nonce n pair f p q rs) (dp_end pair) = Some (r2 rs)"
    and "orient_start (p_phi (position_new_with_nonce n pair f p q rs)) (dp_start pair) = Some \<lparr>fee = f, bp = p, bq = q\<rparr>"
  using assms
  by (auto simp: position_new_with_nonce_def reserves_for_def to_canonical_def trading_pair_new_def
      trading_function_new_def orient_start_def bare_flip_def Let_def)

text \<open>A fill moves what the flows say.\<close>

lemma fill_flows_lemma:
  assumes "bare_fill (tf_component phi) d rs = Inr (u, rs', out)" "unat (r1 rs) + unat d < two128" "u \<noteq> d"
  shows "delta_1 (from_phi_and_reserves phi rs' rs) = d - u \<and> lambda_2 (from_phi_and_reserves phi rs' rs) = out
    \<and> delta_2 (from_phi_and_reserves phi rs' rs) = 0 \<and> lambda_1 (from_phi_and_reserves phi rs' rs) = 0"
proof -
  note c = bare_fill_conserves_lemma [OF assms(1,2)]
  have "unat u < unat d" using c(3) assms(3) by (simp add: word_unat_eq_iff)
  then have lt: "r1 rs < r1 rs'" using c(1) by (simp add: word_less_nat_alt)
  then have "unat (r1 rs' - r1 rs) = unat d - unat u"
    using c(1) by (subst checked_sub_mono) (simp_all add: word_less_nat_alt)
  then have "r1 rs' - r1 rs = d - u"
    using c(3) by (simp add: word_unat_eq_iff checked_sub_mono)
  moreover have "unat (r2 rs - r2 rs') = unat out" using c(2) by (subst checked_sub_mono) simp_all
  then have "r2 rs - r2 rs' = out" by (simp add: word_unat_eq_iff)
  ultimately show ?thesis using lt by (simp add: from_phi_and_reserves_def Let_def)
qed

text \<open>Redirecting to the opposite direction exchanges the two sides but leaves the pair as it
  was: the result is not labelled with the pair that was asked for.\<close>

lemma redirect_flip_pair:
  "fl_pair fl = directed_flip pair \<Longrightarrow> pair \<noteq> directed_flip pair \<Longrightarrow>
     \<exists>r. flows_redirect fl pair = Some r \<and> fl_pair r = fl_pair fl \<and> lambda_1 r = lambda_2 fl \<and> delta_1 r = delta_2 fl"
  by (auto simp: flows_redirect_def Let_def)

section \<open>Balances\<close>

lemma net_add_value:
  assumes "balance_wf b" "balance_add_value b v = Inr c"
  shows "balance_wf c" "net c k = net b k + (if k = v_asset v then uint (v_amount v) else 0)"
  using assms balance_add_net [of b "balance_from_value v" c] balance_from_value_net [of v]
  by (auto simp: balance_add_value_def)

abbreviation amount_at :: "asset_value \<Rightarrow> asset_id \<Rightarrow> int" where
  "amount_at v k \<equiv> (if k = v_asset v then uint (v_amount v) else 0)"

lemma net_sub_value:
  assumes "balance_wf b" "balance_sub_value b v = Inr c"
  shows "balance_wf c" "net c k = net b k - amount_at v k"
  using assms balance_sub_net [of b "balance_from_value v" c] balance_from_value_net [of v]
  by (auto simp: balance_sub_value_def)

lemma reserves_balance_net:
  assumes "reserves_balance rs pair = Inr b"
  shows "balance_wf b"
    "net b k = (if k = asset_1 pair then uint (r1 rs) else 0) + (if k = asset_2 pair then uint (r2 rs) else 0)"
  using assms net_add_value [of "balance_from_value \<lparr>v_amount = r1 rs, v_asset = asset_1 pair\<rparr>"]
  by (auto simp: reserves_balance_def balance_from_value_net)

lemma reserves_balance_total:
  assumes "unat (r1 rs) + unat (r2 rs) < 2 ^ 128"
  shows "\<exists>b. reserves_balance rs pair = Inr b"
proof -
  have "uint (r1 rs) + uint (r2 rs) < 2 ^ 128"
    using assms unfolding uint_nat of_nat_add [symmetric] by (simp only: of_nat_less_numeral_power_cancel_iff)
  moreover have "uint (r1 rs) < 2 ^ 128" "uint (r2 rs) < 2 ^ 128"
    using unsigned_less [of "r1 rs", where ?'a = int] unsigned_less [of "r2 rs", where ?'a = int] by simp_all
  ultimately show ?thesis
    unfolding reserves_balance_def balance_add_value_def
    by (intro balance_add_total) (auto simp: balance_from_value_net)
qed

lemma open_balance_net:
  assumes "position_open_balance hash nft p = Inr b"
  shows "balance_wf b"
    "net b k = (if k = nft (position_id_of hash p) Opened then 1 else 0)
       - amount_at (reserves_1 p) k - amount_at (reserves_2 p) k"
proof -
  from assms obtain r where r: "reserves_balance (p_reserves p) (tf_pair (p_phi p)) = Inr r"
    and b: "balance_sub (balance_from_value (nft_value nft (position_id_of hash p) Opened)) r = Inr b"
    by (auto simp: position_open_balance_def result_simps)
  note rn = reserves_balance_net [OF r]
  from balance_sub_net [OF b balance_from_value_net(2) rn(1)]
  show "balance_wf b"
    "net b k = (if k = nft (position_id_of hash p) Opened then 1 else 0)
       - amount_at (reserves_1 p) k - amount_at (reserves_2 p) k"
    by (simp_all add: balance_from_value_net rn(2) nft_value_def reserves_1_def reserves_2_def)
qed

lemma close_balance_net:
  assumes "position_close_balance nft i = Inr b"
  shows "balance_wf b"
    "net b k = (if k = nft i Closed then 1 else 0) - (if k = nft i Opened then 1 else 0)"
  using assms net_sub_value [of "balance_from_value (nft_value nft i Closed)" "nft_value nft i Opened" b]
  by (auto simp: position_close_balance_def balance_from_value_net nft_value_def)

definition state_before :: "u64 \<Rightarrow> position_state" where
  "state_before n = (if n = 0 then Closed else Withdrawn (n - 1))"

lemma withdraw_balance_net:
  assumes "position_withdraw_balance nft w = Inr b"
  shows "balance_wf b"
    "net b k = (if k = asset_1 (pw_pair w) then uint (r1 (pw_reserves w)) else 0)
       + (if k = asset_2 (pw_pair w) then uint (r2 (pw_reserves w)) else 0)
       - (if k = nft (pw_position_id w) (state_before (pw_sequence w)) then 1 else 0)
       + (if k = nft (pw_position_id w) (Withdrawn (pw_sequence w)) then 1 else 0)"
proof -
  have prev: "(if pw_sequence w = 0 then nft_value nft (pw_position_id w) Closed
        else nft_value nft (pw_position_id w) (Withdrawn (pw_sequence w - 1)))
      = nft_value nft (pw_position_id w) (state_before (pw_sequence w))"
    by (simp add: state_before_def)
  from assms obtain r c where r: "reserves_balance (pw_reserves w) (pw_pair w) = Inr r"
    and c: "balance_sub_value r (nft_value nft (pw_position_id w) (state_before (pw_sequence w))) = Inr c"
    and b: "balance_add_value c (nft_value nft (pw_position_id w) (Withdrawn (pw_sequence w))) = Inr b"
    unfolding position_withdraw_balance_def prev by (auto simp: result_simps)
  note rn = reserves_balance_net [OF r] and cn = net_sub_value [OF reserves_balance_net(1) [OF r] c]
  note bn = net_add_value [OF cn(1) b]
  show "balance_wf b" by (rule bn(1))
  show "net b k = (if k = asset_1 (pw_pair w) then uint (r1 (pw_reserves w)) else 0)
       + (if k = asset_2 (pw_pair w) then uint (r2 (pw_reserves w)) else 0)
       - (if k = nft (pw_position_id w) (state_before (pw_sequence w)) then 1 else 0)
       + (if k = nft (pw_position_id w) (Withdrawn (pw_sequence w)) then 1 else 0)"
    unfolding bn(2) cn(2) rn(2) by (simp add: nft_value_def)
qed

section \<open>Properties\<close>

text \<open>the preimage of a position identifier determines the nonce and the whole trading
  function, so two positions can share an identifier only where the hash collides.\<close>

theorem position_preimage_injective:
  assumes "length (p_nonce p) = 32" "length (p_nonce p') = 32"
    and "asset_in_field (asset_1 (tf_pair (p_phi p)))" "asset_in_field (asset_2 (tf_pair (p_phi p)))"
    and "asset_in_field (asset_1 (tf_pair (p_phi p')))" "asset_in_field (asset_2 (tf_pair (p_phi p')))"
    and "position_preimage p = position_preimage p'"
  shows "p_nonce p = p_nonce p' \<and> p_phi p = p_phi p'"
  by (rule preimage_inject) (use assms in auto)

definition sample_position :: "u8 \<Rightarrow> u64 \<Rightarrow> position" where
  "sample_position n st = \<lparr>p_state = Withdrawn st, p_reserves = \<lparr>r1 = 3, r2 = 4\<rparr>,
     p_phi = trading_function_new (TradingPair (AssetId 1) (AssetId 2)) 30 5 6,
     p_nonce = replicate 32 n, close_on_fill = False\<rparr>"

theorem position_preimage_injective_witness:
  "position_preimage (sample_position 7 0) = position_preimage (sample_position 7 1)
     \<and> p_phi (sample_position 7 0) = p_phi (sample_position 7 1)"
proof -
  have f: "asset_in_field (AssetId 1)" "asset_in_field (AssetId 2)" by (simp_all add: asset_in_field_def)
  have pre: "position_preimage (sample_position 7 0) = position_preimage (sample_position 7 1)"
    by (simp add: position_preimage_def sample_position_def)
  have "p_nonce (sample_position 7 0) = p_nonce (sample_position 7 1) \<and> p_phi (sample_position 7 0) = p_phi (sample_position 7 1)"
    by (rule position_preimage_injective [OF _ _ _ _ _ _ pre]) (use f in \<open>simp_all add: sample_position_def trading_function_new_def\<close>)
  with pre show ?thesis by blast
qed



text \<open>the three actions of a position's life conserve value: opening, closing and withdrawing
  with the reserves it was opened with add up, asset by asset, to exactly one NFT of the
  withdrawn position, whatever the NFT identifiers are.\<close>

theorem position_actions_conserve:
  assumes "position_open_balance hash nft p = Inr b1" "position_close_balance nft (position_id_of hash p) = Inr b2"
    and "position_withdraw_balance nft \<lparr>pw_reserves = p_reserves p, pw_position_id = position_id_of hash p,
      pw_pair = tf_pair (p_phi p), pw_sequence = 0, pw_rewards = []\<rparr> = Inr b3"
  shows "net b1 k + net b2 k + net b3 k = (if k = nft (position_id_of hash p) (Withdrawn 0) then 1 else 0)"
  unfolding open_balance_net(2) [OF assms(1)] close_balance_net(2) [OF assms(2)] withdraw_balance_net(2) [OF assms(3)]
  by (simp add: reserves_1_def reserves_2_def state_before_def)

definition sample_nft :: "position_id \<Rightarrow> position_state \<Rightarrow> asset_id" where
  "sample_nft i st = AssetId (case st of Opened \<Rightarrow> 11 | Closed \<Rightarrow> 12 | Withdrawn n \<Rightarrow> 13 + unat n)"

theorem position_actions_conserve_witness:
  "\<exists>b1 b2 b3. position_open_balance (\<lambda>x. x) sample_nft (sample_position 7 0) = Inr b1
     \<and> net b1 (AssetId 13) + net b2 (AssetId 13) + net b3 (AssetId 13) = 1
     \<and> net b1 (AssetId 1) + net b2 (AssetId 1) + net b3 (AssetId 1) = 0"
proof -
  let ?p = "sample_position 7 0" and ?i = "position_id_of (\<lambda>x. x) (sample_position 7 0)"
  let ?w = "\<lparr>pw_reserves = p_reserves ?p, pw_position_id = ?i, pw_pair = tf_pair (p_phi ?p), pw_sequence = 0, pw_rewards = []\<rparr>"
  have "\<exists>b. position_open_balance (\<lambda>x. x) sample_nft ?p = Inr b"
    by (simp add: position_open_balance_def reserves_balance_def sample_position_def trading_function_new_def
        balance_add_value_def balance_from_value_def balance_add_def dimension_def balance_iter_def
        balance_add_step_def balance_sub_def balance_neg_def nft_value_def sample_nft_def bt_get_def less_asset_id_def)
  moreover have "\<exists>b. position_close_balance sample_nft ?i = Inr b"
    by (simp add: position_close_balance_def balance_sub_value_def balance_from_value_def balance_add_def
        dimension_def balance_iter_def balance_add_step_def balance_sub_def balance_neg_def nft_value_def
        sample_nft_def bt_get_def less_asset_id_def)
  moreover have "\<exists>b. position_withdraw_balance sample_nft ?w = Inr b"
    by (simp add: position_withdraw_balance_def reserves_balance_def sample_position_def trading_function_new_def
        balance_add_value_def balance_sub_value_def balance_from_value_def balance_add_def dimension_def balance_iter_def
        balance_add_step_def balance_sub_def balance_neg_def nft_value_def sample_nft_def bt_get_def less_asset_id_def)
  ultimately obtain b1 b2 b3 where b: "position_open_balance (\<lambda>x. x) sample_nft ?p = Inr b1"
    "position_close_balance sample_nft ?i = Inr b2" "position_withdraw_balance sample_nft ?w = Inr b3" by blast
  note c = position_actions_conserve [OF b]
  have "net b1 (AssetId 13) + net b2 (AssetId 13) + net b3 (AssetId 13) = 1"
    unfolding c by (simp add: sample_nft_def)
  moreover have "net b1 (AssetId 1) + net b2 (AssetId 1) + net b3 (AssetId 1) = 0"
    unfolding c by (simp add: sample_nft_def)
  ultimately show ?thesis using b(1) by blast
qed

text \<open>redirecting flows to the opposite pair exchanges the two sides but leaves the label
  of the pair unchanged, so the result is labelled with the pair it was not asked for.\<close>

theorem redirect_keeps_old_pair:
  assumes "fl_pair fl = directed_flip pair" "dp_start pair \<noteq> dp_end pair"
  shows "\<exists>r. flows_redirect fl pair = Some r \<and> fl_pair r = directed_flip pair \<and> fl_pair r \<noteq> pair
    \<and> lambda_1 r = lambda_2 fl \<and> delta_1 r = delta_2 fl \<and> fee_1 r = fee_2 fl"
  using assms by (auto simp: flows_redirect_def Let_def directed_flip_def) (metis directed_pair.sel)+

theorem redirect_keeps_old_pair_witness:
  "\<exists>r. flows_redirect \<lparr>fl_pair = DirectedPair (AssetId 1) (AssetId 2), delta_1 = 5, delta_2 = 0, lambda_1 = 0,
       lambda_2 = 4, fee_1 = 1, fee_2 = 0\<rparr> (DirectedPair (AssetId 2) (AssetId 1)) = Some r
     \<and> fl_pair r = DirectedPair (AssetId 1) (AssetId 2) \<and> lambda_1 r = 4"
  using redirect_keeps_old_pair [of "\<lparr>fl_pair = DirectedPair (AssetId 1) (AssetId 2), delta_1 = 5, delta_2 = 0, lambda_1 = 0,
       lambda_2 = 4, fee_1 = 1, fee_2 = 0\<rparr>" "DirectedPair (AssetId 2) (AssetId 1)"]
  by (auto simp: directed_flip_def)

end
