(* ===== verification/DexState.thy ===== *)
theory DexState
  imports Position "HOL-Library.Product_Lexorder"
begin

text \<open>
  The state of the DEX component (\<open>crates/core/component/dex/src/state_key.rs\<close>), its
  parameters (\<open>params.rs\<close>), the value circuit breaker (\<open>component/circuit_breaker/value.rs\<close>)
  and the small writes of \<open>component/dex.rs\<close>.

  The chain state is one key-value store; each field below is one family of its keys, whose
  prefixes are disjoint and whose parts have fixed widths. A family that is only looked up is
  a map; one that the code iterates in key order is an ordered map from the variable part of
  the key, per fixed part: \<open>price_index s d\<close> holds the keys with the prefix of the directed
  pair \<open>d\<close>. Block-scoped objects are plain fields. ABCI events and metrics are not part of
  the state.
\<close>

type_synonym 'k oset = "('k, unit) btree"

record dex_parameters =
  is_enabled :: bool
  fixed_candidates :: "asset_id list"
  max_hops :: u32
  max_positions_per_pair :: u32
  max_execution_budget :: u32

text \<open>One execution of a candlestick: price, direct volume, swap volume.\<close>

type_synonym execution_record = "fixpoint \<times> fixpoint option \<times> fixpoint option"

record dex_state =
  positions :: "position_id \<Rightarrow> position option"
  price_index :: "directed_pair \<Rightarrow> (u8 list \<times> position_id, position) btree"
  inventory_index :: "directed_pair \<Rightarrow> (u8 list \<times> position_id) oset"
  routable_assets :: "asset_id \<Rightarrow> (u8 list, asset_id) btree"
  base_liquidity :: "directed_pair \<Rightarrow> amount option"
  position_counter :: "trading_pair \<Rightarrow> u32 option"
  dex_vcb :: "asset_id \<Rightarrow> amount option"
  volume_lookup :: "u64 \<times> position_id \<Rightarrow> amount option"
  volume_index :: "u64 \<times> asset_id \<Rightarrow> (u8 list \<times> position_id, amount) btree"
  dex_params :: "dex_parameters option"
  epoch_index :: u64
  pending_closures :: "position_id list"
  recent_assets :: "asset_id oset"
  active_pairs :: "trading_pair oset"
  block_executions :: "directed_pair \<Rightarrow> execution_record list"

definition dex_empty :: dex_state where
  "dex_empty = \<lparr>positions = \<lambda>_. None, price_index = \<lambda>_. [], inventory_index = \<lambda>_. [],
     routable_assets = \<lambda>_. [], base_liquidity = \<lambda>_. None, position_counter = \<lambda>_. None,
     dex_vcb = \<lambda>_. None, volume_lookup = \<lambda>_. None, volume_index = \<lambda>_. [], dex_params = None,
     epoch_index = 0, pending_closures = [], recent_assets = [], active_pairs = [],
     block_executions = \<lambda>_. []\<rparr>"

section \<open>Reads and writes\<close>

definition position_by_id :: "position_id \<Rightarrow> dex_state \<Rightarrow> position option" where
  "position_by_id i s = positions s i"

definition put_position :: "position_id \<Rightarrow> position \<Rightarrow> dex_state \<Rightarrow> dex_state" where
  "put_position i p s = s\<lparr>positions := (positions s)(i := Some p)\<rparr>"

interpretation position_store: kv_store positions put_position
  by unfold_locales (simp add: put_position_def)

definition get_dex_params :: "dex_state \<Rightarrow> dex_parameters result" where
  "get_dex_params s = ok_or (dex_params s) (Bail ''Missing DexParameters'')"

definition put_dex_params :: "dex_parameters \<Rightarrow> dex_state \<Rightarrow> dex_state" where
  "put_dex_params ps s = s\<lparr>dex_params := Some ps\<rparr>"

text \<open>The genesis of the component.\<close>

definition dex_init_chain :: "dex_parameters option \<Rightarrow> dex_state \<Rightarrow> dex_state" where
  "dex_init_chain app_state s = (case app_state of None \<Rightarrow> s | Some ps \<Rightarrow> put_dex_params ps s)"

definition RECENTLY_ACCESSED_ASSET_LIMIT :: nat where
  "RECENTLY_ACCESSED_ASSET_LIMIT = 10"

definition add_recently_accessed_asset :: "asset_id \<Rightarrow> asset_id list \<Rightarrow> dex_state \<Rightarrow> dex_state" where
  "add_recently_accessed_asset k fixed s =
     (if RECENTLY_ACCESSED_ASSET_LIMIT \<le> length (recent_assets s) then s
      else if k \<in> set fixed then s
      else s\<lparr>recent_assets := bt_insert k () (recent_assets s)\<rparr>)"

definition mark_trading_pair_as_active :: "trading_pair \<Rightarrow> dex_state \<Rightarrow> dex_state" where
  "mark_trading_pair_as_active t s =
     (if bt_get (active_pairs s) t = None then s\<lparr>active_pairs := bt_insert t () (active_pairs s)\<rparr> else s)"

section \<open>The value circuit breaker\<close>

definition get_dex_vcb_for_asset :: "asset_id \<Rightarrow> dex_state \<Rightarrow> amount option" where
  "get_dex_vcb_for_asset k s = dex_vcb s k"

definition put_vcb :: "asset_id \<Rightarrow> amount \<Rightarrow> dex_state \<Rightarrow> dex_state" where
  "put_vcb k a s = s\<lparr>dex_vcb := (dex_vcb s)(k := Some a)\<rparr>"

interpretation vcb_store: kv_store dex_vcb put_vcb
  by unfold_locales (simp add: put_vcb_def)

definition dex_vcb_credit :: "asset_value \<Rightarrow> dex_state \<Rightarrow> dex_state result" where
  "dex_vcb_credit v s =
     (if v_amount v = amount_zero then Inr s
      else (let prev_balance = get_or (get_dex_vcb_for_asset (v_asset v) s) 0 in
        and_then (ok_or (amount_checked_add prev_balance (v_amount v))
            (Bail ''overflowed balance while crediting value circuit breaker'')) (\<lambda>new_balance.
          Inr (put_vcb (v_asset v) new_balance s))))"

definition dex_vcb_debit :: "asset_value \<Rightarrow> dex_state \<Rightarrow> dex_state result" where
  "dex_vcb_debit v s =
     (if v_amount v = amount_zero then Inr s
      else (let prev_balance = get_or (get_dex_vcb_for_asset (v_asset v) s) 0 in
        and_then (ok_or (amount_checked_sub prev_balance (v_amount v))
            (Bail ''underflowed balance while debiting value circuit breaker'')) (\<lambda>new_balance.
          Inr (put_vcb (v_asset v) new_balance s))))"

definition vcb_balance :: "dex_state \<Rightarrow> asset_id \<Rightarrow> nat" where
  "vcb_balance s k = unat (get_or (dex_vcb s k) 0)"

definition vcb_credit_of :: "asset_id \<Rightarrow> amount \<Rightarrow> dex_state \<Rightarrow> dex_state result" where
  "vcb_credit_of k a = dex_vcb_credit \<lparr>v_amount = a, v_asset = k\<rparr>"

definition vcb_debit_of :: "asset_id \<Rightarrow> amount \<Rightarrow> dex_state \<Rightarrow> dex_state result" where
  "vcb_debit_of k a = dex_vcb_debit \<lparr>v_amount = a, v_asset = k\<rparr>"

lemma dex_vcb_credit_Inr_iff:
  "dex_vcb_credit v s = Inr t \<longleftrightarrow>
     (\<exists>a. unat a = vcb_balance s (v_asset v) + unat (v_amount v)
        \<and> t = (if v_amount v = 0 then s else put_vcb (v_asset v) a s))"
proof (cases "v_amount v = 0")
  case True
  then show ?thesis by (auto simp: dex_vcb_credit_def amount_zero_def vcb_balance_def)
next
  case False
  then show ?thesis
    by (auto simp: dex_vcb_credit_def amount_zero_def vcb_balance_def get_dex_vcb_for_asset_def
        result_simps Let_def) (metis)
qed

lemma dex_vcb_debit_Inr_iff:
  "dex_vcb_debit v s = Inr t \<longleftrightarrow>
     (\<exists>a. vcb_balance s (v_asset v) = unat (v_amount v) + unat a
        \<and> t = (if v_amount v = 0 then s else put_vcb (v_asset v) a s))"
proof (cases "v_amount v = 0")
  case True
  then show ?thesis by (auto simp: dex_vcb_debit_def amount_zero_def vcb_balance_def)
next
  case False
  then show ?thesis
    by (auto simp: dex_vcb_debit_def amount_zero_def vcb_balance_def get_dex_vcb_for_asset_def
        result_simps Let_def)
qed

lemma ex_u128_iff: "(\<exists>a :: u128. unat a = n) \<longleftrightarrow> n < 2 ^ 128"
  using u128_less unat_of_nat_small [where ?'a = 128, of n] by auto

lemma vcb_balance_put [simp]:
  "vcb_balance (put_vcb k a s) k' = (if k' = k then unat a else vcb_balance s k')"
  by (simp add: vcb_balance_def put_vcb_def)

interpretation dex_ledger: ledger vcb_balance vcb_credit_of vcb_debit_of
proof
  fix k v s t k'
  show "vcb_credit_of k v s = Inr t \<Longrightarrow> vcb_balance t k' = vcb_balance s k' + (if k' = k then unat v else 0)"
    by (auto simp: vcb_credit_of_def dex_vcb_credit_Inr_iff)
  show "vcb_debit_of k v s = Inr t \<Longrightarrow> vcb_balance s k' = vcb_balance t k' + (if k' = k then unat v else 0)"
    by (auto simp: vcb_debit_of_def dex_vcb_debit_Inr_iff)
  show "(\<exists>t. vcb_credit_of k v s = Inr t) \<longleftrightarrow> vcb_balance s k + unat v < 2 ^ 128"
    unfolding vcb_credit_of_def dex_vcb_credit_Inr_iff
    using ex_u128_iff [of "vcb_balance s k + unat v"] by simp
  show "(\<exists>t. vcb_debit_of k v s = Inr t) \<longleftrightarrow> unat v \<le> vcb_balance s k"
  proof
    assume "unat v \<le> vcb_balance s k"
    then have "\<exists>a :: amount. unat a = vcb_balance s k - unat v"
      unfolding vcb_balance_def by (intro unat_surj_le [of _ "get_or (dex_vcb s k) 0"]) simp
    with \<open>unat v \<le> vcb_balance s k\<close> have "\<exists>a :: amount. vcb_balance s k = unat v + unat a"
      by (metis le_add_diff_inverse)
    then show "\<exists>t. vcb_debit_of k v s = Inr t"
      by (auto simp: vcb_debit_of_def dex_vcb_debit_Inr_iff)
  qed (auto simp: vcb_debit_of_def dex_vcb_debit_Inr_iff)
qed

end
