(* ===== verification/PositionManager.thy ===== *)
theory PositionManager
  imports DexState
begin

text \<open>
  The position manager (\<open>crates/core/component/dex/src/component/position_manager.rs\<close> and
  \<open>position_manager/*.rs\<close>), eviction (\<open>eviction_manager.rs\<close>), the execution records of
  \<open>chandelier.rs\<close> and the action handlers of positions (\<open>action_handler/position/*.rs\<close>).

  An operation that returns an error is part of a transaction whose state changes are dropped,
  so an error carries no state. \<open>hash\<close> is the BLAKE2b of position identifiers and \<open>um\<close> the
  asset identifier of the staking token, which the code computes from its denomination.
\<close>

unbundle bit_operations_syntax

definition pair_12 :: "trading_pair \<Rightarrow> directed_pair" where
  "pair_12 t = DirectedPair (asset_1 t) (asset_2 t)"

definition pair_21 :: "trading_pair \<Rightarrow> directed_pair" where
  "pair_21 t = DirectedPair (asset_2 t) (asset_1 t)"

section \<open>The inventory index\<close>

definition inventory_key :: "amount \<Rightarrow> position_id \<Rightarrow> u8 list \<times> position_id" where
  "inventory_key inventory i = (amount_to_be_bytes inventory, i)"

definition put_inventory :: "directed_pair \<Rightarrow> u8 list \<times> position_id \<Rightarrow> dex_state \<Rightarrow> dex_state" where
  "put_inventory d k s = s\<lparr>inventory_index := (inventory_index s)(d := bt_insert k () (inventory_index s d))\<rparr>"

definition delete_inventory :: "directed_pair \<Rightarrow> u8 list \<times> position_id \<Rightarrow> dex_state \<Rightarrow> dex_state" where
  "delete_inventory d k s = s\<lparr>inventory_index := (inventory_index s)(d := bt_remove k (inventory_index s d))\<rparr>"

definition index_position_by_inventory :: "position \<Rightarrow> position_id \<Rightarrow> dex_state \<Rightarrow> dex_state result" where
  "index_position_by_inventory p i s =
     (let pair_ab = pair_12 (tf_pair (p_phi p)) in
      and_then (expect_some (reserves_for p (dp_start pair_ab))) (\<lambda>inventory_a.
      (let s = put_inventory pair_ab (inventory_key inventory_a i) s; pair_ba = directed_flip pair_ab in
      and_then (expect_some (reserves_for p (dp_start pair_ba))) (\<lambda>inventory_b.
      Inr (put_inventory pair_ba (inventory_key inventory_b i) s)))))"

definition deindex_position_by_inventory :: "position \<Rightarrow> position_id \<Rightarrow> dex_state \<Rightarrow> dex_state result" where
  "deindex_position_by_inventory p i s =
     (let pair_ab = pair_12 (tf_pair (p_phi p)) in
      and_then (expect_some (reserves_for p (dp_start pair_ab))) (\<lambda>inventory_a.
      (let s = delete_inventory pair_ab (inventory_key inventory_a i) s; pair_ba = directed_flip pair_ab in
      and_then (expect_some (reserves_for p (dp_start pair_ba))) (\<lambda>inventory_b.
      Inr (delete_inventory pair_ba (inventory_key inventory_b i) s)))))"

definition update_position_by_inventory_index ::
  "position_id \<Rightarrow> position option \<Rightarrow> position \<Rightarrow> dex_state \<Rightarrow> dex_state result" where
  "update_position_by_inventory_index i prev new s =
     and_then (case prev of None \<Rightarrow> Inr s | Some prev_lp \<Rightarrow> deindex_position_by_inventory prev_lp i s) (\<lambda>s.
       if p_state new = Opened then index_position_by_inventory new i s else Inr s)"

section \<open>The base liquidity index\<close>

text \<open>The key of the primary index under a start asset is the complement of the amount: the
  end asset is only the value.\<close>

definition routable_key :: "amount \<Rightarrow> u8 list" where
  "routable_key a_from_b = amount_to_be_bytes (NOT a_from_b)"

definition update_base_liquidity_inner ::
  "directed_pair \<Rightarrow> amount \<Rightarrow> amount \<Rightarrow> dex_state \<Rightarrow> dex_state" where
  "update_base_liquidity_inner pair old_contrib new_contrib s =
     (let prev_tally = get_or (base_liquidity s pair) 0;
          new_tally = amount_saturating_add (amount_saturating_sub prev_tally old_contrib) new_contrib
      in if prev_tally = new_tally then s
         else (let ra = bt_remove (routable_key prev_tally) (routable_assets s (dp_start pair));
                   ra = bt_insert (routable_key new_tally) (dp_end pair) ra
               in s\<lparr>routable_assets := (routable_assets s)(dp_start pair := ra),
                    base_liquidity := (base_liquidity s)(pair := Some new_tally)\<rparr>))"

text \<open>The contribution of a position to the two directions of its pair: nothing unless it is
  opened.\<close>

definition base_contribution :: "directed_pair \<Rightarrow> position \<Rightarrow> (amount \<times> amount) result" where
  "base_contribution pair_ab p =
     (case p_state p of
        Opened \<Rightarrow>
          and_then (expect_some (reserves_for p (dp_start pair_ab))) (\<lambda>a.
          and_then (expect_some (reserves_for p (dp_end pair_ab))) (\<lambda>b. Inr (a, b)))
      | _ \<Rightarrow> Inr (0, 0))"

definition update_asset_by_base_liquidity_index ::
  "position_id \<Rightarrow> position option \<Rightarrow> position \<Rightarrow> dex_state \<Rightarrow> dex_state result" where
  "update_asset_by_base_liquidity_index i prev new s =
     (let pair_ab = pair_12 (tf_pair (p_phi new)) in
      and_then (case prev of None \<Rightarrow> Inr (0, 0) | Some prev \<Rightarrow> base_contribution pair_ab prev) (\<lambda>(prev_a, prev_b).
      and_then (base_contribution pair_ab new) (\<lambda>(new_a, new_b).
      if prev_a = 0 \<and> new_a = 0 \<and> prev_b = 0 \<and> new_b = 0 then Inr s
      else Inr (update_base_liquidity_inner (directed_flip pair_ab) prev_b new_b
                 (update_base_liquidity_inner pair_ab prev_a new_a s)))))"

section \<open>The position counter\<close>

definition get_position_count :: "trading_pair \<Rightarrow> dex_state \<Rightarrow> u32" where
  "get_position_count t s = get_or (position_counter s t) 0"

definition put_position_count :: "trading_pair \<Rightarrow> u32 \<Rightarrow> dex_state \<Rightarrow> dex_state" where
  "put_position_count t n s = s\<lparr>position_counter := (position_counter s)(t := Some n)\<rparr>"

interpretation counter_store: kv_store position_counter put_position_count
  by unfold_locales (simp add: put_position_count_def)

definition increment_position_counter :: "trading_pair \<Rightarrow> dex_state \<Rightarrow> (u32 \<times> dex_state) result" where
  "increment_position_counter t s =
     and_then (ok_or (checked_add (get_position_count t s) 1)
         (Bail ''incrementing position counter would overflow'')) (\<lambda>new_total.
       Inr (new_total, put_position_count t new_total s))"

definition decrement_position_counter :: "trading_pair \<Rightarrow> dex_state \<Rightarrow> (u32 \<times> dex_state) result" where
  "decrement_position_counter t s =
     and_then (ok_or (checked_sub (get_position_count t s) 1)
         (Bail ''decrementing position counter would underflow'')) (\<lambda>new_total.
       Inr (new_total, put_position_count t new_total s))"

definition update_trading_pair_position_counter ::
  "position option \<Rightarrow> position \<Rightarrow> dex_state \<Rightarrow> dex_state result" where
  "update_trading_pair_position_counter prev new s =
     (let trading_pair = tf_pair (p_phi new) in
      case (map_option p_state prev, p_state new) of
        (None, Opened) \<Rightarrow> and_then (increment_position_counter trading_pair s) (\<lambda>(_, s). Inr s)
      | (Some Opened, Closed) \<Rightarrow> and_then (decrement_position_counter trading_pair s) (\<lambda>(_, s). Inr s)
      | _ \<Rightarrow> Inr s)"

section \<open>The price index\<close>

definition price_key :: "bare_trading_function \<Rightarrow> position_id \<Rightarrow> (u8 list \<times> position_id) result" where
  "price_key btf i = and_then (effective_price_key_bytes btf) (\<lambda>k. Inr (k, i))"

definition put_price :: "directed_pair \<Rightarrow> u8 list \<times> position_id \<Rightarrow> position \<Rightarrow> dex_state \<Rightarrow> dex_state" where
  "put_price d k p s = s\<lparr>price_index := (price_index s)(d := bt_insert k p (price_index s d))\<rparr>"

definition delete_price :: "directed_pair \<Rightarrow> u8 list \<times> position_id \<Rightarrow> dex_state \<Rightarrow> dex_state" where
  "delete_price d k s = s\<lparr>price_index := (price_index s)(d := bt_remove k (price_index s d))\<rparr>"

definition deindex_position_by_price :: "position \<Rightarrow> position_id \<Rightarrow> dex_state \<Rightarrow> dex_state result" where
  "deindex_position_by_price p i s =
     (let pair = tf_pair (p_phi p); phi12 = tf_component (p_phi p); phi21 = bare_flip (tf_component (p_phi p)) in
      and_then (price_key phi12 i) (\<lambda>k12.
      (let s = delete_price (pair_12 pair) k12 s in
      and_then (price_key phi21 i) (\<lambda>k21.
      Inr (delete_price (pair_21 pair) k21 s)))))"

definition index_position_by_price :: "position \<Rightarrow> position_id \<Rightarrow> dex_state \<Rightarrow> dex_state result" where
  "index_position_by_price p i s =
     (let pair = tf_pair (p_phi p) in
      and_then
        (if r2 (p_reserves p) \<noteq> 0 then
           and_then (price_key (tf_component (p_phi p)) i) (\<lambda>k. Inr (put_price (pair_12 pair) k p s))
         else Inr s) (\<lambda>s.
      if r1 (p_reserves p) \<noteq> 0 then
        and_then (price_key (bare_flip (tf_component (p_phi p))) i) (\<lambda>k. Inr (put_price (pair_21 pair) k p s))
      else Inr s))"

definition update_position_by_price_index ::
  "position_id \<Rightarrow> position option \<Rightarrow> position \<Rightarrow> dex_state \<Rightarrow> dex_state result" where
  "update_position_by_price_index i prev new s =
     and_then (case prev of None \<Rightarrow> Inr s | Some prev_lp \<Rightarrow> deindex_position_by_price prev_lp i s) (\<lambda>s.
       if p_state new = Opened then index_position_by_price new i s else Inr s)"

text \<open>\<open>positions_by_price\<close> and \<open>best_position\<close>: the entries of the prefix in key order.\<close>

definition positions_by_price :: "directed_pair \<Rightarrow> dex_state \<Rightarrow> (position_id \<times> position) list" where
  "positions_by_price d s = map (\<lambda>((_, i), lp). (i, lp)) (price_index s d)"

definition best_position :: "directed_pair \<Rightarrow> dex_state \<Rightarrow> (position_id \<times> position) option" where
  "best_position d s = (case positions_by_price d s of [] \<Rightarrow> None | x # _ \<Rightarrow> Some x)"

section \<open>The volume index of staking token pairs\<close>

definition volume_key :: "amount \<Rightarrow> position_id \<Rightarrow> u8 list \<times> position_id" where
  "volume_key v i = (amount_to_be_bytes (NOT v), i)"

definition get_volume_for_position :: "position_id \<Rightarrow> dex_state \<Rightarrow> amount" where
  "get_volume_for_position i s = get_or (volume_lookup s (epoch_index s, i)) 0"

definition update_volume :: "u64 \<Rightarrow> asset_id \<Rightarrow> position_id \<Rightarrow> amount \<Rightarrow> amount \<Rightarrow> dex_state \<Rightarrow> dex_state" where
  "update_volume epoch k i old_volume new_volume s =
     (let vi = bt_remove (volume_key old_volume i) (volume_index s (epoch, k));
          vi = bt_insert (volume_key new_volume i) new_volume vi
      in s\<lparr>volume_lookup := (volume_lookup s)((epoch, i) := Some new_volume),
           volume_index := (volume_index s)((epoch, k) := vi)\<rparr>)"

definition update_volume_index ::
  "asset_id \<Rightarrow> position_id \<Rightarrow> position option \<Rightarrow> position \<Rightarrow> dex_state \<Rightarrow> dex_state result" where
  "update_volume_index um i prev new s =
     (if \<not> matches_input (p_phi new) um then Inr s
      else case prev of
        None \<Rightarrow> Inr s
      | Some prev_state \<Rightarrow>
          if p_state new \<noteq> Opened then Inr s
          else (let pair = tf_pair (p_phi new);
                    other_asset = (if asset_1 pair \<noteq> um then asset_1 pair else asset_2 pair)
            in and_then (expect_some (flows_redirect (position_flows new prev_state) (DirectedPair um other_asset)))
              (\<lambda>fl. let old_volume = get_volume_for_position i s;
                        new_volume = amount_saturating_add old_volume (lambda_1 fl)
                 in Inr (update_volume (epoch_index s) other_asset i old_volume new_volume s))))"

section \<open>Writing a position\<close>

definition guard_invalid_transitions :: "position option \<Rightarrow> position \<Rightarrow> unit result" where
  "guard_invalid_transitions prev new =
     (case prev of
        None \<Rightarrow> ensure (p_state new = Opened) ''fresh positions MUST start in the Opened state''
      | Some prev_lp \<Rightarrow>
          (case (p_state prev_lp, p_state new) of
             (Opened, Opened) \<Rightarrow> Inr ()
           | (Opened, Closed) \<Rightarrow> Inr ()
           | (Closed, Closed) \<Rightarrow> Inr ()
           | (Closed, Withdrawn sequence) \<Rightarrow>
               ensure (sequence = 0) ''withdrawn positions must have their sequence start at zero''
           | (Withdrawn old_seq, Withdrawn new_seq) \<Rightarrow>
               ensure (new_seq = old_seq + 1 \<or> new_seq = old_seq) ''must increase by exactly one''
           | _ \<Rightarrow> Inl (Bail ''invalid transition'')))"

definition update_position ::
  "asset_id \<Rightarrow> position_id \<Rightarrow> position option \<Rightarrow> position \<Rightarrow> dex_state \<Rightarrow> (position \<times> dex_state) result" where
  "update_position um i prev new s =
     and_then (guard_invalid_transitions prev new) (\<lambda>_.
     and_then (update_position_by_inventory_index i prev new s) (\<lambda>s.
     and_then (update_asset_by_base_liquidity_index i prev new s) (\<lambda>s.
     and_then (update_trading_pair_position_counter prev new s) (\<lambda>s.
     and_then (update_position_by_price_index i prev new s) (\<lambda>s.
     and_then (update_volume_index um i prev new s) (\<lambda>s.
     Inr (new, put_position i new s)))))))"

section \<open>The operations of the position manager\<close>

definition close_position_by_id :: "asset_id \<Rightarrow> position_id \<Rightarrow> dex_state \<Rightarrow> dex_state result" where
  "close_position_by_id um i s =
     and_then (ok_or (position_by_id i s) (Bail ''could not find position to close'')) (\<lambda>prev_state.
     and_then (ensure (p_state prev_state = Opened \<or> p_state prev_state = Closed)
       ''attempted to close a position, expected Opened or Closed'') (\<lambda>_.
     if p_state prev_state = Closed then Inr s
     else and_then (update_position um i (Some prev_state) (prev_state\<lparr>p_state := Closed\<rparr>) s) (\<lambda>(_, s). Inr s)))"

definition queue_close_position :: "position_id \<Rightarrow> dex_state \<Rightarrow> dex_state result" where
  "queue_close_position i s =
     and_then (ok_or (position_by_id i s) (Bail ''could not find position to close'')) (\<lambda>current_state.
     if p_state current_state = Opened then Inr (s\<lparr>pending_closures := pending_closures s @ [i]\<rparr>)
     else Inr s)"

definition close_queued_positions :: "asset_id \<Rightarrow> dex_state \<Rightarrow> dex_state result" where
  "close_queued_positions um s =
     and_then (try_fold (close_position_by_id um) (pending_closures s) s) (\<lambda>s.
     Inr (s\<lparr>pending_closures := []\<rparr>))"

definition open_position ::
  "(u8 list \<Rightarrow> u8 list) \<Rightarrow> asset_id \<Rightarrow> position \<Rightarrow> dex_state \<Rightarrow> dex_state result" where
  "open_position hash um p s =
     (let i = position_id_of hash p in
      if p_state p \<noteq> Opened then Inl (Bail ''attempted to open a position with a state besides Opened'')
      else if position_by_id i s \<noteq> None then
        Inl (Bail ''attempted to open a position with an ID which already exists'')
      else
        and_then (dex_vcb_credit (reserves_1 p) s) (\<lambda>s.
        and_then (dex_vcb_credit (reserves_2 p) s) (\<lambda>s.
        and_then (get_dex_params s) (\<lambda>params.
        (let s = add_recently_accessed_asset (asset_1 (tf_pair (p_phi p))) (fixed_candidates params) s;
             s = add_recently_accessed_asset (asset_2 (tf_pair (p_phi p))) (fixed_candidates params) s;
             s = mark_trading_pair_as_active (tf_pair (p_phi p)) s
         in and_then (update_position um i None p s) (\<lambda>(_, s). Inr s))))))"

text \<open>The execution record of \<open>chandelier.rs\<close>. An error is only logged by the caller; the
  comparison is the one of \<open>Option\<close>, where \<open>None\<close> is least.\<close>

definition opt_amount_gt :: "amount option \<Rightarrow> amount option \<Rightarrow> bool" where
  "opt_amount_gt x y = (case (x, y) of (Some a, Some b) \<Rightarrow> a > b | (Some _, None) \<Rightarrow> True | (None, _) \<Rightarrow> False)"

definition record_position_execution :: "position \<Rightarrow> position \<Rightarrow> dex_state \<Rightarrow> dex_state result" where
  "record_position_execution prev new s =
     (if prev = new then Inr s
      else (let trading_pair = tf_pair (p_phi prev);
                directed =
                  (if opt_amount_gt (reserves_for new (asset_1 trading_pair)) (reserves_for prev (asset_1 trading_pair))
                   then DirectedPair (asset_1 trading_pair) (asset_2 trading_pair)
                   else DirectedPair (asset_2 trading_pair) (asset_1 trading_pair))
        in and_then (ok_or (orient_start (p_phi prev) (dp_end directed)) (Bail ''position missing an end'')) (\<lambda>btf.
           and_then (effective_price btf) (\<lambda>execution_price.
           and_then (ok_or (reserves_for new (dp_start directed)) (Bail ''missing reserves'')) (\<lambda>a.
           and_then (ok_or (reserves_for prev (dp_start directed)) (Bail ''missing reserves'')) (\<lambda>b.
           Inr (s\<lparr>block_executions := (block_executions s)
             (directed := block_executions s directed @ [(execution_price, Some (fp_from_amount (a - b)), None)])\<rparr>)))))))"

text \<open>\<open>Result::ok\<close> after an error, but not after a panic.\<close>

definition ignore_error :: "'a \<Rightarrow> 'a result \<Rightarrow> 'a result" where
  "ignore_error a r = (case r of Inr b \<Rightarrow> Inr b | Inl Panic \<Rightarrow> Inl Panic | Inl _ \<Rightarrow> Inr a)"

definition position_execution ::
  "(u8 list \<Rightarrow> u8 list) \<Rightarrow> asset_id \<Rightarrow> position \<Rightarrow> dex_state \<Rightarrow> (position \<times> dex_state) result" where
  "position_execution hash um new s =
     (let i = position_id_of hash new in
      and_then (ok_or (position_by_id i s) (Bail ''withdrew from unknown position'')) (\<lambda>prev.
      if prev = new then
        and_then (ensure (p_state prev = Opened \<or> p_state prev = Closed) ''attempted to do a no-op execution'')
          (\<lambda>_. Inr (new, s))
      else
        and_then (ensure (p_state prev = Opened) ''attempted to execute against a non-opened position'') (\<lambda>_.
        and_then (ensure (p_state new = Opened) ''supplied post-execution state, expected Opened'') (\<lambda>_.
        (let new = (if close_on_fill new \<and> (r1 (p_reserves new) = 0 \<or> r2 (p_reserves new) = 0)
                    then new\<lparr>p_state := Closed\<rparr> else new)
         in and_then (ignore_error s (record_position_execution prev new s)) (\<lambda>s.
            update_position um i (Some prev) new s))))))"

definition withdraw_position ::
  "asset_id \<Rightarrow> position_id \<Rightarrow> u64 \<Rightarrow> dex_state \<Rightarrow> (balance \<times> dex_state) result" where
  "withdraw_position um i sequence s =
     and_then (ok_or (position_by_id i s) (Bail ''withdrew from unknown position'')) (\<lambda>prev_state.
     and_then
       (if sequence = 0 then
          (if p_state prev_state \<noteq> Closed then Inl (Bail ''attempted to withdraw position, expected Closed'')
           else Inr ())
        else
          (case p_state prev_state of
             Withdrawn current_sequence \<Rightarrow>
               (if current_sequence + 1 \<noteq> sequence then Inl (Bail ''attempted to withdraw with wrong sequence'')
                else Inr ())
           | _ \<Rightarrow> Inl (Bail ''attempted to withdraw position, expected Withdrawn''))) (\<lambda>_.
     and_then (reserves_balance (p_reserves prev_state) (tf_pair (p_phi prev_state))) (\<lambda>reserves.
     and_then (dex_vcb_debit (reserves_1 prev_state) s) (\<lambda>s.
     and_then (dex_vcb_debit (reserves_2 prev_state) s) (\<lambda>s.
     and_then (update_position um i (Some prev_state)
         (prev_state\<lparr>p_state := Withdrawn sequence, p_reserves := reserves_zero\<rparr>) s) (\<lambda>(_, s).
     Inr (reserves, s)))))))"

definition reward_position ::
  "asset_id \<Rightarrow> position_id \<Rightarrow> amount \<Rightarrow> dex_state \<Rightarrow> dex_state result" where
  "reward_position um i reward s =
     and_then (ok_or (position_by_id i s) (Bail ''rewarding unknown position'')) (\<lambda>prev_state.
     (let pair = tf_pair (p_phi prev_state); rs = p_reserves prev_state; finish = (\<lambda>rs'.
        and_then (update_position um i (Some prev_state) (prev_state\<lparr>p_reserves := rs'\<rparr>) s) (\<lambda>(_, s).
        dex_vcb_credit \<lparr>v_amount = reward, v_asset = um\<rparr> s))
      in if asset_1 pair = um then
           and_then (expect_some (amount_checked_add (r1 rs) reward)) (\<lambda>a. finish (rs\<lparr>r1 := a\<rparr>))
         else if asset_2 pair = um then
           and_then (expect_some (amount_checked_add (r2 rs) reward)) (\<lambda>a. finish (rs\<lparr>r2 := a\<rparr>))
         else Inr s))"

section \<open>Eviction\<close>

text \<open>A set of identifiers collected from a stream, iterated in increasing order.\<close>

definition overlap_ids :: "position_id list \<Rightarrow> position_id list \<Rightarrow> position_id list" where
  "overlap_ids xs ys = sort (remdups (filter (\<lambda>i. i \<in> set ys) xs))"

definition evict_pair :: "asset_id \<Rightarrow> u32 \<Rightarrow> trading_pair \<Rightarrow> dex_state \<Rightarrow> dex_state result" where
  "evict_pair um max_positions pair s =
     (let overhead_size = saturating_sub (get_position_count pair s) max_positions in
      if overhead_size = 0 then Inr s
      else (let pair_ab = pair_12 pair; pair_ba = directed_flip pair_ab;
                overhead_ab = take (unat overhead_size) (map (snd \<circ> fst) (inventory_index s pair_ab));
                overhead_ba = take (unat overhead_size) (map (snd \<circ> fst) (inventory_index s pair_ba))
            in try_fold (close_position_by_id um) (overlap_ids overhead_ab overhead_ba) s))"

definition evict_positions :: "asset_id \<Rightarrow> dex_state \<Rightarrow> dex_state result" where
  "evict_positions um s =
     and_then (get_dex_params s) (\<lambda>params.
       try_fold (evict_pair um (max_positions_per_pair params)) (map fst (active_pairs s)) s)"

section \<open>The action handlers\<close>

definition position_open_check_stateless :: "position \<Rightarrow> unit result" where
  "position_open_check_stateless p =
     and_then (position_check_stateless p) (\<lambda>_.
       if p_state p \<noteq> Opened then Inl (Bail ''attempted to open a position with a state besides Opened'') else Inr ())"

definition position_open_execute ::
  "(u8 list \<Rightarrow> u8 list) \<Rightarrow> asset_id \<Rightarrow> position \<Rightarrow> dex_state \<Rightarrow> dex_state result" where
  "position_open_execute hash um p s =
     and_then (get_dex_params s) (\<lambda>params.
     and_then (ensure (is_enabled params) ''Dex MUST be enabled to open positions.'') (\<lambda>_.
     open_position hash um p s))"

definition position_close_execute :: "position_id \<Rightarrow> dex_state \<Rightarrow> dex_state result" where
  "position_close_execute i s = queue_close_position i s"

text \<open>\<open>commit\<close> is the balance commitment with a zero blinding factor.\<close>

definition position_withdraw_execute ::
  "(balance \<Rightarrow> 'c) \<Rightarrow> asset_id \<Rightarrow> position_id \<Rightarrow> 'c \<Rightarrow> u64 \<Rightarrow> dex_state \<Rightarrow> dex_state result" where
  "position_withdraw_execute commit um i reserves_commitment sequence s =
     and_then (withdraw_position um i sequence s) (\<lambda>(actual_reserves, s).
       if reserves_commitment \<noteq> commit actual_reserves then Inl (Bail ''reserves commitment is incorrect'')
       else Inr s)"

end
