(* ===== verification/PositionIndexes.thy ===== *)
theory PositionIndexes
  imports PositionManager
begin

text \<open>
  The indexes of the position manager. \<open>position_index\<close> is the contract that the inventory
  index and the price index share: an ordered map per directed pair whose entries are those
  that each stored position calls for. It is interpreted on both; the counter and the base
  liquidity index are sums over the opened positions and are treated after them.
\<close>

section \<open>What each index update writes\<close>

lemma write_self:
  "\<exists>x. s = s\<lparr>inventory_index := x\<rparr>" "\<exists>x. s = s\<lparr>price_index := x\<rparr>" "\<exists>x. s = s\<lparr>position_counter := x\<rparr>"
  "\<exists>x y. s = s\<lparr>routable_assets := x, base_liquidity := y\<rparr>"
  "\<exists>x y. s = s\<lparr>volume_lookup := x, volume_index := y\<rparr>" for s :: dex_state
  by (rule exI [of _ "inventory_index s"], simp, rule exI [of _ "price_index s"], simp,
      rule exI [of _ "position_counter s"], simp,
      rule exI [of _ "routable_assets s"], rule exI [of _ "base_liquidity s"], simp,
      rule exI [of _ "volume_lookup s"], rule exI [of _ "volume_index s"], simp)

lemma update_inventory_shape:
  assumes "update_position_by_inventory_index i prev new s = Inr t"
  shows "\<exists>x. t = s\<lparr>inventory_index := x\<rparr>"
proof -
  have idx: "\<exists>x. t = s\<lparr>inventory_index := x\<rparr>" if "index_position_by_inventory p i s = Inr t" for p s t
    using that by (auto simp: index_position_by_inventory_def Let_def result_simps put_inventory_def)
  have deidx: "\<exists>x. t = s\<lparr>inventory_index := x\<rparr>" if "deindex_position_by_inventory p i s = Inr t" for p s t
    using that by (auto simp: deindex_position_by_inventory_def Let_def result_simps delete_inventory_def)
  from assms obtain u where u: "(case prev of None \<Rightarrow> Inr s | Some p \<Rightarrow> deindex_position_by_inventory p i s) = Inr u"
    and t: "(if p_state new = Opened then index_position_by_inventory new i u else Inr u) = Inr t"
    by (auto simp: update_position_by_inventory_index_def result_simps)
  have "\<exists>x. u = s\<lparr>inventory_index := x\<rparr>"
    using u write_self(1) [of s] by (cases prev) (simp_all add: deidx)
  moreover have "\<exists>x. t = u\<lparr>inventory_index := x\<rparr>"
    using t write_self(1) [of u] idx by (cases "p_state new = Opened") simp_all
  ultimately show ?thesis by auto
qed

lemma base_liquidity_inner_shape:
  "\<exists>x y. update_base_liquidity_inner d a b s = s\<lparr>routable_assets := x, base_liquidity := y\<rparr>"
  using write_self(4) [of s] by (simp add: update_base_liquidity_inner_def Let_def) blast

lemma update_liquidity_shape:
  assumes "update_asset_by_base_liquidity_index i prev new s = Inr t"
  shows "\<exists>x y. t = s\<lparr>routable_assets := x, base_liquidity := y\<rparr>"
proof -
  have two: "\<exists>x y. update_base_liquidity_inner d' a' b' (update_base_liquidity_inner d a b s)
      = s\<lparr>routable_assets := x, base_liquidity := y\<rparr>" for d a b d' a' b'
  proof -
    obtain x y where 1: "update_base_liquidity_inner d a b s = s\<lparr>routable_assets := x, base_liquidity := y\<rparr>"
      using base_liquidity_inner_shape by blast
    obtain x' y' where "update_base_liquidity_inner d' a' b' (s\<lparr>routable_assets := x, base_liquidity := y\<rparr>)
        = s\<lparr>routable_assets := x, base_liquidity := y\<rparr>\<lparr>routable_assets := x', base_liquidity := y'\<rparr>"
      using base_liquidity_inner_shape by blast
    then have "update_base_liquidity_inner d' a' b' (update_base_liquidity_inner d a b s)
        = s\<lparr>routable_assets := x', base_liquidity := y'\<rparr>" unfolding 1 by simp
    then show ?thesis by blast
  qed
  from assms obtain pa pb na nb where
    "(if pa = 0 \<and> na = 0 \<and> pb = 0 \<and> nb = 0 then Inr s
      else Inr (update_base_liquidity_inner (directed_flip (pair_12 (tf_pair (p_phi new)))) pb nb
                 (update_base_liquidity_inner (pair_12 (tf_pair (p_phi new))) pa na s))) = (Inr t :: dex_state result)"
    unfolding update_asset_by_base_liquidity_index_def Let_def and_then_prod_Inr_iff by blast
  then show ?thesis using two write_self(4) [of s] by (auto split: if_splits)
qed

lemma update_counter_shape:
  "update_trading_pair_position_counter prev new s = Inr t \<Longrightarrow> \<exists>x. t = s\<lparr>position_counter := x\<rparr>"
  using write_self(3) [of s]
  by (auto simp: update_trading_pair_position_counter_def Let_def result_simps increment_position_counter_def
      decrement_position_counter_def put_position_count_def split: option.splits position_state.splits)

lemma update_price_shape:
  assumes "update_position_by_price_index i prev new s = Inr t"
  shows "\<exists>x. t = s\<lparr>price_index := x\<rparr>"
proof -
  have idx: "\<exists>x. t = s\<lparr>price_index := x\<rparr>" if "index_position_by_price p i s = Inr t" for p s t
    using that write_self(2) [of s] 
    by (auto simp: index_position_by_price_def Let_def result_simps put_price_def split: if_splits)
  have deidx: "\<exists>x. t = s\<lparr>price_index := x\<rparr>" if "deindex_position_by_price p i s = Inr t" for p s t
    using that by (auto simp: deindex_position_by_price_def Let_def result_simps delete_price_def)
  from assms obtain u where u: "(case prev of None \<Rightarrow> Inr s | Some p \<Rightarrow> deindex_position_by_price p i s) = Inr u"
    and t: "(if p_state new = Opened then index_position_by_price new i u else Inr u) = Inr t"
    by (auto simp: update_position_by_price_index_def result_simps)
  have "\<exists>x. u = s\<lparr>price_index := x\<rparr>"
    using u write_self(2) [of s] by (cases prev) (simp_all add: deidx)
  moreover have "\<exists>x. t = u\<lparr>price_index := x\<rparr>"
    using t write_self(2) [of u] idx by (cases "p_state new = Opened") simp_all
  ultimately show ?thesis by auto
qed

lemma update_volume_shape:
  "update_volume_index um i prev new s = Inr t \<Longrightarrow> \<exists>x y. t = s\<lparr>volume_lookup := x, volume_index := y\<rparr>"
  using write_self(5) [of s]
  by (auto simp: update_volume_index_def Let_def result_simps update_volume_def split: option.splits if_splits)

section \<open>Indexes that reflect the stored positions\<close>

locale position_index =
  fixes idx :: "dex_state \<Rightarrow> directed_pair \<Rightarrow> (u8 list \<times> position_id, 'v) btree"
    and entry :: "position \<Rightarrow> directed_pair \<Rightarrow> u8 list \<Rightarrow> 'v option"
    and update :: "position_id \<Rightarrow> position option \<Rightarrow> position \<Rightarrow> dex_state \<Rightarrow> dex_state result"
    and ok :: "position \<Rightarrow> bool"
  assumes update_wf: "update i prev new s = Inr t \<Longrightarrow> (\<And>d. bt_wf (idx s d)) \<Longrightarrow> bt_wf (idx t d)"
    and update_get: "update i prev new s = Inr t \<Longrightarrow> (\<And>d. bt_wf (idx s d)) \<Longrightarrow>
      (\<And>p. prev = Some p \<Longrightarrow> ok p) \<Longrightarrow> ok new \<Longrightarrow>
      (\<And>d k. bt_get (idx s d) (k, i) = (case prev of None \<Rightarrow> None | Some p \<Rightarrow> entry p d k)) \<Longrightarrow>
      bt_get (idx t d) (k, j) = (if j = i then entry new d k else bt_get (idx s d) (k, j))"
    and entry_opened: "entry p d k = Some v \<Longrightarrow> p_state p = Opened"
begin

definition reflects :: "(position_id \<Rightarrow> position option) \<Rightarrow> dex_state \<Rightarrow> bool" where
  "reflects ps s \<longleftrightarrow> (\<forall>d. bt_wf (idx s d)) \<and>
     (\<forall>d k i. bt_get (idx s d) (k, i) = (case ps i of None \<Rightarrow> None | Some p \<Rightarrow> entry p d k))"

lemma reflectsD:
  assumes "reflects ps s"
  shows "bt_wf (idx s d)" "bt_get (idx s d) (k, i) = (case ps i of None \<Rightarrow> None | Some p \<Rightarrow> entry p d k)"
  using assms by (auto simp: reflects_def)

lemma reflects_update:
  assumes "reflects ps s" "update i (ps i) new s = Inr t" "\<And>p. ps i = Some p \<Longrightarrow> ok p" "ok new"
  shows "reflects (ps(i := Some new)) t"
  unfolding reflects_def
proof (intro conjI allI)
  show "bt_wf (idx t d)" for d
    by (rule update_wf [OF assms(2)]) (rule reflectsD [OF assms(1)])
  show "bt_get (idx t d) (k, j) = (case (ps(i := Some new)) j of None \<Rightarrow> None | Some p \<Rightarrow> entry p d k)" for d k j
    using update_get [OF assms(2) reflectsD(1) [OF assms(1)] assms(3,4) reflectsD(2) [OF assms(1)], of d k j]
    by (simp add: reflectsD(2) [OF assms(1)])
qed

lemma reflects_cong: "idx s = idx t \<Longrightarrow> reflects ps s = reflects ps t"
  by (simp add: reflects_def)

text \<open>Only opened positions are indexed, each entry under its own key, in key order.\<close>

lemma in_index_iff:
  assumes "reflects ps s"
  shows "((k, i), v) \<in> set (idx s d) \<longleftrightarrow> (\<exists>p. ps i = Some p \<and> entry p d k = Some v)"
  using btree.in_entries_iff [OF reflectsD(1) [OF assms]] reflectsD(2) [OF assms]
  by (auto split: option.splits)

lemma in_index_opened:
  "reflects ps s \<Longrightarrow> ((k, i), v) \<in> set (idx s d) \<Longrightarrow> \<exists>p. ps i = Some p \<and> p_state p = Opened"
  using in_index_iff entry_opened by blast

lemma index_sorted:
  "reflects ps s \<Longrightarrow> sorted_wrt (<) (map fst (idx s d))"
  using btree.sorted_entries [OF reflectsD(1)] by blast

end

section \<open>The inventory index\<close>

definition distinct_assets :: "position \<Rightarrow> bool" where
  "distinct_assets p \<longleftrightarrow> asset_1 (tf_pair (p_phi p)) \<noteq> asset_2 (tf_pair (p_phi p))"

lemma pair_flip [simp]: "directed_flip (pair_12 t) = pair_21 t" "directed_flip (pair_21 t) = pair_12 t"
  by (simp_all add: pair_12_def pair_21_def directed_flip_def)

lemma pair_12_neq_21: "distinct_assets p \<Longrightarrow> pair_12 (tf_pair (p_phi p)) \<noteq> pair_21 (tf_pair (p_phi p))"
  by (simp add: pair_12_def pair_21_def distinct_assets_def)

lemma pair_simps [simp]:
  "dp_start (pair_12 t) = asset_1 t" "dp_end (pair_12 t) = asset_2 t"
  "dp_start (pair_21 t) = asset_2 t" "dp_end (pair_21 t) = asset_1 t"
  by (simp_all add: pair_12_def pair_21_def)

lemma reserves_for_ends:
  "reserves_for p (asset_1 (tf_pair (p_phi p))) = Some (r1 (p_reserves p))"
  "distinct_assets p \<Longrightarrow> reserves_for p (asset_2 (tf_pair (p_phi p))) = Some (r2 (p_reserves p))"
  by (auto simp: reserves_for_def distinct_assets_def)

definition inventory_entry :: "position \<Rightarrow> directed_pair \<Rightarrow> u8 list \<Rightarrow> unit option" where
  "inventory_entry p d k =
     (if p_state p = Opened \<and>
         (d = pair_12 (tf_pair (p_phi p)) \<and> k = amount_to_be_bytes (r1 (p_reserves p)) \<or>
          d = pair_21 (tf_pair (p_phi p)) \<and> k = amount_to_be_bytes (r2 (p_reserves p)))
      then Some () else None)"

lemma index_inventory_eq:
  "distinct_assets p \<Longrightarrow> index_position_by_inventory p i s =
     Inr (put_inventory (pair_21 (tf_pair (p_phi p))) (amount_to_be_bytes (r2 (p_reserves p)), i)
           (put_inventory (pair_12 (tf_pair (p_phi p))) (amount_to_be_bytes (r1 (p_reserves p)), i) s))"
  by (simp add: index_position_by_inventory_def Let_def reserves_for_ends inventory_key_def)

lemma deindex_inventory_eq:
  "distinct_assets p \<Longrightarrow> deindex_position_by_inventory p i s =
     Inr (delete_inventory (pair_21 (tf_pair (p_phi p))) (amount_to_be_bytes (r2 (p_reserves p)), i)
           (delete_inventory (pair_12 (tf_pair (p_phi p))) (amount_to_be_bytes (r1 (p_reserves p)), i) s))"
  by (simp add: deindex_position_by_inventory_def Let_def reserves_for_ends inventory_key_def)

lemma put_inventory_get [simp]:
  "inventory_index (put_inventory d k s) e =
     (if e = d then bt_insert k () (inventory_index s d) else inventory_index s e)"
  "inventory_index (delete_inventory d k s) e =
     (if e = d then bt_remove k (inventory_index s d) else inventory_index s e)"
  by (simp_all add: put_inventory_def delete_inventory_def)

lemma inventory_steps_wf:
  assumes "\<And>d. bt_wf (inventory_index s d)"
  shows "index_position_by_inventory p i s = Inr t \<Longrightarrow> bt_wf (inventory_index t d)"
    and "deindex_position_by_inventory p i s = Inr t \<Longrightarrow> bt_wf (inventory_index t d)"
  using assms
  by (auto simp: index_position_by_inventory_def deindex_position_by_inventory_def Let_def result_simps)

lemma update_inventory_wf:
  assumes "update_position_by_inventory_index i prev new s = Inr t" "\<And>d. bt_wf (inventory_index s d)"
  shows "bt_wf (inventory_index t d)"
proof -
  from assms(1) obtain u where u: "(case prev of None \<Rightarrow> Inr s | Some p \<Rightarrow> deindex_position_by_inventory p i s) = Inr u"
    and t: "(if p_state new = Opened then index_position_by_inventory new i u else Inr u) = Inr t"
    by (auto simp: update_position_by_inventory_index_def result_simps)
  have "bt_wf (inventory_index u d)" for d
    using u assms(2) inventory_steps_wf(2) [OF assms(2)] by (cases prev) auto
  then show ?thesis using t inventory_steps_wf(1) [of u new i t d] by (auto split: if_splits)
qed

lemma update_inventory_get:
  assumes upd: "update_position_by_inventory_index i prev new s = Inr t"
    and wf: "\<And>d. bt_wf (inventory_index s d)"
    and ok: "\<And>p. prev = Some p \<Longrightarrow> distinct_assets p" "distinct_assets new"
    and prev: "\<And>d k. bt_get (inventory_index s d) (k, i) = (case prev of None \<Rightarrow> None | Some p \<Rightarrow> inventory_entry p d k)"
  shows "bt_get (inventory_index t d) (k, j) =
     (if j = i then inventory_entry new d k else bt_get (inventory_index s d) (k, j))"
proof -
  from upd obtain u where u: "(case prev of None \<Rightarrow> Inr s | Some p \<Rightarrow> deindex_position_by_inventory p i s) = Inr u"
    and t: "(if p_state new = Opened then index_position_by_inventory new i u else Inr u) = Inr t"
    by (auto simp: update_position_by_inventory_index_def result_simps)
  have wfu: "bt_wf (inventory_index u d)" for d
    using u wf inventory_steps_wf(2) [OF wf] by (cases prev) auto
  have gu: "bt_get (inventory_index u d) (k, j) = (if j = i then None else bt_get (inventory_index s d) (k, j))" for d k j
  proof (cases prev)
    case None
    with u prev show ?thesis by simp
  next
    case (Some p)
    with u ok(1) have u: "u = delete_inventory (pair_21 (tf_pair (p_phi p))) (amount_to_be_bytes (r2 (p_reserves p)), i)
           (delete_inventory (pair_12 (tf_pair (p_phi p))) (amount_to_be_bytes (r1 (p_reserves p)), i) s)"
      by (simp add: deindex_inventory_eq)
    show ?thesis using wf prev [of d k] Some pair_12_neq_21 [OF ok(1) [OF Some]]
      by (auto simp: u inventory_entry_def)
  qed
  show ?thesis
  proof (cases "p_state new = Opened")
    case True
    with t ok(2) have t: "t = put_inventory (pair_21 (tf_pair (p_phi new))) (amount_to_be_bytes (r2 (p_reserves new)), i)
           (put_inventory (pair_12 (tf_pair (p_phi new))) (amount_to_be_bytes (r1 (p_reserves new)), i) u)"
      by (simp add: index_inventory_eq)
    show ?thesis using wfu gu True pair_12_neq_21 [OF ok(2)] by (auto simp: t inventory_entry_def)
  next
    case False
    with t gu show ?thesis by (simp add: inventory_entry_def)
  qed
qed

interpretation inventory: position_index inventory_index inventory_entry
  update_position_by_inventory_index distinct_assets
proof (unfold_locales)
  fix p d k v
  show "inventory_entry p d k = Some v \<Longrightarrow> p_state p = Opened"
    by (auto simp: inventory_entry_def split: if_splits)
qed (rule update_inventory_wf update_inventory_get; assumption)+

section \<open>The price index\<close>

definition price_entry :: "position \<Rightarrow> directed_pair \<Rightarrow> u8 list \<Rightarrow> position option" where
  "price_entry p d k =
     (if p_state p = Opened \<and>
         (d = pair_12 (tf_pair (p_phi p)) \<and> r2 (p_reserves p) \<noteq> 0
            \<and> effective_price_key_bytes (tf_component (p_phi p)) = Inr k \<or>
          d = pair_21 (tf_pair (p_phi p)) \<and> r1 (p_reserves p) \<noteq> 0
            \<and> effective_price_key_bytes (bare_flip (tf_component (p_phi p))) = Inr k)
      then Some p else None)"

lemma put_price_get [simp]:
  "price_index (put_price d k p s) e = (if e = d then bt_insert k p (price_index s d) else price_index s e)"
  "price_index (delete_price d k s) e = (if e = d then bt_remove k (price_index s d) else price_index s e)"
  by (simp_all add: put_price_def delete_price_def)

lemma price_steps_wf:
  assumes "\<And>d. bt_wf (price_index s d)"
  shows "index_position_by_price p i s = Inr t \<Longrightarrow> bt_wf (price_index t d)"
    and "deindex_position_by_price p i s = Inr t \<Longrightarrow> bt_wf (price_index t d)"
  using assms
  by (auto simp: index_position_by_price_def deindex_position_by_price_def Let_def result_simps price_key_def
      split: if_splits)

lemma deindex_price_get:
  assumes "deindex_position_by_price p i s = Inr u" "\<And>d. bt_wf (price_index s d)" "distinct_assets p"
    and "\<And>d k. bt_get (price_index s d) (k, i) = price_entry p d k"
  shows "bt_get (price_index u d) (k, j) = (if j = i then None else bt_get (price_index s d) (k, j))"
proof -
  from assms(1) obtain k12 k21 where k: "effective_price_key_bytes (tf_component (p_phi p)) = Inr k12"
    "effective_price_key_bytes (bare_flip (tf_component (p_phi p))) = Inr k21"
    "u = delete_price (pair_21 (tf_pair (p_phi p))) (k21, i) (delete_price (pair_12 (tf_pair (p_phi p))) (k12, i) s)"
    by (auto simp: deindex_position_by_price_def Let_def result_simps price_key_def)
  show ?thesis using assms(2) assms(4) [of d k] pair_12_neq_21 [OF assms(3)] k(1,2)
    by (auto simp: k(3) price_entry_def)
qed

lemma index_price_get:
  assumes "index_position_by_price p i s = Inr u" "\<And>d. bt_wf (price_index s d)" "distinct_assets p"
    and "p_state p = Opened" "\<And>d k. bt_get (price_index s d) (k, i) = None"
  shows "bt_get (price_index u d) (k, j) = (if j = i then price_entry p d k else bt_get (price_index s d) (k, j))"
proof -
  let ?t = "tf_pair (p_phi p)" and ?f = "tf_component (p_phi p)"
  from assms(1) obtain w
    where w: "(if r2 (p_reserves p) \<noteq> 0 then and_then (price_key ?f i) (\<lambda>k. Inr (put_price (pair_12 ?t) k p s)) else Inr s) = Inr w"
      and u: "(if r1 (p_reserves p) \<noteq> 0 then and_then (price_key (bare_flip ?f) i) (\<lambda>k. Inr (put_price (pair_21 ?t) k p w)) else Inr w) = Inr u"
    by (auto simp only: index_position_by_price_def Let_def and_then_Inr_iff)
  have gw: "bt_wf (price_index w d) \<and> bt_get (price_index w d) (k, j) =
      (if j = i \<and> d = pair_12 ?t \<and> r2 (p_reserves p) \<noteq> 0 \<and> effective_price_key_bytes ?f = Inr k then Some p
       else bt_get (price_index s d) (k, j))" for d k j
    using w assms(2) by (auto simp: result_simps price_key_def split: if_splits)
  have "bt_get (price_index u d) (k, j) =
      (if j = i \<and> d = pair_21 ?t \<and> r1 (p_reserves p) \<noteq> 0 \<and> effective_price_key_bytes (bare_flip ?f) = Inr k
       then Some p else bt_get (price_index w d) (k, j))"
    using u gw by (auto simp: result_simps price_key_def split: if_splits)
  with gw [of d k j] show ?thesis
    using assms(4) assms(5) [of d k] by (auto simp: price_entry_def)
qed

lemma update_price_wf:
  assumes "update_position_by_price_index i prev new s = Inr t" "\<And>d. bt_wf (price_index s d)"
  shows "bt_wf (price_index t d)"
proof -
  from assms(1) obtain u where u: "(case prev of None \<Rightarrow> Inr s | Some p \<Rightarrow> deindex_position_by_price p i s) = Inr u"
    and t: "(if p_state new = Opened then index_position_by_price new i u else Inr u) = Inr t"
    by (auto simp: update_position_by_price_index_def result_simps)
  have "bt_wf (price_index u d)" for d
    using u assms(2) price_steps_wf(2) [OF assms(2)] by (cases prev) auto
  then show ?thesis using t price_steps_wf(1) [of u new i t d] by (auto split: if_splits)
qed

lemma update_price_get:
  assumes upd: "update_position_by_price_index i prev new s = Inr t"
    and wf: "\<And>d. bt_wf (price_index s d)"
    and ok: "\<And>p. prev = Some p \<Longrightarrow> distinct_assets p" "distinct_assets new"
    and prev: "\<And>d k. bt_get (price_index s d) (k, i) = (case prev of None \<Rightarrow> None | Some p \<Rightarrow> price_entry p d k)"
  shows "bt_get (price_index t d) (k, j) =
     (if j = i then price_entry new d k else bt_get (price_index s d) (k, j))"
proof -
  from upd obtain u where u: "(case prev of None \<Rightarrow> Inr s | Some p \<Rightarrow> deindex_position_by_price p i s) = Inr u"
    and t: "(if p_state new = Opened then index_position_by_price new i u else Inr u) = Inr t"
    by (auto simp: update_position_by_price_index_def result_simps)
  have wfu: "bt_wf (price_index u d)" for d
    using u wf price_steps_wf(2) [OF wf] by (cases prev) auto
  have gu: "bt_get (price_index u d) (k, j) = (if j = i then None else bt_get (price_index s d) (k, j))" for d k j
  proof (cases prev)
    case None
    with u prev show ?thesis by simp
  next
    case (Some p)
    with u have "deindex_position_by_price p i s = Inr u" by simp
    then show ?thesis by (rule deindex_price_get) (use Some wf ok prev in auto)
  qed
  show ?thesis
  proof (cases "p_state new = Opened")
    case True
    with t have "index_position_by_price new i u = Inr t" by simp
    from index_price_get [OF this wfu ok(2) True, of d k j] gu show ?thesis by simp
  next
    case False
    with t gu show ?thesis by (simp add: price_entry_def)
  qed
qed

interpretation price: position_index price_index price_entry
  update_position_by_price_index distinct_assets
proof (unfold_locales)
  fix p d k v
  show "price_entry p d k = Some v \<Longrightarrow> p_state p = Opened"
    by (auto simp: price_entry_def split: if_splits)
qed (rule update_price_wf update_price_get; assumption)+

end
