(* ===== verification/PositionInvariants.thy ===== *)
theory PositionInvariants
  imports PositionIndexes
begin

text \<open>
  The invariant of the position manager: both ordered indexes reflect the stored positions,
  the counter of a pair counts its opened positions, the base liquidity of a directed pair is
  the sum of the opened reserves, and the value circuit breaker covers what all positions hold.
  Every operation keeps it, and under it closing and withdrawing do not fail.
\<close>

section \<open>Sums over the stored positions\<close>

definition tally :: "('v \<Rightarrow> nat) \<Rightarrow> ('k \<Rightarrow> 'v option) \<Rightarrow> nat" where
  "tally f ps = (\<Sum>i \<in> dom ps. f (the (ps i)))"

definition prev_value :: "('v \<Rightarrow> nat) \<Rightarrow> 'v option \<Rightarrow> nat" where
  "prev_value f prev = (case prev of None \<Rightarrow> 0 | Some p \<Rightarrow> f p)"

lemma prev_value_simps [simp]: "prev_value f None = 0" "prev_value f (Some p) = f p"
  by (simp_all add: prev_value_def)

lemma tally_update:
  assumes "finite (dom ps)"
  shows "tally f (ps(i := Some new)) + prev_value f (ps i) = tally f ps + f new"
proof -
  have rest: "(\<Sum>j \<in> dom ps - {i}. f (the ((ps(i := Some new)) j))) = (\<Sum>j \<in> dom ps - {i}. f (the (ps j)))"
    by (rule sum.cong) auto
  have "tally f (ps(i := Some new)) = f new + (\<Sum>j \<in> dom ps - {i}. f (the (ps j)))"
    unfolding tally_def using assms by (simp add: sum.insert_remove rest)
  moreover have "tally f ps = prev_value f (ps i) + (\<Sum>j \<in> dom ps - {i}. f (the (ps j)))"
  proof (cases "ps i")
    case None
    then have "dom ps - {i} = dom ps" by auto
    with None show ?thesis by (simp add: tally_def)
  next
    case (Some p)
    then have "i \<in> dom ps" by auto
    with assms Some show ?thesis by (simp add: tally_def sum.remove [of "dom ps" i])
  qed
  ultimately show ?thesis by simp
qed

lemma tally_member: "finite (dom ps) \<Longrightarrow> ps i = Some p \<Longrightarrow> f p \<le> tally f ps"
  unfolding tally_def by (metis domI member_le_sum option.sel zero_le)

lemma tally_mono: "(\<And>p. f p \<le> g p) \<Longrightarrow> tally f ps \<le> tally g ps"
  unfolding tally_def by (rule sum_mono) simp

definition opened_count :: "trading_pair \<Rightarrow> position \<Rightarrow> nat" where
  "opened_count t p = (if p_state p = Opened \<and> tf_pair (p_phi p) = t then 1 else 0)"

definition liquidity_of :: "directed_pair \<Rightarrow> position \<Rightarrow> nat" where
  "liquidity_of d p =
     (if p_state p = Opened then
        (if d = pair_12 (tf_pair (p_phi p)) then unat (r1 (p_reserves p)) else 0)
        + (if d = pair_21 (tf_pair (p_phi p)) then unat (r2 (p_reserves p)) else 0)
      else 0)"

definition holdings :: "asset_id \<Rightarrow> position \<Rightarrow> nat" where
  "holdings k p =
     (if k = asset_1 (tf_pair (p_phi p)) then unat (r1 (p_reserves p)) else 0)
     + (if k = asset_2 (tf_pair (p_phi p)) then unat (r2 (p_reserves p)) else 0)"

lemma liquidity_le_holdings: "liquidity_of d p \<le> holdings (dp_start d) p"
  by (auto simp: liquidity_of_def holdings_def pair_12_def pair_21_def)

lemma holdings_closed [simp]: "holdings k (p\<lparr>p_state := st\<rparr>) = holdings k p"
  by (simp add: holdings_def)

section \<open>The counter and the base liquidity\<close>

lemma guard_cases:
  assumes "guard_invalid_transitions prev new = Inr u"
  obtains "prev = None" "p_state new = Opened"
  | p where "prev = Some p" "p_state p = Opened" "p_state new = Opened"
  | p where "prev = Some p" "p_state p = Opened" "p_state new = Closed"
  | p where "prev = Some p" "p_state p = Closed" "p_state new = Closed"
  | p where "prev = Some p" "p_state p = Closed" "p_state new = Withdrawn 0"
  | p n m where "prev = Some p" "p_state p = Withdrawn n" "p_state new = Withdrawn m" "m = n + 1 \<or> m = n"
  using assms
  by (auto simp: guard_invalid_transitions_def ensure_Inr_iff split: option.splits position_state.splits)

lemma update_counter_spec:
  assumes "guard_invalid_transitions prev new = Inr u" "\<And>p. prev = Some p \<Longrightarrow> tf_pair (p_phi p) = tf_pair (p_phi new)"
  shows "update_trading_pair_position_counter prev new s = Inr t \<longleftrightarrow>
    (if prev = None then \<exists>n. unat n = unat (get_position_count (tf_pair (p_phi new)) s) + 1
        \<and> t = put_position_count (tf_pair (p_phi new)) n s
     else if map_option p_state prev = Some Opened \<and> p_state new = Closed then
        \<exists>n. unat n + 1 = unat (get_position_count (tf_pair (p_phi new)) s)
        \<and> t = put_position_count (tf_pair (p_phi new)) n s
     else t = s)"
  using assms(1)
  by (cases rule: guard_cases)
    (auto simp: update_trading_pair_position_counter_def increment_position_counter_def
      decrement_position_counter_def result_simps Let_def, metis+)

lemma update_counter_get:
  assumes "guard_invalid_transitions prev new = Inr u" "\<And>p. prev = Some p \<Longrightarrow> tf_pair (p_phi p) = tf_pair (p_phi new)"
    and "update_trading_pair_position_counter prev new s = Inr t"
  shows "unat (get_position_count tp t) + prev_value (opened_count tp) prev
    = unat (get_position_count tp s) + opened_count tp new"
  using assms(1)
proof (cases rule: guard_cases)
  case 1
  with update_counter_spec [OF assms(1,2)] assms(3) show ?thesis
    by (auto simp: opened_count_def get_position_count_def put_position_count_def)
next
  case (3 p)
  with update_counter_spec [OF assms(1,2)] assms(2) [OF 3(1)] assms(3) show ?thesis
    by (auto simp: opened_count_def get_position_count_def put_position_count_def)
qed (use update_counter_spec [OF assms(1,2)] assms(2,3) in \<open>auto simp: opened_count_def\<close>)

lemma liquidity_inner_get:
  assumes "unat (get_or (base_liquidity s d) 0) + unat b < 2 ^ 128 + unat a" "unat a \<le> unat (get_or (base_liquidity s d) 0)"
  shows "unat (get_or (base_liquidity (update_base_liquidity_inner d a b s) e) 0) + (if e = d then unat a else 0)
    = unat (get_or (base_liquidity s e) 0) + (if e = d then unat b else 0)"
proof -
  let ?prev = "get_or (base_liquidity s d) 0"
  let ?new = "amount_saturating_add (amount_saturating_sub ?prev a) b"
  have "unat ?new = unat ?prev - unat a + unat b"
    using assms by (simp add: unat_arith_simps)
  with assms(2) show ?thesis
    by (auto simp: update_base_liquidity_inner_def Let_def)
qed

lemma base_contribution_eq:
  assumes "distinct_assets p" "pair = pair_12 (tf_pair (p_phi p))"
  shows "base_contribution pair p =
    Inr (if p_state p = Opened then (r1 (p_reserves p), r2 (p_reserves p)) else (0, 0))"
  using assms by (auto simp: base_contribution_def reserves_for_ends split: position_state.splits)

lemma update_liquidity_total:
  assumes "distinct_assets new" "\<And>p. prev = Some p \<Longrightarrow> tf_pair (p_phi p) = tf_pair (p_phi new)"
  shows "\<exists>t. update_asset_by_base_liquidity_index i prev new s = Inr t"
proof -
  have "distinct_assets p" if "prev = Some p" for p
    using assms(1) assms(2) [OF that] by (simp add: distinct_assets_def)
  then show ?thesis using assms
    by (auto simp: update_asset_by_base_liquidity_index_def Let_def base_contribution_eq split: option.splits)
qed

lemma update_liquidity_get:
  assumes upd: "update_asset_by_base_liquidity_index i prev new s = Inr t"
    and ok: "distinct_assets new" "\<And>p. prev = Some p \<Longrightarrow> tf_pair (p_phi p) = tf_pair (p_phi new)"
    and bound: "\<And>d. unat (get_or (base_liquidity s d) 0) + liquidity_of d new < 2 ^ 128 + prev_value (liquidity_of d) prev"
    and prev: "\<And>d. prev_value (liquidity_of d) prev \<le> unat (get_or (base_liquidity s d) 0)"
  shows "unat (get_or (base_liquidity t e) 0) + prev_value (liquidity_of e) prev
    = unat (get_or (base_liquidity s e) 0) + liquidity_of e new"
proof -
  let ?d = "pair_12 (tf_pair (p_phi new))" and ?e = "pair_21 (tf_pair (p_phi new))"
  have okp: "distinct_assets p" if "prev = Some p" for p
    using ok(1) ok(2) [OF that] by (simp add: distinct_assets_def)
  have ne: "?d \<noteq> ?e" by (rule pair_12_neq_21 [OF ok(1)])
  define pa pb where "pa = (case prev of Some p \<Rightarrow> if p_state p = Opened then r1 (p_reserves p) else 0 | None \<Rightarrow> 0)"
    and "pb = (case prev of Some p \<Rightarrow> if p_state p = Opened then r2 (p_reserves p) else 0 | None \<Rightarrow> 0)"
  define na nb where "na = (if p_state new = Opened then r1 (p_reserves new) else 0)"
    and "nb = (if p_state new = Opened then r2 (p_reserves new) else 0)"
  have contrib: "prev_value (liquidity_of f) prev = (if f = ?d then unat pa else 0) + (if f = ?e then unat pb else 0)"
    "liquidity_of f new = (if f = ?d then unat na else 0) + (if f = ?e then unat nb else 0)" for f
    using ok(2) by (auto simp: liquidity_of_def pa_def pb_def na_def nb_def split: option.splits)
  have "(case prev of None \<Rightarrow> Inr (0, 0) | Some prev \<Rightarrow> base_contribution ?d prev) = Inr (pa, pb)"
    "base_contribution ?d new = Inr (na, nb)"
    using ok okp by (auto simp: base_contribution_eq pa_def pb_def na_def nb_def split: option.splits)
  with upd have t: "t = update_base_liquidity_inner ?e pb nb (update_base_liquidity_inner ?d pa na s) \<or>
      pa = 0 \<and> na = 0 \<and> pb = 0 \<and> nb = 0 \<and> t = s"
    by (simp add: update_asset_by_base_liquidity_index_def Let_def split: if_splits)
  let ?u = "update_base_liquidity_inner ?d pa na s"
  have u: "unat (get_or (base_liquidity ?u f) 0) + (if f = ?d then unat pa else 0)
      = unat (get_or (base_liquidity s f) 0) + (if f = ?d then unat na else 0)" for f
    using bound [of ?d] prev [of ?d] ne by (intro liquidity_inner_get) (simp_all add: contrib)
  have "unat (get_or (base_liquidity (update_base_liquidity_inner ?e pb nb ?u) e) 0) + (if e = ?e then unat pb else 0)
      = unat (get_or (base_liquidity ?u e) 0) + (if e = ?e then unat nb else 0)"
    using bound [of ?e] prev [of ?e] ne u [of ?e] by (intro liquidity_inner_get) (simp_all add: contrib)
  with u [of e] t show ?thesis
    by (auto simp: contrib split: if_splits)
qed

section \<open>The invariant\<close>

definition position_ok :: "position \<Rightarrow> bool" where
  "position_ok p \<longleftrightarrow> distinct_assets p \<and> tradable (tf_component (p_phi p))"

text \<open>The indexes, and the solvency of the value circuit breaker.\<close>

definition indexes_ok :: "dex_state \<Rightarrow> bool" where
  "indexes_ok s \<longleftrightarrow> finite (dom (positions s))
     \<and> (\<forall>i p. positions s i = Some p \<longrightarrow> position_ok p)
     \<and> inventory.reflects (positions s) s \<and> price.reflects (positions s) s
     \<and> (\<forall>t. unat (get_position_count t s) = tally (opened_count t) (positions s))
     \<and> (\<forall>d. unat (get_or (base_liquidity s d) 0) = tally (liquidity_of d) (positions s))"

definition solvent :: "dex_state \<Rightarrow> bool" where
  "solvent s \<longleftrightarrow> (\<forall>k. tally (holdings k) (positions s) \<le> vcb_balance s k)"

lemma indexes_okD:
  assumes "indexes_ok s"
  shows "finite (dom (positions s))" "positions s i = Some p \<Longrightarrow> position_ok p"
    "inventory.reflects (positions s) s" "price.reflects (positions s) s"
    "unat (get_position_count t s) = tally (opened_count t) (positions s)"
    "unat (get_or (base_liquidity s d) 0) = tally (liquidity_of d) (positions s)"
  using assms by (auto simp: indexes_ok_def)

text \<open>Fields that the operations on one position do not touch.\<close>

definition same_frame :: "dex_state \<Rightarrow> dex_state \<Rightarrow> bool" where
  "same_frame s t \<longleftrightarrow> dex_vcb t = dex_vcb s \<and> dex_params t = dex_params s \<and> epoch_index t = epoch_index s
     \<and> pending_closures t = pending_closures s \<and> recent_assets t = recent_assets s
     \<and> active_pairs t = active_pairs s \<and> block_executions t = block_executions s"

lemma same_frame_trans: "same_frame s t \<Longrightarrow> same_frame t u \<Longrightarrow> same_frame s u"
  by (simp add: same_frame_def)

lemma same_frame_refl [simp]: "same_frame s s"
  by (simp add: same_frame_def)

lemma update_position_steps:
  assumes "update_position um i prev new s = Inr (p, t)"
  obtains s1 s2 s3 s4 s5 where "guard_invalid_transitions prev new = Inr ()"
    "update_position_by_inventory_index i prev new s = Inr s1"
    "update_asset_by_base_liquidity_index i prev new s1 = Inr s2"
    "update_trading_pair_position_counter prev new s2 = Inr s3"
    "update_position_by_price_index i prev new s3 = Inr s4"
    "update_volume_index um i prev new s4 = Inr s5" "p = new" "t = put_position i new s5"
  using assms by (auto simp: update_position_def and_then_Inr_iff)

lemma update_position_frame:
  assumes "update_position um i prev new s = Inr (p, t)"
  shows "p = new" "positions t = (positions s)(i := Some new)" "same_frame s t"
    "guard_invalid_transitions prev new = Inr ()"
  by (rule update_position_steps [OF assms];
      auto dest!: update_inventory_shape update_liquidity_shape update_counter_shape update_price_shape
        update_volume_shape simp: put_position_def same_frame_def)+

lemma update_position_indexes:
  assumes upd: "update_position um i (positions s i) new s = Inr (p, t)" and ok: "indexes_ok s"
    and new: "position_ok new" "\<And>p. positions s i = Some p \<Longrightarrow> tf_pair (p_phi p) = tf_pair (p_phi new)"
    and bound: "\<And>d. tally (liquidity_of d) ((positions s)(i := Some new)) < 2 ^ 128"
  shows "indexes_ok t"
proof -
  note inv = indexes_okD [OF ok]
  have prev: "positions s i = Some p \<Longrightarrow> distinct_assets p" for p using inv(2) by (simp add: position_ok_def)
  have newd: "distinct_assets new" using new(1) by (simp add: position_ok_def)
  let ?ps = "(positions s)(i := Some new)"
  obtain s1 s2 s3 s4 s5 where steps: "guard_invalid_transitions (positions s i) new = Inr ()"
    "update_position_by_inventory_index i (positions s i) new s = Inr s1"
    "update_asset_by_base_liquidity_index i (positions s i) new s1 = Inr s2"
    "update_trading_pair_position_counter (positions s i) new s2 = Inr s3"
    "update_position_by_price_index i (positions s i) new s3 = Inr s4"
    "update_volume_index um i (positions s i) new s4 = Inr s5" "t = put_position i new s5"
    by (rule update_position_steps [OF upd]) blast
  from update_inventory_shape [OF steps(2)] obtain x1 where s1: "s1 = s\<lparr>inventory_index := x1\<rparr>" ..
  from update_liquidity_shape [OF steps(3)] obtain x2 y2 where s2: "s2 = s1\<lparr>routable_assets := x2, base_liquidity := y2\<rparr>" by blast
  from update_counter_shape [OF steps(4)] obtain x3 where s3: "s3 = s2\<lparr>position_counter := x3\<rparr>" ..
  from update_price_shape [OF steps(5)] obtain x4 where s4: "s4 = s3\<lparr>price_index := x4\<rparr>" ..
  from update_volume_shape [OF steps(6)] obtain x5 y5 where s5: "s5 = s4\<lparr>volume_lookup := x5, volume_index := y5\<rparr>" by blast
  have fin: "finite (dom ?ps)" using inv(1) by simp
  have inventory: "inventory.reflects ?ps t"
    using inventory.reflects_update [OF inv(3) steps(2) prev newd]
    by (subst inventory.reflects_cong [of t s1]) (simp_all add: steps(7) put_position_def s2 s3 s4 s5)
  have "price.reflects (positions s) s3"
    using inv(4) by (subst price.reflects_cong [of s3 s]) (simp_all add: s1 s2 s3)
  from price.reflects_update [OF this steps(5) prev newd] have price: "price.reflects ?ps t"
    by (subst price.reflects_cong [of t s4]) (simp_all add: steps(7) put_position_def s5)
  have count: "unat (get_position_count tp t) = tally (opened_count tp) ?ps" for tp
    using update_counter_get [OF steps(1) new(2) steps(4), of tp] tally_update [OF inv(1), of "opened_count tp" i new]
      inv(5) [of tp]
    by (simp add: get_position_count_def steps(7) put_position_def s1 s2 s3 s4 s5)
  have le: "prev_value (liquidity_of d) (positions s i) \<le> tally (liquidity_of d) (positions s)" for d
    using tally_member [OF inv(1)] by (cases "positions s i") auto
  have liq: "unat (get_or (base_liquidity t d) 0) = tally (liquidity_of d) ?ps" for d
  proof -
    have base: "unat (get_or (base_liquidity s1 d) 0) = tally (liquidity_of d) (positions s)" for d
      using inv(6) by (simp add: s1)
    have "unat (get_or (base_liquidity s2 d) 0) + prev_value (liquidity_of d) (positions s i)
        = unat (get_or (base_liquidity s1 d) 0) + liquidity_of d new"
    proof (rule update_liquidity_get [OF steps(3) newd new(2)])
      show "unat (get_or (base_liquidity s1 d) 0) + liquidity_of d new
          < 2 ^ 128 + prev_value (liquidity_of d) (positions s i)" for d
        using bound [of d] tally_update [OF inv(1), of "liquidity_of d" i new] base [of d] by linarith
      show "prev_value (liquidity_of d) (positions s i) \<le> unat (get_or (base_liquidity s1 d) 0)" for d
        using le [of d] base [of d] by simp
    qed
    with tally_update [OF inv(1), of "liquidity_of d" i new] base [of d]
    show ?thesis by (simp add: steps(7) put_position_def s3 s4 s5)
  qed
  have "positions t = ?ps" using update_position_frame(2) [OF upd] .
  with fin inventory price count liq new(1) inv(2) show ?thesis
    by (auto simp: indexes_ok_def)
qed

section \<open>Updates do not fail\<close>

lemma price_key_total:
  assumes "tradable f"
  shows "\<exists>k. price_key f i = Inr k"
  by (rule effective_prices_total [OF assms]) (simp add: price_key_def effective_price_key_bytes_def)

lemma update_inventory_total:
  assumes "distinct_assets new" "\<And>p. prev = Some p \<Longrightarrow> distinct_assets p"
  shows "\<exists>t. update_position_by_inventory_index i prev new s = Inr t"
  using assms
  by (auto simp: update_position_by_inventory_index_def index_inventory_eq deindex_inventory_eq split: option.splits)

lemma update_price_total:
  assumes "tradable (tf_component (p_phi new))" "\<And>p. prev = Some p \<Longrightarrow> tradable (tf_component (p_phi p))"
  shows "\<exists>t. update_position_by_price_index i prev new s = Inr t"
proof -
  have flip: "tradable f \<Longrightarrow> \<exists>k. price_key (bare_flip f) i = Inr k" for f
    using price_key_total [of "bare_flip f"] by (simp add: tradable_flip)
  have de: "\<exists>t. deindex_position_by_price p i s = Inr t" if "tradable (tf_component (p_phi p))" for p s
    using price_key_total [OF that, of i] flip [OF that] by (auto simp: deindex_position_by_price_def Let_def)
  have ix: "\<exists>t. index_position_by_price new i s = Inr t" for s
    using price_key_total [OF assms(1), of i] flip [OF assms(1)] by (auto simp: index_position_by_price_def Let_def)
  show ?thesis using de ix assms(2)
    by (auto simp: update_position_by_price_index_def split: option.splits) (metis and_then.simps(2))
qed

lemma redirect_total:
  assumes "distinct_assets new" "matches_input (p_phi new) um"
  obtains fl where "flows_redirect (position_flows new q)
      (DirectedPair um (if asset_1 (tf_pair (p_phi new)) \<noteq> um then asset_1 (tf_pair (p_phi new))
         else asset_2 (tf_pair (p_phi new)))) = Some fl"
proof -
  let ?t = "tf_pair (p_phi new)"
  have pair: "fl_pair (position_flows new q) = DirectedPair (asset_1 ?t) (asset_2 ?t)"
    by (simp add: position_flows_def from_phi_and_reserves_def Let_def split: prod.split)
  have redirect: "\<exists>r. flows_redirect fl d = Some r" if "fl_pair fl = d \<or> fl_pair fl = directed_flip d" for fl d
    using that by (auto simp: flows_redirect_def Let_def)
  have "fl_pair (position_flows new q) = DirectedPair um (if asset_1 ?t \<noteq> um then asset_1 ?t else asset_2 ?t) \<or>
      fl_pair (position_flows new q) = directed_flip (DirectedPair um (if asset_1 ?t \<noteq> um then asset_1 ?t else asset_2 ?t))"
    using assms unfolding pair matches_input_def distinct_assets_def directed_flip_def by auto
  from redirect [OF this] that show ?thesis by blast
qed

lemma update_volume_total:
  assumes "distinct_assets new"
  shows "\<exists>t. update_volume_index um i prev new s = Inr t"
proof (cases "prev \<noteq> None \<and> matches_input (p_phi new) um \<and> p_state new = Opened")
  case True
  then obtain q where q: "prev = Some q" by auto
  from True have m: "matches_input (p_phi new) um" "p_state new = Opened" by simp_all
  obtain fl where fl: "flows_redirect (position_flows new q)
      (DirectedPair um (if asset_1 (tf_pair (p_phi new)) \<noteq> um then asset_1 (tf_pair (p_phi new))
         else asset_2 (tf_pair (p_phi new)))) = Some fl"
    by (rule redirect_total [OF assms m(1)])
  show ?thesis unfolding update_volume_index_def Let_def q option.case fl using m by simp
next
  case False
  then show ?thesis by (auto simp: update_volume_index_def split: option.splits)
qed

lemma update_position_total:
  assumes ok: "indexes_ok s" and new: "position_ok new" "\<And>p. positions s i = Some p \<Longrightarrow> tf_pair (p_phi p) = tf_pair (p_phi new)"
    and guard: "guard_invalid_transitions (positions s i) new = Inr ()"
    and room: "positions s i = None \<Longrightarrow> unat (get_position_count (tf_pair (p_phi new)) s) + 1 < 2 ^ 32"
  shows "\<exists>t. update_position um i (positions s i) new s = Inr (new, t)"
proof -
  note inv = indexes_okD [OF ok]
  have prev: "distinct_assets p" "tradable (tf_component (p_phi p))" if "positions s i = Some p" for p
    using inv(2) [OF that] by (simp_all add: position_ok_def)
  have newd: "distinct_assets new" "tradable (tf_component (p_phi new))" using new(1) by (simp_all add: position_ok_def)
  obtain s1 where s1: "update_position_by_inventory_index i (positions s i) new s = Inr s1"
    using update_inventory_total [OF newd(1) prev(1)] by blast
  obtain s2 where s2: "update_asset_by_base_liquidity_index i (positions s i) new s1 = Inr s2"
    using update_liquidity_total [OF newd(1) new(2)] by blast
  have cnt: "get_position_count tp s2 = get_position_count tp s" for tp
    using update_inventory_shape [OF s1] update_liquidity_shape [OF s2] by (auto simp: get_position_count_def)
  have "\<exists>s3. update_trading_pair_position_counter (positions s i) new s2 = Inr s3"
  proof -
    have "\<exists>n :: u32. unat n = unat (get_position_count (tf_pair (p_phi new)) s) + 1" if "positions s i = None"
      using room [OF that] by (intro exI [of _ "of_nat (unat (get_position_count (tf_pair (p_phi new)) s) + 1)"])
        (simp add: unat_arith_simps del: of_nat_add of_nat_Suc of_nat_unat)
    moreover have "\<exists>n :: u32. unat n + 1 = unat (get_position_count (tf_pair (p_phi new)) s)"
      if "positions s i = Some p" "p_state p = Opened" for p
    proof -
      have "1 \<le> unat (get_position_count (tf_pair (p_phi new)) s)"
        using tally_member [OF inv(1) that(1), of "opened_count (tf_pair (p_phi new))"] inv(5) that(2) new(2) [OF that(1)]
        by (simp add: opened_count_def)
      moreover from this obtain n :: u32 where "unat n = unat (get_position_count (tf_pair (p_phi new)) s) - 1"
        using unat_surj_le [of "unat (get_position_count (tf_pair (p_phi new)) s) - 1"
            "get_position_count (tf_pair (p_phi new)) s"] by auto
      ultimately show ?thesis by (intro exI [of _ n]) simp
    qed
    ultimately show ?thesis
      using update_counter_spec [OF guard new(2), where s = s2] cnt by (cases "positions s i") auto
  qed
  then obtain s3 where s3: "update_trading_pair_position_counter (positions s i) new s2 = Inr s3" ..
  obtain s4 where s4: "update_position_by_price_index i (positions s i) new s3 = Inr s4"
    using update_price_total [OF newd(2) prev(2)] by blast
  obtain s5 where s5: "update_volume_index um i (positions s i) new s4 = Inr s5"
    using update_volume_total [OF newd(1)] by blast
  from guard s1 s2 s3 s4 s5 show ?thesis by (simp add: update_position_def)
qed

section \<open>Solvency and the bound on liquidity\<close>

lemma liquidity_bound:
  assumes "\<And>k. tally (holdings k) ps \<le> b k" "\<And>k. b k < 2 ^ 128"
  shows "tally (liquidity_of d) ps < 2 ^ 128"
proof -
  have "tally (liquidity_of d) ps \<le> tally (holdings (dp_start d)) ps"
    by (rule tally_mono) (rule liquidity_le_holdings)
  with assms(1) [of "dp_start d"] assms(2) [of "dp_start d"] show ?thesis by linarith
qed

lemma vcb_less: "vcb_balance s k < 2 ^ 128"
  unfolding vcb_balance_def by (rule u128_less)

lemma solvent_update:
  assumes "positions t = (positions s)(i := Some new)" "finite (dom (positions s))"
    and "\<And>k. prev_value (holdings k) (positions s i) + vcb_balance t k = holdings k new + vcb_balance s k"
    and "solvent s"
  shows "solvent t"
  unfolding solvent_def
proof
  fix k
  have "tally (holdings k) (positions s) \<le> vcb_balance s k" using assms(4) by (simp add: solvent_def)
  with tally_update [OF assms(2), of "holdings k" i new] assms(1) assms(3) [of k]
  show "tally (holdings k) (positions t) \<le> vcb_balance t k" by simp
qed

lemma vcb_balance_frame: "same_frame s t \<Longrightarrow> vcb_balance t = vcb_balance s"
  by (simp add: same_frame_def vcb_balance_def fun_eq_iff)

section \<open>Closing\<close>

lemma close_position_spec:
  assumes "indexes_ok s" "solvent s" "positions s i = Some p" "p_state p = Opened \<or> p_state p = Closed"
  obtains t where "close_position_by_id um i s = Inr t" "positions t = (positions s)(i := Some (p\<lparr>p_state := Closed\<rparr>))"
    "same_frame s t" "indexes_ok t" "solvent t"
proof (cases "p_state p = Closed")
  case True
  then have "close_position_by_id um i s = Inr s" "p\<lparr>p_state := Closed\<rparr> = p"
    using assms(3) by (simp_all add: close_position_by_id_def position_by_id_def)
  then show ?thesis using that [of s] assms(1-3) by (simp add: fun_upd_idem)
next
  case False
  with assms(4) have op: "p_state p = Opened" by simp
  let ?new = "p\<lparr>p_state := Closed\<rparr>"
  note inv = indexes_okD [OF assms(1)]
  have new: "position_ok ?new" using inv(2) [OF assms(3)] by (simp add: position_ok_def distinct_assets_def)
  have "guard_invalid_transitions (positions s i) ?new = Inr ()"
    using op assms(3) by (simp add: guard_invalid_transitions_def)
  then obtain t where t: "update_position um i (positions s i) ?new s = Inr (?new, t)"
    using update_position_total [OF assms(1) new, of i um] assms(3) by auto
  note fr = update_position_frame [OF t]
  have "solvent t"
    by (rule solvent_update [OF fr(2) inv(1) _ assms(2)]) (simp add: assms(3) vcb_balance_frame [OF fr(3)])
  then have "indexes_ok t"
    using assms(3) fr(2) liquidity_bound [of "positions t" "vcb_balance t"] vcb_less
    by (intro update_position_indexes [OF t assms(1) new]) (auto simp: solvent_def)
  moreover have "close_position_by_id um i s = Inr t"
    using t op assms(3) by (simp add: close_position_by_id_def position_by_id_def)
  ultimately show ?thesis using that fr(2,3) \<open>solvent t\<close> by blast
qed

text \<open>Closing a list of positions closes exactly those.\<close>

lemma close_list_spec:
  assumes "indexes_ok s" "solvent s"
    and "\<And>i. i \<in> set is \<Longrightarrow> \<exists>p. positions s i = Some p \<and> (p_state p = Opened \<or> p_state p = Closed)"
  shows "\<exists>t. try_fold (close_position_by_id um) is s = Inr t \<and> indexes_ok t \<and> solvent t \<and> same_frame s t
    \<and> positions t = (\<lambda>i. if i \<in> set is then map_option (p_state_update (\<lambda>_. Closed)) (positions s i) else positions s i)"
  using assms
proof (induction "is" arbitrary: s)
  case Nil
  then show ?case by simp
next
  case (Cons j js)
  obtain p where p: "positions s j = Some p" "p_state p = Opened \<or> p_state p = Closed"
    using Cons.prems(3) by auto
  obtain u where u: "close_position_by_id um j s = Inr u" "positions u = (positions s)(j := Some (p\<lparr>p_state := Closed\<rparr>))"
    "same_frame s u" "indexes_ok u" "solvent u"
    by (rule close_position_spec [OF Cons.prems(1,2) p])
  have "\<exists>t. try_fold (close_position_by_id um) js u = Inr t \<and> indexes_ok t \<and> solvent t \<and> same_frame u t
    \<and> positions t = (\<lambda>i. if i \<in> set js then map_option (p_state_update (\<lambda>_. Closed)) (positions u i) else positions u i)"
    by (rule Cons.IH [OF u(4,5)]) (use Cons.prems(3) u(2) in auto)
  then obtain t where t: "try_fold (close_position_by_id um) js u = Inr t" "indexes_ok t" "solvent t" "same_frame u t"
    "positions t = (\<lambda>i. if i \<in> set js then map_option (p_state_update (\<lambda>_. Closed)) (positions u i) else positions u i)"
    by blast
  have "positions t = (\<lambda>i. if i \<in> set (j # js) then map_option (p_state_update (\<lambda>_. Closed)) (positions s i) else positions s i)"
    using p(1) by (auto simp: t(5) u(2) fun_eq_iff)
  with u(1,3) t show ?case by (auto intro: same_frame_trans)
qed

section \<open>What each operation does\<close>

definition same_indexes :: "dex_state \<Rightarrow> dex_state \<Rightarrow> bool" where
  "same_indexes s t \<longleftrightarrow> positions t = positions s \<and> inventory_index t = inventory_index s
     \<and> price_index t = price_index s \<and> position_counter t = position_counter s
     \<and> base_liquidity t = base_liquidity s"

lemma indexes_ok_same: "same_indexes s t \<Longrightarrow> indexes_ok t = indexes_ok s"
  by (simp add: indexes_ok_def same_indexes_def get_position_count_def
      inventory.reflects_cong [of t s] price.reflects_cong [of t s])

lemma credit_effect:
  assumes "dex_vcb_credit v s = Inr t"
  shows "same_indexes s t" "vcb_balance t k = vcb_balance s k + nat (amount_at v k)"
  using assms by (auto simp: dex_vcb_credit_Inr_iff same_indexes_def put_vcb_def[abs_def] vcb_balance_def
      split: if_splits)

lemma debit_effect:
  assumes "dex_vcb_debit v s = Inr t"
  shows "same_indexes s t" "vcb_balance t k + nat (amount_at v k) = vcb_balance s k"
  using assms by (auto simp: dex_vcb_debit_Inr_iff same_indexes_def put_vcb_def[abs_def] vcb_balance_def
      split: if_splits)

lemma holdings_amounts: "nat (amount_at (reserves_1 p) k) + nat (amount_at (reserves_2 p) k) = holdings k p"
  by (simp add: holdings_def reserves_1_def reserves_2_def)

lemma same_indexes_trans: "same_indexes s t \<Longrightarrow> same_indexes t u \<Longrightarrow> same_indexes s u"
  by (simp add: same_indexes_def)

text \<open>A write that moves the circuit breaker by as much as the holdings keeps everything.\<close>

lemma update_position_keeps:
  assumes upd: "update_position um i (positions s i) new u = Inr (p, t)" and same: "same_indexes s u"
    and ok: "indexes_ok s" "solvent s"
    and new: "position_ok new" "\<And>p. positions s i = Some p \<Longrightarrow> tf_pair (p_phi p) = tf_pair (p_phi new)"
    and bal: "\<And>k. prev_value (holdings k) (positions s i) + b k = holdings k new + vcb_balance s k"
    and lim: "\<And>k. b k < 2 ^ 128"
  shows "indexes_ok t" "tally (holdings k) (positions t) \<le> b k"
proof -
  have eq: "positions u = positions s" using same by (simp add: same_indexes_def)
  note fr = update_position_frame [OF upd]
  have fin: "finite (dom (positions s))" by (rule indexes_okD [OF ok(1)])
  have le: "tally (holdings k) ((positions s)(i := Some new)) \<le> b k" for k
  proof -
    have "tally (holdings k) (positions s) \<le> vcb_balance s k" using ok(2) by (simp add: solvent_def)
    with tally_update [OF fin, of "holdings k" i new] bal [of k] show ?thesis by linarith
  qed
  show "indexes_ok t"
  proof (rule update_position_indexes)
    show "update_position um i (positions u i) new u = Inr (p, t)" using upd by (simp only: eq)
    show "indexes_ok u" using ok(1) by (simp only: indexes_ok_same [OF same])
    show "tf_pair (p_phi q) = tf_pair (p_phi new)" if "positions u i = Some q" for q
      using that by (intro new(2)) (simp only: eq)
    show "tally (liquidity_of d) ((positions u)(i := Some new)) < 2 ^ 128" for d
      unfolding eq by (rule liquidity_bound [OF le lim])
  qed (rule new(1))
  show "tally (holdings k) (positions t) \<le> b k" using le by (simp add: fr(2) eq)
qed

lemma open_position_effect:
  assumes "open_position hash um p s = Inr t"
  shows "p_state p = Opened" "positions s (position_id_of hash p) = None"
    "positions t = (positions s)(position_id_of hash p := Some p)"
    "vcb_balance t k = vcb_balance s k + holdings k p"
    "pending_closures t = pending_closures s"
    "indexes_ok s \<Longrightarrow> solvent s \<Longrightarrow> position_ok p \<Longrightarrow> indexes_ok t \<and> solvent t"
proof -
  let ?i = "position_id_of hash p"
  from assms have st: "p_state p = Opened" "positions s ?i = None"
    by (auto simp: open_position_def Let_def position_by_id_def split: if_splits)
  with assms obtain s1 s2 q and ps :: dex_parameters where c: "dex_vcb_credit (reserves_1 p) s = Inr s1" "dex_vcb_credit (reserves_2 p) s1 = Inr s2"
    and u: "update_position um ?i None p (mark_trading_pair_as_active (tf_pair (p_phi p))
        (add_recently_accessed_asset (asset_2 (tf_pair (p_phi p))) (fixed_candidates ps)
          (add_recently_accessed_asset (asset_1 (tf_pair (p_phi p))) (fixed_candidates ps) s2))) = Inr (q, t)"
    by (auto simp: open_position_def Let_def and_then_Inr_iff position_by_id_def)
  define u where "u = mark_trading_pair_as_active (tf_pair (p_phi p))
        (add_recently_accessed_asset (asset_2 (tf_pair (p_phi p))) (fixed_candidates ps)
          (add_recently_accessed_asset (asset_1 (tf_pair (p_phi p))) (fixed_candidates ps) s2))"
  have su: "same_indexes s2 u" "dex_vcb u = dex_vcb s2" "pending_closures u = pending_closures s2"
    by (simp_all add: u_def mark_trading_pair_as_active_def add_recently_accessed_asset_def same_indexes_def)
  note upd = u [folded u_def] and fr = update_position_frame [OF u [folded u_def]]
  have same: "same_indexes s u"
    using credit_effect(1) [OF c(1)] credit_effect(1) [OF c(2)] su(1) by (blast intro: same_indexes_trans)
  show "p_state p = Opened" "positions s ?i = None" by (rule st)+
  show "positions t = (positions s)(?i := Some p)" using fr(2) same by (simp add: same_indexes_def)
  have bal: "vcb_balance t k = vcb_balance s k + holdings k p" for k
    using credit_effect(2) [OF c(1), of k] credit_effect(2) [OF c(2), of k] su(2) fr(3) holdings_amounts [of k p]
    by (simp add: same_frame_def vcb_balance_def)
  then show "vcb_balance t k = vcb_balance s k + holdings k p" .
  have pend: "pending_closures s1 = pending_closures s" "pending_closures s2 = pending_closures s1"
    using c by (auto simp: dex_vcb_credit_Inr_iff put_vcb_def split: if_splits)
  then show "pending_closures t = pending_closures s"
    using fr(3) su(3) by (simp add: same_frame_def)
  show "indexes_ok t \<and> solvent t" if "indexes_ok s" "solvent s" "position_ok p"
  proof -
    have upd': "update_position um ?i (positions s ?i) p u = Inr (q, t)" using upd st(2) by simp
    have b: "prev_value (holdings k) (positions s ?i) + vcb_balance t k = holdings k p + vcb_balance s k" for k
      using st(2) bal [of k] by simp
    note keep = update_position_keeps [OF upd' same that _ b vcb_less]
    show ?thesis using keep st(2) by (simp only: solvent_def) blast
  qed
qed

lemma withdraw_position_effect:
  assumes "withdraw_position um i n s = Inr (b, t)"
  obtains p where "positions s i = Some p"
    "n = 0 \<and> p_state p = Closed \<or> n \<noteq> 0 \<and> p_state p = Withdrawn (n - 1)"
    "reserves_balance (p_reserves p) (tf_pair (p_phi p)) = Inr b"
    "positions t = (positions s)(i := Some (p\<lparr>p_state := Withdrawn n, p_reserves := reserves_zero\<rparr>))"
    "\<And>k. vcb_balance t k + holdings k p = vcb_balance s k"
    "pending_closures t = pending_closures s"
    "indexes_ok s \<Longrightarrow> solvent s \<Longrightarrow> indexes_ok t \<and> solvent t"
proof -
  from assms obtain p s1 s2 q where p: "positions s i = Some p"
    and st: "n = 0 \<and> p_state p = Closed \<or> n \<noteq> 0 \<and> (\<exists>m. p_state p = Withdrawn m \<and> m + 1 = n)"
    and b: "reserves_balance (p_reserves p) (tf_pair (p_phi p)) = Inr b"
    and c: "dex_vcb_debit (reserves_1 p) s = Inr s1" "dex_vcb_debit (reserves_2 p) s1 = Inr s2"
    and u: "update_position um i (Some p) (p\<lparr>p_state := Withdrawn n, p_reserves := reserves_zero\<rparr>) s2 = Inr (q, t)"
    by (auto simp: withdraw_position_def and_then_Inr_iff ok_or_Inr_iff position_by_id_def
        split: if_splits position_state.splits)
  let ?new = "p\<lparr>p_state := Withdrawn n, p_reserves := reserves_zero\<rparr>"
  note fr = update_position_frame [OF u]
  have same: "same_indexes s s2"
    using debit_effect(1) [OF c(1)] debit_effect(1) [OF c(2)] by (rule same_indexes_trans)
  have bal: "vcb_balance t k + holdings k p = vcb_balance s k" for k
    using debit_effect(2) [OF c(1), of k] debit_effect(2) [OF c(2), of k] fr(3) holdings_amounts [of k p]
    by (simp add: same_frame_def vcb_balance_def)
  have zero: "holdings k ?new = 0" for k by (simp add: holdings_def reserves_zero_def)
  have "indexes_ok t \<and> solvent t" if ok: "indexes_ok s" "solvent s"
  proof -
    have new: "position_ok ?new" using indexes_okD(2) [OF ok(1) p] by (simp add: position_ok_def distinct_assets_def)
    have upd: "update_position um i (positions s i) ?new s2 = Inr (q, t)" using u p by simp
    have b: "prev_value (holdings k) (positions s i) + vcb_balance t k = holdings k ?new + vcb_balance s k" for k
      using p bal [of k] zero [of k] by simp
    have pair: "positions s i = Some r \<Longrightarrow> tf_pair (p_phi r) = tf_pair (p_phi ?new)" for r using p by simp
    note keep = update_position_keeps [OF upd same ok new pair b vcb_less]
    show ?thesis unfolding solvent_def using keep by blast
  qed
  moreover have "pending_closures t = pending_closures s"
    using c fr(3) by (auto simp: dex_vcb_debit_Inr_iff put_vcb_def same_frame_def split: if_splits)
  moreover have "n = 0 \<and> p_state p = Closed \<or> n \<noteq> 0 \<and> p_state p = Withdrawn (n - 1)"
    using st by auto
  moreover have "positions t = (positions s)(i := Some ?new)" using fr(2) same by (simp add: same_indexes_def)
  ultimately show ?thesis using that p b bal by blast
qed

lemma close_position_effect:
  assumes "close_position_by_id um i s = Inr t" "indexes_ok s" "solvent s"
  obtains p where "positions s i = Some p" "p_state p = Opened \<or> p_state p = Closed"
    "positions t = (positions s)(i := Some (p\<lparr>p_state := Closed\<rparr>))" "same_frame s t" "indexes_ok t" "solvent t"
proof -
  from assms(1) obtain p where p: "positions s i = Some p" "p_state p = Opened \<or> p_state p = Closed"
    by (auto simp: close_position_by_id_def and_then_Inr_iff ok_or_Inr_iff ensure_Inr_iff position_by_id_def)
  obtain u where u: "close_position_by_id um i s = Inr u" "positions u = (positions s)(i := Some (p\<lparr>p_state := Closed\<rparr>))"
    "same_frame s u" "indexes_ok u" "solvent u"
    by (rule close_position_spec [OF assms(2,3) p])
  with assms(1) that p show ?thesis by auto
qed

lemma record_execution_shape:
  "ignore_error s (record_position_execution prev new s) = Inr t \<Longrightarrow> \<exists>x. t = s\<lparr>block_executions := x\<rparr>"
proof -
  have self: "\<exists>x. s = s\<lparr>block_executions := x\<rparr>" by (rule exI [of _ "block_executions s"]) simp
  have rec: "\<exists>x. u = s\<lparr>block_executions := x\<rparr>" if "record_position_execution prev new s = Inr u" for u
  proof (cases "prev = new")
    case False
    from that show ?thesis
      unfolding record_position_execution_def Let_def if_not_P [OF False]
      by (elim and_then_InrE) (simp only: sum.inject, blast)
  next
    case True
    with that have "u = s" by (simp add: record_position_execution_def)
    with self show ?thesis by blast
  qed
  assume "ignore_error s (record_position_execution prev new s) = Inr t"
  then have "t = s \<or> record_position_execution prev new s = Inr t"
    by (simp add: ignore_error_def split: sum.splits error.splits)
  then show ?thesis using self rec by blast
qed

lemma position_execution_effect:
  assumes "position_execution hash um new s = Inr (q, t)"
  obtains p where "positions s (position_id_of hash new) = Some p" "p = new" "t = s" "q = new"
  | p u where "positions s (position_id_of hash new) = Some p" "p_state p = Opened" "p_state new = Opened"
    "q = (if close_on_fill new \<and> (r1 (p_reserves new) = 0 \<or> r2 (p_reserves new) = 0) then new\<lparr>p_state := Closed\<rparr> else new)"
    "update_position um (position_id_of hash new) (Some p) q u = Inr (q, t)"
    "\<exists>x. u = s\<lparr>block_executions := x\<rparr>"
proof -
  let ?i = "position_id_of hash new"
  let ?q = "if close_on_fill new \<and> (r1 (p_reserves new) = 0 \<or> r2 (p_reserves new) = 0) then new\<lparr>p_state := Closed\<rparr> else new"
  from assms obtain p where p: "positions s ?i = Some p"
    by (auto simp: position_execution_def Let_def and_then_Inr_iff ok_or_Inr_iff position_by_id_def)
  show ?thesis
  proof (cases "p = new")
    case True
    have "q = new \<and> t = s" using assms
      unfolding position_execution_def Let_def position_by_id_def p ok_or_simps and_then.simps if_P [OF True]
      by (elim and_then_InrE) simp
    with that(1) [OF p True] show ?thesis by blast
  next
    case False
    from assms obtain u where st: "p_state p = Opened" "p_state new = Opened"
      and u: "ignore_error s (record_position_execution p ?q s) = Inr u"
      and upd: "update_position um ?i (Some p) ?q u = Inr (q, t)"
      unfolding position_execution_def Let_def position_by_id_def p ok_or_simps and_then.simps if_not_P [OF False]
      by (elim and_then_InrE) (simp only: ensure_Inr_iff)
    have "q = ?q" by (rule update_position_frame(1) [OF upd])
    show ?thesis by (rule that(2) [OF p st \<open>q = ?q\<close> _ record_execution_shape [OF u]]) (use upd \<open>q = ?q\<close> in simp)
  qed
qed

lemma execution_keeps:
  assumes "position_execution hash um (p\<lparr>p_reserves := rs\<rparr>) s = Inr (q, t)" "positions s i = Some p"
    "position_id_of hash p = i" "indexes_ok s" "solvent t"
  shows "indexes_ok t" "\<exists>r. positions t = (positions s)(i := Some r) \<and> p_phi r = p_phi p \<and> p_nonce r = p_nonce p
      \<and> p_reserves r = rs \<and> (r = p\<lparr>p_reserves := rs\<rparr> \<or> p_state p = Opened \<and> (p_state r = Opened \<or> p_state r = Closed))"
    "dex_vcb t = dex_vcb s" "pending_closures t = pending_closures s"
proof -
  have i: "position_id_of hash (p\<lparr>p_reserves := rs\<rparr>) = i" using assms(3) by (simp add: position_id_of_def position_preimage_def)
  have "indexes_ok t \<and> (\<exists>r. positions t = (positions s)(i := Some r) \<and> p_phi r = p_phi p \<and> p_nonce r = p_nonce p
      \<and> p_reserves r = rs \<and> (r = p\<lparr>p_reserves := rs\<rparr> \<or> p_state p = Opened \<and> (p_state r = Opened \<or> p_state r = Closed)))
      \<and> dex_vcb t = dex_vcb s \<and> pending_closures t = pending_closures s"
    using assms(1)
  proof (cases rule: position_execution_effect)
    case (1 p')
    with assms(2) i have p: "p\<lparr>p_reserves := rs\<rparr> = p" by simp
    then have "p_reserves p = rs" by (metis position.select_convs(2) position.surjective position.update_convs(2))
    moreover have "positions t = (positions s)(i := Some p)" using 1(3) assms(2) by (simp add: fun_upd_idem)
    ultimately show ?thesis using p 1(3) assms(4) by (intro conjI exI [of _ p]) simp_all
  next
    case (2 p' u)
    note upd = 2(5) [unfolded i]
    have p': "p' = p" using 2(1) assms(2) i by simp
    from 2(6) have u: "same_indexes s u" "dex_vcb u = dex_vcb s" "pending_closures u = pending_closures s"
      by (auto simp: same_indexes_def)
    note fr = update_position_frame [OF upd]
    have pt: "positions t = (positions s)(i := Some q)" using fr(2) u(1) by (simp add: same_indexes_def)
    have q: "p_phi q = p_phi p" "p_nonce q = p_nonce p" "p_reserves q = rs" "p_state q = Opened \<or> p_state q = Closed"
      using 2(3,4) by simp_all
    have ok: "position_ok q" using indexes_okD(2) [OF assms(4,2)] q(1) by (simp add: position_ok_def distinct_assets_def)
    have "indexes_ok t"
    proof (rule update_position_indexes)
      show "update_position um i (positions u i) q u = Inr (q, t)" using upd u(1) assms(2) p' by (simp add: same_indexes_def)
      show "indexes_ok u" using indexes_ok_same [OF u(1)] assms(4) by simp
      show "tf_pair (p_phi r) = tf_pair (p_phi q)" if "positions u i = Some r" for r
        using that u(1) assms(2) q(1) by (simp add: same_indexes_def)
      show "tally (liquidity_of d) ((positions u)(i := Some q)) < 2 ^ 128" for d
        using liquidity_bound [of "positions t" "vcb_balance t" d] assms(5) vcb_less u(1) fr(2)
        by (simp add: solvent_def)
    qed (rule ok)
    with pt q 2(2) p' fr(3) u(2,3) show ?thesis by (auto simp: same_frame_def)
  qed
  then show "indexes_ok t" "\<exists>r. positions t = (positions s)(i := Some r) \<and> p_phi r = p_phi p \<and> p_nonce r = p_nonce p
      \<and> p_reserves r = rs \<and> (r = p\<lparr>p_reserves := rs\<rparr> \<or> p_state p = Opened \<and> (p_state r = Opened \<or> p_state r = Closed))"
    "dex_vcb t = dex_vcb s" "pending_closures t = pending_closures s" by auto
qed

lemma reward_position_effect:
  assumes "reward_position um i a s = Inr t"
  obtains p where "positions s i = Some p" "\<not> matches_input (p_phi p) um" "t = s"
  | p rs where "positions s i = Some p" "matches_input (p_phi p) um"
    "positions t = (positions s)(i := Some (p\<lparr>p_reserves := rs\<rparr>))"
    "\<And>k. vcb_balance t k = vcb_balance s k + (if k = um then unat a else 0)"
    "\<And>k. distinct_assets p \<Longrightarrow> holdings k (p\<lparr>p_reserves := rs\<rparr>) = holdings k p + (if k = um then unat a else 0)"
    "pending_closures t = pending_closures s"
    "indexes_ok s \<Longrightarrow> solvent s \<Longrightarrow> indexes_ok t \<and> solvent t"
proof -
  from assms obtain p where p: "positions s i = Some p"
    by (auto simp: reward_position_def Let_def and_then_Inr_iff ok_or_Inr_iff position_by_id_def)
  show ?thesis
  proof (cases "matches_input (p_phi p) um")
    case False
    with assms p that(1) show ?thesis
      by (auto simp: reward_position_def Let_def position_by_id_def matches_input_def)
  next
    case True
    with assms p obtain rs q u where rs: "um = asset_1 (tf_pair (p_phi p)) \<and> (\<exists>x. unat (r1 (p_reserves p)) + unat a = unat x
        \<and> rs = (p_reserves p)\<lparr>r1 := x\<rparr>) \<or> um \<noteq> asset_1 (tf_pair (p_phi p)) \<and> um = asset_2 (tf_pair (p_phi p))
        \<and> (\<exists>x. unat (r2 (p_reserves p)) + unat a = unat x \<and> rs = (p_reserves p)\<lparr>r2 := x\<rparr>)"
      and upd: "update_position um i (Some p) (p\<lparr>p_reserves := rs\<rparr>) s = Inr (q, u)"
      and c: "dex_vcb_credit \<lparr>v_amount = a, v_asset = um\<rparr> u = Inr t"
      by (auto simp: reward_position_def Let_def position_by_id_def matches_input_def and_then_Inr_iff
          expect_some_Inr_iff checked_add_Some_iff split: if_splits)
    note fr = update_position_frame [OF upd]
    let ?new = "p\<lparr>p_reserves := rs\<rparr>"
    have h: "distinct_assets p \<Longrightarrow> holdings k ?new = holdings k p + (if k = um then unat a else 0)" for k
      using rs by (auto simp: holdings_def distinct_assets_def)
    have bal: "vcb_balance t k = vcb_balance s k + (if k = um then unat a else 0)" for k
      using credit_effect(2) [OF c, of k] vcb_balance_frame [OF fr(3)] by simp
    have pt: "positions t = (positions s)(i := Some ?new)"
      using fr(2) credit_effect(1) [OF c] by (simp add: same_indexes_def)
    have pend: "pending_closures t = pending_closures s"
      using c fr(3) by (auto simp: dex_vcb_credit_Inr_iff put_vcb_def same_frame_def split: if_splits)
    have "indexes_ok t \<and> solvent t" if ok: "indexes_ok s" "solvent s"
    proof -
      have okp: "position_ok ?new" using indexes_okD(2) [OF ok(1) p] by (simp add: position_ok_def distinct_assets_def)
      then have dp: "distinct_assets p" by (simp add: position_ok_def distinct_assets_def)
      have upd': "update_position um i (positions s i) ?new s = Inr (q, u)" using upd p by simp
      have b: "prev_value (holdings k) (positions s i) + vcb_balance t k = holdings k ?new + vcb_balance s k" for k
        using p h [OF dp, of k] bal [of k] by simp
      have pair: "positions s i = Some r \<Longrightarrow> tf_pair (p_phi r) = tf_pair (p_phi ?new)" for r using p by simp
      have self: "same_indexes s s" by (simp add: same_indexes_def)
      note keep = update_position_keeps [OF upd' self ok okp pair b vcb_less]
      show ?thesis
        using keep indexes_ok_same [OF credit_effect(1) [OF c]] pt fr(2) by (simp add: solvent_def)
    qed
    with that(2) [OF p True pt bal h pend] show ?thesis by blast
  qed
qed

end
