(* ===== verification/DexMachine.thy ===== *)
theory DexMachine
  imports PositionInvariants
begin

text \<open>
  The position manager as a transition system: the action handlers and the end-of-block
  operations as steps between states. Executions come from the routing engine, which changes
  only the reserves of a stored position; that it pays out no more than was paid in is the
  premise \<open>solvent t\<close> of the two steps it governs. The invariant holds in every reachable
  state, and positions only move forward through their life cycle.
\<close>

section \<open>Eviction\<close>

lemma overlap_members: "set (overlap_ids xs ys) = set xs \<inter> set ys"
  by (auto simp: overlap_ids_def)

lemma inventory_ids_opened:
  assumes "indexes_ok s" "i \<in> snd ` fst ` set (inventory_index s (pair_12 t))"
  shows "\<exists>p. positions s i = Some p \<and> p_state p = Opened"
proof -
  from assms(2) obtain k v where "((k, i), v) \<in> set (inventory_index s (pair_12 t))" by auto
  then show ?thesis by (rule inventory.in_index_opened [OF indexes_okD(3) [OF assms(1)]])
qed

definition eviction_set :: "u32 \<Rightarrow> trading_pair \<Rightarrow> dex_state \<Rightarrow> position_id set" where
  "eviction_set mx t s =
     (let m = unat (get_position_count t s) - unat mx
      in set (take m (map (snd \<circ> fst) (inventory_index s (pair_12 t))))
         \<inter> set (take m (map (snd \<circ> fst) (inventory_index s (pair_21 t)))))"

lemma evict_pair_spec:
  assumes "indexes_ok s" "solvent s"
  shows "\<exists>t. evict_pair um mx pair s = Inr t \<and> indexes_ok t \<and> solvent t \<and> same_frame s t
    \<and> positions t = (\<lambda>i. if i \<in> eviction_set mx pair s then map_option (p_state_update (\<lambda>_. Closed)) (positions s i)
        else positions s i)"
proof (cases "saturating_sub (get_position_count pair s) mx = 0")
  case True
  then have "eviction_set mx pair s = {}"
    by (simp add: eviction_set_def unat_eq_0 [symmetric] unat_saturating_sub)
  with True assms show ?thesis by (simp add: evict_pair_def)
next
  case False
  let ?m = "unat (saturating_sub (get_position_count pair s) mx)"
  let ?ids = "overlap_ids (take ?m (map (snd \<circ> fst) (inventory_index s (pair_12 pair))))
      (take ?m (map (snd \<circ> fst) (inventory_index s (pair_21 pair))))"
  have ids: "set ?ids = eviction_set mx pair s"
    by (simp add: overlap_members eviction_set_def unat_saturating_sub Let_def)
  have "\<exists>p. positions s i = Some p \<and> (p_state p = Opened \<or> p_state p = Closed)" if "i \<in> set ?ids" for i
    using that inventory_ids_opened [OF assms(1), of i pair]
    by (auto simp: overlap_members dest!: in_set_takeD) (metis fst_conv image_eqI snd_conv)
  then have "\<exists>t. try_fold (close_position_by_id um) ?ids s = Inr t \<and> indexes_ok t \<and> solvent t \<and> same_frame s t
    \<and> positions t = (\<lambda>i. if i \<in> set ?ids then map_option (p_state_update (\<lambda>_. Closed)) (positions s i) else positions s i)"
    by (rule close_list_spec [OF assms])
  with False show ?thesis unfolding ids by (simp add: evict_pair_def Let_def)
qed

lemma evict_positions_spec:
  assumes "indexes_ok s" "solvent s" "dex_params s \<noteq> None"
  obtains t where "evict_positions um s = Inr t" "indexes_ok t" "solvent t" "same_frame s t"
    "\<And>i. positions t i = positions s i \<or>
       (\<exists>p. positions s i = Some p \<and> (p_state p = Opened \<or> p_state p = Closed)
         \<and> positions t i = Some (p\<lparr>p_state := Closed\<rparr>))"
proof -
  obtain ps where ps: "dex_params s = Some ps" using assms(3) by auto
  have "\<exists>t. try_fold (evict_pair um mx) pairs s = Inr t \<and> indexes_ok t \<and> solvent t \<and> same_frame s t
     \<and> (\<forall>i. positions t i = positions s i \<or>
       (\<exists>p. positions s i = Some p \<and> (p_state p = Opened \<or> p_state p = Closed)
         \<and> positions t i = Some (p\<lparr>p_state := Closed\<rparr>)))" for mx pairs
    using assms(1,2)
  proof (induction pairs arbitrary: s)
    case Nil
    then show ?case by simp
  next
    case (Cons pair pairs)
    obtain u where u: "evict_pair um mx pair s = Inr u" "indexes_ok u" "solvent u" "same_frame s u"
      "positions u = (\<lambda>i. if i \<in> eviction_set mx pair s then map_option (p_state_update (\<lambda>_. Closed)) (positions s i)
        else positions s i)"
      using evict_pair_spec [OF Cons.prems] by blast
    obtain t where t: "try_fold (evict_pair um mx) pairs u = Inr t" "indexes_ok t" "solvent t" "same_frame u t"
      "\<forall>i. positions t i = positions u i \<or>
       (\<exists>p. positions u i = Some p \<and> (p_state p = Opened \<or> p_state p = Closed)
         \<and> positions t i = Some (p\<lparr>p_state := Closed\<rparr>))"
      using Cons.IH [OF u(2,3)] by blast
    have "positions t i = positions s i \<or>
       (\<exists>p. positions s i = Some p \<and> (p_state p = Opened \<or> p_state p = Closed)
         \<and> positions t i = Some (p\<lparr>p_state := Closed\<rparr>))" for i
    proof (cases "i \<in> eviction_set mx pair s")
      case True
      then have "\<exists>p. positions s i = Some p \<and> p_state p = Opened"
        using inventory_ids_opened [OF Cons.prems(1), of i pair]
        by (auto simp: eviction_set_def Let_def dest!: in_set_takeD) (metis fst_conv image_eqI snd_conv)
      then obtain p where "positions s i = Some p" "p_state p = Opened" by blast
      then show ?thesis using t(5) [rule_format, of i] True by (auto simp: u(5))
    next
      case False
      then show ?thesis using t(5) [rule_format, of i] by (simp add: u(5))
    qed
    with u(1,4) t show ?case by (auto intro: same_frame_trans)
  qed
  then show ?thesis using that ps by (auto simp: evict_positions_def get_dex_params_def)
qed

section \<open>Steps\<close>

inductive dex_step ::
  "(u8 list \<Rightarrow> u8 list) \<Rightarrow> (balance \<Rightarrow> 'c) \<Rightarrow> asset_id \<Rightarrow> dex_state \<Rightarrow> dex_state \<Rightarrow> bool"
  for hash commit um where
  step_open: "position_open_check_stateless p = Inr () \<Longrightarrow> position_open_execute hash um p s = Inr t
     \<Longrightarrow> dex_step hash commit um s t"
| step_close: "position_close_execute i s = Inr t \<Longrightarrow> dex_step hash commit um s t"
| step_withdraw: "position_withdraw_execute commit um i c n s = Inr t \<Longrightarrow> dex_step hash commit um s t"
| step_execution: "positions s i = Some p \<Longrightarrow> position_execution hash um (p\<lparr>p_reserves := rs\<rparr>) s = Inr (q, t)
     \<Longrightarrow> solvent t \<Longrightarrow> dex_step hash commit um s t"
| step_close_by_id: "close_position_by_id um i s = Inr t \<Longrightarrow> dex_step hash commit um s t"
| step_reward: "reward_position um i a s = Inr t \<Longrightarrow> dex_step hash commit um s t"
| step_evict: "evict_positions um s = Inr t \<Longrightarrow> dex_step hash commit um s t"
| step_close_queued: "close_queued_positions um s = Inr t \<Longrightarrow> dex_step hash commit um s t"
| step_inflow: "dex_vcb_credit v s = Inr t \<Longrightarrow> dex_step hash commit um s t"
| step_outflow: "dex_vcb_debit v s = Inr t \<Longrightarrow> solvent t \<Longrightarrow> dex_step hash commit um s t"

inductive dex_reachable ::
  "(u8 list \<Rightarrow> u8 list) \<Rightarrow> (balance \<Rightarrow> 'c) \<Rightarrow> asset_id \<Rightarrow> dex_state \<Rightarrow> bool"
  for hash commit um where
  reach_genesis: "dex_reachable hash commit um (dex_init_chain (Some ps) dex_empty)"
| reach_step: "dex_reachable hash commit um s \<Longrightarrow> dex_step hash commit um s t \<Longrightarrow> dex_reachable hash commit um t"

inductive_cases dex_stepE: "dex_step hash commit um s t"

text \<open>The invariant, with every position stored under its own identifier.\<close>

definition dex_inv :: "(u8 list \<Rightarrow> u8 list) \<Rightarrow> dex_state \<Rightarrow> bool" where
  "dex_inv hash s \<longleftrightarrow> indexes_ok s \<and> solvent s \<and> dex_params s \<noteq> None
     \<and> (\<forall>i p. positions s i = Some p \<longrightarrow> position_id_of hash p = i)"

lemma genesis_inv: "dex_inv hash (dex_init_chain (Some ps) dex_empty)"
  by (simp add: dex_inv_def dex_init_chain_def put_dex_params_def dex_empty_def indexes_ok_def solvent_def
      inventory.reflects_def price.reflects_def tally_def get_position_count_def bt_get_def bt_wf_def)

text \<open>What one step does to one position.\<close>

inductive position_step :: "position option \<Rightarrow> position option \<Rightarrow> bool" where
  same: "position_step x x"
| opened: "p_state p = Opened \<Longrightarrow> position_step None (Some p)"
| traded: "p_state p = Opened \<Longrightarrow> p_state q = Opened \<or> p_state q = Closed \<Longrightarrow> p_phi q = p_phi p
     \<Longrightarrow> p_nonce q = p_nonce p \<Longrightarrow> position_step (Some p) (Some q)"
| rewarded: "position_step (Some p) (Some (p\<lparr>p_reserves := rs\<rparr>))"
| withdrawn_first: "p_state p = Closed \<Longrightarrow>
     position_step (Some p) (Some (p\<lparr>p_state := Withdrawn 0, p_reserves := reserves_zero\<rparr>))"
| withdrawn_next: "p_state p = Withdrawn n \<Longrightarrow> n + 1 \<noteq> 0 \<Longrightarrow>
     position_step (Some p) (Some (p\<lparr>p_state := Withdrawn (n + 1), p_reserves := reserves_zero\<rparr>))"

fun lifecycle_rank :: "position option \<Rightarrow> nat" where
  "lifecycle_rank None = 0"
| "lifecycle_rank (Some p) = (case p_state p of Opened \<Rightarrow> 1 | Closed \<Rightarrow> 2 | Withdrawn n \<Rightarrow> 3 + unat n)"

lemma position_step_rank:
  "position_step x y \<Longrightarrow> lifecycle_rank y = lifecycle_rank x \<or> lifecycle_rank y = lifecycle_rank x + 1"
proof (induction rule: position_step.induct)
  case (withdrawn_next p n)
  have "unat n + 1 < 2 ^ 64"
  proof (rule ccontr)
    assume "\<not> unat n + 1 < 2 ^ 64"
    then have "unat n + 1 = 2 ^ 64" using unsigned_less [of n, where ?'a = nat] by simp
    then have "unat (n + 1) = 0" by (simp add: unat_word_ariths)
    with withdrawn_next show False by (simp add: unat_eq_0)
  qed
  then have "unat (n + 1) = unat n + 1" by (simp add: unat_add_no_overflow)
  with withdrawn_next show ?case by simp
qed auto

lemma position_step_fixed:
  "position_step (Some p) y \<Longrightarrow> \<exists>q. y = Some q \<and> p_phi q = p_phi p \<and> p_nonce q = p_nonce p"
  by (cases rule: position_step.cases) auto


text \<open>Every step keeps the invariant and moves each position by one step of its life cycle.\<close>

lemma step_close_list:
  assumes "dex_inv hash s" "\<And>i. positions t i = positions s i \<or>
       (\<exists>p. positions s i = Some p \<and> (p_state p = Opened \<or> p_state p = Closed)
         \<and> positions t i = Some (p\<lparr>p_state := Closed\<rparr>))"
  shows "position_step (positions s i) (positions t i)"
    "positions t i = Some q \<Longrightarrow> position_id_of hash q = i"
proof -
  have inv: "positions s i = Some p \<Longrightarrow> position_id_of hash p = i" for p
    using assms(1) by (simp add: dex_inv_def)
  from assms(2) [of i] show "position_step (positions s i) (positions t i)"
  proof (elim disjE exE conjE)
    fix p assume p: "positions s i = Some p" "p_state p = Closed" "positions t i = Some (p\<lparr>p_state := Closed\<rparr>)"
    then have "p\<lparr>p_state := Closed\<rparr> = p" by simp
    with p show ?thesis by (simp add: position_step.same)
  qed (auto intro: position_step.intros)
  show "positions t i = Some q \<Longrightarrow> position_id_of hash q = i"
    using assms(2) [of i] inv by (auto simp: position_id_of_def position_preimage_def)
qed

section \<open>Parameters\<close>

named_theorems params_kept \<open>the operations leave the parameters alone\<close>

lemma params_vcb [params_kept]:
  "dex_vcb_credit v s = Inr t \<Longrightarrow> dex_params t = dex_params s"
  "dex_vcb_debit v s = Inr t \<Longrightarrow> dex_params t = dex_params s"
  by (auto simp: dex_vcb_credit_Inr_iff dex_vcb_debit_Inr_iff put_vcb_def split: if_splits)

lemma params_update [params_kept]: "update_position um i prev new s = Inr (p, t) \<Longrightarrow> dex_params t = dex_params s"
  using update_position_frame(3) by (fastforce simp: same_frame_def)

lemma params_open [params_kept]:
  assumes "open_position hash um p s = Inr t"
  shows "dex_params t = dex_params s"
proof -
  have small: "dex_params (mark_trading_pair_as_active y s) = dex_params s"
    "dex_params (add_recently_accessed_asset k f s) = dex_params s" for y k f s
    by (simp_all add: mark_trading_pair_as_active_def add_recently_accessed_asset_def)
  from assms show ?thesis
    by (auto simp: open_position_def Let_def and_then_Inr_iff small dest!: params_kept split: if_splits)
qed

lemma params_close [params_kept]: "close_position_by_id um i s = Inr t \<Longrightarrow> dex_params t = dex_params s"
  by (auto simp: close_position_by_id_def and_then_Inr_iff dest!: params_update split: if_splits)

lemma params_close_list [params_kept]:
  "try_fold (close_position_by_id um) is s = Inr t \<Longrightarrow> dex_params t = dex_params s"
  using try_fold_invariant [of "close_position_by_id um" "is" s t "\<lambda>u. dex_params u = dex_params s"] params_close
  by fastforce

lemma params_evict [params_kept]:
  assumes "evict_positions um s = Inr t"
  shows "dex_params t = dex_params s"
proof -
  have "dex_params v = dex_params u" if "evict_pair um mx pair u = Inr v" for mx pair u v
    using that params_close_list by (auto simp: evict_pair_def Let_def split: if_splits)
  then have "dex_params v = dex_params s" if "try_fold (evict_pair um mx) ps s = Inr v" for mx ps v
    using try_fold_invariant [OF that, of "\<lambda>u. dex_params u = dex_params s"] by fastforce
  then show ?thesis using assms by (auto simp: evict_positions_def and_then_Inr_iff)
qed

lemma params_execution [params_kept]:
  "position_execution hash um p s = Inr (q, t) \<Longrightarrow> dex_params t = dex_params s"
  by (erule position_execution_effect) (auto dest!: params_update)

lemma params_withdraw [params_kept]:
  "withdraw_position um i n s = Inr (b, t) \<Longrightarrow> dex_params t = dex_params s"
  by (auto simp: withdraw_position_def and_then_Inr_iff and_then_prod_Inr_iff dest!: params_vcb params_update)

lemma params_reward [params_kept]: "reward_position um i a s = Inr t \<Longrightarrow> dex_params t = dex_params s"
  by (auto simp: reward_position_def Let_def and_then_Inr_iff dest!: params_vcb params_update split: if_splits)

section \<open>Every step\<close>

lemma queue_effect:
  "queue_close_position i s = Inr t \<Longrightarrow>
     same_indexes s t \<and> dex_vcb t = dex_vcb s \<and> dex_params t = dex_params s"
  by (auto simp: queue_close_position_def and_then_Inr_iff same_indexes_def split: if_splits)

lemma solvent_same: "positions t = positions s \<Longrightarrow> dex_vcb t = dex_vcb s \<Longrightarrow> solvent t = solvent s"
  by (simp add: solvent_def vcb_balance_def)

definition good_step :: "(u8 list \<Rightarrow> u8 list) \<Rightarrow> dex_state \<Rightarrow> dex_state \<Rightarrow> bool" where
  "good_step hash s t \<longleftrightarrow> dex_inv hash t \<and> (\<forall>i. position_step (positions s i) (positions t i))"

lemma good_stepI:
  assumes "dex_inv hash s" "indexes_ok t" "solvent t" "dex_params t = dex_params s"
    and "\<And>i. position_step (positions s i) (positions t i)"
    and "\<And>i q. positions s i = None \<Longrightarrow> positions t i = Some q \<Longrightarrow> position_id_of hash q = i"
  shows "good_step hash s t"
proof -
  have "position_id_of hash q = i" if q: "positions t i = Some q" for i q
  proof (cases "positions s i")
    case (Some p)
    from position_step_fixed assms(5) [of i] Some q
    have "p_phi q = p_phi p" "p_nonce q = p_nonce p" by (metis option.inject)+
    then have "position_id_of hash q = position_id_of hash p"
      by (simp add: position_id_of_def position_preimage_def)
    with assms(1) Some show ?thesis by (simp add: dex_inv_def)
  qed (use assms(6) q in blast)
  with assms show ?thesis by (simp add: good_step_def dex_inv_def)
qed

lemma dex_invD:
  assumes "dex_inv hash s"
  shows "indexes_ok s" "solvent s" "dex_params s \<noteq> None" "positions s i = Some p \<Longrightarrow> position_id_of hash p = i"
  using assms by (auto simp: dex_inv_def)

lemma one_position_step:
  assumes "positions t = (positions s)(i := Some new)" "position_step (positions s i) (Some new)"
  shows "position_step (positions s j) (positions t j)"
  using assms by (simp add: position_step.same)

lemma good_open:
  assumes "dex_inv hash s" "position_open_check_stateless p = Inr u" "position_open_execute hash um p s = Inr t"
  shows "good_step hash s t"
proof -
  from assms(3) have o: "open_position hash um p s = Inr t"
    by (auto simp: position_open_execute_def and_then_Inr_iff)
  from assms(2) have "position_check_stateless p = Inr ()" by (auto simp: position_open_check_stateless_def and_then_Inr_iff)
  then have ok: "position_ok p" unfolding check_stateless_iff by (simp add: position_ok_def distinct_assets_def)
  note e = open_position_effect [OF o]
  show ?thesis
    by (rule good_stepI [OF assms(1) _ _ params_open [OF o] one_position_step [OF e(3)]])
      (use e ok dex_invD [OF assms(1)] in \<open>auto intro: position_step.intros split: if_splits\<close>)
qed

lemma good_withdraw:
  assumes "dex_inv hash s" "withdraw_position um i n s = Inr (b, t)"
  shows "good_step hash s t"
proof (rule withdraw_position_effect [OF assms(2)])
  fix p
  assume p: "positions s i = Some p" "n = 0 \<and> p_state p = Closed \<or> n \<noteq> 0 \<and> p_state p = Withdrawn (n - 1)"
    and t: "positions t = (positions s)(i := Some (p\<lparr>p_state := Withdrawn n, p_reserves := reserves_zero\<rparr>))"
    and ok: "indexes_ok s \<Longrightarrow> solvent s \<Longrightarrow> indexes_ok t \<and> solvent t"
  have "position_step (Some p) (Some (p\<lparr>p_state := Withdrawn n, p_reserves := reserves_zero\<rparr>))"
    using p(2) position_step.withdrawn_first [of p] position_step.withdrawn_next [of p "n - 1"] by auto
  with p(1) show ?thesis
    by (intro good_stepI [OF assms(1) _ _ params_withdraw [OF assms(2)] one_position_step [OF t]])
      (use ok dex_invD [OF assms(1)] t p(1) in \<open>auto split: if_splits\<close>)
qed

lemma good_execution:
  assumes "dex_inv hash s" "positions s i = Some p" "solvent t"
    "position_execution hash um (p\<lparr>p_reserves := rs\<rparr>) s = Inr (q, t)"
  shows "good_step hash s t"
proof -
  note keeps = execution_keeps [OF assms(4,2) dex_invD(4) [OF assms(1,2)] dex_invD(1) [OF assms(1)] assms(3)]
  from keeps(2) obtain r where r: "positions t = (positions s)(i := Some r)" "p_phi r = p_phi p" "p_nonce r = p_nonce p"
    "r = p\<lparr>p_reserves := rs\<rparr> \<or> p_state p = Opened \<and> (p_state r = Opened \<or> p_state r = Closed)" by blast
  have "position_step (Some p) (Some r)"
    using r(2-4) by (auto intro: position_step.intros)
  with assms(2) show ?thesis
    by (intro good_stepI [OF assms(1) keeps(1) assms(3) params_execution [OF assms(4)] one_position_step [OF r(1)]])
      (use r(1) in \<open>auto split: if_splits\<close>)
qed


lemma good_reward:
  assumes "dex_inv hash s" "reward_position um i a s = Inr t"
  shows "good_step hash s t"
  using assms(2)
proof (cases rule: reward_position_effect)
  case (1 p)
  with assms(1) show ?thesis by (simp add: good_step_def position_step.same)
next
  case (2 p rs)
  have "position_step (positions s i) (Some (p\<lparr>p_reserves := rs\<rparr>))"
    using 2(1) by (simp add: position_step.rewarded)
  then show ?thesis
    by (intro good_stepI [OF assms(1) _ _ params_reward [OF assms(2)] one_position_step [OF 2(3)]])
      (use 2 dex_invD [OF assms(1)] in \<open>auto split: if_splits\<close>)
qed

lemma good_close_list:
  assumes "dex_inv hash s" "indexes_ok t" "solvent t" "dex_params t = dex_params s"
    and "\<And>i. positions t i = positions s i \<or>
       (\<exists>p. positions s i = Some p \<and> (p_state p = Opened \<or> p_state p = Closed)
         \<and> positions t i = Some (p\<lparr>p_state := Closed\<rparr>))"
  shows "good_step hash s t"
  using step_close_list [OF assms(1,5)] assms(1-4) by (auto simp: good_step_def dex_inv_def)

lemma good_close:
  assumes "dex_inv hash s" "close_position_by_id um i s = Inr t"
  shows "good_step hash s t"
proof (rule close_position_effect [OF assms(2) dex_invD(1,2) [OF assms(1)]])
  fix p
  assume "positions s i = Some p" "p_state p = Opened \<or> p_state p = Closed"
    "positions t = (positions s)(i := Some (p\<lparr>p_state := Closed\<rparr>))" "indexes_ok t" "solvent t"
  then show ?thesis
    by (intro good_close_list [OF assms(1) _ _ params_close [OF assms(2)]]) auto
qed

definition closed_or_same :: "position option \<Rightarrow> position option \<Rightarrow> bool" where
  "closed_or_same x y \<longleftrightarrow> y = x \<or> (\<exists>p. x = Some p \<and> (p_state p = Opened \<or> p_state p = Closed)
     \<and> y = Some (p\<lparr>p_state := Closed\<rparr>))"

lemma closed_or_same_close:
  "closed_or_same x (Some p) \<Longrightarrow> p_state p = Opened \<or> p_state p = Closed \<Longrightarrow>
     closed_or_same x (Some (p\<lparr>p_state := Closed\<rparr>))"
  unfolding closed_or_same_def by (elim disjE exE conjE) auto

lemma good_step_trans_closed:
  assumes "try_fold (close_position_by_id um) is s = Inr t" "dex_inv hash s"
  shows "dex_inv hash t \<and> (\<forall>i. closed_or_same (positions s i) (positions t i))"
proof (rule try_fold_invariant [OF assms(1)])
  show "dex_inv hash s \<and> (\<forall>i. closed_or_same (positions s i) (positions s i))"
    using assms(2) by (simp add: closed_or_same_def)
next
  fix j u v
  assume u: "dex_inv hash u \<and> (\<forall>i. closed_or_same (positions s i) (positions u i))"
    and v: "close_position_by_id um j u = Inr v"
  from u have inv: "dex_inv hash u" by blast
  from good_close [OF inv v] have "dex_inv hash v" by (simp add: good_step_def)
  moreover have "closed_or_same (positions s i) (positions v i)" for i
  proof (rule close_position_effect [OF v dex_invD(1,2) [OF inv]])
    fix p
    assume p: "positions u j = Some p" "p_state p = Opened \<or> p_state p = Closed"
      "positions v = (positions u)(j := Some (p\<lparr>p_state := Closed\<rparr>))"
    show ?thesis
    proof (cases "i = j")
      case True
      from u have "closed_or_same (positions s j) (positions u j)" by blast
      with p(1,2) have "closed_or_same (positions s j) (Some (p\<lparr>p_state := Closed\<rparr>))"
        by (simp add: closed_or_same_close)
      with True p(3) show ?thesis by simp
    next
      case False
      with u p(3) show ?thesis by simp
    qed
  qed
  ultimately show "dex_inv hash v \<and> (\<forall>i. closed_or_same (positions s i) (positions v i))" by blast
qed

lemma good_step_same:
  assumes "dex_inv hash s" "same_indexes s t" "solvent t" "dex_params t = dex_params s"
  shows "good_step hash s t"
proof (rule good_stepI [OF assms(1) _ assms(3,4)])
  show "indexes_ok t" using dex_invD(1) [OF assms(1)] by (simp only: indexes_ok_same [OF assms(2)])
  have eq: "positions t = positions s" using assms(2) by (simp add: same_indexes_def)
  show "position_step (positions s i) (positions t i)" for i unfolding eq by (rule position_step.same)
  show "position_id_of hash q = i" if "positions s i = None" "positions t i = Some q" for i q
    using that by (simp add: eq)
qed

theorem dex_step_good:
  assumes "dex_step hash commit um s t" "dex_inv hash s"
  shows "good_step hash s t"
  using assms(1)
proof (cases rule: dex_step.cases)
  case (step_open p)
  then show ?thesis by (intro good_open [OF assms(2)])
next
  case (step_close i)
  then have "queue_close_position i s = Inr t" by (simp add: position_close_execute_def)
  from queue_effect [OF this] have q: "same_indexes s t" "dex_vcb t = dex_vcb s" "dex_params t = dex_params s" by auto
  then have "solvent t" using dex_invD(2) [OF assms(2)] by (subst solvent_same) (auto simp: same_indexes_def)
  with q show ?thesis by (intro good_step_same [OF assms(2)])
next
  case (step_withdraw i c n)
  then obtain b where "withdraw_position um i n s = Inr (b, t)"
    by (auto simp: position_withdraw_execute_def and_then_prod_Inr_iff split: if_splits)
  then show ?thesis by (rule good_withdraw [OF assms(2)])
next
  case (step_execution i p rs q)
  then show ?thesis by (intro good_execution [OF assms(2)])
next
  case (step_close_by_id i)
  then show ?thesis by (rule good_close [OF assms(2)])
next
  case (step_reward i a)
  then show ?thesis by (rule good_reward [OF assms(2)])
next
  case step_evict
  obtain u where u: "evict_positions um s = Inr u" "indexes_ok u" "solvent u"
    "\<And>i. positions u i = positions s i \<or>
       (\<exists>p. positions s i = Some p \<and> (p_state p = Opened \<or> p_state p = Closed)
         \<and> positions u i = Some (p\<lparr>p_state := Closed\<rparr>))"
    by (rule evict_positions_spec [OF dex_invD(1-3) [OF assms(2)], where um = um]) blast
  with step_evict have "t = u" by simp
  with u params_evict [OF u(1)] show ?thesis by (intro good_close_list [OF assms(2)]) simp_all
next
  case step_close_queued
  then obtain u where u: "try_fold (close_position_by_id um) (pending_closures s) s = Inr u"
    and t: "t = u\<lparr>pending_closures := []\<rparr>"
    by (auto simp: close_queued_positions_def and_then_Inr_iff)
  note c = good_step_trans_closed [OF u assms(2)]
  have same: "same_indexes u t" "dex_vcb t = dex_vcb u" "positions t = positions u" "dex_params t = dex_params u"
    by (simp_all add: t same_indexes_def)
  show ?thesis
  proof (rule good_close_list [OF assms(2)])
    show "indexes_ok t" using dex_invD(1) [OF conjunct1 [OF c]] by (simp only: indexes_ok_same [OF same(1)])
    show "solvent t" using dex_invD(2) [OF conjunct1 [OF c]] by (simp only: solvent_same [OF same(3,2)])
    show "dex_params t = dex_params s" using params_close_list [OF u] same(4) by simp
    show "positions t i = positions s i \<or>
       (\<exists>p. positions s i = Some p \<and> (p_state p = Opened \<or> p_state p = Closed)
         \<and> positions t i = Some (p\<lparr>p_state := Closed\<rparr>))" for i
      using c by (simp add: same(3) closed_or_same_def)
  qed
next
  case (step_inflow v)
  note e = credit_effect [OF step_inflow]
  have "solvent t"
    using dex_invD(2) [OF assms(2)] e unfolding solvent_def same_indexes_def by (metis trans_le_add1)
  with e(1) params_vcb(1) [OF step_inflow] show ?thesis by (intro good_step_same [OF assms(2)])
next
  case (step_outflow v)
  note e = debit_effect [OF step_outflow(1)]
  from e(1) params_vcb(2) [OF step_outflow(1)] step_outflow(2) show ?thesis by (intro good_step_same [OF assms(2)])
qed

lemma reachable_inv: "dex_reachable hash commit um s \<Longrightarrow> dex_inv hash s"
proof (induction rule: dex_reachable.induct)
  case (reach_genesis ps)
  show ?case by (rule genesis_inv)
next
  case (reach_step s t)
  then show ?case using dex_step_good unfolding good_step_def by blast
qed

section \<open>Progress of opening and withdrawing\<close>

lemma credit_total: "vcb_balance s (v_asset v) + unat (v_amount v) < 2 ^ 128 \<Longrightarrow> \<exists>t. dex_vcb_credit v s = Inr t"
  using dex_ledger.credit_ok [of "v_asset v" "v_amount v" s] by (cases v) (simp add: vcb_credit_of_def)

lemma debit_total: "unat (v_amount v) \<le> vcb_balance s (v_asset v) \<Longrightarrow> \<exists>t. dex_vcb_debit v s = Inr t"
  using dex_ledger.debit_ok [of "v_asset v" "v_amount v" s] by (cases v) (simp add: vcb_debit_of_def)

lemma two_values:
  assumes "distinct_assets p"
  shows "unat (v_amount (reserves_1 p)) = holdings (asset_1 (tf_pair (p_phi p))) p"
    "unat (v_amount (reserves_2 p)) = holdings (asset_2 (tf_pair (p_phi p))) p"
    "v_asset (reserves_1 p) = asset_1 (tf_pair (p_phi p))" "v_asset (reserves_2 p) = asset_2 (tf_pair (p_phi p))"
    "v_asset (reserves_1 p) \<noteq> v_asset (reserves_2 p)"
  using assms by (auto simp: reserves_1_def reserves_2_def holdings_def distinct_assets_def)

lemma open_position_total:
  assumes inv: "dex_inv hash s" and p: "p_state p = Opened" "position_ok p"
    and fresh: "positions s (position_id_of hash p) = None"
    and room: "\<And>k. vcb_balance s k + holdings k p < 2 ^ 128"
      "unat (get_position_count (tf_pair (p_phi p)) s) + 1 < 2 ^ 32"
  shows "\<exists>t. open_position hash um p s = Inr t"
proof -
  let ?i = "position_id_of hash p"
  have d: "distinct_assets p" using p(2) by (simp add: position_ok_def)
  note tv = two_values [OF d]
  obtain s1 where s1: "dex_vcb_credit (reserves_1 p) s = Inr s1"
    using credit_total [of s "reserves_1 p"] room(1) tv by auto
  have "vcb_balance s1 (v_asset (reserves_2 p)) = vcb_balance s (v_asset (reserves_2 p))"
    using credit_effect(2) [OF s1, of "v_asset (reserves_2 p)"] tv(5) by simp
  then obtain s2 where s2: "dex_vcb_credit (reserves_2 p) s1 = Inr s2"
    using credit_total [of s1 "reserves_2 p"] room(1) tv by auto
  obtain ps where ps: "dex_params s2 = Some ps"
    using dex_invD(3) [OF inv] params_vcb(1) [OF s1] params_vcb(1) [OF s2] by auto
  define u where "u = mark_trading_pair_as_active (tf_pair (p_phi p))
        (add_recently_accessed_asset (asset_2 (tf_pair (p_phi p))) (fixed_candidates ps)
          (add_recently_accessed_asset (asset_1 (tf_pair (p_phi p))) (fixed_candidates ps) s2))"
  have su: "same_indexes s2 u"
    by (simp add: u_def mark_trading_pair_as_active_def add_recently_accessed_asset_def same_indexes_def)
  have same: "same_indexes s u"
    using credit_effect(1) [OF s1] credit_effect(1) [OF s2] su by (blast intro: same_indexes_trans)
  have "\<exists>t. update_position um ?i (positions u ?i) p u = Inr (p, t)"
  proof (rule update_position_total)
    show "indexes_ok u" using dex_invD(1) [OF inv] by (simp only: indexes_ok_same [OF same])
    show "guard_invalid_transitions (positions u ?i) p = Inr ()"
      using fresh same p(1) by (simp add: same_indexes_def guard_invalid_transitions_def)
    show "unat (get_position_count (tf_pair (p_phi p)) u) + 1 < 2 ^ 32"
      using room(2) same by (simp add: same_indexes_def get_position_count_def)
  qed (use fresh same p(2) in \<open>auto simp: same_indexes_def\<close>)
  with fresh same obtain t where "update_position um ?i None p u = Inr (p, t)"
    by (auto simp: same_indexes_def)
  then show ?thesis
    using p(1) fresh s1 s2 ps
    by (simp add: open_position_def Let_def position_by_id_def get_dex_params_def u_def)
qed

lemma reserves_balance_distinct:
  assumes "asset_1 pair \<noteq> asset_2 pair"
  shows "\<exists>b. reserves_balance rs pair = Inr b"
proof -
  have "uint (r1 rs) < 2 ^ 128" "uint (r2 rs) < 2 ^ 128"
    using unsigned_less [of "r1 rs", where ?'a = int] unsigned_less [of "r2 rs", where ?'a = int] by simp_all
  then show ?thesis
    unfolding reserves_balance_def balance_add_value_def using assms
    by (intro balance_add_total) (auto simp: balance_from_value_net)
qed

definition withdrawable :: "u64 \<Rightarrow> position_state \<Rightarrow> bool" where
  "withdrawable n st \<longleftrightarrow> n = 0 \<and> st = Closed \<or> n \<noteq> 0 \<and> st = Withdrawn (n - 1)"

lemma withdraw_position_total:
  assumes inv: "dex_inv hash s" and p: "positions s i = Some p" "withdrawable n (p_state p)"
  shows "\<exists>b t. withdraw_position um i n s = Inr (b, t)"
proof -
  have ok: "position_ok p" using indexes_okD(2) [OF dex_invD(1) [OF inv] p(1)] .
  then have d: "distinct_assets p" by (simp add: position_ok_def)
  note tv = two_values [OF d]
  have cover: "holdings k p \<le> vcb_balance s k" for k
    using dex_invD(2) [OF inv] tally_member [OF indexes_okD(1) [OF dex_invD(1) [OF inv]] p(1), of "holdings k"]
    unfolding solvent_def by (meson le_trans)
  obtain b where b: "reserves_balance (p_reserves p) (tf_pair (p_phi p)) = Inr b"
    using reserves_balance_distinct d by (auto simp: distinct_assets_def)
  obtain s1 where s1: "dex_vcb_debit (reserves_1 p) s = Inr s1"
    using debit_total [of "reserves_1 p" s] cover tv by auto
  have "vcb_balance s1 (v_asset (reserves_2 p)) = vcb_balance s (v_asset (reserves_2 p))"
    using debit_effect(2) [OF s1, of "v_asset (reserves_2 p)"] tv(5) by simp
  then obtain s2 where s2: "dex_vcb_debit (reserves_2 p) s1 = Inr s2"
    using debit_total [of "reserves_2 p" s1] cover tv by auto
  have same: "same_indexes s s2"
    using debit_effect(1) [OF s1] debit_effect(1) [OF s2] by (rule same_indexes_trans)
  let ?new = "p\<lparr>p_state := Withdrawn n, p_reserves := reserves_zero\<rparr>"
  have "\<exists>t. update_position um i (positions s2 i) ?new s2 = Inr (?new, t)"
  proof (rule update_position_total)
    show "indexes_ok s2" using dex_invD(1) [OF inv] by (simp only: indexes_ok_same [OF same])
    show "position_ok ?new" using ok by (simp add: position_ok_def distinct_assets_def)
    show "guard_invalid_transitions (positions s2 i) ?new = Inr ()"
      using p same by (auto simp: same_indexes_def guard_invalid_transitions_def withdrawable_def)
  qed (use p same in \<open>auto simp: same_indexes_def\<close>)
  then obtain t where t: "update_position um i (Some p) ?new s2 = Inr (?new, t)"
    using p(1) same by (auto simp: same_indexes_def)
  have "withdraw_position um i n s = Inr (b, t)"
    using p(2) b s1 s2 t
    by (auto simp: withdraw_position_def position_by_id_def p(1) withdrawable_def)
  then show ?thesis by blast
qed

lemma withdraw_position_iff:
  assumes "dex_inv hash s"
  shows "(\<exists>b t. withdraw_position um i n s = Inr (b, t)) \<longleftrightarrow>
    (\<exists>p. positions s i = Some p \<and> withdrawable n (p_state p))"
proof
  assume "\<exists>b t. withdraw_position um i n s = Inr (b, t)"
  then obtain b t where w: "withdraw_position um i n s = Inr (b, t)" by blast
  show "\<exists>p. positions s i = Some p \<and> withdrawable n (p_state p)"
    by (rule withdraw_position_effect [OF w]) (auto simp: withdrawable_def)
qed (use withdraw_position_total [OF assms] in blast)

lemma withdraw_pays:
  assumes "dex_inv hash s" "withdraw_position um i n s = Inr (b, t)"
  shows "\<exists>p. positions s i = Some p \<and> (\<forall>k. net b k = int (holdings k p) \<and> vcb_balance t k + holdings k p = vcb_balance s k)
    \<and> (\<exists>q. positions t i = Some q \<and> (\<forall>k. holdings k q = 0))"
proof (rule withdraw_position_effect [OF assms(2)])
  fix p
  assume p: "positions s i = Some p" "reserves_balance (p_reserves p) (tf_pair (p_phi p)) = Inr b"
    "\<And>k. vcb_balance t k + holdings k p = vcb_balance s k"
    "positions t = (positions s)(i := Some (p\<lparr>p_state := Withdrawn n, p_reserves := reserves_zero\<rparr>))"
  have b: "net b k = int (holdings k p)" for k
    unfolding reserves_balance_net(2) [OF p(2)] holdings_def by simp
  have z: "holdings k (p\<lparr>p_state := Withdrawn n, p_reserves := reserves_zero\<rparr>) = 0" for k
    by (simp add: holdings_def reserves_zero_def)
  have q: "positions t i = Some (p\<lparr>p_state := Withdrawn n, p_reserves := reserves_zero\<rparr>)"
    by (simp add: p(4))
  show ?thesis
    by (intro exI [of _ p] exI [of _ "p\<lparr>p_state := Withdrawn n, p_reserves := reserves_zero\<rparr>"] conjI allI)
      (rule p(1) b p(3) q z)+
qed

end
