(* ===== verification/FillRoute.thy ===== *)
theory FillRoute
  imports DexMachine
begin

text \<open>
  Filling a trade along a route (\<open>crates/core/component/dex/src/component/router/fill_route.rs\<close>):
  the frontier of least-priced positions, one per hop, the sensing of the hop that constrains
  the trade, and the loop that executes, commits and replaces exhausted positions.

  A stream of positions reads the price index as it was when the stream was created, so it is
  the list of its remaining entries. An error leaves the caller's state as it was: the function
  works on a \<open>StateDelta\<close> that is dropped. \<open>FillPanic\<close> stands for the panics of this module.
\<close>

datatype fill_error =
    AssetIdMismatch asset_id trading_pair
  | ExecutionOverflow position_id
  | InvalidRoute nat
  | MissingFrontierPosition position_id
  | InsufficientLiquidity directed_pair
  | FillPanic

type_synonym 'a fill_result = "fill_error + 'a"

definition or_panic :: "'e + 'a \<Rightarrow> 'a fill_result" where
  "or_panic r = (case r of Inl _ \<Rightarrow> Inl FillPanic | Inr a \<Rightarrow> Inr a)"

definition some_or_panic :: "'a option \<Rightarrow> 'a fill_result" where
  "some_or_panic x = ok_or x FillPanic"

lemma or_panic_Inr_iff [result_simps]: "or_panic r = Inr a \<longleftrightarrow> r = Inr a"
  by (cases r) (auto simp: or_panic_def)

lemma or_panic_simps [simp]: "or_panic (Inr a) = Inr a" "or_panic (Inl e) = Inl FillPanic"
  by (simp_all add: or_panic_def)

lemma some_or_panic_Inr_iff [result_simps]: "some_or_panic x = Inr a \<longleftrightarrow> x = Some a"
  by (cases x) (auto simp: some_or_panic_def)

lemma some_or_panic_simps [simp]: "some_or_panic (Some a) = Inr a" "some_or_panic None = Inl FillPanic"
  by (simp_all add: some_or_panic_def)

section \<open>Swap executions\<close>

record swap_execution =
  se_traces :: "asset_value list list"
  se_input :: asset_value
  se_output :: asset_value

definition max_price :: "swap_execution \<Rightarrow> fixpoint option" where
  "max_price se =
     (if se_traces se = [] then None
      else let trace = last (se_traces se) in
        if trace = [] then None
        else case fp_ratio (fp_from_amount (v_amount (hd trace))) (fp_from_amount (v_amount (last trace))) of Inl _ \<Rightarrow> None | Inr p \<Rightarrow> Some p)"

section \<open>The frontier\<close>

fun windows_pairs :: "asset_id list \<Rightarrow> directed_pair list" where
  "windows_pairs (a # b # r) = DirectedPair a b # windows_pairs (b # r)"
| "windows_pairs r = []"

definition breakdown_route :: "asset_id list \<Rightarrow> directed_pair list fill_result" where
  "breakdown_route route =
     (if length route < 2 then Inl (InvalidRoute (length route)) else Inr (windows_pairs route))"

type_synonym position_streams = "directed_pair \<Rightarrow> (position_id \<times> position) list"

record frontier =
  fr_pairs :: "directed_pair list"
  fr_positions :: "position list"
  fr_ids :: "position_id set"
  fr_state :: dex_state
  fr_streams :: position_streams
  fr_trace :: "asset_value list list"

record frontier_tx =
  new_reserves :: "reserves option list"
  tx_trace :: "amount option list"

definition frontier_tx_new :: "frontier \<Rightarrow> frontier_tx" where
  "frontier_tx_new f = \<lparr>new_reserves = replicate (length (fr_positions f)) None,
     tx_trace = replicate (length (fr_pairs f) + 1) None\<rparr>"

definition actual_price :: "frontier_tx \<Rightarrow> fixpoint result" where
  "actual_price tx =
     (case (hd (tx_trace tx), last (tx_trace tx)) of
        (Some i, Some out) \<Rightarrow> fp_checked_div (fp_from_amount i) (fp_from_amount out)
      | _ \<Rightarrow> Inl Panic)"

text \<open>The next entry of a stream whose position is not in use.\<close>

fun next_position :: "position_id set \<Rightarrow> (position_id \<times> position) list
    \<Rightarrow> ((position_id \<times> position) \<times> (position_id \<times> position) list) option" where
  "next_position used [] = None"
| "next_position used ((i, p) # rest) = (if i \<in> used then next_position used rest else Some ((i, p), rest))"

definition load_step :: "directed_pair \<Rightarrow> position list \<times> position_id set \<times> position_streams
    \<Rightarrow> (position list \<times> position_id set \<times> position_streams) fill_result" where
  "load_step pair = (\<lambda>(ps, used, streams).
     and_then (ok_or (next_position used (streams pair)) (InsufficientLiquidity pair)) (\<lambda>((i, p), rest).
       Inr (ps @ [p], insert i used, streams(pair := rest))))"

definition frontier_load :: "dex_state \<Rightarrow> directed_pair list \<Rightarrow> frontier fill_result" where
  "frontier_load s pairs =
     and_then (try_fold load_step pairs ([], {}, \<lambda>d. positions_by_price d s)) (\<lambda>(ps, used, streams).
       Inr \<lparr>fr_pairs = pairs, fr_positions = ps, fr_ids = used, fr_state = s, fr_streams = streams, fr_trace = []\<rparr>)"

definition save_step :: "(u8 list \<Rightarrow> u8 list) \<Rightarrow> asset_id \<Rightarrow> position \<Rightarrow> dex_state \<Rightarrow> dex_state result" where
  "save_step hash um p s = and_then (position_execution hash um p s) (\<lambda>(_, s). Inr s)"

definition frontier_save :: "(u8 list \<Rightarrow> u8 list) \<Rightarrow> asset_id \<Rightarrow> frontier \<Rightarrow> dex_state result" where
  "frontier_save hash um f = try_fold (save_step hash um) (fr_positions f) (fr_state f)"

section \<open>Sensing\<close>

fun sense_from :: "(u8 list \<Rightarrow> u8 list) \<Rightarrow> nat \<Rightarrow> position list \<Rightarrow> asset_value \<Rightarrow> nat option
    \<Rightarrow> nat option fill_result" where
  "sense_from hash i [] current c = Inr c"
| "sense_from hash i (p # ps) current c =
     (if \<not> matches_input (p_phi p) (v_asset current)
      then Inl (AssetIdMismatch (v_asset current) (tf_pair (p_phi p)))
      else case tf_fill (p_phi p) current (p_reserves p) of
        Inl Panic \<Rightarrow> Inl FillPanic
      | Inl _ \<Rightarrow> Inl (ExecutionOverflow (position_id_of hash p))
      | Inr (unfilled, _, out) \<Rightarrow>
          sense_from hash (i + 1) ps out (if v_amount unfilled > 0 then Some i else c))"

definition sense_capacity_constraint ::
  "(u8 list \<Rightarrow> u8 list) \<Rightarrow> frontier \<Rightarrow> asset_value \<Rightarrow> nat option fill_result" where
  "sense_capacity_constraint hash f input = sense_from hash 0 (fr_positions f) input None"

section \<open>Executing\<close>

definition fill_forward_step :: "position list \<Rightarrow> nat \<Rightarrow> frontier_tx \<times> asset_value
    \<Rightarrow> (frontier_tx \<times> asset_value) fill_result" where
  "fill_forward_step ps i = (\<lambda>(tx, current).
     and_then (or_panic (tf_fill (p_phi (ps ! i)) current (p_reserves (ps ! i)))) (\<lambda>(unfilled, rs, out).
       if v_amount unfilled \<noteq> amount_zero then Inl FillPanic
       else Inr (\<lparr>new_reserves = (new_reserves tx)[i := Some rs],
                  tx_trace = (tx_trace tx)[i + 1 := Some (v_amount out)]\<rparr>, out)))"

definition fill_forward :: "frontier \<Rightarrow> frontier_tx \<Rightarrow> nat \<Rightarrow> asset_value \<Rightarrow> frontier_tx fill_result" where
  "fill_forward f tx start input =
     and_then (try_fold (fill_forward_step (fr_positions f)) [start..<length (fr_positions f)] (tx, input))
       (\<lambda>(tx, _). Inr tx)"

definition fill_backward_step :: "position list \<Rightarrow> nat \<Rightarrow> frontier_tx \<times> asset_value
    \<Rightarrow> (frontier_tx \<times> asset_value) fill_result" where
  "fill_backward_step ps i = (\<lambda>(tx, current).
     (let tx = tx\<lparr>tx_trace := (tx_trace tx)[i + 1 := Some (v_amount current)]\<rparr> in
      and_then (or_panic (tf_fill_output (p_phi (ps ! i)) (p_reserves (ps ! i)) current)) (\<lambda>filled.
      and_then (some_or_panic filled) (\<lambda>(rs, prev_input).
      Inr (tx\<lparr>new_reserves := (new_reserves tx)[i := Some rs]\<rparr>, prev_input)))))"

definition fill_backward :: "frontier \<Rightarrow> frontier_tx \<Rightarrow> nat \<Rightarrow> asset_value \<Rightarrow> frontier_tx fill_result" where
  "fill_backward f tx start output =
     and_then (try_fold (fill_backward_step (fr_positions f)) (rev [0..<start + 1]) (tx, output)) (\<lambda>(tx, current).
       Inr (tx\<lparr>tx_trace := (tx_trace tx)[0 := Some (v_amount current)]\<rparr>))"

definition fill_unconstrained :: "frontier \<Rightarrow> asset_value \<Rightarrow> frontier_tx fill_result" where
  "fill_unconstrained f input =
     (if v_asset input \<noteq> dp_start (hd (fr_pairs f)) then Inl FillPanic
      else let tx = frontier_tx_new f in
        fill_forward f (tx\<lparr>tx_trace := (tx_trace tx)[0 := Some (v_amount input)]\<rparr>) 0 input)"

definition fill_constrained :: "frontier \<Rightarrow> nat \<Rightarrow> frontier_tx fill_result" where
  "fill_constrained f c =
     (let pair = fr_pairs f ! c in
      and_then (some_or_panic (reserves_for (fr_positions f ! c) (dp_end pair))) (\<lambda>a.
      (let exactly_consumed = \<lparr>v_amount = a, v_asset = dp_end pair\<rparr> in
      and_then (fill_backward f (frontier_tx_new f) c exactly_consumed) (\<lambda>tx.
      fill_forward f tx (c + 1) exactly_consumed))))"

section \<open>Committing\<close>

definition apply_step :: "directed_pair list \<Rightarrow> frontier_tx \<Rightarrow> nat \<Rightarrow> position list \<times> asset_value list
    \<Rightarrow> (position list \<times> asset_value list) fill_result" where
  "apply_step pairs tx i = (\<lambda>(ps, trace).
     and_then (some_or_panic (new_reserves tx ! i)) (\<lambda>rs.
     and_then (some_or_panic (tx_trace tx ! (i + 1))) (\<lambda>a.
     Inr (ps[i := (ps ! i)\<lparr>p_reserves := rs\<rparr>], trace @ [\<lparr>v_amount = a, v_asset = dp_end (pairs ! i)\<rparr>]))))"

definition frontier_apply :: "frontier \<Rightarrow> frontier_tx \<Rightarrow> (frontier \<times> amount \<times> amount) fill_result" where
  "frontier_apply f tx =
     and_then (some_or_panic (tx_trace tx ! 0)) (\<lambda>a.
     and_then (try_fold (apply_step (fr_pairs f) tx) [0..<length (new_reserves tx)]
         (fr_positions f, [\<lparr>v_amount = a, v_asset = dp_start (fr_pairs f ! 0)\<rparr>])) (\<lambda>(ps, trace).
     and_then (some_or_panic (last (tx_trace tx))) (\<lambda>b.
     Inr (f\<lparr>fr_positions := ps, fr_trace := fr_trace f @ [trace]\<rparr>, a, b))))"

section \<open>Replacing\<close>

definition replace_position ::
  "(u8 list \<Rightarrow> u8 list) \<Rightarrow> asset_id \<Rightarrow> nat \<Rightarrow> frontier \<Rightarrow> (bool \<times> frontier) fill_result" where
  "replace_position hash um index f =
     and_then (or_panic (position_execution hash um (fr_positions f ! index) (fr_state f))) (\<lambda>(updated, s).
     (let f = f\<lparr>fr_positions := (fr_positions f)[index := updated], fr_state := s\<rparr>; pair = fr_pairs f ! index in
      case next_position (fr_ids f) (fr_streams f pair) of
        None \<Rightarrow> Inr (False, f\<lparr>fr_streams := (fr_streams f)(pair := [])\<rparr>)
      | Some ((i, p), rest) \<Rightarrow>
          Inr (True, f\<lparr>fr_streams := (fr_streams f)(pair := rest), fr_ids := insert i (fr_ids f),
                       fr_positions := (fr_positions f)[index := p]\<rparr>)))"

text \<open>The loop over the hops, which returns early when a position cannot be replaced.\<close>

fun replace_empty_from :: "(u8 list \<Rightarrow> u8 list) \<Rightarrow> asset_id \<Rightarrow> nat list \<Rightarrow> frontier
    \<Rightarrow> (bool \<times> frontier) fill_result" where
  "replace_empty_from hash um [] f = Inr (True, f)"
| "replace_empty_from hash um (i # is) f =
     and_then (ok_or (reserves_for (fr_positions f ! i) (dp_end (fr_pairs f ! i)))
         (AssetIdMismatch (dp_end (fr_pairs f ! i)) (tf_pair (p_phi (fr_positions f ! i))))) (\<lambda>desired.
       if desired = 0 then
         and_then (replace_position hash um i f) (\<lambda>(found, f).
           if found then replace_empty_from hash um is f else Inr (False, f))
       else replace_empty_from hash um is f)"

definition replace_empty_positions ::
  "(u8 list \<Rightarrow> u8 list) \<Rightarrow> asset_id \<Rightarrow> frontier \<Rightarrow> (bool \<times> frontier) fill_result" where
  "replace_empty_positions hash um f = replace_empty_from hash um [0..<length (fr_pairs f)] f"

section \<open>The loop\<close>

definition fill_should_apply :: "fixpoint option \<Rightarrow> bool \<Rightarrow> frontier_tx \<Rightarrow> bool" where
  "fill_should_apply spill filled_once tx =
     (case spill of None \<Rightarrow> True
      | Some sp \<Rightarrow> (case actual_price tx of Inr p \<Rightarrow> p \<le> sp | Inl _ \<Rightarrow> False) \<or> \<not> filled_once)"

text \<open>
  \<open>fill_loop\<close> spends one unit of fuel per iteration. An iteration that goes on has consumed an
  entry of a stream, so the number of entries in the streams of the route is enough fuel.
\<close>

fun fill_loop :: "(u8 list \<Rightarrow> u8 list) \<Rightarrow> asset_id \<Rightarrow> fixpoint option \<Rightarrow> nat \<Rightarrow> bool \<Rightarrow> asset_value
    \<Rightarrow> frontier \<Rightarrow> frontier option fill_result" where
  "fill_loop hash um spill 0 filled_once input f = Inr None"
| "fill_loop hash um spill (Suc fuel) filled_once input f =
     and_then (sense_capacity_constraint hash f input) (\<lambda>constraining.
     and_then (case constraining of Some c \<Rightarrow> fill_constrained f c | None \<Rightarrow> fill_unconstrained f input) (\<lambda>tx.
     if \<not> fill_should_apply spill filled_once tx then Inr (Some f)
     else
       and_then (frontier_apply f tx) (\<lambda>(f, current_input, current_output).
       (let input = input\<lparr>v_amount := v_amount input - current_input\<rparr> in
        and_then (replace_empty_positions hash um f) (\<lambda>(replaced, f).
        if \<not> replaced then Inr (Some f)
        else if constraining = None then
          (if v_amount input \<noteq> 0 then Inl FillPanic else Inr (Some f))
        else fill_loop hash um spill fuel True input f)))))"

definition stream_size :: "directed_pair list \<Rightarrow> position_streams \<Rightarrow> nat" where
  "stream_size pairs streams = (\<Sum>d \<in> set pairs. length (streams d))"

definition trace_total :: "(asset_value list \<Rightarrow> asset_value) \<Rightarrow> asset_value list list \<Rightarrow> amount" where
  "trace_total end_of traces = amount_sum (map (v_amount \<circ> end_of) traces)"

definition fill_route_inner ::
  "(u8 list \<Rightarrow> u8 list) \<Rightarrow> asset_id \<Rightarrow> asset_value \<Rightarrow> asset_id list \<Rightarrow> fixpoint option \<Rightarrow> bool
    \<Rightarrow> dex_state \<Rightarrow> (swap_execution \<times> dex_state) fill_result" where
  "fill_route_inner hash um input hops spill ensure_progress s =
     (let route = v_asset input # hops in
      and_then (breakdown_route route) (\<lambda>pairs.
      and_then (frontier_load s pairs) (\<lambda>f.
      and_then (fill_loop hash um spill (stream_size pairs (fr_streams f) + 1) (\<not> ensure_progress) input f) (\<lambda>res.
      and_then (some_or_panic res) (\<lambda>f.
      and_then (or_panic (frontier_save hash um f)) (\<lambda>s.
      if [] \<in> set (fr_trace f) then Inl FillPanic
      else Inr (\<lparr>se_traces = fr_trace f,
             se_input = \<lparr>v_amount = trace_total hd (fr_trace f), v_asset = dp_start (hd (fr_pairs f))\<rparr>,
             se_output = \<lparr>v_amount = trace_total last (fr_trace f), v_asset = dp_end (last (fr_pairs f))\<rparr>\<rparr>, s)))))))"

definition fill_route ::
  "(u8 list \<Rightarrow> u8 list) \<Rightarrow> asset_id \<Rightarrow> asset_value \<Rightarrow> asset_id list \<Rightarrow> fixpoint option
    \<Rightarrow> dex_state \<Rightarrow> (swap_execution \<times> dex_state) fill_result" where
  "fill_route hash um input hops spill s = fill_route_inner hash um input hops spill True s"

end
