(* ===== verification/FillSteps.thy ===== *)
theory FillSteps
  imports FillRoute
begin

text \<open>
  One pass along the frontier: what a fill and a fill for a given output do to the position of
  one hop, that the sensed constraint makes both directions of execution succeed, and that the
  resulting transaction conserves value hop by hop.
\<close>

section \<open>A position serving a hop\<close>

definition serves :: "position \<Rightarrow> directed_pair \<Rightarrow> bool" where
  "serves p d \<longleftrightarrow> position_ok p \<and> (d = pair_12 (tf_pair (p_phi p)) \<or> d = pair_21 (tf_pair (p_phi p)))"

text \<open>The trading function and the reserves of a position, oriented along a directed pair, and
  the reserves turned back.\<close>

definition hop_function :: "position \<Rightarrow> directed_pair \<Rightarrow> bare_trading_function" where
  "hop_function p d = (if d = pair_12 (tf_pair (p_phi p)) then tf_component (p_phi p) else bare_flip (tf_component (p_phi p)))"

definition hop_turn :: "position \<Rightarrow> directed_pair \<Rightarrow> reserves \<Rightarrow> reserves" where
  "hop_turn p d rs = (if d = pair_12 (tf_pair (p_phi p)) then rs else reserves_flip rs)"

definition hop_reserves :: "position \<Rightarrow> directed_pair \<Rightarrow> reserves" where
  "hop_reserves p d = hop_turn p d (p_reserves p)"

lemma serves_cases:
  assumes "serves p d"
  obtains "d = pair_12 (tf_pair (p_phi p))" "dp_start d = asset_1 (tf_pair (p_phi p))" "dp_end d = asset_2 (tf_pair (p_phi p))"
    "dp_start d \<noteq> dp_end d"
  | "d = pair_21 (tf_pair (p_phi p))" "d \<noteq> pair_12 (tf_pair (p_phi p))" "dp_start d = asset_2 (tf_pair (p_phi p))"
    "dp_end d = asset_1 (tf_pair (p_phi p))" "dp_start d \<noteq> dp_end d"
proof -
  have d: "distinct_assets p" using assms by (simp add: serves_def position_ok_def)
  from assms consider "d = pair_12 (tf_pair (p_phi p))" | "d = pair_21 (tf_pair (p_phi p))" by (auto simp: serves_def)
  then show ?thesis
  proof cases
    case 1
    with d that(1) show ?thesis by (simp add: distinct_assets_def)
  next
    case 2
    with d pair_12_neq_21 [OF d] that(2) show ?thesis by (auto simp: distinct_assets_def)
  qed
qed

lemma serves_neq: "serves p d \<Longrightarrow> dp_start d \<noteq> dp_end d"
  by (erule serves_cases)

lemma serves_phi: "serves p d \<Longrightarrow> p_phi q = p_phi p \<Longrightarrow> serves q d"
  by (simp add: serves_def position_ok_def distinct_assets_def)

lemma serves_tradable: "serves p d \<Longrightarrow> tradable (hop_function p d)"
  by (simp add: serves_def position_ok_def hop_function_def tradable_flip)

lemma serves_holdings:
  assumes "serves p d"
  shows "holdings k p = (if k = dp_start d then unat (r1 (hop_reserves p d)) else 0)
    + (if k = dp_end d then unat (r2 (hop_reserves p d)) else 0)"
  by (rule serves_cases [OF assms]) (auto simp: holdings_def hop_reserves_def hop_turn_def)

lemma serves_reserves_for:
  assumes "serves p d"
  shows "reserves_for p (dp_end d) = Some (r2 (hop_reserves p d))" "reserves_for p (dp_start d) = Some (r1 (hop_reserves p d))"
  by (rule serves_cases [OF assms]; auto simp: reserves_for_def hop_reserves_def hop_turn_def)+

lemma hop_turn_turn [simp]: "hop_turn p d (hop_turn p d rs) = rs"
  by (simp add: hop_turn_def)

lemma hop_reserves_update [simp]: "hop_reserves (p\<lparr>p_reserves := hop_turn p d rs\<rparr>) d = rs"
  by (simp add: hop_reserves_def hop_turn_def)

section \<open>Filling one hop\<close>

lemma tf_fill_hop:
  assumes "serves p d"
  shows "tf_fill (p_phi p) \<lparr>v_amount = a, v_asset = dp_start d\<rparr> (p_reserves p) =
    and_then (bare_fill (hop_function p d) a (hop_reserves p d)) (\<lambda>(u, rs, b).
      Inr (\<lparr>v_amount = u, v_asset = dp_start d\<rparr>, hop_turn p d rs, \<lparr>v_amount = b, v_asset = dp_end d\<rparr>))"
  by (rule serves_cases [OF assms])
    (auto simp: tf_fill_def hop_function_def hop_reserves_def hop_turn_def)

lemma tf_fill_output_hop:
  assumes "serves p d"
  shows "tf_fill_output (p_phi p) (p_reserves p) \<lparr>v_amount = b, v_asset = dp_end d\<rparr> =
    and_then (bare_fill_output (hop_function p d) (hop_reserves p d) b) (\<lambda>x.
      Inr (map_option (\<lambda>(rs, a). (hop_turn p d rs, \<lparr>v_amount = a, v_asset = dp_start d\<rparr>)) x))"
  by (rule serves_cases [OF assms])
    (auto simp: tf_fill_output_def hop_function_def hop_reserves_def hop_turn_def)

text \<open>The state of a position before and after a swap of \<open>a\<close> for \<open>b\<close> along a hop.\<close>

definition hop_swap :: "directed_pair \<Rightarrow> position \<Rightarrow> position \<Rightarrow> nat \<Rightarrow> nat \<Rightarrow> bool" where
  "hop_swap d p q a b \<longleftrightarrow>
     (\<forall>k. holdings k q + (if k = dp_end d then b else 0) = holdings k p + (if k = dp_start d then a else 0))"

lemma hop_swapI:
  assumes "serves p d" "unat (r1 rs) = unat (r1 (hop_reserves p d)) + a" "unat (r2 rs) + b = unat (r2 (hop_reserves p d))"
  shows "hop_swap d p (p\<lparr>p_reserves := hop_turn p d rs\<rparr>) a b"
  unfolding hop_swap_def
proof
  fix k
  let ?q = "p\<lparr>p_reserves := hop_turn p d rs\<rparr>"
  have "serves ?q d" by (rule serves_phi [OF assms(1)]) simp
  note h = serves_holdings [OF this, of k, unfolded hop_reserves_update] serves_holdings [OF assms(1), of k]
  show "holdings k ?q + (if k = dp_end d then b else 0) = holdings k p + (if k = dp_start d then a else 0)"
    unfolding h using assms(2,3) serves_neq [OF assms(1)]
    by simp
qed

text \<open>A full fill, and a fill for an output that a fill of \<open>a\<close> reaches.\<close>

lemma full_fill_swap:
  assumes "serves p d" "bare_fill (hop_function p d) a (hop_reserves p d) = Inr (0, rs, b)"
    and "holdings (dp_start d) p + unat a < 2 ^ 128"
  shows "hop_swap d p (p\<lparr>p_reserves := hop_turn p d rs\<rparr>) (unat a) (unat b)" "unat b \<le> holdings (dp_end d) p"
proof -
  have start: "holdings (dp_start d) p = unat (r1 (hop_reserves p d))" "holdings (dp_end d) p = unat (r2 (hop_reserves p d))"
    using serves_holdings [OF assms(1)] serves_neq [OF assms(1)] by simp_all
  with assms(3) have "unat (r1 (hop_reserves p d)) + unat a < two128" by simp
  note c = bare_fill_conserves_lemma [OF assms(2) this]
  show "hop_swap d p (p\<lparr>p_reserves := hop_turn p d rs\<rparr>) (unat a) (unat b)"
    by (rule hop_swapI [OF assms(1)]) (use c in simp_all)
  show "unat b \<le> holdings (dp_end d) p" using c(2) start by simp
qed

lemma fill_output_le:
  assumes "effective_price f = Inr x" "effective_price_inv f = Inr y" "b \<le> r2 rs"
    and "unat b * two128 \<le> unat (raw y) * unat a"
  shows "\<exists>e. bare_fill_output f rs b = Inr (Some (\<lparr>r1 = r1 rs + e, r2 = r2 rs - b\<rparr>, e)) \<and> e \<le> a"
proof -
  have le: "unat (raw x) * unat b \<le> two128 * unat a"
  proof (rule mult_right_le_imp_le [of _ two128])
    have "unat (raw x) * (unat b * two128) \<le> unat (raw x) * (unat (raw y) * unat a)"
      using assms(4) by (rule mult_le_mono2)
    also have "\<dots> = (unat (raw x) * unat (raw y)) * unat a" by (simp only: mult.assoc)
    also have "\<dots> \<le> (two128 * two128) * unat a"
      using price_product [OF assms(1,2)] by (rule mult_le_mono1)
    finally show "unat (raw x) * unat b * two128 \<le> two128 * unat a * two128" by (simp only: ac_simps)
  qed simp
  have "two128 * unat a < 2 ^ 256" using u128_less [of a] by simp
  with le have "unat (raw x) * unat b < 2 ^ 256" by (rule order.strict_trans1)
  then obtain z where z: "unat (raw z) = unat (raw x) * unat b" using fp_ex by blast
  then have cz: "convert_to_delta_1 f (fp_from_amount b) = Inr z"
    unfolding convert_to_delta_1_iff using assms(1) by blast
  have "(unat (raw z) + (two128 - 1)) div two128 \<le> unat a"
    unfolding z by (rule ceil_le [OF le]) simp
  then obtain e :: amount where e: "unat e = (unat (raw z) + (two128 - 1)) div two128" "unat e \<le> unat a"
    using unat_surj_le by fastforce
  then have "round_up_exact z = Inr e" unfolding round_up_exact_iff by simp
  with cz e(2) assms(3) show ?thesis by (simp add: bare_fill_output_def not_less word_le_nat_alt)
qed

lemma fill_reaches:
  assumes "bare_fill f a rs = Inr (u, rs', c)" "b \<le> c"
  shows "\<exists>y. effective_price_inv f = Inr y \<and> unat b * two128 \<le> unat (raw y) * unat a \<and> b \<le> r2 rs"
proof -
  have "\<exists>y. effective_price_inv f = Inr y \<and> unat c * two128 \<le> unat (raw y) * unat a \<and> c \<le> r2 rs"
  proof (rule bare_fill_cases [OF assms(1)])
    fix y
    assume y: "effective_price_inv f = Inr y" "unat (raw y) * unat a \<le> unat (r2 rs) * two128"
      "unat c = unat (raw y) * unat a div two128"
    have "unat c * two128 \<le> unat (raw y) * unat a" unfolding y(3) by (rule div_times_less_eq_dividend)
    moreover have "unat c \<le> unat (r2 rs)" unfolding y(3) using div_le_mono [OF y(2), of two128] by simp
    ultimately show ?thesis using y(1) by (auto simp: word_le_nat_alt)
  qed auto
  then obtain y where y: "effective_price_inv f = Inr y" "unat c * two128 \<le> unat (raw y) * unat a" "c \<le> r2 rs" by blast
  have "unat b * two128 \<le> unat c * two128" using assms(2) by (simp add: word_le_nat_alt)
  also note y(2)
  finally have "unat b * two128 \<le> unat (raw y) * unat a" .
  with y(1) order_trans [OF assms(2) y(3)] show ?thesis by blast
qed

lemma output_fill_swap:
  assumes "serves p d" "bare_fill (hop_function p d) a (hop_reserves p d) = Inr (u, rs', c)" "b \<le> c"
    and "holdings (dp_start d) p + unat a < 2 ^ 128"
  shows "\<exists>rs e. bare_fill_output (hop_function p d) (hop_reserves p d) b = Inr (Some (rs, e)) \<and> e \<le> a
    \<and> hop_swap d p (p\<lparr>p_reserves := hop_turn p d rs\<rparr>) (unat e) (unat b) \<and> r2 rs = r2 (hop_reserves p d) - b
    \<and> unat b \<le> holdings (dp_end d) p"
proof -
  let ?rs = "hop_reserves p d"
  have start: "holdings (dp_start d) p = unat (r1 ?rs)" "holdings (dp_end d) p = unat (r2 ?rs)"
    using serves_holdings [OF assms(1)] serves_neq [OF assms(1)] by simp_all
  obtain y where y: "effective_price_inv (hop_function p d) = Inr y" "unat b * two128 \<le> unat (raw y) * unat a" "b \<le> r2 ?rs"
    using fill_reaches [OF assms(2,3)] by blast
  obtain x where x: "effective_price (hop_function p d) = Inr x"
    by (rule effective_prices_total [OF serves_tradable [OF assms(1)]])
  obtain e where e: "bare_fill_output (hop_function p d) ?rs b = Inr (Some (\<lparr>r1 = r1 ?rs + e, r2 = r2 ?rs - b\<rparr>, e))" "e \<le> a"
    using fill_output_le [OF x y(1,3,2)] by blast
  have "unat (r1 ?rs + e) = unat (r1 ?rs) + unat e"
    using assms(4) e(2) start by (intro unat_add_no_overflow) (simp add: word_le_nat_alt)
  moreover have "unat (r2 ?rs - b) + unat b = unat (r2 ?rs)"
    using y(3) by (simp add: unat_sub_no_underflow word_le_nat_alt)
  ultimately have "hop_swap d p (p\<lparr>p_reserves := hop_turn p d \<lparr>r1 = r1 ?rs + e, r2 = r2 ?rs - b\<rparr>\<rparr>) (unat e) (unat b)"
    by (intro hop_swapI [OF assms(1)]) simp_all
  with e y(3) start show ?thesis by (auto simp: word_le_nat_alt)
qed

section \<open>Sensing along the frontier\<close>

text \<open>A frontier whose positions serve its hops, end to end.\<close>

definition chained :: "directed_pair list \<Rightarrow> position list \<Rightarrow> bool" where
  "chained ds ps \<longleftrightarrow> length ps = length ds \<and> (\<forall>j < length ds. serves (ps ! j) (ds ! j))
     \<and> (\<forall>j. Suc j < length ds \<longrightarrow> dp_end (ds ! j) = dp_start (ds ! Suc j))"

lemma chained_Cons:
  "chained (d # ds) (p # ps) \<longleftrightarrow> serves p d \<and> chained ds ps \<and> (ds \<noteq> [] \<longrightarrow> dp_end d = dp_start (ds ! 0))"
proof -
  have all: "(\<forall>j < Suc n. P j) \<longleftrightarrow> P 0 \<and> (\<forall>j < n. P (Suc j))" for P and n :: nat
    by (metis Suc_less_eq less_Suc_eq_0_disj zero_less_Suc)
  have link: "(\<forall>j. Suc j < Suc (length ds) \<longrightarrow> dp_end ((d # ds) ! j) = dp_start ((d # ds) ! Suc j))
      \<longleftrightarrow> (\<forall>j. Suc j < length ds \<longrightarrow> dp_end (ds ! j) = dp_start (ds ! Suc j)) \<and> (ds \<noteq> [] \<longrightarrow> dp_end d = dp_start (ds ! 0))"
    (is "?l \<longleftrightarrow> ?r")
  proof
    assume l: ?l
    show ?r using l [rule_format, of 0] l [rule_format, of "Suc j" for j] by auto
  next
    assume r: ?r
    show ?l
    proof (intro allI impI)
      fix j assume "Suc j < Suc (length ds)"
      then show "dp_end ((d # ds) ! j) = dp_start ((d # ds) ! Suc j)" using r by (cases j) auto
    qed
  qed
  show ?thesis unfolding chained_def length_Cons all link by auto
qed

lemma chainedD:
  assumes "chained ds ps"
  shows "length ps = length ds" "j < length ds \<Longrightarrow> serves (ps ! j) (ds ! j)"
    "Suc j < length ds \<Longrightarrow> dp_end (ds ! j) = dp_start (ds ! Suc j)"
  using assms by (auto simp: chained_def)

text \<open>\<open>xs j\<close> goes into hop \<open>j\<close>, which leaves \<open>us j\<close> of it and passes on \<open>xs (Suc j)\<close>.\<close>

definition run :: "directed_pair list \<Rightarrow> position list \<Rightarrow> (nat \<Rightarrow> amount) \<Rightarrow> (nat \<Rightarrow> amount) \<Rightarrow> bool" where
  "run ds ps xs us \<longleftrightarrow> (\<forall>j < length ds. \<exists>rs.
     bare_fill (hop_function (ps ! j) (ds ! j)) (xs j) (hop_reserves (ps ! j) (ds ! j)) = Inr (us j, rs, xs (Suc j)))"

definition last_constraint :: "nat \<Rightarrow> nat \<Rightarrow> (nat \<Rightarrow> amount) \<Rightarrow> nat option \<Rightarrow> nat option \<Rightarrow> bool" where
  "last_constraint i n us c0 c \<longleftrightarrow> c = c0 \<and> (\<forall>j < n. us j = 0) \<or>
     (\<exists>m < n. c = Some (i + m) \<and> us m \<noteq> 0 \<and> (\<forall>j < n. m < j \<longrightarrow> us j = 0))"

lemma last_constraint_Suc:
  assumes "last_constraint (Suc i) n us (if u \<noteq> 0 then Some i else c0) c"
  shows "last_constraint i (Suc n) (case_nat u us) c0 c"
proof -
  have all: "(\<forall>j < Suc n. P j) \<longleftrightarrow> P 0 \<and> (\<forall>j < n. P (Suc j))" for P
    by (metis Suc_less_eq less_Suc_eq_0_disj zero_less_Suc)
  from assms consider
    "c = (if u \<noteq> 0 then Some i else c0)" "\<forall>j < n. us j = 0"
  | m where "m < n" "c = Some (Suc i + m)" "us m \<noteq> 0" "\<forall>j < n. m < j \<longrightarrow> us j = 0"
    unfolding last_constraint_def by blast
  then show ?thesis
  proof cases
    case 1
    then show ?thesis unfolding last_constraint_def all
      by (cases "u = 0") (auto intro!: exI [of _ "0 :: nat"] simp: less_Suc_eq_0_disj)
  next
    case (2 m)
    then have "Suc m < Suc n" "c = Some (i + Suc m)" "case_nat u us (Suc m) \<noteq> 0"
      "\<forall>j < Suc n. Suc m < j \<longrightarrow> case_nat u us j = 0" by (auto simp: less_Suc_eq_0_disj)
    then show ?thesis unfolding last_constraint_def by blast
  qed
qed

lemma run_Cons:
  assumes "bare_fill (hop_function p d) a (hop_reserves p d) = Inr (u, rs, xs 0)" "run ds ps xs us"
  shows "run (d # ds) (p # ps) (case_nat a xs) (case_nat u us)"
  unfolding run_def
proof (intro allI impI)
  fix j assume "j < length (d # ds)"
  with assms show "\<exists>rs. bare_fill (hop_function ((p # ps) ! j) ((d # ds) ! j)) (case_nat a xs j)
      (hop_reserves ((p # ps) ! j) ((d # ds) ! j)) = Inr (case_nat u us j, rs, case_nat a xs (Suc j))"
    by (cases j) (auto simp: run_def)
qed

lemma sense_run:
  assumes "chained ds ps" "ds \<noteq> [] \<longrightarrow> k = dp_start (ds ! 0)"
    and "sense_from hash i ps \<lparr>v_amount = a, v_asset = k\<rparr> c0 = Inr c"
  shows "\<exists>xs us. xs 0 = a \<and> run ds ps xs us \<and> last_constraint i (length ds) us c0 c"
  using assms
proof (induction ps arbitrary: ds i k a c0)
  case Nil
  then show ?case by (auto simp: chained_def run_def last_constraint_def)
next
  case (Cons p ps)
  obtain d ds' where ds: "ds = d # ds'" using Cons.prems(1) by (cases ds) (auto simp: chained_def)
  from Cons.prems(1) have ch: "serves p d" "chained ds' ps" "ds' \<noteq> [] \<longrightarrow> dp_end d = dp_start (ds' ! 0)"
    unfolding ds chained_Cons by auto
  have k: "k = dp_start d" using Cons.prems(2) ds by simp
  note sense = Cons.prems(3) [unfolded k sense_from.simps tf_fill_hop [OF ch(1)]]
  obtain u rs b where f: "bare_fill (hop_function p d) a (hop_reserves p d) = Inr (u, rs, b)"
    using sense by (cases "bare_fill (hop_function p d) a (hop_reserves p d)") (auto split: if_splits error.splits)
  with sense have "sense_from hash (i + 1) ps \<lparr>v_amount = b, v_asset = dp_end d\<rparr> (if u > 0 then Some i else c0) = Inr c"
    by (simp split: if_splits)
  from Cons.IH [OF ch(2,3) this] obtain xs us where
    IH: "xs 0 = b" "run ds' ps xs us" "last_constraint (Suc i) (length ds') us (if u \<noteq> 0 then Some i else c0) c"
    by (auto simp: word_gt_0)
  from run_Cons [of p d a u rs xs ds' ps us] last_constraint_Suc [OF IH(3)] f IH(1,2) ds
  show ?case by (intro exI [of _ "case_nat a xs"] exI [of _ "case_nat u us"]) auto
qed

text \<open>Sensing fails only by reporting a position on the frontier that overflows.\<close>

lemma sense_error:
  assumes "chained ds ps" "ds \<noteq> [] \<longrightarrow> k = dp_start (ds ! 0)"
    and "sense_from hash i ps \<lparr>v_amount = a, v_asset = k\<rparr> c0 = Inl e"
  shows "\<exists>p \<in> set ps. e = ExecutionOverflow (position_id_of hash p)"
  using assms
proof (induction ps arbitrary: ds i k a c0)
  case Nil
  then show ?case by simp
next
  case (Cons p ps)
  obtain d ds' where ds: "ds = d # ds'" using Cons.prems(1) by (cases ds) (auto simp: chained_def)
  from Cons.prems(1) have ch: "serves p d" "chained ds' ps" "ds' \<noteq> [] \<longrightarrow> dp_end d = dp_start (ds' ! 0)"
    unfolding ds chained_Cons by auto
  have k: "k = dp_start d" using Cons.prems(2) ds by simp
  have m: "matches_input (p_phi p) (dp_start d)"
    by (rule serves_cases [OF ch(1)]) (simp_all add: matches_input_def)
  note sense = Cons.prems(3) [unfolded k sense_from.simps tf_fill_hop [OF ch(1)]]
  obtain y where y: "effective_price_inv (hop_function p d) = Inr y"
    by (rule effective_prices_total [OF serves_tradable [OF ch(1)]])
  show ?case
  proof (cases "bare_fill (hop_function p d) a (hop_reserves p d)")
    case (Inl e')
    then have "e' = Overflow"
      using bare_fill_total [OF serves_tradable [OF ch(1)] y, of a "hop_reserves p d"] by (auto split: if_splits)
    with Inl sense m show ?thesis by simp
  next
    case (Inr r)
    obtain u rs b where r: "r = (u, rs, b)" by (cases r)
    with Inr sense m have "sense_from hash (i + 1) ps \<lparr>v_amount = b, v_asset = dp_end d\<rparr> (if u > 0 then Some i else c0) = Inl e"
      by simp
    from Cons.IH [OF ch(2,3) this] show ?thesis by simp
  qed
qed

section \<open>Executing along the frontier\<close>

definition tx_sized :: "nat \<Rightarrow> frontier_tx \<Rightarrow> bool" where
  "tx_sized n tx \<longleftrightarrow> length (new_reserves tx) = n \<and> length (tx_trace tx) = n + 1"

text \<open>Hop \<open>j\<close> of the transaction swaps \<open>zs j\<close> for \<open>zs (Suc j)\<close>.\<close>

definition tx_hop :: "directed_pair list \<Rightarrow> position list \<Rightarrow> frontier_tx \<Rightarrow> (nat \<Rightarrow> amount) \<Rightarrow> nat \<Rightarrow> bool" where
  "tx_hop ds ps tx zs j \<longleftrightarrow> tx_trace tx ! Suc j = Some (zs (Suc j)) \<and>
     (\<exists>rs. new_reserves tx ! j = Some rs \<and>
        hop_swap (ds ! j) (ps ! j) ((ps ! j)\<lparr>p_reserves := rs\<rparr>) (unat (zs j)) (unat (zs (Suc j)))
        \<and> unat (zs (Suc j)) \<le> holdings (dp_end (ds ! j)) (ps ! j))"

lemma forward_run:
  assumes "chained ds ps" "start \<le> length ds" "tx_sized (length ds) tx"
    and "\<And>j. start \<le> j \<Longrightarrow> j < length ds \<Longrightarrow> \<exists>rs. bare_fill (hop_function (ps ! j) (ds ! j)) (zs j)
        (hop_reserves (ps ! j) (ds ! j)) = Inr (0, rs, zs (Suc j))"
    and "\<And>j. start \<le> j \<Longrightarrow> j < length ds \<Longrightarrow> holdings (dp_start (ds ! j)) (ps ! j) + unat (zs j) < 2 ^ 128"
    and "start < length ds \<Longrightarrow> k = dp_start (ds ! start)"
  shows "\<exists>tx' cur. try_fold (fill_forward_step ps) [start..<length ds] (tx, \<lparr>v_amount = zs start, v_asset = k\<rparr>) = Inr (tx', cur)
    \<and> tx_sized (length ds) tx' \<and> (\<forall>j. start \<le> j \<longrightarrow> j < length ds \<longrightarrow> tx_hop ds ps tx' zs j)
    \<and> (\<forall>j < start. new_reserves tx' ! j = new_reserves tx ! j) \<and> (\<forall>j \<le> start. tx_trace tx' ! j = tx_trace tx ! j)"
  using assms
proof (induction "length ds - start" arbitrary: start tx k)
  case 0
  then show ?case by simp
next
  case (Suc m)
  then have lt: "start < length ds" by simp
  note ch = chainedD [OF Suc.prems(1)]
  let ?p = "ps ! start" and ?d = "ds ! start"
  have sv: "serves ?p ?d" and k: "k = dp_start ?d" using ch lt Suc.prems(6) by simp_all
  obtain rs where f: "bare_fill (hop_function ?p ?d) (zs start) (hop_reserves ?p ?d) = Inr (0, rs, zs (Suc start))"
    using Suc.prems(4) [of start] lt by blast
  note sw = full_fill_swap [OF sv f Suc.prems(5) [OF le_refl lt]]
  define tx1 where "tx1 = \<lparr>new_reserves = (new_reserves tx)[start := Some (hop_turn ?p ?d rs)],
      tx_trace = (tx_trace tx)[start + 1 := Some (zs (Suc start))]\<rparr>"
  have step: "fill_forward_step ps start (tx, \<lparr>v_amount = zs start, v_asset = k\<rparr>)
      = Inr (tx1, \<lparr>v_amount = zs (Suc start), v_asset = dp_end ?d\<rparr>)"
    by (simp add: fill_forward_step_def k tf_fill_hop [OF sv] f tx1_def amount_zero_def)
  have sized: "tx_sized (length ds) tx1" using Suc.prems(3) by (simp add: tx_sized_def tx1_def)
  have "\<exists>tx' cur. try_fold (fill_forward_step ps) [Suc start..<length ds] (tx1, \<lparr>v_amount = zs (Suc start), v_asset = dp_end ?d\<rparr>)
      = Inr (tx', cur)
    \<and> tx_sized (length ds) tx' \<and> (\<forall>j. Suc start \<le> j \<longrightarrow> j < length ds \<longrightarrow> tx_hop ds ps tx' zs j)
    \<and> (\<forall>j < Suc start. new_reserves tx' ! j = new_reserves tx1 ! j) \<and> (\<forall>j \<le> Suc start. tx_trace tx' ! j = tx_trace tx1 ! j)"
  proof (rule Suc.hyps(1))
    show "m = length ds - Suc start" using Suc.hyps(2) by simp
    show "dp_end ?d = dp_start (ds ! Suc start)" if "Suc start < length ds" using ch(3) that by simp
  qed (use Suc.prems lt sized in simp_all)
  then obtain tx' cur where r: "try_fold (fill_forward_step ps) [Suc start..<length ds] (tx1, \<lparr>v_amount = zs (Suc start), v_asset = dp_end ?d\<rparr>)
      = Inr (tx', cur)" "tx_sized (length ds) tx'" "\<forall>j. Suc start \<le> j \<longrightarrow> j < length ds \<longrightarrow> tx_hop ds ps tx' zs j"
    "\<forall>j < Suc start. new_reserves tx' ! j = new_reserves tx1 ! j" "\<forall>j \<le> Suc start. tx_trace tx' ! j = tx_trace tx1 ! j"
    by blast
  have "tx_hop ds ps tx' zs start"
    using r(4) [rule_format, of start] r(5) [rule_format, of "Suc start"] Suc.prems(3) lt sw
    by (auto simp: tx_hop_def tx1_def tx_sized_def)
  then have "\<forall>j. start \<le> j \<longrightarrow> j < length ds \<longrightarrow> tx_hop ds ps tx' zs j"
    using r(3) by (metis Suc_leI le_neq_implies_less)
  moreover have "\<forall>j < start. new_reserves tx' ! j = new_reserves tx ! j" "\<forall>j \<le> start. tx_trace tx' ! j = tx_trace tx ! j"
    using r(4,5) by (auto simp: tx1_def)
  moreover have "[start..<length ds] = start # [Suc start..<length ds]" using lt by (rule upt_conv_Cons)
  ultimately show ?case using step r(1,2) by auto
qed

lemma tx_hop_cong:
  assumes "tx_hop ds ps tx zs j" "new_reserves tx' ! j = new_reserves tx ! j" "tx_trace tx' ! Suc j = tx_trace tx ! Suc j"
    "zs' j = zs j" "zs' (Suc j) = zs (Suc j)"
  shows "tx_hop ds ps tx' zs' j"
  using assms by (simp add: tx_hop_def)

lemma backward_run:
  assumes "chained ds ps" "run ds ps xs us" "c < length ds" "tx_sized (length ds) tx" "b \<le> xs (Suc c)"
    and "\<And>j. j \<le> c \<Longrightarrow> holdings (dp_start (ds ! j)) (ps ! j) + unat (xs j) < 2 ^ 128"
  shows "\<exists>tx' zs. try_fold (fill_backward_step ps) (rev [0..<Suc c]) (tx, \<lparr>v_amount = b, v_asset = dp_end (ds ! c)\<rparr>)
      = Inr (tx', \<lparr>v_amount = zs 0, v_asset = dp_start (ds ! 0)\<rparr>)
    \<and> zs (Suc c) = b \<and> zs 0 \<le> xs 0 \<and> tx_sized (length ds) tx' \<and> (\<forall>j \<le> c. tx_hop ds ps tx' zs j)
    \<and> (\<forall>j > Suc c. tx_trace tx' ! j = tx_trace tx ! j) \<and> (\<forall>j > c. new_reserves tx' ! j = new_reserves tx ! j)"
  using assms(3-6)
proof (induction c arbitrary: b tx)
  case (0 b tx)
  note ch = chainedD [OF assms(1)]
  have sv: "serves (ps ! 0) (ds ! 0)" using ch(2) 0 by simp
  obtain rs' where f: "bare_fill (hop_function (ps ! 0) (ds ! 0)) (xs 0) (hop_reserves (ps ! 0) (ds ! 0)) = Inr (us 0, rs', xs (Suc 0))"
    using assms(2) 0 by (auto simp: run_def)
  obtain rs e where o: "bare_fill_output (hop_function (ps ! 0) (ds ! 0)) (hop_reserves (ps ! 0) (ds ! 0)) b = Inr (Some (rs, e))" "e \<le> xs 0"
    "hop_swap (ds ! 0) (ps ! 0) ((ps ! 0)\<lparr>p_reserves := hop_turn (ps ! 0) (ds ! 0) rs\<rparr>) (unat e) (unat b)"
    "unat b \<le> holdings (dp_end (ds ! 0)) (ps ! 0)"
    using output_fill_swap [OF sv f 0(3) 0(4)] by blast
  define zs where "zs = case_nat e (\<lambda>_. b)"
  define tx1 where "tx1 = \<lparr>new_reserves = (new_reserves tx)[0 := Some (hop_turn (ps ! 0) (ds ! 0) rs)],
      tx_trace = (tx_trace tx)[Suc 0 := Some b]\<rparr>"
  have step: "fill_backward_step ps 0 (tx, \<lparr>v_amount = b, v_asset = dp_end (ds ! 0)\<rparr>)
      = Inr (tx1, \<lparr>v_amount = e, v_asset = dp_start (ds ! 0)\<rparr>)"
    by (simp add: fill_backward_step_def Let_def tf_fill_output_hop [OF sv] o(1) tx1_def)
  have sized: "tx_sized (length ds) tx1" using 0(2) by (simp add: tx_sized_def tx1_def)
  have "tx_hop ds ps tx1 zs 0" using o(3,4) 0(1,2) by (auto simp: tx_hop_def tx1_def zs_def tx_sized_def)
  then show ?case using step sized o(2) by (intro exI [of _ tx1] exI [of _ zs]) (simp add: zs_def tx1_def)
next
  case (Suc c b tx)
  note ch = chainedD [OF assms(1)]
  let ?p = "ps ! Suc c" and ?d = "ds ! Suc c"
  have sv: "serves ?p ?d" using ch(2) Suc by simp
  obtain rs' where f: "bare_fill (hop_function ?p ?d) (xs (Suc c)) (hop_reserves ?p ?d) = Inr (us (Suc c), rs', xs (Suc (Suc c)))"
    using assms(2) Suc by (auto simp: run_def)
  obtain rs e where o: "bare_fill_output (hop_function ?p ?d) (hop_reserves ?p ?d) b = Inr (Some (rs, e))" "e \<le> xs (Suc c)"
    "hop_swap ?d ?p (?p\<lparr>p_reserves := hop_turn ?p ?d rs\<rparr>) (unat e) (unat b)" "unat b \<le> holdings (dp_end ?d) ?p"
    using output_fill_swap [OF sv f Suc.prems(3) Suc.prems(4)] by blast
  define tx1 where "tx1 = \<lparr>new_reserves = (new_reserves tx)[Suc c := Some (hop_turn ?p ?d rs)],
      tx_trace = (tx_trace tx)[Suc (Suc c) := Some b]\<rparr>"
  have sized: "tx_sized (length ds) tx1" using Suc.prems(2) by (simp add: tx_sized_def tx1_def)
  have step: "fill_backward_step ps (Suc c) (tx, \<lparr>v_amount = b, v_asset = dp_end ?d\<rparr>)
      = Inr (tx1, \<lparr>v_amount = e, v_asset = dp_end (ds ! c)\<rparr>)"
    using ch(3) [of c] Suc.prems(1)
    by (simp add: fill_backward_step_def Let_def tf_fill_output_hop [OF sv] o(1) tx1_def)
  have "\<exists>tx' zs. try_fold (fill_backward_step ps) (rev [0..<Suc c]) (tx1, \<lparr>v_amount = e, v_asset = dp_end (ds ! c)\<rparr>)
      = Inr (tx', \<lparr>v_amount = zs 0, v_asset = dp_start (ds ! 0)\<rparr>)
    \<and> zs (Suc c) = e \<and> zs 0 \<le> xs 0 \<and> tx_sized (length ds) tx' \<and> (\<forall>j \<le> c. tx_hop ds ps tx' zs j)
    \<and> (\<forall>j > Suc c. tx_trace tx' ! j = tx_trace tx1 ! j) \<and> (\<forall>j > c. new_reserves tx' ! j = new_reserves tx1 ! j)"
    by (rule Suc.IH) (use Suc.prems o(2) sized in auto)
  then obtain tx' zs where r: "try_fold (fill_backward_step ps) (rev [0..<Suc c]) (tx1, \<lparr>v_amount = e, v_asset = dp_end (ds ! c)\<rparr>)
      = Inr (tx', \<lparr>v_amount = zs 0, v_asset = dp_start (ds ! 0)\<rparr>)"
    "zs (Suc c) = e" "zs 0 \<le> xs 0" "tx_sized (length ds) tx'" "\<forall>j \<le> c. tx_hop ds ps tx' zs j"
    "\<forall>j > Suc c. tx_trace tx' ! j = tx_trace tx1 ! j" "\<forall>j > c. new_reserves tx' ! j = new_reserves tx1 ! j" by blast
  define zs' where "zs' = zs(Suc (Suc c) := b)"
  have hop: "tx_hop ds ps tx' zs' (Suc c)"
    using r(2) r(6) [rule_format, of "Suc (Suc c)"] r(7) [rule_format, of "Suc c"] Suc.prems(1,2) o(3,4)
    by (auto simp: tx_hop_def zs'_def tx1_def tx_sized_def)
  have "tx_hop ds ps tx' zs' j" if "j \<le> c" for j
    by (rule tx_hop_cong [OF r(5) [rule_format, OF that]]) (use that in \<open>simp_all add: zs'_def\<close>)
  then have hops: "\<forall>j \<le> Suc c. tx_hop ds ps tx' zs' j" using hop by (metis le_Suc_eq)
  have "rev [0..<Suc (Suc c)] = Suc c # rev [0..<Suc c]" by simp
  then have fold: "try_fold (fill_backward_step ps) (rev [0..<Suc (Suc c)]) (tx, \<lparr>v_amount = b, v_asset = dp_end ?d\<rparr>)
      = Inr (tx', \<lparr>v_amount = zs' 0, v_asset = dp_start (ds ! 0)\<rparr>)"
    using step r(1) by (simp only: try_fold.simps and_then.simps zs'_def) simp
  have "\<forall>j > Suc (Suc c). tx_trace tx' ! j = tx_trace tx ! j" "\<forall>j > Suc c. new_reserves tx' ! j = new_reserves tx ! j"
    using r(6,7) by (auto simp: tx1_def)
  moreover have "zs' (Suc (Suc c)) = b" "zs' 0 \<le> xs 0" using r(3) by (simp_all add: zs'_def)
  ultimately show ?case using fold hops r(4) by blast
qed

section \<open>One pass\<close>

definition pass :: "frontier \<Rightarrow> frontier_tx \<Rightarrow> (nat \<Rightarrow> amount) \<Rightarrow> bool" where
  "pass f tx zs \<longleftrightarrow> tx_sized (length (fr_pairs f)) tx \<and> tx_trace tx ! 0 = Some (zs 0)
     \<and> (\<forall>j < length (fr_pairs f). tx_hop (fr_pairs f) (fr_positions f) tx zs j)"

text \<open>Room for what flows from one position into the next.\<close>

definition roomy :: "directed_pair list \<Rightarrow> position list \<Rightarrow> nat \<Rightarrow> bool" where
  "roomy ds ps a \<longleftrightarrow> (ds \<noteq> [] \<longrightarrow> holdings (dp_start (ds ! 0)) (ps ! 0) + a < 2 ^ 128) \<and>
     (\<forall>j. Suc j < length ds \<longrightarrow> holdings (dp_end (ds ! j)) (ps ! j) + holdings (dp_end (ds ! j)) (ps ! Suc j) < 2 ^ 128)"

lemma run_bound:
  assumes "chained ds ps" "run ds ps xs us" "j < length ds"
  shows "unat (xs (Suc j)) \<le> holdings (dp_end (ds ! j)) (ps ! j)"
proof -
  have sv: "serves (ps ! j) (ds ! j)" using chainedD(2) [OF assms(1,3)] .
  obtain rs where "bare_fill (hop_function (ps ! j) (ds ! j)) (xs j) (hop_reserves (ps ! j) (ds ! j)) = Inr (us j, rs, xs (Suc j))"
    using assms(2,3) by (auto simp: run_def)
  from fill_reaches [OF this order_refl] have "xs (Suc j) \<le> r2 (hop_reserves (ps ! j) (ds ! j))" by blast
  with serves_holdings [OF sv, of "dp_end (ds ! j)"] serves_neq [OF sv] show ?thesis by (simp add: word_le_nat_alt)
qed

lemma run_room:
  assumes "chained ds ps" "run ds ps xs us" "roomy ds ps (unat (xs 0))" "j < length ds"
  shows "holdings (dp_start (ds ! j)) (ps ! j) + unat (xs j) < 2 ^ 128"
proof (cases j)
  case 0
  with assms(3,4) show ?thesis by (auto simp: roomy_def)
next
  case (Suc i)
  have "holdings (dp_end (ds ! i)) (ps ! i) + holdings (dp_end (ds ! i)) (ps ! j) < 2 ^ 128"
    using assms(3,4) Suc by (simp add: roomy_def)
  moreover have "unat (xs j) \<le> holdings (dp_end (ds ! i)) (ps ! i)"
    unfolding Suc by (rule run_bound [OF assms(1,2)]) (use assms(4) Suc in simp)
  ultimately show ?thesis using chainedD(3) [OF assms(1), of i] assms(4) Suc by simp
qed

lemma unconstrained_pass:
  assumes "chained (fr_pairs f) (fr_positions f)" "fr_pairs f \<noteq> []" "k = dp_start (fr_pairs f ! 0)"
    and "run (fr_pairs f) (fr_positions f) xs us" "\<forall>j < length (fr_pairs f). us j = 0"
    and "roomy (fr_pairs f) (fr_positions f) (unat (xs 0))"
  shows "\<exists>tx. fill_unconstrained f \<lparr>v_amount = xs 0, v_asset = k\<rparr> = Inr tx \<and> pass f tx xs"
proof -
  let ?ds = "fr_pairs f" and ?ps = "fr_positions f"
  let ?tx = "(frontier_tx_new f)\<lparr>tx_trace := (tx_trace (frontier_tx_new f))[0 := Some (xs 0)]\<rparr>"
  have sized: "tx_sized (length ?ds) ?tx"
    using chainedD(1) [OF assms(1)] by (simp add: tx_sized_def frontier_tx_new_def)
  have "\<exists>tx' cur. try_fold (fill_forward_step ?ps) [0..<length ?ds] (?tx, \<lparr>v_amount = xs 0, v_asset = k\<rparr>) = Inr (tx', cur)
    \<and> tx_sized (length ?ds) tx' \<and> (\<forall>j. 0 \<le> j \<longrightarrow> j < length ?ds \<longrightarrow> tx_hop ?ds ?ps tx' xs j)
    \<and> (\<forall>j < 0. new_reserves tx' ! j = new_reserves ?tx ! j) \<and> (\<forall>j \<le> 0. tx_trace tx' ! j = tx_trace ?tx ! j)"
  proof (rule forward_run [OF assms(1) _ sized])
    show "\<exists>rs. bare_fill (hop_function (?ps ! j) (?ds ! j)) (xs j) (hop_reserves (?ps ! j) (?ds ! j)) = Inr (0, rs, xs (Suc j))"
      if "j < length ?ds" for j
      using assms(4,5) that unfolding run_def by metis
    show "holdings (dp_start (?ds ! j)) (?ps ! j) + unat (xs j) < 2 ^ 128" if "j < length ?ds" for j
      by (rule run_room [OF assms(1,4,6) that])
  qed (use assms(3) in simp_all)
  then obtain tx' cur where r: "try_fold (fill_forward_step ?ps) [0..<length ?ds] (?tx, \<lparr>v_amount = xs 0, v_asset = k\<rparr>) = Inr (tx', cur)"
    "tx_sized (length ?ds) tx'" "\<forall>j < length ?ds. tx_hop ?ds ?ps tx' xs j" "tx_trace tx' ! 0 = tx_trace ?tx ! 0" by auto
  have "tx_trace tx' ! 0 = Some (xs 0)" using r(4) by (simp add: frontier_tx_new_def)
  moreover have "fill_unconstrained f \<lparr>v_amount = xs 0, v_asset = k\<rparr> = Inr tx'"
    using r(1) chainedD(1) [OF assms(1)] assms(2,3)
    by (simp add: fill_unconstrained_def fill_forward_def hd_conv_nth)
  ultimately show ?thesis using r(2,3) by (auto simp: pass_def)
qed

lemma constrained_pass:
  assumes "chained (fr_pairs f) (fr_positions f)" "c < length (fr_pairs f)"
    and "run (fr_pairs f) (fr_positions f) xs us" "us c \<noteq> 0" "\<forall>j < length (fr_pairs f). c < j \<longrightarrow> us j = 0"
    and "roomy (fr_pairs f) (fr_positions f) (unat (xs 0))"
  shows "\<exists>tx zs. fill_constrained f c = Inr tx \<and> pass f tx zs \<and> zs 0 \<le> xs 0
    \<and> unat (zs (Suc c)) = holdings (dp_end (fr_pairs f ! c)) (fr_positions f ! c)"
proof -
  let ?ds = "fr_pairs f" and ?ps = "fr_positions f"
  let ?p = "?ps ! c" and ?d = "?ds ! c"
  have sv: "serves ?p ?d" using chainedD(2) [OF assms(1,2)] .
  obtain rs where fill: "bare_fill (hop_function ?p ?d) (xs c) (hop_reserves ?p ?d) = Inr (us c, rs, xs (Suc c))"
    using assms(2,3) by (auto simp: run_def)
  have all: "xs (Suc c) = r2 (hop_reserves ?p ?d)"
    by (rule bare_fill_cases [OF fill]) (use assms(4) in auto)
  have sized: "tx_sized (length ?ds) (frontier_tx_new f)"
    using chainedD(1) [OF assms(1)] by (simp add: tx_sized_def frontier_tx_new_def)
  have room: "holdings (dp_start (?ds ! j)) (?ps ! j) + unat (xs j) < 2 ^ 128" if "j < length ?ds" for j
    by (rule run_room [OF assms(1,3,6) that])
  then have room': "j \<le> c \<Longrightarrow> holdings (dp_start (?ds ! j)) (?ps ! j) + unat (xs j) < 2 ^ 128" for j
    using assms(2) by simp
  obtain tx1 zs where b: "try_fold (fill_backward_step ?ps) (rev [0..<Suc c])
        (frontier_tx_new f, \<lparr>v_amount = xs (Suc c), v_asset = dp_end ?d\<rparr>)
      = Inr (tx1, \<lparr>v_amount = zs 0, v_asset = dp_start (?ds ! 0)\<rparr>)"
    "zs (Suc c) = xs (Suc c)" "zs 0 \<le> xs 0" "tx_sized (length ?ds) tx1" "\<forall>j \<le> c. tx_hop ?ds ?ps tx1 zs j"
    using backward_run [OF assms(1,3,2) sized order_refl room'] by blast
  define tx2 where "tx2 = tx1\<lparr>tx_trace := (tx_trace tx1)[0 := Some (zs 0)]\<rparr>"
  have tx2: "tx_sized (length ?ds) tx2" "tx_trace tx2 ! 0 = Some (zs 0)" "new_reserves tx2 = new_reserves tx1"
    "tx_trace tx2 ! Suc j = tx_trace tx1 ! Suc j" for j
    using b(4) by (simp_all add: tx_sized_def tx2_def)
  have "\<exists>tx' cur. try_fold (fill_forward_step ?ps) [Suc c..<length ?ds] (tx2, \<lparr>v_amount = xs (Suc c), v_asset = dp_end ?d\<rparr>)
      = Inr (tx', cur)
    \<and> tx_sized (length ?ds) tx' \<and> (\<forall>j. Suc c \<le> j \<longrightarrow> j < length ?ds \<longrightarrow> tx_hop ?ds ?ps tx' xs j)
    \<and> (\<forall>j < Suc c. new_reserves tx' ! j = new_reserves tx2 ! j) \<and> (\<forall>j \<le> Suc c. tx_trace tx' ! j = tx_trace tx2 ! j)"
  proof (rule forward_run [OF assms(1) _ tx2(1)])
    show "\<exists>rs. bare_fill (hop_function (?ps ! j) (?ds ! j)) (xs j) (hop_reserves (?ps ! j) (?ds ! j)) = Inr (0, rs, xs (Suc j))"
      if "Suc c \<le> j" "j < length ?ds" for j
      using assms(3,5) that unfolding run_def by (metis Suc_le_lessD)
    show "dp_end ?d = dp_start (?ds ! Suc c)" if "Suc c < length ?ds" using chainedD(3) [OF assms(1) that] .
  qed (use assms(2) room in simp_all)
  then obtain tx' cur where r: "try_fold (fill_forward_step ?ps) [Suc c..<length ?ds] (tx2, \<lparr>v_amount = xs (Suc c), v_asset = dp_end ?d\<rparr>)
      = Inr (tx', cur)" "tx_sized (length ?ds) tx'" "\<forall>j. Suc c \<le> j \<longrightarrow> j < length ?ds \<longrightarrow> tx_hop ?ds ?ps tx' xs j"
    "\<forall>j < Suc c. new_reserves tx' ! j = new_reserves tx2 ! j" "\<forall>j \<le> Suc c. tx_trace tx' ! j = tx_trace tx2 ! j" by blast
  define ws where "ws = (\<lambda>j. if j \<le> c then zs j else xs j)"
  have "tx_hop ?ds ?ps tx' ws j" if "j < length ?ds" for j
  proof (cases "j \<le> c")
    case True
    have "new_reserves tx' ! j = new_reserves tx1 ! j" "tx_trace tx' ! Suc j = tx_trace tx1 ! Suc j"
      using r(4) [rule_format, of j] r(5) [rule_format, of "Suc j"] tx2(3,4) True by simp_all
    moreover have "ws j = zs j" "ws (Suc j) = zs (Suc j)"
      using True b(2) by (cases "j = c"; simp add: ws_def)+
    ultimately show ?thesis by (rule tx_hop_cong [OF b(5) [rule_format, OF True]])
  next
    case False
    show ?thesis
      by (rule tx_hop_cong [OF r(3) [rule_format, OF _ that]]) (use False in \<open>simp_all add: ws_def\<close>)
  qed
  then have "pass f tx' ws" using r(2,5) tx2(2) by (simp add: pass_def ws_def)
  moreover have "fill_constrained f c = Inr tx'"
    using b(1) r(1) all chainedD(1) [OF assms(1)]
    by (simp add: fill_constrained_def Let_def serves_reserves_for [OF sv] fill_backward_def fill_forward_def tx2_def)
  moreover have "unat (ws (Suc c)) = holdings (dp_end ?d) ?p" "ws 0 \<le> xs 0"
    using all serves_holdings [OF sv, of "dp_end ?d"] serves_neq [OF sv] b(3) by (simp_all add: ws_def)
  ultimately show ?thesis by blast
qed

section \<open>Committing a pass\<close>

text \<open>The positions after the swaps of a pass.\<close>

definition swapped :: "directed_pair list \<Rightarrow> position list \<Rightarrow> position list \<Rightarrow> (nat \<Rightarrow> amount) \<Rightarrow> bool" where
  "swapped ds ps qs zs \<longleftrightarrow> length qs = length ps \<and> (\<forall>j < length ds. (\<exists>rs. qs ! j = (ps ! j)\<lparr>p_reserves := rs\<rparr>)
     \<and> hop_swap (ds ! j) (ps ! j) (qs ! j) (unat (zs j)) (unat (zs (Suc j)))
     \<and> unat (zs (Suc j)) \<le> holdings (dp_end (ds ! j)) (ps ! j))"

lemma apply_fold:
  assumes "\<And>j. j < length ds \<Longrightarrow> new_reserves tx ! j = Some (rs j) \<and> tx_trace tx ! Suc j = Some (zs (Suc j))"
    and "m \<le> length ds" "length ps = length ds"
  shows "try_fold (apply_step ds tx) [0..<m] (ps, tr) =
    Inr (map (\<lambda>j. (ps ! j)\<lparr>p_reserves := rs j\<rparr>) [0..<m] @ drop m ps,
      tr @ map (\<lambda>j. \<lparr>v_amount = zs (Suc j), v_asset = dp_end (ds ! j)\<rparr>) [0..<m])"
  using assms(2)
proof (induction m)
  case 0
  then show ?case by simp
next
  case (Suc m)
  let ?qs = "map (\<lambda>j. (ps ! j)\<lparr>p_reserves := rs j\<rparr>) [0..<m] @ drop m ps"
  have d: "drop m ps = ps ! m # drop (Suc m) ps" using Suc.prems assms(3) by (simp add: Cons_nth_drop_Suc)
  have "?qs ! m = ps ! m" "?qs[m := x] = map (\<lambda>j. (ps ! j)\<lparr>p_reserves := rs j\<rparr>) [0..<m] @ x # drop (Suc m) ps" for x
    using d by (simp_all add: nth_append list_update_append)
  with Suc assms(1) [of m] show ?case
    by (simp add: try_fold_append apply_step_def)
qed

lemma apply_pass:
  assumes "pass f tx zs" "chained (fr_pairs f) (fr_positions f)" "fr_pairs f \<noteq> []"
  shows "\<exists>qs tr. frontier_apply f tx
      = Inr (f\<lparr>fr_positions := qs, fr_trace := fr_trace f @ [tr]\<rparr>, zs 0, zs (length (fr_pairs f)))
    \<and> swapped (fr_pairs f) (fr_positions f) qs zs
    \<and> tr \<noteq> [] \<and> v_amount (hd tr) = zs 0 \<and> v_amount (last tr) = zs (length (fr_pairs f))"
proof -
  let ?ds = "fr_pairs f" and ?ps = "fr_positions f" and ?n = "length (fr_pairs f)"
  from assms(1) have sized: "length (new_reserves tx) = ?n" "length (tx_trace tx) = Suc ?n" and z: "tx_trace tx ! 0 = Some (zs 0)"
    and hops: "tx_hop ?ds ?ps tx zs j" if "j < ?n" for j
    using that by (auto simp: pass_def tx_sized_def)
  from assms(3) obtain m where m: "?n = Suc m" by (cases ?ds) auto
  have sz: "length (new_reserves tx) = ?n" "length (tx_trace tx) = Suc ?n" "tx_trace tx ! 0 = Some (zs 0)"
    using sized z m by auto
  have "\<forall>j. \<exists>rs. j < ?n \<longrightarrow> new_reserves tx ! j = Some rs \<and>
        hop_swap (?ds ! j) (?ps ! j) ((?ps ! j)\<lparr>p_reserves := rs\<rparr>) (unat (zs j)) (unat (zs (Suc j)))"
    using hops unfolding tx_hop_def by blast
  then obtain rs where rs: "\<And>j. j < ?n \<Longrightarrow> new_reserves tx ! j = Some (rs j) \<and>
        hop_swap (?ds ! j) (?ps ! j) ((?ps ! j)\<lparr>p_reserves := rs j\<rparr>) (unat (zs j)) (unat (zs (Suc j)))" by metis
  let ?qs = "map (\<lambda>j. (?ps ! j)\<lparr>p_reserves := rs j\<rparr>) [0..<?n]"
  let ?tr = "\<lparr>v_amount = zs 0, v_asset = dp_start (?ds ! 0)\<rparr> # map (\<lambda>j. \<lparr>v_amount = zs (Suc j), v_asset = dp_end (?ds ! j)\<rparr>) [0..<?n]"
  have len: "length ?ps = ?n" using chainedD(1) [OF assms(2)] .
  have fold: "try_fold (apply_step ?ds tx) [0..<?n] (?ps, [\<lparr>v_amount = zs 0, v_asset = dp_start (?ds ! 0)\<rparr>]) = Inr (?qs, ?tr)"
    using apply_fold [of ?ds tx rs zs ?n ?ps] rs hops len by (simp add: tx_hop_def)
  have last: "last (tx_trace tx) = Some (zs ?n)"
    using hops [of m] m sz(2) by (subst last_conv_nth) (auto simp: tx_hop_def)
  have "frontier_apply f tx = Inr (f\<lparr>fr_positions := ?qs, fr_trace := fr_trace f @ [?tr]\<rparr>, zs 0, zs ?n)"
    by (simp only: frontier_apply_def sz some_or_panic_simps and_then.simps fold last prod.case)
  moreover have "swapped ?ds ?ps ?qs zs" using rs len hops by (auto simp: swapped_def tx_hop_def)
  moreover have "v_amount (List.last ?tr) = zs ?n" unfolding m by (simp add: last_map)
  ultimately show ?thesis by (intro exI [of _ ?qs] exI [of _ ?tr]) simp
qed

text \<open>The assets along a route, and what a pass does to the sum of the holdings.\<close>

definition route_node :: "directed_pair list \<Rightarrow> nat \<Rightarrow> asset_id" where
  "route_node ds j = (case j of 0 \<Rightarrow> dp_start (ds ! 0) | Suc i \<Rightarrow> dp_end (ds ! i))"

lemma route_node_start: "chained ds ps \<Longrightarrow> j < length ds \<Longrightarrow> dp_start (ds ! j) = route_node ds j"
  using chainedD(3) [of ds ps "j - 1"] by (cases j) (auto simp: route_node_def)

lemma swapped_total:
  assumes "chained ds ps" "swapped ds ps qs zs" "m \<le> length ds"
  shows "(\<Sum>j < m. holdings k (qs ! j)) + (if k = route_node ds m then unat (zs m) else 0)
    = (\<Sum>j < m. holdings k (ps ! j)) + (if k = route_node ds 0 then unat (zs 0) else 0)"
  using assms(3)
proof (induction m)
  case 0
  then show ?case by simp
next
  case (Suc m)
  have "hop_swap (ds ! m) (ps ! m) (qs ! m) (unat (zs m)) (unat (zs (Suc m)))"
    using assms(2) Suc.prems by (simp add: swapped_def)
  moreover have "dp_end (ds ! m) = route_node ds (Suc m)" by (simp add: route_node_def)
  ultimately have "holdings k (qs ! m) + (if k = route_node ds (Suc m) then unat (zs (Suc m)) else 0)
      = holdings k (ps ! m) + (if k = route_node ds m then unat (zs m) else 0)"
    using route_node_start [OF assms(1), of m] Suc.prems unfolding hop_swap_def by simp
  with Suc.IH Suc.prems show ?case by simp
qed

lemma swapped_chained: "chained ds ps \<Longrightarrow> swapped ds ps qs zs \<Longrightarrow> chained ds qs"
  unfolding chained_def swapped_def by (metis position.select_convs(3) position.simps(3) serves_phi position.surjective position.update_convs(2))

end
