(* ===== verification/FillInvariant.thy ===== *)
theory FillInvariant
  imports FillSteps
begin

text \<open>
  The loop of \<open>fill_route\<close> over the whole state: writing a position of the frontier back, the
  invariant that ties the frontier to the stored positions, and the account of what the trade
  has put into the positions and taken out of them.
\<close>

section \<open>Writing one position back\<close>

lemma record_execution_total:
  assumes "position_ok p" "p_phi new = p_phi p"
  shows "\<exists>t. record_position_execution p new s = Inr t"
proof -
  have d: "distinct_assets p" and f: "tradable (tf_component (p_phi p))" using assms(1) by (simp_all add: position_ok_def)
  have f': "tradable (bare_flip (tf_component (p_phi p)))" using f by (simp add: tradable_flip)
  obtain x where x: "effective_price (tf_component (p_phi p)) = Inr x" by (rule effective_prices_total [OF f])
  obtain y where y: "effective_price (bare_flip (tf_component (p_phi p))) = Inr y" by (rule effective_prices_total [OF f'])
  from d x y show ?thesis
    by (auto simp: record_position_execution_def Let_def orient_start_def reserves_for_def assms(2) distinct_assets_def)
qed

lemma tally_closed: "finite (dom ps) \<Longrightarrow> f (q\<lparr>p_state := Closed\<rparr>) = f q \<Longrightarrow>
    tally f (ps(i := Some (q\<lparr>p_state := Closed\<rparr>))) = tally f (ps(i := Some q))"
  using tally_update [of ps f i q] tally_update [of ps f i "q\<lparr>p_state := Closed\<rparr>"] by simp

text \<open>What is left of a state when positions are traded.\<close>

definition same_books :: "dex_state \<Rightarrow> dex_state \<Rightarrow> bool" where
  "same_books s t \<longleftrightarrow> dex_vcb t = dex_vcb s \<and> dex_params t = dex_params s \<and> epoch_index t = epoch_index s
     \<and> pending_closures t = pending_closures s \<and> recent_assets t = recent_assets s \<and> active_pairs t = active_pairs s"

lemma same_books_refl [simp]: "same_books s s"
  by (simp add: same_books_def)

lemma same_books_trans: "same_books s t \<Longrightarrow> same_books t u \<Longrightarrow> same_books s u"
  by (simp add: same_books_def)

lemma same_frame_books: "same_frame s t \<Longrightarrow> same_books s t"
  by (simp add: same_frame_def same_books_def)

text \<open>A position that the trade closed on filling, or left as it is.\<close>

definition settled :: "position \<Rightarrow> position \<Rightarrow> bool" where
  "settled p q \<longleftrightarrow> q = p \<or> q = p\<lparr>p_state := Closed\<rparr>"

lemma settled_keeps: "settled p q \<Longrightarrow> p_phi q = p_phi p \<and> p_nonce q = p_nonce p \<and> p_reserves q = p_reserves p"
  by (auto simp: settled_def)

lemma settled_holdings: "settled p q \<Longrightarrow> holdings k q = holdings k p"
  by (auto simp: settled_def)

lemma execution_traded:
  assumes ok: "indexes_ok s" and p: "positions s i = Some p" "p_state p = Opened"
    and new: "new = p\<lparr>p_reserves := rs\<rparr>" "position_id_of hash new = i"
    and bound: "\<And>k. tally (holdings k) ((positions s)(i := Some new)) < 2 ^ 128"
  shows "\<exists>q t. position_execution hash um new s = Inr (q, t) \<and> settled new q
    \<and> positions t = (positions s)(i := Some q) \<and> indexes_ok t \<and> same_books s t"
proof (cases "p = new")
  case True
  have "position_execution hash um new s = Inr (new, s)"
    using p True new(2) by (simp add: position_execution_def Let_def position_by_id_def)
  with True p(1) ok show ?thesis
    by (intro exI [of _ new] exI [of _ s]) (simp add: settled_def fun_upd_idem)
next
  case False
  define q where "q = (if close_on_fill new \<and> (r1 (p_reserves new) = 0 \<or> r2 (p_reserves new) = 0) then new\<lparr>p_state := Closed\<rparr> else new)"
  note inv = indexes_okD [OF ok]
  have okp: "position_ok p" using inv(2) [OF p(1)] .
  have set: "settled new q" by (simp add: settled_def q_def)
  have phi: "p_phi q = p_phi p" using settled_keeps [OF set] new(1) by simp
  have okq: "position_ok q" using okp phi by (simp add: position_ok_def distinct_assets_def)
  obtain u where u: "record_position_execution p q s = Inr u"
    using record_execution_total [OF okp phi] by blast
  then have ig: "ignore_error s (record_position_execution p q s) = Inr u" by (simp add: ignore_error_def)
  obtain x where ux: "u = s\<lparr>block_executions := x\<rparr>" using record_execution_shape [OF ig] ..
  then have same: "same_indexes s u" "same_books s u" by (simp_all add: same_indexes_def same_books_def)
  have pu: "positions u = positions s" using same(1) by (simp add: same_indexes_def)
  have st: "p_state q = Opened \<or> p_state q = Closed" using new(1) p(2) by (simp add: q_def)
  have "\<exists>t. update_position um i (positions u i) q u = Inr (q, t)"
  proof (rule update_position_total)
    show "indexes_ok u" using ok indexes_ok_same [OF same(1)] by simp
    show "position_ok q" by (rule okq)
    show "guard_invalid_transitions (positions u i) q = Inr ()"
      using p st unfolding pu by (auto simp: guard_invalid_transitions_def)
    show "tf_pair (p_phi r) = tf_pair (p_phi q)" if "positions u i = Some r" for r
      using that p(1) phi unfolding pu by simp
  qed (use p(1) in \<open>simp add: pu\<close>)
  then obtain t where t: "update_position um i (positions u i) q u = Inr (q, t)" by blast
  note fr = update_position_frame [OF t]
  have "indexes_ok t"
  proof (rule update_position_indexes [OF t _ okq])
    show "indexes_ok u" using ok indexes_ok_same [OF same(1)] by simp
    show "tf_pair (p_phi r) = tf_pair (p_phi q)" if "positions u i = Some r" for r
      using that p(1) phi unfolding pu by simp
    show "tally (liquidity_of d) ((positions u)(i := Some q)) < 2 ^ 128" for d
    proof (rule liquidity_bound [where b = "\<lambda>k. tally (holdings k) ((positions s)(i := Some q))"])
      show "tally (holdings k) ((positions s)(i := Some q)) < 2 ^ 128" for k
        using bound [of k] tally_closed [OF inv(1), of "holdings k" new i] set by (auto simp: settled_def)
    qed (simp add: pu)
  qed
  moreover have "position_execution hash um new s = Inr (q, t)"
  proof -
    have "p_state new = Opened" using new(1) p(2) by simp
    moreover have "update_position um i (Some p) q u = Inr (q, t)" using t p(1) by (simp add: pu)
    ultimately show ?thesis
      unfolding position_execution_def Let_def new(2) position_by_id_def q_def [symmetric] p(1) ok_or_simps and_then.simps if_not_P [OF False]
        p(2) ig by (simp only: ensure_simps refl and_then.simps simp_thms if_True ig)
  qed
  moreover have "same_books s t" using same(2) same_frame_books [OF fr(3)] by (rule same_books_trans)
  ultimately show ?thesis using set fr(2) pu by (intro exI [of _ q] exI [of _ t]) simp
qed

lemma execution_noop:
  assumes "positions s i = Some p" "p_state p = Opened \<or> p_state p = Closed" "position_id_of hash p = i"
  shows "position_execution hash um p s = Inr (p, s)"
  using assms by (simp add: position_execution_def Let_def position_by_id_def)

section \<open>The account of a frontier\<close>

lemma sum_list_split:
  fixes g :: "'a \<Rightarrow> int"
  assumes "j < length xs"
  shows "sum_list (map g xs) = g (xs ! j) + sum_list (map g (take j xs @ drop (Suc j) xs))"
    "sum_list (map g (xs[j := y])) = g y + sum_list (map g (take j xs @ drop (Suc j) xs))"
proof -
  have "sum_list (map g xs) = sum_list (map g (take j xs @ xs ! j # drop (Suc j) xs))"
    using id_take_nth_drop [OF assms] by simp
  then show "sum_list (map g xs) = g (xs ! j) + sum_list (map g (take j xs @ drop (Suc j) xs))" by simp
  show "sum_list (map g (xs[j := y])) = g y + sum_list (map g (take j xs @ drop (Suc j) xs))"
    using assms by (simp add: upd_conv_take_nth_drop)
qed

lemma distinct_split:
  assumes "distinct (map f xs)" "j < length xs"
  shows "distinct (map f (take j xs @ drop (Suc j) xs))" "f (xs ! j) \<notin> f ` set (take j xs @ drop (Suc j) xs)"
proof -
  have xs: "xs = take j xs @ xs ! j # drop (Suc j) xs" using id_take_nth_drop [OF assms(2)] .
  have "distinct (map f (take j xs @ xs ! j # drop (Suc j) xs))" using assms(1) by (simp only: xs [symmetric])
  then show "distinct (map f (take j xs @ drop (Suc j) xs))" "f (xs ! j) \<notin> f ` set (take j xs @ drop (Suc j) xs)"
    by auto
qed

text \<open>By how much writing a position back changes the tally of the stored positions.\<close>

definition drift :: "(u8 list \<Rightarrow> u8 list) \<Rightarrow> dex_state \<Rightarrow> asset_id \<Rightarrow> position \<Rightarrow> int" where
  "drift hash s k p = int (holdings k p) - int (prev_value (holdings k) (positions s (position_id_of hash p)))"

definition account :: "(u8 list \<Rightarrow> u8 list) \<Rightarrow> position list \<Rightarrow> dex_state \<Rightarrow> asset_id \<Rightarrow> int" where
  "account hash ps s k = int (tally (holdings k) (positions s)) + sum_list (map (drift hash s k) ps)"

text \<open>A position of the frontier: still stored as it was before the trade, or written back.\<close>

definition held :: "(u8 list \<Rightarrow> u8 list) \<Rightarrow> dex_state \<Rightarrow> dex_state \<Rightarrow> position \<Rightarrow> bool" where
  "held hash s0 s p \<longleftrightarrow> (\<exists>p0 rs. positions s0 (position_id_of hash p) = Some p0 \<and> p_state p0 = Opened
     \<and> p = p0\<lparr>p_reserves := rs\<rparr> \<and> positions s (position_id_of hash p) = Some p0)"

definition kept :: "(u8 list \<Rightarrow> u8 list) \<Rightarrow> dex_state \<Rightarrow> dex_state \<Rightarrow> position \<Rightarrow> bool" where
  "kept hash s0 s p \<longleftrightarrow> (\<exists>p0 rs. positions s0 (position_id_of hash p) = Some p0 \<and> p_state p0 = Opened
     \<and> settled (p0\<lparr>p_reserves := rs\<rparr>) p \<and> positions s (position_id_of hash p) = Some p)"

definition traded_to :: "position option \<Rightarrow> position option \<Rightarrow> bool" where
  "traded_to x y \<longleftrightarrow> x = y \<or> (\<exists>p rs q. x = Some p \<and> p_state p = Opened \<and> settled (p\<lparr>p_reserves := rs\<rparr>) q \<and> y = Some q)"

lemma held_cong: "held hash s0 s p \<Longrightarrow> positions t (position_id_of hash p) = positions s (position_id_of hash p) \<Longrightarrow> held hash s0 t p"
  by (simp add: held_def)

lemma kept_cong: "kept hash s0 s p \<Longrightarrow> positions t (position_id_of hash p) = positions s (position_id_of hash p) \<Longrightarrow> kept hash s0 t p"
  by (simp add: kept_def)

lemma drift_lower:
  assumes "held hash s0 s p \<or> kept hash s0 s p"
  shows "- drift hash s k p \<le> int (holdings k (the (positions s0 (position_id_of hash p))))"
  using assms by (auto simp: held_def kept_def drift_def)

lemma stored_sum_le:
  assumes "finite (dom ps)" "distinct (map f xs)" "\<And>x. x \<in> set xs \<Longrightarrow> ps (f x) \<noteq> None"
  shows "sum_list (map (\<lambda>x. int (h (the (ps (f x))))) xs) \<le> int (tally h ps)"
proof -
  have "sum_list (map (\<lambda>x. int (h (the (ps (f x))))) xs) = sum_list (map (\<lambda>i. int (h (the (ps i)))) (map f xs))"
    by (simp add: o_def)
  also have "\<dots> = (\<Sum>i \<in> set (map f xs). int (h (the (ps i))))"
    using assms(2) by (rule sum_list_distinct_conv_sum_set)
  also have "\<dots> \<le> (\<Sum>i \<in> dom ps. int (h (the (ps i))))"
    using assms(1,3) by (intro sum_mono2) auto
  finally show ?thesis by (simp add: tally_def)
qed

lemma drift_bound:
  assumes "finite (dom (positions s0))" "distinct (map (position_id_of hash) ps)"
    and "\<And>p. p \<in> set ps \<Longrightarrow> held hash s0 s p \<or> kept hash s0 s p"
  shows "- sum_list (map (drift hash s k) ps) \<le> int (tally (holdings k) (positions s0))"
proof -
  have "- sum_list (map (drift hash s k) ps) = sum_list (map (\<lambda>p. - drift hash s k p) ps)"
    by (induction ps) simp_all
  also have "\<dots> \<le> sum_list (map (\<lambda>p. int (holdings k (the (positions s0 (position_id_of hash p))))) ps)"
    using assms(3) drift_lower by (intro sum_list_mono) blast
  also have "\<dots> \<le> int (tally (holdings k) (positions s0))"
    using assms(1,2) by (rule stored_sum_le) (use assms(3) in \<open>auto simp: held_def kept_def\<close>)
  finally show ?thesis .
qed

lemma drift_cong:
  "positions t (position_id_of hash p) = positions s (position_id_of hash p) \<Longrightarrow> drift hash t k p = drift hash s k p"
  by (simp add: drift_def)

lemma account_member:
  assumes "finite (dom (positions s))" "distinct (map (position_id_of hash) ps)"
    and "\<And>p. p \<in> set ps \<Longrightarrow> positions s (position_id_of hash p) \<noteq> None"
  shows "sum_list (map (\<lambda>p. int (holdings k p)) ps) \<le> account hash ps s k"
proof -
  have "sum_list (map (drift hash s k) ps) = sum_list (map (\<lambda>p. int (holdings k p)) ps)
      - sum_list (map (\<lambda>p. int (holdings k (the (positions s (position_id_of hash p))))) ps)"
    using assms(3)
  proof (induction ps)
    case Nil
    then show ?case by simp
  next
    case (Cons p ps)
    then obtain q where "positions s (position_id_of hash p) = Some q" by fastforce
    with Cons show ?case by (simp add: drift_def)
  qed
  with stored_sum_le [of "positions s" "position_id_of hash" ps "holdings k", OF assms] show ?thesis
    by (simp add: account_def)
qed

section \<open>Saving\<close>

lemma account_execution:
  assumes "finite (dom (positions s))" "positions t = (positions s)(position_id_of hash p := Some q)"
    "settled p q" "position_id_of hash p \<notin> position_id_of hash ` set ps"
  shows "account hash ps t k = account hash (p # ps) s k"
proof -
  have "position_id_of hash x \<noteq> position_id_of hash p" if "x \<in> set ps" for x
    using imageI [OF that, of "position_id_of hash"] assms(4) by auto
  then have eq: "map (drift hash t k) ps = map (drift hash s k) ps"
    by (auto intro!: drift_cong simp: assms(2))
  have "int (tally (holdings k) (positions t)) = int (tally (holdings k) (positions s)) + drift hash s k p"
    using tally_update [OF assms(1), of "holdings k" "position_id_of hash p" q] settled_holdings [OF assms(3), of k]
    unfolding assms(2) drift_def by linarith
  then show ?thesis by (simp add: account_def eq)
qed

lemma save_one:
  assumes ok: "indexes_ok s" "same_books s0 s" "\<And>i. traded_to (positions s0 i) (positions s i)"
    and p: "held hash s0 s p \<or> kept hash s0 s p"
    and bound: "\<And>k. int (tally (holdings k) (positions s)) + drift hash s k p < 2 ^ 128"
  shows "\<exists>q t. position_execution hash um p s = Inr (q, t) \<and> settled p q
    \<and> positions t = (positions s)(position_id_of hash p := Some q) \<and> indexes_ok t \<and> same_books s0 t
    \<and> (\<forall>i. traded_to (positions s0 i) (positions t i)) \<and> kept hash s0 t q \<and> position_id_of hash q = position_id_of hash p"
proof -
  have id: "position_id_of hash q = position_id_of hash p" if "settled p q" for q
    using settled_keeps [OF that] by (simp add: position_id_of_def position_preimage_def)
  from p show ?thesis
  proof
    assume "held hash s0 s p"
    then obtain p0 rs where h: "positions s0 (position_id_of hash p) = Some p0" "p_state p0 = Opened"
      "p = p0\<lparr>p_reserves := rs\<rparr>" "positions s (position_id_of hash p) = Some p0"
      unfolding held_def by blast
    have "tally (holdings k) ((positions s)(position_id_of hash p := Some p)) < 2 ^ 128" for k
      using tally_update [OF indexes_okD(1) [OF ok(1)], of "holdings k" "position_id_of hash p" p] bound [of k] h(4)
      by (simp add: drift_def)
    from execution_traded [OF ok(1) h(4,2,3) refl this] obtain q t where
      t: "position_execution hash um p s = Inr (q, t)" "settled p q"
      "positions t = (positions s)(position_id_of hash p := Some q)" "indexes_ok t" "same_books s t" by blast
    have "traded_to (positions s0 i) (positions t i)" for i
    proof (cases "i = position_id_of hash p")
      case True
      then have "positions t i = Some q" by (simp add: t(3))
      with h(1,2) t(2) True show ?thesis unfolding traded_to_def h(3) [symmetric] by (metis h(3))
    next
      case False
      with ok(3) [of i] show ?thesis by (simp add: t(3))
    qed
    moreover have "kept hash s0 t q"
      unfolding kept_def id [OF t(2)] using h(1-3) t(2,3) by (intro exI [of _ p0] exI [of _ rs]) simp
    ultimately show ?thesis using t same_books_trans [OF ok(2) t(5)] id [OF t(2)] by blast
  next
    assume k: "kept hash s0 s p"
    then have "positions s (position_id_of hash p) = Some p" "p_state p = Opened \<or> p_state p = Closed"
      by (auto simp: kept_def settled_def)
    from execution_noop [OF this refl, of um] k ok this show ?thesis
      by (intro exI [of _ p] exI [of _ s]) (simp add: settled_def fun_upd_idem)
  qed
qed

lemma account_bound:
  assumes "finite (dom (positions s0))" "distinct (map (position_id_of hash) ps)"
    and "\<And>p. p \<in> set ps \<Longrightarrow> held hash s0 s p \<or> kept hash s0 s p"
    and "account hash (p # ps) s k + int (tally (holdings k) (positions s0)) < 2 ^ 128"
  shows "int (tally (holdings k) (positions s)) + drift hash s k p < 2 ^ 128"
  using drift_bound [OF assms(1-3), of k] assms(4) by (simp add: account_def)

lemma save_fold:
  assumes "finite (dom (positions s0))" "indexes_ok s" "same_books s0 s" "\<And>i. traded_to (positions s0 i) (positions s i)"
    and "distinct (map (position_id_of hash) ps)" "\<And>p. p \<in> set ps \<Longrightarrow> held hash s0 s p \<or> kept hash s0 s p"
    and "\<And>k. account hash ps s k + int (tally (holdings k) (positions s0)) < 2 ^ 128"
  shows "\<exists>t. try_fold (save_step hash um) ps s = Inr t \<and> indexes_ok t \<and> same_books s0 t
    \<and> (\<forall>i. traded_to (positions s0 i) (positions t i)) \<and> (\<forall>k. int (tally (holdings k) (positions t)) = account hash ps s k)"
  using assms(2-7)
proof (induction ps arbitrary: s)
  case Nil
  then show ?case by (simp add: account_def)
next
  case (Cons p ps s)
  have dist: "distinct (map (position_id_of hash) ps)" "position_id_of hash p \<notin> position_id_of hash ` set ps"
    using Cons.prems(4) by auto
  have hk: "held hash s0 s x \<or> kept hash s0 s x" if "x \<in> set ps" for x using Cons.prems(5) that by simp
  have bound: "int (tally (holdings k) (positions s)) + drift hash s k p < 2 ^ 128" for k
    by (rule account_bound [OF assms(1) dist(1) hk Cons.prems(6)])
  have hp: "held hash s0 s p \<or> kept hash s0 s p" using Cons.prems(5) by simp
  obtain q u where u: "position_execution hash um p s = Inr (q, u)" "settled p q"
    "positions u = (positions s)(position_id_of hash p := Some q)" "indexes_ok u" "same_books s0 u"
    "\<forall>i. traded_to (positions s0 i) (positions u i)"
    using save_one [OF Cons.prems(1-3) hp bound, of um] by blast
  note acc = account_execution [OF indexes_okD(1) [OF Cons.prems(1)] u(3,2) dist(2)]
  have hk': "held hash s0 u x \<or> kept hash s0 u x" if "x \<in> set ps" for x
  proof -
    have "position_id_of hash x \<noteq> position_id_of hash p" using imageI [OF that, of "position_id_of hash"] dist(2) by auto
    then have "positions u (position_id_of hash x) = positions s (position_id_of hash x)" by (simp add: u(3))
    then show ?thesis using hk [OF that] held_cong [of hash s0 s x u] kept_cong [of hash s0 s x u] by blast
  qed
  have "account hash ps u k + int (tally (holdings k) (positions s0)) < 2 ^ 128" for k
    using Cons.prems(6) [of k] acc [of k] by simp
  from Cons.IH [OF u(4,5) _ dist(1) hk' this] u(6) obtain t where
    "try_fold (save_step hash um) ps u = Inr t" "indexes_ok t" "same_books s0 t"
    "\<forall>i. traded_to (positions s0 i) (positions t i)" "\<forall>k. int (tally (holdings k) (positions t)) = account hash ps u k"
    by blast
  moreover have "save_step hash um p s = Inr u" by (simp add: save_step_def u(1))
  ultimately show ?case using acc by (intro exI [of _ t]) simp
qed

section \<open>The invariant of the loop\<close>

definition frontier_ok :: "(u8 list \<Rightarrow> u8 list) \<Rightarrow> dex_state \<Rightarrow> frontier \<Rightarrow> bool" where
  "frontier_ok hash s0 f \<longleftrightarrow> chained (fr_pairs f) (fr_positions f) \<and> fr_pairs f \<noteq> []
     \<and> distinct (map (position_id_of hash) (fr_positions f)) \<and> position_id_of hash ` set (fr_positions f) \<subseteq> fr_ids f
     \<and> indexes_ok (fr_state f) \<and> same_books s0 (fr_state f)
     \<and> (\<forall>i. traded_to (positions s0 i) (positions (fr_state f) i))
     \<and> (\<forall>i. i \<notin> fr_ids f \<longrightarrow> positions (fr_state f) i = positions s0 i)
     \<and> (\<forall>d \<in> set (fr_pairs f). \<forall>(i, p) \<in> set (fr_streams f d).
          positions s0 i = Some p \<and> p_state p = Opened \<and> serves p d \<and> position_id_of hash p = i)"

definition frontier_live :: "(u8 list \<Rightarrow> u8 list) \<Rightarrow> dex_state \<Rightarrow> frontier \<Rightarrow> bool" where
  "frontier_live hash s0 f \<longleftrightarrow> (\<forall>p \<in> set (fr_positions f). held hash s0 (fr_state f) p)"

definition frontier_done :: "(u8 list \<Rightarrow> u8 list) \<Rightarrow> dex_state \<Rightarrow> frontier \<Rightarrow> bool" where
  "frontier_done hash s0 f \<longleftrightarrow> (\<forall>p \<in> set (fr_positions f). held hash s0 (fr_state f) p \<or> kept hash s0 (fr_state f) p)"

lemma live_done: "frontier_live hash s0 f \<Longrightarrow> frontier_done hash s0 f"
  by (simp add: frontier_live_def frontier_done_def)

lemma frontier_okD:
  assumes "frontier_ok hash s0 f"
  shows "chained (fr_pairs f) (fr_positions f)" "fr_pairs f \<noteq> []" "distinct (map (position_id_of hash) (fr_positions f))"
    "position_id_of hash ` set (fr_positions f) \<subseteq> fr_ids f" "indexes_ok (fr_state f)" "same_books s0 (fr_state f)"
    "traded_to (positions s0 i) (positions (fr_state f) i)" "i \<notin> fr_ids f \<Longrightarrow> positions (fr_state f) i = positions s0 i"
    "d \<in> set (fr_pairs f) \<Longrightarrow> (i, p) \<in> set (fr_streams f d) \<Longrightarrow>
       positions s0 i = Some p \<and> p_state p = Opened \<and> serves p d \<and> position_id_of hash p = i"
  using assms by (auto simp: frontier_ok_def)

abbreviation frontier_account :: "(u8 list \<Rightarrow> u8 list) \<Rightarrow> frontier \<Rightarrow> asset_id \<Rightarrow> int" where
  "frontier_account hash f \<equiv> account hash (fr_positions f) (fr_state f)"

lemma next_position_Some:
  "next_position used xs = Some ((i, p), rest) \<Longrightarrow> i \<notin> used \<and> (\<exists>pre. xs = pre @ (i, p) # rest)"
proof (induction xs)
  case (Cons x xs)
  show ?case
  proof (cases "fst x \<in> used")
    case True
    with Cons have "i \<notin> used \<and> (\<exists>pre. xs = pre @ (i, p) # rest)" by (cases x) simp
    then show ?thesis by (metis append_Cons)
  next
    case False
    with Cons.prems show ?thesis by (cases x) auto
  qed
qed simp

lemma chained_update:
  assumes "chained ds ps" "j < length ds" "serves p (ds ! j)"
  shows "chained ds (ps[j := p])"
  using assms by (auto simp: chained_def nth_list_update)

lemma stream_size_update:
  assumes "d \<in> set ds" "length xs \<le> length (st d)"
  shows "stream_size ds (st(d := xs)) + length (st d) = stream_size ds st + length xs"
proof -
  have "(\<Sum>e \<in> set ds - {d}. length ((st(d := xs)) e)) = (\<Sum>e \<in> set ds - {d}. length (st e))"
    by (rule sum.cong) auto
  then show ?thesis using assms by (simp add: stream_size_def sum.remove [of "set ds" d])
qed

text \<open>Replacing an exhausted position: it is written back, and the next entry of the stream takes
  its place, or there is none.\<close>

lemma replace_position_spec:
  assumes ok: "frontier_ok hash s0 f" "frontier_live hash s0 f" and j: "j < length (fr_pairs f)"
    and fin: "finite (dom (positions s0))"
    and bound: "\<And>k. frontier_account hash f k + int (tally (holdings k) (positions s0)) < 2 ^ 128"
  shows "\<exists>b g. replace_position hash um j f = Inr (b, g) \<and> frontier_ok hash s0 g
    \<and> (\<forall>k. frontier_account hash g k = frontier_account hash f k) \<and> fr_pairs g = fr_pairs f \<and> fr_trace g = fr_trace f
    \<and> (\<forall>i. i \<noteq> j \<longrightarrow> fr_positions g ! i = fr_positions f ! i)
    \<and> (if b then frontier_live hash s0 g \<and> stream_size (fr_pairs g) (fr_streams g) < stream_size (fr_pairs f) (fr_streams f)
       else frontier_done hash s0 g)"
proof -
  note F = frontier_okD [OF ok(1)]
  let ?ps = "fr_positions f" and ?s = "fr_state f" and ?p = "fr_positions f ! j" and ?d = "fr_pairs f ! j"
  let ?rest = "take j ?ps @ drop (Suc j) ?ps"
  have len: "j < length ?ps" using chainedD(1) [OF F(1)] j by simp
  note split = distinct_split [OF F(3) len]
  have held: "held hash s0 ?s p" if "p \<in> set ?ps" for p using ok(2) that by (simp add: frontier_live_def)
  have sub: "set ?rest \<subseteq> set ?ps" using set_take_subset [of j ?ps] set_drop_subset [of "Suc j" ?ps] by auto
  have hp: "held hash s0 ?s ?p" using held len by simp
  have acc: "account hash (?p # ?rest) ?s k = frontier_account hash f k" for k
    using sum_list_split(1) [OF len, of "drift hash ?s k"] by (simp add: account_def)
  have "int (tally (holdings k) (positions ?s)) + drift hash ?s k ?p < 2 ^ 128" for k
    by (rule account_bound [OF fin split(1)]) (use held sub bound acc in auto)
  from save_one [OF F(5-7) disjI1 [OF hp] this, of um] obtain q t where
    t: "position_execution hash um ?p ?s = Inr (q, t)" "settled ?p q"
    "positions t = (positions ?s)(position_id_of hash ?p := Some q)" "indexes_ok t" "same_books s0 t"
    "\<forall>i. traded_to (positions s0 i) (positions t i)" "kept hash s0 t q" "position_id_of hash q = position_id_of hash ?p" by blast
  have other: "positions t (position_id_of hash p) = positions ?s (position_id_of hash p)" if "p \<in> set ?rest" for p
    using imageI [OF that, of "position_id_of hash"] split(2) by (auto simp: t(3))
  have rest_held: "held hash s0 t p" if "p \<in> set ?rest" for p
    using held_cong [OF held other] that sub by blast
  have rest_acc: "account hash ?rest t k = frontier_account hash f k" for k
    using account_execution [OF indexes_okD(1) [OF F(5)] t(3,2) split(2), of k] acc by simp
  have upd: "account hash (?ps[j := x]) t k = drift hash t k x + account hash ?rest t k" for x k
    using sum_list_split(2) [OF len, of "drift hash t k" x] by (simp add: account_def)
  have q: "serves q ?d" using serves_phi [OF chainedD(2) [OF F(1) j]] settled_keeps [OF t(2)] by blast
  have qd: "drift hash t k q = 0" for k by (simp add: drift_def t(3,8))
  have set_upd: "set (?ps[j := x]) = insert x (set ?rest)" for x using len by (auto simp: upd_conv_take_nth_drop)
  have pid_ids: "position_id_of hash ?p \<in> fr_ids f" using F(4) len by auto
  define g0 where "g0 = f\<lparr>fr_positions := ?ps[j := q], fr_state := t\<rparr>"
  show ?thesis
  proof (cases "next_position (fr_ids f) (fr_streams f ?d)")
    case None
    define g where "g = g0\<lparr>fr_streams := (fr_streams f)(?d := [])\<rparr>"
    have "replace_position hash um j f = Inr (False, g)"
      using t(1) None by (simp add: replace_position_def Let_def g_def g0_def)
    moreover have "frontier_ok hash s0 g"
      unfolding frontier_ok_def
    proof (intro conjI)
      show "chained (fr_pairs g) (fr_positions g)"
        using chained_update [OF F(1) j q] by (simp add: g_def g0_def)
      show "distinct (map (position_id_of hash) (fr_positions g))"
        using F(3) t(8) len by (simp add: g_def g0_def map_update) (metis length_map list_update_id nth_map)
      show "position_id_of hash ` set (fr_positions g) \<subseteq> fr_ids g"
        using F(4) sub pid_ids t(8) by (auto simp: g_def g0_def set_upd)
      show "\<forall>i. i \<notin> fr_ids g \<longrightarrow> positions (fr_state g) i = positions s0 i"
        using F(8) pid_ids by (auto simp: g_def g0_def t(3))
      show "\<forall>d \<in> set (fr_pairs g). \<forall>(i, p) \<in> set (fr_streams g d).
          positions s0 i = Some p \<and> p_state p = Opened \<and> serves p d \<and> position_id_of hash p = i"
        using F(9) by (auto simp: g_def g0_def split: if_splits)
    qed (use F t in \<open>simp_all add: g_def g0_def\<close>)
    moreover have "frontier_done hash s0 g"
      using rest_held t(7) by (auto simp: frontier_done_def g_def g0_def set_upd)
    moreover have "frontier_account hash g k = frontier_account hash f k" for k
      using upd [of q k] rest_acc qd by (simp add: g_def g0_def)
    ultimately show ?thesis by (intro exI [of _ False] exI [of _ g]) (simp add: g_def g0_def)
  next
    case (Some x)
    obtain i p r where x: "x = ((i, p), r)" by (metis prod.exhaust)
    from next_position_Some [OF Some [unfolded x]] obtain pre where
      nx: "i \<notin> fr_ids f" "fr_streams f ?d = pre @ (i, p) # r" by blast
    have d: "?d \<in> set (fr_pairs f)" using j by simp
    have p: "positions s0 i = Some p" "p_state p = Opened" "serves p ?d" "position_id_of hash p = i"
      using F(9) [OF d, of i p] nx(2) by auto
    have ti: "positions t i = Some p" using F(8) [OF nx(1)] p(1) pid_ids nx(1) by (auto simp: t(3))
    define g where "g = g0\<lparr>fr_streams := (fr_streams f)(?d := r), fr_ids := insert i (fr_ids f),
        fr_positions := ?ps[j := p]\<rparr>"
    have "replace_position hash um j f = Inr (True, g)"
      using t(1) Some by (simp add: replace_position_def Let_def g_def g0_def x)
    moreover have "frontier_ok hash s0 g"
      unfolding frontier_ok_def
    proof (intro conjI)
      show "chained (fr_pairs g) (fr_positions g)"
        using chained_update [OF F(1) j p(3)] by (simp add: g_def g0_def)
      have "i \<notin> position_id_of hash ` set ?rest" using F(4) nx(1) sub by auto
      then have "distinct (map (position_id_of hash) (take j ?ps @ p # drop (Suc j) ?ps))"
        using split(1) p(4) by auto
      then show "distinct (map (position_id_of hash) (fr_positions g))"
        using len by (simp add: g_def g0_def upd_conv_take_nth_drop)
      show "position_id_of hash ` set (fr_positions g) \<subseteq> fr_ids g"
        using F(4) sub p(4) by (auto simp: g_def g0_def set_upd)
      show "\<forall>i. i \<notin> fr_ids g \<longrightarrow> positions (fr_state g) i = positions s0 i"
        using F(8) pid_ids by (auto simp: g_def g0_def t(3))
      show "\<forall>d \<in> set (fr_pairs g). \<forall>(i, p) \<in> set (fr_streams g d).
          positions s0 i = Some p \<and> p_state p = Opened \<and> serves p d \<and> position_id_of hash p = i"
      proof (intro ballI)
        fix d y
        assume dy: "d \<in> set (fr_pairs g)" "y \<in> set (fr_streams g d)"
        obtain i' p' where y: "y = (i', p')" by fastforce
        have "d \<in> set (fr_pairs f)" "(i', p') \<in> set (fr_streams f d)"
          using dy nx(2) y by (auto simp: g_def g0_def split: if_splits)
        from F(9) [OF this] show "case y of (i, p) \<Rightarrow>
            positions s0 i = Some p \<and> p_state p = Opened \<and> serves p d \<and> position_id_of hash p = i" by (simp add: y)
      qed
    qed (use F t in \<open>simp_all add: g_def g0_def\<close>)
    moreover have "held hash s0 t p"
      unfolding held_def p(4) using p ti by (intro exI [of _ p] exI [of _ "p_reserves p"]) simp
    then have "frontier_live hash s0 g"
      using rest_held by (auto simp: frontier_live_def g_def g0_def set_upd)
    moreover have "frontier_account hash g k = frontier_account hash f k" for k
      using upd [of p k] rest_acc ti p(4) by (simp add: g_def g0_def drift_def)
    moreover have "stream_size (fr_pairs g) (fr_streams g) < stream_size (fr_pairs f) (fr_streams f)"
      using stream_size_update [OF d, of r "fr_streams f"] nx(2) by (simp add: g_def g0_def)
    ultimately show ?thesis by (intro exI [of _ True] exI [of _ g]) (simp add: g_def g0_def)
  qed
qed

definition exhausted :: "frontier \<Rightarrow> nat \<Rightarrow> bool" where
  "exhausted f j \<longleftrightarrow> holdings (dp_end (fr_pairs f ! j)) (fr_positions f ! j) = 0"

lemma desired_reserves:
  assumes "serves p d"
  shows "\<exists>a. reserves_for p (dp_end d) = Some a \<and> (a = 0 \<longleftrightarrow> holdings (dp_end d) p = 0)"
  using serves_reserves_for(1) [OF assms] serves_holdings [OF assms, of "dp_end d"] serves_neq [OF assms]
  by (simp add: unat_eq_0)

definition replaced :: "(u8 list \<Rightarrow> u8 list) \<Rightarrow> dex_state \<Rightarrow> nat list \<Rightarrow> frontier \<Rightarrow> bool \<Rightarrow> frontier \<Rightarrow> bool" where
  "replaced hash s0 is f b g \<longleftrightarrow> frontier_ok hash s0 g
    \<and> (\<forall>k. frontier_account hash g k = frontier_account hash f k) \<and> fr_pairs g = fr_pairs f \<and> fr_trace g = fr_trace f
    \<and> (b \<longrightarrow> frontier_live hash s0 g \<and> stream_size (fr_pairs g) (fr_streams g) \<le> stream_size (fr_pairs f) (fr_streams f))
    \<and> (b \<longrightarrow> (\<exists>i \<in> set is. exhausted f i) \<longrightarrow> stream_size (fr_pairs g) (fr_streams g) < stream_size (fr_pairs f) (fr_streams f))
    \<and> (\<not> b \<longrightarrow> frontier_done hash s0 g)"

lemma replace_empty_spec:
  assumes "frontier_ok hash s0 f" "frontier_live hash s0 f" "finite (dom (positions s0))"
    and "\<And>k. frontier_account hash f k + int (tally (holdings k) (positions s0)) < 2 ^ 128"
    and "\<And>i. i \<in> set is \<Longrightarrow> i < length (fr_pairs f)"
  shows "\<exists>b g. replace_empty_from hash um is f = Inr (b, g) \<and> replaced hash s0 is f b g"
  using assms(1,2,4,5)
proof (induction "is" arbitrary: f)
  case Nil
  then show ?case by (intro exI [of _ True] exI [of _ f]) (simp add: replaced_def)
next
  case (Cons i "is" f)
  have i: "i < length (fr_pairs f)" using Cons.prems(4) by simp
  have sv: "serves (fr_positions f ! i) (fr_pairs f ! i)"
    by (rule chainedD(2) [OF frontier_okD(1) [OF Cons.prems(1)] i])
  obtain a where a: "reserves_for (fr_positions f ! i) (dp_end (fr_pairs f ! i)) = Some a" "a = 0 \<longleftrightarrow> exhausted f i"
    using desired_reserves [OF sv] that unfolding exhausted_def by (elim exE conjE)
  show ?case
  proof (cases "exhausted f i")
    case False
    obtain b g where g: "replace_empty_from hash um is f = Inr (b, g)" "replaced hash s0 is f b g"
      using Cons.IH [OF Cons.prems(1-3)] Cons.prems(4) by auto
    have "replace_empty_from hash um (i # is) f = Inr (b, g)" using False a g(1) by simp
    moreover have "replaced hash s0 (i # is) f b g" using g(2) False unfolding replaced_def by auto
    ultimately show ?thesis by blast
  next
    case True
    obtain b g where g: "replace_position hash um i f = Inr (b, g)" "frontier_ok hash s0 g"
      "\<And>k. frontier_account hash g k = frontier_account hash f k" "fr_pairs g = fr_pairs f" "fr_trace g = fr_trace f"
      "if b then frontier_live hash s0 g \<and> stream_size (fr_pairs g) (fr_streams g) < stream_size (fr_pairs f) (fr_streams f)
       else frontier_done hash s0 g"
      using replace_position_spec [OF Cons.prems(1,2) i assms(3) Cons.prems(3), of um] by blast
    show ?thesis
    proof (cases b)
      case False
      with g a True show ?thesis by (intro exI [of _ False] exI [of _ g]) (simp add: replaced_def)
    next
      case bt: True
      then have live: "frontier_live hash s0 g" "stream_size (fr_pairs g) (fr_streams g) < stream_size (fr_pairs f) (fr_streams f)"
        using g(6) by simp_all
      have "frontier_account hash g k + int (tally (holdings k) (positions s0)) < 2 ^ 128" for k
        using Cons.prems(3) g(3) by simp
      moreover have "x \<in> set is \<Longrightarrow> x < length (fr_pairs g)" for x using Cons.prems(4) g(4) by simp
      ultimately obtain b' h where h: "replace_empty_from hash um is g = Inr (b', h)" "replaced hash s0 is g b' h"
        using Cons.IH [OF g(2) live(1)] by blast
      have "replace_empty_from hash um (i # is) f = Inr (b', h)" using a True g(1) bt h(1) by simp
      moreover have "replaced hash s0 (i # is) f b' h" using h(2) live(2) g(3-5) unfolding replaced_def by auto
      ultimately show ?thesis by blast
    qed
  qed
qed

section \<open>One iteration\<close>

lemma two_members:
  fixes g :: "'a \<Rightarrow> nat"
  assumes "i < length xs" "j < length xs" "i \<noteq> j"
  shows "g (xs ! i) + g (xs ! j) \<le> sum_list (map g xs)"
proof -
  have "sum_list (map g xs) = (\<Sum>k < length xs. g (xs ! k))"
    by (simp add: sum_list_sum_nth atLeast0LessThan)
  moreover have "(\<Sum>k \<in> {i, j}. g (xs ! k)) \<le> (\<Sum>k < length xs. g (xs ! k))"
    using assms by (intro sum_mono2) auto
  ultimately show ?thesis using assms(3) by simp
qed

definition traded_in :: "frontier \<Rightarrow> nat" where
  "traded_in f = sum_list (map (\<lambda>tr. unat (v_amount (hd tr))) (fr_trace f))"

definition traded_out :: "frontier \<Rightarrow> nat" where
  "traded_out f = sum_list (map (\<lambda>tr. unat (v_amount (last tr))) (fr_trace f))"

abbreviation route_start :: "frontier \<Rightarrow> asset_id" where
  "route_start f \<equiv> route_node (fr_pairs f) 0"

abbreviation route_end :: "frontier \<Rightarrow> asset_id" where
  "route_end f \<equiv> route_node (fr_pairs f) (length (fr_pairs f))"

text \<open>The books balance: what the positions hold, as the frontier has them, is what they held
  before, plus the input traded so far, less the output.\<close>

definition balanced :: "(u8 list \<Rightarrow> u8 list) \<Rightarrow> dex_state \<Rightarrow> frontier \<Rightarrow> bool" where
  "balanced hash s0 f \<longleftrightarrow> (\<forall>k. frontier_account hash f k + (if k = route_end f then int (traded_out f) else 0)
     = int (tally (holdings k) (positions s0)) + (if k = route_start f then int (traded_in f) else 0))"

lemma frontier_room:
  assumes "frontier_ok hash s0 f" "frontier_live hash s0 f" "balanced hash s0 f"
    and "\<And>k. 2 * tally (holdings k) (positions s0) + (traded_in f + a) < 2 ^ 128"
  shows "roomy (fr_pairs f) (fr_positions f) a"
    "frontier_account hash f k + int (tally (holdings k) (positions s0)) < 2 ^ 128"
proof -
  note F = frontier_okD [OF assms(1)]
  have acc: "frontier_account hash f k \<le> int (tally (holdings k) (positions s0)) + (if k = route_start f then int (traded_in f) else 0)" for k
    using assms(3) [unfolded balanced_def, rule_format, of k] by (simp split: if_splits)
  have "p \<in> set (fr_positions f) \<Longrightarrow> positions (fr_state f) (position_id_of hash p) \<noteq> None" for p
    using assms(2) unfolding frontier_live_def held_def by fastforce
  then have sum: "sum_list (map (\<lambda>p. int (holdings k p)) (fr_positions f)) \<le> frontier_account hash f k" for k
    using account_member [OF indexes_okD(1) [OF F(5)] F(3)] by blast
  have nat_sum: "sum_list (map (\<lambda>p. int (holdings k p)) ps) = int (sum_list (map (holdings k) ps))" for k ps
    by (induction ps) simp_all
  have le: "sum_list (map (holdings k) (fr_positions f)) \<le> tally (holdings k) (positions s0) + (if k = route_start f then traded_in f else 0)" for k
    using sum [of k] acc [of k] unfolding nat_sum by (simp split: if_splits)
  have len: "length (fr_positions f) = length (fr_pairs f)" using chainedD(1) [OF F(1)] .
  show "roomy (fr_pairs f) (fr_positions f) a"
    unfolding roomy_def
  proof (intro conjI impI allI)
    assume "fr_pairs f \<noteq> []"
    then have "fr_positions f ! 0 \<in> set (fr_positions f)" using len by simp
    then have "holdings k (fr_positions f ! 0) \<le> sum_list (map (holdings k) (fr_positions f))" for k
      by (intro member_le_sum_list) simp_all
    moreover have "dp_start (fr_pairs f ! 0) = route_start f" by (simp add: route_node_def)
    ultimately show "holdings (dp_start (fr_pairs f ! 0)) (fr_positions f ! 0) + a < 2 ^ 128"
      using le [of "route_start f"] assms(4) [of "route_start f"] by (smt (verit) add.commute add.left_commute le_trans linorder_not_le mult_2 nat_add_left_cancel_le not_add_less1)
  next
    fix j assume j: "Suc j < length (fr_pairs f)"
    let ?k = "dp_end (fr_pairs f ! j)"
    have "holdings ?k (fr_positions f ! j) + holdings ?k (fr_positions f ! Suc j) \<le> sum_list (map (holdings ?k) (fr_positions f))"
      using two_members [of j "fr_positions f" "Suc j" "holdings ?k"] j len by simp
    also have "\<dots> \<le> tally (holdings ?k) (positions s0) + traded_in f" using le [of ?k] by (simp split: if_splits)
    also have "\<dots> < 2 ^ 128" using assms(4) [of ?k] by simp
    finally show "holdings ?k (fr_positions f ! j) + holdings ?k (fr_positions f ! Suc j) < 2 ^ 128" .
  qed
  show "frontier_account hash f k + int (tally (holdings k) (positions s0)) < 2 ^ 128"
    using acc [of k] assms(4) [of k] by (simp split: if_splits)
qed

lemma swapped_ids:
  assumes "swapped ds ps qs zs" "length ps = length ds"
  shows "map (position_id_of hash) qs = map (position_id_of hash) ps"
proof (rule nth_equalityI)
  show "length (map (position_id_of hash) qs) = length (map (position_id_of hash) ps)"
    using assms(1) by (simp add: swapped_def)
  fix j assume "j < length (map (position_id_of hash) qs)"
  then have j: "j < length ds" "j < length ps" "j < length qs" using assms by (simp_all add: swapped_def)
  then obtain rs where "qs ! j = (ps ! j)\<lparr>p_reserves := rs\<rparr>" using assms(1) unfolding swapped_def by blast
  then have "position_id_of hash (qs ! j) = position_id_of hash (ps ! j)"
    by (simp add: position_id_of_def position_preimage_def)
  with j show "map (position_id_of hash) qs ! j = map (position_id_of hash) ps ! j" by simp
qed

lemma sum_list_index: "sum_list (map g xs) = (\<Sum>j < length xs. g (xs ! j))" for g :: "'a \<Rightarrow> 'b::comm_monoid_add"
  by (simp add: sum_list_sum_nth atLeast0LessThan)

lemma swapped_account:
  assumes "chained ds ps" "swapped ds ps qs zs"
  shows "account hash qs s k + (if k = route_node ds (length ds) then int (unat (zs (length ds))) else 0)
    = account hash ps s k + (if k = route_node ds 0 then int (unat (zs 0)) else 0)"
proof -
  let ?stored = "\<lambda>i. int (prev_value (holdings k) (positions s i))"
  have len: "length ps = length ds" "length qs = length ds"
    using chainedD(1) [OF assms(1)] assms(2) by (simp_all add: swapped_def)
  have split: "sum_list (map (drift hash s k) xs) = (\<Sum>j < length xs. int (holdings k (xs ! j)))
      - sum_list (map ?stored (map (position_id_of hash) xs))" for xs
    unfolding sum_list_index [of "\<lambda>p. int (holdings k p)", symmetric] by (induction xs) (simp_all add: drift_def)
  have "(\<Sum>j < length ds. int (holdings k (qs ! j))) + (if k = route_node ds (length ds) then int (unat (zs (length ds))) else 0)
      = (\<Sum>j < length ds. int (holdings k (ps ! j))) + (if k = route_node ds 0 then int (unat (zs 0)) else 0)"
    using arg_cong [OF swapped_total [OF assms le_refl, of k], of int]
    unfolding of_nat_add of_nat_sum if_distrib [of int] semiring_1_class.of_nat_0 .
  then show ?thesis
    unfolding account_def split len swapped_ids [OF assms(2) len(1)] by linarith
qed

lemma apply_spec:
  assumes ok: "frontier_ok hash s0 f" "frontier_live hash s0 f" and sw: "swapped (fr_pairs f) (fr_positions f) qs zs"
    and g: "g = f\<lparr>fr_positions := qs, fr_trace := fr_trace f @ [tr]\<rparr>"
  shows "frontier_ok hash s0 g" "frontier_live hash s0 g"
    "frontier_account hash g k + (if k = route_end f then int (unat (zs (length (fr_pairs f)))) else 0)
      = frontier_account hash f k + (if k = route_start f then int (unat (zs 0)) else 0)"
proof -
  note F = frontier_okD [OF ok(1)]
  have len: "length (fr_positions f) = length (fr_pairs f)" using chainedD(1) [OF F(1)] .
  note ids = swapped_ids [OF sw len, of hash]
  show "frontier_live hash s0 g"
    unfolding frontier_live_def
  proof
    fix q assume "q \<in> set (fr_positions g)"
    then obtain j where j: "j < length (fr_pairs f)" "q = qs ! j"
      using sw len unfolding g by (auto simp: in_set_conv_nth swapped_def)
    then obtain rs where q: "q = (fr_positions f ! j)\<lparr>p_reserves := rs\<rparr>" using sw unfolding swapped_def by blast
    then have id: "position_id_of hash q = position_id_of hash (fr_positions f ! j)"
      by (simp add: position_id_of_def position_preimage_def)
    have "held hash s0 (fr_state f) (fr_positions f ! j)" using ok(2) j(1) len by (simp add: frontier_live_def)
    then obtain p0 rs0 where "positions s0 (position_id_of hash q) = Some p0" "p_state p0 = Opened"
      "fr_positions f ! j = p0\<lparr>p_reserves := rs0\<rparr>" "positions (fr_state f) (position_id_of hash q) = Some p0"
      unfolding held_def id by blast
    then show "held hash s0 (fr_state g) q" unfolding held_def g q by (intro exI [of _ p0] exI [of _ rs]) (simp add: id [unfolded q])
  qed
  have "position_id_of hash ` set qs = position_id_of hash ` set (fr_positions f)"
    using arg_cong [OF ids, of set] by simp
  then show "frontier_ok hash s0 g"
    using ok(1) swapped_chained [OF F(1) sw] ids unfolding frontier_ok_def g by simp
  show "frontier_account hash g k + (if k = route_end f then int (unat (zs (length (fr_pairs f)))) else 0)
      = frontier_account hash f k + (if k = route_start f then int (unat (zs 0)) else 0)"
    using swapped_account [OF F(1) sw, of hash "fr_state f" k] unfolding g by simp
qed

text \<open>What one iteration commits: a pass that takes at most the input that is left, takes all of it
  when no hop constrains it, and otherwise exhausts a position.\<close>

lemma iteration_pass:
  assumes ok: "frontier_ok hash s0 f" "frontier_live hash s0 f"
    and room: "roomy (fr_pairs f) (fr_positions f) (unat (v_amount input))" and input: "v_asset input = route_start f"
    and sense: "sense_capacity_constraint hash f input = Inr c"
  shows "\<exists>tx zs. (case c of Some j \<Rightarrow> fill_constrained f j | None \<Rightarrow> fill_unconstrained f input) = Inr tx
    \<and> pass f tx zs \<and> zs 0 \<le> v_amount input
    \<and> (case c of None \<Rightarrow> zs 0 = v_amount input
       | Some j \<Rightarrow> j < length (fr_pairs f) \<and> unat (zs (Suc j)) = holdings (dp_end (fr_pairs f ! j)) (fr_positions f ! j))"
proof -
  note F = frontier_okD [OF ok(1)]
  obtain a where i: "input = \<lparr>v_amount = a, v_asset = route_start f\<rparr>" using input by (cases input) auto
  have start: "route_start f = dp_start (fr_pairs f ! 0)" by (simp add: route_node_def)
  obtain xs us where run: "xs 0 = a" "run (fr_pairs f) (fr_positions f) xs us"
    "last_constraint 0 (length (fr_pairs f)) us None c"
    using sense_run [OF F(1) _ sense [unfolded sense_capacity_constraint_def i]] start by auto
  show ?thesis
  proof (cases c)
    case None
    then have "\<forall>j < length (fr_pairs f). us j = 0" using run(3) by (auto simp: last_constraint_def)
    from unconstrained_pass [OF F(1,2) start run(2) this] room run(1) None show ?thesis by (auto simp: i)
  next
    case (Some j)
    then have "j < length (fr_pairs f)" "us j \<noteq> 0" "\<forall>m < length (fr_pairs f). j < m \<longrightarrow> us m = 0"
      using run(3) by (auto simp: last_constraint_def)
    from constrained_pass [OF F(1) this(1) run(2) this(2,3)] room run(1) Some this(1) show ?thesis by (auto simp: i)
  qed
qed

section \<open>The loop\<close>

definition loop_ok :: "(u8 list \<Rightarrow> u8 list) \<Rightarrow> dex_state \<Rightarrow> nat \<Rightarrow> frontier \<Rightarrow> bool" where
  "loop_ok hash s0 offer f \<longleftrightarrow> frontier_ok hash s0 f \<and> balanced hash s0 f \<and> traded_in f \<le> offer \<and> [] \<notin> set (fr_trace f)"

lemma exhausted_after:
  assumes "swapped ds ps qs zs" "j < length ds" "unat (zs (Suc j)) = holdings (dp_end (ds ! j)) (ps ! j)" "chained ds ps"
  shows "holdings (dp_end (ds ! j)) (qs ! j) = 0"
proof -
  have "dp_start (ds ! j) \<noteq> dp_end (ds ! j)" using serves_neq [OF chainedD(2) [OF assms(4,2)]] .
  moreover have "hop_swap (ds ! j) (ps ! j) (qs ! j) (unat (zs j)) (unat (zs (Suc j)))"
    using assms(1,2) by (simp add: swapped_def)
  ultimately show ?thesis using assms(3) unfolding hop_swap_def by (auto dest!: spec [of _ "dp_end (ds ! j)"])
qed

text \<open>A pass and the replacement after it keep the invariant of the loop.\<close>

lemma iteration_spec:
  assumes fin: "finite (dom (positions s0))" and bound: "\<And>k. 2 * tally (holdings k) (positions s0) + offer < 2 ^ 128"
    and ok: "loop_ok hash s0 offer f" "frontier_live hash s0 f"
    and input: "v_asset input = route_start f" "traded_in f + unat (v_amount input) = offer"
    and sense: "sense_capacity_constraint hash f input = Inr c"
  shows "\<exists>tx f1 a b r g. (case c of Some j \<Rightarrow> fill_constrained f j | None \<Rightarrow> fill_unconstrained f input) = Inr tx
    \<and> frontier_apply f tx = Inr (f1, a, b) \<and> a \<le> v_amount input \<and> (c = None \<longrightarrow> a = v_amount input)
    \<and> replace_empty_positions hash um f1 = Inr (r, g) \<and> loop_ok hash s0 offer g \<and> fr_pairs g = fr_pairs f
    \<and> fr_trace g \<noteq> [] \<and> traded_in g + unat (v_amount input - a) = offer
    \<and> (r \<longrightarrow> frontier_live hash s0 g \<and> (c \<noteq> None \<longrightarrow>
          stream_size (fr_pairs g) (fr_streams g) < stream_size (fr_pairs f) (fr_streams f)))
    \<and> (\<not> r \<longrightarrow> frontier_done hash s0 g)"
proof -
  have fok: "frontier_ok hash s0 f" and bal: "balanced hash s0 f" using ok(1) by (simp_all add: loop_ok_def)
  note F = frontier_okD [OF fok]
  have bound': "2 * tally (holdings k) (positions s0) + (traded_in f + unat (v_amount input)) < 2 ^ 128" for k
    using bound input(2) by simp
  note room = frontier_room [OF fok ok(2) bal bound']
  obtain tx zs where tx: "(case c of Some j \<Rightarrow> fill_constrained f j | None \<Rightarrow> fill_unconstrained f input) = Inr tx"
    "pass f tx zs" "zs 0 \<le> v_amount input"
    "case c of None \<Rightarrow> zs 0 = v_amount input
       | Some j \<Rightarrow> j < length (fr_pairs f) \<and> unat (zs (Suc j)) = holdings (dp_end (fr_pairs f ! j)) (fr_positions f ! j)"
    using iteration_pass [OF fok ok(2) room(1) input(1) sense] by blast
  obtain qs tr where ap: "frontier_apply f tx
      = Inr (f\<lparr>fr_positions := qs, fr_trace := fr_trace f @ [tr]\<rparr>, zs 0, zs (length (fr_pairs f)))"
    "swapped (fr_pairs f) (fr_positions f) qs zs" "tr \<noteq> []" "v_amount (hd tr) = zs 0"
    "v_amount (last tr) = zs (length (fr_pairs f))"
    using apply_pass [OF tx(2) F(1,2)] by blast
  define f1 where "f1 = f\<lparr>fr_positions := qs, fr_trace := fr_trace f @ [tr]\<rparr>"
  note f1 = apply_spec [OF fok ok(2) ap(2) f1_def]
  have small: "fr_pairs f1 = fr_pairs f" "fr_streams f1 = fr_streams f" "fr_trace f1 = fr_trace f @ [tr]"
    "traded_in f1 = traded_in f + unat (zs 0)" "traded_out f1 = traded_out f + unat (zs (length (fr_pairs f)))"
    using ap(4,5) by (simp_all add: f1_def traded_in_def traded_out_def)
  have sub: "unat (v_amount input - zs 0) + unat (zs 0) = unat (v_amount input)"
    using tx(3) by (simp add: unat_sub_no_underflow word_le_nat_alt)
  have bal1: "balanced hash s0 f1"
    unfolding balanced_def
  proof
    fix k
    show "frontier_account hash f1 k + (if k = route_end f1 then int (traded_out f1) else 0)
      = int (tally (holdings k) (positions s0)) + (if k = route_start f1 then int (traded_in f1) else 0)"
      using f1(3) [of k] bal [unfolded balanced_def, rule_format, of k] unfolding small by (simp split: if_splits)
  qed
  have tin: "traded_in f1 + unat (v_amount input - zs 0) = offer" using sub input(2) small(4) by simp
  have bound1: "2 * tally (holdings k) (positions s0) + (traded_in f1 + unat (v_amount input - zs 0)) < 2 ^ 128" for k
    using bound tin by simp
  have fits: "frontier_account hash f1 k + int (tally (holdings k) (positions s0)) < 2 ^ 128" for k
    by (rule frontier_room(2) [OF f1(1,2) bal1 bound1])
  obtain r g where g: "replace_empty_positions hash um f1 = Inr (r, g)" "replaced hash s0 [0..<length (fr_pairs f1)] f1 r g"
    using replace_empty_spec [OF f1(1,2) fin fits, of "[0..<length (fr_pairs f1)]" um] unfolding replace_empty_positions_def by auto
  have same: "fr_pairs g = fr_pairs f" "fr_trace g = fr_trace f @ [tr]" "frontier_account hash g k = frontier_account hash f1 k"
    "frontier_ok hash s0 g" "r \<Longrightarrow> frontier_live hash s0 g" "\<not> r \<Longrightarrow> frontier_done hash s0 g" for k
    using g(2) small by (auto simp: replaced_def)
  have trades: "traded_in g = traded_in f1" "traded_out g = traded_out f1"
    using same(2) small(3) by (simp_all add: traded_in_def traded_out_def)
  have "balanced hash s0 g" using bal1 unfolding balanced_def same(1,3) small(1) trades .
  moreover have "traded_in g \<le> offer" using trades(1) tin by linarith
  moreover have "[] \<notin> set (fr_trace g)" using ok(1) ap(3) by (auto simp: loop_ok_def same(2))
  ultimately have "loop_ok hash s0 offer g" using same(4) by (simp add: loop_ok_def)
  moreover have "stream_size (fr_pairs g) (fr_streams g) < stream_size (fr_pairs f) (fr_streams f)" if rr: "r" and cc: "c \<noteq> None"
  proof -
    obtain j where j: "c = Some j" using cc by blast
    have "j < length (fr_pairs f)" "unat (zs (Suc j)) = holdings (dp_end (fr_pairs f ! j)) (fr_positions f ! j)"
      using tx(4) j by simp_all
    then have "j \<in> set [0..<length (fr_pairs f1)]" "exhausted f1 j"
      using exhausted_after [OF ap(2) _ _ F(1)] small(1) by (simp_all add: exhausted_def f1_def)
    then show ?thesis using g(2) rr small(1,2) unfolding replaced_def by metis
  qed
  moreover have "c = None \<longrightarrow> zs 0 = v_amount input" using tx(4) by auto
  moreover have "traded_in g + unat (v_amount input - zs 0) = offer" using tin trades by simp
  ultimately show ?thesis
    using tx(1,3) ap(1) g(1) same(1,2,5,6) unfolding f1_def [symmetric]
    by (intro exI [of _ tx] exI [of _ f1] exI [of _ "zs 0"] exI [of _ "zs (length (fr_pairs f))"] exI [of _ r] exI [of _ g]) simp
qed

lemma fill_loop_spec:
  assumes fin: "finite (dom (positions s0))" and bound: "\<And>k. 2 * tally (holdings k) (positions s0) + offer < 2 ^ 128"
    and "loop_ok hash s0 offer f" "frontier_live hash s0 f" "stream_size (fr_pairs f) (fr_streams f) < fuel"
    and "v_asset input = route_start f" "traded_in f + unat (v_amount input) = offer" "once \<Longrightarrow> fr_trace f \<noteq> []"
  shows "(\<exists>g. fill_loop hash um spill fuel once input f = Inr (Some g) \<and> loop_ok hash s0 offer g \<and> frontier_done hash s0 g
      \<and> fr_pairs g = fr_pairs f \<and> fr_trace g \<noteq> [])
    \<or> (\<exists>i p. fill_loop hash um spill fuel once input f = Inl (ExecutionOverflow i)
      \<and> positions s0 i = Some p \<and> p_state p = Opened)"
  using assms(3-8)
proof (induction fuel arbitrary: once input f)
  case 0
  then show ?case by simp
next
  case (Suc fuel once input f)
  have fok: "frontier_ok hash s0 f" using Suc.prems(1) by (simp add: loop_ok_def)
  note F = frontier_okD [OF fok]
  show ?case
  proof (cases "sense_capacity_constraint hash f input")
    case (Inl e)
    obtain a where i: "input = \<lparr>v_amount = a, v_asset = dp_start (fr_pairs f ! 0)\<rparr>"
      using Suc.prems(4) by (cases input) (auto simp: route_node_def)
    obtain p where p: "p \<in> set (fr_positions f)" "e = ExecutionOverflow (position_id_of hash p)"
      using sense_error [OF F(1) _ Inl [unfolded sense_capacity_constraint_def i]] by auto
    have "held hash s0 (fr_state f) p" using Suc.prems(2) p(1) by (simp add: frontier_live_def)
    with p Inl show ?thesis by (auto simp: held_def)
  next
    case (Inr c)
    obtain tx f1 a b r g where it:
      "(case c of Some j \<Rightarrow> fill_constrained f j | None \<Rightarrow> fill_unconstrained f input) = Inr tx"
      "frontier_apply f tx = Inr (f1, a, b)" "a \<le> v_amount input" "c = None \<longrightarrow> a = v_amount input"
      "replace_empty_positions hash um f1 = Inr (r, g)" "loop_ok hash s0 offer g" "fr_pairs g = fr_pairs f"
      "fr_trace g \<noteq> []" "traded_in g + unat (v_amount input - a) = offer"
      "r \<longrightarrow> frontier_live hash s0 g \<and> (c \<noteq> None \<longrightarrow>
          stream_size (fr_pairs g) (fr_streams g) < stream_size (fr_pairs f) (fr_streams f))"
      "\<not> r \<longrightarrow> frontier_done hash s0 g"
      using iteration_spec [OF fin bound Suc.prems(1,2,4,5) Inr, of um] by metis
    let ?input = "input\<lparr>v_amount := v_amount input - a\<rparr>"
    have step: "fill_loop hash um spill (Suc fuel) once input f =
      (if \<not> fill_should_apply spill once tx then Inr (Some f)
       else if \<not> r then Inr (Some g)
       else if c = None then (if v_amount ?input \<noteq> 0 then Inl FillPanic else Inr (Some g))
       else fill_loop hash um spill fuel True ?input g)"
      using Inr it(1,2,5) by (simp add: Let_def)
    consider "\<not> fill_should_apply spill once tx" | "fill_should_apply spill once tx" "\<not> r"
      | "fill_should_apply spill once tx" r "c = None" | "fill_should_apply spill once tx" r "c \<noteq> None" by blast
    then show ?thesis
    proof cases
      case 1
      then have "fr_trace f \<noteq> []" using Suc.prems(6) by (auto simp: fill_should_apply_def split: option.splits)
      with 1 step Suc.prems(1) live_done [OF Suc.prems(2)] show ?thesis by simp
    next
      case 2
      with step it show ?thesis by simp
    next
      case 3
      then have "v_amount ?input = 0" using it(4) by simp
      with 3 step it live_done [of hash s0 g] show ?thesis by simp
    next
      case 4
      then have "stream_size (fr_pairs g) (fr_streams g) < fuel" using it(10) Suc.prems(3) by simp
      moreover have "fill_loop hash um spill (Suc fuel) once input f = fill_loop hash um spill fuel True ?input g"
        unfolding step using 4 by auto
      ultimately show ?thesis using Suc.IH [OF it(6), of ?input True] 4 it(7-10) Suc.prems(4) by simp
    qed
  qed
qed

end
