(* ===== verification/FillSpec.thy ===== *)
theory FillSpec
  imports FillInvariant
begin

text \<open>
  The specification of \<open>fill_route\<close> as a whole: loading the frontier, and what a filled route does
  to the state and reports.
\<close>

section \<open>Loading the frontier\<close>

text \<open>The part of the invariant that holds while the frontier is being loaded: the positions are
  stored, serve their hops and are distinct; the streams hold opened positions that serve theirs.\<close>

definition stream_ok :: "(u8 list \<Rightarrow> u8 list) \<Rightarrow> dex_state \<Rightarrow> directed_pair \<Rightarrow> (position_id \<times> position) list \<Rightarrow> bool" where
  "stream_ok hash s d xs \<longleftrightarrow> (\<forall>(i, p) \<in> set xs.
     positions s i = Some p \<and> p_state p = Opened \<and> serves p d \<and> position_id_of hash p = i)"

lemma stream_okD: "stream_ok hash s d xs \<Longrightarrow> (i, p) \<in> set xs \<Longrightarrow>
    positions s i = Some p \<and> p_state p = Opened \<and> serves p d \<and> position_id_of hash p = i"
  by (auto simp: stream_ok_def)

lemma stream_initial:
  assumes "indexes_ok s" "\<And>i p. positions s i = Some p \<Longrightarrow> position_id_of hash p = i"
  shows "stream_ok hash s d (positions_by_price d s)"
  unfolding stream_ok_def
proof (intro ballI)
  fix x assume "x \<in> set (positions_by_price d s)"
  then obtain k i p where x: "x = (i, p)" "((k, i), p) \<in> set (price_index s d)"
    by (auto simp: positions_by_price_def)
  note inv = indexes_okD [OF assms(1)]
  obtain q where q: "positions s i = Some q" "price_entry q d k = Some p"
    using price.in_index_iff [OF inv(4), of k i p d] x(2) by blast
  have "q = p" "p_state p = Opened" "d = pair_12 (tf_pair (p_phi p)) \<or> d = pair_21 (tf_pair (p_phi p))"
    using q(2) by (auto simp: price_entry_def split: if_splits)
  with q(1) inv(2) [OF q(1)] assms(2) x(1) show "case x of (i, p) \<Rightarrow>
      positions s i = Some p \<and> p_state p = Opened \<and> serves p d \<and> position_id_of hash p = i"
    by (simp add: serves_def)
qed

definition loaded :: "(u8 list \<Rightarrow> u8 list) \<Rightarrow> dex_state \<Rightarrow> directed_pair list
    \<Rightarrow> position list \<times> position_id set \<times> position_streams \<Rightarrow> bool" where
  "loaded hash s ds = (\<lambda>(ps, used, streams). length ps = length ds \<and> (\<forall>j < length ds. serves (ps ! j) (ds ! j))
     \<and> distinct (map (position_id_of hash) ps) \<and> position_id_of hash ` set ps \<subseteq> used
     \<and> (\<forall>p \<in> set ps. positions s (position_id_of hash p) = Some p \<and> p_state p = Opened)
     \<and> (\<forall>d. stream_ok hash s d (streams d)) )"

lemma load_step_spec:
  assumes "loaded hash s ds x"
  shows "load_step d x = Inl (InsufficientLiquidity d) \<or> (\<exists>y. load_step d x = Inr y \<and> loaded hash s (ds @ [d]) y)"
proof -
  obtain ps used streams where x: "x = (ps, used, streams)" by (metis prod.exhaust)
  show ?thesis
  proof (cases "next_position used (streams d)")
    case None
    then show ?thesis by (simp add: load_step_def x)
  next
    case (Some z)
    obtain i p rest where z: "z = ((i, p), rest)" by (metis prod.exhaust)
    obtain pre where pre: "i \<notin> used" "streams d = pre @ (i, p) # rest"
      using next_position_Some [OF Some [unfolded z]] by blast
    have st: "stream_ok hash s d (streams d)" using assms by (simp add: loaded_def x)
    have p: "positions s i = Some p \<and> p_state p = Opened \<and> serves p d \<and> position_id_of hash p = i"
      using stream_okD [OF st, of i p] pre(2) by simp
    have "stream_ok hash s d rest" using st unfolding pre(2) by (simp add: stream_ok_def)
    then have "loaded hash s (ds @ [d]) (ps @ [p], insert i used, streams(d := rest))"
      using assms p pre(1) by (auto simp: loaded_def x nth_append less_Suc_eq)
    moreover have "load_step d x = Inr (ps @ [p], insert i used, streams(d := rest))"
      using Some by (simp add: load_step_def x z)
    ultimately show ?thesis by blast
  qed
qed

lemma load_fold:
  assumes "loaded hash s ds x"
  shows "(\<exists>d \<in> set es. try_fold load_step es x = Inl (InsufficientLiquidity d))
    \<or> (\<exists>y. try_fold load_step es x = Inr y \<and> loaded hash s (ds @ es) y)"
  using assms
proof (induction es arbitrary: ds x)
  case Nil
  then show ?case by simp
next
  case (Cons d es)
  from load_step_spec [OF Cons.prems, of d] show ?case
  proof (elim disjE exE conjE)
    assume "load_step d x = Inl (InsufficientLiquidity d)"
    then show ?thesis by simp
  next
    fix y assume y: "load_step d x = Inr y" "loaded hash s (ds @ [d]) y"
    from Cons.IH [OF y(2)] y(1) show ?thesis by auto
  qed
qed

lemma windows_pairs_chained:
  "Suc j < length (windows_pairs r) \<Longrightarrow> dp_end (windows_pairs r ! j) = dp_start (windows_pairs r ! Suc j)"
proof (induction r arbitrary: j rule: windows_pairs.induct)
  case (1 a b r)
  then show ?case by (cases r; cases j) auto
qed simp_all

lemma windows_pairs_ends:
  assumes "r \<noteq> []"
  shows "windows_pairs (a # r) \<noteq> []" "length (windows_pairs (a # r)) = length r"
    "dp_start (windows_pairs (a # r) ! 0) = a" "dp_end (last (windows_pairs (a # r))) = last r"
proof -
  have "windows_pairs (a # r) \<noteq> [] \<and> length (windows_pairs (a # r)) = length r \<and> dp_end (last (windows_pairs (a # r))) = last r"
    using assms
  proof (induction r arbitrary: a)
    case (Cons b r)
    then show ?case by (cases r) auto
  qed simp
  then show "windows_pairs (a # r) \<noteq> []" "length (windows_pairs (a # r)) = length r"
    "dp_end (last (windows_pairs (a # r))) = last r" by simp_all
  show "dp_start (windows_pairs (a # r) ! 0) = a" using assms by (cases r) simp_all
qed

lemma account_initial: "(\<And>p. p \<in> set ps \<Longrightarrow> positions s (position_id_of hash p) = Some p) \<Longrightarrow>
    account hash ps s k = int (tally (holdings k) (positions s))"
  by (simp add: account_def drift_def cong: map_cong)

lemma frontier_load_spec:
  assumes ok: "indexes_ok s" and ids: "\<And>i p. positions s i = Some p \<Longrightarrow> position_id_of hash p = i" and r: "r \<noteq> []"
  shows "(\<exists>d. frontier_load s (windows_pairs (a # r)) = Inl (InsufficientLiquidity d))
    \<or> (\<exists>f. frontier_load s (windows_pairs (a # r)) = Inr f \<and> loop_ok hash s n f \<and> frontier_live hash s f
        \<and> fr_pairs f = windows_pairs (a # r) \<and> fr_trace f = [])"
proof -
  let ?ds = "windows_pairs (a # r)"
  have "loaded hash s [] ([], {}, \<lambda>d. positions_by_price d s)"
    using stream_initial [OF ok ids] by (simp add: loaded_def)
  from load_fold [OF this, of ?ds] show ?thesis
  proof (elim disjE bexE exE conjE)
    fix d assume "try_fold load_step ?ds ([], {}, \<lambda>d. positions_by_price d s) = Inl (InsufficientLiquidity d)"
    then show ?thesis by (simp add: frontier_load_def)
  next
    fix y assume y: "try_fold load_step ?ds ([], {}, \<lambda>d. positions_by_price d s) = Inr y" "loaded hash s ([] @ ?ds) y"
    obtain ps used streams where yy: "y = (ps, used, streams)" by (metis prod.exhaust)
    define f where "f = \<lparr>fr_pairs = ?ds, fr_positions = ps, fr_ids = used, fr_state = s, fr_streams = streams, fr_trace = []\<rparr>"
    have L: "length ps = length ?ds" "\<And>j. j < length ?ds \<Longrightarrow> serves (ps ! j) (?ds ! j)"
      "distinct (map (position_id_of hash) ps)" "position_id_of hash ` set ps \<subseteq> used"
      "\<And>p. p \<in> set ps \<Longrightarrow> positions s (position_id_of hash p) = Some p \<and> p_state p = Opened"
      "\<And>d. stream_ok hash s d (streams d)"
      using y(2) by (simp_all add: loaded_def yy)
    have "frontier_load s ?ds = Inr f" using y(1) by (simp add: frontier_load_def yy f_def)
    moreover have "frontier_ok hash s f"
      unfolding frontier_ok_def
    proof (intro conjI)
      show "chained (fr_pairs f) (fr_positions f)"
        using L(1,2) windows_pairs_chained [of _ "a # r"] by (simp add: f_def chained_def)
      show "\<forall>d \<in> set (fr_pairs f). \<forall>(i, p) \<in> set (fr_streams f d).
          positions s i = Some p \<and> p_state p = Opened \<and> serves p d \<and> position_id_of hash p = i"
        using L(6) by (simp add: f_def stream_ok_def)
    qed (use L(3,4) ok windows_pairs_ends [OF r] in \<open>simp_all add: f_def traded_to_def\<close>)
    moreover have "frontier_live hash s f"
      unfolding frontier_live_def held_def
    proof
      fix p assume "p \<in> set (fr_positions f)"
      then have "positions s (position_id_of hash p) = Some p" "p_state p = Opened" using L(5) by (simp_all add: f_def)
      then show "\<exists>p0 rs. positions s (position_id_of hash p) = Some p0 \<and> p_state p0 = Opened
          \<and> p = p0\<lparr>p_reserves := rs\<rparr> \<and> positions (fr_state f) (position_id_of hash p) = Some p0"
        by (intro exI [of _ p] exI [of _ "p_reserves p"]) (simp add: f_def)
    qed
    moreover have "balanced hash s f"
      using account_initial [of ps s hash] L(5) by (simp add: balanced_def f_def traded_in_def traded_out_def)
    ultimately show ?thesis by (intro disjI2 exI [of _ f]) (simp add: loop_ok_def f_def traded_in_def)
  qed
qed

section \<open>The whole function\<close>

lemma amount_sum_unat:
  assumes "sum_list (map unat xs) < 2 ^ 128"
  shows "unat (amount_sum xs) = sum_list (map unat xs)"
proof -
  have "unat (foldl (\<lambda>acc x. acc + x) a xs) = unat a + sum_list (map unat xs)"
    if "unat a + sum_list (map unat xs) < 2 ^ 128" for a :: amount and xs
    using that
  proof (induction xs arbitrary: a)
    case (Cons x xs)
    then have "unat (a + x) = unat a + unat x" by (simp add: unat_add_no_overflow)
    with Cons show ?case by simp
  qed simp
  from this [of 0 xs] assms show ?thesis by (simp add: amount_sum_def amount_zero_def)
qed

text \<open>What a filled route does to the state and what it reports.\<close>

definition routed :: "dex_state \<Rightarrow> asset_value \<Rightarrow> asset_id list \<Rightarrow> swap_execution \<Rightarrow> dex_state \<Rightarrow> bool" where
  "routed s input hops se t \<longleftrightarrow> indexes_ok t \<and> same_books s t \<and> (\<forall>i. traded_to (positions s i) (positions t i))
     \<and> v_amount (se_input se) \<le> v_amount input \<and> v_asset (se_input se) = v_asset input
     \<and> v_asset (se_output se) = last hops \<and> se_traces se \<noteq> [] \<and> [] \<notin> set (se_traces se)
     \<and> (\<forall>k. tally (holdings k) (positions t) + (if k = last hops then unat (v_amount (se_output se)) else 0)
          = tally (holdings k) (positions s) + (if k = v_asset input then unat (v_amount (se_input se)) else 0))"

lemma fill_route_spec:
  assumes ok: "indexes_ok s" and ids: "\<And>i p. positions s i = Some p \<Longrightarrow> position_id_of hash p = i"
    and bound: "\<And>k. 2 * tally (holdings k) (positions s) + unat (v_amount input) < 2 ^ 128"
  shows "case fill_route hash um input hops spill s of
      Inl e \<Rightarrow> hops = [] \<and> e = InvalidRoute 1
        \<or> (\<exists>d. e = InsufficientLiquidity d \<and> frontier_load s (windows_pairs (v_asset input # hops)) = Inl e)
        \<or> (\<exists>i p. e = ExecutionOverflow i \<and> positions s i = Some p \<and> p_state p = Opened)
    | Inr (se, t) \<Rightarrow> hops \<noteq> [] \<and> routed s input hops se t"
proof (cases "hops = []")
  case True
  then show ?thesis by (simp add: fill_route_def fill_route_inner_def breakdown_route_def)
next
  case False
  let ?ds = "windows_pairs (v_asset input # hops)"
  note W = windows_pairs_ends [OF False, of "v_asset input"]
  have br: "breakdown_route (v_asset input # hops) = Inr ?ds"
    using False by (cases hops) (simp_all add: breakdown_route_def)
  note unfold = fill_route_def fill_route_inner_def Let_def br
  have "(\<exists>d. frontier_load s ?ds = Inl (InsufficientLiquidity d))
    \<or> (\<exists>f. frontier_load s ?ds = Inr f \<and> loop_ok hash s (unat (v_amount input)) f \<and> frontier_live hash s f
        \<and> fr_pairs f = ?ds \<and> fr_trace f = [])"
    by (rule frontier_load_spec [OF ok _ False]) (rule ids)
  then show ?thesis
  proof (elim disjE exE conjE)
    fix d assume "frontier_load s ?ds = Inl (InsufficientLiquidity d)"
    then show ?thesis by (simp add: unfold)
  next
    fix f assume f: "frontier_load s ?ds = Inr f" "loop_ok hash s (unat (v_amount input)) f" "frontier_live hash s f"
      "fr_pairs f = ?ds" "fr_trace f = []"
    let ?fuel = "stream_size ?ds (fr_streams f) + 1"
    have start: "v_asset input = route_start f" using W(3) f(4) by (simp add: route_node_def)
    have "traded_in f + unat (v_amount input) = unat (v_amount input)" using f(5) by (simp add: traded_in_def)
    moreover have "stream_size (fr_pairs f) (fr_streams f) < ?fuel" by (simp add: f(4))
    ultimately consider g where "fill_loop hash um spill ?fuel False input f = Inr (Some g)"
        "loop_ok hash s (unat (v_amount input)) g" "frontier_done hash s g" "fr_pairs g = fr_pairs f" "fr_trace g \<noteq> []"
      | i p where "fill_loop hash um spill ?fuel False input f = Inl (ExecutionOverflow i)"
        "positions s i = Some p" "p_state p = Opened"
      using fill_loop_spec [OF indexes_okD(1) [OF ok] bound f(2,3) _ start, of ?fuel False um spill] by blast
    then show ?thesis
    proof cases
      case (2 i p)
      have "fill_route hash um input hops spill s = Inl (ExecutionOverflow i)"
        unfolding unfold and_then.simps f(1) not_True_eq_False 2(1) ..
      with 2(2,3) show ?thesis by simp
    next
      case (1 g)
      have gok: "frontier_ok hash s g" "balanced hash s g" "traded_in g \<le> unat (v_amount input)" "[] \<notin> set (fr_trace g)"
        using 1(2) by (simp_all add: loop_ok_def)
      note F = frontier_okD [OF gok(1)]
      have pairs: "fr_pairs g = ?ds" using 1(4) f(4) by simp
      have ends: "route_start g = v_asset input" "route_end g = last hops"
        using W by (simp_all add: pairs route_node_def last_conv_nth) (cases "length hops", use False in auto)
      have acc: "frontier_account hash g k + (if k = last hops then int (traded_out g) else 0)
          = int (tally (holdings k) (positions s)) + (if k = v_asset input then int (traded_in g) else 0)" for k
        using gok(2) [unfolded balanced_def, rule_format, of k] unfolding ends .
      have "frontier_account hash g k + int (tally (holdings k) (positions s)) < 2 ^ 128" for k
        using acc [of k] bound [of k] gok(3) by (simp split: if_splits)
      from save_fold [OF indexes_okD(1) [OF ok] F(5,6) F(7) F(3) _ this, of um] 1(3) obtain t where
        t: "frontier_save hash um g = Inr t" "indexes_ok t" "same_books s t"
        "\<forall>i. traded_to (positions s i) (positions t i)"
        "\<forall>k. int (tally (holdings k) (positions t)) = frontier_account hash g k"
        unfolding frontier_save_def frontier_done_def by blast
      have books: "tally (holdings k) (positions t) + (if k = last hops then traded_out g else 0)
          = tally (holdings k) (positions s) + (if k = v_asset input then traded_in g else 0)" for k
        using acc [of k] t(5) [rule_format, of k] by (simp split: if_splits)
      have small: "traded_in g < 2 ^ 128" using gok(3) bound [of "v_asset input"] by linarith
      have "traded_out g < 2 ^ 128"
        using books [of "last hops"] bound [of "last hops"] gok(3) by (simp split: if_splits)
      then have sums: "unat (trace_total hd (fr_trace g)) = traded_in g" "unat (trace_total last (fr_trace g)) = traded_out g"
        using small by (simp_all add: trace_total_def traded_in_def traded_out_def amount_sum_unat o_def)
      define se where "se = \<lparr>se_traces = fr_trace g,
             se_input = \<lparr>v_amount = trace_total hd (fr_trace g), v_asset = dp_start (hd (fr_pairs g))\<rparr>,
             se_output = \<lparr>v_amount = trace_total last (fr_trace g), v_asset = dp_end (last (fr_pairs g))\<rparr>\<rparr>"
      have res: "fill_route hash um input hops spill s = Inr (se, t)"
        unfolding unfold and_then.simps f(1) not_True_eq_False 1(1) some_or_panic_simps t(1) or_panic_simps se_def
        using gok(4) by simp
      have "dp_start (hd (fr_pairs g)) = v_asset input" "dp_end (last (fr_pairs g)) = last hops"
        using W by (simp_all add: pairs hd_conv_nth)
      moreover have "\<forall>k. tally (holdings k) (positions t) + (if k = last hops then unat (v_amount (se_output se)) else 0)
          = tally (holdings k) (positions s) + (if k = v_asset input then unat (v_amount (se_input se)) else 0)"
        unfolding se_def swap_execution.simps asset_value.simps sums using books by blast
      ultimately have "routed s input hops se t"
        unfolding routed_def using t(2-4) gok(3,4) 1(5)
        by (intro conjI) (simp_all add: se_def sums word_le_nat_alt)
      with res show ?thesis using False by simp
    qed
  qed
qed

end
