(* ===== verification/PathSearch.thy ===== *)
theory PathSearch
  imports FillSpec
begin

text \<open>
  The search for the best route between two assets (\<open>crates/core/component/dex/src/component/router\<close>:
  \<open>params.rs\<close>, \<open>path.rs\<close>, \<open>path_cache.rs\<close>, \<open>path_search.rs\<close>, with \<open>candidate_set\<close> of
  \<open>position_manager.rs\<close>).

  A path holds a fork of the state, a value here. In a round every active path is extended
  towards every candidate by concurrent tasks; an extension works on its own fork, and then
  the task takes the lock of the cache and offers the new path. So a round offers a fixed
  collection of paths in an order that the scheduler picks: the order is the parameter
  \<open>sched\<close>, a function that permutes the list of the paths of round \<open>i\<close>.
\<close>

section \<open>Parameters\<close>

record routing_params =
  price_limit :: "fixpoint option"
  rp_candidates :: "asset_id list"
  rp_max_hops :: nat

definition routing_params_of :: "dex_parameters \<Rightarrow> routing_params" where
  "routing_params_of ps = \<lparr>price_limit = None, rp_candidates = fixed_candidates ps, rp_max_hops = unat (max_hops ps)\<rparr>"

definition with_extra_candidates :: "asset_id list \<Rightarrow> routing_params \<Rightarrow> routing_params" where
  "with_extra_candidates ks rp = rp\<lparr>rp_candidates := rp_candidates rp @ ks\<rparr>"

definition clamp_to_limit :: "routing_params \<Rightarrow> fixpoint option \<Rightarrow> fixpoint option \<times> bool" where
  "clamp_to_limit rp spill =
     (case (spill, price_limit rp) of
        (Some sp, Some pl) \<Rightarrow> if sp > pl then (Some pl, True) else (Some sp, False)
      | (Some sp, None) \<Rightarrow> (Some sp, False)
      | (None, Some pl) \<Rightarrow> (Some pl, True)
      | (None, None) \<Rightarrow> (None, False))"

section \<open>Paths\<close>

record path =
  pt_start :: asset_id
  pt_nodes :: "asset_id list"
  pt_price :: fixpoint
  pt_state :: dex_state

definition path_end :: "path \<Rightarrow> asset_id" where
  "path_end p = (if pt_nodes p = [] then pt_start p else last (pt_nodes p))"

definition path_begin :: "asset_id \<Rightarrow> dex_state \<Rightarrow> path" where
  "path_begin start s = \<lparr>pt_start = start, pt_nodes = [], pt_price = fp_from_u64 1, pt_state = s\<rparr>"

definition extend_to :: "asset_id \<Rightarrow> path \<Rightarrow> path option result" where
  "extend_to new_end p =
     (case best_position (DirectedPair (path_end p) new_end) (pt_state p) of
        None \<Rightarrow> Inr None
      | Some (i, lp) \<Rightarrow>
          and_then (deindex_position_by_price lp i (pt_state p)) (\<lambda>s.
          and_then (expect_some (orient_end (p_phi lp) new_end)) (\<lambda>f.
          and_then (effective_price f) (\<lambda>hop_price.
          case fp_checked_mul (pt_price p) hop_price of
            Inr path_price \<Rightarrow> Inr (Some (p\<lparr>pt_price := path_price, pt_nodes := pt_nodes p @ [new_end], pt_state := s\<rparr>))
          | Inl _ \<Rightarrow> Inr None))))"

text \<open>The order of paths: by price, then by length, start and nodes.\<close>

definition path_key :: "path \<Rightarrow> fixpoint \<times> nat \<times> asset_id \<times> asset_id list" where
  "path_key p = (pt_price p, length (pt_nodes p), pt_start p, pt_nodes p)"

definition path_less :: "path \<Rightarrow> path \<Rightarrow> bool" where
  "path_less p q \<longleftrightarrow> path_key p < path_key q"

section \<open>The cache\<close>

record path_entry =
  en_path :: path
  en_active :: bool
  en_spill :: "path option"

definition entry_of_path :: "path \<Rightarrow> path_entry" where
  "entry_of_path p = \<lparr>en_path = p, en_active = True, en_spill = None\<rparr>"

definition update_spill :: "path \<Rightarrow> path_entry \<Rightarrow> path_entry" where
  "update_spill p e =
     (case en_spill e of
        Some sp \<Rightarrow> if pt_price p < pt_price sp then e\<lparr>en_spill := Some p, en_active := True\<rparr> else e
      | None \<Rightarrow> e\<lparr>en_spill := Some p, en_active := True\<rparr>)"

definition entry_update :: "path \<Rightarrow> path_entry \<Rightarrow> path_entry" where
  "entry_update p e =
     (if path_less p (en_path e) then e\<lparr>en_spill := Some (en_path e), en_path := p, en_active := True\<rparr>
      else update_spill p e)"

type_synonym path_cache = "(asset_id, path_entry) btree"

definition cache_begin :: "asset_id \<Rightarrow> dex_state \<Rightarrow> path_cache" where
  "cache_begin start s = bt_insert start (entry_of_path (path_begin start s)) []"

definition consider_path :: "path \<Rightarrow> path_cache \<Rightarrow> path_cache" where
  "consider_path p c =
     bt_insert (path_end p) (case bt_get c (path_end p) of Some e \<Rightarrow> entry_update p e | None \<Rightarrow> entry_of_path p) c"

definition extract_active :: "path_cache \<Rightarrow> path list \<times> path_cache" where
  "extract_active c =
     (map (en_path \<circ> snd) (filter (en_active \<circ> snd) c), map (\<lambda>(k, e). (k, e\<lparr>en_active := False\<rparr>)) c)"

section \<open>The search\<close>

definition DYNAMIC_ASSET_LIMIT :: nat where
  "DYNAMIC_ASSET_LIMIT = 10"

definition ordered_routable_assets :: "asset_id \<Rightarrow> dex_state \<Rightarrow> asset_id list" where
  "ordered_routable_assets start s = map snd (routable_assets s start)"

definition candidate_set :: "asset_id \<Rightarrow> asset_id list \<Rightarrow> dex_state \<Rightarrow> asset_id list" where
  "candidate_set start fixed s =
     fixed @ take DYNAMIC_ASSET_LIMIT (filter (\<lambda>k. k \<notin> set fixed) (ordered_routable_assets start s))"

text \<open>The extensions of one path, in the order of its candidates.\<close>

fun relax_path :: "asset_id list \<Rightarrow> path \<Rightarrow> path list result" where
  "relax_path [] p = Inr []"
| "relax_path (k # ks) p =
     and_then (extend_to k p) (\<lambda>q.
     and_then (relax_path ks p) (\<lambda>qs.
     Inr ((case q of Some q \<Rightarrow> [q] | None \<Rightarrow> []) @ qs)))"

fun relax_paths :: "asset_id list \<Rightarrow> path list \<Rightarrow> path list result" where
  "relax_paths fixed [] = Inr []"
| "relax_paths fixed (p # ps) =
     and_then (relax_path (candidate_set (path_end p) fixed (pt_state p)) p) (\<lambda>qs.
     and_then (relax_paths fixed ps) (\<lambda>rs. Inr (qs @ rs)))"

definition relax_active_paths :: "(path list \<Rightarrow> path list) \<Rightarrow> asset_id list \<Rightarrow> path_cache \<Rightarrow> path_cache result" where
  "relax_active_paths order fixed c =
     (let (active, c) = extract_active c in
      and_then (relax_paths fixed active) (\<lambda>new. Inr (fold consider_path (order new) c)))"

definition path_search :: "(nat \<Rightarrow> path list \<Rightarrow> path list) \<Rightarrow> asset_id \<Rightarrow> asset_id \<Rightarrow> routing_params \<Rightarrow> dex_state
    \<Rightarrow> (asset_id list option \<times> fixpoint option) result" where
  "path_search sched src dst rp s =
     and_then (try_fold (\<lambda>i. relax_active_paths (sched i) (rp_candidates rp)) [0..<rp_max_hops rp] (cache_begin src s)) (\<lambda>c.
     case bt_get c dst of
       None \<Rightarrow> Inr (None, None)
     | Some e \<Rightarrow>
         (case price_limit rp of
            Some limit \<Rightarrow> if pt_price (en_path e) \<ge> limit then Inr (None, None)
                          else Inr (Some (pt_nodes (en_path e)), map_option pt_price (en_spill e))
          | None \<Rightarrow> Inr (Some (pt_nodes (en_path e)), map_option pt_price (en_spill e))))"

section \<open>Pruned states\<close>

text \<open>The state of a path: positions that its hops have consumed are gone from the price index.\<close>

definition prune :: "position_id set \<Rightarrow> dex_state \<Rightarrow> dex_state" where
  "prune used s = s\<lparr>price_index := \<lambda>d. filter (\<lambda>((k, i), p). i \<notin> used) (price_index s d)\<rparr>"

lemma prune_empty [simp]: "prune {} s = s"
  by (simp add: prune_def split_def)

lemma prune_fields [simp]: "routable_assets (prune used s) = routable_assets s" "positions (prune used s) = positions s"
  by (simp_all add: prune_def)

lemma positions_by_price_prune:
  "positions_by_price d (prune used s) = filter (\<lambda>(i, p). i \<notin> used) (positions_by_price d s)"
  by (simp add: positions_by_price_def prune_def filter_map o_def split_def)

lemma bt_remove_filter: "bt_wf m \<Longrightarrow> bt_remove k m = filter (\<lambda>x. fst x \<noteq> k) m"
proof (induction k m rule: bt_remove.induct)
  case (2 k k' v m)
  have "filter (\<lambda>x. fst x \<noteq> k) m = m" if "k = k'"
    using 2(2) that by (auto simp: bt_wf_Cons filter_id_conv)
  with 2 show ?case by (auto simp: bt_wf_Cons)
qed simp

lemma next_position_filter:
  "next_position used xs = (case filter (\<lambda>(i, p). i \<notin> used) xs of [] \<Rightarrow> None
     | x # _ \<Rightarrow> Some (x, tl (dropWhile (\<lambda>(i, p). i \<in> used) xs)))"
  by (induction xs) (auto split: list.splits)

lemma deindex_prune:
  assumes ok: "indexes_ok s" and p: "positions s i = Some p" "p_state p = Opened"
  shows "deindex_position_by_price p i (prune used s) = Inr (prune (insert i used) s)"
proof -
  note inv = indexes_okD [OF ok]
  have pok: "position_ok p" using inv(2) [OF p(1)] .
  have f: "tradable (tf_component (p_phi p))" using pok by (simp add: position_ok_def)
  then have f': "tradable (bare_flip (tf_component (p_phi p)))" by (simp add: tradable_flip)
  obtain x where x0: "effective_price (tf_component (p_phi p)) = Inr x" by (rule effective_prices_total [OF f])
  obtain y where y0: "effective_price (bare_flip (tf_component (p_phi p))) = Inr y" by (rule effective_prices_total [OF f'])
  note x = x0 y0
  let ?kx = "fp_to_bytes x" and ?ky = "fp_to_bytes y"
  have keys: "price_key (tf_component (p_phi p)) i = Inr (?kx, i)" "price_key (bare_flip (tf_component (p_phi p))) i = Inr (?ky, i)"
    using x by (simp_all add: price_key_def effective_price_key_bytes_def)
  have bytes: "effective_price_key_bytes (tf_component (p_phi p)) = Inr ?kx"
    "effective_price_key_bytes (bare_flip (tf_component (p_phi p))) = Inr ?ky"
    using x by (simp_all add: effective_price_key_bytes_def)
  have ne: "pair_12 (tf_pair (p_phi p)) \<noteq> pair_21 (tf_pair (p_phi p))" using pok pair_12_neq_21 [of p] by (simp add: position_ok_def)
  have key: "k = (if d = pair_12 (tf_pair (p_phi p)) then ?kx else ?ky) \<and> (d = pair_12 (tf_pair (p_phi p)) \<or> d = pair_21 (tf_pair (p_phi p)))"
    if "((k, i), q) \<in> set (price_index s d)" for k d q
  proof -
    have "\<exists>r. positions s i = Some r \<and> price_entry r d k = Some q"
      using that price.in_index_iff [OF inv(4), of k i q d] by (simp only:)
    then have "price_entry p d k \<noteq> None" using p(1) by auto
    then have "d = pair_12 (tf_pair (p_phi p)) \<and> effective_price_key_bytes (tf_component (p_phi p)) = Inr k
        \<or> d = pair_21 (tf_pair (p_phi p)) \<and> effective_price_key_bytes (bare_flip (tf_component (p_phi p))) = Inr k"
      unfolding price_entry_def by (rule contrapos_np) (intro if_not_P, blast)
    then show ?thesis using ne bytes by auto
  qed
  have wf: "bt_wf (price_index (prune used s) d)" for d
    using price.index_sorted [OF inv(4), of d] by (simp add: bt_wf_def prune_def sorted_wrt_map sorted_wrt_filter)
  let ?d12 = "pair_12 (tf_pair (p_phi p))" and ?d21 = "pair_21 (tf_pair (p_phi p))"
  have rm: "bt_remove (k, i) (price_index (prune used s) d) = filter (\<lambda>((k, j), q). j \<notin> insert i used) (price_index s d)"
    if "\<And>k' q. ((k', i), q) \<in> set (price_index s d) \<Longrightarrow> k' = k" for k d
    using that bt_remove_filter [OF wf, of "(k, i)" d] by (auto simp: prune_def intro!: filter_cong)
  have none: "filter (\<lambda>((k, j), q). j \<notin> used) (price_index s d) = filter (\<lambda>((k, j), q). j \<notin> insert i used) (price_index s d)"
    if "d \<noteq> ?d12" "d \<noteq> ?d21" for d
    using key [of _ _ d] that by (auto intro!: filter_cong)
  have "price_index (delete_price ?d21 (?ky, i) (delete_price ?d12 (?kx, i) (prune used s))) d
      = filter (\<lambda>((k, j), q). j \<notin> insert i used) (price_index s d)" for d
  proof -
    consider "d = ?d12" | "d = ?d21" | "d \<noteq> ?d12" "d \<noteq> ?d21" by blast
    then show ?thesis
    proof cases
      case 1
      then have "bt_remove (?kx, i) (price_index (prune used s) d) = filter (\<lambda>((k, j), q). j \<notin> insert i used) (price_index s d)"
        using key [of _ _ d] by (intro rm) simp
      with 1 ne show ?thesis by (simp add: delete_price_def)
    next
      case 2
      then have "bt_remove (?ky, i) (price_index (prune used s) d) = filter (\<lambda>((k, j), q). j \<notin> insert i used) (price_index s d)"
        using key [of _ _ d] ne by (intro rm) simp
      with 2 ne show ?thesis by (simp add: delete_price_def)
    next
      case 3
      then show ?thesis using none by (simp add: delete_price_def prune_def)
    qed
  qed
  then have "delete_price (pair_21 (tf_pair (p_phi p))) (?ky, i) (delete_price (pair_12 (tf_pair (p_phi p))) (?kx, i) (prune used s))
      = prune (insert i used) s"
    by (simp add: delete_price_def prune_def fun_eq_iff)
  then show ?thesis by (simp add: deindex_position_by_price_def Let_def keys)
qed

section \<open>Paths that the search reaches\<close>

inductive reach_path :: "dex_state \<Rightarrow> asset_id \<Rightarrow> path \<Rightarrow> bool" for s src where
  origin: "reach_path s src (path_begin src s)"
| extend: "reach_path s src p \<Longrightarrow> extend_to k p = Inr (Some q) \<Longrightarrow> reach_path s src q"

lemma extend_to_Some:
  assumes "extend_to k p = Inr (Some q)"
  shows "\<exists>c s. q = p\<lparr>pt_price := c, pt_nodes := pt_nodes p @ [k], pt_state := s\<rparr>"
proof -
  obtain i lp where b: "best_position (DirectedPair (path_end p) k) (pt_state p) = Some (i, lp)"
    using assms by (auto simp: extend_to_def split: option.splits)
  obtain s f y where "deindex_position_by_price lp i (pt_state p) = Inr s" "expect_some (orient_end (p_phi lp) k) = Inr f"
    "effective_price f = Inr y"
    "(case fp_checked_mul (pt_price p) y of
            Inr path_price \<Rightarrow> Inr (Some (p\<lparr>pt_price := path_price, pt_nodes := pt_nodes p @ [k], pt_state := s\<rparr>))
          | Inl _ \<Rightarrow> Inr None) = (Inr (Some q) :: path option result)"
    using assms unfolding extend_to_def b by (auto simp: and_then_Inr_iff)
  then show ?thesis by (cases "fp_checked_mul (pt_price p) y") auto
qed

lemma extend_to_nodes:
  assumes "extend_to k p = Inr (Some q)"
  shows "pt_nodes q = pt_nodes p @ [k] \<and> pt_start q = pt_start p \<and> path_end q = k"
proof -
  obtain c s where "q = p\<lparr>pt_price := c, pt_nodes := pt_nodes p @ [k], pt_state := s\<rparr>"
    using extend_to_Some [OF assms] by blast
  then show ?thesis by (simp add: path_end_def)
qed

lemma reach_path_start: "reach_path s src p \<Longrightarrow> pt_start p = src"
  by (induction rule: reach_path.induct) (simp_all add: path_begin_def extend_to_nodes)

inductive_cases reach_pathE: "reach_path s src p"

text \<open>A path is determined by its nodes.\<close>

lemma reach_path_unique: "reach_path s src p \<Longrightarrow> reach_path s src q \<Longrightarrow> pt_nodes p = pt_nodes q \<Longrightarrow> p = q"
proof (induction arbitrary: q rule: reach_path.induct)
  case origin
  from origin(1) show ?case
    by (cases rule: reach_path.cases) (use origin(2) extend_to_nodes in \<open>auto simp: path_begin_def\<close>)
next
  case (extend p k p')
  note n = extend_to_nodes [OF extend(2)]
  from extend(4) show ?case
  proof (cases rule: reach_path.cases)
    case origin
    with extend(5) n show ?thesis by (simp add: path_begin_def)
  next
    case (extend r m)
    note n' = extend_to_nodes [OF extend(2)]
    have "p = r" "m = k" using \<open>pt_nodes p' = pt_nodes q\<close> n n' extend.IH [OF extend(1)] by auto
    with extend(2) \<open>extend_to k p = Inr (Some p')\<close> show ?thesis by simp
  qed
qed

lemma best_position_prune:
  "best_position d (prune used s) = (case next_position used (positions_by_price d s) of None \<Rightarrow> None | Some (x, _) \<Rightarrow> Some x)"
  by (simp add: best_position_def positions_by_price_prune next_position_filter split: list.splits)

text \<open>An extension of a path in a pruned state takes the first position of the hop that is not used
  up, or there is none; it never panics.\<close>

definition graph_ok :: "(u8 list \<Rightarrow> u8 list) \<Rightarrow> dex_state \<Rightarrow> bool" where
  "graph_ok hash s \<longleftrightarrow> indexes_ok s \<and> (\<forall>i p. positions s i = Some p \<longrightarrow> position_id_of hash p = i)"

lemma graph_okD: "graph_ok hash s \<Longrightarrow> indexes_ok s" "graph_ok hash s \<Longrightarrow> positions s i = Some p \<Longrightarrow> position_id_of hash p = i"
  by (simp_all add: graph_ok_def)

lemma dex_inv_graph: "dex_inv hash s \<Longrightarrow> graph_ok hash s"
  by (simp add: graph_ok_def dex_inv_def)

lemma graph_stream: "graph_ok hash s \<Longrightarrow> stream_ok hash s d (positions_by_price d s)"
  by (rule stream_initial) (auto simp: graph_ok_def)

lemma extend_to_spec:
  assumes ok: "graph_ok hash s" and st: "pt_state p = prune used s"
  shows "extend_to k p = Inr None \<or> (\<exists>i lp q rest. next_position used (positions_by_price (DirectedPair (path_end p) k) s) = Some ((i, lp), rest)
    \<and> extend_to k p = Inr (Some q) \<and> pt_state q = prune (insert i used) s)"
proof (cases "next_position used (positions_by_price (DirectedPair (path_end p) k) s)")
  case None
  then show ?thesis by (simp add: extend_to_def st best_position_prune)
next
  case (Some x)
  let ?d = "DirectedPair (path_end p) k"
  obtain i lp rest where x: "x = ((i, lp), rest)" by (metis prod.exhaust)
  have "(i, lp) \<in> set (positions_by_price ?d s)" using next_position_Some [OF Some [unfolded x]] by auto
  then have lp: "positions s i = Some lp" "p_state lp = Opened" "serves lp ?d"
    using stream_okD [OF graph_stream [OF ok]] by blast+
  have dei: "deindex_position_by_price lp i (pt_state p) = Inr (prune (insert i used) s)"
    unfolding st by (rule deindex_prune [OF graph_okD(1) [OF ok] lp(1,2)])
  have tr: "tradable (tf_component (p_phi lp))" "tradable (bare_flip (tf_component (p_phi lp)))"
    using lp(3) by (simp_all add: serves_def position_ok_def tradable_flip)
  obtain f where f: "orient_end (p_phi lp) k = Some f" "tradable f"
    using lp(3) tr by (auto simp: serves_def orient_end_def pair_12_def pair_21_def position_ok_def distinct_assets_def)
  obtain y where y: "effective_price f = Inr y" by (rule effective_prices_total [OF f(2)])
  have "extend_to k p = (case fp_checked_mul (pt_price p) y of
            Inr path_price \<Rightarrow> Inr (Some (p\<lparr>pt_price := path_price, pt_nodes := pt_nodes p @ [k], pt_state := prune (insert i used) s\<rparr>))
          | Inl _ \<Rightarrow> Inr None)"
    using Some dei f(1) y st by (simp add: extend_to_def best_position_prune x)
  with Some x show ?thesis by (cases "fp_checked_mul (pt_price p) y") auto
qed

text \<open>The frontier of a path loads: the positions that its hops have consumed are those that the
  loading picks, in the same order.\<close>

lemma next_position_skip: "next_position used (pre @ xs) = next_position used xs" if "\<And>x. x \<in> set pre \<Longrightarrow> fst x \<in> used"
  using that
proof (induction pre)
  case (Cons x pre)
  from Cons.prems [of x] Cons.IH Cons.prems show ?case by (cases x) simp
qed simp

lemma next_position_taken:
  assumes "next_position used xs = Some ((i, p), rest)"
  shows "\<exists>pre. xs = pre @ (i, p) # rest \<and> (\<forall>x \<in> set pre. fst x \<in> used)"
  using assms
proof (induction xs)
  case (Cons x xs)
  show ?case
  proof (cases "fst x \<in> used")
    case True
    with Cons obtain pre where "xs = pre @ (i, p) # rest" "\<forall>x \<in> set pre. fst x \<in> used" by (cases x) auto
    with True show ?thesis by (intro exI [of _ "x # pre"]) simp
  next
    case False
    with Cons.prems show ?thesis by (cases x) auto
  qed
qed simp

definition drawn :: "dex_state \<Rightarrow> position_id set \<Rightarrow> position_streams \<Rightarrow> bool" where
  "drawn s used streams \<longleftrightarrow> (\<forall>d. \<exists>pre. positions_by_price d s = pre @ streams d \<and> (\<forall>x \<in> set pre. fst x \<in> used))"

lemma drawn_next: "drawn s used streams \<Longrightarrow> next_position used (streams d) = next_position used (positions_by_price d s)"
  unfolding drawn_def by (metis next_position_skip)

lemma drawn_step:
  assumes "drawn s used streams" "next_position used (streams d) = Some ((i, p), rest)"
  shows "drawn s (insert i used) (streams(d := rest))"
  unfolding drawn_def
proof
  fix e
  obtain pre where pre: "positions_by_price e s = pre @ streams e" "\<forall>x \<in> set pre. fst x \<in> used"
    using assms(1) unfolding drawn_def by blast
  obtain mid where mid: "streams d = mid @ (i, p) # rest" "\<forall>x \<in> set mid. fst x \<in> used"
    using next_position_taken [OF assms(2)] by blast
  show "\<exists>pre. positions_by_price e s = pre @ (streams(d := rest)) e \<and> (\<forall>x \<in> set pre. fst x \<in> insert i used)"
  proof (cases "e = d")
    case True
    then show ?thesis using pre mid by (intro exI [of _ "pre @ mid @ [(i, p)]"]) auto
  next
    case False
    then show ?thesis using pre by (intro exI [of _ pre]) auto
  qed
qed

lemma windows_pairs_snoc: "windows_pairs (a # ks @ [k]) = windows_pairs (a # ks) @ [DirectedPair (last (a # ks)) k]"
  by (induction ks arbitrary: a) auto

lemma reach_path_loads:
  assumes ok: "graph_ok hash s" and "reach_path s src p"
  shows "\<exists>ps used streams. try_fold load_step (windows_pairs (src # pt_nodes p)) ([], {}, \<lambda>d. positions_by_price d s) = Inr (ps, used, streams)
    \<and> pt_state p = prune used s \<and> drawn s used streams"
  using assms(2)
proof (induction rule: reach_path.induct)
  case origin
  then show ?case by (simp add: path_begin_def drawn_def)
next
  case (extend p k q)
  obtain ps used streams where IH: "try_fold load_step (windows_pairs (src # pt_nodes p)) ([], {}, \<lambda>d. positions_by_price d s) = Inr (ps, used, streams)"
    "pt_state p = prune used s" "drawn s used streams" using extend.IH by blast
  note n = extend_to_nodes [OF extend(2)]
  let ?d = "DirectedPair (path_end p) k"
  obtain i lp rest where nx: "next_position used (positions_by_price ?d s) = Some ((i, lp), rest)" "pt_state q = prune (insert i used) s"
    using extend_to_spec [OF ok IH(2), of k] extend(2) by auto
  have "next_position used (streams ?d) = next_position used (positions_by_price ?d s)" by (rule drawn_next [OF IH(3)])
  then obtain rest' where nx': "next_position used (streams ?d) = Some ((i, lp), rest')" using nx(1) by simp
  have "path_end p = last (src # pt_nodes p)"
    using reach_path_start [OF extend(1)] by (simp add: path_end_def)
  then have "windows_pairs (src # pt_nodes q) = windows_pairs (src # pt_nodes p) @ [?d]"
    using n by (simp add: windows_pairs_snoc)
  then have "try_fold load_step (windows_pairs (src # pt_nodes q)) ([], {}, \<lambda>d. positions_by_price d s)
      = Inr (ps @ [lp], insert i used, streams(?d := rest'))"
    using IH(1) nx' by (simp add: try_fold_append load_step_def)
  with nx(2) drawn_step [OF IH(3) nx'] show ?case by blast
qed

lemma reach_path_state: "graph_ok hash s \<Longrightarrow> reach_path s src p \<Longrightarrow> \<exists>used. pt_state p = prune used s"
  using reach_path_loads by blast

lemma reach_path_frontier:
  "graph_ok hash s \<Longrightarrow> reach_path s src p \<Longrightarrow> \<exists>f. frontier_load s (windows_pairs (src # pt_nodes p)) = Inr f"
  using reach_path_loads [of hash s src p] by (auto simp: frontier_load_def)

end
