(* ===== verification/PathOrder.thy ===== *)
theory PathOrder
  imports PathSearch "HOL-Library.Multiset"
begin

text \<open>
  The result of a path search does not depend on the order in which the concurrent tasks of a
  round offer their paths to the cache: what an entry of the cache keeps, the best path, the
  second best price and whether anything changed, does not depend on the order of the offers.
\<close>

section \<open>One entry\<close>

type_synonym entry_view = "path \<times> bool \<times> fixpoint option"

definition view :: "path_entry \<Rightarrow> entry_view" where
  "view e = (en_path e, en_active e, map_option pt_price (en_spill e))"

definition below_spill :: "path \<Rightarrow> fixpoint option \<Rightarrow> bool" where
  "below_spill p s \<longleftrightarrow> (case s of None \<Rightarrow> True | Some x \<Rightarrow> pt_price p < x)"

definition view_update :: "path \<Rightarrow> entry_view \<Rightarrow> entry_view" where
  "view_update p = (\<lambda>(b, a, s).
     if path_less p b then (p, True, Some (pt_price b))
     else if below_spill p s then (b, True, Some (pt_price p)) else (b, a, s))"

definition view_ok :: "entry_view \<Rightarrow> bool" where
  "view_ok = (\<lambda>(b, a, s). case s of None \<Rightarrow> True | Some x \<Rightarrow> pt_price b \<le> x)"

lemma view_entry_update: "view (entry_update p e) = view_update p (view e)"
  by (simp add: view_def view_update_def entry_update_def update_spill_def below_spill_def split: option.splits)

lemma view_entry_of_path: "view (entry_of_path p) = (p, True, None)"
  by (simp add: view_def entry_of_path_def)

lemma path_less_price: "path_less p q \<Longrightarrow> pt_price p \<le> pt_price q"
  by (auto simp: path_less_def path_key_def less_prod_def)

lemma path_less_linear: "path_less p q \<or> path_key p = path_key q \<or> path_less q p"
  unfolding path_less_def by (rule less_linear)

lemma path_less_trans: "path_less p q \<Longrightarrow> path_less q r \<Longrightarrow> path_less p r"
  unfolding path_less_def by (rule less_trans)

lemma path_less_asym: "path_less p q \<Longrightarrow> \<not> path_less q p"
  unfolding path_less_def by (rule less_not_sym)

lemma view_ok_update: "view_ok v \<Longrightarrow> view_ok (view_update p v)"
  using path_less_linear [of p "fst v"]
  by (auto simp: view_ok_def view_update_def path_less_price path_key_def split: option.splits if_splits)

lemma not_path_less_price: "\<not> path_less p q \<Longrightarrow> pt_price q \<le> pt_price p"
  using path_less_linear [of p q] path_less_price [of q p] by (auto simp: path_key_def)

lemma view_update_less:
  assumes ok: "view_ok v" and less: "path_less p q"
  shows "view_update q (view_update p v) = view_update p (view_update q v)"
proof -
  obtain b a s where v: "v = (b, a, s)" by (cases v) auto
  have pq: "\<not> path_less q p" "pt_price p \<le> pt_price q" using less path_less_asym path_less_price by blast+
  consider "path_less q b" "path_less p b" | "path_less p b" "\<not> path_less q b" | "\<not> path_less p b" "\<not> path_less q b"
    using path_less_trans [OF less] by blast
  then show ?thesis
  proof cases
    case 1
    with pq less path_less_price [OF 1(1)] show ?thesis by (auto simp: v view_update_def below_spill_def)
  next
    case 2
    with pq less not_path_less_price [OF 2(2)] show ?thesis by (auto simp: v view_update_def below_spill_def)
  next
    case 3
    with pq show ?thesis by (auto simp: v view_update_def below_spill_def split: option.splits)
  qed
qed

lemma view_update_comm:
  assumes "view_ok v" and eq: "path_key p = path_key q \<Longrightarrow> p = q"
  shows "view_update q (view_update p v) = view_update p (view_update q v)"
  using path_less_linear [of p q] eq view_update_less [OF assms(1)] by metis

lemma view_update_first:
  assumes eq: "path_key p = path_key q \<Longrightarrow> p = q"
  shows "view_update q (p, True, None) = view_update p (q, True, None)"
proof -
  have "view_update q (p, True, None) = view_update p (q, True, None)" if "path_less p q" for p q
    using that path_less_asym [OF that] by (simp add: view_update_def below_spill_def)
  then show ?thesis using path_less_linear [of p q] eq by metis
qed

section \<open>The cache\<close>

text \<open>The caches of a search from \<open>src\<close>: every path in it is one that the search reaches, under the
  key of its end.\<close>

definition cache_ok :: "dex_state \<Rightarrow> asset_id \<Rightarrow> path_cache \<Rightarrow> bool" where
  "cache_ok s src c \<longleftrightarrow> bt_wf c \<and>
     (\<forall>k e. bt_get c k = Some e \<longrightarrow> reach_path s src (en_path e) \<and> path_end (en_path e) = k \<and> view_ok (view e))"

definition same_views :: "path_cache \<Rightarrow> path_cache \<Rightarrow> bool" where
  "same_views c d \<longleftrightarrow> (\<forall>k. map_option view (bt_get c k) = map_option view (bt_get d k))"

lemma same_views_refl [simp]: "same_views c c"
  by (simp add: same_views_def)

lemma same_views_trans: "same_views c d \<Longrightarrow> same_views d e \<Longrightarrow> same_views c e"
  by (simp add: same_views_def)

lemma reach_path_key: "reach_path s src p \<Longrightarrow> reach_path s src q \<Longrightarrow> path_key p = path_key q \<Longrightarrow> p = q"
  using reach_path_unique by (simp add: path_key_def)

lemma cache_begin_ok: "cache_ok s src (cache_begin src s)"
  using reach_path.origin [of s src]
  by (auto simp: cache_ok_def cache_begin_def entry_of_path_def view_def view_ok_def path_begin_def path_end_def bt_get_def bt_wf_def)

lemma path_of_update: "en_path (entry_update p e) \<in> {p, en_path e}"
  by (auto simp: entry_update_def update_spill_def split: option.splits)

lemma consider_ok:
  assumes "cache_ok s src c" "reach_path s src p"
  shows "cache_ok s src (consider_path p c)"
proof (cases "bt_get c (path_end p)")
  case None
  with assms show ?thesis
    by (auto simp: cache_ok_def consider_path_def view_entry_of_path view_ok_def entry_of_path_def view_def)
next
  case (Some e)
  then have e: "reach_path s src (en_path e)" "path_end (en_path e) = path_end p" "view_ok (view e)"
    using assms(1) by (auto simp: cache_ok_def)
  have "view_ok (view (entry_update p e))" using view_ok_update [OF e(3)] by (simp add: view_entry_update)
  with e path_of_update [of p e] assms Some show ?thesis
    by (auto simp: cache_ok_def consider_path_def)
qed

lemma consider_view:
  assumes "cache_ok s src c"
  shows "map_option view (bt_get (consider_path p c) k) = (if k = path_end p then
      Some (case bt_get c k of None \<Rightarrow> (p, True, None) | Some e \<Rightarrow> view_update p (view e)) else map_option view (bt_get c k))"
  using assms by (auto simp: cache_ok_def consider_path_def view_entry_update view_entry_of_path split: option.splits)

lemma consider_cong:
  assumes "cache_ok s src c" "cache_ok s src d" "same_views c d"
  shows "same_views (consider_path p c) (consider_path p d)"
  unfolding same_views_def
proof
  fix k
  have "map_option view (bt_get c k) = map_option view (bt_get d k)" using assms(3) by (simp add: same_views_def)
  then show "map_option view (bt_get (consider_path p c) k) = map_option view (bt_get (consider_path p d) k)"
    unfolding consider_view [OF assms(1)] consider_view [OF assms(2)]
    by (cases "bt_get c k"; cases "bt_get d k") auto
qed

lemma consider_comm:
  assumes c: "cache_ok s src c" and p: "reach_path s src p" and q: "reach_path s src q"
  shows "same_views (consider_path q (consider_path p c)) (consider_path p (consider_path q c))"
  unfolding same_views_def
proof
  fix k
  note key = reach_path_key [OF p q]
  note V = consider_view [OF consider_ok [OF c p], of q k] consider_view [OF consider_ok [OF c q], of p k]
    consider_view [OF c, of p k] consider_view [OF c, of q k]
  have "map_option view (bt_get (consider_path q (consider_path p c)) k) = map_option view (bt_get (consider_path p (consider_path q c)) k)"
    if k: "k = path_end p" "k = path_end q"
  proof (cases "bt_get c k")
    case None
    then obtain x y where x: "bt_get (consider_path p c) k = Some x" "view x = (p, True, None)"
      "bt_get (consider_path q c) k = Some y" "view y = (q, True, None)" using V(3,4) k by auto
    then show ?thesis using V(1,2) k view_update_first [OF key] by auto
  next
    case (Some e)
    then have ok: "view_ok (view e)" using c by (simp add: cache_ok_def)
    obtain x y where x: "bt_get (consider_path p c) k = Some x" "view x = view_update p (view e)"
      "bt_get (consider_path q c) k = Some y" "view y = view_update q (view e)" using V(3,4) k Some by auto
    then show ?thesis using V(1,2) k view_update_comm [OF ok key] by auto
  qed
  then show "map_option view (bt_get (consider_path q (consider_path p c)) k) = map_option view (bt_get (consider_path p (consider_path q c)) k)"
    using V by (cases "k = path_end p"; cases "k = path_end q") (auto split: option.splits)
qed

lemma consider_all_ok:
  "cache_ok s src c \<Longrightarrow> (\<And>p. p \<in> set ps \<Longrightarrow> reach_path s src p) \<Longrightarrow> cache_ok s src (fold consider_path ps c)"
  by (induction ps arbitrary: c) (auto simp: consider_ok)

lemma consider_all_cong:
  "cache_ok s src c \<Longrightarrow> cache_ok s src d \<Longrightarrow> same_views c d \<Longrightarrow> (\<And>p. p \<in> set ps \<Longrightarrow> reach_path s src p) \<Longrightarrow>
    same_views (fold consider_path ps c) (fold consider_path ps d)"
proof (induction ps arbitrary: c d)
  case (Cons p ps)
  have p: "reach_path s src p" using Cons.prems(4) by simp
  show ?case using Cons.IH [OF consider_ok [OF Cons.prems(1) p] consider_ok [OF Cons.prems(2) p] consider_cong [OF Cons.prems(1-3)]]
    Cons.prems(4) by simp
qed simp

lemma consider_to_front:
  assumes "cache_ok s src c" "reach_path s src p" "\<And>q. q \<in> set qs \<Longrightarrow> reach_path s src q"
  shows "same_views (fold consider_path (qs @ [p]) c) (fold consider_path (p # qs) c)"
  using assms(1,3)
proof (induction qs arbitrary: c)
  case (Cons q qs)
  have q: "reach_path s src q" using Cons.prems(2) by simp
  have 1: "same_views (fold consider_path (qs @ [p]) (consider_path q c)) (fold consider_path (p # qs) (consider_path q c))"
    using Cons.IH [OF consider_ok [OF Cons.prems(1) q]] Cons.prems(2) by simp
  have 2: "same_views (fold consider_path qs (consider_path p (consider_path q c))) (fold consider_path qs (consider_path q (consider_path p c)))"
    by (rule consider_all_cong [where s = s and src = src])
      (use Cons.prems assms(2) q in \<open>auto intro: consider_ok consider_comm\<close>)
  from same_views_trans [OF 1] 2 show ?case by simp
qed simp

lemma consider_permuted:
  assumes "mset ps = mset qs" "cache_ok s src c" "cache_ok s src d" "same_views c d" "\<And>p. p \<in> set ps \<Longrightarrow> reach_path s src p"
  shows "same_views (fold consider_path ps c) (fold consider_path qs d)"
  using assms
proof (induction ps arbitrary: qs c d)
  case (Cons p ps)
  have p: "reach_path s src p" using Cons.prems(5) by simp
  have "p \<in> set qs" using mset_eq_setD [OF Cons.prems(1)] by auto
  then obtain us vs where qs: "qs = us @ p # vs" by (meson split_list)
  have set: "set qs = set (p # ps)" using mset_eq_setD [OF Cons.prems(1)] by simp
  have r: "reach_path s src x" if "x \<in> set (us @ p # vs)" for x using that Cons.prems(5) set qs by auto
  have "same_views (fold consider_path ps (consider_path p c)) (fold consider_path (us @ vs) (consider_path p d))"
    by (rule Cons.IH) (use Cons.prems qs p in \<open>auto intro: consider_ok consider_cong\<close>)
  moreover have "same_views (fold consider_path (p # us) d) (fold consider_path (us @ [p]) d)"
    using consider_to_front [OF Cons.prems(3) p, of us] r by (simp add: same_views_def)
  then have "same_views (fold consider_path vs (fold consider_path (p # us) d)) (fold consider_path vs (fold consider_path (us @ [p]) d))"
    by (rule consider_all_cong [rotated 2]) (use r Cons.prems(3) in \<open>auto intro!: consider_all_ok consider_ok\<close>)
  ultimately show ?case using qs same_views_trans by simp
qed simp

section \<open>Rounds\<close>

definition viewed :: "path_cache \<Rightarrow> (asset_id, entry_view) btree" where
  "viewed c = map (\<lambda>(k, e). (k, view e)) c"

lemma viewed_get: "bt_get (viewed c) k = map_option view (bt_get c k)"
  by (induction c) (auto simp: viewed_def bt_get_def)

lemma viewed_wf: "bt_wf c \<Longrightarrow> bt_wf (viewed c)"
  by (simp add: viewed_def bt_wf_def o_def split_def)

lemma same_viewed: "bt_wf c \<Longrightarrow> bt_wf d \<Longrightarrow> same_views c d \<Longrightarrow> viewed c = viewed d"
  by (rule btree.entries_eqI) (auto simp: viewed_wf viewed_get same_views_def)

lemma active_of_viewed: "fst (extract_active c) = map (fst \<circ> snd) (filter (fst \<circ> snd \<circ> snd) (viewed c))"
  by (simp add: extract_active_def viewed_def filter_map o_def split_def view_def)

lemma extract_get: "bt_get (snd (extract_active c)) k = map_option (\<lambda>e. e\<lparr>en_active := False\<rparr>) (bt_get c k)"
  by (induction c) (auto simp: extract_active_def bt_get_def)

lemma view_inactive: "view (e\<lparr>en_active := False\<rparr>) = (fst (view e), False, snd (snd (view e)))"
  by (simp add: view_def)

lemma extract_ok: "cache_ok s src c \<Longrightarrow> cache_ok s src (snd (extract_active c))"
proof -
  assume c: "cache_ok s src c"
  then have "bt_wf (snd (extract_active c))"
    by (simp add: cache_ok_def extract_active_def bt_wf_def o_def split_def)
  moreover have "reach_path s src (en_path e) \<and> path_end (en_path e) = k \<and> view_ok (view e)"
    if e: "bt_get (snd (extract_active c)) k = Some e" for k e
  proof -
    obtain z where z: "bt_get c k = Some z" "e = z\<lparr>en_active := False\<rparr>"
      using e unfolding extract_get by (cases "bt_get c k") auto
    have "view_ok (view e) = view_ok (view z)" by (simp add: z(2) view_inactive view_ok_def split_beta)
    then show ?thesis using c z by (simp add: cache_ok_def)
  qed
  ultimately show ?thesis by (simp add: cache_ok_def)
qed

lemma extract_cong: "same_views c d \<Longrightarrow> same_views (snd (extract_active c)) (snd (extract_active d))"
  unfolding same_views_def
proof
  fix k
  assume "\<forall>k. map_option view (bt_get c k) = map_option view (bt_get d k)"
  then have "map_option view (bt_get c k) = map_option view (bt_get d k)" ..
  then show "map_option view (bt_get (snd (extract_active c)) k) = map_option view (bt_get (snd (extract_active d)) k)"
    by (cases "bt_get c k"; cases "bt_get d k") (auto simp: extract_get view_inactive)
qed

lemma active_reach: "cache_ok s src c \<Longrightarrow> p \<in> set (fst (extract_active c)) \<Longrightarrow> reach_path s src p"
proof -
  assume c: "cache_ok s src c" and "p \<in> set (fst (extract_active c))"
  then obtain k e where "(k, e) \<in> set c" "p = en_path e" by (auto simp: extract_active_def)
  moreover from this(1) c have "bt_get c k = Some e" using btree.in_entries_iff [of c k e] by (simp add: cache_ok_def)
  ultimately show ?thesis using c by (auto simp: cache_ok_def)
qed

lemma relax_path_spec:
  assumes ok: "graph_ok hash s" and p: "reach_path s src p"
  shows "\<exists>qs. relax_path ks p = Inr qs \<and> (\<forall>q \<in> set qs. \<exists>k \<in> set ks. extend_to k p = Inr (Some q))
    \<and> (\<forall>k \<in> set ks. \<forall>q. extend_to k p = Inr (Some q) \<longrightarrow> q \<in> set qs)"
proof (induction ks)
  case (Cons k ks)
  obtain used where used: "pt_state p = prune used s" using reach_path_state [OF ok p] ..
  obtain q where q: "extend_to k p = Inr q" using extend_to_spec [OF ok used, of k] by auto
  obtain qs where qs: "relax_path ks p = Inr qs" "\<forall>q \<in> set qs. \<exists>k \<in> set ks. extend_to k p = Inr (Some q)"
    "\<forall>k \<in> set ks. \<forall>q. extend_to k p = Inr (Some q) \<longrightarrow> q \<in> set qs" using Cons.IH by blast
  show ?case using q qs by (cases q) auto
qed simp

lemma relax_paths_spec:
  assumes ok: "graph_ok hash s" and ps: "\<And>p. p \<in> set ps \<Longrightarrow> reach_path s src p"
  shows "\<exists>qs. relax_paths fixed ps = Inr qs \<and> (\<forall>q \<in> set qs. \<exists>p \<in> set ps. \<exists>k. extend_to k p = Inr (Some q))
    \<and> (\<forall>p \<in> set ps. \<forall>k \<in> set fixed. \<forall>q. extend_to k p = Inr (Some q) \<longrightarrow> q \<in> set qs)"
  using ps
proof (induction ps)
  case (Cons p ps)
  let ?ks = "candidate_set (path_end p) fixed (pt_state p)"
  have p: "reach_path s src p" using Cons.prems by simp
  obtain qs where qs: "relax_path ?ks p = Inr qs" "\<forall>q \<in> set qs. \<exists>k \<in> set ?ks. extend_to k p = Inr (Some q)"
    "\<forall>k \<in> set ?ks. \<forall>q. extend_to k p = Inr (Some q) \<longrightarrow> q \<in> set qs" using relax_path_spec [OF ok p, of ?ks] by blast
  obtain rs where rs: "relax_paths fixed ps = Inr rs" "\<forall>q \<in> set rs. \<exists>p \<in> set ps. \<exists>k. extend_to k p = Inr (Some q)"
    "\<forall>p \<in> set ps. \<forall>k \<in> set fixed. \<forall>q. extend_to k p = Inr (Some q) \<longrightarrow> q \<in> set rs" using Cons by auto
  have "set fixed \<subseteq> set ?ks" by (simp add: candidate_set_def)
  with qs rs show ?case by (auto 4 3)
qed simp

text \<open>One round on two caches with the same views, offered the paths in two orders.\<close>

lemma relax_round:
  assumes ok: "graph_ok hash s" and c: "cache_ok s src c" "cache_ok s src d" "same_views c d"
    and order: "\<And>xs. mset (o1 xs) = mset xs" "\<And>xs. mset (o2 xs) = mset xs"
  shows "\<exists>c' d'. relax_active_paths o1 fixed c = Inr c' \<and> relax_active_paths o2 fixed d = Inr d'
    \<and> cache_ok s src c' \<and> cache_ok s src d' \<and> same_views c' d'"
proof -
  have eq: "fst (extract_active c) = fst (extract_active d)"
    using c same_viewed [of c d] by (simp add: active_of_viewed cache_ok_def)
  obtain qs where qs: "relax_paths fixed (fst (extract_active c)) = Inr qs"
    "\<forall>q \<in> set qs. \<exists>p \<in> set (fst (extract_active c)). \<exists>k. extend_to k p = Inr (Some q)"
    using relax_paths_spec [OF ok, of "fst (extract_active c)" src] active_reach [OF c(1)] by blast
  have r: "reach_path s src q" if "q \<in> set qs" for q
    using qs(2) that active_reach [OF c(1)] reach_path.extend by blast
  have sets: "set (o1 qs) = set qs" "set (o2 qs) = set qs" using order by (metis mset_eq_setD)+
  let ?c = "fold consider_path (o1 qs) (snd (extract_active c))" and ?d = "fold consider_path (o2 qs) (snd (extract_active d))"
  have "relax_active_paths o1 fixed c = Inr ?c" "relax_active_paths o2 fixed d = Inr ?d"
    using qs(1) eq by (simp_all add: relax_active_paths_def split_beta)
  moreover have "cache_ok s src ?c" "cache_ok s src ?d"
    using consider_all_ok extract_ok c r sets by metis+
  moreover have "same_views ?c ?d"
    by (rule consider_permuted [where s = s and src = src]) (use order c extract_ok extract_cong r sets in auto)
  ultimately show ?thesis by blast
qed

lemma relax_rounds:
  assumes ok: "graph_ok hash s" and order: "\<And>i xs. mset (s1 i xs) = mset xs" "\<And>i xs. mset (s2 i xs) = mset xs"
    and "cache_ok s src c" "cache_ok s src d" "same_views c d"
  shows "\<exists>c' d'. try_fold (\<lambda>i. relax_active_paths (s1 i) fixed) is c = Inr c' \<and> try_fold (\<lambda>i. relax_active_paths (s2 i) fixed) is d = Inr d'
    \<and> cache_ok s src c' \<and> cache_ok s src d' \<and> same_views c' d'"
  using assms(4-6)
proof (induction "is" arbitrary: c d)
  case (Cons i "is")
  obtain c' d' where r: "relax_active_paths (s1 i) fixed c = Inr c'" "relax_active_paths (s2 i) fixed d = Inr d'"
    "cache_ok s src c'" "cache_ok s src d'" "same_views c' d'"
    using relax_round [OF ok Cons.prems, of "s1 i" "s2 i" fixed] order by blast
  from Cons.IH [OF r(3-5)] r(1,2) show ?case by simp
qed simp

section \<open>What a search returns\<close>

definition short :: "nat \<Rightarrow> path_cache \<Rightarrow> bool" where
  "short n c \<longleftrightarrow> (\<forall>k e. bt_get c k = Some e \<longrightarrow> length (pt_nodes (en_path e)) \<le> n)"

definition beats :: "path \<Rightarrow> path_cache \<Rightarrow> bool" where
  "beats q c \<longleftrightarrow> (\<exists>e. bt_get c (path_end q) = Some e \<and> \<not> path_less q (en_path e))"

lemma consider_get:
  assumes "bt_wf c"
  shows "bt_get (consider_path p c) k = (if k = path_end p then
    Some (case bt_get c k of None \<Rightarrow> entry_of_path p | Some e \<Rightarrow> entry_update p e) else bt_get c k)"
  using assms by (simp add: consider_path_def split: option.split)

lemma path_of_consider:
  assumes "bt_wf c" "bt_get (consider_path p c) k = Some e"
  shows "en_path e = p \<and> k = path_end p \<or> (\<exists>e'. bt_get c k = Some e' \<and> en_path e = en_path e')"
proof (cases "k = path_end p")
  case True
  show ?thesis
  proof (cases "bt_get c k")
    case None
    with True assms(2) show ?thesis by (auto simp: consider_get [OF assms(1)] entry_of_path_def)
  next
    case (Some e')
    with True assms(2) have "e = entry_update p e'" by (simp add: consider_get [OF assms(1)])
    with Some True path_of_update [of p e'] show ?thesis by auto
  qed
next
  case False
  with assms(2) show ?thesis by (auto simp: consider_get [OF assms(1)])
qed

lemma path_less_irrefl [simp]: "\<not> path_less p p"
  by (simp add: path_less_def)

lemma path_of_update_if: "en_path (entry_update p e) = (if path_less p (en_path e) then p else en_path e)"
  by (simp add: entry_update_def update_spill_def split: option.split)

lemma update_not_above: "\<not> path_less (en_path e) (en_path (entry_update p e)) \<and> \<not> path_less p (en_path (entry_update p e))"
  using path_less_asym [of p "en_path e"] by (simp add: path_of_update_if)

lemma not_less_update: "\<not> path_less q (en_path e) \<Longrightarrow> \<not> path_less q (en_path (entry_update p e))"
  using path_less_trans [of q p "en_path e"] by (auto simp: path_of_update_if)

lemma beats_consider: "bt_wf c \<Longrightarrow> beats q c \<Longrightarrow> beats q (consider_path p c)"
proof -
  assume wf: "bt_wf c" and "beats q c"
  then obtain e where e: "bt_get c (path_end q) = Some e" "\<not> path_less q (en_path e)" by (auto simp: beats_def)
  have "\<not> path_less q (en_path (entry_update p e))" using e(2) by (rule not_less_update)
  then show ?thesis using e by (auto simp: beats_def consider_get [OF wf])
qed

lemma beats_self: "bt_wf c \<Longrightarrow> beats q (consider_path q c)"
  using update_not_above by (auto simp: beats_def consider_get entry_of_path_def split: option.splits)

lemma consider_wf: "bt_wf c \<Longrightarrow> bt_wf (consider_path p c)"
  by (simp add: consider_path_def)

lemma short_consider: "bt_wf c \<Longrightarrow> short n c \<Longrightarrow> length (pt_nodes p) \<le> n \<Longrightarrow> short n (consider_path p c)"
  using path_of_consider by (fastforce simp: short_def)

lemma consider_all:
  assumes "bt_wf c"
  shows "bt_wf (fold consider_path ps c)"
    "short n c \<Longrightarrow> (\<And>p. p \<in> set ps \<Longrightarrow> length (pt_nodes p) \<le> n) \<Longrightarrow> short n (fold consider_path ps c)"
    "beats q c \<or> q \<in> set ps \<Longrightarrow> beats q (fold consider_path ps c)"
  using assms
proof (induction ps arbitrary: c)
  case (Cons p ps)
  {
    case 1
    then show ?case using Cons.IH(1) consider_wf by simp
  next
    case 2
    then show ?case using Cons.IH(2) [of "consider_path p c"] short_consider consider_wf by simp
  next
    case 3
    then show ?case using Cons.IH(3) [of "consider_path p c"] beats_consider beats_self consider_wf by auto
  }
qed simp_all

lemma extract_facts:
  "short n c \<Longrightarrow> short n (snd (extract_active c))" "beats q c \<Longrightarrow> beats q (snd (extract_active c))"
  by (auto simp: short_def beats_def extract_get)

lemma relax_facts:
  assumes ok: "graph_ok hash s" and c: "cache_ok s src c" and order: "\<And>xs. mset (ord xs) = mset xs"
  shows "\<exists>c'. relax_active_paths ord fixed c = Inr c' \<and> cache_ok s src c' \<and> (\<forall>n. short n c \<longrightarrow> short (Suc n) c')
    \<and> (\<forall>q. beats q c \<longrightarrow> beats q c')
    \<and> (\<forall>p k q. p \<in> set (fst (extract_active c)) \<longrightarrow> k \<in> set fixed \<longrightarrow> extend_to k p = Inr (Some q) \<longrightarrow> beats q c')"
proof -
  obtain qs where qs: "relax_paths fixed (fst (extract_active c)) = Inr qs"
    "\<forall>q \<in> set qs. \<exists>p \<in> set (fst (extract_active c)). \<exists>k. extend_to k p = Inr (Some q)"
    "\<forall>p \<in> set (fst (extract_active c)). \<forall>k \<in> set fixed. \<forall>q. extend_to k p = Inr (Some q) \<longrightarrow> q \<in> set qs"
    using relax_paths_spec [OF ok, of "fst (extract_active c)" src fixed] active_reach [OF c] by blast
  have r: "reach_path s src q" if "q \<in> set qs" for q
    using qs(2) that active_reach [OF c] reach_path.extend by blast
  have set: "set (ord qs) = set qs" using order by (metis mset_eq_setD)
  let ?c = "fold consider_path (ord qs) (snd (extract_active c))"
  have wf: "bt_wf (snd (extract_active c))" using extract_ok [OF c] by (simp add: cache_ok_def)
  have "relax_active_paths ord fixed c = Inr ?c" using qs(1) by (simp add: relax_active_paths_def split_beta)
  moreover have "cache_ok s src ?c" using consider_all_ok [OF extract_ok [OF c]] r set by blast
  moreover have "short (Suc n) ?c" if n: "short n c" for n
  proof (rule consider_all(2) [OF wf])
    show "short (Suc n) (snd (extract_active c))" using extract_facts(1) [OF n] by (auto simp: short_def intro: le_SucI)
    fix q assume "q \<in> set (ord qs)"
    then obtain p k where p: "p \<in> set (fst (extract_active c))" "extend_to k p = Inr (Some q)" using set qs(2) by blast
    obtain j e where "(j, e) \<in> set c" "p = en_path e" using p(1) by (auto simp: extract_active_def)
    moreover from this(1) c have "bt_get c j = Some e" using btree.in_entries_iff [of c j e] by (simp add: cache_ok_def)
    ultimately show "length (pt_nodes q) \<le> Suc n" using n extend_to_nodes [OF p(2)] by (auto simp: short_def)
  qed
  moreover have "beats q ?c" if "beats q c" for q using consider_all(3) [OF wf] extract_facts(2) [OF that] by blast
  moreover have "beats q ?c" if "p \<in> set (fst (extract_active c))" "k \<in> set fixed" "extend_to k p = Inr (Some q)" for p k q
    using consider_all(3) [OF wf] that qs(3) set by blast
  ultimately show ?thesis by blast
qed

lemma relax_rounds_facts:
  assumes ok: "graph_ok hash s" and order: "\<And>i xs. mset (sched i xs) = mset xs"
    and "cache_ok s src c" "short n c"
  shows "\<exists>c'. try_fold (\<lambda>i. relax_active_paths (sched i) fixed) is c = Inr c' \<and> cache_ok s src c' \<and> short (n + length is) c'
    \<and> (\<forall>q. beats q c \<longrightarrow> beats q c')"
  using assms(3,4)
proof (induction "is" arbitrary: c n)
  case Nil
  then show ?case by auto
next
  case (Cons i "is")
  obtain c' where r: "relax_active_paths (sched i) fixed c = Inr c'" "cache_ok s src c'" "short (Suc n) c'"
    "\<forall>q. beats q c \<longrightarrow> beats q c'"
    using relax_facts [OF ok Cons.prems(1), of "sched i" fixed] order Cons.prems(2) by blast
  from Cons.IH [OF r(2,3)] r(1,4) show ?case by auto
qed

text \<open>A route that a search may return: a path that the search reaches, which ends where it should,
  within the bounds on its length and its price.\<close>

definition route_ok :: "dex_state \<Rightarrow> asset_id \<Rightarrow> asset_id \<Rightarrow> routing_params \<Rightarrow> asset_id list \<Rightarrow> fixpoint option \<Rightarrow> bool" where
  "route_ok s src dst rp nodes spill \<longleftrightarrow> (\<exists>p. reach_path s src p \<and> pt_nodes p = nodes \<and> path_end p = dst
     \<and> length nodes \<le> rp_max_hops rp
     \<and> (\<forall>l. price_limit rp = Some l \<longrightarrow> pt_price p < l) \<and> (\<forall>x. spill = Some x \<longrightarrow> pt_price p \<le> x)
     \<and> (\<forall>q. dst \<in> set (rp_candidates rp) \<longrightarrow> 0 < rp_max_hops rp \<longrightarrow> extend_to dst (path_begin src s) = Inr (Some q) \<longrightarrow>
           pt_price p \<le> pt_price q))"

lemma path_search_spec:
  assumes ok: "graph_ok hash s" and order: "\<And>i xs. mset (sched i xs) = mset xs"
  shows "\<exists>r spill. path_search sched src dst rp s = Inr (r, spill) \<and> (r = None \<longrightarrow> spill = None)
    \<and> (\<forall>nodes. r = Some nodes \<longrightarrow> route_ok s src dst rp nodes spill)
    \<and> (r = None \<longrightarrow> price_limit rp = None \<longrightarrow> dst \<in> set (rp_candidates rp) \<longrightarrow> 0 < rp_max_hops rp \<longrightarrow>
         extend_to dst (path_begin src s) = Inr None)"
proof -
  let ?fixed = "rp_candidates rp" and ?c = "cache_begin src s"
  have c0: "cache_ok s src ?c" "short 0 ?c" "fst (extract_active ?c) = [path_begin src s]"
    by (rule cache_begin_ok) (simp_all add: short_def cache_begin_def bt_get_def entry_of_path_def path_begin_def extract_active_def)
  have "\<exists>c'. try_fold (\<lambda>i. relax_active_paths (sched i) ?fixed) [0..<rp_max_hops rp] ?c = Inr c' \<and> cache_ok s src c'
      \<and> short (rp_max_hops rp) c'
      \<and> (\<forall>q. dst \<in> set ?fixed \<longrightarrow> 0 < rp_max_hops rp \<longrightarrow> extend_to dst (path_begin src s) = Inr (Some q) \<longrightarrow> beats q c')"
  proof (cases "rp_max_hops rp")
    case 0
    then show ?thesis using c0 by simp
  next
    case (Suc n)
    obtain c1 where c1: "relax_active_paths (sched 0) ?fixed ?c = Inr c1" "cache_ok s src c1" "short (Suc 0) c1"
      "\<forall>q. dst \<in> set ?fixed \<longrightarrow> extend_to dst (path_begin src s) = Inr (Some q) \<longrightarrow> beats q c1"
      using relax_facts [OF ok c0(1), of "sched 0" ?fixed] order c0(2,3) by auto
    have "\<exists>c'. try_fold (\<lambda>i. relax_active_paths (sched i) ?fixed) [1..<Suc n] c1 = Inr c' \<and> cache_ok s src c'
        \<and> short (Suc 0 + length [1..<Suc n]) c' \<and> (\<forall>q. beats q c1 \<longrightarrow> beats q c')"
      by (rule relax_rounds_facts [OF ok]) (rule order c1(2,3))+
    then obtain c' where "try_fold (\<lambda>i. relax_active_paths (sched i) ?fixed) [1..<Suc n] c1 = Inr c'" "cache_ok s src c'"
      "short (Suc 0 + length [1..<Suc n]) c'" "\<forall>q. beats q c1 \<longrightarrow> beats q c'" by blast
    moreover have "[0..<rp_max_hops rp] = 0 # [1..<Suc n]" by (simp only: Suc upt_rec [of 0]) simp
    moreover have "Suc 0 + length [1..<Suc n] = rp_max_hops rp" by (simp only: length_upt Suc)
    ultimately show ?thesis using c1(1,4) by (intro exI [of _ c']) (simp del: upt_Suc)
  qed
  then obtain c where c: "try_fold (\<lambda>i. relax_active_paths (sched i) ?fixed) [0..<rp_max_hops rp] ?c = Inr c" "cache_ok s src c"
    "short (rp_max_hops rp) c"
    "\<And>q. dst \<in> set ?fixed \<Longrightarrow> 0 < rp_max_hops rp \<Longrightarrow> extend_to dst (path_begin src s) = Inr (Some q) \<Longrightarrow> beats q c" by blast
  have dir: "extend_to dst (path_begin src s) = Inr None \<or> (\<exists>q. extend_to dst (path_begin src s) = Inr (Some q) \<and> path_end q = dst)"
  proof -
    have st: "pt_state (path_begin src s) = prune {} s" by (simp add: path_begin_def)
    show ?thesis using extend_to_spec [OF ok st, of dst] extend_to_nodes by blast
  qed
  show ?thesis
  proof (cases "bt_get c dst")
    case None
    then have "extend_to dst (path_begin src s) = Inr None" if "dst \<in> set ?fixed" "0 < rp_max_hops rp"
      using dir c(4) [OF that] by (auto simp: beats_def)
    with None c(1) show ?thesis by (simp add: path_search_def)
  next
    case (Some e)
    let ?p = "en_path e" and ?spill = "map_option pt_price (en_spill e)"
    have p: "reach_path s src ?p" "path_end ?p = dst" "length (pt_nodes ?p) \<le> rp_max_hops rp" "\<And>x. ?spill = Some x \<Longrightarrow> pt_price ?p \<le> x"
    proof -
      have v: "view_ok (view e)" using c(2) Some by (simp add: cache_ok_def)
      show "reach_path s src ?p" "path_end ?p = dst" "length (pt_nodes ?p) \<le> rp_max_hops rp"
        using c(2,3) Some by (simp_all add: cache_ok_def short_def)
      show "pt_price ?p \<le> x" if "?spill = Some x" for x using v that by (auto simp: view_ok_def view_def)
    qed
    have best: "pt_price ?p \<le> pt_price q"
      if "dst \<in> set ?fixed" "0 < rp_max_hops rp" "extend_to dst (path_begin src s) = Inr (Some q)" for q
    proof -
      have "path_end q = dst" using extend_to_nodes [OF that(3)] by simp
      then have "\<not> path_less q ?p" using c(4) [OF that] Some by (auto simp: beats_def)
      then show ?thesis by (rule not_path_less_price)
    qed
    have route: "route_ok s src dst rp (pt_nodes ?p) ?spill" if "\<And>l. price_limit rp = Some l \<Longrightarrow> pt_price ?p < l"
      unfolding route_ok_def using p best that by (intro exI [of _ ?p]) blast
    show ?thesis
    proof (cases "price_limit rp")
      case None
      then show ?thesis using Some c(1) route by (simp add: path_search_def)
    next
      case (Some l)
      then show ?thesis using \<open>bt_get c dst = Some e\<close> c(1) route by (auto simp: path_search_def not_le)
    qed
  qed
qed

lemma path_search_any_order:
  assumes ok: "graph_ok hash s" and order: "\<And>i xs. mset (s1 i xs) = mset xs" "\<And>i xs. mset (s2 i xs) = mset xs"
  shows "path_search s1 src dst rp s = path_search s2 src dst rp s"
proof -
  have "\<exists>c d. try_fold (\<lambda>i. relax_active_paths (s1 i) (rp_candidates rp)) [0..<rp_max_hops rp] (cache_begin src s) = Inr c
      \<and> try_fold (\<lambda>i. relax_active_paths (s2 i) (rp_candidates rp)) [0..<rp_max_hops rp] (cache_begin src s) = Inr d
      \<and> cache_ok s src c \<and> cache_ok s src d \<and> same_views c d"
    by (rule relax_rounds [OF ok]) (rule order cache_begin_ok same_views_refl)+
  then obtain c d where cd: "try_fold (\<lambda>i. relax_active_paths (s1 i) (rp_candidates rp)) [0..<rp_max_hops rp] (cache_begin src s) = Inr c"
    "try_fold (\<lambda>i. relax_active_paths (s2 i) (rp_candidates rp)) [0..<rp_max_hops rp] (cache_begin src s) = Inr d" "same_views c d"
    by blast
  have "map_option view (bt_get c dst) = map_option view (bt_get d dst)" using cd(3) by (simp add: same_views_def)
  then show ?thesis
    by (cases "bt_get c dst"; cases "bt_get d dst") (auto simp: path_search_def cd(1,2) view_def split: option.split)
qed

end
