(* ===== verification/RouteAndFill.thy ===== *)
theory RouteAndFill
  imports PathOrder
begin

text \<open>
  \<open>route_and_fill\<close> (\<open>crates/core/component/dex/src/component/router/route_and_fill.rs\<close>) under its
  execution circuit breaker (\<open>component/circuit_breaker/execution.rs\<close>): route, fill, repeat, until
  the input is used up, no route is left, the price limit is reached or the budget is spent.
\<close>

section \<open>The execution circuit breaker\<close>

record execution_breaker =
  eb_counter :: u32
  eb_max :: u32

definition breaker_new :: "u32 \<Rightarrow> execution_breaker" where
  "breaker_new budget = \<lparr>eb_counter = 0, eb_max = budget\<rparr>"

definition breaker_increment :: "execution_breaker \<Rightarrow> execution_breaker" where
  "breaker_increment b = b\<lparr>eb_counter := eb_counter b + 1\<rparr>"

definition exceeded_limits :: "execution_breaker \<Rightarrow> bool" where
  "exceeded_limits b \<longleftrightarrow> eb_counter b \<ge> eb_max b"

lemma breaker_progress:
  assumes "\<not> exceeded_limits b"
  shows "unat (eb_max (breaker_increment b)) - unat (eb_counter (breaker_increment b)) < unat (eb_max b) - unat (eb_counter b)"
proof -
  have "unat (eb_counter b) < unat (eb_max b)" using assms by (simp add: exceeded_limits_def word_less_nat_alt not_le)
  moreover from this have "unat (eb_counter b + 1) = unat (eb_counter b) + 1"
    using unsigned_less [of "eb_max b", where ?'a = nat] by (simp add: unat_add_no_overflow)
  ultimately show ?thesis by (simp add: breaker_increment_def)
qed

section \<open>The loop\<close>

text \<open>What the loop carries: the unfilled input, the output so far and the traces.\<close>

record fill_progress =
  total_unfilled :: amount
  total_output :: amount
  all_traces :: "asset_value list list"

definition track_execution :: "swap_execution \<Rightarrow> fill_progress \<Rightarrow> fill_progress" where
  "track_execution se r = \<lparr>total_unfilled = total_unfilled r - v_amount (se_input se),
     total_output = total_output r + v_amount (se_output se), all_traces = all_traces r @ se_traces se\<rparr>"

definition goes_on :: "routing_params \<Rightarrow> swap_execution \<Rightarrow> fill_progress \<Rightarrow> bool" where
  "goes_on rp se r \<longleftrightarrow> total_unfilled r \<noteq> 0 \<and>
     (case max_price se of None \<Rightarrow> False
      | Some p \<Rightarrow> (case price_limit rp of Some limit \<Rightarrow> \<not> p \<ge> limit | None \<Rightarrow> True))"

function route_loop :: "(u8 list \<Rightarrow> u8 list) \<Rightarrow> asset_id \<Rightarrow> (nat \<Rightarrow> path list \<Rightarrow> path list) \<Rightarrow> asset_id \<Rightarrow> asset_id
    \<Rightarrow> routing_params \<Rightarrow> execution_breaker \<Rightarrow> fill_progress \<Rightarrow> dex_state \<Rightarrow> (fill_progress \<times> dex_state) result" where
  "route_loop hash um sched a1 a2 rp breaker r s =
     (if exceeded_limits breaker then Inr (r, s)
      else
        and_then (path_search sched a1 a2 rp s) (\<lambda>(route, spill).
        case route of
          None \<Rightarrow> Inr (r, s)
        | Some nodes \<Rightarrow>
            if nodes = [] then Inr (r, s)
            else (case fill_route hash um \<lparr>v_amount = total_unfilled r, v_asset = a1\<rparr> nodes spill s of
                Inl FillPanic \<Rightarrow> Inl Panic
              | Inl (ExecutionOverflow i) \<Rightarrow>
                  and_then (expect (close_position_by_id um i s))
                    (route_loop hash um sched a1 a2 rp (breaker_increment breaker) r)
              | Inl _ \<Rightarrow> Inl (Bail ''error filling route'')
              | Inr (se, s) \<Rightarrow>
                  if v_asset (se_output se) \<noteq> a2 \<or> v_asset (se_input se) \<noteq> a1 then Inl Panic
                  else (let r = track_execution se r in
                    if goes_on rp se r then route_loop hash um sched a1 a2 rp (breaker_increment breaker) r s
                    else Inr (r, s)))))"
  by pat_completeness auto

termination
  by (relation "measure (\<lambda>(_, _, _, _, _, _, b, _, _). unat (eb_max b) - unat (eb_counter b))") (auto simp: breaker_progress)

declare route_loop.simps [simp del]

definition route_and_fill :: "(u8 list \<Rightarrow> u8 list) \<Rightarrow> asset_id \<Rightarrow> (nat \<Rightarrow> path list \<Rightarrow> path list) \<Rightarrow> asset_id \<Rightarrow> asset_id
    \<Rightarrow> amount \<Rightarrow> routing_params \<Rightarrow> execution_breaker \<Rightarrow> dex_state \<Rightarrow> (swap_execution option \<times> dex_state) result" where
  "route_and_fill hash um sched a1 a2 input rp breaker s =
     (if input = amount_zero then Inr (None, s)
      else
        and_then (route_loop hash um sched a1 a2 rp breaker \<lparr>total_unfilled = input, total_output = 0, all_traces = []\<rparr> s) (\<lambda>(r, s).
        if all_traces r = [] then Inr (None, s)
        else Inr (Some \<lparr>se_traces = all_traces r, se_input = \<lparr>v_amount = input - total_unfilled r, v_asset = a1\<rparr>,
                        se_output = \<lparr>v_amount = total_output r, v_asset = a2\<rparr>\<rparr>, s)))"

section \<open>Closing a culprit\<close>

lemma close_culprit:
  assumes ok: "indexes_ok s" and p: "positions s i = Some p" "p_state p = Opened"
    and bound: "\<And>k. tally (holdings k) (positions s) < 2 ^ 128"
  shows "\<exists>t. close_position_by_id um i s = Inr t \<and> positions t = (positions s)(i := Some (p\<lparr>p_state := Closed\<rparr>))
    \<and> same_books s t \<and> indexes_ok t"
proof -
  let ?new = "p\<lparr>p_state := Closed\<rparr>"
  note inv = indexes_okD [OF ok]
  have new: "position_ok ?new" using inv(2) [OF p(1)] by (simp add: position_ok_def distinct_assets_def)
  have "guard_invalid_transitions (positions s i) ?new = Inr ()" using p by (simp add: guard_invalid_transitions_def)
  then obtain t where t: "update_position um i (positions s i) ?new s = Inr (?new, t)"
    using update_position_total [OF ok new, of i um] p(1) by auto
  note fr = update_position_frame [OF t]
  have same: "tally (holdings k) (positions t) = tally (holdings k) (positions s)" for k
    using tally_update [OF inv(1), of "holdings k" i ?new] p(1) by (simp add: fr(2))
  have "indexes_ok t"
  proof (rule update_position_indexes [OF t ok new])
    show "tf_pair (p_phi r) = tf_pair (p_phi ?new)" if "positions s i = Some r" for r using that p(1) by simp
    show "tally (liquidity_of d) ((positions s)(i := Some ?new)) < 2 ^ 128" for d
    proof (rule liquidity_bound [where b = "\<lambda>k. tally (holdings k) (positions t)"])
      show "tally (holdings k) (positions t) < 2 ^ 128" for k unfolding same by (rule bound)
    qed (simp add: fr(2))
  qed
  moreover have "close_position_by_id um i s = Inr t"
    using t p by (simp add: close_position_by_id_def position_by_id_def)
  ultimately show ?thesis using fr(2) same_frame_books [OF fr(3)] by blast
qed

lemma traded_to_trans: "traded_to x y \<Longrightarrow> traded_to y z \<Longrightarrow> traded_to x z"
  unfolding traded_to_def settled_def by (elim disjE exE conjE) (auto, (metis position.update_convs position.surjective)?)

section \<open>What the loop keeps\<close>

lemma traded_to_id: "traded_to (Some p) (Some q) \<Longrightarrow> position_id_of hash q = position_id_of hash p"
  by (auto simp: traded_to_def settled_def position_id_of_def position_preimage_def)

lemma graph_ok_traded:
  assumes "graph_ok hash s" "indexes_ok t" "\<And>i. traded_to (positions s i) (positions t i)"
  shows "graph_ok hash t"
proof -
  have "position_id_of hash q = i" if q: "positions t i = Some q" for i q
  proof -
    obtain p where p: "positions s i = Some p" "traded_to (Some p) (Some q)"
      using assms(3) [of i] q by (auto simp: traded_to_def)
    then show ?thesis using traded_to_id [OF p(2)] graph_okD(2) [OF assms(1) p(1)] by simp
  qed
  then show ?thesis using assms(2) by (simp add: graph_ok_def)
qed

text \<open>The books of a run: what the positions hold now and what was paid out is what they held before
  and what was taken of the input.\<close>

definition progress_ok :: "(u8 list \<Rightarrow> u8 list) \<Rightarrow> dex_state \<Rightarrow> amount \<Rightarrow> asset_id \<Rightarrow> asset_id \<Rightarrow> fill_progress \<Rightarrow> dex_state \<Rightarrow> bool" where
  "progress_ok hash s0 input a1 a2 r s \<longleftrightarrow> graph_ok hash s \<and> same_books s0 s \<and> (\<forall>i. traded_to (positions s0 i) (positions s i))
     \<and> unat (total_unfilled r) \<le> unat input \<and> [] \<notin> set (all_traces r)
     \<and> (all_traces r = [] \<longrightarrow> total_output r = 0 \<and> total_unfilled r = input)
     \<and> (\<forall>k. tally (holdings k) (positions s) + (if k = a2 then unat (total_output r) else 0)
          = tally (holdings k) (positions s0) + (if k = a1 then unat input - unat (total_unfilled r) else 0))"

definition room_for :: "dex_state \<Rightarrow> nat \<Rightarrow> bool" where
  "room_for s n \<longleftrightarrow> (\<forall>k. 2 * (tally (holdings k) (positions s) + n) < 2 ^ 128)"

lemma progress_bound:
  assumes "progress_ok hash s0 input a1 a2 r s" "room_for s0 (unat input)"
  shows "2 * tally (holdings k) (positions s) + unat (total_unfilled r) < 2 ^ 128"
proof -
  have "tally (holdings k) (positions s) + (if k = a2 then unat (total_output r) else 0)
      = tally (holdings k) (positions s0) + (if k = a1 then unat input - unat (total_unfilled r) else 0)"
    "unat (total_unfilled r) \<le> unat input"
    using assms(1) by (simp_all add: progress_ok_def)
  then have "tally (holdings k) (positions s) + unat (total_unfilled r) \<le> tally (holdings k) (positions s0) + unat input"
    by (cases "k = a1") auto
  then have "2 * (tally (holdings k) (positions s) + unat (total_unfilled r)) \<le> 2 * (tally (holdings k) (positions s0) + unat input)" by simp
  with assms(2) [unfolded room_for_def, rule_format, of k] show ?thesis by (simp add: distrib_left)
qed

lemma progress_track:
  assumes ok: "progress_ok hash s0 input a1 a2 r s" "room_for s0 (unat input)"
    and se: "routed s \<lparr>v_amount = total_unfilled r, v_asset = a1\<rparr> nodes se t" and last: "last nodes = a2"
  shows "progress_ok hash s0 input a1 a2 (track_execution se r) t"
proof -
  note R = se [unfolded routed_def, simplified]
  have P: "graph_ok hash s" "same_books s0 s" "\<And>i. traded_to (positions s0 i) (positions s i)"
    "unat (total_unfilled r) \<le> unat input" "[] \<notin> set (all_traces r)"
    "tally (holdings k) (positions s) + (if k = a2 then unat (total_output r) else 0)
      = tally (holdings k) (positions s0) + (if k = a1 then unat input - unat (total_unfilled r) else 0)" for k
    using ok(1) by (simp_all add: progress_ok_def)
  have B: "tally (holdings k) (positions t) + (if k = a2 then unat (v_amount (se_output se)) else 0)
      = tally (holdings k) (positions s) + (if k = a1 then unat (v_amount (se_input se)) else 0)" for k
    using se last by (simp add: routed_def)
  have le: "unat (v_amount (se_input se)) \<le> unat (total_unfilled r)" using R by (simp add: word_le_nat_alt)
  have sub: "unat (total_unfilled r - v_amount (se_input se)) = unat (total_unfilled r) - unat (v_amount (se_input se))"
    using le by (simp add: unat_sub_no_underflow word_le_nat_alt)
  have "unat (total_output r) + unat (v_amount (se_output se)) \<le> tally (holdings a2) (positions s0) + unat input"
    using P(4) P(6) [of a2] B [of a2] le by (simp split: if_splits)
  also have "\<dots> < 2 ^ 128" using ok(2) [unfolded room_for_def, rule_format, of a2] by simp
  finally have add: "unat (total_output r + v_amount (se_output se)) = unat (total_output r) + unat (v_amount (se_output se))"
    by (simp add: unat_add_no_overflow)
  have "traded_to (positions s0 i) (positions t i)" for i
    using traded_to_trans [OF P(3)] R by blast
  moreover have "graph_ok hash t" using graph_ok_traded [OF P(1)] R by blast
  moreover have "same_books s0 t" using same_books_trans [OF P(2)] R by blast
  moreover have "tally (holdings k) (positions t) + (if k = a2 then unat (total_output (track_execution se r)) else 0)
      = tally (holdings k) (positions s0) + (if k = a1 then unat input - unat (total_unfilled (track_execution se r)) else 0)" for k
    using P(4) P(6) [of k] B [of k] le by (simp add: track_execution_def sub add split: if_splits)
  ultimately show ?thesis
    unfolding progress_ok_def using P(4,5) R sub by (simp add: track_execution_def)
qed

lemma progress_close:
  assumes ok: "progress_ok hash s0 input a1 a2 r s" "room_for s0 (unat input)"
    and p: "positions s i = Some p" "p_state p = Opened"
  shows "\<exists>t. close_position_by_id um i s = Inr t \<and> progress_ok hash s0 input a1 a2 r t"
proof -
  have P: "graph_ok hash s" "same_books s0 s" "\<And>i. traded_to (positions s0 i) (positions s i)" using ok(1) by (simp_all add: progress_ok_def)
  have "tally (holdings k) (positions s) < 2 ^ 128" for k using progress_bound [OF ok, of k] by linarith
  from close_culprit [OF graph_okD(1) [OF P(1)] p this, of um] obtain t where
    t: "close_position_by_id um i s = Inr t" "positions t = (positions s)(i := Some (p\<lparr>p_state := Closed\<rparr>))"
    "same_books s t" "indexes_ok t" by blast
  have same: "tally (holdings k) (positions t) = tally (holdings k) (positions s)" for k
    using tally_update [OF indexes_okD(1) [OF graph_okD(1) [OF P(1)]], of "holdings k" i "p\<lparr>p_state := Closed\<rparr>"] p(1) by (simp add: t(2))
  have step: "traded_to (positions s j) (positions t j)" for j
  proof (cases "j = i")
    case True
    have "settled (p\<lparr>p_reserves := p_reserves p\<rparr>) (p\<lparr>p_state := Closed\<rparr>)" by (simp add: settled_def)
    moreover have "positions t j = Some (p\<lparr>p_state := Closed\<rparr>)" "positions s j = Some p" using p t(2) True by simp_all
    ultimately show ?thesis using p(2) unfolding traded_to_def by blast
  qed (simp add: t(2) traded_to_def)
  have "progress_ok hash s0 input a1 a2 r t"
    using ok(1) graph_ok_traded [OF P(1) t(4) step] same_books_trans [OF P(2) t(3)] traded_to_trans [OF P(3) step]
    unfolding progress_ok_def same by blast
  with t(1) show ?thesis by blast
qed

text \<open>The scheduler takes the paths of a round in some order.\<close>

definition permuting :: "(nat \<Rightarrow> path list \<Rightarrow> path list) \<Rightarrow> bool" where
  "permuting sched \<longleftrightarrow> (\<forall>i xs. mset (sched i xs) = mset xs)"

lemma route_loop_spec:
  assumes room: "room_for s0 (unat input)" and "progress_ok hash s0 input a1 a2 r s"
  shows "\<exists>r' t. (\<forall>sched. permuting sched \<longrightarrow> route_loop hash um sched a1 a2 rp breaker r s = Inr (r', t))
    \<and> progress_ok hash s0 input a1 a2 r' t"
  using assms(2)
proof (induction "unat (eb_max breaker) - unat (eb_counter breaker)" arbitrary: breaker r s rule: less_induct)
  case less
  note prog = less.prems
  let ?loop = "\<lambda>sched. route_loop hash um sched a1 a2 rp"
  have graph: "graph_ok hash s" using prog by (simp add: progress_ok_def)
  show ?case
  proof (cases "exceeded_limits breaker")
    case True
    with prog show ?thesis by (intro exI [of _ r] exI [of _ s]) (simp add: route_loop.simps)
  next
    case False
    have IH: "\<exists>r' t. (\<forall>sched. permuting sched \<longrightarrow> ?loop sched (breaker_increment breaker) q u = Inr (r', t))
        \<and> progress_ok hash s0 input a1 a2 r' t"
      if "progress_ok hash s0 input a1 a2 q u" for q u
      by (rule less.hyps [OF breaker_progress [OF False] that])
    obtain route spill where ps: "\<And>sched. permuting sched \<Longrightarrow> path_search sched a1 a2 rp s = Inr (route, spill)"
      "\<forall>nodes. route = Some nodes \<longrightarrow> route_ok s a1 a2 rp nodes spill"
    proof -
      have "\<exists>r spill. path_search (\<lambda>i xs. xs) a1 a2 rp s = Inr (r, spill) \<and> (r = None \<longrightarrow> spill = None)
          \<and> (\<forall>nodes. r = Some nodes \<longrightarrow> route_ok s a1 a2 rp nodes spill)
          \<and> (r = None \<longrightarrow> price_limit rp = None \<longrightarrow> a2 \<in> set (rp_candidates rp) \<longrightarrow> 0 < rp_max_hops rp \<longrightarrow>
               extend_to a2 (path_begin a1 s) = Inr None)"
        by (rule path_search_spec [OF graph]) simp
      moreover have "path_search sched a1 a2 rp s = path_search (\<lambda>i xs. xs) a1 a2 rp s" if "permuting sched" for sched
        by (rule path_search_any_order [OF graph]) (use that in \<open>simp_all add: permuting_def\<close>)
      ultimately show ?thesis using that by auto
    qed
    show ?thesis
    proof (cases "route = None \<or> route = Some []")
      case True
      then show ?thesis using False ps(1) prog
        by (intro exI [of _ r] exI [of _ s]) (auto simp: route_loop.simps [of _ _ _ _ _ _ breaker])
    next
      case nonempty: False
      then obtain nodes where nodes: "route = Some nodes" "nodes \<noteq> []" by auto
      obtain p where p: "reach_path s a1 p" "pt_nodes p = nodes" "path_end p = a2"
        using ps(2) nodes(1) by (auto simp: route_ok_def)
      have last: "last nodes = a2" using p nodes(2) by (simp add: path_end_def)
      let ?in = "\<lparr>v_amount = total_unfilled r, v_asset = a1\<rparr> :: asset_value"
      have loads: "frontier_load s (windows_pairs (v_asset ?in # nodes)) \<noteq> Inl e" for e
        using reach_path_frontier [OF graph p(1)] p(2) by auto
      have step: "?loop sched breaker r s = (case fill_route hash um ?in nodes spill s of
                Inl FillPanic \<Rightarrow> Inl Panic
              | Inl (ExecutionOverflow i) \<Rightarrow>
                  and_then (expect (close_position_by_id um i s)) (?loop sched (breaker_increment breaker) r)
              | Inl _ \<Rightarrow> Inl (Bail ''error filling route'')
              | Inr (se, s) \<Rightarrow>
                  if v_asset (se_output se) \<noteq> a2 \<or> v_asset (se_input se) \<noteq> a1 then Inl Panic
                  else (let r = track_execution se r in
                    if goes_on rp se r then ?loop sched (breaker_increment breaker) r s else Inr (r, s)))"
        if "permuting sched" for sched
        using False ps(1) [OF that] nodes by (simp add: route_loop.simps [of _ _ _ _ _ _ breaker])
      have fill_bound: "2 * tally (holdings k) (positions s) + unat (v_amount ?in) < 2 ^ 128" for k
        using progress_bound [OF prog room, of k] by simp
      have spec: "case fill_route hash um ?in nodes spill s of
          Inl e \<Rightarrow> nodes = [] \<and> e = InvalidRoute 1
            \<or> (\<exists>d. e = InsufficientLiquidity d \<and> frontier_load s (windows_pairs (v_asset ?in # nodes)) = Inl e)
            \<or> (\<exists>i p. e = ExecutionOverflow i \<and> positions s i = Some p \<and> p_state p = Opened)
        | Inr (se, t) \<Rightarrow> nodes \<noteq> [] \<and> routed s ?in nodes se t"
        by (rule fill_route_spec [OF graph_okD(1) [OF graph] graph_okD(2) [OF graph] fill_bound])
      show ?thesis
      proof (cases "fill_route hash um ?in nodes spill s")
        case (Inl e)
        with spec nodes(2) loads obtain i q where i: "e = ExecutionOverflow i" "positions s i = Some q" "p_state q = Opened" by auto
        obtain t where t: "close_position_by_id um i s = Inr t" "progress_ok hash s0 input a1 a2 r t"
          using progress_close [OF prog room i(2,3), of um] by blast
        show ?thesis using step t(1) IH [OF t(2)] by (auto simp: Inl i(1))
      next
        case (Inr x)
        obtain se t where x: "x = (se, t)" by fastforce
        have routed: "routed s ?in nodes se t" using spec unfolding Inr x by simp
        have track: "progress_ok hash s0 input a1 a2 (track_execution se r) t" by (rule progress_track [OF prog room routed last])
        have "v_asset (se_output se) = a2" "v_asset (se_input se) = a1" using routed last by (simp_all add: routed_def)
        then have "?loop sched breaker r s = (let q = track_execution se r in
              if goes_on rp se q then ?loop sched (breaker_increment breaker) q t else Inr (q, t))" if "permuting sched" for sched
          using step [OF that] by (simp add: Inr x Let_def)
        then show ?thesis using track IH [OF track] by (cases "goes_on rp se (track_execution se r)") (simp_all add: Let_def, blast)
      qed
    qed
  qed
qed

text \<open>What one call reports.\<close>

definition filled_by :: "(u8 list \<Rightarrow> u8 list) \<Rightarrow> dex_state \<Rightarrow> amount \<Rightarrow> asset_id \<Rightarrow> asset_id \<Rightarrow> amount \<Rightarrow> amount \<Rightarrow> dex_state \<Rightarrow> bool" where
  "filled_by hash s input a1 a2 consumed out t \<longleftrightarrow> graph_ok hash t \<and> same_books s t \<and> (\<forall>i. traded_to (positions s i) (positions t i))
     \<and> unat consumed \<le> unat input
     \<and> (\<forall>k. tally (holdings k) (positions t) + (if k = a2 then unat out else 0)
          = tally (holdings k) (positions s) + (if k = a1 then unat consumed else 0))"

lemma route_and_fill_spec:
  assumes ok: "graph_ok hash s" and room: "room_for s (unat input)"
  shows "\<exists>x t. (\<forall>sched. permuting sched \<longrightarrow> route_and_fill hash um sched a1 a2 input rp breaker s = Inr (x, t)) \<and> (case x of
      None \<Rightarrow> filled_by hash s input a1 a2 0 0 t
    | Some se \<Rightarrow> v_asset (se_input se) = a1 \<and> v_asset (se_output se) = a2 \<and> se_traces se \<noteq> [] \<and> [] \<notin> set (se_traces se)
        \<and> filled_by hash s input a1 a2 (v_amount (se_input se)) (v_amount (se_output se)) t)"
proof (cases "input = 0")
  case True
  with ok show ?thesis by (intro exI [of _ None] exI [of _ s]) (simp add: route_and_fill_def filled_by_def traded_to_def)
next
  case False
  let ?r = "\<lparr>total_unfilled = input, total_output = 0, all_traces = []\<rparr> :: fill_progress"
  have "progress_ok hash s input a1 a2 ?r s" using ok by (simp add: progress_ok_def traded_to_def)
  then have "\<exists>r t. (\<forall>sched. permuting sched \<longrightarrow> route_loop hash um sched a1 a2 rp breaker ?r s = Inr (r, t))
      \<and> progress_ok hash s input a1 a2 r t"
    by (rule route_loop_spec [OF room])
  then obtain r t where r: "\<And>sched. permuting sched \<Longrightarrow> route_loop hash um sched a1 a2 rp breaker ?r s = Inr (r, t)" "progress_ok hash s input a1 a2 r t" by blast
  have le: "unat (total_unfilled r) \<le> unat input" using r(2) by (simp add: progress_ok_def)
  have sub: "unat (input - total_unfilled r) = unat input - unat (total_unfilled r)" using le by (simp add: unat_sub_no_underflow word_le_nat_alt)
  show ?thesis
  proof (cases "all_traces r = []")
    case True
    then have "total_output r = 0" "total_unfilled r = input" using r(2) by (simp_all add: progress_ok_def)
    then have "tally (holdings k) (positions t) = tally (holdings k) (positions s)" for k
      using r(2) [unfolded progress_ok_def] by (auto split: if_splits)
    then have "filled_by hash s input a1 a2 0 0 t" using r(2) by (simp add: progress_ok_def filled_by_def)
    with True False r(1) show ?thesis by (intro exI [of _ None] exI [of _ t]) (simp add: route_and_fill_def)
  next
    case nonempty: False
    have "filled_by hash s input a1 a2 (input - total_unfilled r) (total_output r) t"
      using r(2) by (simp add: progress_ok_def filled_by_def sub)
    with nonempty False r show ?thesis
      by (intro exI [of _ "Some \<lparr>se_traces = all_traces r, se_input = \<lparr>v_amount = input - total_unfilled r, v_asset = a1\<rparr>,
            se_output = \<lparr>v_amount = total_output r, v_asset = a2\<rparr>\<rparr>"] exI [of _ t])
        (simp add: route_and_fill_def progress_ok_def)
  qed
qed

end
