(* ===== verification/BatchOutput.thy ===== *)
theory BatchOutput
  imports Position
begin

text \<open>
  The public result of a batch swap (\<open>crates/core/component/dex/src/batch_swap_output_data.rs\<close>)
  and the share of it that each swap claims. The position prefix in it is an index into the
  tiered commitment tree (\<open>crates/crypto/tct/src/index.rs\<close>, \<open>Position\<close> in \<open>tree.rs\<close>).
\<close>

section \<open>Indices into the tree\<close>

record tree_index =
  ix_epoch :: u16
  ix_block :: u16
  ix_commitment :: u16

definition tree_index_to_u64 :: "tree_index \<Rightarrow> u64" where
  "tree_index_to_u64 i = or (or (push_bit 32 (ucast (ix_epoch i))) (push_bit 16 (ucast (ix_block i)))) (ucast (ix_commitment i))"

definition tree_index_from_u64 :: "u64 \<Rightarrow> tree_index" where
  "tree_index_from_u64 p = \<lparr>ix_epoch = ucast (drop_bit 32 p), ix_block = ucast (drop_bit 16 p), ix_commitment = ucast p\<rparr>"

lemma tree_index_roundtrip: "tree_index_from_u64 (tree_index_to_u64 i) = i"
proof -
  have "ucast (drop_bit 32 (tree_index_to_u64 i)) = ix_epoch i" "ucast (drop_bit 16 (tree_index_to_u64 i)) = ix_block i"
    "ucast (tree_index_to_u64 i) = ix_commitment i"
    by (rule bit_word_eqI; auto simp: tree_index_to_u64_def bit_simps dest: bit_imp_le_length)+
  then show ?thesis by (simp add: tree_index_from_u64_def)
qed

section \<open>The output data\<close>

record batch_output =
  bo_delta_1 :: amount
  bo_delta_2 :: amount
  bo_lambda_1 :: amount
  bo_lambda_2 :: amount
  bo_unfilled_1 :: amount
  bo_unfilled_2 :: amount
  bo_height :: u64
  bo_pair :: trading_pair
  sct_prefix :: tree_index

definition pro_rata_outputs :: "batch_output \<Rightarrow> amount \<times> amount \<Rightarrow> (amount \<times> amount) result" where
  "pro_rata_outputs b = (\<lambda>(delta_1_i, delta_2_i).
     (let delta_1_i = fp_from_amount delta_1_i; delta_2_i = fp_from_amount delta_2_i;
          d1 = fp_from_amount (bo_delta_1 b); d2 = fp_from_amount (bo_delta_2 b);
          l1 = fp_from_amount (bo_lambda_1 b); l2 = fp_from_amount (bo_lambda_2 b);
          u1 = fp_from_amount (bo_unfilled_1 b); u2 = fp_from_amount (bo_unfilled_2 b);
          pro_rata_input_1 = unwrap_or (fp_checked_div delta_1_i d1) fp_default;
          pro_rata_input_2 = unwrap_or (fp_checked_div delta_2_i d2) fp_default;
          lambda_2_i = fp_checked_add (unwrap_or (fp_checked_mul pro_rata_input_1 l2) fp_default)
                                      (unwrap_or (fp_checked_mul pro_rata_input_2 u2) fp_default);
          lambda_1_i = fp_checked_add (unwrap_or (fp_checked_mul pro_rata_input_1 u1) fp_default)
                                      (unwrap_or (fp_checked_mul pro_rata_input_2 l1) fp_default)
      in and_then (expect (fp_try_into_amount (fp_round_down (unwrap_or lambda_1_i fp_default)))) (\<lambda>out_1.
         and_then (expect (fp_try_into_amount (fp_round_down (unwrap_or lambda_2_i fp_default)))) (\<lambda>out_2.
         Inr (out_1, out_2)))))"

section \<open>Encoding\<close>

record pb_batch_output =
  pb_delta_1 :: "pb_amount option"
  pb_delta_2 :: "pb_amount option"
  pb_lambda_1 :: "pb_amount option"
  pb_lambda_2 :: "pb_amount option"
  pb_unfilled_1 :: "pb_amount option"
  pb_unfilled_2 :: "pb_amount option"
  pb_bo_height :: u64
  pb_bo_pair :: "pb_trading_pair option"
  pb_sct_prefix :: u64
  pb_epoch_starting_height :: u64

definition batch_output_to_proto :: "batch_output \<Rightarrow> pb_batch_output" where
  "batch_output_to_proto b =
     \<lparr>pb_delta_1 = Some (amount_to_proto (bo_delta_1 b)), pb_delta_2 = Some (amount_to_proto (bo_delta_2 b)),
      pb_lambda_1 = Some (amount_to_proto (bo_lambda_1 b)), pb_lambda_2 = Some (amount_to_proto (bo_lambda_2 b)),
      pb_unfilled_1 = Some (amount_to_proto (bo_unfilled_1 b)), pb_unfilled_2 = Some (amount_to_proto (bo_unfilled_2 b)),
      pb_bo_height = bo_height b, pb_bo_pair = Some (pair_to_proto (bo_pair b)),
      pb_sct_prefix = tree_index_to_u64 (sct_prefix b), pb_epoch_starting_height = 0\<rparr>"

definition amount_field :: "pb_amount option \<Rightarrow> string \<Rightarrow> amount result" where
  "amount_field x msg = and_then (ok_or x (Bail msg)) amount_from_proto"

definition batch_output_from_proto :: "pb_batch_output \<Rightarrow> batch_output result" where
  "batch_output_from_proto s =
     (let prefix = tree_index_from_u64 (pb_sct_prefix s) in
      and_then (ensure (ix_commitment prefix = 0) ''sct_position_prefix.commitment() != 0'') (\<lambda>_.
      and_then (amount_field (pb_delta_1 s) ''Missing delta_1'') (\<lambda>d1.
      and_then (amount_field (pb_delta_2 s) ''Missing delta_2'') (\<lambda>d2.
      and_then (amount_field (pb_lambda_1 s) ''Missing lambda_1'') (\<lambda>l1.
      and_then (amount_field (pb_lambda_2 s) ''Missing lambda_2'') (\<lambda>l2.
      and_then (amount_field (pb_unfilled_1 s) ''Missing unfilled_1'') (\<lambda>u1.
      and_then (amount_field (pb_unfilled_2 s) ''Missing unfilled_2'') (\<lambda>u2.
      and_then (and_then (ok_or (pb_bo_pair s) (Bail ''Missing trading_pair'')) pair_from_proto) (\<lambda>pair.
      Inr \<lparr>bo_delta_1 = d1, bo_delta_2 = d2, bo_lambda_1 = l1, bo_lambda_2 = l2, bo_unfilled_1 = u1, bo_unfilled_2 = u2,
           bo_height = pb_bo_height s, bo_pair = pair, sct_prefix = prefix\<rparr>)))))))))"

section \<open>Shares\<close>

text \<open>The share of an input, as the raw fraction of \<open>2 ^ 128\<close> that the code computes.\<close>

definition share :: "amount \<Rightarrow> amount \<Rightarrow> nat" where
  "share d total_d = unat d * 2 ^ 128 div unat total_d"

lemma share_le: "share d total_d * unat total_d \<le> unat d * 2 ^ 128"
  by (simp add: share_def)

definition share_fraction :: "amount \<Rightarrow> amount \<Rightarrow> fixpoint" where
  "share_fraction d t = unwrap_or (fp_checked_div (fp_from_amount d) (fp_from_amount t)) fp_default"

lemma raw_share_le: "unat (raw (share_fraction d t)) \<le> share d t"
proof (cases "fp_checked_div (fp_from_amount d) (fp_from_amount t)")
  case (Inr z)
  then have "unat (raw z) = share d t" by (simp add: share_def result_simps mult.commute)
  with Inr show ?thesis by (simp add: share_fraction_def)
qed (simp add: share_fraction_def)

lemma fp_exists: "n < 2 ^ 256 \<Longrightarrow> \<exists>z. unat (raw z) = n"
  by (rule exI [of _ "U128x128 (of_nat n)"]) (simp add: unat_of_nat_small)

lemma raw_share:
  assumes "d \<le> t"
  shows "unat (raw (share_fraction d t)) = share d t" "share d t \<le> 2 ^ 128"
proof -
  show le: "share d t \<le> 2 ^ 128"
    using assms div_le_mono [of "unat d * 2 ^ 128" "unat t * 2 ^ 128" "unat t"]
    by (cases "unat t = 0") (simp_all add: share_def word_le_nat_alt)
  show "unat (raw (share_fraction d t)) = share d t"
  proof (cases "t = 0")
    case True
    then have "raw (fp_from_amount t) = 0" by (simp add: unat_eq_0 [symmetric])
    then show ?thesis by (simp add: True share_fraction_def share_def fp_checked_div_def stub_div_rem_u384_by_u256_def)
  next
    case False
    obtain z where z: "unat (raw z) = share d t" using fp_exists [of "share d t"] le by auto
    have "fp_checked_div (fp_from_amount d) (fp_from_amount t) = Inr z"
      using False z by (simp add: result_simps share_def unat_gt_0 mult.commute)
    then show ?thesis by (simp add: share_fraction_def z)
  qed
qed

lemma raw_mul_le: "unat (raw (unwrap_or (fp_checked_mul x (fp_from_amount a)) fp_default)) \<le> unat (raw x) * unat a"
proof (cases "fp_checked_mul x (fp_from_amount a)")
  case (Inr z)
  then have "unat (raw z) = unat (raw x) * unat a" by (simp add: result_simps)
  with Inr show ?thesis by simp
qed simp

lemma raw_mul_exact:
  "unat (raw x) * unat a < 2 ^ 256 \<Longrightarrow> unat (raw (unwrap_or (fp_checked_mul x (fp_from_amount a)) fp_default)) = unat (raw x) * unat a"
proof -
  assume "unat (raw x) * unat a < 2 ^ 256"
  then obtain z where z: "unat (raw z) = unat (raw x) * unat a" using fp_exists by blast
  then have "fp_checked_mul x (fp_from_amount a) = Inr z" by (simp add: result_simps)
  then show ?thesis by (simp add: z)
qed

lemma raw_add_le: "unat (raw (unwrap_or (fp_checked_add x y) fp_default)) \<le> unat (raw x) + unat (raw y)"
proof (cases "fp_checked_add x y")
  case (Inr z)
  then have "unat (raw z) = unat (raw x) + unat (raw y)" by (simp add: result_simps)
  with Inr show ?thesis by simp
qed simp

lemma raw_add_exact: "unat (raw x) + unat (raw y) < 2 ^ 256 \<Longrightarrow>
    unat (raw (unwrap_or (fp_checked_add x y) fp_default)) = unat (raw x) + unat (raw y)"
proof -
  assume "unat (raw x) + unat (raw y) < 2 ^ 256"
  then obtain z where z: "unat (raw z) = unat (raw x) + unat (raw y)" using fp_exists by blast
  then have "fp_checked_add x y = Inr z" by (simp add: result_simps)
  then show ?thesis by (simp add: z)
qed

text \<open>One side of a claim: a share of what was returned unfilled and a share of what the other side bought.\<close>

definition claim_side :: "fixpoint \<Rightarrow> amount \<Rightarrow> fixpoint \<Rightarrow> amount \<Rightarrow> fixpoint" where
  "claim_side x a y b = unwrap_or (fp_checked_add (unwrap_or (fp_checked_mul x (fp_from_amount a)) fp_default)
     (unwrap_or (fp_checked_mul y (fp_from_amount b)) fp_default)) fp_default"

definition rounded :: "fixpoint \<Rightarrow> amount" where
  "rounded x = hi_word (raw x)"

lemma rounded_total: "expect (fp_try_into_amount (fp_round_down x)) = Inr (rounded x)"
  by (simp add: result_simps rounded_def)

lemma pro_rata_alt: "pro_rata_outputs b (d1, d2) = Inr
    (rounded (claim_side (share_fraction d1 (bo_delta_1 b)) (bo_unfilled_1 b) (share_fraction d2 (bo_delta_2 b)) (bo_lambda_1 b)),
     rounded (claim_side (share_fraction d1 (bo_delta_1 b)) (bo_lambda_2 b) (share_fraction d2 (bo_delta_2 b)) (bo_unfilled_2 b)))"
  by (simp only: pro_rata_outputs_def Let_def split rounded_total and_then.simps claim_side_def share_fraction_def)

lemma claim_side_le:
  "unat (rounded (claim_side (share_fraction d1 t1) a (share_fraction d2 t2) b)) * 2 ^ 128 \<le> share d1 t1 * unat a + share d2 t2 * unat b"
proof -
  let ?x = "unwrap_or (fp_checked_mul (share_fraction d1 t1) (fp_from_amount a)) fp_default"
    and ?y = "unwrap_or (fp_checked_mul (share_fraction d2 t2) (fp_from_amount b)) fp_default"
  have "unat (rounded (claim_side (share_fraction d1 t1) a (share_fraction d2 t2) b)) * 2 ^ 128
      \<le> unat (raw (claim_side (share_fraction d1 t1) a (share_fraction d2 t2) b))"
    by (simp add: rounded_def)
  also have "\<dots> \<le> unat (raw ?x) + unat (raw ?y)"
    unfolding claim_side_def by (rule raw_add_le)
  also have "\<dots> \<le> share d1 t1 * unat a + share d2 t2 * unat b"
    using raw_mul_le [of "share_fraction d1 t1" a] raw_mul_le [of "share_fraction d2 t2" b]
      mult_le_mono1 [OF raw_share_le, of d1 t1 "unat a"] mult_le_mono1 [OF raw_share_le, of d2 t2 "unat b"]
    by linarith
  finally show ?thesis .
qed

lemma claim_side_exact:
  assumes "d1 \<le> t1" "d2 \<le> t2" "unat a + unat b < 2 ^ 128"
  shows "unat (rounded (claim_side (share_fraction d1 t1) a (share_fraction d2 t2) b))
    = (share d1 t1 * unat a + share d2 t2 * unat b) div 2 ^ 128"
proof -
  have 1: "share d1 t1 * unat a \<le> 2 ^ 128 * unat a" "share d2 t2 * unat b \<le> 2 ^ 128 * unat b"
    using raw_share(2) [OF assms(1)] raw_share(2) [OF assms(2)] by (simp_all only: mult_le_mono1)
  then have "share d1 t1 * unat a + share d2 t2 * unat b \<le> 2 ^ 128 * (unat a + unat b)"
    unfolding distrib_left by (rule add_mono)
  also have "\<dots> < 2 ^ 128 * 2 ^ 128" using assms(3) by (intro mult_strict_left_mono) simp_all
  finally have lt: "share d1 t1 * unat a + share d2 t2 * unat b < 2 ^ 256" by (simp flip: power_add)
  then have "unat (raw (claim_side (share_fraction d1 t1) a (share_fraction d2 t2) b)) = share d1 t1 * unat a + share d2 t2 * unat b"
    unfolding claim_side_def
    by (subst raw_add_exact; simp add: raw_mul_exact raw_share(1) [OF assms(1)] raw_share(1) [OF assms(2)])
  then show ?thesis by (simp add: rounded_def)
qed

section \<open>Properties\<close>

lemma share_sum_le:
  assumes "sum_list (map (\<lambda>c. unat (g c)) cs) \<le> unat t"
  shows "sum_list (map (\<lambda>c. share (g c) t) cs) \<le> 2 ^ 128"
proof -
  have "sum_list (map (\<lambda>c. share (g c) t) cs) * unat t \<le> sum_list (map (\<lambda>c. unat (g c)) cs) * 2 ^ 128"
  proof (induction cs)
    case (Cons c cs)
    then show ?case using share_le [of "g c" t] by (simp add: distrib_right)
  qed simp
  also have "\<dots> \<le> 2 ^ 128 * unat t" using assms by (simp add: mult.commute)
  finally have le: "sum_list (map (\<lambda>c. share (g c) t) cs) * unat t \<le> 2 ^ 128 * unat t" .
  show ?thesis
  proof (cases "unat t = 0")
    case True
    then show ?thesis by (simp add: share_def)
  qed (use le in simp)
qed

lemma side_sum_le:
  assumes "sum_list (map (\<lambda>c. unat (fst c)) cs) \<le> unat t1" "sum_list (map (\<lambda>c. unat (snd c)) cs) \<le> unat t2"
  shows "sum_list (map (\<lambda>c. unat (rounded (claim_side (share_fraction (fst c) t1) a (share_fraction (snd c) t2) b))) cs)
    \<le> unat a + unat b"
proof -
  let ?out = "\<lambda>c. unat (rounded (claim_side (share_fraction (fst c) t1) a (share_fraction (snd c) t2) b))"
  have "sum_list (map ?out cs) * 2 ^ 128
      \<le> sum_list (map (\<lambda>c. share (fst c) t1) cs) * unat a + sum_list (map (\<lambda>c. share (snd c) t2) cs) * unat b"
  proof (induction cs)
    case (Cons c cs)
    then show ?case using claim_side_le [of "fst c" t1 a "snd c" t2 b] by (simp add: distrib_right)
  qed simp
  also have "\<dots> \<le> 2 ^ 128 * unat a + 2 ^ 128 * unat b"
    using share_sum_le [OF assms(1)] share_sum_le [OF assms(2)] by (intro add_mono mult_le_mono1)
  finally show ?thesis by simp
qed

text \<open>C35: the shares of a batch swap never pay out more than the batch holds. For claims whose
  inputs add up to at most the batch inputs, every share is computed without a panic, and the
  outputs of all claims together are at most what the batch bought plus what it returned
  unfilled, in each of the two assets.\<close>

theorem pro_rata_bounded:
  assumes "sum_list (map (\<lambda>c. unat (fst c)) cs) \<le> unat (bo_delta_1 b)"
    and "sum_list (map (\<lambda>c. unat (snd c)) cs) \<le> unat (bo_delta_2 b)"
  shows "\<exists>outs. map (pro_rata_outputs b) cs = map Inr outs
    \<and> sum_list (map (\<lambda>x. unat (fst x)) outs) \<le> unat (bo_unfilled_1 b) + unat (bo_lambda_1 b)
    \<and> sum_list (map (\<lambda>x. unat (snd x)) outs) \<le> unat (bo_lambda_2 b) + unat (bo_unfilled_2 b)"
proof -
  let ?o = "\<lambda>(d1, d2). (rounded (claim_side (share_fraction d1 (bo_delta_1 b)) (bo_unfilled_1 b) (share_fraction d2 (bo_delta_2 b)) (bo_lambda_1 b)),
     rounded (claim_side (share_fraction d1 (bo_delta_1 b)) (bo_lambda_2 b) (share_fraction d2 (bo_delta_2 b)) (bo_unfilled_2 b)))"
  have "map (pro_rata_outputs b) cs = map Inr (map ?o cs)" by (auto simp: pro_rata_alt)
  with side_sum_le [OF assms, of "bo_unfilled_1 b" "bo_lambda_1 b"] side_sum_le [OF assms, of "bo_lambda_2 b" "bo_unfilled_2 b"]
  show ?thesis by (intro exI [of _ "map ?o cs"]) (simp add: o_def split_beta)
qed

definition demo_output :: batch_output where
  "demo_output = \<lparr>bo_delta_1 = 300, bo_delta_2 = 0, bo_lambda_1 = 0, bo_lambda_2 = 100, bo_unfilled_1 = 90, bo_unfilled_2 = 0,
     bo_height = 7, bo_pair = TradingPair (AssetId 1) (AssetId 2), sct_prefix = \<lparr>ix_epoch = 1, ix_block = 2, ix_commitment = 0\<rparr>\<rparr>"

theorem pro_rata_bounded_witness:
  "\<exists>outs. map (pro_rata_outputs demo_output) [(100, 0), (200, 0)] = map Inr outs
    \<and> sum_list (map (\<lambda>x. unat (fst x)) outs) \<le> 90 \<and> sum_list (map (\<lambda>x. unat (snd x)) outs) \<le> 100"
  using pro_rata_bounded [of "[(100, 0), (200, 0)]" demo_output] by (simp add: demo_output_def)

text \<open>the share of one claim is exact up to rounding: with inputs within the batch inputs and
  batch outputs that fit an amount together, each output is the sum of the two products of the
  claim's fractions, in units of \<open>2 ^ 128\<close> rounded down, with what they are fractions of,
  rounded down once more.\<close>

theorem pro_rata_exact:
  assumes "d1 \<le> bo_delta_1 b" "d2 \<le> bo_delta_2 b"
    and "unat (bo_unfilled_1 b) + unat (bo_lambda_1 b) < 2 ^ 128" "unat (bo_lambda_2 b) + unat (bo_unfilled_2 b) < 2 ^ 128"
  shows "\<exists>o1 o2. pro_rata_outputs b (d1, d2) = Inr (o1, o2)
    \<and> unat o1 = (unat d1 * 2 ^ 128 div unat (bo_delta_1 b) * unat (bo_unfilled_1 b)
         + unat d2 * 2 ^ 128 div unat (bo_delta_2 b) * unat (bo_lambda_1 b)) div 2 ^ 128
    \<and> unat o2 = (unat d1 * 2 ^ 128 div unat (bo_delta_1 b) * unat (bo_lambda_2 b)
         + unat d2 * 2 ^ 128 div unat (bo_delta_2 b) * unat (bo_unfilled_2 b)) div 2 ^ 128"
  using claim_side_exact [OF assms(1-3)] claim_side_exact [OF assms(1,2,4)]
  by (simp only: pro_rata_alt share_def) blast

theorem pro_rata_exact_witness:
  "\<exists>o1 o2. pro_rata_outputs demo_output (150, 0) = Inr (o1, o2) \<and> o1 = 45 \<and> o2 = 50"
  using pro_rata_exact [of 150 demo_output 0] by (auto simp: demo_output_def word_unat_eq_iff)

lemma batch_output_proto_roundtrip:
  assumes "ix_commitment (sct_prefix b) = 0" "trading_pair_new (asset_1 (bo_pair b)) (asset_2 (bo_pair b)) = bo_pair b"
  shows "batch_output_from_proto (batch_output_to_proto b) = Inr b"
  using assms by (simp add: batch_output_from_proto_def batch_output_to_proto_def Let_def tree_index_roundtrip
      amount_field_def amount_proto_roundtrip pair_from_proto_def pair_to_proto_def)

end
