(* ===== verification/Fees.thy ===== *)
theory Fees
  imports Balance
begin

text \<open>
  The fee component (\<open>crates/core/component/fee/src\<close>): fees and their tiers, gas vectors and gas
  prices, the parameters, and the state the component keeps: its parameters, the block's accumulator
  of base fees and tips per asset, and the mark that the gas prices changed. The
  staking token (\<open>STAKING_TOKEN_ASSET_ID\<close>, from the asset registry) is the parameter \<open>stk\<close>.
\<close>

section \<open>Fees\<close>

type_synonym fee = asset_value

datatype fee_tier = Low | Medium | High

definition FEE_TIER_LOW_MULTIPLIER :: u32 where "FEE_TIER_LOW_MULTIPLIER = 105"
definition FEE_TIER_MEDIUM_MULTIPLIER :: u32 where "FEE_TIER_MEDIUM_MULTIPLIER = 130"
definition FEE_TIER_HIGH_MULTIPLIER :: u32 where "FEE_TIER_HIGH_MULTIPLIER = 200"

definition from_staking_token_amount :: "asset_id \<Rightarrow> amount \<Rightarrow> fee" where
  "from_staking_token_amount stk a = \<lparr>v_amount = a, v_asset = stk\<rparr>"

definition fee_asset_matches :: "fee \<Rightarrow> fee \<Rightarrow> bool" where
  "fee_asset_matches x y \<longleftrightarrow> v_asset x = v_asset y"

definition fee_balance :: "fee \<Rightarrow> balance" where
  "fee_balance x = balance_neg (balance_from_value x)"

definition apply_tier :: "fee_tier \<Rightarrow> fee \<Rightarrow> fee" where
  "apply_tier tier x =
     (case tier of
        Low \<Rightarrow> x\<lparr>v_amount := v_amount x * ucast FEE_TIER_LOW_MULTIPLIER div 100\<rparr>
      | Medium \<Rightarrow> x\<lparr>v_amount := v_amount x * ucast FEE_TIER_MEDIUM_MULTIPLIER div 100\<rparr>
      | High \<Rightarrow> x\<lparr>v_amount := v_amount x * ucast FEE_TIER_HIGH_MULTIPLIER div 100\<rparr>)"

record pb_fee =
  pbf_amount :: "pb_amount option"
  pbf_asset :: "asset_id option"

definition fee_to_proto :: "asset_id \<Rightarrow> fee \<Rightarrow> pb_fee" where
  "fee_to_proto stk x =
     (if v_asset x = stk then \<lparr>pbf_amount = Some (amount_to_proto (v_amount x)), pbf_asset = None\<rparr>
      else \<lparr>pbf_amount = Some (amount_to_proto (v_amount x)), pbf_asset = Some (v_asset x)\<rparr>)"

definition fee_from_proto :: "asset_id \<Rightarrow> pb_fee \<Rightarrow> fee result" where
  "fee_from_proto stk p =
     (case pbf_asset p of
        Some k \<Rightarrow>
          and_then (and_then (ok_or (pbf_amount p) (Bail ''missing protobuf contents for Fee Amount'')) amount_from_proto)
            (\<lambda>a. Inr \<lparr>v_amount = a, v_asset = k\<rparr>)
      | None \<Rightarrow>
          and_then (and_then (ok_or (pbf_amount p) (Bail ''missing protobuf contents for Fee Amount'')) amount_from_proto)
            (\<lambda>a. Inr \<lparr>v_amount = a, v_asset = stk\<rparr>))"

fun show_tier :: "fee_tier \<Rightarrow> string" where
  "show_tier Low = ''low''"
| "show_tier Medium = ''medium''"
| "show_tier High = ''high''"

definition parse_tier :: "string \<Rightarrow> fee_tier result" where
  "parse_tier s =
     (if s = ''low'' then Inr Low else if s = ''medium'' then Inr Medium else if s = ''high'' then Inr High
      else Inl (Bail ''cannot parse as FeeTier''))"

text \<open>The protobuf tier is a number: 0 is unspecified, other numbers are unknown.\<close>

fun tier_to_proto :: "fee_tier \<Rightarrow> int" where
  "tier_to_proto Low = 1"
| "tier_to_proto Medium = 2"
| "tier_to_proto High = 3"

definition tier_from_proto :: "int \<Rightarrow> fee_tier result" where
  "tier_from_proto n =
     (if n = 1 then Inr Low else if n = 2 then Inr Medium else if n = 3 then Inr High
      else if n = 0 then Inl (Bail ''invalid fee tier'') else Inl (Bail ''unknown enumeration value''))"

section \<open>Gas\<close>

record gas =
  block_space :: u64
  compact_block_space :: u64
  verification :: u64
  execution :: u64

definition gas_zero :: gas where
  "gas_zero = \<lparr>block_space = 0, compact_block_space = 0, verification = 0, execution = 0\<rparr>"

definition gas_add :: "gas \<Rightarrow> gas \<Rightarrow> gas" where
  "gas_add x y = \<lparr>block_space = block_space x + block_space y,
     compact_block_space = compact_block_space x + compact_block_space y,
     verification = verification x + verification y, execution = execution x + execution y\<rparr>"

definition gas_sum :: "gas list \<Rightarrow> gas" where
  "gas_sum xs = foldl gas_add gas_zero xs"

record gas_prices =
  gp_asset :: asset_id
  block_space_price :: u64
  compact_block_space_price :: u64
  verification_price :: u64
  execution_price :: u64

definition gas_prices_default :: "asset_id \<Rightarrow> gas_prices" where
  "gas_prices_default stk = \<lparr>gp_asset = stk, block_space_price = 0, compact_block_space_price = 0,
     verification_price = 0, execution_price = 0\<rparr>"

definition gas_fee :: "gas_prices \<Rightarrow> gas \<Rightarrow> fee" where
  "gas_fee p g =
     (let amount = (block_space_price p * block_space g) div 1000
        + (compact_block_space_price p * compact_block_space g) div 1000
        + (verification_price p * verification g) div 1000
        + (execution_price p * execution g) div 1000
      in \<lparr>v_amount = ucast amount, v_asset = gp_asset p\<rparr>)"

record pb_gas_prices =
  pbg_asset :: "asset_id option"
  pbg_block_space :: u64
  pbg_compact_block_space :: u64
  pbg_verification :: u64
  pbg_execution :: u64

definition gas_prices_to_proto :: "asset_id \<Rightarrow> gas_prices \<Rightarrow> pb_gas_prices" where
  "gas_prices_to_proto stk p = \<lparr>pbg_asset = (if gp_asset p = stk then None else Some (gp_asset p)),
     pbg_block_space = block_space_price p, pbg_compact_block_space = compact_block_space_price p,
     pbg_verification = verification_price p, pbg_execution = execution_price p\<rparr>"

definition gas_prices_from_proto :: "asset_id \<Rightarrow> pb_gas_prices \<Rightarrow> gas_prices result" where
  "gas_prices_from_proto stk p = Inr \<lparr>gp_asset = get_or (pbg_asset p) stk,
     block_space_price = pbg_block_space p, compact_block_space_price = pbg_compact_block_space p,
     verification_price = pbg_verification p, execution_price = pbg_execution p\<rparr>"

section \<open>Parameters\<close>

record fee_parameters =
  fixed_gas_prices :: gas_prices
  fixed_alt_gas_prices :: "gas_prices list"

record pb_fee_parameters =
  pbp_fixed :: "pb_gas_prices option"
  pbp_alt :: "pb_gas_prices list"

definition pb_gas_prices_default :: pb_gas_prices where
  "pb_gas_prices_default = \<lparr>pbg_asset = None, pbg_block_space = 0, pbg_compact_block_space = 0, pbg_verification = 0, pbg_execution = 0\<rparr>"

fun collect_results :: "('a \<Rightarrow> 'b result) \<Rightarrow> 'a list \<Rightarrow> 'b list result" where
  "collect_results f [] = Inr []"
| "collect_results f (x # xs) = and_then (f x) (\<lambda>y. and_then (collect_results f xs) (\<lambda>ys. Inr (y # ys)))"

definition fee_params_from_proto :: "asset_id \<Rightarrow> pb_fee_parameters \<Rightarrow> fee_parameters result" where
  "fee_params_from_proto stk m =
     and_then (gas_prices_from_proto stk (get_or (pbp_fixed m) pb_gas_prices_default)) (\<lambda>fixed.
     and_then (collect_results (gas_prices_from_proto stk) (pbp_alt m)) (\<lambda>alt.
     Inr \<lparr>fixed_gas_prices = fixed, fixed_alt_gas_prices = alt\<rparr>))"

definition fee_params_to_proto :: "asset_id \<Rightarrow> fee_parameters \<Rightarrow> pb_fee_parameters" where
  "fee_params_to_proto stk ps = \<lparr>pbp_fixed = Some (gas_prices_to_proto stk (fixed_gas_prices ps)),
     pbp_alt = map (gas_prices_to_proto stk) (fixed_alt_gas_prices ps)\<rparr>"

section \<open>The state\<close>

record fee_state =
  fee_params :: "fee_parameters option"
  fee_accumulator :: "(asset_id, amount \<times> amount) btree"
  gas_prices_changed :: bool

definition fee_empty :: fee_state where
  "fee_empty = \<lparr>fee_params = None, fee_accumulator = [], gas_prices_changed = False\<rparr>"

definition get_fee_params :: "fee_state \<Rightarrow> fee_parameters result" where
  "get_fee_params s = ok_or (fee_params s) (Bail ''Missing FeeParameters'')"

definition get_gas_prices :: "fee_state \<Rightarrow> gas_prices result" where
  "get_gas_prices s = and_then (get_fee_params s) (\<lambda>ps. Inr (fixed_gas_prices ps))"

definition get_alt_gas_prices :: "fee_state \<Rightarrow> gas_prices list result" where
  "get_alt_gas_prices s = and_then (get_fee_params s) (\<lambda>ps. Inr (fixed_alt_gas_prices ps))"

definition put_fee_params :: "fee_parameters \<Rightarrow> fee_state \<Rightarrow> fee_state" where
  "put_fee_params ps s = s\<lparr>fee_params := Some ps, gas_prices_changed := True\<rparr>"

definition take_accumulated_base_fees_and_tips :: "fee_state \<Rightarrow> (asset_id, amount \<times> amount) btree \<times> fee_state" where
  "take_accumulated_base_fees_and_tips s = (fee_accumulator s, s\<lparr>fee_accumulator := []\<rparr>)"

definition raw_accumulate_base_fee :: "fee \<Rightarrow> fee_state \<Rightarrow> fee_state" where
  "raw_accumulate_base_fee base_fee s =
     s\<lparr>fee_accumulator := bt_insert (v_asset base_fee)
        (case bt_get (fee_accumulator s) (v_asset base_fee) of
           Some (base, tip) \<Rightarrow> (base + v_amount base_fee, tip)
         | None \<Rightarrow> (v_amount base_fee, amount_zero)) (fee_accumulator s)\<rparr>"

definition raw_accumulate_tip :: "fee \<Rightarrow> fee_state \<Rightarrow> fee_state" where
  "raw_accumulate_tip tip_fee s =
     s\<lparr>fee_accumulator := bt_insert (v_asset tip_fee)
        (case bt_get (fee_accumulator s) (v_asset tip_fee) of
           Some (base, tip) \<Rightarrow> (base, tip + v_amount tip_fee)
         | None \<Rightarrow> (amount_zero, v_amount tip_fee)) (fee_accumulator s)\<rparr>"

definition pay_fee :: "asset_id \<Rightarrow> gas \<Rightarrow> fee \<Rightarrow> fee_state \<Rightarrow> fee_state result" where
  "pay_fee stk gas_used x s =
     and_then (if v_asset x = stk then expect (get_gas_prices s)
               else and_then (expect (get_alt_gas_prices s)) (\<lambda>alt.
                    ok_or (find (\<lambda>p. gp_asset p = v_asset x) alt) (Bail ''fee token not recognized by the chain''))) (\<lambda>prices.
     and_then (ensure (gp_asset prices = v_asset x) ''unexpected mismatch between fee and queried gas prices'') (\<lambda>_.
     let base_fee = gas_fee prices gas_used in
     and_then (ensure (v_amount x \<ge> v_amount base_fee) ''fee must be greater than or equal to the transaction base price'') (\<lambda>_.
     let tip = \<lparr>v_amount = v_amount x - v_amount base_fee, v_asset = v_asset x\<rparr>
     in Inr (raw_accumulate_tip tip (raw_accumulate_base_fee base_fee s)))))"

definition fee_init_chain :: "fee_parameters option \<Rightarrow> fee_state \<Rightarrow> fee_state" where
  "fee_init_chain app_state s = (case app_state of Some ps \<Rightarrow> put_fee_params ps s | None \<Rightarrow> s)"

text \<open>The event at the end of a block: the total, base fees and tips in the staking token.\<close>

definition fee_end_block :: "asset_id \<Rightarrow> fee_state \<Rightarrow> fee \<times> fee \<times> fee" where
  "fee_end_block stk s =
     (let (base, tip) = get_or (bt_get (fee_accumulator s) stk) (amount_zero, amount_zero) in
      (from_staking_token_amount stk (base + tip), from_staking_token_amount stk base, from_staking_token_amount stk tip))"


section \<open>Encodings\<close>

lemma fee_proto_roundtrip: "fee_from_proto stk (fee_to_proto stk x) = Inr x"
  by (simp add: fee_from_proto_def fee_to_proto_def)

lemma tier_roundtrips: "parse_tier (show_tier t) = Inr t" "tier_from_proto (tier_to_proto t) = Inr t"
  by (cases t; simp add: parse_tier_def tier_from_proto_def)+

lemma gas_prices_proto_roundtrip: "gas_prices_from_proto stk (gas_prices_to_proto stk p) = Inr p"
  by (simp add: gas_prices_from_proto_def gas_prices_to_proto_def)

lemma collect_results_map: "(\<And>x. f (g x) = Inr x) \<Longrightarrow> collect_results f (map g xs) = Inr xs"
  by (induction xs) simp_all

lemma fee_params_proto_roundtrip: "fee_params_from_proto stk (fee_params_to_proto stk ps) = Inr ps"
  by (simp add: fee_params_from_proto_def fee_params_to_proto_def gas_prices_proto_roundtrip collect_results_map)

section \<open>What a payment does\<close>

text \<open>The price of the gas, over the natural numbers.\<close>

definition gas_charge :: "gas_prices \<Rightarrow> gas \<Rightarrow> nat" where
  "gas_charge p g = unat (block_space_price p) * unat (block_space g) div 1000
     + unat (compact_block_space_price p) * unat (compact_block_space g) div 1000
     + unat (verification_price p) * unat (verification g) div 1000
     + unat (execution_price p) * unat (execution g) div 1000"

definition gas_fits :: "gas_prices \<Rightarrow> gas \<Rightarrow> bool" where
  "gas_fits p g \<longleftrightarrow> unat (block_space_price p) * unat (block_space g) < 2 ^ 64
     \<and> unat (compact_block_space_price p) * unat (compact_block_space g) < 2 ^ 64
     \<and> unat (verification_price p) * unat (verification g) < 2 ^ 64
     \<and> unat (execution_price p) * unat (execution g) < 2 ^ 64"

lemma unat_mul_div_1000: "unat a * unat b < 2 ^ 64 \<Longrightarrow> unat (a * b div 1000) = unat a * unat b div 1000" for a b :: u64
  by (simp add: unat_div unat_mul_no_overflow)

lemma gas_fee_exact:
  assumes "gas_fits p g"
  shows "unat (v_amount (gas_fee p g)) = gas_charge p g" "v_asset (gas_fee p g) = gp_asset p"
proof -
  let ?q = "\<lambda>a b :: u64. unat a * unat b div 1000"
  have small: "?q a b \<le> 2 ^ 64 div 1000" if "unat a * unat b < 2 ^ 64" for a b :: u64
    using that by (intro div_le_mono) simp
  note f = assms [unfolded gas_fits_def]
  note s = small [OF conjunct1 [OF f]] small [OF conjunct1 [OF conjunct2 [OF f]]]
    small [OF conjunct1 [OF conjunct2 [OF conjunct2 [OF f]]]] small [OF conjunct2 [OF conjunct2 [OF conjunct2 [OF f]]]]
  show "unat (v_amount (gas_fee p g)) = gas_charge p g"
    using f s by (simp add: gas_fee_def gas_charge_def unat_ucast_up unat_mul_div_1000 unat_add_no_overflow)
  show "v_asset (gas_fee p g) = gp_asset p" by (simp add: gas_fee_def)
qed

text \<open>The prices that apply to a fee in an asset.\<close>

definition prices_for :: "asset_id \<Rightarrow> fee_parameters \<Rightarrow> asset_id \<Rightarrow> gas_prices option" where
  "prices_for stk ps k = (if k = stk then Some (fixed_gas_prices ps) else find (\<lambda>p. gp_asset p = k) (fixed_alt_gas_prices ps))"

definition collected_base :: "fee_state \<Rightarrow> asset_id \<Rightarrow> nat" where
  "collected_base s k = unat (fst (get_or (bt_get (fee_accumulator s) k) (0, 0)))"

definition collected_tip :: "fee_state \<Rightarrow> asset_id \<Rightarrow> nat" where
  "collected_tip s k = unat (snd (get_or (bt_get (fee_accumulator s) k) (0, 0)))"

lemma accumulate_base:
  assumes "bt_wf (fee_accumulator s)" "collected_base s (v_asset x) + unat (v_amount x) < 2 ^ 128"
  shows "collected_base (raw_accumulate_base_fee x s) k = collected_base s k + (if k = v_asset x then unat (v_amount x) else 0)"
    "collected_tip (raw_accumulate_base_fee x s) k = collected_tip s k"
  using assms by (auto simp: collected_base_def collected_tip_def raw_accumulate_base_fee_def unat_add_no_overflow split: option.splits)

lemma accumulate_tip:
  assumes "bt_wf (fee_accumulator s)" "collected_tip s (v_asset x) + unat (v_amount x) < 2 ^ 128"
  shows "collected_tip (raw_accumulate_tip x s) k = collected_tip s k + (if k = v_asset x then unat (v_amount x) else 0)"
    "collected_base (raw_accumulate_tip x s) k = collected_base s k"
  using assms by (auto simp: collected_base_def collected_tip_def raw_accumulate_tip_def unat_add_no_overflow split: option.splits)

lemma accumulate_wf:
  "bt_wf (fee_accumulator s) \<Longrightarrow> bt_wf (fee_accumulator (raw_accumulate_base_fee x s))"
  "bt_wf (fee_accumulator s) \<Longrightarrow> bt_wf (fee_accumulator (raw_accumulate_tip x s))"
  "fee_params (raw_accumulate_base_fee x s) = fee_params s" "fee_params (raw_accumulate_tip x s) = fee_params s"
  by (simp_all add: raw_accumulate_base_fee_def raw_accumulate_tip_def)

text \<open>The branches of \<open>pay_fee\<close>.\<close>

lemma pay_fee_cases:
  "pay_fee stk g x s = (case fee_params s of None \<Rightarrow> Inl Panic | Some ps \<Rightarrow>
     (case prices_for stk ps (v_asset x) of None \<Rightarrow> Inl (Bail ''fee token not recognized by the chain'')
      | Some p \<Rightarrow>
         if gp_asset p \<noteq> v_asset x then Inl (Bail ''unexpected mismatch between fee and queried gas prices'')
         else if v_amount x < v_amount (gas_fee p g) then Inl (Bail ''fee must be greater than or equal to the transaction base price'')
         else Inr (raw_accumulate_tip \<lparr>v_amount = v_amount x - v_amount (gas_fee p g), v_asset = v_asset x\<rparr>
                (raw_accumulate_base_fee (gas_fee p g) s))))"
  by (auto simp: pay_fee_def prices_for_def get_gas_prices_def get_alt_gas_prices_def get_fee_params_def Let_def ensure_def not_le
      split: option.split)

lemma pay_fee_accounts:
  assumes "pay_fee stk g x s = Inr t" "bt_wf (fee_accumulator s)"
    and "collected_base s (v_asset x) + collected_tip s (v_asset x) + unat (v_amount x) < 2 ^ 128"
  shows "bt_wf (fee_accumulator t)" "fee_params t = fee_params s"
    "\<exists>ps p. fee_params s = Some ps \<and> prices_for stk ps (v_asset x) = Some p \<and> v_amount (gas_fee p g) \<le> v_amount x
      \<and> (\<forall>k. collected_base t k = collected_base s k + (if k = v_asset x then unat (v_amount (gas_fee p g)) else 0)
           \<and> collected_tip t k = collected_tip s k + (if k = v_asset x then unat (v_amount x) - unat (v_amount (gas_fee p g)) else 0))"
proof -
  obtain ps p where p: "fee_params s = Some ps" "prices_for stk ps (v_asset x) = Some p" "gp_asset p = v_asset x"
    "v_amount (gas_fee p g) \<le> v_amount x"
    "t = raw_accumulate_tip \<lparr>v_amount = v_amount x - v_amount (gas_fee p g), v_asset = v_asset x\<rparr> (raw_accumulate_base_fee (gas_fee p g) s)"
    using assms(1) by (auto simp: pay_fee_cases not_less split: option.splits if_splits)
  show "bt_wf (fee_accumulator t)" "fee_params t = fee_params s" using p(5) assms(2) by (simp_all add: accumulate_wf)
  let ?u = "raw_accumulate_base_fee (gas_fee p g) s" and ?tip = "\<lparr>v_amount = v_amount x - v_amount (gas_fee p g), v_asset = v_asset x\<rparr>"
  have k: "v_asset (gas_fee p g) = v_asset x" using p(3) by (simp add: gas_fee_def)
  have le: "unat (v_amount (gas_fee p g)) \<le> unat (v_amount x)" using p(4) by (simp add: word_le_nat_alt)
  then have tip: "unat (v_amount x - v_amount (gas_fee p g)) = unat (v_amount x) - unat (v_amount (gas_fee p g))"
    by (simp add: unat_sub_no_underflow word_le_nat_alt)
  have base: "collected_base ?u k = collected_base s k + (if k = v_asset x then unat (v_amount (gas_fee p g)) else 0)"
    "collected_tip ?u k = collected_tip s k" for k
    using accumulate_base [OF assms(2), of "gas_fee p g"] assms(3) le unfolding \<open>v_asset (gas_fee p g) = v_asset x\<close> by simp_all
  have "bt_wf (fee_accumulator ?u)" by (rule accumulate_wf(1) [OF assms(2)])
  moreover have "collected_tip ?u (v_asset ?tip) + unat (v_amount ?tip) < 2 ^ 128" using base(2) tip assms(3) by simp
  ultimately have "collected_tip t k = collected_tip s k + (if k = v_asset x then unat (v_amount x) - unat (v_amount (gas_fee p g)) else 0)
      \<and> collected_base t k = collected_base s k + (if k = v_asset x then unat (v_amount (gas_fee p g)) else 0)" for k
    using accumulate_tip [of ?u ?tip k] base [of k] tip unfolding p(5) by simp
  with p show "\<exists>ps p. fee_params s = Some ps \<and> prices_for stk ps (v_asset x) = Some p \<and> v_amount (gas_fee p g) \<le> v_amount x
      \<and> (\<forall>k. collected_base t k = collected_base s k + (if k = v_asset x then unat (v_amount (gas_fee p g)) else 0)
           \<and> collected_tip t k = collected_tip s k + (if k = v_asset x then unat (v_amount x) - unat (v_amount (gas_fee p g)) else 0))"
    by blast
qed


section \<open>Properties\<close>

text \<open>a payment is accepted exactly when the chain quotes gas prices in the asset of the fee and the
  fee covers the price of the gas, each resource rounded down to a unit of the token; with the parameters in the state
  it never panics.\<close>

theorem pay_fee_accepts:
  assumes "fee_params s = Some ps" "\<And>p. prices_for stk ps (v_asset x) = Some p \<Longrightarrow> gas_fits p g"
  shows "((\<exists>t. pay_fee stk g x s = Inr t) \<longleftrightarrow>
      (\<exists>p. prices_for stk ps (v_asset x) = Some p \<and> gp_asset p = v_asset x \<and> gas_charge p g \<le> unat (v_amount x)))
    \<and> pay_fee stk g x s \<noteq> Inl Panic"
proof (cases "prices_for stk ps (v_asset x)")
  case None
  then show ?thesis using assms(1) by (simp add: pay_fee_cases)
next
  case (Some p)
  have "v_amount x < v_amount (gas_fee p g) \<longleftrightarrow> unat (v_amount x) < gas_charge p g"
    using gas_fee_exact(1) [OF assms(2) [OF Some]] by (simp add: word_less_nat_alt)
  then show ?thesis using assms(1) Some by (simp add: pay_fee_cases not_less)
qed

definition demo_prices :: "asset_id \<Rightarrow> gas_prices" where
  "demo_prices k = \<lparr>gp_asset = k, block_space_price = 10, compact_block_space_price = 100, verification_price = 0, execution_price = 7\<rparr>"

definition demo_gas :: gas where
  "demo_gas = \<lparr>block_space = 1500, compact_block_space = 320, verification = 1000, execution = 1200\<rparr>"

definition demo_fee_state :: fee_state where
  "demo_fee_state = fee_init_chain (Some \<lparr>fixed_gas_prices = demo_prices (AssetId 0), fixed_alt_gas_prices = [demo_prices (AssetId 1)]\<rparr>) fee_empty"

lemma demo_gas_fits: "gas_fits (demo_prices k) demo_gas" "gas_charge (demo_prices k) demo_gas = 55"
  by (simp_all add: gas_fits_def gas_charge_def demo_prices_def demo_gas_def)

lemma demo_fee_params: "fee_params demo_fee_state =
    Some \<lparr>fixed_gas_prices = demo_prices (AssetId 0), fixed_alt_gas_prices = [demo_prices (AssetId 1)]\<rparr>"
  by (simp add: demo_fee_state_def fee_init_chain_def put_fee_params_def)

theorem pay_fee_accepts_witness:
  "(\<exists>t. pay_fee (AssetId 0) demo_gas \<lparr>v_amount = 55, v_asset = AssetId 1\<rparr> demo_fee_state = Inr t)
    \<and> \<not> (\<exists>t. pay_fee (AssetId 0) demo_gas \<lparr>v_amount = 54, v_asset = AssetId 1\<rparr> demo_fee_state = Inr t)"
proof -
  have "(\<exists>t. pay_fee (AssetId 0) demo_gas \<lparr>v_amount = a, v_asset = AssetId 1\<rparr> demo_fee_state = Inr t) \<longleftrightarrow> 55 \<le> unat a" for a
  proof -
    let ?x = "\<lparr>v_amount = a, v_asset = AssetId 1\<rparr>"
    let ?ps = "\<lparr>fixed_gas_prices = demo_prices (AssetId 0), fixed_alt_gas_prices = [demo_prices (AssetId 1)]\<rparr>"
    have prices: "prices_for (AssetId 0) ?ps (v_asset ?x) = Some (demo_prices (AssetId 1))"
      by (simp add: prices_for_def) (simp add: demo_prices_def)
    have "((\<exists>t. pay_fee (AssetId 0) demo_gas ?x demo_fee_state = Inr t) \<longleftrightarrow>
        (\<exists>p. prices_for (AssetId 0) ?ps (v_asset ?x) = Some p \<and> gp_asset p = v_asset ?x \<and> gas_charge p demo_gas \<le> unat (v_amount ?x)))
      \<and> pay_fee (AssetId 0) demo_gas ?x demo_fee_state \<noteq> Inl Panic"
      by (rule pay_fee_accepts [OF demo_fee_params]) (use prices demo_gas_fits(1) in simp)
    with prices show ?thesis by (simp add: demo_gas_fits(2)) (simp add: demo_prices_def)
  qed
  then show ?thesis by simp
qed

definition paid_in :: "asset_id \<Rightarrow> (gas \<times> fee) list \<Rightarrow> nat" where
  "paid_in k ps = (\<Sum>(g, x) \<leftarrow> ps. if v_asset x = k then unat (v_amount x) else 0)"

definition charged_in :: "asset_id \<Rightarrow> fee_parameters \<Rightarrow> asset_id \<Rightarrow> (gas \<times> fee) list \<Rightarrow> nat" where
  "charged_in stk ps k xs = (\<Sum>(g, x) \<leftarrow> xs. if v_asset x = k then
     (case prices_for stk ps k of Some p \<Rightarrow> unat (v_amount (gas_fee p g)) | None \<Rightarrow> 0) else 0)"

definition pay_fees :: "asset_id \<Rightarrow> (gas \<times> fee) list \<Rightarrow> fee_state \<Rightarrow> fee_state result" where
  "pay_fees stk = try_fold (\<lambda>(g, x). pay_fee stk g x)"

lemma pay_fees_accounts:
  assumes "pay_fees stk xs s = Inr t" "bt_wf (fee_accumulator s)" "fee_params s = Some ps"
    and "\<And>k. collected_base s k + collected_tip s k + paid_in k xs < 2 ^ 128"
  shows "collected_base t k + collected_tip t k = collected_base s k + collected_tip s k + paid_in k xs
    \<and> collected_base t k = collected_base s k + charged_in stk ps k xs"
  using assms
proof (induction xs arbitrary: s)
  case Nil
  then show ?case by (simp add: pay_fees_def paid_in_def charged_in_def)
next
  case (Cons gx xs)
  obtain g x where gx: "gx = (g, x)" by fastforce
  obtain u where u: "pay_fee stk g x s = Inr u" "pay_fees stk xs u = Inr t"
    using Cons.prems(1) by (auto simp: pay_fees_def gx and_then_Inr_iff)
  have sum: "paid_in k (gx # xs) = (if v_asset x = k then unat (v_amount x) else 0) + paid_in k xs" for k
    by (simp add: paid_in_def gx)
  have small: "collected_base s (v_asset x) + collected_tip s (v_asset x) + unat (v_amount x) < 2 ^ 128"
    using Cons.prems(4) [of "v_asset x"] by (simp add: sum)
  note one = pay_fee_accounts [OF u(1) Cons.prems(2) small]
  obtain p where p: "prices_for stk ps (v_asset x) = Some p" "unat (v_amount (gas_fee p g)) \<le> unat (v_amount x)"
    "collected_base u k = collected_base s k + (if k = v_asset x then unat (v_amount (gas_fee p g)) else 0)"
    "collected_tip u k = collected_tip s k + (if k = v_asset x then unat (v_amount x) - unat (v_amount (gas_fee p g)) else 0)" for k
    using one(3) Cons.prems(3) by (auto simp: word_le_nat_alt)
  have step: "collected_base u k + collected_tip u k = collected_base s k + collected_tip s k + (if v_asset x = k then unat (v_amount x) else 0)" for k
    using p(2) p(3) [of k] p(4) [of k] by simp
  have "collected_base u k + collected_tip u k + paid_in k xs < 2 ^ 128" for k
    using Cons.prems(4) [of k] by (simp add: step sum)
  moreover have "fee_params u = Some ps" using one(2) Cons.prems(3) by simp
  ultimately have "collected_base t k + collected_tip t k = collected_base u k + collected_tip u k + paid_in k xs
      \<and> collected_base t k = collected_base u k + charged_in stk ps k xs"
    using Cons.IH [OF u(2) one(1)] by blast
  moreover have "charged_in stk ps k (gx # xs) = (if k = v_asset x then unat (v_amount (gas_fee p g)) else 0) + charged_in stk ps k xs"
    using p(1) by (auto simp: charged_in_def gx)
  ultimately show ?case using step [of k] p(3) [of k] sum [of k] by linarith
qed

text \<open>the fees of a block are accounted for. After any sequence of accepted payments from an empty accumulator the base fees and
  tips collected in an asset add up to exactly the fees paid in it, as long as these fit in 128 bits, the
  base fees are the sum of what the payments were charged, and taking them leaves the accumulator empty.\<close>

theorem block_fees_accounted:
  assumes "pay_fees stk xs s = Inr t" "fee_accumulator s = []" "fee_params s = Some ps" "\<And>k. paid_in k xs < 2 ^ 128"
  shows "collected_base t k + collected_tip t k = paid_in k xs \<and> collected_base t k = charged_in stk ps k xs
    \<and> fee_accumulator (snd (take_accumulated_base_fees_and_tips t)) = []"
proof -
  have zero: "collected_base s k = 0" "collected_tip s k = 0" for k
    using assms(2) by (simp_all add: collected_base_def collected_tip_def bt_get_def)
  show ?thesis
    using pay_fees_accounts [OF assms(1) _ assms(3), of k] assms(2,4)
    by (simp add: zero take_accumulated_base_fees_and_tips_def)
qed

lemma paid_in_bound: "paid_in k xs \<le> (\<Sum>(g, x) \<leftarrow> xs. unat (v_amount x))"
  by (induction xs) (auto simp: paid_in_def intro: add_mono)

theorem block_fees_accounted_witness:
  "\<exists>t. pay_fees (AssetId 0) [(demo_gas, \<lparr>v_amount = 60, v_asset = AssetId 0\<rparr>), (demo_gas, \<lparr>v_amount = 55, v_asset = AssetId 0\<rparr>)] demo_fee_state = Inr t
    \<and> collected_base t (AssetId 0) = 110 \<and> collected_tip t (AssetId 0) = 5"
proof -
  let ?ps = "\<lparr>fixed_gas_prices = demo_prices (AssetId 0), fixed_alt_gas_prices = [demo_prices (AssetId 1)]\<rparr>"
  let ?xs = "[(demo_gas, \<lparr>v_amount = 60, v_asset = AssetId 0\<rparr>), (demo_gas, \<lparr>v_amount = 55, v_asset = AssetId 0\<rparr>)] :: (gas \<times> fee) list"
  have empty: "fee_accumulator demo_fee_state = []" by (simp add: demo_fee_state_def fee_init_chain_def put_fee_params_def fee_empty_def)
  have charge: "unat (v_amount (gas_fee (demo_prices (AssetId 0)) demo_gas)) = 55"
    by (simp add: gas_fee_exact demo_gas_fits)
  then have charge': "v_amount (gas_fee (demo_prices (AssetId 0)) demo_gas) = 55"
    by (simp add: word_unat_eq_iff)
  have "\<exists>t. pay_fees (AssetId 0) ?xs demo_fee_state = Inr t"
    by (simp add: pay_fees_def pay_fee_cases demo_fee_params prices_for_def charge' accumulate_wf)
      (simp add: demo_prices_def)
  then obtain t where t: "pay_fees (AssetId 0) ?xs demo_fee_state = Inr t" ..
  have "collected_base t k + collected_tip t k = paid_in k ?xs \<and> collected_base t k = charged_in (AssetId 0) ?ps k ?xs
      \<and> fee_accumulator (snd (take_accumulated_base_fees_and_tips t)) = []" for k
  proof (rule block_fees_accounted [OF t empty demo_fee_params])
    show "paid_in k ?xs < 2 ^ 128" for k using paid_in_bound [of k ?xs] by simp
  qed
  from this [of "AssetId 0"] t charge show ?thesis
    by (auto simp: paid_in_def charged_in_def prices_for_def)
qed

end
