(* ===== verification/BatchSwap.thy ===== *)
theory BatchSwap
  imports RouteAndFill BatchOutput Fees
begin

text \<open>
  Batch swaps (\<open>crates/core/component/dex/src/component\<close>: \<open>swap_manager.rs\<close>, \<open>dex.rs\<close>,
  \<open>router/route_and_fill.rs\<close>, \<open>arb.rs\<close>, \<open>action_handler/swap.rs\<close>, \<open>swap_claim.rs\<close>): the swaps of
  a block accumulate into one flow per trading pair, and the end of the block fills each flow along the routes, publishes the
  outputs, claims the fees that were paid in other assets, extracts the arbitrage, evicts and closes positions.

  The state joins that of the DEX and that of the fee component. The insertion of a commitment into
  the state commitment tree belongs to another component: the handler takes its result. Block height and epoch
  are those of the clock. \<open>um\<close> is the staking token.
\<close>

section \<open>The state\<close>

type_synonym swap_flow = "amount \<times> amount"

record swap_payload =
  sp_commitment :: nat
  sp_encrypted :: "u8 list"

type_synonym tx_id = "u8 list"

record batch_state =
  bs_dex :: dex_state
  bs_fees :: fee_state
  swap_flows :: "(trading_pair, swap_flow) btree"
  pending_outputs :: "(trading_pair, batch_output) btree"
  pending_payloads :: "(tree_index \<times> swap_payload \<times> tx_id) list"
  output_data :: "u64 \<times> trading_pair \<Rightarrow> batch_output option"
  swap_executions :: "u64 \<times> directed_pair \<Rightarrow> swap_execution option"
  arb_executions :: "u64 \<Rightarrow> swap_execution option"
  bs_height :: u64
  bs_epoch_start :: u64

definition batch_genesis :: "dex_parameters \<Rightarrow> fee_parameters \<Rightarrow> batch_state" where
  "batch_genesis ps fps = \<lparr>bs_dex = dex_init_chain (Some ps) dex_empty, bs_fees = fee_init_chain (Some fps) fee_empty,
     swap_flows = [], pending_outputs = [], pending_payloads = [], output_data = \<lambda>_. None, swap_executions = \<lambda>_. None,
     arb_executions = \<lambda>_. None, bs_height = 0, bs_epoch_start = 0\<rparr>"

section \<open>Swaps\<close>

definition swap_flow_of :: "trading_pair \<Rightarrow> batch_state \<Rightarrow> swap_flow" where
  "swap_flow_of pair s = get_or (bt_get (swap_flows s) pair) (0, 0)"

definition accumulate_swap_flow :: "trading_pair \<Rightarrow> swap_flow \<Rightarrow> batch_state \<Rightarrow> batch_state result" where
  "accumulate_swap_flow pair flow s =
     and_then (dex_vcb_credit \<lparr>v_amount = fst flow, v_asset = asset_1 pair\<rparr> (bs_dex s)) (\<lambda>d.
     and_then (dex_vcb_credit \<lparr>v_amount = snd flow, v_asset = asset_2 pair\<rparr> d) (\<lambda>d.
     Inr (s\<lparr>bs_dex := d, swap_flows := bt_insert pair
       (case bt_get (swap_flows s) pair of
          Some old \<Rightarrow> (fst old + fst flow, snd old + snd flow)
        | None \<Rightarrow> flow) (swap_flows s)\<rparr>)))"

definition add_swap_payload :: "swap_payload \<Rightarrow> tree_index result \<Rightarrow> tx_id \<Rightarrow> batch_state \<Rightarrow> batch_state result" where
  "add_swap_payload payload inserted source s =
     and_then (expect inserted) (\<lambda>position.
     Inr (s\<lparr>pending_payloads := pending_payloads s @ [(position, payload, source)]\<rparr>))"

definition put_swap_execution_at_height :: "u64 \<Rightarrow> directed_pair \<Rightarrow> swap_execution \<Rightarrow> batch_state \<Rightarrow> batch_state" where
  "put_swap_execution_at_height height pair se s = s\<lparr>swap_executions := (swap_executions s)((height, pair) := Some se)\<rparr>"

record swap_body =
  sw_pair :: trading_pair
  sw_delta_1 :: amount
  sw_delta_2 :: amount
  sw_fee_commitment :: nat
  sw_payload :: swap_payload

text \<open>\<open>verified\<close> is the outcome of the verification of the zero-knowledge proof.\<close>

definition swap_check_stateless :: "unit result \<Rightarrow> swap_body \<Rightarrow> unit result" where
  "swap_check_stateless verified b =
     (if asset_1 (sw_pair b) = asset_2 (sw_pair b) then Inl (Bail ''Trading pair must be distinct'') else verified)"

definition swap_execute :: "tree_index result \<Rightarrow> tx_id option \<Rightarrow> swap_body \<Rightarrow> batch_state \<Rightarrow> batch_state result" where
  "swap_execute inserted current_source b s =
     and_then (get_dex_params (bs_dex s)) (\<lambda>ps.
     and_then (ensure (is_enabled ps) ''Dex MUST be enabled to process swap actions.'') (\<lambda>_.
     and_then (accumulate_swap_flow (sw_pair b) (sw_delta_1 b, sw_delta_2 b) s) (\<lambda>s.
     and_then (expect_some current_source) (\<lambda>source.
     and_then (add_swap_payload (sw_payload b) inserted source s) (\<lambda>s.
     Inr (s\<lparr>bs_dex := add_recently_accessed_asset (asset_2 (sw_pair b)) (fixed_candidates ps)
                        (add_recently_accessed_asset (asset_1 (sw_pair b)) (fixed_candidates ps) (bs_dex s))\<rparr>))))))"

text \<open>The balance of a swap: what it puts in; the commitment to its pre-paid fee is separate.\<close>

definition swap_balance :: "swap_body \<Rightarrow> balance \<times> balance" where
  "swap_balance b = (balance_neg (balance_from_value \<lparr>v_amount = sw_delta_1 b, v_asset = asset_1 (sw_pair b)\<rparr>),
     balance_neg (balance_from_value \<lparr>v_amount = sw_delta_2 b, v_asset = asset_2 (sw_pair b)\<rparr>))"

text \<open>A claim is checked against the epoch duration and the output data that the chain stored.\<close>

definition swap_claim_check_historical :: "u64 result \<Rightarrow> u64 \<Rightarrow> batch_output \<Rightarrow> batch_state \<Rightarrow> unit result" where
  "swap_claim_check_historical epoch_duration provided_duration provided s =
     and_then epoch_duration (\<lambda>duration.
     if duration \<noteq> provided_duration then Inl (Bail ''provided epoch duration does not match chain epoch duration'')
     else and_then (ok_or (output_data s (bo_height provided, bo_pair provided)) (Bail ''output data not found'')) (\<lambda>stored.
       if stored \<noteq> provided then Inl (Bail ''provided output data does not match chain output data'') else Inr ()))"

definition swap_claim_balance :: "fee \<Rightarrow> balance" where
  "swap_claim_balance x = balance_from_value x"

section \<open>The outputs of a batch\<close>

definition set_output_data :: "batch_output \<Rightarrow> swap_execution option \<Rightarrow> swap_execution option \<Rightarrow> batch_state \<Rightarrow> batch_state result" where
  "set_output_data out se_12 se_21 s =
     and_then (dex_vcb_debit \<lparr>v_amount = bo_unfilled_1 out + bo_lambda_1 out, v_asset = asset_1 (bo_pair out)\<rparr> (bs_dex s)) (\<lambda>d.
     and_then (dex_vcb_debit \<lparr>v_amount = bo_unfilled_2 out + bo_lambda_2 out, v_asset = asset_2 (bo_pair out)\<rparr> d) (\<lambda>d.
     let height = bo_height out; pair = bo_pair out;
         s = s\<lparr>bs_dex := d, output_data := (output_data s)((height, pair) := Some out)\<rparr>;
         s = (case se_12 of Some se \<Rightarrow> put_swap_execution_at_height height (DirectedPair (asset_1 pair) (asset_2 pair)) se s | None \<Rightarrow> s);
         s = (case se_21 of Some se \<Rightarrow> put_swap_execution_at_height height (DirectedPair (asset_2 pair) (asset_1 pair)) se s | None \<Rightarrow> s)
     in Inr (s\<lparr>pending_outputs := bt_insert pair out (pending_outputs s)\<rparr>)))"

definition set_arb_execution :: "u64 \<Rightarrow> swap_execution \<Rightarrow> batch_state \<Rightarrow> batch_state" where
  "set_arb_execution height se s = s\<lparr>arb_executions := (arb_executions s)(height := Some se)\<rparr>"

text \<open>\<open>Chandelier::record_swap_execution\<close>.\<close>

definition record_swap_execution :: "swap_execution \<Rightarrow> dex_state \<Rightarrow> dex_state result" where
  "record_swap_execution se d =
     (if v_amount (se_output se) = 0 \<or> v_amount (se_input se) = 0 then Inr d
      else (let pair = DirectedPair (v_asset (se_input se)) (v_asset (se_output se)) in
        and_then (expect (fp_ratio (fp_from_amount (v_amount (se_output se))) (fp_from_amount (v_amount (se_input se))))) (\<lambda>price.
        let volume = fp_from_amount (v_amount (se_input se))
        in Inr (d\<lparr>block_executions := (block_executions d)(pair := block_executions d pair @ [(price, None, Some volume)])\<rparr>))))"

definition u16_try_from :: "u64 \<Rightarrow> u16 result" where
  "u16_try_from x = (if unat x < 2 ^ 16 then Inr (ucast x) else Inl (Bail ''out of range integral type conversion attempted''))"

definition filled_amounts :: "amount \<Rightarrow> swap_execution option \<Rightarrow> amount \<times> amount" where
  "filled_amounts delta x = (case x of
     Some se \<Rightarrow> (v_amount (se_output se), delta - v_amount (se_input se))
   | None \<Rightarrow> (0, delta))"

definition record_opt :: "swap_execution option \<Rightarrow> dex_state \<Rightarrow> dex_state result" where
  "record_opt x d = (case x of Some se \<Rightarrow> record_swap_execution se d | None \<Rightarrow> Inr d)"

definition handle_batch_swaps :: "(u8 list \<Rightarrow> u8 list) \<Rightarrow> asset_id \<Rightarrow> (nat \<Rightarrow> path list \<Rightarrow> path list) \<Rightarrow> trading_pair \<Rightarrow> swap_flow
    \<Rightarrow> u64 \<Rightarrow> routing_params \<Rightarrow> u32 \<Rightarrow> batch_state \<Rightarrow> (batch_output \<times> batch_state) result" where
  "handle_batch_swaps hash um sched pair flow height rp budget s =
     (let (delta_1, delta_2) = flow; breaker = breaker_new budget;
          clamped_1 = min delta_1 MAX_RESERVE_AMOUNT; clamped_2 = min delta_2 MAX_RESERVE_AMOUNT in
      and_then (route_and_fill hash um sched (asset_1 pair) (asset_2 pair) clamped_1 rp breaker (bs_dex s)) (\<lambda>(se_12, d).
      and_then (route_and_fill hash um sched (asset_2 pair) (asset_1 pair) clamped_2 rp breaker d) (\<lambda>(se_21, d).
      let (lambda_2, unfilled_1) = filled_amounts delta_1 se_12;
          (lambda_1, unfilled_2) = filled_amounts delta_2 se_21 in
      and_then (expect (u16_try_from (epoch_index d))) (\<lambda>epoch.
      and_then (expect (u16_try_from (height - bs_epoch_start s))) (\<lambda>block.
      let out = \<lparr>bo_delta_1 = delta_1, bo_delta_2 = delta_2, bo_lambda_1 = lambda_1, bo_lambda_2 = lambda_2,
                 bo_unfilled_1 = unfilled_1, bo_unfilled_2 = unfilled_2, bo_height = height, bo_pair = pair,
                 sct_prefix = \<lparr>ix_epoch = epoch, ix_block = block, ix_commitment = 0\<rparr>\<rparr> in
      and_then (record_opt se_12 d) (\<lambda>d.
      and_then (record_opt se_21 d) (\<lambda>d.
      and_then (set_output_data out se_12 se_21 (s\<lparr>bs_dex := d\<rparr>)) (\<lambda>s.
      Inr (out, s)))))))))"

section \<open>Arbitrage\<close>

definition FLASH_LOAN :: amount where
  "FLASH_LOAN = 2 ^ 64 - 1"

text \<open>The trade runs on a fork of the state, which is dropped unless there is a profit. An error
  leaves the state that was reached, which is why the state is returned beside the outcome.\<close>

definition arbitrage :: "(u8 list \<Rightarrow> u8 list) \<Rightarrow> asset_id \<Rightarrow> (nat \<Rightarrow> path list \<Rightarrow> path list) \<Rightarrow> asset_id \<Rightarrow> routing_params
    \<Rightarrow> batch_state \<Rightarrow> asset_value option result \<times> batch_state" where
  "arbitrage hash um sched arb_token rp s =
     (case get_dex_params (bs_dex s) of
        Inl e \<Rightarrow> (Inl e, s)
      | Inr ps \<Rightarrow>
          (case route_and_fill hash um sched arb_token arb_token FLASH_LOAN rp (breaker_new (max_execution_budget ps)) (bs_dex s) of
             Inl e \<Rightarrow> (Inl e, s)
           | Inr (None, d) \<Rightarrow> (Inr None, s)
           | Inr (Some se, d) \<Rightarrow>
               (let filled_input = v_amount (se_input se); output = v_amount (se_output se) in
                case amount_checked_sub FLASH_LOAN filled_input of
                  None \<Rightarrow> (Inl Panic, s)
                | Some unfilled_input \<Rightarrow>
                    (case amount_checked_sub (output + unfilled_input) FLASH_LOAN of
                       None \<Rightarrow> (Inr None, s)
                     | Some arb_profit \<Rightarrow>
                         if arb_profit = 0 then (Inr None, s)
                         else (let s = set_arb_execution (bs_height s)
                                 \<lparr>se_traces = se_traces se, se_input = \<lparr>v_amount = filled_input, v_asset = arb_token\<rparr>,
                                  se_output = \<lparr>v_amount = filled_input + arb_profit, v_asset = arb_token\<rparr>\<rparr> (s\<lparr>bs_dex := d\<rparr>);
                                 profit = \<lparr>v_amount = arb_profit, v_asset = arb_token\<rparr> in
                           case dex_vcb_debit profit (bs_dex s) of
                             Inl e \<Rightarrow> (Inl e, s)
                           | Inr d \<Rightarrow> (Inr (Some profit), s\<lparr>bs_dex := d\<rparr>))))))"

section \<open>The end of a block\<close>

type_synonym fee_map = "(asset_id, amount \<times> amount) btree"

definition fee_flow :: "asset_id \<Rightarrow> asset_id \<Rightarrow> amount \<Rightarrow> swap_flow" where
  "fee_flow um k amt = (if asset_1 (trading_pair_new k um) = k then (amt, 0) else (0, amt))"

definition add_fee_flow :: "asset_id \<Rightarrow> asset_id \<times> amount \<times> amount \<Rightarrow> batch_state \<Rightarrow> batch_state result" where
  "add_fee_flow um = (\<lambda>(k, base_fee, tip) s.
     if k = um then Inr s
     else expect (accumulate_swap_flow (trading_pair_new k um) (fee_flow um k (base_fee + tip)) s))"

definition add_fee_flows :: "asset_id \<Rightarrow> fee_map \<Rightarrow> batch_state \<Rightarrow> batch_state result" where
  "add_fee_flows um fees = try_fold (add_fee_flow um) fees"

definition height_of :: "int \<Rightarrow> u64 result" where
  "height_of h = (if 0 \<le> h \<and> h < 2 ^ 64 then Inr (word_of_int h) else Inl (Bail ''height is part of the end block data''))"

definition handle_flow :: "(u8 list \<Rightarrow> u8 list) \<Rightarrow> asset_id \<Rightarrow> (nat \<Rightarrow> path list \<Rightarrow> path list) \<Rightarrow> dex_parameters \<Rightarrow> int
    \<Rightarrow> trading_pair \<times> swap_flow \<Rightarrow> (trading_pair, batch_output) btree \<times> batch_state
    \<Rightarrow> ((trading_pair, batch_output) btree \<times> batch_state) result" where
  "handle_flow hash um sched ps h = (\<lambda>(pair, flow) (bsods, s).
     and_then (expect (height_of h)) (\<lambda>height.
     and_then (expect (handle_batch_swaps hash um sched pair flow height
         (with_extra_candidates [asset_1 pair, asset_2 pair] (routing_params_of ps)) (max_execution_budget ps) s)) (\<lambda>(out, s).
     Inr (bt_insert pair out bsods, s))))"

definition accumulate_staking_fees :: "asset_id \<Rightarrow> amount \<Rightarrow> amount \<Rightarrow> batch_state \<Rightarrow> batch_state" where
  "accumulate_staking_fees um base tip s = s\<lparr>bs_fees := raw_accumulate_tip (from_staking_token_amount um tip)
     (raw_accumulate_base_fee (from_staking_token_amount um base) (bs_fees s))\<rparr>"

definition claim_fee :: "asset_id \<Rightarrow> (trading_pair, batch_output) btree \<Rightarrow> asset_id \<times> amount \<times> amount \<Rightarrow> batch_state \<Rightarrow> batch_state result" where
  "claim_fee um bsods = (\<lambda>(k, base_fee, tip) s.
     if k = um then Inr (accumulate_staking_fees um base_fee tip s)
     else (let pair = trading_pair_new k um in
       and_then (expect_some (bt_get bsods pair)) (\<lambda>bsod.
       let (base_input, tip_input) = (if asset_1 pair = k then ((base_fee, 0), (tip, 0)) else ((0, base_fee), (0, tip))) in
       and_then (pro_rata_outputs bsod base_input) (\<lambda>base_output.
       and_then (pro_rata_outputs bsod tip_input) (\<lambda>tip_output.
       let (swapped_base, swapped_tip) = (if asset_1 pair = k then (snd base_output, snd tip_output)
                                          else (fst base_output, fst tip_output))
       in Inr (accumulate_staking_fees um swapped_base swapped_tip s))))))"

definition claim_fees :: "asset_id \<Rightarrow> (trading_pair, batch_output) btree \<Rightarrow> fee_map \<Rightarrow> batch_state \<Rightarrow> batch_state result" where
  "claim_fees um bsods fees = try_fold (claim_fee um bsods) fees"

definition arb_routing_params :: "dex_parameters \<Rightarrow> dex_state \<Rightarrow> routing_params" where
  "arb_routing_params ps d = \<lparr>price_limit = Some (fp_from_u64 1),
     rp_candidates = fixed_candidates ps @ map fst (recent_assets d), rp_max_hops = unat (max_hops ps) + 2\<rparr>"

text \<open>The hook. An error of the arbitrage is logged and ignored. So is one of the eviction, with whatever it had closed
  until then; that branch, which \<open>end_block_settles\<close> shows is not taken, ends the model's run instead.\<close>

definition dex_end_block :: "(u8 list \<Rightarrow> u8 list) \<Rightarrow> asset_id \<Rightarrow> (nat \<Rightarrow> path list \<Rightarrow> path list) \<Rightarrow> int \<Rightarrow> batch_state \<Rightarrow> batch_state result" where
  "dex_end_block hash um sched h s =
     (let (fees, fs) = take_accumulated_base_fees_and_tips (bs_fees s) in
      and_then (add_fee_flows um fees (s\<lparr>bs_fees := fs\<rparr>)) (\<lambda>s.
      and_then (expect (get_dex_params (bs_dex s))) (\<lambda>ps.
      and_then (try_fold (handle_flow hash um sched ps h) (swap_flows s) ([], s)) (\<lambda>(bsods, s).
      and_then (claim_fees um bsods fees s) (\<lambda>s.
      case arbitrage hash um sched um (arb_routing_params ps (bs_dex s)) s of
        (Inl Panic, s) \<Rightarrow> Inl Panic
      | (_, s) \<Rightarrow>
          and_then (evict_positions um (bs_dex s)) (\<lambda>d.
          and_then (expect (close_queued_positions um d)) (\<lambda>d.
          Inr (s\<lparr>bs_dex := d\<rparr>))))))))"

end
