(* ===== verification/BatchInvariant.thy ===== *)
theory BatchInvariant
  imports BatchSwap DexMachine
begin

text \<open>
  The block machine keeps the books: the circuit breaker covers, asset by asset, the reserves of
  the positions and the flows that wait for the end of the block, and the end of the block succeeds.
\<close>

section \<open>Pending flows\<close>

definition flow_at :: "asset_id \<Rightarrow> trading_pair \<times> swap_flow \<Rightarrow> nat" where
  "flow_at k = (\<lambda>(t, f). (if asset_1 t = k then unat (fst f) else 0) + (if asset_2 t = k then unat (snd f) else 0))"

definition pending_in :: "asset_id \<Rightarrow> (trading_pair \<times> swap_flow) list \<Rightarrow> nat" where
  "pending_in k fs = sum_list (map (flow_at k) fs)"

lemma pending_simps [simp]:
  "pending_in k [] = 0" "pending_in k (x # fs) = flow_at k x + pending_in k fs"
  by (simp_all add: pending_in_def)

lemma pending_insert:
  "bt_wf m \<Longrightarrow> pending_in k (bt_insert t f m) + flow_at k (t, get_or (bt_get m t) (0, 0)) = pending_in k m + flow_at k (t, f)"
proof (induction t f m rule: bt_insert.induct)
  case (1 t f)
  then show ?case by (simp add: bt_get_def flow_at_def)
next
  case (2 t f t' f' m)
  have none: "map_of m x = None" if "x \<le> t'" for x
    using 2(2) that by (auto simp: bt_wf_Cons map_of_eq_None_iff)
  consider "t < t'" | "t = t'" | "t' < t" by (rule linorder_cases)
  then show ?case
  proof cases
    case 1
    moreover from 1 have "t \<noteq> t'" by simp
    ultimately show ?thesis using none [of t] by (simp add: bt_get_def flow_at_def)
  next
    case 2
    then show ?thesis by (simp add: bt_get_def)
  next
    case 3
    then have "\<not> t < t'" "t \<noteq> t'" by auto
    with "2.IH" "2.prems" show ?thesis by (simp add: bt_get_def bt_wf_Cons)
  qed
qed

lemma flow_le_pending: "bt_wf m \<Longrightarrow> bt_get m t = Some f \<Longrightarrow> flow_at k (t, f) \<le> pending_in k m"
  unfolding bt_get_def pending_in_def by (auto dest!: map_of_SomeD intro!: member_le_sum_list)

section \<open>The invariant\<close>

definition covered :: "dex_state \<Rightarrow> (asset_id \<Rightarrow> nat) \<Rightarrow> bool" where
  "covered d n \<longleftrightarrow> (\<forall>k. tally (holdings k) (positions d) + n k \<le> vcb_balance d k)"

definition queue_opened :: "dex_state \<Rightarrow> bool" where
  "queue_opened d \<longleftrightarrow> (\<forall>i \<in> set (pending_closures d). \<exists>p. positions d i = Some p \<and> p_state p = Opened)"

definition batch_inv :: "(u8 list \<Rightarrow> u8 list) \<Rightarrow> batch_state \<Rightarrow> bool" where
  "batch_inv hash s \<longleftrightarrow> graph_ok hash (bs_dex s) \<and> dex_params (bs_dex s) \<noteq> None
     \<and> covered (bs_dex s) (\<lambda>k. pending_in k (swap_flows s)) \<and> bt_wf (swap_flows s) \<and> queue_opened (bs_dex s)
     \<and> bt_wf (fee_accumulator (bs_fees s))"

lemma batch_invD:
  assumes "batch_inv hash s"
  shows "graph_ok hash (bs_dex s)" "dex_params (bs_dex s) \<noteq> None" "covered (bs_dex s) (\<lambda>k. pending_in k (swap_flows s))"
    "bt_wf (swap_flows s)" "queue_opened (bs_dex s)" "bt_wf (fee_accumulator (bs_fees s))" "dex_inv hash (bs_dex s)"
proof -
  show *: "graph_ok hash (bs_dex s)" "dex_params (bs_dex s) \<noteq> None" "covered (bs_dex s) (\<lambda>k. pending_in k (swap_flows s))"
    "bt_wf (swap_flows s)" "queue_opened (bs_dex s)" "bt_wf (fee_accumulator (bs_fees s))"
    using assms by (simp_all add: batch_inv_def)
  have "solvent (bs_dex s)" unfolding solvent_def
  proof
    show "tally (holdings k) (positions (bs_dex s)) \<le> vcb_balance (bs_dex s) k" for k
      using *(3) [unfolded covered_def, rule_format, of k] by simp
  qed
  with * show "dex_inv hash (bs_dex s)" by (simp add: dex_inv_def graph_ok_def)
qed

text \<open>What crediting and debiting leave alone.\<close>

definition same_but_vcb :: "dex_state \<Rightarrow> dex_state \<Rightarrow> bool" where
  "same_but_vcb d e \<longleftrightarrow> same_indexes d e \<and> dex_params e = dex_params d \<and> epoch_index e = epoch_index d
     \<and> pending_closures e = pending_closures d \<and> recent_assets e = recent_assets d \<and> active_pairs e = active_pairs d"

lemma same_but_vcb_trans: "same_but_vcb c d \<Longrightarrow> same_but_vcb d e \<Longrightarrow> same_but_vcb c e"
  by (simp add: same_but_vcb_def same_indexes_def)

lemma vcb_same:
  "dex_vcb_credit v d = Inr e \<Longrightarrow> same_but_vcb d e" "dex_vcb_debit v d = Inr e \<Longrightarrow> same_but_vcb d e"
  by (auto simp: dex_vcb_credit_Inr_iff dex_vcb_debit_Inr_iff put_vcb_def same_but_vcb_def same_indexes_def split: if_splits)

lemma same_but_vcb_keeps:
  assumes "same_but_vcb d e"
  shows "positions e = positions d" "graph_ok hash e = graph_ok hash d" "queue_opened e = queue_opened d" "dex_params e = dex_params d"
  using assms indexes_ok_same [of d e] by (auto simp: same_but_vcb_def same_indexes_def graph_ok_def queue_opened_def)

lemma nat_amount_at: "nat (amount_at v k) = (if v_asset v = k then unat (v_amount v) else 0)"
  by (simp add: eq_commute [of k] nat_uint_eq)

lemma credit_balance: "dex_vcb_credit v d = Inr e \<Longrightarrow> vcb_balance e k = vcb_balance d k + (if v_asset v = k then unat (v_amount v) else 0)"
  by (drule credit_effect(2) [where k = k]) (simp only: nat_amount_at)

lemma debit_balance: "dex_vcb_debit v d = Inr e \<Longrightarrow> vcb_balance d k = vcb_balance e k + (if v_asset v = k then unat (v_amount v) else 0)"
  by (drule debit_effect(2) [where k = k]) (simp only: nat_amount_at)

section \<open>Accumulating flows\<close>

lemma accumulate_effect:
  assumes acc: "accumulate_swap_flow pair f s = Inr t" and wf: "bt_wf (swap_flows s)"
    and cov: "covered (bs_dex s) (\<lambda>k. pending_in k (swap_flows s))"
  shows "same_but_vcb (bs_dex s) (bs_dex t)" "vcb_balance (bs_dex t) k = vcb_balance (bs_dex s) k + flow_at k (pair, f)"
    "bt_wf (swap_flows t)" "covered (bs_dex t) (\<lambda>k. pending_in k (swap_flows t))"
    "bs_fees t = bs_fees s" "\<exists>d x. t = s\<lparr>bs_dex := d, swap_flows := bt_insert pair x (swap_flows s)\<rparr>"
    "pending_in k (swap_flows t) = pending_in k (swap_flows s) + flow_at k (pair, f)"
proof -
  let ?old = "get_or (bt_get (swap_flows s) pair) (0, 0)"
  let ?new = "(fst ?old + fst f, snd ?old + snd f)"
  obtain d e where d: "dex_vcb_credit \<lparr>v_amount = fst f, v_asset = asset_1 pair\<rparr> (bs_dex s) = Inr d"
    and e: "dex_vcb_credit \<lparr>v_amount = snd f, v_asset = asset_2 pair\<rparr> d = Inr e"
    and t: "t = s\<lparr>bs_dex := e, swap_flows := bt_insert pair ?new (swap_flows s)\<rparr>"
    using acc by (auto simp: accumulate_swap_flow_def and_then_Inr_iff split: option.splits)
  show "same_but_vcb (bs_dex s) (bs_dex t)" using same_but_vcb_trans [OF vcb_same(1) [OF d] vcb_same(1) [OF e]] by (simp add: t)
  have bal: "vcb_balance e k = vcb_balance (bs_dex s) k + flow_at k (pair, f)" for k
    using credit_balance [OF d, of k] credit_balance [OF e, of k] by (auto simp: flow_at_def)
  then show "vcb_balance (bs_dex t) k = vcb_balance (bs_dex s) k + flow_at k (pair, f)" by (simp add: t)
  show wf': "bt_wf (swap_flows t)" using wf by (simp add: t)
  have old: "flow_at k (pair, ?old) \<le> vcb_balance (bs_dex s) k" for k
  proof (cases "bt_get (swap_flows s) pair")
    case (Some g)
    show ?thesis using flow_le_pending [OF wf Some, of k] cov [unfolded covered_def, rule_format, of k] Some by simp
  qed (simp add: flow_at_def)
  have "flow_at k (pair, ?old) + flow_at k (pair, f) < 2 ^ 128" for k
    using old [of k] bal [of k] vcb_less [of e k] by simp
  from this [of "asset_1 pair"] this [of "asset_2 pair"]
  have "unat (fst ?old + fst f) = unat (fst ?old) + unat (fst f)" "unat (snd ?old + snd f) = unat (snd ?old) + unat (snd f)"
    by (auto simp: flow_at_def unat_add_no_overflow split: if_splits)
  then have "flow_at k (pair, ?new) = flow_at k (pair, ?old) + flow_at k (pair, f)" for k
    by (simp add: flow_at_def)
  then have pend: "pending_in k (swap_flows t) = pending_in k (swap_flows s) + flow_at k (pair, f)" for k
    using pending_insert [OF wf, of k pair ?new] by (simp add: t)
  then show "pending_in k (swap_flows t) = pending_in k (swap_flows s) + flow_at k (pair, f)" .
  have pos: "positions e = positions (bs_dex s)"
    using same_but_vcb_keeps(1) [OF same_but_vcb_trans [OF vcb_same(1) [OF d] vcb_same(1) [OF e]]] .
  show "covered (bs_dex t) (\<lambda>k. pending_in k (swap_flows t))"
    unfolding covered_def pend
  proof
    show "tally (holdings k) (positions (bs_dex t)) + (pending_in k (swap_flows s) + flow_at k (pair, f)) \<le> vcb_balance (bs_dex t) k" for k
      using cov [unfolded covered_def, rule_format, of k] bal [of k] pos by (simp add: t)
  qed
  show "bs_fees t = bs_fees s" "\<exists>d x. t = s\<lparr>bs_dex := d, swap_flows := bt_insert pair x (swap_flows s)\<rparr>" using t by auto
qed

lemma accumulate_total:
  assumes "\<And>k. vcb_balance (bs_dex s) k + flow_at k (pair, f) < 2 ^ 128"
  shows "\<exists>t. accumulate_swap_flow pair f s = Inr t"
proof -
  let ?v = "\<lparr>v_amount = fst f, v_asset = asset_1 pair\<rparr>" and ?w = "\<lparr>v_amount = snd f, v_asset = asset_2 pair\<rparr>"
  obtain d where d: "dex_vcb_credit ?v (bs_dex s) = Inr d"
    using credit_total [of "bs_dex s" ?v] assms [of "asset_1 pair"] by (auto simp: flow_at_def)
  have "vcb_balance d (asset_2 pair) + unat (snd f) < 2 ^ 128"
    using credit_balance [OF d, of "asset_2 pair"] assms [of "asset_2 pair"] by (auto simp: flow_at_def)
  then obtain e where "dex_vcb_credit ?w d = Inr e" using credit_total [of d ?w] by auto
  with d show ?thesis by (auto simp: accumulate_swap_flow_def)
qed

section \<open>One batch\<close>

lemma amount_ratio_total: "m \<noteq> 0 \<Longrightarrow> \<exists>z. fp_ratio (fp_from_amount n) (fp_from_amount m) = Inr z"
proof -
  assume m: "m \<noteq> 0"
  have "unat n * 2 ^ 128 div unat m \<le> unat n * 2 ^ 128" by simp
  also have "\<dots> < 2 ^ 256" using u128_less [of n] by simp
  finally obtain z where "unat (raw z) = unat n * 2 ^ 128 div unat m" using fp_exists by blast
  then have "fp_checked_div (fp_from_amount n) (fp_from_amount m) = Inr z"
    using m by (simp add: result_simps unat_gt_0 mult.commute)
  then show ?thesis by (auto simp: fp_ratio_def)
qed

lemma record_opt_total: "\<exists>x. record_opt se d = Inr (d\<lparr>block_executions := x\<rparr>)"
proof (cases "\<exists>e. se = Some e \<and> v_amount (se_output e) \<noteq> 0 \<and> v_amount (se_input e) \<noteq> 0")
  case True
  then obtain e where e: "se = Some e" "v_amount (se_output e) \<noteq> 0" "v_amount (se_input e) \<noteq> 0" by blast
  obtain z where "fp_ratio (fp_from_amount (v_amount (se_output e))) (fp_from_amount (v_amount (se_input e))) = Inr z"
    using amount_ratio_total [OF e(3)] by blast
  with e show ?thesis by (simp add: record_opt_def record_swap_execution_def Let_def) blast
next
  case False
  then have "record_opt se d = Inr d" by (auto simp: record_opt_def record_swap_execution_def split: option.split)
  then show ?thesis by (intro exI [of _ "block_executions d"]) simp
qed

text \<open>One direction of a batch.\<close>

lemma route_leg:
  assumes "graph_ok hash d" "room_for d (unat (min delta MAX_RESERVE_AMOUNT))"
  shows "\<exists>x e l u c. (\<forall>sched. permuting sched \<longrightarrow> route_and_fill hash um sched a1 a2 (min delta MAX_RESERVE_AMOUNT) rp b d = Inr (x, e))
    \<and> filled_amounts delta x = (l, u) \<and> graph_ok hash e \<and> same_books d e \<and> (\<forall>i. traded_to (positions d i) (positions e i))
    \<and> unat u + c = unat delta
    \<and> (\<forall>k. tally (holdings k) (positions e) + (if k = a2 then unat l else 0) = tally (holdings k) (positions d) + (if k = a1 then c else 0))"
proof -
  let ?in = "min delta MAX_RESERVE_AMOUNT"
  obtain x e where x: "\<forall>sched. permuting sched \<longrightarrow> route_and_fill hash um sched a1 a2 ?in rp b d = Inr (x, e)" "(case x of
      None \<Rightarrow> filled_by hash d ?in a1 a2 0 0 e
    | Some se \<Rightarrow> v_asset (se_input se) = a1 \<and> v_asset (se_output se) = a2 \<and> se_traces se \<noteq> [] \<and> [] \<notin> set (se_traces se)
        \<and> filled_by hash d ?in a1 a2 (v_amount (se_input se)) (v_amount (se_output se)) e)"
    using route_and_fill_spec [OF assms(1,2), of um a1 a2 rp b] by blast
  show ?thesis
  proof (cases x)
    case None
    with x(2) have "filled_by hash d ?in a1 a2 0 0 e" by simp
    with None x(1) show ?thesis
      by (intro exI [of _ x] exI [of _ e] exI [of _ 0] exI [of _ delta]) (simp add: filled_amounts_def filled_by_def cong: if_cong)
  next
    case (Some se)
    let ?c = "v_amount (se_input se)"
    have f: "filled_by hash d ?in a1 a2 ?c (v_amount (se_output se)) e" using x(2) Some by simp
    then have "unat ?c \<le> unat ?in" by (simp add: filled_by_def)
    moreover have "unat ?in \<le> unat delta" by (simp add: word_le_nat_alt [symmetric])
    ultimately have le: "unat ?c \<le> unat delta" by simp
    then have "unat (delta - ?c) + unat ?c = unat delta" by (simp add: unat_sub_no_underflow word_le_nat_alt)
    with f Some x(1) show ?thesis
      by (intro exI [of _ x] exI [of _ e] exI [of _ "v_amount (se_output se)"] exI [of _ "delta - ?c"] exI [of _ "unat ?c"])
        (simp add: filled_amounts_def filled_by_def)
  qed
qed

definition paid_at :: "asset_id \<Rightarrow> batch_output \<Rightarrow> nat" where
  "paid_at k out = (if asset_1 (bo_pair out) = k then unat (bo_unfilled_1 out) + unat (bo_lambda_1 out) else 0)
     + (if asset_2 (bo_pair out) = k then unat (bo_unfilled_2 out) + unat (bo_lambda_2 out) else 0)"

lemma set_output_total:
  assumes "\<And>k. paid_at k out \<le> vcb_balance (bs_dex s) k"
  shows "\<exists>t. set_output_data out se_12 se_21 s = Inr t \<and> same_but_vcb (bs_dex s) (bs_dex t)
    \<and> (\<forall>k. vcb_balance (bs_dex t) k + paid_at k out = vcb_balance (bs_dex s) k)
    \<and> output_data t = (output_data s)((bo_height out, bo_pair out) := Some out)
    \<and> swap_flows t = swap_flows s \<and> bs_fees t = bs_fees s \<and> bs_height t = bs_height s \<and> bs_epoch_start t = bs_epoch_start s
    \<and> pending_payloads t = pending_payloads s \<and> arb_executions t = arb_executions s
    \<and> pending_outputs t = bt_insert (bo_pair out) out (pending_outputs s)"
proof -
  let ?a = "asset_1 (bo_pair out)" and ?b = "asset_2 (bo_pair out)"
  let ?v = "\<lparr>v_amount = bo_unfilled_1 out + bo_lambda_1 out, v_asset = ?a\<rparr>"
  let ?w = "\<lparr>v_amount = bo_unfilled_2 out + bo_lambda_2 out, v_asset = ?b\<rparr>"
  have small: "paid_at k out < 2 ^ 128" for k using assms [of k] vcb_less [of "bs_dex s" k] by simp
  have add: "unat (v_amount ?v) = unat (bo_unfilled_1 out) + unat (bo_lambda_1 out)"
    "unat (v_amount ?w) = unat (bo_unfilled_2 out) + unat (bo_lambda_2 out)"
    using small [of ?a] small [of ?b] by (auto simp: paid_at_def unat_add_no_overflow split: if_splits)
  obtain d where d: "dex_vcb_debit ?v (bs_dex s) = Inr d"
    using debit_total [of ?v "bs_dex s"] assms [of ?a] add(1) by (auto simp: paid_at_def split: if_splits)
  have "unat (v_amount ?w) \<le> vcb_balance d ?b"
    using debit_balance [OF d, of ?b] assms [of ?b] add by (auto simp: paid_at_def split: if_splits)
  then obtain e where e: "dex_vcb_debit ?w d = Inr e" using debit_total [of ?w d] by auto
  have "vcb_balance e k + paid_at k out = vcb_balance (bs_dex s) k" for k
    using debit_balance [OF d, of k] debit_balance [OF e, of k] add by (simp add: paid_at_def)
  with d e same_but_vcb_trans [OF vcb_same(2) [OF d] vcb_same(2) [OF e]] show ?thesis
    by (auto simp: set_output_data_def put_swap_execution_at_height_def Let_def split: option.split)
qed

lemma max_reserve: "unat (min a MAX_RESERVE_AMOUNT) \<le> 2 ^ 80 - 1" "unat (min a MAX_RESERVE_AMOUNT) \<le> unat a"
proof -
  have "unat MAX_RESERVE_AMOUNT = 2 ^ 80 - 1" by (simp add: MAX_RESERVE_AMOUNT_def)
  then show "unat (min a MAX_RESERVE_AMOUNT) \<le> 2 ^ 80 - 1" by (auto simp: min_def word_le_nat_alt)
  show "unat (min a MAX_RESERVE_AMOUNT) \<le> unat a" by (simp add: word_le_nat_alt [symmetric])
qed

definition has_room :: "dex_state \<Rightarrow> bool" where
  "has_room d \<longleftrightarrow> (\<forall>k. vcb_balance d k + 2 ^ 80 < 2 ^ 127)"

lemma room_below:
  assumes "has_room d" "\<And>k. tally (holdings k) (positions e) \<le> vcb_balance d k" "n < 2 ^ 80"
  shows "room_for e n"
  unfolding room_for_def
proof
  show "2 * (tally (holdings k) (positions e) + n) < 2 ^ 128" for k
    using assms(1) [unfolded has_room_def, rule_format, of k] assms(2) [of k] assms(3) by simp
qed

text \<open>What the batch of one pair does: the reserves, the flow and the payout balance out, the circuit breaker is debited by the payout,
  and the positions only trade.\<close>

definition batch_done :: "(u8 list \<Rightarrow> u8 list) \<Rightarrow> batch_state \<Rightarrow> trading_pair \<Rightarrow> swap_flow \<Rightarrow> u64 \<Rightarrow> batch_output \<Rightarrow> batch_state \<Rightarrow> bool" where
  "batch_done hash s pair f height out t \<longleftrightarrow>
     graph_ok hash (bs_dex t) \<and> (\<forall>i. traded_to (positions (bs_dex s) i) (positions (bs_dex t) i))
     \<and> bo_pair out = pair \<and> bo_height out = height \<and> bo_delta_1 out = fst f \<and> bo_delta_2 out = snd f
     \<and> unat (bo_unfilled_1 out) \<le> unat (fst f) \<and> unat (bo_unfilled_2 out) \<le> unat (snd f)
     \<and> sct_prefix out = \<lparr>ix_epoch = ucast (epoch_index (bs_dex s)), ix_block = ucast (height - bs_epoch_start s), ix_commitment = 0\<rparr>
     \<and> (\<forall>k. tally (holdings k) (positions (bs_dex t)) + paid_at k out = tally (holdings k) (positions (bs_dex s)) + flow_at k (pair, f))
     \<and> (\<forall>k. vcb_balance (bs_dex t) k + paid_at k out = vcb_balance (bs_dex s) k)
     \<and> dex_params (bs_dex t) = dex_params (bs_dex s) \<and> epoch_index (bs_dex t) = epoch_index (bs_dex s)
     \<and> pending_closures (bs_dex t) = pending_closures (bs_dex s) \<and> recent_assets (bs_dex t) = recent_assets (bs_dex s)
     \<and> active_pairs (bs_dex t) = active_pairs (bs_dex s)
     \<and> output_data t = (output_data s)((height, pair) := Some out)
     \<and> swap_flows t = swap_flows s \<and> bs_fees t = bs_fees s \<and> bs_height t = bs_height s \<and> bs_epoch_start t = bs_epoch_start s
     \<and> pending_outputs t = bt_insert pair out (pending_outputs s)"

lemma handle_batch_spec:
  assumes graph: "graph_ok hash (bs_dex s)" and room: "has_room (bs_dex s)"
    and cov: "\<And>k. tally (holdings k) (positions (bs_dex s)) + flow_at k (pair, f) \<le> vcb_balance (bs_dex s) k"
    and epoch: "unat (epoch_index (bs_dex s)) < 2 ^ 16" and block: "unat (height - bs_epoch_start s) < 2 ^ 16"
  shows "\<exists>out t. (\<forall>sched. permuting sched \<longrightarrow> handle_batch_swaps hash um sched pair f height rp budget s = Inr (out, t))
    \<and> batch_done hash s pair f height out t"
proof -
  obtain d1 d2 where f: "f = (d1, d2)" by fastforce
  let ?a = "asset_1 pair" and ?b = "asset_2 pair" and ?s = "bs_dex s" and ?M = MAX_RESERVE_AMOUNT
  let ?t = "\<lambda>d k. tally (holdings k) (positions d)"
  have "?t ?s k \<le> vcb_balance ?s k" for k using cov [of k] by simp
  then have "room_for ?s (unat (min d1 ?M))"
    by (rule room_below [OF room]) (use max_reserve(1) [of d1] in simp)
  from route_leg [OF graph this, of um ?a ?b rp "breaker_new budget"] obtain x1 e1 l2 u1 c1 where
    r1: "\<And>sched. permuting sched \<Longrightarrow> route_and_fill hash um sched ?a ?b (min d1 ?M) rp (breaker_new budget) ?s = Inr (x1, e1)"
    "filled_amounts d1 x1 = (l2, u1)" "graph_ok hash e1" "same_books ?s e1" "\<And>i. traded_to (positions ?s i) (positions e1 i)"
    "unat u1 + c1 = unat d1"
    "\<And>k. ?t e1 k + (if k = ?b then unat l2 else 0) = ?t ?s k + (if k = ?a then c1 else 0)" by blast
  have "?t e1 k \<le> vcb_balance ?s k" for k
    using r1(6) r1(7) [of k] cov [of k] by (auto simp: flow_at_def f split: if_splits)
  then have "room_for e1 (unat (min d2 ?M))"
    by (rule room_below [OF room]) (use max_reserve(1) [of d2] in simp)
  from route_leg [OF r1(3) this, of um ?b ?a rp "breaker_new budget"] obtain x2 e2 l1 u2 c2 where
    r2: "\<And>sched. permuting sched \<Longrightarrow> route_and_fill hash um sched ?b ?a (min d2 ?M) rp (breaker_new budget) e1 = Inr (x2, e2)"
    "filled_amounts d2 x2 = (l1, u2)" "graph_ok hash e2" "same_books e1 e2" "\<And>i. traded_to (positions e1 i) (positions e2 i)"
    "unat u2 + c2 = unat d2"
    "\<And>k. ?t e2 k + (if k = ?a then unat l1 else 0) = ?t e1 k + (if k = ?b then c2 else 0)" by blast
  let ?out = "\<lparr>bo_delta_1 = d1, bo_delta_2 = d2, bo_lambda_1 = l1, bo_lambda_2 = l2, bo_unfilled_1 = u1, bo_unfilled_2 = u2,
    bo_height = height, bo_pair = pair,
    sct_prefix = \<lparr>ix_epoch = ucast (epoch_index ?s), ix_block = ucast (height - bs_epoch_start s), ix_commitment = 0\<rparr>\<rparr>"
  have books: "same_books ?s e2" by (rule same_books_trans [OF r1(4) r2(4)])
  have key: "?t e2 k + paid_at k ?out = ?t ?s k + flow_at k (pair, f)" for k
    using r1(6) r2(6) r1(7) [of k] r2(7) [of k] by (simp add: paid_at_def flow_at_def f split: if_splits)
  obtain y1 where y1: "record_opt x1 e2 = Inr (e2\<lparr>block_executions := y1\<rparr>)" using record_opt_total by blast
  obtain y2 where y2: "record_opt x2 (e2\<lparr>block_executions := y1\<rparr>) = Inr (e2\<lparr>block_executions := y2\<rparr>)"
    using record_opt_total [of x2 "e2\<lparr>block_executions := y1\<rparr>"] by auto
  let ?u = "s\<lparr>bs_dex := e2\<lparr>block_executions := y2\<rparr>\<rparr>"
  have vcb: "vcb_balance (bs_dex ?u) k = vcb_balance ?s k" for k using books by (simp add: same_books_def vcb_balance_def)
  have "paid_at k ?out \<le> vcb_balance (bs_dex ?u) k" for k
    unfolding vcb using key [of k] cov [of k] by linarith
  from set_output_total [OF this, of x1 x2] obtain t where
    t: "set_output_data ?out x1 x2 ?u = Inr t" "same_but_vcb (bs_dex ?u) (bs_dex t)"
    "\<And>k. vcb_balance (bs_dex t) k + paid_at k ?out = vcb_balance (bs_dex ?u) k"
    "output_data t = (output_data ?u)((bo_height ?out, bo_pair ?out) := Some ?out)"
    "swap_flows t = swap_flows ?u \<and> bs_fees t = bs_fees ?u \<and> bs_height t = bs_height ?u \<and> bs_epoch_start t = bs_epoch_start ?u
      \<and> pending_payloads t = pending_payloads ?u \<and> arb_executions t = arb_executions ?u
      \<and> pending_outputs t = bt_insert (bo_pair ?out) ?out (pending_outputs ?u)" by blast
  have run: "handle_batch_swaps hash um sched pair f height rp budget s = Inr (?out, t)" if "permuting sched" for sched
    using r1(1) [OF that] r1(2) r2(1) [OF that] r2(2) y1 y2 t(1) epoch block books
    by (simp add: handle_batch_swaps_def f u16_try_from_def same_books_def)
  have idx: "same_indexes e2 (e2\<lparr>block_executions := y2\<rparr>)" by (simp add: same_indexes_def)
  have "graph_ok hash (e2\<lparr>block_executions := y2\<rparr>)"
    using r2(3) indexes_ok_same [OF idx] by (simp add: graph_ok_def)
  then have graph': "graph_ok hash (bs_dex t)" using same_but_vcb_keeps(2) [OF t(2)] by simp
  have pos: "positions (bs_dex t) = positions e2" using same_but_vcb_keeps(1) [OF t(2)] by simp
  have tr: "traded_to (positions ?s i) (positions (bs_dex t) i)" for i
    unfolding pos by (rule traded_to_trans [OF r1(5) r2(5)])
  have "batch_done hash s pair f height ?out t"
    unfolding batch_done_def pos
    using graph' tr [unfolded pos] key t(3,4,5) t(2) books vcb r1(6) r2(6) unfolding pos by (simp add: f same_but_vcb_def same_books_def)
  with run show ?thesis by blast
qed

section \<open>All batches of a block\<close>

text \<open>What a run of the end of the block leaves alone.\<close>

definition same_block :: "batch_state \<Rightarrow> batch_state \<Rightarrow> bool" where
  "same_block s t \<longleftrightarrow> dex_params (bs_dex t) = dex_params (bs_dex s) \<and> epoch_index (bs_dex t) = epoch_index (bs_dex s)
     \<and> pending_closures (bs_dex t) = pending_closures (bs_dex s) \<and> recent_assets (bs_dex t) = recent_assets (bs_dex s)
     \<and> active_pairs (bs_dex t) = active_pairs (bs_dex s) \<and> swap_flows t = swap_flows s
     \<and> bs_height t = bs_height s \<and> bs_epoch_start t = bs_epoch_start s"

lemma same_block_refl [simp]: "same_block s s"
  by (simp add: same_block_def)

lemma same_block_trans: "same_block s t \<Longrightarrow> same_block t u \<Longrightarrow> same_block s u"
  by (simp add: same_block_def)

lemma batch_done_same: "batch_done hash s pair f height out t \<Longrightarrow> same_block s t"
  by (simp add: batch_done_def same_block_def)

definition published :: "u64 \<Rightarrow> batch_state \<Rightarrow> trading_pair \<times> swap_flow \<Rightarrow> batch_output \<Rightarrow> bool" where
  "published height t = (\<lambda>(pair, f) out. output_data t (height, pair) = Some out \<and> bo_pair out = pair \<and> bo_height out = height
     \<and> bo_delta_1 out = fst f \<and> bo_delta_2 out = snd f \<and> unat (bo_unfilled_1 out) \<le> unat (fst f) \<and> unat (bo_unfilled_2 out) \<le> unat (snd f)
     \<and> sct_prefix out = \<lparr>ix_epoch = ucast (epoch_index (bs_dex t)), ix_block = ucast (height - bs_epoch_start t), ix_commitment = 0\<rparr>)"

lemma handle_flows_spec:
  assumes "graph_ok hash (bs_dex s)" "has_room (bs_dex s)"
    and "covered (bs_dex s) (\<lambda>k. pending_in k fs)" "distinct (map fst fs)" "bt_wf bsods"
    and "unat (epoch_index (bs_dex s)) < 2 ^ 16" "height_of h = Inr height" "unat (height - bs_epoch_start s) < 2 ^ 16"
  shows "\<exists>bsods' t. (\<forall>sched. permuting sched \<longrightarrow> try_fold (handle_flow hash um sched ps h) fs (bsods, s) = Inr (bsods', t)) \<and> bt_wf bsods'
    \<and> graph_ok hash (bs_dex t) \<and> same_block s t \<and> bs_fees t = bs_fees s
    \<and> (\<forall>i. traded_to (positions (bs_dex s) i) (positions (bs_dex t) i))
    \<and> (\<forall>x \<in> set fs. \<exists>out. bt_get bsods' (fst x) = Some out \<and> published height t x out)
    \<and> (\<forall>p. p \<notin> fst ` set fs \<longrightarrow> bt_get bsods' p = bt_get bsods p \<and> output_data t (height, p) = output_data s (height, p))
    \<and> (\<forall>k. vcb_balance (bs_dex t) k \<le> vcb_balance (bs_dex s) k
         \<and> vcb_balance (bs_dex t) k + tally (holdings k) (positions (bs_dex s)) + pending_in k fs
           = vcb_balance (bs_dex s) k + tally (holdings k) (positions (bs_dex t)))"
  using assms
proof (induction fs arbitrary: bsods s)
  case Nil
  then show ?case by (intro exI [of _ bsods] exI [of _ s]) (simp add: traded_to_def)
next
  case (Cons x fs)
  obtain pair f where x: "x = (pair, f)" by (cases x)
  let ?rp = "with_extra_candidates [asset_1 pair, asset_2 pair] (routing_params_of ps)"
  have cov: "tally (holdings k) (positions (bs_dex s)) + flow_at k (pair, f) \<le> vcb_balance (bs_dex s) k" for k
    using Cons.prems(3) [unfolded covered_def, rule_format, of k] by (simp add: x)
  obtain out u where u: "\<And>sched. permuting sched \<Longrightarrow> handle_batch_swaps hash um sched pair f height ?rp (max_execution_budget ps) s = Inr (out, u)"
    and d: "batch_done hash s pair f height out u"
    using handle_batch_spec [OF Cons.prems(1-2) cov Cons.prems(6,8), of um ?rp "max_execution_budget ps"] by blast
  note D = d [unfolded batch_done_def]
  have same: "same_block s u" by (rule batch_done_same [OF d])
  have step: "handle_flow hash um sched ps h x (bsods, s) = Inr (bt_insert pair out bsods, u)" if "permuting sched" for sched
    using u [OF that] Cons.prems(7) by (simp add: handle_flow_def x)
  have bal: "vcb_balance (bs_dex u) k + paid_at k out = vcb_balance (bs_dex s) k"
    "tally (holdings k) (positions (bs_dex u)) + paid_at k out = tally (holdings k) (positions (bs_dex s)) + flow_at k (pair, f)" for k
    using D by blast+
  have "covered (bs_dex u) (\<lambda>k. pending_in k fs)"
    unfolding covered_def
  proof
    show "tally (holdings k) (positions (bs_dex u)) + pending_in k fs \<le> vcb_balance (bs_dex u) k" for k
      using Cons.prems(3) [unfolded covered_def, rule_format, of k] bal [of k] by (simp add: x)
  qed
  moreover have "has_room (bs_dex u)"
    unfolding has_room_def
  proof
    show "vcb_balance (bs_dex u) k + 2 ^ 80 < 2 ^ 127" for k
      using Cons.prems(2) [unfolded has_room_def, rule_format, of k] bal(1) [of k] by simp
  qed
  moreover have "graph_ok hash (bs_dex u)" "distinct (map fst fs)" "bt_wf (bt_insert pair out bsods)"
    "unat (epoch_index (bs_dex u)) < 2 ^ 16" "unat (height - bs_epoch_start u) < 2 ^ 16"
    using D Cons.prems same by (simp_all add: same_block_def)
  ultimately obtain bsods' t where t: "\<forall>sched. permuting sched \<longrightarrow> try_fold (handle_flow hash um sched ps h) fs (bt_insert pair out bsods, u) = Inr (bsods', t)" "bt_wf bsods'"
    "graph_ok hash (bs_dex t)" "same_block u t" "bs_fees t = bs_fees u"
    "\<And>i. traded_to (positions (bs_dex u) i) (positions (bs_dex t) i)"
    "\<And>x. x \<in> set fs \<Longrightarrow> \<exists>out. bt_get bsods' (fst x) = Some out \<and> published height t x out"
    "\<And>p. p \<notin> fst ` set fs \<Longrightarrow> bt_get bsods' p = bt_get (bt_insert pair out bsods) p \<and> output_data t (height, p) = output_data u (height, p)"
    "\<And>k. vcb_balance (bs_dex t) k \<le> vcb_balance (bs_dex u) k
         \<and> vcb_balance (bs_dex t) k + tally (holdings k) (positions (bs_dex u)) + pending_in k fs
           = vcb_balance (bs_dex u) k + tally (holdings k) (positions (bs_dex t))"
    using Cons.IH [of u "bt_insert pair out bsods"] Cons.prems(7) by blast
  have new: "pair \<notin> fst ` set fs" using Cons.prems(4) by (simp add: x)
  have "bt_get bsods' pair = Some out \<and> published height t x out"
    using t(8) [OF new] Cons.prems(5) D t(4) same by (simp add: published_def x same_block_def)
  moreover have "traded_to (positions (bs_dex s) i) (positions (bs_dex t) i)" for i
    using traded_to_trans [OF _ t(6)] D by blast
  moreover have "vcb_balance (bs_dex t) k \<le> vcb_balance (bs_dex s) k
         \<and> vcb_balance (bs_dex t) k + tally (holdings k) (positions (bs_dex s)) + pending_in k (x # fs)
           = vcb_balance (bs_dex s) k + tally (holdings k) (positions (bs_dex t))" for k
    using t(9) [of k] bal [of k] by (simp add: x)
  moreover have "bt_get bsods' p = bt_get bsods p \<and> output_data t (height, p) = output_data s (height, p)" if "p \<notin> fst ` set (x # fs)" for p
    using that t(8) [of p] Cons.prems(5) D by (simp add: x)
  moreover have "\<forall>sched. permuting sched \<longrightarrow> try_fold (handle_flow hash um sched ps h) (x # fs) (bsods, s) = Inr (bsods', t)"
    using t(1) step by simp
  moreover have "\<forall>y \<in> set (x # fs). \<exists>out. bt_get bsods' (fst y) = Some out \<and> published height t y out"
    using calculation(1) t(7) by (auto simp: x)
  moreover have "bs_fees t = bs_fees s" using t(5) D by simp
  ultimately show ?case
    using t(2,3) same_block_trans [OF same t(4)] by (intro exI [of _ bsods'] exI [of _ t] conjI) blast+
qed

section \<open>Fees\<close>

lemma claim_fees_total:
  assumes "\<And>k v. (k, v) \<in> set fees \<Longrightarrow> k \<noteq> um \<Longrightarrow> bt_get bsods (trading_pair_new k um) \<noteq> None"
  shows "\<exists>x. claim_fees um bsods fees s = Inr (s\<lparr>bs_fees := x\<rparr>)"
  using assms
proof (induction fees arbitrary: s)
  case Nil
  show ?case by (intro exI [of _ "bs_fees s"]) (simp add: claim_fees_def)
next
  case (Cons y fees)
  obtain k b t where y: "y = (k, b, t)" by (metis prod.exhaust)
  have "\<exists>x. claim_fee um bsods y s = Inr (s\<lparr>bs_fees := x\<rparr>)"
  proof (cases "k = um")
    case True
    then show ?thesis by (simp add: claim_fee_def y accumulate_staking_fees_def) blast
  next
    case False
    then obtain out where "bt_get bsods (trading_pair_new k um) = Some out" using Cons.prems [of k "(b, t)"] y by auto
    with False show ?thesis
      by (cases "asset_1 (trading_pair_new k um) = k")
        (auto simp: claim_fee_def y pro_rata_alt accumulate_staking_fees_def Let_def)
  qed
  then obtain x where x: "claim_fee um bsods y s = Inr (s\<lparr>bs_fees := x\<rparr>)" ..
  have "\<exists>z. claim_fees um bsods fees (s\<lparr>bs_fees := x\<rparr>) = Inr (s\<lparr>bs_fees := x\<rparr>\<lparr>bs_fees := z\<rparr>)"
    by (rule Cons.IH, rule Cons.prems) auto
  with x show ?case by (auto simp: claim_fees_def)
qed


definition alt_fees :: "asset_id \<Rightarrow> fee_map \<Rightarrow> asset_id \<Rightarrow> nat" where
  "alt_fees um fees k = (\<Sum>(k', base, tip) \<leftarrow> fees. if k' = k \<and> k \<noteq> um then unat (base + tip) else 0)"

lemma fee_flow_at:
  "k' \<noteq> um \<Longrightarrow> flow_at k (trading_pair_new k' um, fee_flow um k' a) = (if k' = k then unat a else 0)"
  by (auto simp: flow_at_def fee_flow_def trading_pair_new_def)

lemma add_fee_flows_spec:
  assumes "bt_wf (swap_flows s)" "covered (bs_dex s) (\<lambda>k. pending_in k (swap_flows s))"
    and "\<And>k. vcb_balance (bs_dex s) k + alt_fees um fees k < 2 ^ 128"
  shows "\<exists>t. add_fee_flows um fees s = Inr t \<and> same_but_vcb (bs_dex s) (bs_dex t)
    \<and> (\<forall>k. vcb_balance (bs_dex t) k = vcb_balance (bs_dex s) k + alt_fees um fees k)
    \<and> (\<forall>k. pending_in k (swap_flows t) = pending_in k (swap_flows s) + alt_fees um fees k)
    \<and> bt_wf (swap_flows t) \<and> covered (bs_dex t) (\<lambda>k. pending_in k (swap_flows t))
    \<and> (\<exists>d m. t = s\<lparr>bs_dex := d, swap_flows := m\<rparr>)
    \<and> (\<forall>p. bt_get (swap_flows s) p \<noteq> None \<longrightarrow> bt_get (swap_flows t) p \<noteq> None)
    \<and> (\<forall>(k, v) \<in> set fees. k \<noteq> um \<longrightarrow> bt_get (swap_flows t) (trading_pair_new k um) \<noteq> None)"
  using assms
proof (induction fees arbitrary: s)
  case Nil
  then show ?case
    by (auto simp: add_fee_flows_def alt_fees_def same_but_vcb_def same_indexes_def
        intro!: exI [of _ "bs_dex s"] exI [of _ "swap_flows s"])
next
  case (Cons y fees)
  obtain k' b tip where y: "y = (k', b, tip)" by (metis prod.exhaust)
  have alt: "alt_fees um (y # fees) k = (if k' = k \<and> k \<noteq> um then unat (b + tip) else 0) + alt_fees um fees k" for k
    by (simp add: alt_fees_def y)
  show ?case
  proof (cases "k' = um")
    case True
    then have skip: "add_fee_flow um y s = Inr s" "alt_fees um (y # fees) = alt_fees um fees"
      using alt by (auto simp: add_fee_flow_def y)
    show ?thesis using Cons.IH [OF Cons.prems(1,2)] Cons.prems(3) skip True by (simp add: add_fee_flows_def y)
  next
    case False
    let ?pair = "trading_pair_new k' um" and ?f = "fee_flow um k' (b + tip)"
    have flow: "flow_at k (?pair, ?f) = (if k' = k \<and> k \<noteq> um then unat (b + tip) else 0)" for k
      using fee_flow_at [OF False, of k] False by auto
    have "vcb_balance (bs_dex s) k + flow_at k (?pair, ?f) < 2 ^ 128" for k
      using Cons.prems(3) [of k] by (simp add: alt flow)
    from accumulate_total [OF this] obtain u where u: "accumulate_swap_flow ?pair ?f s = Inr u" ..
    note U = accumulate_effect [OF u Cons.prems(1,2)]
    obtain d x where dx: "u = s\<lparr>bs_dex := d, swap_flows := bt_insert ?pair x (swap_flows s)\<rparr>" using U(6) by blast
    have "vcb_balance (bs_dex u) k + alt_fees um fees k < 2 ^ 128" for k
      using Cons.prems(3) [of k] U(2) [of k] by (simp add: alt flow)
    from Cons.IH [OF U(3,4) this] obtain t where
      t: "add_fee_flows um fees u = Inr t" "same_but_vcb (bs_dex u) (bs_dex t)"
      "\<And>k. vcb_balance (bs_dex t) k = vcb_balance (bs_dex u) k + alt_fees um fees k"
      "\<And>k. pending_in k (swap_flows t) = pending_in k (swap_flows u) + alt_fees um fees k"
      "bt_wf (swap_flows t)" "covered (bs_dex t) (\<lambda>k. pending_in k (swap_flows t))"
      "\<exists>d m. t = u\<lparr>bs_dex := d, swap_flows := m\<rparr>"
      "\<And>p. bt_get (swap_flows u) p \<noteq> None \<Longrightarrow> bt_get (swap_flows t) p \<noteq> None"
      "\<forall>(k, v) \<in> set fees. k \<noteq> um \<longrightarrow> bt_get (swap_flows t) (trading_pair_new k um) \<noteq> None" by blast
    have get: "bt_get (swap_flows u) p = (if p = ?pair then Some x else bt_get (swap_flows s) p)" for p
      using Cons.prems(1) by (simp add: dx)
    have keys: "bt_get (swap_flows t) ?pair \<noteq> None"
      "\<forall>p. bt_get (swap_flows s) p \<noteq> None \<longrightarrow> bt_get (swap_flows t) p \<noteq> None"
      using t(8) by (simp_all add: get)
    have run: "add_fee_flows um (y # fees) s = Inr t"
      using u t(1) False by (simp add: add_fee_flows_def add_fee_flow_def y)
    have shape: "\<exists>d m. t = s\<lparr>bs_dex := d, swap_flows := m\<rparr>" using t(7) dx by auto
    have all: "\<forall>(k, v) \<in> set (y # fees). k \<noteq> um \<longrightarrow> bt_get (swap_flows t) (trading_pair_new k um) \<noteq> None"
      using t(9) keys(1) by (simp add: y)
    have bal: "\<forall>k. vcb_balance (bs_dex t) k = vcb_balance (bs_dex s) k + alt_fees um (y # fees) k"
      "\<forall>k. pending_in k (swap_flows t) = pending_in k (swap_flows s) + alt_fees um (y # fees) k"
      using t(3,4) U(2,7) by (simp_all add: alt flow)
    show ?thesis
      using run same_but_vcb_trans [OF U(1) t(2)] bal t(5,6) shape keys(2) all by blast
  qed
qed

section \<open>Arbitrage\<close>

text \<open>A successful arbitrage takes its profit out of the positions and the circuit breaker alike; otherwise the state is unchanged.\<close>

definition arb_done :: "(u8 list \<Rightarrow> u8 list) \<Rightarrow> asset_id \<Rightarrow> batch_state \<Rightarrow> asset_value option \<Rightarrow> batch_state \<Rightarrow> bool" where
  "arb_done hash tok s r t \<longleftrightarrow> graph_ok hash (bs_dex t) \<and> same_block s t \<and> bs_fees t = bs_fees s \<and> output_data t = output_data s
     \<and> pending_outputs t = pending_outputs s \<and> (\<forall>i. traded_to (positions (bs_dex s) i) (positions (bs_dex t) i))
     \<and> (case r of None \<Rightarrow> t = s
        | Some v \<Rightarrow> v_asset v = tok \<and> v_amount v \<noteq> 0
            \<and> (\<forall>k. tally (holdings k) (positions (bs_dex t)) + (if k = tok then unat (v_amount v) else 0) = tally (holdings k) (positions (bs_dex s)))
            \<and> (\<forall>k. vcb_balance (bs_dex t) k + (if k = tok then unat (v_amount v) else 0) = vcb_balance (bs_dex s) k)
            \<and> (\<exists>se. arb_executions t = (arb_executions s)(bs_height s := Some se)
                 \<and> unat (v_amount (se_output se)) = unat (v_amount (se_input se)) + unat (v_amount v)))"

lemma arbitrage_spec:
  assumes graph: "graph_ok hash (bs_dex s)" and ps: "dex_params (bs_dex s) = Some ps" and room: "has_room (bs_dex s)"
    and cov: "\<And>k. tally (holdings k) (positions (bs_dex s)) \<le> vcb_balance (bs_dex s) k"
  shows "\<exists>r t. (\<forall>sched. permuting sched \<longrightarrow> arbitrage hash um sched tok rp s = (Inr r, t)) \<and> arb_done hash tok s r t"
proof -
  let ?s = "bs_dex s" and ?t = "\<lambda>d k. tally (holdings k) (positions d)"
  have loan: "unat FLASH_LOAN = 2 ^ 64 - 1" by (simp add: FLASH_LOAN_def)
  have "room_for ?s (unat FLASH_LOAN)" by (rule room_below [OF room cov]) (simp add: loan)
  from route_and_fill_spec [OF graph this, of um tok tok rp "breaker_new (max_execution_budget ps)"] obtain x d where
    x: "\<And>sched. permuting sched \<Longrightarrow> route_and_fill hash um sched tok tok FLASH_LOAN rp (breaker_new (max_execution_budget ps)) ?s = Inr (x, d)"
    "case x of None \<Rightarrow> filled_by hash ?s FLASH_LOAN tok tok 0 0 d
     | Some se \<Rightarrow> v_asset (se_input se) = tok \<and> v_asset (se_output se) = tok \<and> se_traces se \<noteq> [] \<and> [] \<notin> set (se_traces se)
        \<and> filled_by hash ?s FLASH_LOAN tok tok (v_amount (se_input se)) (v_amount (se_output se)) d" by blast
  have unchanged: "arb_done hash tok s None s" using graph by (simp add: arb_done_def traded_to_def)
  note arb = arbitrage_def get_dex_params_def ps x(1)
  show ?thesis
  proof (cases x)
    case None
    with unchanged show ?thesis by (intro exI [of _ None] exI [of _ s]) (simp add: arb)
  next
    case (Some se)
    let ?i = "v_amount (se_input se)" and ?o = "v_amount (se_output se)"
    have fl: "filled_by hash ?s FLASH_LOAN tok tok ?i ?o d" using x(2) Some by simp
    then have le: "unat ?i \<le> unat FLASH_LOAN" and books: "same_books ?s d"
      and bal: "?t d k + (if k = tok then unat ?o else 0) = ?t ?s k + (if k = tok then unat ?i else 0)"
      and tr: "traded_to (positions ?s i) (positions d i)" and gd: "graph_ok hash d" for k i by (simp_all add: filled_by_def)
    obtain u where u: "amount_checked_sub FLASH_LOAN ?i = Some u" "unat FLASH_LOAN = unat ?i + unat u"
    proof -
      have "amount_checked_sub FLASH_LOAN ?i \<noteq> None" using le by (simp add: checked_sub_None_iff not_less)
      then obtain u where "amount_checked_sub FLASH_LOAN ?i = Some u" by auto
      then show ?thesis using that by (simp add: checked_sub_Some_iff)
    qed
    have "unat ?o + unat u < 2 ^ 128"
      using bal [of tok] cov [of tok] room [unfolded has_room_def, rule_format, of tok] le u(2) loan by simp
    then have tot: "unat (?o + u) = unat ?o + unat u" by (simp add: unat_add_no_overflow)
    show ?thesis
    proof (cases "amount_checked_sub (?o + u) FLASH_LOAN")
      case None
      with unchanged Some u(1) show ?thesis by (intro exI [of _ None] exI [of _ s]) (simp add: arb Let_def)
    next
      case profit: (Some p)
      then have p: "unat ?o = unat ?i + unat p" using tot u(2) by (simp add: checked_sub_Some_iff)
      show ?thesis
      proof (cases "p = 0")
        case True
        with unchanged Some u(1) profit show ?thesis by (intro exI [of _ None] exI [of _ s]) (simp add: arb Let_def)
      next
        case False
        let ?v = "\<lparr>v_amount = p, v_asset = tok\<rparr>"
        let ?se = "\<lparr>se_traces = se_traces se, se_input = \<lparr>v_amount = ?i, v_asset = tok\<rparr>, se_output = \<lparr>v_amount = ?i + p, v_asset = tok\<rparr>\<rparr>"
        have vcb: "vcb_balance d k = vcb_balance ?s k" for k using books by (simp add: same_books_def vcb_balance_def)
        have held: "?t d k + (if k = tok then unat p else 0) = ?t ?s k" for k using bal [of k] p by (simp split: if_splits)
        have "unat (v_amount ?v) \<le> vcb_balance d (v_asset ?v)" using held [of tok] cov [of tok] vcb [of tok] by simp
        then obtain e where e: "dex_vcb_debit ?v d = Inr e" using debit_total by blast
        let ?u = "(set_arb_execution (bs_height s) ?se (s\<lparr>bs_dex := d\<rparr>))\<lparr>bs_dex := e\<rparr>"
        have run: "arbitrage hash um sched tok rp s = (Inr (Some ?v), ?u)" if "permuting sched" for sched
          using that Some u(1) profit False e by (simp add: arb Let_def set_arb_execution_def)
        have keep: "positions e = positions d" "graph_ok hash e" using same_but_vcb_keeps [OF vcb_same(2) [OF e]] gd by simp_all
        have "\<forall>k. vcb_balance e k + (if k = tok then unat p else 0) = vcb_balance ?s k"
          using debit_balance [OF e] vcb by auto
        moreover have "\<forall>k. ?t d k + (if k = tok then unat p else 0) = ?t ?s k" using held by blast
        moreover have "unat (?i + p) = unat ?i + unat p" using p u128_less [of ?o] by (simp add: unat_add_no_overflow)
        then have "\<exists>se. arb_executions ?u = (arb_executions s)(bs_height s := Some se)
            \<and> unat (v_amount (se_output se)) = unat (v_amount (se_input se)) + unat p"
          by (intro exI [of _ ?se]) (simp add: set_arb_execution_def)
        moreover have "same_block s ?u" using books vcb_same(2) [OF e]
          by (simp add: same_block_def set_arb_execution_def same_books_def same_but_vcb_def)
        moreover have "bs_dex ?u = e" "bs_fees ?u = bs_fees s" "output_data ?u = output_data s" "pending_outputs ?u = pending_outputs s"
          by (simp_all add: set_arb_execution_def)
        ultimately have "arb_done hash tok s (Some ?v) ?u"
          unfolding arb_done_def option.case asset_value.select_convs using keep tr False by (simp only: simp_thms)
        with run show ?thesis by blast
      qed
    qed
  qed
qed

end
