(* ===== verification/BatchMachine.thy ===== *)
theory BatchMachine
  imports BatchInvariant
begin

text \<open>
  The block as a transition system: the handlers of the transactions, the payment of fees, the end of the
  block and the commit that drops what is scoped to the block. The end of the block always succeeds
  in a reachable state, as long as the values in the DEX stay below the bound \<open>has_room\<close> and the indices of
  epoch and block fit in 16 bits, which the code requires by its conversions.
\<close>

section \<open>The end of the block\<close>

lemma traded_alive:
  "traded_to (Some p) y \<Longrightarrow> p_state p = Opened \<or> p_state p = Closed \<Longrightarrow> \<exists>q. y = Some q \<and> (p_state q = Opened \<or> p_state q = Closed)"
  by (auto simp: traded_to_def settled_def)

definition block_end_ready :: "asset_id \<Rightarrow> int \<Rightarrow> batch_state \<Rightarrow> bool" where
  "block_end_ready um h s \<longleftrightarrow> 0 \<le> h \<and> h < 2 ^ 64
     \<and> unat (epoch_index (bs_dex s)) < 2 ^ 16 \<and> unat (word_of_int h - bs_epoch_start s) < 2 ^ 16
     \<and> (\<forall>k. vcb_balance (bs_dex s) k + alt_fees um (fee_accumulator (bs_fees s)) k + 2 ^ 80 < 2 ^ 127)"

text \<open>What the end of the block at height \<open>h\<close> achieves.\<close>

definition block_ended :: "(u8 list \<Rightarrow> u8 list) \<Rightarrow> asset_id \<Rightarrow> int \<Rightarrow> batch_state \<Rightarrow> batch_state \<Rightarrow> bool" where
  "block_ended hash um h s t \<longleftrightarrow> dex_inv hash (bs_dex t) \<and> pending_closures (bs_dex t) = []
     \<and> (\<forall>i \<in> set (pending_closures (bs_dex s)). \<exists>p. positions (bs_dex t) i = Some p \<and> p_state p = Closed)
     \<and> (\<forall>k. pending_in k (swap_flows t) = pending_in k (swap_flows s) + alt_fees um (fee_accumulator (bs_fees s)) k)
     \<and> (\<forall>x \<in> set (swap_flows t). \<exists>out. published (word_of_int h) t x out)
     \<and> (\<forall>p. bt_get (swap_flows s) p \<noteq> None \<longrightarrow> bt_get (swap_flows t) p \<noteq> None)
     \<and> (\<forall>k. vcb_balance (bs_dex t) k + tally (holdings k) (positions (bs_dex s)) + pending_in k (swap_flows s)
           = vcb_balance (bs_dex s) k + tally (holdings k) (positions (bs_dex t)))
     \<and> dex_params (bs_dex t) = dex_params (bs_dex s) \<and> epoch_index (bs_dex t) = epoch_index (bs_dex s)
     \<and> bs_height t = bs_height s \<and> bs_epoch_start t = bs_epoch_start s"

lemma tally_closed_same:
  assumes "\<And>i. n i = m i \<or> (\<exists>p. m i = Some p \<and> n i = Some (p\<lparr>p_state := Closed\<rparr>))"
  shows "tally (holdings k) n = tally (holdings k) m"
proof -
  have "n i = None \<longleftrightarrow> m i = None" for i using assms [of i] by (elim disjE exE conjE) simp_all
  then have dom: "dom n = dom m" by (simp add: dom_def)
  have "holdings k (the (n i)) = holdings k (the (m i))" for i
    using assms [of i] by (elim disjE exE conjE) (simp_all add: holdings_def)
  then show ?thesis unfolding tally_def dom by simp
qed

lemma graph_solvent_inv: "graph_ok hash d \<Longrightarrow> solvent d \<Longrightarrow> dex_params d \<noteq> None \<Longrightarrow> dex_inv hash d"
  by (simp add: graph_ok_def dex_inv_def)

lemma closing_spec:
  assumes inv: "dex_inv hash d" and queue: "\<And>i. i \<in> set (pending_closures d) \<Longrightarrow> \<exists>p. positions d i = Some p \<and> (p_state p = Opened \<or> p_state p = Closed)"
  shows "\<exists>e f. evict_positions um d = Inr e \<and> close_queued_positions um e = Inr f \<and> dex_inv hash f \<and> pending_closures f = []
    \<and> (\<forall>i \<in> set (pending_closures d). \<exists>p. positions f i = Some p \<and> p_state p = Closed)
    \<and> (\<forall>k. tally (holdings k) (positions f) = tally (holdings k) (positions d)) \<and> dex_vcb f = dex_vcb d
    \<and> dex_params f = dex_params d \<and> epoch_index f = epoch_index d"
proof -
  note I = dex_invD [OF inv]
  obtain e where e: "evict_positions um d = Inr e" "indexes_ok e" "solvent e" "same_frame d e"
    "\<And>i. positions e i = positions d i \<or>
       (\<exists>p. positions d i = Some p \<and> (p_state p = Opened \<or> p_state p = Closed) \<and> positions e i = Some (p\<lparr>p_state := Closed\<rparr>))"
    by (rule evict_positions_spec [OF I(1-3), where um = um]) blast
  have frame: "pending_closures e = pending_closures d" "dex_params e = dex_params d" "dex_vcb e = dex_vcb d" "epoch_index e = epoch_index d"
    using e(4) by (simp_all add: same_frame_def)
  have alive: "\<exists>p. positions e i = Some p \<and> (p_state p = Opened \<or> p_state p = Closed)" if "i \<in> set (pending_closures e)" for i
    using queue [of i] that e(5) [of i] frame(1) by auto
  obtain f where f: "try_fold (close_position_by_id um) (pending_closures e) e = Inr f" "indexes_ok f" "solvent f" "same_frame e f"
    "positions f = (\<lambda>i. if i \<in> set (pending_closures e) then map_option (p_state_update (\<lambda>_. Closed)) (positions e i) else positions e i)"
    using close_list_spec [OF e(2,3), of "pending_closures e" um] alive by blast
  let ?g = "f\<lparr>pending_closures := []\<rparr>"
  have run: "close_queued_positions um e = Inr ?g" using f(1) by (simp add: close_queued_positions_def)
  have closed: "positions f i = positions e i \<or> (\<exists>p. positions e i = Some p \<and> positions f i = Some (p\<lparr>p_state := Closed\<rparr>))" for i
    by (cases "positions e i") (simp_all add: f(5))
  have same: "tally (holdings k) (positions f) = tally (holdings k) (positions d)" for k
  proof -
    have "tally (holdings k) (positions f) = tally (holdings k) (positions e)" by (rule tally_closed_same [OF closed])
    also have "\<dots> = tally (holdings k) (positions d)" by (rule tally_closed_same) (use e(5) in blast)
    finally show ?thesis .
  qed
  have idx: "same_indexes f ?g" by (simp add: same_indexes_def)
  have id: "position_id_of hash q = i" if q: "positions f i = Some q" for i q
  proof -
    have "\<exists>r. positions e i = Some r \<and> p_phi q = p_phi r \<and> p_nonce q = p_nonce r"
      using closed [of i] q by (elim disjE exE conjE) auto
    then obtain r where r: "positions e i = Some r" "p_phi q = p_phi r" "p_nonce q = p_nonce r" by blast
    have "\<exists>p. positions d i = Some p \<and> p_phi r = p_phi p \<and> p_nonce r = p_nonce p"
      using e(5) [of i] r(1) by (elim disjE exE conjE) auto
    then obtain p where p: "positions d i = Some p" "p_phi q = p_phi p" "p_nonce q = p_nonce p" using r by auto
    then show ?thesis using I(4) [OF p(1)] by (simp add: position_id_of_def position_preimage_def)
  qed
  have "dex_inv hash ?g"
    using indexes_ok_same [OF idx] f(2,3) f(4) I(3) frame(2) id by (simp add: dex_inv_def solvent_def vcb_balance_def same_frame_def)
  moreover have "\<forall>i \<in> set (pending_closures d). \<exists>p. positions ?g i = Some p \<and> p_state p = Closed"
  proof
    fix i assume i: "i \<in> set (pending_closures d)"
    then obtain p where "positions e i = Some p" using alive frame(1) by auto
    with i frame(1) show "\<exists>p. positions ?g i = Some p \<and> p_state p = Closed" by (simp add: f(5))
  qed
  ultimately show ?thesis
    using e(1) run same f(4) frame by (intro exI [of _ e] exI [of _ ?g]) (simp add: same_frame_def)
qed


lemma arb_slack:
  assumes "arb_done hash tok s r t"
  shows "vcb_balance (bs_dex t) k + tally (holdings k) (positions (bs_dex s)) = vcb_balance (bs_dex s) k + tally (holdings k) (positions (bs_dex t))"
proof (cases r)
  case None
  then have "t = s" using assms by (simp add: arb_done_def)
  then show ?thesis by simp
next
  case (Some v)
  then have "tally (holdings k) (positions (bs_dex t)) + (if k = tok then unat (v_amount v) else 0) = tally (holdings k) (positions (bs_dex s))"
    "vcb_balance (bs_dex t) k + (if k = tok then unat (v_amount v) else 0) = vcb_balance (bs_dex s) k"
    using assms unfolding arb_done_def by auto
  then show ?thesis by linarith
qed

lemma end_block_spec:
  assumes inv: "batch_inv hash s" and ready: "block_end_ready um h s"
  shows "\<exists>t. (\<forall>sched. permuting sched \<longrightarrow> dex_end_block hash um sched h s = Inr t) \<and> block_ended hash um h s t \<and> bt_wf (swap_flows t)"
proof -
  note I = batch_invD [OF inv]
  let ?fees = "fee_accumulator (bs_fees s)" and ?fs = "(bs_fees s)\<lparr>fee_accumulator := []\<rparr>"
  let ?height = "word_of_int h :: u64"
  let ?T = "\<lambda>d k. tally (holdings k) (positions d)"
  have R: "height_of h = Inr ?height" "unat (epoch_index (bs_dex s)) < 2 ^ 16" "unat (?height - bs_epoch_start s) < 2 ^ 16"
    "\<And>k. vcb_balance (bs_dex s) k + alt_fees um ?fees k + 2 ^ 80 < 2 ^ 127"
    using ready by (simp_all add: block_end_ready_def height_of_def)
  have "vcb_balance (bs_dex s) k + alt_fees um ?fees k < 2 ^ 128" for k using R(4) [of k] by simp
  then have "vcb_balance (bs_dex (s\<lparr>bs_fees := ?fs\<rparr>)) k + alt_fees um ?fees k < 2 ^ 128" for k by simp
  moreover have "bt_wf (swap_flows (s\<lparr>bs_fees := ?fs\<rparr>))"
    "covered (bs_dex (s\<lparr>bs_fees := ?fs\<rparr>)) (\<lambda>k. pending_in k (swap_flows (s\<lparr>bs_fees := ?fs\<rparr>)))" using I(3,4) by simp_all
  ultimately obtain u where u: "add_fee_flows um ?fees (s\<lparr>bs_fees := ?fs\<rparr>) = Inr u" "same_but_vcb (bs_dex (s\<lparr>bs_fees := ?fs\<rparr>)) (bs_dex u)"
    "\<And>k. vcb_balance (bs_dex u) k = vcb_balance (bs_dex (s\<lparr>bs_fees := ?fs\<rparr>)) k + alt_fees um ?fees k"
    "\<And>k. pending_in k (swap_flows u) = pending_in k (swap_flows (s\<lparr>bs_fees := ?fs\<rparr>)) + alt_fees um ?fees k"
    "bt_wf (swap_flows u)" "covered (bs_dex u) (\<lambda>k. pending_in k (swap_flows u))"
    "\<exists>d m. u = s\<lparr>bs_fees := ?fs\<rparr>\<lparr>bs_dex := d, swap_flows := m\<rparr>"
    "\<And>p. bt_get (swap_flows (s\<lparr>bs_fees := ?fs\<rparr>)) p \<noteq> None \<Longrightarrow> bt_get (swap_flows u) p \<noteq> None"
    "\<forall>(k, v) \<in> set ?fees. k \<noteq> um \<longrightarrow> bt_get (swap_flows u) (trading_pair_new k um) \<noteq> None"
    using add_fee_flows_spec [of "s\<lparr>bs_fees := ?fs\<rparr>" um ?fees] by blast
  note u = u [simplified batch_state.simps]
  note keep = same_but_vcb_keeps [OF u(2)]
  have uf: "epoch_index (bs_dex u) = epoch_index (bs_dex s)" "pending_closures (bs_dex u) = pending_closures (bs_dex s)"
    "bs_height u = bs_height s" "bs_epoch_start u = bs_epoch_start s"
    using u(2,7) by (auto simp: same_but_vcb_def)
  obtain ps where ps: "dex_params (bs_dex u) = Some ps" using I(2) keep(4) by auto
  have "has_room (bs_dex u)" unfolding has_room_def using R(4) by (simp add: u(3))
  moreover have "distinct (map fst (swap_flows u))" using u(5) by (simp add: bt_wf_def strict_sorted_iff)
  moreover have "graph_ok hash (bs_dex u)" using keep(2) I(1) by simp
  ultimately obtain bsods v where v: "\<And>sched. permuting sched \<Longrightarrow> try_fold (handle_flow hash um sched ps h) (swap_flows u) ([], u) = Inr (bsods, v)"
    "graph_ok hash (bs_dex v)" "same_block u v" "bs_fees v = bs_fees u"
    "\<And>i. traded_to (positions (bs_dex u) i) (positions (bs_dex v) i)"
    "\<And>x. x \<in> set (swap_flows u) \<Longrightarrow> \<exists>out. bt_get bsods (fst x) = Some out \<and> published ?height v x out"
    "\<And>k. vcb_balance (bs_dex v) k \<le> vcb_balance (bs_dex u) k"
    "\<And>k. vcb_balance (bs_dex v) k + ?T (bs_dex u) k + pending_in k (swap_flows u) = vcb_balance (bs_dex u) k + ?T (bs_dex v) k"
    using handle_flows_spec [OF _ _ u(6) _ _ _ R(1), of hash "[]" um ps] R(2,3) uf by (simp add: bt_wf_Nil) blast
  have "bt_get bsods (trading_pair_new k um) \<noteq> None" if kw: "(k, w) \<in> set ?fees" "k \<noteq> um" for k w
  proof -
    obtain f where "bt_get (swap_flows u) (trading_pair_new k um) = Some f" using bspec [OF u(9) kw(1)] kw(2) by auto
    then have "(trading_pair_new k um, f) \<in> set (swap_flows u)" by (simp add: bt_get_def map_of_SomeD)
    then show ?thesis using v(6) by fastforce
  qed
  then obtain y where y: "claim_fees um bsods ?fees v = Inr (v\<lparr>bs_fees := y\<rparr>)" using claim_fees_total by blast
  let ?w = "v\<lparr>bs_fees := y\<rparr>"
  have cov: "?T (bs_dex v) k \<le> vcb_balance (bs_dex v) k" for k
    using u(6) [unfolded covered_def, rule_format, of k] v(8) [of k] by linarith
  have room: "has_room (bs_dex ?w)"
    unfolding has_room_def
  proof
    show "vcb_balance (bs_dex ?w) k + 2 ^ 80 < 2 ^ 127" for k using R(4) [of k] u(3) [of k] v(7) [of k] by simp
  qed
  have psw: "dex_params (bs_dex ?w) = Some ps" using ps v(3) by (simp add: same_block_def)
  obtain r z where z: "\<And>sched. permuting sched \<Longrightarrow> arbitrage hash um sched um (arb_routing_params ps (bs_dex ?w)) ?w = (Inr r, z)" "arb_done hash um ?w r z"
  proof -
    have "graph_ok hash (bs_dex ?w)" "\<And>k. ?T (bs_dex ?w) k \<le> vcb_balance (bs_dex ?w) k" using v(2) cov by simp_all
    from arbitrage_spec [OF this(1) psw room this(2)] that show ?thesis by blast
  qed
  have Z: "graph_ok hash (bs_dex z)" "same_block ?w z" "output_data z = output_data v"
    "\<And>i. traded_to (positions (bs_dex v) i) (positions (bs_dex z) i)"
    using z(2) by (simp_all add: arb_done_def)
  have arb: "vcb_balance (bs_dex z) k + ?T (bs_dex v) k = vcb_balance (bs_dex v) k + ?T (bs_dex z) k" for k
    using arb_slack [OF z(2), of k] by simp
  have "solvent (bs_dex z)" unfolding solvent_def
  proof
    show "?T (bs_dex z) k \<le> vcb_balance (bs_dex z) k" for k using arb [of k] cov [of k] by linarith
  qed
  then have invz: "dex_inv hash (bs_dex z)"
    using Z(1,2) psw by (intro graph_solvent_inv) (simp_all add: same_block_def)
  have zf: "pending_closures (bs_dex z) = pending_closures (bs_dex s)" "dex_params (bs_dex z) = dex_params (bs_dex s)"
    "epoch_index (bs_dex z) = epoch_index (bs_dex s)" "bs_height z = bs_height s" "bs_epoch_start z = bs_epoch_start s" "swap_flows z = swap_flows u"
    using Z(2) v(3) uf keep(4) by (simp_all add: same_block_def)
  have "\<exists>q. positions (bs_dex z) i = Some q \<and> (p_state q = Opened \<or> p_state q = Closed)" if i: "i \<in> set (pending_closures (bs_dex z))" for i
  proof -
    obtain p where p: "positions (bs_dex u) i = Some p" "p_state p = Opened"
      using I(5) i zf(1) keep(1) by (auto simp: queue_opened_def)
    obtain q where q: "positions (bs_dex v) i = Some q" "p_state q = Opened \<or> p_state q = Closed"
      using traded_alive [of p "positions (bs_dex v) i"] v(5) [of i] p by auto
    then show ?thesis using traded_alive [of q "positions (bs_dex z) i"] Z(4) [of i] by simp
  qed
  from closing_spec [OF invz this, of um] obtain e f where ef: "evict_positions um (bs_dex z) = Inr e" "close_queued_positions um e = Inr f"
    "dex_inv hash f" "pending_closures f = []" "\<forall>i \<in> set (pending_closures (bs_dex z)). \<exists>p. positions f i = Some p \<and> p_state p = Closed"
    "\<And>k. ?T f k = ?T (bs_dex z) k" "dex_vcb f = dex_vcb (bs_dex z)" "dex_params f = dex_params (bs_dex z)" "epoch_index f = epoch_index (bs_dex z)"
    by blast
  let ?t = "z\<lparr>bs_dex := f\<rparr>"
  have run: "dex_end_block hash um sched h s = Inr ?t" if "permuting sched" for sched
    using u(1) ps v(1) [OF that] y z(1) [OF that] ef(1,2)
    by (simp add: dex_end_block_def take_accumulated_base_fees_and_tips_def get_dex_params_def Let_def)
  have pub: "\<exists>out. published ?height ?t x out" if x: "x \<in> set (swap_flows ?t)" for x
  proof -
    obtain out where "published ?height v x out" using v(6) [of x] x zf(6) by auto
    moreover have "epoch_index f = epoch_index (bs_dex v)" "bs_epoch_start z = bs_epoch_start v"
      using ef(9) zf(3,5) v(3) uf by (simp_all add: same_block_def)
    ultimately show ?thesis using Z(3) by (intro exI [of _ out]) (simp add: published_def split: prod.splits)
  qed
  have slack: "vcb_balance (bs_dex ?t) k + ?T (bs_dex s) k + pending_in k (swap_flows s)
      = vcb_balance (bs_dex s) k + ?T (bs_dex ?t) k" for k
    using arb [of k] v(8) [of k] u(3,4) [of k] keep(1) ef(6) [of k] ef(7) by (simp add: vcb_balance_def)
  have "block_ended hash um h s ?t"
    unfolding block_ended_def using ef(3,4,5,8,9) zf slack pub u(4,8) by simp
  with run u(5) zf(6) show ?thesis by auto
qed

section \<open>The machine\<close>

text \<open>The commit drops what is scoped to the block; the next block has a new height and, when an epoch ended, a new epoch.\<close>

definition next_block :: "u64 \<Rightarrow> u64 \<Rightarrow> u64 \<Rightarrow> batch_state \<Rightarrow> batch_state" where
  "next_block height epoch start s = s\<lparr>
     bs_dex := (bs_dex s)\<lparr>epoch_index := epoch, pending_closures := [], recent_assets := [], active_pairs := [], block_executions := \<lambda>_. []\<rparr>,
     bs_fees := (bs_fees s)\<lparr>fee_accumulator := [], gas_prices_changed := False\<rparr>,
     swap_flows := [], pending_outputs := [], pending_payloads := [], bs_height := height, bs_epoch_start := start\<rparr>"

inductive batch_step :: "(u8 list \<Rightarrow> u8 list) \<Rightarrow> (balance \<Rightarrow> 'c) \<Rightarrow> asset_id \<Rightarrow> batch_state \<Rightarrow> batch_state \<Rightarrow> bool"
  for hash commit um where
  block_open: "position_open_check_stateless p = Inr () \<Longrightarrow> position_open_execute hash um p (bs_dex s) = Inr d
     \<Longrightarrow> batch_step hash commit um s (s\<lparr>bs_dex := d\<rparr>)"
| block_close: "position_close_execute i (bs_dex s) = Inr d \<Longrightarrow> batch_step hash commit um s (s\<lparr>bs_dex := d\<rparr>)"
| block_withdraw: "position_withdraw_execute commit um i c n (bs_dex s) = Inr d \<Longrightarrow> batch_step hash commit um s (s\<lparr>bs_dex := d\<rparr>)"
| block_reward: "reward_position um i a (bs_dex s) = Inr d \<Longrightarrow> batch_step hash commit um s (s\<lparr>bs_dex := d\<rparr>)"
| block_swap: "swap_check_stateless verified b = Inr () \<Longrightarrow> swap_execute inserted source b s = Inr t \<Longrightarrow> batch_step hash commit um s t"
| block_fee: "pay_fee um g x (bs_fees s) = Inr y \<Longrightarrow> batch_step hash commit um s (s\<lparr>bs_fees := y\<rparr>)"
| block_end: "block_end_ready um h s \<Longrightarrow> permuting sched \<Longrightarrow> dex_end_block hash um sched h s = Inr t
     \<Longrightarrow> batch_step hash commit um s (next_block height epoch start t)"

inductive batch_reachable :: "(u8 list \<Rightarrow> u8 list) \<Rightarrow> (balance \<Rightarrow> 'c) \<Rightarrow> asset_id \<Rightarrow> batch_state \<Rightarrow> bool"
  for hash commit um where
  block_genesis: "batch_reachable hash commit um (batch_genesis ps fps)"
| block_step: "batch_reachable hash commit um s \<Longrightarrow> batch_step hash commit um s t \<Longrightarrow> batch_reachable hash commit um t"

lemma genesis_batch_inv: "batch_inv hash (batch_genesis ps fps)"
proof -
  have "dex_inv hash (dex_init_chain (Some ps) dex_empty)" by (rule genesis_inv)
  then have "graph_ok hash (dex_init_chain (Some ps) dex_empty)" "dex_params (dex_init_chain (Some ps) dex_empty) \<noteq> None"
    by (auto simp: dex_inv_graph dex_inv_def)
  then show ?thesis
    by (simp add: batch_inv_def batch_genesis_def covered_def queue_opened_def bt_wf_Nil fee_init_chain_def put_fee_params_def fee_empty_def)
      (simp add: dex_init_chain_def put_dex_params_def dex_empty_def tally_def)
qed

text \<open>What the circuit breaker holds beyond the reserves and the pending flows does not change.\<close>

definition same_surplus :: "batch_state \<Rightarrow> batch_state \<Rightarrow> bool" where
  "same_surplus s t \<longleftrightarrow> (\<forall>k. vcb_balance (bs_dex t) k + (tally (holdings k) (positions (bs_dex s)) + pending_in k (swap_flows s))
     = vcb_balance (bs_dex s) k + (tally (holdings k) (positions (bs_dex t)) + pending_in k (swap_flows t)))"

text \<open>An operation of the position manager keeps the invariant when it moves the circuit breaker by as much as the holdings.\<close>

lemma batch_inv_dex:
  assumes inv: "batch_inv hash s" and d: "dex_inv hash d"
    and bal: "\<And>k. tally (holdings k) (positions d) + vcb_balance (bs_dex s) k = tally (holdings k) (positions (bs_dex s)) + vcb_balance d k"
    and queue: "queue_opened d"
  shows "batch_inv hash (s\<lparr>bs_dex := d\<rparr>) \<and> same_surplus s (s\<lparr>bs_dex := d\<rparr>)"
proof -
  note I = batch_invD [OF inv]
  have "covered d (\<lambda>k. pending_in k (swap_flows s))"
    unfolding covered_def
  proof
    show "tally (holdings k) (positions d) + pending_in k (swap_flows s) \<le> vcb_balance d k" for k
      using I(3) [unfolded covered_def, rule_format, of k] bal [of k] by linarith
  qed
  then have "batch_inv hash (s\<lparr>bs_dex := d\<rparr>)" using I queue d by (simp add: batch_inv_def dex_inv_graph) (simp add: dex_inv_def)
  moreover have "same_surplus s (s\<lparr>bs_dex := d\<rparr>)" using bal by (simp add: same_surplus_def add.commute)
  ultimately show ?thesis ..
qed

lemma queue_opened_kept:
  assumes "queue_opened d" "set (pending_closures e) \<subseteq> set (pending_closures d)"
    and "\<And>i p. positions d i = Some p \<Longrightarrow> p_state p = Opened \<Longrightarrow> \<exists>q. positions e i = Some q \<and> p_state q = Opened"
  shows "queue_opened e"
  using assms unfolding queue_opened_def by blast

lemma one_position_books:
  assumes "finite (dom (positions d))" "positions e = (positions d)(i := Some q)"
    and "\<And>k. holdings k q + vcb_balance d k = prev_value (holdings k) (positions d i) + vcb_balance e k"
  shows "tally (holdings k) (positions e) + vcb_balance d k = tally (holdings k) (positions d) + vcb_balance e k"
  using tally_update [OF assms(1), of "holdings k" i q] assms(3) [of k] by (simp add: assms(2))

lemma batch_open:
  assumes "batch_inv hash s" "position_open_check_stateless p = Inr ()" "position_open_execute hash um p (bs_dex s) = Inr d"
  shows "batch_inv hash (s\<lparr>bs_dex := d\<rparr>) \<and> same_surplus s (s\<lparr>bs_dex := d\<rparr>)"
proof (rule batch_inv_dex [OF assms(1)])
  note I = batch_invD [OF assms(1)]
  have "good_step hash (bs_dex s) d" by (rule good_open [OF I(7) assms(2,3)])
  then show "dex_inv hash d" by (simp add: good_step_def)
  from assms(3) have "open_position hash um p (bs_dex s) = Inr d" by (auto simp: position_open_execute_def and_then_Inr_iff)
  note e = open_position_effect [OF this]
  show "tally (holdings k) (positions d) + vcb_balance (bs_dex s) k = tally (holdings k) (positions (bs_dex s)) + vcb_balance d k" for k
    by (rule one_position_books [OF indexes_okD(1) [OF dex_invD(1) [OF I(7)]] e(3)]) (simp add: e(2,4) prev_value_def)
  show "queue_opened d" by (rule queue_opened_kept [OF I(5)]) (use e(2,3,5) in auto)
qed

lemma batch_close:
  assumes "batch_inv hash s" "position_close_execute i (bs_dex s) = Inr d"
  shows "batch_inv hash (s\<lparr>bs_dex := d\<rparr>) \<and> same_surplus s (s\<lparr>bs_dex := d\<rparr>)"
proof (rule batch_inv_dex [OF assms(1)])
  note I = batch_invD [OF assms(1)]
  have q: "queue_close_position i (bs_dex s) = Inr d" using assms(2) by (simp add: position_close_execute_def)
  have e: "same_indexes (bs_dex s) d" "dex_vcb d = dex_vcb (bs_dex s)" "dex_params d = dex_params (bs_dex s)" using queue_effect [OF q] by auto
  have pos: "positions d = positions (bs_dex s)" using e(1) by (simp add: same_indexes_def)
  have "solvent d" using dex_invD(2) [OF I(7)] by (simp only: solvent_same [OF pos e(2)])
  then show "dex_inv hash d"
    using I(7) e(3) pos indexes_ok_same [OF e(1)] by (simp add: dex_inv_def)
  show "tally (holdings k) (positions d) + vcb_balance (bs_dex s) k = tally (holdings k) (positions (bs_dex s)) + vcb_balance d k" for k
    by (simp add: pos e(2) vcb_balance_def)
  from q obtain p where "positions (bs_dex s) i = Some p"
    "p_state p = Opened \<and> d = (bs_dex s)\<lparr>pending_closures := pending_closures (bs_dex s) @ [i]\<rparr> \<or> d = bs_dex s"
    by (auto simp: queue_close_position_def and_then_Inr_iff ok_or_Inr_iff position_by_id_def split: if_splits)
  then show "queue_opened d" using I(5) by (auto simp: queue_opened_def)
qed

lemma batch_withdraw:
  assumes "batch_inv hash s" "position_withdraw_execute commit um i c n (bs_dex s) = Inr d"
  shows "batch_inv hash (s\<lparr>bs_dex := d\<rparr>) \<and> same_surplus s (s\<lparr>bs_dex := d\<rparr>)"
proof (rule batch_inv_dex [OF assms(1)])
  note I = batch_invD [OF assms(1)]
  obtain b where w: "withdraw_position um i n (bs_dex s) = Inr (b, d)"
    using assms(2) by (auto simp: position_withdraw_execute_def and_then_prod_Inr_iff split: if_splits)
  have "good_step hash (bs_dex s) d" by (rule good_withdraw [OF I(7) w])
  then show "dex_inv hash d" by (simp add: good_step_def)
  obtain p where p: "positions (bs_dex s) i = Some p"
    "n = 0 \<and> p_state p = Closed \<or> n \<noteq> 0 \<and> p_state p = Withdrawn (n - 1)"
    "positions d = (positions (bs_dex s))(i := Some (p\<lparr>p_state := Withdrawn n, p_reserves := reserves_zero\<rparr>))"
    "\<And>k. vcb_balance d k + holdings k p = vcb_balance (bs_dex s) k" "pending_closures d = pending_closures (bs_dex s)"
  proof (rule withdraw_position_effect [OF w], goal_cases)
    case (1 p)
    show ?case by (rule 1(1)) (fact 1)+
  qed
  have zero: "holdings k (p\<lparr>p_state := Withdrawn n, p_reserves := reserves_zero\<rparr>) = 0" for k by (simp add: holdings_def reserves_zero_def)
  show "tally (holdings k) (positions d) + vcb_balance (bs_dex s) k = tally (holdings k) (positions (bs_dex s)) + vcb_balance d k" for k
  proof (rule one_position_books [OF indexes_okD(1) [OF dex_invD(1) [OF I(7)]] p(3)])
    show "holdings k (p\<lparr>p_state := Withdrawn n, p_reserves := reserves_zero\<rparr>) + vcb_balance (bs_dex s) k
        = prev_value (holdings k) (positions (bs_dex s) i) + vcb_balance d k" for k
      using p(1) p(4) [of k] zero [of k] by (simp add: prev_value_def)
  qed
  show "queue_opened d" by (rule queue_opened_kept [OF I(5)]) (use p(1,2,3,5) in auto)
qed

lemma batch_reward:
  assumes "batch_inv hash s" "reward_position um i a (bs_dex s) = Inr d"
  shows "batch_inv hash (s\<lparr>bs_dex := d\<rparr>) \<and> same_surplus s (s\<lparr>bs_dex := d\<rparr>)"
  using assms(2)
proof (cases rule: reward_position_effect)
  case (1 p)
  with assms(1) show ?thesis by (simp add: same_surplus_def)
next
  case (2 p rs)
  note I = batch_invD [OF assms(1)]
  have dp: "distinct_assets p" using indexes_okD(2) [OF dex_invD(1) [OF I(7)] 2(1)] by (simp add: position_ok_def)
  show ?thesis
  proof (rule batch_inv_dex [OF assms(1)])
    have "good_step hash (bs_dex s) d" by (rule good_reward [OF I(7) assms(2)])
    then show "dex_inv hash d" by (simp add: good_step_def)
    show "tally (holdings k) (positions d) + vcb_balance (bs_dex s) k = tally (holdings k) (positions (bs_dex s)) + vcb_balance d k" for k
      by (rule one_position_books [OF indexes_okD(1) [OF dex_invD(1) [OF I(7)]] 2(3)]) (simp add: 2(1,4) 2(5) [OF dp] prev_value_def)
    show "queue_opened d" by (rule queue_opened_kept [OF I(5)]) (use 2(1,3,6) in auto)
  qed
qed

lemma add_recent_keeps: "same_indexes d (add_recently_accessed_asset k f d)" "dex_vcb (add_recently_accessed_asset k f d) = dex_vcb d"
  "dex_params (add_recently_accessed_asset k f d) = dex_params d" "pending_closures (add_recently_accessed_asset k f d) = pending_closures d"
  "epoch_index (add_recently_accessed_asset k f d) = epoch_index d"
  by (simp_all add: add_recently_accessed_asset_def same_indexes_def)

lemma graph_ok_same: "same_indexes d e \<Longrightarrow> graph_ok hash e = graph_ok hash d"
  using indexes_ok_same [of d e] by (simp add: graph_ok_def same_indexes_def)

lemma batch_swap:
  assumes "batch_inv hash s" "swap_execute inserted source b s = Inr t"
  shows "batch_inv hash t \<and> same_surplus s t"
proof -
  note I = batch_invD [OF assms(1)]
  obtain u x and ps :: dex_parameters where u: "accumulate_swap_flow (sw_pair b) (sw_delta_1 b, sw_delta_2 b) s = Inr u"
    and t: "t = u\<lparr>pending_payloads := x, bs_dex := add_recently_accessed_asset (asset_2 (sw_pair b)) (fixed_candidates ps)
                        (add_recently_accessed_asset (asset_1 (sw_pair b)) (fixed_candidates ps) (bs_dex u))\<rparr>"
    using assms(2) by (auto simp: swap_execute_def and_then_Inr_iff add_swap_payload_def)
  note U = accumulate_effect [OF u I(4,3)]
  have d: "same_indexes (bs_dex u) (bs_dex t)" "dex_vcb (bs_dex t) = dex_vcb (bs_dex u)"
    "dex_params (bs_dex t) = dex_params (bs_dex u)" "pending_closures (bs_dex t) = pending_closures (bs_dex u)"
    using same_indexes_trans [OF add_recent_keeps(1) add_recent_keeps(1)] by (simp_all add: t add_recent_keeps(2-))
  then have pos: "positions (bs_dex t) = positions (bs_dex u)" by (simp add: same_indexes_def)
  with d(2,4) U(4) same_but_vcb_keeps(3) [OF U(1)] I(5) have "covered (bs_dex t) (\<lambda>k. pending_in k (swap_flows t))" "queue_opened (bs_dex t)"
    by (simp_all add: covered_def vcb_balance_def queue_opened_def t)
  moreover have "graph_ok hash (bs_dex t)" using I(1) same_but_vcb_keeps(2) [OF U(1)] graph_ok_same [OF d(1)] by simp
  ultimately have "batch_inv hash t"
    using I(2,6) U(3,5) d(3) same_but_vcb_keeps(4) [OF U(1)] by (simp add: batch_inv_def t)
  moreover have "same_surplus s t"
    unfolding same_surplus_def
  proof
    have "vcb_balance (bs_dex t) k = vcb_balance (bs_dex u) k" for k using d(2) by (simp add: vcb_balance_def)
    then show "vcb_balance (bs_dex t) k + (tally (holdings k) (positions (bs_dex s)) + pending_in k (swap_flows s))
        = vcb_balance (bs_dex s) k + (tally (holdings k) (positions (bs_dex t)) + pending_in k (swap_flows t))" for k
      using U(2) [of k] U(7) [of k] pos same_but_vcb_keeps(1) [OF U(1)] by (simp add: t)
  qed
  ultimately show ?thesis ..
qed

lemma pay_fee_wf: "pay_fee um g x y = Inr z \<Longrightarrow> bt_wf (fee_accumulator y) \<Longrightarrow> bt_wf (fee_accumulator z)"
  by (auto simp: pay_fee_cases accumulate_wf split: option.splits if_splits)

lemma block_ended_next:
  "block_ended hash um h s t \<Longrightarrow> batch_inv hash (next_block height epoch start t) \<and> same_surplus s (next_block height epoch start t)"
proof -
  assume e: "block_ended hash um h s t"
  let ?d = "bs_dex (next_block height epoch start t)"
  have inv: "dex_inv hash (bs_dex t)" using e by (simp add: block_ended_def)
  have "same_indexes (bs_dex t) ?d" "positions ?d = positions (bs_dex t)" "vcb_balance ?d k = vcb_balance (bs_dex t) k" for k
    by (simp_all add: next_block_def same_indexes_def vcb_balance_def)
  then have "batch_inv hash (next_block height epoch start t)" "same_surplus s (next_block height epoch start t)"
    using graph_ok_same [of "bs_dex t" ?d hash] dex_inv_graph [OF inv] dex_invD(2,3) [OF inv] e
    by (simp_all add: batch_inv_def covered_def solvent_def same_surplus_def block_ended_def)
      (simp_all add: next_block_def queue_opened_def bt_wf_Nil add.assoc)
  then show ?thesis ..
qed

lemma batch_step_inv: "batch_step hash commit um s t \<Longrightarrow> batch_inv hash s \<Longrightarrow> batch_inv hash t \<and> same_surplus s t"
proof (induction rule: batch_step.induct)
  case (block_fee g x s y)
  then show ?case using pay_fee_wf [OF block_fee(1)] by (simp add: batch_inv_def same_surplus_def)
next
  case (block_end h s sched t height epoch start)
  obtain u where "dex_end_block hash um sched h s = Inr u" "block_ended hash um h s u"
    using end_block_spec [OF block_end(4,1)] block_end(2) by blast
  with block_end(3) show ?case using block_ended_next by simp
qed (rule batch_open batch_close batch_withdraw batch_reward batch_swap; assumption)+

text \<open>The circuit breaker holds the reserves and the pending flows, and nothing else.\<close>

definition books_exact :: "batch_state \<Rightarrow> bool" where
  "books_exact s \<longleftrightarrow> (\<forall>k. vcb_balance (bs_dex s) k = tally (holdings k) (positions (bs_dex s)) + pending_in k (swap_flows s))"

lemma genesis_books: "books_exact (batch_genesis ps fps)"
  by (simp add: books_exact_def batch_genesis_def dex_init_chain_def put_dex_params_def dex_empty_def tally_def vcb_balance_def)

lemma surplus_books: "same_surplus s t \<Longrightarrow> books_exact s \<Longrightarrow> books_exact t"
  by (simp add: same_surplus_def books_exact_def)

lemma batch_reachable_inv: "batch_reachable hash commit um s \<Longrightarrow> batch_inv hash s \<and> books_exact s"
proof (induction rule: batch_reachable.induct)
  case (block_genesis ps fps)
  show ?case by (intro conjI genesis_batch_inv genesis_books)
next
  case (block_step s t)
  then show ?case using batch_step_inv surplus_books by blast
qed

end
