(* ===== verification/DexProperties.thy ===== *)
theory DexProperties
  imports DexMachine
begin

text \<open>
  The properties of the position manager, over the states that the steps of \<open>DexMachine\<close>
  reach from genesis, with witnesses on a concrete position between two assets.
\<close>

section \<open>A concrete run\<close>

definition demo_params :: dex_parameters where
  "demo_params = \<lparr>is_enabled = True, fixed_candidates = [], max_hops = 4, max_positions_per_pair = 1000,
     max_execution_budget = 64\<rparr>"

definition demo_position :: position where
  "demo_position = \<lparr>p_state = Opened, p_reserves = \<lparr>r1 = 100, r2 = 50\<rparr>,
     p_phi = trading_function_new (TradingPair (AssetId 1) (AssetId 2)) 30 1 2,
     p_nonce = replicate 32 0, close_on_fill = False\<rparr>"

definition demo_id :: position_id where
  "demo_id = position_id_of (\<lambda>x. x) demo_position"

definition demo_genesis :: dex_state where
  "demo_genesis = dex_init_chain (Some demo_params) dex_empty"

abbreviation demo_reachable :: "dex_state \<Rightarrow> bool" where
  "demo_reachable \<equiv> dex_reachable (\<lambda>x. x) (\<lambda>b :: balance. b) (AssetId 2)"

lemma demo_ok: "position_ok demo_position" "position_open_check_stateless demo_position = Inr ()"
proof -
  have c: "position_check_stateless demo_position = Inr ()"
    unfolding check_stateless_iff
    by (simp add: demo_position_def trading_function_new_def tradable_def)
  then show "position_ok demo_position" unfolding check_stateless_iff by (simp add: position_ok_def distinct_assets_def)
  from c show "position_open_check_stateless demo_position = Inr ()"
    by (simp add: position_open_check_stateless_def demo_position_def)
qed

lemma demo_opened: "\<exists>s. demo_reachable s \<and> positions s = [demo_id \<mapsto> demo_position] \<and> pending_closures s = []"
proof -
  have g: "demo_reachable demo_genesis" unfolding demo_genesis_def by (rule reach_genesis)
  have inv: "dex_inv (\<lambda>x. x) demo_genesis" unfolding demo_genesis_def by (rule genesis_inv)
  have small: "holdings k demo_position \<le> 100 + 50" for k
    by (simp add: holdings_def demo_position_def trading_function_new_def)
  have "\<exists>t. open_position (\<lambda>x. x) (AssetId 2) demo_position demo_genesis = Inr t"
  proof (rule open_position_total [OF inv _ demo_ok(1)])
    show "vcb_balance demo_genesis k + holdings k demo_position < 2 ^ 128" for k
      using small [of k] by (simp add: demo_genesis_def dex_init_chain_def put_dex_params_def dex_empty_def vcb_balance_def)
  qed (simp_all add: demo_genesis_def dex_init_chain_def put_dex_params_def dex_empty_def get_position_count_def
      demo_position_def)
  then obtain t where t: "open_position (\<lambda>x. x) (AssetId 2) demo_position demo_genesis = Inr t" ..
  have "position_open_execute (\<lambda>x. x) (AssetId 2) demo_position demo_genesis = Inr t"
    using t by (simp add: position_open_execute_def get_dex_params_def demo_genesis_def dex_init_chain_def
        put_dex_params_def demo_params_def)
  then have "dex_step (\<lambda>x. x) (\<lambda>b :: balance. b) (AssetId 2) demo_genesis t"
    by (rule step_open [OF demo_ok(2)])
  with g have "demo_reachable t" by (rule reach_step)
  moreover have "positions t = [demo_id \<mapsto> demo_position]" "pending_closures t = []"
    using open_position_effect(3,5) [OF t]
    by (simp_all add: demo_id_def demo_genesis_def dex_init_chain_def put_dex_params_def dex_empty_def)
  ultimately show ?thesis by blast
qed

lemma demo_queued:
  "\<exists>s. demo_reachable s \<and> positions s = [demo_id \<mapsto> demo_position] \<and> pending_closures s = [demo_id]"
proof -
  obtain s where s: "demo_reachable s" "positions s = [demo_id \<mapsto> demo_position]" "pending_closures s = []"
    using demo_opened by blast
  let ?t = "s\<lparr>pending_closures := [demo_id]\<rparr>"
  have "position_close_execute demo_id s = Inr ?t"
    using s by (simp add: position_close_execute_def queue_close_position_def position_by_id_def demo_position_def)
  then have "demo_reachable ?t" by (intro reach_step [OF s(1)] step_close)
  with s show ?thesis by (intro exI [of _ ?t]) simp
qed

lemma demo_closed: "\<exists>s. demo_reachable s \<and> positions s = [demo_id \<mapsto> demo_position\<lparr>p_state := Closed\<rparr>]"
proof -
  obtain s where s: "demo_reachable s" "positions s = [demo_id \<mapsto> demo_position]" using demo_opened by blast
  note inv = dex_invD [OF reachable_inv [OF s(1)]]
  have p: "positions s demo_id = Some demo_position" "p_state demo_position = Opened \<or> p_state demo_position = Closed"
    using s(2) by (simp_all add: demo_position_def)
  obtain t where "close_position_by_id (AssetId 2) demo_id s = Inr t"
    "positions t = (positions s)(demo_id := Some (demo_position\<lparr>p_state := Closed\<rparr>))"
    by (rule close_position_spec [OF inv(1,2) p])
  with s show ?thesis by (intro exI [of _ t]) (auto intro: reach_step step_close_by_id)
qed

section \<open>Properties\<close>



text \<open>C2: no step of the DEX moves a position backwards, skips a stage or changes its terms: along
  its life cycle (absent, opened, closed, withdrawn 0, withdrawn 1, ...) a position stays where
  it is or moves to the next stage, and its trading function and nonce never change.\<close>

theorem position_lifecycle:
  assumes "dex_reachable hash commit um s" "dex_step hash commit um s t"
  shows "(lifecycle_rank (positions t i) = lifecycle_rank (positions s i)
       \<or> lifecycle_rank (positions t i) = lifecycle_rank (positions s i) + 1)
    \<and> (\<forall>p. positions s i = Some p \<longrightarrow>
         (\<exists>q. positions t i = Some q \<and> p_phi q = p_phi p \<and> p_nonce q = p_nonce p))"
proof -
  have step: "position_step (positions s i) (positions t i)"
    using dex_step_good [OF assms(2) reachable_inv [OF assms(1)]] by (simp add: good_step_def)
  have "\<exists>q. positions t i = Some q \<and> p_phi q = p_phi p \<and> p_nonce q = p_nonce p" if "positions s i = Some p" for p
    using step unfolding that by (rule position_step_fixed)
  with position_step_rank [OF step] show ?thesis by blast
qed

theorem position_lifecycle_witness:
  "\<exists>s t. demo_reachable s \<and> positions s demo_id = Some demo_position
     \<and> position_close_execute demo_id s = Inr t \<and> lifecycle_rank (positions t demo_id) \<in> {1, 2}"
proof -
  obtain s where s: "demo_reachable s" "positions s = [demo_id \<mapsto> demo_position]" using demo_opened by blast
  let ?t = "s\<lparr>pending_closures := pending_closures s @ [demo_id]\<rparr>"
  have t: "position_close_execute demo_id s = Inr ?t"
    using s(2) by (simp add: position_close_execute_def queue_close_position_def position_by_id_def demo_position_def)
  have "lifecycle_rank (positions s demo_id) = 1" by (simp add: s(2) demo_position_def)
  with position_lifecycle [OF s(1) step_close [OF t], of demo_id] s t show ?thesis
    by (intro exI [of _ s] exI [of _ ?t]) auto
qed


definition quote_function :: "position \<Rightarrow> directed_pair \<Rightarrow> bare_trading_function option" where
  "quote_function p d =
     (if d = pair_12 (tf_pair (p_phi p)) \<and> r2 (p_reserves p) \<noteq> 0 then Some (tf_component (p_phi p))
      else if d = pair_21 (tf_pair (p_phi p)) \<and> r1 (p_reserves p) \<noteq> 0 then Some (bare_flip (tf_component (p_phi p)))
      else None)"

lemma price_entry_quote:
  assumes "position_ok p"
  shows "price_entry p d k = (if p_state p = Opened \<and>
      (\<exists>f. quote_function p d = Some f \<and> effective_price_key_bytes f = Inr k) then Some p else None)"
  using pair_12_neq_21 [of p] assms
  by (auto simp: price_entry_def quote_function_def position_ok_def)

text \<open>C3: the price index holds, for every directed pair and in increasing order of the price key,
  exactly the opened positions that have something to give in that direction, each under the
  key of its effective price.\<close>

theorem price_index_exact:
  assumes "dex_reachable hash commit um s"
  shows "sorted_wrt (<) (map fst (price_index s d)) \<and>
    (\<forall>k i p. ((k, i), p) \<in> set (price_index s d) \<longleftrightarrow>
      positions s i = Some p \<and> p_state p = Opened \<and>
      (\<exists>f. quote_function p d = Some f \<and> effective_price_key_bytes f = Inr k))"
proof -
  note inv = indexes_okD [OF dex_invD(1) [OF reachable_inv [OF assms]]]
  show ?thesis
    using price.index_sorted [OF inv(4)] price.in_index_iff [OF inv(4)] inv(2)
    by (auto simp: price_entry_quote split: if_splits)
qed

theorem price_index_exact_witness:
  "\<exists>s :: dex_state. \<exists>k. ((k, demo_id), demo_position) \<in> set (price_index s (DirectedPair (AssetId 1) (AssetId 2)))"
proof -
  obtain s where s: "demo_reachable s" "positions s = [demo_id \<mapsto> demo_position]" using demo_opened by blast
  have q: "quote_function demo_position (DirectedPair (AssetId 1) (AssetId 2)) = Some (tf_component (p_phi demo_position))"
    by (simp add: quote_function_def demo_position_def trading_function_new_def pair_12_def)
  have "tradable (tf_component (p_phi demo_position))" using demo_ok(1) by (simp add: position_ok_def)
  then obtain x where "effective_price (tf_component (p_phi demo_position)) = Inr x"
    by (rule effective_prices_total)
  then have "effective_price_key_bytes (tf_component (p_phi demo_position)) = Inr (fp_to_bytes x)"
    by (simp add: effective_price_key_bytes_def)
  with q s(2) price_index_exact [OF s(1), of "DirectedPair (AssetId 1) (AssetId 2)"]
  have "((fp_to_bytes x, demo_id), demo_position) \<in> set (price_index s (DirectedPair (AssetId 1) (AssetId 2)))"
    by (simp add: demo_position_def)
  then show ?thesis by blast
qed

lemma quote_price:
  assumes "position_ok p" "quote_function p d = Some f"
  obtains x where "effective_price f = Inr x" "effective_price_key_bytes f = Inr (fp_to_bytes x)"
proof -
  have "tradable f"
    using assms by (auto simp: quote_function_def position_ok_def tradable_flip split: if_splits)
  then obtain x where "effective_price f = Inr x" by (rule effective_prices_total)
  with that show ?thesis by (simp add: effective_price_key_bytes_def)
qed

lemma best_position_cases:
  assumes ok: "indexes_ok s"
  shows "best_position d s = None \<Longrightarrow> positions s j = Some q \<Longrightarrow> p_state q = Opened \<Longrightarrow> quote_function q d = None"
    and "best_position d s = Some (i, p) \<Longrightarrow> positions s i = Some p \<and> p_state p = Opened \<and>
      (\<exists>f x. quote_function p d = Some f \<and> effective_price f = Inr x \<and>
        (\<forall>j q g. positions s j = Some q \<and> p_state q = Opened \<and> quote_function q d = Some g \<longrightarrow>
          (\<exists>y. effective_price g = Inr y \<and> x \<le> y)))"
proof -
  note inv = indexes_okD [OF ok]
  have mem: "((k, i), p) \<in> set (price_index s d) \<longleftrightarrow> positions s i = Some p \<and> p_state p = Opened \<and>
      (\<exists>f. quote_function p d = Some f \<and> effective_price_key_bytes f = Inr k)" for k i p
    using price.in_index_iff [OF inv(4)] inv(2) by (auto simp: price_entry_quote split: if_splits)
  have quoted: "\<exists>k. ((k, j), q) \<in> set (price_index s d)"
    if "positions s j = Some q" "p_state q = Opened" "quote_function q d = Some g" for j q g
    using quote_price [OF inv(2) [OF that(1)] that(3)] that mem by metis
  show "quote_function q d = None" if b: "best_position d s = None" and q: "positions s j = Some q" "p_state q = Opened"
  proof (cases "quote_function q d")
    case (Some g)
    with quoted [OF q] b show ?thesis
      by (auto simp: best_position_def positions_by_price_def split: list.splits)
  qed
  assume "best_position d s = Some (i, p)"
  then obtain k rest where idx: "price_index s d = ((k, i), p) # rest"
    by (auto simp: best_position_def positions_by_price_def split: list.splits)
  then have ip: "positions s i = Some p" "p_state p = Opened" using mem [of k i p] by auto
  obtain f where f: "quote_function p d = Some f" "effective_price_key_bytes f = Inr k"
    using mem [of k i p] idx by auto
  obtain x where x: "effective_price f = Inr x" "effective_price_key_bytes f = Inr (fp_to_bytes x)"
    by (rule quote_price [OF inv(2) [OF ip(1)] f(1)])
  have "\<exists>y. effective_price g = Inr y \<and> x \<le> y"
    if q: "positions s j = Some q" "p_state q = Opened" "quote_function q d = Some g" for j q g
  proof -
    obtain y where y: "effective_price g = Inr y" "effective_price_key_bytes g = Inr (fp_to_bytes y)"
      by (rule quote_price [OF inv(2) [OF q(1)] q(3)])
    have "((fp_to_bytes y, j), q) \<in> set (price_index s d)" using mem q y(2) by blast
    with idx have "((fp_to_bytes y, j), q) = ((k, i), p) \<or> (k, i) < (fp_to_bytes y, j)"
      using price.index_sorted [OF inv(4), of d] by auto
    then have "k \<le> fp_to_bytes y" by (auto simp: less_prod_def)
    then have "fp_to_bytes x \<le> fp_to_bytes y" using x(2) f(2) by simp
    then have "x \<le> y" using fp_to_bytes_less_iff [of y x] by (simp add: not_less [symmetric])
    with y(1) show ?thesis by blast
  qed
  with ip f(1) x(1) show "positions s i = Some p \<and> p_state p = Opened \<and>
      (\<exists>f x. quote_function p d = Some f \<and> effective_price f = Inr x \<and>
        (\<forall>j q g. positions s j = Some q \<and> p_state q = Opened \<and> quote_function q d = Some g \<longrightarrow>
          (\<exists>y. effective_price g = Inr y \<and> x \<le> y)))" by blast
qed

text \<open>C4: the best position of a directed pair is an opened position that quotes the pair at a
  price no higher than any other opened position does, and there is none only when no opened
  position quotes the pair.\<close>

theorem best_position_best:
  assumes "dex_reachable hash commit um s"
  shows "case best_position d s of
      None \<Rightarrow> (\<forall>j q. positions s j = Some q \<and> p_state q = Opened \<longrightarrow> quote_function q d = None)
    | Some (i, p) \<Rightarrow> positions s i = Some p \<and> p_state p = Opened \<and>
        (\<exists>f x. quote_function p d = Some f \<and> effective_price f = Inr x \<and>
          (\<forall>j q g. positions s j = Some q \<and> p_state q = Opened \<and> quote_function q d = Some g \<longrightarrow>
            (\<exists>y. effective_price g = Inr y \<and> x \<le> y)))"
proof -
  note c = best_position_cases [OF dex_invD(1) [OF reachable_inv [OF assms]], of d]
  show ?thesis
  proof (cases "best_position d s")
    case None
    with c(1) show ?thesis by auto
  next
    case (Some ip)
    obtain i p where ip: "ip = (i, p)" by fastforce
    show ?thesis using c(2) [of i p] Some unfolding ip by simp
  qed
qed

theorem best_position_best_witness:
  "\<exists>s :: dex_state. best_position (DirectedPair (AssetId 1) (AssetId 2)) s = Some (demo_id, demo_position)"
proof -
  obtain s where s: "demo_reachable s" "positions s = [demo_id \<mapsto> demo_position]" using demo_opened by blast
  have q: "quote_function demo_position (DirectedPair (AssetId 1) (AssetId 2)) \<noteq> None" "p_state demo_position = Opened"
    by (simp_all add: quote_function_def demo_position_def trading_function_new_def pair_12_def)
  show ?thesis
    using best_position_best [OF s(1), of "DirectedPair (AssetId 1) (AssetId 2)"] s(2) q
    by (intro exI [of _ s]) (auto split: option.splits if_splits)
qed

lemma bookkeeping_facts:
  assumes "dex_reachable hash commit um s"
  shows "unat (get_position_count t s) = card {i. \<exists>p. positions s i = Some p \<and> p_state p = Opened \<and> tf_pair (p_phi p) = t}"
    (is ?count)
    and "unat (get_or (base_liquidity s d) 0) = (\<Sum>i \<in> dom (positions s). liquidity_of d (the (positions s i)))"
    (is ?liquidity)
    and "sorted_wrt (<) (map fst (inventory_index s d)) \<and>
      (\<forall>a i. ((amount_to_be_bytes a, i), ()) \<in> set (inventory_index s d) \<longleftrightarrow>
        (\<exists>p. positions s i = Some p \<and> p_state p = Opened \<and>
          (d = pair_12 (tf_pair (p_phi p)) \<and> a = r1 (p_reserves p) \<or>
           d = pair_21 (tf_pair (p_phi p)) \<and> a = r2 (p_reserves p))))" (is ?inventory)
proof -
  note inv = indexes_okD [OF dex_invD(1) [OF reachable_inv [OF assms]]]
  have "tally (opened_count t) (positions s) =
      card {i. \<exists>p. positions s i = Some p \<and> p_state p = Opened \<and> tf_pair (p_phi p) = t}"
  proof -
    have "tally (opened_count t) (positions s)
        = (\<Sum>i \<in> {i \<in> dom (positions s). p_state (the (positions s i)) = Opened \<and> tf_pair (p_phi (the (positions s i))) = t}. 1)"
      unfolding tally_def opened_count_def using inv(1) by (simp add: sum.If_cases Int_def)
    also have "\<dots> = card {i. \<exists>p. positions s i = Some p \<and> p_state p = Opened \<and> tf_pair (p_phi p) = t}"
      unfolding card_eq_sum by (rule sum.cong) (auto simp: dom_def)
    finally show ?thesis .
  qed
  with inv(5) show ?count by simp
  show ?liquidity using inv(6) by (simp add: tally_def)
  have inj: "amount_to_be_bytes a = amount_to_be_bytes b \<longleftrightarrow> a = b" for a b :: amount
    by (simp add: amount_to_be_bytes_def be_bytes_def amount_to_le_bytes_def [symmetric] amount_le_bytes_inject)
  show ?inventory
    using inventory.index_sorted [OF inv(3)] inventory.in_index_iff [OF inv(3)]
    by (auto simp: inventory_entry_def inj split: if_splits)
qed

text \<open>C5: the bookkeeping indexes agree with the stored positions in every reachable state: the
  counter of a pair is the number of its opened positions, the aggregate base liquidity of a
  directed pair is the sum of what its opened positions hold of the start asset, and the
  inventory index lists exactly the opened positions by those amounts, in increasing order.\<close>

theorem bookkeeping_exact:
  assumes "dex_reachable hash commit um s"
  shows "unat (get_position_count t s) = card {i. \<exists>p. positions s i = Some p \<and> p_state p = Opened \<and> tf_pair (p_phi p) = t}
    \<and> unat (get_or (base_liquidity s d) 0) = (\<Sum>i \<in> dom (positions s). liquidity_of d (the (positions s i)))
    \<and> sorted_wrt (<) (map fst (inventory_index s d))
    \<and> (\<forall>a i. ((amount_to_be_bytes a, i), ()) \<in> set (inventory_index s d) \<longleftrightarrow>
        (\<exists>p. positions s i = Some p \<and> p_state p = Opened \<and>
          (d = pair_12 (tf_pair (p_phi p)) \<and> a = r1 (p_reserves p) \<or>
           d = pair_21 (tf_pair (p_phi p)) \<and> a = r2 (p_reserves p))))"
  using bookkeeping_facts [OF assms] by blast

theorem bookkeeping_exact_witness:
  "\<exists>s :: dex_state. unat (get_position_count (TradingPair (AssetId 1) (AssetId 2)) s) = 1
     \<and> unat (get_or (base_liquidity s (DirectedPair (AssetId 1) (AssetId 2))) 0) = 100
     \<and> ((amount_to_be_bytes 100, demo_id), ()) \<in> set (inventory_index s (DirectedPair (AssetId 1) (AssetId 2)))"
proof -
  obtain s where s: "demo_reachable s" "positions s = [demo_id \<mapsto> demo_position]" using demo_opened by blast
  have "{i. \<exists>p. positions s i = Some p \<and> p_state p = Opened \<and> tf_pair (p_phi p) = TradingPair (AssetId 1) (AssetId 2)} = {demo_id}"
    by (auto simp: s(2) demo_position_def trading_function_new_def split: if_splits)
  then show ?thesis
    using bookkeeping_exact [OF s(1), where t = "TradingPair (AssetId 1) (AssetId 2)"
        and d = "DirectedPair (AssetId 1) (AssetId 2)"] s(2)
    by (intro exI [of _ s])
      (simp add: demo_position_def trading_function_new_def liquidity_of_def pair_12_def pair_21_def)
qed

text \<open>C6: in every reachable state a withdrawal with sequence number \<open>n\<close> goes through exactly when
  the position is closed and \<open>n\<close> is zero, or was last withdrawn with \<open>n - 1\<close>; it pays out
  exactly what the position holds, takes the same from the circuit breaker, and leaves nothing.\<close>

theorem withdraw_exact:
  assumes "dex_reachable hash commit um s"
  shows "((\<exists>b t. withdraw_position um i n s = Inr (b, t)) \<longleftrightarrow>
      (\<exists>p. positions s i = Some p \<and> (n = 0 \<and> p_state p = Closed \<or> n \<noteq> 0 \<and> p_state p = Withdrawn (n - 1))))
    \<and> (\<forall>b t. withdraw_position um i n s = Inr (b, t) \<longrightarrow>
      (\<exists>p q. positions s i = Some p \<and> positions t i = Some q \<and>
        (\<forall>k. net b k = int (holdings k p) \<and> vcb_balance t k + holdings k p = vcb_balance s k \<and> holdings k q = 0)))"
proof -
  note inv = reachable_inv [OF assms]
  have "\<exists>p q. positions s i = Some p \<and> positions t i = Some q \<and>
        (\<forall>k. net b k = int (holdings k p) \<and> vcb_balance t k + holdings k p = vcb_balance s k \<and> holdings k q = 0)"
    if "withdraw_position um i n s = Inr (b, t)" for b t
    using withdraw_pays [OF inv that] by blast
  with withdraw_position_iff [OF inv, of um i n] show ?thesis unfolding withdrawable_def by blast
qed

theorem withdraw_exact_witness:
  "\<exists>s b t. positions s demo_id = Some (demo_position\<lparr>p_state := Closed\<rparr>)
     \<and> withdraw_position (AssetId 2) demo_id 0 s = Inr (b, t) \<and> net b (AssetId 1) = 100 \<and> net b (AssetId 2) = 50"
proof -
  obtain s where s: "demo_reachable s" "positions s = [demo_id \<mapsto> demo_position\<lparr>p_state := Closed\<rparr>]"
    using demo_closed by blast
  note w = withdraw_exact [OF s(1), of demo_id 0]
  then obtain b t where bt: "withdraw_position (AssetId 2) demo_id 0 s = Inr (b, t)" using s(2) by auto
  with w have "\<exists>p q. positions s demo_id = Some p \<and> (\<forall>k. net b k = int (holdings k p))" by blast
  then have "net b k = int (holdings k (demo_position\<lparr>p_state := Closed\<rparr>))" for k using s(2) by auto
  then have "net b (AssetId 1) = 100" "net b (AssetId 2) = 50"
    by (simp_all add: holdings_def demo_position_def trading_function_new_def)
  with bt s(2) show ?thesis by (intro exI [of _ s] exI [of _ b] exI [of _ t]) simp
qed

text \<open>closing the queued positions at the end of a block does not fail, as the code expects,
  whenever every queued position is stored and not yet withdrawn: it closes exactly those,
  empties the queue, and touches neither the other positions nor the circuit breaker.\<close>

theorem close_queued_succeeds:
  assumes "dex_reachable hash commit um s"
    and "\<forall>i \<in> set (pending_closures s). \<exists>p. positions s i = Some p \<and> (p_state p = Opened \<or> p_state p = Closed)"
  shows "\<exists>t. close_queued_positions um s = Inr t \<and> pending_closures t = [] \<and> dex_vcb t = dex_vcb s
    \<and> positions t = (\<lambda>i. if i \<in> set (pending_closures s) then map_option (p_state_update (\<lambda>_. Closed)) (positions s i)
        else positions s i)"
proof -
  note inv = dex_invD [OF reachable_inv [OF assms(1)]]
  obtain t where "try_fold (close_position_by_id um) (pending_closures s) s = Inr t" "same_frame s t"
    "positions t = (\<lambda>i. if i \<in> set (pending_closures s) then map_option (p_state_update (\<lambda>_. Closed)) (positions s i)
        else positions s i)"
    using close_list_spec [OF inv(1,2), of "pending_closures s" um] assms(2) by blast
  then show ?thesis by (simp add: close_queued_positions_def same_frame_def)
qed

theorem close_queued_succeeds_witness:
  "\<exists>s t. pending_closures s = [demo_id] \<and> close_queued_positions (AssetId 2) s = Inr t
     \<and> positions t demo_id = Some (demo_position\<lparr>p_state := Closed\<rparr>)"
proof -
  obtain s where s: "demo_reachable s" "positions s = [demo_id \<mapsto> demo_position]" "pending_closures s = [demo_id]"
    using demo_queued by blast
  have "\<forall>i \<in> set (pending_closures s). \<exists>p. positions s i = Some p \<and> (p_state p = Opened \<or> p_state p = Closed)"
    using s(2,3) by (simp add: demo_position_def)
  from close_queued_succeeds [OF s(1) this] obtain t where t: "close_queued_positions (AssetId 2) s = Inr t"
    "positions t = (\<lambda>i. if i \<in> set (pending_closures s) then map_option (p_state_update (\<lambda>_. Closed)) (positions s i)
        else positions s i)" by blast
  have "positions t demo_id = Some (demo_position\<lparr>p_state := Closed\<rparr>)" unfolding t(2) by (simp add: s(2,3))
  with t(1) s(3) show ?thesis by blast
qed

text \<open>C7: eviction never fails on a reachable state, and evicting a pair closes exactly the
  positions that are among the first \<open>M\<close> of both inventory orderings, where \<open>M\<close> is the number
  of opened positions of the pair beyond the limit; no other position changes.\<close>

theorem eviction_exact:
  assumes "dex_reachable hash commit um s"
  shows "(\<exists>t. evict_positions um s = Inr t) \<and>
    (\<exists>t. evict_pair um mx pair s = Inr t \<and> dex_vcb t = dex_vcb s \<and>
      (\<forall>i. positions t i =
        (let m = unat (get_position_count pair s) - unat mx
         in if i \<in> set (take m (map (snd \<circ> fst) (inventory_index s (pair_12 pair))))
               \<and> i \<in> set (take m (map (snd \<circ> fst) (inventory_index s (pair_21 pair))))
            then map_option (p_state_update (\<lambda>_. Closed)) (positions s i) else positions s i)))"
proof -
  note inv = dex_invD [OF reachable_inv [OF assms]]
  obtain t where "evict_positions um s = Inr t"
    by (rule evict_positions_spec [OF inv(1-3), where um = um])
  moreover obtain u where "evict_pair um mx pair s = Inr u" "same_frame s u"
    "positions u = (\<lambda>i. if i \<in> eviction_set mx pair s then map_option (p_state_update (\<lambda>_. Closed)) (positions s i)
        else positions s i)"
    using evict_pair_spec [OF inv(1,2), of um mx pair] by blast
  ultimately show ?thesis by (auto simp: same_frame_def eviction_set_def Let_def)
qed

theorem eviction_exact_witness:
  "\<exists>s t :: dex_state. positions s demo_id = Some demo_position
     \<and> evict_pair (AssetId 2) 0 (TradingPair (AssetId 1) (AssetId 2)) s = Inr t"
proof -
  obtain s where s: "demo_reachable s" "positions s = [demo_id \<mapsto> demo_position]" using demo_opened by blast
  from eviction_exact [OF s(1)] obtain t
    where "evict_pair (AssetId 2) 0 (TradingPair (AssetId 1) (AssetId 2)) s = Inr t" by blast
  moreover have "positions s demo_id = Some demo_position" by (simp add: s(2))
  ultimately show ?thesis by blast
qed

lemma amount_be_bytes_inject: "amount_to_be_bytes a = amount_to_be_bytes b \<longleftrightarrow> a = b"
  by (simp add: amount_to_be_bytes_def be_bytes_def amount_to_le_bytes_def [symmetric] amount_le_bytes_inject)

lemma routable_key_inject: "routable_key a = routable_key b \<longleftrightarrow> a = b"
  by (simp add: routable_key_def amount_be_bytes_inject)

text \<open>the ranking of routable assets loses assets. Its key under a start asset is only the
  amount of liquidity, so when two end assets reach the same aggregate the second one takes the
  first one's entry: the first still has its liquidity on record but is no longer routable.\<close>

theorem routable_assets_collide:
  assumes "b \<noteq> c" "x \<noteq> 0" "routable_assets s a = []"
    and "base_liquidity s (DirectedPair a b) = None" "base_liquidity s (DirectedPair a c) = None"
  shows "let t = update_base_liquidity_inner (DirectedPair a c) 0 x
             (update_base_liquidity_inner (DirectedPair a b) 0 x s)
         in base_liquidity t (DirectedPair a b) = Some x \<and> base_liquidity t (DirectedPair a c) = Some x
          \<and> routable_assets t a = [(routable_key x, c)]"
proof -
  have sat: "amount_saturating_add (amount_saturating_sub 0 0) x = x"
    using u128_less [of x] by (simp add: saturating_add_def saturating_sub_def)
  have ne: "routable_key 0 \<noteq> routable_key x" "x \<noteq> 0" using assms(2) by (auto simp: routable_key_inject)
  show ?thesis
    using assms(1,3-5) ne sat
    by (simp add: update_base_liquidity_inner_def Let_def del: amount_ops)
qed

theorem routable_assets_collide_witness:
  "routable_assets
     (update_base_liquidity_inner (DirectedPair (AssetId 0) (AssetId 2)) 0 9
       (update_base_liquidity_inner (DirectedPair (AssetId 0) (AssetId 1)) 0 9 dex_empty)) (AssetId 0)
   = [(routable_key 9, AssetId 2)]"
  using routable_assets_collide [of "AssetId 1" "AssetId 2" 9 dex_empty "AssetId 0"]
  by (simp add: dex_empty_def Let_def)

end
