(* ===== verification/FillProperties.thy ===== *)
theory FillProperties
  imports FillSpec DexProperties
begin

text \<open>
  The properties of \<open>fill_route\<close> over the reachable states of the DEX.
\<close>

section \<open>Properties\<close>

text \<open>C30: filling a trade along a route conserves value. On a reachable state whose positions
  leave room for the input in 128 bits, a filled route takes at most the input, takes it in the
  input asset and pays in the last asset of the route, and for every asset what the stored
  positions hold changes by exactly the input taken and the output paid; every position keeps its
  terms, and only opened ones change. A route is refused only as too short, because a
  hop has no position to load, or because a price computation of an opened position overflows; the function never
  panics.\<close>

theorem fill_route_conserves:
  assumes "dex_reachable hash commit um s"
    and "\<And>k. 2 * tally (holdings k) (positions s) + unat (v_amount input) < 2 ^ 128"
  shows "case fill_route hash um input hops spill s of
      Inl e \<Rightarrow> hops = [] \<and> e = InvalidRoute 1
        \<or> (\<exists>d. e = InsufficientLiquidity d \<and> frontier_load s (windows_pairs (v_asset input # hops)) = Inl e)
        \<or> (\<exists>i p. e = ExecutionOverflow i \<and> positions s i = Some p \<and> p_state p = Opened)
    | Inr (se, t) \<Rightarrow> v_amount (se_input se) \<le> v_amount input \<and> v_asset (se_input se) = v_asset input
        \<and> v_asset (se_output se) = last hops \<and> se_traces se \<noteq> []
        \<and> (\<forall>k. tally (holdings k) (positions t) + (if k = last hops then unat (v_amount (se_output se)) else 0)
             = tally (holdings k) (positions s) + (if k = v_asset input then unat (v_amount (se_input se)) else 0))
        \<and> (\<forall>i. traded_to (positions s i) (positions t i)) \<and> indexes_ok t \<and> dex_vcb t = dex_vcb s"
proof -
  note inv = dex_invD [OF reachable_inv [OF assms(1)]]
  have "case fill_route hash um input hops spill s of
      Inl e \<Rightarrow> hops = [] \<and> e = InvalidRoute 1
        \<or> (\<exists>d. e = InsufficientLiquidity d \<and> frontier_load s (windows_pairs (v_asset input # hops)) = Inl e)
        \<or> (\<exists>i p. e = ExecutionOverflow i \<and> positions s i = Some p \<and> p_state p = Opened)
    | Inr (se, t) \<Rightarrow> hops \<noteq> [] \<and> routed s input hops se t"
    by (rule fill_route_spec [OF inv(1) inv(4) assms(2)])
  then show ?thesis
    by (cases "fill_route hash um input hops spill s")
      (simp only: sum.case, simp only: sum.case split_beta routed_def same_books_def, blast)
qed

lemma demo_small:
  assumes "positions s = [demo_id \<mapsto> demo_position]"
  shows "tally (holdings k) (positions s) \<le> 150"
  using assms by (simp add: tally_def holdings_def demo_position_def trading_function_new_def)

theorem fill_route_conserves_witness:
  "\<exists>s. demo_reachable s \<and> positions s demo_id = Some demo_position \<and>
    (case fill_route (\<lambda>x. x) (AssetId 2) \<lparr>v_amount = 20, v_asset = AssetId 1\<rparr> [AssetId 2] None s of
       Inl e \<Rightarrow> e \<noteq> FillPanic | Inr (se, t) \<Rightarrow> v_amount (se_input se) \<le> 20 \<and> v_asset (se_output se) = AssetId 2)"
proof -
  obtain s where s: "demo_reachable s" "positions s = [demo_id \<mapsto> demo_position]" using demo_opened by blast
  let ?input = "\<lparr>v_amount = 20, v_asset = AssetId 1\<rparr> :: asset_value"
  have bound: "2 * tally (holdings k) (positions s) + unat (v_amount ?input) < 2 ^ 128" for k
    using demo_small [OF s(2), of k] by simp
  from fill_route_conserves [OF s(1) bound, of "[AssetId 2]" None] s show ?thesis
    by (intro exI [of _ s]) (auto split: sum.splits prod.splits)
qed

section \<open>Fuel\<close>

lemma fill_loop_mono:
  "fill_loop hash um spill fuel once input f \<noteq> Inr None \<Longrightarrow>
    fill_loop hash um spill (fuel + n) once input f = fill_loop hash um spill fuel once input f"
proof (induction fuel arbitrary: once input f)
  case (Suc fuel)
  then show ?case
    unfolding add_Suc fill_loop.simps Let_def
    by (intro and_then_cong refl) (auto intro!: and_then_cong split: if_splits)
qed simp

text \<open>C31: the filling loop terminates. On a reachable state, from a frontier loaded along a route
  and with room for the input, the loop gives one and the same result for every fuel above the
  number of entries in the price streams of the route, and it is neither out of fuel nor a panic.\<close>

theorem fill_route_terminates:
  assumes "dex_reachable hash commit um s" "hops \<noteq> []"
    and "\<And>k. 2 * tally (holdings k) (positions s) + unat (v_amount input) < 2 ^ 128"
    and "frontier_load s (windows_pairs (v_asset input # hops)) = Inr f"
  shows "\<exists>r. r \<noteq> Inr None \<and> r \<noteq> Inl FillPanic
    \<and> (\<forall>fuel > stream_size (fr_pairs f) (fr_streams f). fill_loop hash um spill fuel False input f = r)"
proof -
  note inv = dex_invD [OF reachable_inv [OF assms(1)]]
  let ?ds = "windows_pairs (v_asset input # hops)" and ?n = "stream_size (fr_pairs f) (fr_streams f)"
  have "(\<exists>d. frontier_load s ?ds = Inl (InsufficientLiquidity d))
    \<or> (\<exists>f. frontier_load s ?ds = Inr f \<and> loop_ok hash s (unat (v_amount input)) f \<and> frontier_live hash s f
        \<and> fr_pairs f = ?ds \<and> fr_trace f = [])"
    by (rule frontier_load_spec [OF inv(1) inv(4) assms(2)])
  then have f: "loop_ok hash s (unat (v_amount input)) f" "frontier_live hash s f" "fr_pairs f = ?ds" "fr_trace f = []"
    using assms(4) by auto
  have start: "v_asset input = route_start f"
    using windows_pairs_ends(3) [OF assms(2), of "v_asset input"] f(3) by (simp add: route_node_def)
  have "traded_in f + unat (v_amount input) = unat (v_amount input)" using f(4) by (simp add: traded_in_def)
  then have r: "fill_loop hash um spill (Suc ?n) False input f \<notin> {Inr None, Inl FillPanic}"
    using fill_loop_spec [OF indexes_okD(1) [OF inv(1)] assms(3) f(1,2) _ start, of "Suc ?n" False um spill] by auto
  have "fill_loop hash um spill fuel False input f = fill_loop hash um spill (Suc ?n) False input f" if "fuel > ?n" for fuel
    using fill_loop_mono [of hash um spill "Suc ?n" False input f "fuel - Suc ?n"] r that by simp
  with r show ?thesis by (intro exI [of _ "fill_loop hash um spill (Suc ?n) False input f"]) simp
qed

lemma demo_load:
  assumes "demo_reachable s" "positions s = [demo_id \<mapsto> demo_position]"
  shows "\<exists>f. frontier_load s [DirectedPair (AssetId 1) (AssetId 2)] = Inr f"
proof -
  let ?d = "DirectedPair (AssetId 1) (AssetId 2)"
  have "best_position ?d s \<noteq> None"
  proof
    assume "best_position ?d s = None"
    from best_position_cases(1) [OF dex_invD(1) [OF reachable_inv [OF assms(1)]] this, of demo_id demo_position] assms(2)
    show False by (simp add: quote_function_def demo_position_def trading_function_new_def pair_12_def)
  qed
  then obtain x rest where "positions_by_price ?d s = x # rest"
    by (auto simp: best_position_def split: list.splits)
  then have "next_position {} (positions_by_price ?d s) = Some (x, rest)" by (cases x) simp
  then show ?thesis by (cases x) (simp add: frontier_load_def load_step_def)
qed

theorem fill_route_terminates_witness:
  "\<exists>s f. demo_reachable s \<and> frontier_load s [DirectedPair (AssetId 1) (AssetId 2)] = Inr f \<and>
    (\<exists>r. r \<noteq> Inr None \<and> (\<forall>fuel > stream_size (fr_pairs f) (fr_streams f).
      fill_loop (\<lambda>x. x) (AssetId 2) None fuel False \<lparr>v_amount = 20, v_asset = AssetId 1\<rparr> f = r))"
proof -
  obtain s where s: "demo_reachable s" "positions s = [demo_id \<mapsto> demo_position]" using demo_opened by blast
  let ?input = "\<lparr>v_amount = 20, v_asset = AssetId 1\<rparr> :: asset_value"
  have bound: "2 * tally (holdings k) (positions s) + unat (v_amount ?input) < 2 ^ 128" for k
    using demo_small [OF s(2), of k] by simp
  obtain f where f: "frontier_load s [DirectedPair (AssetId 1) (AssetId 2)] = Inr f" using demo_load [OF s] ..
  from fill_route_terminates [OF s(1) _ bound, of "[AssetId 2]" f None] f s(1) show ?thesis by auto
qed

end
