(* ===== verification/RouteProperties.thy ===== *)
theory RouteProperties
  imports RouteAndFill FillProperties BatchOutput
begin

text \<open>
  The properties of the path search and of \<open>route_and_fill\<close> over the reachable states of the DEX.
\<close>

section \<open>Properties\<close>

text \<open>C32: the search for a route does not fail, and what it returns is a route: a path
  of at most \<open>max_hops\<close> hops from the source to the target, each hop of which has an opened position left to trade
  against, so that the frontier of the route loads; its estimated price is below the price limit, at most the spill
  price, and at most the price of the direct hop when the target is a fixed candidate. Without a price limit
  it finds a route whenever the direct hop to a fixed candidate exists.\<close>

theorem route_search_sound:
  assumes "dex_reachable hash commit um s" "permuting sched"
  shows "\<exists>r spill. path_search sched src dst rp s = Inr (r, spill) \<and> (r = None \<longrightarrow> spill = None)
    \<and> (\<forall>nodes. r = Some nodes \<longrightarrow> route_ok s src dst rp nodes spill
         \<and> (\<exists>f. frontier_load s (windows_pairs (src # nodes)) = Inr f))
    \<and> (r = None \<longrightarrow> price_limit rp = None \<longrightarrow> dst \<in> set (rp_candidates rp) \<longrightarrow> 0 < rp_max_hops rp \<longrightarrow>
         extend_to dst (path_begin src s) = Inr None)"
proof -
  have graph: "graph_ok hash s" by (rule dex_inv_graph [OF reachable_inv [OF assms(1)]])
  have loads: "\<forall>nodes spill. route_ok s src dst rp nodes spill \<longrightarrow> (\<exists>f. frontier_load s (windows_pairs (src # nodes)) = Inr f)"
    using reach_path_frontier [OF graph] unfolding route_ok_def by blast
  have "\<exists>r spill. path_search sched src dst rp s = Inr (r, spill) \<and> (r = None \<longrightarrow> spill = None)
    \<and> (\<forall>nodes. r = Some nodes \<longrightarrow> route_ok s src dst rp nodes spill)
    \<and> (r = None \<longrightarrow> price_limit rp = None \<longrightarrow> dst \<in> set (rp_candidates rp) \<longrightarrow> 0 < rp_max_hops rp \<longrightarrow>
         extend_to dst (path_begin src s) = Inr None)"
    by (rule path_search_spec [OF graph]) (use assms(2) in \<open>simp add: permuting_def\<close>)
  then obtain r spill where r: "path_search sched src dst rp s = Inr (r, spill)" "r = None \<longrightarrow> spill = None"
    "\<forall>nodes. r = Some nodes \<longrightarrow> route_ok s src dst rp nodes spill"
    "r = None \<longrightarrow> price_limit rp = None \<longrightarrow> dst \<in> set (rp_candidates rp) \<longrightarrow> 0 < rp_max_hops rp \<longrightarrow>
         extend_to dst (path_begin src s) = Inr None" by (elim exE conjE)
  then show ?thesis using loads by (intro exI [of _ r] exI [of _ spill]) (intro conjI allI impI; blast)
qed

lemma permuting_id: "permuting (\<lambda>i xs. xs)"
  by (simp add: permuting_def)

lemma permuting_rev: "permuting (\<lambda>i. rev)"
  by (simp add: permuting_def)

theorem route_search_sound_witness:
  "\<exists>s r spill. demo_reachable s \<and> positions s = [demo_id \<mapsto> demo_position]
    \<and> path_search (\<lambda>i. rev) (AssetId 1) (AssetId 2) (with_extra_candidates [AssetId 2] (routing_params_of demo_params)) s = Inr (r, spill)"
proof -
  obtain s where s: "demo_reachable s" "positions s = [demo_id \<mapsto> demo_position]" using demo_opened by blast
  from route_search_sound [OF s(1) permuting_rev, of "AssetId 1" "AssetId 2" "with_extra_candidates [AssetId 2] (routing_params_of demo_params)"] s
  show ?thesis by blast
qed

text \<open>C33: the concurrent search is deterministic. Two schedules that take the relaxed paths of each round in
  different orders give the same route and the same spill price, and \<open>route_and_fill\<close> gives the same execution and the same
  state under both, as long as the positions leave room for the input.\<close>

theorem route_schedule_independent:
  assumes "dex_reachable hash commit um s" "permuting sched" "permuting sched'"
  shows "path_search sched src dst rp s = path_search sched' src dst rp s
    \<and> (room_for s (unat input) \<longrightarrow>
         route_and_fill hash um sched src dst input rp b s = route_and_fill hash um sched' src dst input rp b s)"
proof -
  have graph: "graph_ok hash s" by (rule dex_inv_graph [OF reachable_inv [OF assms(1)]])
  have "path_search sched src dst rp s = path_search sched' src dst rp s"
    by (rule path_search_any_order [OF graph]) (use assms in \<open>simp_all add: permuting_def\<close>)
  then show ?thesis using route_and_fill_spec [OF graph, of input um src dst rp b] assms(2,3) by auto
qed

lemma demo_room:
  assumes "positions s = [demo_id \<mapsto> demo_position]" "n \<le> 1000"
  shows "room_for s n"
  unfolding room_for_def
proof
  show "2 * (tally (holdings k) (positions s) + n) < 2 ^ 128" for k
    using demo_small [OF assms(1), of k] assms(2) by simp
qed

theorem route_schedule_independent_witness:
  "\<exists>s. demo_reachable s \<and> positions s = [demo_id \<mapsto> demo_position]
    \<and> route_and_fill (\<lambda>x. x) (AssetId 2) (\<lambda>i. rev) (AssetId 1) (AssetId 2) 20 (routing_params_of demo_params) (breaker_new 64) s
      = route_and_fill (\<lambda>x. x) (AssetId 2) (\<lambda>i xs. xs) (AssetId 1) (AssetId 2) 20 (routing_params_of demo_params) (breaker_new 64) s"
proof -
  obtain s where s: "demo_reachable s" "positions s = [demo_id \<mapsto> demo_position]" using demo_opened by blast
  have "room_for s (unat (20 :: amount))" by (rule demo_room [OF s(2)]) simp
  with route_schedule_independent [OF s(1) permuting_rev permuting_id, of "AssetId 1" "AssetId 2" "routing_params_of demo_params" 20 "breaker_new 64"] s
  show ?thesis by blast
qed

text \<open>C34: \<open>route_and_fill\<close> always returns. On a reachable state with room for the input it neither fails nor panics,
  takes at most the input, and what it reports as taken and paid is, asset by asset, what the stored positions gained
  and lost; positions only trade or are closed, and the indexes stay exact.\<close>

theorem route_and_fill_conserves:
  assumes "dex_reachable hash commit um s" "permuting sched" "room_for s (unat input)"
  shows "\<exists>x t. route_and_fill hash um sched a1 a2 input rp b s = Inr (x, t) \<and> graph_ok hash t \<and> dex_vcb t = dex_vcb s
    \<and> (\<forall>i. traded_to (positions s i) (positions t i))
    \<and> (case x of
        None \<Rightarrow> \<forall>k. tally (holdings k) (positions t) = tally (holdings k) (positions s)
      | Some se \<Rightarrow> v_asset (se_input se) = a1 \<and> v_asset (se_output se) = a2 \<and> v_amount (se_input se) \<le> input \<and> se_traces se \<noteq> []
          \<and> (\<forall>k. tally (holdings k) (positions t) + (if k = a2 then unat (v_amount (se_output se)) else 0)
               = tally (holdings k) (positions s) + (if k = a1 then unat (v_amount (se_input se)) else 0)))"
proof -
  have graph: "graph_ok hash s" by (rule dex_inv_graph [OF reachable_inv [OF assms(1)]])
  obtain x t where x: "route_and_fill hash um sched a1 a2 input rp b s = Inr (x, t)" "(case x of
      None \<Rightarrow> filled_by hash s input a1 a2 0 0 t
    | Some se \<Rightarrow> v_asset (se_input se) = a1 \<and> v_asset (se_output se) = a2 \<and> se_traces se \<noteq> [] \<and> [] \<notin> set (se_traces se)
        \<and> filled_by hash s input a1 a2 (v_amount (se_input se)) (v_amount (se_output se)) t)"
    using route_and_fill_spec [OF graph assms(3), of um a1 a2 rp b] assms(2) by blast
  then show ?thesis
    by (intro exI [of _ x] exI [of _ t]) (cases x; simp add: filled_by_def same_books_def word_le_nat_alt cong: if_cong)
qed

theorem route_and_fill_conserves_witness:
  "\<exists>s x t. demo_reachable s \<and> positions s = [demo_id \<mapsto> demo_position]
    \<and> route_and_fill (\<lambda>x. x) (AssetId 2) (\<lambda>i. rev) (AssetId 1) (AssetId 2) 20 (routing_params_of demo_params) (breaker_new 64) s = Inr (x, t)"
proof -
  obtain s where s: "demo_reachable s" "positions s = [demo_id \<mapsto> demo_position]" using demo_opened by blast
  have "room_for s (unat (20 :: amount))" by (rule demo_room [OF s(2)]) simp
  from route_and_fill_conserves [OF s(1) permuting_rev this, of "AssetId 1" "AssetId 2" "routing_params_of demo_params" "breaker_new 64"] s
  show ?thesis by blast
qed

end
