(* ===== verification/BatchProperties.thy ===== *)
theory BatchProperties
  imports BatchMachine RouteProperties
begin

text \<open>
  The properties of the block machine: what the circuit breaker holds, that the end of the
  block returns and what it achieves, that it is deterministic, and the balance of one batch and of
  the arbitrage. The demo state is a chain with one position and one pending swap.
\<close>

section \<open>A concrete block\<close>

abbreviation demo_batch_reachable :: "batch_state \<Rightarrow> bool" where
  "demo_batch_reachable \<equiv> batch_reachable (\<lambda>x. x) (\<lambda>b :: balance. b) (AssetId 2)"

definition demo_pair :: trading_pair where
  "demo_pair = TradingPair (AssetId 1) (AssetId 2)"

definition demo_swap :: swap_body where
  "demo_swap = \<lparr>sw_pair = demo_pair, sw_delta_1 = 20, sw_delta_2 = 0, sw_fee_commitment = 0, sw_payload = \<lparr>sp_commitment = 5, sp_encrypted = []\<rparr>\<rparr>"

definition demo_block :: batch_state where
  "demo_block = batch_genesis demo_params \<lparr>fixed_gas_prices = demo_prices (AssetId 2), fixed_alt_gas_prices = [demo_prices (AssetId 1)]\<rparr>"

lemma open_position_settings:
  assumes "open_position hash um p s = Inr t"
  shows "dex_params t = dex_params s" "epoch_index t = epoch_index s"
proof -
  from assms obtain s1 s2 q and ps :: dex_parameters where c: "dex_vcb_credit (reserves_1 p) s = Inr s1" "dex_vcb_credit (reserves_2 p) s1 = Inr s2"
    and u: "update_position um (position_id_of hash p) None p (mark_trading_pair_as_active (tf_pair (p_phi p))
        (add_recently_accessed_asset (asset_2 (tf_pair (p_phi p))) (fixed_candidates ps)
          (add_recently_accessed_asset (asset_1 (tf_pair (p_phi p))) (fixed_candidates ps) s2))) = Inr (q, t)"
    by (auto simp: open_position_def Let_def and_then_Inr_iff position_by_id_def split: if_splits)
  have "same_but_vcb s s2" by (rule same_but_vcb_trans [OF vcb_same(1) [OF c(1)] vcb_same(1) [OF c(2)]])
  with update_position_frame(3) [OF u] show "dex_params t = dex_params s" "epoch_index t = epoch_index s"
    by (simp_all add: same_frame_def same_but_vcb_def mark_trading_pair_as_active_def add_recently_accessed_asset_def)
qed

lemma demo_block_opened:
  "\<exists>s. demo_batch_reachable s \<and> positions (bs_dex s) = [demo_id \<mapsto> demo_position] \<and> swap_flows s = []
    \<and> dex_params (bs_dex s) = Some demo_params \<and> bs_fees s = bs_fees demo_block \<and> epoch_index (bs_dex s) = 0 \<and> bs_epoch_start s = 0"
proof -
  have inv: "dex_inv (\<lambda>x. x) demo_genesis" unfolding demo_genesis_def by (rule genesis_inv)
  have "\<exists>t. open_position (\<lambda>x. x) (AssetId 2) demo_position demo_genesis = Inr t"
  proof (rule open_position_total [OF inv _ demo_ok(1)])
    show "vcb_balance demo_genesis k + holdings k demo_position < 2 ^ 128" for k
      by (simp add: demo_genesis_def dex_init_chain_def put_dex_params_def dex_empty_def vcb_balance_def
          holdings_def demo_position_def trading_function_new_def)
  qed (simp_all add: demo_genesis_def dex_init_chain_def put_dex_params_def dex_empty_def get_position_count_def
      demo_position_def)
  then obtain t where t: "open_position (\<lambda>x. x) (AssetId 2) demo_position demo_genesis = Inr t" ..
  have dex: "bs_dex demo_block = demo_genesis" by (simp add: demo_block_def batch_genesis_def demo_genesis_def)
  have "position_open_execute (\<lambda>x. x) (AssetId 2) demo_position (bs_dex demo_block) = Inr t"
    using t by (simp add: dex position_open_execute_def get_dex_params_def) (simp add: demo_genesis_def dex_init_chain_def
        put_dex_params_def demo_params_def)
  then have "batch_step (\<lambda>x. x) (\<lambda>b :: balance. b) (AssetId 2) demo_block (demo_block\<lparr>bs_dex := t\<rparr>)"
    by (rule batch_step.block_open [OF demo_ok(2)])
  moreover have "demo_batch_reachable demo_block" unfolding demo_block_def by (rule batch_reachable.block_genesis)
  ultimately have "demo_batch_reachable (demo_block\<lparr>bs_dex := t\<rparr>)" using batch_reachable.block_step by blast
  moreover have "positions t = [demo_id \<mapsto> demo_position]" "dex_params t = Some demo_params" "epoch_index t = 0"
    using open_position_effect(3) [OF t] open_position_settings [OF t]
    by (simp_all add: demo_id_def demo_genesis_def dex_init_chain_def put_dex_params_def dex_empty_def)
  ultimately show ?thesis
    by (intro exI [of _ "demo_block\<lparr>bs_dex := t\<rparr>"]) (simp add: demo_block_def batch_genesis_def)
qed

lemma demo_room_block:
  assumes "positions (bs_dex s) = [demo_id \<mapsto> demo_position]" "books_exact s" "pending_in k (swap_flows s) \<le> n"
  shows "vcb_balance (bs_dex s) k \<le> 150 + n"
  using demo_small [OF assms(1), of k] assms(2,3) by (simp add: books_exact_def)

lemma demo_block_swapped:
  "\<exists>s. demo_batch_reachable s \<and> positions (bs_dex s) = [demo_id \<mapsto> demo_position] \<and> swap_flows s = [(demo_pair, (20, 0))]
    \<and> dex_params (bs_dex s) = Some demo_params \<and> bs_fees s = bs_fees demo_block \<and> epoch_index (bs_dex s) = 0 \<and> bs_epoch_start s = 0"
proof -
  obtain s where s: "demo_batch_reachable s" "positions (bs_dex s) = [demo_id \<mapsto> demo_position]" "swap_flows s = []"
    "dex_params (bs_dex s) = Some demo_params" "bs_fees s = bs_fees demo_block" "epoch_index (bs_dex s) = 0" "bs_epoch_start s = 0"
    using demo_block_opened by blast
  note I = batch_invD [OF conjunct1 [OF batch_reachable_inv [OF s(1)]]]
  have "vcb_balance (bs_dex s) k + flow_at k (demo_pair, (20, 0)) < 2 ^ 128" for k
    using demo_room_block [OF s(2) conjunct2 [OF batch_reachable_inv [OF s(1)]], of k 0] by (simp add: s(3) flow_at_def)
  from accumulate_total [OF this] obtain u where u: "accumulate_swap_flow demo_pair (20, 0) s = Inr u" ..
  note U = accumulate_effect [OF u I(4,3)]
  obtain d where d: "u = s\<lparr>bs_dex := d, swap_flows := [(demo_pair, (20, 0))]\<rparr>"
    using u by (auto simp: accumulate_swap_flow_def and_then_Inr_iff s(3) bt_get_def)
  let ?t = "u\<lparr>pending_payloads := pending_payloads u @ [(\<lparr>ix_epoch = 0, ix_block = 0, ix_commitment = 0\<rparr>, sw_payload demo_swap, [])],
    bs_dex := add_recently_accessed_asset (AssetId 2) [] (add_recently_accessed_asset (AssetId 1) [] (bs_dex u))\<rparr>"
  have "swap_execute (Inr \<lparr>ix_epoch = 0, ix_block = 0, ix_commitment = 0\<rparr>) (Some []) demo_swap s = Inr ?t"
    using u s(4) by (simp add: swap_execute_def get_dex_params_def demo_params_def demo_swap_def add_swap_payload_def demo_pair_def)
  moreover have "swap_check_stateless (Inr ()) demo_swap = Inr ()" by (simp add: swap_check_stateless_def demo_swap_def demo_pair_def)
  ultimately have "batch_step (\<lambda>x. x) (\<lambda>b :: balance. b) (AssetId 2) s ?t" by (intro batch_step.block_swap)
  then have "demo_batch_reachable ?t" by (rule batch_reachable.block_step [OF s(1)])
  moreover have "positions (bs_dex u) = positions (bs_dex s)" by (rule same_but_vcb_keeps(1) [OF U(1)])
  moreover have "positions (add_recently_accessed_asset k f e) = positions e" for k f e
    using add_recent_keeps(1) [of e k f] by (simp add: same_indexes_def)
  ultimately have "demo_batch_reachable ?t \<and> positions (bs_dex ?t) = [demo_id \<mapsto> demo_position] \<and> swap_flows ?t = [(demo_pair, (20, 0))]
    \<and> dex_params (bs_dex ?t) = Some demo_params \<and> bs_fees ?t = bs_fees demo_block \<and> epoch_index (bs_dex ?t) = 0 \<and> bs_epoch_start ?t = 0"
    using s U(1) d by (simp add: same_but_vcb_def add_recent_keeps)
  then show ?thesis by blast
qed

lemma demo_ready: 
  assumes "demo_batch_reachable s" "positions (bs_dex s) = [demo_id \<mapsto> demo_position]" "swap_flows s = [(demo_pair, (20, 0))]"
    "bs_fees s = bs_fees demo_block" "epoch_index (bs_dex s) = 0" "bs_epoch_start s = 0"
  shows "block_end_ready (AssetId 2) 7 s" "has_room (bs_dex s)"
proof -
  have vcb: "vcb_balance (bs_dex s) k \<le> 150 + 20" for k
    by (rule demo_room_block [OF assms(2) conjunct2 [OF batch_reachable_inv [OF assms(1)]]]) (simp add: assms(3) flow_at_def)
  have fees: "alt_fees (AssetId 2) (fee_accumulator (bs_fees s)) k = 0" for k
    by (simp add: assms(4) alt_fees_def demo_block_def batch_genesis_def fee_init_chain_def put_fee_params_def fee_empty_def)
  have "vcb_balance (bs_dex s) k + 2 ^ 80 < 2 ^ 127" for k using vcb [of k] by simp
  then show "block_end_ready (AssetId 2) 7 s" "has_room (bs_dex s)" 
    by (simp_all only: block_end_ready_def has_room_def fees) (simp_all add: assms)
qed

section \<open>Properties\<close>

text \<open>C36: the books of the DEX are exact. In every state that the handlers, the payments of fees and the ends of
  blocks can reach from genesis, the value circuit breaker holds of each asset what the positions hold and what the pending swap flows brought in,
  and nothing else; the flows are keyed by distinct pairs in order and every position queued for closure is stored and opened.\<close>

theorem block_books_exact:
  assumes "batch_reachable hash commit um s"
  shows "vcb_balance (bs_dex s) k = tally (holdings k) (positions (bs_dex s)) + pending_in k (swap_flows s)
    \<and> bt_wf (swap_flows s) \<and> dex_inv hash (bs_dex s)
    \<and> (\<forall>i. i \<in> set (pending_closures (bs_dex s)) \<longrightarrow> (\<exists>p. positions (bs_dex s) i = Some p \<and> p_state p = Opened))"
  using batch_reachable_inv [OF assms] batch_invD(4,5,7) [of hash s] unfolding books_exact_def queue_opened_def by blast

theorem block_books_exact_witness:
  "\<exists>s. demo_batch_reachable s \<and> positions (bs_dex s) = [demo_id \<mapsto> demo_position] \<and> vcb_balance (bs_dex s) (AssetId 1) = 120"
proof -
  obtain s where s: "demo_batch_reachable s" "positions (bs_dex s) = [demo_id \<mapsto> demo_position]" "swap_flows s = [(demo_pair, (20, 0))]"
    using demo_block_swapped by blast
  have "tally (holdings (AssetId 1)) (positions (bs_dex s)) = 100"
    by (simp add: s(2) tally_def holdings_def demo_position_def trading_function_new_def)
  moreover have "pending_in (AssetId 1) (swap_flows s) = 20" by (simp add: s(3) flow_at_def demo_pair_def)
  ultimately show ?thesis using block_books_exact [OF s(1), of "AssetId 1"] s(1,2) by auto
qed

text \<open>C37: the end of a block returns and settles it. In a reachable state whose totals leave room, with an epoch and a block
  of the epoch that fit in 16 bits, the hook neither fails nor panics. It publishes an output for each pair with a
  flow, keyed by the height and the pair, with the inputs of the batch and at most these left unfilled; every
  queued position ends closed and the queue is empty; afterwards the circuit breaker holds the reserves of the positions exactly.\<close>

theorem end_block_settles:
  assumes "batch_reachable hash commit um s" "permuting sched" "block_end_ready um h s"
  shows "\<exists>t. dex_end_block hash um sched h s = Inr t \<and> dex_inv hash (bs_dex t) \<and> pending_closures (bs_dex t) = []
    \<and> (\<forall>i. i \<in> set (pending_closures (bs_dex s)) \<longrightarrow> (\<exists>p. positions (bs_dex t) i = Some p \<and> p_state p = Closed))
    \<and> (\<forall>pair. bt_get (swap_flows s) pair \<noteq> None \<longrightarrow> (\<exists>f out. bt_get (swap_flows t) pair = Some f
         \<and> output_data t (word_of_int h, pair) = Some out \<and> bo_pair out = pair \<and> bo_height out = word_of_int h
         \<and> bo_delta_1 out = fst f \<and> bo_delta_2 out = snd f \<and> bo_unfilled_1 out \<le> fst f \<and> bo_unfilled_2 out \<le> snd f))
    \<and> (\<forall>k. vcb_balance (bs_dex t) k = tally (holdings k) (positions (bs_dex t)))"
proof -
  note inv = batch_reachable_inv [OF assms(1)]
  obtain t where run: "dex_end_block hash um sched h s = Inr t" and e: "block_ended hash um h s t" and wf: "bt_wf (swap_flows t)"
    using end_block_spec [OF conjunct1 [OF inv] assms(3)] assms(2) by blast
  note E = e [unfolded block_ended_def]
  have "\<exists>f out. bt_get (swap_flows t) pair = Some f
      \<and> output_data t (word_of_int h, pair) = Some out \<and> bo_pair out = pair \<and> bo_height out = word_of_int h
      \<and> bo_delta_1 out = fst f \<and> bo_delta_2 out = snd f \<and> bo_unfilled_1 out \<le> fst f \<and> bo_unfilled_2 out \<le> snd f"
    if pair: "bt_get (swap_flows s) pair \<noteq> None" for pair
  proof -
    obtain f where f: "bt_get (swap_flows t) pair = Some f" using E pair by blast
    then have "(pair, f) \<in> set (swap_flows t)" by (simp add: bt_get_def map_of_SomeD)
    then obtain out where "published (word_of_int h) t (pair, f) out" using E by blast
    with f show ?thesis by (simp add: published_def word_le_nat_alt)
  qed
  moreover have "vcb_balance (bs_dex t) k = tally (holdings k) (positions (bs_dex t))" for k
  proof -
    have "vcb_balance (bs_dex t) k + tally (holdings k) (positions (bs_dex s)) + pending_in k (swap_flows s)
      = vcb_balance (bs_dex s) k + tally (holdings k) (positions (bs_dex t))" using E by blast
    then show ?thesis using conjunct2 [OF inv, unfolded books_exact_def, rule_format, of k] by linarith
  qed
  ultimately show ?thesis using run E by blast
qed

theorem end_block_settles_witness:
  "\<exists>s t out. demo_batch_reachable s \<and> swap_flows s = [(demo_pair, (20, 0))]
    \<and> dex_end_block (\<lambda>x. x) (AssetId 2) (\<lambda>i. rev) 7 s = Inr t \<and> output_data t (7, demo_pair) = Some out"
proof -
  obtain s where s: "demo_batch_reachable s" "positions (bs_dex s) = [demo_id \<mapsto> demo_position]" "swap_flows s = [(demo_pair, (20, 0))]"
    "bs_fees s = bs_fees demo_block" "epoch_index (bs_dex s) = 0" "bs_epoch_start s = 0" using demo_block_swapped by blast
  have "bt_get (swap_flows s) demo_pair \<noteq> None" by (simp add: s(3) bt_get_def)
  with end_block_settles [OF s(1) permuting_rev demo_ready(1) [OF s]] s(1,3) show ?thesis by fastforce
qed

text \<open>the end of a block is deterministic: whatever order the concurrent path search completes its tasks
  in, the state after the block is the same.\<close>

theorem end_block_deterministic:
  assumes "batch_reachable hash commit um s" "block_end_ready um h s" "permuting sched" "permuting sched'"
  shows "dex_end_block hash um sched h s = dex_end_block hash um sched' h s"
  using end_block_spec [OF conjunct1 [OF batch_reachable_inv [OF assms(1)]] assms(2)] assms(3,4) by auto

theorem end_block_deterministic_witness:
  "\<exists>s. demo_batch_reachable s \<and> swap_flows s = [(demo_pair, (20, 0))]
    \<and> dex_end_block (\<lambda>x. x) (AssetId 2) (\<lambda>i. rev) 7 s = dex_end_block (\<lambda>x. x) (AssetId 2) (\<lambda>i xs. xs) 7 s"
proof -
  obtain s where s: "demo_batch_reachable s" "positions (bs_dex s) = [demo_id \<mapsto> demo_position]" "swap_flows s = [(demo_pair, (20, 0))]"
    "bs_fees s = bs_fees demo_block" "epoch_index (bs_dex s) = 0" "bs_epoch_start s = 0" using demo_block_swapped by blast
  from end_block_deterministic [OF s(1) demo_ready(1) [OF s] permuting_rev permuting_id] s(1,3) show ?thesis by blast
qed

text \<open>the batch of a pair conserves value. For a pending flow of a reachable state with room, executing the batch
  returns an output whose unfilled and filled amounts are, asset by asset, exactly what the reserves of the positions lost
  plus the flow, the circuit breaker is debited by them, the output is stored under its height and pair, and every position only trades.\<close>

theorem batch_conserves:
  assumes "batch_reachable hash commit um s" "permuting sched" "bt_get (swap_flows s) pair = Some f"
    and "has_room (bs_dex s)" "unat (epoch_index (bs_dex s)) < 2 ^ 16" "unat (height - bs_epoch_start s) < 2 ^ 16"
  shows "\<exists>out t. handle_batch_swaps hash um sched pair f height rp budget s = Inr (out, t)
    \<and> output_data t (height, pair) = Some out \<and> bo_delta_1 out = fst f \<and> bo_delta_2 out = snd f
    \<and> (\<forall>k. tally (holdings k) (positions (bs_dex t)) + paid_at k out = tally (holdings k) (positions (bs_dex s)) + flow_at k (pair, f))
    \<and> (\<forall>k. vcb_balance (bs_dex t) k + paid_at k out = vcb_balance (bs_dex s) k)
    \<and> (\<forall>i. traded_to (positions (bs_dex s) i) (positions (bs_dex t) i))"
proof -
  note I = batch_invD [OF conjunct1 [OF batch_reachable_inv [OF assms(1)]]]
  have "tally (holdings k) (positions (bs_dex s)) + flow_at k (pair, f) \<le> vcb_balance (bs_dex s) k" for k
    using flow_le_pending [OF I(4) assms(3), of k] I(3) [unfolded covered_def, rule_format, of k] by linarith
  from handle_batch_spec [OF I(1) assms(4) this assms(5,6)] obtain out t where
    "\<And>sched. permuting sched \<Longrightarrow> handle_batch_swaps hash um sched pair f height rp budget s = Inr (out, t)"
    "batch_done hash s pair f height out t" by blast
  with assms(2) show ?thesis unfolding batch_done_def by (intro exI [of _ out] exI [of _ t]) simp
qed

theorem batch_conserves_witness:
  "\<exists>s out t. demo_batch_reachable s \<and> swap_flows s = [(demo_pair, (20, 0))]
    \<and> handle_batch_swaps (\<lambda>x. x) (AssetId 2) (\<lambda>i. rev) demo_pair (20, 0) 7 (routing_params_of demo_params) 64 s = Inr (out, t)"
proof -
  obtain s where s: "demo_batch_reachable s" "positions (bs_dex s) = [demo_id \<mapsto> demo_position]" "swap_flows s = [(demo_pair, (20, 0))]"
    "bs_fees s = bs_fees demo_block" "epoch_index (bs_dex s) = 0" "bs_epoch_start s = 0" using demo_block_swapped by blast
  have "bt_get (swap_flows s) demo_pair = Some (20, 0)" by (simp add: s(3) bt_get_def)
  from batch_conserves [OF s(1) permuting_rev this demo_ready(2) [OF s], of 7 "routing_params_of demo_params" 64] s show ?thesis by auto
qed

text \<open>the arbitrage takes nothing that it does not earn. In a reachable state with room it returns: either it reports no profit and
  the state is the one it started from, or it reports a positive profit in the arbitrage token, by which exactly the reserves of the positions
  and the circuit breaker fall in that token and in no other, and the execution it records takes in that much less than it puts out.\<close>

theorem arbitrage_exact:
  assumes "batch_reachable hash commit um s" "permuting sched" "has_room (bs_dex s)"
  shows "\<exists>r t. arbitrage hash um sched tok rp s = (Inr r, t) \<and>
    (case r of None \<Rightarrow> t = s
     | Some v \<Rightarrow> v_asset v = tok \<and> v_amount v \<noteq> 0
         \<and> (\<forall>k. tally (holdings k) (positions (bs_dex t)) + (if k = tok then unat (v_amount v) else 0)
               = tally (holdings k) (positions (bs_dex s)))
         \<and> (\<forall>k. vcb_balance (bs_dex t) k + (if k = tok then unat (v_amount v) else 0) = vcb_balance (bs_dex s) k)
         \<and> (\<exists>se. arb_executions t (bs_height s) = Some se
              \<and> unat (v_amount (se_output se)) = unat (v_amount (se_input se)) + unat (v_amount v)))"
proof -
  note I = batch_invD [OF conjunct1 [OF batch_reachable_inv [OF assms(1)]]]
  obtain ps where ps: "dex_params (bs_dex s) = Some ps" using I(2) by auto
  have "tally (holdings k) (positions (bs_dex s)) \<le> vcb_balance (bs_dex s) k" for k
    using dex_invD(2) [OF I(7)] by (simp add: solvent_def)
  from arbitrage_spec [OF I(1) ps assms(3) this, of um tok rp] obtain r t where
    r: "arbitrage hash um sched tok rp s = (Inr r, t)" "arb_done hash tok s r t" using assms(2) by blast
  show ?thesis
  proof (cases r)
    case None
    with r show ?thesis by (simp add: arb_done_def)
  next
    case (Some v)
    note a = r(2) [unfolded arb_done_def Some option.case]
    then obtain se where "arb_executions t = (arb_executions s)(bs_height s := Some se)"
      "unat (v_amount (se_output se)) = unat (v_amount (se_input se)) + unat (v_amount v)"
      by blast
    then have "\<exists>se. arb_executions t (bs_height s) = Some se
        \<and> unat (v_amount (se_output se)) = unat (v_amount (se_input se)) + unat (v_amount v)" by simp
    with r(1) Some a show ?thesis by (intro exI [of _ r] exI [of _ t]) (simp only: option.case simp_thms)
  qed
qed

theorem arbitrage_exact_witness:
  "\<exists>s r t. demo_batch_reachable s \<and> positions (bs_dex s) = [demo_id \<mapsto> demo_position]
    \<and> arbitrage (\<lambda>x. x) (AssetId 2) (\<lambda>i. rev) (AssetId 2) (arb_routing_params demo_params (bs_dex s)) s = (Inr r, t)"
proof -
  obtain s where s: "demo_batch_reachable s" "positions (bs_dex s) = [demo_id \<mapsto> demo_position]" "swap_flows s = [(demo_pair, (20, 0))]"
    "bs_fees s = bs_fees demo_block" "epoch_index (bs_dex s) = 0" "bs_epoch_start s = 0" using demo_block_swapped by blast
  from arbitrage_exact [OF s(1) permuting_rev demo_ready(2) [OF s], of "AssetId 2" "arb_routing_params demo_params (bs_dex s)"] s
  show ?thesis by blast
qed

text \<open>when a swap is accepted. In a reachable state whose circuit breaker can take the inputs, the handler succeeds
  exactly when the DEX is enabled, the transaction is known and its commitment was inserted; then the pending flow of its pair has
  grown by exactly the inputs, the other flows are as before, and the payload waits with the position of its commitment.\<close>

theorem swap_accepts:
  assumes "batch_reachable hash commit um s"
    and "\<And>k. vcb_balance (bs_dex s) k + flow_at k (sw_pair b, (sw_delta_1 b, sw_delta_2 b)) < 2 ^ 128"
  shows "((\<exists>t. swap_execute inserted source b s = Inr t) \<longleftrightarrow>
      (\<exists>ps. dex_params (bs_dex s) = Some ps \<and> is_enabled ps) \<and> source \<noteq> None \<and> (\<exists>pos. inserted = Inr pos))
    \<and> (\<forall>t pos id. swap_execute inserted source b s = Inr t \<longrightarrow> inserted = Inr pos \<longrightarrow> source = Some id \<longrightarrow>
        unat (fst (swap_flow_of (sw_pair b) t)) = unat (fst (swap_flow_of (sw_pair b) s)) + unat (sw_delta_1 b)
        \<and> unat (snd (swap_flow_of (sw_pair b) t)) = unat (snd (swap_flow_of (sw_pair b) s)) + unat (sw_delta_2 b)
        \<and> (\<forall>pair. pair \<noteq> sw_pair b \<longrightarrow> swap_flow_of pair t = swap_flow_of pair s)
        \<and> pending_payloads t = pending_payloads s @ [(pos, sw_payload b, id)])"
proof -
  let ?p = "sw_pair b" and ?f = "(sw_delta_1 b, sw_delta_2 b)"
  note I = batch_invD [OF conjunct1 [OF batch_reachable_inv [OF assms(1)]]]
  obtain ps where ps: "dex_params (bs_dex s) = Some ps" using I(2) by auto
  obtain u where u: "accumulate_swap_flow ?p ?f s = Inr u" using accumulate_total [OF assms(2)] ..
  note U = accumulate_effect [OF u I(4,3)]
  have uf: "swap_flow_of p u = (if p = ?p then (fst (swap_flow_of p s) + sw_delta_1 b, snd (swap_flow_of p s) + sw_delta_2 b)
      else swap_flow_of p s)" "pending_payloads u = pending_payloads s" for p
    using u I(4) by (auto simp: accumulate_swap_flow_def and_then_Inr_iff swap_flow_of_def split: option.splits)
  have "flow_at k (?p, swap_flow_of ?p s) \<le> pending_in k (swap_flows s)" for k
    using flow_le_pending [OF I(4), of ?p _ k]
    by (cases "bt_get (swap_flows s) ?p") (simp_all add: swap_flow_of_def flow_at_def)
  moreover have "pending_in k (swap_flows s) \<le> vcb_balance (bs_dex s) k" for k
    using I(3) [unfolded covered_def, rule_format, of k] by simp
  ultimately have "flow_at k (?p, swap_flow_of ?p s) + flow_at k (?p, ?f) < 2 ^ 128" for k
    using assms(2) [of k] by (meson add_le_mono1 le_less_trans order_trans)
  from this [of "asset_1 ?p"] this [of "asset_2 ?p"]
  have sum: "unat (fst (swap_flow_of ?p s) + sw_delta_1 b) = unat (fst (swap_flow_of ?p s)) + unat (sw_delta_1 b)"
    "unat (snd (swap_flow_of ?p s) + sw_delta_2 b) = unat (snd (swap_flow_of ?p s)) + unat (sw_delta_2 b)"
    by (auto simp: flow_at_def unat_add_no_overflow split: if_splits)
  let ?after = "\<lambda>id pos. u\<lparr>pending_payloads := pending_payloads u @ [(pos, sw_payload b, id)],
      bs_dex := add_recently_accessed_asset (asset_2 ?p) (fixed_candidates ps)
                  (add_recently_accessed_asset (asset_1 ?p) (fixed_candidates ps) (bs_dex u))\<rparr>"
  have run: "swap_execute inserted source b s = Inr t \<longleftrightarrow>
      is_enabled ps \<and> (\<exists>id pos. source = Some id \<and> inserted = Inr pos \<and> t = ?after id pos)" for t
    using ps u by (cases source; cases inserted)
      (auto simp: swap_execute_def get_dex_params_def and_then_Inr_iff add_swap_payload_def ensure_def)
  have "swap_flow_of p (?after id pos) = swap_flow_of p u" for p id pos by (simp add: swap_flow_of_def)
  then show ?thesis using ps sum uf by (simp only: run) auto
qed

theorem swap_accepts_witness:
  "\<exists>s t. demo_batch_reachable s \<and> swap_flow_of demo_pair s = (20, 0)
    \<and> swap_execute (Inr \<lparr>ix_epoch = 0, ix_block = 0, ix_commitment = 1\<rparr>) (Some [1]) demo_swap s = Inr t
    \<and> unat (fst (swap_flow_of demo_pair t)) = 40"
proof -
  obtain s where s: "demo_batch_reachable s" "positions (bs_dex s) = [demo_id \<mapsto> demo_position]" "swap_flows s = [(demo_pair, (20, 0))]"
    "dex_params (bs_dex s) = Some demo_params" using demo_block_swapped by blast
  have flow: "swap_flow_of demo_pair s = (20, 0)" by (simp add: s(3) swap_flow_of_def bt_get_def)
  have b: "sw_pair demo_swap = demo_pair" "sw_delta_1 demo_swap = 20" "sw_delta_2 demo_swap = 0" by (simp_all add: demo_swap_def)
  have "vcb_balance (bs_dex s) k \<le> 150 + 20" for k
    by (rule demo_room_block [OF s(2) conjunct2 [OF batch_reachable_inv [OF s(1)]]]) (simp add: s(3) flow_at_def)
  moreover have "flow_at k (sw_pair demo_swap, (sw_delta_1 demo_swap, sw_delta_2 demo_swap)) \<le> 20" for k
    by (simp add: flow_at_def b)
  ultimately have "vcb_balance (bs_dex s) k + flow_at k (sw_pair demo_swap, (sw_delta_1 demo_swap, sw_delta_2 demo_swap)) \<le> 170 + 20" for k
    by (metis add_mono numeral_plus_numeral add_num_simps)
  then have "vcb_balance (bs_dex s) k + flow_at k (sw_pair demo_swap, (sw_delta_1 demo_swap, sw_delta_2 demo_swap)) < 2 ^ 128" for k
    by (rule le_less_trans) simp
  note w = swap_accepts [OF s(1) this, of "Inr \<lparr>ix_epoch = 0, ix_block = 0, ix_commitment = 1\<rparr>" "Some [1]"]
  then obtain t where t: "swap_execute (Inr \<lparr>ix_epoch = 0, ix_block = 0, ix_commitment = 1\<rparr>) (Some [1]) demo_swap s = Inr t"
    using s(4) by (auto simp: demo_params_def)
  with w flow have "unat (fst (swap_flow_of demo_pair t)) = 40" by (simp add: b)
  with s(1) flow t show ?thesis by blast
qed

end
