(* ===== verification/Auction.thy ===== *)
theory Auction
  imports DexMachine
begin

text \<open>
  The auction component (\<open>crates/core/component/auction/src\<close>): Dutch auctions, which sell an
  input for an output by deploying, at each step of a schedule, a liquidity position at a lower price;
  their store, their triggers by height, the circuit breaker of the component, the
  handlers of the three actions and the hook at the end of a block.

  The hash functions, the text form of an identifier and the staking token are bundled
  in \<open>auction_env\<close>. The store keeps auctions as \<open>Any\<close> messages; since only Dutch auctions are ever written, the model
  stores them directly, and the branch for an entry of another type does not arise.
\<close>

section \<open>Descriptions and states\<close>

type_synonym auction_id = "u8 list"

record dutch_description =
  da_input :: asset_value
  da_output_id :: asset_id
  da_max_output :: amount
  da_min_output :: amount
  da_start_height :: u64
  da_end_height :: u64
  da_step_count :: u64
  da_nonce :: "u8 list"

text \<open>The sequence is 0 while the auction is opened, 1 when it is closed, and higher once it was withdrawn.\<close>

record dutch_state =
  ds_sequence :: u64
  ds_current_position :: "position_id option"
  ds_next_trigger :: "u64 option"
  ds_input_reserves :: amount
  ds_output_reserves :: amount

record dutch_auction =
  da_description :: dutch_description
  da_state :: dutch_state

record auction_env =
  ae_position_hash :: "u8 list \<Rightarrow> u8 list"
  ae_nonce_hash :: "u8 list \<Rightarrow> u8 list"
  ae_id_hash :: "u8 list \<Rightarrow> u8 list"
  ae_show_id :: "auction_id \<Rightarrow> u8 list"
  ae_um :: asset_id

definition dutch_id_preimage :: "dutch_description \<Rightarrow> u8 list" where
  "dutch_id_preimage d = da_nonce d @ asset_to_bytes (v_asset (da_input d)) @ amount_to_le_bytes (v_amount (da_input d))
     @ amount_to_le_bytes (da_max_output d) @ le_bytes 8 (unat (da_start_height d)) @ le_bytes 8 (unat (da_end_height d))
     @ le_bytes 8 (unat (da_step_count d))"

definition dutch_id :: "auction_env \<Rightarrow> dutch_description \<Rightarrow> auction_id" where
  "dutch_id env d = take 32 (ae_id_hash env (dutch_id_preimage d))"

text \<open>\<open>NonZeroU64::new\<close>.\<close>

definition non_zero :: "u64 \<Rightarrow> u64 option" where
  "non_zero x = (if x = 0 then None else Some x)"

section \<open>Encodings\<close>

record pb_dutch_description =
  pbd_input :: "pb_value option"
  pbd_output_id :: "asset_id option"
  pbd_max_output :: "pb_amount option"
  pbd_min_output :: "pb_amount option"
  pbd_start_height :: u64
  pbd_end_height :: u64
  pbd_step_count :: u64
  pbd_nonce :: "u8 list"

record pb_dutch_state =
  pbs_seq :: u64
  pbs_current_position :: "position_id option"
  pbs_next_trigger :: u64
  pbs_input_reserves :: "pb_amount option"
  pbs_output_reserves :: "pb_amount option"

record pb_dutch_auction =
  pba_description :: "pb_dutch_description option"
  pba_state :: "pb_dutch_state option"

definition dutch_description_to_proto :: "dutch_description \<Rightarrow> pb_dutch_description" where
  "dutch_description_to_proto d = \<lparr>pbd_input = Some (value_to_proto (da_input d)), pbd_output_id = Some (da_output_id d),
     pbd_max_output = Some (amount_to_proto (da_max_output d)), pbd_min_output = Some (amount_to_proto (da_min_output d)),
     pbd_start_height = da_start_height d, pbd_end_height = da_end_height d, pbd_step_count = da_step_count d,
     pbd_nonce = da_nonce d\<rparr>"

definition dutch_description_from_proto :: "pb_dutch_description \<Rightarrow> dutch_description result" where
  "dutch_description_from_proto m =
     and_then (and_then (ok_or (pbd_input m) (Bail ''missing input'')) value_from_proto) (\<lambda>input.
     and_then (ok_or (pbd_output_id m) (Bail ''missing an output identifier'')) (\<lambda>output_id.
     and_then (and_then (ok_or (pbd_max_output m) (Bail ''missing max output'')) amount_from_proto) (\<lambda>max_output.
     and_then (and_then (ok_or (pbd_min_output m) (Bail ''missing min output'')) amount_from_proto) (\<lambda>min_output.
     and_then (if length (pbd_nonce m) = 32 then Inr (pbd_nonce m) else Inl (SliceLength (length (pbd_nonce m)))) (\<lambda>nonce.
     Inr \<lparr>da_input = input, da_output_id = output_id, da_max_output = max_output, da_min_output = min_output,
       da_start_height = pbd_start_height m, da_end_height = pbd_end_height m, da_step_count = pbd_step_count m,
       da_nonce = nonce\<rparr>)))))"

definition dutch_state_to_proto :: "dutch_state \<Rightarrow> pb_dutch_state" where
  "dutch_state_to_proto s = \<lparr>pbs_seq = ds_sequence s, pbs_current_position = ds_current_position s,
     pbs_next_trigger = get_or (ds_next_trigger s) 0, pbs_input_reserves = Some (amount_to_proto (ds_input_reserves s)),
     pbs_output_reserves = Some (amount_to_proto (ds_output_reserves s))\<rparr>"

definition dutch_state_from_proto :: "pb_dutch_state \<Rightarrow> dutch_state result" where
  "dutch_state_from_proto m =
     and_then (case pbs_current_position m of
         None \<Rightarrow> Inr None
       | Some i \<Rightarrow> if length i = 32 then Inr (Some i) else Inl (SliceLength (length i))) (\<lambda>position.
     and_then (and_then (ok_or (pbs_input_reserves m) (Bail ''missing input reserves'')) amount_from_proto) (\<lambda>input.
     and_then (and_then (ok_or (pbs_output_reserves m) (Bail ''missing output reserves'')) amount_from_proto) (\<lambda>output.
     Inr \<lparr>ds_sequence = pbs_seq m, ds_current_position = position, ds_next_trigger = non_zero (pbs_next_trigger m),
       ds_input_reserves = input, ds_output_reserves = output\<rparr>)))"

definition dutch_auction_to_proto :: "dutch_auction \<Rightarrow> pb_dutch_auction" where
  "dutch_auction_to_proto a = \<lparr>pba_description = Some (dutch_description_to_proto (da_description a)),
     pba_state = Some (dutch_state_to_proto (da_state a))\<rparr>"

definition dutch_auction_from_proto :: "pb_dutch_auction \<Rightarrow> dutch_auction result" where
  "dutch_auction_from_proto m =
     and_then (and_then (ok_or (pba_description m) (Bail ''missing description'')) dutch_description_from_proto) (\<lambda>d.
     and_then (and_then (ok_or (pba_state m) (Bail ''missing a state field'')) dutch_state_from_proto) (\<lambda>s.
     Inr \<lparr>da_description = d, da_state = s\<rparr>))"

lemma dutch_proto_roundtrip:
  assumes "length (da_nonce (da_description a)) = 32" "ds_next_trigger (da_state a) \<noteq> Some 0"
    and "\<And>i. ds_current_position (da_state a) = Some i \<Longrightarrow> length i = 32"
  shows "dutch_auction_from_proto (dutch_auction_to_proto a) = Inr a"
proof -
  have "dutch_description_from_proto (dutch_description_to_proto (da_description a)) = Inr (da_description a)"
    using assms(1) by (simp add: dutch_description_from_proto_def dutch_description_to_proto_def value_proto_roundtrip)
  moreover have "dutch_state_from_proto (dutch_state_to_proto (da_state a)) = Inr (da_state a)"
    using assms(2,3) by (cases "ds_next_trigger (da_state a)"; cases "ds_current_position (da_state a)")
      (simp_all add: dutch_state_from_proto_def dutch_state_to_proto_def non_zero_def)
  ultimately show ?thesis by (simp add: dutch_auction_from_proto_def dutch_auction_to_proto_def)
qed

section \<open>The schedule of an auction\<close>

record trigger_data =
  td_start :: u64
  td_end :: u64
  td_steps :: u64

definition trigger_data_of :: "dutch_description \<Rightarrow> trigger_data" where
  "trigger_data_of d = \<lparr>td_start = da_start_height d, td_end = da_end_height d, td_steps = da_step_count d\<rparr>"

definition u64_checked_sub :: "u64 \<Rightarrow> u64 \<Rightarrow> u64 option" where
  "u64_checked_sub a b = (if b \<le> a then Some (a - b) else None)"

definition u64_checked_div :: "u64 \<Rightarrow> u64 \<Rightarrow> u64 option" where
  "u64_checked_div a b = (if b = 0 then None else Some (a div b))"

definition u64_saturating_sub :: "u64 \<Rightarrow> u64 \<Rightarrow> u64" where
  "u64_saturating_sub a b = (if b \<le> a then a - b else 0)"

definition compute_step_index :: "trigger_data \<Rightarrow> u64 \<Rightarrow> u64 result" where
  "compute_step_index td current_height =
     and_then (ok_or (u64_checked_sub (td_end td) (td_start td)) (Bail ''block interval calculation has underflowed'')) (\<lambda>block_interval.
     and_then (ok_or (u64_checked_div block_interval (td_steps td)) (Bail ''step count is zero'')) (\<lambda>step_size.
     ok_or (u64_checked_div (u64_saturating_sub current_height (td_start td)) step_size) (Bail ''step size is zero'')))"

text \<open>The unchecked divisions panic on zero.\<close>

definition compute_next_trigger_height :: "trigger_data \<Rightarrow> u64 \<Rightarrow> u64 result" where
  "compute_next_trigger_height td current_height =
     (let block_interval = td_end td - td_start td in
      and_then (expect_some (u64_checked_div block_interval (td_steps td))) (\<lambda>step_size.
      and_then (expect_some (u64_checked_div (u64_saturating_sub current_height (td_start td)) step_size)) (\<lambda>prev_step_index.
      Inr (td_start td + step_size * (prev_step_index + 1)))))"

definition try_next_trigger_height :: "trigger_data \<Rightarrow> u64 \<Rightarrow> u64 option result" where
  "try_next_trigger_height td current_height =
     and_then (compute_next_trigger_height td current_height) (\<lambda>next.
     Inr (if next > td_end td then None else Some next))"

definition compute_pq_at_step :: "dutch_description \<Rightarrow> u64 \<Rightarrow> amount \<times> amount" where
  "compute_pq_at_step d step =
     (let max_output = da_max_output d; min_output = da_min_output d;
          step_index = ucast step :: amount; step_count = ucast (da_step_count d) :: amount;
          target_output_scaled = (step_count - step_index - 1) * max_output + step_index * min_output;
          input_scaled = (step_count - 1) * v_amount (da_input d)
      in (target_output_scaled, input_scaled))"

section \<open>The state\<close>

text \<open>A trigger is stored under its height and the text form of the identifier, so the triggers of a height come in the order
  of the text forms.\<close>

record auction_state =
  au_dex :: dex_state
  auctions :: "auction_id \<Rightarrow> dutch_auction option"
  au_vcb :: "asset_id \<Rightarrow> amount option"
  dutch_triggers :: "(u64 \<times> u8 list, auction_id) btree"
  au_height :: u64
  au_params :: "unit option"

definition au_balance :: "auction_state \<Rightarrow> asset_id \<Rightarrow> nat" where
  "au_balance s k = unat (get_or (au_vcb s k) 0)"

definition get_auction_value_balance_for :: "asset_id \<Rightarrow> auction_state \<Rightarrow> amount" where
  "get_auction_value_balance_for k s = get_or (au_vcb s k) amount_zero"

definition put_auction_vcb :: "asset_id \<Rightarrow> amount \<Rightarrow> auction_state \<Rightarrow> auction_state" where
  "put_auction_vcb k a s = s\<lparr>au_vcb := (au_vcb s)(k := Some a)\<rparr>"

interpretation auction_vcb_store: kv_store au_vcb put_auction_vcb
  by unfold_locales (simp add: put_auction_vcb_def)

definition auction_vcb_credit :: "asset_value \<Rightarrow> auction_state \<Rightarrow> auction_state result" where
  "auction_vcb_credit v s =
     (if v_amount v = amount_zero then Inr s
      else and_then (ok_or (amount_checked_add (get_auction_value_balance_for (v_asset v) s) (v_amount v))
            (Bail ''overflowed balance while crediting auction circuit breaker'')) (\<lambda>new_balance.
          Inr (put_auction_vcb (v_asset v) new_balance s)))"

definition auction_vcb_debit :: "asset_value \<Rightarrow> auction_state \<Rightarrow> auction_state result" where
  "auction_vcb_debit v s =
     (if v_amount v = amount_zero then Inr s
      else and_then (ok_or (amount_checked_sub (get_auction_value_balance_for (v_asset v) s) (v_amount v))
            (Bail ''underflowed balance while debiting auction circuit breaker'')) (\<lambda>new_balance.
          Inr (put_auction_vcb (v_asset v) new_balance s)))"

definition get_dutch_auction_by_id :: "auction_id \<Rightarrow> auction_state \<Rightarrow> dutch_auction option result" where
  "get_dutch_auction_by_id i s = Inr (auctions s i)"

definition auction_id_exists :: "auction_id \<Rightarrow> auction_state \<Rightarrow> bool" where
  "auction_id_exists i s \<longleftrightarrow> auctions s i \<noteq> None"

definition put_auction :: "auction_id \<Rightarrow> dutch_auction \<Rightarrow> auction_state \<Rightarrow> auction_state" where
  "put_auction i a s = s\<lparr>auctions := (auctions s)(i := Some a)\<rparr>"

interpretation auction_store: kv_store auctions put_auction
  by unfold_locales (simp add: put_auction_def)

definition write_dutch_auction_state :: "auction_env \<Rightarrow> dutch_auction \<Rightarrow> auction_state \<Rightarrow> auction_state" where
  "write_dutch_auction_state env a = put_auction (dutch_id env (da_description a)) a"

definition set_trigger_for_dutch_id :: "auction_env \<Rightarrow> auction_id \<Rightarrow> u64 \<Rightarrow> auction_state \<Rightarrow> auction_state" where
  "set_trigger_for_dutch_id env i h s = s\<lparr>dutch_triggers := bt_insert (h, ae_show_id env i) i (dutch_triggers s)\<rparr>"

definition unset_trigger_for_dutch_id :: "auction_env \<Rightarrow> auction_id \<Rightarrow> u64 \<Rightarrow> auction_state \<Rightarrow> auction_state" where
  "unset_trigger_for_dutch_id env i h s = s\<lparr>dutch_triggers := bt_remove (h, ae_show_id env i) (dutch_triggers s)\<rparr>"

definition stream_dutch_ids_by_trigger :: "u64 \<Rightarrow> auction_state \<Rightarrow> auction_id list" where
  "stream_dutch_ids_by_trigger h s = map snd (filter (\<lambda>((h', _), _). h' = h) (dutch_triggers s))"

definition put_auction_params :: "unit \<Rightarrow> auction_state \<Rightarrow> auction_state" where
  "put_auction_params ps s = s\<lparr>au_params := Some ps\<rparr>"

definition auction_init_chain :: "unit option \<Rightarrow> auction_state \<Rightarrow> auction_state" where
  "auction_init_chain content s = (case content of None \<Rightarrow> s | Some ps \<Rightarrow> put_auction_params ps s)"

section \<open>Scheduling\<close>

definition schedule_auction :: "auction_env \<Rightarrow> dutch_description \<Rightarrow> auction_state \<Rightarrow> auction_state result" where
  "schedule_auction env d s =
     and_then (try_next_trigger_height (trigger_data_of d) (au_height s)) (\<lambda>next.
     and_then (expect_some next) (\<lambda>next_trigger.
     let a = \<lparr>da_description = d, da_state = \<lparr>ds_sequence = 0, ds_current_position = None, ds_next_trigger = non_zero next_trigger,
            ds_input_reserves = v_amount (da_input d), ds_output_reserves = amount_zero\<rparr>\<rparr> in
     and_then (auction_vcb_credit (da_input d) s) (\<lambda>s.
     Inr (write_dutch_auction_state env a (set_trigger_for_dutch_id env (dutch_id env d) next_trigger s)))))"

definition MAX_AUCTION_AMOUNT_RESERVES :: u128 where
  "MAX_AUCTION_AMOUNT_RESERVES = 2 ^ 52 - 1"

definition schedule_check_stateless :: "dutch_description \<Rightarrow> unit result" where
  "schedule_check_stateless d =
     and_then (ensure (v_amount (da_input d) > amount_zero) ''input amount MUST be positive (got zero)'') (\<lambda>_.
     and_then (ensure (da_step_count d > 0) ''step count MUST be positive (got zero)'') (\<lambda>_.
     and_then (ensure (v_amount (da_input d) \<le> MAX_AUCTION_AMOUNT_RESERVES) ''input amount MUST be less than 52 bits wide'') (\<lambda>_.
     and_then (ensure (v_asset (da_input d) \<noteq> da_output_id d) ''input id MUST be different from output id'') (\<lambda>_.
     and_then (ensure (da_max_output d > da_min_output d) ''max_output MUST be greater than min_output'') (\<lambda>_.
     and_then (ensure (da_max_output d > 0) ''max output MUST be positive'') (\<lambda>_.
     and_then (ensure (da_max_output d \<le> MAX_AUCTION_AMOUNT_RESERVES) ''max output amount MUST be less than 52 bits wide'') (\<lambda>_.
     and_then (ensure (da_min_output d > 0) ''min output MUST be positive'') (\<lambda>_.
     and_then (ensure (da_min_output d \<le> MAX_AUCTION_AMOUNT_RESERVES) ''min output amount MUST be less than 52 bits wide'') (\<lambda>_.
     and_then (ensure (da_start_height d < da_end_height d) ''the start height MUST be strictly less than the end height'') (\<lambda>_.
     and_then (ensure (da_step_count d \<ge> 2) ''step count MUST be at least two'') (\<lambda>_.
     and_then (ensure (da_step_count d \<le> 255) ''the dutch auction step count MUST be less than 255'') (\<lambda>_.
     and_then (ok_or (u64_checked_sub (da_end_height d) (da_start_height d)) (Bail ''the validation rules are incoherent'')) (\<lambda>block_window.
     ensure (block_window mod da_step_count d = 0) ''the block window MUST be a multiple of the step count'')))))))))))))"

definition schedule_execute :: "auction_env \<Rightarrow> dutch_description \<Rightarrow> auction_state \<Rightarrow> auction_state result" where
  "schedule_execute env d s =
     and_then (ensure (da_start_height d > au_height s) ''dutch auction MUST start in the future'') (\<lambda>_.
     and_then (ensure (\<not> auction_id_exists (dutch_id env d) s) ''the supplied auction id is already known to the chain'') (\<lambda>_.
     schedule_auction env d s))"

section \<open>The position of an auction\<close>

text \<open>Closing and withdrawing the position that an auction has deployed, if any.\<close>

definition recover_position :: "auction_env \<Rightarrow> position_id option \<Rightarrow> auction_state \<Rightarrow> (balance \<times> auction_state) result" where
  "recover_position env pos s =
     (case pos of
        None \<Rightarrow> Inr (balance_zero, s)
      | Some i \<Rightarrow>
          and_then (close_position_by_id (ae_um env) i (au_dex s)) (\<lambda>d.
          and_then (withdraw_position (ae_um env) i 0 d) (\<lambda>(lp_reserves, d).
          Inr (lp_reserves, s\<lparr>au_dex := d\<rparr>))))"

definition provided_amount :: "asset_id \<Rightarrow> balance \<Rightarrow> amount" where
  "provided_amount k b = sum_list (map v_amount (filter (\<lambda>v. v_asset v = k) (balance_provided b)))"

definition lp_inflow :: "asset_id \<Rightarrow> balance \<Rightarrow> asset_value" where
  "lp_inflow k b = \<lparr>v_amount = provided_amount k b, v_asset = k\<rparr>"

definition lp_nonce :: "auction_env \<Rightarrow> u8 list \<Rightarrow> u64 \<Rightarrow> u64 \<Rightarrow> u8 list" where
  "lp_nonce env nonce step attempt =
     take 32 (ae_nonce_hash env (nonce @ le_bytes 8 (unat step) @ le_bytes 8 (unat attempt)))"

definition auction_lp :: "auction_env \<Rightarrow> directed_pair \<Rightarrow> amount \<Rightarrow> u64 \<Rightarrow> amount \<times> amount \<Rightarrow> u8 list \<Rightarrow> u64 \<Rightarrow> position" where
  "auction_lp env pair input step pq nonce attempt =
     (position_new_with_nonce (lp_nonce env nonce step attempt) pair 0 (fst pq) (snd pq) \<lparr>r1 = input, r2 = amount_zero\<rparr>)
       \<lparr>close_on_fill := True\<rparr>"

text \<open>The loop over the attempts: the first counter whose identifier is not taken. The counter wraps around, so the
  loop does not end when all are taken.\<close>

partial_function (option) find_attempt :: "(u64 \<Rightarrow> bool) \<Rightarrow> u64 \<Rightarrow> u64 option" where
  "find_attempt taken attempt = (if taken attempt then find_attempt taken (attempt + 1) else Some attempt)"

definition allocate_position :: "auction_env \<Rightarrow> directed_pair \<Rightarrow> amount \<Rightarrow> u64 \<Rightarrow> amount \<times> amount \<Rightarrow> u8 list
    \<Rightarrow> auction_state \<Rightarrow> (position_id option \<times> auction_state) result" where
  "allocate_position env pair input step pq nonce s =
     and_then (expect (get_dex_params (au_dex s))) (\<lambda>ps.
     if \<not> is_enabled ps then Inr (None, s)
     else (case find_attempt (\<lambda>c. position_by_id (position_id_of (ae_position_hash env) (auction_lp env pair input step pq nonce c)) (au_dex s) \<noteq> None) 0 of
         None \<Rightarrow> Inl Diverges
       | Some c \<Rightarrow>
           (let lp = auction_lp env pair input step pq nonce c in
            and_then (expect (auction_vcb_debit (reserves_1 lp) s)) (\<lambda>s.
            and_then (expect (auction_vcb_debit (reserves_2 lp) s)) (\<lambda>s.
            and_then (expect (open_position (ae_position_hash env) (ae_um env) lp (au_dex s))) (\<lambda>d.
            Inr (Some (position_id_of (ae_position_hash env) lp), s\<lparr>au_dex := d\<rparr>)))))))"

section \<open>Executing a trigger\<close>

text \<open>An error leaves the state that was reached, which the hook keeps; the state is therefore returned beside the outcome.\<close>

definition execute_dutch_auction :: "auction_env \<Rightarrow> auction_id \<Rightarrow> u64 \<Rightarrow> auction_state \<Rightarrow> unit result \<times> auction_state" where
  "execute_dutch_auction env i trigger_height s =
     (case auctions s i of
        None \<Rightarrow> (Inl Panic, s)
      | Some old \<Rightarrow>
          (let d = da_description old; st = da_state old; td = trigger_data_of d;
               input_id = v_asset (da_input d); output_id = da_output_id d in
           case recover_position env (ds_current_position st) s of
             Inl e \<Rightarrow> (Inl Panic, s)
           | Inr (lp_reserves, s) \<Rightarrow>
               (let s = unset_trigger_for_dutch_id env i trigger_height s;
                    inflow_in = lp_inflow input_id lp_reserves; inflow_out = lp_inflow output_id lp_reserves in
                case auction_vcb_credit inflow_in s of
                  Inl e \<Rightarrow> (Inl e, s)
                | Inr s \<Rightarrow>
                    (case auction_vcb_credit inflow_out s of
                       Inl e \<Rightarrow> (Inl e, s)
                     | Inr s \<Rightarrow>
                         (let st = st\<lparr>ds_current_position := None, ds_next_trigger := None,
                                ds_input_reserves := ds_input_reserves st + v_amount inflow_in,
                                ds_output_reserves := ds_output_reserves st + v_amount inflow_out\<rparr> in
                          case expect (compute_step_index td trigger_height) of
                            Inl e \<Rightarrow> (Inl e, s)
                          | Inr step \<Rightarrow>
                              if step \<ge> da_step_count d \<or> ds_input_reserves st = amount_zero then
                                (Inr (), write_dutch_auction_state env \<lparr>da_description = d, da_state = st\<lparr>ds_sequence := 1\<rparr>\<rparr> s)
                              else
                                (case compute_next_trigger_height td trigger_height of
                                   Inl e \<Rightarrow> (Inl e, s)
                                 | Inr next \<Rightarrow>
                                     (case allocate_position env (DirectedPair input_id output_id) (ds_input_reserves st) step
                                             (compute_pq_at_step d step) (da_nonce d) s of
                                        Inl e \<Rightarrow> (Inl e, s)
                                      | Inr (pos, s) \<Rightarrow>
                                          (Inr (), write_dutch_auction_state env
                                             \<lparr>da_description = d, da_state = st\<lparr>ds_input_reserves := amount_zero, ds_current_position := pos,
                                                ds_next_trigger := non_zero next\<rparr>\<rparr>
                                             (set_trigger_for_dutch_id env i next s)))))))))"

text \<open>A loop of the hook: it stops at the first error and keeps the state.\<close>

fun run_triggers :: "('i \<Rightarrow> 's \<Rightarrow> unit result \<times> 's) \<Rightarrow> 'i list \<Rightarrow> 's \<Rightarrow> unit result \<times> 's" where
  "run_triggers f [] s = (Inr (), s)"
| "run_triggers f (i # is) s = (case f i s of (Inl e, s) \<Rightarrow> (Inl e, s) | (Inr _, s) \<Rightarrow> run_triggers f is s)"

definition process_triggers :: "auction_env \<Rightarrow> u64 \<Rightarrow> auction_state \<Rightarrow> unit result \<times> auction_state" where
  "process_triggers env h s = run_triggers (\<lambda>i. execute_dutch_auction env i h) (stream_dutch_ids_by_trigger h s) s"

text \<open>The hook drops an error of the triggers; the height is converted from a signed integer.\<close>

definition auction_end_block :: "auction_env \<Rightarrow> int \<Rightarrow> auction_state \<Rightarrow> auction_state result" where
  "auction_end_block env h s =
     (case process_triggers env (word_of_int h) s of
        (Inl Panic, _) \<Rightarrow> Inl Panic
      | (Inl Diverges, _) \<Rightarrow> Inl Diverges
      | (_, s) \<Rightarrow> Inr s)"

section \<open>Ending and withdrawing an auction\<close>

definition end_auction :: "auction_env \<Rightarrow> dutch_auction \<Rightarrow> auction_state \<Rightarrow> auction_state result" where
  "end_auction env a s =
     (let d = da_description a; st = da_state a; i = dutch_id env d in
      if ds_sequence st \<ge> 1 then Inr s
      else and_then (recover_position env (ds_current_position st) s) (\<lambda>(lp_reserves, s).
        let inflow_in = lp_inflow (v_asset (da_input d)) lp_reserves; inflow_out = lp_inflow (da_output_id d) lp_reserves in
        and_then (auction_vcb_credit inflow_in s) (\<lambda>s.
        and_then (auction_vcb_credit inflow_out s) (\<lambda>s.
        let s = (case ds_next_trigger st of None \<Rightarrow> s | Some h \<Rightarrow> unset_trigger_for_dutch_id env i h s) in
        Inr (write_dutch_auction_state env \<lparr>da_description = d, da_state = \<lparr>ds_sequence = 1, ds_current_position = None,
          ds_next_trigger = None, ds_input_reserves = ds_input_reserves st + v_amount inflow_in,
          ds_output_reserves = ds_output_reserves st + v_amount inflow_out\<rparr>\<rparr> s)))))"

definition end_auction_by_id :: "auction_env \<Rightarrow> auction_id \<Rightarrow> auction_state \<Rightarrow> auction_state result" where
  "end_auction_by_id env i s =
     and_then (get_dutch_auction_by_id i s) (\<lambda>x.
     and_then (ok_or x (Bail ''auction not found'')) (\<lambda>a. end_auction env a s))"

definition end_execute :: "auction_env \<Rightarrow> auction_id \<Rightarrow> auction_state \<Rightarrow> auction_state result" where
  "end_execute env i s =
     and_then (get_dutch_auction_by_id i s) (\<lambda>x.
     and_then (ok_or x (Bail ''no auction found for id'')) (\<lambda>a.
     and_then (ensure (ds_sequence (da_state a) = 0 \<or> ds_sequence (da_state a) = 1)
       ''auction MUST have a sequence number set to opened (0) or closed (1)'') (\<lambda>_.
     end_auction env a s)))"

definition u64_saturating_add :: "u64 \<Rightarrow> u64 \<Rightarrow> u64" where
  "u64_saturating_add a b = (if unat a + unat b < 2 ^ 64 then a + b else - 1)"

definition withdraw_auction :: "auction_env \<Rightarrow> dutch_auction \<Rightarrow> auction_state \<Rightarrow> (balance \<times> auction_state) result" where
  "withdraw_auction env a s =
     (let d = da_description a; st = da_state a;
          prev_in = \<lparr>v_amount = ds_input_reserves st, v_asset = v_asset (da_input d)\<rparr>;
          prev_out = \<lparr>v_amount = ds_output_reserves st, v_asset = da_output_id d\<rparr> in
      and_then (auction_vcb_debit prev_in s) (\<lambda>s.
      and_then (auction_vcb_debit prev_out s) (\<lambda>s.
      and_then (balance_add (balance_from_value prev_in) (balance_from_value prev_out)) (\<lambda>withdraw_balance.
      Inr (withdraw_balance, write_dutch_auction_state env \<lparr>da_description = d, da_state =
        st\<lparr>ds_sequence := u64_saturating_add (ds_sequence st) 1, ds_current_position := None, ds_next_trigger := None,
          ds_input_reserves := amount_zero, ds_output_reserves := amount_zero\<rparr>\<rparr> s)))))"

definition withdraw_auction_by_id :: "auction_env \<Rightarrow> auction_id \<Rightarrow> auction_state \<Rightarrow> auction_state result" where
  "withdraw_auction_by_id env i s =
     and_then (get_dutch_auction_by_id i s) (\<lambda>x.
     and_then (ok_or x (Bail ''auction not found'')) (\<lambda>a.
     and_then (withdraw_auction env a s) (\<lambda>(_, s). Inr s)))"

definition withdraw_check_stateless :: "u64 \<Rightarrow> unit result" where
  "withdraw_check_stateless seq =
     and_then (ensure (seq \<ge> 1) ''the sequence number MUST be greater or equal to 1'') (\<lambda>_.
     ensure (seq < - 1) ''the sequence number maximum is u64::MAX'')"

definition withdraw_execute :: "auction_env \<Rightarrow> (balance \<Rightarrow> 'c) \<Rightarrow> auction_id \<Rightarrow> u64 \<Rightarrow> 'c \<Rightarrow> auction_state \<Rightarrow> auction_state result" where
  "withdraw_execute env commit i seq reserves_commitment s =
     and_then (get_dutch_auction_by_id i s) (\<lambda>x.
     and_then (ok_or x (Bail ''no auction found for id'')) (\<lambda>a.
     and_then (ensure (seq = u64_saturating_add (ds_sequence (da_state a)) 1)
       ''the action sequence number MUST be incremented by one'') (\<lambda>_.
     and_then (withdraw_auction env a s) (\<lambda>(withdrawn_balance, s).
     and_then (ensure (reserves_commitment = commit withdrawn_balance) ''the reported reserve commitment is incorrect'') (\<lambda>_.
     Inr s)))))"

section \<open>The balances of the actions\<close>

text \<open>\<open>anft i n\<close> is \<open>AuctionNft::new(i, n).asset_id()\<close>.\<close>

definition anft_value :: "(auction_id \<Rightarrow> u64 \<Rightarrow> asset_id) \<Rightarrow> auction_id \<Rightarrow> u64 \<Rightarrow> asset_value" where
  "anft_value anft i n = \<lparr>v_amount = 1, v_asset = anft i n\<rparr>"

definition schedule_balance :: "auction_env \<Rightarrow> (auction_id \<Rightarrow> u64 \<Rightarrow> asset_id) \<Rightarrow> dutch_description \<Rightarrow> balance result" where
  "schedule_balance env anft d =
     balance_sub (balance_from_value (anft_value anft (dutch_id env d) 0)) (balance_from_value (da_input d))"

definition end_balance :: "(auction_id \<Rightarrow> u64 \<Rightarrow> asset_id) \<Rightarrow> auction_id \<Rightarrow> balance result" where
  "end_balance anft i = balance_sub (balance_from_value (anft_value anft i 1)) (balance_from_value (anft_value anft i 0))"

record dutch_withdraw_plan =
  dw_auction_id :: auction_id
  dw_seq :: u64
  dw_reserves_input :: asset_value
  dw_reserves_output :: asset_value

definition dutch_reserves_balance :: "dutch_withdraw_plan \<Rightarrow> balance result" where
  "dutch_reserves_balance w = balance_add (balance_from_value (dw_reserves_input w)) (balance_from_value (dw_reserves_output w))"

definition dutch_withdraw_balance :: "(auction_id \<Rightarrow> u64 \<Rightarrow> asset_id) \<Rightarrow> dutch_withdraw_plan \<Rightarrow> balance result" where
  "dutch_withdraw_balance anft w =
     and_then (dutch_reserves_balance w) (\<lambda>reserves_balance.
     and_then (balance_add reserves_balance (balance_from_value (anft_value anft (dw_auction_id w) (dw_seq w)))) (\<lambda>b.
     balance_sub b (balance_from_value (anft_value anft (dw_auction_id w) (u64_saturating_sub (dw_seq w) 1)))))"

end
