(* ===== verification/AuctionBooks.thy ===== *)
theory AuctionBooks
  imports Auction
begin

text \<open>
  The schedule, the prices and the books of the auctions: the steps of the schedule and the price
  at each of them, computed exactly; what the operations change; and the invariant that the circuit breaker of the component
  covers, asset by asset, the reserves that all auctions record.
\<close>

section \<open>Valid descriptions\<close>

definition description_ok :: "dutch_description \<Rightarrow> bool" where
  "description_ok d \<longleftrightarrow> 0 < unat (v_amount (da_input d)) \<and> unat (v_amount (da_input d)) < 2 ^ 52
     \<and> v_asset (da_input d) \<noteq> da_output_id d
     \<and> 0 < unat (da_min_output d) \<and> unat (da_min_output d) < unat (da_max_output d) \<and> unat (da_max_output d) < 2 ^ 52
     \<and> unat (da_start_height d) < unat (da_end_height d) \<and> 2 \<le> unat (da_step_count d) \<and> unat (da_step_count d) \<le> 255
     \<and> unat (da_step_count d) dvd unat (da_end_height d) - unat (da_start_height d)"

lemma schedule_check_iff: "schedule_check_stateless d = Inr () \<longleftrightarrow> description_ok d"
proof -
  have m: "unat MAX_AUCTION_AMOUNT_RESERVES = 2 ^ 52 - 1" by (simp add: MAX_AUCTION_AMOUNT_RESERVES_def)
  have le: "x \<le> MAX_AUCTION_AMOUNT_RESERVES \<longleftrightarrow> unat x < 2 ^ 52" for x by (auto simp: word_le_nat_alt m)
  have sub: "unat (da_end_height d - da_start_height d) = unat (da_end_height d) - unat (da_start_height d)"
    if "da_start_height d < da_end_height d"
    using that by (simp add: unat_sub_no_underflow word_le_nat_alt word_less_nat_alt)
  have dvd: "(da_end_height d - da_start_height d) mod da_step_count d = 0 \<longleftrightarrow>
      unat (da_step_count d) dvd unat (da_end_height d) - unat (da_start_height d)" if "da_start_height d < da_end_height d"
    by (simp only: word_unat_eq_iff [of _ 0] unat_mod sub [OF that] dvd_eq_mod_eq_0 unat_0)
  have sub': "u64_checked_sub (da_end_height d) (da_start_height d) = Some (da_end_height d - da_start_height d)" if "da_start_height d < da_end_height d"
    using that by (simp add: u64_checked_sub_def)
  show ?thesis
  proof (cases "da_start_height d < da_end_height d")
    case True
    have pos: "0 < x \<longleftrightarrow> 0 < unat x" for x :: amount by (simp add: word_less_nat_alt)
    have "2 \<le> da_step_count d \<longleftrightarrow> 2 \<le> unat (da_step_count d)" "da_step_count d \<le> 255 \<longleftrightarrow> unat (da_step_count d) \<le> 255"
      "0 < da_step_count d \<longleftrightarrow> 0 < unat (da_step_count d)" "unat (da_start_height d) < unat (da_end_height d)"
      "da_min_output d < da_max_output d \<longleftrightarrow> unat (da_min_output d) < unat (da_max_output d)"
      using True by (simp_all add: word_less_nat_alt word_le_nat_alt)
    then show ?thesis
      unfolding schedule_check_stateless_def description_ok_def and_then_Inr_iff ok_or_Inr_iff ensure_Inr_iff sub' [OF True] le
        amount_zero_def pos
      using dvd [OF True] True by auto
  next
    case False
    then show ?thesis
      unfolding schedule_check_stateless_def description_ok_def and_then_Inr_iff ensure_Inr_iff by (simp add: word_less_nat_alt)
  qed
qed

section \<open>Steps\<close>

definition step_size :: "dutch_description \<Rightarrow> nat" where
  "step_size d = (unat (da_end_height d) - unat (da_start_height d)) div unat (da_step_count d)"

lemma step_size_facts:
  assumes "description_ok d"
  shows "0 < step_size d" "unat (da_start_height d) + step_size d * unat (da_step_count d) = unat (da_end_height d)"
  using assms by (auto simp: description_ok_def step_size_def dvd_div_eq_0_iff dvd_div_mult_self mult.commute elim!: dvdE intro!: gr0I)

definition step_at :: "dutch_description \<Rightarrow> u64 \<Rightarrow> nat" where
  "step_at d h = (unat h - unat (da_start_height d)) div step_size d"

lemma interval_word:
  assumes "description_ok d"
  shows "unat ((da_end_height d - da_start_height d) div da_step_count d) = step_size d" "da_step_count d \<noteq> 0"
    "(da_end_height d - da_start_height d) div da_step_count d \<noteq> 0"
    "u64_checked_sub (da_end_height d) (da_start_height d) = Some (da_end_height d - da_start_height d)"
proof -
  have lt: "da_start_height d < da_end_height d" using assms by (simp add: description_ok_def word_less_nat_alt)
  then show *: "unat ((da_end_height d - da_start_height d) div da_step_count d) = step_size d"
    by (simp add: unat_div unat_sub_no_underflow word_le_nat_alt word_less_nat_alt step_size_def)
  show "da_step_count d \<noteq> 0" using assms by (auto simp: description_ok_def)
  show "(da_end_height d - da_start_height d) div da_step_count d \<noteq> 0"
    using * step_size_facts(1) [OF assms] by auto
  show "u64_checked_sub (da_end_height d) (da_start_height d) = Some (da_end_height d - da_start_height d)"
    using lt by (simp add: u64_checked_sub_def)
qed

lemma unat_u64_saturating_sub: "unat (u64_saturating_sub a b) = unat a - unat b"
  by (auto simp: u64_saturating_sub_def unat_sub_no_underflow word_le_nat_alt)

lemma step_index_exact:
  assumes "description_ok d"
  shows "\<exists>i. compute_step_index (trigger_data_of d) h = Inr i \<and> unat i = step_at d h"
proof -
  let ?ss = "(da_end_height d - da_start_height d) div da_step_count d"
  have "unat (u64_saturating_sub h (da_start_height d) div ?ss) = step_at d h"
    unfolding unat_div [of _ ?ss] interval_word(1) [OF assms] unat_u64_saturating_sub step_at_def by (rule refl)
  moreover have "compute_step_index (trigger_data_of d) h = Inr (u64_saturating_sub h (da_start_height d) div ?ss)"
    using interval_word(2-) [OF assms] by (simp add: compute_step_index_def trigger_data_of_def u64_checked_div_def)
  ultimately show ?thesis by blast
qed

lemma next_trigger_exact:
  assumes "description_ok d" "step_at d h < unat (da_step_count d)"
  shows "\<exists>n. compute_next_trigger_height (trigger_data_of d) h = Inr n
    \<and> unat n = unat (da_start_height d) + step_size d * (step_at d h + 1) \<and> unat n \<le> unat (da_end_height d)"
proof -
  let ?ss = "(da_end_height d - da_start_height d) div da_step_count d" and ?i = "u64_saturating_sub h (da_start_height d)"
  note w = interval_word [OF assms(1)] and f = step_size_facts [OF assms(1)]
  have i: "unat (?i div ?ss) = step_at d h"
    unfolding unat_div [of _ ?ss] w(1) unat_u64_saturating_sub step_at_def by (rule refl)
  have "step_size d * (step_at d h + 1) \<le> step_size d * unat (da_step_count d)" using assms(2) by (intro mult_le_mono2) simp
  then have le: "unat (da_start_height d) + step_size d * (step_at d h + 1) \<le> unat (da_end_height d)" using f(2) by linarith
  have big: "unat (da_end_height d) < 2 ^ 64" using unsigned_less [of "da_end_height d", where ?'a = nat] by simp
  have "unat (da_step_count d) \<le> 255" using assms(1) by (simp add: description_ok_def)
  then have "step_at d h + 1 < 2 ^ 64" using assms(2) by simp
  then have one: "unat (?i div ?ss + 1) = step_at d h + 1" using i by (simp add: unat_add_no_overflow)
  have prod: "unat (?ss * (?i div ?ss + 1)) = step_size d * (step_at d h + 1)"
    unfolding w(1) [symmetric] one [symmetric] by (rule unat_mul_no_overflow) (use le big in \<open>simp add: one w(1) del: unat_div\<close>)
  have "unat (da_start_height d + ?ss * (?i div ?ss + 1)) = unat (da_start_height d) + step_size d * (step_at d h + 1)"
    using le big by (simp add: unat_add_no_overflow prod)
  with w le show ?thesis
    by (simp add: compute_next_trigger_height_def trigger_data_of_def u64_checked_div_def Let_def)
qed

text \<open>A trigger is later than the height it was computed at, and belongs to the next step.\<close>

lemma next_trigger_later:
  assumes "description_ok d" "step_at d h < unat (da_step_count d)" "compute_next_trigger_height (trigger_data_of d) h = Inr n"
  shows "unat h < unat n" "unat n \<le> unat (da_end_height d)" "step_at d n = step_at d h + 1" "unat (da_start_height d) < unat n"
proof -
  have n: "unat n = unat (da_start_height d) + step_size d * (step_at d h + 1)" "unat n \<le> unat (da_end_height d)"
    using next_trigger_exact [OF assms(1,2)] assms(3) by auto
  note pos = step_size_facts(1) [OF assms(1)]
  have "unat h - unat (da_start_height d) < step_size d * (step_at d h + 1)"
    unfolding step_at_def using dividend_less_times_div [OF pos] by simp
  then show "unat h < unat n" using n by linarith
  show "unat n \<le> unat (da_end_height d)" by (rule n(2))
  show "step_at d n = step_at d h + 1" using pos by (simp add: n(1) step_at_def [of d n] del: add_Suc_right)
  show "unat (da_start_height d) < unat n" using pos by (simp add: n(1))
qed

section \<open>Prices\<close>

lemma price_exact:
  assumes "description_ok d" "unat i < unat (da_step_count d)"
  shows "unat (fst (compute_pq_at_step d i)) = (unat (da_step_count d) - 1 - unat i) * unat (da_max_output d) + unat i * unat (da_min_output d)"
    "unat (snd (compute_pq_at_step d i)) = (unat (da_step_count d) - 1) * unat (v_amount (da_input d))"
proof -
  let ?n = "unat (da_step_count d)" and ?M = "unat (da_max_output d)" and ?m = "unat (da_min_output d)" and ?x = "unat (v_amount (da_input d))"
  have D: "?n \<le> 255" "2 \<le> ?n" "?M < 2 ^ 52" "?m < 2 ^ 52" "?x < 2 ^ 52" using assms(1) by (auto simp: description_ok_def)
  have u: "unat (ucast (da_step_count d) :: amount) = ?n" "unat (ucast i :: amount) = unat i" by (simp_all add: unat_ucast_up)
  have s1: "unat (ucast (da_step_count d) - ucast i :: amount) = ?n - unat i"
    using assms(2) u by (simp add: unat_sub_no_underflow word_le_nat_alt)
  have s2: "unat (ucast (da_step_count d) - ucast i - 1 :: amount) = ?n - unat i - 1"
    using assms(2) s1 by (simp add: unat_sub_no_underflow word_le_nat_alt)
  have b1: "(?n - unat i - 1) * ?M \<le> 255 * 2 ^ 52" using D by (intro mult_le_mono) auto
  have b2: "unat i * ?m \<le> 255 * 2 ^ 52" using D assms(2) by (intro mult_le_mono) auto
  have b3: "(?n - 1) * ?x \<le> 255 * 2 ^ 52" using D by (intro mult_le_mono) auto
  have p1: "unat ((ucast (da_step_count d) - ucast i - 1) * da_max_output d :: amount) = (?n - unat i - 1) * ?M"
    using b1 s2 by (simp add: unat_mul_no_overflow)
  have p2: "unat (ucast i * da_min_output d :: amount) = unat i * ?m"
    using b2 u by (simp add: unat_mul_no_overflow)
  show "unat (fst (compute_pq_at_step d i)) = (?n - 1 - unat i) * ?M + unat i * ?m"
    using b1 b2 p1 p2 by (simp add: compute_pq_at_step_def Let_def unat_add_no_overflow diff_right_commute [of ?n 1])
  have s3: "unat (ucast (da_step_count d) - 1 :: amount) = ?n - 1"
    using D u by (simp add: unat_sub_no_underflow word_le_nat_alt)
  show "unat (snd (compute_pq_at_step d i)) = (?n - 1) * ?x"
    using b3 s3 by (simp add: compute_pq_at_step_def Let_def unat_mul_no_overflow)
qed

lemma price_bounds:
  assumes "description_ok d" "unat i < unat (da_step_count d)"
  shows "(unat (da_step_count d) - 1) * unat (da_min_output d) \<le> unat (fst (compute_pq_at_step d i))"
    "unat (fst (compute_pq_at_step d i)) \<le> (unat (da_step_count d) - 1) * unat (da_max_output d)"
    "0 < unat (fst (compute_pq_at_step d i))" "unat (fst (compute_pq_at_step d i)) < 2 ^ 80"
    "0 < unat (snd (compute_pq_at_step d i))" "unat (snd (compute_pq_at_step d i)) < 2 ^ 80"
proof -
  let ?n = "unat (da_step_count d)" and ?M = "unat (da_max_output d)" and ?m = "unat (da_min_output d)" and ?x = "unat (v_amount (da_input d))"
  have D: "?n \<le> 255" "2 \<le> ?n" "?M < 2 ^ 52" "0 < ?m" "?m < ?M" "?x < 2 ^ 52" "0 < ?x" using assms(1) by (auto simp: description_ok_def)
  note e = price_exact [OF assms]
  have split: "(?n - 1) * y = (?n - 1 - unat i) * y + unat i * y" for y
    using assms(2) by (simp flip: add_mult_distrib)
  have lo: "(?n - 1 - unat i) * ?m \<le> (?n - 1 - unat i) * ?M" and hi: "unat i * ?m \<le> unat i * ?M" using D by simp_all
  show 1: "(?n - 1) * ?m \<le> unat (fst (compute_pq_at_step d i))" using lo split [of ?m] e(1) by linarith
  show 2: "unat (fst (compute_pq_at_step d i)) \<le> (?n - 1) * ?M" using hi split [of ?M] e(1) by linarith
  have "0 < (?n - 1) * ?m" using D by simp
  then show "0 < unat (fst (compute_pq_at_step d i))" using 1 by linarith
  have "(?n - 1) * ?M \<le> 255 * 2 ^ 52" using D by (intro mult_le_mono) auto
  then show "unat (fst (compute_pq_at_step d i)) < 2 ^ 80" using 2 by simp
  show "0 < unat (snd (compute_pq_at_step d i))" using D e(2) by simp
  have "(?n - 1) * ?x \<le> 255 * 2 ^ 52" using D by (intro mult_le_mono) auto
  then show "unat (snd (compute_pq_at_step d i)) < 2 ^ 80" using e(2) by simp
qed

lemma price_falls:
  assumes "description_ok d" "unat i < unat (da_step_count d)" "unat i < unat j" "unat j < unat (da_step_count d)"
  shows "unat (fst (compute_pq_at_step d j)) < unat (fst (compute_pq_at_step d i))"
proof -
  let ?n = "unat (da_step_count d) - 1" and ?M = "unat (da_max_output d)" and ?m = "unat (da_min_output d)"
  obtain k where k: "unat j = unat i + k" "0 < k" using assms(3) by (metis less_imp_add_positive)
  have lt: "?m < ?M" using assms(1) by (simp add: description_ok_def)
  obtain r where r: "?n - unat i = r + k" "?n - unat j = r" using k assms(4) by (intro that [of "?n - unat j"]) auto
  have "r * ?M + (unat i + k) * ?m < (r + k) * ?M + unat i * ?m" using lt k(2) by (simp add: algebra_simps)
  then show ?thesis unfolding price_exact(1) [OF assms(1,2)] price_exact(1) [OF assms(1,4)] r unfolding k(1) .
qed

section \<open>The circuit breaker of the component\<close>

lemma auction_vcb_credit_iff:
  "auction_vcb_credit v s = Inr t \<longleftrightarrow>
     (\<exists>a. unat a = au_balance s (v_asset v) + unat (v_amount v) \<and> t = (if v_amount v = 0 then s else put_auction_vcb (v_asset v) a s))"
proof (cases "v_amount v = 0")
  case True
  then show ?thesis by (auto simp: auction_vcb_credit_def amount_zero_def au_balance_def)
next
  case False
  then show ?thesis
    by (auto simp: auction_vcb_credit_def amount_zero_def au_balance_def get_auction_value_balance_for_def result_simps) (metis)
qed

lemma auction_vcb_debit_iff:
  "auction_vcb_debit v s = Inr t \<longleftrightarrow>
     (\<exists>a. au_balance s (v_asset v) = unat (v_amount v) + unat a \<and> t = (if v_amount v = 0 then s else put_auction_vcb (v_asset v) a s))"
proof (cases "v_amount v = 0")
  case True
  then show ?thesis by (auto simp: auction_vcb_debit_def amount_zero_def au_balance_def)
next
  case False
  then show ?thesis
    by (auto simp: auction_vcb_debit_def amount_zero_def au_balance_def get_auction_value_balance_for_def result_simps)
qed

lemma au_balance_put [simp]: "au_balance (put_auction_vcb k a s) k' = (if k' = k then unat a else au_balance s k')"
  by (simp add: au_balance_def put_auction_vcb_def)

lemma au_balance_less: "au_balance s k < 2 ^ 128"
  unfolding au_balance_def by (rule u128_less)

definition au_credit_of :: "asset_id \<Rightarrow> amount \<Rightarrow> auction_state \<Rightarrow> auction_state result" where
  "au_credit_of k a = auction_vcb_credit \<lparr>v_amount = a, v_asset = k\<rparr>"

definition au_debit_of :: "asset_id \<Rightarrow> amount \<Rightarrow> auction_state \<Rightarrow> auction_state result" where
  "au_debit_of k a = auction_vcb_debit \<lparr>v_amount = a, v_asset = k\<rparr>"

interpretation auction_ledger: ledger au_balance au_credit_of au_debit_of
proof
  fix k v s t k'
  show "au_credit_of k v s = Inr t \<Longrightarrow> au_balance t k' = au_balance s k' + (if k' = k then unat v else 0)"
    by (auto simp: au_credit_of_def auction_vcb_credit_iff)
  show "au_debit_of k v s = Inr t \<Longrightarrow> au_balance s k' = au_balance t k' + (if k' = k then unat v else 0)"
    by (auto simp: au_debit_of_def auction_vcb_debit_iff)
  show "(\<exists>t. au_credit_of k v s = Inr t) \<longleftrightarrow> au_balance s k + unat v < 2 ^ 128"
    unfolding au_credit_of_def auction_vcb_credit_iff
    using ex_u128_iff [of "au_balance s k + unat v"] by simp
  show "(\<exists>t. au_debit_of k v s = Inr t) \<longleftrightarrow> unat v \<le> au_balance s k"
  proof
    assume le: "unat v \<le> au_balance s k"
    have "au_balance s k - unat v < 2 ^ 128" using au_balance_less [of s k] by simp
    then obtain a :: amount where "unat a = au_balance s k - unat v" using ex_u128_iff by blast
    with le show "\<exists>t. au_debit_of k v s = Inr t" by (auto simp: au_debit_of_def auction_vcb_debit_iff intro!: exI [of _ a])
  qed (auto simp: au_debit_of_def auction_vcb_debit_iff)
qed

lemma au_credit_effect:
  assumes "auction_vcb_credit v s = Inr t"
  shows "au_balance t k = au_balance s k + (if k = v_asset v then unat (v_amount v) else 0)" "\<exists>x. t = s\<lparr>au_vcb := x\<rparr>"
proof -
  show "au_balance t k = au_balance s k + (if k = v_asset v then unat (v_amount v) else 0)"
    using assms by (auto simp: auction_vcb_credit_iff)
  have "t = s\<lparr>au_vcb := au_vcb t\<rparr>"
    using assms by (auto simp: auction_vcb_credit_iff put_auction_vcb_def)
  then show "\<exists>x. t = s\<lparr>au_vcb := x\<rparr>" by (rule exI [of _ "au_vcb t"])
qed

lemma au_debit_effect:
  assumes "auction_vcb_debit v s = Inr t"
  shows "au_balance s k = au_balance t k + (if k = v_asset v then unat (v_amount v) else 0)" "\<exists>x. t = s\<lparr>au_vcb := x\<rparr>"
proof -
  show "au_balance s k = au_balance t k + (if k = v_asset v then unat (v_amount v) else 0)"
    using assms by (auto simp: auction_vcb_debit_iff)
  have "t = s\<lparr>au_vcb := au_vcb t\<rparr>"
    using assms by (auto simp: auction_vcb_debit_iff put_auction_vcb_def)
  then show "\<exists>x. t = s\<lparr>au_vcb := x\<rparr>" by (rule exI [of _ "au_vcb t"])
qed

lemma au_credit_total: "au_balance s (v_asset v) + unat (v_amount v) < 2 ^ 128 \<Longrightarrow> \<exists>t. auction_vcb_credit v s = Inr t"
  using auction_ledger.credit_ok [of "v_asset v" "v_amount v" s] by (cases v) (simp add: au_credit_of_def)

lemma au_debit_total: "unat (v_amount v) \<le> au_balance s (v_asset v) \<Longrightarrow> \<exists>t. auction_vcb_debit v s = Inr t"
  using auction_ledger.debit_ok [of "v_asset v" "v_amount v" s] by (cases v) (simp add: au_debit_of_def)

section \<open>The books\<close>

definition reserved :: "asset_id \<Rightarrow> dutch_auction \<Rightarrow> nat" where
  "reserved k a = (if v_asset (da_input (da_description a)) = k then unat (ds_input_reserves (da_state a)) else 0)
     + (if da_output_id (da_description a) = k then unat (ds_output_reserves (da_state a)) else 0)"

definition reserved_total :: "auction_state \<Rightarrow> asset_id \<Rightarrow> nat" where
  "reserved_total s k = tally (reserved k) (auctions s)"

definition auction_books :: "auction_env \<Rightarrow> auction_state \<Rightarrow> bool" where
  "auction_books env s \<longleftrightarrow> finite (dom (auctions s))
     \<and> (\<forall>i a. auctions s i = Some a \<longrightarrow> dutch_id env (da_description a) = i \<and> description_ok (da_description a))
     \<and> (\<forall>k. reserved_total s k \<le> au_balance s k)"

lemma auction_booksD:
  assumes "auction_books env s"
  shows "finite (dom (auctions s))" "auctions s i = Some a \<Longrightarrow> dutch_id env (da_description a) = i"
    "auctions s i = Some a \<Longrightarrow> description_ok (da_description a)" "reserved_total s k \<le> au_balance s k"
  using assms by (auto simp: auction_books_def)

lemma reserved_le_balance: "auction_books env s \<Longrightarrow> auctions s i = Some a \<Longrightarrow> reserved k a \<le> au_balance s k"
  using tally_member [of "auctions s" i a "reserved k"] auction_booksD(1,4) unfolding reserved_total_def by (meson le_trans)

text \<open>What the circuit breaker holds beyond the recorded reserves does not fall.\<close>

definition slack_kept :: "auction_state \<Rightarrow> auction_state \<Rightarrow> bool" where
  "slack_kept s t \<longleftrightarrow> (\<forall>k. au_balance s k + reserved_total t k \<le> au_balance t k + reserved_total s k)"

lemma slack_refl [simp]: "slack_kept s s" by (simp add: slack_kept_def)

lemma slack_trans: "slack_kept s t \<Longrightarrow> slack_kept t u \<Longrightarrow> slack_kept s u"
  unfolding slack_kept_def
proof
  assume *: "\<forall>k. au_balance s k + reserved_total t k \<le> au_balance t k + reserved_total s k"
    "\<forall>k. au_balance t k + reserved_total u k \<le> au_balance u k + reserved_total t k"
  show "au_balance s k + reserved_total u k \<le> au_balance u k + reserved_total s k" for k using *(1,2) [rule_format, of k] by linarith
qed

text \<open>Writing an auction back under its identifier.\<close>

lemma write_books:
  assumes books: "auction_books env s"
    and a: "description_ok (da_description a)" "i = dutch_id env (da_description a)"
    and t: "auctions t = (auctions s)(i := Some a)"
    and bal: "\<And>k. au_balance s k + reserved k a \<le> au_balance t k + prev_value (reserved k) (auctions s i)"
  shows "auction_books env t \<and> slack_kept s t"
proof -
  note B = auction_booksD [OF books]
  have tot: "reserved_total t k + prev_value (reserved k) (auctions s i) = reserved_total s k + reserved k a" for k
    unfolding reserved_total_def t by (rule tally_update [OF B(1)])
  have slack: "au_balance s k + reserved_total t k \<le> au_balance t k + reserved_total s k" for k
    using tot [of k] bal [of k] by linarith
  have cover: "reserved_total t k \<le> au_balance t k" for k using slack [of k] B(4) [of k] by linarith
  have "finite (dom (auctions t))" using B(1) by (simp add: t)
  moreover have "dutch_id env (da_description b) = j \<and> description_ok (da_description b)" if "auctions t j = Some b" for j b
    using that B(2,3) a by (cases "j = i") (auto simp: t)
  ultimately show ?thesis using cover slack by (auto simp: auction_books_def slack_kept_def)
qed

lemma write_auctions [simp]:
  "auctions (write_dutch_auction_state env a s) = (auctions s)(dutch_id env (da_description a) := Some a)"
  "au_vcb (write_dutch_auction_state env a s) = au_vcb s" "au_dex (write_dutch_auction_state env a s) = au_dex s"
  "dutch_triggers (write_dutch_auction_state env a s) = dutch_triggers s" "au_height (write_dutch_auction_state env a s) = au_height s"
  by (simp_all add: write_dutch_auction_state_def put_auction_def)

lemma trigger_fields [simp]:
  "auctions (set_trigger_for_dutch_id env i h s) = auctions s" "au_vcb (set_trigger_for_dutch_id env i h s) = au_vcb s"
  "au_dex (set_trigger_for_dutch_id env i h s) = au_dex s" "au_height (set_trigger_for_dutch_id env i h s) = au_height s"
  "auctions (unset_trigger_for_dutch_id env i h s) = auctions s" "au_vcb (unset_trigger_for_dutch_id env i h s) = au_vcb s"
  "au_dex (unset_trigger_for_dutch_id env i h s) = au_dex s" "au_height (unset_trigger_for_dutch_id env i h s) = au_height s"
  by (simp_all add: set_trigger_for_dutch_id_def unset_trigger_for_dutch_id_def)

lemma au_balance_same: "au_vcb t = au_vcb s \<Longrightarrow> au_balance t = au_balance s"
  by (rule ext) (simp add: au_balance_def)

lemma schedule_books:
  assumes "auction_books env s" "schedule_check_stateless d = Inr ()" "schedule_execute env d s = Inr t"
  shows "auction_books env t \<and> slack_kept s t"
proof -
  let ?i = "dutch_id env d"
  have ok: "description_ok d" using assms(2) by (simp add: schedule_check_iff)
  obtain a u x n where fresh: "auctions s ?i = None" and u: "auction_vcb_credit (da_input d) s = Inr u"
    and a: "a = \<lparr>da_description = d, da_state = \<lparr>ds_sequence = 0, ds_current_position = None, ds_next_trigger = x,
        ds_input_reserves = v_amount (da_input d), ds_output_reserves = amount_zero\<rparr>\<rparr>"
    and t: "t = write_dutch_auction_state env a (set_trigger_for_dutch_id env ?i n u)"
    using assms(3) by (auto simp: schedule_execute_def schedule_auction_def auction_id_exists_def result_simps Let_def)
  have bal: "au_balance t k = au_balance u k" for k by (rule fun_cong [OF au_balance_same]) (simp add: t)
  show ?thesis
  proof (rule write_books [OF assms(1)])
    show "description_ok (da_description a)" "?i = dutch_id env (da_description a)" using ok by (simp_all add: a)
    show "auctions t = (auctions s)(?i := Some a)" using au_credit_effect(2) [OF u] by (auto simp: t a)
    show "au_balance s k + reserved k a \<le> au_balance t k + prev_value (reserved k) (auctions s ?i)" for k
      using au_credit_effect(1) [OF u, of k] by (simp add: fresh bal reserved_def a amount_zero_def)
  qed
qed

lemma withdraw_books:
  assumes "auction_books env s" "auctions s i = Some a" "withdraw_auction env a s = Inr (b, t)"
  shows "auction_books env t \<and> slack_kept s t"
proof -
  let ?d = "da_description a"
  note B = auction_booksD [OF assms(1)]
  obtain u v x where u: "auction_vcb_debit \<lparr>v_amount = ds_input_reserves (da_state a), v_asset = v_asset (da_input ?d)\<rparr> s = Inr u"
    and v: "auction_vcb_debit \<lparr>v_amount = ds_output_reserves (da_state a), v_asset = da_output_id ?d\<rparr> u = Inr v"
    and t: "t = write_dutch_auction_state env x v" and x: "da_description x = ?d" "ds_input_reserves (da_state x) = 0" "ds_output_reserves (da_state x) = 0"
    using assms(3) by (auto simp: withdraw_auction_def and_then_Inr_iff amount_zero_def Let_def)
  have bal: "au_balance t k = au_balance v k" for k by (rule fun_cong [OF au_balance_same]) (simp add: t)
  show ?thesis
  proof (rule write_books [OF assms(1)])
    show "description_ok (da_description x)" using B(3) [OF assms(2)] by (simp add: x)
    show "i = dutch_id env (da_description x)" using B(2) [OF assms(2)] by (simp add: x)
    show "auctions t = (auctions s)(i := Some x)"
      using au_debit_effect(2) [OF u] au_debit_effect(2) [OF v] B(2) [OF assms(2)] by (auto simp: t x)
    show "au_balance s k + reserved k x \<le> au_balance t k + prev_value (reserved k) (auctions s i)" for k
      using au_debit_effect(1) [OF u, of k] au_debit_effect(1) [OF v, of k]
      by (auto simp: assms(2) bal reserved_def x)
  qed
qed

lemma withdraw_auction_effect:
  assumes "withdraw_auction env a s = Inr (b, t)"
  shows "au_dex t = au_dex s" "dutch_triggers t = dutch_triggers s"
    "auctions t = (auctions s)(dutch_id env (da_description a) := Some \<lparr>da_description = da_description a, da_state = (da_state a)\<lparr>
        ds_sequence := u64_saturating_add (ds_sequence (da_state a)) 1, ds_current_position := None, ds_next_trigger := None,
        ds_input_reserves := amount_zero, ds_output_reserves := amount_zero\<rparr>\<rparr>)"
proof -
  obtain u v where u: "auction_vcb_debit \<lparr>v_amount = ds_input_reserves (da_state a), v_asset = v_asset (da_input (da_description a))\<rparr> s = Inr u"
    and v: "auction_vcb_debit \<lparr>v_amount = ds_output_reserves (da_state a), v_asset = da_output_id (da_description a)\<rparr> u = Inr v"
    and t: "t = write_dutch_auction_state env \<lparr>da_description = da_description a, da_state = (da_state a)\<lparr>
        ds_sequence := u64_saturating_add (ds_sequence (da_state a)) 1, ds_current_position := None, ds_next_trigger := None,
        ds_input_reserves := amount_zero, ds_output_reserves := amount_zero\<rparr>\<rparr> v"
    using assms by (auto simp: withdraw_auction_def and_then_Inr_iff Let_def)
  obtain y where "v = s\<lparr>au_vcb := y\<rparr>" using au_debit_effect(2) [OF u] au_debit_effect(2) [OF v] by auto
  then show "au_dex t = au_dex s" "dutch_triggers t = dutch_triggers s"
    "auctions t = (auctions s)(dutch_id env (da_description a) := Some \<lparr>da_description = da_description a, da_state = (da_state a)\<lparr>
        ds_sequence := u64_saturating_add (ds_sequence (da_state a)) 1, ds_current_position := None, ds_next_trigger := None,
        ds_input_reserves := amount_zero, ds_output_reserves := amount_zero\<rparr>\<rparr>)"
    by (simp_all add: t)
qed

text \<open>The withdrawal of a recorded auction cannot fail, and pays the recorded reserves.\<close>

lemma withdraw_total:
  assumes "auction_books env s" "auctions s i = Some a"
  shows "\<exists>b t. withdraw_auction env a s = Inr (b, t) \<and> (\<forall>k. net b k = int (reserved k a)) \<and> (\<forall>k. au_balance t k + reserved k a = au_balance s k)"
proof -
  let ?d = "da_description a"
  let ?v = "\<lparr>v_amount = ds_input_reserves (da_state a), v_asset = v_asset (da_input ?d)\<rparr>"
    and ?w = "\<lparr>v_amount = ds_output_reserves (da_state a), v_asset = da_output_id ?d\<rparr>"
  note B = auction_booksD [OF assms(1)]
  have ne: "v_asset (da_input ?d) \<noteq> da_output_id ?d" using B(3) [OF assms(2)] by (simp add: description_ok_def)
  have le: "reserved k a \<le> au_balance s k" for k by (rule reserved_le_balance [OF assms])
  obtain u where u: "auction_vcb_debit ?v s = Inr u"
    using au_debit_total [of ?v s] le [of "v_asset (da_input ?d)"] by (auto simp: reserved_def split: if_splits)
  have "unat (ds_output_reserves (da_state a)) \<le> au_balance u (da_output_id ?d)"
    using le [of "da_output_id ?d"] au_debit_effect(1) [OF u, of "da_output_id ?d"] ne by (simp add: reserved_def)
  then obtain v where v: "auction_vcb_debit ?w u = Inr v" using au_debit_total [of ?w u] by auto
  have small: "uint x < 2 ^ 128" for x :: amount using unsigned_less [of x, where ?'a = int] by simp
  have "\<bar>net (balance_from_value ?v) k + net (balance_from_value ?w) k\<bar> < 2 ^ 128" for k
    using ne small [of "ds_input_reserves (da_state a)"] small [of "ds_output_reserves (da_state a)"] by (simp add: balance_from_value_net)
  then obtain b where b: "balance_add (balance_from_value ?v) (balance_from_value ?w) = Inr b"
    using balance_add_total [OF balance_from_value_net(2) balance_from_value_net(2)] by blast
  have net: "net b k = int (reserved k a)" for k
    using balance_add_net(2) [OF b] by (simp add: balance_from_value_net reserved_def)
  obtain t where t: "withdraw_auction env a s = Inr (b, t)" "au_vcb t = au_vcb v"
    using u v b by (simp add: withdraw_auction_def Let_def)
  have "au_balance t k + reserved k a = au_balance s k" for k
    using au_debit_effect(1) [OF u, of k] au_debit_effect(1) [OF v, of k] fun_cong [OF au_balance_same [OF t(2)], of k]
    by (simp add: reserved_def)
  with t(1) net show ?thesis by blast
qed

section \<open>Moving value to and from the DEX\<close>

lemma recover_effect:
  assumes "recover_position env pos s = Inr (b, t)"
  shows "\<exists>d. t = s\<lparr>au_dex := d\<rparr>"
proof (cases pos)
  case None
  then show ?thesis using assms by (intro exI [of _ "au_dex s"]) (simp add: recover_position_def)
next
  case (Some i)
  then show ?thesis using assms by (auto simp: recover_position_def and_then_Inr_iff and_then_prod_Inr_iff)
qed

text \<open>The inflows of both assets are credited and added to the reserves without wrapping around.\<close>

lemma absorb_effect:
  assumes books: "auction_books env s" and a: "auctions s i = Some a" and u: "au_vcb u = au_vcb s"
    and c: "auction_vcb_credit (lp_inflow (v_asset (da_input (da_description a))) b) u = Inr v"
      "auction_vcb_credit (lp_inflow (da_output_id (da_description a)) b) v = Inr w"
  shows "\<exists>x. w = u\<lparr>au_vcb := x\<rparr>"
    "reserved k (\<lparr>da_description = da_description a, da_state = (da_state a)\<lparr>ds_sequence := n, ds_current_position := pos, ds_next_trigger := trigger,
        ds_input_reserves := ds_input_reserves (da_state a) + v_amount (lp_inflow (v_asset (da_input (da_description a))) b),
        ds_output_reserves := ds_output_reserves (da_state a) + v_amount (lp_inflow (da_output_id (da_description a)) b)\<rparr>\<rparr>)
      + au_balance s k = au_balance w k + reserved k a"
    "unat (ds_input_reserves (da_state a) + v_amount (lp_inflow (v_asset (da_input (da_description a))) b))
      = unat (ds_input_reserves (da_state a)) + unat (v_amount (lp_inflow (v_asset (da_input (da_description a))) b))"
proof -
  let ?d = "da_description a" and ?st = "da_state a"
  let ?in = "v_asset (da_input ?d)" and ?out = "da_output_id ?d"
  let ?x = "provided_amount ?in b" and ?y = "provided_amount ?out b"
  have ne: "?in \<noteq> ?out" using auction_booksD(3) [OF books a] by (simp add: description_ok_def)
  show "\<exists>x. w = u\<lparr>au_vcb := x\<rparr>" using au_credit_effect(2) [OF c(1)] au_credit_effect(2) [OF c(2)] by auto
  have bal: "au_balance w k = au_balance s k + (if k = ?in then unat ?x else 0) + (if k = ?out then unat ?y else 0)" for k
    using au_credit_effect(1) [OF c(1), of k] au_credit_effect(1) [OF c(2), of k] fun_cong [OF au_balance_same [OF u], of k]
    by (simp add: lp_inflow_def)
  have le: "reserved k a \<le> au_balance s k" for k by (rule reserved_le_balance [OF books a])
  have "unat (ds_input_reserves ?st) + unat ?x < 2 ^ 128"
    using le [of ?in] bal [of ?in] au_balance_less [of w ?in] ne by (simp add: reserved_def)
  then have in_sum: "unat (ds_input_reserves ?st + ?x) = unat (ds_input_reserves ?st) + unat ?x" by (simp add: unat_add_no_overflow)
  then show "unat (ds_input_reserves ?st + v_amount (lp_inflow ?in b)) = unat (ds_input_reserves ?st) + unat (v_amount (lp_inflow ?in b))"
    by (simp add: lp_inflow_def)
  have "unat (ds_output_reserves ?st) + unat ?y < 2 ^ 128"
    using le [of ?out] bal [of ?out] au_balance_less [of w ?out] ne by (simp add: reserved_def)
  then have out_sum: "unat (ds_output_reserves ?st + ?y) = unat (ds_output_reserves ?st) + unat ?y" by (simp add: unat_add_no_overflow)
  show "reserved k (\<lparr>da_description = ?d, da_state = ?st\<lparr>ds_sequence := n, ds_current_position := pos, ds_next_trigger := trigger,
        ds_input_reserves := ds_input_reserves ?st + v_amount (lp_inflow ?in b),
        ds_output_reserves := ds_output_reserves ?st + v_amount (lp_inflow ?out b)\<rparr>\<rparr>) + au_balance s k = au_balance w k + reserved k a"
    using in_sum out_sum bal [of k] ne by (auto simp: reserved_def lp_inflow_def)
qed

lemma lp_reserves:
  assumes "dp_start pair \<noteq> dp_end pair"
  shows "(if k = v_asset (reserves_1 (auction_lp env pair x i pq nonce c)) then unat (v_amount (reserves_1 (auction_lp env pair x i pq nonce c))) else 0)
    + (if k = v_asset (reserves_2 (auction_lp env pair x i pq nonce c)) then unat (v_amount (reserves_2 (auction_lp env pair x i pq nonce c))) else 0)
    = (if k = dp_start pair then unat x else 0)"
  using assms by (cases pair)
    (auto simp: auction_lp_def position_new_with_nonce_def to_canonical_def trading_pair_new_def reserves_1_def reserves_2_def
      trading_function_new_def amount_zero_def Let_def)

lemma allocate_effect:
  assumes "allocate_position env pair x i pq nonce s = Inr (pos, t)" "dp_start pair \<noteq> dp_end pair"
  shows "\<exists>d y. t = s\<lparr>au_dex := d, au_vcb := y\<rparr>" "au_balance s k \<le> au_balance t k + (if k = dp_start pair then unat x else 0)"
    "pos \<noteq> None \<Longrightarrow> au_balance s k = au_balance t k + (if k = dp_start pair then unat x else 0)"
    "pos = None \<Longrightarrow> t = s"
proof -
  obtain ps where ps: "dex_params (au_dex s) = Some ps"
    using assms(1) by (auto simp: allocate_position_def get_dex_params_def and_then_Inr_iff expect_Inr_iff ok_or_Inr_iff)
  consider "pos = None" "t = s" | c u v d where
    "auction_vcb_debit (reserves_1 (auction_lp env pair x i pq nonce c)) s = Inr u"
    "auction_vcb_debit (reserves_2 (auction_lp env pair x i pq nonce c)) u = Inr v" "t = v\<lparr>au_dex := d\<rparr>" "pos \<noteq> None"
    using assms(1) ps by (auto simp: allocate_position_def get_dex_params_def and_then_Inr_iff expect_Inr_iff Let_def
        split: if_splits option.splits)
  then have "(\<exists>d y. t = s\<lparr>au_dex := d, au_vcb := y\<rparr>) \<and> au_balance s k \<le> au_balance t k + (if k = dp_start pair then unat x else 0)
      \<and> (pos \<noteq> None \<longrightarrow> au_balance s k = au_balance t k + (if k = dp_start pair then unat x else 0)) \<and> (pos = None \<longrightarrow> t = s)"
  proof cases
    case 1
    then show ?thesis by (intro conjI exI [of _ "au_dex s"] exI [of _ "au_vcb s"]) simp_all
  next
    case (2 c u v d)
    have "au_balance t k = au_balance v k" by (rule fun_cong [OF au_balance_same]) (simp add: 2)
    then have "au_balance s k = au_balance t k + (if k = dp_start pair then unat x else 0)"
      using au_debit_effect(1) [OF 2(1), of k] au_debit_effect(1) [OF 2(2), of k] lp_reserves [OF assms(2), of k env x i pq nonce c] by linarith
    moreover have "t = s\<lparr>au_dex := d, au_vcb := au_vcb v\<rparr>"
      using au_debit_effect(2) [OF 2(1)] au_debit_effect(2) [OF 2(2)] 2(3) by auto
    ultimately show ?thesis using 2(4) by auto
  qed
  then show "\<exists>d y. t = s\<lparr>au_dex := d, au_vcb := y\<rparr>" "au_balance s k \<le> au_balance t k + (if k = dp_start pair then unat x else 0)"
    "pos \<noteq> None \<Longrightarrow> au_balance s k = au_balance t k + (if k = dp_start pair then unat x else 0)" "pos = None \<Longrightarrow> t = s" by blast+
qed

text \<open>A state with the same auctions and no less in the circuit breaker.\<close>

lemma books_grow:
  assumes "auction_books env s" "auctions t = auctions s" "\<And>k. au_balance s k \<le> au_balance t k"
  shows "auction_books env t \<and> slack_kept s t"
proof -
  have tot: "reserved_total t k = reserved_total s k" for k by (simp add: reserved_total_def assms(2))
  have "reserved_total t k \<le> au_balance t k" for k using assms(3) [of k] auction_booksD(4) [OF assms(1), of k] tot by simp
  then show ?thesis using assms(1,2,3) tot by (auto simp: auction_books_def slack_kept_def)
qed

lemma end_auction_books:
  assumes books: "auction_books env s" and a: "auctions s i = Some a" and e: "end_auction env a s = Inr t"
  shows "auction_books env t \<and> slack_kept s t"
proof (cases "ds_sequence (da_state a) \<ge> 1")
  case True
  then show ?thesis using books e by (simp add: end_auction_def)
next
  case False
  let ?d = "da_description a" and ?st = "da_state a"
  let ?in = "v_asset (da_input ?d)" and ?out = "da_output_id ?d"
  obtain b u v w where u: "recover_position env (ds_current_position ?st) s = Inr (b, u)"
    and c: "auction_vcb_credit (lp_inflow ?in b) u = Inr v" "auction_vcb_credit (lp_inflow ?out b) v = Inr w"
    and t': "t = write_dutch_auction_state env \<lparr>da_description = ?d, da_state = \<lparr>ds_sequence = 1, ds_current_position = None,
          ds_next_trigger = None, ds_input_reserves = ds_input_reserves ?st + v_amount (lp_inflow ?in b),
          ds_output_reserves = ds_output_reserves ?st + v_amount (lp_inflow ?out b)\<rparr>\<rparr>
        (case ds_next_trigger ?st of None \<Rightarrow> w | Some h \<Rightarrow> unset_trigger_for_dutch_id env (dutch_id env ?d) h w)"
    using e False by (auto simp: end_auction_def Let_def and_then_Inr_iff and_then_prod_Inr_iff)
  have "\<lparr>ds_sequence = 1, ds_current_position = None, ds_next_trigger = None, ds_input_reserves = x, ds_output_reserves = y\<rparr>
      = ?st\<lparr>ds_sequence := 1, ds_current_position := None, ds_next_trigger := None, ds_input_reserves := x, ds_output_reserves := y\<rparr>" for x y
    by (cases ?st) simp
  note t = t' [unfolded this]
  obtain d where d: "u = s\<lparr>au_dex := d\<rparr>" using recover_effect [OF u] ..
  have vcb: "au_vcb u = au_vcb s" by (simp add: d)
  note A = absorb_effect [OF books a vcb c]
  obtain x where w: "w = u\<lparr>au_vcb := x\<rparr>" using A(1) ..
  have bal: "au_balance t k = au_balance w k" for k by (rule fun_cong [OF au_balance_same]) (simp add: t split: option.split)
  show ?thesis
  proof (rule write_books [OF books])
    show "auctions t = (auctions s)(i := Some \<lparr>da_description = ?d, da_state = ?st\<lparr>ds_sequence := 1, ds_current_position := None,
          ds_next_trigger := None, ds_input_reserves := ds_input_reserves ?st + v_amount (lp_inflow ?in b),
          ds_output_reserves := ds_output_reserves ?st + v_amount (lp_inflow ?out b)\<rparr>\<rparr>)"
      using auction_booksD(2) [OF books a] by (simp add: t w d split: option.split)
  qed (use auction_booksD(2,3) [OF books a] A(2) [of _ None None 1] bal a in \<open>simp_all add: add.commute\<close>)
qed

lemma execute_books:
  assumes books: "auction_books env s" and e: "execute_dutch_auction env i h s = (r, t)"
  shows "auction_books env t \<and> slack_kept s t"
proof (cases "auctions s i")
  case None
  then show ?thesis using books e by (simp add: execute_dutch_auction_def)
next
  case (Some a)
  let ?d = "da_description a" and ?st = "da_state a"
  let ?in = "v_asset (da_input ?d)" and ?out = "da_output_id ?d"
  note B = auction_booksD [OF books] and ex = e [unfolded execute_dutch_auction_def Let_def, simplified Some option.case]
  have ne: "?in \<noteq> ?out" using B(3) [OF Some] by (simp add: description_ok_def)
  show ?thesis
  proof (cases "recover_position env (ds_current_position ?st) s")
    case (Inl e')
    then show ?thesis using books ex by simp
  next
    case (Inr y)
    obtain b u where u: "recover_position env (ds_current_position ?st) s = Inr (b, u)" using Inr by (cases y) simp
    obtain d where d: "u = s\<lparr>au_dex := d\<rparr>" using recover_effect [OF u] ..
    let ?u = "unset_trigger_for_dutch_id env i h u"
    have vcb: "au_vcb ?u = au_vcb s" by (simp add: d)
    show ?thesis
    proof (cases "auction_vcb_credit (lp_inflow ?in b) ?u")
      case (Inl e')
      then have "t = ?u" using ex u by simp
      then show ?thesis using books_grow [OF books, of t] au_balance_same [OF vcb] by (simp add: d)
    next
      case c1: (Inr v)
      have vb: "au_balance s k \<le> au_balance v k" for k
        using au_credit_effect(1) [OF c1, of k] fun_cong [OF au_balance_same [OF vcb], of k] by simp
      have va: "auctions v = auctions s" using au_credit_effect(2) [OF c1] by (auto simp: d)
      show ?thesis
      proof (cases "auction_vcb_credit (lp_inflow ?out b) v")
        case (Inl e')
        then have "t = v" using ex u c1 by simp
        then show ?thesis using books_grow [OF books va vb] by simp
      next
        case c2: (Inr w)
        note A = absorb_effect [OF books Some vcb c1 c2]
        obtain x where w: "w = ?u\<lparr>au_vcb := x\<rparr>" using A(1) ..
        have wb: "au_balance s k \<le> au_balance w k" for k
          using au_credit_effect(1) [OF c2, of k] vb [of k] by simp
        have wa: "auctions w = auctions s" by (simp add: w d)
        have grow: "auction_books env w \<and> slack_kept s w" by (rule books_grow [OF books wa wb])
        let ?new = "?st\<lparr>ds_current_position := None, ds_next_trigger := None, ds_input_reserves := ds_input_reserves ?st + v_amount (lp_inflow ?in b),
            ds_output_reserves := ds_output_reserves ?st + v_amount (lp_inflow ?out b)\<rparr>"
        obtain step where step: "compute_step_index (trigger_data_of ?d) h = Inr step" "unat step = step_at ?d h"
          using step_index_exact [OF B(3) [OF Some], of h] by blast
        show ?thesis
        proof (cases "step \<ge> da_step_count ?d \<or> ds_input_reserves ?new = amount_zero")
          case True
          then have t: "t = write_dutch_auction_state env \<lparr>da_description = ?d, da_state = ?new\<lparr>ds_sequence := 1\<rparr>\<rparr> w"
            using ex u c1 c2 step by simp
          have bal: "au_balance t k = au_balance w k" for k by (rule fun_cong [OF au_balance_same]) (simp add: t)
          show ?thesis
          proof (rule write_books [OF books])
            show "auctions t = (auctions s)(i := Some \<lparr>da_description = ?d, da_state = ?new\<lparr>ds_sequence := 1\<rparr>\<rparr>)"
              using B(2) [OF Some] by (simp add: t wa)
            show "au_balance s k + reserved k \<lparr>da_description = ?d, da_state = ?new\<lparr>ds_sequence := 1\<rparr>\<rparr> \<le> au_balance t k + prev_value (reserved k) (auctions s i)" for k
              using A(2) [of k None None 1] bal [of k] by (auto simp: reserved_def Some)
          qed (use B(2,3) [OF Some] in simp_all)
        next
          case go: False
          then have lt: "step_at ?d h < unat (da_step_count ?d)" using step(2) by (simp add: word_le_nat_alt not_le)
          obtain n where n: "compute_next_trigger_height (trigger_data_of ?d) h = Inr n"
            using next_trigger_exact [OF B(3) [OF Some] lt] by blast
          show ?thesis
          proof (cases "allocate_position env (DirectedPair ?in ?out) (ds_input_reserves ?new) step (compute_pq_at_step ?d step) (da_nonce ?d) w")
            case (Inl e')
            then have "t = w" using ex u c1 c2 step(1) go n by simp
            then show ?thesis using grow by simp
          next
            case al: (Inr z)
            obtain pos q where z: "z = (pos, q)" by (cases z)
            let ?fin = "?new\<lparr>ds_input_reserves := amount_zero, ds_current_position := pos, ds_next_trigger := non_zero n\<rparr>"
            have t: "t = write_dutch_auction_state env \<lparr>da_description = ?d, da_state = ?fin\<rparr> (set_trigger_for_dutch_id env i n q)"
              using ex u c1 c2 step(1) go n al z by simp
            note P = allocate_effect [OF al [unfolded z]]
            have pa: "auctions q = auctions s" using P(1) ne wa by auto
            have bal: "au_balance t k = au_balance q k" for k by (rule fun_cong [OF au_balance_same]) (simp add: t)
            show ?thesis
            proof (rule write_books [OF books])
              show "auctions t = (auctions s)(i := Some \<lparr>da_description = ?d, da_state = ?fin\<rparr>)"
                using B(2) [OF Some] by (simp add: t pa)
              show "au_balance s k + reserved k \<lparr>da_description = ?d, da_state = ?fin\<rparr> \<le> au_balance t k + prev_value (reserved k) (auctions s i)" for k
                using A(2) [of k None None 0] P(2) [of k] ne bal [of k] A(3)
                by (auto simp: reserved_def Some amount_zero_def)
            qed (use B(2,3) [OF Some] in simp_all)
          qed
        qed
      qed
    qed
  qed
qed

end
