(* ===== verification/AuctionTrigger.thy ===== *)
theory AuctionTrigger
  imports AuctionBooks
begin

text \<open>
  One trigger of an auction over the DEX it deploys positions on: the invariant of both components, the recovery of a
  position, the deployment of the next one, and the execution of a trigger, which always
  succeeds, keeps the invariant and creates or destroys no value.
\<close>

section \<open>What a balance provides\<close>

lemma provided_list:
  assumes "distinct (map fst m)"
  shows "sum_list (map v_amount (filter (\<lambda>v. v_asset v = k) (List.map_filter imb_provided
     (map (\<lambda>(id, imb). let vi = imb_map (\<lambda>amt. \<lparr>v_amount = amt, v_asset = id\<rparr>) imb in if n then imb_neg vi else vi) m))))
   = (case map_of m k of None \<Rightarrow> 0 | Some imb \<Rightarrow> (case if n then imb_neg imb else imb of Provided a \<Rightarrow> a | Required a \<Rightarrow> 0))"
  using assms
proof (induction m)
  case Nil
  then show ?case by (simp add: List.map_filter_def)
next
  case (Cons x m)
  obtain id imb where x: "x = (id, imb)" by (cases x)
  have none: "map_of m id = None" using Cons.prems x by (auto simp: map_of_eq_None_iff)
  show ?case
    using Cons none by (cases imb) (auto simp: x List.map_filter_def)
qed

lemma provided_net:
  assumes "balance_wf b" "0 \<le> net b k"
  shows "int (unat (provided_amount k b)) = net b k"
proof -
  have "distinct (map fst (bal_map b))" using assms(1) by (simp add: balance_wf_def bt_wf_def strict_sorted_iff)
  note p = provided_list [OF this, of k "negated b"]
  show ?thesis
  proof (cases "bt_get (bal_map b) k")
    case None
    then show ?thesis using p by (simp add: provided_amount_def balance_provided_def balance_iter_def net_def opt_imb_int_def bt_get_def)
  next
    case (Some imb)
    have a: "provided_amount k b = (case if negated b then imb_neg imb else imb of Provided a \<Rightarrow> a | Required a \<Rightarrow> 0)"
      using p Some by (simp add: provided_amount_def balance_provided_def balance_iter_def bt_get_def)
    have n: "net b k = (if negated b then - opt_imb_int (Some imb) else opt_imb_int (Some imb))"
      using Some by (simp add: net_def)
    have "0 \<le> uint x" for x :: amount by simp
    show ?thesis
      using assms(2) unfolding a n by (cases imb; cases "negated b") (simp_all add: opt_imb_int_def)
  qed
qed

section \<open>Recovering a position\<close>

definition alive_at :: "dex_state \<Rightarrow> position_id \<Rightarrow> position \<Rightarrow> bool" where
  "alive_at d i p \<longleftrightarrow> positions d i = Some p \<and> (p_state p = Opened \<or> p_state p = Closed)"

lemma close_keeps:
  assumes "dex_inv hash d" "alive_at d i p"
  shows "\<exists>e. close_position_by_id um i d = Inr e \<and> dex_inv hash e \<and> positions e = (positions d)(i := Some (p\<lparr>p_state := Closed\<rparr>))
    \<and> same_frame d e"
proof -
  note I = dex_invD [OF assms(1)]
  have p: "positions d i = Some p" "p_state p = Opened \<or> p_state p = Closed" using assms(2) by (auto simp: alive_at_def)
  obtain e where e: "close_position_by_id um i d = Inr e" "positions e = (positions d)(i := Some (p\<lparr>p_state := Closed\<rparr>))"
    "same_frame d e" "indexes_ok e" "solvent e" by (rule close_position_spec [OF I(1,2) p])
  have "good_step hash d e" by (rule good_close [OF assms(1) e(1)])
  with e show ?thesis by (auto simp: good_step_def)
qed

lemma recover_total:
  assumes inv: "dex_inv hash (au_dex s)" and p: "alive_at (au_dex s) i p"
  shows "\<exists>b d. recover_position env (Some i) s = Inr (b, s\<lparr>au_dex := d\<rparr>) \<and> dex_inv hash d
    \<and> positions d = (positions (au_dex s))(i := Some (p\<lparr>p_state := Withdrawn 0, p_reserves := reserves_zero\<rparr>))
    \<and> (\<forall>k. unat (provided_amount k b) = holdings k p) \<and> (\<forall>k. vcb_balance d k + holdings k p = vcb_balance (au_dex s) k)
    \<and> dex_params d = dex_params (au_dex s)"
proof -
  let ?um = "ae_um env"
  obtain e where e: "close_position_by_id ?um i (au_dex s) = Inr e" "dex_inv hash e"
    "positions e = (positions (au_dex s))(i := Some (p\<lparr>p_state := Closed\<rparr>))" "same_frame (au_dex s) e"
    using close_keeps [OF assms] by blast
  have pe: "positions e i = Some (p\<lparr>p_state := Closed\<rparr>)" by (simp add: e(3))
  have "withdrawable 0 (p_state (p\<lparr>p_state := Closed\<rparr>))" by (simp add: withdrawable_def)
  from withdraw_position_total [OF e(2) pe this] obtain b d where w: "withdraw_position ?um i 0 e = Inr (b, d)" by blast
  have hold: "holdings k (p\<lparr>p_state := Closed\<rparr>) = holdings k p" for k by (simp add: holdings_def)
  have wf: "balance_wf b"
    by (rule withdraw_position_effect [OF w]) (blast dest: reserves_balance_net(1))
  have pay: "net b k = int (holdings k p)" "vcb_balance d k + holdings k p = vcb_balance e k" for k
    using withdraw_pays [OF e(2) w] pe hold by auto
  have pos: "positions d = (positions e)(i := Some (p\<lparr>p_state := Withdrawn 0, p_reserves := reserves_zero\<rparr>))"
    by (rule withdraw_position_effect [OF w]) (simp add: pe)
  have "unat (provided_amount k b) = holdings k p" for k
    using provided_net [OF wf, of k] pay(1) [of k] by (metis of_nat_eq_iff of_nat_0_le_iff)
  moreover have "dex_inv hash d" using good_withdraw [OF e(2) w] by (simp add: good_step_def)
  moreover have "recover_position env (Some i) s = Inr (b, s\<lparr>au_dex := d\<rparr>)"
    by (simp add: recover_position_def e(1) w)
  moreover have "dex_params d = dex_params (au_dex s)" using params_withdraw [OF w] params_close [OF e(1)] by simp
  moreover have "vcb_balance e k = vcb_balance (au_dex s) k" for k using vcb_balance_frame [OF e(4)] by simp
  ultimately show ?thesis using pay(2) pos e(3) by (intro exI [of _ b] exI [of _ d]) simp
qed

section \<open>Deploying a position\<close>

lemma find_attempt_from:
  assumes "\<not> taken (c + of_nat n)"
  shows "\<exists>c'. find_attempt taken c = Some c' \<and> \<not> taken c'"
  using assms
proof (induction n arbitrary: c)
  case 0
  then show ?case by (subst find_attempt.simps) simp
next
  case (Suc n)
  show ?case
  proof (cases "taken c")
    case True
    have "\<not> taken ((c + 1) + of_nat n)" using Suc.prems by (simp add: add.assoc)
    from Suc.IH [OF this] True show ?thesis by (subst find_attempt.simps) simp
  qed (subst find_attempt.simps, simp)
qed

lemma find_attempt_total:
  assumes "\<not> taken c"
  shows "\<exists>c'. find_attempt taken 0 = Some c' \<and> \<not> taken c'"
  by (rule find_attempt_from [where n = "unat c"]) (simp add: assms)

text \<open>The identifiers of the attempts at a position are distinct, as those of a collision resistant hash are.\<close>

definition attempts_distinct :: "auction_env \<Rightarrow> bool" where
  "attempts_distinct env \<longleftrightarrow>
     (\<forall>pair x i pq nonce. inj (\<lambda>c. position_id_of (ae_position_hash env) (auction_lp env pair x i pq nonce c)))"

lemma fresh_attempt:
  assumes "attempts_distinct env" "finite (dom m)" "card (dom m) < 2 ^ 64"
  shows "\<exists>c. m (position_id_of (ae_position_hash env) (auction_lp env pair x i pq nonce c)) = None"
proof (rule ccontr)
  let ?f = "\<lambda>c. position_id_of (ae_position_hash env) (auction_lp env pair x i pq nonce c)"
  assume "\<nexists>c. m (?f c) = None"
  then have "range ?f \<subseteq> dom m" by auto
  then have "card (range ?f) \<le> card (dom m)" using assms(2) by (rule card_mono [rotated])
  moreover have "inj ?f" using assms(1) unfolding attempts_distinct_def by blast
  then have "card (range ?f) = card (UNIV :: u64 set)" by (rule card_image)
  ultimately show False using assms(3) by (simp add: card_word)
qed

lemma lp_facts:
  assumes "dp_start pair \<noteq> dp_end pair" "0 < unat (fst pq)" "unat (fst pq) < 2 ^ 80" "0 < unat (snd pq)" "unat (snd pq) < 2 ^ 80"
  shows "position_ok (auction_lp env pair x i pq nonce c)" "p_state (auction_lp env pair x i pq nonce c) = Opened"
    "tf_pair (p_phi (auction_lp env pair x i pq nonce c)) = trading_pair_new (dp_start pair) (dp_end pair)"
    "holdings k (auction_lp env pair x i pq nonce c) = (if k = dp_start pair then unat x else 0)"
  using assms by (cases pair; auto simp: auction_lp_def position_new_with_nonce_def to_canonical_def trading_pair_new_def
      trading_function_new_def amount_zero_def Let_def position_ok_def distinct_assets_def tradable_def holdings_def)+

lemma allocate_total:
  assumes inv: "dex_inv (ae_position_hash env) (au_dex s)" and fresh: "attempts_distinct env" "card (dom (positions (au_dex s))) < 2 ^ 64"
    and pair: "dp_start pair \<noteq> dp_end pair" and pq: "0 < unat (fst pq)" "unat (fst pq) < 2 ^ 80" "0 < unat (snd pq)" "unat (snd pq) < 2 ^ 80"
    and fund: "unat x \<le> au_balance s (dp_start pair)" and room: "vcb_balance (au_dex s) (dp_start pair) + unat x < 2 ^ 128"
    and count: "unat (get_position_count (trading_pair_new (dp_start pair) (dp_end pair)) (au_dex s)) + 1 < 2 ^ 32"
  shows "\<exists>pos t. allocate_position env pair x i pq nonce s = Inr (pos, t) \<and> dex_inv (ae_position_hash env) (au_dex t)
    \<and> dex_params (au_dex t) = dex_params (au_dex s)
    \<and> (\<forall>k. au_balance t k + vcb_balance (au_dex t) k = au_balance s k + vcb_balance (au_dex s) k)
    \<and> (case pos of None \<Rightarrow> t = s
       | Some j \<Rightarrow> (\<exists>p. p_state p = Opened \<and> tf_pair (p_phi p) = trading_pair_new (dp_start pair) (dp_end pair)
            \<and> positions (au_dex s) j = None \<and> positions (au_dex t) = (positions (au_dex s))(j := Some p)))"
proof -
  let ?hash = "ae_position_hash env"
  note I = dex_invD [OF inv]
  obtain ps where ps: "dex_params (au_dex s) = Some ps" using I(3) by auto
  show ?thesis
  proof (cases "is_enabled ps")
    case False
    then show ?thesis using ps inv by (intro exI [of _ None] exI [of _ s]) (simp add: allocate_position_def get_dex_params_def)
  next
    case True
    let ?lp = "auction_lp env pair x i pq nonce"
    obtain c where c: "find_attempt (\<lambda>c. position_by_id (position_id_of ?hash (?lp c)) (au_dex s) \<noteq> None) 0 = Some c"
      "position_by_id (position_id_of ?hash (?lp c)) (au_dex s) = None"
    proof -
      obtain c where "positions (au_dex s) (position_id_of ?hash (?lp c)) = None"
        using fresh_attempt [OF fresh(1) indexes_okD(1) [OF I(1)] fresh(2)] by blast
      then show ?thesis
        using find_attempt_total [of "\<lambda>c. position_by_id (position_id_of ?hash (?lp c)) (au_dex s) \<noteq> None" c] that
        by (auto simp: position_by_id_def)
    qed
    note lp = lp_facts [OF pair pq, where env = env and x = x and i = i and nonce = nonce and c = c]
    have res: "(if k = v_asset (reserves_1 (?lp c)) then unat (v_amount (reserves_1 (?lp c))) else 0)
       + (if k = v_asset (reserves_2 (?lp c)) then unat (v_amount (reserves_2 (?lp c))) else 0) = (if k = dp_start pair then unat x else 0)" for k
      by (rule lp_reserves [OF pair])
    have le1: "unat (v_amount (reserves_1 (?lp c))) \<le> au_balance s (v_asset (reserves_1 (?lp c)))"
      using res [of "v_asset (reserves_1 (?lp c))"] fund by (auto split: if_splits)
    obtain u where u: "auction_vcb_debit (reserves_1 (?lp c)) s = Inr u" using au_debit_total [OF le1] ..
    have le2: "unat (v_amount (reserves_2 (?lp c))) \<le> au_balance u (v_asset (reserves_2 (?lp c)))"
      using res [of "v_asset (reserves_2 (?lp c))"] fund au_debit_effect(1) [OF u, of "v_asset (reserves_2 (?lp c))"]
      by (auto split: if_splits)
    obtain v where v: "auction_vcb_debit (reserves_2 (?lp c)) u = Inr v" using au_debit_total [OF le2] ..
    have dv: "au_dex v = au_dex s" using au_debit_effect(2) [OF u] au_debit_effect(2) [OF v] by auto
    have "\<exists>d. open_position ?hash (ae_um env) (?lp c) (au_dex s) = Inr d"
    proof (rule open_position_total [OF inv lp(2,1)])
      show "positions (au_dex s) (position_id_of ?hash (?lp c)) = None" using c(2) by (simp add: position_by_id_def)
      show "vcb_balance (au_dex s) k + holdings k (?lp c) < 2 ^ 128" for k
        using room vcb_less [of "au_dex s" k] by (simp add: lp(4))
      show "unat (get_position_count (tf_pair (p_phi (?lp c))) (au_dex s)) + 1 < 2 ^ 32" using count by (simp add: lp(3))
    qed
    then obtain d where d: "open_position ?hash (ae_um env) (?lp c) (au_dex s) = Inr d" ..
    note E = open_position_effect [OF d]
    let ?j = "position_id_of ?hash (?lp c)"
    have run: "allocate_position env pair x i pq nonce s = Inr (Some ?j, v\<lparr>au_dex := d\<rparr>)"
      using ps True c(1) u v d dv by (simp add: allocate_position_def get_dex_params_def Let_def)
    have ok: "indexes_ok d" "solvent d" using E(6) I(1,2) lp(1) by auto
    have inv': "dex_inv ?hash d"
      using ok params_open [OF d] I(3,4) by (auto simp: dex_inv_def E(3) split: if_splits)
    have "au_balance (v\<lparr>au_dex := d\<rparr>) k + vcb_balance d k = au_balance s k + vcb_balance (au_dex s) k" for k
      using au_debit_effect(1) [OF u, of k] au_debit_effect(1) [OF v, of k] res [of k] E(4) [of k] lp(4) [of k]
        fun_cong [OF au_balance_same [of "v\<lparr>au_dex := d\<rparr>" v], of k] by (simp split: if_splits)
    with run inv' params_open [OF d] E(2,3) lp(2,3) show ?thesis
      by (intro exI [of _ "Some ?j"] exI [of _ "v\<lparr>au_dex := d\<rparr>"]) auto
  qed
qed

section \<open>The invariant\<close>

definition lp_pair :: "dutch_auction \<Rightarrow> trading_pair" where
  "lp_pair a = trading_pair_new (v_asset (da_input (da_description a))) (da_output_id (da_description a))"

definition lp_of :: "auction_state \<Rightarrow> auction_id \<Rightarrow> position_id option" where
  "lp_of s i = (case auctions s i of None \<Rightarrow> None | Some a \<Rightarrow> ds_current_position (da_state a))"

text \<open>Each tracked position is stored, not yet withdrawn, of the pair of its auction, and tracked by no other.\<close>

definition lps_ok :: "auction_state \<Rightarrow> bool" where
  "lps_ok s \<longleftrightarrow> (\<forall>i a j. auctions s i = Some a \<longrightarrow> ds_current_position (da_state a) = Some j \<longrightarrow>
     (\<exists>p. alive_at (au_dex s) j p \<and> tf_pair (p_phi p) = lp_pair a) \<and> (\<forall>i'. lp_of s i' = Some j \<longrightarrow> i' = i))"

text \<open>Each trigger is for a stored auction, and the next trigger of an auction is stored.\<close>

definition triggers_ok :: "auction_env \<Rightarrow> auction_state \<Rightarrow> bool" where
  "triggers_ok env s \<longleftrightarrow> bt_wf (dutch_triggers s)
     \<and> (\<forall>h x i. bt_get (dutch_triggers s) (h, x) = Some i \<longrightarrow> x = ae_show_id env i \<and> auctions s i \<noteq> None)
     \<and> (\<forall>i a n. auctions s i = Some a \<longrightarrow> ds_next_trigger (da_state a) = Some n \<longrightarrow> bt_get (dutch_triggers s) (n, ae_show_id env i) = Some i)"

definition auction_inv :: "auction_env \<Rightarrow> auction_state \<Rightarrow> bool" where
  "auction_inv env s \<longleftrightarrow> auction_books env s \<and> dex_inv (ae_position_hash env) (au_dex s) \<and> lps_ok s \<and> triggers_ok env s"

definition env_ok :: "auction_env \<Rightarrow> bool" where
  "env_ok env \<longleftrightarrow> attempts_distinct env \<and> inj (ae_show_id env)"

lemma lp_of_simps: "auctions s i = Some a \<Longrightarrow> lp_of s i = ds_current_position (da_state a)" "auctions s i = None \<Longrightarrow> lp_of s i = None"
  by (simp_all add: lp_of_def)

lemma lps_okD:
  assumes "lps_ok s" "auctions s i = Some a" "ds_current_position (da_state a) = Some j"
  obtains p where "alive_at (au_dex s) j p" "tf_pair (p_phi p) = lp_pair a" "\<And>i'. lp_of s i' = Some j \<Longrightarrow> i' = i"
  using assms unfolding lps_ok_def by blast

lemma lps_update:
  assumes lps: "lps_ok s" and t: "auctions t = (auctions s)(i := Some b)"
    and keep: "\<And>j p. positions (au_dex s) j = Some p \<Longrightarrow> lp_of s i \<noteq> Some j \<Longrightarrow> positions (au_dex t) j = Some p"
    and new: "\<And>j. ds_current_position (da_state b) = Some j \<Longrightarrow>
      positions (au_dex s) j = None \<and> (\<exists>p. alive_at (au_dex t) j p \<and> tf_pair (p_phi p) = lp_pair b)"
  shows "lps_ok t"
proof -
  have other: "lp_of t i' = (if i' = i then ds_current_position (da_state b) else lp_of s i')" for i'
    by (simp add: lp_of_def t)
  have taken: "positions (au_dex s) j \<noteq> None" if l: "lp_of s i' = Some j" for i' j
  proof -
    obtain a where "auctions s i' = Some a" "ds_current_position (da_state a) = Some j"
      using l by (auto simp: lp_of_def split: option.splits)
    then show ?thesis by (rule lps_okD [OF lps]) (simp add: alive_at_def)
  qed
  show ?thesis
    unfolding lps_ok_def
  proof (intro allI impI)
    fix i' a j
    assume a: "auctions t i' = Some a" "ds_current_position (da_state a) = Some j"
    show "(\<exists>p. alive_at (au_dex t) j p \<and> tf_pair (p_phi p) = lp_pair a) \<and> (\<forall>i''. lp_of t i'' = Some j \<longrightarrow> i'' = i')"
    proof (cases "i' = i")
      case True
      then have b: "a = b" using a(1) t by simp
      note n = new [OF a(2) [unfolded b]]
      have "i'' = i'" if l: "lp_of t i'' = Some j" for i''
      proof (rule ccontr)
        assume "i'' \<noteq> i'"
        then have "lp_of s i'' = Some j" using l True by (simp add: other)
        then show False using taken n by blast
      qed
      then show ?thesis using n b by blast
    next
      case False
      then have s: "auctions s i' = Some a" using a(1) t by simp
      obtain p where p: "alive_at (au_dex s) j p" "tf_pair (p_phi p) = lp_pair a" "\<And>i''. lp_of s i'' = Some j \<Longrightarrow> i'' = i'"
        by (rule lps_okD [OF lps s a(2)]) blast
      have "lp_of s i \<noteq> Some j" using p(3) [of i] False by auto
      then have alive: "alive_at (au_dex t) j p" using keep [of j p] p(1) by (simp add: alive_at_def)
      have "i'' = i'" if l: "lp_of t i'' = Some j" for i''
      proof (cases "i'' = i")
        case True
        then have "ds_current_position (da_state b) = Some j" using l by (simp add: other)
        with new [of j] p(1) show ?thesis by (simp add: alive_at_def)
      qed (use l p(3) in \<open>simp add: other\<close>)
      then show ?thesis using alive p(2) by blast
    qed
  qed
qed

lemma triggers_update:
  assumes ok: "triggers_ok env s" and inj: "inj (ae_show_id env)"
    and t: "auctions t = (auctions s)(i := Some b)"
    and new: "ds_next_trigger (da_state b) = (if m then Some n else None)"
      "dutch_triggers t = (if m then bt_insert (n, ae_show_id env i) i u else u)"
    and u: "u = dutch_triggers s \<or> (\<exists>h. u = bt_remove (h, ae_show_id env i) (dutch_triggers s))"
  shows "triggers_ok env t"
proof -
  have wf: "bt_wf (dutch_triggers s)" "bt_wf u" using ok u by (auto simp: triggers_ok_def)
  have sub: "bt_get u k = Some x \<Longrightarrow> bt_get (dutch_triggers s) k = Some x" for k x
    using u wf(1) by (auto split: if_splits)
  have kept: "bt_get (dutch_triggers s) (h, ae_show_id env j) = Some j \<Longrightarrow> j \<noteq> i \<Longrightarrow> bt_get u (h, ae_show_id env j) = Some j" for h j
    using u wf(1) injD [OF inj, of i j] by auto
  have get: "bt_get (dutch_triggers t) k = (if m \<and> k = (n, ae_show_id env i) then Some i else bt_get u k)" for k
    using wf(2) by (simp add: new(2))
  show ?thesis
    unfolding triggers_ok_def
  proof (intro conjI allI impI)
    show "bt_wf (dutch_triggers t)" using wf(2) by (simp add: new(2))
  next
    fix h x j
    assume "bt_get (dutch_triggers t) (h, x) = Some j"
    then have "x = ae_show_id env j \<and> (j = i \<or> auctions s j \<noteq> None)"
      using ok sub [of "(h, x)" j] by (auto simp: get triggers_ok_def split: if_splits)
    then show "x = ae_show_id env j" "auctions t j \<noteq> None" by (auto simp: t)
  next
    fix j a h
    assume a: "auctions t j = Some a" "ds_next_trigger (da_state a) = Some h"
    show "bt_get (dutch_triggers t) (h, ae_show_id env j) = Some j"
    proof (cases "j = i")
      case True
      then show ?thesis using a new(1) t by (auto simp: get split: if_splits)
    next
      case False
      then have "bt_get (dutch_triggers s) (h, ae_show_id env j) = Some j" using a ok t by (auto simp: triggers_ok_def)
      from kept [OF this False] show ?thesis using injD [OF inj, of i j] False by (auto simp: get)
    qed
  qed
qed

section \<open>One trigger\<close>

definition held :: "auction_state \<Rightarrow> asset_id \<Rightarrow> nat" where
  "held s k = au_balance s k + vcb_balance (au_dex s) k"

definition opened_of :: "auction_state \<Rightarrow> trading_pair \<Rightarrow> nat" where
  "opened_of s pair = tally (opened_count pair) (positions (au_dex s))"

text \<open>What executing a trigger at a height does to an auction: it is closed, or waits for the next step.\<close>

definition trigger_done :: "u64 \<Rightarrow> dutch_auction \<Rightarrow> dutch_auction \<Rightarrow> bool" where
  "trigger_done h a b \<longleftrightarrow> da_description b = da_description a \<and> (let d = da_description a in
     ds_sequence (da_state b) = 1 \<and> ds_next_trigger (da_state b) = None \<and> ds_current_position (da_state b) = None
   \<or> step_at d h < unat (da_step_count d) \<and> ds_sequence (da_state b) = ds_sequence (da_state a) \<and> ds_input_reserves (da_state b) = 0
     \<and> (\<exists>n. ds_next_trigger (da_state b) = Some n \<and> unat h < unat n \<and> unat n \<le> unat (da_end_height d) \<and> step_at d n = step_at d h + 1))"

lemma recover_any:
  assumes inv: "auction_inv env s" and a: "auctions s i = Some a"
  shows "\<exists>b d. recover_position env (ds_current_position (da_state a)) s = Inr (b, s\<lparr>au_dex := d\<rparr>) \<and> dex_inv (ae_position_hash env) d
    \<and> dex_params d = dex_params (au_dex s)
    \<and> (\<forall>j p. positions (au_dex s) j = Some p \<longrightarrow> lp_of s i \<noteq> Some j \<longrightarrow> positions d j = Some p)
    \<and> dom (positions d) = dom (positions (au_dex s))
    \<and> (\<forall>pair. tally (opened_count pair) (positions d) \<le> opened_of s pair)
    \<and> (\<forall>k. k \<noteq> v_asset (da_input (da_description a)) \<longrightarrow> k \<noteq> da_output_id (da_description a) \<longrightarrow> unat (provided_amount k b) = 0)
    \<and> (\<forall>k. vcb_balance d k + unat (provided_amount k b) = vcb_balance (au_dex s) k)"
proof (cases "ds_current_position (da_state a)")
  case None
  have "provided_amount k balance_zero = 0" for k
    by (simp add: provided_amount_def balance_provided_def balance_iter_def balance_zero_def List.map_filter_def)
  with None inv show ?thesis
    by (intro exI [of _ balance_zero] exI [of _ "au_dex s"]) (simp add: recover_position_def auction_inv_def opened_of_def)
next
  case (Some j)
  have lps: "lps_ok s" and dex: "dex_inv (ae_position_hash env) (au_dex s)" using inv by (simp_all add: auction_inv_def)
  obtain p where p: "alive_at (au_dex s) j p" "tf_pair (p_phi p) = lp_pair a" using lps_okD [OF lps a Some] by blast
  obtain b d where b: "recover_position env (Some j) s = Inr (b, s\<lparr>au_dex := d\<rparr>)" "dex_inv (ae_position_hash env) d"
    "positions d = (positions (au_dex s))(j := Some (p\<lparr>p_state := Withdrawn 0, p_reserves := reserves_zero\<rparr>))"
    "\<And>k. unat (provided_amount k b) = holdings k p" "\<And>k. vcb_balance d k + holdings k p = vcb_balance (au_dex s) k"
    "dex_params d = dex_params (au_dex s)" using recover_total [OF dex p(1)] by blast
  have fin: "finite (dom (positions (au_dex s)))" by (rule indexes_okD(1) [OF dex_invD(1) [OF dex]])
  have pj: "positions (au_dex s) j = Some p" using p(1) by (simp add: alive_at_def)
  have lp: "lp_of s i = Some j" using a Some by (simp add: lp_of_def)
  have "tally (opened_count pair) (positions d) \<le> opened_of s pair" for pair
    using tally_update [OF fin, of "opened_count pair" j "p\<lparr>p_state := Withdrawn 0, p_reserves := reserves_zero\<rparr>"]
    by (simp add: b(3) opened_of_def pj) (simp add: opened_count_def)
  moreover have "holdings k p = 0" if "k \<noteq> v_asset (da_input (da_description a))" "k \<noteq> da_output_id (da_description a)" for k
    using that p(2) by (auto simp: holdings_def lp_pair_def trading_pair_new_def split: if_splits)
  moreover have "dom (positions d) = dom (positions (au_dex s))" using pj by (auto simp: b(3))
  ultimately show ?thesis
    using b lp Some by (intro exI [of _ b] exI [of _ d]) simp
qed

text \<open>The state once the position is recovered, the trigger removed and the inflows credited.\<close>

definition new_state :: "dutch_auction \<Rightarrow> balance \<Rightarrow> dutch_state" where
  "new_state a b = (da_state a)\<lparr>ds_current_position := None, ds_next_trigger := None,
     ds_input_reserves := ds_input_reserves (da_state a) + provided_amount (v_asset (da_input (da_description a))) b,
     ds_output_reserves := ds_output_reserves (da_state a) + provided_amount (da_output_id (da_description a)) b\<rparr>"

lemma absorb_total:
  assumes inv: "auction_inv env s" and a: "auctions s i = Some a" and room: "\<And>k. held s k < 2 ^ 128"
  obtains b d v w y where "recover_position env (ds_current_position (da_state a)) s = Inr (b, s\<lparr>au_dex := d\<rparr>)"
    "auction_vcb_credit (lp_inflow (v_asset (da_input (da_description a))) b) (unset_trigger_for_dutch_id env i h (s\<lparr>au_dex := d\<rparr>)) = Inr v"
    "auction_vcb_credit (lp_inflow (da_output_id (da_description a)) b) v = Inr w"
    "w = unset_trigger_for_dutch_id env i h (s\<lparr>au_dex := d\<rparr>)\<lparr>au_vcb := y\<rparr>"
    "dex_inv (ae_position_hash env) d" "dex_params d = dex_params (au_dex s)"
    "\<And>j p. positions (au_dex s) j = Some p \<Longrightarrow> lp_of s i \<noteq> Some j \<Longrightarrow> positions d j = Some p"
    "dom (positions d) = dom (positions (au_dex s))" "\<And>pair. tally (opened_count pair) (positions d) \<le> opened_of s pair"
    "\<And>k. held w k = held s k" "unat (ds_input_reserves (new_state a b)) \<le> au_balance w (v_asset (da_input (da_description a)))"
proof -
  let ?d = "da_description a" and ?st = "da_state a"
  let ?in = "v_asset (da_input ?d)" and ?out = "da_output_id ?d"
  have books: "auction_books env s" using inv by (simp add: auction_inv_def)
  have ne: "?in \<noteq> ?out" using auction_booksD(3) [OF books a] by (simp add: description_ok_def)
  obtain b d where R: "recover_position env (ds_current_position ?st) s = Inr (b, s\<lparr>au_dex := d\<rparr>)"
    "dex_inv (ae_position_hash env) d" "dex_params d = dex_params (au_dex s)"
    "\<And>j p. positions (au_dex s) j = Some p \<Longrightarrow> lp_of s i \<noteq> Some j \<Longrightarrow> positions d j = Some p"
    "dom (positions d) = dom (positions (au_dex s))" "\<And>pair. tally (opened_count pair) (positions d) \<le> opened_of s pair"
    and only: "\<And>k. k \<noteq> ?in \<Longrightarrow> k \<noteq> ?out \<Longrightarrow> unat (provided_amount k b) = 0"
    and moved: "\<And>k. vcb_balance d k + unat (provided_amount k b) = vcb_balance (au_dex s) k"
    using recover_any [OF inv a] by blast
  let ?u = "unset_trigger_for_dutch_id env i h (s\<lparr>au_dex := d\<rparr>)"
  have ub: "au_balance ?u k = au_balance s k" for k by (rule fun_cong [OF au_balance_same]) simp
  have total: "au_balance s k + unat (provided_amount k b) + vcb_balance d k = held s k" for k
    using moved [of k] by (simp add: held_def)
  have "au_balance ?u ?in + unat (provided_amount ?in b) < 2 ^ 128" using total [of ?in] room [of ?in] ub [of ?in] by simp
  then obtain v where v: "auction_vcb_credit (lp_inflow ?in b) ?u = Inr v"
    using au_credit_total [of ?u "lp_inflow ?in b"] by (auto simp: lp_inflow_def)
  have vb: "au_balance v k = au_balance s k + (if k = ?in then unat (provided_amount k b) else 0)" for k
    using au_credit_effect(1) [OF v, of k] ub [of k] by (simp add: lp_inflow_def)
  have "au_balance v ?out + unat (provided_amount ?out b) < 2 ^ 128" using total [of ?out] room [of ?out] vb [of ?out] ne by simp
  then obtain w where w: "auction_vcb_credit (lp_inflow ?out b) v = Inr w"
    using au_credit_total [of v "lp_inflow ?out b"] by (auto simp: lp_inflow_def)
  have vcb: "au_vcb ?u = au_vcb s" by simp
  note A = absorb_effect [OF books a vcb v w]
  obtain y where y: "w = ?u\<lparr>au_vcb := y\<rparr>" using A(1) ..
  have wb: "au_balance w k = au_balance s k + unat (provided_amount k b)" for k
    using au_credit_effect(1) [OF w, of k] vb [of k] only [of k] ne by (simp add: lp_inflow_def)
  have hw: "held w k = held s k" for k using wb [of k] moved [of k] by (simp add: held_def y)
  have "unat (ds_input_reserves (new_state a b)) = unat (ds_input_reserves ?st) + unat (provided_amount ?in b)"
    using A(3) by (simp add: new_state_def lp_inflow_def)
  moreover have "unat (ds_input_reserves ?st) \<le> au_balance s ?in" using reserved_le_balance [OF books a, of ?in] by (simp add: reserved_def)
  ultimately have "unat (ds_input_reserves (new_state a b)) \<le> au_balance w ?in" using wb [of ?in] by linarith
  from that [OF R(1) v w y R(2-6) hw this] show ?thesis .
qed

text \<open>What one run of a trigger of a height changes.\<close>

definition trigger_ran :: "auction_env \<Rightarrow> u64 \<Rightarrow> auction_id \<Rightarrow> auction_state \<Rightarrow> auction_state \<Rightarrow> bool" where
  "trigger_ran env h i s t \<longleftrightarrow> auction_inv env t
     \<and> (\<exists>a b. auctions s i = Some a \<and> auctions t = (auctions s)(i := Some b) \<and> trigger_done h a b)
     \<and> (\<forall>x. bt_get (dutch_triggers t) (h, x) = (if x = ae_show_id env i then None else bt_get (dutch_triggers s) (h, x)))
     \<and> held t = held s \<and> (\<forall>pair. opened_of t pair \<le> opened_of s pair + 1)
     \<and> card (dom (positions (au_dex t))) \<le> card (dom (positions (au_dex s))) + 1"

lemma write_keeps_inv:
  assumes inv: "auction_inv env s" and inj: "inj (ae_show_id env)"
    and books: "auction_books env t" and dex: "dex_inv (ae_position_hash env) (au_dex t)"
    and t: "auctions t = (auctions s)(i := Some b)"
    and keep: "\<And>j p. positions (au_dex s) j = Some p \<Longrightarrow> lp_of s i \<noteq> Some j \<Longrightarrow> positions (au_dex t) j = Some p"
    and new: "\<And>j. ds_current_position (da_state b) = Some j \<Longrightarrow>
      positions (au_dex s) j = None \<and> (\<exists>p. alive_at (au_dex t) j p \<and> tf_pair (p_phi p) = lp_pair b)"
    and trig: "ds_next_trigger (da_state b) = (if m then Some n else None)"
      "dutch_triggers t = (if m then bt_insert (n, ae_show_id env i) i u else u)"
      "u = dutch_triggers s \<or> (\<exists>h. u = bt_remove (h, ae_show_id env i) (dutch_triggers s))"
  shows "auction_inv env t"
proof -
  have "lps_ok s" "triggers_ok env s" using inv by (simp_all add: auction_inv_def)
  with lps_update [OF _ t keep new] triggers_update [OF _ inj t trig] books dex show ?thesis
    by (simp add: auction_inv_def)
qed

lemma close_total:
  assumes inv: "auction_inv env s" and inj: "inj (ae_show_id env)" and a: "auctions s i = Some a"
    and e: "execute_dutch_auction env i h s = (Inr (), t)"
    and t: "t = write_dutch_auction_state env \<lparr>da_description = da_description a, da_state = (new_state a b)\<lparr>ds_sequence := 1\<rparr>\<rparr> w"
    and w: "w = unset_trigger_for_dutch_id env i h (s\<lparr>au_dex := d\<rparr>)\<lparr>au_vcb := y\<rparr>"
    and d: "dex_inv (ae_position_hash env) d" "\<And>j p. positions (au_dex s) j = Some p \<Longrightarrow> lp_of s i \<noteq> Some j \<Longrightarrow> positions d j = Some p"
      "dom (positions d) = dom (positions (au_dex s))" "\<And>pair. tally (opened_count pair) (positions d) \<le> opened_of s pair"
      "\<And>k. held w k = held s k"
  shows "trigger_ran env h i s t"
proof -
  have books: "auction_books env s" and wf: "bt_wf (dutch_triggers s)" using inv by (simp_all add: auction_inv_def triggers_ok_def)
  let ?b = "\<lparr>da_description = da_description a, da_state = (new_state a b)\<lparr>ds_sequence := 1\<rparr>\<rparr>"
  have ta: "auctions t = (auctions s)(i := Some ?b)" using auction_booksD(2) [OF books a] by (simp add: t w)
  have td: "au_dex t = d" by (simp add: t w)
  have tt: "dutch_triggers t = bt_remove (h, ae_show_id env i) (dutch_triggers s)" by (simp add: t w unset_trigger_for_dutch_id_def)
  have "auction_inv env t"
    by (rule write_keeps_inv [OF inv inj _ _ ta, where m = False and u = "bt_remove (h, ae_show_id env i) (dutch_triggers s)"])
      (use execute_books [OF books e] d(1,2) in \<open>auto simp: td tt new_state_def\<close>)
  moreover have "trigger_done h a ?b" by (simp add: trigger_done_def new_state_def)
  moreover have "held t k = held s k" for k
  proof -
    have "au_balance t k = au_balance w k" by (rule fun_cong [OF au_balance_same]) (simp add: t)
    then show ?thesis using d(5) [of k] by (simp add: held_def td) (simp add: w)
  qed
  then have "held t = held s" by (rule ext)
  moreover have "opened_of t pair \<le> opened_of s pair + 1" for pair using d(4) [of pair] by (simp add: opened_of_def td)
  ultimately show ?thesis using a ta wf unfolding trigger_ran_def by (auto simp: td d(3) tt)
qed

lemma advance_total:
  assumes inv: "auction_inv env s" and env: "env_ok env" and a: "auctions s i = Some a"
    and room: "\<And>k. held s k < 2 ^ 128" "opened_of s (lp_pair a) + 1 < 2 ^ 32" "card (dom (positions (au_dex s))) < 2 ^ 64"
    and step: "unat step = step_at (da_description a) h" "unat step < unat (da_step_count (da_description a))"
    and n: "compute_next_trigger_height (trigger_data_of (da_description a)) h = Inr n"
    and w: "w = unset_trigger_for_dutch_id env i h (s\<lparr>au_dex := d\<rparr>)\<lparr>au_vcb := y\<rparr>"
    and d: "dex_inv (ae_position_hash env) d" "\<And>j p. positions (au_dex s) j = Some p \<Longrightarrow> lp_of s i \<noteq> Some j \<Longrightarrow> positions d j = Some p"
      "dom (positions d) = dom (positions (au_dex s))" "\<And>pair. tally (opened_count pair) (positions d) \<le> opened_of s pair"
      "\<And>k. held w k = held s k" "unat (ds_input_reserves (new_state a b)) \<le> au_balance w (v_asset (da_input (da_description a)))"
  obtains pos q where "allocate_position env (DirectedPair (v_asset (da_input (da_description a))) (da_output_id (da_description a)))
      (ds_input_reserves (new_state a b)) step (compute_pq_at_step (da_description a) step) (da_nonce (da_description a)) w = Inr (pos, q)"
    "\<forall>t. t = write_dutch_auction_state env \<lparr>da_description = da_description a, da_state = (new_state a b)\<lparr>ds_input_reserves := amount_zero,
        ds_current_position := pos, ds_next_trigger := non_zero n\<rparr>\<rparr> (set_trigger_for_dutch_id env i n q)
      \<longrightarrow> execute_dutch_auction env i h s = (Inr (), t) \<longrightarrow> trigger_ran env h i s t"
proof -
  let ?d = "da_description a"
  let ?in = "v_asset (da_input ?d)" and ?out = "da_output_id ?d"
  let ?pair = "DirectedPair ?in ?out"
  have books: "auction_books env s" and wf: "bt_wf (dutch_triggers s)" using inv by (simp_all add: auction_inv_def triggers_ok_def)
  have inj: "inj (ae_show_id env)" and fresh: "attempts_distinct env" using env by (simp_all add: env_ok_def)
  have ok: "description_ok ?d" by (rule auction_booksD(3) [OF books a])
  have ne: "dp_start ?pair \<noteq> dp_end ?pair" using ok by (simp add: description_ok_def)
  have wd: "au_dex w = d" by (simp add: w)
  note pq = price_bounds [OF ok step(2)]
  have tp: "trading_pair_new (dp_start ?pair) (dp_end ?pair) = lp_pair a" by (simp add: lp_pair_def)
  have "\<exists>pos q. allocate_position env ?pair (ds_input_reserves (new_state a b)) step (compute_pq_at_step ?d step) (da_nonce ?d) w = Inr (pos, q)
    \<and> dex_inv (ae_position_hash env) (au_dex q) \<and> dex_params (au_dex q) = dex_params (au_dex w)
    \<and> (\<forall>k. au_balance q k + vcb_balance (au_dex q) k = au_balance w k + vcb_balance (au_dex w) k)
    \<and> (case pos of None \<Rightarrow> q = w
       | Some j \<Rightarrow> (\<exists>p. p_state p = Opened \<and> tf_pair (p_phi p) = trading_pair_new (dp_start ?pair) (dp_end ?pair)
            \<and> positions (au_dex w) j = None \<and> positions (au_dex q) = (positions (au_dex w))(j := Some p)))"
  proof (rule allocate_total [OF _ fresh _ ne pq(3-6)])
    show "dex_inv (ae_position_hash env) (au_dex w)" using d(1) by (simp add: wd)
    show "card (dom (positions (au_dex w))) < 2 ^ 64" using room(3) d(3) by (simp add: wd)
    show "unat (ds_input_reserves (new_state a b)) \<le> au_balance w (dp_start ?pair)" using d(6) by simp
    show "vcb_balance (au_dex w) (dp_start ?pair) + unat (ds_input_reserves (new_state a b)) < 2 ^ 128"
      using d(6) d(5) [of ?in] room(1) [of ?in] by (simp add: held_def)
    show "unat (get_position_count (trading_pair_new (dp_start ?pair) (dp_end ?pair)) (au_dex w)) + 1 < 2 ^ 32"
      using indexes_okD(5) [OF dex_invD(1) [OF d(1)], of "lp_pair a"] d(4) [of "lp_pair a"] room(2) unfolding tp wd by simp
  qed
  then obtain pos q where q: "allocate_position env ?pair (ds_input_reserves (new_state a b)) step (compute_pq_at_step ?d step) (da_nonce ?d) w = Inr (pos, q)"
    "dex_inv (ae_position_hash env) (au_dex q)" "\<And>k. held q k = held w k"
    and case_pos: "case pos of None \<Rightarrow> q = w
       | Some j \<Rightarrow> (\<exists>p. p_state p = Opened \<and> tf_pair (p_phi p) = lp_pair a
            \<and> positions d j = None \<and> positions (au_dex q) = (positions d)(j := Some p))"
    unfolding held_def tp wd by blast
  show ?thesis
  proof (rule that [OF q(1)], intro allI impI)
    fix t
    let ?b = "\<lparr>da_description = ?d, da_state = (new_state a b)\<lparr>ds_input_reserves := amount_zero, ds_current_position := pos, ds_next_trigger := non_zero n\<rparr>\<rparr>"
    assume t: "t = write_dutch_auction_state env ?b (set_trigger_for_dutch_id env i n q)" and e: "execute_dutch_auction env i h s = (Inr (), t)"
    obtain d' y' where q': "q = w\<lparr>au_dex := d', au_vcb := y'\<rparr>" using allocate_effect(1) [OF q(1) ne] by blast
    have ta: "auctions t = (auctions s)(i := Some ?b)" using auction_booksD(2) [OF books a] by (simp add: t q' w)
    have td: "au_dex t = au_dex q" by (simp add: t)
    have tt: "dutch_triggers t = bt_insert (n, ae_show_id env i) i (bt_remove (h, ae_show_id env i) (dutch_triggers s))"
      by (simp add: t q' w unset_trigger_for_dutch_id_def set_trigger_for_dutch_id_def)
    have lt: "step_at ?d h < unat (da_step_count ?d)" using step by simp
    note later = next_trigger_later [OF ok lt n]
    have nz: "non_zero n = Some n" using later(1) by (auto simp: non_zero_def)
    have fin: "finite (dom (positions d))" by (rule indexes_okD(1) [OF dex_invD(1) [OF d(1)]])
    have dj: "positions d j = None \<Longrightarrow> positions (au_dex s) j = None" for j by (metis d(3) domIff)
    have "auction_inv env t"
    proof (rule write_keeps_inv [OF inv inj _ _ ta, where m = True and n = n and u = "bt_remove (h, ae_show_id env i) (dutch_triggers s)"])
      show "positions (au_dex t) j = Some p" if "positions (au_dex s) j = Some p" "lp_of s i \<noteq> Some j" for j p
        using case_pos d(2) [OF that] wd by (cases pos) (auto simp: td)
      show "positions (au_dex s) j = None \<and> (\<exists>p. alive_at (au_dex t) j p \<and> tf_pair (p_phi p) = lp_pair ?b)"
        if "ds_current_position (da_state ?b) = Some j" for j
        using case_pos that dj by (cases pos) (auto simp: td alive_at_def lp_pair_def)
    qed (use execute_books [OF books e] q(2) in \<open>auto simp: td tt nz\<close>)
    moreover have "trigger_done h a ?b" using lt later nz by (simp add: trigger_done_def new_state_def amount_zero_def)
    moreover have "held t = held s"
    proof
      fix k
      have "au_balance t k = au_balance q k" by (rule fun_cong [OF au_balance_same]) (simp add: t)
      then show "held t k = held s k" using q(3) [of k] d(5) [of k] by (simp add: held_def td)
    qed
    moreover have "opened_of t pair \<le> opened_of s pair + 1" for pair
    proof (cases pos)
      case None
      then show ?thesis using case_pos d(4) [of pair] by (simp add: opened_of_def td wd)
    next
      case (Some j)
      then obtain p where p: "positions d j = None" "positions (au_dex q) = (positions d)(j \<mapsto> p)" using case_pos by auto
      have "opened_count pair p \<le> 1" by (simp add: opened_count_def)
      then show ?thesis using tally_update [OF fin, of "opened_count pair" j p] d(4) [of pair] by (simp add: opened_of_def td p)
    qed
    moreover have "card (dom (positions (au_dex t))) \<le> card (dom (positions (au_dex s))) + 1"
      using case_pos d(3) fin wd by (cases pos) (auto simp: td card_insert_if)
    moreover have "bt_get (dutch_triggers t) (h, x) = (if x = ae_show_id env i then None else bt_get (dutch_triggers s) (h, x))" for x
      using wf later(1) by (auto simp: tt)
    ultimately show "trigger_ran env h i s t" using a ta unfolding trigger_ran_def by blast
  qed
qed

lemma execute_total:
  assumes inv: "auction_inv env s" and env: "env_ok env" and a: "auctions s i = Some a"
    and room: "\<And>k. held s k < 2 ^ 128" "\<And>pair. opened_of s pair + 1 < 2 ^ 32" "card (dom (positions (au_dex s))) < 2 ^ 64"
  obtains t where "execute_dutch_auction env i h s = (Inr (), t)" "trigger_ran env h i s t"
proof -
  let ?d = "da_description a"
  have inj: "inj (ae_show_id env)" using env by (simp add: env_ok_def)
  have ok: "description_ok ?d" using inv a by (auto simp: auction_inv_def dest: auction_booksD(3))
  obtain b d v w y where R: "recover_position env (ds_current_position (da_state a)) s = Inr (b, s\<lparr>au_dex := d\<rparr>)"
    "auction_vcb_credit (lp_inflow (v_asset (da_input ?d)) b) (unset_trigger_for_dutch_id env i h (s\<lparr>au_dex := d\<rparr>)) = Inr v"
    "auction_vcb_credit (lp_inflow (da_output_id ?d) b) v = Inr w"
    and w: "w = unset_trigger_for_dutch_id env i h (s\<lparr>au_dex := d\<rparr>)\<lparr>au_vcb := y\<rparr>"
    and d: "dex_inv (ae_position_hash env) d"
      "\<And>j p. positions (au_dex s) j = Some p \<Longrightarrow> lp_of s i \<noteq> Some j \<Longrightarrow> positions d j = Some p"
      "dom (positions d) = dom (positions (au_dex s))" "\<And>pair. tally (opened_count pair) (positions d) \<le> opened_of s pair"
      "\<And>k. held w k = held s k" "unat (ds_input_reserves (new_state a b)) \<le> au_balance w (v_asset (da_input ?d))"
    by (rule absorb_total [OF inv a room(1), where h = h]) blast
  obtain step where step: "compute_step_index (trigger_data_of ?d) h = Inr step" "unat step = step_at ?d h"
    using step_index_exact [OF ok, of h] by blast
  let ?new = "(da_state a)\<lparr>ds_current_position := None, ds_next_trigger := None,
    ds_input_reserves := ds_input_reserves (da_state a) + v_amount (lp_inflow (v_asset (da_input ?d)) b),
    ds_output_reserves := ds_output_reserves (da_state a) + v_amount (lp_inflow (da_output_id ?d) b)\<rparr>"
  have new: "?new = new_state a b" by (simp add: new_state_def lp_inflow_def)
  note ex = execute_dutch_auction_def [of env i h s, unfolded Let_def, simplified a option.case, folded new]
  show ?thesis
  proof (cases "step \<ge> da_step_count ?d \<or> ds_input_reserves (new_state a b) = amount_zero")
    case True
    then have e: "execute_dutch_auction env i h s
        = (Inr (), write_dutch_auction_state env \<lparr>da_description = ?d, da_state = (new_state a b)\<lparr>ds_sequence := 1\<rparr>\<rparr> w)"
      using R step(1) new by (simp add: ex)
    from that [OF e close_total [OF inv inj a e refl w d(1-5)]] show ?thesis .
  next
    case False
    then have lt: "unat step < unat (da_step_count ?d)" by (simp add: word_le_nat_alt not_le)
    obtain n where n: "compute_next_trigger_height (trigger_data_of ?d) h = Inr n"
      using next_trigger_exact [OF ok, of h] lt step(2) by auto
    obtain pos q where q: "allocate_position env (DirectedPair (v_asset (da_input ?d)) (da_output_id ?d))
      (ds_input_reserves (new_state a b)) step (compute_pq_at_step ?d step) (da_nonce ?d) w = Inr (pos, q)"
      and run: "\<forall>t. t = write_dutch_auction_state env \<lparr>da_description = ?d, da_state = (new_state a b)\<lparr>ds_input_reserves := amount_zero,
        ds_current_position := pos, ds_next_trigger := non_zero n\<rparr>\<rparr> (set_trigger_for_dutch_id env i n q)
      \<longrightarrow> execute_dutch_auction env i h s = (Inr (), t) \<longrightarrow> trigger_ran env h i s t"
      by (rule advance_total [OF inv env a room(1) room(2) room(3) step(2) lt n w d]) blast
    have e: "execute_dutch_auction env i h s = (Inr (), write_dutch_auction_state env \<lparr>da_description = ?d,
        da_state = (new_state a b)\<lparr>ds_input_reserves := amount_zero, ds_current_position := pos, ds_next_trigger := non_zero n\<rparr>\<rparr>
        (set_trigger_for_dutch_id env i n q))"
      using R step(1) new n q False by (simp add: ex)
    from that [OF e run [rule_format, OF refl e]] show ?thesis .
  qed
qed

end
