(* ===== verification/AuctionMachine.thy ===== *)
theory AuctionMachine
  imports AuctionTrigger
begin

text \<open>
  The auction component as a state machine: all triggers of a height, the handlers of the three actions and their
  effect on the invariant, and the states that are reachable from genesis.
\<close>

section \<open>All triggers of a height\<close>

text \<open>There is room for the values held, and for that many more positions.\<close>

definition ready :: "auction_state \<Rightarrow> nat \<Rightarrow> bool" where
  "ready s n \<longleftrightarrow> (\<forall>k. held s k < 2 ^ 128) \<and> (\<forall>pair. opened_of s pair + n < 2 ^ 32) \<and> card (dom (positions (au_dex s))) + n \<le> 2 ^ 64"

definition triggers_ran :: "auction_env \<Rightarrow> u64 \<Rightarrow> auction_id set \<Rightarrow> auction_state \<Rightarrow> auction_state \<Rightarrow> bool" where
  "triggers_ran env h I s t \<longleftrightarrow> auction_inv env t \<and> held t = held s
     \<and> (\<forall>i. if i \<in> I then \<exists>a b. auctions s i = Some a \<and> auctions t i = Some b \<and> trigger_done h a b else auctions t i = auctions s i)
     \<and> (\<forall>x. bt_get (dutch_triggers t) (h, x) = (if x \<in> ae_show_id env ` I then None else bt_get (dutch_triggers s) (h, x)))"

lemma run_total:
  assumes "auction_inv env s" "env_ok env" "distinct is" "\<And>i. i \<in> set is \<Longrightarrow> auctions s i \<noteq> None" "ready s (length is)"
  shows "\<exists>t. run_triggers (\<lambda>i. execute_dutch_auction env i h) is s = (Inr (), t) \<and> triggers_ran env h (set is) s t"
  using assms
proof (induction "is" arbitrary: s)
  case Nil
  then show ?case by (simp add: triggers_ran_def)
next
  case (Cons i "is")
  obtain a where a: "auctions s i = Some a" using Cons.prems(4) [of i] by auto
  have room: "\<And>k. held s k < 2 ^ 128" "\<And>pair. opened_of s pair + length (i # is) < 2 ^ 32"
    "card (dom (positions (au_dex s))) + length (i # is) \<le> 2 ^ 64" using Cons.prems(5) unfolding ready_def by blast+
  have one: "opened_of s pair + 1 < 2 ^ 32" for pair using room(2) [of pair] by simp
  obtain u where u: "execute_dutch_auction env i h s = (Inr (), u)" "trigger_ran env h i s u"
    by (rule execute_total [OF Cons.prems(1,2) a room(1) one, of h]) (use room(3) in auto)
  obtain b where b: "auctions u = (auctions s)(i := Some b)" "trigger_done h a b" and inv: "auction_inv env u" and held: "held u = held s"
    and trig: "\<And>x. bt_get (dutch_triggers u) (h, x) = (if x = ae_show_id env i then None else bt_get (dutch_triggers s) (h, x))"
    and more: "\<And>pair. opened_of u pair \<le> opened_of s pair + 1" "card (dom (positions (au_dex u))) \<le> card (dom (positions (au_dex s))) + 1"
    using u(2) a unfolding trigger_ran_def by auto
  have "opened_of u pair + length is < 2 ^ 32" for pair using room(2) [of pair] more(1) [of pair] by simp
  then have "ready u (length is)" using room(1,3) more(2) held by (simp add: ready_def)
  moreover have "auctions u j \<noteq> None" if "j \<in> set is" for j using Cons.prems(4) [of j] that by (simp add: b(1))
  ultimately obtain t where t: "run_triggers (\<lambda>i. execute_dutch_auction env i h) is u = (Inr (), t)" "triggers_ran env h (set is) u t"
    using Cons.IH [OF inv Cons.prems(2)] Cons.prems(3) by auto
  have "triggers_ran env h (set (i # is)) s t"
    unfolding triggers_ran_def
  proof (intro conjI allI)
    show "auction_inv env t" "held t = held s" using t(2) held by (simp_all add: triggers_ran_def)
  next
    fix j
    have new: "if j \<in> set is then \<exists>a b. auctions u j = Some a \<and> auctions t j = Some b \<and> trigger_done h a b else auctions t j = auctions u j"
      using t(2) unfolding triggers_ran_def by blast
    show "if j \<in> set (i # is) then \<exists>a b. auctions s j = Some a \<and> auctions t j = Some b \<and> trigger_done h a b else auctions t j = auctions s j"
      using new Cons.prems(3) a b by (cases "j = i") auto
  next
    fix x
    have "bt_get (dutch_triggers t) (h, x) = (if x \<in> ae_show_id env ` set is then None else bt_get (dutch_triggers u) (h, x))"
      using t(2) unfolding triggers_ran_def by blast
    then show "bt_get (dutch_triggers t) (h, x) = (if x \<in> ae_show_id env ` set (i # is) then None else bt_get (dutch_triggers s) (h, x))"
      by (simp add: trig)
  qed
  then show ?case using u(1) t(1) by simp
qed

text \<open>The identifiers due at a height are those of the triggers of that height, each once.\<close>

lemma due_ids:
  assumes "auction_inv env s" "inj (ae_show_id env)"
  shows "distinct (stream_dutch_ids_by_trigger h s)"
    "set (stream_dutch_ids_by_trigger h s) = {i. bt_get (dutch_triggers s) (h, ae_show_id env i) = Some i}"
proof -
  have ok: "triggers_ok env s" using assms(1) by (simp add: auction_inv_def)
  have dist: "distinct (map fst (dutch_triggers s))"
    using ok by (simp add: triggers_ok_def bt_wf_def strict_sorted_iff)
  have key: "x = ae_show_id env i" if "((h', x), i) \<in> set (dutch_triggers s)" for h' x i
    using ok map_of_is_SomeI [OF dist that] by (auto simp: triggers_ok_def bt_get_def)
  have entry: "map_of (dutch_triggers s) (h', ae_show_id env i) = Some i" if "((h', x), i) \<in> set (dutch_triggers s)" for h' x i
    using map_of_is_SomeI [OF dist that] key [OF that] by simp
  have "inj_on snd (set (filter (\<lambda>((h', _), _). h' = h) (dutch_triggers s)))"
    by (rule inj_onI) (clarsimp, metis key)
  then show "distinct (stream_dutch_ids_by_trigger h s)"
    using dist by (simp add: stream_dutch_ids_by_trigger_def distinct_map)
  show "set (stream_dutch_ids_by_trigger h s) = {i. bt_get (dutch_triggers s) (h, ae_show_id env i) = Some i}"
    unfolding stream_dutch_ids_by_trigger_def bt_get_def
    by (auto dest: entry map_of_SomeD intro!: rev_image_eqI)
qed

lemma process_total:
  assumes inv: "auction_inv env s" and env: "env_ok env" and room: "ready s (length (stream_dutch_ids_by_trigger h s))"
  obtains t where "process_triggers env h s = (Inr (), t)" "triggers_ran env h (set (stream_dutch_ids_by_trigger h s)) s t"
    "stream_dutch_ids_by_trigger h t = []"
proof -
  let ?is = "stream_dutch_ids_by_trigger h s"
  have inj: "inj (ae_show_id env)" using env by (simp add: env_ok_def)
  note due = due_ids [OF inv inj, of h]
  have known: "auctions s i \<noteq> None" if "i \<in> set ?is" for i
    using that due(2) inv by (auto simp: auction_inv_def triggers_ok_def)
  obtain t where t: "run_triggers (\<lambda>i. execute_dutch_auction env i h) ?is s = (Inr (), t)" "triggers_ran env h (set ?is) s t"
    using run_total [OF inv env due(1) known room, of h] by blast
  have "auction_inv env t" using t(2) by (simp add: triggers_ran_def)
  note after = due_ids [OF this inj, of h]
  have "bt_get (dutch_triggers t) (h, ae_show_id env i) \<noteq> Some i" for i
  proof
    assume i: "bt_get (dutch_triggers t) (h, ae_show_id env i) = Some i"
    then have "i \<notin> set ?is" "bt_get (dutch_triggers s) (h, ae_show_id env i) = Some i"
      using t(2) unfolding triggers_ran_def by (metis image_eqI option.distinct(1))+
    then show False by (simp add: due(2))
  qed
  then have "stream_dutch_ids_by_trigger h t = []" using after(2) by (simp flip: set_empty)
  with t show ?thesis using that by (simp add: process_triggers_def)
qed

section \<open>The handlers\<close>

inductive auction_action :: "auction_env \<Rightarrow> (balance \<Rightarrow> 'c) \<Rightarrow> auction_state \<Rightarrow> auction_state \<Rightarrow> bool" for env commit where
  act_schedule: "schedule_check_stateless d = Inr () \<Longrightarrow> schedule_execute env d s = Inr t \<Longrightarrow> auction_action env commit s t"
| act_end: "end_execute env i s = Inr t \<Longrightarrow> auction_action env commit s t"
| act_withdraw: "withdraw_check_stateless n = Inr () \<Longrightarrow> withdraw_execute env commit i n c s = Inr t \<Longrightarrow> auction_action env commit s t"
| act_height: "t = s\<lparr>au_height := h\<rparr> \<Longrightarrow> auction_action env commit s t"

inductive_cases auction_actionE: "auction_action env commit s t"

lemma run_triggers_keeps:
  assumes "run_triggers f is s = (r, t)" "P s" "\<And>i s r t. f i s = (r, t) \<Longrightarrow> P s \<Longrightarrow> P t"
  shows "P t"
  using assms(1,2) by (induction "is" arbitrary: s) (auto split: prod.splits sum.splits dest: assms(3))

lemma same_books:
  assumes "auction_books env s" "auctions t = auctions s" "au_vcb t = au_vcb s"
  shows "auction_books env t \<and> slack_kept s t"
  using books_grow [OF assms(1,2)] au_balance_same [OF assms(3)] by simp

lemma action_books:
  assumes "auction_action env commit s t" "auction_books env s"
  shows "auction_books env t \<and> slack_kept s t"
  using assms(1)
proof (rule auction_actionE)
  fix d
  assume "schedule_check_stateless d = Inr ()" "schedule_execute env d s = Inr t"
  then show ?thesis by (rule schedule_books [OF assms(2)])
next
  fix i
  assume "end_execute env i s = Inr t"
  then obtain a where "auctions s i = Some a" "end_auction env a s = Inr t"
    by (auto simp: end_execute_def get_dutch_auction_by_id_def result_simps)
  then show ?thesis by (rule end_auction_books [OF assms(2)])
next
  fix n i c
  assume "withdraw_execute env commit i n c s = Inr t"
  then obtain a b where "auctions s i = Some a" "withdraw_auction env a s = Inr (b, t)"
    by (auto simp: withdraw_execute_def get_dutch_auction_by_id_def result_simps and_then_prod_Inr_iff)
  then show ?thesis by (rule withdraw_books [OF assms(2)])
next
  fix h
  assume "t = s\<lparr>au_height := h\<rparr>"
  then show ?thesis using same_books [OF assms(2), of t] by simp
qed

lemma hook_books:
  assumes "auction_end_block env h s = Inr t" "auction_books env s"
  shows "auction_books env t \<and> slack_kept s t"
proof -
  obtain r where "process_triggers env (word_of_int h) s = (r, t)"
    using assms(1) by (auto simp: auction_end_block_def split: prod.splits sum.splits error.splits)
  then show ?thesis
    unfolding process_triggers_def
    by (rule run_triggers_keeps [where P = "\<lambda>t. auction_books env t \<and> slack_kept s t"])
      (use assms(2) execute_books slack_trans in \<open>fastforce+\<close>)
qed

section \<open>The handlers keep the invariant\<close>

lemma schedule_inv:
  assumes inv: "auction_inv env s" and env: "env_ok env"
    and c: "schedule_check_stateless d = Inr ()" and e: "schedule_execute env d s = Inr t"
  shows "auction_inv env t"
proof -
  let ?i = "dutch_id env d"
  have ok: "description_ok d" using c by (simp add: schedule_check_iff)
  have books: "auction_books env s" using inv by (simp add: auction_inv_def)
  obtain u n where start: "da_start_height d > au_height s" and n: "compute_next_trigger_height (trigger_data_of d) (au_height s) = Inr n"
    and u: "auction_vcb_credit (da_input d) s = Inr u"
    and t: "t = write_dutch_auction_state env \<lparr>da_description = d, da_state = \<lparr>ds_sequence = 0, ds_current_position = None,
        ds_next_trigger = non_zero n, ds_input_reserves = v_amount (da_input d), ds_output_reserves = amount_zero\<rparr>\<rparr>
        (set_trigger_for_dutch_id env ?i n u)"
    using e by (auto simp: schedule_execute_def schedule_auction_def try_next_trigger_height_def result_simps Let_def split: if_splits)
  obtain y where y: "u = s\<lparr>au_vcb := y\<rparr>" using au_credit_effect(2) [OF u] ..
  have "unat (au_height s) < unat (da_start_height d)" using start by (simp add: word_less_nat_alt)
  then have "step_at d (au_height s) < unat (da_step_count d)" using ok by (simp add: step_at_def description_ok_def)
  from next_trigger_later(1) [OF ok this n] have nz: "non_zero n = Some n" by (auto simp: non_zero_def)
  let ?b = "\<lparr>da_description = d, da_state = \<lparr>ds_sequence = 0, ds_current_position = None,
        ds_next_trigger = Some n, ds_input_reserves = v_amount (da_input d), ds_output_reserves = amount_zero\<rparr>\<rparr>"
  have ta: "auctions t = (auctions s)(?i := Some ?b)" by (simp add: t y nz)
  show ?thesis
    by (rule write_keeps_inv [OF inv _ _ _ ta, where m = True and n = n and u = "dutch_triggers s"])
      (use env inv schedule_books [OF books c e] in \<open>auto simp: env_ok_def auction_inv_def t y set_trigger_for_dutch_id_def\<close>)
qed

lemma withdraw_inv:
  assumes inv: "auction_inv env s" and env: "env_ok env" and a: "auctions s i = Some a" and e: "withdraw_auction env a s = Inr (b, t)"
  shows "auction_inv env t"
proof -
  have books: "auction_books env s" using inv by (simp add: auction_inv_def)
  obtain u v where u: "auction_vcb_debit \<lparr>v_amount = ds_input_reserves (da_state a), v_asset = v_asset (da_input (da_description a))\<rparr> s = Inr u"
    and v: "auction_vcb_debit \<lparr>v_amount = ds_output_reserves (da_state a), v_asset = da_output_id (da_description a)\<rparr> u = Inr v"
    and t: "t = write_dutch_auction_state env \<lparr>da_description = da_description a, da_state = (da_state a)\<lparr>
        ds_sequence := u64_saturating_add (ds_sequence (da_state a)) 1, ds_current_position := None, ds_next_trigger := None,
        ds_input_reserves := amount_zero, ds_output_reserves := amount_zero\<rparr>\<rparr> v"
    using e by (auto simp: withdraw_auction_def and_then_Inr_iff Let_def)
  obtain y where y: "v = s\<lparr>au_vcb := y\<rparr>" using au_debit_effect(2) [OF u] au_debit_effect(2) [OF v] by auto
  have ta: "auctions t = (auctions s)(i := Some \<lparr>da_description = da_description a, da_state = (da_state a)\<lparr>
        ds_sequence := u64_saturating_add (ds_sequence (da_state a)) 1, ds_current_position := None, ds_next_trigger := None,
        ds_input_reserves := amount_zero, ds_output_reserves := amount_zero\<rparr>\<rparr>)"
    using auction_booksD(2) [OF books a] by (simp add: t y)
  show ?thesis
    by (rule write_keeps_inv [OF inv _ _ _ ta, where m = False and u = "dutch_triggers s"])
      (use env inv withdraw_books [OF books a e] in \<open>auto simp: env_ok_def auction_inv_def t y\<close>)
qed

lemma end_inv:
  assumes inv: "auction_inv env s" and env: "env_ok env" and a: "auctions s i = Some a" and e: "end_auction env a s = Inr t"
  shows "auction_inv env t"
proof (cases "ds_sequence (da_state a) \<ge> 1")
  case True
  then show ?thesis using inv e by (simp add: end_auction_def)
next
  case False
  let ?d = "da_description a" and ?st = "da_state a"
  have books: "auction_books env s" using inv by (simp add: auction_inv_def)
  have id: "dutch_id env ?d = i" by (rule auction_booksD(2) [OF books a])
  obtain b d where R: "recover_position env (ds_current_position ?st) s = Inr (b, s\<lparr>au_dex := d\<rparr>)" "dex_inv (ae_position_hash env) d"
    "\<And>j p. positions (au_dex s) j = Some p \<Longrightarrow> lp_of s i \<noteq> Some j \<Longrightarrow> positions d j = Some p" using recover_any [OF inv a] by blast
  obtain v w where v: "auction_vcb_credit (lp_inflow (v_asset (da_input ?d)) b) (s\<lparr>au_dex := d\<rparr>) = Inr v"
    and w: "auction_vcb_credit (lp_inflow (da_output_id ?d) b) v = Inr w"
    and t: "t = write_dutch_auction_state env \<lparr>da_description = ?d, da_state = \<lparr>ds_sequence = 1, ds_current_position = None,
          ds_next_trigger = None, ds_input_reserves = ds_input_reserves ?st + v_amount (lp_inflow (v_asset (da_input ?d)) b),
          ds_output_reserves = ds_output_reserves ?st + v_amount (lp_inflow (da_output_id ?d) b)\<rparr>\<rparr>
        (case ds_next_trigger ?st of None \<Rightarrow> w | Some h \<Rightarrow> unset_trigger_for_dutch_id env i h w)"
    using e False R(1) id by (auto simp: end_auction_def Let_def and_then_Inr_iff)
  obtain y where y: "w = s\<lparr>au_dex := d, au_vcb := y\<rparr>" using au_credit_effect(2) [OF v] au_credit_effect(2) [OF w] by auto
  have ta: "auctions t = (auctions s)(i := Some \<lparr>da_description = ?d, da_state = \<lparr>ds_sequence = 1, ds_current_position = None,
          ds_next_trigger = None, ds_input_reserves = ds_input_reserves ?st + v_amount (lp_inflow (v_asset (da_input ?d)) b),
          ds_output_reserves = ds_output_reserves ?st + v_amount (lp_inflow (da_output_id ?d) b)\<rparr>\<rparr>)"
    using id by (simp add: t y split: option.split)
  show ?thesis
    by (rule write_keeps_inv [OF inv _ _ _ ta, where m = False and u = "dutch_triggers t"])
      (use env R end_auction_books [OF books a e] in
        \<open>auto simp: env_ok_def t y unset_trigger_for_dutch_id_def split: option.split\<close>)
qed

lemma action_inv:
  assumes "auction_action env commit s t" "auction_inv env s" "env_ok env"
  shows "auction_inv env t"
  using assms(1)
proof (rule auction_actionE)
  fix d
  assume "schedule_check_stateless d = Inr ()" "schedule_execute env d s = Inr t"
  then show ?thesis by (rule schedule_inv [OF assms(2,3)])
next
  fix i
  assume "end_execute env i s = Inr t"
  then obtain a where "auctions s i = Some a" "end_auction env a s = Inr t"
    by (auto simp: end_execute_def get_dutch_auction_by_id_def result_simps)
  then show ?thesis by (rule end_inv [OF assms(2,3)])
next
  fix n i c
  assume "withdraw_execute env commit i n c s = Inr t"
  then obtain a b where "auctions s i = Some a" "withdraw_auction env a s = Inr (b, t)"
    by (auto simp: withdraw_execute_def get_dutch_auction_by_id_def result_simps and_then_prod_Inr_iff)
  then show ?thesis by (rule withdraw_inv [OF assms(2,3)])
next
  fix h
  assume "t = s\<lparr>au_height := h\<rparr>"
  then show ?thesis
    using assms(2) same_books [of env s t] by (auto simp: auction_inv_def lps_ok_def triggers_ok_def lp_of_def)
qed

section \<open>The exchange around the auctions\<close>

text \<open>The token of a position that an auction deploys is never issued, so no handler withdraws such a position.\<close>

definition keeps_deployed :: "auction_state \<Rightarrow> dex_state \<Rightarrow> bool" where
  "keeps_deployed s d \<longleftrightarrow> (\<forall>i j q. lp_of s i = Some j \<longrightarrow> positions d j = Some q \<longrightarrow> p_state q = Opened \<or> p_state q = Closed)"

lemma alive_step:
  assumes "position_step (Some p) x" "p_state p = Opened \<or> p_state p = Closed"
  shows "\<exists>q. x = Some q \<and> p_phi q = p_phi p"
  using assms by (cases rule: position_step.cases) auto

lemma dex_change_inv:
  assumes inv: "auction_inv env s" and step: "dex_step (ae_position_hash env) commit um (au_dex s) d" and keep: "keeps_deployed s d"
  shows "auction_inv env (s\<lparr>au_dex := d\<rparr>)"
proof -
  have good: "good_step (ae_position_hash env) (au_dex s) d"
    by (rule dex_step_good [OF step]) (use inv in \<open>simp add: auction_inv_def\<close>)
  have lps: "lps_ok s" using inv by (simp add: auction_inv_def)
  have "lps_ok (s\<lparr>au_dex := d\<rparr>)"
    unfolding lps_ok_def
  proof (intro allI impI)
    fix i a j
    assume "auctions (s\<lparr>au_dex := d\<rparr>) i = Some a" and j: "ds_current_position (da_state a) = Some j"
    then have a: "auctions s i = Some a" by simp
    obtain p where p: "alive_at (au_dex s) j p" "tf_pair (p_phi p) = lp_pair a" and only: "\<And>i'. lp_of s i' = Some j \<Longrightarrow> i' = i"
      by (rule lps_okD [OF lps a j]) blast
    have "position_step (Some p) (positions d j)"
      using good p(1) unfolding good_step_def alive_at_def by metis
    then obtain q where q: "positions d j = Some q" "p_phi q = p_phi p" using alive_step p(1) by (auto simp: alive_at_def)
    have "lp_of s i = Some j" using a j by (simp add: lp_of_def)
    then have "alive_at d j q" using keep q(1) by (auto simp: keeps_deployed_def alive_at_def)
    then show "(\<exists>p. alive_at (au_dex (s\<lparr>au_dex := d\<rparr>)) j p \<and> tf_pair (p_phi p) = lp_pair a) \<and>
        (\<forall>i'. lp_of (s\<lparr>au_dex := d\<rparr>) i' = Some j \<longrightarrow> i' = i)"
      using q(2) p(2) only by (auto simp: lp_of_def)
  qed
  moreover have "triggers_ok env (s\<lparr>au_dex := d\<rparr>)" "auction_books env (s\<lparr>au_dex := d\<rparr>)"
    using inv same_books [of env s "s\<lparr>au_dex := d\<rparr>"] by (auto simp: auction_inv_def triggers_ok_def)
  ultimately show ?thesis using good by (simp add: auction_inv_def good_step_def)
qed

section \<open>Reachable states\<close>

definition auction_genesis :: "dex_state \<Rightarrow> u64 \<Rightarrow> auction_state" where
  "auction_genesis d h = auction_init_chain (Some ())
     \<lparr>au_dex = d, auctions = (\<lambda>_. None), au_vcb = (\<lambda>_. None), dutch_triggers = [], au_height = h, au_params = None\<rparr>"

text \<open>Whatever happens to the DEX, and whether or not the triggers of a block succeed.\<close>

inductive auction_reachable :: "auction_env \<Rightarrow> (balance \<Rightarrow> 'c) \<Rightarrow> auction_state \<Rightarrow> bool" for env commit where
  ar_genesis: "auction_reachable env commit (auction_genesis d h)"
| ar_action: "auction_reachable env commit s \<Longrightarrow> auction_action env commit s t \<Longrightarrow> auction_reachable env commit t"
| ar_hook: "auction_reachable env commit s \<Longrightarrow> auction_end_block env h s = Inr t \<Longrightarrow> auction_reachable env commit t"
| ar_dex: "auction_reachable env commit s \<Longrightarrow> t = s\<lparr>au_dex := d\<rparr> \<Longrightarrow> auction_reachable env commit t"

text \<open>The DEX moves by its own steps, which leave the deployed positions to the auctions, and each block has room.\<close>

inductive auction_steady :: "auction_env \<Rightarrow> (balance \<Rightarrow> 'c) \<Rightarrow> auction_state \<Rightarrow> bool" for env commit where
  as_genesis: "dex_reachable (ae_position_hash env) commit (ae_um env) d \<Longrightarrow> auction_steady env commit (auction_genesis d h)"
| as_action: "auction_steady env commit s \<Longrightarrow> auction_action env commit s t \<Longrightarrow> auction_steady env commit t"
| as_hook: "auction_steady env commit s \<Longrightarrow> ready s (length (stream_dutch_ids_by_trigger (word_of_int h) s))
     \<Longrightarrow> auction_end_block env h s = Inr t \<Longrightarrow> auction_steady env commit t"
| as_dex: "auction_steady env commit s \<Longrightarrow> dex_step (ae_position_hash env) commit (ae_um env) (au_dex s) d \<Longrightarrow> keeps_deployed s d
     \<Longrightarrow> t = s\<lparr>au_dex := d\<rparr> \<Longrightarrow> auction_steady env commit t"

lemma genesis_fields [simp]:
  "auctions (auction_genesis d h) = (\<lambda>_. None)" "dutch_triggers (auction_genesis d h) = []" "au_dex (auction_genesis d h) = d"
  by (simp_all add: auction_genesis_def auction_init_chain_def put_auction_params_def)

lemma genesis_auction_books: "auction_books env (auction_genesis d h)"
  by (simp add: auction_books_def reserved_total_def tally_def)

lemma reachable_books: "auction_reachable env commit s \<Longrightarrow> auction_books env s"
proof (induction rule: auction_reachable.induct)
  case (ar_dex s t d)
  then show ?case using same_books [of env s t] by simp
qed (use genesis_auction_books action_books hook_books in blast)+

lemma hook_total:
  assumes inv: "auction_inv env s" and env: "env_ok env" and room: "ready s (length (stream_dutch_ids_by_trigger (word_of_int h) s))"
  obtains t where "auction_end_block env h s = Inr t"
    "triggers_ran env (word_of_int h) (set (stream_dutch_ids_by_trigger (word_of_int h) s)) s t" "stream_dutch_ids_by_trigger (word_of_int h) t = []"
proof (rule process_total [OF inv env room])
  fix t
  assume t: "process_triggers env (word_of_int h) s = (Inr (), t)"
    "triggers_ran env (word_of_int h) (set (stream_dutch_ids_by_trigger (word_of_int h) s)) s t" "stream_dutch_ids_by_trigger (word_of_int h) t = []"
  show ?thesis by (rule that [OF _ t(2,3)]) (simp add: auction_end_block_def t(1))
qed

lemma steady_inv:
  assumes "auction_steady env commit s" "env_ok env"
  shows "auction_inv env s"
  using assms(1)
proof (induction rule: auction_steady.induct)
  case (as_genesis d h)
  then show ?case using reachable_inv genesis_auction_books
    by (auto simp: auction_inv_def lps_ok_def triggers_ok_def bt_get_def)
next
  case (as_action s t)
  then show ?case using action_inv assms(2) by blast
next
  case (as_hook s h t)
  obtain t' where "auction_end_block env h s = Inr t'"
    "triggers_ran env (word_of_int h) (set (stream_dutch_ids_by_trigger (word_of_int h) s)) s t'"
    by (rule hook_total [OF as_hook.IH assms(2) as_hook.hyps(2)]) blast
  then show ?case using as_hook.hyps(3) by (simp add: triggers_ran_def)
next
  case (as_dex s d t)
  then show ?case using dex_change_inv by blast
qed

lemma steady_reachable: "auction_steady env commit s \<Longrightarrow> auction_reachable env commit s"
  by (induction rule: auction_steady.induct) (blast intro: auction_reachable.intros)+

end
