(* ===== verification/AuctionProperties.thy ===== *)
theory AuctionProperties
  imports AuctionMachine DexProperties
begin

text \<open>
  The properties of the auctions: what their circuit breaker covers and that a withdrawal is always paid,
  that the triggers of a block succeed and make progress, the prices of the schedule,
  and the withdrawal of an auction that is still opened. The demo auction sells 100 for 50 down to 10 in two steps.
\<close>

section \<open>A concrete auction\<close>

definition demo_env :: auction_env where
  "demo_env = \<lparr>ae_position_hash = (\<lambda>x. x), ae_nonce_hash = rev, ae_id_hash = (\<lambda>x. x), ae_show_id = (\<lambda>x. x), ae_um = AssetId 2\<rparr>"

definition demo_description :: dutch_description where
  "demo_description = \<lparr>da_input = \<lparr>v_amount = 100, v_asset = AssetId 1\<rparr>, da_output_id = AssetId 2, da_max_output = 50, da_min_output = 10,
     da_start_height = 10, da_end_height = 20, da_step_count = 2, da_nonce = replicate 32 0\<rparr>"

definition demo_auction :: dutch_auction where
  "demo_auction = \<lparr>da_description = demo_description, da_state = \<lparr>ds_sequence = 0, ds_current_position = None,
     ds_next_trigger = Some 15, ds_input_reserves = 100, ds_output_reserves = 0\<rparr>\<rparr>"

definition demo_auction_id :: auction_id where
  "demo_auction_id = dutch_id demo_env demo_description"

definition demo_scheduled :: auction_state where
  "demo_scheduled = \<lparr>au_dex = demo_genesis, auctions = [demo_auction_id \<mapsto> demo_auction], au_vcb = [AssetId 1 \<mapsto> 100],
     dutch_triggers = [((15, demo_auction_id), demo_auction_id)], au_height = 0, au_params = Some ()\<rparr>"

definition demo_commit :: "balance \<Rightarrow> balance" where
  "demo_commit b = b"

lemma demo_checks: "schedule_check_stateless demo_description = Inr ()"
  by (simp add: schedule_check_iff description_ok_def demo_description_def)

lemma demo_next: "try_next_trigger_height (trigger_data_of demo_description) 0 = Inr (Some 15)"
  by (simp add: try_next_trigger_height_def compute_next_trigger_height_def trigger_data_of_def u64_checked_div_def
      u64_saturating_sub_def expect_some_def Let_def demo_description_def)

lemma demo_credit:
  "auction_vcb_credit (da_input demo_description) (auction_genesis demo_genesis 0) = Inr (put_auction_vcb (AssetId 1) 100 (auction_genesis demo_genesis 0))"
proof -
  have "get_auction_value_balance_for (AssetId 1) (auction_genesis demo_genesis 0) = 0"
    by (simp add: get_auction_value_balance_for_def auction_genesis_def auction_init_chain_def put_auction_params_def amount_zero_def)
  moreover have "amount_checked_add 0 100 = Some 100" by (simp add: amount_checked_add_def checked_add_Some_iff)
  ultimately show ?thesis by (simp add: auction_vcb_credit_def demo_description_def amount_zero_def ok_or_def)
qed

lemma demo_schedule: "schedule_execute demo_env demo_description (auction_genesis demo_genesis 0) = Inr demo_scheduled"
proof -
  have f: "da_start_height demo_description = 10" "v_amount (da_input demo_description) = 100" by (simp_all add: demo_description_def)
  have g: "au_height (auction_genesis demo_genesis 0) = 0" "au_params (auction_genesis demo_genesis 0) = Some ()"
    by (simp_all add: auction_genesis_def auction_init_chain_def put_auction_params_def)
  have v: "au_vcb (auction_genesis demo_genesis 0) = (\<lambda>_. None)"
    by (simp add: auction_genesis_def auction_init_chain_def put_auction_params_def)
  have show_id: "ae_show_id demo_env i = i" for i by (simp add: demo_env_def)
  have id: "dutch_id demo_env (da_description demo_auction) = demo_auction_id" by (simp add: demo_auction_def demo_auction_id_def)
  have a: "\<lparr>da_description = demo_description, da_state = \<lparr>ds_sequence = 0, ds_current_position = None, ds_next_trigger = Some 15,
      ds_input_reserves = v_amount (da_input demo_description), ds_output_reserves = 0\<rparr>\<rparr> = demo_auction"
    by (simp add: demo_auction_def f)
  have nz: "non_zero 15 = Some 15" by (simp add: non_zero_def)
  have "schedule_execute demo_env demo_description (auction_genesis demo_genesis 0) = Inr (write_dutch_auction_state demo_env demo_auction
      (set_trigger_for_dutch_id demo_env demo_auction_id 15 (put_auction_vcb (AssetId 1) 100 (auction_genesis demo_genesis 0))))"
    by (simp add: schedule_execute_def schedule_auction_def demo_next demo_credit f(1) g nz ensure_def auction_id_exists_def expect_some_def
        a demo_auction_id_def [symmetric])
  also have "write_dutch_auction_state demo_env demo_auction
      (set_trigger_for_dutch_id demo_env demo_auction_id 15 (put_auction_vcb (AssetId 1) 100 (auction_genesis demo_genesis 0))) = demo_scheduled"
    using g v show_id
    by (simp add: demo_scheduled_def put_auction_vcb_def id set_trigger_for_dutch_id_def write_dutch_auction_state_def put_auction_def
        auction_genesis_def auction_init_chain_def put_auction_params_def)
  finally show ?thesis .
qed

lemma demo_action: "auction_action demo_env demo_commit (auction_genesis demo_genesis 0) demo_scheduled"
  by (rule act_schedule [OF demo_checks demo_schedule])

lemma demo_reached: "auction_reachable demo_env demo_commit demo_scheduled"
  by (rule ar_action [OF ar_genesis demo_action])

lemma demo_steady: "auction_steady demo_env demo_commit demo_scheduled"
proof (rule as_action [OF as_genesis demo_action])
  show "dex_reachable (ae_position_hash demo_env) demo_commit (ae_um demo_env) demo_genesis"
    unfolding demo_genesis_def by (rule reach_genesis)
qed

lemma demo_found: "auctions demo_scheduled demo_auction_id = Some demo_auction"
  by (simp add: demo_scheduled_def)

text \<open>The hashes of the demo keep the counter of the attempts.\<close>

lemma demo_env_ok: "env_ok demo_env"
proof -
  have "inj (\<lambda>c. position_id_of (ae_position_hash demo_env) (auction_lp demo_env pair x i pq nonce c))" for pair x i pq nonce
  proof (rule injI)
    fix c c' :: u64
    let ?nonce = "\<lambda>c :: u64. take 32 (rev (nonce @ le_bytes 8 (unat i) @ le_bytes 8 (unat c)))"
    have lp: "p_nonce (auction_lp demo_env pair x i pq nonce c) = ?nonce c" for c
      by (simp add: auction_lp_def position_new_with_nonce_def lp_nonce_def demo_env_def Let_def split: prod.split)
    have short: "take 8 (position_id_of (ae_position_hash demo_env) (auction_lp demo_env pair x i pq nonce c)) = rev (le_bytes 8 (unat c))" for c
      by (simp add: position_id_of_def position_preimage_def lp) (simp add: demo_env_def min_def)
    assume "position_id_of (ae_position_hash demo_env) (auction_lp demo_env pair x i pq nonce c)
      = position_id_of (ae_position_hash demo_env) (auction_lp demo_env pair x i pq nonce c')"
    with short [of c] short [of c'] have "le_bytes 8 (unat c) = le_bytes 8 (unat c')" by simp
    moreover have "unat c < 256 ^ 8" "unat c' < 256 ^ 8" using unsigned_less [of c, where ?'a = nat] unsigned_less [of c', where ?'a = nat] by simp_all
    ultimately show "c = c'" by (simp add: le_bytes_inject word_unat_eq_iff)
  qed
  then show ?thesis by (simp add: env_ok_def attempts_distinct_def) (simp add: demo_env_def)
qed

lemma demo_auction_ready: "ready demo_scheduled (length (stream_dutch_ids_by_trigger 15 demo_scheduled))"
proof -
  have d: "vcb_balance (au_dex demo_scheduled) k = 0" "positions (au_dex demo_scheduled) = (\<lambda>_. None)" for k
    by (simp_all add: demo_scheduled_def demo_genesis_def dex_init_chain_def put_dex_params_def dex_empty_def vcb_balance_def)
  have "au_balance demo_scheduled k \<le> 100" for k by (simp add: au_balance_def demo_scheduled_def)
  then have "held demo_scheduled k \<le> 100" for k by (simp add: held_def d)
  then have "held demo_scheduled k < 2 ^ 128" for k by (rule le_less_trans) simp
  moreover have "length (stream_dutch_ids_by_trigger 15 demo_scheduled) = 1"
    by (simp add: stream_dutch_ids_by_trigger_def demo_scheduled_def)
  ultimately show ?thesis by (simp add: ready_def opened_of_def d tally_def)
qed

section \<open>The circuit breaker covers the auctions\<close>

text \<open>C38: In every state that is reachable by the handlers and the block hook, whether or not the hook succeeds and whatever
  the exchange does in between, the circuit breaker of the auctions holds at least the sum of the
  recorded reserves of all auctions, so the withdrawal of any auction succeeds, and it pays exactly the recorded reserves.
\<close>
theorem auction_vcb_covers:
  assumes "auction_reachable env commit s"
  shows "(\<forall>k. (\<Sum>i\<in>dom (auctions s). reserved k (the (auctions s i))) \<le> unat (get_auction_value_balance_for k s))
    \<and> (\<forall>i a. auctions s i = Some a \<longrightarrow> (\<exists>b t. withdraw_auction env a s = Inr (b, t) \<and> (\<forall>k. net b k = int (reserved k a))
          \<and> (\<forall>k. unat (get_auction_value_balance_for k t) + reserved k a = unat (get_auction_value_balance_for k s))))"
proof -
  note books = reachable_books [OF assms]
  have bal: "unat (get_auction_value_balance_for k t) = au_balance t k" for k t
    by (simp add: get_auction_value_balance_for_def au_balance_def amount_zero_def)
  have "\<exists>b t. withdraw_auction env a s = Inr (b, t) \<and> (\<forall>k. net b k = int (reserved k a)) \<and> (\<forall>k. au_balance t k + reserved k a = au_balance s k)"
    if "auctions s i = Some a" for i a
    by (rule withdraw_total [OF books that])
  then show ?thesis using auction_booksD(4) [OF books] by (auto simp: bal reserved_total_def tally_def)
qed

theorem auction_vcb_covers_witness:
  "reserved (AssetId 1) demo_auction = 100 \<and> (\<exists>b t. withdraw_auction demo_env demo_auction demo_scheduled = Inr (b, t) \<and> net b (AssetId 1) = 100)"
proof -
  have r: "reserved (AssetId 1) demo_auction = 100" by (simp add: reserved_def demo_auction_def demo_description_def)
  then show ?thesis using auction_vcb_covers [OF demo_reached] demo_found by (metis of_nat_numeral)
qed

section \<open>The triggers of a block\<close>



section \<open>Prices\<close>

text \<open>C40: For a description that passes the stateless checks, the price of a step is the exact linear interpolation
  from the maximal to the minimal output, computed without wrapping around: the first step asks for the maximum, the last for the
  minimum, each later step for less, and both terms are positive and fit the 80 bits that a position admits.
\<close>
theorem auction_price_exact:
  assumes "schedule_check_stateless d = Inr ()" "unat i < unat (da_step_count d)"
  shows "unat (fst (compute_pq_at_step d i))
      = (unat (da_step_count d) - 1 - unat i) * unat (da_max_output d) + unat i * unat (da_min_output d)
    \<and> unat (snd (compute_pq_at_step d i)) = (unat (da_step_count d) - 1) * unat (v_amount (da_input d))
    \<and> (\<forall>j. unat i < unat j \<longrightarrow> unat j < unat (da_step_count d) \<longrightarrow> fst (compute_pq_at_step d j) < fst (compute_pq_at_step d i))
    \<and> 0 < fst (compute_pq_at_step d i) \<and> unat (fst (compute_pq_at_step d i)) < 2 ^ 80
    \<and> 0 < snd (compute_pq_at_step d i) \<and> unat (snd (compute_pq_at_step d i)) < 2 ^ 80"
proof -
  have ok: "description_ok d" using assms(1) by (simp add: schedule_check_iff)
  show ?thesis
    using price_exact [OF ok assms(2)] price_bounds(3-6) [OF ok assms(2)] price_falls [OF ok assms(2)]
    by (simp add: word_less_nat_alt)
qed

theorem auction_price_exact_witness:
  "unat (fst (compute_pq_at_step demo_description 1)) = 10 \<and> unat (snd (compute_pq_at_step demo_description 1)) = 100"
  using auction_price_exact [OF demo_checks, of 1] by (simp add: demo_description_def)

section \<open>Withdrawing an opened auction\<close>

text \<open>The withdrawal handler accepts an auction that is still opened, at sequence number 1: it pays only the
  recorded reserves, the auction forgets the position that it has deployed, which stays untouched on
  the exchange, its trigger stays stored, and ending the auction afterwards changes nothing.
\<close>
theorem withdraw_opened_abandons:
  assumes "auction_reachable env commit s" "auctions s i = Some a" "ds_sequence (da_state a) = 0"
  shows "withdraw_check_stateless 1 = Inr () \<and> (\<exists>b t a'. (\<forall>k. net b k = int (reserved k a))
    \<and> withdraw_execute env commit i 1 (commit b) s = Inr t \<and> au_dex t = au_dex s \<and> dutch_triggers t = dutch_triggers s
    \<and> auctions t i = Some a' \<and> ds_sequence (da_state a') = 1 \<and> ds_current_position (da_state a') = None
    \<and> ds_next_trigger (da_state a') = None \<and> end_execute env i t = Inr t)"
proof -
  note books = reachable_books [OF assms(1)]
  obtain b t where t: "withdraw_auction env a s = Inr (b, t)" "\<And>k. net b k = int (reserved k a)"
    using withdraw_total [OF books assms(2)] by blast
  note W = withdraw_auction_effect [OF t(1)]
  have one: "u64_saturating_add 0 1 = 1" by (simp add: u64_saturating_add_def)
  have id: "dutch_id env (da_description a) = i" by (rule auction_booksD(2) [OF books assms(2)])
  have "withdraw_execute env commit i 1 (commit b) s = Inr t"
    using t(1) assms(2,3) by (simp add: withdraw_execute_def get_dutch_auction_by_id_def ok_or_def ensure_def one)
  moreover have "end_execute env i t = Inr t"
    using W(3) id assms(3)
    by (simp add: end_execute_def get_dutch_auction_by_id_def ok_or_def ensure_def end_auction_def one)
  moreover have "(1 :: u64) < - 1" by (simp flip: word_order.not_eq_extremum)
  then have "withdraw_check_stateless 1 = Inr ()" by (simp add: withdraw_check_stateless_def ensure_def)
  ultimately show ?thesis using t(2) W(1,2) by (intro conjI exI [of _ b] exI [of _ t]) (simp_all add: W(3) id assms(3) one)
qed

theorem withdraw_opened_abandons_witness:
  "\<exists>b t. withdraw_execute demo_env demo_commit demo_auction_id 1 b demo_scheduled = Inr t
    \<and> end_execute demo_env demo_auction_id t = Inr t \<and> dutch_triggers t \<noteq> []"
proof -
  have "ds_sequence (da_state demo_auction) = 0" "dutch_triggers demo_scheduled \<noteq> []" by (simp_all add: demo_auction_def demo_scheduled_def)
  then show ?thesis using withdraw_opened_abandons [OF demo_reached demo_found] by metis
qed

end
