(* ===== verification/StakeRates.thy ===== *)
theory StakeRates
  imports TradingFunction
begin

text \<open>
  The exchange rates of the staking component (\<open>stake/src/rate.rs\<close>, \<open>penalty.rs\<close>, \<open>funding_stream.rs\<close>): the conversion
  between staking and delegation tokens, slashing penalties, the rates of the next epoch and the rewards of
  the funding streams. Rates are integers in units of \<open>10 ^ -8\<close>; the intermediate values are fixed-point numbers.
\<close>

type_synonym identity_key = "u8 list"

record rate_data =
  rd_identity :: identity_key
  rd_reward_rate :: amount
  rd_exchange_rate :: amount

record base_rate_data =
  br_epoch_index :: u64
  br_reward_rate :: amount
  br_exchange_rate :: amount

datatype validator_state = VDefined | VInactive | VActive | VJailed | VTombstoned | VDisabled

section \<open>Funding streams\<close>

text \<open>An address is its text form.\<close>

datatype funding_stream = ToAddress "u8 list" "16 word" | ToCommunityPool "16 word"

datatype funding_recipient = RecipientAddress "u8 list" | RecipientCommunityPool

fun rate_bps :: "funding_stream \<Rightarrow> 16 word" where
  "rate_bps (ToAddress _ r) = r"
| "rate_bps (ToCommunityPool r) = r"

fun recipient :: "funding_stream \<Rightarrow> funding_recipient" where
  "recipient (ToAddress a _) = RecipientAddress a"
| "recipient (ToCommunityPool _) = RecipientCommunityPool"

text \<open>The sum of the rates is taken in 16 bits.\<close>

definition funding_streams_try_from :: "funding_stream list \<Rightarrow> funding_stream list result" where
  "funding_streams_try_from fs =
     (if 8 < length fs then Inl (Bail ''validators can declare at most 8 funding streams'')
      else if sum_list (map rate_bps fs) > 10000 then Inl (Bail ''sum of funding rates exceeds 100% (10,000bps)'')
      else Inr fs)"

section \<open>Scaling\<close>

definition BPS_SQUARED_SCALING_FACTOR :: fixpoint where
  "BPS_SQUARED_SCALING_FACTOR = fp_from_u128 100000000"

definition descale :: "amount \<Rightarrow> fixpoint result" where
  "descale a = expect (fp_checked_div (fp_from_amount a) BPS_SQUARED_SCALING_FACTOR)"

definition truncated :: "fixpoint \<Rightarrow> amount result" where
  "truncated x = expect (fp_try_into_amount (fp_round_down x))"

definition rescale :: "fixpoint \<Rightarrow> amount result" where
  "rescale x = and_then (expect (fp_checked_mul x BPS_SQUARED_SCALING_FACTOR)) truncated"

section \<open>Penalties\<close>

text \<open>The rate that is kept.\<close>

datatype penalty = Penalty (kept_rate: fixpoint)

definition one_minus_this :: "penalty \<Rightarrow> penalty result" where
  "one_minus_this p = and_then (expect (fp_checked_sub (fp_from_u64 1) (kept_rate p))) (\<lambda>x. Inr (Penalty x))"

definition from_bps_squared :: "u64 \<Rightarrow> penalty result" where
  "from_bps_squared b =
     (if b \<le> 100000000
      then and_then (expect (fp_ratio (fp_from_u64 b) (fp_from_u64 100000000))) (\<lambda>x. one_minus_this (Penalty x))
      else Inl Panic)"

definition u64_saturating_mul :: "u64 \<Rightarrow> u64 \<Rightarrow> u64" where
  "u64_saturating_mul a b = (if unat a * unat b < 2 ^ 64 then a * b else - 1)"

definition penalty_from_bps :: "u64 \<Rightarrow> penalty result" where
  "penalty_from_bps b = from_bps_squared (u64_saturating_mul b 10000)"

definition penalty_from_percent :: "u64 \<Rightarrow> penalty result" where
  "penalty_from_percent p = penalty_from_bps (u64_saturating_mul p 100)"

definition penalty_compound :: "penalty \<Rightarrow> penalty \<Rightarrow> penalty result" where
  "penalty_compound p q = and_then (expect (fp_checked_mul (kept_rate p) (kept_rate q))) (\<lambda>x. Inr (Penalty x))"

definition penalty_apply_to_amount :: "penalty \<Rightarrow> amount \<Rightarrow> amount result" where
  "penalty_apply_to_amount p a = expect (apply_to_amount (kept_rate p) a)"

definition penalty_apply_to :: "penalty \<Rightarrow> fixpoint \<Rightarrow> fixpoint result" where
  "penalty_apply_to p x = expect (fp_checked_mul x (kept_rate p))"

definition balance_for_claim :: "asset_id \<Rightarrow> penalty \<Rightarrow> asset_id \<Rightarrow> amount \<Rightarrow> balance result" where
  "balance_for_claim um p unbonding_id unbonding_amount =
     and_then (balance_sub_value balance_zero \<lparr>v_amount = unbonding_amount, v_asset = unbonding_id\<rparr>) (\<lambda>b.
     and_then (penalty_apply_to_amount p unbonding_amount) (\<lambda>kept.
     balance_add_value b \<lparr>v_amount = kept, v_asset = um\<rparr>))"

section \<open>Rates\<close>

text \<open>The total commission is a sum of 64 bits.\<close>

definition commission_bps :: "funding_stream list \<Rightarrow> u64" where
  "commission_bps fs = foldl (\<lambda>total s. total + ucast (rate_bps s)) 0 fs"

definition rate_next_epoch :: "rate_data \<Rightarrow> base_rate_data \<Rightarrow> funding_stream list \<Rightarrow> validator_state \<Rightarrow> rate_data result" where
  "rate_next_epoch prev next_base streams vs =
     (if vs = VActive then
        (if commission_bps streams > 10000 then Inl Panic
         else and_then (expect (fp_checked_div (fp_from_u64 (commission_bps streams)) (fp_from_u128 10000))) (\<lambda>commission.
              and_then (descale (br_reward_rate next_base)) (\<lambda>base_reward.
              and_then (descale (rd_exchange_rate prev)) (\<lambda>prev_exchange.
              and_then (expect (fp_checked_sub (fp_from_u128 1) commission)) (\<lambda>commission_factor.
              and_then (expect (fp_checked_mul base_reward commission_factor)) (\<lambda>reward.
              and_then (expect (fp_checked_add (fp_from_u128 1) reward)) (\<lambda>growth.
              and_then (expect (fp_checked_mul prev_exchange growth)) (\<lambda>exchange.
              and_then (rescale reward) (\<lambda>reward_rate.
              and_then (rescale exchange) (\<lambda>exchange_rate.
              Inr \<lparr>rd_identity = rd_identity prev, rd_reward_rate = reward_rate, rd_exchange_rate = exchange_rate\<rparr>))))))))))
      else Inr \<lparr>rd_identity = rd_identity prev, rd_reward_rate = rd_reward_rate prev, rd_exchange_rate = rd_exchange_rate prev\<rparr>)"

definition delegation_amount :: "rate_data \<Rightarrow> amount \<Rightarrow> amount result" where
  "delegation_amount r unbonded =
     and_then (descale (rd_exchange_rate r)) (\<lambda>rate.
     if rate = fp_from_u128 0 then Inr 0
     else and_then (expect (fp_checked_div (fp_from_amount unbonded) rate)) truncated)"

definition rate_slash :: "rate_data \<Rightarrow> penalty \<Rightarrow> rate_data result" where
  "rate_slash r p =
     and_then (penalty_apply_to p (fp_from_amount (rd_exchange_rate r))) (\<lambda>x.
     and_then (truncated x) (\<lambda>rate. Inr (r\<lparr>rd_exchange_rate := rate\<rparr>)))"

definition unbonded_amount :: "rate_data \<Rightarrow> amount \<Rightarrow> amount result" where
  "unbonded_amount r delegation =
     and_then (descale (rd_exchange_rate r)) (\<lambda>rate.
     and_then (expect (fp_checked_mul (fp_from_amount delegation) rate)) truncated)"

definition voting_power :: "rate_data \<Rightarrow> amount \<Rightarrow> amount result" where
  "voting_power r pool_size =
     and_then (descale (rd_exchange_rate r)) (\<lambda>rate.
     and_then (expect (fp_checked_mul (fp_from_amount pool_size) rate)) truncated)"

definition base_rate_next_epoch :: "base_rate_data \<Rightarrow> amount \<Rightarrow> base_rate_data result" where
  "base_rate_next_epoch prev reward_rate =
     and_then (descale (br_exchange_rate prev)) (\<lambda>prev_exchange.
     and_then (descale reward_rate) (\<lambda>reward.
     and_then (expect (fp_checked_add (fp_from_u128 1) reward)) (\<lambda>growth.
     and_then (expect (fp_checked_mul prev_exchange growth)) (\<lambda>exchange.
     and_then (rescale exchange) (\<lambda>exchange_rate.
     Inr \<lparr>br_epoch_index = br_epoch_index prev + 1, br_reward_rate = reward_rate, br_exchange_rate = exchange_rate\<rparr>)))))"

definition reward_amount :: "funding_stream \<Rightarrow> amount \<Rightarrow> amount \<Rightarrow> amount \<Rightarrow> amount result" where
  "reward_amount s base_reward_rate exchange_rate total_delegation_tokens =
     and_then (expect (fp_checked_div (fp_from_u64 (ucast (rate_bps s))) (fp_from_u128 10000))) (\<lambda>commission.
     and_then (descale exchange_rate) (\<lambda>prev_exchange.
     and_then (descale base_reward_rate) (\<lambda>prev_reward.
     and_then (expect (fp_checked_mul (fp_from_amount total_delegation_tokens) prev_exchange)) (\<lambda>staking_tokens.
     and_then (expect (fp_checked_mul staking_tokens prev_reward)) (\<lambda>total_reward.
     and_then (expect (fp_checked_mul total_reward commission)) truncated)))))"

section \<open>Exact results\<close>

abbreviation "S128 \<equiv> 2 ^ 128 :: nat"
abbreviation "E8 \<equiv> 100000000 :: nat"

lemma raw_from_u128 [simp]: "unat (raw (fp_from_u128 v)) = unat v * 2 ^ 128"
  by (simp add: fp_from_u128_def)

lemma truncated_iff [result_simps]: "truncated x = Inr a \<longleftrightarrow> unat a = unat (raw x) div 2 ^ 128"
proof -
  obtain b where b: "fp_try_into_amount (fp_round_down x) = Inr b" "unat b = unat (raw x) div 2 ^ 128"
    using round_down_into_amount by blast
  then show ?thesis by (auto simp: truncated_def word_unat_eq_iff)
qed

lemma descale_iff [result_simps]: "descale a = Inr z \<longleftrightarrow> unat (raw z) = unat a * 2 ^ 128 div 100000000"
proof -
  have "unat a * 2 ^ 128 * 2 ^ 128 div (100000000 * 2 ^ 128) = unat a * 2 ^ 128 div 100000000"
    by (rule div_mult_mult2) simp
  then show ?thesis by (simp add: descale_def result_simps BPS_SQUARED_SCALING_FACTOR_def)
qed

definition descaled :: "amount \<Rightarrow> nat" where
  "descaled a = unat a * 2 ^ 128 div 100000000"

lemma descaled_less: "descaled a * 100000000 < 2 ^ 256" "descaled a * 100000000 \<le> unat a * 2 ^ 128"
proof -
  show "descaled a * 100000000 \<le> unat a * 2 ^ 128" unfolding descaled_def by simp
  moreover have "unat a * 2 ^ 128 < 2 ^ 128 * 2 ^ 128" using u128_less [of a] by simp
  ultimately show "descaled a * 100000000 < 2 ^ 256" by (simp flip: power_add)
qed

lemma descale_total: "\<exists>z. descale a = Inr z \<and> unat (raw z) = descaled a"
proof -
  have "descaled a \<le> descaled a * 100000000" by simp
  then have "descaled a < 2 ^ 256" using descaled_less(1) [of a] by (rule le_less_trans)
  then obtain z where "unat (raw z) = descaled a" using fp_ex by blast
  then show ?thesis by (auto simp: descale_iff descaled_def)
qed

lemma rescale_iff [result_simps]:
  "rescale x = Inr a \<longleftrightarrow> unat (raw x) * 100000000 < 2 ^ 256 \<and> unat a = unat (raw x) * 100000000 div 2 ^ 128"
proof -
  have e: "unat (raw x) * (100000000 * 2 ^ 128) div 2 ^ 128 = unat (raw x) * 100000000" by simp
  show ?thesis
  proof
    assume "rescale x = Inr a"
    then obtain y where y: "unat (raw y) = unat (raw x) * (100000000 * 2 ^ 128) div 2 ^ 128" "unat a = unat (raw y) div 2 ^ 128"
      by (auto simp: rescale_def result_simps BPS_SQUARED_SCALING_FACTOR_def)
    then show "unat (raw x) * 100000000 < 2 ^ 256 \<and> unat a = unat (raw x) * 100000000 div 2 ^ 128"
      using raw_less [of y] unfolding e by simp
  next
    assume *: "unat (raw x) * 100000000 < 2 ^ 256 \<and> unat a = unat (raw x) * 100000000 div 2 ^ 128"
    then obtain y where "unat (raw y) = unat (raw x) * 100000000" using fp_ex by blast
    with * e have "expect (fp_checked_mul x BPS_SQUARED_SCALING_FACTOR) = Inr y" "truncated y = Inr a"
      by (simp_all add: result_simps BPS_SQUARED_SCALING_FACTOR_def)
    then show "rescale x = Inr a" by (simp add: rescale_def)
  qed
qed

text \<open>The conversions are exact products and quotients by the descaled rate, rounded down.\<close>

definition rate_of :: "rate_data \<Rightarrow> nat" where
  "rate_of r = descaled (rd_exchange_rate r)"

lemma scaled_mul: "n * k * m div k = n * m" if "0 < k" for n k m :: nat
proof -
  have "n * k * m = (n * m) * k" by (simp only: ac_simps)
  then show ?thesis using that by simp
qed

lemma unbonded_amount_iff:
  "unbonded_amount r d = Inr u \<longleftrightarrow> unat d * rate_of r < 2 ^ 256 \<and> unat u = unat d * rate_of r div 2 ^ 128"
proof -
  obtain z where z: "descale (rd_exchange_rate r) = Inr z" "unat (raw z) = rate_of r"
    unfolding rate_of_def using descale_total by blast
  have e: "unat d * 2 ^ 128 * rate_of r div 2 ^ 128 = unat d * rate_of r" by (rule scaled_mul) simp
  have m: "fp_checked_mul (fp_from_amount d) z = Inr y \<longleftrightarrow> unat d * rate_of r = unat (raw y)" for y
    unfolding fp_checked_mul_iff raw_from_amount z(2) e ..
  show ?thesis
  proof
    assume "unbonded_amount r d = Inr u"
    then obtain y where "fp_checked_mul (fp_from_amount d) z = Inr y" "truncated y = Inr u"
      by (auto simp: unbonded_amount_def z(1) and_then_Inr_iff expect_Inr_iff)
    then show "unat d * rate_of r < 2 ^ 256 \<and> unat u = unat d * rate_of r div 2 ^ 128"
      unfolding m using raw_less [of y] by (simp add: truncated_iff)
  next
    assume *: "unat d * rate_of r < 2 ^ 256 \<and> unat u = unat d * rate_of r div 2 ^ 128"
    then obtain y where y: "unat (raw y) = unat d * rate_of r" using fp_ex by blast
    then have "fp_checked_mul (fp_from_amount d) z = Inr y" "truncated y = Inr u" using m * by (auto simp: truncated_iff)
    then show "unbonded_amount r d = Inr u" by (simp add: unbonded_amount_def z(1))
  qed
qed

lemma voting_power_eq: "voting_power r d = unbonded_amount r d"
  by (simp add: voting_power_def unbonded_amount_def)

lemma nested_div: "n * k div r div k = n div r" if "0 < k" for n k r :: nat
  by (metis div_mult2_eq div_mult_mult2 mult.commute nonzero_mult_div_cancel_right that less_numeral_extra(3))

lemma delegation_amount_iff:
  "delegation_amount r u = Inr d \<longleftrightarrow>
     (if rate_of r = 0 then d = 0
      else unat u * 2 ^ 128 * 2 ^ 128 div rate_of r < 2 ^ 256 \<and> unat d = unat u * 2 ^ 128 div rate_of r)"
proof -
  obtain z where z: "descale (rd_exchange_rate r) = Inr z" "unat (raw z) = rate_of r"
    unfolding rate_of_def using descale_total by blast
  have zero: "z = fp_from_u128 0 \<longleftrightarrow> rate_of r = 0" by (simp add: fixpoint_eq_iff z(2))
  show ?thesis
  proof (cases "rate_of r = 0")
    case True
    then show ?thesis using zero by (auto simp: delegation_amount_def z(1))
  next
    case False
    have m: "fp_checked_div (fp_from_amount u) z = Inr y \<longleftrightarrow> unat (raw y) = unat u * 2 ^ 128 * 2 ^ 128 div rate_of r" for y
      unfolding fp_checked_div_iff raw_from_amount z(2) using False by simp
    have n: "unat u * 2 ^ 128 * 2 ^ 128 div rate_of r div 2 ^ 128 = unat u * 2 ^ 128 div rate_of r"
      by (rule nested_div) simp
    have eq: "delegation_amount r u = and_then (expect (fp_checked_div (fp_from_amount u) z)) truncated"
      using False zero by (simp add: delegation_amount_def z(1))
    show ?thesis
    proof
      assume "delegation_amount r u = Inr d"
      then obtain y where "fp_checked_div (fp_from_amount u) z = Inr y" "truncated y = Inr d"
        unfolding eq by (auto simp: and_then_Inr_iff expect_Inr_iff)
      then show "if rate_of r = 0 then d = 0 else unat u * 2 ^ 128 * 2 ^ 128 div rate_of r < 2 ^ 256 \<and> unat d = unat u * 2 ^ 128 div rate_of r"
        unfolding m using raw_less [of y] False n by (simp add: truncated_iff)
    next
      assume "if rate_of r = 0 then d = 0 else unat u * 2 ^ 128 * 2 ^ 128 div rate_of r < 2 ^ 256 \<and> unat d = unat u * 2 ^ 128 div rate_of r"
      then have *: "unat u * 2 ^ 128 * 2 ^ 128 div rate_of r < 2 ^ 256" "unat d = unat u * 2 ^ 128 div rate_of r" using False by auto
      obtain y where y: "unat (raw y) = unat u * 2 ^ 128 * 2 ^ 128 div rate_of r" using fp_ex [OF *(1)] by blast
      then have "fp_checked_div (fp_from_amount u) z = Inr y" "truncated y = Inr d" using m * n by (auto simp: truncated_iff)
      then show "delegation_amount r u = Inr d" by (simp add: eq)
    qed
  qed
qed

section \<open>Penalties are rates\<close>

definition penalty_ok :: "penalty \<Rightarrow> bool" where
  "penalty_ok p \<longleftrightarrow> unat (raw (kept_rate p)) \<le> 2 ^ 128"

lemma from_bps_squared_iff:
  "from_bps_squared b = Inr p \<longleftrightarrow> unat b \<le> 100000000 \<and> unat (raw (kept_rate p)) + unat b * 2 ^ 128 div 100000000 = 2 ^ 128"
proof -
  have e: "unat b * 2 ^ 128 * 2 ^ 128 div (100000000 * 2 ^ 128) = unat b * 2 ^ 128 div 100000000"
    by (rule div_mult_mult2) simp
  have r: "fp_ratio (fp_from_u64 b) (fp_from_u64 100000000) = Inr z \<longleftrightarrow> unat (raw z) = unat b * 2 ^ 128 div 100000000" for z
    using e by (simp add: fp_ratio_def fp_checked_div_iff)
  have le: "b \<le> 100000000 \<longleftrightarrow> unat b \<le> 100000000" by (simp add: word_le_nat_alt)
  have one: "one_minus_this (Penalty z) = Inr p \<longleftrightarrow> 2 ^ 128 = unat (raw z) + unat (raw (kept_rate p))" for z
    by (cases p) (auto simp: one_minus_this_def result_simps)
  show ?thesis
  proof (cases "unat b \<le> 100000000")
    case True
    have "unat b * 2 ^ 128 div 100000000 \<le> 100000000 * 2 ^ 128 div 100000000" using True by (intro div_le_mono mult_le_mono1)
    then have "unat b * 2 ^ 128 div 100000000 < 2 ^ 256" by simp
    then obtain z where z: "unat (raw z) = unat b * 2 ^ 128 div 100000000" using fp_ex by blast
    then have "fp_ratio (fp_from_u64 b) (fp_from_u64 100000000) = Inr z" by (simp add: r)
    then have "from_bps_squared b = one_minus_this (Penalty z)" using True le by (simp add: from_bps_squared_def)
    then have "from_bps_squared b = Inr p \<longleftrightarrow> 2 ^ 128 = unat b * 2 ^ 128 div 100000000 + unat (raw (kept_rate p))"
      by (simp only: one z)
    then show ?thesis using True by (simp only: add.commute [of "unat (raw (kept_rate p))"] eq_commute [of "2 ^ 128"] simp_thms)
  qed (simp add: from_bps_squared_def le)
qed

lemma from_bps_squared_total: "unat b \<le> 100000000 \<Longrightarrow> \<exists>p. from_bps_squared b = Inr p \<and> penalty_ok p"
proof -
  assume b: "unat b \<le> 100000000"
  have "unat b * 2 ^ 128 div 100000000 \<le> 100000000 * 2 ^ 128 div 100000000" using b by (intro div_le_mono mult_le_mono1)
  then have le: "unat b * 2 ^ 128 div 100000000 \<le> 2 ^ 128" by simp
  have "2 ^ 128 - unat b * 2 ^ 128 div 100000000 < 2 ^ 256" by (rule le_less_trans [of _ "2 ^ 128"]) simp_all
  then obtain z where "unat (raw z) = 2 ^ 128 - unat b * 2 ^ 128 div 100000000" using fp_ex by blast
  then have "from_bps_squared b = Inr (Penalty z)" "penalty_ok (Penalty z)"
    using b le by (simp_all add: from_bps_squared_iff penalty_ok_def)
  then show ?thesis by blast
qed

definition no_penalty :: penalty where
  "no_penalty = Penalty (fp_from_u64 1)"

lemma no_penalty: "penalty_from_percent 0 = Inr no_penalty" "penalty_ok no_penalty" "unat (raw (kept_rate no_penalty)) = 2 ^ 128"
proof -
  show "penalty_from_percent 0 = Inr no_penalty"
    by (simp add: penalty_from_percent_def penalty_from_bps_def u64_saturating_mul_def from_bps_squared_iff no_penalty_def)
qed (simp_all add: no_penalty_def penalty_ok_def)

lemma compound_total:
  assumes "penalty_ok p" "penalty_ok q"
  shows "\<exists>c. penalty_compound p q = Inr c \<and> penalty_ok c
    \<and> unat (raw (kept_rate c)) = unat (raw (kept_rate p)) * unat (raw (kept_rate q)) div 2 ^ 128"
proof -
  let ?n = "unat (raw (kept_rate p)) * unat (raw (kept_rate q)) div 2 ^ 128"
  have "unat (raw (kept_rate p)) * unat (raw (kept_rate q)) \<le> 2 ^ 128 * 2 ^ 128"
    using assms unfolding penalty_ok_def by (rule mult_le_mono)
  then have "?n \<le> 2 ^ 128 * 2 ^ 128 div 2 ^ 128" by (rule div_le_mono)
  then have le: "?n \<le> 2 ^ 128" by simp
  then have "?n < 2 ^ 256" by (rule le_less_trans) simp
  then obtain z where "unat (raw z) = ?n" using fp_ex by blast
  then have "penalty_compound p q = Inr (Penalty z)" "penalty_ok (Penalty z)" "unat (raw (kept_rate (Penalty z))) = ?n"
    using le by (simp_all add: penalty_compound_def result_simps penalty_ok_def)
  then show ?thesis by blast
qed

lemma apply_total:
  assumes "penalty_ok p"
  shows "\<exists>k. penalty_apply_to_amount p a = Inr k \<and> unat k = unat a * unat (raw (kept_rate p)) div 2 ^ 128 \<and> unat k \<le> unat a"
proof -
  let ?n = "unat a * unat (raw (kept_rate p))"
  have le: "?n \<le> unat a * 2 ^ 128" using assms by (simp add: penalty_ok_def)
  also have "\<dots> < 2 ^ 128 * 2 ^ 128" using u128_less [of a] by simp
  finally have lt: "?n < 2 ^ 256" by (simp flip: power_add)
  have "?n div 2 ^ 128 \<le> unat a * 2 ^ 128 div 2 ^ 128" using le by (rule div_le_mono)
  then have k: "?n div 2 ^ 128 \<le> unat a" by simp
  then have "?n div 2 ^ 128 < 2 ^ 128" using u128_less [of a] by (rule le_less_trans)
  then have "unat (of_nat (?n div 2 ^ 128) :: amount) = ?n div 2 ^ 128" by (simp add: unat_of_nat_small)
  then obtain b :: amount where "unat b = ?n div 2 ^ 128" by blast
  then show ?thesis using lt k by (intro exI [of _ b]) (simp add: penalty_apply_to_amount_def result_simps)
qed

lemma rate_slash_total:
  assumes "penalty_ok p"
  shows "\<exists>t. rate_slash r p = Inr t \<and> rd_identity t = rd_identity r \<and> rd_reward_rate t = rd_reward_rate r
    \<and> unat (rd_exchange_rate t) = unat (rd_exchange_rate r) * unat (raw (kept_rate p)) div 2 ^ 128
    \<and> unat (rd_exchange_rate t) \<le> unat (rd_exchange_rate r)"
proof -
  obtain k where k: "penalty_apply_to_amount p (rd_exchange_rate r) = Inr k" "unat k \<le> unat (rd_exchange_rate r)"
    "unat k = unat (rd_exchange_rate r) * unat (raw (kept_rate p)) div 2 ^ 128"
    using apply_total [OF assms] by blast
  have eq: "rate_slash r p = and_then (expect (apply_to_amount (kept_rate p) (rd_exchange_rate r))) (\<lambda>rate. Inr (r\<lparr>rd_exchange_rate := rate\<rparr>))"
    by (cases "fp_checked_mul (fp_from_amount (rd_exchange_rate r)) (kept_rate p)")
      (simp_all add: rate_slash_def penalty_apply_to_def apply_to_amount_def truncated_def expect_def split: sum.split)
  then have "rate_slash r p = Inr (r\<lparr>rd_exchange_rate := k\<rparr>)" using k(1) by (simp add: penalty_apply_to_amount_def)
  then show ?thesis using k(2,3) by simp
qed

section \<open>The rates of the next epoch\<close>

definition commission_of :: "funding_stream list \<Rightarrow> nat" where
  "commission_of fs = unat (commission_bps fs) * 2 ^ 128 div 10000"

definition reward_of :: "base_rate_data \<Rightarrow> funding_stream list \<Rightarrow> nat" where
  "reward_of b fs = descaled (br_reward_rate b) * (2 ^ 128 - commission_of fs) div 2 ^ 128"

definition next_rate_of :: "rate_data \<Rightarrow> base_rate_data \<Rightarrow> funding_stream list \<Rightarrow> nat" where
  "next_rate_of r b fs = rate_of r * (2 ^ 128 + reward_of b fs) div 2 ^ 128"

lemma reward_of_le: "reward_of b fs \<le> descaled (br_reward_rate b)"
proof -
  have "descaled (br_reward_rate b) * (2 ^ 128 - commission_of fs) \<le> descaled (br_reward_rate b) * 2 ^ 128" by simp
  then have "reward_of b fs \<le> descaled (br_reward_rate b) * 2 ^ 128 div 2 ^ 128" unfolding reward_of_def by (rule div_le_mono)
  then show ?thesis by simp
qed

lemma next_rate_bound:
  assumes "unat (br_reward_rate b) \<le> 100000000"
  shows "reward_of b fs \<le> 2 ^ 128" "next_rate_of r b fs \<le> 2 * rate_of r" "rate_of r \<le> next_rate_of r b fs"
proof -
  have "descaled (br_reward_rate b) \<le> 100000000 * 2 ^ 128 div 100000000"
    unfolding descaled_def using assms by (intro div_le_mono mult_le_mono1)
  then show r: "reward_of b fs \<le> 2 ^ 128" using reward_of_le [of b fs] by simp
  have "rate_of r * (2 ^ 128 + reward_of b fs) \<le> rate_of r * (2 * 2 ^ 128)" using r by (intro mult_le_mono2) simp
  then have "next_rate_of r b fs \<le> rate_of r * (2 * 2 ^ 128) div 2 ^ 128" unfolding next_rate_of_def by (rule div_le_mono)
  then show "next_rate_of r b fs \<le> 2 * rate_of r" by simp
  have "rate_of r * 2 ^ 128 div 2 ^ 128 \<le> next_rate_of r b fs"
    unfolding next_rate_of_def by (intro div_le_mono mult_le_mono2) simp
  then show "rate_of r \<le> next_rate_of r b fs" by simp
qed

lemma fp_mul_total: "unat (raw x) * unat (raw y) div 2 ^ 128 < 2 ^ 256 \<Longrightarrow>
    \<exists>z. fp_checked_mul x y = Inr z \<and> unat (raw z) = unat (raw x) * unat (raw y) div 2 ^ 128"
  using fp_ex [of "unat (raw x) * unat (raw y) div 2 ^ 128"] unfolding fp_checked_mul_iff by metis

lemma rescale_total: "unat (raw x) * 100000000 < 2 ^ 256 \<Longrightarrow>
    \<exists>a. rescale x = Inr a \<and> unat a = unat (raw x) * 100000000 div 2 ^ 128"
proof -
  assume lt: "unat (raw x) * 100000000 < 2 ^ 256"
  then have "unat (raw x) * 100000000 div 2 ^ 128 < 2 ^ 128" by (simp add: less_mult_imp_div_less)
  then have "unat (of_nat (unat (raw x) * 100000000 div 2 ^ 128) :: amount) = unat (raw x) * 100000000 div 2 ^ 128"
    by (simp add: unat_of_nat_small)
  with lt show ?thesis unfolding rescale_iff by blast
qed

lemma rate_next_epoch_exact:
  assumes bps: "unat (commission_bps fs) \<le> 10000" and reward: "unat (br_reward_rate b) \<le> 100000000"
    and rate: "unat (rd_exchange_rate r) < 2 ^ 127"
  shows "\<exists>n. rate_next_epoch r b fs VActive = Inr n \<and> rd_identity n = rd_identity r
    \<and> unat (rd_reward_rate n) = reward_of b fs * 100000000 div 2 ^ 128
    \<and> unat (rd_exchange_rate n) = next_rate_of r b fs * 100000000 div 2 ^ 128"
proof -
  note bound = next_rate_bound [OF reward]
  have le: "commission_bps fs \<le> 10000" using bps by (simp add: word_le_nat_alt)
  have c: "commission_of fs \<le> 2 ^ 128"
  proof -
    have "commission_of fs \<le> 10000 * 2 ^ 128 div 10000" unfolding commission_of_def using bps by (intro div_le_mono mult_le_mono1)
    then show ?thesis by simp
  qed
  have cd: "unat (commission_bps fs) * 2 ^ 128 * 2 ^ 128 div (10000 * 2 ^ 128) = commission_of fs"
    unfolding commission_of_def by (rule div_mult_mult2) simp
  have "commission_of fs < 2 ^ 256" using c by (rule le_less_trans) simp
  then obtain z1 where z1: "unat (raw z1) = commission_of fs" using fp_ex by blast
  have k1: "fp_checked_div (fp_from_u64 (commission_bps fs)) (fp_from_u128 10000) = Inr z1"
    using cd z1 by (simp add: fp_checked_div_iff)
  obtain z2 z3 where z2: "descale (br_reward_rate b) = Inr z2" "unat (raw z2) = descaled (br_reward_rate b)"
    and z3: "descale (rd_exchange_rate r) = Inr z3" "unat (raw z3) = rate_of r" using descale_total unfolding rate_of_def by blast
  have "2 ^ 128 - commission_of fs < 2 ^ 256" by (rule le_less_trans [of _ "2 ^ 128"]) simp_all
  then obtain z4 where z4: "unat (raw z4) = 2 ^ 128 - commission_of fs" using fp_ex by blast
  have k4: "fp_checked_sub (fp_from_u128 1) z1 = Inr z4" using c by (simp add: fp_checked_sub_iff z1 z4)
  have "unat (raw z2) * unat (raw z4) div 2 ^ 128 = reward_of b fs" by (simp only: z2 z4 reward_of_def)
  moreover have "reward_of b fs < 2 ^ 256" using bound(1) [of fs] by (rule le_less_trans) simp
  ultimately obtain z5 where z5: "fp_checked_mul z2 z4 = Inr z5" "unat (raw z5) = reward_of b fs" using fp_mul_total [of z2 z4] by auto
  have "2 ^ 128 + reward_of b fs < 2 ^ 256" by (rule le_less_trans [of _ "2 ^ 128 + 2 ^ 128"]) (use bound(1) [of fs] in simp_all)
  then obtain z6 where z6: "unat (raw z6) = 2 ^ 128 + reward_of b fs" using fp_ex by blast
  have k6: "fp_checked_add (fp_from_u128 1) z5 = Inr z6" by (simp add: fp_checked_add_iff z5 z6)
  have small: "next_rate_of r b fs * 100000000 < 2 ^ 256"
  proof -
    have "next_rate_of r b fs * 100000000 \<le> 2 * (rate_of r * 100000000)" using bound(2) [of r fs] by simp
    also have "\<dots> \<le> 2 * (unat (rd_exchange_rate r) * 2 ^ 128)" using descaled_less(2) [of "rd_exchange_rate r"] by (simp add: rate_of_def)
    also have "\<dots> < 2 ^ 256" using rate by simp
    finally show ?thesis .
  qed
  have "unat (raw z3) * unat (raw z6) div 2 ^ 128 = next_rate_of r b fs" by (simp only: z3 z6 next_rate_of_def)
  moreover have "next_rate_of r b fs < 2 ^ 256" using small by simp
  ultimately obtain z7 where z7: "fp_checked_mul z3 z6 = Inr z7" "unat (raw z7) = next_rate_of r b fs" using fp_mul_total [of z3 z6] by auto
  obtain x where x: "rescale z7 = Inr x" "unat x = next_rate_of r b fs * 100000000 div 2 ^ 128"
    using rescale_total [of z7] small by (auto simp: z7(2))
  have "unat (raw z5) * 100000000 < 2 ^ 256"
    by (rule le_less_trans [of _ "2 ^ 128 * 100000000"]) (use bound(1) [of fs] in \<open>simp_all add: z5(2)\<close>)
  then obtain y where y: "rescale z5 = Inr y" "unat y = reward_of b fs * 100000000 div 2 ^ 128"
    using rescale_total [of z5] by (auto simp: z5(2))
  have "rate_next_epoch r b fs VActive = Inr \<lparr>rd_identity = rd_identity r, rd_reward_rate = y, rd_exchange_rate = x\<rparr>"
    using le by (simp add: rate_next_epoch_def not_less [symmetric] k1 z2 z3 k4 z5 k6 z7 x y)
  then show ?thesis using x(2) y(2) by simp
qed

lemma next_rate_between:
  assumes "unat (br_reward_rate b) \<le> 100000000" "unat x = next_rate_of r b fs * 100000000 div 2 ^ 128"
  shows "unat x * 100000000 \<le> unat (rd_exchange_rate r) * (100000000 + unat (br_reward_rate b))" "unat (rd_exchange_rate r) \<le> unat x + 1"
proof -
  let ?S = "2 ^ 128 :: nat" and ?E = "100000000 :: nat" and ?e = "unat (rd_exchange_rate r)" and ?n = "next_rate_of r b fs"
  have pe: "rate_of r * ?E \<le> ?e * ?S" unfolding rate_of_def by (rule descaled_less(2))
  have rw: "reward_of b fs * ?E \<le> unat (br_reward_rate b) * ?S"
    using mult_le_mono1 [OF reward_of_le [of b fs], of ?E] descaled_less(2) [of "br_reward_rate b"] by linarith
  have "unat x * ?S \<le> ?n * ?E" unfolding assms(2) by simp
  then have "unat x * ?S * ?S \<le> ?n * ?E * ?S" by (rule mult_le_mono1)
  also have "\<dots> = ?n * ?S * ?E" by (simp only: ac_simps)
  also have "\<dots> \<le> rate_of r * (?S + reward_of b fs) * ?E" unfolding next_rate_of_def by (intro mult_le_mono1) simp
  also have "\<dots> = rate_of r * ?E * (?S + reward_of b fs)" by (simp only: ac_simps)
  also have "\<dots> \<le> ?e * ?S * (?S + reward_of b fs)" using pe by (rule mult_le_mono1)
  finally have "unat x * ?S * ?S \<le> ?e * (?S + reward_of b fs) * ?S" by (simp only: ac_simps)
  then have "unat x * ?S \<le> ?e * (?S + reward_of b fs)" by simp
  then have "unat x * ?S * ?E \<le> ?e * (?S + reward_of b fs) * ?E" by (rule mult_le_mono1)
  also have "\<dots> = ?e * (?S * ?E + reward_of b fs * ?E)" by (simp only: distrib_left distrib_right ac_simps)
  also have "\<dots> \<le> ?e * (?S * ?E + unat (br_reward_rate b) * ?S)" using rw by simp
  also have "\<dots> = ?e * (?E + unat (br_reward_rate b)) * ?S" by (simp only: distrib_left distrib_right ac_simps)
  finally have "unat x * ?E * ?S \<le> ?e * (?E + unat (br_reward_rate b)) * ?S" by (simp only: ac_simps)
  then show "unat x * ?E \<le> ?e * (?E + unat (br_reward_rate b))" by simp
  have "?e * ?S < rate_of r * ?E + ?E"
    unfolding rate_of_def descaled_def using dividend_less_div_times [of ?E "?e * ?S"] by (simp add: add.commute)
  also have "\<dots> \<le> ?n * ?E + ?S" using next_rate_bound(3) [OF assms(1), of r fs] by simp
  also have "?n * ?E < unat x * ?S + ?S" unfolding assms(2) using dividend_less_div_times [of ?S "?n * ?E"] by simp
  finally have "?e * ?S < (unat x + 2) * ?S" by simp
  then show "?e \<le> unat x + 1" by simp
qed

lemma delegation_roundtrip:
  assumes "delegation_amount r x = Inr d"
  shows "\<exists>y. unbonded_amount r d = Inr y \<and> unat y \<le> unat x \<and> (rate_of r \<noteq> 0 \<longrightarrow> unat x \<le> unat y + rate_of r div 2 ^ 128 + 1)"
proof (cases "rate_of r = 0")
  case True
  then have "unbonded_amount r d = Inr 0" by (simp add: unbonded_amount_iff)
  then show ?thesis using True by simp
next
  case False
  let ?S = "2 ^ 128 :: nat" and ?R = "rate_of r"
  have d: "unat d = unat x * ?S div ?R" using assms False by (simp add: delegation_amount_iff)
  have le: "unat d * ?R \<le> unat x * ?S" unfolding d by simp
  also have "\<dots> < ?S * ?S" using u128_less [of x] by simp
  finally have lt: "unat d * ?R < 2 ^ 256" by (simp flip: power_add)
  have "unat d * ?R div ?S \<le> unat x * ?S div ?S" using le by (rule div_le_mono)
  then have ux: "unat d * ?R div ?S \<le> unat x" by simp
  then have "unat d * ?R div ?S < 2 ^ 128" using u128_less [of x] by (rule le_less_trans)
  then have "unat (of_nat (unat d * ?R div ?S) :: amount) = unat d * ?R div ?S" by (simp add: unat_of_nat_small)
  then obtain y :: amount where y: "unat y = unat d * ?R div ?S" by blast
  have "unat x * ?S < unat d * ?R + ?R" unfolding d using dividend_less_div_times [of ?R "unat x * ?S"] False by (simp add: add.commute)
  moreover have "unat d * ?R < unat y * ?S + ?S" unfolding y using dividend_less_div_times [of ?S "unat d * ?R"] by simp
  moreover have "?R < ?R div ?S * ?S + ?S" using dividend_less_div_times [of ?S ?R] by simp
  ultimately have "unat x * ?S < (unat y + ?R div ?S + 2) * ?S" by (simp add: algebra_simps)
  then have "unat x \<le> unat y + ?R div ?S + 1" by simp
  moreover have "unbonded_amount r d = Inr y" using lt y by (simp add: unbonded_amount_iff)
  ultimately show ?thesis using ux y by auto
qed

end
