(* ===== verification/Uptime.thy ===== *)
theory Uptime
  imports StakeRates
begin

text \<open>
  The uptime tracker of a validator (\<open>stake/src/uptime.rs\<close>): a bit per block in a ring buffer over the last blocks,
  with its packing into bytes, and the proof that it refines a queue of the last recorded blocks of bounded length.
\<close>

section \<open>The ring buffer\<close>

record uptime =
  as_of_block_height :: u64
  signatures :: "bool list"

definition uptime_new :: "u64 \<Rightarrow> nat \<Rightarrow> uptime" where
  "uptime_new initial_block_height window_len = \<lparr>as_of_block_height = initial_block_height, signatures = replicate window_len True\<rparr>"

text \<open>The remainder by the length panics on an empty window.\<close>

definition mark_height_as_signed :: "u64 \<Rightarrow> bool \<Rightarrow> uptime \<Rightarrow> uptime result" where
  "mark_height_as_signed height did_sign u =
     (if height \<noteq> as_of_block_height u + 1 then Inl (Bail ''unexpected block height'')
      else if signatures u = [] then Inl Panic
      else Inr \<lparr>as_of_block_height = height, signatures = (signatures u)[unat height mod length (signatures u) := did_sign]\<rparr>)"

definition num_missed_blocks :: "uptime \<Rightarrow> nat" where
  "num_missed_blocks u = length (filter Not (signatures u))"

definition missed_blocks :: "uptime \<Rightarrow> nat list result" where
  "missed_blocks u =
     (let current_height = unat (as_of_block_height u); window_len = length (signatures u);
          earliest_height = current_height - unat (of_nat window_len - 1 :: u64)
      in if window_len = 0 then Inl Panic
         else Inr (filter (\<lambda>h. \<not> signatures u ! (h mod window_len)) [earliest_height..<current_height + 1]))"

definition missed_blocks_window :: "uptime \<Rightarrow> nat" where
  "missed_blocks_window u = length (signatures u)"

section \<open>Encoding\<close>

text \<open>Bits are packed into bytes from the least significant one; the unused bits of the last byte are set.\<close>

fun bits_to_byte :: "bool list \<Rightarrow> u8" where
  "bits_to_byte [] = 0"
| "bits_to_byte (b # bs) = (if b then 1 else 0) + 2 * bits_to_byte bs"

function pack_bits :: "bool list \<Rightarrow> u8 list" where
  "pack_bits bs = (if bs = [] then [] else bits_to_byte (take 8 (bs @ replicate 7 True)) # pack_bits (drop 8 bs))"
  by auto
termination by (relation "measure length") auto

declare pack_bits.simps [simp del]

definition byte_bits :: "u8 \<Rightarrow> bool list" where
  "byte_bits w = map (bit w) [0..<8]"

record pb_uptime =
  pbu_as_of_block_height :: u64
  pbu_window_len :: u32
  pbu_bitvec :: "u8 list"

definition uptime_to_proto :: "uptime \<Rightarrow> pb_uptime" where
  "uptime_to_proto u = \<lparr>pbu_as_of_block_height = as_of_block_height u, pbu_window_len = of_nat (length (signatures u)),
     pbu_bitvec = pack_bits (signatures u)\<rparr>"

definition uptime_from_proto :: "pb_uptime \<Rightarrow> uptime result" where
  "uptime_from_proto m =
     (let bits = concat (map byte_bits (pbu_bitvec m)) in
      if length bits < unat (pbu_window_len m) then Inl (Bail ''not enough data in bitvec buffer'')
      else Inr \<lparr>as_of_block_height = pbu_as_of_block_height m, signatures = take (unat (pbu_window_len m)) bits\<rparr>)"

lemma byte_bits_of_bits: "length bs = 8 \<Longrightarrow> byte_bits (bits_to_byte bs) = bs"
proof -
  assume "length bs = 8"
  then obtain a b c d e f g h where bs: "bs = [a, b, c, d, e, f, g, h]"
    by (auto simp: length_Suc_conv eval_nat_numeral)
  have up: "[0..<8] = [0, 1, 2, 3, 4, 5, 6, 7 :: nat]" by (simp add: upt_conv_Cons)
  show ?thesis unfolding bs byte_bits_def up
    by (cases a; cases b; cases c; cases d; cases e; cases f; cases g; cases h; simp add: bit_numeral_rec)
qed

lemma unpack_pack: "take (length bs) (concat (map byte_bits (pack_bits bs))) = bs \<and> length bs \<le> length (concat (map byte_bits (pack_bits bs)))"
proof (induction bs rule: pack_bits.induct)
  case (1 bs)
  show ?case
  proof (cases "bs = []")
    case False
    define t where "t = take 8 (bs @ replicate 7 True)"
    have len: "length t = 8" using False by (cases bs) (simp_all add: t_def min_def)
    have eq: "concat (map byte_bits (pack_bits bs)) = t @ concat (map byte_bits (pack_bits (drop 8 bs)))"
      using False byte_bits_of_bits [OF len] by (subst pack_bits.simps) (simp add: t_def)
    note IH = "1.IH" [OF False]
    have "take (length bs) t = take 8 bs" by (cases "length bs \<le> 8") (simp_all add: t_def min_def)
    moreover have "take (length bs - 8) (concat (map byte_bits (pack_bits (drop 8 bs)))) = drop 8 bs" using IH by simp
    ultimately have "take (length bs) (concat (map byte_bits (pack_bits bs))) = take 8 bs @ drop 8 bs"
      unfolding eq take_append len by simp
    moreover have "length bs \<le> 8 + length (concat (map byte_bits (pack_bits (drop 8 bs))))"
      using conjunct2 [OF IH] unfolding length_drop by linarith
    ultimately show ?thesis unfolding eq length_append len by simp
  qed simp
qed

lemma uptime_proto_roundtrip:
  assumes "length (signatures u) < 2 ^ 32"
  shows "uptime_from_proto (uptime_to_proto u) = Inr u"
proof -
  have "unat (of_nat (length (signatures u)) :: u32) = length (signatures u)" using assms by (simp add: unat_of_nat_small)
  then show ?thesis using unpack_pack [of "signatures u"]
    by (simp add: uptime_from_proto_def uptime_to_proto_def Let_def)
qed

section \<open>A queue of bounded length\<close>

definition push_block :: "nat \<Rightarrow> nat \<times> bool \<Rightarrow> (nat \<times> bool) list \<Rightarrow> (nat \<times> bool) list" where
  "push_block n x q = (if length q < n then q @ [x] else tl q @ [x])"

text \<open>The buffer holds the recorded blocks of the queue, which end at the current height, and nothing else was missed.\<close>

definition holds_queue :: "nat \<Rightarrow> uptime \<Rightarrow> (nat \<times> bool) list \<Rightarrow> bool" where
  "holds_queue n u q \<longleftrightarrow> length (signatures u) = n \<and> 0 < n \<and> length q \<le> n \<and> length q \<le> unat (as_of_block_height u)
     \<and> map fst q = [unat (as_of_block_height u) + 1 - length q..<unat (as_of_block_height u) + 1]
     \<and> (\<forall>i<n. signatures u ! i = (\<forall>(h, b) \<in> set q. h mod n = i \<longrightarrow> b))"

lemma holds_new: "0 < n \<Longrightarrow> holds_queue n (uptime_new h n) []"
  by (simp add: holds_queue_def uptime_new_def)

lemma window_inj: "inj_on (\<lambda>h. h mod n) {k..<k + n}" for n k :: nat
proof (rule inj_onI)
  fix x y
  assume xy: "x \<in> {k..<k + n}" "y \<in> {k..<k + n}" "x mod n = y mod n"
  have *: "x = y" if "x \<le> y" "y < x + n" "x mod n = y mod n" for x y
  proof -
    have "n dvd y - x" using that by (metis mod_eq_dvd_iff_nat)
    moreover have "y - x < n" using that(1,2) by linarith
    ultimately have "y - x = 0" using dvd_imp_le by fastforce
    then show ?thesis using that(1) by simp
  qed
  have "y < x + n" "x < y + n" using xy(1,2) by auto
  with * [of x y] * [of y x] xy(3) show "x = y" by (metis nat_le_linear)
qed

lemma holds_mark:
  assumes q: "holds_queue n u q" and h: "unat h = unat (as_of_block_height u) + 1"
  shows "\<exists>v. mark_height_as_signed h b u = Inr v \<and> holds_queue n v (push_block n (unat h, b) q)"
proof -
  let ?c = "unat (as_of_block_height u)"
  note Q = q [unfolded holds_queue_def]
  have eq: "h = as_of_block_height u + 1"
    using h unsigned_less [of h, where ?'a = nat] by (simp add: word_unat_eq_iff unat_add_no_overflow)
  have ne: "signatures u \<noteq> []" using Q by auto
  let ?v = "\<lparr>as_of_block_height = h, signatures = (signatures u)[unat h mod n := b]\<rparr>"
  let ?r = "push_block n (unat h, b) q"
  have run: "mark_height_as_signed h b u = Inr ?v" using eq ne Q by (simp add: mark_height_as_signed_def)
  let ?old = "if length q < n then q else tl q"
  have r: "?r = ?old @ [(unat h, b)]" by (simp add: push_block_def)
  have fq: "map fst q = [?c + 1 - length q..<?c + 1]" using Q by blast
  have fo: "map fst ?old = [?c + 1 - length ?old..<?c + 1]" using fq Q by (auto simp: map_tl tl_upt Suc_diff_le simp del: upt_Suc)
  have len: "length ?r \<le> n" "length ?r = length ?old + 1" "length ?old \<le> ?c" using Q by (auto simp: r)
  have keys: "map fst ?r = [unat h + 1 - length ?r..<unat h + 1]"
    unfolding r using fo len(2,3) by (simp add: r h Suc_diff_le)
  have range: "fst ` set ?r \<subseteq> {unat h + 1 - n..<unat h + 1 - n + n}"
  proof -
    have "fst ` set ?r = {unat h + 1 - length ?r..<unat h + 1}" using arg_cong [OF keys, of set] unfolding list.set_map set_upt .
    then show ?thesis using len(1) by auto
  qed
  have distinct: "x = y" if "x \<in> fst ` set ?r" "y \<in> fst ` set ?r" "x mod n = y mod n" for x y
    using inj_onD [OF window_inj that(3)] that(1,2) range by blast
  have sig: "signatures ?v ! i = (\<forall>(k, s) \<in> set ?r. k mod n = i \<longrightarrow> s)" if i: "i < n" for i
  proof (cases "i = unat h mod n")
    case True
    have "s = b" if "(k, s) \<in> set ?old" "k mod n = i" for k s
    proof -
      have "k \<in> fst ` set ?r" "unat h \<in> fst ` set ?r" using that(1) unfolding r by force+
      then have "k = unat h" using that(2) True distinct by blast
      moreover have "k < unat h" using that(1) fo h by (metis (no_types, lifting) atLeastLessThan_iff fst_conv image_eqI list.set_map set_upt Suc_eq_plus1)
      ultimately show ?thesis by simp
    qed
    then show ?thesis using True Q by (auto simp: r)
  next
    case False
    have lost: "k mod n \<noteq> i" if "(k, s) \<in> set q" "(k, s) \<notin> set ?old" for k s
    proof -
      have full: "length q = n" "?old = tl q" using that Q by (auto split: if_splits)
      then obtain x where x: "q = x # tl q" using Q by (cases q) auto
      have "(k, s) = x" using x that full(2) by (metis set_ConsD)
      have "map fst q = fst x # map fst (tl q)" using x by (metis list.simps(9))
      then have "fst x = ?c + 1 - n" using fq full(1) by (simp add: upt_eq_Cons_conv del: upt_Suc)
      moreover have "n \<le> ?c" using Q full(1) by simp
      ultimately have "unat h = k + n" using \<open>(k, s) = x\<close> h by auto
      then show ?thesis using False by (metis mod_add_self2)
    qed
    have "signatures ?v ! i = (\<forall>(k, s) \<in> set q. k mod n = i \<longrightarrow> s)" using False Q i by simp
    also have "\<dots> = (\<forall>(k, s) \<in> set ?old. k mod n = i \<longrightarrow> s)"
    proof -
      have "set ?old \<subseteq> set q" by (auto dest: list.set_sel(2) split: if_splits) (metis list.sel(2) list.set_sel(2))
      then show ?thesis using lost by blast
    qed
    also have "\<dots> = (\<forall>(k, s) \<in> set ?r. k mod n = i \<longrightarrow> s)" using False by (auto simp: r)
    finally show ?thesis .
  qed
  have v: "length (signatures ?v) = n" "unat (as_of_block_height ?v) = unat h" using Q by simp_all
  have "length ?r \<le> unat h" using len h by linarith
  then have "holds_queue n ?v ?r"
    unfolding holds_queue_def v(2) using v(1) Q len(1) keys sig by blast
  then show ?thesis using run by blast
qed

text \<open>The counters read the queue.\<close>

lemma queue_slot:
  assumes q: "holds_queue n u q" and k: "(k, b) \<in> set q"
  shows "signatures u ! (k mod n) = b"
proof -
  note Q = q [unfolded holds_queue_def]
  have keys: "fst ` set q = {unat (as_of_block_height u) + 1 - length q..<unat (as_of_block_height u) + 1}"
    using Q by (metis list.set_map set_upt)
  have sub: "fst ` set q \<subseteq> {unat (as_of_block_height u) + 1 - n..<unat (as_of_block_height u) + 1 - n + n}"
    unfolding keys using Q by auto
  have dist: "distinct (map fst q)" using Q by (metis distinct_upt)
  have same: "s = b" if "(j, s) \<in> set q" "j mod n = k mod n" for j s
  proof -
    have "j \<in> fst ` set q" "k \<in> fst ` set q" using that(1) k by force+
    then have "j = k" using inj_onD [OF window_inj that(2)] sub by blast
    then show ?thesis using dist that(1) k by (metis eq_key_imp_eq_value)
  qed
  have "k mod n < n" using Q by simp
  then have "signatures u ! (k mod n) = (\<forall>(h, s) \<in> set q. h mod n = k mod n \<longrightarrow> s)" using Q by blast
  then show ?thesis using same k by blast
qed

lemma missed_slot: "holds_queue n u q \<Longrightarrow> i < n \<Longrightarrow> \<not> signatures u ! i \<Longrightarrow> \<exists>h. (h, False) \<in> set q \<and> h mod n = i"
proof -
  assume "holds_queue n u q" "i < n" "\<not> signatures u ! i"
  then have "\<not> (\<forall>(h, b) \<in> set q. h mod n = i \<longrightarrow> b)" unfolding holds_queue_def by blast
  then obtain h b where "(h, b) \<in> set q" "h mod n = i" "\<not> b" by blast
  then show ?thesis by (cases b) auto
qed

lemma queue_window:
  assumes q: "holds_queue n u q"
  shows "fst ` set q = {unat (as_of_block_height u) + 1 - length q..<unat (as_of_block_height u) + 1}"
    "inj_on (\<lambda>h. h mod n) {unat (as_of_block_height u) + 1 - n..<unat (as_of_block_height u) + 1}" "distinct (map fst q)"
proof -
  note Q = q [unfolded holds_queue_def]
  have fq: "map fst q = [unat (as_of_block_height u) + 1 - length q..<unat (as_of_block_height u) + 1]" using Q by blast
  show "fst ` set q = {unat (as_of_block_height u) + 1 - length q..<unat (as_of_block_height u) + 1}"
    using arg_cong [OF fq, of set] unfolding list.set_map set_upt .
  show "distinct (map fst q)" unfolding fq by (rule distinct_upt)
  show "inj_on (\<lambda>h. h mod n) {unat (as_of_block_height u) + 1 - n..<unat (as_of_block_height u) + 1}"
    by (rule inj_on_subset [OF window_inj [of n "unat (as_of_block_height u) + 1 - n"]]) auto
qed

lemma queue_missed:
  assumes q: "holds_queue n u q"
  shows "num_missed_blocks u = length (filter (\<lambda>(h, b). \<not> b) q)"
proof -
  note Q = q [unfolded holds_queue_def]
  let ?m = "map fst (filter (\<lambda>(h, b). \<not> b) q)"
  note W = queue_window [OF q]
  have sub: "set ?m \<subseteq> {unat (as_of_block_height u) + 1 - n..<unat (as_of_block_height u) + 1}"
  proof -
    have "set ?m \<subseteq> fst ` set q" by auto
    also have "\<dots> \<subseteq> {unat (as_of_block_height u) + 1 - n..<unat (as_of_block_height u) + 1}"
      unfolding W(1) using conjunct1 [OF conjunct2 [OF conjunct2 [OF Q]]] by (auto simp del: upt_Suc)
    finally show ?thesis .
  qed
  have "{i. i < n \<and> \<not> signatures u ! i} = (\<lambda>h. h mod n) ` set ?m"
  proof (intro equalityI subsetI)
    fix i assume "i \<in> {i. i < n \<and> \<not> signatures u ! i}"
    then have "i < n" "\<not> signatures u ! i" by auto
    then obtain h where "(h, False) \<in> set q" "h mod n = i" using missed_slot [OF q] by blast
    then show "i \<in> (\<lambda>h. h mod n) ` set ?m" by force
  next
    fix i assume "i \<in> (\<lambda>h. h mod n) ` set ?m"
    then obtain h where "(h, False) \<in> set q" "i = h mod n" by auto
    then show "i \<in> {i. i < n \<and> \<not> signatures u ! i}" using queue_slot [OF q] Q by auto
  qed
  then have "card {i. i < n \<and> \<not> signatures u ! i} = card (set ?m)"
    using card_image [OF inj_on_subset [OF W(2) sub]] by simp
  also have "\<dots> = length (filter (\<lambda>(h, b). \<not> b) q)"
    using distinct_card [OF distinct_map_filter [OF W(3)]] by simp
  finally show ?thesis using Q by (simp add: num_missed_blocks_def length_filter_conv_card)
qed

lemma queue_missed_heights:
  assumes q: "holds_queue n u q" and n: "n < 2 ^ 64"
  shows "missed_blocks u = Inr (map fst (filter (\<lambda>(h, b). \<not> b) q))"
proof -
  note Q = q [unfolded holds_queue_def]
  note W = queue_window [OF q]
  let ?c = "unat (as_of_block_height u)"
  have n1: "unat (of_nat n - 1 :: u64) = n - 1" using Q n by (simp add: unat_sub_if_size unat_of_nat_small word_size word_le_nat_alt)
  let ?P = "\<lambda>h. \<not> signatures u ! (h mod n)"
  have split: "[?c - (n - 1)..<?c + 1] = [?c - (n - 1)..<?c + 1 - length q] @ map fst q"
  proof -
    have "map fst q = [?c + 1 - length q..<?c + 1]" using Q by blast
    moreover have "?c - (n - 1) \<le> ?c + 1 - length q" "?c + 1 - length q \<le> ?c + 1" using Q by auto
    ultimately show ?thesis by (metis le_Suc_ex upt_add_eq_append)
  qed
  have old: "filter ?P [?c - (n - 1)..<?c + 1 - length q] = []"
  proof (rule filter_False, intro ballI notI)
    fix h assume h: "h \<in> set [?c - (n - 1)..<?c + 1 - length q]" "\<not> signatures u ! (h mod n)"
    have "h mod n < n" using Q by simp
    then obtain k where k: "(k, False) \<in> set q" "k mod n = h mod n" using missed_slot [OF q] h(2) by blast
    then have kr: "k \<in> {?c + 1 - length q..<?c + 1}" using W(1) by force
    moreover have "h \<in> {?c + 1 - n..<?c + 1}" using h(1) Q by auto
    moreover have "k \<in> {?c + 1 - n..<?c + 1}" using kr Q by auto
    ultimately have "k = h" using inj_onD [OF W(2) k(2)] by blast
    then show False using kr h(1) by auto
  qed
  have "filter ?P (map fst q) = map fst (filter (\<lambda>(h, b). \<not> b) q)"
    using queue_slot [OF q] by (auto simp: filter_map o_def intro!: arg_cong [of _ _ "map fst"] filter_cong)
  then have "filter ?P [?c - (n - 1)..<?c + 1] = map fst (filter (\<lambda>(h, b). \<not> b) q)" unfolding split filter_append old by simp
  then show ?thesis using Q n1 by (simp add: missed_blocks_def Let_def del: upt_Suc)
qed

end
