(* ===== verification/Validators.thy ===== *)
theory Validators
  imports Uptime OrdMap "HOL-Library.List_Lexorder"
begin

text \<open>
  The validators of the staking component (\<open>stake/src/validator\<close>, \<open>component/validator_handler\<close> and the parts of
  \<open>component/stake.rs\<close> they use): the store, the transitions of the validator state machine with their
  side effects, slashing penalties, the pools of delegation tokens, and the definitions operators upload.

  Keys, addresses and text forms are byte lists. A function that changes the store returns the new one; the pair of states that
  \<open>set_validator_state\<close> also returns is read by events only, which are not modelled. An error drops the store.
\<close>

section \<open>Data\<close>

type_synonym consensus_key = "u8 list"
type_synonym comet_address = "u8 list"

record epoch =
  ep_index :: u64
  ep_start_height :: u64

datatype bonding_state = Bonded | Unbonded | Unbonding (unbonds_at_height: u64)

record validator =
  v_identity :: identity_key
  v_governance_key :: "u8 list"
  v_consensus_key :: consensus_key
  v_name :: "u8 list"
  v_website :: "u8 list"
  v_description :: "u8 list"
  v_enabled :: bool
  v_funding_streams :: "funding_stream list"
  v_sequence_number :: u32

record stake_params =
  sp_unbonding_delay :: u64
  sp_active_validator_limit :: u64
  sp_slashing_penalty_misbehavior :: u64
  sp_slashing_penalty_downtime :: u64
  sp_signed_blocks_window_len :: u64
  sp_missed_blocks_maximum :: u64
  sp_min_validator_stake :: amount

definition stake_params_default :: stake_params where
  "stake_params_default =
     \<lparr>sp_unbonding_delay = 120960, sp_active_validator_limit = 80, sp_slashing_penalty_misbehavior = 10000000,
      sp_slashing_penalty_downtime = 10000, sp_signed_blocks_window_len = 10000, sp_missed_blocks_maximum = 9500,
      sp_min_validator_stake = 1000000\<rparr>"

record delegate =
  dg_validator :: identity_key
  dg_epoch_index :: u64
  dg_unbonded :: amount
  dg_delegation :: amount

record undelegate =
  ud_validator :: identity_key
  ud_from_epoch :: epoch
  ud_unbonded :: amount
  ud_delegation :: amount

record delegation_changes =
  delegations :: "delegate list"
  undelegations :: "undelegate list"

definition no_changes :: delegation_changes where
  "no_changes = \<lparr>delegations = [], undelegations = []\<rparr>"

datatype stake_denom = DelegationDenom identity_key | UnbondingDenom u64 identity_key

section \<open>The store\<close>

text \<open>
  One field per family of keys. The consensus set index is scanned in the order of the text form of the identity keys,
  the penalties of a validator in the order of the text form of the epochs. The last group is the object store, which
  is empty at the start of a block. \<open>se_show_id\<close> is the text form of an identity key, \<open>se_sha256\<close> the hash,
  \<open>se_delegation_token\<close> and \<open>se_unbonding_token\<close> the asset ids of the tokens of a validator, and the last two
  verify the signature of a definition and the proof of an unbonding claim.
\<close>

record stake_env =
  se_show_id :: "identity_key \<Rightarrow> u8 list"
  se_sha256 :: "u8 list \<Rightarrow> u8 list"
  se_delegation_token :: "identity_key \<Rightarrow> asset_id"
  se_unbonding_token :: "identity_key \<Rightarrow> u64 \<Rightarrow> asset_id"
  se_verify_definition :: "validator \<Rightarrow> u8 list \<Rightarrow> bool"
  se_verify_claim :: "u8 list \<Rightarrow> u8 list \<Rightarrow> asset_id \<Rightarrow> penalty \<Rightarrow> bool"

record stake_state =
  sk_params :: "stake_params option"
  sk_epoch_duration :: "u64 option"
  sk_height :: "u64 option"
  sk_epochs :: "u64 \<Rightarrow> epoch option"
  sk_definitions :: "identity_key \<Rightarrow> validator option"
  sk_states :: "identity_key \<Rightarrow> validator_state option"
  sk_rates :: "identity_key \<Rightarrow> rate_data option"
  sk_prev_rates :: "identity_key \<Rightarrow> rate_data option"
  sk_powers :: "identity_key \<Rightarrow> amount option"
  sk_pools :: "identity_key \<Rightarrow> amount option"
  sk_bonding :: "identity_key \<Rightarrow> bonding_state option"
  sk_uptimes :: "identity_key \<Rightarrow> uptime option"
  sk_disabled_at :: "identity_key \<Rightarrow> u64 option"
  sk_index :: "(u8 list, identity_key) btree"
  sk_key_owner :: "consensus_key \<Rightarrow> identity_key option"
  sk_key_of_address :: "comet_address \<Rightarrow> consensus_key option"
  sk_penalties :: "identity_key \<Rightarrow> (u8 list, penalty) btree"
  sk_base_rate :: "base_rate_data option"
  sk_changes_at :: "u64 \<Rightarrow> delegation_changes option"
  sk_consensus_keys :: "consensus_key list option"
  sk_denoms :: "stake_denom set"
  sk_end_epoch_early :: bool
  sk_prev_base_rate :: "base_rate_data option"
  sk_changes_tally :: delegation_changes
  sk_funding_queue :: "(identity_key \<times> funding_stream list \<times> amount) list option"
  sk_comet_updates :: "(consensus_key \<times> u64) list option"
  sk_issuance :: "amount option"

definition get_stake_params :: "stake_state \<Rightarrow> stake_params result" where
  "get_stake_params s = ok_or (sk_params s) (Bail ''Missing StakeParameters'')"

definition get_block_height :: "stake_state \<Rightarrow> u64 result" where
  "get_block_height s = ok_or (sk_height s) (Bail ''Missing block_height'')"

definition get_epoch_by_height :: "stake_state \<Rightarrow> u64 \<Rightarrow> epoch result" where
  "get_epoch_by_height s h = ok_or (sk_epochs s h) (Bail ''missing epoch for height'')"

definition get_current_epoch :: "stake_state \<Rightarrow> epoch result" where
  "get_current_epoch s = and_then (get_block_height s)
     (\<lambda>h. ok_or (sk_epochs s h) (Bail ''missing epoch for current height''))"

definition is_scheduled_epoch_end :: "epoch \<Rightarrow> u64 \<Rightarrow> u64 \<Rightarrow> bool" where
  "is_scheduled_epoch_end e current_height epoch_duration \<longleftrightarrow> current_height - ep_start_height e \<ge> epoch_duration - 1"

definition validator_address :: "stake_env \<Rightarrow> consensus_key \<Rightarrow> comet_address" where
  "validator_address env ck = take 20 (se_sha256 env ck)"

definition get_validator_definition_by_consensus_key :: "stake_state \<Rightarrow> consensus_key \<Rightarrow> validator option" where
  "get_validator_definition_by_consensus_key s ck =
     (case sk_key_owner s ck of Some i \<Rightarrow> sk_definitions s i | None \<Rightarrow> None)"

definition get_validator_definition_by_cometbft_address :: "stake_state \<Rightarrow> comet_address \<Rightarrow> validator option" where
  "get_validator_definition_by_cometbft_address s a =
     (case sk_key_of_address s a of Some ck \<Rightarrow> get_validator_definition_by_consensus_key s ck | None \<Rightarrow> None)"

definition fetch_validator_consensus_key :: "stake_state \<Rightarrow> identity_key \<Rightarrow> consensus_key option" where
  "fetch_validator_consensus_key s i = map_option v_consensus_key (sk_definitions s i)"

definition compute_unbonding_height :: "stake_state \<Rightarrow> identity_key \<Rightarrow> u64 \<Rightarrow> u64 option result" where
  "compute_unbonding_height s i start_height =
     (case sk_bonding s i of
        None \<Rightarrow> Inl (Bail ''validator bonding state not tracked'')
      | Some b \<Rightarrow> and_then (get_stake_params s) (\<lambda>p.
          let upper_bound = saturating_add start_height (sp_unbonding_delay p)
          in Inr (case b of
               Bonded \<Rightarrow> Some upper_bound
             | Unbonding at \<Rightarrow> if at > start_height then Some (min at upper_bound) else None
             | Unbonded \<Rightarrow> None)))"

definition set_validator_bonding_state :: "identity_key \<Rightarrow> bonding_state \<Rightarrow> stake_state \<Rightarrow> stake_state" where
  "set_validator_bonding_state i b s = s\<lparr>sk_bonding := (sk_bonding s)(i \<mapsto> b)\<rparr>"

definition set_validator_uptime :: "identity_key \<Rightarrow> uptime \<Rightarrow> stake_state \<Rightarrow> stake_state" where
  "set_validator_uptime i u s = s\<lparr>sk_uptimes := (sk_uptimes s)(i \<mapsto> u)\<rparr>"

definition MAX_VOTING_POWER :: nat where
  "MAX_VOTING_POWER = 1152921504606846975"

definition set_validator_power :: "identity_key \<Rightarrow> amount \<Rightarrow> stake_state \<Rightarrow> stake_state result" where
  "set_validator_power i p s =
     (if unat p > MAX_VOTING_POWER then Inl (Bail ''voting power exceeds maximum'')
      else Inr (s\<lparr>sk_powers := (sk_powers s)(i \<mapsto> p)\<rparr>))"

definition set_initial_validator_state :: "identity_key \<Rightarrow> validator_state \<Rightarrow> stake_state \<Rightarrow> stake_state result" where
  "set_initial_validator_state i st s =
     (if st \<notin> {VActive, VDefined} then Inl (Bail ''invalid initial validator state'')
      else Inr (s\<lparr>sk_states := (sk_states s)(i \<mapsto> st)\<rparr>))"

definition set_validator_rate_data :: "identity_key \<Rightarrow> rate_data \<Rightarrow> stake_state \<Rightarrow> stake_state" where
  "set_validator_rate_data i r s = s\<lparr>sk_rates := (sk_rates s)(i \<mapsto> r)\<rparr>"

definition set_prev_validator_rate :: "identity_key \<Rightarrow> rate_data \<Rightarrow> stake_state \<Rightarrow> stake_state" where
  "set_prev_validator_rate i r s = s\<lparr>sk_prev_rates := (sk_prev_rates s)(i \<mapsto> r)\<rparr>"

definition set_last_disabled_height :: "identity_key \<Rightarrow> u64 \<Rightarrow> stake_state \<Rightarrow> stake_state" where
  "set_last_disabled_height i h s = s\<lparr>sk_disabled_at := (sk_disabled_at s)(i \<mapsto> h)\<rparr>"

definition set_validator_pool_size :: "identity_key \<Rightarrow> amount \<Rightarrow> stake_state \<Rightarrow> stake_state" where
  "set_validator_pool_size i a s = s\<lparr>sk_pools := (sk_pools s)(i \<mapsto> a)\<rparr>"

text \<open>The pool operations return None, and change nothing, on an overflow.\<close>

definition increase_validator_pool_size :: "identity_key \<Rightarrow> amount \<Rightarrow> stake_state \<Rightarrow> stake_state option" where
  "increase_validator_pool_size i a s =
     map_option (\<lambda>n. set_validator_pool_size i n s) (checked_add (get_or (sk_pools s i) 0) a)"

definition decrease_validator_pool_size :: "identity_key \<Rightarrow> amount \<Rightarrow> stake_state \<Rightarrow> stake_state option" where
  "decrease_validator_pool_size i a s =
     map_option (\<lambda>n. set_validator_pool_size i n s) (checked_sub (get_or (sk_pools s i) 0) a)"

definition build_delegate :: "rate_data \<Rightarrow> epoch \<Rightarrow> amount \<Rightarrow> delegate result" where
  "build_delegate r e unbonded = and_then (delegation_amount r unbonded) (\<lambda>d.
     Inr \<lparr>dg_validator = rd_identity r, dg_epoch_index = ep_index e, dg_unbonded = unbonded, dg_delegation = d\<rparr>)"

definition build_undelegate :: "rate_data \<Rightarrow> epoch \<Rightarrow> amount \<Rightarrow> undelegate result" where
  "build_undelegate r e delegation = and_then (unbonded_amount r delegation) (\<lambda>u.
     Inr \<lparr>ud_validator = rd_identity r, ud_from_epoch = e, ud_unbonded = u, ud_delegation = delegation\<rparr>)"

text \<open>The value returned is the amount of delegation tokens.\<close>

definition deposit_to_validator_pool :: "identity_key \<Rightarrow> amount \<Rightarrow> stake_state \<Rightarrow> (amount option \<times> stake_state) result" where
  "deposit_to_validator_pool i deposit s =
     (case checked_add (get_or (sk_pools s i) 0) deposit of
        None \<Rightarrow> Inr (None, s)
      | Some new_supply \<Rightarrow>
          (case sk_rates s i of
             None \<Rightarrow> Inr (None, s)
           | Some r \<Rightarrow> and_then (expect (get_current_epoch s)) (\<lambda>e. and_then (build_delegate r e deposit) (\<lambda>d.
               Inr (Some (dg_delegation d), set_validator_pool_size i new_supply s)))))"

definition set_end_epoch_flag :: "stake_state \<Rightarrow> stake_state" where
  "set_end_epoch_flag s = s\<lparr>sk_end_epoch_early := True\<rparr>"

definition add_consensus_set_index :: "stake_env \<Rightarrow> identity_key \<Rightarrow> stake_state \<Rightarrow> stake_state" where
  "add_consensus_set_index env i s = s\<lparr>sk_index := bt_insert (se_show_id env i) i (sk_index s)\<rparr>"

definition remove_consensus_set_index :: "stake_env \<Rightarrow> identity_key \<Rightarrow> stake_state \<Rightarrow> stake_state" where
  "remove_consensus_set_index env i s = s\<lparr>sk_index := bt_remove (se_show_id env i) (sk_index s)\<rparr>"

definition consensus_set :: "stake_state \<Rightarrow> identity_key list" where
  "consensus_set s = map snd (sk_index s)"

definition belongs_in_index :: "stake_state \<Rightarrow> identity_key \<Rightarrow> bool" where
  "belongs_in_index s i =
     (case sk_states s i of None \<Rightarrow> False | Some st \<Rightarrow> st \<in> {VActive, VInactive})"

definition register_consensus_key :: "stake_env \<Rightarrow> identity_key \<Rightarrow> consensus_key \<Rightarrow> stake_state \<Rightarrow> stake_state" where
  "register_consensus_key env i ck s =
     s\<lparr>sk_key_of_address := (sk_key_of_address s)(validator_address env ck \<mapsto> ck), sk_key_owner := (sk_key_owner s)(ck \<mapsto> i)\<rparr>"

section \<open>Slashing penalties\<close>

text \<open>An epoch is written with at least ten decimal digits.\<close>

function decimal :: "nat \<Rightarrow> u8 list" where
  "decimal n = (if n < 10 then [of_nat (48 + n)] else decimal (n div 10) @ [of_nat (48 + n mod 10)])"
  by auto
termination by (relation "measure id") auto

declare decimal.simps [simp del]

definition epoch_text :: "u64 \<Rightarrow> u8 list" where
  "epoch_text e = (let d = decimal (unat e) in replicate (10 - length d) 48 @ d)"

definition get_penalty_in_epoch :: "stake_state \<Rightarrow> identity_key \<Rightarrow> u64 \<Rightarrow> penalty option" where
  "get_penalty_in_epoch s i e = bt_get (sk_penalties s i) (epoch_text e)"

text \<open>A range whose start lies after its end panics.\<close>

definition get_penalty_for_range :: "stake_state \<Rightarrow> identity_key \<Rightarrow> u64 \<Rightarrow> u64 \<Rightarrow> penalty list result" where
  "get_penalty_for_range s i start end_epoch =
     (if epoch_text start > epoch_text end_epoch then Inl Panic
      else Inr (map snd (filter (\<lambda>(k, _). epoch_text start \<le> k \<and> k < epoch_text end_epoch) (sk_penalties s i))))"

definition compute_compounded_penalty :: "penalty list \<Rightarrow> penalty result" where
  "compute_compounded_penalty ps = and_then (penalty_from_percent 0) (try_fold (\<lambda>p acc. penalty_compound acc p) ps)"

definition compounded_penalty_over_range :: "stake_state \<Rightarrow> identity_key \<Rightarrow> u64 \<Rightarrow> u64 \<Rightarrow> penalty result" where
  "compounded_penalty_over_range s i start end_epoch =
     (if start > end_epoch then Inl (Bail ''invalid penalty window'')
      else and_then (get_penalty_for_range s i start end_epoch) compute_compounded_penalty)"

definition record_slashing_penalty :: "identity_key \<Rightarrow> penalty \<Rightarrow> stake_state \<Rightarrow> stake_state result" where
  "record_slashing_penalty i p s =
     and_then (expect (get_current_epoch s)) (\<lambda>e.
     and_then (penalty_from_percent 0) (\<lambda>none.
     and_then (penalty_compound (get_or (get_penalty_in_epoch s i (ep_index e)) none) p) (\<lambda>new_penalty.
     Inr (s\<lparr>sk_penalties := (sk_penalties s)(i := bt_insert (epoch_text (ep_index e)) new_penalty (sk_penalties s i))\<rparr>))))"

section \<open>The validator state machine\<close>

text \<open>The effects of a transition, in the order of the \<open>match\<close>; \<open>start\<close> is the first height of the current epoch.\<close>

definition transition_effects :: "stake_env \<Rightarrow> identity_key \<Rightarrow> validator_state \<Rightarrow> validator_state \<Rightarrow> u64 \<Rightarrow> stake_state \<Rightarrow> stake_state result" where
  "transition_effects env i old new start s =
     (if old \<in> {VDefined, VDisabled, VJailed} \<and> new = VInactive then Inr (add_consensus_set_index env i s)
      else if old \<in> {VInactive, VJailed, VDisabled} \<and> new = VDefined then Inr s
      else if old \<in> {VInactive, VJailed, VDefined} \<and> new = VDisabled then Inr s
      else if old = VInactive \<and> new = VActive then
        (let s = set_validator_bonding_state i Bonded s in
         and_then (get_block_height s) (\<lambda>h. and_then (get_stake_params s) (\<lambda>p.
         Inr (set_validator_uptime i (uptime_new h (unat (sp_signed_blocks_window_len p))) s))))
      else if old = VActive \<and> new \<in> {VInactive, VDefined, VDisabled} then
        and_then (compute_unbonding_height s i start) (\<lambda>at. and_then (expect_some at) (\<lambda>at.
        Inr (set_validator_bonding_state i (Unbonding at) s)))
      else if old = VActive \<and> new = VJailed then
        and_then (get_stake_params s) (\<lambda>p.
        and_then (from_bps_squared (sp_slashing_penalty_downtime p)) (\<lambda>penalty.
        and_then (record_slashing_penalty i penalty s) (\<lambda>s.
        and_then (compute_unbonding_height s i start) (\<lambda>at. and_then (expect_some at) (\<lambda>at.
        Inr (set_validator_bonding_state i (Unbonding at) s))))))
      else if old \<in> {VDefined, VDisabled, VInactive, VActive, VJailed} \<and> new = VTombstoned then
        and_then (get_stake_params s) (\<lambda>p.
        and_then (from_bps_squared (sp_slashing_penalty_misbehavior p)) (\<lambda>penalty.
        and_then (record_slashing_penalty i penalty s) (\<lambda>s.
        Inr (set_validator_bonding_state i Unbonded s))))
      else if old = new then Inr s
      else if old \<in> {VDisabled, VDefined, VJailed} \<and> new = VActive then Inl (Bail ''only inactive validators can become active'')
      else if old \<in> {VDisabled, VDefined, VInactive} \<and> new = VJailed then Inl (Bail ''only active validators can get jailed'')
      else Inl (Bail ''tombstoning is permanent''))"

definition set_validator_state_inner :: "stake_env \<Rightarrow> identity_key \<Rightarrow> validator_state \<Rightarrow> validator_state \<Rightarrow> stake_state \<Rightarrow> stake_state result" where
  "set_validator_state_inner env i old new s =
     and_then (get_block_height s) (\<lambda>current_height.
     and_then (get_epoch_by_height s current_height) (\<lambda>e.
     let s = (if old = VActive \<and> new \<in> {VDefined, VDisabled, VJailed, VTombstoned} then set_end_epoch_flag s else s)
     in and_then (transition_effects env i old new (ep_start_height e) s) (\<lambda>s.
        let s = (if new = VDisabled then set_last_disabled_height i current_height s else s)
        in Inr (s\<lparr>sk_states := (sk_states s)(i \<mapsto> new)\<rparr>))))"

definition set_validator_state :: "stake_env \<Rightarrow> identity_key \<Rightarrow> validator_state \<Rightarrow> stake_state \<Rightarrow> stake_state result" where
  "set_validator_state env i new s =
     and_then (ok_or (sk_states s i) (Bail ''validator state not found'')) (\<lambda>old. set_validator_state_inner env i old new s)"

definition try_precursor_transition ::
    "stake_env \<Rightarrow> identity_key \<Rightarrow> validator_state \<Rightarrow> rate_data \<Rightarrow> amount \<Rightarrow> stake_state \<Rightarrow> (validator_state option \<times> stake_state) result" where
  "try_precursor_transition env i previous next_rate supply s =
     (if previous \<notin> {VDefined, VInactive, VActive} then Inr (None, s)
      else and_then (expect (get_stake_params s)) (\<lambda>p.
      and_then (unbonded_amount next_rate supply) (\<lambda>unbonded_pool.
      let has_minimum_stake = unbonded_pool \<ge> sp_min_validator_stake p;
          new = (if has_minimum_stake then (if previous = VActive then VActive else VInactive) else VDefined)
      in if new \<noteq> previous then and_then (expect (set_validator_state env i new s)) (\<lambda>s. Inr (Some new, s))
         else Inr (Some new, s))))"

section \<open>Definitions\<close>

definition add_validator_inner ::
    "stake_env \<Rightarrow> validator \<Rightarrow> rate_data \<Rightarrow> validator_state \<Rightarrow> bonding_state \<Rightarrow> amount \<Rightarrow> amount \<Rightarrow> stake_state \<Rightarrow> stake_state result" where
  "add_validator_inner env v rate st b vp pool s =
     (if st \<notin> {VDefined, VActive} then Inl (Bail ''invalid initial state'')
      else let i = v_identity v;
               s = s\<lparr>sk_definitions := (sk_definitions s)(i \<mapsto> v)\<rparr>;
               s = register_consensus_key env i (v_consensus_key v) s;
               s = s\<lparr>sk_denoms := insert (DelegationDenom i) (sk_denoms s)\<rparr>;
               s = set_validator_rate_data i rate s
           in and_then (set_initial_validator_state i st s) (\<lambda>s.
              and_then (set_validator_power i vp s) (\<lambda>s.
              Inr (set_validator_pool_size i pool (set_validator_bonding_state i b s)))))"

definition add_validator :: "stake_env \<Rightarrow> validator \<Rightarrow> rate_data \<Rightarrow> stake_state \<Rightarrow> stake_state result" where
  "add_validator env v rate s = add_validator_inner env v rate VDefined Unbonded 0 0 s"

definition add_genesis_validator :: "stake_env \<Rightarrow> (asset_id \<Rightarrow> amount option) \<Rightarrow> base_rate_data \<Rightarrow> validator \<Rightarrow> stake_state \<Rightarrow> stake_state result" where
  "add_genesis_validator env allocations base v s =
     (let rate = \<lparr>rd_identity = v_identity v, rd_reward_rate = br_reward_rate base, rd_exchange_rate = br_exchange_rate base\<rparr>;
          total = get_or (allocations (se_delegation_token env (v_identity v))) 0
      in and_then (voting_power rate total) (\<lambda>vp.
         and_then (add_validator_inner env v rate VActive Bonded vp total s) (\<lambda>s.
         let s = add_consensus_set_index env (v_identity v) s in
         and_then (get_stake_params s) (\<lambda>p.
         Inr (set_validator_uptime (v_identity v) (uptime_new 0 (unat (sp_signed_blocks_window_len p))) s)))))"

text \<open>A disabled or jailed validator comes back as inactive if its pool holds the minimal stake.\<close>

definition reinstate :: "stake_env \<Rightarrow> identity_key \<Rightarrow> stake_state \<Rightarrow> stake_state result" where
  "reinstate env i s =
     and_then (get_stake_params s) (\<lambda>p.
     and_then (ok_or (sk_rates s i) (Bail ''updated validator has no recorded rate data'')) (\<lambda>r.
     and_then (unbonded_amount r (get_or (sk_pools s i) 0)) (\<lambda>unbonded_pool.
     set_validator_state env i (if unbonded_pool \<ge> sp_min_validator_stake p then VInactive else VDefined) s)))"

definition check_disabled_long_enough :: "identity_key \<Rightarrow> stake_state \<Rightarrow> unit result" where
  "check_disabled_long_enough i s =
     (case sk_disabled_at s i of
        Some last_disabled \<Rightarrow>
          and_then (get_block_height s) (\<lambda>current_height.
          and_then (ok_or (sk_epoch_duration s) (Bail ''Missing SctParameters'')) (\<lambda>epoch_duration.
          ensure (current_height \<ge> saturating_add last_disabled epoch_duration) ''validator has been disabled too recently''))
      | None \<Rightarrow> Inr ())"

definition update_validator_definition :: "stake_env \<Rightarrow> validator \<Rightarrow> stake_state \<Rightarrow> stake_state result" where
  "update_validator_definition env v s =
     (let i = v_identity v in
      and_then (ok_or (sk_states s i) (Bail ''updated validator has no recorded state'')) (\<lambda>current.
      and_then
        (if current = VTombstoned then Inr s
         else if \<not> v_enabled v then set_validator_state env i VDisabled s
         else if current = VDisabled then and_then (check_disabled_long_enough i s) (\<lambda>_. reinstate env i s)
         else if current = VJailed then reinstate env i s
         else Inr s) (\<lambda>s.
      let s = register_consensus_key env i (v_consensus_key v) s
      in Inr (s\<lparr>sk_definitions := (sk_definitions s)(i \<mapsto> v)\<rparr>))))"

definition process_validator_pool_state :: "identity_key \<Rightarrow> u64 \<Rightarrow> stake_state \<Rightarrow> stake_state result" where
  "process_validator_pool_state i from_height s =
     and_then (compute_unbonding_height s i from_height) (\<lambda>at.
     Inr (if from_height \<ge> get_or at from_height then set_validator_bonding_state i Unbonded s else s))"

text \<open>Evidence of misbehaviour names the address of a consensus key.\<close>

definition process_evidence :: "stake_env \<Rightarrow> comet_address \<Rightarrow> stake_state \<Rightarrow> stake_state result" where
  "process_evidence env a s =
     and_then (ok_or (get_validator_definition_by_cometbft_address s a) (Bail ''attempted to slash unknown validator'')) (\<lambda>v.
     set_validator_state env (v_identity v) VTombstoned s)"

end
