(* ===== verification/StakeEpoch.thy ===== *)
theory StakeEpoch
  imports Validators
begin

text \<open>
  The end of an epoch (\<open>component/epoch_handler.rs\<close>): the delegation changes of the epoch are tallied, the base rate of
  the next epoch is computed, every validator of the consensus set and every one with a change is processed, the
  active set is chosen, and the validator updates for CometBFT are built.
\<close>

section \<open>Delegation changes\<close>

definition get_delegation_changes :: "stake_state \<Rightarrow> u64 \<Rightarrow> delegation_changes result" where
  "get_delegation_changes s h = ok_or (sk_changes_at s h) (Bail ''missing delegation changes for block'')"

type_synonym tally = "(identity_key, amount) btree"

definition tally_change :: "identity_key \<times> amount \<Rightarrow> tally \<Rightarrow> tally" where
  "tally_change = (\<lambda>(i, a) m. bt_insert i (saturating_add (get_or (bt_get m i) 0) a) m)"

definition collect_height :: "stake_state \<Rightarrow> u64 \<Rightarrow> tally \<times> tally \<Rightarrow> (tally \<times> tally) result" where
  "collect_height s h = (\<lambda>(ds, us).
     if unat h \<ge> 2 ^ 63 then Inl (Bail ''should be able to convert u64 into block height'')
     else and_then (get_delegation_changes s h) (\<lambda>c.
       Inr (fold tally_change (map (\<lambda>d. (dg_validator d, dg_delegation d)) (delegations c)) ds,
            fold tally_change (map (\<lambda>u. (ud_validator u, ud_delegation u)) (undelegations c)) us)))"

definition collect_changes :: "stake_state \<Rightarrow> u64 \<Rightarrow> u64 \<Rightarrow> (tally \<times> tally) result" where
  "collect_changes s start end_height =
     try_fold (collect_height s) (map of_nat [unat start..<unat end_height + 1]) ([], [])"

section \<open>The base rate\<close>

definition active_stake :: "stake_state \<Rightarrow> identity_key \<Rightarrow> amount \<Rightarrow> amount result" where
  "active_stake s i acc =
     and_then (ok_or (sk_states s i) (Bail ''validator state not found'')) (\<lambda>st.
     if st \<noteq> VActive then Inr acc
     else and_then (ok_or (sk_pools s i) (Bail ''validator delegation pool not found'')) (\<lambda>pool.
          and_then (ok_or (sk_rates s i) (Bail ''validator rate data not found'')) (\<lambda>r.
          and_then (unbonded_amount r pool) (\<lambda>u.
          ok_or (checked_add acc u) (Bail ''total active stake overflowed'')))))"

definition total_active_stake :: "stake_state \<Rightarrow> amount result" where
  "total_active_stake s = try_fold (active_stake s) (consensus_set s) 0"

definition process_chain_base_rate :: "stake_state \<Rightarrow> (base_rate_data \<times> stake_state) result" where
  "process_chain_base_rate s =
     and_then (expect_some (sk_base_rate s)) (\<lambda>prev.
     and_then (expect_some (sk_issuance s)) (\<lambda>issuance.
     and_then (total_active_stake s) (\<lambda>stake.
     and_then (expect (fp_ratio (fp_from_amount issuance) (fp_from_amount stake))) (\<lambda>ratio.
     and_then (rescale ratio) (\<lambda>reward_rate.
     and_then (base_rate_next_epoch prev reward_rate) (\<lambda>next.
     Inr (next, s\<lparr>sk_base_rate := Some next, sk_prev_base_rate := Some prev\<rparr>)))))))"

section \<open>One validator\<close>

text \<open>The net change of the pool, as a signed 128-bit integer.\<close>

definition apply_delegation_delta :: "identity_key \<Rightarrow> amount \<Rightarrow> amount \<Rightarrow> stake_state \<Rightarrow> stake_state result" where
  "apply_delegation_delta i dels undels s =
     (let delta = dels - undels; magnitude = (if sint delta < 0 then - delta else delta)
      in if sint delta > 0 then expect_some (increase_validator_pool_size i magnitude s)
         else if sint delta < 0 then expect_some (decrease_validator_pool_size i magnitude s)
         else Inr s)"

type_synonym reward_entry = "identity_key \<times> funding_stream list \<times> amount"

definition process_validator ::
    "stake_env \<Rightarrow> identity_key \<Rightarrow> epoch \<Rightarrow> base_rate_data \<Rightarrow> amount \<Rightarrow> amount \<Rightarrow> stake_state \<Rightarrow> (reward_entry option \<times> stake_state) result" where
  "process_validator env i epoch_to_end next_base dels undels s =
     and_then (ok_or (sk_definitions s i) (Bail ''definition was not found'')) (\<lambda>v.
     and_then (ok_or (sk_states s (v_identity v)) (Bail ''state was not found'')) (\<lambda>st.
     and_then (ok_or (sk_rates s (v_identity v)) (Bail ''rate data was not found'')) (\<lambda>prev.
     and_then (penalty_from_percent 0) (\<lambda>none.
     and_then (rate_slash prev (get_or (get_penalty_in_epoch s (v_identity v) (ep_index epoch_to_end)) none)) (\<lambda>prev.
     let s = set_prev_validator_rate (v_identity v) prev s in
     and_then (rate_next_epoch prev next_base (v_funding_streams v) st) (\<lambda>next.
     and_then (apply_delegation_delta i dels undels s) (\<lambda>s.
     let supply = get_or (sk_pools s i) 0 in
     and_then (voting_power next supply) (\<lambda>vp.
     let s = set_validator_rate_data (v_identity v) next s in
     and_then (set_validator_power (v_identity v) vp s) (\<lambda>s.
     let reward = (if st = VActive then Some (v_identity v, v_funding_streams v, supply) else None) in
     and_then (try_precursor_transition env i st next supply s) (\<lambda>(_, s).
     and_then (process_validator_pool_state (v_identity v) (ep_start_height epoch_to_end) s) (\<lambda>s.
     let s = (if belongs_in_index s (v_identity v) then s else remove_consensus_set_index env (v_identity v) s)
     in Inr (reward, s))))))))))))"

section \<open>The active set\<close>

text \<open>The validators with voting power by decreasing power, in a stable sort, and those without.\<close>

definition rank_step :: "stake_state \<Rightarrow> identity_key \<Rightarrow> (identity_key \<times> amount) list \<times> (identity_key \<times> amount) list
    \<Rightarrow> ((identity_key \<times> amount) list \<times> (identity_key \<times> amount) list) result" where
  "rank_step s i = (\<lambda>(by_power, zero_power).
     and_then (ok_or (sk_states s i) (Bail ''should be able to fetch validator state'')) (\<lambda>st.
     let vp = get_or (sk_powers s i) 0
     in Inr (if st \<in> {VActive, VInactive}
             then (if vp = 0 then (by_power, zero_power @ [(i, vp)]) else (by_power @ [(i, vp)], zero_power))
             else (by_power, zero_power))))"

definition set_active_and_inactive_validators :: "stake_env \<Rightarrow> stake_state \<Rightarrow> stake_state result" where
  "set_active_and_inactive_validators env s =
     and_then (try_fold (rank_step s) (consensus_set s) ([], [])) (\<lambda>(by_power, zero_power).
     let by_power = sort_key (\<lambda>(_, vp). - int (unat vp)) by_power in
     and_then (get_stake_params s) (\<lambda>p.
     let limit = unat (sp_active_validator_limit p); active = take limit by_power; inactive = drop limit by_power @ zero_power in
     and_then (try_fold (\<lambda>(i, _). set_validator_state env i VActive) active s)
       (try_fold (\<lambda>(i, _). set_validator_state env i VInactive) inactive)))"

section \<open>The epoch\<close>

definition process_one ::
    "stake_env \<Rightarrow> epoch \<Rightarrow> base_rate_data \<Rightarrow> identity_key \<Rightarrow> (tally \<times> tally \<times> reward_entry list) \<times> stake_state
      \<Rightarrow> ((tally \<times> tally \<times> reward_entry list) \<times> stake_state) result" where
  "process_one env epoch_to_end next_base i = (\<lambda>((ds, us, queue), s).
     and_then (process_validator env i epoch_to_end next_base (get_or (bt_get ds i) 0) (get_or (bt_get us i) 0) s) (\<lambda>(reward, s).
     Inr ((bt_remove i ds, bt_remove i us, case reward of None \<Rightarrow> queue | Some r \<Rightarrow> queue @ [r]), s)))"

definition end_epoch :: "stake_env \<Rightarrow> epoch \<Rightarrow> stake_state \<Rightarrow> stake_state result" where
  "end_epoch env epoch_to_end s =
     and_then (get_block_height s) (\<lambda>end_height.
     and_then (collect_changes s (ep_start_height epoch_to_end) end_height) (\<lambda>(ds, us).
     and_then (process_chain_base_rate s) (\<lambda>(next_base, s).
     let to_process = sort (remdups (map fst ds @ map fst us @ consensus_set s)) in
     and_then (try_fold (process_one env epoch_to_end next_base) to_process ((ds, us, []), s)) (\<lambda>((ds, us, queue), s).
     if ds \<noteq> [] \<or> us \<noteq> [] then Inl Panic
     else set_active_and_inactive_validators env (s\<lparr>sk_funding_queue := Some queue\<rparr>)))))"

section \<open>The updates for CometBFT\<close>

text \<open>The voting power of a validator that is not active counts as zero. A panic in a spawned task is an error of the join.\<close>

definition effective_power :: "stake_state \<Rightarrow> identity_key \<Rightarrow> (consensus_key, amount) btree \<Rightarrow> (consensus_key, amount) btree result" where
  "effective_power s i m =
     (case sk_states s i of
        None \<Rightarrow> Inl (Bail ''task panicked'')
      | Some st \<Rightarrow> and_then (if st = VActive then ok_or (sk_powers s i) (Bail ''task panicked'') else Inr 0) (\<lambda>vp.
          and_then (ok_or (fetch_validator_consensus_key s i) (Bail ''task panicked'')) (\<lambda>ck. Inr (bt_insert ck vp m))))"

text \<open>Voting power goes to CometBFT in 64 bits, of which it accepts 63.\<close>

definition comet_update :: "consensus_key \<times> amount \<Rightarrow> (consensus_key \<times> u64) list \<Rightarrow> (consensus_key \<times> u64) list result" where
  "comet_update = (\<lambda>(ck, vp) updates.
     if unat (ucast vp :: u64) < 2 ^ 63 then Inr (updates @ [(ck, ucast vp)]) else Inl (Bail ''power out of range''))"

definition or_insert_zero :: "consensus_key \<Rightarrow> (consensus_key, amount) btree \<Rightarrow> (consensus_key, amount) btree" where
  "or_insert_zero ck m = (if bt_get m ck = None then bt_insert ck 0 m else m)"

definition build_cometbft_validator_updates :: "stake_state \<Rightarrow> stake_state result" where
  "build_cometbft_validator_updates s =
     and_then (expect_some (sk_consensus_keys s)) (\<lambda>current.
     and_then (try_fold (effective_power s) (consensus_set s) []) (\<lambda>by_key.
     let by_key = filter (\<lambda>(ck, vp). vp > 0 \<or> ck \<in> set current) by_key;
         by_key = fold or_insert_zero (sort (remdups current)) by_key
     in and_then (try_fold comet_update by_key []) (\<lambda>updates.
        Inr (s\<lparr>sk_comet_updates := Some updates, sk_consensus_keys := Some (map fst (filter (\<lambda>(_, vp). vp \<noteq> 0) by_key))\<rparr>))))"

end
