(* ===== verification/StakeActions.thy ===== *)
theory StakeActions
  imports StakeEpoch
begin

text \<open>
  The actions of the staking component (\<open>component/action_handler\<close>), the uptime tracker, and the hooks that run at genesis, at the start
  and the end of a block and at the end of an epoch (\<open>component/stake.rs\<close>), with the part of the
  application and of the clock (\<open>app/src/app/mod.rs\<close>, \<open>sct\<close>) that decides when an epoch ends.
\<close>

section \<open>Delegations\<close>

definition push_delegation :: "delegate \<Rightarrow> stake_state \<Rightarrow> stake_state" where
  "push_delegation d s = s\<lparr>sk_changes_tally := (sk_changes_tally s)\<lparr>delegations := delegations (sk_changes_tally s) @ [d]\<rparr>\<rparr>"

definition push_undelegation :: "undelegate \<Rightarrow> stake_state \<Rightarrow> stake_state" where
  "push_undelegation u s = s\<lparr>sk_changes_tally := (sk_changes_tally s)\<lparr>undelegations := undelegations (sk_changes_tally s) @ [u]\<rparr>\<rparr>"

definition delegate_check_and_execute :: "delegate \<Rightarrow> stake_state \<Rightarrow> stake_state result" where
  "delegate_check_and_execute d s =
     and_then (get_current_epoch s) (\<lambda>e.
     and_then (ensure (dg_epoch_index d = ep_index e) ''delegation was prepared for another epoch'') (\<lambda>_.
     and_then (ok_or (sk_rates s (dg_validator d)) (Bail ''unknown validator identity'')) (\<lambda>r.
     and_then (delegation_amount r (dg_unbonded d)) (\<lambda>expected.
     and_then (ensure (expected = dg_delegation d) ''unexpected delegation amount'') (\<lambda>_.
     and_then (ok_or (sk_definitions s (dg_validator d)) (Bail ''missing definition for validator'')) (\<lambda>v.
     and_then (ok_or (sk_states s (dg_validator d)) (Bail ''missing state for validator'')) (\<lambda>st.
     and_then (ensure (v_enabled v) ''delegations are only allowed to enabled validators'') (\<lambda>_.
     and_then (ensure (st \<in> {VDefined, VInactive, VActive}) ''delegations are only allowed to active or inactive validators'') (\<lambda>_.
     and_then
       (if st = VDefined then
          and_then (get_stake_params s) (\<lambda>p.
          if get_or (sk_pools s (dg_validator d)) 0 = 0
          then ensure (dg_unbonded d \<ge> sp_min_validator_stake p) ''first delegation must be at least the minimal stake'' else Inr ())
        else Inr ()) (\<lambda>_.
     Inr (push_delegation d s)))))))))))"

definition undelegate_check_and_execute :: "undelegate \<Rightarrow> stake_state \<Rightarrow> stake_state result" where
  "undelegate_check_and_execute u s =
     and_then (get_current_epoch s) (\<lambda>e.
     and_then (ensure (ud_from_epoch u = e) ''undelegation was prepared for another epoch'') (\<lambda>_.
     and_then (ok_or (sk_rates s (ud_validator u)) (Bail ''unknown validator identity'')) (\<lambda>r.
     and_then (unbonded_amount r (ud_delegation u)) (\<lambda>expected.
     and_then (ensure (ud_unbonded u = expected) ''undelegation amount does not match expected amount'') (\<lambda>_.
     let s = s\<lparr>sk_denoms := insert (UnbondingDenom (ep_start_height (ud_from_epoch u)) (ud_validator u)) (sk_denoms s)\<rparr>
     in Inr (push_undelegation u s))))))"

text \<open>What an action adds to the value balance of its transaction; \<open>um\<close> is the staking token.\<close>

definition delegate_balance :: "stake_env \<Rightarrow> asset_id \<Rightarrow> delegate \<Rightarrow> balance result" where
  "delegate_balance env um d =
     and_then (balance_add_value balance_zero \<lparr>v_amount = dg_delegation d, v_asset = se_delegation_token env (dg_validator d)\<rparr>) (\<lambda>b.
     balance_sub_value b \<lparr>v_amount = dg_unbonded d, v_asset = um\<rparr>)"

section \<open>Claims of unbonded stake\<close>

record undelegate_claim =
  uc_validator :: identity_key
  uc_penalty :: penalty
  uc_balance_commitment :: "u8 list"
  uc_unbonding_start_height :: u64
  uc_proof :: "u8 list"

definition undelegate_claim_check_stateless :: "stake_env \<Rightarrow> undelegate_claim \<Rightarrow> unit result" where
  "undelegate_claim_check_stateless env c =
     ensure (se_verify_claim env (uc_proof c) (uc_balance_commitment c)
       (se_unbonding_token env (uc_validator c) (uc_unbonding_start_height c)) (uc_penalty c)) ''proof did not verify''"

definition undelegate_claim_check_and_execute :: "undelegate_claim \<Rightarrow> stake_state \<Rightarrow> stake_state result" where
  "undelegate_claim_check_and_execute c s =
     and_then (get_block_height s) (\<lambda>current_height.
     and_then (ensure (current_height \<ge> uc_unbonding_start_height c) ''the unbonding start height lies in the future'') (\<lambda>_.
     and_then (compute_unbonding_height s (uc_validator c) (uc_unbonding_start_height c)) (\<lambda>at.
     let allowed = get_or at current_height in
     and_then (ensure (current_height \<ge> allowed) ''cannot claim unbonding tokens yet'') (\<lambda>_.
     and_then (get_epoch_by_height s (uc_unbonding_start_height c)) (\<lambda>epoch_start.
     and_then (get_epoch_by_height s allowed) (\<lambda>epoch_end.
     and_then (ensure (ep_index epoch_end \<ge> ep_index epoch_start) ''unbonding epoch end before its start'') (\<lambda>_.
     and_then (compounded_penalty_over_range s (uc_validator c) (ep_index epoch_start) (ep_index epoch_end)) (\<lambda>expected.
     and_then (ensure (uc_penalty c = expected) ''penalty does not match expected penalty'') (\<lambda>_.
     Inr s)))))))))"

section \<open>Definitions of validators\<close>

record validator_definition =
  vd_validator :: validator
  vd_auth_sig :: "u8 list"

definition definition_check_stateless :: "stake_env \<Rightarrow> validator_definition \<Rightarrow> unit result" where
  "definition_check_stateless env def =
     (let v = vd_validator def in
      and_then (ensure (length (v_website v) \<le> 70) ''validator website field must be less than 70 characters'') (\<lambda>_.
      and_then (ensure (length (v_name v) \<le> 140) ''validator name must be less than 140 characters'') (\<lambda>_.
      and_then (ensure (length (v_description v) \<le> 280) ''validator description must be less than 280 characters'') (\<lambda>_.
      and_then (ensure (length (v_funding_streams v) \<le> 8) ''validators can declare at most 8 funding streams'') (\<lambda>_.
      and_then (ensure (\<not> (v_sequence_number v = - 1 \<and> v_enabled v)) ''validators must be disabled when their lifetime is over'') (\<lambda>_.
      and_then (ensure (se_verify_definition env v (vd_auth_sig def)) ''validator definition signature failed to verify'') (\<lambda>_.
      ensure (commission_bps (v_funding_streams v) \<le> 10000) ''validator defined more than 100% of funding streams'')))))))"

definition definition_check_and_execute :: "stake_env \<Rightarrow> validator_definition \<Rightarrow> stake_state \<Rightarrow> stake_state result" where
  "definition_check_and_execute env def s =
     (let v = vd_validator def; i = v_identity v in
      and_then (case sk_definitions s i of
                  None \<Rightarrow> Inr ()
                | Some prev \<Rightarrow> ensure (v_sequence_number v > v_sequence_number prev) ''definition sequence number must increase'') (\<lambda>_.
      and_then (case get_validator_definition_by_consensus_key s (v_consensus_key v) of
                  None \<Rightarrow> Inr ()
                | Some owner \<Rightarrow> ensure (v_identity owner = i) ''consensus key is already in use'') (\<lambda>_.
      if sk_definitions s i \<noteq> None then update_validator_definition env v s
      else add_validator env v \<lparr>rd_identity = i, rd_reward_rate = 0, rd_exchange_rate = 100000000\<rparr> s)))"

section \<open>Uptime\<close>

text \<open>The lookups of all validators read the store before any of them is processed.\<close>

definition lookup_active :: "stake_state \<Rightarrow> identity_key \<Rightarrow> (identity_key \<times> consensus_key \<times> uptime) option result" where
  "lookup_active s i =
     (case sk_states s i of
        None \<Rightarrow> Inl (Bail ''task panicked'')
      | Some VActive \<Rightarrow>
          and_then (ok_or (fetch_validator_consensus_key s i) (Bail ''task panicked'')) (\<lambda>ck.
          and_then (ok_or (sk_uptimes s i) (Bail ''task panicked'')) (\<lambda>u. Inr (Some (i, ck, u))))
      | Some _ \<Rightarrow> Inr None)"

definition process_validator_uptime ::
    "stake_env \<Rightarrow> (comet_address, bool) btree \<Rightarrow> stake_params \<Rightarrow> u64 \<Rightarrow> identity_key \<times> consensus_key \<times> uptime \<Rightarrow> stake_state \<Rightarrow> stake_state result" where
  "process_validator_uptime env did_address_vote p height = (\<lambda>(i, ck, u) s.
     let voted = get_or (bt_get did_address_vote (validator_address env ck)) (height = 1) in
     and_then (mark_height_as_signed height voted u) (\<lambda>u.
     if of_nat (num_missed_blocks u) \<ge> sp_missed_blocks_maximum p then set_validator_state env i VJailed s
     else Inr (set_validator_uptime i u s)))"

text \<open>The results are joined in any order; the model takes the order of the index.\<close>

definition process_lookup ::
    "stake_env \<Rightarrow> (comet_address, bool) btree \<Rightarrow> stake_params \<Rightarrow> u64 \<Rightarrow> (identity_key \<times> consensus_key \<times> uptime) option result
      \<Rightarrow> stake_state \<Rightarrow> stake_state result" where
  "process_lookup env votes p height data s =
     and_then data (\<lambda>info. case info of None \<Rightarrow> Inr s | Some x \<Rightarrow> process_validator_uptime env votes p height x s)"

definition track_uptime :: "stake_env \<Rightarrow> (comet_address \<times> bool) list \<Rightarrow> stake_state \<Rightarrow> stake_state result" where
  "track_uptime env votes s =
     and_then (get_block_height s) (\<lambda>height.
     and_then (get_stake_params s) (\<lambda>p.
     let did_address_vote = fold (\<lambda>(a, b). bt_insert a b) votes []
     in try_fold (process_lookup env did_address_vote p height) (map (lookup_active s) (consensus_set s)) s))"

section \<open>The hooks of the component\<close>

text \<open>Genesis: the validators as parsed, and the values allocated. Without a genesis only the updates are built.\<close>

definition set_delegation_changes :: "u64 \<Rightarrow> delegation_changes \<Rightarrow> stake_state \<Rightarrow> stake_state" where
  "set_delegation_changes h c s = s\<lparr>sk_changes_at := (sk_changes_at s)(h \<mapsto> c)\<rparr>"

definition block_height_of :: "u64 \<Rightarrow> u64 result" where
  "block_height_of h = (if unat h < 2 ^ 63 then Inr h else Inl Panic)"

definition genesis_base_rate :: "u64 \<Rightarrow> base_rate_data" where
  "genesis_base_rate epoch_index = \<lparr>br_epoch_index = epoch_index, br_reward_rate = 0, br_exchange_rate = 100000000\<rparr>"

definition genesis_allocations :: "asset_value list \<Rightarrow> asset_id \<Rightarrow> amount option" where
  "genesis_allocations values = fold (\<lambda>v m. m(v_asset v := Some (get_or (m (v_asset v)) 0 + v_amount v))) values (\<lambda>_. None)"

record stake_genesis =
  sg_params :: stake_params
  sg_validators :: "validator list"
  sg_allocations :: "asset_value list"

definition stake_init_chain :: "stake_env \<Rightarrow> stake_genesis option \<Rightarrow> stake_state \<Rightarrow> stake_state result" where
  "stake_init_chain env genesis s =
     and_then
       (case genesis of
          None \<Rightarrow> Inr s
        | Some g \<Rightarrow>
            let s = s\<lparr>sk_params := Some (sg_params g)\<rparr> in
            and_then (expect (get_block_height s)) (\<lambda>starting_height.
            and_then (expect (get_epoch_by_height s starting_height)) (\<lambda>e.
            let base = genesis_base_rate (ep_index e); s = s\<lparr>sk_base_rate := Some base\<rparr> in
            and_then (try_fold (\<lambda>v s. expect (add_genesis_validator env (genesis_allocations (sg_allocations g)) base v s)) (sg_validators g) s) (\<lambda>s.
            let s = s\<lparr>sk_consensus_keys := Some []\<rparr> in
            and_then (block_height_of starting_height) (\<lambda>h. Inr (set_delegation_changes h no_changes s))))))
       (\<lambda>s. expect (build_cometbft_validator_updates s))"

text \<open>Evidence that cannot be processed is ignored; a panic is not.\<close>

definition process_evidence_or_ignore :: "stake_env \<Rightarrow> comet_address \<Rightarrow> stake_state \<Rightarrow> stake_state result" where
  "process_evidence_or_ignore env a s =
     (case process_evidence env a s of Inl Panic \<Rightarrow> Inl Panic | Inl _ \<Rightarrow> Inr s | Inr t \<Rightarrow> Inr t)"

definition stake_begin_block :: "stake_env \<Rightarrow> comet_address list \<Rightarrow> (comet_address \<times> bool) list \<Rightarrow> stake_state \<Rightarrow> stake_state result" where
  "stake_begin_block env evidence votes s =
     and_then (try_fold (process_evidence_or_ignore env) evidence s) (\<lambda>s. expect (track_uptime env votes s))"

definition stake_end_block :: "u64 \<Rightarrow> stake_state \<Rightarrow> stake_state result" where
  "stake_end_block height s =
     and_then (block_height_of height) (\<lambda>h. Inr (set_delegation_changes h (sk_changes_tally s) s))"

definition stake_end_epoch :: "stake_env \<Rightarrow> stake_state \<Rightarrow> stake_state result" where
  "stake_end_epoch env s =
     and_then (get_current_epoch s) (\<lambda>e. and_then (end_epoch env e s) build_cometbft_validator_updates)"

section \<open>Blocks\<close>

text \<open>The height is set when a block begins; the end of a block sets the epoch of the next height, and the commit empties
  the object store.\<close>

definition sct_init_chain :: "u64 \<Rightarrow> stake_state \<Rightarrow> stake_state" where
  "sct_init_chain epoch_duration s =
     s\<lparr>sk_epoch_duration := Some epoch_duration, sk_height := Some 0,
       sk_epochs := (sk_epochs s)(0 \<mapsto> \<lparr>ep_index = 0, ep_start_height = 0\<rparr>, 1 \<mapsto> \<lparr>ep_index = 0, ep_start_height = 0\<rparr>)\<rparr>"

definition sct_begin_block :: "u64 \<Rightarrow> stake_state \<Rightarrow> stake_state" where
  "sct_begin_block h s = s\<lparr>sk_height := Some h\<rparr>"

definition app_end_block :: "stake_env \<Rightarrow> u64 \<Rightarrow> amount \<Rightarrow> bool \<Rightarrow> stake_state \<Rightarrow> stake_state result" where
  "app_end_block env height issuance is_chain_upgrade s =
     and_then (stake_end_block height s) (\<lambda>s.
     and_then (expect (get_block_height s)) (\<lambda>current_height.
     and_then (expect (get_current_epoch s)) (\<lambda>e.
     and_then (expect_some (sk_epoch_duration s)) (\<lambda>epoch_duration.
     let is_end_epoch = is_scheduled_epoch_end e current_height epoch_duration \<or> sk_end_epoch_early s
     in if is_end_epoch \<or> is_chain_upgrade
        then and_then (expect (stake_end_epoch env (s\<lparr>sk_issuance := Some issuance\<rparr>))) (\<lambda>s.
          Inr (s\<lparr>sk_epochs := (sk_epochs s)(current_height + 1 \<mapsto> \<lparr>ep_index = ep_index e + 1, ep_start_height = current_height + 1\<rparr>)\<rparr>))
        else Inr (s\<lparr>sk_epochs := (sk_epochs s)(current_height + 1 \<mapsto> e)\<rparr>)))))"

definition app_commit :: "stake_state \<Rightarrow> stake_state" where
  "app_commit s = s\<lparr>sk_end_epoch_early := False, sk_prev_base_rate := None, sk_changes_tally := no_changes,
     sk_funding_queue := None, sk_comet_updates := None, sk_issuance := None\<rparr>"

end
