(* ===== verification/StakeInvariant.thy ===== *)
theory StakeInvariant
  imports StakeActions
begin

text \<open>
  The invariant of the staking component: what a state transition changes and which ones there are, the consensus set
  index against the states, the bonding of the pools, and the owners of the consensus keys; and every operation keeps it.
\<close>

section \<open>What a transition changes\<close>

definition diagram :: "(validator_state \<times> validator_state) set" where
  "diagram =
     {(VDefined, VInactive), (VDefined, VDisabled), (VDefined, VTombstoned),
      (VInactive, VDefined), (VInactive, VDisabled), (VInactive, VActive), (VInactive, VTombstoned),
      (VActive, VInactive), (VActive, VDefined), (VActive, VDisabled), (VActive, VJailed), (VActive, VTombstoned),
      (VJailed, VInactive), (VJailed, VDefined), (VJailed, VDisabled), (VJailed, VTombstoned),
      (VDisabled, VInactive), (VDisabled, VDefined), (VDisabled, VTombstoned)}"

text \<open>The part of the store that no transition touches.\<close>

definition rest :: "stake_state \<Rightarrow> stake_state" where
  "rest s = s\<lparr>sk_states := \<lambda>_. None, sk_bonding := \<lambda>_. None, sk_uptimes := \<lambda>_. None, sk_disabled_at := \<lambda>_. None, sk_index := [],
     sk_penalties := \<lambda>_. [], sk_end_epoch_early := False\<rparr>"

definition moved :: "stake_state \<Rightarrow> stake_state \<Rightarrow> bool" where
  "moved s t \<longleftrightarrow> rest t = rest s"

lemma rest_fields:
  "sk_params (rest s) = sk_params s"
    "sk_epoch_duration (rest s) = sk_epoch_duration s"
    "sk_height (rest s) = sk_height s"
    "sk_epochs (rest s) = sk_epochs s"
    "sk_definitions (rest s) = sk_definitions s"
    "sk_rates (rest s) = sk_rates s"
    "sk_prev_rates (rest s) = sk_prev_rates s"
    "sk_powers (rest s) = sk_powers s"
    "sk_pools (rest s) = sk_pools s"
    "sk_key_owner (rest s) = sk_key_owner s"
    "sk_key_of_address (rest s) = sk_key_of_address s"
    "sk_base_rate (rest s) = sk_base_rate s"
    "sk_changes_at (rest s) = sk_changes_at s"
    "sk_consensus_keys (rest s) = sk_consensus_keys s"
    "sk_denoms (rest s) = sk_denoms s"
    "sk_prev_base_rate (rest s) = sk_prev_base_rate s"
    "sk_changes_tally (rest s) = sk_changes_tally s"
    "sk_funding_queue (rest s) = sk_funding_queue s"
    "sk_comet_updates (rest s) = sk_comet_updates s"
    "sk_issuance (rest s) = sk_issuance s"
  by (simp_all add: rest_def)

lemma moved_fields:
  assumes "moved s t"
  shows "sk_params t = sk_params s"
    "sk_epoch_duration t = sk_epoch_duration s"
    "sk_height t = sk_height s"
    "sk_epochs t = sk_epochs s"
    "sk_definitions t = sk_definitions s"
    "sk_rates t = sk_rates s"
    "sk_prev_rates t = sk_prev_rates s"
    "sk_powers t = sk_powers s"
    "sk_pools t = sk_pools s"
    "sk_key_owner t = sk_key_owner s"
    "sk_key_of_address t = sk_key_of_address s"
    "sk_base_rate t = sk_base_rate s"
    "sk_changes_at t = sk_changes_at s"
    "sk_consensus_keys t = sk_consensus_keys s"
    "sk_denoms t = sk_denoms s"
    "sk_prev_base_rate t = sk_prev_base_rate s"
    "sk_changes_tally t = sk_changes_tally s"
    "sk_funding_queue t = sk_funding_queue s"
    "sk_comet_updates t = sk_comet_updates s"
    "sk_issuance t = sk_issuance s"
  using assms unfolding moved_def by (metis rest_fields)+

lemma moved_refl: "moved s s"
  by (simp add: moved_def)

lemma moved_trans: "moved s t \<Longrightarrow> moved t u \<Longrightarrow> moved s u"
  by (simp add: moved_def)

lemma moved_update [simp]:
  "moved s (t\<lparr>sk_states := a\<rparr>) = moved s t" "moved s (t\<lparr>sk_bonding := b\<rparr>) = moved s t" "moved s (t\<lparr>sk_uptimes := c\<rparr>) = moved s t"
  "moved s (t\<lparr>sk_disabled_at := d\<rparr>) = moved s t" "moved s (t\<lparr>sk_index := e\<rparr>) = moved s t"
  "moved s (t\<lparr>sk_penalties := f\<rparr>) = moved s t" "moved s (t\<lparr>sk_end_epoch_early := g\<rparr>) = moved s t"
  by (simp_all add: moved_def rest_def)

lemmas validator_updates = set_validator_bonding_state_def set_validator_uptime_def set_last_disabled_height_def
  set_end_epoch_flag_def add_consensus_set_index_def remove_consensus_set_index_def
  set_validator_rate_data_def set_prev_validator_rate_def set_validator_pool_size_def register_consensus_key_def

text \<open>The bonding state of the validator afterwards.\<close>

definition bonding_after :: "validator_state \<Rightarrow> validator_state \<Rightarrow> bonding_state option \<Rightarrow> bonding_state option \<Rightarrow> bool" where
  "bonding_after old new b b' \<longleftrightarrow>
     (if old = new then b' = b
      else if new = VActive then b' = Some Bonded
      else if new = VTombstoned then b' = Some Unbonded
      else if old = VActive then \<exists>at. b' = Some (Unbonding at)
      else b' = b)"

lemma slash_effect:
  assumes "record_slashing_penalty i p s = Inr t"
  obtains e new where "get_current_epoch s = Inr e" "penalty_compound (get_or (get_penalty_in_epoch s i (ep_index e)) no_penalty) p = Inr new"
    "t = s\<lparr>sk_penalties := (sk_penalties s)(i := bt_insert (epoch_text (ep_index e)) new (sk_penalties s i))\<rparr>"
  using assms unfolding record_slashing_penalty_def no_penalty(1) and_then.simps by (elim and_then_InrE) (auto simp: expect_Inr_iff)

lemma slashed_moves:
  assumes "record_slashing_penalty i p s = Inr t"
  shows "\<exists>f. t = s\<lparr>sk_penalties := f\<rparr> \<and> (\<forall>j. j \<noteq> i \<longrightarrow> f j = sk_penalties s j)"
  by (rule slash_effect [OF assms]) (metis fun_upd_other)

lemma transition_moves:
  assumes "transition_effects env i old new start s = Inr t"
  shows "(old = new \<or> (old, new) \<in> diagram) \<and> moved s t \<and> sk_states t = sk_states s \<and> sk_end_epoch_early t = sk_end_epoch_early s
    \<and> sk_disabled_at t = sk_disabled_at s
    \<and> sk_index t = (if new = VInactive \<and> old \<in> {VDefined, VDisabled, VJailed} then bt_insert (se_show_id env i) i (sk_index s) else sk_index s)
    \<and> bonding_after old new (sk_bonding s i) (sk_bonding t i)
    \<and> (\<forall>j. j \<noteq> i \<longrightarrow> sk_bonding t j = sk_bonding s j \<and> sk_uptimes t j = sk_uptimes s j \<and> sk_penalties t j = sk_penalties s j)
    \<and> (new = VActive \<and> old \<noteq> VActive \<longrightarrow> (\<exists>h p. sk_height s = Some h \<and> sk_params s = Some p \<and>
         sk_uptimes t i = Some (uptime_new h (unat (sp_signed_blocks_window_len p)))))
    \<and> (\<not> (new = VActive \<and> old \<noteq> VActive) \<longrightarrow> sk_uptimes t i = sk_uptimes s i)
    \<and> (\<not> (old \<noteq> new \<and> (new = VTombstoned \<or> new = VJailed)) \<longrightarrow> sk_penalties t i = sk_penalties s i)"
  using assms
  by (cases old; cases new;
      auto simp: transition_effects_def result_simps diagram_def bonding_after_def validator_updates get_block_height_def
          get_stake_params_def and_then_Inr_iff expect_some_Inr_iff Let_def
        dest!: slashed_moves intro!: moved_refl)


lemma set_stateE:
  assumes "set_validator_state env i new s = Inr t"
  obtains old h e u where "sk_states s i = Some old" "sk_height s = Some h" "sk_epochs s h = Some e"
    "transition_effects env i old new (ep_start_height e)
        (if old = VActive \<and> new \<in> {VDefined, VDisabled, VJailed, VTombstoned} then set_end_epoch_flag s else s) = Inr u"
    "t = (if new = VDisabled then set_last_disabled_height i h u else u)\<lparr>sk_states := (sk_states u)(i \<mapsto> new)\<rparr>"
proof -
  obtain old where old: "sk_states s i = Some old" and inner: "set_validator_state_inner env i old new s = Inr t"
    using assms by (auto simp: set_validator_state_def result_simps)
    obtain h where h: "sk_height s = Some h"
      and r: "and_then (get_epoch_by_height s h) (\<lambda>e. and_then (transition_effects env i old new (ep_start_height e)
        (if old = VActive \<and> new \<in> {VDefined, VDisabled, VJailed, VTombstoned} then set_end_epoch_flag s else s)) (\<lambda>u.
        let s = (if new = VDisabled then set_last_disabled_height i h u else u) in Inr (s\<lparr>sk_states := (sk_states s)(i \<mapsto> new)\<rparr>))) = Inr t"
      using inner unfolding set_validator_state_inner_def Let_def by (auto simp: get_block_height_def result_simps elim!: and_then_InrE)
    obtain e where e: "sk_epochs s h = Some e"
      and r: "and_then (transition_effects env i old new (ep_start_height e)
        (if old = VActive \<and> new \<in> {VDefined, VDisabled, VJailed, VTombstoned} then set_end_epoch_flag s else s)) (\<lambda>u.
        let s = (if new = VDisabled then set_last_disabled_height i h u else u) in Inr (s\<lparr>sk_states := (sk_states s)(i \<mapsto> new)\<rparr>)) = Inr t"
      using r by (auto simp: get_epoch_by_height_def ok_or_Inr_iff elim!: and_then_InrE)
    show thesis
      by (rule and_then_InrE [OF r], rule that [OF old h e])
        (assumption, simp add: Let_def set_last_disabled_height_def split: if_splits)
qed

lemma set_state_moves:
  assumes "set_validator_state env i new s = Inr t"
  obtains old where "sk_states s i = Some old" "old = new \<or> (old, new) \<in> diagram" "moved s t" "sk_states t = (sk_states s)(i \<mapsto> new)"
    "sk_index t = (if new = VInactive \<and> old \<in> {VDefined, VDisabled, VJailed} then bt_insert (se_show_id env i) i (sk_index s) else sk_index s)"
    "bonding_after old new (sk_bonding s i) (sk_bonding t i)"
    "\<And>j. j \<noteq> i \<Longrightarrow> sk_bonding t j = sk_bonding s j" "\<And>j. j \<noteq> i \<Longrightarrow> sk_uptimes t j = sk_uptimes s j"
    "\<And>j. j \<noteq> i \<Longrightarrow> sk_penalties t j = sk_penalties s j"
    "new = VActive \<and> old \<noteq> VActive \<longrightarrow> (\<exists>h p. sk_height s = Some h \<and> sk_params s = Some p \<and>
         sk_uptimes t i = Some (uptime_new h (unat (sp_signed_blocks_window_len p))))"
    "\<not> (new = VActive \<and> old \<noteq> VActive) \<longrightarrow> sk_uptimes t i = sk_uptimes s i"
    "\<not> (old \<noteq> new \<and> (new = VTombstoned \<or> new = VJailed)) \<longrightarrow> sk_penalties t i = sk_penalties s i"
    "sk_end_epoch_early t \<longleftrightarrow> sk_end_epoch_early s \<or> (old = VActive \<and> new \<in> {VDefined, VDisabled, VJailed, VTombstoned})"
    "sk_disabled_at t = (if new = VDisabled then (sk_disabled_at s)(i := sk_height s) else sk_disabled_at s)"
    "sk_height s \<noteq> None"
proof -
  obtain old h e u where old: "sk_states s i = Some old" and h: "sk_height s = Some h" and "sk_epochs s h = Some e"
    and u: "transition_effects env i old new (ep_start_height e)
        (if old = VActive \<and> new \<in> {VDefined, VDisabled, VJailed, VTombstoned} then set_end_epoch_flag s else s) = Inr u"
    and t: "t = (if new = VDisabled then set_last_disabled_height i h u else u)\<lparr>sk_states := (sk_states u)(i \<mapsto> new)\<rparr>"
    by (rule set_stateE [OF assms])
  define s0 where "s0 = (if old = VActive \<and> new \<in> {VDefined, VDisabled, VJailed, VTombstoned} then set_end_epoch_flag s else s)"
  have s0: "sk_bonding s0 = sk_bonding s" "sk_uptimes s0 = sk_uptimes s" "sk_penalties s0 = sk_penalties s" "sk_index s0 = sk_index s"
    "sk_states s0 = sk_states s" "sk_height s0 = sk_height s" "sk_params s0 = sk_params s" "sk_disabled_at s0 = sk_disabled_at s" "rest s0 = rest s"
    "sk_end_epoch_early s0 \<longleftrightarrow> sk_end_epoch_early s \<or> (old = VActive \<and> new \<in> {VDefined, VDisabled, VJailed, VTombstoned})"
    by (auto simp: s0_def set_end_epoch_flag_def rest_def)
  have tr: "rest t = rest u" "sk_states t = (sk_states u)(i \<mapsto> new)" "sk_bonding t = sk_bonding u" "sk_uptimes t = sk_uptimes u" "sk_penalties t = sk_penalties u"
    "sk_index t = sk_index u" "sk_end_epoch_early t = sk_end_epoch_early u"
    "sk_disabled_at t = (if new = VDisabled then (sk_disabled_at u)(i := sk_height s) else sk_disabled_at u)"
    using h by (simp_all add: t set_last_disabled_height_def rest_def)
  note T = transition_moves [OF u [folded s0_def], unfolded s0 moved_def]
  show thesis
    by (rule that [OF old]) (use T h in \<open>simp_all add: tr moved_def s0\<close>)
qed

section \<open>The invariant\<close>

text \<open>The index holds every active and every inactive validator, under its own text form; it may hold others that
  left these states since the last epoch ended.\<close>

definition index_ok :: "stake_env \<Rightarrow> stake_state \<Rightarrow> bool" where
  "index_ok env s \<longleftrightarrow> bt_wf (sk_index s)
     \<and> (\<forall>k i. bt_get (sk_index s) k = Some i \<longrightarrow> k = se_show_id env i \<and> sk_states s i \<noteq> None)
     \<and> (\<forall>i. sk_states s i = Some VActive \<or> sk_states s i = Some VInactive \<longrightarrow> bt_get (sk_index s) (se_show_id env i) = Some i)"

text \<open>The pool of a validator is bonded exactly while it is active.\<close>

definition bonding_ok :: "stake_state \<Rightarrow> bool" where
  "bonding_ok s \<longleftrightarrow> (\<forall>i. sk_states s i = Some VActive \<longleftrightarrow> sk_bonding s i = Some Bonded)"

definition tracked_at :: "stake_state \<Rightarrow> identity_key \<Rightarrow> bool" where
  "tracked_at s i \<longleftrightarrow> (sk_definitions s i \<noteq> None \<longleftrightarrow> sk_states s i \<noteq> None) \<and> (sk_rates s i \<noteq> None \<longleftrightarrow> sk_states s i \<noteq> None)
     \<and> (sk_bonding s i \<noteq> None \<longleftrightarrow> sk_states s i \<noteq> None) \<and> (sk_pools s i \<noteq> None \<longleftrightarrow> sk_states s i \<noteq> None)
     \<and> (sk_powers s i \<noteq> None \<longleftrightarrow> sk_states s i \<noteq> None) \<and> (sk_states s i = Some VActive \<longrightarrow> sk_uptimes s i \<noteq> None)"

definition tracked :: "stake_state \<Rightarrow> bool" where
  "tracked s \<longleftrightarrow> (\<forall>i. tracked_at s i)"

text \<open>The consensus key of a validator is registered to it, so no two validators have the same one.\<close>

definition keys_ok :: "stake_state \<Rightarrow> bool" where
  "keys_ok s \<longleftrightarrow> (\<forall>i v. sk_definitions s i = Some v \<longrightarrow> v_identity v = i \<and> sk_key_owner s (v_consensus_key v) = Some i)
     \<and> (\<forall>ck i. sk_key_owner s ck = Some i \<longrightarrow> sk_definitions s i \<noteq> None)"

definition rates_ok :: "stake_state \<Rightarrow> bool" where
  "rates_ok s \<longleftrightarrow> (\<forall>i r. sk_rates s i = Some r \<longrightarrow> rd_identity r = i)"

text \<open>Heights stay below \<open>2 ^ 63\<close>, the bound CometBFT puts on them, and unbonding takes at least a block.\<close>

definition clock_ok :: "stake_state \<Rightarrow> bool" where
  "clock_ok s \<longleftrightarrow> (\<forall>h e. sk_epochs s h = Some e \<longrightarrow> unat (ep_start_height e) \<le> 2 ^ 63)"

definition params_ok :: "stake_params \<Rightarrow> bool" where
  "params_ok p \<longleftrightarrow> 0 < sp_unbonding_delay p \<and> unat (sp_slashing_penalty_misbehavior p) \<le> 100000000
     \<and> unat (sp_slashing_penalty_downtime p) \<le> 100000000"

definition penalties_ok :: "stake_state \<Rightarrow> bool" where
  "penalties_ok s \<longleftrightarrow> (\<forall>i. bt_wf (sk_penalties s i) \<and> (\<forall>k p. bt_get (sk_penalties s i) k = Some p \<longrightarrow> penalty_ok p))"

definition stake_inv :: "stake_env \<Rightarrow> stake_state \<Rightarrow> bool" where
  "stake_inv env s \<longleftrightarrow> index_ok env s \<and> bonding_ok s \<and> tracked s \<and> keys_ok s \<and> rates_ok s \<and> clock_ok s \<and> penalties_ok s
     \<and> (\<exists>p. sk_params s = Some p \<and> params_ok p)"

lemma consensus_set_iff:
  assumes "index_ok env s"
  shows "i \<in> set (consensus_set s) \<longleftrightarrow> bt_get (sk_index s) (se_show_id env i) = Some i" "distinct (consensus_set s)"
proof -
  have dist: "distinct (map fst (sk_index s))" using assms by (simp add: index_ok_def bt_wf_def strict_sorted_iff)
  have entry: "k = se_show_id env i" if "(k, i) \<in> set (sk_index s)" for k i
    using assms map_of_is_SomeI [OF dist that] by (simp add: index_ok_def bt_get_def)
  show "i \<in> set (consensus_set s) \<longleftrightarrow> bt_get (sk_index s) (se_show_id env i) = Some i"
    using map_of_is_SomeI [OF dist] entry by (force simp: consensus_set_def bt_get_def dest: map_of_SomeD)
  have "inj_on snd (set (sk_index s))" by (intro inj_onI) (metis entry prod.collapse)
  then show "distinct (consensus_set s)" using dist by (simp add: consensus_set_def distinct_map)
qed

lemma set_state_index:
  assumes m: "set_validator_state env i new s = Inr t" and inv: "index_ok env s" and show_inj: "inj (se_show_id env)"
  shows "index_ok env t" "set (consensus_set s) \<subseteq> set (consensus_set t)"
proof -
  obtain old where old: "sk_states s i = Some old" and d: "old = new \<or> (old, new) \<in> diagram" and st: "sk_states t = (sk_states s)(i \<mapsto> new)"
    and ix: "sk_index t = (if new = VInactive \<and> old \<in> {VDefined, VDisabled, VJailed} then bt_insert (se_show_id env i) i (sk_index s) else sk_index s)"
    using set_state_moves [OF m] by metis
  have wf: "bt_wf (sk_index s)" using inv by (simp add: index_ok_def)
  have get: "bt_get (sk_index t) k = (if new = VInactive \<and> old \<in> {VDefined, VDisabled, VJailed} \<and> k = se_show_id env i then Some i else bt_get (sk_index s) k)" for k
    using wf by (auto simp: ix)
  have own: "bt_get (sk_index t) (se_show_id env i) = Some i" if "new = VActive \<or> new = VInactive"
  proof -
    have "new = VInactive \<and> old \<in> {VDefined, VDisabled, VJailed} \<or> old = VActive \<or> old = VInactive" using d that by (auto simp: diagram_def)
    then show ?thesis using inv old unfolding index_ok_def get by auto
  qed
  show "index_ok env t"
    unfolding index_ok_def
  proof (intro conjI allI impI)
    show "bt_wf (sk_index t)" using wf by (simp add: ix)
  next
    fix k j assume "bt_get (sk_index t) k = Some j"
    then have "k = se_show_id env j \<and> (j = i \<or> sk_states s j \<noteq> None)" using inv by (auto simp: get index_ok_def split: if_splits)
    then show "k = se_show_id env j" "sk_states t j \<noteq> None" by (auto simp: st)
  next
    fix j assume j: "sk_states t j = Some VActive \<or> sk_states t j = Some VInactive"
    show "bt_get (sk_index t) (se_show_id env j) = Some j"
    proof (cases "j = i")
      case True
      then show ?thesis using own j by (simp add: st)
    next
      case False
      then have "bt_get (sk_index s) (se_show_id env j) = Some j" using inv j by (auto simp: st index_ok_def)
      then show ?thesis using False injD [OF show_inj] by (auto simp: get)
    qed
  qed
  then have "bt_get (sk_index t) (se_show_id env j) = Some j" if "bt_get (sk_index s) (se_show_id env j) = Some j" for j
    using that injD [OF show_inj] by (auto simp: get)
  then show "set (consensus_set s) \<subseteq> set (consensus_set t)"
    using consensus_set_iff(1) [OF inv] consensus_set_iff(1) [OF \<open>index_ok env t\<close>] by blast
qed

lemma slashed:
  assumes "record_slashing_penalty i p s = Inr t" "penalty_ok p" "penalties_ok s"
  shows "penalties_ok t"
proof -
  obtain e new where "get_current_epoch s = Inr e" and e: "penalty_compound (get_or (get_penalty_in_epoch s i (ep_index e)) no_penalty) p = Inr new"
    and t: "t = s\<lparr>sk_penalties := (sk_penalties s)(i := bt_insert (epoch_text (ep_index e)) new (sk_penalties s i))\<rparr>"
    by (rule slash_effect [OF assms(1)])
  have "penalty_ok (get_or (get_penalty_in_epoch s i (ep_index e)) no_penalty)"
    using assms(3) no_penalty(2) by (cases "get_penalty_in_epoch s i (ep_index e)") (auto simp: penalties_ok_def get_penalty_in_epoch_def)
  then have "penalty_ok new" using compound_total [OF _ assms(2)] e by fastforce
  then show ?thesis using assms(3) by (auto simp: t penalties_ok_def)
qed

lemma from_bps_squared_ok: "from_bps_squared b = Inr p \<Longrightarrow> penalty_ok p"
  by (simp add: from_bps_squared_iff penalty_ok_def)

lemma set_state_penalties:
  assumes "set_validator_state env i new s = Inr t" "penalties_ok s"
  shows "penalties_ok t"
proof -
  have same: "penalties_ok u" if "sk_penalties u = sk_penalties s" for u using assms(2) that by (simp add: penalties_ok_def)
  have step: "penalties_ok u" if "transition_effects env i old new start s' = Inr u" "penalties_ok s'" for old start s' u
    using that by (cases old; cases new;
      auto simp: transition_effects_def result_simps validator_updates Let_def penalties_ok_def
        dest!: slashed [unfolded penalties_ok_def] dest: from_bps_squared_ok)
  obtain old h e u where "sk_states s i = Some old" "sk_height s = Some h" "sk_epochs s h = Some e"
    and u: "transition_effects env i old new (ep_start_height e)
        (if old = VActive \<and> new \<in> {VDefined, VDisabled, VJailed, VTombstoned} then set_end_epoch_flag s else s) = Inr u"
    and t: "t = (if new = VDisabled then set_last_disabled_height i h u else u)\<lparr>sk_states := (sk_states u)(i \<mapsto> new)\<rparr>"
    by (rule set_stateE [OF assms(1)])
  have "penalties_ok u" by (rule step [OF u]) (simp add: same set_end_epoch_flag_def)
  then show ?thesis by (simp add: t penalties_ok_def set_last_disabled_height_def)
qed

lemma set_state_inv:
  assumes m: "set_validator_state env i new s = Inr t" and inv: "stake_inv env s" and show_inj: "inj (se_show_id env)"
  shows "stake_inv env t"
proof -
  obtain old where old: "sk_states s i = Some old" and d: "old = new \<or> (old, new) \<in> diagram" and mv: "moved s t"
    and st: "sk_states t = (sk_states s)(i \<mapsto> new)" and b: "bonding_after old new (sk_bonding s i) (sk_bonding t i)"
    and o: "\<And>j. j \<noteq> i \<Longrightarrow> sk_bonding t j = sk_bonding s j" "\<And>j. j \<noteq> i \<Longrightarrow> sk_uptimes t j = sk_uptimes s j"
    and up: "new = VActive \<and> old \<noteq> VActive \<longrightarrow> sk_uptimes t i \<noteq> None" "\<not> (new = VActive \<and> old \<noteq> VActive) \<longrightarrow> sk_uptimes t i = sk_uptimes s i"
    by (rule set_state_moves [OF m]) (metis option.distinct(1))
  note F = moved_fields [OF mv]
  have "sk_states s i = Some VActive \<longleftrightarrow> sk_bonding s i = Some Bonded" using inv unfolding stake_inv_def bonding_ok_def by blast
  then have bo: "sk_bonding s i = Some Bonded \<longleftrightarrow> old = VActive" using old by auto
  have "tracked_at s i" using inv by (simp add: stake_inv_def tracked_def)
  then have tr: "sk_bonding s i \<noteq> None" using old by (simp add: tracked_at_def)
  have bi: "sk_bonding t i = Some Bonded \<longleftrightarrow> new = VActive" "sk_bonding t i \<noteq> None"
    using b bo tr d by (auto simp: bonding_after_def diagram_def split: if_splits)
  have "bonding_ok t"
    unfolding bonding_ok_def
  proof
    fix j
    show "(sk_states t j = Some VActive) = (sk_bonding t j = Some Bonded)"
      using bi inv o(1) [of j] by (cases "j = i") (auto simp: st stake_inv_def bonding_ok_def)
  qed
  moreover have "tracked t"
    unfolding tracked_def
  proof
    fix j
    have s: "tracked_at s j" using inv by (simp add: stake_inv_def tracked_def)
    show "tracked_at t j"
    proof (cases "j = i")
      case True
      then have "sk_states s j \<noteq> None" "sk_states t j \<noteq> None" "sk_bonding t j \<noteq> None" using old bi(2) st by simp_all
      moreover have "sk_uptimes t j \<noteq> None" if "sk_states t j = Some VActive"
      proof (cases "old = VActive")
        case act: True
        then have "sk_uptimes s j \<noteq> None" using s old True by (simp add: tracked_at_def)
        then show ?thesis using up(2) act True by simp
      next
        case False
        then show ?thesis using up(1) that True by (simp add: st)
      qed
      ultimately show ?thesis using s by (simp add: tracked_at_def F)
    next
      case False
      then have "sk_states t j = sk_states s j" "sk_bonding t j = sk_bonding s j" "sk_uptimes t j = sk_uptimes s j" using o st by simp_all
      then show ?thesis using s by (simp add: tracked_at_def F)
    qed
  qed
  moreover have "keys_ok t" "rates_ok t" "clock_ok t" using inv by (simp_all add: stake_inv_def keys_ok_def rates_ok_def clock_ok_def F)
  moreover have "penalties_ok t" using set_state_penalties [OF m] inv by (simp add: stake_inv_def)
  ultimately show ?thesis using inv set_state_index(1) [OF m _ show_inj] by (simp add: stake_inv_def F)
qed

section \<open>A transition of the diagram never fails\<close>

lemma stored_penalty_ok: "penalties_ok s \<Longrightarrow> penalty_ok (get_or (get_penalty_in_epoch s i e) no_penalty)"
  using no_penalty(2) by (cases "get_penalty_in_epoch s i e") (auto simp: penalties_ok_def get_penalty_in_epoch_def)

lemma slash_total:
  assumes "get_current_epoch s = Inr e" "penalty_ok p" "penalties_ok s"
  shows "\<exists>new. record_slashing_penalty i p s
      = Inr (s\<lparr>sk_penalties := (sk_penalties s)(i := bt_insert (epoch_text (ep_index e)) new (sk_penalties s i))\<rparr>)
    \<and> penalty_ok new
    \<and> unat (raw (kept_rate new))
      = unat (raw (kept_rate (get_or (get_penalty_in_epoch s i (ep_index e)) no_penalty))) * unat (raw (kept_rate p)) div 2 ^ 128"
  using compound_total [OF stored_penalty_ok [OF assms(3), of i "ep_index e"] assms(2)] assms(1)
  by (auto simp: record_slashing_penalty_def no_penalty(1))

lemma unbonding_height_bonded:
  "sk_bonding s i = Some Bonded \<Longrightarrow> sk_params s = Some p
    \<Longrightarrow> compute_unbonding_height s i start = Inr (Some (saturating_add start (sp_unbonding_delay p)))"
  by (simp add: compute_unbonding_height_def get_stake_params_def)

lemma set_state_total:
  assumes inv: "stake_inv env s" and old: "sk_states s i = Some old" and d: "old = new \<or> (old, new) \<in> diagram"
    and h: "sk_height s = Some h" "sk_epochs s h = Some e"
  shows "\<exists>t. set_validator_state env i new s = Inr t"
proof -
  obtain p where p: "sk_params s = Some p" "params_ok p" using inv by (auto simp: stake_inv_def)
  define s0 where "s0 = (if old = VActive \<and> new \<in> {VDefined, VDisabled, VJailed, VTombstoned} then set_end_epoch_flag s else s)"
  have s0: "sk_bonding s0 = sk_bonding s" "sk_params s0 = Some p" "sk_height s0 = Some h" "get_current_epoch s0 = Inr e" "penalties_ok s0"
    using inv h p by (auto simp: s0_def set_end_epoch_flag_def get_current_epoch_def get_block_height_def stake_inv_def penalties_ok_def)
  have bonded: "old = VActive \<Longrightarrow> sk_bonding s0 i = Some Bonded" using inv old by (simp add: stake_inv_def bonding_ok_def s0)
  obtain pm pd where pen: "from_bps_squared (sp_slashing_penalty_misbehavior p) = Inr pm" "penalty_ok pm"
      "from_bps_squared (sp_slashing_penalty_downtime p) = Inr pd" "penalty_ok pd"
    using from_bps_squared_total p(2) unfolding params_ok_def by metis
  have slash: "\<exists>f. record_slashing_penalty i q s0 = Inr (s0\<lparr>sk_penalties := f\<rparr>)" if "penalty_ok q" for q
    using slash_total [OF s0(4) that s0(5)] by blast
  obtain fm fd where fm: "record_slashing_penalty i pm s0 = Inr (s0\<lparr>sk_penalties := fm\<rparr>)"
    and fd: "record_slashing_penalty i pd s0 = Inr (s0\<lparr>sk_penalties := fd\<rparr>)" using slash pen by metis
  have params: "get_stake_params s0 = Inr p" by (simp add: get_stake_params_def s0)
  consider "old = new" | "(old, new) \<in> diagram" "new = VTombstoned" | "(old, new) \<in> diagram" "new = VJailed"
    | "(old, new) \<in> diagram" "new \<noteq> VTombstoned" "new \<noteq> VJailed" "old = VActive" | "(old, new) \<in> diagram" "new = VActive"
    | "(old, new) \<in> diagram" "new \<notin> {VTombstoned, VJailed, VActive}" "old \<noteq> VActive" using d by blast
  then have "\<exists>u. transition_effects env i old new (ep_start_height e) s0 = Inr u"
  proof cases
    case 1
    then show ?thesis by (cases new) (simp_all add: transition_effects_def)
  next
    case 2
    then show ?thesis using fm by (auto simp: transition_effects_def diagram_def params pen)
  next
    case 3
    then have "sk_bonding (s0\<lparr>sk_penalties := fd\<rparr>) i = Some Bonded" "sk_params (s0\<lparr>sk_penalties := fd\<rparr>) = Some p"
      using bonded s0(2) by (auto simp: diagram_def)
    from unbonding_height_bonded [OF this] 3 fd show ?thesis by (auto simp: transition_effects_def diagram_def params pen)
  next
    case 4
    with unbonding_height_bonded [OF bonded s0(2)] show ?thesis by (auto simp: transition_effects_def diagram_def)
  next
    case 5
    then show ?thesis using s0(2,3) by (auto simp: transition_effects_def diagram_def Let_def get_block_height_def get_stake_params_def validator_updates)
  next
    case 6
    then show ?thesis by (auto simp: transition_effects_def diagram_def)
  qed
  then obtain u where u: "transition_effects env i old new (ep_start_height e)
      (if old = VActive \<and> new \<in> {VDefined, VDisabled, VJailed, VTombstoned} then set_end_epoch_flag s else s) = Inr u"
    unfolding s0_def by blast
  show ?thesis
    unfolding set_validator_state_def set_validator_state_inner_def Let_def get_block_height_def get_epoch_by_height_def old h ok_or_simps and_then.simps u
    by blast
qed

end
