(* ===== verification/StakeProcess.thy ===== *)
theory StakeProcess
  imports StakeInvariant
begin

text \<open>
  What the end of an epoch does to one validator: its rate, pool, voting power and state, and nothing of the others;
  and that it keeps the invariant.
\<close>

section \<open>Frames\<close>

text \<open>The part of the store that processing a validator leaves alone, and the entries of another validator.\<close>

definition globals :: "stake_state \<Rightarrow> stake_state" where
  "globals s = rest s\<lparr>sk_rates := \<lambda>_. None, sk_prev_rates := \<lambda>_. None, sk_powers := \<lambda>_. None, sk_pools := \<lambda>_. None\<rparr>"

definition kept :: "stake_state \<Rightarrow> stake_state \<Rightarrow> bool" where
  "kept s t \<longleftrightarrow> globals t = globals s"

lemma globals_fields:
  "sk_params (globals s) = sk_params s" "sk_epoch_duration (globals s) = sk_epoch_duration s" "sk_height (globals s) = sk_height s"
  "sk_epochs (globals s) = sk_epochs s" "sk_definitions (globals s) = sk_definitions s" "sk_key_owner (globals s) = sk_key_owner s"
  "sk_key_of_address (globals s) = sk_key_of_address s" "sk_base_rate (globals s) = sk_base_rate s"
  "sk_changes_at (globals s) = sk_changes_at s" "sk_consensus_keys (globals s) = sk_consensus_keys s" "sk_denoms (globals s) = sk_denoms s"
  "sk_changes_tally (globals s) = sk_changes_tally s" "sk_funding_queue (globals s) = sk_funding_queue s" "sk_issuance (globals s) = sk_issuance s"
  by (simp_all add: globals_def rest_def)

lemma kept_fields:
  assumes "kept s t"
  shows "sk_params t = sk_params s" "sk_epoch_duration t = sk_epoch_duration s" "sk_height t = sk_height s"
    "sk_epochs t = sk_epochs s" "sk_definitions t = sk_definitions s" "sk_key_owner t = sk_key_owner s"
    "sk_key_of_address t = sk_key_of_address s" "sk_base_rate t = sk_base_rate s" "sk_changes_at t = sk_changes_at s"
    "sk_consensus_keys t = sk_consensus_keys s" "sk_denoms t = sk_denoms s" "sk_changes_tally t = sk_changes_tally s"
    "sk_funding_queue t = sk_funding_queue s" "sk_issuance t = sk_issuance s"
  using assms unfolding kept_def by (metis globals_fields)+

lemma kept_refl: "kept s s"
  by (simp add: kept_def)

lemma kept_trans: "kept s t \<Longrightarrow> kept t u \<Longrightarrow> kept s u"
  by (simp add: kept_def)

lemma moved_kept: "moved s t \<Longrightarrow> kept s t"
  by (simp add: moved_def kept_def globals_def)

lemma kept_update [simp]:
  "kept s (t\<lparr>sk_rates := a\<rparr>) = kept s t" "kept s (t\<lparr>sk_prev_rates := b\<rparr>) = kept s t" "kept s (t\<lparr>sk_powers := c\<rparr>) = kept s t"
  "kept s (t\<lparr>sk_pools := d\<rparr>) = kept s t" "kept s (t\<lparr>sk_bonding := e\<rparr>) = kept s t" "kept s (t\<lparr>sk_index := f\<rparr>) = kept s t"
  by (simp_all add: kept_def globals_def rest_def)

text \<open>Each part of the invariant depends on few of the fields.\<close>

lemma index_frame [simp]:
  "index_ok env (s\<lparr>sk_params := x1\<rparr>) = index_ok env s" "index_ok env (s\<lparr>sk_epoch_duration := x2\<rparr>) = index_ok env s"
  "index_ok env (s\<lparr>sk_height := x3\<rparr>) = index_ok env s" "index_ok env (s\<lparr>sk_epochs := x4\<rparr>) = index_ok env s"
  "index_ok env (s\<lparr>sk_definitions := x5\<rparr>) = index_ok env s" "index_ok env (s\<lparr>sk_rates := x6\<rparr>) = index_ok env s"
  "index_ok env (s\<lparr>sk_prev_rates := x7\<rparr>) = index_ok env s" "index_ok env (s\<lparr>sk_powers := x8\<rparr>) = index_ok env s"
  "index_ok env (s\<lparr>sk_pools := x9\<rparr>) = index_ok env s" "index_ok env (s\<lparr>sk_bonding := x10\<rparr>) = index_ok env s"
  "index_ok env (s\<lparr>sk_uptimes := x11\<rparr>) = index_ok env s" "index_ok env (s\<lparr>sk_disabled_at := x12\<rparr>) = index_ok env s"
  "index_ok env (s\<lparr>sk_key_owner := x13\<rparr>) = index_ok env s" "index_ok env (s\<lparr>sk_key_of_address := x14\<rparr>) = index_ok env s"
  "index_ok env (s\<lparr>sk_penalties := x15\<rparr>) = index_ok env s" "index_ok env (s\<lparr>sk_base_rate := x16\<rparr>) = index_ok env s"
  "index_ok env (s\<lparr>sk_changes_at := x17\<rparr>) = index_ok env s" "index_ok env (s\<lparr>sk_consensus_keys := x18\<rparr>) = index_ok env s"
  "index_ok env (s\<lparr>sk_denoms := x19\<rparr>) = index_ok env s" "index_ok env (s\<lparr>sk_end_epoch_early := x20\<rparr>) = index_ok env s"
  "index_ok env (s\<lparr>sk_prev_base_rate := x21\<rparr>) = index_ok env s" "index_ok env (s\<lparr>sk_changes_tally := x22\<rparr>) = index_ok env s"
  "index_ok env (s\<lparr>sk_funding_queue := x23\<rparr>) = index_ok env s" "index_ok env (s\<lparr>sk_comet_updates := x24\<rparr>) = index_ok env s"
  "index_ok env (s\<lparr>sk_issuance := x25\<rparr>) = index_ok env s"
  by (simp_all add: index_ok_def)

lemma bonding_frame [simp]:
  "bonding_ok (s\<lparr>sk_params := x1\<rparr>) = bonding_ok s" "bonding_ok (s\<lparr>sk_epoch_duration := x2\<rparr>) = bonding_ok s"
  "bonding_ok (s\<lparr>sk_height := x3\<rparr>) = bonding_ok s" "bonding_ok (s\<lparr>sk_epochs := x4\<rparr>) = bonding_ok s"
  "bonding_ok (s\<lparr>sk_definitions := x5\<rparr>) = bonding_ok s" "bonding_ok (s\<lparr>sk_rates := x6\<rparr>) = bonding_ok s"
  "bonding_ok (s\<lparr>sk_prev_rates := x7\<rparr>) = bonding_ok s" "bonding_ok (s\<lparr>sk_powers := x8\<rparr>) = bonding_ok s"
  "bonding_ok (s\<lparr>sk_pools := x9\<rparr>) = bonding_ok s" "bonding_ok (s\<lparr>sk_uptimes := x10\<rparr>) = bonding_ok s"
  "bonding_ok (s\<lparr>sk_disabled_at := x11\<rparr>) = bonding_ok s" "bonding_ok (s\<lparr>sk_index := x12\<rparr>) = bonding_ok s"
  "bonding_ok (s\<lparr>sk_key_owner := x13\<rparr>) = bonding_ok s" "bonding_ok (s\<lparr>sk_key_of_address := x14\<rparr>) = bonding_ok s"
  "bonding_ok (s\<lparr>sk_penalties := x15\<rparr>) = bonding_ok s" "bonding_ok (s\<lparr>sk_base_rate := x16\<rparr>) = bonding_ok s"
  "bonding_ok (s\<lparr>sk_changes_at := x17\<rparr>) = bonding_ok s" "bonding_ok (s\<lparr>sk_consensus_keys := x18\<rparr>) = bonding_ok s"
  "bonding_ok (s\<lparr>sk_denoms := x19\<rparr>) = bonding_ok s" "bonding_ok (s\<lparr>sk_end_epoch_early := x20\<rparr>) = bonding_ok s"
  "bonding_ok (s\<lparr>sk_prev_base_rate := x21\<rparr>) = bonding_ok s" "bonding_ok (s\<lparr>sk_changes_tally := x22\<rparr>) = bonding_ok s"
  "bonding_ok (s\<lparr>sk_funding_queue := x23\<rparr>) = bonding_ok s" "bonding_ok (s\<lparr>sk_comet_updates := x24\<rparr>) = bonding_ok s"
  "bonding_ok (s\<lparr>sk_issuance := x25\<rparr>) = bonding_ok s"
  by (simp_all add: bonding_ok_def)

lemma tracked_frame [simp]:
  "tracked (s\<lparr>sk_params := x1\<rparr>) = tracked s" "tracked (s\<lparr>sk_epoch_duration := x2\<rparr>) = tracked s"
  "tracked (s\<lparr>sk_height := x3\<rparr>) = tracked s" "tracked (s\<lparr>sk_epochs := x4\<rparr>) = tracked s"
  "tracked (s\<lparr>sk_prev_rates := x5\<rparr>) = tracked s" "tracked (s\<lparr>sk_disabled_at := x6\<rparr>) = tracked s"
  "tracked (s\<lparr>sk_index := x7\<rparr>) = tracked s" "tracked (s\<lparr>sk_key_owner := x8\<rparr>) = tracked s"
  "tracked (s\<lparr>sk_key_of_address := x9\<rparr>) = tracked s" "tracked (s\<lparr>sk_penalties := x10\<rparr>) = tracked s"
  "tracked (s\<lparr>sk_base_rate := x11\<rparr>) = tracked s" "tracked (s\<lparr>sk_changes_at := x12\<rparr>) = tracked s"
  "tracked (s\<lparr>sk_consensus_keys := x13\<rparr>) = tracked s" "tracked (s\<lparr>sk_denoms := x14\<rparr>) = tracked s"
  "tracked (s\<lparr>sk_end_epoch_early := x15\<rparr>) = tracked s" "tracked (s\<lparr>sk_prev_base_rate := x16\<rparr>) = tracked s"
  "tracked (s\<lparr>sk_changes_tally := x17\<rparr>) = tracked s" "tracked (s\<lparr>sk_funding_queue := x18\<rparr>) = tracked s"
  "tracked (s\<lparr>sk_comet_updates := x19\<rparr>) = tracked s" "tracked (s\<lparr>sk_issuance := x20\<rparr>) = tracked s"
  by (simp_all add: tracked_def tracked_at_def)

lemma keys_frame [simp]:
  "keys_ok (s\<lparr>sk_params := x1\<rparr>) = keys_ok s" "keys_ok (s\<lparr>sk_epoch_duration := x2\<rparr>) = keys_ok s"
  "keys_ok (s\<lparr>sk_height := x3\<rparr>) = keys_ok s" "keys_ok (s\<lparr>sk_epochs := x4\<rparr>) = keys_ok s"
  "keys_ok (s\<lparr>sk_states := x5\<rparr>) = keys_ok s" "keys_ok (s\<lparr>sk_rates := x6\<rparr>) = keys_ok s"
  "keys_ok (s\<lparr>sk_prev_rates := x7\<rparr>) = keys_ok s" "keys_ok (s\<lparr>sk_powers := x8\<rparr>) = keys_ok s"
  "keys_ok (s\<lparr>sk_pools := x9\<rparr>) = keys_ok s" "keys_ok (s\<lparr>sk_bonding := x10\<rparr>) = keys_ok s"
  "keys_ok (s\<lparr>sk_uptimes := x11\<rparr>) = keys_ok s" "keys_ok (s\<lparr>sk_disabled_at := x12\<rparr>) = keys_ok s"
  "keys_ok (s\<lparr>sk_index := x13\<rparr>) = keys_ok s" "keys_ok (s\<lparr>sk_key_of_address := x14\<rparr>) = keys_ok s"
  "keys_ok (s\<lparr>sk_penalties := x15\<rparr>) = keys_ok s" "keys_ok (s\<lparr>sk_base_rate := x16\<rparr>) = keys_ok s"
  "keys_ok (s\<lparr>sk_changes_at := x17\<rparr>) = keys_ok s" "keys_ok (s\<lparr>sk_consensus_keys := x18\<rparr>) = keys_ok s"
  "keys_ok (s\<lparr>sk_denoms := x19\<rparr>) = keys_ok s" "keys_ok (s\<lparr>sk_end_epoch_early := x20\<rparr>) = keys_ok s"
  "keys_ok (s\<lparr>sk_prev_base_rate := x21\<rparr>) = keys_ok s" "keys_ok (s\<lparr>sk_changes_tally := x22\<rparr>) = keys_ok s"
  "keys_ok (s\<lparr>sk_funding_queue := x23\<rparr>) = keys_ok s" "keys_ok (s\<lparr>sk_comet_updates := x24\<rparr>) = keys_ok s"
  "keys_ok (s\<lparr>sk_issuance := x25\<rparr>) = keys_ok s"
  by (simp_all add: keys_ok_def)

lemma rates_frame [simp]:
  "rates_ok (s\<lparr>sk_params := x1\<rparr>) = rates_ok s" "rates_ok (s\<lparr>sk_epoch_duration := x2\<rparr>) = rates_ok s"
  "rates_ok (s\<lparr>sk_height := x3\<rparr>) = rates_ok s" "rates_ok (s\<lparr>sk_epochs := x4\<rparr>) = rates_ok s"
  "rates_ok (s\<lparr>sk_definitions := x5\<rparr>) = rates_ok s" "rates_ok (s\<lparr>sk_states := x6\<rparr>) = rates_ok s"
  "rates_ok (s\<lparr>sk_prev_rates := x7\<rparr>) = rates_ok s" "rates_ok (s\<lparr>sk_powers := x8\<rparr>) = rates_ok s"
  "rates_ok (s\<lparr>sk_pools := x9\<rparr>) = rates_ok s" "rates_ok (s\<lparr>sk_bonding := x10\<rparr>) = rates_ok s"
  "rates_ok (s\<lparr>sk_uptimes := x11\<rparr>) = rates_ok s" "rates_ok (s\<lparr>sk_disabled_at := x12\<rparr>) = rates_ok s"
  "rates_ok (s\<lparr>sk_index := x13\<rparr>) = rates_ok s" "rates_ok (s\<lparr>sk_key_owner := x14\<rparr>) = rates_ok s"
  "rates_ok (s\<lparr>sk_key_of_address := x15\<rparr>) = rates_ok s" "rates_ok (s\<lparr>sk_penalties := x16\<rparr>) = rates_ok s"
  "rates_ok (s\<lparr>sk_base_rate := x17\<rparr>) = rates_ok s" "rates_ok (s\<lparr>sk_changes_at := x18\<rparr>) = rates_ok s"
  "rates_ok (s\<lparr>sk_consensus_keys := x19\<rparr>) = rates_ok s" "rates_ok (s\<lparr>sk_denoms := x20\<rparr>) = rates_ok s"
  "rates_ok (s\<lparr>sk_end_epoch_early := x21\<rparr>) = rates_ok s" "rates_ok (s\<lparr>sk_prev_base_rate := x22\<rparr>) = rates_ok s"
  "rates_ok (s\<lparr>sk_changes_tally := x23\<rparr>) = rates_ok s" "rates_ok (s\<lparr>sk_funding_queue := x24\<rparr>) = rates_ok s"
  "rates_ok (s\<lparr>sk_comet_updates := x25\<rparr>) = rates_ok s" "rates_ok (s\<lparr>sk_issuance := x26\<rparr>) = rates_ok s"
  by (simp_all add: rates_ok_def)

lemma clock_frame [simp]:
  "clock_ok (s\<lparr>sk_params := x1\<rparr>) = clock_ok s" "clock_ok (s\<lparr>sk_epoch_duration := x2\<rparr>) = clock_ok s"
  "clock_ok (s\<lparr>sk_height := x3\<rparr>) = clock_ok s" "clock_ok (s\<lparr>sk_definitions := x4\<rparr>) = clock_ok s"
  "clock_ok (s\<lparr>sk_states := x5\<rparr>) = clock_ok s" "clock_ok (s\<lparr>sk_rates := x6\<rparr>) = clock_ok s"
  "clock_ok (s\<lparr>sk_prev_rates := x7\<rparr>) = clock_ok s" "clock_ok (s\<lparr>sk_powers := x8\<rparr>) = clock_ok s"
  "clock_ok (s\<lparr>sk_pools := x9\<rparr>) = clock_ok s" "clock_ok (s\<lparr>sk_bonding := x10\<rparr>) = clock_ok s"
  "clock_ok (s\<lparr>sk_uptimes := x11\<rparr>) = clock_ok s" "clock_ok (s\<lparr>sk_disabled_at := x12\<rparr>) = clock_ok s"
  "clock_ok (s\<lparr>sk_index := x13\<rparr>) = clock_ok s" "clock_ok (s\<lparr>sk_key_owner := x14\<rparr>) = clock_ok s"
  "clock_ok (s\<lparr>sk_key_of_address := x15\<rparr>) = clock_ok s" "clock_ok (s\<lparr>sk_penalties := x16\<rparr>) = clock_ok s"
  "clock_ok (s\<lparr>sk_base_rate := x17\<rparr>) = clock_ok s" "clock_ok (s\<lparr>sk_changes_at := x18\<rparr>) = clock_ok s"
  "clock_ok (s\<lparr>sk_consensus_keys := x19\<rparr>) = clock_ok s" "clock_ok (s\<lparr>sk_denoms := x20\<rparr>) = clock_ok s"
  "clock_ok (s\<lparr>sk_end_epoch_early := x21\<rparr>) = clock_ok s" "clock_ok (s\<lparr>sk_prev_base_rate := x22\<rparr>) = clock_ok s"
  "clock_ok (s\<lparr>sk_changes_tally := x23\<rparr>) = clock_ok s" "clock_ok (s\<lparr>sk_funding_queue := x24\<rparr>) = clock_ok s"
  "clock_ok (s\<lparr>sk_comet_updates := x25\<rparr>) = clock_ok s" "clock_ok (s\<lparr>sk_issuance := x26\<rparr>) = clock_ok s"
  by (simp_all add: clock_ok_def)

lemma penalties_frame [simp]:
  "penalties_ok (s\<lparr>sk_params := x1\<rparr>) = penalties_ok s" "penalties_ok (s\<lparr>sk_epoch_duration := x2\<rparr>) = penalties_ok s"
  "penalties_ok (s\<lparr>sk_height := x3\<rparr>) = penalties_ok s" "penalties_ok (s\<lparr>sk_epochs := x4\<rparr>) = penalties_ok s"
  "penalties_ok (s\<lparr>sk_definitions := x5\<rparr>) = penalties_ok s" "penalties_ok (s\<lparr>sk_states := x6\<rparr>) = penalties_ok s"
  "penalties_ok (s\<lparr>sk_rates := x7\<rparr>) = penalties_ok s" "penalties_ok (s\<lparr>sk_prev_rates := x8\<rparr>) = penalties_ok s"
  "penalties_ok (s\<lparr>sk_powers := x9\<rparr>) = penalties_ok s" "penalties_ok (s\<lparr>sk_pools := x10\<rparr>) = penalties_ok s"
  "penalties_ok (s\<lparr>sk_bonding := x11\<rparr>) = penalties_ok s" "penalties_ok (s\<lparr>sk_uptimes := x12\<rparr>) = penalties_ok s"
  "penalties_ok (s\<lparr>sk_disabled_at := x13\<rparr>) = penalties_ok s" "penalties_ok (s\<lparr>sk_index := x14\<rparr>) = penalties_ok s"
  "penalties_ok (s\<lparr>sk_key_owner := x15\<rparr>) = penalties_ok s" "penalties_ok (s\<lparr>sk_key_of_address := x16\<rparr>) = penalties_ok s"
  "penalties_ok (s\<lparr>sk_base_rate := x17\<rparr>) = penalties_ok s" "penalties_ok (s\<lparr>sk_changes_at := x18\<rparr>) = penalties_ok s"
  "penalties_ok (s\<lparr>sk_consensus_keys := x19\<rparr>) = penalties_ok s" "penalties_ok (s\<lparr>sk_denoms := x20\<rparr>) = penalties_ok s"
  "penalties_ok (s\<lparr>sk_end_epoch_early := x21\<rparr>) = penalties_ok s" "penalties_ok (s\<lparr>sk_prev_base_rate := x22\<rparr>) = penalties_ok s"
  "penalties_ok (s\<lparr>sk_changes_tally := x23\<rparr>) = penalties_ok s" "penalties_ok (s\<lparr>sk_funding_queue := x24\<rparr>) = penalties_ok s"
  "penalties_ok (s\<lparr>sk_comet_updates := x25\<rparr>) = penalties_ok s" "penalties_ok (s\<lparr>sk_issuance := x26\<rparr>) = penalties_ok s"
  by (simp_all add: penalties_ok_def)

definition same_at :: "stake_env \<Rightarrow> identity_key \<Rightarrow> stake_state \<Rightarrow> stake_state \<Rightarrow> bool" where
  "same_at env j s t \<longleftrightarrow> sk_states t j = sk_states s j \<and> sk_bonding t j = sk_bonding s j \<and> sk_uptimes t j = sk_uptimes s j
     \<and> sk_rates t j = sk_rates s j \<and> sk_prev_rates t j = sk_prev_rates s j \<and> sk_powers t j = sk_powers s j \<and> sk_pools t j = sk_pools s j
     \<and> sk_penalties t j = sk_penalties s j \<and> bt_get (sk_index t) (se_show_id env j) = bt_get (sk_index s) (se_show_id env j)"

lemma same_at_refl: "same_at env j s s"
  by (simp add: same_at_def)

lemma same_at_trans: "same_at env j s t \<Longrightarrow> same_at env j t u \<Longrightarrow> same_at env j s u"
  by (simp add: same_at_def)

lemma set_state_same:
  assumes m: "set_validator_state env i new s = Inr t" and inv: "index_ok env s" and show_inj: "inj (se_show_id env)" and j: "j \<noteq> i"
  shows "same_at env j s t"
proof -
  obtain old where "moved s t" "sk_states t = (sk_states s)(i \<mapsto> new)"
    and ix: "sk_index t = (if new = VInactive \<and> old \<in> {VDefined, VDisabled, VJailed} then bt_insert (se_show_id env i) i (sk_index s) else sk_index s)"
    and "sk_bonding t j = sk_bonding s j" "sk_uptimes t j = sk_uptimes s j" "sk_penalties t j = sk_penalties s j"
    by (rule set_state_moves [OF m]) (use j in blast)
  moreover have "bt_get (sk_index t) (se_show_id env j) = bt_get (sk_index s) (se_show_id env j)"
    using inv j injD [OF show_inj, of j i] by (auto simp: ix index_ok_def)
  ultimately show ?thesis using j by (simp add: same_at_def moved_fields)
qed

lemma set_state_unslashed:
  assumes m: "set_validator_state env i new s = Inr t" and new: "new \<noteq> VTombstoned" "new \<noteq> VJailed"
  shows "sk_penalties t = sk_penalties s" "moved s t" "sk_states t = (sk_states s)(i \<mapsto> new)"
proof -
  show "sk_penalties t = sk_penalties s" by (rule set_state_moves [OF m]) (use new in \<open>metis ext\<close>)
  show "moved s t" "sk_states t = (sk_states s)(i \<mapsto> new)" by (rule set_state_moves [OF m], assumption)+
qed

section \<open>The steps\<close>

lemma precursor_effect:
  assumes "try_precursor_transition env i st r supply s = Inr (final, t)" and "sk_states s i = Some st"
  obtains "st \<notin> {VDefined, VInactive, VActive}" "t = s" "final = None"
  | p u new where "st \<in> {VDefined, VInactive, VActive}" "sk_params s = Some p" "unbonded_amount r supply = Inr u"
    "new = (if u \<ge> sp_min_validator_stake p then (if st = VActive then VActive else VInactive) else VDefined)"
    "final = Some new" "if new = st then t = s else set_validator_state env i new s = Inr t"
  using assms
  by (auto simp: try_precursor_transition_def get_stake_params_def result_simps Let_def and_then_Inr_iff expect_Inr_iff ok_or_Inr_iff
      split: if_splits)

text \<open>A bonded pool does not become unbonded here, as unbonding takes at least a block.\<close>

lemma pool_state_effect:
  assumes "process_validator_pool_state i from s = Inr t"
  obtains b where "sk_bonding s i = Some b" "t = s \<or> t = s\<lparr>sk_bonding := (sk_bonding s)(i \<mapsto> Unbonded)\<rparr>"
    "b = Bonded \<Longrightarrow> sk_params s = Some p \<Longrightarrow> params_ok p \<Longrightarrow> unat from \<le> 2 ^ 63 \<Longrightarrow> t = s"
proof -
  obtain at where at: "compute_unbonding_height s i from = Inr at"
    and t: "t = (if from \<ge> get_or at from then set_validator_bonding_state i Unbonded s else s)"
    using assms by (auto simp: process_validator_pool_state_def result_simps)
  obtain b where b: "sk_bonding s i = Some b" using at by (auto simp: compute_unbonding_height_def split: option.splits)
  have "t = s" if *: "b = Bonded" "sk_params s = Some p" "params_ok p" "unat from \<le> 2 ^ 63"
  proof -
    have eq: "at = Some (saturating_add from (sp_unbonding_delay p))" using at unbonding_height_bonded [OF _ that(2)] b that(1) by simp
    have "0 < unat (sp_unbonding_delay p)" using that(3) by (simp add: params_ok_def word_less_nat_alt)
    moreover have "unat (- 1 :: u64) = 2 ^ 64 - 1" by (simp add: unsigned_minus_1_eq_mask mask_eq_exp_minus_1)
    ultimately have "from < saturating_add from (sp_unbonding_delay p)"
      using that(4) by (auto simp: saturating_add_def word_less_nat_alt unat_arith_simps)
    then show ?thesis by (simp add: t eq)
  qed
  then show thesis using that [OF b] t by (auto simp: set_validator_bonding_state_def)
qed

section \<open>One validator\<close>

lemma process_validatorE:
  assumes "process_validator env i e base dels undels s = Inr (reward, t)" and keys: "keys_ok s"
  obtains v st r0 r1 r2 s1 vp final s3 s4 where "sk_definitions s i = Some v" "v_identity v = i" "sk_states s i = Some st" "sk_rates s i = Some r0"
    "rate_slash r0 (get_or (get_penalty_in_epoch s i (ep_index e)) no_penalty) = Inr r1"
    "rate_next_epoch r1 base (v_funding_streams v) st = Inr r2"
    "apply_delegation_delta i dels undels (set_prev_validator_rate i r1 s) = Inr s1"
    "voting_power r2 (get_or (sk_pools s1 i) 0) = Inr vp" "unat vp \<le> MAX_VOTING_POWER"
    "try_precursor_transition env i st r2 (get_or (sk_pools s1 i) 0) (s1\<lparr>sk_rates := (sk_rates s1)(i \<mapsto> r2), sk_powers := (sk_powers s1)(i \<mapsto> vp)\<rparr>)
       = Inr (final, s3)"
    "process_validator_pool_state i (ep_start_height e) s3 = Inr s4"
    "t = (if belongs_in_index s4 i then s4 else remove_consensus_set_index env i s4)"
    "reward = (if st = VActive then Some (i, v_funding_streams v, get_or (sk_pools s1 i) 0) else None)"
proof -
  obtain v where v: "sk_definitions s i = Some v" using assms(1) by (auto simp: process_validator_def result_simps)
  then have vi: "v_identity v = i" using keys by (simp add: keys_ok_def)
  obtain st where st: "sk_states s i = Some st" using assms(1) by (auto simp: process_validator_def result_simps v vi)
  obtain r0 where r0: "sk_rates s i = Some r0" using assms(1) by (auto simp: process_validator_def result_simps v vi)
  obtain r1 r2 s1 vp s2 ae where r: "rate_slash r0 (get_or (get_penalty_in_epoch s i (ep_index e)) no_penalty) = Inr r1"
    "rate_next_epoch r1 base (v_funding_streams v) st = Inr r2"
    "apply_delegation_delta i dels undels (set_prev_validator_rate i r1 s) = Inr s1"
    and vp: "voting_power r2 (get_or (sk_pools s1 i) 0) = Inr vp"
    and s2: "set_validator_power i vp (set_validator_rate_data i r2 s1) = Inr s2"
    and s3: "try_precursor_transition env i st r2 (get_or (sk_pools s1 i) 0) s2 = Inr ae"
    and r4: "(case ae of (_, s) \<Rightarrow> and_then (process_validator_pool_state i (ep_start_height e) s) (\<lambda>s.
       Inr (if st = VActive then Some (i, v_funding_streams v, get_or (sk_pools s1 i) 0) else None,
         if belongs_in_index s i then s else remove_consensus_set_index env i s))) = Inr (reward, t)"
    using assms(1) unfolding process_validator_def Let_def v ok_or_simps and_then.simps vi st r0 no_penalty(1)
    by (elim and_then_InrE)
  obtain final s3' where ae: "ae = (final, s3')" by (cases ae)
  have s2eq: "s2 = s1\<lparr>sk_rates := (sk_rates s1)(i \<mapsto> r2), sk_powers := (sk_powers s1)(i \<mapsto> vp)\<rparr>" "unat vp \<le> MAX_VOTING_POWER"
    using s2 by (auto simp: set_validator_power_def set_validator_rate_data_def split: if_splits)
  obtain s4 where s4: "process_validator_pool_state i (ep_start_height e) s3' = Inr s4"
    "t = (if belongs_in_index s4 i then s4 else remove_consensus_set_index env i s4)"
    "reward = (if st = VActive then Some (i, v_funding_streams v, get_or (sk_pools s1 i) 0) else None)"
    using r4 unfolding ae prod.case by (elim and_then_InrE) auto
  show thesis by (rule that [OF v vi st r0 r vp s2eq(2) s3 [unfolded s2eq(1) ae] s4])
qed

text \<open>The pool changes by the difference of the two sums.\<close>

lemma delta_effect:
  assumes "apply_delegation_delta i dels undels s = Inr t"
  shows "t = s \<or> (\<exists>a. t = s\<lparr>sk_pools := (sk_pools s)(i \<mapsto> a)\<rparr>)"
  using assms by (auto simp: apply_delegation_delta_def Let_def expect_some_Inr_iff increase_validator_pool_size_def
      decrease_validator_pool_size_def set_validator_pool_size_def split: if_splits)

lemma sint_diff:
  fixes a b :: amount
  assumes "unat a < 2 ^ 127" "unat b < 2 ^ 127"
  shows "sint (a - b) = int (unat a) - int (unat b)"
proof -
  have small: "sint w = int (unat w)" if "unat w < 2 ^ 127" for w :: amount
  proof -
    have "int (unat w) < int (2 ^ 127)" by (rule of_nat_less_iff [THEN iffD2, OF that])
    then have "uint w < 2 ^ 127" "- (2 ^ 127) \<le> uint w" by (simp_all add: order_trans [OF _ uint_ge_0])
    then show ?thesis using signed_take_bit_int_eq_self [of 127 "uint w"] by (simp add: sint_uint)
  qed
  have "sint (a - b) = signed_take_bit 127 (int (unat a) - int (unat b))"
    unfolding sint_word_diff small [OF assms(1)] small [OF assms(2)] by simp
  moreover have "- (2 ^ 127) \<le> int (unat a) - int (unat b)" "int (unat a) - int (unat b) < 2 ^ 127"
  proof -
    have "int (unat a) < 2 ^ 127" "int (unat b) < 2 ^ 127" "0 \<le> int (unat a)" "0 \<le> int (unat b)"
      using assms by (simp_all only: of_nat_less_numeral_power_cancel_iff of_nat_0_le_iff)
    then show "- (2 ^ 127) \<le> int (unat a) - int (unat b)" "int (unat a) - int (unat b) < 2 ^ 127" by linarith+
  qed
  ultimately show ?thesis using signed_take_bit_int_eq_self [of 127 "int (unat a) - int (unat b)"] by simp
qed

lemma delta_exact:
  assumes small: "unat dels < 2 ^ 127" "unat undels < 2 ^ 127"
  shows "(\<exists>t. apply_delegation_delta i dels undels s = Inr t)
      \<longleftrightarrow> unat undels \<le> unat (get_or (sk_pools s i) 0) + unat dels \<and> unat (get_or (sk_pools s i) 0) + unat dels < 2 ^ 128 + unat undels"
    and "apply_delegation_delta i dels undels s = Inr t
      \<Longrightarrow> unat (get_or (sk_pools t i) 0) + unat undels = unat (get_or (sk_pools s i) 0) + unat dels"
proof -
  let ?p = "get_or (sk_pools s i) 0"
  have delta: "sint (dels - undels) = int (unat dels) - int (unat undels)" by (rule sint_diff [OF small])
  have p: "unat ?p < 2 ^ 128" by (rule u128_less)
  consider (gt) "unat undels < unat dels" | (lt) "unat dels < unat undels" | (eq) "unat dels = unat undels" by linarith
  then have "(if unat undels \<le> unat ?p + unat dels \<and> unat ?p + unat dels < 2 ^ 128 + unat undels
       then \<exists>t. apply_delegation_delta i dels undels s = Inr t \<and> unat (get_or (sk_pools t i) 0) + unat undels = unat ?p + unat dels
       else apply_delegation_delta i dels undels s = Inl Panic)"
  proof cases
    case gt
    have sign: "sint (dels - undels) > 0" "\<not> sint (dels - undels) < 0" unfolding delta using gt by linarith+
    have "unat (dels - undels) = unat dels - unat undels" using gt by (simp add: unat_arith_simps word_le_nat_alt)
    then show ?thesis using gt p unfolding apply_delegation_delta_def Let_def
      by (simp add: sign increase_validator_pool_size_def checked_add_def set_validator_pool_size_def unat_arith_simps)
        (intro conjI impI; linarith)
  next
    case lt
    have sign: "sint (dels - undels) < 0" "\<not> sint (dels - undels) > 0" unfolding delta using lt by linarith+
    have "unat (undels - dels) = unat undels - unat dels" using lt by (simp add: unat_arith_simps word_le_nat_alt)
    then show ?thesis using lt p unfolding apply_delegation_delta_def Let_def minus_diff_eq
      by (simp add: sign decrease_validator_pool_size_def checked_sub_def set_validator_pool_size_def unat_arith_simps word_le_nat_alt)
        (intro conjI impI; linarith)
  next
    case eq
    then show ?thesis using delta p by (simp add: apply_delegation_delta_def)
  qed
  then show "(\<exists>t. apply_delegation_delta i dels undels s = Inr t)
      \<longleftrightarrow> unat undels \<le> unat ?p + unat dels \<and> unat ?p + unat dels < 2 ^ 128 + unat undels"
    "apply_delegation_delta i dels undels s = Inr t \<Longrightarrow> unat (get_or (sk_pools t i) 0) + unat undels = unat ?p + unat dels"
    by (auto split: if_splits)
qed

text \<open>The state the validator moves to: the minimal stake decides, unless the validator is jailed, tombstoned or disabled.\<close>

definition state_after :: "stake_params \<Rightarrow> validator_state \<Rightarrow> amount \<Rightarrow> validator_state" where
  "state_after p st unbonded_pool =
     (if st \<notin> {VDefined, VInactive, VActive} then st
      else if unbonded_pool < sp_min_validator_stake p then VDefined
      else if st = VActive then VActive else VInactive)"

definition processed ::
    "stake_env \<Rightarrow> identity_key \<Rightarrow> epoch \<Rightarrow> base_rate_data \<Rightarrow> amount \<Rightarrow> amount \<Rightarrow> stake_state \<Rightarrow> reward_entry option \<Rightarrow> stake_state \<Rightarrow> bool" where
  "processed env i e base dels undels s reward t \<longleftrightarrow>
     (\<exists>p v st r0 r1 r2 vp. sk_params s = Some p \<and> sk_definitions s i = Some v \<and> sk_states s i = Some st \<and> sk_rates s i = Some r0
       \<and> rate_slash r0 (get_or (get_penalty_in_epoch s i (ep_index e)) no_penalty) = Inr r1 \<and> sk_prev_rates t i = Some r1
       \<and> rate_next_epoch r1 base (v_funding_streams v) st = Inr r2 \<and> sk_rates t i = Some r2
       \<and> (\<exists>u. apply_delegation_delta i dels undels (set_prev_validator_rate i r1 s) = Inr u \<and> sk_pools t i = sk_pools u i)
       \<and> voting_power r2 (get_or (sk_pools t i) 0) = Inr vp \<and> sk_powers t i = Some vp \<and> unat vp \<le> MAX_VOTING_POWER
       \<and> sk_states t i = Some (state_after p st vp)
       \<and> (bt_get (sk_index t) (se_show_id env i) = Some i \<longleftrightarrow> state_after p st vp \<in> {VActive, VInactive})
       \<and> reward = (if st = VActive then Some (i, v_funding_streams v, get_or (sk_pools t i) 0) else None))"

lemma inv_update:
  assumes "stake_inv env s" "sk_states s i \<noteq> None"
  shows "stake_inv env (s\<lparr>sk_prev_rates := a\<rparr>)" "rd_identity r = i \<Longrightarrow> stake_inv env (s\<lparr>sk_rates := (sk_rates s)(i \<mapsto> r)\<rparr>)"
    "stake_inv env (s\<lparr>sk_powers := (sk_powers s)(i \<mapsto> vp)\<rparr>)" "stake_inv env (s\<lparr>sk_pools := (sk_pools s)(i \<mapsto> x)\<rparr>)"
    "sk_bonding s i \<noteq> Some Bonded \<Longrightarrow> b \<noteq> Bonded \<Longrightarrow> stake_inv env (s\<lparr>sk_bonding := (sk_bonding s)(i \<mapsto> b)\<rparr>)"
  using assms by (simp_all add: stake_inv_def bonding_ok_def tracked_def tracked_at_def rates_ok_def)

lemma inv_deindex:
  assumes inv: "stake_inv env s" and out: "\<not> belongs_in_index s i" and show_inj: "inj (se_show_id env)"
  shows "stake_inv env (remove_consensus_set_index env i s)"
proof -
  have wf: "bt_wf (sk_index s)" using inv by (simp add: stake_inv_def index_ok_def)
  have "index_ok env (remove_consensus_set_index env i s)"
    unfolding index_ok_def remove_consensus_set_index_def
  proof (intro conjI allI impI)
    show "bt_wf (sk_index (s\<lparr>sk_index := bt_remove (se_show_id env i) (sk_index s)\<rparr>))" using wf by simp
  next
    fix k j assume "bt_get (sk_index (s\<lparr>sk_index := bt_remove (se_show_id env i) (sk_index s)\<rparr>)) k = Some j"
    then have "bt_get (sk_index s) k = Some j" using wf by (auto split: if_splits)
    then show "k = se_show_id env j" "sk_states (s\<lparr>sk_index := bt_remove (se_show_id env i) (sk_index s)\<rparr>) j \<noteq> None"
      using inv by (auto simp: stake_inv_def index_ok_def)
  next
    fix j assume "sk_states (s\<lparr>sk_index := bt_remove (se_show_id env i) (sk_index s)\<rparr>) j = Some VActive
      \<or> sk_states (s\<lparr>sk_index := bt_remove (se_show_id env i) (sk_index s)\<rparr>) j = Some VInactive"
    then have st: "sk_states s j = Some VActive \<or> sk_states s j = Some VInactive" by simp
    then have "j \<noteq> i" using out by (auto simp: belongs_in_index_def)
    then have "se_show_id env j \<noteq> se_show_id env i" using injD [OF show_inj] by blast
    moreover have "bt_get (sk_index s) (se_show_id env j) = Some j" using st inv unfolding stake_inv_def index_ok_def by blast
    ultimately show "bt_get (sk_index (s\<lparr>sk_index := bt_remove (se_show_id env i) (sk_index s)\<rparr>)) (se_show_id env j) = Some j"
      using wf by simp
  qed
  then show ?thesis using inv by (simp add: remove_consensus_set_index_def stake_inv_def)
qed

lemma slash_identity: "rate_slash r p = Inr t \<Longrightarrow> rd_identity t = rd_identity r"
  by (auto simp: rate_slash_def result_simps)

lemma next_identity: "rate_next_epoch r b fs st = Inr n \<Longrightarrow> rd_identity n = rd_identity r"
  by (auto simp: rate_next_epoch_def result_simps split: if_splits)

lemma pool_state_of_unbonded:
  assumes "process_validator_pool_state i from s = Inr t" "stake_inv env s" "unat from \<le> 2 ^ 63" "sk_states s i \<noteq> None"
  shows "t = s \<or> sk_bonding s i \<noteq> Some Bonded \<and> t = s\<lparr>sk_bonding := (sk_bonding s)(i \<mapsto> Unbonded)\<rparr>"
proof -
  obtain p where p: "sk_params s = Some p" "params_ok p" using assms(2) by (auto simp: stake_inv_def)
  obtain b where "sk_bonding s i = Some b" "t = s \<or> t = s\<lparr>sk_bonding := (sk_bonding s)(i \<mapsto> Unbonded)\<rparr>" "b = Bonded \<Longrightarrow> t = s"
    by (rule pool_state_effect [OF assms(1), of p]) (use p assms(3) in blast)
  then show ?thesis by auto
qed

lemma process_effect:
  assumes run: "process_validator env i e base dels undels s = Inr (reward, t)" and inv: "stake_inv env s"
    and show_inj: "inj (se_show_id env)" and start: "unat (ep_start_height e) \<le> 2 ^ 63"
  shows "stake_inv env t" "kept s t" "\<And>j. j \<noteq> i \<Longrightarrow> same_at env j s t" "sk_penalties t = sk_penalties s" "processed env i e base dels undels s reward t"
proof -
  have keys: "keys_ok s" using inv by (simp add: stake_inv_def)
  obtain v st r0 r1 r2 s1 vp final s3 s4 where v: "sk_definitions s i = Some v" "v_identity v = i" and st: "sk_states s i = Some st"
    and r0: "sk_rates s i = Some r0"
    and r1: "rate_slash r0 (get_or (get_penalty_in_epoch s i (ep_index e)) no_penalty) = Inr r1"
    and r2: "rate_next_epoch r1 base (v_funding_streams v) st = Inr r2"
    and s1: "apply_delegation_delta i dels undels (set_prev_validator_rate i r1 s) = Inr s1"
    and vp: "voting_power r2 (get_or (sk_pools s1 i) 0) = Inr vp" "unat vp \<le> MAX_VOTING_POWER"
    and s3: "try_precursor_transition env i st r2 (get_or (sk_pools s1 i) 0) (s1\<lparr>sk_rates := (sk_rates s1)(i \<mapsto> r2), sk_powers := (sk_powers s1)(i \<mapsto> vp)\<rparr>)
       = Inr (final, s3)"
    and s4: "process_validator_pool_state i (ep_start_height e) s3 = Inr s4"
    and t: "t = (if belongs_in_index s4 i then s4 else remove_consensus_set_index env i s4)"
    and reward: "reward = (if st = VActive then Some (i, v_funding_streams v, get_or (sk_pools s1 i) 0) else None)"
    by (rule process_validatorE [OF run keys])
  define s0 where "s0 = set_prev_validator_rate i r1 s"
  define s2 where "s2 = s1\<lparr>sk_rates := (sk_rates s1)(i \<mapsto> r2), sk_powers := (sk_powers s1)(i \<mapsto> vp)\<rparr>"
  have rid: "rd_identity r2 = i"
    using r0 inv slash_identity [OF r1] next_identity [OF r2] by (simp add: stake_inv_def rates_ok_def)
  have i0: "stake_inv env s0" "sk_states s0 i \<noteq> None"
    using inv_update(1) [OF inv, of i] st by (simp_all add: s0_def set_prev_validator_rate_def)
  have s1cases: "s1 = s0 \<or> (\<exists>a. s1 = s0\<lparr>sk_pools := (sk_pools s0)(i \<mapsto> a)\<rparr>)" using delta_effect [OF s1] by (simp add: s0_def)
  have i1: "stake_inv env s1" "sk_states s1 i \<noteq> None" using s1cases i0 inv_update(4) [OF i0] by auto
  have i1': "stake_inv env (s1\<lparr>sk_rates := (sk_rates s1)(i \<mapsto> r2)\<rparr>)" "sk_states (s1\<lparr>sk_rates := (sk_rates s1)(i \<mapsto> r2)\<rparr>) i \<noteq> None"
    using inv_update(2) [OF i1 rid] i1(2) by simp_all
  have i2: "stake_inv env s2" using inv_update(3) [OF i1'] by (simp add: s2_def)
  have k2: "kept s s2" "\<And>j. j \<noteq> i \<Longrightarrow> same_at env j s s2" "sk_penalties s2 = sk_penalties s" "sk_states s2 = sk_states s" "sk_bonding s2 = sk_bonding s"
    "sk_index s2 = sk_index s" "sk_rates s2 i = Some r2" "sk_powers s2 i = Some vp" "sk_prev_rates s2 i = Some r1" "sk_pools s2 = sk_pools s1"
    using s1cases by (auto simp: s2_def s0_def set_prev_validator_rate_def same_at_def kept_refl)
  obtain p where p: "sk_params s = Some p" using inv by (auto simp: stake_inv_def)
  have i3: "stake_inv env s3 \<and> kept s2 s3 \<and> (\<forall>j. j \<noteq> i \<longrightarrow> same_at env j s2 s3) \<and> sk_penalties s3 = sk_penalties s2
    \<and> sk_states s3 i = Some (state_after p st vp) \<and> sk_rates s3 = sk_rates s2 \<and> sk_powers s3 = sk_powers s2
    \<and> sk_prev_rates s3 = sk_prev_rates s2 \<and> sk_pools s3 = sk_pools s2"
  proof (rule precursor_effect [OF s3 [folded s2_def]])
    show "sk_states s2 i = Some st" using st k2(4) by simp
  next
    assume "st \<notin> {VDefined, VInactive, VActive}" "s3 = s2"
    then show ?thesis using i2 st k2(4) by (simp add: kept_refl same_at_refl state_after_def)
  next
    fix q u new
    assume a: "st \<in> {VDefined, VInactive, VActive}" "sk_params s2 = Some q" "unbonded_amount r2 (get_or (sk_pools s1 i) 0) = Inr u"
      "new = (if u \<ge> sp_min_validator_stake q then (if st = VActive then VActive else VInactive) else VDefined)"
      "if new = st then s3 = s2 else set_validator_state env i new s2 = Inr s3"
    have "q = p" using a(2) p kept_fields(1) [OF k2(1)] by simp
    moreover have "u = vp" using a(3) vp(1) by (simp add: voting_power_eq)
    ultimately have new: "new = state_after p st vp" using a(1,4) by (auto simp: state_after_def not_le)
    show ?thesis
    proof (cases "new = st")
      case True
      then show ?thesis using a(5) i2 st k2(4) new by (simp add: kept_refl same_at_refl)
    next
      case False
      then have m: "set_validator_state env i new s2 = Inr s3" using a(5) by simp
      have "new \<noteq> VTombstoned" "new \<noteq> VJailed" using a(4) by auto
      note o = set_state_unslashed [OF m this]
      show ?thesis
        using set_state_inv [OF m i2 show_inj] moved_kept [OF o(2)] set_state_same [OF m _ show_inj] i2 o(1,3) new moved_fields [OF o(2)]
        by (auto simp: stake_inv_def)
    qed
  qed
  have j3: "stake_inv env s3" "kept s2 s3" "\<And>j. j \<noteq> i \<Longrightarrow> same_at env j s2 s3" "sk_states s3 i = Some (state_after p st vp)" using i3 by blast+
  have s4cases: "s4 = s3 \<or> sk_bonding s3 i \<noteq> Some Bonded \<and> s4 = s3\<lparr>sk_bonding := (sk_bonding s3)(i \<mapsto> Unbonded)\<rparr>"
    using pool_state_of_unbonded [OF s4 j3(1) start] j3(4) by simp
  have i4: "stake_inv env s4" using s4cases j3(1) inv_update(5) [OF j3(1), of i Unbonded] j3(4) by auto
  have f4: "kept s3 s4" "sk_states s4 = sk_states s3" "sk_penalties s4 = sk_penalties s3" "sk_rates s4 = sk_rates s3"
      "sk_powers s4 = sk_powers s3" "sk_prev_rates s4 = sk_prev_rates s3" "sk_pools s4 = sk_pools s3"
    by (rule disjE [OF s4cases]; simp add: kept_refl)+
  have o4: "same_at env j s3 s4" if "j \<noteq> i" for j
    using s4cases that by (elim disjE) (simp_all add: same_at_def)
  have "stake_inv env t" using i4 inv_deindex [OF i4 _ show_inj] by (simp add: t)
  then show "stake_inv env t" .
  have wf: "bt_wf (sk_index s4)" using i4 by (simp add: stake_inv_def index_ok_def)
  have t4: "kept s4 t" "\<And>j. j \<noteq> i \<Longrightarrow> same_at env j s4 t" "sk_states t = sk_states s4"
      "sk_penalties t = sk_penalties s4" "sk_rates t = sk_rates s4" "sk_powers t = sk_powers s4" "sk_prev_rates t = sk_prev_rates s4" "sk_pools t = sk_pools s4"
    using wf injD [OF show_inj] by (simp_all add: t remove_consensus_set_index_def kept_refl same_at_refl) (auto simp: same_at_def)
  show "kept s t" using k2(1) j3(2) f4(1) t4(1) kept_trans by blast
  show "same_at env j s t" if "j \<noteq> i" for j
    using k2(2) [OF that] j3(3) [OF that] o4 [OF that] t4(2) [OF that] same_at_trans by blast
  show "sk_penalties t = sk_penalties s" using k2(3) i3 f4(3) t4(4) by simp
  have sti: "sk_states t i = Some (state_after p st vp)" using j3(4) f4(2) t4(3) by simp
  have b4: "belongs_in_index s4 i \<longleftrightarrow> state_after p st vp \<in> {VActive, VInactive}" using j3(4) f4(2) by (simp add: belongs_in_index_def)
  have "bt_get (sk_index t) (se_show_id env i) = Some i \<longleftrightarrow> state_after p st vp \<in> {VActive, VInactive}"
  proof (cases "belongs_in_index s4 i")
    case True
    then show ?thesis using i4 b4 sti t4(3) unfolding stake_inv_def index_ok_def t by auto
  next
    case False
    then show ?thesis using b4 wf by (simp add: t remove_consensus_set_index_def)
  qed
  moreover have "sk_rates t i = Some r2" "sk_powers t i = Some vp" "sk_prev_rates t i = Some r1" "sk_pools t i = sk_pools s1 i"
    using k2(7-10) i3 f4(4-7) t4(5-8) by simp_all
  ultimately show "processed env i e base dels undels s reward t"
    unfolding processed_def using p v(1) st r0 r1 r2 s1 vp reward sti
    by (intro exI [of _ p] exI [of _ v] exI [of _ st] exI [of _ r0] exI [of _ r1] exI [of _ r2] exI [of _ vp] conjI exI [of _ s1]; simp)
qed

end
