(* ===== verification/StakeActive.thy ===== *)
theory StakeActive
  imports StakeProcess "HOL-Library.Multiset"
begin

text \<open>
  The choice of the active set: the validators of the index with voting power, by decreasing power, are cut at the limit;
  those before become active and the others inactive. It never fails under the invariant.
\<close>

section \<open>Ranking\<close>

definition candidate :: "stake_state \<Rightarrow> identity_key \<Rightarrow> bool" where
  "candidate s i \<longleftrightarrow> sk_states s i = Some VActive \<or> sk_states s i = Some VInactive"

definition power_of :: "stake_state \<Rightarrow> identity_key \<Rightarrow> amount" where
  "power_of s i = get_or (sk_powers s i) 0"

definition ranked :: "stake_state \<Rightarrow> (identity_key \<times> amount) list" where
  "ranked s = sort_key (\<lambda>(_, vp). - int (unat vp))
     (map (\<lambda>i. (i, power_of s i)) (filter (\<lambda>i. candidate s i \<and> power_of s i \<noteq> 0) (consensus_set s)))"

definition powerless :: "stake_state \<Rightarrow> (identity_key \<times> amount) list" where
  "powerless s = map (\<lambda>i. (i, power_of s i)) (filter (\<lambda>i. candidate s i \<and> power_of s i = 0) (consensus_set s))"

lemma rank_fold:
  assumes "\<And>i. i \<in> set is \<Longrightarrow> sk_states s i \<noteq> None"
  shows "try_fold (rank_step s) is (xs, ys) = Inr
    (xs @ map (\<lambda>i. (i, power_of s i)) (filter (\<lambda>i. candidate s i \<and> power_of s i \<noteq> 0) is),
     ys @ map (\<lambda>i. (i, power_of s i)) (filter (\<lambda>i. candidate s i \<and> power_of s i = 0) is))"
  using assms
proof (induction "is" arbitrary: xs ys)
  case (Cons i "is")
  obtain st where "sk_states s i = Some st" using Cons.prems [of i] by auto
  then show ?case using Cons by (simp add: rank_step_def candidate_def power_of_def Let_def)
qed simp

definition actives :: "stake_state \<Rightarrow> stake_params \<Rightarrow> identity_key list" where
  "actives s p = map fst (take (unat (sp_active_validator_limit p)) (ranked s))"

definition inactives :: "stake_state \<Rightarrow> stake_params \<Rightarrow> identity_key list" where
  "inactives s p = map fst (drop (unat (sp_active_validator_limit p)) (ranked s) @ powerless s)"

lemma try_fold_fst: "try_fold (\<lambda>(i, _). f i) xs s = try_fold f (map fst xs) s"
proof (induction xs arbitrary: s)
  case (Cons x xs)
  then have "try_fold (\<lambda>(i, _). f i) xs = try_fold f (map fst xs)" by blast
  then show ?case by (cases x) simp
qed simp

lemma set_active_eq:
  assumes "index_ok env s" "sk_params s = Some p"
  shows "set_active_and_inactive_validators env s
    = and_then (try_fold (\<lambda>i. set_validator_state env i VActive) (actives s p) s)
        (try_fold (\<lambda>i. set_validator_state env i VInactive) (inactives s p))"
proof -
  have "sk_states s i \<noteq> None" if "i \<in> set (consensus_set s)" for i
    using that assms(1) consensus_set_iff(1) [OF assms(1)] unfolding index_ok_def by blast
  then have rank: "try_fold (rank_step s) (consensus_set s) ([], [])
      = Inr (map (\<lambda>i. (i, power_of s i)) (filter (\<lambda>i. candidate s i \<and> power_of s i \<noteq> 0) (consensus_set s)), powerless s)"
    by (simp add: rank_fold powerless_def)
  have m: "try_fold (\<lambda>(i, _). set_validator_state env i st) xs = try_fold (\<lambda>i. set_validator_state env i st) (map fst xs)"
    for st and xs :: "(identity_key \<times> amount) list"
    using try_fold_fst [of "\<lambda>i. set_validator_state env i st" xs] by blast
  show ?thesis
    unfolding set_active_and_inactive_validators_def rank and_then.simps prod.case Let_def get_stake_params_def assms(2) ok_or_simps m
      actives_def inactives_def ranked_def ..
qed

lemma ranked_set: "set (map fst (ranked s)) = {i \<in> set (consensus_set s). candidate s i \<and> power_of s i \<noteq> 0}"
  by (auto simp: ranked_def image_image)

lemma ranked_distinct:
  assumes "index_ok env s"
  shows "distinct (map fst (ranked s))" "distinct (actives s p @ inactives s p)"
proof -
  have d: "distinct (consensus_set s)" by (rule consensus_set_iff(2) [OF assms])
  let ?xs = "map (\<lambda>i. (i, power_of s i)) (filter (\<lambda>i. candidate s i \<and> power_of s i \<noteq> 0) (consensus_set s))"
  have "mset (ranked s) = mset ?xs" unfolding ranked_def by simp
  then have "mset (map fst (ranked s)) = mset (map fst ?xs)" unfolding mset_map by (rule arg_cong)
  moreover have "distinct (map fst ?xs)" using d by (simp add: o_def)
  ultimately show r: "distinct (map fst (ranked s))" using mset_eq_imp_distinct_iff by blast
  have z: "distinct (map fst (powerless s))" using d by (simp add: powerless_def o_def)
  have "set (map fst (ranked s)) \<inter> set (map fst (powerless s)) = {}" unfolding ranked_set by (auto simp: powerless_def)
  moreover have "actives s p @ inactives s p = map fst (ranked s) @ map fst (powerless s)"
    by (simp add: actives_def inactives_def flip: map_append append_assoc)
  ultimately show "distinct (actives s p @ inactives s p)" using r z by simp
qed

text \<open>No validator of the cut has less power than one after it.\<close>

lemma ranked_sorted: "sorted_wrt (\<lambda>x y. unat (snd y) \<le> unat (snd x)) (ranked s)"
proof -
  have "sorted (map (\<lambda>(_, vp). - int (unat vp)) (ranked s))" unfolding ranked_def by (rule sorted_sort_key)
  then have "sorted_wrt (\<lambda>x y. - int (unat (snd x)) \<le> - int (unat (snd y))) (ranked s)"
    unfolding sorted_map split_beta .
  moreover have "- int (unat (snd x)) \<le> - int (unat (snd y)) \<longleftrightarrow> unat (snd y) \<le> unat (snd x)" for x y :: "identity_key \<times> amount"
    by linarith
  ultimately show ?thesis by simp
qed

lemma ranked_power: "(i, vp) \<in> set (ranked s) \<Longrightarrow> vp = power_of s i"
  by (auto simp: ranked_def)

lemma actives_strongest:
  assumes "i \<in> set (actives s p)" "j \<in> set (inactives s p)"
  shows "unat (power_of s j) \<le> unat (power_of s i)"
proof (cases "j \<in> set (map fst (powerless s))")
  case True
  then show ?thesis by (auto simp: powerless_def)
next
  case False
  obtain x where x: "x \<in> set (take (unat (sp_active_validator_limit p)) (ranked s))" "fst x = i" using assms(1) by (auto simp: actives_def)
  obtain y where y: "y \<in> set (drop (unat (sp_active_validator_limit p)) (ranked s))" "fst y = j"
    using assms(2) False by (auto simp: inactives_def)
  have "sorted_wrt (\<lambda>x y. unat (snd y) \<le> unat (snd x))
      (take (unat (sp_active_validator_limit p)) (ranked s) @ drop (unat (sp_active_validator_limit p)) (ranked s))"
    unfolding append_take_drop_id by (rule ranked_sorted)
  then have "unat (snd y) \<le> unat (snd x)" using x(1) y(1) unfolding sorted_wrt_append by blast
  moreover have "snd x = power_of s i" "snd y = power_of s j"
    using ranked_power [of "fst x" "snd x" s] ranked_power [of "fst y" "snd y" s] x y by (auto dest: in_set_takeD in_set_dropD)
  ultimately show ?thesis by simp
qed

section \<open>The transitions\<close>

lemma set_states_total:
  assumes "stake_inv env s" "inj (se_show_id env)" "distinct is" "sk_height s = Some h" "sk_epochs s h = Some e"
    and "\<And>i. i \<in> set is \<Longrightarrow> candidate s i" and new: "new = VActive \<or> new = VInactive"
  shows "\<exists>t. try_fold (\<lambda>i. set_validator_state env i new) is s = Inr t \<and> stake_inv env t \<and> moved s t \<and> sk_penalties t = sk_penalties s
    \<and> sk_index t = sk_index s \<and> sk_end_epoch_early t = sk_end_epoch_early s
    \<and> (\<forall>j. sk_states t j = (if j \<in> set is then Some new else sk_states s j))"
  using assms(1,3-6)
proof (induction "is" arbitrary: s)
  case Nil
  then show ?case by (simp add: moved_refl)
next
  case (Cons i "is")
  obtain old where old: "sk_states s i = Some old" "old = VActive \<or> old = VInactive" using Cons.prems(5) [of i] by (auto simp: candidate_def)
  then have d: "old = new \<or> (old, new) \<in> diagram" using new by (auto simp: diagram_def)
  obtain u where u: "set_validator_state env i new s = Inr u"
    using set_state_total [OF Cons.prems(1) old(1) d Cons.prems(3,4)] by blast
  have n: "new \<noteq> VTombstoned" "new \<noteq> VJailed" using new by auto
  note U = set_state_unslashed [OF u n]
  have ix: "sk_index u = sk_index s" "sk_end_epoch_early u = sk_end_epoch_early s"
    by (rule set_state_moves [OF u]; use old new in auto)+
  have iu: "stake_inv env u" by (rule set_state_inv [OF u Cons.prems(1) assms(2)])
  have c: "candidate u j" if "j \<in> set is" for j
    using Cons.prems(5) [of j] that new by (auto simp: U(3) candidate_def)
  have hu: "sk_height u = Some h" "sk_epochs u h = Some e" using Cons.prems(3,4) moved_fields(3,4) [OF U(2)] by simp_all
  obtain t where t: "try_fold (\<lambda>i. set_validator_state env i new) is u = Inr t" "stake_inv env t" "moved u t" "sk_penalties t = sk_penalties u"
    "sk_index t = sk_index u" "sk_end_epoch_early t = sk_end_epoch_early u" "\<forall>j. sk_states t j = (if j \<in> set is then Some new else sk_states u j)"
    using Cons.IH [OF iu _ hu c] Cons.prems(2) by auto
  then show ?case using u ix U moved_trans [OF U(2) t(3)] by auto
qed

text \<open>The active set after the epoch: exactly the validators before the cut.\<close>

lemma set_active_total:
  assumes inv: "stake_inv env s" and show_inj: "inj (se_show_id env)" and h: "sk_height s = Some h" "sk_epochs s h = Some e"
    and p: "sk_params s = Some p"
  obtains t where "set_active_and_inactive_validators env s = Inr t" "stake_inv env t" "moved s t" "sk_penalties t = sk_penalties s"
    "sk_index t = sk_index s" "sk_end_epoch_early t = sk_end_epoch_early s"
    "\<And>j. sk_states t j = (if j \<in> set (actives s p) then Some VActive else if j \<in> set (inactives s p) then Some VInactive else sk_states s j)"
proof -
  have ix: "index_ok env s" using inv by (simp add: stake_inv_def)
  have sub: "candidate s i" if "i \<in> set (actives s p) \<or> i \<in> set (inactives s p)" for i
  proof -
    have "set (actives s p) \<subseteq> set (map fst (ranked s))" by (auto simp: actives_def dest: in_set_takeD)
    moreover have "set (inactives s p) \<subseteq> set (map fst (ranked s)) \<union> set (map fst (powerless s))" by (auto simp: inactives_def dest: in_set_dropD)
    ultimately show ?thesis using that unfolding ranked_set by (auto simp: powerless_def)
  qed
  have d: "distinct (actives s p)" "distinct (inactives s p)" "set (actives s p) \<inter> set (inactives s p) = {}"
    using ranked_distinct(2) [OF ix, of p] by auto
  obtain u where u: "try_fold (\<lambda>i. set_validator_state env i VActive) (actives s p) s = Inr u" "stake_inv env u" "moved s u"
    "sk_penalties u = sk_penalties s" "sk_index u = sk_index s" "sk_end_epoch_early u = sk_end_epoch_early s"
    "\<forall>j. sk_states u j = (if j \<in> set (actives s p) then Some VActive else sk_states s j)"
    using set_states_total [OF inv show_inj d(1) h, of VActive] sub by blast
  have hu: "sk_height u = Some h" "sk_epochs u h = Some e" using h moved_fields(3,4) [OF u(3)] by simp_all
  have cu: "candidate u i" if "i \<in> set (inactives s p)" for i
  proof -
    have "i \<notin> set (actives s p)" using d(3) that by blast
    then show ?thesis using sub [of i] that u(7) by (simp add: candidate_def)
  qed
  obtain t where t: "try_fold (\<lambda>i. set_validator_state env i VInactive) (inactives s p) u = Inr t" "stake_inv env t" "moved u t"
    "sk_penalties t = sk_penalties u" "sk_index t = sk_index u" "sk_end_epoch_early t = sk_end_epoch_early u"
    "\<forall>j. sk_states t j = (if j \<in> set (inactives s p) then Some VInactive else sk_states u j)"
    using set_states_total [OF u(2) show_inj d(2) hu, of VInactive] cu by blast
  have "set_active_and_inactive_validators env s = Inr t" using set_active_eq [OF ix p] u(1) t(1) by simp
  moreover have "sk_states t j = (if j \<in> set (actives s p) then Some VActive else if j \<in> set (inactives s p) then Some VInactive else sk_states s j)" for j
  proof -
    have "\<not> (j \<in> set (actives s p) \<and> j \<in> set (inactives s p))" using d(3) by blast
    then show ?thesis using t(7) u(7) by auto
  qed
  ultimately show thesis using that t u moved_trans [OF u(3) t(3)] by simp
qed

end
