(* ===== verification/StakeEpochs.thy ===== *)
theory StakeEpochs
  imports StakeActive
begin

text \<open>
  The end of an epoch as a whole: what it does to every validator, the rewards it queues, the base rate, and the conditions
  under which it does not fail.
\<close>

section \<open>All validators of the epoch\<close>

lemma delta_cong:
  assumes "apply_delegation_delta i dels undels s = Inr u" "sk_pools s' i = sk_pools s i"
  shows "\<exists>u'. apply_delegation_delta i dels undels s' = Inr u' \<and> sk_pools u' i = sk_pools u i"
  using assms by (auto simp: apply_delegation_delta_def Let_def expect_some_Inr_iff increase_validator_pool_size_def
      decrease_validator_pool_size_def set_validator_pool_size_def split: if_splits)

lemma processed_cong:
  assumes p: "processed env i e base dels undels s reward t" and s: "same_at env i s0 s" "sk_params s0 = sk_params s" "sk_definitions s0 = sk_definitions s" and t: "same_at env i t t1"
  shows "processed env i e base dels undels s0 reward t1"
proof -
  obtain p v st r0 r1 r2 vp u where P: "sk_params s = Some p" "sk_definitions s i = Some v" "sk_states s i = Some st" "sk_rates s i = Some r0"
    "rate_slash r0 (get_or (get_penalty_in_epoch s i (ep_index e)) no_penalty) = Inr r1" "sk_prev_rates t i = Some r1"
    "rate_next_epoch r1 base (v_funding_streams v) st = Inr r2" "sk_rates t i = Some r2"
    "apply_delegation_delta i dels undels (set_prev_validator_rate i r1 s) = Inr u" "sk_pools t i = sk_pools u i"
    "voting_power r2 (get_or (sk_pools t i) 0) = Inr vp" "sk_powers t i = Some vp" "unat vp \<le> MAX_VOTING_POWER"
    "sk_states t i = Some (state_after p st vp)"
    "bt_get (sk_index t) (se_show_id env i) = Some i \<longleftrightarrow> state_after p st vp \<in> {VActive, VInactive}"
    "reward = (if st = VActive then Some (i, v_funding_streams v, get_or (sk_pools t i) 0) else None)"
    using p unfolding processed_def by blast
  obtain u' where u': "apply_delegation_delta i dels undels (set_prev_validator_rate i r1 s0) = Inr u'" "sk_pools u' i = sk_pools u i"
    using delta_cong [OF P(9), of "set_prev_validator_rate i r1 s0"] s(1) by (auto simp: set_prev_validator_rate_def same_at_def)
  have s0: "sk_params s0 = Some p" "sk_definitions s0 i = Some v" "sk_states s0 i = Some st" "sk_rates s0 i = Some r0"
    "get_penalty_in_epoch s0 i (ep_index e) = get_penalty_in_epoch s i (ep_index e)"
    using P(1-4) s by (simp_all add: same_at_def get_penalty_in_epoch_def)
  have t1: "sk_prev_rates t1 i = sk_prev_rates t i" "sk_rates t1 i = sk_rates t i" "sk_pools t1 i = sk_pools t i" "sk_powers t1 i = sk_powers t i"
    "sk_states t1 i = sk_states t i" "bt_get (sk_index t1) (se_show_id env i) = bt_get (sk_index t) (se_show_id env i)"
    using t by (simp_all add: same_at_def)
  show ?thesis
    unfolding processed_def t1
    by (intro exI [of _ p] exI [of _ v] exI [of _ st] exI [of _ r0] exI [of _ r1] exI [of _ r2] exI [of _ vp] conjI exI [of _ u'])
      (use P s0 u' in \<open>simp_all only:\<close>)
qed

definition reward_entry_of :: "stake_state \<Rightarrow> stake_state \<Rightarrow> identity_key \<Rightarrow> reward_entry list" where
  "reward_entry_of s t i =
     (if sk_states s i = Some VActive
      then case sk_definitions s i of Some v \<Rightarrow> [(i, v_funding_streams v, get_or (sk_pools t i) 0)] | None \<Rightarrow> [] else [])"

lemma processed_reward:
  "processed env i e base dels undels s reward t
    \<Longrightarrow> (case reward of None \<Rightarrow> q | Some r \<Rightarrow> q @ [r]) = q @ reward_entry_of s t i"
  by (auto simp: processed_def reward_entry_of_def)

definition all_processed ::
    "stake_env \<Rightarrow> epoch \<Rightarrow> base_rate_data \<Rightarrow> tally \<Rightarrow> tally \<Rightarrow> identity_key set \<Rightarrow> stake_state \<Rightarrow> stake_state \<Rightarrow> bool" where
  "all_processed env e base ds us I s t \<longleftrightarrow> stake_inv env t \<and> kept s t \<and> sk_penalties t = sk_penalties s
     \<and> (\<forall>j. j \<notin> I \<longrightarrow> same_at env j s t)
     \<and> (\<forall>i \<in> I. \<exists>reward. processed env i e base (get_or (bt_get ds i) 0) (get_or (bt_get us i) 0) s reward t)"

lemma process_one_eq:
  "process_one env e base i ((ds, us, q), s)
    = and_then (process_validator env i e base (get_or (bt_get ds i) 0) (get_or (bt_get us i) 0) s)
        (\<lambda>(reward, u). Inr ((bt_remove i ds, bt_remove i us, case reward of None \<Rightarrow> q | Some r \<Rightarrow> q @ [r]), u))"
  by (simp add: process_one_def)

lemma loop_effect:
  assumes "try_fold (process_one env e base) is ((ds, us, q), s) = Inr ((ds', us', q'), t)" "distinct is" "bt_wf ds" "bt_wf us" "stake_inv env s"
    and show_inj: "inj (se_show_id env)" and start: "unat (ep_start_height e) \<le> 2 ^ 63"
  shows "all_processed env e base ds us (set is) s t \<and> q' = q @ concat (map (reward_entry_of s t) is)
    \<and> (\<forall>k. bt_get ds' k = (if k \<in> set is then None else bt_get ds k)) \<and> (\<forall>k. bt_get us' k = (if k \<in> set is then None else bt_get us k))"
  using assms(1-5)
proof (induction "is" arbitrary: ds us q s)
  case Nil
  then show ?case by (simp add: all_processed_def kept_refl same_at_refl)
next
  case (Cons i "is")
  obtain reward u where u: "process_validator env i e base (get_or (bt_get ds i) 0) (get_or (bt_get us i) 0) s = Inr (reward, u)"
    and r: "try_fold (process_one env e base) is ((bt_remove i ds, bt_remove i us, case reward of None \<Rightarrow> q | Some r \<Rightarrow> q @ [r]), u)
      = Inr ((ds', us', q'), t)"
    using Cons.prems(1) by (auto simp: process_one_eq result_simps)
  note U = process_effect [OF u Cons.prems(5) show_inj start]
  have new: "i \<notin> set is" "distinct is" using Cons.prems(2) by simp_all
  have IH: "all_processed env e base (bt_remove i ds) (bt_remove i us) (set is) u t"
    "q' = (case reward of None \<Rightarrow> q | Some r \<Rightarrow> q @ [r]) @ concat (map (reward_entry_of u t) is)"
    "\<forall>k. bt_get ds' k = (if k \<in> set is then None else bt_get (bt_remove i ds) k)"
    "\<forall>k. bt_get us' k = (if k \<in> set is then None else bt_get (bt_remove i us) k)"
    using Cons.IH [OF r new(2) _ _ U(1)] Cons.prems(3,4) by simp_all
  have keep: "kept u t" "same_at env i u t" using IH(1) new(1) by (simp_all add: all_processed_def)
  have ents: "reward_entry_of u t j = reward_entry_of s t j" if "j \<in> set is" for j
  proof -
    have "same_at env j s u" using U(3) that new(1) by metis
    then show ?thesis using kept_fields(5) [OF U(2)] by (simp add: reward_entry_of_def same_at_def)
  qed
  have "reward_entry_of s u i = reward_entry_of s t i" using keep(2) by (simp add: reward_entry_of_def same_at_def cong: option.case_cong)
  moreover have "map (reward_entry_of u t) is = map (reward_entry_of s t) is" using ents by simp
  then have "concat (map (reward_entry_of u t) is) = concat (map (reward_entry_of s t) is)" by (rule arg_cong)
  ultimately have "q' = q @ concat (map (reward_entry_of s t) (i # is))" unfolding IH(2) processed_reward [OF U(5)] by simp
  moreover have "all_processed env e base ds us (set (i # is)) s t"
    unfolding all_processed_def
  proof (intro conjI allI impI ballI)
    show "stake_inv env t" "kept s t" "sk_penalties t = sk_penalties s"
      using IH(1) U(2,4) kept_trans by (auto simp: all_processed_def)
  next
    fix j assume "j \<notin> set (i # is)"
    then have "same_at env j s u" "same_at env j u t" using U(3) IH(1) by (simp_all add: all_processed_def)
    then show "same_at env j s t" by (rule same_at_trans)
  next
    fix j assume j: "j \<in> set (i # is)"
    show "\<exists>reward. processed env j e base (get_or (bt_get ds j) 0) (get_or (bt_get us j) 0) s reward t"
    proof (cases "j = i")
      case True
      then show ?thesis using processed_cong [OF U(5) same_at_refl refl refl keep(2)] by blast
    next
      case False
      then obtain rw where "processed env j e base (get_or (bt_get ds j) 0) (get_or (bt_get us j) 0) u rw t"
        using IH(1) j Cons.prems(3,4) by (auto simp: all_processed_def)
      then show ?thesis using processed_cong [OF _ U(3) [OF False] kept_fields(1,5) [OF U(2), symmetric] same_at_refl] by blast
    qed
  qed
  ultimately show ?case using IH(3,4) Cons.prems(3,4) by auto
qed

lemma bt_all_removed:
  assumes "bt_wf m" "\<And>k. bt_get m k = None"
  shows "m = []"
proof (rule ccontr)
  assume "m \<noteq> []"
  then obtain k v r where "m = (k, v) # r" by (cases m) auto
  then show False using assms(2) [of k] by (simp add: bt_get_def)
qed

section \<open>The epoch\<close>

definition to_process :: "stake_state \<Rightarrow> tally \<Rightarrow> tally \<Rightarrow> identity_key list" where
  "to_process s ds us = sort (remdups (map fst ds @ map fst us @ consensus_set s))"

lemma base_rate_effect:
  assumes "process_chain_base_rate s = Inr (b, t)"
  obtains prev where "sk_base_rate s = Some prev" "t = s\<lparr>sk_base_rate := Some b, sk_prev_base_rate := Some prev\<rparr>"
  using assms unfolding process_chain_base_rate_def by (elim and_then_InrE) (auto simp: expect_some_Inr_iff)

lemma tally_wf: "bt_wf m \<Longrightarrow> bt_wf (fold tally_change xs m)"
  by (induction xs arbitrary: m) (auto simp: tally_change_def)

lemma collect_wf:
  assumes "collect_changes s a b = Inr (ds, us)"
  shows "bt_wf ds \<and> bt_wf us"
proof -
  have "(\<lambda>(ds, us). bt_wf ds \<and> bt_wf us) (ds, us)"
    by (rule try_fold_invariant [OF assms [unfolded collect_changes_def]])
      (auto simp: bt_wf_Nil collect_height_def result_simps tally_wf split: if_splits)
  then show ?thesis by simp
qed

lemma end_epochE:
  assumes "end_epoch env e s = Inr t"
  obtains h ds us base s1 q s2 where "sk_height s = Some h" "collect_changes s (ep_start_height e) h = Inr (ds, us)"
    "process_chain_base_rate s = Inr (base, s1)"
    "try_fold (process_one env e base) (to_process s ds us) ((ds, us, []), s1) = Inr (([], [], q), s2)"
    "set_active_and_inactive_validators env (s2\<lparr>sk_funding_queue := Some q\<rparr>) = Inr t"
proof -
  obtain h d bs where h: "get_block_height s = Inr h" and d: "collect_changes s (ep_start_height e) h = Inr d"
    and r: "(case d of (ds, us) \<Rightarrow> and_then (process_chain_base_rate s) (\<lambda>(next_base, s).
     let to_process = sort (remdups (map fst ds @ map fst us @ consensus_set s)) in
     and_then (try_fold (process_one env e next_base) to_process ((ds, us, []), s)) (\<lambda>((ds, us, queue), s).
     if ds \<noteq> [] \<or> us \<noteq> [] then Inl Panic
     else set_active_and_inactive_validators env (s\<lparr>sk_funding_queue := Some queue\<rparr>)))) = Inr t"
    using assms unfolding end_epoch_def by (elim and_then_InrE)
  obtain ds us where dd: "d = (ds, us)" by (cases d)
  obtain base s1 where b: "process_chain_base_rate s = Inr (base, s1)"
    and r1: "and_then (try_fold (process_one env e base) (sort (remdups (map fst ds @ map fst us @ consensus_set s1))) ((ds, us, []), s1)) (\<lambda>((ds, us, queue), s).
     if ds \<noteq> [] \<or> us \<noteq> [] then Inl Panic
     else set_active_and_inactive_validators env (s\<lparr>sk_funding_queue := Some queue\<rparr>)) = Inr t"
    using r unfolding dd prod.case Let_def by (elim and_then_InrE) auto
  have c: "consensus_set s1 = consensus_set s" by (rule base_rate_effect [OF b]) (simp add: consensus_set_def)
  obtain a b' q s2 where x: "try_fold (process_one env e base) (to_process s ds us) ((ds, us, []), s1) = Inr ((a, b', q), s2)"
    and r2: "(if a \<noteq> [] \<or> b' \<noteq> [] then Inl Panic else set_active_and_inactive_validators env (s2\<lparr>sk_funding_queue := Some q\<rparr>)) = Inr t"
    using r1 unfolding c to_process_def [symmetric] and_then_Inr_iff by (simp only: split_paired_Ex prod.case) blast
  then show thesis using that [OF _ d [unfolded dd] b, of q s2] h by (auto simp: get_block_height_def ok_or_Inr_iff split: if_splits)
qed

text \<open>
  What the epoch did: the validators with a change or in the index were processed, the others were left alone, the
  rewards of the active ones are queued, and the active set is the cut of the ranking.
\<close>

definition epoch_ended :: "stake_env \<Rightarrow> epoch \<Rightarrow> stake_state \<Rightarrow> stake_state \<Rightarrow> bool" where
  "epoch_ended env e s t \<longleftrightarrow>
     (\<exists>h ds us base p u. sk_height s = Some h \<and> collect_changes s (ep_start_height e) h = Inr (ds, us)
       \<and> (\<exists>s1. process_chain_base_rate s = Inr (base, s1)) \<and> sk_base_rate t = Some base \<and> sk_params s = Some p
       \<and> (\<forall>j. j \<notin> set (to_process s ds us) \<longrightarrow> same_at env j s u)
       \<and> (\<forall>i \<in> set (to_process s ds us). \<exists>reward. processed env i e base (get_or (bt_get ds i) 0) (get_or (bt_get us i) 0) s reward u)
       \<and> sk_rates t = sk_rates u \<and> sk_prev_rates t = sk_prev_rates u \<and> sk_powers t = sk_powers u \<and> sk_pools t = sk_pools u
       \<and> sk_penalties t = sk_penalties s \<and> sk_index t = sk_index u \<and> stake_inv env u
       \<and> sk_funding_queue t = Some (concat (map (reward_entry_of s t) (to_process s ds us)))
       \<and> (\<forall>j. sk_states t j = (if j \<in> set (actives u p) then Some VActive else if j \<in> set (inactives u p) then Some VInactive else sk_states u j)))"

lemma end_epoch_effect:
  assumes run: "end_epoch env e s = Inr t" and inv: "stake_inv env s" and show_inj: "inj (se_show_id env)"
    and start: "unat (ep_start_height e) \<le> 2 ^ 63" and now: "sk_height s = Some h" "sk_epochs s h = Some e'"
  shows "stake_inv env t" "epoch_ended env e s t"
    "sk_params t = sk_params s" "sk_definitions t = sk_definitions s" "sk_height t = sk_height s" "sk_epochs t = sk_epochs s"
    "sk_consensus_keys t = sk_consensus_keys s" "sk_key_owner t = sk_key_owner s"
proof -
  obtain ds us base s1 q s2 where d: "collect_changes s (ep_start_height e) h = Inr (ds, us)"
    and b: "process_chain_base_rate s = Inr (base, s1)"
    and l: "try_fold (process_one env e base) (to_process s ds us) ((ds, us, []), s1) = Inr (([], [], q), s2)"
    and a: "set_active_and_inactive_validators env (s2\<lparr>sk_funding_queue := Some q\<rparr>) = Inr t"
    by (rule end_epochE [OF run]) (use now(1) in auto)
  obtain prev where s1: "s1 = s\<lparr>sk_base_rate := Some base, sk_prev_base_rate := Some prev\<rparr>" by (rule base_rate_effect [OF b])
  obtain p where p: "sk_params s = Some p" using inv by (auto simp: stake_inv_def)
  have i1: "stake_inv env s1" using inv by (simp add: s1 stake_inv_def)
  have L: "all_processed env e base ds us (set (to_process s ds us)) s1 s2" "q = concat (map (reward_entry_of s1 s2) (to_process s ds us))"
    using loop_effect [OF l _ _ _ i1 show_inj start] collect_wf [OF d] by (simp_all add: to_process_def)
  let ?s3 = "s2\<lparr>sk_funding_queue := Some q\<rparr>"
  have i3: "stake_inv env ?s3" using L(1) by (simp add: all_processed_def stake_inv_def)
  have k: "kept s1 s2" using L(1) by (simp add: all_processed_def)
  note K = kept_fields [OF k]
  have n3: "sk_height ?s3 = Some h" "sk_epochs ?s3 h = Some e'" "sk_params ?s3 = Some p" using now p K by (simp_all add: s1)
  obtain t' where T: "set_active_and_inactive_validators env ?s3 = Inr t'" "stake_inv env t'" "moved ?s3 t'" "sk_penalties t' = sk_penalties ?s3"
    "sk_index t' = sk_index ?s3"
    "\<And>j. sk_states t' j = (if j \<in> set (actives ?s3 p) then Some VActive else if j \<in> set (inactives ?s3 p) then Some VInactive else sk_states ?s3 j)"
    by (rule set_active_total [OF i3 show_inj n3]) blast
  have t: "t' = t" using T(1) a by simp
  note M = moved_fields [OF T(3) [unfolded t]]
  show "stake_inv env t" using T(2) t by simp
  have same: "actives ?s3 p = actives s2 p" "inactives ?s3 p = inactives s2 p"
    by (simp_all add: actives_def inactives_def ranked_def powerless_def candidate_def power_of_def consensus_set_def)
  show "sk_params t = sk_params s" "sk_definitions t = sk_definitions s" "sk_height t = sk_height s" "sk_epochs t = sk_epochs s"
    "sk_consensus_keys t = sk_consensus_keys s" "sk_key_owner t = sk_key_owner s" using K M by (simp_all add: s1)
  have ss: "same_at env j s s1" for j by (simp add: s1 same_at_def)
  have sr: "reward_entry_of s1 s2 = reward_entry_of s s2" by (rule ext) (simp add: s1 reward_entry_of_def split: option.splits)
  have far: "same_at env j s s2" if "j \<notin> set (to_process s ds us)" for j
    using same_at_trans [OF ss] L(1) that by (simp add: all_processed_def)
  have near: "\<exists>reward. processed env i e base (get_or (bt_get ds i) 0) (get_or (bt_get us i) 0) s reward s2" if m: "i \<in> set (to_process s ds us)" for i
  proof -
    obtain rw where "processed env i e base (get_or (bt_get ds i) 0) (get_or (bt_get us i) 0) s1 rw s2"
      using L(1) m unfolding all_processed_def by blast
    then show ?thesis using processed_cong [OF _ ss _ _ same_at_refl] s1 by fastforce
  qed
  have "sk_pools t = sk_pools s2" using M by simp
  then have "reward_entry_of s s2 = reward_entry_of s t" by (intro ext) (simp add: reward_entry_of_def split: option.splits)
  then have queue: "sk_funding_queue t = Some (concat (map (reward_entry_of s t) (to_process s ds us)))" using M L(2) sr by simp
  have pen: "sk_penalties t = sk_penalties s" "sk_index t = sk_index s2" "stake_inv env s2"
    using T(4,5) t L(1) by (simp_all add: all_processed_def s1)
  have states: "sk_states t j = (if j \<in> set (actives s2 p) then Some VActive else if j \<in> set (inactives s2 p) then Some VInactive else sk_states s2 j)" for j
    using T(6) [of j] unfolding same t by simp
  show "epoch_ended env e s t"
    unfolding epoch_ended_def
    by (rule exI [of _ h], rule exI [of _ ds], rule exI [of _ us], rule exI [of _ base], rule exI [of _ p], rule exI [of _ s2],
        intro conjI allI impI ballI) (use now d b p M K s1 far near queue pen states in simp_all)
qed

end
