(* ===== verification/StakeUpdates.thy ===== *)
theory StakeUpdates
  imports StakeEpochs
begin

text \<open>
  The validator updates for CometBFT: each active validator with voting power is reported with it, every key CometBFT knew and
  that is not reported is removed, and nothing else is sent. Under the invariant no two validators share a key, so the
  order in which the powers are collected does not matter.
\<close>

section \<open>Lists of entries in key order\<close>

lemma bt_wf_filter: "bt_wf m \<Longrightarrow> bt_wf (filter P m)"
  unfolding bt_wf_def by (induction m) auto

lemma bt_get_filter:
  "bt_wf m \<Longrightarrow> bt_get (filter P m) k = (case bt_get m k of Some v \<Rightarrow> if P (k, v) then Some v else None | None \<Rightarrow> None)"
proof (induction m)
  case (Cons x m)
  obtain k' v where x: "x = (k', v)" by (cases x)
  have "k' \<notin> fst ` set m" "bt_wf m" using Cons.prems by (auto simp: x bt_wf_Cons)
  then have "map_of m k' = None" "map_of (filter P m) k' = None" by (auto simp: map_of_eq_None_iff)
  then show ?case using Cons.IH \<open>bt_wf m\<close> by (auto simp: x bt_get_def split: option.splits)
qed (simp add: bt_get_def)

lemma bt_get_iff: "bt_wf m \<Longrightarrow> bt_get m k = Some v \<longleftrightarrow> (k, v) \<in> set m"
  unfolding bt_get_def bt_wf_def strict_sorted_iff by (metis map_of_eq_Some_iff)

lemma or_insert_fold:
  "bt_wf m \<Longrightarrow> bt_wf (fold or_insert_zero ks m)
     \<and> bt_get (fold or_insert_zero ks m) k = (case bt_get m k of Some v \<Rightarrow> Some v | None \<Rightarrow> if k \<in> set ks then Some 0 else None)"
proof (induction ks arbitrary: m)
  case (Cons c ks)
  have wf: "bt_wf (or_insert_zero c m)" using Cons.prems by (simp add: or_insert_zero_def)
  have "bt_get (or_insert_zero c m) k = (case bt_get m k of Some v \<Rightarrow> Some v | None \<Rightarrow> if k = c then Some 0 else None)"
    using Cons.prems by (auto simp: or_insert_zero_def split: option.splits)
  then show ?case using Cons.IH [OF wf] by (simp split: option.splits)
qed (simp split: option.splits)

section \<open>Collecting the powers\<close>

definition key_of :: "stake_state \<Rightarrow> identity_key \<Rightarrow> consensus_key" where
  "key_of s i = (case sk_definitions s i of Some v \<Rightarrow> v_consensus_key v | None \<Rightarrow> [])"

definition counted_power :: "stake_state \<Rightarrow> identity_key \<Rightarrow> amount" where
  "counted_power s i = (if sk_states s i = Some VActive then power_of s i else 0)"

lemma key_of_inj:
  assumes "keys_ok s" "sk_definitions s i \<noteq> None" "sk_definitions s j \<noteq> None" "key_of s i = key_of s j"
  shows "i = j"
proof -
  obtain v w where v: "sk_definitions s i = Some v" "sk_definitions s j = Some w" using assms(2,3) by blast
  then have "sk_key_owner s (v_consensus_key v) = Some i" "sk_key_owner s (v_consensus_key w) = Some j"
    using assms(1) unfolding keys_ok_def by blast+
  then show ?thesis using assms(4) v by (simp add: key_of_def)
qed

lemma collect_powers:
  assumes inv: "tracked s" "keys_ok s" and known: "\<And>i. i \<in> set is \<Longrightarrow> sk_states s i \<noteq> None" and "distinct is" "bt_wf m"
  shows "\<exists>m'. try_fold (effective_power s) is m = Inr m' \<and> bt_wf m'
    \<and> (\<forall>ck vp. bt_get m' ck = Some vp \<longleftrightarrow>
         (\<exists>i \<in> set is. ck = key_of s i \<and> vp = counted_power s i) \<or> (bt_get m ck = Some vp \<and> ck \<notin> key_of s ` set is))"
  using known assms(4,5)
proof (induction "is" arbitrary: m)
  case (Cons i "is")
  have "tracked_at s i" using inv(1) by (simp add: tracked_def)
  moreover obtain st where st: "sk_states s i = Some st" using Cons.prems(1) [of i] by auto
  ultimately obtain v vp where v: "sk_definitions s i = Some v" "sk_powers s i = Some vp" by (auto simp: tracked_at_def)
  have step: "effective_power s i m = Inr (bt_insert (key_of s i) (counted_power s i) m)"
    using v st by (simp add: effective_power_def fetch_validator_consensus_key_def key_of_def counted_power_def power_of_def)
  have other: "key_of s i \<notin> key_of s ` set is"
  proof
    assume "key_of s i \<in> key_of s ` set is"
    then obtain j where j: "j \<in> set is" "key_of s i = key_of s j" by blast
    have "sk_definitions s j \<noteq> None" using Cons.prems(1) [of j] j(1) inv(1) by (simp add: tracked_def tracked_at_def)
    then have "i = j" using key_of_inj [OF inv(2) _ _ j(2)] v by simp
    then show False using Cons.prems(2) j(1) by simp
  qed
  obtain m' where m': "try_fold (effective_power s) is (bt_insert (key_of s i) (counted_power s i) m) = Inr m'" "bt_wf m'"
    "\<forall>ck vp. bt_get m' ck = Some vp \<longleftrightarrow> (\<exists>i \<in> set is. ck = key_of s i \<and> vp = counted_power s i)
       \<or> (bt_get (bt_insert (key_of s i) (counted_power s i) m) ck = Some vp \<and> ck \<notin> key_of s ` set is)"
    using Cons.IH [of "bt_insert (key_of s i) (counted_power s i) m"] Cons.prems by auto
  then show ?case using step other Cons.prems(3) by (auto simp: m'(3))
qed simp

lemma comet_fold:
  "(\<And>ck vp. (ck, vp) \<in> set m \<Longrightarrow> unat vp < 2 ^ 63)
    \<Longrightarrow> try_fold comet_update m acc = Inr (acc @ map (\<lambda>(ck, vp). (ck, ucast vp)) m)"
proof (induction m arbitrary: acc)
  case (Cons x m)
  obtain ck vp where x: "x = (ck, vp)" by (cases x)
  have "unat (ucast vp :: u64) = unat vp" using Cons.prems [of ck vp] by (simp add: x unsigned_ucast_eq take_bit_nat_eq_self)
  then have "comet_update x acc = Inr (acc @ [(ck, ucast vp)])" using Cons.prems [of ck vp] by (simp add: x comet_update_def)
  moreover have "try_fold comet_update m (acc @ [(ck, ucast vp)]) = Inr ((acc @ [(ck, ucast vp)]) @ map (\<lambda>(ck, vp). (ck, ucast vp)) m)"
    by (rule Cons.IH) (use Cons.prems in auto)
  ultimately show ?case by (simp add: x)
qed simp

lemma image_pairs: "(\<lambda>(k, v). (k, f v)) ` A = {(k, f v) |k v. (k, v) \<in> A}"
proof (intro equalityI subsetI)
  fix x assume "x \<in> {(k, f v) |k v. (k, v) \<in> A}"
  then obtain k v where "x = (k, f v)" "(k, v) \<in> A" by blast
  then show "x \<in> (\<lambda>(k, v). (k, f v)) ` A" by (intro image_eqI [of _ _ "(k, v)"]) simp_all
qed auto

text \<open>The keys of the active validators with voting power.\<close>

definition voting_keys :: "stake_state \<Rightarrow> (consensus_key \<times> amount) set" where
  "voting_keys s = {(key_of s i, power_of s i) |i. sk_states s i = Some VActive \<and> power_of s i \<noteq> 0}"

definition powers_ok :: "stake_state \<Rightarrow> bool" where
  "powers_ok s \<longleftrightarrow> (\<forall>i vp. sk_powers s i = Some vp \<longrightarrow> unat vp \<le> MAX_VOTING_POWER)"

lemma updates_exact:
  assumes inv: "stake_inv env s" and pow: "powers_ok s" and cur: "sk_consensus_keys s = Some current"
  obtains us ks where "build_cometbft_validator_updates s = Inr (s\<lparr>sk_comet_updates := Some us, sk_consensus_keys := Some ks\<rparr>)"
    "distinct (map fst us)" "distinct ks" "set ks = fst ` voting_keys s"
    "set us = {(ck, ucast vp) |ck vp. (ck, vp) \<in> voting_keys s} \<union> {(ck, 0) |ck. ck \<in> set current \<and> ck \<notin> fst ` voting_keys s}"
proof -
  have ix: "index_ok env s" and tr: "tracked s" and keys: "keys_ok s" using inv by (simp_all add: stake_inv_def)
  have known: "sk_states s i \<noteq> None" if "i \<in> set (consensus_set s)" for i
    using that consensus_set_iff(1) [OF ix] ix unfolding index_ok_def by blast
  obtain m where m: "try_fold (effective_power s) (consensus_set s) [] = Inr m" "bt_wf m"
    "\<forall>ck vp. bt_get m ck = Some vp \<longleftrightarrow> (\<exists>i \<in> set (consensus_set s). ck = key_of s i \<and> vp = counted_power s i)"
    using collect_powers [OF tr keys known consensus_set_iff(2) [OF ix], of "[]"] by (auto simp: bt_get_def bt_wf_Nil)
  define f where "f = filter (\<lambda>(ck, vp). vp > 0 \<or> ck \<in> set current) m"
  define g where "g = fold or_insert_zero (sort (remdups current)) f"
  have wf: "bt_wf f" "bt_wf g" using m(2) or_insert_fold [of f] by (simp_all add: f_def g_def bt_wf_filter)
  have active: "i \<in> set (consensus_set s)" if "sk_states s i = Some VActive" for i
    using that consensus_set_iff(1) [OF ix] ix unfolding index_ok_def by blast
  have big: "bt_get m ck = Some vp \<and> vp \<noteq> 0 \<longleftrightarrow> (ck, vp) \<in> voting_keys s" for ck vp
    using m(3) active by (auto simp: voting_keys_def counted_power_def)
  have getg: "bt_get g ck = Some vp \<longleftrightarrow> (ck, vp) \<in> voting_keys s \<or> (vp = 0 \<and> ck \<in> set current \<and> ck \<notin> fst ` voting_keys s)" for ck vp
  proof -
    have "bt_get g ck = (case bt_get f ck of Some v \<Rightarrow> Some v | None \<Rightarrow> if ck \<in> set current then Some 0 else None)"
      using or_insert_fold [OF wf(1), of "sort (remdups current)" ck] by (simp add: g_def)
    also have "bt_get f ck = (case bt_get m ck of Some v \<Rightarrow> if v > 0 \<or> ck \<in> set current then Some v else None | None \<Rightarrow> None)"
      unfolding f_def bt_get_filter [OF m(2)] prod.case ..
    finally have g: "bt_get g ck = (case bt_get m ck of Some v \<Rightarrow> if v \<noteq> 0 \<or> ck \<in> set current then Some v else None
      | None \<Rightarrow> if ck \<in> set current then Some 0 else None)"
      by (auto simp: word_gt_0 split: option.splits)
    have no: "ck \<notin> fst ` voting_keys s \<longleftrightarrow> (\<forall>w. bt_get m ck = Some w \<longrightarrow> w = 0)" using big [of ck] by force
    show ?thesis unfolding g no using big [of ck vp] by (auto split: option.splits)
  qed
  have mem: "(ck, vp) \<in> set g \<longleftrightarrow> (ck, vp) \<in> voting_keys s \<or> (vp = 0 \<and> ck \<in> set current \<and> ck \<notin> fst ` voting_keys s)" for ck vp
    using getg bt_get_iff [OF wf(2)] by metis
  have small: "unat vp < 2 ^ 63" if "(ck, vp) \<in> set g" for ck vp
  proof -
    have "unat (power_of s i) \<le> MAX_VOTING_POWER" for i using pow by (cases "sk_powers s i") (auto simp: powers_ok_def power_of_def)
    then have "unat vp \<le> MAX_VOTING_POWER" using that unfolding mem by (auto simp: voting_keys_def)
    then show ?thesis by (simp add: MAX_VOTING_POWER_def)
  qed
  let ?us = "map (\<lambda>(ck, vp). (ck, ucast vp :: u64)) g" and ?ks = "map fst (filter (\<lambda>(_, vp). vp \<noteq> 0) g)"
  have nonzero: "vp \<noteq> 0" if "(ck, vp) \<in> voting_keys s" for ck vp using that by (auto simp: voting_keys_def)
  show thesis
  proof (rule that)
    show "build_cometbft_validator_updates s = Inr (s\<lparr>sk_comet_updates := Some ?us, sk_consensus_keys := Some ?ks\<rparr>)"
      using comet_fold [of g "[]"] small m(1)
      by (simp add: build_cometbft_validator_updates_def cur Let_def flip: f_def g_def)
    have "distinct (map fst g)" using wf(2) by (simp add: bt_wf_def strict_sorted_iff)
    then show "distinct (map fst ?us)" "distinct ?ks" by (simp_all add: comp_def split_beta distinct_map_filter)
    show "set ?ks = fst ` voting_keys s" using mem nonzero by force
    have "set g = voting_keys s \<union> (\<lambda>ck. (ck, 0)) ` {ck. ck \<in> set current \<and> ck \<notin> fst ` voting_keys s}"
      using mem by (intro set_eqI) (simp only: split_paired_all, blast)
    then have "set ?us = (\<lambda>(ck, vp). (ck, ucast vp)) ` voting_keys s \<union> (\<lambda>ck. (ck, 0)) ` {ck. ck \<in> set current \<and> ck \<notin> fst ` voting_keys s}"
      by (simp add: image_Un image_image)
    also have "(\<lambda>(ck, vp). (ck, ucast vp)) ` voting_keys s = {(ck, ucast vp) |ck vp. (ck, vp) \<in> voting_keys s}"
      by (rule image_pairs)
    also have "(\<lambda>ck. (ck, 0)) ` {ck. ck \<in> set current \<and> ck \<notin> fst ` voting_keys s} = {(ck, 0) |ck. ck \<in> set current \<and> ck \<notin> fst ` voting_keys s}"
      by blast
    finally show "set ?us = {(ck, ucast vp) |ck vp. (ck, vp) \<in> voting_keys s} \<union> {(ck, 0) |ck. ck \<in> set current \<and> ck \<notin> fst ` voting_keys s}" .
  qed
qed

end
