(* ===== verification/StakeMachine.thy ===== *)
theory StakeMachine
  imports StakeUpdates
begin

text \<open>
  The staking component as a state machine: the events of a chain as a step relation, who may move a validator along which
  edges of its state machine, and the invariant of the states reachable from genesis.
\<close>

section \<open>Who moves a validator\<close>

definition evidence_edges :: "(validator_state \<times> validator_state) set" where
  "evidence_edges = {(st, VTombstoned) |st. True}"

definition uptime_edges :: "(validator_state \<times> validator_state) set" where
  "uptime_edges = {(VActive, VJailed)}"

definition epoch_edges :: "(validator_state \<times> validator_state) set" where
  "epoch_edges = {VDefined, VInactive, VActive} \<times> {VDefined, VInactive, VActive}"

definition operator_edges :: "(validator_state \<times> validator_state) set" where
  "operator_edges = {VDefined, VInactive, VActive, VJailed} \<times> {VDisabled} \<union> {VDisabled, VJailed} \<times> {VInactive, VDefined}"

definition advances :: "(validator_state \<times> validator_state) set \<Rightarrow> stake_state \<Rightarrow> stake_state \<Rightarrow> bool" where
  "advances E s t \<longleftrightarrow> (\<forall>i st. sk_states s i = Some st \<longrightarrow> (\<exists>st'. sk_states t i = Some st' \<and> (st, st') \<in> E\<^sup>*))"

lemma advances_refl: "sk_states t = sk_states s \<Longrightarrow> advances E s t"
  by (simp add: advances_def)

lemma advances_trans: "advances E s t \<Longrightarrow> advances E t u \<Longrightarrow> advances E s u"
  unfolding advances_def by (meson rtrancl_trans)

lemma advances_mono: "advances E s t \<Longrightarrow> E \<subseteq> F \<Longrightarrow> advances F s t"
  unfolding advances_def by (meson rtrancl_mono subsetD)

lemma set_state_advances:
  assumes "set_validator_state env i new s = Inr t" "\<And>old. sk_states s i = Some old \<Longrightarrow> old \<noteq> new \<Longrightarrow> (old, new) \<in> E"
  shows "advances E s t"
proof -
  obtain old where "sk_states s i = Some old" "sk_states t = (sk_states s)(i \<mapsto> new)" by (rule set_state_moves [OF assms(1)])
  then show ?thesis using assms(2) [of old] by (cases "old = new") (auto simp: advances_def)
qed

definition good :: "stake_env \<Rightarrow> stake_state \<Rightarrow> bool" where
  "good env s \<longleftrightarrow> stake_inv env s \<and> powers_ok s"

lemma powers_frame [simp]:
  "powers_ok (s\<lparr>sk_uptimes := a\<rparr>) = powers_ok s" "powers_ok (s\<lparr>sk_changes_tally := b\<rparr>) = powers_ok s" "powers_ok (s\<lparr>sk_denoms := c\<rparr>) = powers_ok s"
  "powers_ok (s\<lparr>sk_changes_at := d\<rparr>) = powers_ok s" "powers_ok (s\<lparr>sk_height := e\<rparr>) = powers_ok s" "powers_ok (s\<lparr>sk_epochs := f\<rparr>) = powers_ok s"
  "powers_ok (s\<lparr>sk_issuance := g\<rparr>) = powers_ok s" "powers_ok (s\<lparr>sk_definitions := h\<rparr>) = powers_ok s"
  "powers_ok (s\<lparr>sk_key_owner := k\<rparr>) = powers_ok s" "powers_ok (s\<lparr>sk_key_of_address := l\<rparr>) = powers_ok s"
  "powers_ok (s\<lparr>sk_comet_updates := m\<rparr>) = powers_ok s" "powers_ok (s\<lparr>sk_consensus_keys := n\<rparr>) = powers_ok s"
  "powers_ok (s\<lparr>sk_pools := q\<rparr>) = powers_ok s"
  by (simp_all add: powers_ok_def)

lemma set_state_good:
  "set_validator_state env i new s = Inr t \<Longrightarrow> good env s \<Longrightarrow> inj (se_show_id env) \<Longrightarrow> good env t"
proof -
  assume m: "set_validator_state env i new s = Inr t" and g: "good env s" and show_inj: "inj (se_show_id env)"
  have "moved s t" by (rule set_state_moves [OF m])
  then have "powers_ok t" using g moved_fields(8) [of s t] by (simp add: good_def powers_ok_def)
  then show "good env t" using set_state_inv [OF m _ show_inj] g by (simp add: good_def)
qed

section \<open>The start of a block\<close>

lemma evidence_good:
  assumes "process_evidence_or_ignore env a s = Inr t" "good env s" "inj (se_show_id env)"
  shows "good env t \<and> advances evidence_edges s t"
proof (cases "process_evidence env a s")
  case (Inl x)
  then show ?thesis using assms by (cases x) (simp_all add: process_evidence_or_ignore_def advances_refl)
next
  case (Inr u)
  then obtain v where "get_validator_definition_by_cometbft_address s a = Some v" "set_validator_state env (v_identity v) VTombstoned s = Inr u" by (auto simp: process_evidence_def result_simps)
  moreover have "u = t" using assms(1) Inr by (simp add: process_evidence_or_ignore_def)
  ultimately show ?thesis using set_state_good assms(2,3) set_state_advances [of env "v_identity v" VTombstoned s t evidence_edges]
    by (auto simp: evidence_edges_def)
qed

lemma uptime_good:
  assumes "process_validator_uptime env votes p h (i, ck, u) s = Inr t" "good env s" "inj (se_show_id env)"
    and "sk_states s i = Some VActive"
  shows "good env t \<and> advances uptime_edges s t \<and> (\<forall>j. j \<noteq> i \<longrightarrow> sk_states t j = sk_states s j)"
proof -
  obtain u' where "set_validator_state env i VJailed s = Inr t \<or> t = set_validator_uptime i u' s"
    using assms(1) unfolding process_validator_uptime_def prod.case Let_def by (elim and_then_InrE) (auto split: if_splits)
  then show ?thesis
  proof
    assume m: "set_validator_state env i VJailed s = Inr t"
    have "sk_states t = (sk_states s)(i \<mapsto> VJailed)" by (rule set_state_moves [OF m])
    moreover have "advances uptime_edges s t" by (rule set_state_advances [OF m]) (use assms(4) in \<open>simp add: uptime_edges_def\<close>)
    ultimately show ?thesis using set_state_good [OF m assms(2,3)] by simp
  next
    assume t: "t = set_validator_uptime i u' s"
    have "tracked t" using assms(2) by (simp add: t set_validator_uptime_def good_def stake_inv_def tracked_def tracked_at_def)
    then show ?thesis using assms(2) by (simp add: t set_validator_uptime_def good_def stake_inv_def advances_refl)
  qed
qed

text \<open>The lookups give each active validator once.\<close>

lemma lookups_good:
  assumes "try_fold (process_lookup env votes p h) (map (lookup_active s0) is) s = Inr t" "good env s" "inj (se_show_id env)" "distinct is"
    and "\<And>i. i \<in> set is \<Longrightarrow> sk_states s i = sk_states s0 i"
  shows "good env t \<and> advances uptime_edges s t"
  using assms(1,2,4,5)
proof (induction "is" arbitrary: s)
  case Nil
  then show ?case by (simp add: advances_refl)
next
  case (Cons i "is")
  obtain u where u: "process_lookup env votes p h (lookup_active s0 i) s = Inr u"
    and r: "try_fold (process_lookup env votes p h) (map (lookup_active s0) is) u = Inr t"
    using Cons.prems(1) by (auto simp: result_simps)
  obtain info where info: "lookup_active s0 i = Inr info"
    "(case info of None \<Rightarrow> Inr s | Some x \<Rightarrow> process_validator_uptime env votes p h x s) = Inr u"
    using u unfolding process_lookup_def by (elim and_then_InrE)
  have one: "good env u \<and> advances uptime_edges s u \<and> (\<forall>j. j \<noteq> i \<longrightarrow> sk_states u j = sk_states s j)"
  proof (cases info)
    case None
    then show ?thesis using info(2) Cons.prems(2) by (simp add: advances_refl)
  next
    case (Some x)
    then have "sk_states s0 i = Some VActive \<and> (\<exists>ck up. x = (i, ck, up))" using info(1)
      by (auto simp: lookup_active_def result_simps split: option.splits validator_state.splits)
    then show ?thesis using uptime_good [OF _ Cons.prems(2) assms(3)] info(2) Some Cons.prems(4) [of i] by auto
  qed
  have "sk_states u j = sk_states s0 j" if "j \<in> set is" for j
    using one Cons.prems(3) Cons.prems(4) [of j] that by (cases "j = i") auto
  then have "good env t \<and> advances uptime_edges u t" using Cons.IH [OF r] one Cons.prems(3) by simp
  then show ?case using one advances_trans by blast
qed

lemma begin_block_good:
  assumes "stake_begin_block env evidence votes s = Inr t" "good env s" "inj (se_show_id env)"
  shows "good env t" "advances (evidence_edges \<union> uptime_edges) s t"
proof -
  obtain u where u: "try_fold (process_evidence_or_ignore env) evidence s = Inr u" and r: "track_uptime env votes u = Inr t"
    using assms(1) by (auto simp: stake_begin_block_def result_simps)
  have "good env u \<and> advances evidence_edges s u"
    by (rule try_fold_invariant [OF u, where I = "\<lambda>u. good env u \<and> advances evidence_edges s u"])
      (use assms(2,3) evidence_good advances_trans advances_refl in blast)+
  moreover have "good env t \<and> advances uptime_edges u t"
  proof -
    obtain h p where *: "try_fold (process_lookup env (fold (\<lambda>(a, b). bt_insert a b) votes []) p h) (map (lookup_active u) (consensus_set u)) u = Inr t"
      using r unfolding track_uptime_def Let_def by (elim and_then_InrE)
    have "index_ok env u" using \<open>good env u \<and> _\<close> by (simp add: good_def stake_inv_def)
    then show ?thesis using lookups_good [OF * _ assms(3) consensus_set_iff(2)] \<open>good env u \<and> _\<close> by blast
  qed
  ultimately show "good env t" "advances (evidence_edges \<union> uptime_edges) s t"
    using advances_trans advances_mono [of _ _ _ "evidence_edges \<union> uptime_edges"] by (blast, meson Un_upper1 Un_upper2)
qed

section \<open>The actions\<close>

lemma delegate_result: "delegate_check_and_execute d s = Inr t \<Longrightarrow> t = push_delegation d s"
  unfolding delegate_check_and_execute_def by (elim and_then_InrE) simp

lemma undelegate_result:
  "undelegate_check_and_execute u s = Inr t
    \<Longrightarrow> t = push_undelegation u (s\<lparr>sk_denoms := insert (UnbondingDenom (ep_start_height (ud_from_epoch u)) (ud_validator u)) (sk_denoms s)\<rparr>)"
  unfolding undelegate_check_and_execute_def Let_def by (elim and_then_InrE) simp

lemma claim_result: "undelegate_claim_check_and_execute c s = Inr t \<Longrightarrow> t = s"
  unfolding undelegate_claim_check_and_execute_def Let_def by (elim and_then_InrE) simp

lemma delegation_good:
  "delegate_check_and_execute d s = Inr t \<Longrightarrow> good env s \<Longrightarrow> good env t \<and> sk_states t = sk_states s"
  "undelegate_check_and_execute u s = Inr t \<Longrightarrow> good env s \<Longrightarrow> good env t \<and> sk_states t = sk_states s"
  by (drule delegate_result undelegate_result; simp add: push_delegation_def push_undelegation_def good_def stake_inv_def)+

text \<open>A consensus key goes to the validator that declares it: the handler has checked that nobody else has it.\<close>

lemma keys_cong: "sk_definitions s = sk_definitions t \<Longrightarrow> sk_key_owner s = sk_key_owner t \<Longrightarrow> keys_ok s \<Longrightarrow> keys_ok t"
  by (simp add: keys_ok_def)

lemma keysD:
  "keys_ok s \<Longrightarrow> sk_definitions s i = Some v \<Longrightarrow> v_identity v = i"
  "keys_ok s \<Longrightarrow> sk_definitions s i = Some v \<Longrightarrow> sk_key_owner s (v_consensus_key v) = Some i"
  "keys_ok s \<Longrightarrow> sk_key_owner s ck = Some i \<Longrightarrow> sk_definitions s i \<noteq> None"
  unfolding keys_ok_def by blast+

lemma register_keys:
  assumes "keys_ok s" "sk_key_owner s (v_consensus_key v) = None \<or> sk_key_owner s (v_consensus_key v) = Some (v_identity v)"
  shows "keys_ok (register_consensus_key env (v_identity v) (v_consensus_key v) s
      \<lparr>sk_definitions := (sk_definitions s)(v_identity v \<mapsto> v)\<rparr>)"
  unfolding keys_ok_def
proof (intro conjI allI impI)
  let ?t = "register_consensus_key env (v_identity v) (v_consensus_key v) s\<lparr>sk_definitions := (sk_definitions s)(v_identity v \<mapsto> v)\<rparr>"
  fix j w assume w: "sk_definitions ?t j = Some w"
  show "v_identity w = j" "sk_key_owner ?t (v_consensus_key w) = Some j"
  proof (atomize(full), cases "j = v_identity v")
    case False
    then have d: "sk_definitions s j = Some w" using w by simp
    then have "v_consensus_key w \<noteq> v_consensus_key v" using keysD(2) [OF assms(1) d] False assms(2) by auto
    then show "v_identity w = j \<and> sk_key_owner ?t (v_consensus_key w) = Some j"
      using keysD(1,2) [OF assms(1) d] by (simp add: register_consensus_key_def)
  qed (use w in \<open>simp add: register_consensus_key_def\<close>)
next
  let ?t = "register_consensus_key env (v_identity v) (v_consensus_key v) s\<lparr>sk_definitions := (sk_definitions s)(v_identity v \<mapsto> v)\<rparr>"
  fix ck j assume "sk_key_owner ?t ck = Some j"
  then have "j = v_identity v \<or> sk_key_owner s ck = Some j" by (auto simp: register_consensus_key_def split: if_splits)
  then show "sk_definitions ?t j \<noteq> None" using keysD(3) [OF assms(1)] by auto
qed

lemma key_free:
  assumes keys: "keys_ok s"
    and ok: "\<And>w. get_validator_definition_by_consensus_key s (v_consensus_key v) = Some w \<Longrightarrow> v_identity w = v_identity v"
  shows "sk_key_owner s (v_consensus_key v) = None \<or> sk_key_owner s (v_consensus_key v) = Some (v_identity v)"
proof (cases "sk_key_owner s (v_consensus_key v)")
  case (Some j)
  then obtain w where w: "sk_definitions s j = Some w" using keys unfolding keys_ok_def by blast
  then have "v_identity w = j" using keys unfolding keys_ok_def by blast
  then show ?thesis using ok [of w] Some w by (simp add: get_validator_definition_by_consensus_key_def)
qed simp

lemma define_good:
  assumes "good env s" "sk_states s (v_identity v) \<noteq> None"
    and "sk_key_owner s (v_consensus_key v) = None \<or> sk_key_owner s (v_consensus_key v) = Some (v_identity v)"
    and t: "t = register_consensus_key env (v_identity v) (v_consensus_key v) s\<lparr>sk_definitions := (sk_definitions s)(v_identity v \<mapsto> v)\<rparr>"
  shows "good env t" "sk_states t = sk_states s"
proof -
  have "keys_ok t" unfolding t by (rule register_keys) (use assms in \<open>simp_all add: good_def stake_inv_def\<close>)
  moreover have "tracked t" using assms(1,2) by (simp add: t register_consensus_key_def good_def stake_inv_def tracked_def tracked_at_def)
  ultimately show "good env t" using assms(1) by (simp add: t register_consensus_key_def good_def stake_inv_def)
qed (simp add: t register_consensus_key_def)

lemma reinstate_state:
  assumes "reinstate env i s = Inr t"
  obtains new where "new = VInactive \<or> new = VDefined" "set_validator_state env i new s = Inr t"
  using assms unfolding reinstate_def by (elim and_then_InrE) (metis (full_types))

lemma update_state:
  assumes "update_validator_definition env v s = Inr t"
  obtains u where "u = s \<or> (\<exists>new. set_validator_state env (v_identity v) new s = Inr u
      \<and> (\<forall>old. sk_states s (v_identity v) = Some old \<longrightarrow> old \<noteq> new \<longrightarrow> (old, new) \<in> operator_edges))"
    "sk_states s (v_identity v) \<noteq> None"
    "t = register_consensus_key env (v_identity v) (v_consensus_key v) u\<lparr>sk_definitions := (sk_definitions u)(v_identity v \<mapsto> v)\<rparr>"
proof -
  let ?i = "v_identity v"
  obtain current u where cur: "sk_states s ?i = Some current"
    and u: "(if current = VTombstoned then Inr s
         else if \<not> v_enabled v then set_validator_state env ?i VDisabled s
         else if current = VDisabled then and_then (check_disabled_long_enough ?i s) (\<lambda>_. reinstate env ?i s)
         else if current = VJailed then reinstate env ?i s
         else Inr s) = Inr u"
    and t: "t = register_consensus_key env ?i (v_consensus_key v) u\<lparr>sk_definitions := (sk_definitions u)(?i \<mapsto> v)\<rparr>"
    using assms unfolding update_validator_definition_def Let_def
    by (elim and_then_InrE) (auto simp: ok_or_Inr_iff register_consensus_key_def)
  have "u = s \<or> (\<exists>new. set_validator_state env ?i new s = Inr u \<and> (current \<noteq> new \<longrightarrow> (current, new) \<in> operator_edges))"
  proof (cases "current = VTombstoned \<or> (v_enabled v \<and> current \<notin> {VDisabled, VJailed})")
    case True
    then show ?thesis using u by (auto split: if_splits)
  next
    case False
    show ?thesis
    proof (cases "v_enabled v")
      case True
      then have c: "current \<in> {VDisabled, VJailed}" "reinstate env ?i s = Inr u" using False u by (auto simp: result_simps)
      then obtain new where "new = VInactive \<or> new = VDefined" "set_validator_state env ?i new s = Inr u" by (meson reinstate_state)
      then show ?thesis using c(1) by (auto simp: operator_edges_def)
    next
      case off: False
      then have "set_validator_state env ?i VDisabled s = Inr u" "current \<noteq> VTombstoned" using False u by auto
      then show ?thesis by (cases current) (auto simp: operator_edges_def)
    qed
  qed
  then show thesis using that cur t by auto
qed

lemma definition_good:
  assumes run: "definition_check_and_execute env d s = Inr t" and g: "good env s" and show_inj: "inj (se_show_id env)"
  shows "good env t" "advances operator_edges s t" "\<And>j. j \<noteq> v_identity (vd_validator d) \<Longrightarrow> sk_states t j = sk_states s j"
proof -
  define v where "v = vd_validator d"
  let ?i = "v_identity v"
  have owner: "v_identity w = ?i" if "get_validator_definition_by_consensus_key s (v_consensus_key v) = Some w" for w
    using run that by (auto simp: definition_check_and_execute_def Let_def v_def result_simps)
  have free: "sk_key_owner s (v_consensus_key v) = None \<or> sk_key_owner s (v_consensus_key v) = Some ?i"
    by (rule key_free) (use g owner in \<open>auto simp: good_def stake_inv_def\<close>)
  have "good env t \<and> advances operator_edges s t \<and> (\<forall>j. j \<noteq> ?i \<longrightarrow> sk_states t j = sk_states s j)"
  proof (cases "sk_definitions s ?i = None")
    case False
    then have "update_validator_definition env v s = Inr t" using run by (auto simp: definition_check_and_execute_def Let_def v_def result_simps)
    then obtain u where u: "u = s \<or> (\<exists>new. set_validator_state env ?i new s = Inr u
        \<and> (\<forall>old. sk_states s ?i = Some old \<longrightarrow> old \<noteq> new \<longrightarrow> (old, new) \<in> operator_edges))"
      "sk_states s ?i \<noteq> None" "t = register_consensus_key env ?i (v_consensus_key v) u\<lparr>sk_definitions := (sk_definitions u)(?i \<mapsto> v)\<rparr>"
      by (rule update_state)
    have U: "good env u \<and> advances operator_edges s u \<and> (\<forall>j. j \<noteq> ?i \<longrightarrow> sk_states u j = sk_states s j)
      \<and> sk_states u ?i \<noteq> None \<and> sk_key_owner u = sk_key_owner s"
      using u(1)
    proof (elim disjE exE conjE)
      fix new assume m: "set_validator_state env ?i new s = Inr u"
        and e: "\<forall>old. sk_states s ?i = Some old \<longrightarrow> old \<noteq> new \<longrightarrow> (old, new) \<in> operator_edges"
      have "moved s u" "sk_states u = (sk_states s)(?i \<mapsto> new)" by (rule set_state_moves [OF m], assumption)+
      then show ?thesis using set_state_good [OF m g show_inj] set_state_advances [OF m, of operator_edges] e moved_fields(10) by simp
    qed (use g u(2) in \<open>simp add: advances_refl\<close>)
    have "good env t" "sk_states t = sk_states u" by (rule define_good [OF _ _ _ u(3)]; use U free in simp)+
    then show ?thesis using U by (simp add: advances_def)
  next
    case True
    then have add: "add_validator env v \<lparr>rd_identity = ?i, rd_reward_rate = 0, rd_exchange_rate = 100000000\<rparr> s = Inr t"
      using run by (auto simp: definition_check_and_execute_def Let_def v_def result_simps)
    have "tracked_at s ?i" using g by (simp add: good_def stake_inv_def tracked_def)
    then have no: "sk_states s ?i = None" "sk_bonding s ?i = None" using True by (auto simp: tracked_at_def)
    have nk: "sk_key_owner s (v_consensus_key v) = None"
      using free keysD(3) [of s "v_consensus_key v" ?i] g True by (auto simp: good_def stake_inv_def)
    have t: "t = s\<lparr>sk_definitions := (sk_definitions s)(?i \<mapsto> v),
        sk_key_of_address := (sk_key_of_address s)(validator_address env (v_consensus_key v) \<mapsto> v_consensus_key v),
        sk_key_owner := (sk_key_owner s)(v_consensus_key v \<mapsto> ?i), sk_denoms := insert (DelegationDenom ?i) (sk_denoms s),
        sk_rates := (sk_rates s)(?i \<mapsto> \<lparr>rd_identity = ?i, rd_reward_rate = 0, rd_exchange_rate = 100000000\<rparr>),
        sk_states := (sk_states s)(?i \<mapsto> VDefined), sk_powers := (sk_powers s)(?i \<mapsto> 0),
        sk_bonding := (sk_bonding s)(?i \<mapsto> Unbonded), sk_pools := (sk_pools s)(?i \<mapsto> 0)\<rparr>"
      using add by (simp add: add_validator_def add_validator_inner_def Let_def validator_updates set_initial_validator_state_def set_validator_power_def)
    have "index_ok env t" using g no by (auto simp: t good_def stake_inv_def index_ok_def)
    moreover have "bonding_ok t" "tracked t" "rates_ok t" "powers_ok t"
      using g no by (simp_all add: t good_def stake_inv_def bonding_ok_def tracked_def tracked_at_def rates_ok_def powers_ok_def)
    moreover have "keys_ok (register_consensus_key env ?i (v_consensus_key v) s\<lparr>sk_definitions := (sk_definitions s)(?i \<mapsto> v)\<rparr>)"
      by (rule register_keys) (use g nk in \<open>simp_all add: good_def stake_inv_def\<close>)
    then have "keys_ok t" by (rule keys_cong [rotated 2]) (simp_all add: t register_consensus_key_def)
    moreover have "clock_ok t" "penalties_ok t" "sk_params t = sk_params s" using g by (simp_all add: t good_def stake_inv_def clock_ok_def penalties_ok_def)
    ultimately have "good env t" using g by (simp add: good_def stake_inv_def)
    then show ?thesis using no by (auto simp: t advances_def)
  qed
  then show "good env t" "advances operator_edges s t" "\<And>j. j \<noteq> v_identity (vd_validator d) \<Longrightarrow> sk_states t j = sk_states s j"
    by (simp_all add: v_def)
qed

end
