(* ===== verification/StakeChain.thy ===== *)
theory StakeChain
  imports StakeMachine
begin

text \<open>
  The chain of staking events: the end of a block and of an epoch, genesis, the step relation, and the invariant of the
  reachable states.
\<close>

section \<open>The end of a block\<close>

lemma epoch_entries:
  assumes "epoch_ended env e s t"
  shows "\<exists>u I p. (\<forall>j. j \<notin> I \<longrightarrow> same_at env j s u) \<and> (\<forall>i \<in> I. \<exists>base d b reward. processed env i e base d b s reward u)
    \<and> sk_powers t = sk_powers u \<and> sk_rates t = sk_rates u \<and> sk_pools t = sk_pools u \<and> sk_params s = Some p
    \<and> (\<forall>j. sk_states t j = (if j \<in> set (actives u p) then Some VActive else if j \<in> set (inactives u p) then Some VInactive else sk_states u j))"
  using assms unfolding epoch_ended_def
proof (elim exE conjE)
  fix h ds us base p u s1
  assume *: "\<forall>j. j \<notin> set (to_process s ds us) \<longrightarrow> same_at env j s u"
    "\<forall>i \<in> set (to_process s ds us). \<exists>reward. processed env i e base (get_or (bt_get ds i) 0) (get_or (bt_get us i) 0) s reward u"
    "sk_powers t = sk_powers u" "sk_rates t = sk_rates u" "sk_pools t = sk_pools u" "sk_params s = Some p"
    "\<forall>j. sk_states t j = (if j \<in> set (actives u p) then Some VActive else if j \<in> set (inactives u p) then Some VInactive else sk_states u j)"
  then have "\<forall>i \<in> set (to_process s ds us). \<exists>base d b reward. processed env i e base d b s reward u" by blast
  with * show ?thesis
    by (intro exI [of _ u] exI [of _ "set (to_process s ds us)"] exI [of _ p] conjI) simp_all
qed

lemma epoch_advances:
  assumes "epoch_ended env e s t"
  shows "advances epoch_edges s t"
  unfolding advances_def
proof (intro allI impI)
  fix i st
  assume st: "sk_states s i = Some st"
  obtain u I p where proc: "\<forall>j. j \<notin> I \<longrightarrow> same_at env j s u"
    "\<forall>i \<in> I. \<exists>base d b reward. processed env i e base d b s reward u"
    and t: "\<forall>i. sk_states t i = (if i \<in> set (actives u p) then Some VActive else if i \<in> set (inactives u p) then Some VInactive else sk_states u i)"
    using epoch_entries [OF assms] by (elim exE conjE) (rule that)
  have "\<exists>st1. sk_states u i = Some st1 \<and> (st, st1) \<in> epoch_edges\<^sup>*"
  proof (cases "i \<in> I")
    case True
    then obtain base d b reward where "processed env i e base d b s reward u" using proc(2) by blast
    then obtain q vp where "sk_states u i = Some (state_after q st vp)" using st by (auto simp: processed_def)
    moreover have "state_after q st vp = st \<or> (st, state_after q st vp) \<in> epoch_edges" by (auto simp: state_after_def epoch_edges_def)
    ultimately show ?thesis by auto
  next
    case False
    then show ?thesis using proc(1) False st by (simp add: same_at_def)
  qed
  then obtain st1 where st1: "sk_states u i = Some st1" "(st, st1) \<in> epoch_edges\<^sup>*" by blast
  have cand: "st1 = VActive \<or> st1 = VInactive" if "i \<in> set (actives u p) \<or> i \<in> set (inactives u p)"
  proof -
    have "i \<in> set (map fst (ranked u)) \<or> i \<in> set (map fst (powerless u))"
      using that by (auto simp: actives_def inactives_def dest: in_set_takeD in_set_dropD)
    then have "candidate u i" unfolding ranked_set by (auto simp: powerless_def)
    then show ?thesis using st1(1) by (simp add: candidate_def)
  qed
  obtain st2 where st2: "sk_states t i = Some st2" "st2 = st1 \<or> (st1, st2) \<in> epoch_edges"
    using t [rule_format, of i] cand st1(1) by (auto simp: epoch_edges_def split: if_splits)
  then show "\<exists>st'. sk_states t i = Some st' \<and> (st, st') \<in> epoch_edges\<^sup>*" using st1(2) by (auto intro: rtrancl_into_rtrancl)
qed

lemma epoch_powers:
  assumes "epoch_ended env e s t" "powers_ok s"
  shows "powers_ok t"
  unfolding powers_ok_def
proof (intro allI impI)
  fix i vp assume vp: "sk_powers t i = Some vp"
  obtain u I where proc: "\<forall>j. j \<notin> I \<longrightarrow> same_at env j s u" "\<forall>i \<in> I. \<exists>base d b reward. processed env i e base d b s reward u"
    and t: "sk_powers t = sk_powers u"
    using epoch_entries [OF assms(1)] by (elim exE conjE) (rule that)
  show "unat vp \<le> MAX_VOTING_POWER"
  proof (cases "i \<in> I")
    case True
    then obtain base d b reward where "processed env i e base d b s reward u" using proc(2) by blast
    then show ?thesis using vp t by (auto simp: processed_def)
  next
    case False
    then show ?thesis using proc(1) False vp t assms(2) by (simp add: same_at_def powers_ok_def)
  qed
qed

lemma stake_end_epoch_good:
  assumes run: "stake_end_epoch env s = Inr t" and g: "good env s" and show_inj: "inj (se_show_id env)"
  obtains e u where "get_current_epoch s = Inr e" "end_epoch env e s = Inr u" "epoch_ended env e s u" "good env u"
    "build_cometbft_validator_updates u = Inr t" "good env t" "sk_states t = sk_states u" "advances epoch_edges s t"
    "sk_epochs t = sk_epochs s" "sk_height t = sk_height s"
proof -
  obtain e u where e: "get_current_epoch s = Inr e" and u: "end_epoch env e s = Inr u" and b: "build_cometbft_validator_updates u = Inr t"
    using run by (auto simp: stake_end_epoch_def result_simps)
  obtain h where h: "sk_height s = Some h" "sk_epochs s h = Some e" using e by (auto simp: get_current_epoch_def get_block_height_def result_simps)
  have inv: "stake_inv env s" "powers_ok s" using g by (simp_all add: good_def)
  have start: "unat (ep_start_height e) \<le> 2 ^ 63" using inv(1) h(2) by (simp add: stake_inv_def clock_ok_def)
  note U = end_epoch_effect [OF u inv(1) show_inj start h]
  have gu: "good env u" using U(1) epoch_powers [OF U(2) inv(2)] by (simp add: good_def)
  obtain cur where "sk_consensus_keys u = Some cur" using b by (auto simp: build_cometbft_validator_updates_def result_simps)
  then obtain us ks where "build_cometbft_validator_updates u = Inr (u\<lparr>sk_comet_updates := Some us, sk_consensus_keys := Some ks\<rparr>)"
    using updates_exact [OF U(1)] gu unfolding good_def by metis
  then have t: "t = u\<lparr>sk_comet_updates := Some us, sk_consensus_keys := Some ks\<rparr>" using b by simp
  have "good env t" using gu by (simp add: t good_def stake_inv_def)
  moreover have "advances epoch_edges s t" using epoch_advances [OF U(2)] by (simp add: t advances_def)
  ultimately show thesis using that [OF e u U(2) gu b] U(5,6) by (simp add: t)
qed

lemma app_end_block_good:
  assumes run: "app_end_block env h issuance upgrade s = Inr t" and h: "sk_height s = Some h"
    and g: "good env s" and show_inj: "inj (se_show_id env)"
  shows "good env t" "advances epoch_edges s t"
proof -
  define s1 where "s1 = set_delegation_changes h (sk_changes_tally s) s"
  have small: "unat h < 2 ^ 63" using run by (auto simp: app_end_block_def stake_end_block_def block_height_of_def split: if_splits)
  have s1: "stake_end_block h s = Inr s1" "get_block_height s1 = Inr h"
    using small h by (simp_all add: stake_end_block_def block_height_of_def s1_def get_block_height_def set_delegation_changes_def)
  have g1: "good env s1" using g by (simp add: s1_def set_delegation_changes_def good_def stake_inv_def)
  obtain e d where e: "get_current_epoch s1 = Inr e"
    and r: "(if (is_scheduled_epoch_end e h d \<or> sk_end_epoch_early s1) \<or> upgrade
        then and_then (expect (stake_end_epoch env (s1\<lparr>sk_issuance := Some issuance\<rparr>))) (\<lambda>s.
          Inr (s\<lparr>sk_epochs := (sk_epochs s)(h + 1 \<mapsto> \<lparr>ep_index = ep_index e + 1, ep_start_height = h + 1\<rparr>)\<rparr>))
        else Inr (s1\<lparr>sk_epochs := (sk_epochs s1)(h + 1 \<mapsto> e)\<rparr>)) = Inr t"
    using run unfolding app_end_block_def s1 and_then.simps expect_simps Let_def
    by (elim and_then_InrE) (simp only: expect_Inr_iff)
  obtain h' where "sk_epochs s1 h' = Some e" using e by (auto simp: get_current_epoch_def result_simps)
  then have start: "unat (ep_start_height e) \<le> 2 ^ 63" using g1 unfolding good_def stake_inv_def clock_ok_def by blast
  have h1: "unat (h + 1) \<le> 2 ^ 63" using small by (simp add: unat_arith_simps)
  have clock: "good env (u\<lparr>sk_epochs := (sk_epochs u)(h + 1 \<mapsto> n)\<rparr>)" if "good env u" "unat (ep_start_height n) \<le> 2 ^ 63" for u n
    using that by (simp add: good_def stake_inv_def clock_ok_def)
  have same: "advances epoch_edges s u" if "advances epoch_edges s1 u" for u using that by (simp add: advances_def s1_def set_delegation_changes_def)
  have "good env t \<and> advances epoch_edges s t"
  proof (cases "(is_scheduled_epoch_end e h d \<or> sk_end_epoch_early s1) \<or> upgrade")
    case True
    then obtain u where u: "stake_end_epoch env (s1\<lparr>sk_issuance := Some issuance\<rparr>) = Inr u"
      and t: "t = u\<lparr>sk_epochs := (sk_epochs u)(h + 1 \<mapsto> \<lparr>ep_index = ep_index e + 1, ep_start_height = h + 1\<rparr>)\<rparr>"
      using r by (auto simp: result_simps)
    have gi: "good env (s1\<lparr>sk_issuance := Some issuance\<rparr>)" using g1 by (simp add: good_def stake_inv_def)
    have "good env u" "advances epoch_edges (s1\<lparr>sk_issuance := Some issuance\<rparr>) u"
      by (rule stake_end_epoch_good [OF u gi show_inj], assumption)+
    then show ?thesis using clock h1 same by (simp add: t advances_def)
  next
    case False
    then have "t = s1\<lparr>sk_epochs := (sk_epochs s1)(h + 1 \<mapsto> e)\<rparr>" using r by simp
    then show ?thesis using clock [OF g1 start] by (simp add: advances_def s1_def set_delegation_changes_def)
  qed
  then show "good env t" "advances epoch_edges s t" by simp_all
qed

section \<open>Genesis\<close>

definition empty_store :: stake_state where
  "empty_store =
     \<lparr>sk_params = None, sk_epoch_duration = None, sk_height = None, sk_epochs = \<lambda>_. None, sk_definitions = \<lambda>_. None, sk_states = \<lambda>_. None,
      sk_rates = \<lambda>_. None, sk_prev_rates = \<lambda>_. None, sk_powers = \<lambda>_. None, sk_pools = \<lambda>_. None, sk_bonding = \<lambda>_. None, sk_uptimes = \<lambda>_. None,
      sk_disabled_at = \<lambda>_. None, sk_index = [], sk_key_owner = \<lambda>_. None, sk_key_of_address = \<lambda>_. None, sk_penalties = \<lambda>_. [],
      sk_base_rate = None, sk_changes_at = \<lambda>_. None, sk_consensus_keys = None, sk_denoms = {}, sk_end_epoch_early = False,
      sk_prev_base_rate = None, sk_changes_tally = no_changes, sk_funding_queue = None, sk_comet_updates = None, sk_issuance = None\<rparr>"

text \<open>The genesis validators are not checked for keys they share; no two of them may have the same identity or consensus key.\<close>

definition genesis_ok :: "stake_genesis \<Rightarrow> bool" where
  "genesis_ok g \<longleftrightarrow> params_ok (sg_params g) \<and> distinct (map v_identity (sg_validators g)) \<and> distinct (map v_consensus_key (sg_validators g))"

lemma genesis_validator_good:
  assumes run: "add_genesis_validator env al base v s = Inr t" and g: "good env s" and show_inj: "inj (se_show_id env)"
    and new: "sk_definitions s (v_identity v) = None" "sk_key_owner s (v_consensus_key v) = None"
  shows "good env t \<and> sk_definitions t = (sk_definitions s)(v_identity v \<mapsto> v) \<and> sk_key_owner t = (sk_key_owner s)(v_consensus_key v \<mapsto> v_identity v)"
proof -
  let ?i = "v_identity v"
  define rate where "rate = \<lparr>rd_identity = ?i, rd_reward_rate = br_reward_rate base, rd_exchange_rate = br_exchange_rate base\<rparr>"
  define total where "total = get_or (al (se_delegation_token env ?i)) 0"
  obtain vp p where "sk_params s = Some p" and vp: "voting_power rate total = Inr vp" "unat vp \<le> MAX_VOTING_POWER" and
    t: "t = s\<lparr>sk_definitions := (sk_definitions s)(?i \<mapsto> v),
        sk_key_of_address := (sk_key_of_address s)(validator_address env (v_consensus_key v) \<mapsto> v_consensus_key v),
        sk_key_owner := (sk_key_owner s)(v_consensus_key v \<mapsto> ?i), sk_denoms := insert (DelegationDenom ?i) (sk_denoms s),
        sk_rates := (sk_rates s)(?i \<mapsto> rate),
        sk_states := (sk_states s)(?i \<mapsto> VActive), sk_powers := (sk_powers s)(?i \<mapsto> vp),
        sk_bonding := (sk_bonding s)(?i \<mapsto> Bonded), sk_pools := (sk_pools s)(?i \<mapsto> total),
        sk_index := bt_insert (se_show_id env ?i) ?i (sk_index s),
        sk_uptimes := (sk_uptimes s)(?i \<mapsto> uptime_new 0 (unat (sp_signed_blocks_window_len p)))\<rparr>"
    using run unfolding add_genesis_validator_def Let_def rate_def [symmetric] total_def [symmetric]
    by (elim and_then_InrE)
      (auto simp: add_validator_inner_def Let_def validator_updates get_stake_params_def ok_or_Inr_iff set_initial_validator_state_def set_validator_power_def split: if_splits)
  have "tracked_at s ?i" using g by (simp add: good_def stake_inv_def tracked_def)
  then have no: "sk_states s ?i = None" "sk_bonding s ?i = None" using new by (auto simp: tracked_at_def)
  have wf: "bt_wf (sk_index s)" using g by (simp add: good_def stake_inv_def index_ok_def)
  have "index_ok env t"
    unfolding index_ok_def
  proof (intro conjI allI impI)
    show "bt_wf (sk_index t)" using wf by (simp add: t)
  next
    fix k i assume "bt_get (sk_index t) k = Some i"
    then have "k = se_show_id env i \<and> (i = ?i \<or> sk_states s i \<noteq> None)"
      using wf g by (auto simp: t good_def stake_inv_def index_ok_def split: if_splits)
    then show "k = se_show_id env i" "sk_states t i \<noteq> None" by (auto simp: t)
  next
    fix i assume i: "sk_states t i = Some VActive \<or> sk_states t i = Some VInactive"
    show "bt_get (sk_index t) (se_show_id env i) = Some i"
    proof (cases "i = ?i")
      case False
      then have "bt_get (sk_index s) (se_show_id env i) = Some i" using i g by (auto simp: t good_def stake_inv_def index_ok_def)
      moreover have "se_show_id env i \<noteq> se_show_id env ?i" using False injD [OF show_inj, of i ?i] by blast
      ultimately show ?thesis using wf by (simp add: t)
    qed (use wf in \<open>simp add: t\<close>)
  qed
  moreover have "bonding_ok t" "tracked t" "rates_ok t" "powers_ok t"
    using g no vp by (simp_all add: t good_def stake_inv_def bonding_ok_def tracked_def tracked_at_def rates_ok_def powers_ok_def rate_def)
  moreover have "keys_ok (register_consensus_key env ?i (v_consensus_key v) s\<lparr>sk_definitions := (sk_definitions s)(?i \<mapsto> v)\<rparr>)"
    by (rule register_keys) (use g new in \<open>simp_all add: good_def stake_inv_def\<close>)
  then have "keys_ok t" by (rule keys_cong [rotated 2]) (simp_all add: t register_consensus_key_def)
  moreover have "clock_ok t" "penalties_ok t" "sk_params t = sk_params s" using g by (simp_all add: t good_def stake_inv_def clock_ok_def penalties_ok_def)
  ultimately have "good env t" using g by (simp add: good_def stake_inv_def)
  then show ?thesis by (simp add: t)
qed

lemma genesis_fold:
  assumes "try_fold (\<lambda>v s. expect (add_genesis_validator env al base v s)) vs s = Inr t" "good env s" "inj (se_show_id env)"
    "distinct (map v_identity vs)" "distinct (map v_consensus_key vs)"
    "\<And>v. v \<in> set vs \<Longrightarrow> sk_definitions s (v_identity v) = None" "\<And>v. v \<in> set vs \<Longrightarrow> sk_key_owner s (v_consensus_key v) = None"
  shows "good env t"
  using assms(1,2,4-)
proof (induction vs arbitrary: s)
  case (Cons v vs)
  obtain u where u: "add_genesis_validator env al base v s = Inr u"
    and r: "try_fold (\<lambda>v s. expect (add_genesis_validator env al base v s)) vs u = Inr t"
    using Cons.prems(1) by (auto simp: result_simps)
  have U: "good env u" "sk_definitions u = (sk_definitions s)(v_identity v \<mapsto> v)" "sk_key_owner u = (sk_key_owner s)(v_consensus_key v \<mapsto> v_identity v)"
    using genesis_validator_good [OF u Cons.prems(2) assms(3)] Cons.prems(5,6) by simp_all
  have d: "sk_definitions u (v_identity w) = None" "sk_key_owner u (v_consensus_key w) = None" if "w \<in> set vs" for w
    using Cons.prems(3-6) that U(2,3) by (auto simp: image_iff)
  show ?case by (rule Cons.IH [OF r U(1)]) (use Cons.prems(3,4) d in simp_all)
qed simp

lemma genesis_good:
  assumes run: "stake_init_chain env (Some g) (sct_init_chain duration empty_store) = Inr s" and g: "genesis_ok g" and show_inj: "inj (se_show_id env)"
  shows "good env s"
proof -
  let ?s0 = "sct_init_chain duration empty_store\<lparr>sk_params := Some (sg_params g)\<rparr>"
  obtain h e u where u: "try_fold (\<lambda>v s. expect (add_genesis_validator env (genesis_allocations (sg_allocations g)) (genesis_base_rate (ep_index e)) v s))
      (sg_validators g) (?s0\<lparr>sk_base_rate := Some (genesis_base_rate (ep_index e))\<rparr>) = Inr u"
    and b: "build_cometbft_validator_updates (set_delegation_changes h no_changes (u\<lparr>sk_consensus_keys := Some []\<rparr>)) = Inr s"
    and "get_epoch_by_height ?s0 h = Inr e"
    using run unfolding stake_init_chain_def Let_def option.case
    by (elim and_then_InrE) (auto simp: expect_Inr_iff block_height_of_def result_simps split: if_splits)
  have g0: "good env (?s0\<lparr>sk_base_rate := Some b0\<rparr>)" for b0
    using g by (simp add: good_def stake_inv_def index_ok_def bonding_ok_def tracked_def tracked_at_def keys_ok_def rates_ok_def clock_ok_def
        penalties_ok_def powers_ok_def sct_init_chain_def empty_store_def bt_wf_Nil bt_get_def genesis_ok_def)
  have "good env u"
    by (rule genesis_fold [OF u g0 show_inj]) (use g in \<open>simp_all add: genesis_ok_def sct_init_chain_def empty_store_def\<close>)
  let ?v = "set_delegation_changes h no_changes (u\<lparr>sk_consensus_keys := Some []\<rparr>)"
  have gv: "good env ?v" using \<open>good env u\<close> by (simp add: set_delegation_changes_def good_def stake_inv_def)
  have "sk_consensus_keys ?v = Some []" by (simp add: set_delegation_changes_def)
  then obtain us ks where "build_cometbft_validator_updates ?v = Inr (?v\<lparr>sk_comet_updates := Some us, sk_consensus_keys := Some ks\<rparr>)"
    by (rule updates_exact [OF conjunct1 [OF gv [unfolded good_def]] conjunct2 [OF gv [unfolded good_def]]])
  then have "s = ?v\<lparr>sk_comet_updates := Some us, sk_consensus_keys := Some ks\<rparr>" using b by simp
  then show ?thesis using gv by (simp add: good_def stake_inv_def)
qed

section \<open>Steps\<close>

datatype stake_event =
    BeginBlock u64 "comet_address list" "(comet_address \<times> bool) list"
  | Delegating delegate
  | Undelegating undelegate
  | Claiming undelegate_claim
  | Defining validator_definition
  | Depositing identity_key amount
  | EndBlock amount bool
  | Commit

inductive stake_step :: "stake_env \<Rightarrow> stake_event \<Rightarrow> stake_state \<Rightarrow> stake_state \<Rightarrow> bool" for env where
  begin_block: "stake_begin_block env evidence votes (sct_begin_block h s) = Inr t \<Longrightarrow> stake_step env (BeginBlock h evidence votes) s t"
| delegating: "delegate_check_and_execute d s = Inr t \<Longrightarrow> stake_step env (Delegating d) s t"
| undelegating: "undelegate_check_and_execute u s = Inr t \<Longrightarrow> stake_step env (Undelegating u) s t"
| claiming: "undelegate_claim_check_stateless env c = Inr () \<Longrightarrow> undelegate_claim_check_and_execute c s = Inr t \<Longrightarrow> stake_step env (Claiming c) s t"
| defining: "definition_check_stateless env d = Inr () \<Longrightarrow> definition_check_and_execute env d s = Inr t \<Longrightarrow> stake_step env (Defining d) s t"
| depositing: "deposit_to_validator_pool i a s = Inr (Some d, t) \<Longrightarrow> stake_step env (Depositing i a) s t"
| end_block: "sk_height s = Some h \<Longrightarrow> app_end_block env h issuance upgrade s = Inr t \<Longrightarrow> stake_step env (EndBlock issuance upgrade) s t"
| commit: "stake_step env Commit s (app_commit s)"

inductive_cases stake_stepE: "stake_step env ev s t"

text \<open>The edges along which each event may move a validator.\<close>

fun event_edges :: "stake_event \<Rightarrow> (validator_state \<times> validator_state) set" where
  "event_edges (BeginBlock _ _ _) = evidence_edges \<union> uptime_edges"
| "event_edges (Defining _) = operator_edges"
| "event_edges (EndBlock _ _) = epoch_edges"
| "event_edges _ = {}"

lemma step_good:
  assumes step: "stake_step env ev s t" and g: "good env s" and show_inj: "inj (se_show_id env)"
  shows "good env t" "advances (event_edges ev) s t"
proof -
  have "good env t \<and> advances (event_edges ev) s t"
    using step
  proof cases
    case (begin_block evidence votes h)
    have "good env (sct_begin_block h s)" using g by (simp add: sct_begin_block_def good_def stake_inv_def)
    then show ?thesis using begin_block_good [OF begin_block(2) _ show_inj] by (simp add: begin_block(1) advances_def sct_begin_block_def)
  next
    case (delegating d)
    then show ?thesis using delegation_good(1) [OF delegating(2) g] by (simp add: advances_refl)
  next
    case (undelegating u)
    then show ?thesis using delegation_good(2) [OF undelegating(2) g] by (simp add: advances_refl)
  next
    case (claiming c)
    then show ?thesis using claim_result [OF claiming(3)] g by (simp add: advances_refl)
  next
    case (defining d)
    then show ?thesis using definition_good [OF defining(3) g show_inj] by simp
  next
    case (depositing i a d)
    then obtain r n where r: "sk_rates s i = Some r" and t: "t = set_validator_pool_size i n s"
      unfolding deposit_to_validator_pool_def by (auto split: option.splits simp: result_simps)
    have "tracked_at s i" using g by (simp add: good_def stake_inv_def tracked_def)
    then have "sk_states s i \<noteq> None" using r by (auto simp: tracked_at_def)
    then show ?thesis using inv_update(4) [of env s i n] g by (simp add: depositing(1) t set_validator_pool_size_def good_def advances_refl)
  next
    case (end_block h issuance upgrade)
    then show ?thesis using app_end_block_good [OF end_block(3,2) g show_inj] by simp
  next
    case commit
    then show ?thesis using g by (simp add: app_commit_def good_def stake_inv_def powers_ok_def advances_refl)
  qed
  then show "good env t" "advances (event_edges ev) s t" by simp_all
qed

inductive stake_reachable :: "stake_env \<Rightarrow> stake_state \<Rightarrow> bool" for env where
  genesis: "genesis_ok g \<Longrightarrow> stake_init_chain env (Some g) (sct_init_chain duration empty_store) = Inr s \<Longrightarrow> stake_reachable env s"
| step: "stake_reachable env s \<Longrightarrow> stake_step env ev s t \<Longrightarrow> stake_reachable env t"

lemma reachable_good:
  assumes "stake_reachable env s" "inj (se_show_id env)"
  shows "good env s"
  using assms(1)
proof induction
  case (genesis g duration s)
  then show ?case using genesis_good assms(2) by blast
next
  case (step s ev t)
  then show ?case using step_good(1) assms(2) by blast
qed

end
