(* ===== verification/StakeLiveness.thy ===== *)
theory StakeLiveness
  imports StakeChain
begin

text \<open>
  When the end of an epoch succeeds: bounds on the rates, the pools and the issuance under which no step of it fails, and the
  order of the epochs in the text form under which penalties are stored.
\<close>

section \<open>The base rate\<close>

lemma base_rate_total:
  assumes "sk_base_rate s = Some prev" "sk_issuance s = Some x" "total_active_stake s = Inr w" "0 < unat w" "unat x \<le> unat w"
    and rate: "unat (br_exchange_rate prev) < 2 ^ 127"
  shows "\<exists>next t. process_chain_base_rate s = Inr (next, t) \<and> unat (br_reward_rate next) \<le> 100000000"
proof -
  let ?q = "unat x * 2 ^ 128 div unat w"
  have q: "?q \<le> 2 ^ 128"
  proof -
    have "?q \<le> unat w * 2 ^ 128 div unat w" using assms(5) by (intro div_le_mono mult_le_mono1)
    then show ?thesis using assms(4) by simp
  qed
  have e: "unat x * 2 ^ 128 * 2 ^ 128 div (unat w * 2 ^ 128) = ?q" by (rule div_mult_mult2) simp
  have "?q < 2 ^ 256" using q by (rule le_less_trans) simp
  then obtain z where z: "unat (raw z) = ?q" using fp_ex by blast
  have k1: "fp_ratio (fp_from_amount x) (fp_from_amount w) = Inr z"
    using e z assms(4) by (simp add: fp_ratio_def fp_checked_div_iff)
  have "unat (raw z) * 100000000 < 2 ^ 256" by (rule le_less_trans [of _ "2 ^ 128 * 100000000"]) (use q z in simp_all)
  then obtain r where r: "rescale z = Inr r" "unat r = ?q * 100000000 div 2 ^ 128" using rescale_total [of z] by (auto simp: z)
  have "?q * 100000000 div 2 ^ 128 \<le> 2 ^ 128 * 100000000 div 2 ^ 128" using q by (intro div_le_mono mult_le_mono1)
  then have reward: "unat r \<le> 100000000" unfolding r(2) by simp
  obtain z2 z3 where z2: "descale (br_exchange_rate prev) = Inr z2" "unat (raw z2) = descaled (br_exchange_rate prev)"
    and z3: "descale r = Inr z3" "unat (raw z3) = descaled r" using descale_total by blast
  have d3: "descaled r \<le> 2 ^ 128"
  proof -
    have "descaled r \<le> 100000000 * 2 ^ 128 div 100000000" unfolding descaled_def using reward by (intro div_le_mono mult_le_mono1)
    then show ?thesis by simp
  qed
  have "2 ^ 128 + descaled r < 2 ^ 256" by (rule le_less_trans [of _ "2 ^ 128 + 2 ^ 128"]) (use d3 in simp_all)
  then obtain z4 where z4: "unat (raw z4) = 2 ^ 128 + descaled r" using fp_ex by blast
  have k4: "fp_checked_add (fp_from_u128 1) z3 = Inr z4" by (simp add: fp_checked_add_iff z3 z4)
  let ?n = "descaled (br_exchange_rate prev) * (2 ^ 128 + descaled r) div 2 ^ 128"
  have n2: "?n \<le> 2 * descaled (br_exchange_rate prev)"
  proof -
    have "descaled (br_exchange_rate prev) * (2 ^ 128 + descaled r) \<le> descaled (br_exchange_rate prev) * (2 * 2 ^ 128)"
      using d3 by (intro mult_le_mono2) simp
    then have "?n \<le> descaled (br_exchange_rate prev) * (2 * 2 ^ 128) div 2 ^ 128" by (rule div_le_mono)
    then show ?thesis by simp
  qed
  have small: "?n * 100000000 < 2 ^ 256"
  proof -
    have "?n * 100000000 \<le> 2 * (descaled (br_exchange_rate prev) * 100000000)" using n2 by simp
    also have "\<dots> \<le> 2 * (unat (br_exchange_rate prev) * 2 ^ 128)" using descaled_less(2) [of "br_exchange_rate prev"] by simp
    also have "\<dots> < 2 ^ 256" using rate by simp
    finally show ?thesis .
  qed
  then have "?n < 2 ^ 256" by simp
  then obtain z5 where z5: "fp_checked_mul z2 z4 = Inr z5" "unat (raw z5) = ?n" using fp_mul_total [of z2 z4] by (auto simp: z2(2) z4)
  obtain y where y: "rescale z5 = Inr y" using rescale_total [of z5] small by (auto simp: z5(2))
  let ?b = "\<lparr>br_epoch_index = br_epoch_index prev + 1, br_reward_rate = r, br_exchange_rate = y\<rparr>"
  have "base_rate_next_epoch prev r = Inr ?b" by (simp add: base_rate_next_epoch_def z2(1) z3(1) k4 z5(1) y)
  then have "process_chain_base_rate s = Inr (?b, s\<lparr>sk_base_rate := Some ?b, sk_prev_base_rate := Some prev\<rparr>)"
    by (simp add: process_chain_base_rate_def assms(1-3) k1 r(1))
  then show ?thesis using reward by fastforce
qed

section \<open>One validator\<close>

lemma power_bound:
  assumes "unat q * unat (rd_exchange_rate r) \<le> m * 100000000" "m < 2 ^ 127"
  shows "\<exists>vp. voting_power r q = Inr vp \<and> unat vp \<le> m"
proof -
  have "unat q * rate_of r * 100000000 \<le> unat q * (unat (rd_exchange_rate r) * 2 ^ 128)"
    using descaled_less(2) [of "rd_exchange_rate r"] by (simp add: rate_of_def mult.assoc)
  also have "\<dots> \<le> m * 100000000 * 2 ^ 128" using assms(1) by (simp flip: mult.assoc)
  also have "\<dots> = m * 2 ^ 128 * 100000000" by (simp only: ac_simps)
  finally have le: "unat q * rate_of r \<le> m * 2 ^ 128" by (rule mult_right_le_imp_le) simp
  also have "\<dots> < 2 ^ 256" using assms(2) by simp
  finally have lt: "unat q * rate_of r < 2 ^ 256" .
  have "unat q * rate_of r div 2 ^ 128 \<le> m * 2 ^ 128 div 2 ^ 128" using le by (rule div_le_mono)
  then have dm: "unat q * rate_of r div 2 ^ 128 \<le> m" by simp
  define vp :: amount where "vp = of_nat (unat q * rate_of r div 2 ^ 128)"
  have "unat q * rate_of r div 2 ^ 128 < 2 ^ 128" by (rule le_less_trans [OF dm]) (use assms(2) in simp)
  then have "unat vp = unat q * rate_of r div 2 ^ 128" by (simp add: vp_def unat_of_nat_small)
  then have "unbonded_amount r q = Inr vp \<and> unat vp \<le> m" using lt dm unfolding unbonded_amount_iff by simp
  then show ?thesis unfolding voting_power_eq by blast
qed

text \<open>What processing validator \<open>i\<close> needs: its streams pay at most everything out, and its pool is worth at most half of the greatest
  voting power.\<close>

definition fit :: "stake_state \<Rightarrow> tally \<Rightarrow> tally \<Rightarrow> identity_key \<Rightarrow> bool" where
  "fit s ds us i \<longleftrightarrow>
     (\<exists>v r. sk_definitions s i = Some v \<and> unat (commission_bps (v_funding_streams v)) \<le> 10000
        \<and> sk_rates s i = Some r \<and> unat (rd_exchange_rate r) < 2 ^ 127
        \<and> (let d = unat (get_or (bt_get ds i) 0); u = unat (get_or (bt_get us i) 0); p = unat (get_or (sk_pools s i) 0)
           in d < 2 ^ 127 \<and> u < 2 ^ 127 \<and> u \<le> p + d \<and> p + d < 2 ^ 128 + u
              \<and> (p + d - u) * (2 * unat (rd_exchange_rate r)) \<le> MAX_VOTING_POWER * 100000000))"

lemma next_rate_total:
  assumes "unat (commission_bps fs) \<le> 10000" "unat (br_reward_rate b) \<le> 100000000" "unat (rd_exchange_rate r) < 2 ^ 127"
  shows "\<exists>n. rate_next_epoch r b fs st = Inr n \<and> unat (rd_exchange_rate n) \<le> 2 * unat (rd_exchange_rate r)"
proof (cases "st = VActive")
  case True
  obtain n where n: "rate_next_epoch r b fs VActive = Inr n" "unat (rd_exchange_rate n) = next_rate_of r b fs * 100000000 div 2 ^ 128"
    using rate_next_epoch_exact [OF assms] by blast
  have "unat (rd_exchange_rate n) * 100000000 \<le> unat (rd_exchange_rate r) * (100000000 + unat (br_reward_rate b))"
    by (rule next_rate_between(1) [OF assms(2) n(2)])
  also have "\<dots> \<le> unat (rd_exchange_rate r) * (2 * 100000000)" using assms(2) by (intro mult_le_mono2) simp
  finally show ?thesis using n(1) True by auto
next
  case False
  then show ?thesis by (simp add: rate_next_epoch_def)
qed

lemma precursor_total:
  assumes inv: "stake_inv env s" and show_inj: "inj (se_show_id env)" and st: "sk_states s i = Some st"
    and h: "sk_height s = Some h" "sk_epochs s h = Some e" and ub: "unbonded_amount r supply = Inr vp"
  shows "\<exists>final t. try_precursor_transition env i st r supply s = Inr (final, t) \<and> stake_inv env t \<and> sk_states t i \<noteq> None"
proof -
  obtain p where p: "sk_params s = Some p" using inv by (auto simp: stake_inv_def)
  define new where "new = (if sp_min_validator_stake p \<le> vp then if st = VActive then VActive else VInactive else VDefined)"
  consider "st \<notin> {VDefined, VInactive, VActive}" | "st \<in> {VDefined, VInactive, VActive}" "new = st" | "st \<in> {VDefined, VInactive, VActive}" "new \<noteq> st"
    by blast
  then show ?thesis
  proof cases
    case 1
    then show ?thesis using inv st by (simp add: try_precursor_transition_def)
  next
    case 2
    then have "try_precursor_transition env i st r supply s = Inr (Some new, s)"
      using p ub by (simp add: try_precursor_transition_def get_stake_params_def Let_def flip: new_def)
    then show ?thesis using inv st by auto
  next
    case 3
    then have "(st, new) \<in> diagram" by (auto simp: diagram_def new_def)
    then obtain t where t: "set_validator_state env i new s = Inr t" using set_state_total [OF inv st _ h] by blast
    then have "try_precursor_transition env i st r supply s = Inr (Some new, t)"
      using p ub 3 by (simp add: try_precursor_transition_def get_stake_params_def Let_def flip: new_def)
    moreover have "sk_states t = (sk_states s)(i \<mapsto> new)" by (rule set_state_moves [OF t])
    ultimately show ?thesis using set_state_inv [OF t inv show_inj] by auto
  qed
qed

lemma pool_state_total:
  assumes "stake_inv env s" "sk_states s i \<noteq> None"
  shows "\<exists>t. process_validator_pool_state i from s = Inr t"
proof -
  have "tracked_at s i" using assms(1) by (simp add: stake_inv_def tracked_def)
  then obtain b where "sk_bonding s i = Some b" using assms(2) by (auto simp: tracked_at_def)
  moreover obtain p where "sk_params s = Some p" using assms(1) by (auto simp: stake_inv_def)
  ultimately show ?thesis by (simp add: process_validator_pool_state_def compute_unbonding_height_def get_stake_params_def Let_def)
qed

lemma process_validator_total:
  assumes inv: "stake_inv env s" and show_inj: "inj (se_show_id env)" and h: "sk_height s = Some h" "sk_epochs s h = Some e'" and fit: "fit s ds us i"
    and reward: "unat (br_reward_rate b) \<le> 100000000"
  shows "\<exists>w t. process_validator env i e b (get_or (bt_get ds i) 0) (get_or (bt_get us i) 0) s = Inr (w, t)"
proof -
  let ?d = "get_or (bt_get ds i) 0" and ?u = "get_or (bt_get us i) 0"
  obtain v r0 where v: "sk_definitions s i = Some v" and bps: "unat (commission_bps (v_funding_streams v)) \<le> 10000" and r0: "sk_rates s i = Some r0"
    and rate: "unat (rd_exchange_rate r0) < 2 ^ 127" and small: "unat ?d < 2 ^ 127" "unat ?u < 2 ^ 127"
    and room: "unat ?u \<le> unat (get_or (sk_pools s i) 0) + unat ?d" "unat (get_or (sk_pools s i) 0) + unat ?d < 2 ^ 128 + unat ?u"
    and worth: "(unat (get_or (sk_pools s i) 0) + unat ?d - unat ?u) * (2 * unat (rd_exchange_rate r0)) \<le> MAX_VOTING_POWER * 100000000"
    using fit unfolding fit_def Let_def by blast
  have vi: "v_identity v = i" by (rule keysD(1) [OF _ v]) (use inv in \<open>simp add: stake_inv_def\<close>)
  have tr: "tracked_at s i" using inv by (simp add: stake_inv_def tracked_def)
  then obtain st where st: "sk_states s i = Some st" using v by (auto simp: tracked_at_def)
  have pok: "penalty_ok (get_or (get_penalty_in_epoch s i (ep_index e)) no_penalty)"
    by (rule stored_penalty_ok) (use inv in \<open>simp add: stake_inv_def\<close>)
  obtain r1 where r1: "rate_slash r0 (get_or (get_penalty_in_epoch s i (ep_index e)) no_penalty) = Inr r1"
    "unat (rd_exchange_rate r1) \<le> unat (rd_exchange_rate r0)" using rate_slash_total [OF pok] by blast
  obtain r2 where r2: "rate_next_epoch r1 b (v_funding_streams v) st = Inr r2" "unat (rd_exchange_rate r2) \<le> 2 * unat (rd_exchange_rate r1)"
    using next_rate_total [OF bps reward, of r1 st] r1(2) rate by auto
  define s0 where "s0 = set_prev_validator_rate i r1 s"
  have i0: "stake_inv env s0" using inv_update(1) [OF inv, of i] st by (simp add: s0_def set_prev_validator_rate_def)
  have f0: "sk_pools s0 = sk_pools s" "sk_states s0 = sk_states s" "sk_height s0 = Some h" "sk_epochs s0 h = Some e'" "sk_rates s0 = sk_rates s"
    using h by (simp_all add: s0_def set_prev_validator_rate_def)
  obtain s1 where s1: "apply_delegation_delta i ?d ?u s0 = Inr s1" using delta_exact(1) [OF small, of i s0] room by (auto simp: f0)
  have pool: "unat (get_or (sk_pools s1 i) 0) + unat ?u = unat (get_or (sk_pools s i) 0) + unat ?d"
    using delta_exact(2) [OF small s1] by (simp add: f0)
  have s1c: "s1 = s0 \<or> (\<exists>a. s1 = s0\<lparr>sk_pools := (sk_pools s0)(i \<mapsto> a)\<rparr>)" by (rule delta_effect [OF s1])
  have st0: "sk_states s0 i \<noteq> None" using st f0 by simp
  have i1: "stake_inv env s1" using s1c i0 inv_update(4) [OF i0 st0] by auto
  have f1: "sk_states s1 = sk_states s" "sk_height s1 = Some h" "sk_epochs s1 h = Some e'" using s1c f0 by auto
  have "unat (get_or (sk_pools s1 i) 0) * unat (rd_exchange_rate r2) \<le> (unat (get_or (sk_pools s i) 0) + unat ?d - unat ?u) * (2 * unat (rd_exchange_rate r0))"
    by (rule mult_le_mono) (use pool r2(2) r1(2) in linarith)+
  then have "unat (get_or (sk_pools s1 i) 0) * unat (rd_exchange_rate r2) \<le> MAX_VOTING_POWER * 100000000" using worth by (rule order_trans)
  then obtain vp where vp: "voting_power r2 (get_or (sk_pools s1 i) 0) = Inr vp" "unat vp \<le> MAX_VOTING_POWER"
    using power_bound [of "get_or (sk_pools s1 i) 0" r2 MAX_VOTING_POWER] by (auto simp: MAX_VOTING_POWER_def)
  define s2 where "s2 = s1\<lparr>sk_rates := (sk_rates s1)(i \<mapsto> r2), sk_powers := (sk_powers s1)(i \<mapsto> vp)\<rparr>"
  have set2: "set_validator_power i vp (set_validator_rate_data i r2 s1) = Inr s2"
    using vp(2) by (simp add: set_validator_power_def set_validator_rate_data_def s2_def)
  have rid: "rd_identity r2 = i"
    using r0 inv slash_identity [OF r1(1)] next_identity [OF r2(1)] by (simp add: stake_inv_def rates_ok_def)
  have st1: "sk_states s1 i \<noteq> None" using st f1 by simp
  have j1: "stake_inv env (s1\<lparr>sk_rates := (sk_rates s1)(i \<mapsto> r2)\<rparr>)" by (rule inv_update(2) [OF i1 st1 rid])
  have i2: "stake_inv env s2" using inv_update(3) [OF j1, of i] st1 by (simp add: s2_def)
  have f2: "sk_states s2 = sk_states s" "sk_height s2 = Some h" "sk_epochs s2 h = Some e'" using f1 by (simp_all add: s2_def)
  obtain final s3 where s3: "try_precursor_transition env i st r2 (get_or (sk_pools s1 i) 0) s2 = Inr (final, s3)" "stake_inv env s3" "sk_states s3 i \<noteq> None"
    using precursor_total [OF i2 show_inj _ f2(2,3), of i st r2 "get_or (sk_pools s1 i) 0" vp] vp(1) st f2(1) by (auto simp: voting_power_eq)
  obtain s4 where s4: "process_validator_pool_state i (ep_start_height e) s3 = Inr s4" using pool_state_total [OF s3(2,3)] by blast
  show ?thesis
    unfolding process_validator_def Let_def v ok_or_simps and_then.simps vi st r0 no_penalty(1) r1(1) r2(1) s0_def [symmetric] s1 vp(1) set2 s3(1) prod.case s4
    by blast
qed

section \<open>The epoch\<close>

lemma fit_cong:
  "fit s ds us i \<Longrightarrow> same_at env i s u \<Longrightarrow> sk_definitions u = sk_definitions s \<Longrightarrow> bt_get ds' i = bt_get ds i \<Longrightarrow> bt_get us' i = bt_get us i
    \<Longrightarrow> fit u ds' us' i"
  unfolding fit_def same_at_def by simp

lemma loop_total:
  assumes "stake_inv env s" and show_inj: "inj (se_show_id env)" and "sk_height s = Some h" "sk_epochs s h = Some e'"
    and start: "unat (ep_start_height e) \<le> 2 ^ 63" and reward: "unat (br_reward_rate b) \<le> 100000000"
    and "distinct is" "bt_wf ds" "bt_wf us" "\<And>i. i \<in> set is \<Longrightarrow> fit s ds us i"
  shows "\<exists>x. try_fold (process_one env e b) is ((ds, us, q), s) = Inr x"
  using assms(1,3,4,7-10)
proof (induction "is" arbitrary: s ds us q)
  case (Cons i "is")
  obtain w u where u: "process_validator env i e b (get_or (bt_get ds i) 0) (get_or (bt_get us i) 0) s = Inr (w, u)"
    using process_validator_total [OF Cons.prems(1) show_inj Cons.prems(2,3) _ reward, of ds us i e] Cons.prems(7) [of i] by auto
  note U = process_effect [OF u Cons.prems(1) show_inj start]
  note K = kept_fields [OF U(2)]
  have f: "fit u (bt_remove i ds) (bt_remove i us) j" if "j \<in> set is" for j
  proof (rule fit_cong [OF Cons.prems(7) [of j] U(3) [of j]])
    show "j \<noteq> i" "j \<in> set (i # is)" using that Cons.prems(4) by auto
    then show "bt_get (bt_remove i ds) j = bt_get ds j" "bt_get (bt_remove i us) j = bt_get us j" using Cons.prems(5,6) by simp_all
  qed (use K in simp)
  obtain x where "try_fold (process_one env e b) is ((bt_remove i ds, bt_remove i us, case w of None \<Rightarrow> q | Some r \<Rightarrow> q @ [r]), u) = Inr x"
    using Cons.IH [OF U(1) _ _ _ _ _ f, where q = "case w of None \<Rightarrow> q | Some r \<Rightarrow> q @ [r]"] Cons.prems(2-6) K by auto
  then show ?case using u by (simp add: process_one_eq)
qed simp

lemma collect_total:
  assumes "unat end_height < 2 ^ 63" "\<And>k. unat start \<le> k \<Longrightarrow> k \<le> unat end_height \<Longrightarrow> sk_changes_at s (of_nat k) \<noteq> None"
  shows "\<exists>ds us. collect_changes s start end_height = Inr (ds, us)"
proof -
  have "\<exists>y. try_fold (collect_height s) hs x = Inr y" if "\<And>k. k \<in> set hs \<Longrightarrow> unat k < 2 ^ 63 \<and> sk_changes_at s k \<noteq> None" for hs x
    using that
  proof (induction hs arbitrary: x)
    case (Cons k hs)
    obtain c where "sk_changes_at s k = Some c" "unat k < 2 ^ 63" using Cons.prems [of k] by auto
    then obtain y where "collect_height s k x = Inr y" by (cases x) (simp add: collect_height_def get_delegation_changes_def)
    then show ?case using Cons.IH [of y] Cons.prems by simp
  qed simp
  moreover have "unat k < 2 ^ 63 \<and> sk_changes_at s k \<noteq> None" if k: "k \<in> set (map of_nat [unat start..<unat end_height + 1])" for k
  proof -
    obtain n where n: "k = of_nat n" "unat start \<le> n" "n \<le> unat end_height" using k by auto
    have "n < 2 ^ 63" using n(3) assms(1) by linarith
    then have "unat k = n" unfolding n(1) by (simp add: unat_of_nat_small)
    then show ?thesis using n assms by auto
  qed
  ultimately show ?thesis unfolding collect_changes_def by (metis surj_pair)
qed

text \<open>The conditions under which an epoch ends.\<close>

definition epoch_ready :: "stake_state \<Rightarrow> u64 \<Rightarrow> epoch \<Rightarrow> bool" where
  "epoch_ready s h e \<longleftrightarrow> sk_height s = Some h \<and> sk_epochs s h = Some e \<and> unat h < 2 ^ 63
     \<and> (\<forall>k. unat (ep_start_height e) \<le> k \<and> k \<le> unat h \<longrightarrow> sk_changes_at s (of_nat k) \<noteq> None)
     \<and> (\<exists>prev x w. sk_base_rate s = Some prev \<and> unat (br_exchange_rate prev) < 2 ^ 127 \<and> sk_issuance s = Some x
          \<and> total_active_stake s = Inr w \<and> 0 < unat w \<and> unat x \<le> unat w)
     \<and> (\<forall>ds us. collect_changes s (ep_start_height e) h = Inr (ds, us) \<longrightarrow> (\<forall>i \<in> set (to_process s ds us). fit s ds us i))
     \<and> sk_consensus_keys s \<noteq> None"

lemma end_epoch_total:
  assumes g: "good env s" and show_inj: "inj (se_show_id env)" and r: "epoch_ready s h e"
  shows "\<exists>t. stake_end_epoch env s = Inr t"
proof -
  have inv: "stake_inv env s" using g by (simp add: good_def)
  have now: "sk_height s = Some h" "sk_epochs s h = Some e" and h: "unat h < 2 ^ 63" and cur: "sk_consensus_keys s \<noteq> None"
    using r unfolding epoch_ready_def by blast+
  have start: "unat (ep_start_height e) \<le> 2 ^ 63" using inv now by (simp add: stake_inv_def clock_ok_def)
  obtain ds us where c: "collect_changes s (ep_start_height e) h = Inr (ds, us)"
    using collect_total [OF h, of "ep_start_height e" s] r unfolding epoch_ready_def by blast
  obtain base s1 where b: "process_chain_base_rate s = Inr (base, s1)" "unat (br_reward_rate base) \<le> 100000000"
    using r base_rate_total unfolding epoch_ready_def by metis
  obtain prev where s1: "s1 = s\<lparr>sk_base_rate := Some base, sk_prev_base_rate := Some prev\<rparr>" by (rule base_rate_effect [OF b(1)])
  have i1: "stake_inv env s1" and n1: "sk_height s1 = Some h" "sk_epochs s1 h = Some e" using inv now by (simp_all add: s1 stake_inv_def)
  have fit1: "fit s1 ds us i" if "i \<in> set (to_process s ds us)" for i
    using r c that unfolding epoch_ready_def by (auto simp: s1 fit_def)
  have wf: "bt_wf ds" "bt_wf us" using collect_wf [OF c] by simp_all
  have "distinct (to_process s ds us)" by (simp add: to_process_def)
  then obtain x where "try_fold (process_one env e base) (to_process s ds us) ((ds, us, []), s1) = Inr x"
    using loop_total [OF i1 show_inj n1 start b(2) _ wf fit1] by blast
  then obtain ds' us' q s2 where l: "try_fold (process_one env e base) (to_process s ds us) ((ds, us, []), s1) = Inr ((ds', us', q), s2)"
    by (cases x) auto
  note L = loop_effect [OF l \<open>distinct (to_process s ds us)\<close> wf i1 show_inj start]
  have "bt_wf ds' \<and> bt_wf us'"
  proof -
    have "(\<lambda>((ds, us, q), s). bt_wf ds \<and> bt_wf us) ((ds', us', q), s2)"
      by (rule try_fold_invariant [OF l]) (auto simp: wf process_one_eq result_simps)
    then show ?thesis by simp
  qed
  moreover have "bt_get ds' k = None" "bt_get us' k = None" for k
  proof -
    have "k \<in> set (to_process s ds us) \<or> bt_get ds k = None" "k \<in> set (to_process s ds us) \<or> bt_get us k = None"
      by (auto simp: to_process_def bt_get_def map_of_eq_None_iff)
    then show "bt_get ds' k = None" "bt_get us' k = None" using L by auto
  qed
  ultimately have none: "ds' = []" "us' = []" using bt_all_removed by blast+
  let ?s3 = "s2\<lparr>sk_funding_queue := Some q\<rparr>"
  have P: "stake_inv env s2" "kept s1 s2" using L by (simp_all add: all_processed_def)
  have i3: "stake_inv env ?s3" using P(1) by (simp add: stake_inv_def)
  obtain p where p: "sk_params ?s3 = Some p" using i3 by (auto simp: stake_inv_def)
  have n3: "sk_height ?s3 = Some h" "sk_epochs ?s3 h = Some e" using n1 kept_fields [OF P(2)] by simp_all
  obtain u where u: "set_active_and_inactive_validators env ?s3 = Inr u" by (rule set_active_total [OF i3 show_inj n3 p])
  have cs: "to_process s1 ds us = to_process s ds us" by (simp add: s1 to_process_def consensus_set_def)
  have e: "end_epoch env e s = Inr u"
    unfolding end_epoch_def Let_def get_block_height_def now(1) ok_or_simps and_then.simps c prod.case b(1) to_process_def [symmetric] cs l none
    using u by simp
  note E = end_epoch_effect [OF e inv show_inj start now]
  have pu: "powers_ok u" using epoch_powers [OF E(2)] g by (simp add: good_def)
  obtain cu where "sk_consensus_keys u = Some cu" using cur E(7) by auto
  then obtain t where "build_cometbft_validator_updates u = Inr t" using updates_exact [OF E(1) pu] by metis
  then show ?thesis using e now by (simp add: stake_end_epoch_def get_current_epoch_def get_block_height_def)
qed

end
