(* ===== verification/StakeClaims.thy ===== *)
theory StakeClaims
  imports StakeChain
begin

text \<open>
  Claims of unbonded stake: penalties are stored under the text form of their epoch, whose order is that of the epochs below
  \<open>10 ^ 10\<close>, so a claim pays the penalties of exactly the epochs of its window, in order.
\<close>

section \<open>The order of the epochs\<close>

text \<open>The last \<open>k\<close> decimal digits.\<close>

primrec fixed_digits :: "nat \<Rightarrow> nat \<Rightarrow> u8 list" where
  "fixed_digits 0 n = []"
| "fixed_digits (Suc k) n = fixed_digits k (n div 10) @ [of_nat (48 + n mod 10)]"

lemma length_fixed [simp]: "length (fixed_digits k n) = k"
  by (induction k arbitrary: n) simp_all

lemma fixed_zero: "fixed_digits k 0 = replicate k 48"
  by (induction k) (simp_all flip: replicate_append_same)

lemma decimal_fixed: "n < 10 ^ k \<Longrightarrow> 0 < k \<Longrightarrow> replicate (k - length (decimal n)) 48 @ decimal n = fixed_digits k n \<and> length (decimal n) \<le> k"
proof (induction k arbitrary: n)
  case (Suc k)
  show ?case
  proof (cases "n < 10")
    case True
    then show ?thesis by (simp add: decimal.simps [of n] fixed_zero)
  next
    case False
    then have k: "0 < k" using Suc.prems(1) by (cases k) auto
    have "n div 10 < 10 ^ k" using Suc.prems(1) by (simp add: less_mult_imp_div_less)
    then have IH: "replicate (k - length (decimal (n div 10))) 48 @ decimal (n div 10) = fixed_digits k (n div 10)" "length (decimal (n div 10)) \<le> k"
      using Suc.IH k by blast+
    have d: "decimal n = decimal (n div 10) @ [of_nat (48 + n mod 10)]" using False by (simp add: decimal.simps [of n])
    show ?thesis using IH by (simp add: d flip: append_assoc)
  qed
qed simp

lemma epoch_text_fixed: "unat e < 10 ^ 10 \<Longrightarrow> epoch_text e = fixed_digits 10 (unat e)"
  using decimal_fixed [of "unat e" 10] by (simp add: epoch_text_def Let_def)

lemma less_append: "xs < ys \<Longrightarrow> length xs = length ys \<Longrightarrow> xs @ us < ys @ vs" for xs ys us vs :: "'a::linorder list"
proof (induction xs ys rule: list_induct2')
  case (4 x xs y ys)
  then show ?case by auto
qed auto

lemma less_append_same: "a < b \<Longrightarrow> xs @ [a] < xs @ [b]" for a b :: "'a::linorder"
  by (induction xs) auto

lemma fixed_less: "m < n \<Longrightarrow> n < 10 ^ k \<Longrightarrow> fixed_digits k m < fixed_digits k n"
proof (induction k arbitrary: m n)
  case (Suc k)
  show ?case
  proof (cases "m div 10 = n div 10")
    case True
    have "m mod 10 < n mod 10" using Suc.prems(1) True by (metis add_less_cancel_left mult_div_mod_eq)
    moreover have "unat (of_nat (48 + j mod 10) :: u8) = 48 + j mod 10" for j :: nat
    proof -
      have "j mod 10 < 10" by simp
      then have "48 + j mod 10 < 2 ^ 8" by simp
      then show ?thesis by (simp add: unat_of_nat_small del: of_nat_add)
    qed
    ultimately have "(of_nat (48 + m mod 10) :: u8) < of_nat (48 + n mod 10)" by (simp add: word_less_nat_alt del: of_nat_add)
    then show ?thesis using True by (simp add: less_append_same)
  next
    case False
    then have "m div 10 < n div 10" using Suc.prems(1) by (meson div_le_mono le_neq_implies_less less_imp_le)
    moreover have "n div 10 < 10 ^ k" using Suc.prems(2) by (simp add: less_mult_imp_div_less)
    ultimately have "fixed_digits k (m div 10) < fixed_digits k (n div 10)" by (rule Suc.IH)
    then show ?thesis by (simp add: less_append)
  qed
qed simp

lemma mono_order:
  fixes a b :: "'a::linorder" and f :: "'a \<Rightarrow> 'b::linorder"
  assumes "a < b \<Longrightarrow> f a < f b" "b < a \<Longrightarrow> f b < f a"
  shows "f a < f b \<longleftrightarrow> a < b" "f a \<le> f b \<longleftrightarrow> a \<le> b" "f a = f b \<longleftrightarrow> a = b"
  using assms by (cases a b rule: linorder_cases; auto)+

lemma epoch_text_less:
  assumes "unat a < 10 ^ 10" "unat b < 10 ^ 10"
  shows "epoch_text a < epoch_text b \<longleftrightarrow> a < b" "epoch_text a \<le> epoch_text b \<longleftrightarrow> a \<le> b" "epoch_text a = epoch_text b \<longleftrightarrow> a = b"
proof -
  have mono: "epoch_text x < epoch_text y" if "unat y < 10 ^ 10" "x < y" for x y
    using fixed_less [of "unat x" "unat y" 10] that epoch_text_fixed [of x] epoch_text_fixed [of y] by (simp add: word_less_nat_alt)
  show "epoch_text a < epoch_text b \<longleftrightarrow> a < b" "epoch_text a \<le> epoch_text b \<longleftrightarrow> a \<le> b" "epoch_text a = epoch_text b \<longleftrightarrow> a = b"
    by (rule mono_order [where f = epoch_text], erule mono [OF assms(2)], erule mono [OF assms(1)])+
qed

section \<open>The penalties of a window\<close>

definition penalties_between :: "stake_state \<Rightarrow> identity_key \<Rightarrow> u64 \<Rightarrow> u64 \<Rightarrow> penalty list" where
  "penalties_between s i a b = List.map_filter (\<lambda>e. get_penalty_in_epoch s i (of_nat e)) [unat a..<unat b]"

definition epochs_recorded :: "stake_state \<Rightarrow> identity_key \<Rightarrow> bool" where
  "epochs_recorded s i \<longleftrightarrow> (\<forall>k \<in> fst ` set (sk_penalties s i). \<exists>e. k = epoch_text e \<and> unat e < 10 ^ 10)"

lemma sorted_entries_eq:
  fixes xs ys :: "('k::linorder \<times> 'v) list"
  assumes "sorted_wrt (<) (map fst xs)" "sorted_wrt (<) (map fst ys)" "set xs = set ys"
  shows "xs = ys"
proof -
  have "map fst xs = map fst ys" by (rule strict_sorted_equal) (use assms in simp_all)
  moreover have "map_of xs = map_of ys"
    using assms by (metis map_of_eqI strict_sorted_iff map_of_eq_Some_iff option.exhaust weak_map_of_SomeI map_of_SomeD ext)
  moreover have "zs = map (\<lambda>k. (k, the (map_of zs k))) (map fst zs)" if "distinct (map fst zs)" for zs :: "('k \<times> 'v) list"
    using that by (intro nth_equalityI) (simp_all, metis map_of_is_SomeI nth_mem option.sel prod.collapse)
  ultimately show ?thesis using assms(1,2) by (metis strict_sorted_iff)
qed

lemma map_snd_filter: "map snd (List.map_filter (\<lambda>e. map_option (Pair (g e)) (f e)) es) = List.map_filter f es"
  by (induction es) (auto simp: List.map_filter_simps split: option.splits)

lemma penalties_in_window:
  assumes wf: "penalties_ok s" and rec: "epochs_recorded s i" and ab: "a \<le> b" "unat b < 10 ^ 10"
  shows "get_penalty_for_range s i a b = Inr (penalties_between s i a b)"
proof -
  let ?m = "sk_penalties s i"
  have bw: "bt_wf ?m" using wf by (simp add: penalties_ok_def)
  have a: "unat a < 10 ^ 10" using ab by (simp add: word_le_nat_alt)
  let ?xs = "filter (\<lambda>(k, _). epoch_text a \<le> k \<and> k < epoch_text b) ?m"
  let ?f = "\<lambda>e. map_option (Pair (epoch_text (of_nat e))) (get_penalty_in_epoch s i (of_nat e))"
  let ?ys = "List.map_filter ?f [unat a..<unat b]"
  have small: "unat (of_nat e :: u64) = e" "e < 10 ^ 10" if "e < unat b" for e
  proof -
    show "e < 10 ^ 10" using that ab(2) by simp
    then have "e < 2 ^ 64" by simp
    then show "unat (of_nat e :: u64) = e" by (simp add: unat_of_nat_small)
  qed
  have "?xs = ?ys"
  proof (rule sorted_entries_eq)
    show "sorted_wrt (<) (map fst ?xs)" using bt_wf_filter [OF bw] by (simp add: bt_wf_def)
    have srt: "sorted_wrt (\<lambda>x y. fst x < fst y) (List.map_filter ?f es)" if "sorted_wrt (<) es" "\<And>e. e \<in> set es \<Longrightarrow> e < unat b" for es
      using that
    proof (induction es)
      case (Cons e es)
      have "fst y > epoch_text (of_nat e)" if y: "y \<in> set (List.map_filter ?f es)" for y
      proof -
        obtain e' where e': "e' \<in> set es" "y = (epoch_text (of_nat e'), snd y)" using y by (auto simp: List.map_filter_def)
        then have "e < e'" using Cons.prems(1) by simp
        then have "epoch_text (of_nat e) < epoch_text (of_nat e')"
          using epoch_text_less(1) [of "of_nat e" "of_nat e'"] small Cons.prems(2) [of e] Cons.prems(2) [of e'] e'(1) by (simp add: word_less_nat_alt)
        then show ?thesis using e'(2) by (metis fst_conv)
      qed
      then show ?case using Cons by (auto simp: List.map_filter_simps split: option.splits)
    qed (simp add: List.map_filter_simps)
    show "sorted_wrt (<) (map fst ?ys)" unfolding sorted_wrt_map by (intro srt) simp_all
    show "set ?xs = set ?ys"
    proof (intro set_eqI iffI)
      fix x assume x: "x \<in> set ?xs"
      then obtain e where e: "fst x = epoch_text e" "unat e < 10 ^ 10" using rec by (auto simp: epochs_recorded_def)
      then have "a \<le> e" "e < b" using x epoch_text_less a ab(2) by auto
      moreover have "get_penalty_in_epoch s i e = Some (snd x)"
      proof -
        have "x \<in> set ?m" using x by (simp only: set_filter mem_Collect_eq)
        then show ?thesis using e(1) bt_get_iff [OF bw] by (metis get_penalty_in_epoch_def prod.collapse)
      qed
      ultimately have "unat e \<in> set [unat a..<unat b]" "?f (unat e) = Some x" using e(1) by (auto simp: prod_eq_iff word_le_nat_alt word_less_nat_alt)
      then show "x \<in> set ?ys" by (force simp: List.map_filter_def)
    next
      fix x assume "x \<in> set ?ys"
      then obtain e where e: "unat a \<le> e" "e < unat b" "?f e = Some x" by (auto simp: List.map_filter_def)
      then have "fst x = epoch_text (of_nat e)" "x \<in> set ?m"
        using bt_get_iff [OF bw] by (auto simp: get_penalty_in_epoch_def)
      moreover have "a \<le> of_nat e" "of_nat e < b" using e(1,2) small [OF e(2)] by (simp_all add: word_le_nat_alt word_less_nat_alt)
      ultimately show "x \<in> set ?xs" using epoch_text_less a ab(2) small [OF e(2)] by (auto simp: split_beta)
    qed
  qed
  then have "map snd ?xs = penalties_between s i a b" unfolding penalties_between_def by (simp only: map_snd_filter)
  moreover have "\<not> epoch_text b < epoch_text a" using epoch_text_less(2) [OF a ab(2)] ab(1) by (metis leD)
  ultimately show ?thesis unfolding get_penalty_for_range_def by (simp only: if_False)
qed

end
