(* ===== verification/StakeExamples.thy ===== *)
theory StakeExamples
  imports StakeLiveness StakeClaims
begin

text \<open>
  A chain with one genesis validator whose pool holds 5000000 delegation tokens, in its first state; the instances of the
  properties of the staking component start from it.
\<close>

definition stake_demo_env :: stake_env where
  "stake_demo_env = \<lparr>se_show_id = (\<lambda>i. i), se_sha256 = (\<lambda>x. x), se_delegation_token = (\<lambda>_. AssetId 2), se_unbonding_token = (\<lambda>_ _. AssetId 3),
     se_verify_definition = (\<lambda>_ _. True), se_verify_claim = (\<lambda>_ _ _ _. True)\<rparr>"

definition stake_demo_params :: stake_params where
  "stake_demo_params = stake_params_default\<lparr>sp_signed_blocks_window_len := 4, sp_missed_blocks_maximum := 3\<rparr>"

definition stake_demo_validator :: validator where
  "stake_demo_validator = \<lparr>v_identity = [1], v_governance_key = [2], v_consensus_key = [9], v_name = [], v_website = [], v_description = [],
     v_enabled = True, v_funding_streams = [ToCommunityPool 1000], v_sequence_number = 0\<rparr>"

definition stake_demo_genesis :: stake_genesis where
  "stake_demo_genesis = \<lparr>sg_params = stake_demo_params, sg_validators = [stake_demo_validator],
     sg_allocations = [\<lparr>v_amount = 5000000, v_asset = AssetId 2\<rparr>]\<rparr>"

definition stake_demo_rate :: rate_data where
  "stake_demo_rate = \<lparr>rd_identity = [1], rd_reward_rate = 0, rd_exchange_rate = 100000000\<rparr>"

definition stake_demo :: stake_state where
  "stake_demo = (sct_init_chain 10 empty_store)
     \<lparr>sk_params := Some stake_demo_params, sk_definitions := [[1] \<mapsto> stake_demo_validator], sk_states := [[1] \<mapsto> VActive],
      sk_rates := [[1] \<mapsto> stake_demo_rate], sk_powers := [[1] \<mapsto> 5000000], sk_pools := [[1] \<mapsto> 5000000],
      sk_bonding := [[1] \<mapsto> Bonded], sk_uptimes := [[1] \<mapsto> uptime_new 0 4], sk_index := [([1], [1])],
      sk_key_owner := [[9] \<mapsto> [1]], sk_key_of_address := [[9] \<mapsto> [9]], sk_base_rate := Some (genesis_base_rate 0),
      sk_changes_at := [0 \<mapsto> no_changes], sk_consensus_keys := Some [[9]], sk_denoms := {DelegationDenom [1]},
      sk_comet_updates := Some [([9], 5000000)]\<rparr>"

lemma demo_rate_of: "rd_exchange_rate r = 100000000 \<Longrightarrow> rate_of r = 2 ^ 128"
  by (simp add: rate_of_def descaled_def)

lemma demo_unbonded: "rd_exchange_rate r = 100000000 \<Longrightarrow> unbonded_amount r a = Inr a"
proof -
  assume r: "rd_exchange_rate r = 100000000"
  have "unat a * 2 ^ 128 < 2 ^ 128 * 2 ^ 128" using u128_less [of a] by simp
  then show ?thesis unfolding unbonded_amount_iff demo_rate_of [OF r] by (simp flip: power_add)
qed

lemma demo_genesis_run: "stake_init_chain stake_demo_env (Some stake_demo_genesis) (sct_init_chain 10 empty_store) = Inr stake_demo"
  by (simp add: stake_init_chain_def stake_demo_genesis_def stake_demo_def sct_init_chain_def empty_store_def get_block_height_def
      get_epoch_by_height_def Let_def genesis_base_rate_def add_genesis_validator_def voting_power_eq demo_unbonded genesis_allocations_def
      stake_demo_validator_def stake_demo_env_def add_validator_inner_def register_consensus_key_def validator_address_def
      set_validator_rate_data_def set_initial_validator_state_def set_validator_power_def MAX_VOTING_POWER_def
      set_validator_bonding_state_def set_validator_pool_size_def add_consensus_set_index_def get_stake_params_def
      set_validator_uptime_def stake_demo_params_def stake_params_default_def block_height_of_def set_delegation_changes_def
      build_cometbft_validator_updates_def consensus_set_def effective_power_def fetch_validator_consensus_key_def comet_update_def
      stake_demo_rate_def)

lemma demo_genesis_ok: "genesis_ok stake_demo_genesis"
  by (simp add: genesis_ok_def params_ok_def stake_demo_genesis_def stake_demo_params_def stake_params_default_def)

lemma demo_show: "inj (se_show_id stake_demo_env)"
  by (simp add: stake_demo_env_def inj_on_def)

lemma demo_reachable: "stake_reachable stake_demo_env stake_demo"
  by (rule stake_reachable.genesis [OF demo_genesis_ok demo_genesis_run])

lemma demo_good: "good stake_demo_env stake_demo"
  by (rule reachable_good [OF demo_reachable demo_show])

end
