(* ===== verification/StakeBlocks.thy ===== *)
theory StakeBlocks
  imports StakeExamples
begin

text \<open>
  The block that ends an epoch, as a step of the chain: the store the epoch handler sees, what it leaves behind, and the
  active set that follows from it.
\<close>

section \<open>The block that ends an epoch\<close>

definition ends_epoch :: "stake_state \<Rightarrow> bool \<Rightarrow> bool" where
  "ends_epoch s upgrade \<longleftrightarrow> (\<exists>h e d. sk_height s = Some h \<and> sk_epochs s h = Some e \<and> sk_epoch_duration s = Some d
     \<and> (is_scheduled_epoch_end e h d \<or> sk_end_epoch_early s \<or> upgrade))"

text \<open>The changes of the block and the issuance of the distributions are stored before the epoch is ended.\<close>

definition before_epoch_end :: "u64 \<Rightarrow> amount \<Rightarrow> stake_state \<Rightarrow> stake_state" where
  "before_epoch_end h issuance s = s\<lparr>sk_changes_at := (sk_changes_at s)(h \<mapsto> sk_changes_tally s), sk_issuance := Some issuance\<rparr>"

lemma before_end_good: "good env (before_epoch_end h issuance s) = good env s"
  by (simp add: before_epoch_end_def good_def stake_inv_def)

lemma before_end_fields:
  "sk_params (before_epoch_end h x s) = sk_params s" "sk_states (before_epoch_end h x s) = sk_states s" "sk_rates (before_epoch_end h x s) = sk_rates s"
  "sk_powers (before_epoch_end h x s) = sk_powers s" "sk_pools (before_epoch_end h x s) = sk_pools s" "sk_index (before_epoch_end h x s) = sk_index s"
  "sk_penalties (before_epoch_end h x s) = sk_penalties s" "sk_definitions (before_epoch_end h x s) = sk_definitions s"
  "sk_consensus_keys (before_epoch_end h x s) = sk_consensus_keys s" "consensus_set (before_epoch_end h x s) = consensus_set s"
  "sk_height (before_epoch_end h x s) = sk_height s" "sk_epochs (before_epoch_end h x s) = sk_epochs s"
  "sk_bonding (before_epoch_end h x s) = sk_bonding s" "sk_base_rate (before_epoch_end h x s) = sk_base_rate s"
  by (simp_all add: before_epoch_end_def consensus_set_def)

lemma end_block_epoch:
  assumes h: "sk_height s = Some h" and e: "sk_epochs s h = Some e" and small: "unat h < 2 ^ 63"
    and d: "sk_epoch_duration s = Some d" "is_scheduled_epoch_end e h d \<or> sk_end_epoch_early s \<or> upgrade"
  shows "app_end_block env h issuance upgrade s = and_then (expect (stake_end_epoch env (before_epoch_end h issuance s)))
    (\<lambda>u. Inr (u\<lparr>sk_epochs := (sk_epochs u)(h + 1 \<mapsto> \<lparr>ep_index = ep_index e + 1, ep_start_height = h + 1\<rparr>)\<rparr>))"
  using d(2) small h e d(1) by (simp add: app_end_block_def stake_end_block_def block_height_of_def set_delegation_changes_def get_block_height_def
      get_current_epoch_def before_epoch_end_def)

lemma epoch_block:
  assumes step: "stake_step env (EndBlock issuance upgrade) s t" and ends: "ends_epoch s upgrade" and g: "good env s"
    and show_inj: "inj (se_show_id env)"
  obtains h e u us ks where "sk_height s = Some h" "sk_epochs s h = Some e" "unat h < 2 ^ 63"
    "end_epoch env e (before_epoch_end h issuance s) = Inr u" "epoch_ended env e (before_epoch_end h issuance s) u" "good env u"
    "build_cometbft_validator_updates u = Inr (u\<lparr>sk_comet_updates := Some us, sk_consensus_keys := Some ks\<rparr>)"
    "sk_consensus_keys u = sk_consensus_keys s"
    "t = u\<lparr>sk_comet_updates := Some us, sk_consensus_keys := Some ks,
           sk_epochs := (sk_epochs u)(h + 1 \<mapsto> \<lparr>ep_index = ep_index e + 1, ep_start_height = h + 1\<rparr>)\<rparr>"
proof -
  obtain h where h: "sk_height s = Some h" and run: "app_end_block env h issuance upgrade s = Inr t"
    using step by (elim stake_stepE) (simp_all)
  obtain e d where e: "sk_epochs s h = Some e" "sk_epoch_duration s = Some d" "is_scheduled_epoch_end e h d \<or> sk_end_epoch_early s \<or> upgrade"
    using ends h by (auto simp: ends_epoch_def)
  have small: "unat h < 2 ^ 63" using run by (auto simp: app_end_block_def stake_end_block_def block_height_of_def split: if_splits)
  let ?s = "before_epoch_end h issuance s"
  have gs: "good env ?s" using g by (simp only: before_end_good)
  obtain w where w: "stake_end_epoch env ?s = Inr w"
    and t: "t = w\<lparr>sk_epochs := (sk_epochs w)(h + 1 \<mapsto> \<lparr>ep_index = ep_index e + 1, ep_start_height = h + 1\<rparr>)\<rparr>"
    using run unfolding end_block_epoch [OF h e(1) small e(2,3)] by (auto simp: result_simps)
  obtain u where cur: "get_current_epoch ?s = Inr e" and u: "end_epoch env e ?s = Inr u" "epoch_ended env e ?s u" "good env u"
    and b: "build_cometbft_validator_updates u = Inr w"
  proof (rule stake_end_epoch_good [OF w gs show_inj])
    fix e' u
    assume *: "get_current_epoch ?s = Inr e'" "end_epoch env e' ?s = Inr u" "epoch_ended env e' ?s u" "good env u" "build_cometbft_validator_updates u = Inr w"
    have "e' = e" using *(1) h e(1) by (simp add: get_current_epoch_def get_block_height_def before_end_fields)
    then show thesis using that * by blast
  qed
  obtain cu where cu: "sk_consensus_keys u = Some cu" using b by (auto simp: build_cometbft_validator_updates_def result_simps)
  obtain us ks where k: "build_cometbft_validator_updates u = Inr (u\<lparr>sk_comet_updates := Some us, sk_consensus_keys := Some ks\<rparr>)"
    by (rule updates_exact [OF _ _ cu, of env]) (use u(3) in \<open>simp_all add: good_def\<close>)
  have inv: "stake_inv env ?s" using gs by (simp add: good_def)
  have start: "unat (ep_start_height e) \<le> 2 ^ 63" using inv e(1) by (simp add: stake_inv_def clock_ok_def before_end_fields)
  have "sk_consensus_keys u = sk_consensus_keys s"
    using end_epoch_effect(7) [OF u(1) inv show_inj start] h e(1) by (simp add: before_end_fields)
  moreover have "w = u\<lparr>sk_comet_updates := Some us, sk_consensus_keys := Some ks\<rparr>" using b k by simp
  then have "t = u\<lparr>sk_comet_updates := Some us, sk_consensus_keys := Some ks,
           sk_epochs := (sk_epochs u)(h + 1 \<mapsto> \<lparr>ep_index = ep_index e + 1, ep_start_height = h + 1\<rparr>)\<rparr>" using t by simp
  ultimately show thesis using that [OF h e(1) small u k] by blast
qed

section \<open>Slashing\<close>

lemma set_state_slashes:
  assumes m: "set_validator_state env i new s = Inr t" and old: "sk_states s i = Some old" "old \<noteq> new" and new: "new = VTombstoned \<or> new = VJailed"
    and h: "sk_height s = Some h" "sk_epochs s h = Some e"
  obtains p q n where "sk_params s = Some p"
    "from_bps_squared (if new = VTombstoned then sp_slashing_penalty_misbehavior p else sp_slashing_penalty_downtime p) = Inr q"
    "penalty_compound (get_or (get_penalty_in_epoch s i (ep_index e)) no_penalty) q = Inr n"
    "sk_penalties t = (sk_penalties s)(i := bt_insert (epoch_text (ep_index e)) n (sk_penalties s i))"
proof -
  obtain e' u where "sk_epochs s h = Some e'"
    and u: "transition_effects env i old new (ep_start_height e')
        (if old = VActive \<and> new \<in> {VDefined, VDisabled, VJailed, VTombstoned} then set_end_epoch_flag s else s) = Inr u"
    and t: "sk_penalties t = sk_penalties u"
    by (rule set_stateE [OF m]) (use h(1) old(1) new in \<open>auto simp: set_last_disabled_height_def\<close>)
  define s0 where "s0 = (if old = VActive \<and> new \<in> {VDefined, VDisabled, VJailed, VTombstoned} then set_end_epoch_flag s else s)"
  have s0: "sk_penalties s0 = sk_penalties s" "sk_params s0 = sk_params s" "get_current_epoch s0 = Inr e"
    using h by (simp_all add: s0_def set_end_epoch_flag_def get_current_epoch_def get_block_height_def)
  have "\<exists>p q v. sk_params s0 = Some p
      \<and> from_bps_squared (if new = VTombstoned then sp_slashing_penalty_misbehavior p else sp_slashing_penalty_downtime p) = Inr q
      \<and> record_slashing_penalty i q s0 = Inr v \<and> sk_penalties u = sk_penalties v"
    using u [folded s0_def] old(2) new
    by (cases old; cases new) (auto simp: transition_effects_def result_simps and_then_Inr_iff get_stake_params_def set_validator_bonding_state_def)
  then obtain p q v where p: "sk_params s0 = Some p"
      "from_bps_squared (if new = VTombstoned then sp_slashing_penalty_misbehavior p else sp_slashing_penalty_downtime p) = Inr q"
    and v: "record_slashing_penalty i q s0 = Inr v" "sk_penalties u = sk_penalties v" by blast
  obtain e1 n where "get_current_epoch s0 = Inr e1" and n: "penalty_compound (get_or (get_penalty_in_epoch s0 i (ep_index e1)) no_penalty) q = Inr n"
    "v = s0\<lparr>sk_penalties := (sk_penalties s0)(i := bt_insert (epoch_text (ep_index e1)) n (sk_penalties s0 i))\<rparr>"
    by (rule slash_effect [OF v(1)])
  then have "e1 = e" using s0(3) by simp
  then show thesis using that [of p q n] p n v(2) t s0 by (simp add: get_penalty_in_epoch_def)
qed

lemma compound_exact:
  assumes "penalty_compound p q = Inr n" "penalty_ok p" "penalty_ok q"
  shows "unat (raw (kept_rate n)) = unat (raw (kept_rate p)) * unat (raw (kept_rate q)) div 2 ^ 128"
  using compound_total [OF assms(2,3)] assms(1) by auto

section \<open>The active set\<close>

definition active_set :: "stake_state \<Rightarrow> identity_key set" where
  "active_set s = {i. sk_states s i = Some VActive}"

lemma epoch_active:
  assumes e: "epoch_ended env e s t"
  obtains u p where "sk_params s = Some p" "stake_inv env u" "sk_powers t = sk_powers u" "active_set t = set (actives u p)"
    "\<And>j. sk_states t j = Some VInactive \<longleftrightarrow> j \<in> set (inactives u p)"
  using e unfolding epoch_ended_def
proof (elim exE conjE)
  fix h ds us base p u s1
  assume p: "sk_params s = Some p" and inv: "stake_inv env u" and pw: "sk_powers t = sk_powers u"
    and st: "\<forall>j. sk_states t j = (if j \<in> set (actives u p) then Some VActive else if j \<in> set (inactives u p) then Some VInactive else sk_states u j)"
  have ix: "index_ok env u" using inv by (simp add: stake_inv_def)
  have cover: "candidate u j \<Longrightarrow> j \<in> set (actives u p) \<union> set (inactives u p)" for j
  proof -
    assume c: "candidate u j"
    then have "j \<in> set (consensus_set u)" using ix consensus_set_iff(1) [OF ix] by (auto simp: index_ok_def candidate_def)
    then have "j \<in> set (map fst (ranked u)) \<or> j \<in> set (map fst (powerless u))"
      unfolding ranked_set using c by (auto simp: powerless_def image_image)
    moreover have "set (map fst (ranked u)) = set (actives u p) \<union> set (map fst (drop (unat (sp_active_validator_limit p)) (ranked u)))"
      unfolding actives_def set_append [symmetric] map_append [symmetric] append_take_drop_id ..
    ultimately show ?thesis by (auto simp: inactives_def)
  qed
  have disj: "set (actives u p) \<inter> set (inactives u p) = {}" using ranked_distinct(2) [OF ix, of p] by simp
  have "active_set t = set (actives u p)" using st cover by (auto simp: active_set_def candidate_def)
  moreover have "sk_states t j = Some VInactive \<longleftrightarrow> j \<in> set (inactives u p)" for j
    using st cover [of j] disj by (auto simp: candidate_def)
  ultimately show thesis using that [OF p inv pw] by blast
qed

lemma actives_count:
  assumes "index_ok env u"
  shows "card (set (actives u p)) = min (unat (sp_active_validator_limit p)) (length (ranked u))"
  using distinct_card [of "actives u p"] ranked_distinct(2) [OF assms, of p] by (simp add: actives_def min.commute)

lemma actives_powerful: "i \<in> set (actives u p) \<Longrightarrow> power_of u i \<noteq> 0"
proof -
  assume "i \<in> set (actives u p)"
  then have "i \<in> set (map fst (ranked u))" by (auto simp: actives_def dest: in_set_takeD)
  then show ?thesis unfolding ranked_set by blast
qed

lemma inactive_powerful:
  assumes "j \<in> set (inactives u p)" "power_of u j \<noteq> 0"
  shows "unat (sp_active_validator_limit p) < length (ranked u)"
proof -
  have "j \<notin> set (map fst (powerless u))" using assms(2) by (auto simp: powerless_def)
  then have "drop (unat (sp_active_validator_limit p)) (ranked u) \<noteq> []" using assms(1) by (auto simp: inactives_def)
  then show ?thesis by simp
qed

section \<open>Two steps of the demo chain\<close>

lemma demo_epoch_ready: "epoch_ready (before_epoch_end 0 0 stake_demo) 0 \<lparr>ep_index = 0, ep_start_height = 0\<rparr>"
proof -
  let ?s = "before_epoch_end 0 0 stake_demo"
  have stake: "total_active_stake ?s = Inr 5000000"
    by (simp add: total_active_stake_def consensus_set_def before_epoch_end_def stake_demo_def active_stake_def stake_demo_rate_def demo_unbonded
        checked_add_def)
  have none: "collect_changes ?s 0 0 = Inr ([], [])"
    by (simp add: collect_changes_def collect_height_def get_delegation_changes_def before_epoch_end_def stake_demo_def sct_init_chain_def
        empty_store_def no_changes_def)
  have "fit ?s [] [] i" if "i \<in> set (to_process ?s [] [])" for i
  proof -
    have "i = [1]" using that by (simp add: to_process_def consensus_set_def before_epoch_end_def stake_demo_def)
    then show ?thesis
      by (simp add: fit_def before_epoch_end_def stake_demo_def stake_demo_validator_def stake_demo_rate_def commission_bps_def bt_get_def
          MAX_VOTING_POWER_def)
  qed
  then show ?thesis using stake none
    by (auto simp: epoch_ready_def before_epoch_end_def stake_demo_def sct_init_chain_def empty_store_def genesis_base_rate_def)
qed

lemma demo_epoch_end: "\<exists>t. stake_step stake_demo_env (EndBlock 0 True) stake_demo t"
proof -
  let ?e = "\<lparr>ep_index = 0, ep_start_height = 0\<rparr>" and ?s = "before_epoch_end 0 0 stake_demo"
  have "good stake_demo_env ?s" unfolding before_end_good by (rule demo_good)
  then obtain u where u: "stake_end_epoch stake_demo_env ?s = Inr u" using end_epoch_total demo_show demo_epoch_ready by blast
  have h: "sk_height stake_demo = Some 0" "sk_epochs stake_demo 0 = Some ?e" "sk_epoch_duration stake_demo = Some 10"
    by (simp_all add: stake_demo_def sct_init_chain_def)
  have "\<exists>t. app_end_block stake_demo_env 0 0 True stake_demo = Inr t"
    using end_block_epoch [OF h(1,2) _ h(3), of True] u by simp
  then show ?thesis using stake_step.end_block [OF h(1)] by blast
qed

lemma demo_ends: "ends_epoch stake_demo True"
  by (simp add: ends_epoch_def stake_demo_def sct_init_chain_def)

lemma demo_evidence:
  "\<exists>t. stake_step stake_demo_env (BeginBlock 1 [[9]] []) stake_demo t \<and> sk_states t [1] = Some VTombstoned"
proof -
  let ?s = "sct_begin_block 1 stake_demo"
  have inv: "stake_inv stake_demo_env ?s" using demo_good by (simp add: good_def stake_inv_def sct_begin_block_def)
  have h: "sk_height ?s = Some 1" "sk_epochs ?s 1 = Some \<lparr>ep_index = 0, ep_start_height = 0\<rparr>" "sk_states ?s [1] = Some VActive"
    by (simp_all add: stake_demo_def sct_init_chain_def sct_begin_block_def)
  obtain t where t: "set_validator_state stake_demo_env [1] VTombstoned ?s = Inr t"
    using set_state_total [OF inv h(3) _ h(1,2)] by (auto simp: diagram_def)
  obtain old where mv: "moved ?s t" and st: "sk_states t = (sk_states ?s)([1] \<mapsto> VTombstoned)"
    and ix: "sk_index t = (if VTombstoned = VInactive \<and> old \<in> {VDefined, VDisabled, VJailed}
      then bt_insert (se_show_id stake_demo_env [1]) [1] (sk_index ?s) else sk_index ?s)" by (rule set_state_moves [OF t]) blast
  have "process_evidence stake_demo_env [9] ?s = Inr t"
    using t by (simp add: process_evidence_def get_validator_definition_by_cometbft_address_def get_validator_definition_by_consensus_key_def
        stake_demo_def sct_begin_block_def stake_demo_validator_def)
  moreover have "track_uptime stake_demo_env [] t = Inr t"
    using moved_fields(1,3) [OF mv] ix h(1) st by (simp add: track_uptime_def get_block_height_def get_stake_params_def consensus_set_def
        sct_begin_block_def stake_demo_def lookup_active_def process_lookup_def)
  ultimately have "stake_begin_block stake_demo_env [[9]] [] ?s = Inr t"
    by (simp add: stake_begin_block_def process_evidence_or_ignore_def)
  then show ?thesis using stake_step.begin_block st by (metis fun_upd_same)
qed

text \<open>A second validator that never had stake, and evidence against it.\<close>

definition stake_demo_second :: validator where
  "stake_demo_second = stake_demo_validator\<lparr>v_identity := [2], v_consensus_key := [8]\<rparr>"

definition stake_demo_two :: stake_state where
  "stake_demo_two = stake_demo
     \<lparr>sk_definitions := [[1] \<mapsto> stake_demo_validator, [2] \<mapsto> stake_demo_second], sk_states := [[1] \<mapsto> VActive, [2] \<mapsto> VDefined],
      sk_rates := [[1] \<mapsto> stake_demo_rate, [2] \<mapsto> stake_demo_rate\<lparr>rd_identity := [2]\<rparr>], sk_powers := [[1] \<mapsto> 5000000, [2] \<mapsto> 0],
      sk_pools := [[1] \<mapsto> 5000000, [2] \<mapsto> 0], sk_bonding := [[1] \<mapsto> Bonded, [2] \<mapsto> Unbonded],
      sk_key_owner := [[9] \<mapsto> [1], [8] \<mapsto> [2]], sk_key_of_address := [[9] \<mapsto> [9], [8] \<mapsto> [8]],
      sk_denoms := {DelegationDenom [2], DelegationDenom [1]}\<rparr>"

lemma demo_two_step: "stake_step stake_demo_env (Defining \<lparr>vd_validator = stake_demo_second, vd_auth_sig = []\<rparr>) stake_demo stake_demo_two"
proof (rule stake_step.defining)
  show "definition_check_stateless stake_demo_env \<lparr>vd_validator = stake_demo_second, vd_auth_sig = []\<rparr> = Inr ()"
    by (simp add: definition_check_stateless_def stake_demo_second_def stake_demo_validator_def stake_demo_env_def commission_bps_def ensure_def)
  show "definition_check_and_execute stake_demo_env \<lparr>vd_validator = stake_demo_second, vd_auth_sig = []\<rparr> stake_demo = Inr stake_demo_two"
    by (simp add: definition_check_and_execute_def Let_def get_validator_definition_by_consensus_key_def stake_demo_second_def stake_demo_validator_def
        stake_demo_def stake_demo_two_def add_validator_def add_validator_inner_def register_consensus_key_def validator_address_def
        set_validator_rate_data_def set_initial_validator_state_def set_validator_power_def MAX_VOTING_POWER_def stake_demo_rate_def
        set_validator_bonding_state_def set_validator_pool_size_def stake_demo_env_def)
qed

lemma demo_two_reachable: "stake_reachable stake_demo_env stake_demo_two"
  by (rule stake_reachable.step [OF demo_reachable demo_two_step])

lemma demo_second_slashed:
  obtains t n where "stake_step stake_demo_env (BeginBlock 1 [[8]] []) stake_demo_two t" "moved (sct_begin_block 1 stake_demo_two) t"
    "sk_index t = sk_index stake_demo" "sk_states t = [[1] \<mapsto> VActive, [2] \<mapsto> VTombstoned]"
    "get_penalty_in_epoch t [2] 0 = Some n" "unat (raw (kept_rate n)) < 2 ^ 128"
proof -
  let ?s = "sct_begin_block 1 stake_demo_two" and ?e = "\<lparr>ep_index = 0, ep_start_height = 0\<rparr>"
  have "good stake_demo_env stake_demo_two" by (rule reachable_good [OF demo_two_reachable demo_show])
  then have inv: "stake_inv stake_demo_env ?s" by (simp add: good_def stake_inv_def sct_begin_block_def)
  have h: "sk_height ?s = Some 1" "sk_epochs ?s 1 = Some ?e" "sk_states ?s [2] = Some VDefined"
    by (simp_all add: stake_demo_two_def stake_demo_def sct_init_chain_def sct_begin_block_def)
  obtain t where t: "set_validator_state stake_demo_env [2] VTombstoned ?s = Inr t"
    using set_state_total [OF inv h(3) _ h(1,2)] by (auto simp: diagram_def)
  have mv: "moved ?s t" and st: "sk_states t = (sk_states ?s)([2] \<mapsto> VTombstoned)" and ix: "sk_index t = sk_index ?s"
    and up: "sk_uptimes t [1] = sk_uptimes ?s [1]"
    by (rule set_state_moves [OF t]; simp)+
  obtain p q n where p: "sk_params ?s = Some p" and q: "from_bps_squared (sp_slashing_penalty_misbehavior p) = Inr q"
    and n: "penalty_compound (get_or (get_penalty_in_epoch ?s [2] (ep_index ?e)) no_penalty) q = Inr n"
      "sk_penalties t = (sk_penalties ?s)([2] := bt_insert (epoch_text (ep_index ?e)) n (sk_penalties ?s [2]))"
    by (rule set_state_slashes [OF t h(3) _ _ h(1,2)]) simp_all
  have none: "sk_penalties ?s [2] = []" by (simp add: sct_begin_block_def stake_demo_two_def stake_demo_def sct_init_chain_def empty_store_def)
  have mis: "sp_slashing_penalty_misbehavior p = 10000000"
    using p by (auto simp: sct_begin_block_def stake_demo_two_def stake_demo_def stake_demo_params_def stake_params_default_def)
  have ok: "penalty_ok q" using from_bps_squared_total [of "10000000"] q mis by auto
  have k: "unat (raw (kept_rate q)) + 10000000 * 2 ^ 128 div 100000000 = 2 ^ 128" using q unfolding mis from_bps_squared_iff by simp
  have "unat (raw (kept_rate n)) = unat (raw (kept_rate q))"
    using compound_exact [OF n(1) _ ok] none no_penalty(2,3) by (simp add: get_penalty_in_epoch_def bt_get_def)
  moreover have "unat (raw (kept_rate q)) < 2 ^ 128" using k by simp
  ultimately have less: "unat (raw (kept_rate n)) < 2 ^ 128" by simp
  have pen: "get_penalty_in_epoch t [2] 0 = Some n" using n(2) none by (simp add: get_penalty_in_epoch_def bt_get_def)
  note F = moved_fields [OF mv]
  have "process_evidence stake_demo_env [8] ?s = Inr t"
    using t by (simp add: process_evidence_def get_validator_definition_by_cometbft_address_def get_validator_definition_by_consensus_key_def
        stake_demo_two_def sct_begin_block_def stake_demo_second_def)
  moreover have window: "replicate 4 True = [True, True, True, True]" by (simp add: numeral_eq_Suc)
  obtain u where u: "track_uptime stake_demo_env [] t = Inr (set_validator_uptime [1] u t)"
    using F(1,3,5) ix h(1) st up by (simp add: track_uptime_def get_block_height_def get_stake_params_def consensus_set_def
        sct_begin_block_def stake_demo_two_def stake_demo_def lookup_active_def process_lookup_def fetch_validator_consensus_key_def
        process_validator_uptime_def bt_get_def mark_height_as_signed_def uptime_new_def num_missed_blocks_def stake_demo_validator_def
        stake_demo_params_def stake_params_default_def window)
  ultimately have "stake_begin_block stake_demo_env [[8]] [] ?s = Inr (set_validator_uptime [1] u t)"
    by (simp add: stake_begin_block_def process_evidence_or_ignore_def)
  then have "stake_step stake_demo_env (BeginBlock 1 [[8]] []) stake_demo_two (set_validator_uptime [1] u t)" by (rule stake_step.begin_block)
  moreover have "moved ?s (set_validator_uptime [1] u t)" using mv by (simp add: moved_def set_validator_uptime_def rest_def)
  ultimately show thesis
    using that [of "set_validator_uptime [1] u t" n] st ix pen less
    by (simp add: set_validator_uptime_def get_penalty_in_epoch_def sct_begin_block_def stake_demo_two_def stake_demo_def fun_upd_twist)
qed

lemma demo_second_epoch:
  assumes mv: "moved (sct_begin_block 1 stake_demo_two) t" and ix: "sk_index t = sk_index stake_demo"
    and st: "sk_states t = [[1] \<mapsto> VActive, [2] \<mapsto> VTombstoned]"
  shows "epoch_ready (before_epoch_end 1 0 t) 1 \<lparr>ep_index = 0, ep_start_height = 0\<rparr>" "ends_epoch t True"
    "collect_changes (before_epoch_end 1 0 t) 0 1 = Inr ([], [])"
proof -
  let ?s = "before_epoch_end 1 0 t"
  note F = moved_fields [OF mv]
  have f: "sk_height t = Some 1" "sk_epochs t = [0 \<mapsto> \<lparr>ep_index = 0, ep_start_height = 0\<rparr>, 1 \<mapsto> \<lparr>ep_index = 0, ep_start_height = 0\<rparr>]"
    "sk_epoch_duration t = Some 10" "sk_changes_at t = [0 \<mapsto> no_changes]" "sk_changes_tally t = no_changes" "sk_base_rate t = Some (genesis_base_rate 0)"
    "sk_consensus_keys t = Some [[9]]" "sk_definitions t [1] = Some stake_demo_validator" "sk_rates t [1] = Some stake_demo_rate" "sk_pools t [1] = Some 5000000"
    by (simp_all add: F sct_begin_block_def stake_demo_two_def stake_demo_def sct_init_chain_def empty_store_def)
  have set: "consensus_set t = [[1]]" by (simp add: consensus_set_def ix stake_demo_def)
  have stake: "total_active_stake ?s = Inr 5000000"
    by (simp add: total_active_stake_def set active_stake_def before_end_fields st f demo_unbonded stake_demo_rate_def checked_add_def)
  show none: "collect_changes ?s 0 1 = Inr ([], [])"
    by (simp add: collect_changes_def collect_height_def get_delegation_changes_def before_epoch_end_def f no_changes_def)
  have "fit ?s [] [] i" if "i \<in> set (to_process ?s [] [])" for i
  proof -
    have "i = [1]" using that by (simp add: to_process_def before_end_fields set)
    then show ?thesis
      by (simp add: fit_def before_end_fields f stake_demo_validator_def stake_demo_rate_def commission_bps_def bt_get_def MAX_VOTING_POWER_def)
  qed
  moreover have "sk_changes_at ?s (of_nat k) \<noteq> None" if "k \<le> 1" for k
    using that by (cases k) (simp_all add: before_epoch_end_def f)
  ultimately show "epoch_ready ?s 1 \<lparr>ep_index = 0, ep_start_height = 0\<rparr>" using stake none
    by (auto simp: epoch_ready_def before_end_fields f genesis_base_rate_def before_epoch_end_def)
  show "ends_epoch t True" by (simp add: ends_epoch_def f)
qed

lemma demo_second_ended:
  assumes "stake_reachable stake_demo_env t" "epoch_ready (before_epoch_end h x t) h e" "ends_epoch t True"
  shows "\<exists>u. stake_step stake_demo_env (EndBlock x True) t u"
proof -
  have h: "sk_height t = Some h" "sk_epochs t h = Some e" "unat h < 2 ^ 63"
    using assms(2) unfolding epoch_ready_def by (simp_all add: before_end_fields)
  obtain d where d: "sk_epoch_duration t = Some d" using assms(3) by (auto simp: ends_epoch_def)
  have "good stake_demo_env (before_epoch_end h x t)" unfolding before_end_good by (rule reachable_good [OF assms(1) demo_show])
  then obtain u where "stake_end_epoch stake_demo_env (before_epoch_end h x t) = Inr u" using end_epoch_total demo_show assms(2) by blast
  then have "\<exists>u. app_end_block stake_demo_env h x True t = Inr u" using end_block_epoch [OF h d, of True] by simp
  then show ?thesis using stake_step.end_block [OF h(1)] by blast
qed

end
