(* ===== verification/StakeProperties.thy ===== *)
theory StakeProperties
  imports StakeBlocks
begin

text \<open>
  The properties of the staking component: what holds of the store in every reachable state, the life cycle of a validator,
  what the end of an epoch does, the active set and the updates for CometBFT, delegations, claims, and uptime.
\<close>

section \<open>Reachable states\<close>

text \<open>C8: In every reachable state of the chain a validator is bonded exactly when it is active; every active or inactive
  validator is listed in the consensus set, once, and the consensus set lists known validators only; a validator has a definition, a rate, a bonding state, a
  pool and a voting power exactly when it has a state, and an uptime if it is active; its definition carries its identity, and no two
  validators share a consensus key; voting powers fit the bound CometBFT puts on them.\<close>

theorem stake_store_consistent:
  assumes "stake_reachable env s" "inj (se_show_id env)"
  shows "(sk_states s i = Some VActive \<longleftrightarrow> sk_bonding s i = Some Bonded)
    \<and> (sk_states s i \<in> {Some VActive, Some VInactive} \<longrightarrow> i \<in> set (consensus_set s))
    \<and> (i \<in> set (consensus_set s) \<longrightarrow> sk_states s i \<noteq> None) \<and> distinct (consensus_set s)
    \<and> (sk_states s i = None \<longleftrightarrow> sk_definitions s i = None) \<and> (sk_states s i = None \<longleftrightarrow> sk_rates s i = None)
    \<and> (sk_states s i = None \<longleftrightarrow> sk_bonding s i = None) \<and> (sk_states s i = None \<longleftrightarrow> sk_pools s i = None)
    \<and> (sk_states s i = None \<longleftrightarrow> sk_powers s i = None) \<and> (sk_states s i = Some VActive \<longrightarrow> sk_uptimes s i \<noteq> None)
    \<and> (\<forall>v. sk_definitions s i = Some v \<longrightarrow> v_identity v = i \<and> sk_key_owner s (v_consensus_key v) = Some i)
    \<and> (\<forall>v j w. sk_definitions s i = Some v \<and> sk_definitions s j = Some w \<and> v_consensus_key v = v_consensus_key w \<longrightarrow> i = j)
    \<and> (\<forall>vp. sk_powers s i = Some vp \<longrightarrow> unat vp \<le> MAX_VOTING_POWER)"
proof -
  have g: "good env s" by (rule reachable_good [OF assms])
  then have inv: "index_ok env s" "bonding_ok s" "tracked_at s i" "keys_ok s" "powers_ok s"
    by (simp_all add: good_def stake_inv_def tracked_def)
  have known: "i \<in> set (consensus_set s) \<Longrightarrow> sk_states s i \<noteq> None"
    using inv(1) consensus_set_iff(1) [OF inv(1)] unfolding index_ok_def by blast
  have listed: "sk_states s i \<in> {Some VActive, Some VInactive} \<Longrightarrow> i \<in> set (consensus_set s)"
    using inv(1) consensus_set_iff(1) [OF inv(1)] unfolding index_ok_def by auto
  have shared: "i = j" if "sk_definitions s i = Some v" "sk_definitions s j = Some w" "v_consensus_key v = v_consensus_key w" for v j w
    using keysD(2) [OF inv(4) that(1)] keysD(2) [OF inv(4) that(2)] that(3) by simp
  show ?thesis
    using known listed shared consensus_set_iff(2) [OF inv(1)] inv(2,3) keysD(1,2) [OF inv(4)] inv(5)
    unfolding bonding_ok_def tracked_at_def powers_ok_def by blast
qed

theorem stake_store_consistent_witness:
  "sk_states stake_demo [1] = Some VActive \<and> [1] \<in> set (consensus_set stake_demo) \<and> sk_bonding stake_demo [1] = Some Bonded"
  using stake_store_consistent [OF demo_reachable demo_show, of "[1]"] by (simp add: stake_demo_def)

text \<open>C9: Every step of the chain moves a validator only along the edges its event allows: the start of a block tombstones a
  validator named in evidence and jails an active one that missed too many blocks, its operator disables it, or brings it back from
  disabled or jailed, the end of an epoch moves it between defined, inactive and active, and nothing else moves it. No validator is
  forgotten, and a tombstoned one stays tombstoned.\<close>

theorem validator_lifecycle:
  assumes "stake_reachable env s" "stake_step env ev s t" "sk_states s i = Some st" "inj (se_show_id env)"
  shows "\<exists>st'. sk_states t i = Some st' \<and> (st, st') \<in> (event_edges ev)\<^sup>* \<and> (st = VTombstoned \<longrightarrow> st' = VTombstoned)"
proof -
  have "good env s" by (rule reachable_good [OF assms(1,4)])
  then have "advances (event_edges ev) s t" by (rule step_good(2) [OF assms(2) _ assms(4)])
  then obtain st' where st': "sk_states t i = Some st'" "(st, st') \<in> (event_edges ev)\<^sup>*" using assms(3) unfolding advances_def by blast
  have stuck: "x = VTombstoned" if "(VTombstoned, x) \<in> event_edges ev" for x
    using that by (cases ev) (auto simp: evidence_edges_def uptime_edges_def operator_edges_def epoch_edges_def)
  have "st' = VTombstoned" if "st = VTombstoned"
    using st'(2) unfolding that by (induction rule: rtrancl_induct) (auto dest: stuck)
  then show ?thesis using st' by blast
qed

theorem validator_lifecycle_witness:
  "\<exists>t st'. stake_step stake_demo_env (BeginBlock 1 [[9]] []) stake_demo t \<and> sk_states t [1] = Some st'
    \<and> (VActive, st') \<in> (evidence_edges \<union> uptime_edges)\<^sup>*"
proof -
  obtain t where t: "stake_step stake_demo_env (BeginBlock 1 [[9]] []) stake_demo t" using demo_evidence by blast
  have "sk_states stake_demo [1] = Some VActive" by (simp add: stake_demo_def)
  from validator_lifecycle [OF demo_reachable t this demo_show] show ?thesis using t by auto
qed

section \<open>Epochs\<close>

text \<open>C10: The block that ends an epoch processes every validator of the consensus set: its rate is slashed by the penalty recorded for it in that
  epoch and then grown by the reward of the new base rate if it was active; its pool changes by the delegations and undelegations
  of all blocks of the epoch; its voting power is the value of the new pool at the new rate, and if it was active its
  funding streams are queued with its new pool.\<close>

theorem epoch_processes_validators:
  assumes "stake_reachable env s" "stake_step env (EndBlock issuance upgrade) s t" "ends_epoch s upgrade" "i \<in> set (consensus_set s)"
    "inj (se_show_id env)"
  shows "\<exists>h e v st r0 r1 base r2 vp pool ds us q.
    sk_height s = Some h \<and> sk_epochs s h = Some e \<and> sk_definitions s i = Some v \<and> sk_states s i = Some st \<and> sk_rates s i = Some r0
    \<and> rate_slash r0 (get_or (get_penalty_in_epoch s i (ep_index e)) no_penalty) = Inr r1 \<and> sk_prev_rates t i = Some r1
    \<and> sk_base_rate t = Some base \<and> rate_next_epoch r1 base (v_funding_streams v) st = Inr r2 \<and> sk_rates t i = Some r2
    \<and> sk_pools t i = Some pool \<and> voting_power r2 pool = Inr vp \<and> sk_powers t i = Some vp
    \<and> collect_changes (before_epoch_end h issuance s) (ep_start_height e) h = Inr (ds, us)
    \<and> (unat (get_or (bt_get ds i) 0) < 2 ^ 127 \<and> unat (get_or (bt_get us i) 0) < 2 ^ 127
        \<longrightarrow> unat pool + unat (get_or (bt_get us i) 0) = unat (get_or (sk_pools s i) 0) + unat (get_or (bt_get ds i) 0))
    \<and> sk_funding_queue t = Some q \<and> (st = VActive \<longrightarrow> (i, v_funding_streams v, pool) \<in> set q)"
proof -
  have g: "good env s" by (rule reachable_good [OF assms(1,5)])
  obtain h e u us ks where h: "sk_height s = Some h" "sk_epochs s h = Some e" and ended: "epoch_ended env e (before_epoch_end h issuance s) u"
    and gu: "good env u"
    and t: "t = u\<lparr>sk_comet_updates := Some us, sk_consensus_keys := Some ks,
           sk_epochs := (sk_epochs u)(h + 1 \<mapsto> \<lparr>ep_index = ep_index e + 1, ep_start_height = h + 1\<rparr>)\<rparr>"
    by (rule epoch_block [OF assms(2,3) g assms(5)]) blast
  let ?s = "before_epoch_end h issuance s"
  obtain ds us base w where c: "collect_changes ?s (ep_start_height e) h = Inr (ds, us)" and base: "sk_base_rate u = Some base"
    and proc: "\<forall>i \<in> set (to_process ?s ds us). \<exists>reward. processed env i e base (get_or (bt_get ds i) 0) (get_or (bt_get us i) 0) ?s reward w"
    and f: "sk_rates u = sk_rates w" "sk_prev_rates u = sk_prev_rates w" "sk_powers u = sk_powers w" "sk_pools u = sk_pools w"
    and q: "sk_funding_queue u = Some (concat (map (reward_entry_of ?s u) (to_process ?s ds us)))"
    using ended h(1) unfolding epoch_ended_def by (elim exE conjE) (simp add: before_end_fields)
  have i: "i \<in> set (to_process ?s ds us)" using assms(4) by (simp add: to_process_def before_end_fields)
  obtain reward where pr: "processed env i e base (get_or (bt_get ds i) 0) (get_or (bt_get us i) 0) ?s reward w" using proc i by blast
  obtain v st r0 r1 r2 vp a where v: "sk_definitions s i = Some v" "sk_states s i = Some st" "sk_rates s i = Some r0"
    and r: "rate_slash r0 (get_or (get_penalty_in_epoch ?s i (ep_index e)) no_penalty) = Inr r1" "sk_prev_rates w i = Some r1"
       "rate_next_epoch r1 base (v_funding_streams v) st = Inr r2" "sk_rates w i = Some r2"
    and a: "apply_delegation_delta i (get_or (bt_get ds i) 0) (get_or (bt_get us i) 0) (set_prev_validator_rate i r1 ?s) = Inr a" "sk_pools w i = sk_pools a i"
    and vp: "voting_power r2 (get_or (sk_pools w i) 0) = Inr vp" "sk_powers w i = Some vp"
    using pr unfolding processed_def by (elim exE conjE) (simp add: before_end_fields)
  have "tracked_at u i" using gu by (simp add: good_def stake_inv_def tracked_def)
  then obtain pool where pool: "sk_pools u i = Some pool" using r(4) f(1) by (auto simp: tracked_at_def)
  have ex: "unat pool + unat (get_or (bt_get us i) 0) = unat (get_or (sk_pools s i) 0) + unat (get_or (bt_get ds i) 0)"
    if "unat (get_or (bt_get ds i) 0) < 2 ^ 127" "unat (get_or (bt_get us i) 0) < 2 ^ 127"
    using delta_exact(2) [OF that a(1)] pool f(4) a(2) by (simp add: set_prev_validator_rate_def before_end_fields)
  have "(i, v_funding_streams v, pool) \<in> set (concat (map (reward_entry_of ?s u) (to_process ?s ds us)))" if "st = VActive"
    using i v that pool by (auto simp: reward_entry_of_def before_end_fields intro!: bexI [of _ i])
  then show ?thesis
    using h v r a vp c base q pool ex f
    by (intro exI [of _ h] exI [of _ e] exI [of _ v] exI [of _ st] exI [of _ r0] exI [of _ r1] exI [of _ base] exI [of _ r2] exI [of _ vp]
        exI [of _ pool] exI [of _ ds] exI [of _ us] exI [of _ "concat (map (reward_entry_of ?s u) (to_process ?s ds us))"])
      (simp add: t get_penalty_in_epoch_def before_end_fields)
qed

theorem epoch_processes_validators_witness:
  "\<exists>t r. stake_step stake_demo_env (EndBlock 0 True) stake_demo t \<and> sk_rates t [1] = Some r"
proof -
  obtain t where t: "stake_step stake_demo_env (EndBlock 0 True) stake_demo t" using demo_epoch_end by blast
  have "[1] \<in> set (consensus_set stake_demo)" by (simp add: consensus_set_def stake_demo_def)
  from epoch_processes_validators [OF demo_reachable t demo_ends this demo_show] show ?thesis using t by blast
qed

text \<open>C11: After the block that ends an epoch the active validators are the strongest ones: at most the limit of the parameters,
  all with voting power, each at least as powerful as every inactive one, and fewer than the limit only if no
  inactive validator has voting power.\<close>

theorem active_set_strongest:
  assumes "stake_reachable env s" "stake_step env (EndBlock issuance upgrade) s t" "ends_epoch s upgrade" "inj (se_show_id env)"
  shows "\<exists>p. sk_params s = Some p \<and> finite (active_set t) \<and> card (active_set t) \<le> unat (sp_active_validator_limit p)
    \<and> (\<forall>i. i \<in> active_set t \<longrightarrow> power_of t i \<noteq> 0)
    \<and> (\<forall>i j. i \<in> active_set t \<and> sk_states t j = Some VInactive \<longrightarrow> unat (power_of t j) \<le> unat (power_of t i))
    \<and> (\<forall>j. sk_states t j = Some VInactive \<and> power_of t j \<noteq> 0 \<longrightarrow> card (active_set t) = unat (sp_active_validator_limit p))"
proof -
  have g: "good env s" by (rule reachable_good [OF assms(1,4)])
  obtain h e u us ks where ended: "epoch_ended env e (before_epoch_end h issuance s) u"
    and t: "t = u\<lparr>sk_comet_updates := Some us, sk_consensus_keys := Some ks,
           sk_epochs := (sk_epochs u)(h + 1 \<mapsto> \<lparr>ep_index = ep_index e + 1, ep_start_height = h + 1\<rparr>)\<rparr>"
    by (rule epoch_block [OF assms(2,3) g assms(4)]) blast
  obtain w p where p: "sk_params s = Some p" and inv: "stake_inv env w" and pw: "sk_powers u = sk_powers w"
    and act: "active_set u = set (actives w p)" and ina: "\<And>j. sk_states u j = Some VInactive \<longleftrightarrow> j \<in> set (inactives w p)"
    by (rule epoch_active [OF ended]) (simp add: before_end_fields)
  have ix: "index_ok env w" using inv by (simp add: stake_inv_def)
  have T: "active_set t = set (actives w p)" "sk_states t = sk_states u" "power_of t i = power_of w i" for i
    using act pw by (simp_all add: t active_set_def power_of_def)
  note count = actives_count [OF ix, of p]
  have "card (active_set t) = unat (sp_active_validator_limit p)" if "sk_states t j = Some VInactive" "power_of t j \<noteq> 0" for j
    using inactive_powerful [of j w p] that ina count by (simp add: T)
  moreover have "card (active_set t) \<le> unat (sp_active_validator_limit p)" using count by (simp add: T)
  ultimately show ?thesis using p actives_powerful [of _ w p] actives_strongest [of _ w p] ina
    by (intro exI [of _ p] conjI allI impI) (auto simp: T)
qed

theorem active_set_strongest_witness:
  "\<exists>t. stake_step stake_demo_env (EndBlock 0 True) stake_demo t \<and> card (active_set t) \<le> 80"
proof -
  obtain t where t: "stake_step stake_demo_env (EndBlock 0 True) stake_demo t" using demo_epoch_end by blast
  from active_set_strongest [OF demo_reachable t demo_ends demo_show] show ?thesis
    using t by (auto simp: stake_demo_def stake_demo_params_def stake_params_default_def)
qed

text \<open>C12: The updates built at the end of an epoch are exactly the consensus keys of the active validators with their voting power,
  and a zero for every key CometBFT knew that is no longer among them; no key is listed twice, the power survives the
  conversion to 64 bits, and the keys remembered for the next epoch are those with power.\<close>

theorem comet_updates_exact:
  assumes "stake_reachable env s" "stake_step env (EndBlock issuance upgrade) s t" "ends_epoch s upgrade"
    "sk_consensus_keys s = Some current" "inj (se_show_id env)"
  shows "\<exists>us ks. sk_comet_updates t = Some us \<and> sk_consensus_keys t = Some ks \<and> distinct (map fst us) \<and> distinct ks
    \<and> set ks = fst ` voting_keys t
    \<and> set us = {(ck, ucast vp) |ck vp. (ck, vp) \<in> voting_keys t} \<union> {(ck, 0) |ck. ck \<in> set current \<and> ck \<notin> fst ` voting_keys t}
    \<and> (\<forall>ck vp. (ck, vp) \<in> voting_keys t \<longrightarrow> unat (ucast vp :: u64) = unat vp \<and> vp \<noteq> 0)"
proof -
  have g: "good env s" by (rule reachable_good [OF assms(1,5)])
  obtain h e u us ks where "sk_epochs s h = Some e" and gu: "good env u" and cur: "sk_consensus_keys u = sk_consensus_keys s"
    and b: "build_cometbft_validator_updates u = Inr (u\<lparr>sk_comet_updates := Some us, sk_consensus_keys := Some ks\<rparr>)"
    and t: "t = u\<lparr>sk_comet_updates := Some us, sk_consensus_keys := Some ks,
           sk_epochs := (sk_epochs u)(h + 1 \<mapsto> \<lparr>ep_index = ep_index e + 1, ep_start_height = h + 1\<rparr>)\<rparr>"
    by (rule epoch_block [OF assms(2,3) g assms(5)]) (rule that; assumption)
  have cu: "sk_consensus_keys u = Some current" using cur assms(4) by simp
  have inv: "stake_inv env u" "powers_ok u" using gu by (simp_all add: good_def)
  obtain us' ks' where b': "build_cometbft_validator_updates u = Inr (u\<lparr>sk_comet_updates := Some us', sk_consensus_keys := Some ks'\<rparr>)"
    and *: "distinct (map fst us')" "distinct ks'" "set ks' = fst ` voting_keys u"
    "set us' = {(ck, ucast vp) |ck vp. (ck, vp) \<in> voting_keys u} \<union> {(ck, 0) |ck. ck \<in> set current \<and> ck \<notin> fst ` voting_keys u}"
    by (rule updates_exact [OF inv cu])
  have same: "us' = us" "ks' = ks" using arg_cong [OF b [symmetric, unfolded b'], of "\<lambda>r. (sk_comet_updates (projr r), sk_consensus_keys (projr r))"]
    by simp_all
  have vt: "voting_keys t = voting_keys u" by (simp add: t voting_keys_def key_of_def power_of_def)
  have pow: "unat (ucast vp :: u64) = unat vp \<and> vp \<noteq> 0" if "(ck, vp) \<in> voting_keys u" for ck vp
  proof -
    obtain i where i: "vp = power_of u i" "power_of u i \<noteq> 0" using \<open>(ck, vp) \<in> voting_keys u\<close> by (auto simp: voting_keys_def)
    then have "sk_powers u i = Some vp" by (cases "sk_powers u i") (simp_all add: power_of_def)
    then have "unat vp \<le> MAX_VOTING_POWER" using inv(2) by (simp add: powers_ok_def)
    then have "unat vp < 2 ^ 64" by (simp add: MAX_VOTING_POWER_def)
    then show ?thesis using i by (simp add: unsigned_ucast_eq take_bit_nat_eq_self)
  qed
  show ?thesis using * pow unfolding same vt by (intro exI [of _ us] exI [of _ ks]) (simp add: t)
qed

theorem comet_updates_exact_witness:
  "\<exists>t us. stake_step stake_demo_env (EndBlock 0 True) stake_demo t \<and> sk_comet_updates t = Some us \<and> distinct (map fst us)"
proof -
  obtain t where t: "stake_step stake_demo_env (EndBlock 0 True) stake_demo t" using demo_epoch_end by blast
  have "sk_consensus_keys stake_demo = Some [[9]]" by (simp add: stake_demo_def)
  then obtain us where "sk_comet_updates t = Some us" "distinct (map fst us)"
    using comet_updates_exact [OF demo_reachable t demo_ends _ demo_show, of "[[9]]"] by auto
  then show ?thesis using t by blast
qed



text \<open>A validator outside the consensus set for which nobody delegates or undelegates keeps its rate through the end of an epoch,
  whatever penalty was recorded for it in that epoch: the penalty of a validator that is tombstoned while it is jailed,
  disabled or below the minimal stake never reaches its delegators' rate.\<close>

theorem unlisted_rate_kept:
  assumes "stake_reachable env s" "stake_step env (EndBlock issuance upgrade) s t" "ends_epoch s upgrade"
    "sk_height s = Some h" "sk_epochs s h = Some e" "i \<notin> set (consensus_set s)"
    "collect_changes (before_epoch_end h issuance s) (ep_start_height e) h = Inr (ds, us)" "i \<notin> fst ` (set ds \<union> set us)"
    "inj (se_show_id env)"
  shows "sk_rates t i = sk_rates s i \<and> sk_penalties t i = sk_penalties s i"
proof -
  have g: "good env s" by (rule reachable_good [OF assms(1,9)])
  obtain h' e' u us' ks where h: "sk_height s = Some h'" "sk_epochs s h' = Some e'"
    and ended: "epoch_ended env e' (before_epoch_end h' issuance s) u"
    and t: "t = u\<lparr>sk_comet_updates := Some us', sk_consensus_keys := Some ks,
           sk_epochs := (sk_epochs u)(h' + 1 \<mapsto> \<lparr>ep_index = ep_index e' + 1, ep_start_height = h' + 1\<rparr>)\<rparr>"
    by (rule epoch_block [OF assms(2,3) g assms(9)]) blast
  have eq: "h' = h" "e' = e" using h assms(4,5) by auto
  let ?s = "before_epoch_end h issuance s"
  obtain ds' us'' w where c: "collect_changes ?s (ep_start_height e) h = Inr (ds', us'')"
    and out: "\<forall>j. j \<notin> set (to_process ?s ds' us'') \<longrightarrow> same_at env j ?s w" and f: "sk_rates u = sk_rates w" "sk_penalties u = sk_penalties ?s"
    using ended h(1) unfolding eq epoch_ended_def by (elim exE conjE) (simp add: before_end_fields)
  have "i \<notin> set (to_process ?s ds' us'')"
    using c assms(6,7,8) by (auto simp: to_process_def before_end_fields)
  then show ?thesis using out f by (simp add: t same_at_def before_end_fields)
qed

theorem unlisted_rate_kept_witness:
  "\<exists>s t n. stake_reachable stake_demo_env s \<and> sk_states s [2] = Some VTombstoned \<and> get_penalty_in_epoch s [2] 0 = Some n
    \<and> unat (raw (kept_rate n)) < 2 ^ 128 \<and> stake_step stake_demo_env (EndBlock 0 True) s t \<and> sk_rates t [2] = sk_rates s [2]"
proof -
  let ?e = "\<lparr>ep_index = 0, ep_start_height = 0\<rparr>"
  obtain s n where s: "stake_step stake_demo_env (BeginBlock 1 [[8]] []) stake_demo_two s" and mv: "moved (sct_begin_block 1 stake_demo_two) s"
    "sk_index s = sk_index stake_demo" "sk_states s = [[1] \<mapsto> VActive, [2] \<mapsto> VTombstoned]"
    and n: "get_penalty_in_epoch s [2] 0 = Some n" "unat (raw (kept_rate n)) < 2 ^ 128" by (rule demo_second_slashed)
  have r: "stake_reachable stake_demo_env s" by (rule stake_reachable.step [OF demo_two_reachable s])
  note ready = demo_second_epoch [OF mv]
  obtain t where t: "stake_step stake_demo_env (EndBlock 0 True) s t" using demo_second_ended [OF r ready(1,2)] by blast
  have h: "sk_height s = Some 1" "sk_epochs s 1 = Some ?e" using ready(1) unfolding epoch_ready_def by (simp_all add: before_end_fields)
  have i: "[2] \<notin> set (consensus_set s)" by (simp add: consensus_set_def mv(2) stake_demo_def)
  have c: "collect_changes (before_epoch_end 1 0 s) (ep_start_height ?e) 1 = Inr ([], [])" using ready(3) by simp
  have none: "[2] \<notin> fst ` (set [] \<union> set [] :: (identity_key \<times> amount) set)" by simp
  have "sk_rates t [2] = sk_rates s [2]" using unlisted_rate_kept [OF r t ready(2) h i c none demo_show] by blast
  then show ?thesis using r t n by (intro exI [of _ s] exI [of _ t] exI [of _ n] conjI) (simp_all add: mv(3))
qed

section \<open>Slashing\<close>

text \<open>C14: Evidence against a known validator is processed without an error: the validator is tombstoned and its pool unbonded, the penalty of the
  current epoch is compounded with the penalty for misbehaviour, and if the validator was active the epoch ends early.
  Evidence against a validator that is tombstoned already slashes nothing.\<close>

theorem evidence_slashes_once:
  assumes "stake_reachable env s" "get_validator_definition_by_cometbft_address s a = Some v"
    "sk_height s = Some h" "sk_epochs s h = Some e" "inj (se_show_id env)"
  shows "\<exists>t p st. process_evidence env a s = Inr t \<and> sk_params s = Some p \<and> sk_states s (v_identity v) = Some st
    \<and> sk_states t = (sk_states s)(v_identity v \<mapsto> VTombstoned)
    \<and> (st = VTombstoned \<longrightarrow> sk_penalties t = sk_penalties s)
    \<and> (st \<noteq> VTombstoned \<longrightarrow> sk_bonding t (v_identity v) = Some Unbonded
        \<and> (\<exists>q n. from_bps_squared (sp_slashing_penalty_misbehavior p) = Inr q \<and> get_penalty_in_epoch t (v_identity v) (ep_index e) = Some n
            \<and> unat (raw (kept_rate n))
              = unat (raw (kept_rate (get_or (get_penalty_in_epoch s (v_identity v) (ep_index e)) no_penalty))) * unat (raw (kept_rate q)) div 2 ^ 128))
    \<and> (st = VActive \<longrightarrow> sk_end_epoch_early t)"
proof -
  let ?i = "v_identity v"
  have g: "good env s" by (rule reachable_good [OF assms(1,5)])
  then have inv: "stake_inv env s" by (simp add: good_def)
  then have keys: "keys_ok s" and pens: "penalties_ok s" and "tracked s" by (simp_all add: stake_inv_def)
  obtain j where "sk_definitions s j = Some v"
    using assms(2) by (auto simp: get_validator_definition_by_cometbft_address_def get_validator_definition_by_consensus_key_def split: option.splits)
  then have "sk_definitions s ?i = Some v" using keysD(1) [OF keys] by blast
  moreover have "tracked_at s ?i" using \<open>tracked s\<close> by (simp add: tracked_def)
  ultimately obtain st where st: "sk_states s ?i = Some st" unfolding tracked_at_def by auto
  obtain p where p: "sk_params s = Some p" "params_ok p" using inv by (auto simp: stake_inv_def)
  have "st = VTombstoned \<or> (st, VTombstoned) \<in> diagram" by (cases st) (simp_all add: diagram_def)
  then obtain t where t: "set_validator_state env ?i VTombstoned s = Inr t" using set_state_total [OF inv st _ assms(3,4)] by blast
  have states: "sk_states t = (sk_states s)(?i \<mapsto> VTombstoned)" by (rule set_state_moves [OF t])
  obtain old where old: "sk_states s ?i = Some old" and bond: "bonding_after old VTombstoned (sk_bonding s ?i) (sk_bonding t ?i)"
    and same: "\<not> (old \<noteq> VTombstoned \<and> (VTombstoned = VTombstoned \<or> VTombstoned = VJailed)) \<longrightarrow> sk_penalties t ?i = sk_penalties s ?i"
    and other: "\<And>j. j \<noteq> ?i \<Longrightarrow> sk_penalties t j = sk_penalties s j"
    and early: "sk_end_epoch_early t \<longleftrightarrow> sk_end_epoch_early s \<or> (old = VActive \<and> VTombstoned \<in> {VDefined, VDisabled, VJailed, VTombstoned})"
    by (rule set_state_moves [OF t]) (rule that; assumption)
  have eq: "old = st" using old st by simp
  have run: "process_evidence env a s = Inr t" using t by (simp add: process_evidence_def assms(2))
  have "sk_penalties t = sk_penalties s" if "st = VTombstoned"
    using same other that eq by (intro ext) (metis)
  moreover have "sk_bonding t ?i = Some Unbonded \<and> (\<exists>q n. from_bps_squared (sp_slashing_penalty_misbehavior p) = Inr q
      \<and> get_penalty_in_epoch t ?i (ep_index e) = Some n \<and> unat (raw (kept_rate n))
        = unat (raw (kept_rate (get_or (get_penalty_in_epoch s ?i (ep_index e)) no_penalty))) * unat (raw (kept_rate q)) div 2 ^ 128)"
    if ne: "st \<noteq> VTombstoned"
  proof -
    obtain q n where q: "from_bps_squared (sp_slashing_penalty_misbehavior p) = Inr q"
      and n: "penalty_compound (get_or (get_penalty_in_epoch s ?i (ep_index e)) no_penalty) q = Inr n"
        "sk_penalties t = (sk_penalties s)(?i := bt_insert (epoch_text (ep_index e)) n (sk_penalties s ?i))"
      by (rule set_state_slashes [OF t st ne _ assms(3,4)]) (use p(1) in auto)
    have qok: "penalty_ok q" using from_bps_squared_total [of "sp_slashing_penalty_misbehavior p"] p(2) q unfolding params_ok_def by auto
    have wf: "bt_wf (sk_penalties s ?i)" using pens by (simp add: penalties_ok_def)
    have "get_penalty_in_epoch t ?i (ep_index e) = Some n" using n(2) wf by (simp add: get_penalty_in_epoch_def)
    then show ?thesis using bond ne eq q compound_exact [OF n(1) stored_penalty_ok [OF pens] qok] by (simp add: bonding_after_def)
  qed
  moreover have "st = VActive \<Longrightarrow> sk_end_epoch_early t" using early eq by simp
  ultimately show ?thesis using run p(1) st states by (intro exI [of _ t] exI [of _ p] exI [of _ st]) simp
qed

theorem evidence_slashes_once_witness:
  "\<exists>t. process_evidence stake_demo_env [9] stake_demo = Inr t \<and> sk_states t [1] = Some VTombstoned \<and> sk_end_epoch_early t"
proof -
  have v: "get_validator_definition_by_cometbft_address stake_demo [9] = Some stake_demo_validator"
    by (simp add: get_validator_definition_by_cometbft_address_def get_validator_definition_by_consensus_key_def stake_demo_def)
  have h: "sk_height stake_demo = Some 0" "sk_epochs stake_demo 0 = Some \<lparr>ep_index = 0, ep_start_height = 0\<rparr>" "sk_states stake_demo [1] = Some VActive"
    "v_identity stake_demo_validator = [1]"
    by (simp_all add: stake_demo_def sct_init_chain_def stake_demo_validator_def)
  from evidence_slashes_once [OF demo_reachable v h(1,2) demo_show] show ?thesis using h(3,4) by auto
qed

section \<open>Rates\<close>

text \<open>C15: The rate of a validator never panics in range: an active validator's exchange rate grows by the base reward less its commission,
  computed exactly in 128 fractional bits and truncated, so it never grows by more than the base reward and never loses more
  than one unit; the rate of any other validator stays.\<close>

theorem next_rate_bounded:
  assumes "unat (commission_bps fs) \<le> 10000" "unat (br_reward_rate b) \<le> 100000000" "unat (rd_exchange_rate r) < 2 ^ 127"
  shows "\<exists>n. rate_next_epoch r b fs st = Inr n \<and> rd_identity n = rd_identity r
    \<and> (st = VActive \<longrightarrow> unat (rd_exchange_rate n) = next_rate_of r b fs * 100000000 div 2 ^ 128)
    \<and> unat (rd_exchange_rate n) * 100000000 \<le> unat (rd_exchange_rate r) * (100000000 + unat (br_reward_rate b))
    \<and> unat (rd_exchange_rate r) \<le> unat (rd_exchange_rate n) + 1
    \<and> (st \<noteq> VActive \<longrightarrow> n = r)"
proof (cases "st = VActive")
  case True
  obtain n where n: "rate_next_epoch r b fs VActive = Inr n" "rd_identity n = rd_identity r"
    "unat (rd_exchange_rate n) = next_rate_of r b fs * 100000000 div 2 ^ 128" using rate_next_epoch_exact [OF assms] by blast
  show ?thesis using n next_rate_between [OF assms(2) n(3)] True by simp
next
  case False
  then show ?thesis by (simp add: rate_next_epoch_def)
qed

theorem next_rate_bounded_witness:
  "\<exists>n. rate_next_epoch \<lparr>rd_identity = [1], rd_reward_rate = 0, rd_exchange_rate = 100000001\<rparr> (genesis_base_rate 0) [] VActive = Inr n
    \<and> rd_exchange_rate n = 100000000"
proof -
  let ?r = "\<lparr>rd_identity = [1], rd_reward_rate = 0, rd_exchange_rate = 100000001\<rparr>" and ?b = "genesis_base_rate 0"
  have "next_rate_of ?r ?b [] * 100000000 div 2 ^ 128 = 100000000"
    by (simp add: next_rate_of_def rate_of_def descaled_def reward_of_def commission_of_def commission_bps_def genesis_base_rate_def)
  then obtain n where "rate_next_epoch ?r ?b [] VActive = Inr n" "unat (rd_exchange_rate n) = 100000000"
    using next_rate_bounded [of "[]" ?b ?r VActive] by (auto simp: commission_bps_def genesis_base_rate_def)
  moreover have "unat (100000000 :: amount) = 100000000" by simp
  ultimately show ?thesis by (metis word_unat_eq_iff)
qed

section \<open>Delegations\<close>

text \<open>Delegation tokens bought for an amount of staking tokens are worth at most that amount as long as the rate stays: an undelegation of
  what a delegation gave is accepted only with an unbonded amount that is no larger, and smaller by at most
  one more than the rate.\<close>

theorem delegation_no_gain:
  assumes "delegate_check_and_execute d s = Inr s'" "undelegate_check_and_execute u t = Inr t'"
    "ud_validator u = dg_validator d" "ud_delegation u = dg_delegation d" "sk_rates t (dg_validator d) = sk_rates s (dg_validator d)"
  shows "\<exists>r. sk_rates s (dg_validator d) = Some r \<and> unat (ud_unbonded u) \<le> unat (dg_unbonded d)
    \<and> (rate_of r \<noteq> 0 \<longrightarrow> unat (dg_unbonded d) \<le> unat (ud_unbonded u) + rate_of r div 2 ^ 128 + 1)"
proof -
  obtain r where r: "sk_rates s (dg_validator d) = Some r" "delegation_amount r (dg_unbonded d) = Inr (dg_delegation d)"
    using assms(1) unfolding delegate_check_and_execute_def by (elim and_then_InrE) (auto simp: ok_or_Inr_iff ensure_def split: if_splits)
  obtain r' where r': "sk_rates t (ud_validator u) = Some r'" "unbonded_amount r' (ud_delegation u) = Inr (ud_unbonded u)"
    using assms(2) unfolding undelegate_check_and_execute_def Let_def by (elim and_then_InrE) (auto simp: ok_or_Inr_iff ensure_def split: if_splits)
  have "r' = r" using r(1) r'(1) assms(3,5) by simp
  then show ?thesis using delegation_roundtrip [OF r(2)] r(1) r'(2) assms(4) by auto
qed

definition stake_demo_delegate :: delegate where
  "stake_demo_delegate = \<lparr>dg_validator = [1], dg_epoch_index = 0, dg_unbonded = 7, dg_delegation = 7\<rparr>"

definition stake_demo_undelegate :: undelegate where
  "stake_demo_undelegate = \<lparr>ud_validator = [1], ud_from_epoch = \<lparr>ep_index = 0, ep_start_height = 0\<rparr>, ud_unbonded = 7, ud_delegation = 7\<rparr>"

lemma demo_delegation_amount: "rd_exchange_rate r = 100000000 \<Longrightarrow> delegation_amount r 7 = Inr 7"
  unfolding delegation_amount_iff by (simp add: demo_rate_of)

theorem delegation_no_gain_witness:
  "\<exists>s' t'. delegate_check_and_execute stake_demo_delegate stake_demo = Inr s' \<and> undelegate_check_and_execute stake_demo_undelegate s' = Inr t'
    \<and> unat (ud_unbonded stake_demo_undelegate) \<le> unat (dg_unbonded stake_demo_delegate)"
proof -
  have now: "get_current_epoch stake_demo = Inr \<lparr>ep_index = 0, ep_start_height = 0\<rparr>" "sk_rates stake_demo [1] = Some stake_demo_rate"
    "sk_definitions stake_demo [1] = Some stake_demo_validator" "sk_states stake_demo [1] = Some VActive" "rd_exchange_rate stake_demo_rate = 100000000"
    by (simp_all add: stake_demo_def sct_init_chain_def get_current_epoch_def get_block_height_def stake_demo_rate_def)
  have d: "delegate_check_and_execute stake_demo_delegate stake_demo = Inr (push_delegation stake_demo_delegate stake_demo)"
    by (simp add: delegate_check_and_execute_def now stake_demo_delegate_def ensure_def demo_delegation_amount stake_demo_validator_def)
  let ?t = "push_delegation stake_demo_delegate stake_demo"
  have "get_current_epoch ?t = Inr \<lparr>ep_index = 0, ep_start_height = 0\<rparr>" "sk_rates ?t = sk_rates stake_demo"
    using now(1) by (simp_all add: push_delegation_def get_current_epoch_def get_block_height_def)
  then obtain t' where u: "undelegate_check_and_execute stake_demo_undelegate ?t = Inr t'"
    by (simp add: undelegate_check_and_execute_def now stake_demo_undelegate_def ensure_def demo_unbonded)
  have same: "ud_validator stake_demo_undelegate = dg_validator stake_demo_delegate" "ud_delegation stake_demo_undelegate = dg_delegation stake_demo_delegate"
    "sk_rates ?t (dg_validator stake_demo_delegate) = sk_rates stake_demo (dg_validator stake_demo_delegate)"
    by (simp_all add: stake_demo_undelegate_def stake_demo_delegate_def push_delegation_def)
  from delegation_no_gain [OF d u same] show ?thesis using d u by blast
qed

text \<open>A claim of unbonded stake is accepted only when the unbonding height of its validator has passed, never before the full
  unbonding delay while the validator is bonded, and only with the penalty that compounds those recorded in the epochs from the one in which unbonding began up to, and not
  including, the one in which it ended, each once and in order. It changes nothing.\<close>

theorem claim_pays_penalties:
  assumes "stake_reachable env s" "undelegate_claim_check_and_execute c s = Inr t" "epochs_recorded s (uc_validator c)" "inj (se_show_id env)"
  shows "t = s \<and> (\<exists>h p at e1 e2. sk_height s = Some h \<and> sk_params s = Some p \<and> uc_unbonding_start_height c \<le> h
    \<and> compute_unbonding_height s (uc_validator c) (uc_unbonding_start_height c) = Inr at \<and> get_or at h \<le> h
    \<and> (sk_bonding s (uc_validator c) = Some Bonded \<longrightarrow> saturating_add (uc_unbonding_start_height c) (sp_unbonding_delay p) \<le> h)
    \<and> sk_epochs s (uc_unbonding_start_height c) = Some e1 \<and> sk_epochs s (get_or at h) = Some e2 \<and> ep_index e1 \<le> ep_index e2
    \<and> (unat (ep_index e2) < 10 ^ 10
        \<longrightarrow> compute_compounded_penalty (penalties_between s (uc_validator c) (ep_index e1) (ep_index e2)) = Inr (uc_penalty c)))"
proof -
  let ?v = "uc_validator c" and ?start = "uc_unbonding_start_height c"
  have "good env s" by (rule reachable_good [OF assms(1,4)])
  then have pens: "penalties_ok s" and "\<exists>p. sk_params s = Some p" by (auto simp: good_def stake_inv_def)
  then obtain p where p: "sk_params s = Some p" by blast
  obtain h at e1 e2 where h: "sk_height s = Some h" "?start \<le> h" and at: "compute_unbonding_height s ?v ?start = Inr at" "get_or at h \<le> h"
    and e: "sk_epochs s ?start = Some e1" "sk_epochs s (get_or at h) = Some e2" "ep_index e1 \<le> ep_index e2"
    and pen: "compounded_penalty_over_range s ?v (ep_index e1) (ep_index e2) = Inr (uc_penalty c)"
    using assms(2) unfolding undelegate_claim_check_and_execute_def Let_def
    by (elim and_then_InrE) (auto simp: get_block_height_def get_epoch_by_height_def ok_or_Inr_iff ensure_def split: if_splits)
  have "compute_compounded_penalty (penalties_between s ?v (ep_index e1) (ep_index e2)) = Inr (uc_penalty c)" if "unat (ep_index e2) < 10 ^ 10"
    using pen penalties_in_window [OF pens assms(3) e(3) that] e(3) by (simp add: compounded_penalty_over_range_def not_less [symmetric])
  moreover have "saturating_add ?start (sp_unbonding_delay p) \<le> h" if "sk_bonding s ?v = Some Bonded"
    using unbonding_height_bonded [OF that p] at by auto
  ultimately show ?thesis using claim_result [OF assms(2)] h p at e
    by (intro conjI exI [of _ h] exI [of _ p] exI [of _ at] exI [of _ e1] exI [of _ e2]) auto
qed

definition stake_demo_claim :: undelegate_claim where
  "stake_demo_claim = \<lparr>uc_validator = [2], uc_penalty = no_penalty, uc_balance_commitment = [], uc_unbonding_start_height = 0, uc_proof = []\<rparr>"

theorem claim_pays_penalties_witness:
  "undelegate_claim_check_and_execute stake_demo_claim stake_demo_two = Inr stake_demo_two
    \<and> (\<exists>e. sk_epochs stake_demo_two 0 = Some e \<and> penalties_between stake_demo_two [2] (ep_index e) (ep_index e) = [])"
proof -
  let ?e = "\<lparr>ep_index = 0, ep_start_height = 0\<rparr>"
  have f: "sk_height stake_demo_two = Some 0" "sk_epochs stake_demo_two 0 = Some ?e" "sk_bonding stake_demo_two [2] = Some Unbonded"
    "sk_penalties stake_demo_two [2] = []" "sk_params stake_demo_two = Some stake_demo_params"
    by (simp_all add: stake_demo_two_def stake_demo_def sct_init_chain_def empty_store_def)
  have run: "undelegate_claim_check_and_execute stake_demo_claim stake_demo_two = Inr stake_demo_two"
    by (simp add: undelegate_claim_check_and_execute_def get_block_height_def f stake_demo_claim_def ensure_def compute_unbonding_height_def
        get_stake_params_def get_epoch_by_height_def compounded_penalty_over_range_def get_penalty_for_range_def compute_compounded_penalty_def no_penalty(1))
  have "epochs_recorded stake_demo_two (uc_validator stake_demo_claim)" by (simp add: epochs_recorded_def stake_demo_claim_def f)
  from claim_pays_penalties [OF demo_two_reachable run this demo_show] show ?thesis
    using run f(2) by (auto simp: penalties_between_def List.map_filter_simps)
qed

section \<open>Uptime\<close>

lemma push_last: "0 < n \<Longrightarrow> push_block n x (drop (length xs - n) xs) = drop (length (xs @ [x]) - n) (xs @ [x])"
  by (cases "length xs < n") (auto simp: push_block_def Suc_diff_le drop_Suc tl_drop)

lemma marks_hold_queue:
  assumes "0 < n" "unat h + length bs < 2 ^ 64"
  shows "\<exists>u. try_fold (\<lambda>(k, b). mark_height_as_signed (of_nat k) b) (zip [unat h + 1..<unat h + 1 + length bs] bs) (uptime_new h n) = Inr u
    \<and> unat (as_of_block_height u) = unat h + length bs
    \<and> holds_queue n u (drop (length bs - n) (zip [unat h + 1..<unat h + 1 + length bs] bs))"
  using assms(2)
proof (induction bs rule: rev_induct)
  case Nil
  then show ?case using holds_new [OF assms(1), of h] by (simp add: uptime_new_def)
next
  case (snoc b bs)
  let ?xs = "zip [unat h + 1..<unat h + 1 + length bs] bs" and ?k = "unat h + 1 + length bs"
  obtain u where u: "try_fold (\<lambda>(k, b). mark_height_as_signed (of_nat k) b) ?xs (uptime_new h n) = Inr u"
    "unat (as_of_block_height u) = unat h + length bs" "holds_queue n u (drop (length bs - n) ?xs)"
    using snoc by auto
  have k: "unat (of_nat ?k :: u64) = ?k" using snoc.prems by (simp add: unat_of_nat_small del: of_nat_add of_nat_Suc)
  obtain v where v: "mark_height_as_signed (of_nat ?k) b u = Inr v" "holds_queue n v (push_block n (?k, b) (drop (length bs - n) ?xs))"
    using holds_mark [OF u(3), of "of_nat ?k" b] u(2) k by auto
  have "as_of_block_height v = of_nat ?k" using v(1) unfolding mark_height_as_signed_def by (auto split: if_splits)
  then have as_of: "unat (as_of_block_height v) = ?k" using k by simp
  have xs: "zip [unat h + 1..<unat h + 1 + length (bs @ [b])] (bs @ [b]) = ?xs @ [(?k, b)]"
  proof -
    have "[unat h + 1..<unat h + 1 + length (bs @ [b])] = [unat h + 1..<?k] @ [?k]"
      using upt_Suc_append [of "unat h + 1" ?k] by (simp del: upt_Suc)
    then show ?thesis by (simp del: upt_Suc add: zip_append)
  qed
  have last: "push_block n (?k, b) (drop (length bs - n) ?xs) = drop (length (bs @ [b]) - n) (?xs @ [(?k, b)])"
  proof -
    have len: "length ?xs = length bs" by (simp del: upt_Suc)
    show ?thesis using push_last [OF assms(1), of "(?k, b)" ?xs] unfolding len length_append by (simp del: upt_Suc)
  qed
  have "try_fold (\<lambda>(k, b). mark_height_as_signed (of_nat k) b) (?xs @ [(?k, b)]) (uptime_new h n) = Inr v"
    unfolding try_fold_append u(1) using v(1) by simp
  then show ?case using v(2) as_of unfolding xs last by (intro exI [of _ v]) simp
qed

text \<open>C16: The ring buffer of the uptime tracker implements a queue of the last blocks: after any sequence of blocks following the
  initial height the missed blocks it reports are exactly those blocks among the last \<open>n\<close> that were not signed, in order, and their number is
  the one that decides about jailing.\<close>

theorem uptime_refines_queue:
  assumes "0 < n" "n < 2 ^ 64" "unat h + length bs < 2 ^ 64"
  shows "\<exists>u. try_fold (\<lambda>(k, b). mark_height_as_signed (of_nat k) b) (zip [unat h + 1..<unat h + 1 + length bs] bs) (uptime_new h n) = Inr u
    \<and> missed_blocks u = Inr (map fst (filter (\<lambda>(_, b). \<not> b) (drop (length bs - n) (zip [unat h + 1..<unat h + 1 + length bs] bs))))
    \<and> num_missed_blocks u = length (filter (\<lambda>(_, b). \<not> b) (drop (length bs - n) (zip [unat h + 1..<unat h + 1 + length bs] bs)))"
proof -
  obtain u where u: "try_fold (\<lambda>(k, b). mark_height_as_signed (of_nat k) b) (zip [unat h + 1..<unat h + 1 + length bs] bs) (uptime_new h n) = Inr u"
    "holds_queue n u (drop (length bs - n) (zip [unat h + 1..<unat h + 1 + length bs] bs))"
    using marks_hold_queue [OF assms(1,3)] by blast
  then show ?thesis using queue_missed [OF u(2)] queue_missed_heights [OF u(2) assms(2)] by simp
qed

theorem uptime_refines_queue_witness:
  "\<exists>u. try_fold (\<lambda>(k, b). mark_height_as_signed (of_nat k) b) (zip [6..<11] [False, True, False, True, True]) (uptime_new 5 4) = Inr u
    \<and> missed_blocks u = Inr [8]"
  using uptime_refines_queue [of 4 5 "[False, True, False, True, True]"] by (auto simp: upt_rec)

end
