(* ===== verification/GovData.thy ===== *)
theory GovData
  imports BatchOutput StakeRates
begin

text \<open>
  The data of the governance component: votes, ratios, tallies and their outcome (\<open>vote.rs\<close>, \<open>tally.rs\<close>), the states of a
  proposal (\<open>proposal_state.rs\<close>), the parameters (\<open>params.rs\<close>), proposals (\<open>proposal.rs\<close>) and the proposal NFTs
  (\<open>proposal_nft.rs\<close>), with their protobuf and text forms. Texts are character strings; a message that prost cannot leave empty is an option.
\<close>

section \<open>Votes\<close>

datatype vote = VYes | VNo | VAbstain

definition parse_vote :: "string \<Rightarrow> vote result" where
  "parse_vote s =
     (if s \<in> {''yes'', ''y''} then Inr VYes
      else if s \<in> {''no'', ''n''} then Inr VNo
      else if s \<in> {''abstain'', ''a''} then Inr VAbstain
      else Inl (Bail ''invalid vote''))"

fun show_vote :: "vote \<Rightarrow> string" where
  "show_vote VYes = ''yes''"
| "show_vote VNo = ''no''"
| "show_vote VAbstain = ''abstain''"

fun vote_to_proto :: "vote \<Rightarrow> int" where
  "vote_to_proto VYes = 2"
| "vote_to_proto VNo = 3"
| "vote_to_proto VAbstain = 1"

definition vote_from_proto :: "int \<Rightarrow> vote result" where
  "vote_from_proto m =
     (if m = 1 then Inr VAbstain else if m = 2 then Inr VYes else if m = 3 then Inr VNo
      else if m = 0 then Inl (Bail ''unspecified vote state'') else Inl (Bail ''invalid vote state''))"

section \<open>Ratios\<close>

text \<open>A ratio is compared by cross multiplication in 128 bits and never reduced.\<close>

record ratio =
  rt_numerator :: u64
  rt_denominator :: u64

definition ratio_new :: "u64 \<Rightarrow> u64 \<Rightarrow> ratio" where
  "ratio_new n d = \<lparr>rt_numerator = n, rt_denominator = d\<rparr>"

definition ratio_eq :: "ratio \<Rightarrow> ratio \<Rightarrow> bool" where
  "ratio_eq a b \<longleftrightarrow> (ucast (rt_numerator a) * ucast (rt_denominator b) :: u128) = ucast (rt_denominator a) * ucast (rt_numerator b)"

definition ratio_less :: "ratio \<Rightarrow> ratio \<Rightarrow> bool" where
  "ratio_less a b \<longleftrightarrow> (ucast (rt_numerator a) * ucast (rt_denominator b) :: u128) < ucast (rt_denominator a) * ucast (rt_numerator b)"

definition show_ratio :: "ratio \<Rightarrow> string" where
  "show_ratio r = show_u64 (rt_numerator r) @ ''/'' @ show_u64 (rt_denominator r)"

fun split_on :: "char \<Rightarrow> string \<Rightarrow> string list" where
  "split_on c [] = [[]]"
| "split_on c (x # xs) = (if x = c then [] # split_on c xs else case split_on c xs of [] \<Rightarrow> [[x]] | y # ys \<Rightarrow> (x # y) # ys)"

definition parse_ratio :: "string \<Rightarrow> ratio result" where
  "parse_ratio s =
     (case split_on (CHR ''/'') s of
        [] \<Rightarrow> Inl (Bail ''missing numerator'')
      | n # rest \<Rightarrow> and_then (ok_or (parse_u64 n) (Bail ''invalid digit'')) (\<lambda>n.
          case rest of
            [] \<Rightarrow> Inl (Bail ''missing denominator'')
          | d # rest \<Rightarrow> and_then (ok_or (parse_u64 d) (Bail ''invalid digit'')) (\<lambda>d.
              if rest \<noteq> [] then Inl (Bail ''too many parts'') else Inr \<lparr>rt_numerator = n, rt_denominator = d\<rparr>)))"

lemma cross_product: "unat (ucast a * ucast b :: u128) = unat a * unat b" for a b :: u64
proof -
  have "unat a * unat b \<le> (2 ^ 64 - 1) * (2 ^ 64 - 1)"
    using unsigned_less [of a, where ?'a = nat] unsigned_less [of b, where ?'a = nat] by (intro mult_le_mono) simp_all
  then have "unat (ucast a :: u128) * unat (ucast b :: u128) < 2 ^ LENGTH(128)" by (simp add: unat_ucast_up)
  then have "unat (ucast a * ucast b :: u128) = unat (ucast a :: u128) * unat (ucast b :: u128)" by (rule unat_mul_no_overflow)
  then show ?thesis by (simp add: unat_ucast_up)
qed

lemma ratio_less_exact: "ratio_less a b \<longleftrightarrow> unat (rt_numerator a) * unat (rt_denominator b) < unat (rt_denominator a) * unat (rt_numerator b)"
  by (simp add: ratio_less_def word_less_nat_alt cross_product)

section \<open>Parameters\<close>

record gov_params =
  gp_voting_blocks :: u64
  gp_deposit_amount :: amount
  gp_valid_quorum :: ratio
  gp_pass_threshold :: ratio
  gp_slash_threshold :: ratio

definition gov_params_default :: gov_params where
  "gov_params_default = \<lparr>gp_voting_blocks = 17280, gp_deposit_amount = 10000000, gp_valid_quorum = ratio_new 40 100,
     gp_pass_threshold = ratio_new 50 100, gp_slash_threshold = ratio_new 80 100\<rparr>"

record pb_gov_params =
  pbg_voting_blocks :: u64
  pbg_deposit_amount :: "pb_amount option"
  pbg_valid_quorum :: string
  pbg_pass_threshold :: string
  pbg_slash_threshold :: string

definition gov_params_to_proto :: "gov_params \<Rightarrow> pb_gov_params" where
  "gov_params_to_proto p =
     \<lparr>pbg_voting_blocks = gp_voting_blocks p, pbg_deposit_amount = Some (amount_to_proto (gp_deposit_amount p)),
      pbg_valid_quorum = show_ratio (gp_valid_quorum p), pbg_pass_threshold = show_ratio (gp_pass_threshold p),
      pbg_slash_threshold = show_ratio (gp_slash_threshold p)\<rparr>"

definition gov_params_from_proto :: "pb_gov_params \<Rightarrow> gov_params result" where
  "gov_params_from_proto m =
     and_then (ok_or (pbg_deposit_amount m) (Bail ''missing proposal_deposit_amount'')) (\<lambda>deposit.
     and_then (amount_from_proto deposit) (\<lambda>deposit.
     and_then (parse_ratio (pbg_valid_quorum m)) (\<lambda>quorum.
     and_then (parse_ratio (pbg_pass_threshold m)) (\<lambda>pass.
     and_then (parse_ratio (pbg_slash_threshold m)) (\<lambda>slash.
     Inr \<lparr>gp_voting_blocks = pbg_voting_blocks m, gp_deposit_amount = deposit, gp_valid_quorum = quorum,
          gp_pass_threshold = pass, gp_slash_threshold = slash\<rparr>)))))"

lemma split_single: "c \<notin> set s \<Longrightarrow> split_on c s = [s]"
  by (induction s) auto

lemma split_append: "c \<notin> set s \<Longrightarrow> split_on c (s @ c # t) = s # split_on c t"
  by (induction s) auto

lemma show_nat_digits: "c \<in> set (show_nat n) \<Longrightarrow> \<exists>d<10. c = digit_char d"
proof (induction n rule: show_nat.induct)
  case (1 n)
  show ?case
  proof (cases "n < 10")
    case True
    then show ?thesis using 1(2) by (auto simp: show_nat.simps [of n])
  next
    case False
    then consider "c \<in> set (show_nat (n div 10))" | "c = digit_char (n mod 10)" using 1(2) by (auto simp: show_nat.simps [of n])
    then show ?thesis
    proof cases
      case 1
      then show ?thesis using "1.IH" False by blast
    next
      case 2
      then show ?thesis by (intro exI [of _ "n mod 10"]) simp
    qed
  qed
qed

lemma no_slash: "CHR ''/'' \<notin> set (show_u64 w)"
proof
  assume "CHR ''/'' \<in> set (show_u64 w)"
  then obtain d where d: "d < 10" "CHR ''/'' = digit_char d" using show_nat_digits by (auto simp: show_u64_def)
  then have "char_digit (CHR ''/'') = Some d" by simp
  then show False by (simp add: char_digit_def)
qed

lemma parse_show_ratio: "parse_ratio (show_ratio r) = Inr r"
proof -
  have "split_on (CHR ''/'') (show_ratio r) = [show_u64 (rt_numerator r), show_u64 (rt_denominator r)]"
    by (simp add: show_ratio_def split_append no_slash split_single)
  then show ?thesis by (simp add: parse_ratio_def parse_show_u64)
qed

lemma gov_params_roundtrip: "gov_params_from_proto (gov_params_to_proto p) = Inr p"
  by (simp add: gov_params_from_proto_def gov_params_to_proto_def parse_show_ratio amount_proto_roundtrip)

section \<open>Tallies\<close>

text \<open>The counts are added in 64 bits.\<close>

record vote_tally =
  ty_yes :: u64
  ty_no :: u64
  ty_abstain :: u64

definition no_votes :: vote_tally where
  "no_votes = \<lparr>ty_yes = 0, ty_no = 0, ty_abstain = 0\<rparr>"

definition tally_total :: "vote_tally \<Rightarrow> u64" where
  "tally_total t = ty_yes t + ty_no t + ty_abstain t"

fun tally_of :: "vote \<Rightarrow> u64 \<Rightarrow> vote_tally" where
  "tally_of VYes pow = no_votes\<lparr>ty_yes := pow\<rparr>"
| "tally_of VNo pow = no_votes\<lparr>ty_no := pow\<rparr>"
| "tally_of VAbstain pow = no_votes\<lparr>ty_abstain := pow\<rparr>"

definition tally_add :: "vote_tally \<Rightarrow> vote_tally \<Rightarrow> vote_tally" where
  "tally_add a b = \<lparr>ty_yes = ty_yes a + ty_yes b, ty_no = ty_no a + ty_no b, ty_abstain = ty_abstain a + ty_abstain b\<rparr>"

datatype tally_outcome = TPass | TFail | TSlash

definition meets_quorum :: "vote_tally \<Rightarrow> u64 \<Rightarrow> gov_params \<Rightarrow> bool" where
  "meets_quorum t total_voting_power p \<longleftrightarrow> \<not> ratio_less (ratio_new (tally_total t) total_voting_power) (gp_valid_quorum p)"

definition tally_slashed :: "vote_tally \<Rightarrow> gov_params \<Rightarrow> bool" where
  "tally_slashed t p \<longleftrightarrow> ratio_less (gp_slash_threshold p) (ratio_new (ty_no t) (tally_total t))"

definition yes_ratio :: "vote_tally \<Rightarrow> ratio" where
  "yes_ratio t = ratio_new (ty_yes t) (min (ty_yes t + ty_no t) 1)"

definition outcome :: "vote_tally \<Rightarrow> u64 \<Rightarrow> gov_params \<Rightarrow> tally_outcome" where
  "outcome t total_voting_power p =
     (if \<not> meets_quorum t total_voting_power p then TFail
      else if tally_slashed t p then TSlash
      else if ratio_less (gp_pass_threshold p) (yes_ratio t) then TPass else TFail)"

definition emergency_pass :: "vote_tally \<Rightarrow> u64 \<Rightarrow> gov_params \<Rightarrow> bool" where
  "emergency_pass t total_voting_power p \<longleftrightarrow>
     (if \<not> meets_quorum t total_voting_power p then False
      else if tally_slashed t p then False
      else ratio_less (ratio_new 1 3) (ratio_new (ty_yes t) total_voting_power))"

section \<open>The states of a proposal\<close>

datatype 'w withdrawn = NotWithdrawn | WithReason 'w

datatype 'w proposal_outcome = OPassed | OFailed "'w withdrawn" | OSlashed "'w withdrawn"

datatype proposal_state =
    SVoting
  | SWithdrawn string
  | SFinished "string proposal_outcome"
  | SClaimed "string proposal_outcome"

fun withdrawn_from_option :: "'w option \<Rightarrow> 'w withdrawn" where
  "withdrawn_from_option None = NotWithdrawn"
| "withdrawn_from_option (Some r) = WithReason r"

fun withdrawn_to_option :: "'w withdrawn \<Rightarrow> 'w option" where
  "withdrawn_to_option NotWithdrawn = None"
| "withdrawn_to_option (WithReason r) = Some r"

fun outcome_map :: "('w \<Rightarrow> 'x) \<Rightarrow> 'w proposal_outcome \<Rightarrow> 'x proposal_outcome" where
  "outcome_map f OPassed = OPassed"
| "outcome_map f (OFailed w) = OFailed (withdrawn_from_option (map_option f (withdrawn_to_option w)))"
| "outcome_map f (OSlashed w) = OSlashed (withdrawn_from_option (map_option f (withdrawn_to_option w)))"

fun outcome_is_slashed :: "'w proposal_outcome \<Rightarrow> bool" where
  "outcome_is_slashed (OSlashed _) = True"
| "outcome_is_slashed _ = False"

fun outcome_is_failed :: "'w proposal_outcome \<Rightarrow> bool" where
  "outcome_is_failed OPassed = False"
| "outcome_is_failed _ = True"

fun outcome_is_passed :: "'w proposal_outcome \<Rightarrow> bool" where
  "outcome_is_passed OPassed = True"
| "outcome_is_passed _ = False"

definition should_be_refunded :: "'w proposal_outcome \<Rightarrow> bool" where
  "should_be_refunded out \<longleftrightarrow> \<not> outcome_is_slashed out"

fun outcome_of_tally :: "tally_outcome \<Rightarrow> 'w proposal_outcome" where
  "outcome_of_tally TPass = OPassed"
| "outcome_of_tally TFail = OFailed NotWithdrawn"
| "outcome_of_tally TSlash = OSlashed NotWithdrawn"

fun state_withdrawn :: "proposal_state \<Rightarrow> string withdrawn" where
  "state_withdrawn SVoting = NotWithdrawn"
| "state_withdrawn (SWithdrawn reason) = WithReason reason"
| "state_withdrawn (SFinished (OFailed w)) = w"
| "state_withdrawn (SFinished (OSlashed w)) = w"
| "state_withdrawn (SFinished OPassed) = NotWithdrawn"
| "state_withdrawn (SClaimed (OFailed w)) = w"
| "state_withdrawn (SClaimed (OSlashed w)) = w"
| "state_withdrawn (SClaimed OPassed) = NotWithdrawn"

text \<open>Protobuf: the reason of a withdrawal is limited to 1 kB when it is read.\<close>

definition MAX_VALIDATOR_VOTE_REASON_LENGTH :: nat where
  "MAX_VALIDATOR_VOTE_REASON_LENGTH = 1024"

datatype pb_outcome = PbPassed | PbFailed "string option" | PbSlashed "string option"

datatype pb_proposal_state = PbVoting | PbWithdrawn string | PbFinished "pb_outcome option" | PbClaimed "pb_outcome option"

fun outcome_to_proto :: "string proposal_outcome \<Rightarrow> pb_outcome option" where
  "outcome_to_proto OPassed = Some PbPassed"
| "outcome_to_proto (OFailed w) = Some (PbFailed (withdrawn_to_option w))"
| "outcome_to_proto (OSlashed w) = Some (PbSlashed (withdrawn_to_option w))"

definition read_reason :: "string option \<Rightarrow> string withdrawn result" where
  "read_reason r =
     (case r of
        None \<Rightarrow> Inr NotWithdrawn
      | Some reason \<Rightarrow> if length reason > MAX_VALIDATOR_VOTE_REASON_LENGTH then Inl (Bail ''withdrawn reason must be smaller than 1kb'')
          else Inr (WithReason reason))"

definition outcome_from_proto :: "pb_outcome option \<Rightarrow> string proposal_outcome result" where
  "outcome_from_proto m =
     and_then (ok_or m (Bail ''missing proposal outcome'')) (\<lambda>m.
     case m of
       PbPassed \<Rightarrow> Inr OPassed
     | PbFailed r \<Rightarrow> and_then (read_reason r) (\<lambda>w. Inr (OFailed w))
     | PbSlashed r \<Rightarrow> and_then (read_reason r) (\<lambda>w. Inr (OSlashed w)))"

definition unit_outcome_to_proto :: "unit proposal_outcome \<Rightarrow> pb_outcome option" where
  "unit_outcome_to_proto out = outcome_to_proto (outcome_map (\<lambda>_. '''') out)"

definition withdrawn_unit :: "string withdrawn \<Rightarrow> unit withdrawn result" where
  "withdrawn_unit w =
     (case w of NotWithdrawn \<Rightarrow> Inr NotWithdrawn
      | WithReason r \<Rightarrow> if r = [] then Inr (WithReason ()) else Inl (Bail ''withdrawn reason is not empty''))"

definition unit_outcome_from_proto :: "pb_outcome option \<Rightarrow> unit proposal_outcome result" where
  "unit_outcome_from_proto m =
     and_then (ok_or m (Bail ''missing proposal outcome'')) (\<lambda>m.
     case m of
       PbPassed \<Rightarrow> Inr OPassed
     | PbFailed r \<Rightarrow> and_then (read_reason r) (\<lambda>w. and_then (withdrawn_unit w) (\<lambda>w. Inr (OFailed w)))
     | PbSlashed r \<Rightarrow> and_then (read_reason r) (\<lambda>w. and_then (withdrawn_unit w) (\<lambda>w. Inr (OSlashed w))))"

fun proposal_state_to_proto :: "proposal_state \<Rightarrow> pb_proposal_state option" where
  "proposal_state_to_proto SVoting = Some PbVoting"
| "proposal_state_to_proto (SWithdrawn reason) = Some (PbWithdrawn reason)"
| "proposal_state_to_proto (SFinished out) = Some (PbFinished (outcome_to_proto out))"
| "proposal_state_to_proto (SClaimed out) = Some (PbFinished (outcome_to_proto out))"

definition proposal_state_from_proto :: "pb_proposal_state option \<Rightarrow> proposal_state result" where
  "proposal_state_from_proto m =
     and_then (ok_or m (Bail ''missing proposal state'')) (\<lambda>m.
     case m of
       PbVoting \<Rightarrow> Inr SVoting
     | PbWithdrawn reason \<Rightarrow> Inr (SWithdrawn reason)
     | PbFinished out \<Rightarrow> and_then (outcome_from_proto out) (\<lambda>out. Inr (SFinished out))
     | PbClaimed out \<Rightarrow> and_then (outcome_from_proto out) (\<lambda>out. Inr (SClaimed out)))"

fun reason_fits :: "string proposal_outcome \<Rightarrow> bool" where
  "reason_fits (OFailed (WithReason r)) = (length r \<le> MAX_VALIDATOR_VOTE_REASON_LENGTH)"
| "reason_fits (OSlashed (WithReason r)) = (length r \<le> MAX_VALIDATOR_VOTE_REASON_LENGTH)"
| "reason_fits _ = True"

lemma outcome_roundtrip: "reason_fits out \<Longrightarrow> outcome_from_proto (outcome_to_proto out) = Inr out"
  by (cases out rule: reason_fits.cases) (simp_all add: outcome_from_proto_def read_reason_def)

lemma unit_outcome_roundtrip: "unit_outcome_from_proto (unit_outcome_to_proto out) = Inr out"
proof -
  have w: "w = NotWithdrawn \<or> w = WithReason ()" for w :: "unit withdrawn" by (cases w) simp_all
  show ?thesis
  proof (cases out)
    case (OFailed x)
    then show ?thesis using w [of x] by (auto simp: unit_outcome_from_proto_def unit_outcome_to_proto_def read_reason_def withdrawn_unit_def)
  next
    case (OSlashed x)
    then show ?thesis using w [of x] by (auto simp: unit_outcome_from_proto_def unit_outcome_to_proto_def read_reason_def withdrawn_unit_def)
  qed (simp add: unit_outcome_from_proto_def unit_outcome_to_proto_def)
qed

section \<open>Proposals\<close>

text \<open>A parameter change, a transaction plan and a transaction are their encodings.\<close>

datatype proposal_payload =
    PSignaling "string option"
  | PEmergency bool
  | PParameterChange "u8 list"
  | PCommunityPoolSpend "u8 list"
  | PUpgradePlan u64
  | PFreezeIbcClient string
  | PUnfreezeIbcClient string

record proposal =
  pr_id :: u64
  pr_title :: string
  pr_description :: string
  pr_payload :: proposal_payload

datatype proposal_kind = KSignaling | KEmergency | KParameterChange | KCommunityPoolSpend | KUpgradePlan | KFreezeIbcClient | KUnfreezeIbcClient

fun payload_kind :: "proposal_payload \<Rightarrow> proposal_kind" where
  "payload_kind (PSignaling _) = KSignaling"
| "payload_kind (PEmergency _) = KEmergency"
| "payload_kind (PParameterChange _) = KParameterChange"
| "payload_kind (PCommunityPoolSpend _) = KCommunityPoolSpend"
| "payload_kind (PUpgradePlan _) = KUpgradePlan"
| "payload_kind (PFreezeIbcClient _) = KFreezeIbcClient"
| "payload_kind (PUnfreezeIbcClient _) = KUnfreezeIbcClient"

fun kind_to_proto :: "proposal_kind \<Rightarrow> int" where
  "kind_to_proto KSignaling = 1"
| "kind_to_proto KEmergency = 2"
| "kind_to_proto KParameterChange = 3"
| "kind_to_proto KCommunityPoolSpend = 4"
| "kind_to_proto KUpgradePlan = 5"
| "kind_to_proto KFreezeIbcClient = 6"
| "kind_to_proto KUnfreezeIbcClient = 7"

definition parse_kind :: "string \<Rightarrow> proposal_kind result" where
  "parse_kind s =
     (if s = ''signaling'' then Inr KSignaling
      else if s = ''emergency'' then Inr KEmergency
      else if s = ''parameter_change'' then Inr KParameterChange
      else if s = ''community_pool_spend'' then Inr KCommunityPoolSpend
      else if s = ''upgrade_plan'' then Inr KUpgradePlan
      else Inl (Bail ''invalid proposal kind''))"

definition is_emergency :: "proposal_payload \<Rightarrow> bool" where
  "is_emergency p = (case p of PEmergency _ \<Rightarrow> True | _ \<Rightarrow> False)"

definition is_ibc_freeze :: "proposal_payload \<Rightarrow> bool" where
  "is_ibc_freeze p = (case p of PFreezeIbcClient _ \<Rightarrow> True | PUnfreezeIbcClient _ \<Rightarrow> True | _ \<Rightarrow> False)"

datatype pb_payload =
    PbSignaling string
  | PbEmergency bool
  | PbParameterChange "u8 list"
  | PbCommunityPoolSpend "(string \<times> u8 list) option"
  | PbUpgradePlan u64
  | PbFreezeIbcClient string
  | PbUnfreezeIbcClient string

record pb_proposal =
  pbp_id :: u64
  pbp_title :: string
  pbp_description :: string
  pbp_payload :: "pb_payload option"

definition TRANSACTION_PLAN_TYPE_URL :: string where
  "TRANSACTION_PLAN_TYPE_URL = ''/penumbra.core.transaction.v1.TransactionPlan''"

fun payload_to_proto :: "proposal_payload \<Rightarrow> pb_payload" where
  "payload_to_proto (PSignaling commit) = PbSignaling (case commit of Some c \<Rightarrow> c | None \<Rightarrow> [])"
| "payload_to_proto (PEmergency halt) = PbEmergency halt"
| "payload_to_proto (PParameterChange change) = PbParameterChange change"
| "payload_to_proto (PCommunityPoolSpend plan) = PbCommunityPoolSpend (Some (TRANSACTION_PLAN_TYPE_URL, plan))"
| "payload_to_proto (PUpgradePlan height) = PbUpgradePlan height"
| "payload_to_proto (PFreezeIbcClient client) = PbFreezeIbcClient client"
| "payload_to_proto (PUnfreezeIbcClient client) = PbUnfreezeIbcClient client"

definition proposal_to_proto :: "proposal \<Rightarrow> pb_proposal" where
  "proposal_to_proto p = \<lparr>pbp_id = pr_id p, pbp_title = pr_title p, pbp_description = pr_description p, pbp_payload = Some (payload_to_proto (pr_payload p))\<rparr>"

text \<open>\<open>valid_client\<close> is the syntax of client identifiers of \<open>ibc_types\<close>.\<close>

definition read_client :: "(string \<Rightarrow> bool) \<Rightarrow> string \<Rightarrow> string result" where
  "read_client valid_client client =
     (if length client > 128 then Inl (Bail ''client ID must be less than 128 bytes'')
      else if \<not> valid_client client then Inl (Bail ''invalid client id'') else Inr client)"

definition payload_from_proto :: "(string \<Rightarrow> bool) \<Rightarrow> pb_payload \<Rightarrow> proposal_payload result" where
  "payload_from_proto valid_client m =
     (case m of
        PbSignaling commit \<Rightarrow>
          if commit = [] then Inr (PSignaling None)
          else if length commit > 255 then Inl (Bail ''proposal commit hash must be less than 255 bytes'')
          else Inr (PSignaling (Some commit))
      | PbEmergency halt \<Rightarrow> Inr (PEmergency halt)
      | PbParameterChange change \<Rightarrow> Inr (PParameterChange change)
      | PbCommunityPoolSpend plan \<Rightarrow> and_then (ok_or plan (Bail ''missing transaction plan'')) (\<lambda>(url, plan).
          if url \<noteq> TRANSACTION_PLAN_TYPE_URL then Inl (Bail ''unknown transaction plan type url'') else Inr (PCommunityPoolSpend plan))
      | PbUpgradePlan height \<Rightarrow> Inr (PUpgradePlan height)
      | PbFreezeIbcClient client \<Rightarrow> and_then (read_client valid_client client) (\<lambda>c. Inr (PFreezeIbcClient c))
      | PbUnfreezeIbcClient client \<Rightarrow> and_then (read_client valid_client client) (\<lambda>c. Inr (PUnfreezeIbcClient c)))"

definition proposal_from_proto :: "(string \<Rightarrow> bool) \<Rightarrow> pb_proposal \<Rightarrow> proposal result" where
  "proposal_from_proto valid_client m =
     (if length (pbp_title m) > 80 then Inl (Bail ''proposal title field must be less than 80 characters'')
      else if length (pbp_description m) > 10000 then Inl (Bail ''proposal description must be less than 10,000 characters'')
      else and_then (ok_or (pbp_payload m) (Bail ''missing proposal payload'')) (\<lambda>payload.
           and_then (payload_from_proto valid_client payload) (\<lambda>payload.
           Inr \<lparr>pr_id = pbp_id m, pr_title = pbp_title m, pr_description = pbp_description m, pr_payload = payload\<rparr>)))"

text \<open>What was decoded once survives being stored and read again.\<close>

lemma payload_stable:
  "payload_from_proto valid m = Inr p \<Longrightarrow> payload_from_proto valid (payload_to_proto p) = Inr p"
  by (cases m) (auto simp: payload_from_proto_def result_simps read_client_def split: if_splits)

lemma proposal_stable:
  "proposal_from_proto valid m = Inr p \<Longrightarrow> proposal_from_proto valid (proposal_to_proto p) = Inr p"
  by (auto simp: proposal_from_proto_def proposal_to_proto_def result_simps payload_stable split: if_splits)

section \<open>Proposal NFTs\<close>

datatype nft_kind = NDeposit | NUnbondingDeposit | NSlashed | NFailed | NPassed

fun show_nft_kind :: "nft_kind \<Rightarrow> string" where
  "show_nft_kind NDeposit = ''deposit''"
| "show_nft_kind NUnbondingDeposit = ''unbonding_deposit''"
| "show_nft_kind NSlashed = ''slashed''"
| "show_nft_kind NFailed = ''failed''"
| "show_nft_kind NPassed = ''passed''"

definition parse_nft_kind :: "string \<Rightarrow> nft_kind result" where
  "parse_nft_kind s =
     (if s = ''deposit'' then Inr NDeposit
      else if s = ''unbonding_deposit'' then Inr NUnbondingDeposit
      else if s = ''slashed'' then Inr NSlashed
      else if s = ''failed'' then Inr NFailed
      else if s = ''passed'' then Inr NPassed
      else Inl (Bail ''invalid proposal token state''))"

definition nft_denom :: "u64 \<Rightarrow> nft_kind \<Rightarrow> string" where
  "nft_denom p k = ''proposal_'' @ show_u64 p @ ''_'' @ show_nft_kind k"

lemma vote_roundtrips: "vote_from_proto (vote_to_proto v) = Inr v" "parse_vote (show_vote v) = Inr v"
  by (cases v; simp add: vote_from_proto_def parse_vote_def)+

lemma nft_kind_roundtrip: "parse_nft_kind (show_nft_kind k) = Inr k"
  by (cases k) (simp_all add: parse_nft_kind_def)

end
