(* ===== verification/GovState.thy ===== *)
theory GovState
  imports GovData Validators "HOL-Library.Product_Lexorder"
begin

text \<open>
  The store of the governance component with its readers, checks and writers (\<open>component/view.rs\<close>): proposals, the snapshot of
  the active validators a proposal takes when it starts, votes, the sweep of delegator votes into tallies, and the
  enactment of a proposal that passed.
\<close>

section \<open>The store\<close>

text \<open>
  One field per family of keys, the staking store (clock included) within it. A definition and a state are kept as the message
  that is written, because reading them back is part of the behaviour. Votes are kept in the order of their keys: an untallied vote
  under the proposal, the text form of the validator and that of the nullifier. \<open>gv_spent\<close> are the heights of spent
  nullifiers, \<open>gv_sct_position\<close> the next position of the state commitment tree (none when it is full), \<open>gv_clients\<close> the encoded IBC client
  states, \<open>gv_other_params\<close> the encoding of the parameters of the other components. The last field is in the object store.
\<close>

record gov_state =
  gv_stake :: stake_state
  gv_params :: "gov_params option"
  gv_next_id :: "u64 option"
  gv_proposals :: "u64 \<Rightarrow> pb_proposal option"
  gv_states :: "u64 \<Rightarrow> pb_proposal_state option option"
  gv_unfinished :: "(u64, unit) btree"
  gv_deposits :: "u64 \<Rightarrow> amount option"
  gv_start :: "u64 \<Rightarrow> u64 option"
  gv_end :: "u64 \<Rightarrow> u64 option"
  gv_start_position :: "u64 \<Rightarrow> u64 option"
  gv_rates_at_start :: "u64 \<Rightarrow> identity_key \<Rightarrow> rate_data option"
  gv_powers_at_start :: "u64 \<Rightarrow> (identity_key, amount) btree"
  gv_validator_votes :: "u64 \<Rightarrow> (identity_key, vote) btree"
  gv_vote_reasons :: "u64 \<Rightarrow> identity_key \<Rightarrow> string option"
  gv_voted :: "u64 \<Rightarrow> u8 list \<Rightarrow> u64 option"
  gv_untallied :: "(u64 \<times> u8 list \<times> u8 list, identity_key \<times> vote_tally) btree"
  gv_tallied :: "u64 \<Rightarrow> (identity_key, vote_tally) btree"
  gv_spent :: "u8 list \<Rightarrow> u64 option"
  gv_sct_position :: "tree_index option"
  gv_clients :: "string \<Rightarrow> u8 list option"
  gv_other_params :: "u8 list"
  gv_param_changes :: "u64 \<Rightarrow> u8 list option"
  gv_transactions :: "u64 \<Rightarrow> u8 list option"
  gv_deliveries :: "u64 \<Rightarrow> (u64, u64) btree"
  gv_next_upgrade :: "u64 option"
  gv_halt_bit :: "bool option"
  gv_denoms :: "string set"
  gv_proposal_started :: bool

text \<open>
  What is not modelled: the denomination an asset id hashes from, signature and proof verification, commitments, the syntax of client
  identifiers and the freezing of a client (\<open>ibc_types\<close>), the application of a parameter change, and the community pool's transactions.
\<close>

datatype action_plan =
    PlSpend | PlOutput | PlSwap | PlSwapClaim | PlDelegatorVote | PlUndelegateClaim | PlDelegate | PlUndelegate
  | PlProposalSubmit | PlProposalWithdraw | PlProposalDepositClaim | PlValidatorDefinition | PlLqtVote | PlIbcAction | PlValidatorVote
  | PlPositionOpen | PlPositionClose | PlPositionWithdraw | PlCommunityPoolSpend | PlCommunityPoolOutput | PlIcs20Withdrawal
  | PlCommunityPoolDeposit | PlAuctionSchedule | PlAuctionEnd | PlAuctionWithdraw

record gov_env =
  ge_stake :: stake_env
  ge_denom_of :: "asset_id \<Rightarrow> stake_denom option"
  ge_nft :: "u64 \<Rightarrow> nft_kind \<Rightarrow> asset_id"
  ge_staking_token :: asset_id
  ge_verify_vote :: "u8 list \<Rightarrow> u64 \<Rightarrow> vote \<Rightarrow> identity_key \<Rightarrow> string \<Rightarrow> u8 list \<Rightarrow> bool"
  ge_verify_auth :: "u8 list \<Rightarrow> u8 list \<Rightarrow> u8 list \<Rightarrow> bool"
  ge_verify_proof :: "u8 list \<Rightarrow> u8 list \<Rightarrow> asset_value \<Rightarrow> u8 list \<Rightarrow> u8 list \<Rightarrow> u64 \<Rightarrow> bool"
  ge_valid_client :: "string \<Rightarrow> bool"
  ge_freeze :: "u8 list \<Rightarrow> u8 list"
  ge_unfreeze :: "u8 list \<Rightarrow> u8 list"
  ge_apply_change :: "u8 list \<Rightarrow> gov_params \<times> u8 list \<Rightarrow> (gov_params \<times> u8 list) option"
  ge_spends_enabled :: "u8 list \<Rightarrow> bool"
  ge_decode_plan :: "u8 list \<Rightarrow> action_plan list option"
  ge_build_plan :: "u8 list \<Rightarrow> u8 list option"
  ge_check_built :: "u8 list \<Rightarrow> bool"

section \<open>Readers\<close>

definition is_pre_upgrade_height :: "gov_state \<Rightarrow> bool result" where
  "is_pre_upgrade_height s =
     (case gv_next_upgrade s of
        None \<Rightarrow> Inr False
      | Some next_upgrade \<Rightarrow> and_then (get_block_height (gv_stake s)) (\<lambda>current. Inr (saturating_add current 1 = next_upgrade)))"

definition get_governance_params :: "gov_state \<Rightarrow> gov_params result" where
  "get_governance_params s = ok_or (gv_params s) (Bail ''Missing GovernanceParameters'')"

definition next_proposal_id :: "gov_state \<Rightarrow> u64" where
  "next_proposal_id s = get_or (gv_next_id s) 0"

fun read_stored :: "('m \<Rightarrow> 'a result) \<Rightarrow> 'm option \<Rightarrow> 'a option result" where
  "read_stored decode None = Inr None"
| "read_stored decode (Some m) = and_then (decode m) (\<lambda>a. Inr (Some a))"

definition proposal_definition :: "gov_env \<Rightarrow> gov_state \<Rightarrow> u64 \<Rightarrow> proposal option result" where
  "proposal_definition env s p = read_stored (proposal_from_proto (ge_valid_client env)) (gv_proposals s p)"

definition proposal_payload_of :: "gov_env \<Rightarrow> gov_state \<Rightarrow> u64 \<Rightarrow> proposal_payload option result" where
  "proposal_payload_of env s p = and_then (proposal_definition env s p) (\<lambda>d. Inr (map_option pr_payload d))"

definition proposal_state_of :: "gov_state \<Rightarrow> u64 \<Rightarrow> proposal_state option result" where
  "proposal_state_of s p = read_stored proposal_state_from_proto (gv_states s p)"

definition unfinished_proposals :: "gov_state \<Rightarrow> u64 list" where
  "unfinished_proposals s = map fst (gv_unfinished s)"

text \<open>The powers are written as 128-bit amounts and read as 64-bit integers, which keeps their low half.\<close>

definition powers_at_start :: "gov_state \<Rightarrow> u64 \<Rightarrow> (identity_key, u64) btree" where
  "powers_at_start s p = map (\<lambda>(i, a). (i, ucast a)) (gv_powers_at_start s p)"

definition total_voting_power_at_proposal_start :: "gov_state \<Rightarrow> u64 \<Rightarrow> u64" where
  "total_voting_power_at_proposal_start s p = sum_list (map snd (powers_at_start s p))"

definition specific_voting_power_at_proposal_start :: "gov_state \<Rightarrow> u64 \<Rightarrow> identity_key \<Rightarrow> u64" where
  "specific_voting_power_at_proposal_start s p i = get_or (bt_get (powers_at_start s p) i) 0"

definition is_chain_halted :: "gov_state \<Rightarrow> bool" where
  "is_chain_halted s = get_or (gv_halt_bit s) False"

section \<open>Checks\<close>

definition check_nullifier_unvoted_for_proposal :: "gov_state \<Rightarrow> u64 \<Rightarrow> u8 list \<Rightarrow> unit result" where
  "check_nullifier_unvoted_for_proposal s p nf = ensure (gv_voted s p nf = None) ''nullifier was already used for voting''"

definition check_proposal_votable :: "gov_state \<Rightarrow> u64 \<Rightarrow> unit result" where
  "check_proposal_votable s p =
     and_then (proposal_state_of s p) (\<lambda>st.
     case st of
       None \<Rightarrow> Inl (Bail ''proposal does not exist'')
     | Some SVoting \<Rightarrow> Inr ()
     | Some (SWithdrawn _) \<Rightarrow> Inl (Bail ''proposal has already been withdrawn'')
     | Some (SFinished _) \<Rightarrow> Inl (Bail ''voting has already concluded'')
     | Some (SClaimed _) \<Rightarrow> Inl (Bail ''voting has already concluded''))"

definition check_proposal_started_at_position :: "gov_state \<Rightarrow> u64 \<Rightarrow> u64 \<Rightarrow> unit result" where
  "check_proposal_started_at_position s p claimed =
     and_then (ok_or (gv_start_position s p) (Bail ''proposal does not exist'')) (\<lambda>pos.
     ensure (pos = claimed) ''proposal was not started at claimed start position'')"

definition check_nullifier_unspent_before_start_block_height :: "gov_state \<Rightarrow> u64 \<Rightarrow> u8 list \<Rightarrow> unit result" where
  "check_nullifier_unspent_before_start_block_height s p nf =
     and_then (ok_or (gv_start s p) (Bail ''proposal does not exist'')) (\<lambda>start.
     case gv_spent s nf of
       None \<Rightarrow> Inr ()
     | Some spend_height \<Rightarrow> ensure (\<not> spend_height < start) ''nullifier was already spent before the proposal started'')"

definition validator_by_delegation_asset :: "gov_env \<Rightarrow> gov_state \<Rightarrow> asset_id \<Rightarrow> identity_key result" where
  "validator_by_delegation_asset env s a =
     (case ge_denom_of env a of
        None \<Rightarrow> Inl (Bail ''asset ID does not correspond to a known denom'')
      | Some d \<Rightarrow>
          if d \<notin> sk_denoms (gv_stake s) then Inl (Bail ''asset ID does not correspond to a known denom'')
          else case d of DelegationDenom i \<Rightarrow> Inr i | UnbondingDenom _ _ \<Rightarrow> Inl (Bail ''not a delegation token''))"

definition check_unbonded_amount_correct_exchange_for_proposal :: "gov_env \<Rightarrow> gov_state \<Rightarrow> u64 \<Rightarrow> asset_value \<Rightarrow> amount \<Rightarrow> unit result" where
  "check_unbonded_amount_correct_exchange_for_proposal env s p v unbonded =
     and_then (validator_by_delegation_asset env s (v_asset v)) (\<lambda>i.
     and_then (ok_or (gv_rates_at_start s p i) (Bail ''validator was not active at the start of the proposal'')) (\<lambda>r.
     and_then (unbonded_amount r (v_amount v)) (\<lambda>u.
     ensure (u = unbonded) ''unbonded amount does not correspond to the staked delegation tokens'')))"

definition check_height_in_future_of_voting_end :: "gov_state \<Rightarrow> u64 \<Rightarrow> unit result" where
  "check_height_in_future_of_voting_end s h =
     and_then (get_block_height (gv_stake s)) (\<lambda>block_height.
     and_then (get_governance_params s) (\<lambda>params.
     ensure (\<not> h < block_height + gp_voting_blocks params) ''effective height is less than the end of the voting period''))"

definition check_validator_has_not_voted :: "gov_state \<Rightarrow> u64 \<Rightarrow> identity_key \<Rightarrow> unit result" where
  "check_validator_has_not_voted s p i = ensure (bt_get (gv_validator_votes s p) i = None) ''validator has already voted''"

definition check_governance_key_matches_validator :: "gov_state \<Rightarrow> identity_key \<Rightarrow> u8 list \<Rightarrow> unit result" where
  "check_governance_key_matches_validator s i gk =
     and_then (ok_or (sk_definitions (gv_stake s) i) (Bail ''validator does not exist'')) (\<lambda>v.
     ensure (v_governance_key v = gk) ''governance key does not match validator'')"

definition check_proposal_claimable :: "gov_state \<Rightarrow> u64 \<Rightarrow> unit result" where
  "check_proposal_claimable s p =
     and_then (proposal_state_of s p) (\<lambda>st.
     case st of
       None \<Rightarrow> Inl (Bail ''proposal does not exist'')
     | Some SVoting \<Rightarrow> Inl (Bail ''proposal is still voting'')
     | Some (SWithdrawn _) \<Rightarrow> Inl (Bail ''proposal has been withdrawn but voting has not concluded'')
     | Some (SFinished _) \<Rightarrow> Inr ()
     | Some (SClaimed _) \<Rightarrow> Inl (Bail ''the deposit for the proposal has already been claimed''))"

definition check_proposal_claim_valid_deposit :: "gov_state \<Rightarrow> u64 \<Rightarrow> amount \<Rightarrow> unit result" where
  "check_proposal_claim_valid_deposit s p claim =
     and_then (ok_or (gv_deposits s p) (Bail ''proposal does not exist'')) (\<lambda>d. ensure (claim = d) ''deposit claim does not match the deposit'')"

definition check_validator_active_at_proposal_start :: "gov_state \<Rightarrow> u64 \<Rightarrow> identity_key \<Rightarrow> unit result" where
  "check_validator_active_at_proposal_start s p i =
     ensure (bt_get (powers_at_start s p) i \<noteq> None) ''validator was not active at the start of the proposal''"

section \<open>Writers\<close>

definition put_proposal_state :: "u64 \<Rightarrow> proposal_state \<Rightarrow> gov_state \<Rightarrow> gov_state" where
  "put_proposal_state p st s =
     (let s = s\<lparr>gv_states := (gv_states s)(p \<mapsto> proposal_state_to_proto st)\<rparr> in
      case st of
        SVoting \<Rightarrow> s\<lparr>gv_unfinished := bt_insert p () (gv_unfinished s)\<rparr>
      | SWithdrawn _ \<Rightarrow> s\<lparr>gv_unfinished := bt_insert p () (gv_unfinished s)\<rparr>
      | SFinished _ \<Rightarrow> s\<lparr>gv_unfinished := bt_remove p (gv_unfinished s)\<rparr>
      | SClaimed _ \<Rightarrow> s\<lparr>gv_unfinished := bt_remove p (gv_unfinished s)\<rparr>)"

definition cast_validator_vote :: "u64 \<Rightarrow> identity_key \<Rightarrow> vote \<Rightarrow> string \<Rightarrow> gov_state \<Rightarrow> gov_state" where
  "cast_validator_vote p i v reason s =
     s\<lparr>gv_validator_votes := (gv_validator_votes s)(p := bt_insert i v (gv_validator_votes s p)),
       gv_vote_reasons := (gv_vote_reasons s)(p := (gv_vote_reasons s p)(i \<mapsto> reason))\<rparr>"

definition mark_nullifier_voted_on_proposal :: "u64 \<Rightarrow> u8 list \<Rightarrow> gov_state \<Rightarrow> gov_state result" where
  "mark_nullifier_voted_on_proposal p nf s =
     and_then (expect (get_block_height (gv_stake s))) (\<lambda>h. Inr (s\<lparr>gv_voted := (gv_voted s)(p := (gv_voted s p)(nf \<mapsto> h))\<rparr>))"

definition cast_delegator_vote :: "gov_env \<Rightarrow> u64 \<Rightarrow> identity_key \<Rightarrow> vote \<Rightarrow> u8 list \<Rightarrow> amount \<Rightarrow> gov_state \<Rightarrow> gov_state" where
  "cast_delegator_vote env p i v nf unbonded s =
     s\<lparr>gv_untallied := bt_insert (p, se_show_id (ge_stake env) i, nf) (i, tally_of v (ucast unbonded)) (gv_untallied s)\<rparr>"

definition nullify :: "u8 list \<Rightarrow> gov_state \<Rightarrow> gov_state result" where
  "nullify nf s = and_then (expect (get_block_height (gv_stake s))) (\<lambda>h. Inr (s\<lparr>gv_spent := (gv_spent s)(nf \<mapsto> h)\<rparr>))"

definition check_nullifier_unspent :: "u8 list \<Rightarrow> gov_state \<Rightarrow> unit result" where
  "check_nullifier_unspent nf s = ensure (gv_spent s nf = None) ''nullifier was already spent''"

text \<open>A new proposal takes a snapshot of the validators that are active at that moment.\<close>

definition snapshot_validator :: "stake_state \<Rightarrow> identity_key \<Rightarrow> (identity_key \<times> rate_data \<times> amount) option result" where
  "snapshot_validator k i =
     and_then (ok_or (sk_states k i) (Bail ''task panicked'')) (\<lambda>st.
     if st = VActive then
       and_then (ok_or (sk_rates k i) (Bail ''task panicked'')) (\<lambda>r.
       and_then (ok_or (sk_powers k i) (Bail ''task panicked'')) (\<lambda>pow. Inr (Some (i, r, pow))))
     else Inr None)"

definition record_snapshot :: "u64 \<Rightarrow> identity_key \<Rightarrow> gov_state \<Rightarrow> gov_state result" where
  "record_snapshot p i s =
     and_then (snapshot_validator (gv_stake s) i) (\<lambda>x.
     case x of
       None \<Rightarrow> Inr s
     | Some (i, r, pow) \<Rightarrow> Inr (s\<lparr>gv_rates_at_start := (gv_rates_at_start s)(p := (gv_rates_at_start s p)(i \<mapsto> r)),
         gv_powers_at_start := (gv_powers_at_start s)(p := bt_insert i pow (gv_powers_at_start s p))\<rparr>))"

definition new_proposal :: "proposal \<Rightarrow> gov_state \<Rightarrow> (u64 \<times> gov_state) result" where
  "new_proposal d s =
     (let p = next_proposal_id s in
      if p \<noteq> pr_id d then Inl (Bail ''proposal id does not match next proposal id'')
      else and_then (try_fold (record_snapshot p) (consensus_set (gv_stake s)) s) (\<lambda>s.
        Inr (p, s\<lparr>gv_next_id := Some (p + 1), gv_proposals := (gv_proposals s)(p \<mapsto> proposal_to_proto d)\<rparr>)))"

section \<open>The sweep of delegator votes\<close>

text \<open>
  The new tallies are collected before any of them is written. Each one starts from the tally in the store: the votes swept for the
  same validator and proposal replace each other.
\<close>

definition untallied_votes :: "u64 option \<Rightarrow> gov_state \<Rightarrow> ((u64 \<times> u8 list \<times> u8 list) \<times> identity_key \<times> vote_tally) list" where
  "untallied_votes just s = (case just of None \<Rightarrow> gv_untallied s | Some p \<Rightarrow> filter (\<lambda>((q, _), _). q = p) (gv_untallied s))"

fun collect_vote ::
  "gov_state \<Rightarrow> (u64 \<times> u8 list \<times> u8 list) \<times> identity_key \<times> vote_tally \<Rightarrow> (u64, (identity_key, vote_tally) btree) btree
    \<Rightarrow> (u64, (identity_key, vote_tally) btree) btree" where
  "collect_vote s ((p, _, _), i, t) new =
     (let current_tally = tally_add (get_or (bt_get (gv_tallied s p) i) no_votes) t
      in bt_insert p (bt_insert i current_tally (get_or (bt_get new p) [])) new)"

definition put_tally :: "u64 \<Rightarrow> identity_key \<times> vote_tally \<Rightarrow> gov_state \<Rightarrow> gov_state" where
  "put_tally p = (\<lambda>(i, t) s. s\<lparr>gv_tallied := (gv_tallied s)(p := bt_insert i t (gv_tallied s p))\<rparr>)"

definition tally_delegator_votes :: "u64 option \<Rightarrow> gov_state \<Rightarrow> gov_state" where
  "tally_delegator_votes just s =
     (let votes = untallied_votes just s;
          new_tallies = fold (collect_vote s) votes [];
          s = s\<lparr>gv_untallied := fold (\<lambda>(k, _). bt_remove k) votes (gv_untallied s)\<rparr>
      in fold (\<lambda>(p, ts). fold (put_tally p) ts) new_tallies s)"

section \<open>The current tally\<close>

definition tally_validator ::
  "identity_key \<times> u64 \<Rightarrow> (identity_key, vote) btree \<times> (identity_key, vote_tally) btree \<times> vote_tally
    \<Rightarrow> (identity_key, vote) btree \<times> (identity_key, vote_tally) btree \<times> vote_tally" where
  "tally_validator = (\<lambda>(i, pow) (votes, delegated, t).
     let delegator_tally = get_or (bt_get delegated i) no_votes;
         t = (case bt_get votes i of
                Some v \<Rightarrow> tally_add t (tally_of v (saturating_sub pow (tally_total delegator_tally)))
              | None \<Rightarrow> t)
     in (bt_remove i votes, bt_remove i delegated, tally_add t delegator_tally))"

definition current_tally :: "gov_state \<Rightarrow> u64 \<Rightarrow> vote_tally result" where
  "current_tally s p =
     (case fold tally_validator (powers_at_start s p) (gv_validator_votes s p, gv_tallied s p, no_votes) of
        (votes, delegated, t) \<Rightarrow> if votes \<noteq> [] then Inl Panic else if delegated \<noteq> [] then Inl Panic else Inr t)"

section \<open>Enactment\<close>

definition signal_upgrade :: "u64 \<Rightarrow> gov_state \<Rightarrow> gov_state" where
  "signal_upgrade h s = s\<lparr>gv_next_upgrade := Some h\<rparr>"

definition signal_halt :: "gov_state \<Rightarrow> gov_state" where
  "signal_halt s = s\<lparr>gv_halt_bit := Some True\<rparr>"

definition ready_to_start :: "gov_state \<Rightarrow> gov_state" where
  "ready_to_start s = s\<lparr>gv_halt_bit := Some False\<rparr>"

definition deliver_community_pool_transaction :: "u64 \<Rightarrow> gov_state \<Rightarrow> gov_state result" where
  "deliver_community_pool_transaction p s =
     and_then (get_block_height (gv_stake s)) (\<lambda>h.
     let at = h + 1 in Inr (s\<lparr>gv_deliveries := (gv_deliveries s)(at := bt_insert p p (gv_deliveries s at))\<rparr>))"

definition get_client_state :: "gov_state \<Rightarrow> string \<Rightarrow> u8 list result" where
  "get_client_state s c = ok_or (gv_clients s c) (Bail ''could not find client state'')"

definition put_client :: "string \<Rightarrow> u8 list \<Rightarrow> gov_state \<Rightarrow> gov_state" where
  "put_client c st s = s\<lparr>gv_clients := (gv_clients s)(c \<mapsto> st)\<rparr>"

definition change_client :: "gov_env \<Rightarrow> string \<Rightarrow> (u8 list \<Rightarrow> u8 list) \<Rightarrow> gov_state \<Rightarrow> gov_state result" where
  "change_client env c f s =
     and_then (ensure (ge_valid_client env c) ''invalid client id'') (\<lambda>_.
     and_then (get_client_state s c) (\<lambda>st. Inr (put_client c (f st) s)))"

text \<open>The inner result of the source is always \<open>Ok\<close>; the outer error is the one below.\<close>

fun enact_proposal :: "gov_env \<Rightarrow> u64 \<Rightarrow> proposal_payload \<Rightarrow> gov_state \<Rightarrow> gov_state result" where
  "enact_proposal env p (PSignaling _) s = Inr s"
| "enact_proposal env p (PEmergency halt_chain) s = Inr (if halt_chain then signal_halt s else s)"
| "enact_proposal env p (PParameterChange change) s =
     and_then (get_block_height (gv_stake s)) (\<lambda>h. Inr (s\<lparr>gv_param_changes := (gv_param_changes s)(h + 1 \<mapsto> change)\<rparr>))"
| "enact_proposal env p (PCommunityPoolSpend _) s = deliver_community_pool_transaction p s"
| "enact_proposal env p (PUpgradePlan height) s = Inr (signal_upgrade height s)"
| "enact_proposal env p (PFreezeIbcClient c) s = change_client env c (ge_freeze env) s"
| "enact_proposal env p (PUnfreezeIbcClient c) s = change_client env c (ge_unfreeze env) s"

end
