(* ===== verification/GovActions.thy ===== *)
theory GovActions
  imports GovState StakeBlocks
begin

text \<open>
  The operations of the governance component: the actions of proposers, validators and delegators (\<open>action_handler\<close>, and
  \<open>app/src/action_handler/actions/submit.rs\<close>) with the values they contribute to a transaction, and the hooks at the start and the end
  of a block (\<open>component.rs\<close>, \<open>app/src/app/mod.rs\<close>) with the steps they make.
\<close>

section \<open>Submitting a proposal\<close>

record proposal_submit =
  ps_proposal :: proposal
  ps_deposit :: amount

definition PROPOSAL_TITLE_LIMIT :: nat where
  "PROPOSAL_TITLE_LIMIT = 80"

definition PROPOSAL_DESCRIPTION_LIMIT :: nat where
  "PROPOSAL_DESCRIPTION_LIMIT = 10000"

fun plan_action_allowed :: "action_plan \<Rightarrow> bool" where
  "plan_action_allowed PlSpend = False"
| "plan_action_allowed PlOutput = False"
| "plan_action_allowed PlSwap = False"
| "plan_action_allowed PlSwapClaim = False"
| "plan_action_allowed PlDelegatorVote = False"
| "plan_action_allowed PlUndelegateClaim = False"
| "plan_action_allowed PlDelegate = False"
| "plan_action_allowed PlUndelegate = False"
| "plan_action_allowed PlProposalSubmit = False"
| "plan_action_allowed PlProposalWithdraw = False"
| "plan_action_allowed PlProposalDepositClaim = False"
| "plan_action_allowed _ = True"

fun payload_check_stateless :: "gov_env \<Rightarrow> proposal_payload \<Rightarrow> unit result" where
  "payload_check_stateless env (PCommunityPoolSpend plan) =
     and_then (ok_or (ge_decode_plan env plan) (Bail ''transaction plan was malformed'')) (\<lambda>actions.
     ensure (list_all plan_action_allowed actions) ''invalid action in Community Pool spend proposal'')"
| "payload_check_stateless env (PFreezeIbcClient c) = ensure (ge_valid_client env c) ''invalid client id''"
| "payload_check_stateless env (PUnfreezeIbcClient c) = ensure (ge_valid_client env c) ''invalid client id''"
| "payload_check_stateless env _ = Inr ()"

definition submit_check_stateless :: "gov_env \<Rightarrow> proposal_submit \<Rightarrow> unit result" where
  "submit_check_stateless env a =
     (if length (pr_title (ps_proposal a)) > PROPOSAL_TITLE_LIMIT then Inl (Bail ''proposal title too long'')
      else if length (pr_description (ps_proposal a)) > PROPOSAL_DESCRIPTION_LIMIT then Inl (Bail ''proposal description too long'')
      else payload_check_stateless env (pr_payload (ps_proposal a)))"

definition build_community_pool_transaction :: "gov_env \<Rightarrow> u8 list \<Rightarrow> u8 list result" where
  "build_community_pool_transaction env plan =
     and_then (ok_or (ge_decode_plan env plan) (Bail ''transaction plan was malformed'')) (\<lambda>_.
     ok_or (ge_build_plan env plan) (Bail ''failed to build submitted Community Pool spend transaction plan''))"

fun payload_check :: "gov_env \<Rightarrow> gov_state \<Rightarrow> proposal_payload \<Rightarrow> unit result" where
  "payload_check env s (PParameterChange change) =
     and_then (get_governance_params s) (\<lambda>params.
     ensure (ge_apply_change env change (params, gv_other_params s) \<noteq> None) ''proposed parameter changes do not apply to current parameters'')"
| "payload_check env s (PCommunityPoolSpend plan) =
     and_then (ensure (ge_spends_enabled env (gv_other_params s)) ''Community Pool spend proposals are not enabled'') (\<lambda>_.
     and_then (build_community_pool_transaction env plan) (\<lambda>tx.
     ensure (ge_check_built env tx) ''submitted Community Pool spend transaction failed stateless checks''))"
| "payload_check env s (PFreezeIbcClient c) =
     and_then (ensure (ge_valid_client env c) ''invalid client id'') (\<lambda>_. and_then (get_client_state s c) (\<lambda>_. Inr ()))"
| "payload_check env s (PUnfreezeIbcClient c) =
     and_then (ensure (ge_valid_client env c) ''invalid client id'') (\<lambda>_. and_then (get_client_state s c) (\<lambda>_. Inr ()))"
| "payload_check env s _ = Inr ()"

fun cache_transaction :: "gov_env \<Rightarrow> proposal \<Rightarrow> proposal_payload \<Rightarrow> gov_state \<Rightarrow> gov_state result" where
  "cache_transaction env d (PCommunityPoolSpend plan) s =
     and_then (build_community_pool_transaction env plan) (\<lambda>tx. Inr (s\<lparr>gv_transactions := (gv_transactions s)(pr_id d \<mapsto> tx)\<rparr>))"
| "cache_transaction env d _ s = Inr s"

definition receipt_denom :: "u64 \<Rightarrow> string" where
  "receipt_denom p = ''uvoted_on_'' @ show_u64 p"

definition register_denom :: "string \<Rightarrow> gov_state \<Rightarrow> gov_state" where
  "register_denom d s = s\<lparr>gv_denoms := insert d (gv_denoms s)\<rparr>"

text \<open>Voting starts at once; the start is rounded down to the first position of the block.\<close>

definition start_voting :: "u64 \<Rightarrow> amount \<Rightarrow> gov_state \<Rightarrow> gov_state result" where
  "start_voting p deposit s =
     (let s = s\<lparr>gv_deposits := (gv_deposits s)(p \<mapsto> deposit)\<rparr>;
          s = register_denom (nft_denom p NDeposit) s;
          s = register_denom (receipt_denom p) s;
          s = put_proposal_state p SVoting s
      in and_then (get_governance_params s) (\<lambda>params.
         and_then (get_block_height (gv_stake s)) (\<lambda>current_block.
         let s = s\<lparr>gv_start := (gv_start s)(p \<mapsto> current_block), gv_end := (gv_end s)(p \<mapsto> current_block + gp_voting_blocks params)\<rparr>
         in and_then (ok_or (gv_sct_position s) (Bail ''state commitment tree is full'')) (\<lambda>position.
         let start = \<lparr>ix_epoch = ix_epoch position, ix_block = ix_block position, ix_commitment = 0\<rparr>
         in Inr (s\<lparr>gv_start_position := (gv_start_position s)(p \<mapsto> tree_index_to_u64 start), gv_proposal_started := True\<rparr>)))))"

definition submit_check_and_execute :: "gov_env \<Rightarrow> proposal_submit \<Rightarrow> gov_state \<Rightarrow> gov_state result" where
  "submit_check_and_execute env a s =
     and_then (get_governance_params s) (\<lambda>params.
     if ps_deposit a \<noteq> gp_deposit_amount params then Inl (Bail ''submitted proposal deposit does not match required proposal deposit'')
     else if pr_id (ps_proposal a) \<noteq> next_proposal_id s then Inl (Bail ''submitted proposal ID does not match expected proposal ID'')
     else and_then (payload_check env s (pr_payload (ps_proposal a))) (\<lambda>_.
       and_then (cache_transaction env (ps_proposal a) (pr_payload (ps_proposal a)) s) (\<lambda>s.
       and_then (new_proposal (ps_proposal a) s) (\<lambda>(p, s). start_voting p (ps_deposit a) s))))"

section \<open>Withdrawing a proposal\<close>

record proposal_withdraw =
  pw_proposal :: u64
  pw_reason :: string

definition proposal_withdraw_check_stateless :: "proposal_withdraw \<Rightarrow> unit result" where
  "proposal_withdraw_check_stateless a = ensure (\<not> length (pw_reason a) > 80) ''proposal withdrawal reason too long''"

definition proposal_withdraw_check_and_execute :: "proposal_withdraw \<Rightarrow> gov_state \<Rightarrow> gov_state result" where
  "proposal_withdraw_check_and_execute a s =
     and_then (check_proposal_votable s (pw_proposal a)) (\<lambda>_.
     Inr (register_denom (nft_denom (pw_proposal a) NUnbondingDeposit) (put_proposal_state (pw_proposal a) (SWithdrawn (pw_reason a)) s)))"

section \<open>Votes\<close>

record validator_vote =
  vv_proposal :: u64
  vv_vote :: vote
  vv_identity :: identity_key
  vv_governance_key :: "u8 list"
  vv_reason :: string
  vv_auth_sig :: "u8 list"

definition validator_vote_check_stateless :: "gov_env \<Rightarrow> validator_vote \<Rightarrow> unit result" where
  "validator_vote_check_stateless env a =
     and_then (ensure (ge_verify_vote env (vv_governance_key a) (vv_proposal a) (vv_vote a) (vv_identity a) (vv_reason a) (vv_auth_sig a))
       ''validator vote signature failed to verify'') (\<lambda>_.
     ensure (\<not> length (vv_reason a) > MAX_VALIDATOR_VOTE_REASON_LENGTH) ''validator vote reason is too long'')"

text \<open>A proposal of an emergency kind is enacted as soon as a third of the power has voted for it.\<close>

definition try_emergency :: "gov_env \<Rightarrow> u64 \<Rightarrow> proposal_payload \<Rightarrow> gov_state \<Rightarrow> gov_state result" where
  "try_emergency env p payload s =
     (if is_emergency payload \<or> is_ibc_freeze payload then
        and_then (current_tally s p) (\<lambda>t.
        and_then (get_governance_params s) (\<lambda>params.
        if emergency_pass t (total_voting_power_at_proposal_start s p) params
        then and_then (enact_proposal env p payload s) (\<lambda>s. Inr (put_proposal_state p (SFinished OPassed) s))
        else Inr s))
      else Inr s)"

definition is_withdrawn :: "proposal_state \<Rightarrow> bool" where
  "is_withdrawn st = (case st of SWithdrawn _ \<Rightarrow> True | _ \<Rightarrow> False)"

definition validator_vote_check_and_execute :: "gov_env \<Rightarrow> validator_vote \<Rightarrow> gov_state \<Rightarrow> gov_state result" where
  "validator_vote_check_and_execute env a s =
     and_then (check_proposal_votable s (vv_proposal a)) (\<lambda>_.
     and_then (check_validator_active_at_proposal_start s (vv_proposal a) (vv_identity a)) (\<lambda>_.
     and_then (check_validator_has_not_voted s (vv_proposal a) (vv_identity a)) (\<lambda>_.
     and_then (check_governance_key_matches_validator s (vv_identity a) (vv_governance_key a)) (\<lambda>_.
     and_then (proposal_state_of s (vv_proposal a)) (\<lambda>st. and_then (expect_some st) (\<lambda>st.
     if is_withdrawn st then Inr s
     else let s = cast_validator_vote (vv_proposal a) (vv_identity a) (vv_vote a) (vv_reason a) s in
       and_then (proposal_payload_of env s (vv_proposal a)) (\<lambda>payload. and_then (expect_some payload) (\<lambda>payload.
       try_emergency env (vv_proposal a) payload s))))))))"

record delegator_vote =
  dv_proposal :: u64
  dv_start_position :: u64
  dv_vote :: vote
  dv_value :: asset_value
  dv_unbonded :: amount
  dv_nullifier :: "u8 list"
  dv_rk :: "u8 list"
  dv_auth_sig :: "u8 list"
  dv_proof :: "u8 list"

definition delegator_vote_check_stateless :: "gov_env \<Rightarrow> u8 list \<Rightarrow> u8 list \<Rightarrow> delegator_vote \<Rightarrow> unit result" where
  "delegator_vote_check_stateless env effect_hash anchor a =
     and_then (ensure (ge_verify_auth env (dv_rk a) effect_hash (dv_auth_sig a)) ''delegator vote auth signature failed to verify'') (\<lambda>_.
     ensure (ge_verify_proof env (dv_proof a) anchor (dv_value a) (dv_nullifier a) (dv_rk a) (dv_start_position a))
       ''a delegator vote proof did not verify'')"

definition delegator_vote_check_and_execute :: "gov_env \<Rightarrow> delegator_vote \<Rightarrow> gov_state \<Rightarrow> gov_state result" where
  "delegator_vote_check_and_execute env a s =
     and_then (check_proposal_votable s (dv_proposal a)) (\<lambda>_.
     and_then (check_proposal_started_at_position s (dv_proposal a) (dv_start_position a)) (\<lambda>_.
     and_then (check_nullifier_unspent_before_start_block_height s (dv_proposal a) (dv_nullifier a)) (\<lambda>_.
     and_then (check_nullifier_unvoted_for_proposal s (dv_proposal a) (dv_nullifier a)) (\<lambda>_.
     and_then (check_unbonded_amount_correct_exchange_for_proposal env s (dv_proposal a) (dv_value a) (dv_unbonded a)) (\<lambda>_.
     and_then (mark_nullifier_voted_on_proposal (dv_proposal a) (dv_nullifier a) s) (\<lambda>s.
     and_then (validator_by_delegation_asset env s (v_asset (dv_value a))) (\<lambda>i.
     Inr (cast_delegator_vote env (dv_proposal a) i (dv_vote a) (dv_nullifier a) (dv_unbonded a) s))))))))"

section \<open>Claiming the deposit\<close>

record deposit_claim =
  dc_proposal :: u64
  dc_deposit :: amount
  dc_outcome :: "unit proposal_outcome"

fun claimed_nft :: "'w proposal_outcome \<Rightarrow> nft_kind" where
  "claimed_nft OPassed = NPassed"
| "claimed_nft (OFailed _) = NFailed"
| "claimed_nft (OSlashed _) = NSlashed"

definition claim_check_and_execute :: "deposit_claim \<Rightarrow> gov_state \<Rightarrow> gov_state result" where
  "claim_check_and_execute a s =
     and_then (check_proposal_claimable s (dc_proposal a)) (\<lambda>_.
     and_then (check_proposal_claim_valid_deposit s (dc_proposal a) (dc_deposit a)) (\<lambda>_.
     and_then (proposal_state_of s (dc_proposal a)) (\<lambda>st.
     case st of
       Some (SFinished out) \<Rightarrow>
         if dc_outcome a \<noteq> outcome_map (\<lambda>_. ()) out then Inl (Bail ''deposit claim has another outcome'')
         else Inr (put_proposal_state (dc_proposal a) (SClaimed out) (register_denom (nft_denom (dc_proposal a) (claimed_nft out)) s))
     | _ \<Rightarrow> Inl (Bail ''proposal is not in finished state''))))"

section \<open>The values of the actions\<close>

definition nft_of :: "gov_env \<Rightarrow> u64 \<Rightarrow> nft_kind \<Rightarrow> asset_value" where
  "nft_of env p k = \<lparr>v_amount = 1, v_asset = ge_nft env p k\<rparr>"

definition deposit_value :: "gov_env \<Rightarrow> amount \<Rightarrow> asset_value" where
  "deposit_value env a = \<lparr>v_amount = a, v_asset = ge_staking_token env\<rparr>"

definition submit_balance :: "gov_env \<Rightarrow> proposal_submit \<Rightarrow> balance result" where
  "submit_balance env a =
     balance_sub (balance_from_value (nft_of env (pr_id (ps_proposal a)) NDeposit)) (balance_from_value (deposit_value env (ps_deposit a)))"

definition withdraw_balance :: "gov_env \<Rightarrow> proposal_withdraw \<Rightarrow> balance result" where
  "withdraw_balance env a =
     balance_sub (balance_from_value (nft_of env (pw_proposal a) NUnbondingDeposit)) (balance_from_value (nft_of env (pw_proposal a) NDeposit))"

fun consumed_nft :: "unit proposal_outcome \<Rightarrow> nft_kind" where
  "consumed_nft OPassed = NDeposit"
| "consumed_nft (OFailed NotWithdrawn) = NDeposit"
| "consumed_nft (OSlashed NotWithdrawn) = NDeposit"
| "consumed_nft (OFailed (WithReason _)) = NUnbondingDeposit"
| "consumed_nft (OSlashed (WithReason _)) = NUnbondingDeposit"

definition claim_balance :: "gov_env \<Rightarrow> deposit_claim \<Rightarrow> balance result" where
  "claim_balance env a =
     and_then (balance_sub (balance_from_value (nft_of env (dc_proposal a) (claimed_nft (dc_outcome a))))
       (balance_from_value (nft_of env (dc_proposal a) (consumed_nft (dc_outcome a))))) (\<lambda>b.
     if should_be_refunded (dc_outcome a) then balance_add b (balance_from_value (deposit_value env (dc_deposit a))) else Inr b)"

section \<open>Genesis and blocks\<close>

definition gov_init_chain :: "gov_params option \<Rightarrow> gov_state \<Rightarrow> gov_state" where
  "gov_init_chain g s = (case g of None \<Rightarrow> s | Some params \<Rightarrow> s\<lparr>gv_params := Some params, gv_next_id := Some 0\<rparr>)"

definition apply_param_changes :: "gov_env \<Rightarrow> u64 \<Rightarrow> gov_state \<Rightarrow> gov_state result" where
  "apply_param_changes env h s =
     (case gv_param_changes s h of
        None \<Rightarrow> Inr s
      | Some change \<Rightarrow> and_then (expect (get_governance_params s)) (\<lambda>params.
          case ge_apply_change env change (params, gv_other_params s) of
            Some (params, other) \<Rightarrow> Inr (s\<lparr>gv_params := Some params, gv_other_params := other\<rparr>)
          | None \<Rightarrow> Inr s))"

fun collect_transactions :: "gov_state \<Rightarrow> u64 list \<Rightarrow> u8 list list result" where
  "collect_transactions s [] = Inr []"
| "collect_transactions s (p # ps) =
     and_then (ok_or (gv_transactions s p) (Bail ''no transaction found for proposal'')) (\<lambda>tx.
     and_then (collect_transactions s ps) (\<lambda>txs. Inr (tx # txs)))"

definition pending_community_pool_transactions :: "gov_state \<Rightarrow> u8 list list result" where
  "pending_community_pool_transactions s =
     and_then (get_block_height (gv_stake s)) (\<lambda>h. collect_transactions s (map snd (gv_deliveries s h)))"

definition gov_begin_block ::
  "gov_env \<Rightarrow> u64 \<Rightarrow> comet_address list \<Rightarrow> (comet_address \<times> bool) list \<Rightarrow> gov_state \<Rightarrow> (u8 list list \<times> gov_state) result" where
  "gov_begin_block env h evidence votes s =
     and_then (apply_param_changes env h s) (\<lambda>s.
     and_then (stake_begin_block (ge_stake env) evidence votes (sct_begin_block h (gv_stake s))) (\<lambda>k.
     let s = s\<lparr>gv_stake := k\<rparr> in
     and_then (expect (pending_community_pool_transactions s)) (\<lambda>txs. Inr (txs, s))))"

definition conclude_voting :: "gov_env \<Rightarrow> u64 \<Rightarrow> gov_state \<Rightarrow> (string proposal_outcome \<times> gov_state) result" where
  "conclude_voting env p s =
     and_then (current_tally s p) (\<lambda>t.
     and_then (get_governance_params s) (\<lambda>params.
     let verdict = outcome t (total_voting_power_at_proposal_start s p) params in
     and_then (if verdict = TPass
       then and_then (proposal_payload_of env s p) (\<lambda>payload.
            and_then (ok_or payload (Bail ''proposal has payload'')) (\<lambda>payload. enact_proposal env p payload s))
       else Inr s) (\<lambda>s.
     and_then (proposal_definition env s p) (\<lambda>d.
     and_then (ok_or d (Bail ''proposal does not exist'')) (\<lambda>_.
     Inr (outcome_of_tally verdict, s))))))"

definition conclude_proposal :: "gov_env \<Rightarrow> u64 \<Rightarrow> gov_state \<Rightarrow> gov_state result" where
  "conclude_proposal env p s =
     and_then (expect (get_block_height (gv_stake s))) (\<lambda>h.
     and_then (ok_or (gv_end s p) (Bail ''proposal has voting end'')) (\<lambda>voting_end.
     if \<not> h \<ge> voting_end then Inr s
     else let s = tally_delegator_votes (Some p) s in
       and_then (proposal_state_of s p) (\<lambda>st.
       and_then (ok_or st (Bail ''proposal has id'')) (\<lambda>st.
       and_then (case st of
           SVoting \<Rightarrow> conclude_voting env p s
         | SWithdrawn reason \<Rightarrow> Inr (OFailed (WithReason reason), s)
         | SFinished _ \<Rightarrow> Inl (Bail ''proposal is already finished'')
         | SClaimed _ \<Rightarrow> Inl (Bail ''proposal is already claimed'')) (\<lambda>(out, s).
       Inr (put_proposal_state p (SFinished out) s))))))"

definition enact_all_passed_proposals :: "gov_env \<Rightarrow> gov_state \<Rightarrow> gov_state result" where
  "enact_all_passed_proposals env s = try_fold (conclude_proposal env) (unfinished_proposals s) s"

definition gov_end_block :: "gov_env \<Rightarrow> gov_state \<Rightarrow> gov_state result" where
  "gov_end_block env s = expect (enact_all_passed_proposals env s)"

definition gov_end_epoch :: "gov_state \<Rightarrow> gov_state" where
  "gov_end_epoch s = tally_delegator_votes None s"

text \<open>The block of the application: governance before staking, and the epoch ends early when an upgrade follows.\<close>

definition epoch_is_ending :: "gov_state \<Rightarrow> bool result" where
  "epoch_is_ending s =
     and_then (expect (get_block_height (gv_stake s))) (\<lambda>h.
     and_then (expect (get_current_epoch (gv_stake s))) (\<lambda>e.
     and_then (expect_some (sk_epoch_duration (gv_stake s))) (\<lambda>duration.
     Inr (is_scheduled_epoch_end e h duration \<or> sk_end_epoch_early (gv_stake s)))))"

definition gov_app_end_block :: "gov_env \<Rightarrow> u64 \<Rightarrow> amount \<Rightarrow> gov_state \<Rightarrow> gov_state result" where
  "gov_app_end_block env height issuance s =
     and_then (gov_end_block env s) (\<lambda>s.
     and_then (epoch_is_ending s) (\<lambda>ending.
     and_then (expect (is_pre_upgrade_height s)) (\<lambda>upgrade.
     let s = (if ending \<or> upgrade then gov_end_epoch s else s) in
     and_then (app_end_block (ge_stake env) height issuance upgrade (gv_stake s)) (\<lambda>k.
     Inr (s\<lparr>gv_stake := k\<rparr>)))))"

definition gov_commit :: "gov_state \<Rightarrow> (bool \<times> gov_state) result" where
  "gov_commit s =
     (let should_halt = is_chain_halted s in
      and_then (expect (is_pre_upgrade_height s)) (\<lambda>upgrade.
      let s = (if upgrade then signal_halt s else s)
      in Inr (should_halt \<or> upgrade, s\<lparr>gv_stake := app_commit (gv_stake s), gv_proposal_started := False\<rparr>)))"

section \<open>Steps\<close>

text \<open>
  The actions of a transaction come decoded: the payload of a proposal satisfies the checks of its \<open>TryFrom\<close>. The staking events
  other than the hooks act on the staking store only. The tree grows and clients are added or updated by components that are not modelled; no component removes a client.
\<close>

datatype gov_event =
    GBegin u64 "comet_address list" "(comet_address \<times> bool) list"
  | GStaking stake_event
  | GSubmit proposal_submit
  | GWithdraw proposal_withdraw
  | GValidatorVote validator_vote
  | GDelegatorVote delegator_vote
  | GClaim deposit_claim
  | GSpend "u8 list"
  | GTree "tree_index option"
  | GClient string "u8 list"
  | GEnd amount
  | GCommit

fun is_hook :: "stake_event \<Rightarrow> bool" where
  "is_hook (BeginBlock _ _ _) = True"
| "is_hook (EndBlock _ _) = True"
| "is_hook Commit = True"
| "is_hook _ = False"

inductive gov_step :: "gov_env \<Rightarrow> gov_event \<Rightarrow> gov_state \<Rightarrow> gov_state \<Rightarrow> bool" for env where
  beginning: "gov_begin_block env h evidence votes s = Inr (txs, t) \<Longrightarrow> gov_step env (GBegin h evidence votes) s t"
| staking: "stake_step (ge_stake env) ev (gv_stake s) k \<Longrightarrow> \<not> is_hook ev \<Longrightarrow> gov_step env (GStaking ev) s (s\<lparr>gv_stake := k\<rparr>)"
| submitting: "proposal_from_proto (ge_valid_client env) m = Inr (ps_proposal a) \<Longrightarrow> submit_check_stateless env a = Inr ()
    \<Longrightarrow> submit_check_and_execute env a s = Inr t \<Longrightarrow> gov_step env (GSubmit a) s t"
| withdrawing: "proposal_withdraw_check_stateless a = Inr () \<Longrightarrow> proposal_withdraw_check_and_execute a s = Inr t \<Longrightarrow> gov_step env (GWithdraw a) s t"
| validator_voting: "validator_vote_check_stateless env a = Inr () \<Longrightarrow> validator_vote_check_and_execute env a s = Inr t
    \<Longrightarrow> gov_step env (GValidatorVote a) s t"
| delegator_voting: "delegator_vote_check_stateless env effect_hash anchor a = Inr () \<Longrightarrow> delegator_vote_check_and_execute env a s = Inr t
    \<Longrightarrow> gov_step env (GDelegatorVote a) s t"
| claiming: "claim_check_and_execute a s = Inr t \<Longrightarrow> gov_step env (GClaim a) s t"
| spending: "check_nullifier_unspent nf s = Inr () \<Longrightarrow> nullify nf s = Inr t \<Longrightarrow> gov_step env (GSpend nf) s t"
| tree: "gov_step env (GTree position) s (s\<lparr>gv_sct_position := position\<rparr>)"
| client: "gov_step env (GClient c st) s (put_client c st s)"
| ending: "sk_height (gv_stake s) = Some h \<Longrightarrow> gov_app_end_block env h issuance s = Inr t \<Longrightarrow> gov_step env (GEnd issuance) s t"
| commit: "gov_commit s = Inr (halt, t) \<Longrightarrow> gov_step env GCommit s t"

inductive_cases gov_stepE: "gov_step env ev s t"

end
