(* ===== verification/GovTally.thy ===== *)
theory GovTally
  imports GovActions
begin

text \<open>
  What the sweep of delegator votes writes and what a tally counts: the sweep replaces the votes it should add up, and the
  current tally is the sum of the contributions of the validators of the snapshot.
\<close>

section \<open>Tallies\<close>

lemma tally_add_ac: "tally_add (tally_add a b) c = tally_add a (tally_add b c)" "tally_add a b = tally_add b a"
  by (simp_all add: tally_add_def ac_simps)

lemma tally_add_none [simp]: "tally_add a no_votes = a" "tally_add no_votes a = a"
  by (simp_all add: tally_add_def no_votes_def)

lemma tally_of_total: "tally_total (tally_of v w) = w"
  by (cases v) (simp_all add: tally_total_def no_votes_def)

lemma tally_total_add: "tally_total (tally_add a b) = tally_total a + tally_total b"
  by (simp add: tally_total_def tally_add_def)

section \<open>The sweep\<close>

definition lookup_new :: "(u64, (identity_key, vote_tally) btree) btree \<Rightarrow> u64 \<Rightarrow> identity_key \<Rightarrow> vote_tally option" where
  "lookup_new new p i = bt_get (get_or (bt_get new p) []) i"

definition new_ok :: "(u64, (identity_key, vote_tally) btree) btree \<Rightarrow> bool" where
  "new_ok new \<longleftrightarrow> bt_wf new \<and> (\<forall>p ts. bt_get new p = Some ts \<longrightarrow> bt_wf ts)"

text \<open>The votes for a validator and proposal, in the order of the sweep.\<close>

definition swept_for :: "u64 \<Rightarrow> identity_key \<Rightarrow> ((u64 \<times> u8 list \<times> u8 list) \<times> identity_key \<times> vote_tally) list \<Rightarrow> vote_tally list" where
  "swept_for p i votes = map (snd \<circ> snd) (filter (\<lambda>((q, _), j, _). q = p \<and> j = i) votes)"

lemma swept_snoc:
  "swept_for p i (votes @ [((q, r), j, t)]) = swept_for p i votes @ (if q = p \<and> j = i then [t] else [])"
  by (simp add: swept_for_def)

lemma collect_one:
  assumes "new_ok new"
  shows "new_ok (collect_vote s ((q, r), j, t) new)"
    and "lookup_new (collect_vote s ((q, r), j, t) new) p i
      = (if q = p \<and> j = i then Some (tally_add (get_or (bt_get (gv_tallied s p) i) no_votes) t) else lookup_new new p i)"
proof -
  obtain a b where r: "r = (a, b)" by (cases r)
  have wf: "bt_wf new" "bt_wf (get_or (bt_get new q) [])"
    using assms by (cases "bt_get new q"; simp add: new_ok_def)+
  then show "new_ok (collect_vote s ((q, r), j, t) new)" using assms by (auto simp: new_ok_def r Let_def)
  show "lookup_new (collect_vote s ((q, r), j, t) new) p i
      = (if q = p \<and> j = i then Some (tally_add (get_or (bt_get (gv_tallied s p) i) no_votes) t) else lookup_new new p i)"
    using wf by (auto simp: lookup_new_def r Let_def)
qed

lemma collect_votes:
  "new_ok (fold (collect_vote s) votes []) \<and> (\<forall>p i. lookup_new (fold (collect_vote s) votes []) p i
     = (case swept_for p i votes of [] \<Rightarrow> None | ts \<Rightarrow> Some (tally_add (get_or (bt_get (gv_tallied s p) i) no_votes) (last ts))))"
proof (induction votes rule: rev_induct)
  case Nil
  show ?case by (simp add: new_ok_def lookup_new_def swept_for_def bt_get_def)
next
  case (snoc v votes)
  obtain q r j t where v: "v = ((q, r), j, t)" by (metis prod.exhaust)
  let ?new = "fold (collect_vote s) votes []"
  have ok: "new_ok ?new" using snoc.IH by simp
  have step: "fold (collect_vote s) (votes @ [v]) [] = collect_vote s ((q, r), j, t) ?new" by (simp add: v)
  show ?case
  proof (intro conjI allI)
    show "new_ok (fold (collect_vote s) (votes @ [v]) [])" using collect_one(1) [OF ok] by (simp only: step)
  next
    fix p i
    show "lookup_new (fold (collect_vote s) (votes @ [v]) []) p i = (case swept_for p i (votes @ [v]) of [] \<Rightarrow> None
       | ts \<Rightarrow> Some (tally_add (get_or (bt_get (gv_tallied s p) i) no_votes) (last ts)))"
    proof (cases "q = p \<and> j = i")
      case True
      moreover have "swept_for p i (votes @ [v]) = swept_for p i votes @ [t]" using True by (simp add: v swept_snoc)
      moreover have "(case xs @ [t] of [] \<Rightarrow> None | ts \<Rightarrow> Some (tally_add a (last ts))) = Some (tally_add a t)" for xs a by (cases xs) simp_all
      ultimately show ?thesis unfolding step collect_one(2) [OF ok] by (simp only: simp_thms if_True)
    next
      case False
      then have "swept_for p i (votes @ [v]) = swept_for p i votes" by (auto simp: v swept_snoc)
      then show ?thesis unfolding step collect_one(2) [OF ok] using False snoc.IH by (simp only: if_False)
    qed
  qed
qed

lemma put_tally_fields:
  "gv_tallied (put_tally p (i, t) s) = (gv_tallied s)(p := bt_insert i t (gv_tallied s p))"
  "put_tally p (i, t) s = s\<lparr>gv_tallied := gv_tallied (put_tally p (i, t) s)\<rparr>"
  by (simp_all add: put_tally_def)

lemma put_tallies:
  assumes "bt_wf ts" "\<And>q. bt_wf (gv_tallied s q)"
  shows "fold (put_tally p) ts s = s\<lparr>gv_tallied := gv_tallied (fold (put_tally p) ts s)\<rparr> \<and> (\<forall>q. bt_wf (gv_tallied (fold (put_tally p) ts s) q))
    \<and> (\<forall>q i. bt_get (gv_tallied (fold (put_tally p) ts s) q) i
        = (if q = p then (case bt_get ts i of Some t \<Rightarrow> Some t | None \<Rightarrow> bt_get (gv_tallied s q) i) else bt_get (gv_tallied s q) i))"
  using assms
proof (induction ts arbitrary: s)
  case Nil
  then show ?case by (simp add: bt_get_def)
next
  case (Cons x ts)
  obtain j t where x: "x = (j, t)" by (cases x)
  let ?u = "put_tally p (j, t) s"
  have wf: "bt_wf ts" "bt_get ts j = None"
    using Cons.prems(1) by (auto simp: x bt_wf_Cons bt_get_def map_of_eq_None_iff)
  have u: "bt_wf (gv_tallied ?u q)" for q using Cons.prems(2) by (simp add: put_tally_fields(1))
  note IH = Cons.IH [OF wf(1) u]
  have step: "fold (put_tally p) (x # ts) s = fold (put_tally p) ts ?u" by (simp add: x)
  show ?case
    unfolding step
  proof (intro conjI allI)
    show "fold (put_tally p) ts ?u = s\<lparr>gv_tallied := gv_tallied (fold (put_tally p) ts ?u)\<rparr>"
    proof -
      have "fold (put_tally p) ts ?u = ?u\<lparr>gv_tallied := gv_tallied (fold (put_tally p) ts ?u)\<rparr>" using IH by blast
      also have "\<dots> = s\<lparr>gv_tallied := gv_tallied (fold (put_tally p) ts ?u)\<rparr>" by (subst put_tally_fields(2)) simp
      finally show ?thesis .
    qed
  next
    fix q show "bt_wf (gv_tallied (fold (put_tally p) ts ?u) q)" using IH by blast
  next
    fix q i
    show "bt_get (gv_tallied (fold (put_tally p) ts ?u) q) i
        = (if q = p then (case bt_get (x # ts) i of Some t \<Rightarrow> Some t | None \<Rightarrow> bt_get (gv_tallied s q) i) else bt_get (gv_tallied s q) i)"
    proof -
      have "bt_get (gv_tallied (fold (put_tally p) ts ?u) q) i
        = (if q = p then (case bt_get ts i of Some t \<Rightarrow> Some t | None \<Rightarrow> bt_get (gv_tallied ?u q) i) else bt_get (gv_tallied ?u q) i)"
        using IH by blast
      moreover have "bt_get (gv_tallied ?u q) i = (if q = p \<and> i = j then Some t else bt_get (gv_tallied s q) i)"
        using Cons.prems(2) [of p] by (simp add: put_tally_fields(1))
      moreover have "bt_get (x # ts) i = (if i = j then Some t else bt_get ts i)" by (simp add: x bt_get_def)
      ultimately show ?thesis using wf(2) by (cases "q = p"; cases "i = j"; cases "bt_get ts i") simp_all
    qed
  qed
qed

lemma put_all_tallies:
  assumes "bt_wf new" "\<And>p ts. (p, ts) \<in> set new \<Longrightarrow> bt_wf ts" "\<And>q. bt_wf (gv_tallied s q)"
  shows "fold (\<lambda>(p, ts). fold (put_tally p) ts) new s = s\<lparr>gv_tallied := gv_tallied (fold (\<lambda>(p, ts). fold (put_tally p) ts) new s)\<rparr>
    \<and> (\<forall>q. bt_wf (gv_tallied (fold (\<lambda>(p, ts). fold (put_tally p) ts) new s) q))
    \<and> (\<forall>q i. bt_get (gv_tallied (fold (\<lambda>(p, ts). fold (put_tally p) ts) new s) q) i
        = (case lookup_new new q i of Some t \<Rightarrow> Some t | None \<Rightarrow> bt_get (gv_tallied s q) i))"
  using assms
proof (induction new arbitrary: s)
  case Nil
  then show ?case by (simp add: lookup_new_def bt_get_def)
next
  case (Cons x new)
  obtain p ts where x: "x = (p, ts)" by (cases x)
  let ?u = "fold (put_tally p) ts s" and ?go = "\<lambda>s. fold (\<lambda>(p, ts). fold (put_tally p) ts) new s"
  have ts: "bt_wf ts" "bt_wf new" "bt_get new p = None"
    using Cons.prems(1,2) by (auto simp: x bt_wf_Cons bt_get_def map_of_eq_None_iff)
  note U = put_tallies [OF ts(1) Cons.prems(3), where p = p]
  have IH: "?go ?u = ?u\<lparr>gv_tallied := gv_tallied (?go ?u)\<rparr> \<and> (\<forall>q. bt_wf (gv_tallied (?go ?u) q))
    \<and> (\<forall>q i. bt_get (gv_tallied (?go ?u) q) i = (case lookup_new new q i of Some t \<Rightarrow> Some t | None \<Rightarrow> bt_get (gv_tallied ?u q) i))"
    by (rule Cons.IH) (use ts Cons.prems(2) U in auto)
  have step: "fold (\<lambda>(p, ts). fold (put_tally p) ts) (x # new) s = ?go ?u" by (simp add: x)
  have look: "lookup_new (x # new) q i = (if q = p then bt_get ts i else lookup_new new q i)" for q i
    by (simp add: lookup_new_def x bt_get_def)
  have none: "lookup_new new p i = None" for i using ts(3) by (simp add: lookup_new_def bt_get_def)
  show ?case
    unfolding step
  proof (intro conjI allI)
    have "?go ?u = ?u\<lparr>gv_tallied := gv_tallied (?go ?u)\<rparr>" using IH by blast
    also have "\<dots> = s\<lparr>gv_tallied := gv_tallied (?go ?u)\<rparr>" by (subst conjunct1 [OF U]) simp
    finally show "?go ?u = s\<lparr>gv_tallied := gv_tallied (?go ?u)\<rparr>" .
  next
    fix q show "bt_wf (gv_tallied (?go ?u) q)" using IH by blast
  next
    fix q i
    have "bt_get (gv_tallied (?go ?u) q) i = (case lookup_new new q i of Some t \<Rightarrow> Some t | None \<Rightarrow> bt_get (gv_tallied ?u q) i)" using IH by blast
    moreover have "bt_get (gv_tallied ?u q) i = (if q = p then (case bt_get ts i of Some t \<Rightarrow> Some t | None \<Rightarrow> bt_get (gv_tallied s q) i) else bt_get (gv_tallied s q) i)"
      using U by blast
    ultimately show "bt_get (gv_tallied (?go ?u) q) i = (case lookup_new (x # new) q i of Some t \<Rightarrow> Some t | None \<Rightarrow> bt_get (gv_tallied s q) i)"
      unfolding look using none [of i] by (cases "q = p"; cases "lookup_new new q i") simp_all
  qed
qed

lemma remove_all:
  "bt_wf m \<Longrightarrow> bt_wf (fold (\<lambda>(k, _). bt_remove k) xs m)
    \<and> (\<forall>k. bt_get (fold (\<lambda>(k, _). bt_remove k) xs m) k = (if k \<in> fst ` set xs then None else bt_get m k))"
proof (induction xs arbitrary: m)
  case (Cons x xs)
  obtain k v where x: "x = (k, v)" by (cases x)
  have "bt_wf (bt_remove k m)" using Cons.prems by simp
  from Cons.IH [OF this] show ?case using Cons.prems by (simp add: x)
qed simp

text \<open>The whole sweep: every vote for the same validator and proposal but the last is lost.\<close>

definition after_sweep :: "gov_state \<Rightarrow> u64 option \<Rightarrow> u64 \<Rightarrow> identity_key \<Rightarrow> vote_tally option" where
  "after_sweep s just p i =
     (case swept_for p i (untallied_votes just s) of
        [] \<Rightarrow> bt_get (gv_tallied s p) i
      | ts \<Rightarrow> Some (tally_add (get_or (bt_get (gv_tallied s p) i) no_votes) (last ts)))"

lemma sweep_effect:
  fixes just :: "u64 option"
  assumes wf: "\<And>q. bt_wf (gv_tallied s q)" "bt_wf (gv_untallied s)"
  defines "t \<equiv> tally_delegator_votes just s"
  shows "t = s\<lparr>gv_untallied := gv_untallied t, gv_tallied := gv_tallied t\<rparr>"
    and "bt_wf (gv_tallied t q)" and "bt_get (gv_tallied t q) i = after_sweep s just q i"
    and "bt_wf (gv_untallied t)"
    and "bt_get (gv_untallied t) k = (if just = None \<or> just = Some (fst k) then None else bt_get (gv_untallied s) k)"
proof -
  let ?votes = "untallied_votes just s"
  let ?new = "fold (collect_vote s) ?votes []"
  let ?u = "s\<lparr>gv_untallied := fold (\<lambda>(k, _). bt_remove k) ?votes (gv_untallied s)\<rparr>"
  have t: "t = fold (\<lambda>(p, ts). fold (put_tally p) ts) ?new ?u" by (simp add: t_def tally_delegator_votes_def Let_def)
  have new: "bt_wf ?new" "\<And>p ts. (p, ts) \<in> set ?new \<Longrightarrow> bt_wf ts"
    and look: "\<And>p i. lookup_new ?new p i = (case swept_for p i ?votes of [] \<Rightarrow> None
        | ts \<Rightarrow> Some (tally_add (get_or (bt_get (gv_tallied s p) i) no_votes) (last ts)))"
  proof -
    show 1: "bt_wf ?new" using collect_votes [of s ?votes] by (simp add: new_ok_def)
    show "bt_wf ts" if "(p, ts) \<in> set ?new" for p ts
    proof -
      have "bt_get ?new p = Some ts" using 1 that by (simp add: bt_get_def bt_wf_def strict_sorted_iff)
      then show ?thesis using collect_votes [of s ?votes] by (simp add: new_ok_def)
    qed
    show "lookup_new ?new p i = (case swept_for p i ?votes of [] \<Rightarrow> None
        | ts \<Rightarrow> Some (tally_add (get_or (bt_get (gv_tallied s p) i) no_votes) (last ts)))" for p i
      using collect_votes [of s ?votes] by blast
  qed
  have wfu: "\<And>q. bt_wf (gv_tallied ?u q)" using wf(1) by simp
  have all': "t = ?u\<lparr>gv_tallied := gv_tallied t\<rparr> \<and> (\<forall>q. bt_wf (gv_tallied t q))
    \<and> (\<forall>q i. bt_get (gv_tallied t q) i = (case lookup_new ?new q i of Some x \<Rightarrow> Some x | None \<Rightarrow> bt_get (gv_tallied ?u q) i))"
    unfolding t by (rule put_all_tallies [OF new(1) new(2) wfu])
  have all: "t = ?u\<lparr>gv_tallied := gv_tallied t\<rparr>" "\<And>q. bt_wf (gv_tallied t q)"
    "\<And>q i. bt_get (gv_tallied t q) i = (case lookup_new ?new q i of Some x \<Rightarrow> Some x | None \<Rightarrow> bt_get (gv_tallied s q) i)"
    subgoal using all' by blast
    subgoal using all' by blast
    subgoal for q i using conjunct2 [OF conjunct2 [OF all'], rule_format, of q i] by (simp cong: option.case_cong)
    done
  have un: "gv_untallied t = fold (\<lambda>(k, _). bt_remove k) ?votes (gv_untallied s)"
    by (subst all(1)) simp
  show "t = s\<lparr>gv_untallied := gv_untallied t, gv_tallied := gv_tallied t\<rparr>" unfolding un using all(1) by simp
  show "bt_wf (gv_tallied t q)" by (rule all(2))
  show "bt_get (gv_tallied t q) i = after_sweep s just q i"
    unfolding all(3) look after_sweep_def by (cases "swept_for q i ?votes") simp_all
  have rm: "bt_wf (gv_untallied t)" "\<And>k. bt_get (gv_untallied t) k = (if k \<in> fst ` set ?votes then None else bt_get (gv_untallied s) k)"
    unfolding un using remove_all [OF wf(2)] by blast+
  show "bt_wf (gv_untallied t)" by (rule rm(1))
  have mem: "bt_get (gv_untallied s) k = None" if "k \<notin> fst ` set (gv_untallied s)" for k
    using that by (simp add: bt_get_def map_of_eq_None_iff)
  show "bt_get (gv_untallied t) k = (if just = None \<or> just = Some (fst k) then None else bt_get (gv_untallied s) k)"
  proof (cases just)
    case None
    then show ?thesis using mem [of k] by (simp add: rm(2) untallied_votes_def)
  next
    case (Some p)
    have "k \<in> fst ` set ?votes \<longleftrightarrow> fst k = p \<and> k \<in> fst ` set (gv_untallied s)"
      by (cases k) (force simp: untallied_votes_def Some)
    then show ?thesis using mem [of k] by (auto simp: rm(2) Some)
  qed
qed

section \<open>The current tally\<close>

text \<open>What a validator of the snapshot contributes: its own vote with the power its delegators have not used, and their votes.\<close>

definition contribution :: "gov_state \<Rightarrow> u64 \<Rightarrow> identity_key \<times> u64 \<Rightarrow> vote_tally" where
  "contribution s p = (\<lambda>(i, pow).
     let delegated = get_or (bt_get (gv_tallied s p) i) no_votes
     in tally_add (case bt_get (gv_validator_votes s p) i of
          Some v \<Rightarrow> tally_of v (saturating_sub pow (tally_total delegated)) | None \<Rightarrow> no_votes) delegated)"

definition sum_tallies :: "vote_tally list \<Rightarrow> vote_tally" where
  "sum_tallies ts = foldr tally_add ts no_votes"

lemma tally_validators:
  assumes "distinct (map fst ps)" "bt_wf votes" "bt_wf delegated"
    and "\<And>i pow. (i, pow) \<in> set ps \<Longrightarrow> bt_get votes i = bt_get (gv_validator_votes s p) i \<and> bt_get delegated i = bt_get (gv_tallied s p) i"
  shows "\<exists>votes' delegated'. fold tally_validator ps (votes, delegated, t) = (votes', delegated', tally_add t (sum_tallies (map (contribution s p) ps)))
    \<and> bt_wf votes' \<and> bt_wf delegated' \<and> (\<forall>i. bt_get votes' i = (if i \<in> fst ` set ps then None else bt_get votes i))
    \<and> (\<forall>i. bt_get delegated' i = (if i \<in> fst ` set ps then None else bt_get delegated i))"
  using assms
proof (induction ps arbitrary: votes delegated t)
  case Nil
  then show ?case by (simp add: sum_tallies_def)
next
  case (Cons x ps)
  obtain i pow where x: "x = (i, pow)" by (cases x)
  have here: "bt_get votes i = bt_get (gv_validator_votes s p) i" "bt_get delegated i = bt_get (gv_tallied s p) i"
    using Cons.prems(4) [of i pow] by (simp_all add: x)
  have step: "tally_validator x (votes, delegated, t) = (bt_remove i votes, bt_remove i delegated, tally_add t (contribution s p x))"
    by (simp add: tally_validator_def contribution_def x here Let_def tally_add_ac(1) split: option.splits)
  have rest: "\<And>j w. (j, w) \<in> set ps \<Longrightarrow> bt_get (bt_remove i votes) j = bt_get (gv_validator_votes s p) j
      \<and> bt_get (bt_remove i delegated) j = bt_get (gv_tallied s p) j"
  proof -
    fix j w assume j: "(j, w) \<in> set ps"
    then have "j \<noteq> i" using Cons.prems(1) by (force simp: x)
    then show "bt_get (bt_remove i votes) j = bt_get (gv_validator_votes s p) j \<and> bt_get (bt_remove i delegated) j = bt_get (gv_tallied s p) j"
      using Cons.prems(2,3) Cons.prems(4) [of j w] j by simp
  qed
  have wf: "distinct (map fst ps)" "bt_wf (bt_remove i votes)" "bt_wf (bt_remove i delegated)" using Cons.prems(1-3) by simp_all
  have "\<exists>votes' delegated'. fold tally_validator ps (bt_remove i votes, bt_remove i delegated, tally_add t (contribution s p x))
       = (votes', delegated', tally_add (tally_add t (contribution s p x)) (sum_tallies (map (contribution s p) ps)))
    \<and> bt_wf votes' \<and> bt_wf delegated' \<and> (\<forall>j. bt_get votes' j = (if j \<in> fst ` set ps then None else bt_get (bt_remove i votes) j))
    \<and> (\<forall>j. bt_get delegated' j = (if j \<in> fst ` set ps then None else bt_get (bt_remove i delegated) j))"
    by (rule Cons.IH [OF wf rest])
  then obtain votes' delegated' where
    *: "fold tally_validator ps (bt_remove i votes, bt_remove i delegated, tally_add t (contribution s p x))
       = (votes', delegated', tally_add (tally_add t (contribution s p x)) (sum_tallies (map (contribution s p) ps)))"
      "bt_wf votes'" "bt_wf delegated'" "\<forall>j. bt_get votes' j = (if j \<in> fst ` set ps then None else bt_get (bt_remove i votes) j)"
      "\<forall>j. bt_get delegated' j = (if j \<in> fst ` set ps then None else bt_get (bt_remove i delegated) j)" by blast
  have "fold tally_validator (x # ps) (votes, delegated, t) = (votes', delegated', tally_add t (sum_tallies (map (contribution s p) (x # ps))))"
    using *(1) step by (simp add: sum_tallies_def tally_add_ac(1))
  then show ?case using *(2-5) Cons.prems(2,3) by (intro exI [of _ votes'] exI [of _ delegated']) (auto simp: x)
qed

definition voters_ok :: "gov_state \<Rightarrow> u64 \<Rightarrow> bool" where
  "voters_ok s p \<longleftrightarrow> bt_wf (gv_powers_at_start s p) \<and> bt_wf (gv_validator_votes s p) \<and> bt_wf (gv_tallied s p)
     \<and> fst ` set (gv_validator_votes s p) \<subseteq> fst ` set (gv_powers_at_start s p)
     \<and> fst ` set (gv_tallied s p) \<subseteq> fst ` set (gv_powers_at_start s p)"

lemma powers_at_start_keys: "map fst (powers_at_start s p) = map fst (gv_powers_at_start s p)"
  by (simp add: powers_at_start_def case_prod_beta o_def)

lemma bt_empty: "(\<And>k. bt_get m k = None) \<Longrightarrow> m = []"
proof (cases m)
  case (Cons x m')
  assume none: "\<And>k. bt_get m k = None"
  have "bt_get m (fst x) \<noteq> None" by (cases x) (simp add: bt_get_def Cons)
  then show ?thesis using none by simp
qed

lemma bt_None: "k \<notin> fst ` set m \<Longrightarrow> bt_get m k = None"
  by (simp add: bt_get_def map_of_eq_None_iff)

lemma current_tally_sum:
  assumes "voters_ok s p"
  shows "current_tally s p = Inr (sum_tallies (map (contribution s p) (powers_at_start s p)))"
proof -
  let ?ps = "powers_at_start s p"
  have keys: "fst ` set ?ps = fst ` set (gv_powers_at_start s p)" using powers_at_start_keys [of s p] by (metis set_map)
  have d: "distinct (map fst ?ps)" unfolding powers_at_start_keys using assms by (simp add: voters_ok_def bt_wf_def strict_sorted_iff)
  note ok = assms [unfolded voters_ok_def]
  have "\<exists>votes' delegated'. fold tally_validator ?ps (gv_validator_votes s p, gv_tallied s p, no_votes)
      = (votes', delegated', tally_add no_votes (sum_tallies (map (contribution s p) ?ps))) \<and> bt_wf votes' \<and> bt_wf delegated'
    \<and> (\<forall>i. bt_get votes' i = (if i \<in> fst ` set ?ps then None else bt_get (gv_validator_votes s p) i))
    \<and> (\<forall>i. bt_get delegated' i = (if i \<in> fst ` set ?ps then None else bt_get (gv_tallied s p) i))"
    by (rule tally_validators [OF d]) (use ok in simp_all)
  then obtain votes' delegated' where *: "fold tally_validator ?ps (gv_validator_votes s p, gv_tallied s p, no_votes)
      = (votes', delegated', tally_add no_votes (sum_tallies (map (contribution s p) ?ps)))"
    "\<forall>i. bt_get votes' i = (if i \<in> fst ` set ?ps then None else bt_get (gv_validator_votes s p) i)"
    "\<forall>i. bt_get delegated' i = (if i \<in> fst ` set ?ps then None else bt_get (gv_tallied s p) i)" by blast
  have none: "bt_get votes' i = None" "bt_get delegated' i = None" for i
  proof -
    have sub: "fst ` set (gv_validator_votes s p) \<subseteq> fst ` set ?ps" "fst ` set (gv_tallied s p) \<subseteq> fst ` set ?ps" using ok keys by simp_all
    show "bt_get votes' i = None" using *(2) bt_None [of i "gv_validator_votes s p"] sub(1) by auto
    show "bt_get delegated' i = None" using *(3) bt_None [of i "gv_tallied s p"] sub(2) by auto
  qed
  have "votes' = []" by (rule bt_empty) (rule none(1))
  moreover have "delegated' = []" by (rule bt_empty) (rule none(2))
  ultimately show ?thesis using *(1) by (simp add: current_tally_def)
qed

end
