(* ===== verification/GovInvariant.thy ===== *)
theory GovInvariant
  imports GovTally
begin

text \<open>
  The invariant of the governance store, and how the store may evolve: what is fixed when a proposal starts, the votes, which are
  never withdrawn, and the edges of the state machine of a proposal. Each write of the component keeps both.
\<close>

section \<open>The invariant\<close>

definition known :: "gov_state \<Rightarrow> u64 \<Rightarrow> bool" where
  "known s p \<longleftrightarrow> p < next_proposal_id s"

fun open_state :: "proposal_state \<Rightarrow> bool" where
  "open_state SVoting = True"
| "open_state (SWithdrawn _) = True"
| "open_state _ = False"

text \<open>The states as they are read: a claimed proposal reads as finished. Reasons are short enough to be read.\<close>

fun state_reads :: "proposal_state \<Rightarrow> bool" where
  "state_reads SVoting = True"
| "state_reads (SWithdrawn reason) = (length reason \<le> MAX_VALIDATOR_VOTE_REASON_LENGTH)"
| "state_reads (SFinished out) = reason_fits out"
| "state_reads (SClaimed _) = False"

fun payload_ok :: "gov_env \<Rightarrow> u8 list option \<Rightarrow> (string \<Rightarrow> u8 list option) \<Rightarrow> proposal_payload \<Rightarrow> bool" where
  "payload_ok env tx clients (PCommunityPoolSpend _) = (tx \<noteq> None)"
| "payload_ok env tx clients (PFreezeIbcClient c) = (ge_valid_client env c \<and> clients c \<noteq> None)"
| "payload_ok env tx clients (PUnfreezeIbcClient c) = (ge_valid_client env c \<and> clients c \<noteq> None)"
| "payload_ok env tx clients _ = True"

definition stored_at :: "gov_env \<Rightarrow> gov_state \<Rightarrow> u64 \<Rightarrow> proposal_state \<Rightarrow> proposal \<Rightarrow> bool" where
  "stored_at env s p st d \<longleftrightarrow>
     gv_states s p = Some (proposal_state_to_proto st) \<and> state_reads st \<and> (bt_get (gv_unfinished s) p = Some () \<longleftrightarrow> open_state st)
     \<and> gv_proposals s p = Some (proposal_to_proto d) \<and> proposal_from_proto (ge_valid_client env) (proposal_to_proto d) = Inr d
     \<and> payload_ok env (gv_transactions s p) (gv_clients s) (pr_payload d)
     \<and> gv_end s p \<noteq> None \<and> gv_start s p \<noteq> None \<and> gv_deposits s p \<noteq> None \<and> gv_start_position s p \<noteq> None"

definition fresh :: "gov_state \<Rightarrow> u64 \<Rightarrow> bool" where
  "fresh s p \<longleftrightarrow> gv_states s p = None \<and> bt_get (gv_unfinished s) p = None \<and> gv_powers_at_start s p = [] \<and> gv_rates_at_start s p = (\<lambda>_. None)
     \<and> gv_validator_votes s p = [] \<and> gv_tallied s p = []"

definition untallied_ok :: "gov_env \<Rightarrow> gov_state \<Rightarrow> bool" where
  "untallied_ok env s \<longleftrightarrow> (\<forall>p k nf i t. bt_get (gv_untallied s) (p, k, nf) = Some (i, t)
     \<longrightarrow> k = se_show_id (ge_stake env) i \<and> i \<in> fst ` set (gv_powers_at_start s p) \<and> known s p \<and> gv_voted s p nf \<noteq> None)"

definition deliveries_ok :: "gov_state \<Rightarrow> bool" where
  "deliveries_ok s \<longleftrightarrow> (\<forall>h. bt_wf (gv_deliveries s h)) \<and> (\<forall>h p q. bt_get (gv_deliveries s h) p = Some q \<longrightarrow> gv_transactions s q \<noteq> None)"

definition rates_known :: "gov_state \<Rightarrow> bool" where
  "rates_known s \<longleftrightarrow> (\<forall>p i. gv_rates_at_start s p i \<noteq> None \<longleftrightarrow> i \<in> fst ` set (gv_powers_at_start s p))"

definition gov_inv :: "gov_env \<Rightarrow> gov_state \<Rightarrow> bool" where
  "gov_inv env s \<longleftrightarrow> good (ge_stake env) (gv_stake s) \<and> gv_params s \<noteq> None \<and> bt_wf (gv_unfinished s) \<and> bt_wf (gv_untallied s)
     \<and> (\<forall>p. voters_ok s p) \<and> (\<forall>p. \<not> known s p \<longrightarrow> fresh s p) \<and> (\<forall>p. known s p \<longrightarrow> (\<exists>st d. stored_at env s p st d))
     \<and> untallied_ok env s \<and> deliveries_ok s \<and> rates_known s"

lemmas gov_inv_defs = gov_inv_def voters_ok_def fresh_def stored_at_def untallied_ok_def deliveries_ok_def rates_known_def known_def
  next_proposal_id_def

lemma gov_invD:
  assumes "gov_inv env s"
  shows "good (ge_stake env) (gv_stake s)" "gv_params s \<noteq> None" "bt_wf (gv_unfinished s)" "bt_wf (gv_untallied s)" "voters_ok s p"
    "\<not> known s p \<Longrightarrow> fresh s p" "known s p \<Longrightarrow> \<exists>st d. stored_at env s p st d" "untallied_ok env s" "deliveries_ok s" "rates_known s"
  using assms by (simp_all add: gov_inv_def)

lemma gov_inv_frame [simp]:
  "gov_inv env (s\<lparr>gv_vote_reasons := a\<rparr>) = gov_inv env s" "gov_inv env (s\<lparr>gv_spent := b\<rparr>) = gov_inv env s"
  "gov_inv env (s\<lparr>gv_sct_position := c\<rparr>) = gov_inv env s" "gov_inv env (s\<lparr>gv_other_params := d\<rparr>) = gov_inv env s"
  "gov_inv env (s\<lparr>gv_next_upgrade := e\<rparr>) = gov_inv env s" "gov_inv env (s\<lparr>gv_halt_bit := f\<rparr>) = gov_inv env s"
  "gov_inv env (s\<lparr>gv_denoms := g\<rparr>) = gov_inv env s" "gov_inv env (s\<lparr>gv_proposal_started := h\<rparr>) = gov_inv env s"
  "gov_inv env (s\<lparr>gv_param_changes := i\<rparr>) = gov_inv env s"
  by (simp_all add: gov_inv_defs)

lemma read_state:
  "state_reads st \<Longrightarrow> proposal_state_from_proto (proposal_state_to_proto st) = Inr st"
  by (cases st) (simp_all add: proposal_state_from_proto_def outcome_roundtrip)

lemma stored_reads:
  assumes "stored_at env s p st d"
  shows "proposal_state_of s p = Inr (Some st)" "proposal_definition env s p = Inr (Some d)" "proposal_payload_of env s p = Inr (Some (pr_payload d))"
  using assms read_state [of st] by (simp_all add: stored_at_def proposal_state_of_def proposal_definition_def proposal_payload_of_def)

lemma fresh_reads: "fresh s p \<Longrightarrow> proposal_state_of s p = Inr None"
  by (simp add: fresh_def proposal_state_of_def)

lemma known_iff:
  assumes "gov_inv env s"
  shows "proposal_state_of s p = Inr (Some st) \<Longrightarrow> known s p"
  using gov_invD(6) [OF assms, of p] fresh_reads [of s p] by auto

section \<open>How the store evolves\<close>

definition proposal_edges :: "(proposal_state \<times> proposal_state) set" where
  "proposal_edges = {(SVoting, SWithdrawn r) |r. True} \<union> {(SVoting, SFinished out) |out. out \<in> {OPassed, OFailed NotWithdrawn, OSlashed NotWithdrawn}}
     \<union> {(SWithdrawn r, SFinished (OFailed (WithReason r))) |r. True}"

definition frozen :: "gov_state \<Rightarrow> gov_state \<Rightarrow> u64 \<Rightarrow> bool" where
  "frozen s t p \<longleftrightarrow> gv_powers_at_start t p = gv_powers_at_start s p \<and> gv_rates_at_start t p = gv_rates_at_start s p
     \<and> gv_start t p = gv_start s p \<and> gv_end t p = gv_end s p \<and> gv_start_position t p = gv_start_position s p
     \<and> gv_deposits t p = gv_deposits s p \<and> gv_proposals t p = gv_proposals s p"

definition votes_kept :: "gov_state \<Rightarrow> gov_state \<Rightarrow> u64 \<Rightarrow> bool" where
  "votes_kept s t p \<longleftrightarrow> (\<forall>nf h. gv_voted s p nf = Some h \<longrightarrow> gv_voted t p nf \<noteq> None)
     \<and> (\<forall>i v. bt_get (gv_validator_votes s p) i = Some v \<longrightarrow> bt_get (gv_validator_votes t p) i = Some v)"

definition state_moves :: "gov_state \<Rightarrow> gov_state \<Rightarrow> u64 \<Rightarrow> bool" where
  "state_moves s t p \<longleftrightarrow> (\<forall>st. proposal_state_of s p = Inr (Some st)
     \<longrightarrow> (\<exists>st'. proposal_state_of t p = Inr (Some st') \<and> (st, st') \<in> proposal_edges\<^sup>*))"

definition evolves :: "gov_state \<Rightarrow> gov_state \<Rightarrow> bool" where
  "evolves s t \<longleftrightarrow> (\<forall>p. known s p \<longrightarrow> known t p \<and> frozen s t p \<and> votes_kept s t p \<and> state_moves s t p)"

lemma evolves_refl: "evolves s s"
  by (auto simp: evolves_def frozen_def votes_kept_def state_moves_def)

lemma evolves_trans: "evolves s t \<Longrightarrow> evolves t u \<Longrightarrow> evolves s u"
  unfolding evolves_def frozen_def votes_kept_def state_moves_def
  by (simp, meson not_None_eq rtrancl_trans)

lemma evolves_frame:
  "known t = known s \<Longrightarrow> gv_powers_at_start t = gv_powers_at_start s \<Longrightarrow> gv_rates_at_start t = gv_rates_at_start s \<Longrightarrow> gv_start t = gv_start s
   \<Longrightarrow> gv_end t = gv_end s \<Longrightarrow> gv_start_position t = gv_start_position s \<Longrightarrow> gv_deposits t = gv_deposits s \<Longrightarrow> gv_proposals t = gv_proposals s
   \<Longrightarrow> gv_voted t = gv_voted s \<Longrightarrow> gv_validator_votes t = gv_validator_votes s \<Longrightarrow> gv_states t = gv_states s \<Longrightarrow> evolves s t"
  unfolding evolves_def frozen_def votes_kept_def state_moves_def proposal_state_of_def by auto

section \<open>Single writes\<close>

abbreviation keeps :: "gov_env \<Rightarrow> gov_state \<Rightarrow> gov_state \<Rightarrow> bool" where
  "keeps env s t \<equiv> gov_inv env t \<and> evolves s t"

lemma keeps_trans: "keeps env s t \<Longrightarrow> keeps env t u \<Longrightarrow> keeps env s u"
  using evolves_trans by blast

lemma keeps_stake: "gov_inv env s \<Longrightarrow> good (ge_stake env) k \<Longrightarrow> keeps env s (s\<lparr>gv_stake := k\<rparr>)"
  by (auto intro!: evolves_frame simp: gov_inv_defs)

lemma keeps_params: "gov_inv env s \<Longrightarrow> keeps env s (s\<lparr>gv_params := Some params\<rparr>)"
  by (auto intro!: evolves_frame simp: gov_inv_defs)

lemma keeps_client:
  assumes "gov_inv env s"
  shows "keeps env s (put_client c st s)"
proof
  have "payload_ok env tx ((gv_clients s)(c \<mapsto> st)) x" if "payload_ok env tx (gv_clients s) x" for tx x
    using that by (cases x) auto
  then have "stored_at env (put_client c st s) p x d" if "stored_at env s p x d" for p x d
    using that by (simp add: stored_at_def put_client_def)
  then have "\<forall>p. known (put_client c st s) p \<longrightarrow> (\<exists>x d. stored_at env (put_client c st s) p x d)"
    using gov_invD(7) [OF assms] by (fastforce simp: known_def next_proposal_id_def put_client_def)
  then show "gov_inv env (put_client c st s)"
    using assms unfolding gov_inv_def
    by (simp add: put_client_def voters_ok_def [abs_def] known_def next_proposal_id_def fresh_def untallied_ok_def deliveries_ok_def rates_known_def)
  show "evolves s (put_client c st s)" by (rule evolves_frame) (simp_all add: put_client_def known_def next_proposal_id_def fun_eq_iff)
qed

lemma keeps_delivery:
  assumes "gov_inv env s" "gv_transactions s p \<noteq> None"
  shows "keeps env s (s\<lparr>gv_deliveries := (gv_deliveries s)(h := bt_insert p p (gv_deliveries s h))\<rparr>)"
proof
  have "deliveries_ok (s\<lparr>gv_deliveries := (gv_deliveries s)(h := bt_insert p p (gv_deliveries s h))\<rparr>)"
    using assms gov_invD(9) [OF assms(1)] by (auto simp: deliveries_ok_def split: if_splits)
  then show "gov_inv env (s\<lparr>gv_deliveries := (gv_deliveries s)(h := bt_insert p p (gv_deliveries s h))\<rparr>)"
    using assms(1) by (simp add: gov_inv_def voters_ok_def known_def next_proposal_id_def fresh_def untallied_ok_def rates_known_def stored_at_def)
  show "evolves s (s\<lparr>gv_deliveries := (gv_deliveries s)(h := bt_insert p p (gv_deliveries s h))\<rparr>)"
    by (rule evolves_frame) (simp_all add: known_def next_proposal_id_def fun_eq_iff)
qed

lemma put_state_fields:
  "put_proposal_state p st s = s\<lparr>gv_states := (gv_states s)(p \<mapsto> proposal_state_to_proto st),
     gv_unfinished := (if open_state st then bt_insert p () (gv_unfinished s) else bt_remove p (gv_unfinished s))\<rparr>"
  by (cases st) (simp_all add: put_proposal_state_def Let_def)

text \<open>Writing a state that reads as \<open>st\<close>, along an edge from the state that is stored.\<close>

lemma keeps_state:
  assumes inv: "gov_inv env s" and old: "stored_at env s p st0 d"
    and new: "proposal_state_to_proto st' = proposal_state_to_proto st" "open_state st' = open_state st" "state_reads st"
    and edge: "(st0, st) \<in> proposal_edges\<^sup>*" and k: "known s p"
  shows "keeps env s (put_proposal_state p st' s)" "stored_at env (put_proposal_state p st' s) p st d"
proof -
  let ?t = "put_proposal_state p st' s"
  have wf: "bt_wf (gv_unfinished s)" using inv by (simp add: gov_inv_def)
  have un: "bt_get (gv_unfinished ?t) q = (if q = p then (if open_state st then Some () else None) else bt_get (gv_unfinished s) q)" for q
    using wf new(2) by (simp add: put_state_fields)
  show here: "stored_at env ?t p st d"
    using old un [of p] new(1,3) by (simp add: stored_at_def put_state_fields)
  have others: "stored_at env ?t q x e" if "q \<noteq> p" "stored_at env s q x e" for q x e
    using that un [of q] by (simp add: stored_at_def put_state_fields)
  have other_state: "proposal_state_of ?t q = proposal_state_of s q" if "q \<noteq> p" for q
    using that by (simp add: proposal_state_of_def put_state_fields)
  have K: "known ?t q = known s q" for q by (simp add: known_def next_proposal_id_def put_state_fields)
  have "gov_inv env ?t"
    unfolding gov_inv_def
  proof (intro conjI allI impI)
    show "good (ge_stake env) (gv_stake ?t)" "gv_params ?t \<noteq> None" "bt_wf (gv_untallied ?t)"
      using inv by (simp_all add: gov_inv_def put_state_fields)
    show "bt_wf (gv_unfinished ?t)" using wf by (simp add: put_state_fields)
    show "voters_ok ?t q" for q using gov_invD(5) [OF inv] by (simp add: voters_ok_def put_state_fields)
    show "fresh ?t q" if "\<not> known ?t q" for q
    proof -
      have "q \<noteq> p" "fresh s q" using that k gov_invD(6) [OF inv] K by auto
      then show ?thesis using un [of q] by (simp add: fresh_def put_state_fields)
    qed
    show "\<exists>x e. stored_at env ?t q x e" if "known ?t q" for q
      using gov_invD(7) [OF inv] that K here others [of q] by (cases "q = p") blast+
    show "untallied_ok env ?t" using gov_invD(8) [OF inv] by (simp add: untallied_ok_def put_state_fields known_def next_proposal_id_def)
    show "deliveries_ok ?t" "rates_known ?t" using gov_invD(9,10) [OF inv] by (simp_all add: deliveries_ok_def rates_known_def put_state_fields)
  qed
  moreover have "evolves s ?t"
    unfolding evolves_def
  proof (intro allI impI conjI)
    fix q assume "known s q"
    then show "known ?t q" using K by simp
    show "frozen s ?t q" "votes_kept s ?t q" by (auto simp: frozen_def votes_kept_def put_state_fields)
    show "state_moves s ?t q"
      using other_state [of q] stored_reads(1) [OF old] stored_reads(1) [OF here] edge
      by (cases "q = p") (auto simp: state_moves_def)
  qed
  ultimately show "keeps env s ?t" by simp
qed

lemma keeps_validator_vote:
  assumes inv: "gov_inv env s" and k: "known s p" and active: "i \<in> fst ` set (gv_powers_at_start s p)"
    and no: "bt_get (gv_validator_votes s p) i = None"
  shows "keeps env s (cast_validator_vote p i v r s)"
proof
  let ?t = "cast_validator_vote p i v r s"
  have vo: "voters_ok ?t q" for q
    using gov_invD(5) [OF inv, of q] active by (auto simp: voters_ok_def cast_validator_vote_def set_bt_insert)
  have K: "known ?t q = known s q" for q by (simp add: known_def next_proposal_id_def cast_validator_vote_def)
  show "gov_inv env ?t"
    unfolding gov_inv_def
  proof (intro conjI allI impI)
    show "good (ge_stake env) (gv_stake ?t)" "gv_params ?t \<noteq> None" "bt_wf (gv_untallied ?t)" "bt_wf (gv_unfinished ?t)"
      using inv by (simp_all add: gov_inv_def cast_validator_vote_def)
    show "voters_ok ?t q" for q by (rule vo)
    show "fresh ?t q" if "\<not> known ?t q" for q
    proof -
      have "q \<noteq> p" "fresh s q" using that k gov_invD(6) [OF inv] K by auto
      then show ?thesis by (simp add: fresh_def cast_validator_vote_def)
    qed
    show "\<exists>x e. stored_at env ?t q x e" if "known ?t q" for q
      using gov_invD(7) [OF inv] that K by (simp add: stored_at_def cast_validator_vote_def)
    show "untallied_ok env ?t" using gov_invD(8) [OF inv] by (simp add: untallied_ok_def cast_validator_vote_def known_def next_proposal_id_def)
    show "deliveries_ok ?t" "rates_known ?t" using gov_invD(9,10) [OF inv] by (simp_all add: deliveries_ok_def rates_known_def cast_validator_vote_def)
  qed
  have "bt_wf (gv_validator_votes s p)" using gov_invD(5) [OF inv, of p] by (simp add: voters_ok_def)
  then show "evolves s ?t"
    using no K unfolding evolves_def
    by (auto simp: frozen_def votes_kept_def state_moves_def proposal_state_of_def cast_validator_vote_def)
qed

lemma keeps_delegator_vote:
  assumes inv: "gov_inv env s" and k: "known s p" and active: "i \<in> fst ` set (gv_powers_at_start s p)"
    and mark: "mark_nullifier_voted_on_proposal p nf s = Inr u" and no: "gv_voted s p nf = None"
  shows "keeps env s (cast_delegator_vote env p i v nf a u)"
proof
  let ?t = "cast_delegator_vote env p i v nf a u"
  obtain h where u: "u = s\<lparr>gv_voted := (gv_voted s)(p := (gv_voted s p)(nf \<mapsto> h))\<rparr>"
    using mark by (auto simp: mark_nullifier_voted_on_proposal_def result_simps)
  have K: "known ?t q = known s q" for q by (simp add: known_def next_proposal_id_def cast_delegator_vote_def u)
  have wf: "bt_wf (gv_untallied s)" using inv by (simp add: gov_inv_def)
  show "gov_inv env ?t"
    unfolding gov_inv_def
  proof (intro conjI allI impI)
    show "good (ge_stake env) (gv_stake ?t)" "gv_params ?t \<noteq> None" "bt_wf (gv_untallied ?t)" "bt_wf (gv_unfinished ?t)"
      using inv by (simp_all add: gov_inv_def cast_delegator_vote_def u)
    show "voters_ok ?t q" for q using gov_invD(5) [OF inv, of q] by (simp add: voters_ok_def cast_delegator_vote_def u)
    show "fresh ?t q" if "\<not> known ?t q" for q
      using that gov_invD(6) [OF inv] K by (simp add: fresh_def cast_delegator_vote_def u)
    show "\<exists>x e. stored_at env ?t q x e" if "known ?t q" for q
      using gov_invD(7) [OF inv] that K by (simp add: stored_at_def cast_delegator_vote_def u)
    show "untallied_ok env ?t" unfolding untallied_ok_def
    proof (intro allI impI)
      fix q key nf' j t
      assume "bt_get (gv_untallied ?t) (q, key, nf') = Some (j, t)"
      then have "(q = p \<and> nf' = nf \<and> j = i \<and> key = se_show_id (ge_stake env) i) \<or> bt_get (gv_untallied s) (q, key, nf') = Some (j, t)"
        using wf by (auto simp: cast_delegator_vote_def u split: if_splits)
      then show "key = se_show_id (ge_stake env) j \<and> j \<in> fst ` set (gv_powers_at_start ?t q) \<and> known ?t q \<and> gv_voted ?t q nf' \<noteq> None"
      proof
        assume "q = p \<and> nf' = nf \<and> j = i \<and> key = se_show_id (ge_stake env) i"
        then show ?thesis using active k K by (simp add: cast_delegator_vote_def u)
      next
        assume "bt_get (gv_untallied s) (q, key, nf') = Some (j, t)"
        then have "key = se_show_id (ge_stake env) j \<and> j \<in> fst ` set (gv_powers_at_start s q) \<and> known s q \<and> gv_voted s q nf' \<noteq> None"
          using gov_invD(8) [OF inv] unfolding untallied_ok_def by blast
        then show ?thesis using K by (auto simp: cast_delegator_vote_def u)
      qed
    qed
    show "deliveries_ok ?t" "rates_known ?t" using gov_invD(9,10) [OF inv] by (simp_all add: deliveries_ok_def rates_known_def cast_delegator_vote_def u)
  qed
  show "evolves s ?t"
    using K unfolding evolves_def
    by (auto simp: frozen_def votes_kept_def state_moves_def proposal_state_of_def cast_delegator_vote_def u)
qed

lemma swept_in: "t \<in> set (swept_for p i votes) \<Longrightarrow> \<exists>k. ((p, k), i, t) \<in> set votes"
  by (force simp: swept_for_def)

lemma untallied_mem:
  "bt_wf (gv_untallied s) \<Longrightarrow> (k, v) \<in> set (untallied_votes just s) \<Longrightarrow> bt_get (gv_untallied s) k = Some v"
  by (auto simp: untallied_votes_def bt_get_def bt_wf_def strict_sorted_iff split: option.splits)

lemma keeps_sweep:
  assumes inv: "gov_inv env s"
  shows "keeps env s (tally_delegator_votes just s)"
proof
  let ?t = "tally_delegator_votes just s"
  have wf: "bt_wf (gv_untallied s)" "\<And>q. bt_wf (gv_tallied s q)" using inv by (simp_all add: gov_inv_def voters_ok_def)
  note E = sweep_effect [OF wf(2,1), of just]
  obtain un ta where t: "?t = s\<lparr>gv_untallied := un, gv_tallied := ta\<rparr>" using E(1) by blast
  have K: "known ?t q = known s q" for q by (simp add: known_def next_proposal_id_def t)
  have keys: "i \<in> fst ` set (gv_powers_at_start s q)" if "i \<in> fst ` set (ta q)" for q i
  proof -
    have "bt_get (ta q) i \<noteq> None" using that by (simp add: bt_get_def map_of_eq_None_iff)
    then have *: "after_sweep s just q i \<noteq> None" using E(3) [of q i] by (simp add: t)
    show ?thesis
    proof (cases "swept_for q i (untallied_votes just s)")
      case Nil
      then have "bt_get (gv_tallied s q) i \<noteq> None" using * by (simp add: after_sweep_def)
      then have "i \<in> fst ` set (gv_tallied s q)" using bt_None [of i "gv_tallied s q"] by force
      then show ?thesis using gov_invD(5) [OF inv, of q] by (auto simp: voters_ok_def)
    next
      case (Cons x xs)
      then obtain k where "((q, k), i, x) \<in> set (untallied_votes just s)" using swept_in [of x q i "untallied_votes just s"] by auto
      then have "bt_get (gv_untallied s) (q, k) = Some (i, x)" by (rule untallied_mem [OF wf(1)])
      then show ?thesis using gov_invD(8) [OF inv] unfolding untallied_ok_def by (cases k) blast
    qed
  qed
  have un: "bt_get un k = Some v \<Longrightarrow> bt_get (gv_untallied s) k = Some v" for k v
    using E(5) [of k] by (auto simp: t split: if_splits)
  show "gov_inv env ?t"
    unfolding gov_inv_def
  proof (intro conjI allI impI)
    show "good (ge_stake env) (gv_stake ?t)" "gv_params ?t \<noteq> None" "bt_wf (gv_unfinished ?t)" using inv by (simp_all add: gov_inv_def t)
    show "bt_wf (gv_untallied ?t)" by (rule E(4))
    show "voters_ok ?t q" for q using gov_invD(5) [OF inv, of q] E(2) [of q] keys by (auto simp: voters_ok_def t)
    show "fresh ?t q" if "\<not> known ?t q" for q
    proof -
      have f: "fresh s q" using that gov_invD(6) [OF inv] K by simp
      then have "ta q = []" using keys [of _ q] by (cases "ta q") (auto simp: fresh_def)
      then show ?thesis using f by (simp add: fresh_def t)
    qed
    show "\<exists>x e. stored_at env ?t q x e" if "known ?t q" for q
      using gov_invD(7) [OF inv] that K by (simp add: stored_at_def t)
    show "untallied_ok env ?t" unfolding untallied_ok_def K
    proof (intro allI impI)
      fix p k nf i v assume "bt_get (gv_untallied ?t) (p, k, nf) = Some (i, v)"
      then have "bt_get (gv_untallied s) (p, k, nf) = Some (i, v)" using un by (simp add: t)
      then have "k = se_show_id (ge_stake env) i \<and> i \<in> fst ` set (gv_powers_at_start s p) \<and> known s p \<and> gv_voted s p nf \<noteq> None"
        using gov_invD(8) [OF inv] unfolding untallied_ok_def by blast
      then show "k = se_show_id (ge_stake env) i \<and> i \<in> fst ` set (gv_powers_at_start ?t p) \<and> known s p \<and> gv_voted ?t p nf \<noteq> None"
        by (simp add: t)
    qed
    show "deliveries_ok ?t" "rates_known ?t" using gov_invD(9,10) [OF inv] by (simp_all add: deliveries_ok_def rates_known_def t)
  qed
  show "evolves s ?t" by (rule evolves_frame) (simp_all add: t known_def next_proposal_id_def fun_eq_iff)
qed

end
