(* ===== verification/GovMachine.thy ===== *)
theory GovMachine
  imports GovInvariant
begin

text \<open>
  Every step of the governance component keeps its invariant and lets the store evolve only along the edges; the hook at the end of a
  block never fails.
\<close>

section \<open>Enactment\<close>

definition same_proposals :: "gov_state \<Rightarrow> gov_state \<Rightarrow> bool" where
  "same_proposals s t \<longleftrightarrow> gv_stake t = gv_stake s \<and> gv_states t = gv_states s \<and> gv_unfinished t = gv_unfinished s \<and> gv_proposals t = gv_proposals s
     \<and> gv_end t = gv_end s \<and> gv_start t = gv_start s \<and> gv_deposits t = gv_deposits s \<and> gv_start_position t = gv_start_position s
     \<and> gv_transactions t = gv_transactions s \<and> gv_next_id t = gv_next_id s \<and> gv_params t = gv_params s
     \<and> gv_powers_at_start t = gv_powers_at_start s \<and> gv_validator_votes t = gv_validator_votes s
     \<and> (\<forall>c. gv_clients s c \<noteq> None \<longrightarrow> gv_clients t c \<noteq> None)"

lemma same_stored:
  assumes "same_proposals s t" "stored_at env s p st d"
  shows "stored_at env t p st d"
proof -
  have "payload_ok env (gv_transactions s p) (gv_clients t) (pr_payload d)"
    using assms by (cases "pr_payload d") (auto simp: stored_at_def same_proposals_def)
  then show ?thesis using assms by (simp add: stored_at_def same_proposals_def)
qed

lemma sweep_same:
  assumes "gov_inv env s"
  shows "same_proposals s (tally_delegator_votes just s)" "gv_tallied (tally_delegator_votes just s) p = gv_tallied (tally_delegator_votes just s) p"
proof -
  have wf: "\<And>q. bt_wf (gv_tallied s q)" "bt_wf (gv_untallied s)" using assms by (simp_all add: gov_inv_def voters_ok_def)
  obtain un ta where "tally_delegator_votes just s = s\<lparr>gv_untallied := un, gv_tallied := ta\<rparr>" using sweep_effect(1) [OF wf, of just] by blast
  then show "same_proposals s (tally_delegator_votes just s)" by (simp add: same_proposals_def)
qed simp

lemma client_changed:
  assumes "ge_valid_client env c" "gv_clients s c = Some x"
  shows "change_client env c f s = Inr (put_client c (f x) s)"
  using assms by (simp add: change_client_def get_client_state_def)

lemma enact_ok:
  assumes inv: "gov_inv env s" and st: "stored_at env s p st d" and h: "sk_height (gv_stake s) = Some h"
  obtains t where "enact_proposal env p (pr_payload d) s = Inr t" "keeps env s t" "same_proposals s t"
proof -
  have ok: "payload_ok env (gv_transactions s p) (gv_clients s) (pr_payload d)" using st by (simp add: stored_at_def)
  have h': "get_block_height (gv_stake s) = Inr h" using h by (simp add: get_block_height_def)
  have framed: "keeps env s (s\<lparr>gv_param_changes := x\<rparr>) \<and> keeps env s (s\<lparr>gv_next_upgrade := y\<rparr>) \<and> keeps env s (s\<lparr>gv_halt_bit := z\<rparr>)" for x y z
    using inv by (auto intro!: evolves_frame simp: known_def next_proposal_id_def)
  have clients: "\<exists>t. change_client env c f s = Inr t \<and> keeps env s t \<and> same_proposals s t" if "ge_valid_client env c" "gv_clients s c \<noteq> None" for c f
  proof -
    obtain x where "gv_clients s c = Some x" using \<open>gv_clients s c \<noteq> None\<close> by blast
    then show ?thesis using client_changed [OF \<open>ge_valid_client env c\<close>, of s x f] keeps_client [OF inv, of c "f x"] by (simp add: same_proposals_def put_client_def)
  qed
  have "\<exists>t. enact_proposal env p (pr_payload d) s = Inr t \<and> keeps env s t \<and> same_proposals s t"
  proof (cases "pr_payload d")
    case (PSignaling x)
    then show ?thesis using inv by (simp add: evolves_refl same_proposals_def)
  next
    case (PEmergency halt)
    then show ?thesis using framed inv by (cases halt) (simp_all add: signal_halt_def same_proposals_def evolves_refl)
  next
    case (PParameterChange x)
    then show ?thesis using framed h' by (simp add: same_proposals_def)
  next
    case (PCommunityPoolSpend x)
    then have "gv_transactions s p \<noteq> None" using ok by simp
    then show ?thesis using PCommunityPoolSpend h' keeps_delivery [OF inv, of p "h + 1"]
      by (simp add: deliver_community_pool_transaction_def same_proposals_def Let_def)
  next
    case (PUpgradePlan x)
    then show ?thesis using framed by (simp add: signal_upgrade_def same_proposals_def)
  next
    case (PFreezeIbcClient c)
    then show ?thesis using clients [of c "ge_freeze env"] ok by simp
  next
    case (PUnfreezeIbcClient c)
    then show ?thesis using clients [of c "ge_unfreeze env"] ok by simp
  qed
  then show thesis using that by blast
qed

section \<open>The end of the voting period\<close>

definition tally_of_proposal :: "gov_state \<Rightarrow> u64 \<Rightarrow> vote_tally" where
  "tally_of_proposal s p = sum_tallies (map (contribution s p) (powers_at_start s p))"

definition verdict_of :: "gov_state \<Rightarrow> u64 \<Rightarrow> gov_params \<Rightarrow> tally_outcome" where
  "verdict_of s p params = outcome (tally_of_proposal s p) (total_voting_power_at_proposal_start s p) params"

lemma tally_inv: "gov_inv env s \<Longrightarrow> current_tally s p = Inr (tally_of_proposal s p)"
  unfolding tally_of_proposal_def by (rule current_tally_sum [OF gov_invD(5)])

lemma conclude_not_ready:
  assumes "sk_height (gv_stake s) = Some h" "gv_end s p = Some e" "h < e"
  shows "conclude_proposal env p s = Inr s"
  using assms by (simp add: conclude_proposal_def get_block_height_def not_le)

lemma conclude_withdrawn:
  assumes inv: "gov_inv env s" and st: "stored_at env s p (SWithdrawn r) d" and h: "sk_height (gv_stake s) = Some h" and e: "gv_end s p = Some e" "e \<le> h"
  shows "conclude_proposal env p s = Inr (put_proposal_state p (SFinished (OFailed (WithReason r))) (tally_delegator_votes (Some p) s))"
proof -
  have "proposal_state_of (tally_delegator_votes (Some p) s) p = Inr (Some (SWithdrawn r))"
    by (rule stored_reads(1) [OF same_stored [OF sweep_same(1) [OF inv] st]])
  then show ?thesis using h e by (simp add: conclude_proposal_def get_block_height_def Let_def)
qed

text \<open>A proposal that is put to the vote is decided by the tally after the last sweep, and enacted only when it passes.\<close>

lemma conclude_voted:
  assumes inv: "gov_inv env s" and st: "stored_at env s p SVoting d" and h: "sk_height (gv_stake s) = Some h" and e: "gv_end s p = Some e" "e \<le> h"
    and params: "gv_params s = Some params"
  defines "u \<equiv> tally_delegator_votes (Some p) s"
  shows "conclude_proposal env p s = and_then (if verdict_of u p params = TPass then enact_proposal env p (pr_payload d) u else Inr u)
      (\<lambda>w. Inr (put_proposal_state p (SFinished (outcome_of_tally (verdict_of u p params))) w))"
proof -
  have same: "same_proposals s u" unfolding u_def by (rule sweep_same(1) [OF inv])
  have su: "stored_at env u p SVoting d" by (rule same_stored [OF same st])
  have iu: "gov_inv env u" using keeps_sweep [OF inv] by (simp add: u_def)
  have pu: "get_governance_params u = Inr params" using same params by (simp add: same_proposals_def get_governance_params_def)
  have hu: "sk_height (gv_stake u) = Some h" using same h by (simp add: same_proposals_def)
  have defs: "proposal_definition env u p = Inr (Some d)" "proposal_payload_of env u p = Inr (Some (pr_payload d))" "proposal_state_of u p = Inr (Some SVoting)"
    using stored_reads [OF su] by simp_all
  have voting: "conclude_voting env p u = and_then (if verdict_of u p params = TPass then enact_proposal env p (pr_payload d) u else Inr u)
      (\<lambda>w. Inr (outcome_of_tally (verdict_of u p params), w))"
  proof (cases "verdict_of u p params = TPass")
    case True
    obtain w where w: "enact_proposal env p (pr_payload d) u = Inr w" "same_proposals u w" by (rule enact_ok [OF iu su hu])
    have "proposal_definition env w p = Inr (Some d)" using stored_reads(2) [OF same_stored [OF w(2) su]] .
    then show ?thesis using True w(1) by (simp add: conclude_voting_def tally_inv [OF iu] pu defs Let_def flip: verdict_of_def)
  next
    case False
    then show ?thesis by (simp add: conclude_voting_def tally_inv [OF iu] pu defs Let_def flip: verdict_of_def)
  qed
  have "conclude_proposal env p s = and_then (conclude_voting env p u) (\<lambda>(out, w). Inr (put_proposal_state p (SFinished out) w))"
    using h e by (simp add: conclude_proposal_def get_block_height_def Let_def defs flip: u_def)
  then show ?thesis unfolding voting and_then_assoc by simp
qed

lemma unfinished_known:
  assumes "gov_inv env s" "bt_get (gv_unfinished s) p = Some ()"
  obtains st d where "known s p" "stored_at env s p st d" "open_state st"
proof -
  have "known s p" using gov_invD(6) [OF assms(1), of p] assms(2) by (auto simp: fresh_def)
  moreover from this obtain st d where "stored_at env s p st d" using gov_invD(7) [OF assms(1)] by blast
  moreover from this have "open_state st" using assms(2) by (simp add: stored_at_def)
  ultimately show thesis using that by blast
qed

lemma tally_edge: "(SVoting, SFinished (outcome_of_tally verdict)) \<in> proposal_edges"
  by (cases verdict) (simp_all add: proposal_edges_def)

lemma conclude_ok:
  assumes inv: "gov_inv env s" and un: "bt_get (gv_unfinished s) p = Some ()" and h: "sk_height (gv_stake s) = Some h"
  obtains t where "conclude_proposal env p s = Inr t" "keeps env s t" "gv_stake t = gv_stake s"
    "\<And>q. q \<noteq> p \<Longrightarrow> bt_get (gv_unfinished t) q = bt_get (gv_unfinished s) q"
    "bt_get (gv_unfinished t) p = (if the (gv_end s p) \<le> h then None else Some ())"
proof -
  obtain st d where k: "known s p" and st: "stored_at env s p st d" and "open_state st" by (rule unfinished_known [OF inv un])
  obtain e where e: "gv_end s p = Some e" using st by (auto simp: stored_at_def)
  obtain params where params: "gv_params s = Some params" using gov_invD(2) [OF inv] by blast
  let ?u = "tally_delegator_votes (Some p) s"
  have U: "keeps env s ?u" "same_proposals s ?u" by (rule keeps_sweep [OF inv], rule sweep_same(1) [OF inv])
  have finish: "keeps env s (put_proposal_state p (SFinished out) w) \<and> gv_stake (put_proposal_state p (SFinished out) w) = gv_stake s
      \<and> (\<forall>q. q \<noteq> p \<longrightarrow> bt_get (gv_unfinished (put_proposal_state p (SFinished out) w)) q = bt_get (gv_unfinished s) q)
      \<and> bt_get (gv_unfinished (put_proposal_state p (SFinished out) w)) p = None"
    if w: "keeps env s w" "same_proposals s w" and out: "reason_fits out" "(st, SFinished out) \<in> proposal_edges" for w out
  proof -
    have "stored_at env w p st d" by (rule same_stored [OF w(2) st])
    moreover have "known w p" using k w(2) by (simp add: known_def next_proposal_id_def same_proposals_def)
    ultimately have "keeps env w (put_proposal_state p (SFinished out) w)"
      using keeps_state(1) [of env w p st d "SFinished out" "SFinished out"] w(1) out by auto
    moreover have "bt_wf (gv_unfinished w)" using gov_invD(3) [of env w] w(1) by simp
    ultimately show ?thesis using keeps_trans [OF w(1)] w(2) by (auto simp: put_state_fields same_proposals_def)
  qed
  show thesis
  proof (cases "e \<le> h")
    case False
    then show ?thesis using that [OF conclude_not_ready [OF h e]] inv un e by (simp add: not_le evolves_refl)
  next
    case True
    consider r where "st = SWithdrawn r" | "st = SVoting" using \<open>open_state st\<close> by (cases st) auto
    then show ?thesis
    proof cases
      case (1 r)
      have "length r \<le> MAX_VALIDATOR_VOTE_REASON_LENGTH" using st by (simp add: stored_at_def 1)
      then have "reason_fits (OFailed (WithReason r))" "(st, SFinished (OFailed (WithReason r))) \<in> proposal_edges"
        by (simp_all add: 1 proposal_edges_def)
      then show ?thesis using that [OF conclude_withdrawn [OF inv st [unfolded 1] h e True]] finish [OF U] e True by simp
    next
      case 2
      have hu: "sk_height (gv_stake ?u) = Some h" using U(2) h by (simp add: same_proposals_def)
      obtain w where w: "(if verdict_of ?u p params = TPass then enact_proposal env p (pr_payload d) ?u else Inr ?u) = Inr w"
        "keeps env s w" "same_proposals s w"
      proof (cases "verdict_of ?u p params = TPass")
        case True
        obtain w where "enact_proposal env p (pr_payload d) ?u = Inr w" "keeps env ?u w" "same_proposals ?u w"
          by (rule enact_ok [OF conjunct1 [OF U(1)] same_stored [OF U(2) st] hu])
        then show ?thesis using that [of w] True keeps_trans [OF U(1)] U(2) by (simp add: same_proposals_def)
      next
        case False
        then show ?thesis using that [of ?u] U by simp
      qed
      have "reason_fits (outcome_of_tally v)" for v by (cases v) simp_all
      then show ?thesis
        using that conclude_voted [OF inv st [unfolded 2] h e True params] finish [OF w(2,3), of "outcome_of_tally (verdict_of ?u p params)"] tally_edge
        unfolding w(1) 2 by (simp add: e True)
    qed
  qed
qed

lemma enact_all_ok:
  assumes "gov_inv env s" "sk_height (gv_stake s) = Some h" "distinct ps" "\<And>p. p \<in> set ps \<Longrightarrow> bt_get (gv_unfinished s) p = Some ()"
  shows "\<exists>t. try_fold (conclude_proposal env) ps s = Inr t \<and> keeps env s t \<and> gv_stake t = gv_stake s
    \<and> (\<forall>q. bt_get (gv_unfinished t) q = (if q \<in> set ps \<and> the (gv_end s q) \<le> h then None else bt_get (gv_unfinished s) q))"
  using assms
proof (induction ps arbitrary: s)
  case Nil
  then show ?case by (simp add: evolves_refl)
next
  case (Cons p ps)
  obtain u where u: "conclude_proposal env p s = Inr u" "keeps env s u" "gv_stake u = gv_stake s"
    "\<And>q. q \<noteq> p \<Longrightarrow> bt_get (gv_unfinished u) q = bt_get (gv_unfinished s) q" "bt_get (gv_unfinished u) p = (if the (gv_end s p) \<le> h then None else Some ())"
    using conclude_ok [OF Cons.prems(1) _ Cons.prems(2), of p] Cons.prems(4) by auto
  have kept: "gv_end u q = gv_end s q" if "q \<in> set ps" for q
  proof -
    have "known s q" using unfinished_known [OF Cons.prems(1), of q] Cons.prems(4) [of q] that by auto
    then show ?thesis using u(2) by (simp add: evolves_def frozen_def)
  qed
  have open_: "bt_get (gv_unfinished u) q = Some ()" if "q \<in> set ps" for q
  proof -
    have "q \<noteq> p" using that Cons.prems(3) by auto
    then show ?thesis using u(4) Cons.prems(4) [of q] that by simp
  qed
  have "\<exists>t. try_fold (conclude_proposal env) ps u = Inr t \<and> keeps env u t \<and> gv_stake t = gv_stake u
    \<and> (\<forall>q. bt_get (gv_unfinished t) q = (if q \<in> set ps \<and> the (gv_end u q) \<le> h then None else bt_get (gv_unfinished u) q))"
    by (rule Cons.IH) (use u Cons.prems open_ in simp_all)
  then obtain t where t: "try_fold (conclude_proposal env) ps u = Inr t" "keeps env u t" "gv_stake t = gv_stake u"
    "\<And>q. bt_get (gv_unfinished t) q = (if q \<in> set ps \<and> the (gv_end u q) \<le> h then None else bt_get (gv_unfinished u) q)" by blast
  have "bt_get (gv_unfinished t) q = (if q \<in> set (p # ps) \<and> the (gv_end s q) \<le> h then None else bt_get (gv_unfinished s) q)" for q
    using t(4) [of q] u(4) [of q] u(5) kept [of q] Cons.prems(3) Cons.prems(4) [of p] by (cases "q = p") auto
  then show ?case using t u keeps_trans [OF u(2) t(2)] by auto
qed

lemma end_block_ok:
  assumes inv: "gov_inv env s" and h: "sk_height (gv_stake s) = Some h"
  obtains t where "gov_end_block env s = Inr t" "keeps env s t" "gv_stake t = gv_stake s"
    "\<And>q. bt_get (gv_unfinished t) q = (if the (gv_end s q) \<le> h then None else bt_get (gv_unfinished s) q)"
proof -
  have wf: "bt_wf (gv_unfinished s)" using inv by (simp add: gov_inv_def)
  have mem: "bt_get (gv_unfinished s) p = Some () \<longleftrightarrow> p \<in> set (unfinished_proposals s)" for p
  proof -
    have "bt_get (gv_unfinished s) p \<noteq> None \<longleftrightarrow> p \<in> set (unfinished_proposals s)"
      by (simp add: unfinished_proposals_def bt_get_def map_of_eq_None_iff)
    then show ?thesis by auto
  qed
  have "distinct (unfinished_proposals s)" using wf by (simp add: unfinished_proposals_def bt_wf_def strict_sorted_iff)
  then obtain t where t: "enact_all_passed_proposals env s = Inr t" "keeps env s t" "gv_stake t = gv_stake s"
    "\<And>q. bt_get (gv_unfinished t) q = (if q \<in> set (unfinished_proposals s) \<and> the (gv_end s q) \<le> h then None else bt_get (gv_unfinished s) q)"
    using enact_all_ok [OF inv h, of "unfinished_proposals s"] mem unfolding enact_all_passed_proposals_def by blast
  have "bt_get (gv_unfinished t) q = (if the (gv_end s q) \<le> h then None else bt_get (gv_unfinished s) q)" for q
    using t(4) [of q] mem [of q] by (cases "bt_get (gv_unfinished s) q") auto
  then show thesis using that t(1-3) by (simp add: gov_end_block_def)
qed

end
