(* ===== verification/GovChain.thy ===== *)
theory GovChain
  imports GovMachine
begin

text \<open>
  The actions and hooks of governance keep the invariant, and the states reachable from genesis with them.
\<close>

section \<open>A new proposal\<close>

definition active_in :: "stake_state \<Rightarrow> identity_key list \<Rightarrow> identity_key \<Rightarrow> bool" where
  "active_in k is i \<longleftrightarrow> i \<in> set is \<and> sk_states k i = Some VActive"

lemma snapshot_some:
  assumes "snapshot_validator k i = Inr x"
  shows "x = (if sk_states k i = Some VActive then Some (i, the (sk_rates k i), the (sk_powers k i)) else None)"
    and "sk_states k i = Some VActive \<longrightarrow> sk_rates k i \<noteq> None \<and> sk_powers k i \<noteq> None"
  using assms by (auto simp: snapshot_validator_def result_simps split: if_splits)

lemma snapshot_fold:
  assumes "try_fold (record_snapshot p) is s = Inr t" "bt_wf (gv_powers_at_start s p)"
  shows "\<exists>R P. t = s\<lparr>gv_rates_at_start := (gv_rates_at_start s)(p := R), gv_powers_at_start := (gv_powers_at_start s)(p := P)\<rparr> \<and> bt_wf P
    \<and> (\<forall>i. bt_get P i = (if active_in (gv_stake s) is i then sk_powers (gv_stake s) i else bt_get (gv_powers_at_start s p) i))
    \<and> (\<forall>i. R i = (if active_in (gv_stake s) is i then sk_rates (gv_stake s) i else gv_rates_at_start s p i))
    \<and> (\<forall>i. active_in (gv_stake s) is i \<longrightarrow> sk_rates (gv_stake s) i \<noteq> None \<and> sk_powers (gv_stake s) i \<noteq> None)"
  using assms
proof (induction "is" arbitrary: s)
  case Nil
  then show ?case
    by (intro exI [of _ "gv_rates_at_start s p"] exI [of _ "gv_powers_at_start s p"]) (simp add: active_in_def)
next
  case (Cons i "is")
  obtain u where u: "record_snapshot p i s = Inr u" and r: "try_fold (record_snapshot p) is u = Inr t"
    using Cons.prems(1) by (auto simp: result_simps)
  obtain x where x: "snapshot_validator (gv_stake s) i = Inr x" using u by (auto simp: record_snapshot_def result_simps)
  show ?case
  proof (cases "sk_states (gv_stake s) i = Some VActive")
    case False
    then have us: "u = s" using u x snapshot_some(1) [OF x] by (simp add: record_snapshot_def)
    have act: "active_in (gv_stake s) (i # is) = active_in (gv_stake s) is" using False by (auto simp: active_in_def fun_eq_iff)
    show ?thesis unfolding act by (rule Cons.IH [OF r [unfolded us] Cons.prems(2)])
  next
    case True
    obtain rt w where rw: "sk_rates (gv_stake s) i = Some rt" "sk_powers (gv_stake s) i = Some w" using snapshot_some(2) [OF x] True by blast
    have u': "u = s\<lparr>gv_rates_at_start := (gv_rates_at_start s)(p := (gv_rates_at_start s p)(i \<mapsto> rt)),
         gv_powers_at_start := (gv_powers_at_start s)(p := bt_insert i w (gv_powers_at_start s p))\<rparr>"
      using u x snapshot_some(1) [OF x] True rw by (simp add: record_snapshot_def)
    have wf: "bt_wf (gv_powers_at_start u p)" using Cons.prems(2) by (simp add: u')
    have k: "gv_stake u = gv_stake s" by (simp add: u')
    obtain R P where *: "t = u\<lparr>gv_rates_at_start := (gv_rates_at_start u)(p := R), gv_powers_at_start := (gv_powers_at_start u)(p := P)\<rparr>" "bt_wf P"
      "\<forall>j. bt_get P j = (if active_in (gv_stake s) is j then sk_powers (gv_stake s) j else bt_get (gv_powers_at_start u p) j)"
      "\<forall>j. R j = (if active_in (gv_stake s) is j then sk_rates (gv_stake s) j else gv_rates_at_start u p j)"
      "\<forall>j. active_in (gv_stake s) is j \<longrightarrow> sk_rates (gv_stake s) j \<noteq> None \<and> sk_powers (gv_stake s) j \<noteq> None"
      using Cons.IH [OF r wf] unfolding k by (elim exE conjE) (rule that)
    have act: "active_in (gv_stake s) (i # is) j \<longleftrightarrow> j = i \<or> active_in (gv_stake s) is j" for j using True by (auto simp: active_in_def)
    have "t = s\<lparr>gv_rates_at_start := (gv_rates_at_start s)(p := R), gv_powers_at_start := (gv_powers_at_start s)(p := P)\<rparr>"
      using *(1) by (simp add: u')
    moreover have "bt_get P j = (if active_in (gv_stake s) (i # is) j then sk_powers (gv_stake s) j else bt_get (gv_powers_at_start s p) j)" for j
      using *(3) [rule_format, of j] rw(2) Cons.prems(2) unfolding act by (auto simp: u')
    moreover have "R j = (if active_in (gv_stake s) (i # is) j then sk_rates (gv_stake s) j else gv_rates_at_start s p j)" for j
      using *(4) [rule_format, of j] rw(1) unfolding act by (auto simp: u')
    moreover have "sk_rates (gv_stake s) j \<noteq> None \<and> sk_powers (gv_stake s) j \<noteq> None" if "active_in (gv_stake s) (i # is) j" for j
      using that *(5) rw unfolding act by auto
    ultimately show ?thesis using *(2) by blast
  qed
qed

text \<open>The snapshot of a store: the validators of the consensus set that are active, with their rates and powers.\<close>

definition is_snapshot :: "stake_state \<Rightarrow> (identity_key \<Rightarrow> rate_data option) \<Rightarrow> (identity_key, amount) btree \<Rightarrow> bool" where
  "is_snapshot k R P \<longleftrightarrow> bt_wf P
     \<and> (\<forall>i. bt_get P i = (if sk_states k i = Some VActive then sk_powers k i else None))
     \<and> (\<forall>i. R i = (if sk_states k i = Some VActive then sk_rates k i else None))
     \<and> (\<forall>i. sk_states k i = Some VActive \<longrightarrow> sk_rates k i \<noteq> None \<and> sk_powers k i \<noteq> None)"

lemma all_active_indexed:
  assumes "good env k" "sk_states k i = Some VActive"
  shows "i \<in> set (consensus_set k)"
proof -
  have "bt_get (sk_index k) (se_show_id env i) = Some i" using assms by (simp add: good_def stake_inv_def index_ok_def)
  then have "(se_show_id env i, i) \<in> set (sk_index k)" by (simp add: bt_get_def map_of_SomeD)
  then show ?thesis by (force simp: consensus_set_def)
qed

lemma new_proposal_result:
  assumes run: "new_proposal d s = Inr (p, t)" and g: "good env (gv_stake s)" and fresh: "fresh s (next_proposal_id s)"
  obtains R P where "p = next_proposal_id s" "pr_id d = p" "is_snapshot (gv_stake s) R P"
    "t = s\<lparr>gv_rates_at_start := (gv_rates_at_start s)(p := R), gv_powers_at_start := (gv_powers_at_start s)(p := P),
       gv_next_id := Some (p + 1), gv_proposals := (gv_proposals s)(p \<mapsto> proposal_to_proto d)\<rparr>"
proof -
  have id: "next_proposal_id s = pr_id d" using run by (simp add: new_proposal_def Let_def split: if_splits)
  have run': "and_then (try_fold (record_snapshot (pr_id d)) (consensus_set (gv_stake s)) s) (\<lambda>s.
        Inr (pr_id d, s\<lparr>gv_next_id := Some (pr_id d + 1), gv_proposals := (gv_proposals s)(pr_id d \<mapsto> proposal_to_proto d)\<rparr>)) = Inr (p, t)"
    using run by (simp only: new_proposal_def Let_def id simp_thms if_False)
  then obtain u where u': "try_fold (record_snapshot (pr_id d)) (consensus_set (gv_stake s)) s = Inr u"
    "Inr (pr_id d, u\<lparr>gv_next_id := Some (pr_id d + 1), gv_proposals := (gv_proposals u)(pr_id d \<mapsto> proposal_to_proto d)\<rparr>) = (Inr (p, t) :: (u64 \<times> gov_state) result)"
    by (rule and_then_InrE)
  have p: "p = next_proposal_id s" "pr_id d = p" and u: "try_fold (record_snapshot p) (consensus_set (gv_stake s)) s = Inr u"
    and t: "t = u\<lparr>gv_next_id := Some (p + 1), gv_proposals := (gv_proposals u)(p \<mapsto> proposal_to_proto d)\<rparr>"
    using u' id by auto
  have e: "gv_powers_at_start s p = []" "gv_rates_at_start s p = (\<lambda>_. None)" using fresh p(1) by (simp_all add: fresh_def)
  have act: "active_in (gv_stake s) (consensus_set (gv_stake s)) i \<longleftrightarrow> sk_states (gv_stake s) i = Some VActive" for i
    using all_active_indexed [OF g] by (auto simp: active_in_def)
  have wf: "bt_wf (gv_powers_at_start s p)" using e(1) by (simp add: bt_wf_Nil)
  have "\<exists>R P. u = s\<lparr>gv_rates_at_start := (gv_rates_at_start s)(p := R), gv_powers_at_start := (gv_powers_at_start s)(p := P)\<rparr>
      \<and> is_snapshot (gv_stake s) R P"
    using snapshot_fold [OF u wf] unfolding act e bt_get_def [of "[]"] map_of.simps is_snapshot_def by blast
  then obtain R P where "u = s\<lparr>gv_rates_at_start := (gv_rates_at_start s)(p := R), gv_powers_at_start := (gv_powers_at_start s)(p := P)\<rparr>"
    "is_snapshot (gv_stake s) R P" by blast
  then show thesis using that [OF p, of R P] by (simp add: t)
qed

lemma bt_mem: "(i \<in> fst ` set m) = (bt_get m i \<noteq> None)"
  by (simp add: bt_get_def map_of_eq_None_iff)

lemma snapshot_keys: "is_snapshot k R P \<Longrightarrow> R i \<noteq> None \<longleftrightarrow> i \<in> fst ` set P"
  unfolding is_snapshot_def bt_mem by auto

text \<open>Everything a submission writes.\<close>

definition submitted :: "gov_env \<Rightarrow> proposal_submit \<Rightarrow> gov_state \<Rightarrow> gov_state \<Rightarrow> bool" where
  "submitted env a s t \<longleftrightarrow> (\<exists>p R P txs params h pos denoms. p = next_proposal_id s \<and> pr_id (ps_proposal a) = p \<and> is_snapshot (gv_stake s) R P
     \<and> gv_params s = Some params \<and> sk_height (gv_stake s) = Some h \<and> gv_sct_position s = Some pos \<and> ps_deposit a = gp_deposit_amount params
     \<and> (\<forall>q. q \<noteq> p \<longrightarrow> txs q = gv_transactions s q) \<and> (gv_transactions s p \<noteq> None \<longrightarrow> txs p \<noteq> None)
     \<and> payload_ok env (txs p) (gv_clients s) (pr_payload (ps_proposal a))
     \<and> t = s\<lparr>gv_transactions := txs, gv_rates_at_start := (gv_rates_at_start s)(p := R), gv_powers_at_start := (gv_powers_at_start s)(p := P),
         gv_next_id := Some (p + 1), gv_proposals := (gv_proposals s)(p \<mapsto> proposal_to_proto (ps_proposal a)),
         gv_deposits := (gv_deposits s)(p \<mapsto> ps_deposit a), gv_denoms := denoms,
         gv_states := (gv_states s)(p \<mapsto> proposal_state_to_proto SVoting), gv_unfinished := bt_insert p () (gv_unfinished s),
         gv_start := (gv_start s)(p \<mapsto> h), gv_end := (gv_end s)(p \<mapsto> h + gp_voting_blocks params),
         gv_start_position := (gv_start_position s)(p \<mapsto> tree_index_to_u64 \<lparr>ix_epoch = ix_epoch pos, ix_block = ix_block pos, ix_commitment = 0\<rparr>),
         gv_proposal_started := True\<rparr>)"

lemma cached:
  assumes "cache_transaction env d (pr_payload d) s = Inr u" "payload_check env s (pr_payload d) = Inr ()"
  obtains txs where "u = s\<lparr>gv_transactions := txs\<rparr>" "\<And>q. q \<noteq> pr_id d \<Longrightarrow> txs q = gv_transactions s q"
    "gv_transactions s (pr_id d) \<noteq> None \<Longrightarrow> txs (pr_id d) \<noteq> None" "payload_ok env (txs (pr_id d)) (gv_clients s) (pr_payload d)"
proof -
  note main = that
  have same: thesis if "u = s" "payload_ok env (gv_transactions s (pr_id d)) (gv_clients s) (pr_payload d)"
    using main [of "gv_transactions s"] that by simp
  show thesis
  proof (cases "pr_payload d")
  case (PCommunityPoolSpend plan)
  then obtain tx where "u = s\<lparr>gv_transactions := (gv_transactions s)(pr_id d \<mapsto> tx)\<rparr>" using assms(1) by (auto simp: result_simps)
  then show thesis using main [of "(gv_transactions s)(pr_id d \<mapsto> tx)"] PCommunityPoolSpend by simp
next
  case (PFreezeIbcClient c)
  then have "u = s" "ge_valid_client env c" "gv_clients s c \<noteq> None"
    using assms by (auto simp: get_client_state_def and_then_Inr_iff ensure_Inr_iff ok_or_Inr_iff)
  then show thesis using PFreezeIbcClient by (intro same) simp_all
next
  case (PUnfreezeIbcClient c)
  then have "u = s" "ge_valid_client env c" "gv_clients s c \<noteq> None"
    using assms by (auto simp: get_client_state_def and_then_Inr_iff ensure_Inr_iff ok_or_Inr_iff)
  then show thesis using PUnfreezeIbcClient by (intro same) simp_all
  qed (rule same; use assms(1) in simp)+
qed

lemma next_fresh: "gov_inv env s \<Longrightarrow> fresh s (next_proposal_id s)"
  using gov_invD(6) [of env s "next_proposal_id s"] by (simp add: known_def)

lemma submit_result:
  assumes run: "submit_check_and_execute env a s = Inr t" and inv: "gov_inv env s"
  shows "submitted env a s t"
proof -
  let ?d = "ps_proposal a"
  obtain params w u p v where params: "gv_params s = Some params" and dep: "ps_deposit a = gp_deposit_amount params"
    and id: "pr_id ?d = next_proposal_id s" and chk: "payload_check env s (pr_payload ?d) = Inr ()"
    and u: "cache_transaction env ?d (pr_payload ?d) s = Inr u" and v: "new_proposal ?d u = Inr (p, v)"
    and w: "start_voting p (ps_deposit a) v = Inr t"
    using run unfolding submit_check_and_execute_def get_governance_params_def
    by (auto simp: result_simps split: if_splits)
  obtain txs where txs: "u = s\<lparr>gv_transactions := txs\<rparr>" "\<And>q. q \<noteq> pr_id ?d \<Longrightarrow> txs q = gv_transactions s q"
    "gv_transactions s (pr_id ?d) \<noteq> None \<Longrightarrow> txs (pr_id ?d) \<noteq> None" "payload_ok env (txs (pr_id ?d)) (gv_clients s) (pr_payload ?d)"
    using cached [OF u chk] by blast
  have nx: "next_proposal_id u = next_proposal_id s" "gv_stake u = gv_stake s" by (simp_all add: txs(1) next_proposal_id_def)
  have fr: "gv_powers_at_start s p = []" "gv_rates_at_start s p = (\<lambda>_. None)" if "p = next_proposal_id s" for p
    using next_fresh [OF inv] that by (simp_all add: fresh_def)
  have su: "fresh u (next_proposal_id u)" using next_fresh [OF inv] unfolding nx by (simp add: fresh_def txs(1))
  have gu: "good (ge_stake env) (gv_stake u)" using gov_invD(1) [OF inv] by (simp only: nx)
  obtain R P where R: "p = next_proposal_id s" "is_snapshot (gv_stake s) R P"
    "v = u\<lparr>gv_rates_at_start := (gv_rates_at_start u)(p := R), gv_powers_at_start := (gv_powers_at_start u)(p := P),
       gv_next_id := Some (p + 1), gv_proposals := (gv_proposals u)(p \<mapsto> proposal_to_proto ?d)\<rparr>"
    by (rule new_proposal_result [OF v gu su]) (simp only: nx)
  obtain h pos where h: "sk_height (gv_stake s) = Some h" "gv_sct_position s = Some pos"
    and t: "t = v\<lparr>gv_deposits := (gv_deposits v)(p \<mapsto> ps_deposit a), gv_denoms := insert (receipt_denom p) (insert (nft_denom p NDeposit) (gv_denoms v)),
         gv_states := (gv_states v)(p \<mapsto> proposal_state_to_proto SVoting), gv_unfinished := bt_insert p () (gv_unfinished v),
         gv_start := (gv_start v)(p \<mapsto> h), gv_end := (gv_end v)(p \<mapsto> h + gp_voting_blocks params),
         gv_start_position := (gv_start_position v)(p \<mapsto> tree_index_to_u64 \<lparr>ix_epoch = ix_epoch pos, ix_block = ix_block pos, ix_commitment = 0\<rparr>),
         gv_proposal_started := True\<rparr>"
    using w params unfolding start_voting_def Let_def
    by (auto simp: result_simps put_proposal_state_def register_denom_def R(3) txs(1) get_governance_params_def get_block_height_def)
  have "pr_id ?d = p" using id R(1) by simp
  then show ?thesis
    using R(1,2) params h dep txs(2-4) unfolding submitted_def t R(3) txs(1)
    by (intro exI [of _ p] exI [of _ R] exI [of _ P] exI [of _ txs] exI [of _ params] exI [of _ h] exI [of _ pos]
        exI [of _ "insert (receipt_denom p) (insert (nft_denom p NDeposit) (gv_denoms s))"]) simp
qed

lemma submitted_keeps:
  assumes inv: "gov_inv env s" and sub: "submitted env a s t"
    and decoded: "proposal_from_proto (ge_valid_client env) m = Inr (ps_proposal a)" and room: "pr_id (ps_proposal a) \<noteq> - 1"
  shows "keeps env s t" "known t (pr_id (ps_proposal a))" "proposal_state_of t (pr_id (ps_proposal a)) = Inr (Some SVoting)"
proof -
  let ?d = "ps_proposal a"
  obtain p R P txs params h pos denoms where p: "p = next_proposal_id s" "pr_id ?d = p" and snap: "is_snapshot (gv_stake s) R P"
    and params: "gv_params s = Some params" and pos: "gv_sct_position s = Some pos"
    and txs': "\<forall>q. q \<noteq> p \<longrightarrow> txs q = gv_transactions s q" "gv_transactions s p \<noteq> None \<longrightarrow> txs p \<noteq> None"
    and pay: "payload_ok env (txs p) (gv_clients s) (pr_payload ?d)"
    and t: "t = s\<lparr>gv_transactions := txs, gv_rates_at_start := (gv_rates_at_start s)(p := R), gv_powers_at_start := (gv_powers_at_start s)(p := P),
         gv_next_id := Some (p + 1), gv_proposals := (gv_proposals s)(p \<mapsto> proposal_to_proto ?d),
         gv_deposits := (gv_deposits s)(p \<mapsto> ps_deposit a), gv_denoms := denoms,
         gv_states := (gv_states s)(p \<mapsto> proposal_state_to_proto SVoting), gv_unfinished := bt_insert p () (gv_unfinished s),
         gv_start := (gv_start s)(p \<mapsto> h), gv_end := (gv_end s)(p \<mapsto> h + gp_voting_blocks params),
         gv_start_position := (gv_start_position s)(p \<mapsto> tree_index_to_u64 \<lparr>ix_epoch = ix_epoch pos, ix_block = ix_block pos, ix_commitment = 0\<rparr>),
         gv_proposal_started := True\<rparr>"
    using sub unfolding submitted_def by (elim exE conjE) (rule that, assumption+)
  have txs: "\<And>q. q \<noteq> p \<Longrightarrow> txs q = gv_transactions s q" "gv_transactions s p \<noteq> None \<Longrightarrow> txs p \<noteq> None" using txs' by blast+
  have fr: "fresh s p" using next_fresh [OF inv] p(1) by simp
  have less: "q < p + 1 \<longleftrightarrow> q < p \<or> q = p" for q
  proof -
    have "1 + p \<noteq> 0" using room p(2) by (metis add.commute add_eq_0_iff)
    then have "unat (1 + p) = Suc (unat p)" by (rule unatSuc)
    then show ?thesis by (auto simp: word_less_nat_alt add.commute [of p] word_unat_eq_iff)
  qed
  have "next_proposal_id t = p + 1" unfolding next_proposal_id_def by (simp add: t)
  then have K: "known t q \<longleftrightarrow> known s q \<or> q = p" for q using less by (simp add: known_def flip: p(1))
  have np: "\<not> known s p" using p(1) by (simp add: known_def)
  have kept: "gv_transactions s q \<noteq> None \<Longrightarrow> txs q \<noteq> None" for q using txs by (cases "q = p") auto
  have un: "bt_get (gv_unfinished t) q = (if q = p then Some () else bt_get (gv_unfinished s) q)" for q
    using gov_invD(3) [OF inv] by (simp add: t)
  have here: "stored_at env t p SVoting ?d"
    using un [of p] pay proposal_stable [OF decoded] by (simp add: stored_at_def t)
  have others: "stored_at env t q x e" if "known s q" "stored_at env s q x e" for q x e
  proof -
    have "q \<noteq> p" using that np by auto
    moreover have "payload_ok env (txs q) (gv_clients s) (pr_payload e)" using that txs(1) [OF \<open>q \<noteq> p\<close>] by (simp add: stored_at_def)
    ultimately show ?thesis using that(2) un [of q] by (simp add: stored_at_def t)
  qed
  have "gov_inv env t"
    unfolding gov_inv_def
  proof (intro conjI allI impI)
    show "good (ge_stake env) (gv_stake t)" "gv_params t \<noteq> None" "bt_wf (gv_untallied t)" "bt_wf (gv_unfinished t)"
      using inv by (simp_all add: gov_inv_def t)
    show "voters_ok t q" for q
      using gov_invD(5) [OF inv, of q] fr snap by (cases "q = p") (simp_all add: voters_ok_def t fresh_def is_snapshot_def bt_wf_Nil)
    show "fresh t q" if "\<not> known t q" for q
    proof -
      have "q \<noteq> p" "fresh s q" using that gov_invD(6) [OF inv, of q] K by auto
      then show ?thesis using un [of q] by (simp add: fresh_def t)
    qed
    show "\<exists>x e. stored_at env t q x e" if "known t q" for q
      using that K [of q] here others [of q] gov_invD(7) [OF inv, of q] by (cases "known s q") auto
    show "untallied_ok env t"
      unfolding untallied_ok_def
    proof (intro allI impI)
      fix q k nf i v assume "bt_get (gv_untallied t) (q, k, nf) = Some (i, v)"
      then have "bt_get (gv_untallied s) (q, k, nf) = Some (i, v)" by (simp add: t)
      then have *: "k = se_show_id (ge_stake env) i \<and> i \<in> fst ` set (gv_powers_at_start s q) \<and> known s q \<and> gv_voted s q nf \<noteq> None"
        using gov_invD(8) [OF inv] unfolding untallied_ok_def by blast
      moreover have "q \<noteq> p" using * np by auto
      ultimately show "k = se_show_id (ge_stake env) i \<and> i \<in> fst ` set (gv_powers_at_start t q) \<and> known t q \<and> gv_voted t q nf \<noteq> None"
        using K by (simp add: t)
    qed
    show "deliveries_ok t" using gov_invD(9) [OF inv] kept by (simp add: deliveries_ok_def t)
    show "rates_known t"
      unfolding rates_known_def
    proof (intro allI)
      show "gv_rates_at_start t q i \<noteq> None \<longleftrightarrow> i \<in> fst ` set (gv_powers_at_start t q)" for q i
        using gov_invD(10) [OF inv] snapshot_keys [OF snap, of i] by (cases "q = p") (simp_all add: rates_known_def t)
    qed
  qed
  moreover have "evolves s t"
    unfolding evolves_def
  proof (intro allI impI conjI)
    fix q assume q: "known s q"
    then have "q \<noteq> p" using np by auto
    then show "known t q" "frozen s t q" "votes_kept s t q" "state_moves s t q"
      using q K by (auto simp: frozen_def votes_kept_def state_moves_def proposal_state_of_def t)
  qed
  ultimately show "keeps env s t" by simp
  show "known t (pr_id ?d)" using K p(2) by simp
  show "proposal_state_of t (pr_id ?d) = Inr (Some SVoting)" using stored_reads(1) [OF here] p(2) by simp
qed

section \<open>The other actions\<close>

lemma votable_iff:
  assumes "gov_inv env s"
  shows "check_proposal_votable s p = Inr () \<longleftrightarrow> (\<exists>d. known s p \<and> stored_at env s p SVoting d)"
proof
  assume c: "check_proposal_votable s p = Inr ()"
  then have "proposal_state_of s p = Inr (Some SVoting)"
    unfolding check_proposal_votable_def by (elim and_then_InrE) (simp split: option.splits proposal_state.splits)
  moreover from this have "known s p" by (rule known_iff [OF assms])
  moreover from this obtain st d where "stored_at env s p st d" using gov_invD(7) [OF assms] by blast
  ultimately show "\<exists>d. known s p \<and> stored_at env s p SVoting d" using stored_reads(1) by fastforce
next
  assume "\<exists>d. known s p \<and> stored_at env s p SVoting d"
  then show "check_proposal_votable s p = Inr ()" using stored_reads(1) by (fastforce simp: check_proposal_votable_def)
qed

lemma withdraw_keeps:
  assumes inv: "gov_inv env s" and stateless: "proposal_withdraw_check_stateless a = Inr ()" and run: "proposal_withdraw_check_and_execute a s = Inr t"
  shows "keeps env s t"
proof -
  have "check_proposal_votable s (pw_proposal a) = Inr ()" using run by (auto simp: proposal_withdraw_check_and_execute_def result_simps)
  then obtain d where d: "known s (pw_proposal a)" "stored_at env s (pw_proposal a) SVoting d" using votable_iff [OF inv] by blast
  have len: "length (pw_reason a) \<le> MAX_VALIDATOR_VOTE_REASON_LENGTH"
    using stateless by (simp add: proposal_withdraw_check_stateless_def result_simps MAX_VALIDATOR_VOTE_REASON_LENGTH_def)
  have "(SVoting, SWithdrawn (pw_reason a)) \<in> proposal_edges" by (simp add: proposal_edges_def)
  then have k: "keeps env s (put_proposal_state (pw_proposal a) (SWithdrawn (pw_reason a)) s)"
    using keeps_state(1) [OF inv d(2), of "SWithdrawn (pw_reason a)" "SWithdrawn (pw_reason a)"] len d(1) by auto
  obtain x where "t = put_proposal_state (pw_proposal a) (SWithdrawn (pw_reason a)) s\<lparr>gv_denoms := x\<rparr>"
    using run by (auto simp: proposal_withdraw_check_and_execute_def register_denom_def result_simps)
  moreover have "evolves u (u\<lparr>gv_denoms := x\<rparr>)" for u by (rule evolves_frame) (simp_all add: known_def next_proposal_id_def fun_eq_iff)
  ultimately show ?thesis using k evolves_trans by auto
qed

lemma deposit_claim_result:
  assumes inv: "gov_inv env s" and run: "claim_check_and_execute a s = Inr t"
  obtains out d where "known s (dc_proposal a)" "stored_at env s (dc_proposal a) (SFinished out) d" "gv_deposits s (dc_proposal a) = Some (dc_deposit a)"
    "dc_outcome a = outcome_map (\<lambda>_. ()) out"
    "t = put_proposal_state (dc_proposal a) (SClaimed out) (register_denom (nft_denom (dc_proposal a) (claimed_nft out)) s)"
proof -
  obtain out where out: "proposal_state_of s (dc_proposal a) = Inr (Some (SFinished out))" "dc_outcome a = outcome_map (\<lambda>_. ()) out"
    and t: "t = put_proposal_state (dc_proposal a) (SClaimed out) (register_denom (nft_denom (dc_proposal a) (claimed_nft out)) s)"
    and dep: "check_proposal_claim_valid_deposit s (dc_proposal a) (dc_deposit a) = Inr ()"
    using run unfolding claim_check_and_execute_def by (elim and_then_InrE) (auto split: option.splits proposal_state.splits if_splits)
  have k: "known s (dc_proposal a)" by (rule known_iff [OF inv out(1)])
  then obtain st d where "stored_at env s (dc_proposal a) st d" using gov_invD(7) [OF inv] by blast
  moreover from this have "st = SFinished out" using stored_reads(1) out(1) by fastforce
  moreover have "gv_deposits s (dc_proposal a) = Some (dc_deposit a)" using dep by (auto simp: check_proposal_claim_valid_deposit_def result_simps)
  ultimately show thesis using that [OF k] out(2) t by blast
qed

lemma keeps_denom: "gov_inv env s \<Longrightarrow> keeps env s (register_denom x s)"
  unfolding register_denom_def by (auto intro!: evolves_frame simp: known_def next_proposal_id_def)

lemma claim_keeps:
  assumes inv: "gov_inv env s" and run: "claim_check_and_execute a s = Inr t"
  shows "keeps env s t"
proof -
  obtain out d where c: "known s (dc_proposal a)" "stored_at env s (dc_proposal a) (SFinished out) d"
    "t = put_proposal_state (dc_proposal a) (SClaimed out) (register_denom (nft_denom (dc_proposal a) (claimed_nft out)) s)"
    by (rule deposit_claim_result [OF inv run])
  let ?u = "register_denom (nft_denom (dc_proposal a) (claimed_nft out)) s"
  have u: "keeps env s ?u" by (rule keeps_denom [OF inv])
  have "stored_at env ?u (dc_proposal a) (SFinished out) d" "known ?u (dc_proposal a)"
    using c(1,2) by (simp_all add: register_denom_def stored_at_def known_def next_proposal_id_def)
  moreover have "reason_fits out" using c(2) by (simp add: stored_at_def)
  ultimately have "keeps env ?u t" using keeps_state(1) [of env ?u "dc_proposal a" "SFinished out" d "SClaimed out" "SFinished out"] u by (simp add: c(3))
  then show ?thesis by (rule keeps_trans [OF u])
qed

text \<open>A validator's vote, and the emergency path it may take.\<close>

lemma emergency_keeps:
  assumes inv: "gov_inv env s" and st: "stored_at env s p SVoting d" and k: "known s p" and run: "try_emergency env p (pr_payload d) s = Inr t"
    and h: "sk_height (gv_stake s) = Some h \<or> is_emergency (pr_payload d) \<or> is_ibc_freeze (pr_payload d)"
  shows "keeps env s t"
proof (cases "(is_emergency (pr_payload d) \<or> is_ibc_freeze (pr_payload d)) \<and> t \<noteq> s")
  case False
  then have "t = s" using run by (auto simp: try_emergency_def)
  then show ?thesis using inv by (simp add: evolves_refl)
next
  case True
  then obtain w where w: "enact_proposal env p (pr_payload d) s = Inr w" and t: "t = put_proposal_state p (SFinished OPassed) w"
    using run by (auto simp: try_emergency_def result_simps split: if_splits)
  have enacted: "keeps env s w \<and> same_proposals s w"
  proof (cases "pr_payload d")
    case (PEmergency halt)
    moreover have "evolves s (s\<lparr>gv_halt_bit := x\<rparr>)" for x by (rule evolves_frame) (simp_all add: known_def next_proposal_id_def fun_eq_iff)
    ultimately show ?thesis using w inv by (cases halt) (auto simp: signal_halt_def same_proposals_def evolves_refl)
  next
    case (PFreezeIbcClient c)
    then obtain x where "gv_clients s c = Some x" "w = put_client c (ge_freeze env x) s"
      using w by (auto simp: change_client_def get_client_state_def result_simps)
    then show ?thesis using keeps_client [OF inv, of c] by (simp add: same_proposals_def put_client_def)
  next
    case (PUnfreezeIbcClient c)
    then obtain x where "gv_clients s c = Some x" "w = put_client c (ge_unfreeze env x) s"
      using w by (auto simp: change_client_def get_client_state_def result_simps)
    then show ?thesis using keeps_client [OF inv, of c] by (simp add: same_proposals_def put_client_def)
  qed (use True in \<open>simp_all add: is_emergency_def is_ibc_freeze_def\<close>)
  have "stored_at env w p SVoting d" "known w p"
    using same_stored [of s w env p SVoting d] enacted st k by (simp_all add: same_proposals_def known_def next_proposal_id_def)
  moreover have "(SVoting, SFinished OPassed) \<in> proposal_edges" by (simp add: proposal_edges_def)
  ultimately have "keeps env w t"
    using keeps_state(1) [of env w p SVoting d "SFinished OPassed" "SFinished OPassed"] enacted by (auto simp: t)
  then show ?thesis using enacted keeps_trans by blast
qed

lemma validator_vote_result:
  assumes inv: "gov_inv env s" and run: "validator_vote_check_and_execute env a s = Inr t"
  obtains d where "known s (vv_proposal a)" "stored_at env s (vv_proposal a) SVoting d"
    "vv_identity a \<in> fst ` set (gv_powers_at_start s (vv_proposal a))" "bt_get (gv_validator_votes s (vv_proposal a)) (vv_identity a) = None"
    "\<exists>v. sk_definitions (gv_stake s) (vv_identity a) = Some v \<and> v_governance_key v = vv_governance_key a"
    "try_emergency env (vv_proposal a) (pr_payload d)
       (cast_validator_vote (vv_proposal a) (vv_identity a) (vv_vote a) (vv_reason a) s) = Inr t"
proof -
  let ?p = "vv_proposal a" and ?i = "vv_identity a"
  let ?u = "cast_validator_vote ?p ?i (vv_vote a) (vv_reason a) s"
  have votable: "check_proposal_votable s ?p = Inr ()" and active: "check_validator_active_at_proposal_start s ?p ?i = Inr ()"
    and no: "check_validator_has_not_voted s ?p ?i = Inr ()" and key: "check_governance_key_matches_validator s ?i (vv_governance_key a) = Inr ()"
    using run by (auto simp: validator_vote_check_and_execute_def result_simps)
  obtain d where d: "known s ?p" "stored_at env s ?p SVoting d" using votable_iff [OF inv] votable by blast
  have "proposal_payload_of env ?u ?p = Inr (Some (pr_payload d))"
    using stored_reads(3) [OF d(2)] by (simp add: proposal_payload_of_def proposal_definition_def cast_validator_vote_def)
  then have em: "try_emergency env ?p (pr_payload d) ?u = Inr t"
    using run stored_reads(1) [OF d(2)] by (simp add: validator_vote_check_and_execute_def result_simps is_withdrawn_def Let_def)
  have "bt_get (powers_at_start s ?p) ?i \<noteq> None" using active by (auto simp: check_validator_active_at_proposal_start_def result_simps)
  then have "?i \<in> fst ` set (powers_at_start s ?p)" by (simp add: bt_mem)
  then have "?i \<in> fst ` set (gv_powers_at_start s ?p)" using powers_at_start_keys [of s ?p] by (metis set_map)
  then show thesis using that [OF d] no key em
    by (auto simp: check_validator_has_not_voted_def check_governance_key_matches_validator_def result_simps)
qed

lemma validator_vote_keeps:
  assumes inv: "gov_inv env s" and run: "validator_vote_check_and_execute env a s = Inr t"
  shows "keeps env s t"
proof -
  obtain d where d: "known s (vv_proposal a)" "stored_at env s (vv_proposal a) SVoting d"
    and active: "vv_identity a \<in> fst ` set (gv_powers_at_start s (vv_proposal a))"
    and no: "bt_get (gv_validator_votes s (vv_proposal a)) (vv_identity a) = None"
    and em: "try_emergency env (vv_proposal a) (pr_payload d) (cast_validator_vote (vv_proposal a) (vv_identity a) (vv_vote a) (vv_reason a) s) = Inr t"
    by (rule validator_vote_result [OF inv run])
  let ?u = "cast_validator_vote (vv_proposal a) (vv_identity a) (vv_vote a) (vv_reason a) s"
  have u: "keeps env s ?u" by (rule keeps_validator_vote [OF inv d(1) active no])
  have "stored_at env ?u (vv_proposal a) SVoting d" "known ?u (vv_proposal a)"
    using d by (simp_all add: cast_validator_vote_def stored_at_def known_def next_proposal_id_def)
  then have "keeps env ?u t"
    using emergency_keeps [of env ?u "vv_proposal a" d t] em u by (cases "is_emergency (pr_payload d) \<or> is_ibc_freeze (pr_payload d)") (auto simp: try_emergency_def evolves_refl)
  then show ?thesis by (rule keeps_trans [OF u])
qed

lemma delegation_asset_frame:
  "gv_stake t = gv_stake s \<Longrightarrow> validator_by_delegation_asset env t x = validator_by_delegation_asset env s x"
  unfolding validator_by_delegation_asset_def by (simp only:)

lemma delegator_vote_result:
  assumes inv: "gov_inv env s" and run: "delegator_vote_check_and_execute env a s = Inr t"
  obtains d i u r where "known s (dv_proposal a)" "stored_at env s (dv_proposal a) SVoting d" "gv_voted s (dv_proposal a) (dv_nullifier a) = None"
    "validator_by_delegation_asset env s (v_asset (dv_value a)) = Inr i" "i \<in> fst ` set (gv_powers_at_start s (dv_proposal a))"
    "gv_rates_at_start s (dv_proposal a) i = Some r" "unbonded_amount r (v_amount (dv_value a)) = Inr (dv_unbonded a)"
    "mark_nullifier_voted_on_proposal (dv_proposal a) (dv_nullifier a) s = Inr u"
    "t = cast_delegator_vote env (dv_proposal a) i (dv_vote a) (dv_nullifier a) (dv_unbonded a) u"
proof -
  let ?p = "dv_proposal a"
  have votable: "check_proposal_votable s ?p = Inr ()" and unvoted: "check_nullifier_unvoted_for_proposal s ?p (dv_nullifier a) = Inr ()"
    and exchange: "check_unbonded_amount_correct_exchange_for_proposal env s ?p (dv_value a) (dv_unbonded a) = Inr ()"
    using run by (auto simp: delegator_vote_check_and_execute_def result_simps)
  obtain u j where u: "mark_nullifier_voted_on_proposal ?p (dv_nullifier a) s = Inr u"
    "validator_by_delegation_asset env u (v_asset (dv_value a)) = Inr j"
    "t = cast_delegator_vote env ?p j (dv_vote a) (dv_nullifier a) (dv_unbonded a) u"
    using run by (auto simp: delegator_vote_check_and_execute_def result_simps)
  obtain d where d: "known s ?p" "stored_at env s ?p SVoting d" using votable_iff [OF inv] votable by blast
  have "gv_stake u = gv_stake s" using u(1) by (auto simp: mark_nullifier_voted_on_proposal_def result_simps)
  then have j: "validator_by_delegation_asset env s (v_asset (dv_value a)) = Inr j" using u(2) delegation_asset_frame by metis
  then obtain r where r: "gv_rates_at_start s ?p j = Some r" "unbonded_amount r (v_amount (dv_value a)) = Inr (dv_unbonded a)"
    using exchange by (auto simp: check_unbonded_amount_correct_exchange_for_proposal_def result_simps)
  have "j \<in> fst ` set (gv_powers_at_start s ?p)" using gov_invD(10) [OF inv] r(1) unfolding rates_known_def by blast
  moreover have "gv_voted s ?p (dv_nullifier a) = None" using unvoted by (simp add: check_nullifier_unvoted_for_proposal_def result_simps)
  ultimately show thesis using that [OF d _ j _ r u(1,3)] by blast
qed

lemma delegator_vote_keeps:
  assumes inv: "gov_inv env s" and run: "delegator_vote_check_and_execute env a s = Inr t"
  shows "keeps env s t"
proof -
  obtain d i u where v: "known s (dv_proposal a)" "gv_voted s (dv_proposal a) (dv_nullifier a) = None" "i \<in> fst ` set (gv_powers_at_start s (dv_proposal a))"
    "mark_nullifier_voted_on_proposal (dv_proposal a) (dv_nullifier a) s = Inr u"
    "t = cast_delegator_vote env (dv_proposal a) i (dv_vote a) (dv_nullifier a) (dv_unbonded a) u"
    by (rule delegator_vote_result [OF inv run])
  show ?thesis unfolding v(5) by (rule keeps_delegator_vote [OF inv v(1,3,4,2)])
qed

end
