(* ===== verification/GovSteps.thy ===== *)
theory GovSteps
  imports GovChain
begin

text \<open>
  The blocks of the application with governance in them: every step keeps the invariant, and so do the chains that start at
  genesis. The interpretation at the end states what a later state may rely on.
\<close>

section \<open>Blocks\<close>

lemma app_end_block_good':
  assumes "app_end_block (ge_stake env) h issuance upgrade k = Inr k'" "sk_height k = Some h" "good (ge_stake env) k" "inj (se_show_id (ge_stake env))"
  shows "good (ge_stake env) k'"
  using app_end_block_good(1) [OF assms(1,2,3,4)] .

lemma begin_keeps:
  assumes inv: "gov_inv env s" and run: "gov_begin_block env h evidence votes s = Inr (txs, t)" and show_inj: "inj (se_show_id (ge_stake env))"
  shows "keeps env s t"
proof -
  obtain u k where u: "apply_param_changes env h s = Inr u"
    and k: "stake_begin_block (ge_stake env) evidence votes (sct_begin_block h (gv_stake u)) = Inr k" and t: "t = u\<lparr>gv_stake := k\<rparr>"
    using run unfolding gov_begin_block_def Let_def by (elim and_then_InrE) auto
  have ku: "keeps env s u"
  proof -
    consider "u = s" | params other where "u = s\<lparr>gv_params := Some params, gv_other_params := other\<rparr>"
      using u unfolding apply_param_changes_def by (auto simp: result_simps split: option.splits)
    then show ?thesis
    proof cases
      case (2 params other)
      have "keeps env s (s\<lparr>gv_params := Some params\<rparr>)" by (rule keeps_params [OF inv])
      moreover have "evolves w (w\<lparr>gv_other_params := other\<rparr>)" for w by (rule evolves_frame) (simp_all add: known_def next_proposal_id_def fun_eq_iff)
      ultimately show ?thesis unfolding 2 using evolves_trans by auto
    qed (use inv in \<open>simp add: evolves_refl\<close>)
  qed
  have "good (ge_stake env) (sct_begin_block h (gv_stake u))"
    using gov_invD(1) [of env u] ku by (simp add: sct_begin_block_def good_def stake_inv_def)
  then have "good (ge_stake env) k" using begin_block_good(1) [OF k] show_inj by blast
  then show ?thesis using keeps_stake [of env u k] ku evolves_trans unfolding t by blast
qed

text \<open>The transactions that are due can always be read.\<close>

lemma collect_ok: "(\<And>p. p \<in> set ps \<Longrightarrow> gv_transactions s p \<noteq> None) \<Longrightarrow> \<exists>txs. collect_transactions s ps = Inr txs"
proof (induction ps)
  case (Cons p ps)
  then obtain tx txs where "gv_transactions s p = Some tx" "collect_transactions s ps = Inr txs" by fastforce
  then show ?case by simp
qed simp

lemma pending_ok:
  assumes "gov_inv env s" "sk_height (gv_stake s) = Some h"
  shows "\<exists>txs. pending_community_pool_transactions s = Inr txs"
proof -
  have "gv_transactions s q \<noteq> None" if q: "q \<in> set (map snd (gv_deliveries s h))" for q
  proof -
    obtain x where "x \<in> set (gv_deliveries s h)" "snd x = q" using q unfolding set_map by blast
    then have "(fst x, q) \<in> set (gv_deliveries s h)" by (metis prod.collapse)
    then have "bt_get (gv_deliveries s h) (fst x) = Some q"
      using gov_invD(9) [OF assms(1)] by (simp add: deliveries_ok_def bt_get_def bt_wf_def strict_sorted_iff)
    then show ?thesis using gov_invD(9) [OF assms(1)] unfolding deliveries_ok_def by blast
  qed
  then obtain txs where "collect_transactions s (map snd (gv_deliveries s h)) = Inr txs" using collect_ok by blast
  then show ?thesis using assms(2) by (simp add: pending_community_pool_transactions_def get_block_height_def)
qed

lemma end_keeps:
  assumes inv: "gov_inv env s" and h: "sk_height (gv_stake s) = Some h" and run: "gov_app_end_block env h issuance s = Inr t"
    and show_inj: "inj (se_show_id (ge_stake env))"
  shows "keeps env s t"
proof -
  obtain u where u: "gov_end_block env s = Inr u" "keeps env s u" "gv_stake u = gv_stake s" by (rule end_block_ok [OF inv h])
  obtain ending upgrade k where k: "app_end_block (ge_stake env) h issuance upgrade (gv_stake (if ending then gov_end_epoch u else u)) = Inr k"
    and t: "t = (if ending then gov_end_epoch u else u)\<lparr>gv_stake := k\<rparr>"
    using run u(1) unfolding gov_app_end_block_def Let_def by (elim and_then_InrE) auto
  let ?w = "if ending then gov_end_epoch u else u"
  have w: "keeps env u ?w" using u(2) keeps_sweep [of env u None] by (simp add: gov_end_epoch_def evolves_refl)
  have "gv_stake ?w = gv_stake s" using u(3) sweep_same(1) [of env u None] u(2) by (simp add: gov_end_epoch_def same_proposals_def)
  then have "good (ge_stake env) k" using app_end_block_good(1) [OF k] h gov_invD(1) [OF inv] show_inj by simp
  then have "keeps env ?w t" unfolding t using keeps_stake [of env ?w k] w by blast
  then show ?thesis using u(2) w keeps_trans by blast
qed

lemma commit_keeps:
  assumes inv: "gov_inv env s" and run: "gov_commit s = Inr (halt, t)"
  shows "keeps env s t"
proof -
  obtain upgrade where "Inr (is_chain_halted s \<or> upgrade, (if upgrade then signal_halt s else s)
      \<lparr>gv_stake := app_commit (gv_stake (if upgrade then signal_halt s else s)), gv_proposal_started := False\<rparr>) = (Inr (halt, t) :: (bool \<times> gov_state) result)"
    using run unfolding gov_commit_def Let_def by (elim and_then_InrE)
  then have t: "t = (if upgrade then signal_halt s else s)\<lparr>gv_stake := app_commit (gv_stake s), gv_proposal_started := False\<rparr>"
    by (cases upgrade) (simp_all add: signal_halt_def)
  have g: "good (ge_stake env) (app_commit (gv_stake s))" using gov_invD(1) [OF inv] by (simp add: app_commit_def good_def stake_inv_def powers_ok_def)
  have "gov_inv env (s\<lparr>gv_stake := app_commit (gv_stake s)\<rparr>)" using keeps_stake [OF inv g] by blast
  then have "gov_inv env t" by (cases upgrade) (simp_all add: t signal_halt_def gov_inv_defs)
  moreover have "evolves s t" by (rule evolves_frame) (simp_all add: t signal_halt_def known_def next_proposal_id_def fun_eq_iff)
  ultimately show ?thesis by simp
qed

text \<open>The identifier of a proposal is 64 bits wide: no chain gets to the last one.\<close>

fun in_range :: "gov_event \<Rightarrow> bool" where
  "in_range (GSubmit a) = (pr_id (ps_proposal a) \<noteq> - 1)"
| "in_range _ = True"

lemma step_keeps:
  assumes step: "gov_step env ev s t" and inv: "gov_inv env s" and show_inj: "inj (se_show_id (ge_stake env))" and room: "in_range ev"
  shows "keeps env s t"
  using step
proof cases
  case (beginning h evidence votes txs)
  then show ?thesis using begin_keeps [OF inv _ show_inj] by simp
next
  case (staking sev k)
  have "good (ge_stake env) k" using step_good(1) [OF staking(3) gov_invD(1) [OF inv] show_inj] .
  then show ?thesis using keeps_stake [OF inv] staking(2) by simp
next
  case (submitting m a)
  then show ?thesis using submitted_keeps(1) [OF inv submit_result [OF submitting(4) inv] submitting(2)] room by simp
next
  case (withdrawing a)
  then show ?thesis using withdraw_keeps [OF inv] by simp
next
  case (validator_voting a)
  then show ?thesis using validator_vote_keeps [OF inv] by simp
next
  case (delegator_voting effect_hash anchor a)
  then show ?thesis using delegator_vote_keeps [OF inv] by simp
next
  case (claiming a)
  then show ?thesis using claim_keeps [OF inv] by simp
next
  case (spending nf)
  then obtain x where "t = s\<lparr>gv_spent := x\<rparr>" by (auto simp: nullify_def result_simps)
  moreover have "evolves s (s\<lparr>gv_spent := x\<rparr>)" by (rule evolves_frame) (simp_all add: known_def next_proposal_id_def fun_eq_iff)
  ultimately show ?thesis using inv by simp
next
  case (tree position)
  have "evolves s (s\<lparr>gv_sct_position := position\<rparr>)" by (rule evolves_frame) (simp_all add: known_def next_proposal_id_def fun_eq_iff)
  then show ?thesis using inv tree by simp
next
  case (client c x)
  then show ?thesis using keeps_client [OF inv] by simp
next
  case (ending h issuance)
  then show ?thesis using end_keeps [OF inv _ _ show_inj] by simp
next
  case (commit halt)
  then show ?thesis using commit_keeps [OF inv] by simp
qed

section \<open>Chains\<close>

definition gov_empty :: gov_state where
  "gov_empty = \<lparr>gv_stake = empty_store, gv_params = None, gv_next_id = None, gv_proposals = \<lambda>_. None, gv_states = \<lambda>_. None, gv_unfinished = [],
     gv_deposits = \<lambda>_. None, gv_start = \<lambda>_. None, gv_end = \<lambda>_. None, gv_start_position = \<lambda>_. None, gv_rates_at_start = \<lambda>_ _. None,
     gv_powers_at_start = \<lambda>_. [], gv_validator_votes = \<lambda>_. [], gv_vote_reasons = \<lambda>_ _. None, gv_voted = \<lambda>_ _. None, gv_untallied = [],
     gv_tallied = \<lambda>_. [], gv_spent = \<lambda>_. None, gv_sct_position = None, gv_clients = \<lambda>_. None, gv_other_params = [], gv_param_changes = \<lambda>_. None,
     gv_transactions = \<lambda>_. None, gv_deliveries = \<lambda>_. [], gv_next_upgrade = None, gv_halt_bit = None, gv_denoms = {}, gv_proposal_started = False\<rparr>"

inductive gov_reachable :: "gov_env \<Rightarrow> gov_state \<Rightarrow> bool" for env where
  genesis: "genesis_ok g \<Longrightarrow> stake_init_chain (ge_stake env) (Some g) (sct_init_chain duration empty_store) = Inr k
    \<Longrightarrow> gov_reachable env (gov_init_chain (Some params) (gov_empty\<lparr>gv_stake := k, gv_other_params := other\<rparr>))"
| step: "gov_reachable env s \<Longrightarrow> gov_step env ev s t \<Longrightarrow> in_range ev \<Longrightarrow> gov_reachable env t"

inductive gov_steps :: "gov_env \<Rightarrow> gov_state \<Rightarrow> gov_state \<Rightarrow> bool" for env where
  none: "gov_steps env s s"
| more: "gov_steps env s t \<Longrightarrow> gov_step env ev t u \<Longrightarrow> in_range ev \<Longrightarrow> gov_steps env s u"

lemma gov_genesis_inv:
  assumes "genesis_ok g" "stake_init_chain (ge_stake env) (Some g) (sct_init_chain duration empty_store) = Inr k" "inj (se_show_id (ge_stake env))"
  shows "gov_inv env (gov_init_chain (Some params) (gov_empty\<lparr>gv_stake := k, gv_other_params := other\<rparr>))"
  using genesis_good [OF assms(2,1,3)]
  by (simp add: gov_init_chain_def gov_empty_def gov_inv_def voters_ok_def fresh_def untallied_ok_def deliveries_ok_def rates_known_def known_def
      next_proposal_id_def bt_wf_Nil bt_get_def)

lemma gov_reachable_inv:
  assumes "gov_reachable env s" "inj (se_show_id (ge_stake env))"
  shows "gov_inv env s"
  using assms(1)
proof induction
  case (genesis g duration k params other)
  then show ?case by (rule gov_genesis_inv [OF _ _ assms(2)])
next
  case (step s ev t)
  then show ?case using step_keeps assms(2) by blast
qed

lemma gov_steps_keep:
  assumes "gov_steps env s t" "gov_inv env s" "inj (se_show_id (ge_stake env))"
  shows "keeps env s t"
  using assms(1,2)
proof induction
  case (none s)
  then show ?case by (simp add: evolves_refl)
next
  case (more s t ev u)
  then have t: "keeps env s t" by blast
  then have "keeps env t u" using step_keeps more.hyps(2,3) assms(3) by blast
  then show ?case by (rule keeps_trans [OF t])
qed

end
