(* ===== verification/GovExamples.thy ===== *)
theory GovExamples
  imports GovSteps StakeExamples
begin

text \<open>
  A chain whose only validator submits a proposal in the genesis block, with a voting period of no blocks, and the delegators' votes on
  it; the instances of the properties of governance start from it.
\<close>

definition demo_gov_env :: gov_env where
  "demo_gov_env = \<lparr>ge_stake = stake_demo_env, ge_denom_of = (\<lambda>a. if a = AssetId 2 then Some (DelegationDenom [1]) else None),
     ge_nft = (\<lambda>_ _. AssetId 5), ge_staking_token = AssetId 1, ge_verify_vote = (\<lambda>_ _ _ _ _ _. True), ge_verify_auth = (\<lambda>_ _ _. True),
     ge_verify_proof = (\<lambda>_ _ _ _ _ _. True), ge_valid_client = (\<lambda>_. True), ge_freeze = (\<lambda>x. x), ge_unfreeze = (\<lambda>x. x),
     ge_apply_change = (\<lambda>_ x. Some x), ge_spends_enabled = (\<lambda>_. True), ge_decode_plan = (\<lambda>_. Some []), ge_build_plan = (\<lambda>_. None),
     ge_check_built = (\<lambda>_. True)\<rparr>"

definition demo_gov_params :: gov_params where
  "demo_gov_params = gov_params_default\<lparr>gp_voting_blocks := 0\<rparr>"

definition demo_start :: gov_state where
  "demo_start = (gov_init_chain (Some demo_gov_params) (gov_empty\<lparr>gv_stake := stake_demo, gv_other_params := []\<rparr>))
     \<lparr>gv_sct_position := Some \<lparr>ix_epoch = 0, ix_block = 0, ix_commitment = 3\<rparr>\<rparr>"

definition demo_proposal :: "proposal_payload \<Rightarrow> proposal" where
  "demo_proposal payload = \<lparr>pr_id = 0, pr_title = ''stop'', pr_description = [], pr_payload = payload\<rparr>"

definition demo_submit :: "proposal_payload \<Rightarrow> proposal_submit" where
  "demo_submit payload = \<lparr>ps_proposal = demo_proposal payload, ps_deposit = 10000000\<rparr>"

definition demo_open :: "proposal_payload \<Rightarrow> gov_state" where
  "demo_open payload = demo_start
     \<lparr>gv_next_id := Some 1, gv_proposals := [0 \<mapsto> proposal_to_proto (demo_proposal payload)], gv_states := [0 \<mapsto> Some PbVoting], gv_unfinished := [(0, ())],
      gv_deposits := [0 \<mapsto> 10000000], gv_start := [0 \<mapsto> 0], gv_end := [0 \<mapsto> 0], gv_start_position := [0 \<mapsto> 0],
      gv_rates_at_start := (\<lambda>_ _. None)(0 := [[1] \<mapsto> stake_demo_rate]), gv_powers_at_start := (\<lambda>_. [])(0 := [([1], 5000000)]),
      gv_denoms := {receipt_denom 0, nft_denom 0 NDeposit}, gv_proposal_started := True\<rparr>"

lemma demo_gov_show: "inj (se_show_id (ge_stake demo_gov_env))"
  using demo_show by (simp add: demo_gov_env_def)

lemma demo_start_reachable: "gov_reachable demo_gov_env demo_start"
proof -
  have "gov_reachable demo_gov_env (gov_init_chain (Some demo_gov_params) (gov_empty\<lparr>gv_stake := stake_demo, gv_other_params := []\<rparr>))"
    by (rule gov_reachable.genesis [OF demo_genesis_ok, where duration = 10]) (simp add: demo_gov_env_def demo_genesis_run)
  then have "gov_reachable demo_gov_env (gov_init_chain (Some demo_gov_params) (gov_empty\<lparr>gv_stake := stake_demo, gv_other_params := []\<rparr>)
      \<lparr>gv_sct_position := Some \<lparr>ix_epoch = 0, ix_block = 0, ix_commitment = 3\<rparr>\<rparr>)"
    by (rule gov_reachable.step [OF _ gov_step.tree]) simp
  then show ?thesis by (simp only: demo_start_def)
qed

lemma demo_start_fields:
  "gv_params demo_start = Some demo_gov_params" "gv_next_id demo_start = Some 0" "gv_stake demo_start = stake_demo"
  "gv_sct_position demo_start = Some \<lparr>ix_epoch = 0, ix_block = 0, ix_commitment = 3\<rparr>"
  "gv_powers_at_start demo_start = (\<lambda>_. [])" "gv_rates_at_start demo_start = (\<lambda>_ _. None)" "gv_proposals demo_start = (\<lambda>_. None)"
  "gv_states demo_start = (\<lambda>_. None)" "gv_deposits demo_start = (\<lambda>_. None)" "gv_start demo_start = (\<lambda>_. None)" "gv_end demo_start = (\<lambda>_. None)"
  "gv_start_position demo_start = (\<lambda>_. None)" "gv_unfinished demo_start = []" "gv_denoms demo_start = {}" "gv_voted demo_start = (\<lambda>_ _. None)"
  "gv_untallied demo_start = []" "gv_tallied demo_start = (\<lambda>_. [])" "gv_spent demo_start = (\<lambda>_. None)" "gv_validator_votes demo_start = (\<lambda>_. [])"
  "gv_next_upgrade demo_start = None" "gv_halt_bit demo_start = None" "gv_vote_reasons demo_start = (\<lambda>_ _. None)"
  by (simp_all add: demo_start_def gov_init_chain_def gov_empty_def)

lemma demo_stake_fields:
  "sk_height stake_demo = Some 0" "consensus_set stake_demo = [[1]]" "sk_states stake_demo = [[1] \<mapsto> VActive]" "sk_rates stake_demo = [[1] \<mapsto> stake_demo_rate]"
  "sk_powers stake_demo = [[1] \<mapsto> 5000000]" "sk_denoms stake_demo = {DelegationDenom [1]}" "sk_definitions stake_demo = [[1] \<mapsto> stake_demo_validator]"
  "sk_epochs stake_demo 0 = Some \<lparr>ep_index = 0, ep_start_height = 0\<rparr>" "sk_epoch_duration stake_demo = Some 10" "\<not> sk_end_epoch_early stake_demo"
  by (simp_all add: stake_demo_def sct_init_chain_def consensus_set_def empty_store_def)

text \<open>The two proposals of the instances: one that halts the chain, and one that plans an upgrade at height 1.\<close>

definition demo_payload :: "proposal_payload \<Rightarrow> bool" where
  "demo_payload x \<longleftrightarrow> x = PEmergency True \<or> x = PUpgradePlan 1"

lemma demo_submitted:
  assumes "demo_payload x"
  shows "submit_check_and_execute demo_gov_env (demo_submit x) demo_start = Inr (demo_open x)"
proof -
  have "payload_check demo_gov_env demo_start x = Inr ()" "cache_transaction demo_gov_env (demo_proposal x) x demo_start = Inr demo_start"
    using assms by (auto simp: demo_payload_def)
  moreover have "tree_index_to_u64 \<lparr>ix_epoch = 0, ix_block = 0, ix_commitment = 0\<rparr> = 0" by (simp add: tree_index_to_u64_def)
  ultimately show ?thesis
    by (simp add: submit_check_and_execute_def demo_submit_def demo_start_fields get_governance_params_def demo_gov_params_def gov_params_default_def
        demo_proposal_def next_proposal_id_def new_proposal_def demo_stake_fields record_snapshot_def snapshot_validator_def Let_def
        start_voting_def put_proposal_state_def register_denom_def get_block_height_def demo_open_def)
qed

lemma demo_submit_step:
  assumes "demo_payload x"
  shows "gov_step demo_gov_env (GSubmit (demo_submit x)) demo_start (demo_open x)"
proof (rule gov_step.submitting [OF _ _ demo_submitted [OF assms]])
  show "proposal_from_proto (ge_valid_client demo_gov_env) (proposal_to_proto (demo_proposal x)) = Inr (ps_proposal (demo_submit x))"
    using assms by (auto simp: demo_payload_def proposal_from_proto_def proposal_to_proto_def payload_from_proto_def demo_submit_def demo_proposal_def)
  show "submit_check_stateless demo_gov_env (demo_submit x) = Inr ()"
    using assms by (auto simp: demo_payload_def submit_check_stateless_def demo_submit_def demo_proposal_def PROPOSAL_TITLE_LIMIT_def PROPOSAL_DESCRIPTION_LIMIT_def)
qed

lemma demo_open_reachable: "demo_payload x \<Longrightarrow> gov_reachable demo_gov_env (demo_open x)"
  by (rule gov_reachable.step [OF demo_start_reachable demo_submit_step]) (simp_all add: demo_submit_def demo_proposal_def)

text \<open>Votes of delegators of the validator.\<close>

definition demo_vote :: "vote \<Rightarrow> u8 list \<Rightarrow> amount \<Rightarrow> delegator_vote" where
  "demo_vote v nf a = \<lparr>dv_proposal = 0, dv_start_position = 0, dv_vote = v, dv_value = \<lparr>v_amount = a, v_asset = AssetId 2\<rparr>, dv_unbonded = a, dv_nullifier = nf,
     dv_rk = [], dv_auth_sig = [], dv_proof = []\<rparr>"

definition demo_cast :: "vote \<Rightarrow> u8 list \<Rightarrow> amount \<Rightarrow> gov_state \<Rightarrow> gov_state" where
  "demo_cast v nf a s = s\<lparr>gv_voted := (gv_voted s)(0 := (gv_voted s 0)(nf \<mapsto> 0)),
     gv_untallied := bt_insert (0, [1], nf) ([1], tally_of v (ucast a)) (gv_untallied s)\<rparr>"

definition votable_demo :: "gov_state \<Rightarrow> bool" where
  "votable_demo s \<longleftrightarrow> gv_stake s = stake_demo \<and> gv_states s 0 = Some (Some PbVoting) \<and> gv_start_position s 0 = Some 0 \<and> gv_start s 0 = Some 0
     \<and> gv_spent s = (\<lambda>_. None) \<and> gv_rates_at_start s 0 = [[1] \<mapsto> stake_demo_rate]"

lemma demo_open_votable: "votable_demo (demo_open x)" "votable_demo (demo_cast v nf a s) = votable_demo s"
  by (simp_all add: votable_demo_def demo_open_def demo_start_fields demo_cast_def)

lemma demo_vote_step:
  assumes "votable_demo s" "gv_voted s 0 nf = None"
  shows "delegator_vote_check_and_execute demo_gov_env (demo_vote v nf a) s = Inr (demo_cast v nf a s)"
    and "gov_step demo_gov_env (GDelegatorVote (demo_vote v nf a)) s (demo_cast v nf a s)"
proof -
  show run: "delegator_vote_check_and_execute demo_gov_env (demo_vote v nf a) s = Inr (demo_cast v nf a s)"
    using assms by (simp add: votable_demo_def delegator_vote_check_and_execute_def demo_vote_def check_proposal_votable_def proposal_state_of_def
        proposal_state_from_proto_def check_proposal_started_at_position_def check_nullifier_unspent_before_start_block_height_def
        check_nullifier_unvoted_for_proposal_def check_unbonded_amount_correct_exchange_for_proposal_def validator_by_delegation_asset_def
        demo_gov_env_def demo_stake_fields demo_unbonded stake_demo_rate_def mark_nullifier_voted_on_proposal_def get_block_height_def
        cast_delegator_vote_def demo_cast_def stake_demo_env_def)
  show "gov_step demo_gov_env (GDelegatorVote (demo_vote v nf a)) s (demo_cast v nf a s)"
    by (rule gov_step.delegator_voting [OF _ run, of "[]" "[]"]) (simp add: delegator_vote_check_stateless_def demo_gov_env_def)
qed

definition demo_voted :: "proposal_payload \<Rightarrow> gov_state" where
  "demo_voted x = demo_cast VYes [1] 5000000 (demo_open x)"

lemma demo_voted_reachable: "demo_payload x \<Longrightarrow> gov_reachable demo_gov_env (demo_voted x)"
  unfolding demo_voted_def
  by (rule gov_reachable.step [OF demo_open_reachable demo_vote_step(2)]) (simp_all add: demo_open_votable, simp add: demo_open_def demo_start_fields)

text \<open>The validator's own vote passes an emergency proposal at once.\<close>

definition demo_validator_vote :: validator_vote where
  "demo_validator_vote = \<lparr>vv_proposal = 0, vv_vote = VYes, vv_identity = [1], vv_governance_key = [2], vv_reason = [], vv_auth_sig = []\<rparr>"

definition demo_finished :: gov_state where
  "demo_finished = demo_open (PEmergency True)\<lparr>gv_validator_votes := (\<lambda>_. [])(0 := [([1], VYes)]), gv_vote_reasons := (\<lambda>_ _. None)(0 := [[1] \<mapsto> []]),
     gv_halt_bit := Some True, gv_states := [0 \<mapsto> Some (PbFinished (Some PbPassed))], gv_unfinished := []\<rparr>"

lemma demo_validator_step: "gov_step demo_gov_env (GValidatorVote demo_validator_vote) (demo_open (PEmergency True)) demo_finished"
proof (rule gov_step.validator_voting)
  show "validator_vote_check_stateless demo_gov_env demo_validator_vote = Inr ()"
    by (simp add: validator_vote_check_stateless_def demo_gov_env_def demo_validator_vote_def)
  have g: "proposal_payload_of demo_gov_env (cast_validator_vote 0 [1] VYes [] (demo_open (PEmergency True))) 0 = Inr (Some (PEmergency True))"
    by (simp add: proposal_payload_of_def proposal_definition_def cast_validator_vote_def demo_open_def proposal_from_proto_def proposal_to_proto_def
        demo_proposal_def payload_from_proto_def)
  have e: "try_emergency demo_gov_env 0 (PEmergency True) (cast_validator_vote 0 [1] VYes [] (demo_open (PEmergency True))) = Inr demo_finished"
    by (simp add: try_emergency_def is_emergency_def current_tally_def powers_at_start_def cast_validator_vote_def demo_open_def demo_start_fields
        tally_validator_def bt_get_def tally_add_def no_votes_def tally_total_def saturating_sub_def get_governance_params_def
        total_voting_power_at_proposal_start_def emergency_pass_def meets_quorum_def tally_slashed_def ratio_less_def ratio_new_def
        demo_gov_params_def gov_params_default_def signal_halt_def put_proposal_state_def demo_finished_def)
  show "validator_vote_check_and_execute demo_gov_env demo_validator_vote (demo_open (PEmergency True)) = Inr demo_finished"
    using g e by (simp add: validator_vote_check_and_execute_def demo_validator_vote_def check_proposal_votable_def proposal_state_of_def
        proposal_state_from_proto_def check_validator_active_at_proposal_start_def check_validator_has_not_voted_def
        check_governance_key_matches_validator_def demo_stake_fields stake_demo_validator_def demo_open_def [of "PEmergency True"] demo_start_fields
        powers_at_start_def bt_get_def is_withdrawn_def Let_def)
qed

lemma demo_finished_reachable: "gov_reachable demo_gov_env demo_finished"
  by (rule gov_reachable.step [OF demo_open_reachable demo_validator_step]) (simp_all add: demo_payload_def)

text \<open>The end of the block enacts the upgrade plan, so the epoch ends with it.\<close>

lemma demo_conclusion:
  "gov_end_block demo_gov_env (demo_voted (PUpgradePlan 1)) = Inr (demo_voted (PUpgradePlan 1)
     \<lparr>gv_untallied := [], gv_tallied := (\<lambda>_. [])(0 := [([1], \<lparr>ty_yes = 5000000, ty_no = 0, ty_abstain = 0\<rparr>)]), gv_next_upgrade := Some 1,
      gv_states := [0 \<mapsto> Some (PbFinished (Some PbPassed))], gv_unfinished := []\<rparr>)"
  by (simp add: gov_end_block_def enact_all_passed_proposals_def unfinished_proposals_def demo_voted_def demo_cast_def demo_open_def demo_start_fields
      conclude_proposal_def get_block_height_def demo_stake_fields tally_delegator_votes_def untallied_votes_def Let_def bt_get_def put_tally_def
      proposal_state_of_def proposal_state_from_proto_def conclude_voting_def current_tally_def powers_at_start_def tally_validator_def tally_add_def
      no_votes_def tally_total_def get_governance_params_def total_voting_power_at_proposal_start_def outcome_def meets_quorum_def
      tally_slashed_def ratio_less_def ratio_new_def yes_ratio_def demo_gov_params_def gov_params_default_def proposal_payload_of_def
      proposal_definition_def proposal_from_proto_def proposal_to_proto_def demo_proposal_def payload_from_proto_def signal_upgrade_def
      put_proposal_state_def)

lemma demo_end_step: "\<exists>t. gov_step demo_gov_env (GEnd 0) (demo_voted (PUpgradePlan 1)) t \<and> gv_next_upgrade t = Some 1"
proof -
  let ?s = "demo_voted (PUpgradePlan 1)"
  have k: "gv_stake ?s = stake_demo" by (simp add: demo_voted_def demo_cast_def demo_open_def demo_start_fields)
  obtain w where "stake_step stake_demo_env (EndBlock 0 True) stake_demo w" using demo_epoch_end by blast
  then have w: "app_end_block stake_demo_env 0 0 True stake_demo = Inr w" by (elim stake_stepE) (simp_all add: demo_stake_fields)
  obtain t where "gov_app_end_block demo_gov_env 0 0 ?s = Inr t" "gv_next_upgrade t = Some 1"
  proof -
    have "sk_height (gv_stake ?s) = Some 0" using k by (simp add: demo_stake_fields)
    have "saturating_add 0 (1 :: u64) = 1" by (simp add: saturating_add_def)
    then show thesis
      using that w unfolding gov_app_end_block_def demo_conclusion
      by (simp add: epoch_is_ending_def k get_block_height_def get_current_epoch_def demo_stake_fields is_pre_upgrade_height_def gov_end_epoch_def
          tally_delegator_votes_def untallied_votes_def Let_def demo_gov_env_def)
  qed
  moreover have "sk_height (gv_stake ?s) = Some 0" using k by (simp add: demo_stake_fields)
  ultimately show ?thesis using gov_step.ending by blast
qed

end
