(* ===== verification/GovProperties.thy ===== *)
theory GovProperties
  imports GovExamples
begin

text \<open>
  The properties of governance: the life of a proposal, votes and their tallies, the decision at the end of the voting period, the
  upgrade of the chain, and three places where the code does less than it means to.
\<close>

section \<open>Tallies in range\<close>

definition tally_sum :: "vote_tally \<Rightarrow> nat" where
  "tally_sum t = unat (ty_yes t) + unat (ty_no t) + unat (ty_abstain t)"

lemma tally_sum_add: "tally_sum (tally_add a b) \<le> tally_sum a + tally_sum b"
proof -
  have le: "unat (x + y) \<le> unat x + unat y" for x y :: u64 by (simp add: unat_word_ariths)
  show ?thesis
    using le [of "ty_yes a" "ty_yes b"] le [of "ty_no a" "ty_no b"] le [of "ty_abstain a" "ty_abstain b"] by (simp add: tally_sum_def tally_add_def)
qed

lemma tally_sum_of: "tally_sum (tally_of v w) = unat w" "tally_sum no_votes = 0"
  by (cases v; simp add: tally_sum_def no_votes_def) (simp add: tally_sum_def no_votes_def)

lemma tally_sum_total: "tally_sum t < 2 ^ 64 \<Longrightarrow> unat (tally_total t) = tally_sum t"
  by (simp add: tally_sum_def tally_total_def unat_word_ariths)

lemma contribution_bound:
  assumes "tally_sum (get_or (bt_get (gv_tallied s p) i) no_votes) \<le> unat pow"
  shows "tally_sum (contribution s p (i, pow)) \<le> unat pow"
proof -
  let ?d = "get_or (bt_get (gv_tallied s p) i) no_votes"
  have t: "unat (tally_total ?d) = tally_sum ?d" using assms unsigned_less [of pow, where ?'a = nat] by (intro tally_sum_total) simp
  have "unat (saturating_sub pow (tally_total ?d)) + tally_sum ?d = unat pow" using assms by (simp add: unat_saturating_sub t)
  then have "tally_sum (case bt_get (gv_validator_votes s p) i of Some v \<Rightarrow> tally_of v (saturating_sub pow (tally_total ?d)) | None \<Rightarrow> no_votes) + tally_sum ?d \<le> unat pow"
    using assms by (simp add: tally_sum_of split: option.split)
  then show ?thesis using tally_sum_add order_trans by (simp add: contribution_def Let_def) blast
qed

lemma sum_bound:
  assumes "\<And>x. x \<in> set ps \<Longrightarrow> tally_sum (f x) \<le> unat (snd x)"
  shows "tally_sum (sum_tallies (map f ps)) \<le> sum_list (map (unat \<circ> snd) ps)"
  using assms
proof (induction ps)
  case (Cons x ps)
  have "tally_sum (sum_tallies (map f (x # ps))) \<le> tally_sum (f x) + tally_sum (sum_tallies (map f ps))"
    using tally_sum_add by (simp add: sum_tallies_def)
  also have "\<dots> \<le> unat (snd x) + sum_list (map (unat \<circ> snd) ps)" using Cons.IH Cons.prems by (intro add_mono) (auto simp: o_def)
  finally show ?case by (simp add: o_def)
qed (simp add: sum_tallies_def tally_sum_of)

lemma word_sum_list: "sum_list (map unat ws) < 2 ^ 64 \<Longrightarrow> unat (sum_list ws) = sum_list (map unat ws)" for ws :: "u64 list"
  by (induction ws) (simp_all add: unat_word_ariths)

section \<open>The upgrade of the chain\<close>

lemma upgraded_block:
  assumes g: "good env k" and show_inj: "inj (se_show_id env)" and h: "sk_height k = Some h" and run: "app_end_block env h issuance True k = Inr k'"
  obtains e where "sk_epochs k h = Some e" "sk_epochs k' (h + 1) = Some \<lparr>ep_index = ep_index e + 1, ep_start_height = h + 1\<rparr>"
    "sk_height k' = Some h" "unat h < 2 ^ 63"
proof -
  have small: "unat h < 2 ^ 63" using run by (auto simp: app_end_block_def stake_end_block_def block_height_of_def split: if_splits)
  obtain e d where e: "sk_epochs k h = Some e" "sk_epoch_duration k = Some d"
    using run small h unfolding app_end_block_def stake_end_block_def block_height_of_def get_block_height_def get_current_epoch_def set_delegation_changes_def
    by (auto simp: result_simps Let_def)
  obtain u where u: "stake_end_epoch env (before_epoch_end h issuance k) = Inr u"
    and k': "k' = u\<lparr>sk_epochs := (sk_epochs u)(h + 1 \<mapsto> \<lparr>ep_index = ep_index e + 1, ep_start_height = h + 1\<rparr>)\<rparr>"
    using run unfolding end_block_epoch [OF h e(1) small e(2) disjI2 [OF disjI2 [OF TrueI]]] by (auto simp: result_simps)
  have "good env (before_epoch_end h issuance k)" using g by (simp only: before_end_good)
  then have "sk_height u = sk_height (before_epoch_end h issuance k)" by (rule stake_end_epoch_good [OF u _ show_inj])
  then show thesis using that [OF e(1)] h small by (simp add: k' before_end_fields)
qed

lemma emergency_votes:
  assumes "gov_inv env s" "stored_at env s p SVoting d" "known s p" "try_emergency env p (pr_payload d) s = Inr t"
  shows "gv_validator_votes t = gv_validator_votes s"
proof (cases "t = s")
  case False
  then obtain w where w: "enact_proposal env p (pr_payload d) s = Inr w" and t: "t = put_proposal_state p (SFinished OPassed) w"
    and k: "is_emergency (pr_payload d) \<or> is_ibc_freeze (pr_payload d)"
    using assms(4) by (auto simp: try_emergency_def result_simps split: if_splits)
  have "gv_validator_votes w = gv_validator_votes s"
    using w k by (cases "pr_payload d") (auto simp: is_emergency_def is_ibc_freeze_def signal_halt_def change_client_def put_client_def result_simps)
  then show ?thesis by (simp add: t put_state_fields)
qed simp

lemma validator_voted:
  assumes inv: "gov_inv env s" and run: "validator_vote_check_and_execute env a s = Inr t"
  shows "known t (vv_proposal a) \<and> bt_get (gv_validator_votes t (vv_proposal a)) (vv_identity a) \<noteq> None"
proof -
  obtain d where d: "known s (vv_proposal a)" "stored_at env s (vv_proposal a) SVoting d"
    and active: "vv_identity a \<in> fst ` set (gv_powers_at_start s (vv_proposal a))"
    and no: "bt_get (gv_validator_votes s (vv_proposal a)) (vv_identity a) = None"
    and em: "try_emergency env (vv_proposal a) (pr_payload d) (cast_validator_vote (vv_proposal a) (vv_identity a) (vv_vote a) (vv_reason a) s) = Inr t"
    by (rule validator_vote_result [OF inv run])
  let ?u = "cast_validator_vote (vv_proposal a) (vv_identity a) (vv_vote a) (vv_reason a) s"
  have u: "gov_inv env ?u" using keeps_validator_vote [OF inv d(1) active no] by blast
  have "stored_at env ?u (vv_proposal a) SVoting d" "known ?u (vv_proposal a)"
    using d by (simp_all add: cast_validator_vote_def stored_at_def known_def next_proposal_id_def)
  then have "gv_validator_votes t = gv_validator_votes ?u" using emergency_votes [OF u _ _ em] by blast
  moreover have "bt_wf (gv_validator_votes s (vv_proposal a))" using gov_invD(5) [OF inv, of "vv_proposal a"] by (simp add: voters_ok_def)
  ultimately have "bt_get (gv_validator_votes t (vv_proposal a)) (vv_identity a) \<noteq> None" by (simp add: cast_validator_vote_def)
  moreover have "known t (vv_proposal a)" using validator_vote_keeps [OF inv run] d(1) by (simp add: evolves_def)
  ultimately show ?thesis by simp
qed

section \<open>Properties\<close>

text \<open>C17: At the end of a block every proposal whose voting period is over is concluded, and the hook, which the application expects to succeed, never fails
  in a reachable state.\<close>

theorem end_block_never_fails:
  assumes "gov_reachable env s" "inj (se_show_id (ge_stake env))" "sk_height (gv_stake s) = Some h"
  shows "\<exists>t. gov_end_block env s = Inr t \<and> gv_stake t = gv_stake s
    \<and> (\<forall>p. bt_get (gv_unfinished t) p = (if the (gv_end s p) \<le> h then None else bt_get (gv_unfinished s) p))"
proof -
  have inv: "gov_inv env s" using gov_reachable_inv assms(1,2) by blast
  obtain t where "gov_end_block env s = Inr t" "gv_stake t = gv_stake s"
    "\<And>q. bt_get (gv_unfinished t) q = (if the (gv_end s q) \<le> h then None else bt_get (gv_unfinished s) q)"
    using end_block_ok [OF inv assms(3)] by metis
  then show ?thesis by blast
qed

theorem end_block_never_fails_witness:
  "\<exists>t. gov_end_block demo_gov_env (demo_voted (PUpgradePlan 1)) = Inr t \<and> bt_get (gv_unfinished t) 0 = None"
proof -
  have "gov_reachable demo_gov_env (demo_voted (PUpgradePlan 1))" by (rule demo_voted_reachable) (simp add: demo_payload_def)
  moreover have "sk_height (gv_stake (demo_voted (PUpgradePlan 1))) = Some 0" "gv_end (demo_voted (PUpgradePlan 1)) 0 = Some 0"
    by (simp_all add: demo_voted_def demo_cast_def demo_open_def demo_start_fields demo_stake_fields)
  ultimately show ?thesis using end_block_never_fails [OF _ demo_gov_show] by fastforce
qed



text \<open>C20: A submission takes the snapshot of exactly the active validators with their rates and powers, sets the voting period from the parameters of
  that block, and nothing that happens later changes the snapshot, the period, the deposit or the text.\<close>

theorem snapshot_frozen:
  assumes "gov_reachable env s" "gov_step env (GSubmit a) s t" "gov_steps env t u" "inj (se_show_id (ge_stake env))"
    and "pr_id (ps_proposal a) \<noteq> - 1"
  shows "\<exists>h params. sk_height (gv_stake s) = Some h \<and> gv_params s = Some params \<and> pr_id (ps_proposal a) = next_proposal_id s
    \<and> is_snapshot (gv_stake s) (gv_rates_at_start u (pr_id (ps_proposal a))) (gv_powers_at_start u (pr_id (ps_proposal a)))
    \<and> gv_start u (pr_id (ps_proposal a)) = Some h \<and> gv_end u (pr_id (ps_proposal a)) = Some (h + gp_voting_blocks params)
    \<and> gv_deposits u (pr_id (ps_proposal a)) = Some (gp_deposit_amount params)
    \<and> gv_proposals u (pr_id (ps_proposal a)) = Some (proposal_to_proto (ps_proposal a))"
proof -
  let ?p = "pr_id (ps_proposal a)"
  have inv: "gov_inv env s" using gov_reachable_inv assms(1,4) by blast
  obtain m where decoded: "proposal_from_proto (ge_valid_client env) m = Inr (ps_proposal a)" and run: "submit_check_and_execute env a s = Inr t"
    using assms(2) by (elim gov_stepE) simp_all
  note sub = submit_result [OF run inv]
  note kept = submitted_keeps [OF inv sub decoded assms(5)]
  have "evolves t u" using gov_steps_keep [OF assms(3) _ assms(4)] kept(1) by blast
  then have f: "frozen t u ?p" using kept(2) by (simp add: evolves_def)
  obtain R P params h pos where "?p = next_proposal_id s" "is_snapshot (gv_stake s) R P" "gv_params s = Some params" "sk_height (gv_stake s) = Some h"
    "gv_sct_position s = Some pos" "ps_deposit a = gp_deposit_amount params"
    and t: "gv_rates_at_start t ?p = R" "gv_powers_at_start t ?p = P" "gv_start t ?p = Some h" "gv_end t ?p = Some (h + gp_voting_blocks params)"
    "gv_deposits t ?p = Some (ps_deposit a)" "gv_proposals t ?p = Some (proposal_to_proto (ps_proposal a))"
    using sub unfolding submitted_def by (elim exE conjE) (rule that, simp_all)
  then show ?thesis using f by (simp add: frozen_def)
qed

theorem snapshot_frozen_witness:
  "gov_step demo_gov_env (GSubmit (demo_submit (PUpgradePlan 1))) demo_start (demo_open (PUpgradePlan 1))
    \<and> gov_steps demo_gov_env (demo_open (PUpgradePlan 1)) (demo_voted (PUpgradePlan 1))
    \<and> is_snapshot stake_demo (gv_rates_at_start (demo_voted (PUpgradePlan 1)) 0) (gv_powers_at_start (demo_voted (PUpgradePlan 1)) 0)"
proof -
  let ?x = "PUpgradePlan 1"
  have sub: "gov_step demo_gov_env (GSubmit (demo_submit ?x)) demo_start (demo_open ?x)" by (rule demo_submit_step) (simp add: demo_payload_def)
  have "gov_step demo_gov_env (GDelegatorVote (demo_vote VYes [1] 5000000)) (demo_open ?x) (demo_voted ?x)"
    unfolding demo_voted_def by (rule demo_vote_step(2)) (simp_all add: demo_open_votable, simp add: demo_open_def demo_start_fields)
  then have steps: "gov_steps demo_gov_env (demo_open ?x) (demo_voted ?x)" by (rule gov_steps.more [OF gov_steps.none]) simp
  have "pr_id (ps_proposal (demo_submit ?x)) = 0" by (simp add: demo_submit_def demo_proposal_def)
  then show ?thesis using snapshot_frozen [OF demo_start_reachable sub steps demo_gov_show] sub steps by (auto simp: demo_start_fields)
qed

text \<open>C21: A delegator's note votes once on a proposal and a validator votes once on it: in every later state the same nullifier, or the same validator, is
  refused.\<close>

theorem votes_once:
  assumes "gov_reachable env s" "gov_step env ev s t" "gov_steps env t u" "inj (se_show_id (ge_stake env))"
  shows "(\<forall>a b v. ev = GDelegatorVote a \<and> dv_proposal b = dv_proposal a \<and> dv_nullifier b = dv_nullifier a
        \<longrightarrow> delegator_vote_check_and_execute env b u \<noteq> Inr v)
    \<and> (\<forall>a b v. ev = GValidatorVote a \<and> vv_proposal b = vv_proposal a \<and> vv_identity b = vv_identity a
        \<longrightarrow> validator_vote_check_and_execute env b u \<noteq> Inr v)"
proof (intro conjI allI impI)
  have inv: "gov_inv env s" using gov_reachable_inv assms(1,4) by blast
  fix a b :: delegator_vote and v assume ev: "ev = GDelegatorVote a \<and> dv_proposal b = dv_proposal a \<and> dv_nullifier b = dv_nullifier a"
  then have run: "delegator_vote_check_and_execute env a s = Inr t" using assms(2) by (elim gov_stepE) simp_all
  have keep: "keeps env s t" by (rule delegator_vote_keeps [OF inv run])
  obtain i w where k: "known s (dv_proposal a)" and w: "mark_nullifier_voted_on_proposal (dv_proposal a) (dv_nullifier a) s = Inr w"
    and t: "t = cast_delegator_vote env (dv_proposal a) i (dv_vote a) (dv_nullifier a) (dv_unbonded a) w"
    by (rule delegator_vote_result [OF inv run])
  have "gv_voted t (dv_proposal a) (dv_nullifier a) \<noteq> None" using w by (auto simp: t cast_delegator_vote_def mark_nullifier_voted_on_proposal_def result_simps)
  moreover have "known t (dv_proposal a)" "evolves t u" using keep k gov_steps_keep [OF assms(3) _ assms(4)] by (auto simp: evolves_def)
  ultimately have "gv_voted u (dv_proposal a) (dv_nullifier a) \<noteq> None" unfolding evolves_def votes_kept_def by auto
  moreover have "gov_inv env u" using keep gov_steps_keep [OF assms(3) _ assms(4)] by blast
  ultimately show "delegator_vote_check_and_execute env b u \<noteq> Inr v" using delegator_vote_result [of env u b v] ev by metis
next
  have inv: "gov_inv env s" using gov_reachable_inv assms(1,4) by blast
  fix a b :: validator_vote and v assume ev: "ev = GValidatorVote a \<and> vv_proposal b = vv_proposal a \<and> vv_identity b = vv_identity a"
  then have run: "validator_vote_check_and_execute env a s = Inr t" using assms(2) by (elim gov_stepE) simp_all
  have keep: "keeps env s t" by (rule validator_vote_keeps [OF inv run])
  have "known t (vv_proposal a) \<and> bt_get (gv_validator_votes t (vv_proposal a)) (vv_identity a) \<noteq> None"
    using validator_voted [OF inv run] .
  moreover have "evolves t u" "gov_inv env u" using keep gov_steps_keep [OF assms(3) _ assms(4)] by blast+
  ultimately have "bt_get (gv_validator_votes u (vv_proposal a)) (vv_identity a) \<noteq> None" unfolding evolves_def votes_kept_def by auto
  then show "validator_vote_check_and_execute env b u \<noteq> Inr v" using validator_vote_result [of env u b v] ev \<open>gov_inv env u\<close> by metis
qed

theorem votes_once_witness:
  "delegator_vote_check_and_execute demo_gov_env (demo_vote VYes [1] 7) (demo_open (PUpgradePlan 1)) = Inr (demo_cast VYes [1] 7 (demo_open (PUpgradePlan 1)))
    \<and> (\<forall>v. delegator_vote_check_and_execute demo_gov_env (demo_vote VNo [1] 9) (demo_cast VYes [1] 7 (demo_open (PUpgradePlan 1))) \<noteq> Inr v)"
proof -
  let ?s = "demo_open (PUpgradePlan 1)"
  have r: "gov_reachable demo_gov_env ?s" by (rule demo_open_reachable) (simp add: demo_payload_def)
  have v: "votable_demo ?s" "gv_voted ?s 0 [1] = None" by (simp add: demo_open_votable) (simp add: demo_open_def demo_start_fields)
  show ?thesis
    using votes_once [OF r demo_vote_step(2) [OF v] gov_steps.none demo_gov_show] demo_vote_step(1) [OF v] by (simp add: demo_vote_def)
qed

text \<open>C19: When the voting period of a proposal is over, the sweep is made, the tally is the sum over the snapshot of each validator's own vote, with the power its
  delegators have not used, and its delegators' votes; the verdict on it becomes the state, and the payload is enacted exactly when it passes.\<close>

theorem voting_concluded:
  assumes "gov_reachable env s" "inj (se_show_id (ge_stake env))" "sk_height (gv_stake s) = Some h" "gv_params s = Some params"
    and "proposal_state_of s p = Inr (Some SVoting)" "gv_end s p = Some e" "e \<le> h"
  shows "\<exists>d t w. proposal_definition env s p = Inr (Some d)
    \<and> current_tally (tally_delegator_votes (Some p) s) p = Inr t
    \<and> t = sum_tallies (map (contribution (tally_delegator_votes (Some p) s) p) (powers_at_start s p))
    \<and> (let verdict = outcome t (total_voting_power_at_proposal_start s p) params in
       conclude_proposal env p s = Inr (put_proposal_state p (SFinished (outcome_of_tally verdict)) w)
       \<and> (if verdict = TPass then enact_proposal env p (pr_payload d) (tally_delegator_votes (Some p) s) = Inr w
          else w = tally_delegator_votes (Some p) s))"
proof -
  let ?u = "tally_delegator_votes (Some p) s"
  have inv: "gov_inv env s" using gov_reachable_inv assms(1,2) by blast
  obtain st d where st: "stored_at env s p st d" using gov_invD(7) [OF inv known_iff [OF inv assms(5)]] by blast
  have voting: "stored_at env s p SVoting d" using st stored_reads(1) [OF st] assms(5) by simp
  have iu: "gov_inv env ?u" and same: "same_proposals s ?u" using keeps_sweep [OF inv] sweep_same(1) [OF inv] by blast+
  have pw: "powers_at_start ?u p = powers_at_start s p" using same by (simp add: powers_at_start_def same_proposals_def)
  have total: "total_voting_power_at_proposal_start ?u p = total_voting_power_at_proposal_start s p" by (simp add: total_voting_power_at_proposal_start_def pw)
  let ?t = "sum_tallies (map (contribution ?u p) (powers_at_start s p))"
  let ?v = "outcome ?t (total_voting_power_at_proposal_start s p) params"
  have tally: "current_tally ?u p = Inr ?t" using tally_inv [OF iu, of p] by (simp add: tally_of_proposal_def pw)
  have verdict: "verdict_of ?u p params = ?v" by (simp add: verdict_of_def tally_of_proposal_def pw total)
  have run: "conclude_proposal env p s = and_then (if ?v = TPass then enact_proposal env p (pr_payload d) ?u else Inr ?u)
      (\<lambda>w. Inr (put_proposal_state p (SFinished (outcome_of_tally ?v)) w))"
    using conclude_voted [OF inv voting assms(3,6,7,4)] unfolding verdict .
  have hu: "sk_height (gv_stake ?u) = Some h" using same assms(3) by (simp add: same_proposals_def)
  obtain x where x: "enact_proposal env p (pr_payload d) ?u = Inr x" by (rule enact_ok [OF iu same_stored [OF same voting] hu])
  show ?thesis
  proof (intro exI conjI)
    show "proposal_definition env s p = Inr (Some d)" by (rule stored_reads(2) [OF st])
    show "let verdict = ?v in conclude_proposal env p s = Inr (put_proposal_state p (SFinished (outcome_of_tally verdict)) (if ?v = TPass then x else ?u))
       \<and> (if verdict = TPass then enact_proposal env p (pr_payload d) ?u = Inr (if ?v = TPass then x else ?u) else (if ?v = TPass then x else ?u) = ?u)"
      using run x by (simp add: Let_def)
  qed (rule tally, rule refl)
qed

theorem voting_concluded_witness:
  "\<exists>w. conclude_proposal demo_gov_env 0 (demo_open (PUpgradePlan 1)) = Inr (put_proposal_state 0 (SFinished (OFailed NotWithdrawn)) w)"
proof -
  let ?s = "demo_open (PUpgradePlan 1)"
  have r: "gov_reachable demo_gov_env ?s" by (rule demo_open_reachable) (simp add: demo_payload_def)
  have f: "sk_height (gv_stake ?s) = Some 0" "gv_params ?s = Some demo_gov_params" "proposal_state_of ?s 0 = Inr (Some SVoting)" "gv_end ?s 0 = Some 0"
    "powers_at_start ?s 0 = [([1], 5000000)]" "tally_delegator_votes (Some 0) ?s = ?s"
    by (simp_all add: demo_open_def demo_start_fields demo_stake_fields proposal_state_of_def proposal_state_from_proto_def powers_at_start_def
        tally_delegator_votes_def untallied_votes_def)
  have c: "contribution ?s 0 ([1], 5000000) = no_votes"
    by (simp add: contribution_def demo_open_def demo_start_fields bt_get_def)
  have "outcome (sum_tallies [no_votes]) (total_voting_power_at_proposal_start ?s 0) demo_gov_params = TFail"
    by (simp add: outcome_def meets_quorum_def ratio_less_def ratio_new_def tally_total_def sum_tallies_def no_votes_def tally_add_def demo_gov_params_def
        gov_params_default_def total_voting_power_at_proposal_start_def f)
  then show ?thesis using voting_concluded [OF r demo_gov_show f(1-4)] by (auto simp: f c Let_def)
qed


definition demo_withdrawal :: proposal_withdraw where
  "demo_withdrawal = \<lparr>pw_proposal = 0, pw_reason = ''no''\<rparr>"


text \<open>C25: The share of the yes votes is taken of at most one vote: once a quorate proposal is not slashed and anybody has voted yes or no, it passes as soon as
  the yes votes times the denominator of the threshold exceed its numerator, however many votes are against it.\<close>

theorem passes_without_majority:
  assumes "meets_quorum t all_power params" "\<not> tally_slashed t params" "ty_yes t + ty_no t \<noteq> 0"
  shows "outcome t all_power params = TPass
    \<longleftrightarrow> unat (rt_numerator (gp_pass_threshold params)) < unat (rt_denominator (gp_pass_threshold params)) * unat (ty_yes t)"
proof -
  have "0 < ty_yes t + ty_no t" using assms(3) by (simp add: word_neq_0_conv)
  then have "1 \<le> ty_yes t + ty_no t" by (simp add: word_le_nat_alt word_less_nat_alt)
  then have "yes_ratio t = ratio_new (ty_yes t) 1" by (simp add: yes_ratio_def min_def)
  then have "ratio_less (gp_pass_threshold params) (yes_ratio t)
      \<longleftrightarrow> unat (rt_numerator (gp_pass_threshold params)) < unat (rt_denominator (gp_pass_threshold params)) * unat (ty_yes t)"
    by (simp add: ratio_less_exact ratio_new_def)
  then show ?thesis using assms(1,2) by (simp add: outcome_def)
qed

theorem passes_without_majority_witness:
  "outcome \<lparr>ty_yes = 1, ty_no = 3, ty_abstain = 0\<rparr> 4 gov_params_default = TPass"
  using passes_without_majority [of "\<lparr>ty_yes = 1, ty_no = 3, ty_abstain = 0\<rparr>" 4 gov_params_default]
  by (simp add: meets_quorum_def tally_slashed_def ratio_less_def ratio_new_def tally_total_def gov_params_default_def)

text \<open>C26: The sweep removes the votes it covers, but adds only the last of those for the same validator and proposal to the tally: the others are lost.\<close>

theorem sweep_keeps_last:
  assumes "gov_reachable env s" "inj (se_show_id (ge_stake env))"
  shows "bt_get (gv_tallied (tally_delegator_votes just s) p) i = (case swept_for p i (untallied_votes just s) of
        [] \<Rightarrow> bt_get (gv_tallied s p) i
      | ts \<Rightarrow> Some (tally_add (get_or (bt_get (gv_tallied s p) i) no_votes) (last ts)))
    \<and> bt_get (gv_untallied (tally_delegator_votes just s)) k = (if just = None \<or> just = Some (fst k) then None else bt_get (gv_untallied s) k)"
proof -
  have "gov_inv env s" using gov_reachable_inv assms by blast
  then have "\<And>q. bt_wf (gv_tallied s q)" "bt_wf (gv_untallied s)" by (simp_all add: gov_inv_def voters_ok_def)
  then show ?thesis using sweep_effect(3,5) [of s just] by (simp add: after_sweep_def)
qed

theorem sweep_keeps_last_witness:
  "\<exists>s. gov_reachable demo_gov_env s
    \<and> gv_untallied s = [((0, [1], [1]), ([1], \<lparr>ty_yes = 5, ty_no = 0, ty_abstain = 0\<rparr>)), ((0, [1], [2]), ([1], \<lparr>ty_yes = 0, ty_no = 7, ty_abstain = 0\<rparr>))]
    \<and> bt_get (gv_tallied (tally_delegator_votes None s) 0) [1] = Some \<lparr>ty_yes = 0, ty_no = 7, ty_abstain = 0\<rparr>"
proof -
  let ?o = "demo_open (PUpgradePlan 1)"
  let ?a = "demo_cast VYes [1] 5 ?o"
  let ?s = "demo_cast VNo [2] 7 ?a"
  have "gov_reachable demo_gov_env ?o" by (rule demo_open_reachable) (simp add: demo_payload_def)
  then have "gov_reachable demo_gov_env ?a"
    by (rule gov_reachable.step [OF _ demo_vote_step(2)]) (simp_all add: demo_open_votable, simp add: demo_open_def demo_start_fields)
  then have r: "gov_reachable demo_gov_env ?s"
    by (rule gov_reachable.step [OF _ demo_vote_step(2)]) (simp_all add: demo_open_votable, simp add: demo_cast_def demo_open_def demo_start_fields)
  have u: "gv_untallied ?s = [((0, [1], [1]), ([1], \<lparr>ty_yes = 5, ty_no = 0, ty_abstain = 0\<rparr>)), ((0, [1], [2]), ([1], \<lparr>ty_yes = 0, ty_no = 7, ty_abstain = 0\<rparr>))]"
    by (simp add: demo_cast_def demo_open_def demo_start_fields no_votes_def)
  have t: "gv_tallied ?s = (\<lambda>_. [])" by (simp add: demo_cast_def demo_open_def demo_start_fields)
  have "bt_get (gv_tallied (tally_delegator_votes None ?s) 0) [1] = Some \<lparr>ty_yes = 0, ty_no = 7, ty_abstain = 0\<rparr>"
    using sweep_keeps_last [OF r demo_gov_show, of None 0 "[1]"]
    by (simp add: untallied_votes_def u t swept_for_def bt_get_def tally_add_def no_votes_def)
  then show ?thesis using r u by blast
qed

lemma bt_remove_twice: "bt_wf m \<Longrightarrow> bt_remove k (bt_remove k m) = bt_remove k m"
proof -
  have absent: "k \<notin> fst ` set n \<Longrightarrow> bt_remove k n = n" for n :: "('a \<times> 'b) list" by (induction n) auto
  assume wf: "bt_wf m"
  have "bt_get (bt_remove k m) k = None" using wf by simp
  then show ?thesis using absent bt_mem [of k "bt_remove k m"] by blast
qed

text \<open>C27: A deposit is claimed only of a finished proposal, for its deposit and with its outcome; but the state written by the claim reads as finished, so the
  same claim is accepted again and changes nothing.\<close>

theorem claim_repeats:
  assumes "gov_reachable env s" "inj (se_show_id (ge_stake env))" "claim_check_and_execute a s = Inr t"
  shows "\<exists>out. proposal_state_of s (dc_proposal a) = Inr (Some (SFinished out)) \<and> dc_outcome a = outcome_map (\<lambda>_. ()) out
    \<and> gv_deposits s (dc_proposal a) = Some (dc_deposit a)
    \<and> proposal_state_of t (dc_proposal a) = Inr (Some (SFinished out)) \<and> claim_check_and_execute a t = Inr t"
proof -
  let ?p = "dc_proposal a"
  have inv: "gov_inv env s" using gov_reachable_inv assms(1,2) by blast
  obtain out d where st: "stored_at env s ?p (SFinished out) d" and dep: "gv_deposits s ?p = Some (dc_deposit a)"
    and out: "dc_outcome a = outcome_map (\<lambda>_. ()) out"
    and t: "t = put_proposal_state ?p (SClaimed out) (register_denom (nft_denom ?p (claimed_nft out)) s)"
    by (rule deposit_claim_result [OF inv assms(3)])
  have rt: "proposal_state_of t ?p = Inr (Some (SFinished out))"
    using read_state [of "SFinished out"] st by (simp add: stored_at_def proposal_state_of_def t put_state_fields)
  have "bt_wf (gv_unfinished s)" by (rule gov_invD(3) [OF inv])
  then have "put_proposal_state ?p (SClaimed out) (register_denom (nft_denom ?p (claimed_nft out)) t) = t"
    by (simp add: t put_state_fields register_denom_def bt_remove_twice insert_absorb)
  moreover have "check_proposal_claimable t ?p = Inr ()" "check_proposal_claim_valid_deposit t ?p (dc_deposit a) = Inr ()"
    using rt dep by (simp_all add: check_proposal_claimable_def check_proposal_claim_valid_deposit_def t put_state_fields register_denom_def)
  ultimately have "claim_check_and_execute a t = Inr t" using rt out by (simp add: claim_check_and_execute_def)
  then show ?thesis using stored_reads(1) [OF st] out dep rt by blast
qed

definition demo_claim :: deposit_claim where
  "demo_claim = \<lparr>dc_proposal = 0, dc_deposit = 10000000, dc_outcome = OPassed\<rparr>"

theorem claim_repeats_witness:
  "\<exists>t. claim_check_and_execute demo_claim demo_finished = Inr t \<and> claim_check_and_execute demo_claim t = Inr t"
proof -
  have "\<exists>t. claim_check_and_execute demo_claim demo_finished = Inr t"
    by (simp add: claim_check_and_execute_def demo_claim_def check_proposal_claimable_def check_proposal_claim_valid_deposit_def proposal_state_of_def
        demo_finished_def proposal_state_from_proto_def outcome_from_proto_def demo_open_def)
  then show ?thesis using claim_repeats [OF demo_finished_reachable demo_gov_show] by blast
qed

text \<open>C23: While the powers of the snapshot fit 64 bits and no validator's delegators have used more than its power, the tally is exact and never counts more
  than the total power.\<close>

theorem tally_within_power:
  assumes "gov_reachable env s" "inj (se_show_id (ge_stake env))"
    and "sum_list (map (unat \<circ> snd) (powers_at_start s p)) < 2 ^ 64"
    and "\<And>i pow. (i, pow) \<in> set (powers_at_start s p) \<Longrightarrow> tally_sum (get_or (bt_get (gv_tallied s p) i) no_votes) \<le> unat pow"
  shows "\<exists>t. current_tally s p = Inr t \<and> unat (tally_total t) = unat (ty_yes t) + unat (ty_no t) + unat (ty_abstain t)
    \<and> unat (tally_total t) \<le> unat (total_voting_power_at_proposal_start s p)"
proof -
  have inv: "gov_inv env s" using gov_reachable_inv assms(1,2) by blast
  let ?t = "sum_tallies (map (contribution s p) (powers_at_start s p))"
  have "tally_sum (contribution s p x) \<le> unat (snd x)" if "x \<in> set (powers_at_start s p)" for x
    using contribution_bound [OF assms(4), of "fst x" "snd x"] that by simp
  then have b: "tally_sum ?t \<le> sum_list (map (unat \<circ> snd) (powers_at_start s p))" by (rule sum_bound)
  have "unat (total_voting_power_at_proposal_start s p) = sum_list (map (unat \<circ> snd) (powers_at_start s p))"
    using word_sum_list [of "map snd (powers_at_start s p)"] assms(3) by (simp add: total_voting_power_at_proposal_start_def)
  then have "current_tally s p = Inr ?t \<and> unat (tally_total ?t) = tally_sum ?t \<and> unat (tally_total ?t) \<le> unat (total_voting_power_at_proposal_start s p)"
    using b assms(3) tally_inv [OF inv, of p] tally_sum_total [of ?t] by (simp add: tally_of_proposal_def)
  then show ?thesis unfolding tally_sum_def by blast
qed

theorem tally_within_power_witness:
  "current_tally demo_finished 0 = Inr \<lparr>ty_yes = 5000000, ty_no = 0, ty_abstain = 0\<rparr> \<and> total_voting_power_at_proposal_start demo_finished 0 = 5000000
    \<and> (\<exists>t. current_tally demo_finished 0 = Inr t \<and> unat (tally_total t) \<le> 5000000)"
proof -
  have p: "powers_at_start demo_finished 0 = [([1], 5000000)]" by (simp add: powers_at_start_def demo_finished_def demo_open_def)
  have t: "gv_tallied demo_finished = (\<lambda>_. [])" by (simp add: demo_finished_def demo_open_def demo_start_fields)
  have v: "gv_validator_votes demo_finished 0 = [([1], VYes)]" by (simp add: demo_finished_def)
  have total: "total_voting_power_at_proposal_start demo_finished 0 = 5000000" by (simp add: total_voting_power_at_proposal_start_def p)
  have c: "current_tally demo_finished 0 = Inr \<lparr>ty_yes = 5000000, ty_no = 0, ty_abstain = 0\<rparr>"
    by (simp add: current_tally_def p t v tally_validator_def bt_get_def Let_def no_votes_def tally_add_def tally_total_def saturating_sub_def)
  have "\<exists>x. current_tally demo_finished 0 = Inr x \<and> unat (tally_total x) \<le> unat (total_voting_power_at_proposal_start demo_finished 0)"
    using tally_within_power [OF demo_finished_reachable demo_gov_show, of 0] by (auto simp: p t bt_get_def tally_sum_def no_votes_def)
  then show ?thesis using c total by simp
qed

text \<open>C24: The block before the height of a planned upgrade ends the epoch, so that the upgraded chain starts with a new one, sweeps all delegator votes, and
  its commit halts the chain and leaves the halt bit set.\<close>

theorem upgrade_halts:
  assumes "gov_reachable env s" "gov_step env (GEnd issuance) s t" "inj (se_show_id (ge_stake env))"
    and "sk_height (gv_stake s) = Some h" "gv_next_upgrade t = Some (h + 1)"
  shows "(\<exists>e. sk_epochs (gv_stake s) h = Some e \<and> sk_epochs (gv_stake t) (h + 1) = Some \<lparr>ep_index = ep_index e + 1, ep_start_height = h + 1\<rparr>)
    \<and> (\<forall>k. bt_get (gv_untallied t) k = None) \<and> (\<exists>u. gov_commit t = Inr (True, u) \<and> is_chain_halted u)"
proof -
  have inv: "gov_inv env s" using gov_reachable_inv assms(1,3) by blast
  have run: "gov_app_end_block env h issuance s = Inr t" using assms(2,4) by (elim gov_stepE) simp_all
  obtain u where u: "gov_end_block env s = Inr u" "keeps env s u" "gv_stake u = gv_stake s" using end_block_ok [OF inv assms(4)] by metis
  have wf: "\<And>q. bt_wf (gv_tallied u q)" "bt_wf (gv_untallied u)" using u(2) by (simp_all add: gov_inv_def voters_ok_def)
  let ?w = "gov_end_epoch u"
  obtain un ta where w: "?w = u\<lparr>gv_untallied := un, gv_tallied := ta\<rparr>" using sweep_effect(1) [OF wf, of None] unfolding gov_end_epoch_def by blast
  obtain ending upgrade where up: "is_pre_upgrade_height u = Inr upgrade"
    and k: "and_then (app_end_block (ge_stake env) h issuance upgrade (gv_stake (if ending \<or> upgrade then ?w else u)))
      (\<lambda>k. Inr ((if ending \<or> upgrade then ?w else u)\<lparr>gv_stake := k\<rparr>)) = Inr t"
    using run u(1) unfolding gov_app_end_block_def Let_def by (elim and_then_InrE) (auto simp: result_simps)
  have next_u: "gv_next_upgrade u = Some (h + 1)" using k assms(5) by (auto simp: result_simps w split: if_splits)
  have small: "unat h < 2 ^ 63" using k by (auto simp: result_simps app_end_block_def stake_end_block_def block_height_of_def split: if_splits)
  have sat: "saturating_add h 1 = h + 1" using small by (simp add: saturating_add_def)
  have upgrade using up next_u assms(4) u(3) by (simp add: is_pre_upgrade_height_def get_block_height_def sat)
  then obtain k' where k': "app_end_block (ge_stake env) h issuance True (gv_stake s) = Inr k'" and t: "t = ?w\<lparr>gv_stake := k'\<rparr>"
    using k u(3) by (auto simp: result_simps w)
  obtain e where e: "sk_epochs (gv_stake s) h = Some e" "sk_epochs k' (h + 1) = Some \<lparr>ep_index = ep_index e + 1, ep_start_height = h + 1\<rparr>" "sk_height k' = Some h"
    by (rule upgraded_block [OF gov_invD(1) [OF inv] assms(3,4) k'])
  have "bt_get (gv_untallied t) key = None" for key using sweep_effect(5) [OF wf, of None key] by (simp add: t gov_end_epoch_def)
  moreover have "is_pre_upgrade_height t = Inr True"
    using e(3) next_u sat by (simp add: is_pre_upgrade_height_def get_block_height_def t w)
  then have "\<exists>x. gov_commit t = Inr (True, x) \<and> is_chain_halted x" by (simp add: gov_commit_def signal_halt_def is_chain_halted_def)
  ultimately show ?thesis using e(1,2) by (simp add: t)
qed

theorem upgrade_halts_witness:
  "\<exists>t u. gov_step demo_gov_env (GEnd 0) (demo_voted (PUpgradePlan 1)) t \<and> gov_commit t = Inr (True, u) \<and> is_chain_halted u"
proof -
  obtain t where t: "gov_step demo_gov_env (GEnd 0) (demo_voted (PUpgradePlan 1)) t" "gv_next_upgrade t = Some 1" using demo_end_step by blast
  have "gov_reachable demo_gov_env (demo_voted (PUpgradePlan 1))" by (rule demo_voted_reachable) (simp add: demo_payload_def)
  moreover have "sk_height (gv_stake (demo_voted (PUpgradePlan 1))) = Some 0"
    by (simp add: demo_voted_def demo_cast_def demo_open_def demo_start_fields demo_stake_fields)
  ultimately show ?thesis using upgrade_halts [OF _ t(1) demo_gov_show] t by fastforce
qed

end
